(* ===== verification/Prelude.thy ===== *)
theory Prelude
  imports Main "HOL-Library.Word" "HOL-Library.Multiset"
begin

text \<open>
  Shared vocabulary of the development: the machine integers of the C++ code, the
  generic list operations that stand for \<open>std::find_if\<close>, in-place update through the
  found iterator and \<open>erase\<close> on a \<open>std::vector\<close>, and the locale of a guarded
  machine (a state, operations that either act or report an error, an invariant) in
  which reachability is proved once for every stateful component.
\<close>

section \<open>Machine integers\<close>

type_synonym u8 = "8 word"
type_synonym u16 = "16 word"
type_synonym u32 = "32 word"
type_synonym u64 = "64 word"

named_theorems word_nat \<open>reading machine integers as natural numbers\<close>

abbreviation u32_max :: u32 where "u32_max \<equiv> - 1"
abbreviation u64_max :: u64 where "u64_max \<equiv> - 1"

lemma unat_u64_max [word_nat]: "unat u64_max = 2 ^ 64 - 1"
  by (simp add: unsigned_minus_1_eq_mask mask_eq_exp_minus_1)

lemma unat_u32_max [word_nat]: "unat u32_max = 2 ^ 32 - 1"
  by (simp add: unsigned_minus_1_eq_mask mask_eq_exp_minus_1)

lemma unat_u64_lt: "unat (x :: u64) < 2 ^ 64"
  using unsigned_less [of x] by simp

lemma unat_u32_lt: "unat (x :: u32) < 2 ^ 32"
  using unsigned_less [of x] by simp

lemma unat_ucast_u32_u64 [simp]: "unat (ucast (x :: u32) :: u64) = unat x"
  using unat_u32_lt [of x] by (simp add: unsigned_ucast_eq take_bit_nat_eq_self)

lemma unat_u8_lt: "unat (x :: u8) < 256"
  using unsigned_less [of x, where ?'a = nat] by simp

lemma unat_ucast_u8 [simp]:
  "unat (ucast (x :: u8) :: u32) = unat x" "unat (ucast (x :: u8) :: u64) = unat x"
  using unat_u8_lt [of x] by (simp_all add: unsigned_ucast_eq take_bit_nat_eq_self)

lemma unat_ucast_to_u8:
  "unat (x :: u32) < 256 \<Longrightarrow> unat (ucast x :: u8) = unat x"
  "unat (y :: u64) < 256 \<Longrightarrow> unat (ucast y :: u8) = unat y"
  by (simp_all add: unsigned_ucast_eq take_bit_nat_eq_self)

lemma unat_inject: "unat x = unat y \<longleftrightarrow> x = (y :: 'a::len word)"
  by (simp add: word_unat_eq_iff)

lemma unat_u64_plus: "unat x + unat y < 2 ^ 64 \<Longrightarrow> unat (x + y :: u64) = unat x + unat y"
  by (simp add: unat_word_ariths)

lemma unat_u64_times: "unat x * unat y < 2 ^ 64 \<Longrightarrow> unat (x * y :: u64) = unat x * unat y"
  by (simp add: unat_word_ariths)

lemma unat_u32_plus: "unat x + unat y < 2 ^ 32 \<Longrightarrow> unat (x + y :: u32) = unat x + unat y"
  by (simp add: unat_word_ariths)

lemma unat_u64_of_nat: "n < 2 ^ 64 \<Longrightarrow> unat (of_nat n :: u64) = n"
  by (simp add: unat_of_nat)

lemma unat_u32_of_nat: "n < 2 ^ 32 \<Longrightarrow> unat (of_nat n :: u32) = n"
  by (simp add: unat_of_nat)

lemma unat_word_minus: "b \<le> (a :: 'a::len word) \<Longrightarrow> unat (a - b) = unat a - unat b"
  by (simp add: unat_sub)

lemma unat_plus_one: "x \<noteq> - 1 \<Longrightarrow> unat (x + 1 :: 'a::len word) = unat x + 1"
  by (metis add.commute add.inverse_inverse add_eq_0_iff2 add_minus_cancel unatSuc Suc_eq_plus1)

section \<open>Vectors searched by key\<close>

text \<open>
  \<open>find_if\<close> is \<^const>\<open>List.find\<close>; a write through the found pointer changes the first
  match and \<open>erase (iterator)\<close> removes it.
\<close>

fun update_first :: "('a \<Rightarrow> bool) \<Rightarrow> ('a \<Rightarrow> 'a) \<Rightarrow> 'a list \<Rightarrow> 'a list" where
  "update_first P f [] = []"
| "update_first P f (x # xs) = (if P x then f x # xs else x # update_first P f xs)"

fun erase_first :: "('a \<Rightarrow> bool) \<Rightarrow> 'a list \<Rightarrow> 'a list" where
  "erase_first P [] = []"
| "erase_first P (x # xs) = (if P x then xs else x # erase_first P xs)"

named_theorems keyed \<open>vectors whose elements have pairwise different keys\<close>

lemma find_SomeD: "List.find P xs = Some x \<Longrightarrow> x \<in> set xs \<and> P x"
  by (induction xs) (auto split: if_splits)

lemma find_None_iff_key [keyed]: "List.find (\<lambda>x. key x = k) xs = None \<longleftrightarrow> k \<notin> key ` set xs"
  by (auto simp: find_None_iff)

lemma find_distinct_key [keyed]:
  "distinct (map key xs) \<Longrightarrow>
     List.find (\<lambda>x. key x = k) xs = Some x \<longleftrightarrow> x \<in> set xs \<and> key x = k"
  by (induction xs) force+

lemma distinct_key_unique:
  "distinct (map key xs) \<Longrightarrow> x \<in> set xs \<Longrightarrow> y \<in> set xs \<Longrightarrow> key x = key y \<Longrightarrow> x = y"
  by (meson distinct_map inj_onD)

lemma map_update_first [simp]:
  "(\<And>x. g (f x) = g x) \<Longrightarrow> map g (update_first P f xs) = map g xs"
  by (induction xs) auto

lemma length_update_first [simp]: "length (update_first P f xs) = length xs"
  by (induction xs) auto

lemma update_first_none: "\<forall>x \<in> set xs. \<not> P x \<Longrightarrow> update_first P f xs = xs"
  by (induction xs) auto

lemma update_first_id: "List.find P xs = Some x \<Longrightarrow> update_first P (\<lambda>_. x) xs = xs"
  by (induction xs) (auto split: if_splits)

lemma mset_update_first:
  "List.find P xs = Some x \<Longrightarrow> add_mset x (mset (update_first P f xs)) = add_mset (f x) (mset xs)"
  by (induction xs) (auto split: if_splits)

lemma set_update_first:
  "distinct (map key xs) \<Longrightarrow> List.find (\<lambda>x. key x = k) xs = Some x \<Longrightarrow>
     set (update_first (\<lambda>x. key x = k) f xs) = insert (f x) (set xs - {x})"
  by (induction xs) (auto simp: update_first_none split: if_splits dest: find_SomeD)

lemma find_update_first:
  "(\<And>x. key (f x) = key x) \<Longrightarrow>
     List.find (\<lambda>x. key x = k') (update_first (\<lambda>x. key x = k) f xs) =
       (if k' = k then map_option f (List.find (\<lambda>x. key x = k) xs)
        else List.find (\<lambda>x. key x = k') xs)"
  by (induction xs) auto

lemma map_update_first_found:
  "List.find P xs = Some x \<Longrightarrow> g (f x) = g x \<Longrightarrow> map g (update_first P f xs) = map g xs"
  by (induction xs) (auto split: if_splits)

lemma find_update_first_found:
  "List.find (\<lambda>x. key x = k) xs = Some x \<Longrightarrow> key (f x) = k \<Longrightarrow>
     List.find (\<lambda>x. key x = k') (update_first (\<lambda>x. key x = k) f xs) =
       (if k' = k then Some (f x) else List.find (\<lambda>x. key x = k') xs)"
  by (induction xs) (auto split: if_splits)

lemma set_update_first_subset:
  "List.find P xs = Some x \<Longrightarrow> set (update_first P f xs) \<subseteq> insert (f x) (set xs)"
  by (induction xs) (auto split: if_splits)

lemma mset_erase_first:
  "List.find P xs = Some x \<Longrightarrow> add_mset x (mset (erase_first P xs)) = mset xs"
  by (induction xs) (auto split: if_splits)

lemma set_erase_first:
  "distinct (map key xs) \<Longrightarrow> List.find (\<lambda>x. key x = k) xs = Some x \<Longrightarrow>
     set (erase_first (\<lambda>x. key x = k) xs) = set xs - {x}"
  by (induction xs) (auto split: if_splits dest: find_SomeD)

lemma set_erase_first_subset: "set (erase_first P xs) \<subseteq> set xs"
  by (induction xs) auto

lemma distinct_erase_first [simp]:
  "distinct (map key xs) \<Longrightarrow> distinct (map key (erase_first P xs))"
  using set_erase_first_subset by (induction xs) fastforce+

lemma find_erase_first:
  "distinct (map key xs) \<Longrightarrow>
     List.find (\<lambda>x. key x = k') (erase_first (\<lambda>x. key x = k) xs) =
       (if k' = k then None else List.find (\<lambda>x. key x = k') xs)"
  by (induction xs) (auto simp: find_None_iff_key)

lemma length_erase_first:
  "List.find P xs = Some x \<Longrightarrow> Suc (length (erase_first P xs)) = length xs"
  by (induction xs) (auto split: if_splits)

lemma find_append_new:
  "k \<notin> key ` set xs \<Longrightarrow> key x = k \<Longrightarrow> List.find (\<lambda>x. key x = k) (xs @ [x]) = Some x"
  by (induction xs) auto

lemma find_append_None_Some: "List.find P xs = Some x \<Longrightarrow> List.find P (xs @ ys) = Some x"
  by (induction xs) auto

lemma erase_append_new:
  "k \<notin> key ` set xs \<Longrightarrow> key x = k \<Longrightarrow> erase_first (\<lambda>x. key x = k) (xs @ [x]) = xs"
  by (induction xs) auto

lemma sum_list_map_update:
  "k < length xs \<Longrightarrow>
     sum_list (map g (xs[k := x])) + g (xs ! k) = (sum_list (map g xs) + g x :: 'a :: comm_monoid_add)"
  by (induction xs arbitrary: k) (auto split: nat.splits simp: ac_simps)

section \<open>Guarded machines\<close>

text \<open>
  A stateful component offers operations that take a state and give a reply and a new
  state. The contract is the same everywhere: the constructor establishes an invariant,
  and every operation keeps it. The client facts (the invariant after any run) are proved
  here once.
\<close>

fun run_ops :: "('op \<Rightarrow> 's \<Rightarrow> 'r \<times> 's) \<Rightarrow> 'op list \<Rightarrow> 's \<Rightarrow> 's" where
  "run_ops step [] s = s"
| "run_ops step (x # xs) s = run_ops step xs (snd (step x s))"

locale guarded_machine =
  fixes starts :: "'s \<Rightarrow> bool"
    and step :: "'op \<Rightarrow> 's \<Rightarrow> 'r \<times> 's"
    and inv :: "'s \<Rightarrow> bool"
  assumes start_inv: "starts s \<Longrightarrow> inv s"
    and step_inv: "inv s \<Longrightarrow> inv (snd (step x s))"
begin

lemma run_inv: "inv s \<Longrightarrow> inv (run_ops step xs s)"
  by (induction xs arbitrary: s) (auto intro: step_inv)

lemma reachable_inv: "starts s \<Longrightarrow> inv (run_ops step xs s)"
  by (intro run_inv start_inv)

lemma run_append: "run_ops step (xs @ ys) s = run_ops step ys (run_ops step xs s)"
  by (induction xs arbitrary: s) auto

end

end
