(* ===== verification/Core.thy ===== *)
theory Core
  imports Prelude
begin

text \<open>
  The \<open>core\<close> library: error codes and statuses (\<open>core/status.hpp\<close>), results
  (\<open>core/result.hpp\<close>), allocation outcomes and checked 64-bit arithmetic
  (\<open>core/checked_math.hpp\<close>).
\<close>

section \<open>Status and Result\<close>

datatype error_code =
    Ok
  | Invalid_argument
  | Unsupported_dtype
  | Invalid_shape
  | Invalid_model
  | Arithmetic_overflow
  | Invalid_alignment
  | Allocation_failed
  | Insufficient_memory
  | Insufficient_resources
  | Io_error
  | Invalid_format
  | Invalid_utf8
  | Invalid_json
  | Duplicate_key
  | Resource_limit
  | Truncated_data
  | Invalid_tensor
  | Missing_tensor
  | Unexpected_tensor
  | Hash_mismatch
  | Cuda_backend_failure
  | Cuda_runtime_failure

record status =
  status_code :: error_code
  status_detail :: u32

definition status_ok :: "status \<Rightarrow> bool" where
  "status_ok s \<longleftrightarrow> status_code s = Ok"

definition status_success :: status where
  "status_success = \<lparr>status_code = Ok, status_detail = 0\<rparr>"

definition status_failure_at :: "error_code \<Rightarrow> u32 \<Rightarrow> status" where
  "status_failure_at e d = \<lparr>status_code = e, status_detail = d\<rparr>"

abbreviation status_failure :: "error_code \<Rightarrow> status" where
  "status_failure e \<equiv> status_failure_at e 0"

lemma status_ok_simps [simp]:
  "status_ok status_success"
  "status_ok (status_failure_at e d) \<longleftrightarrow> e = Ok"
  "status_code (status_failure_at e d) = e"
  "status_detail (status_failure_at e d) = d"
  by (simp_all add: status_ok_def status_success_def status_failure_at_def)

lemma status_failure_at_eq [simp]:
  "status_failure_at e d = status_failure_at e' d' \<longleftrightarrow> e = e' \<and> d = d'"
  by (simp add: status_failure_at_def)

lemma status_success_neq [simp]:
  "e \<noteq> Ok \<Longrightarrow> status_success \<noteq> status_failure_at e d"
  "e \<noteq> Ok \<Longrightarrow> status_failure_at e d \<noteq> status_success"
  by (simp_all add: status_success_def status_failure_at_def)

text \<open>
  \<open>Result<T>\<close> is a variant of a value and a status: \<^const>\<open>Inr\<close> is \<open>success\<close>,
  \<^const>\<open>Inl\<close> is \<open>failure\<close>.
\<close>

type_synonym 'a result = "status + 'a"

fun has_value :: "'a result \<Rightarrow> bool" where
  "has_value (Inr _) = True"
| "has_value (Inl _) = False"

fun result_status :: "'a result \<Rightarrow> status" where
  "result_status (Inr _) = status_success"
| "result_status (Inl s) = s"

abbreviation fail :: "error_code \<Rightarrow> 'a result" where
  "fail e \<equiv> Inl (status_failure e)"

text \<open>
  What a throwing allocation did: nothing, \<open>std::bad_alloc\<close> or \<open>std::length_error\<close>.
  The operations that allocate take the outcome of each allocation site as an argument.
\<close>

datatype alloc = Alloc_ok | Bad_alloc | Length_error

fun alloc_error :: "alloc \<Rightarrow> error_code" where
  "alloc_error Alloc_ok = Ok"
| "alloc_error Bad_alloc = Allocation_failed"
| "alloc_error Length_error = Resource_limit"

lemma alloc_error_Ok [simp]: "alloc_error a = Ok \<longleftrightarrow> a = Alloc_ok"
  by (cases a) auto

text \<open>
  Where a function has many allocation sites its first argument is how many of them are
  passed before one throws \<open>std::bad_alloc\<close>: each site takes one from it.
\<close>

definition use_alloc :: "nat \<Rightarrow> nat option" where
  "use_alloc mem = (if mem = 0 then None else Some (mem - 1))"

definition use_reserve :: "nat \<Rightarrow> nat \<Rightarrow> nat option" where
  "use_reserve n mem = (if n = 0 then Some mem else use_alloc mem)"

section \<open>Checked arithmetic\<close>

definition checked_add :: "u64 \<Rightarrow> u64 \<Rightarrow> u64 result" where
  "checked_add lhs rhs =
     (if rhs > u64_max - lhs then fail Arithmetic_overflow else Inr (lhs + rhs))"

definition checked_multiply :: "u64 \<Rightarrow> u64 \<Rightarrow> u64 result" where
  "checked_multiply lhs rhs =
     (if lhs \<noteq> 0 \<and> rhs > u64_max div lhs then fail Arithmetic_overflow
      else Inr (lhs * rhs))"

lemma checked_add_guard: "rhs > u64_max - lhs \<longleftrightarrow> 2 ^ 64 \<le> unat lhs + unat rhs"
proof -
  have "unat (u64_max - lhs) = 2 ^ 64 - 1 - unat lhs"
    by (simp add: unat_word_minus word_nat)
  then show ?thesis
    using unat_u64_lt [of lhs] by (auto simp: word_less_nat_alt)
qed

lemma checked_multiply_guard:
  "lhs \<noteq> 0 \<and> rhs > u64_max div lhs \<longleftrightarrow> 2 ^ 64 \<le> unat lhs * unat rhs"
proof (cases "lhs = 0")
  case True
  then show ?thesis by simp
next
  case False
  then have pos: "0 < unat lhs" by (simp add: unat_gt_0)
  have "rhs > u64_max div lhs \<longleftrightarrow> (2 ^ 64 - 1) div unat lhs < unat rhs"
    by (simp add: word_less_nat_alt unat_div word_nat)
  also have "\<dots> \<longleftrightarrow> 2 ^ 64 - 1 < unat lhs * unat rhs"
    using pos by (simp add: div_less_iff_less_mult mult.commute)
  finally show ?thesis using False by auto
qed

lemma checked_add_Inr [simp]:
  "checked_add a b = Inr c \<longleftrightarrow> unat a + unat b < 2 ^ 64 \<and> c = a + b"
  by (auto simp: checked_add_def checked_add_guard)

lemma checked_add_Inl:
  "checked_add a b = Inl s \<longleftrightarrow>
     2 ^ 64 \<le> unat a + unat b \<and> s = status_failure Arithmetic_overflow"
  by (auto simp: checked_add_def checked_add_guard)

lemma checked_multiply_Inr [simp]:
  "checked_multiply a b = Inr c \<longleftrightarrow> unat a * unat b < 2 ^ 64 \<and> c = a * b"
  using checked_multiply_guard [of a b] by (auto simp: checked_multiply_def)

lemma checked_multiply_Inl:
  "checked_multiply a b = Inl s \<longleftrightarrow>
     2 ^ 64 \<le> unat a * unat b \<and> s = status_failure Arithmetic_overflow"
  using checked_multiply_guard [of a b] by (auto simp: checked_multiply_def)

end
