(* ===== verification/Scheduler.thy ===== *)
theory Scheduler
  imports Core
begin

text \<open>
  \<open>serving/sequence_scheduler.cpp\<close>: a round-robin scheduler of token sequences. An entry
  is queued, decoding, paused, finished or cancelled; \<open>schedule\<close> scans the entries from
  \<open>next_scan_index_\<close> on, puts the runnable ones into a batch and marks them in flight;
  \<open>complete\<close> takes the tokens a batch emitted. Values of type \<open>size_t\<close> that count or index
  the elements of a vector are natural numbers here.
\<close>

section \<open>Data\<close>

type_synonym sequence_id = u64

datatype sequence_phase = Queued | Decoding | Paused | Finished | Cancelled

datatype work_kind = Prefill | Decode

record sequence_request =
  rq_id :: sequence_id
  rq_prompt_tokens :: u32
  rq_max_output_tokens :: u32

record batch_item =
  bi_id :: sequence_id
  bi_work :: work_kind
  bi_context_tokens :: u32
  bi_slot :: nat

record inference_batch =
  ib_generation :: u64
  ib_items :: "batch_item list"

record sequence_state =
  ss_id :: sequence_id
  ss_phase :: sequence_phase
  ss_prompt_tokens :: u32
  ss_generated_tokens :: u32
  ss_max_output_tokens :: u32
  ss_in_flight :: bool
  ss_cancel_pending :: bool

record scheduler_snapshot =
  sn_generation :: u64
  sn_sequence_count :: nat
  sn_resident_count :: nat
  sn_runnable_count :: nat
  sn_in_flight_count :: nat
  sn_paused_count :: nat
  sn_finished_count :: nat
  sn_cancelled_count :: nat

record entry =
  en_request :: sequence_request
  en_phase :: sequence_phase
  en_resume_phase :: sequence_phase
  en_in_flight_work :: work_kind
  en_generated_tokens :: u32
  en_in_flight :: bool
  en_cancel_pending :: bool

record scheduler =
  sch_entries :: "entry list"
  sch_next_scan_index :: nat
  sch_generation :: u64

abbreviation entry_id :: "entry \<Rightarrow> sequence_id" where
  "entry_id e \<equiv> rq_id (en_request e)"

definition new_scheduler :: scheduler where
  "new_scheduler = \<lparr>sch_entries = [], sch_next_scan_index = 0, sch_generation = 0\<rparr>"

definition new_entry :: "sequence_request \<Rightarrow> entry" where
  "new_entry r = \<lparr>en_request = r, en_phase = Queued, en_resume_phase = Queued,
     en_in_flight_work = Prefill, en_generated_tokens = 0, en_in_flight = False,
     en_cancel_pending = False\<rparr>"

section \<open>Operations\<close>

definition is_terminal :: "sequence_phase \<Rightarrow> bool" where
  "is_terminal p \<longleftrightarrow> p = Finished \<or> p = Cancelled"

definition is_runnable :: "entry \<Rightarrow> bool" where
  "is_runnable e \<longleftrightarrow> \<not> en_in_flight e \<and> \<not> en_cancel_pending e \<and>
     (en_phase e = Queued \<or> en_phase e = Decoding)"

definition find_entry :: "scheduler \<Rightarrow> sequence_id \<Rightarrow> entry option" where
  "find_entry s i = List.find (\<lambda>e. entry_id e = i) (sch_entries s)"

text \<open>A write through the pointer that \<open>find\<close> returned.\<close>

definition set_entry :: "sequence_id \<Rightarrow> (entry \<Rightarrow> entry) \<Rightarrow> scheduler \<Rightarrow> scheduler" where
  "set_entry i f s = s\<lparr>sch_entries := update_first (\<lambda>e. entry_id e = i) f (sch_entries s)\<rparr>"

definition enqueue :: "alloc \<Rightarrow> sequence_request \<Rightarrow> scheduler \<Rightarrow> status \<times> scheduler" where
  "enqueue a request s =
     (if rq_id request = 0 \<or> rq_prompt_tokens request = 0 \<or> rq_max_output_tokens request = 0 \<or>
         rq_prompt_tokens request > u32_max - rq_max_output_tokens request \<or>
         find_entry s (rq_id request) \<noteq> None
      then (status_failure Invalid_argument, s)
      else if a \<noteq> Alloc_ok then (status_failure (alloc_error a), s)
      else (status_success, s\<lparr>sch_entries := sch_entries s @ [new_entry request]\<rparr>))"

text \<open>
  The scan of \<open>schedule\<close>: the indices in the order the loop visits them, and the loop
  itself, whose last argument is what \<open>selected\<close> may still take.
\<close>

definition scan_order :: "nat \<Rightarrow> nat \<Rightarrow> nat list" where
  "scan_order start n = map (\<lambda>offset. (start + offset) mod n) [0 ..< n]"

fun select_runnable :: "entry list \<Rightarrow> nat list \<Rightarrow> nat \<Rightarrow> nat list" where
  "select_runnable es [] limit = []"
| "select_runnable es (i # is) limit =
     (if limit = 0 then []
      else if is_runnable (es ! i) then i # select_runnable es is (limit - 1)
      else select_runnable es is limit)"

definition batch_item_for :: "nat \<Rightarrow> entry \<Rightarrow> batch_item" where
  "batch_item_for slot e =
     \<lparr>bi_id = entry_id e,
      bi_work = (if en_phase e = Queued then Prefill else Decode),
      bi_context_tokens = rq_prompt_tokens (en_request e) + en_generated_tokens e,
      bi_slot = slot\<rparr>"

fun batch_items :: "entry list \<Rightarrow> nat list \<Rightarrow> nat \<Rightarrow> batch_item list" where
  "batch_items es [] slot = []"
| "batch_items es (i # is) slot = batch_item_for slot (es ! i) # batch_items es is (Suc slot)"

fun mark_in_flight :: "entry list \<Rightarrow> nat list \<Rightarrow> batch_item list \<Rightarrow> entry list" where
  "mark_in_flight es (i # is) (b # bs) =
     mark_in_flight (es[i := (es ! i)\<lparr>en_in_flight := True, en_in_flight_work := bi_work b\<rparr>]) is bs"
| "mark_in_flight es _ _ = es"

text \<open>\<open>a1\<close> is the outcome of \<open>selected.reserve\<close>, \<open>a2\<close> of \<open>batch.items.reserve\<close>.\<close>

definition schedule ::
  "alloc \<Rightarrow> alloc \<Rightarrow> u64 \<Rightarrow> scheduler \<Rightarrow> inference_batch result \<times> scheduler" where
  "schedule a1 a2 maximum_sequences s =
     (let es = sch_entries s; n = length es;
          empty_batch = \<lparr>ib_generation = sch_generation s, ib_items = []\<rparr>
      in
        if maximum_sequences = 0 then (fail Invalid_argument, s)
        else if es = [] then (Inr empty_batch, s)
        else if a1 \<noteq> Alloc_ok then (fail (alloc_error a1), s)
        else
          let limit = min (unat maximum_sequences) n;
              start = sch_next_scan_index s mod n;
              selected = select_runnable es (scan_order start n) limit
          in
            if selected = [] then (Inr empty_batch, s)
            else if sch_generation s = u64_max then (fail Arithmetic_overflow, s)
            else if a2 \<noteq> Alloc_ok then (fail (alloc_error a2), s)
            else
              let items = batch_items es selected 0;
                  generation = sch_generation s + 1
              in (Inr \<lparr>ib_generation = generation, ib_items = items\<rparr>,
                  s\<lparr>sch_generation := generation,
                    sch_entries := mark_in_flight es selected items,
                    sch_next_scan_index := (last selected + 1) mod n\<rparr>))"

definition complete_entry :: "u32 \<Rightarrow> bool \<Rightarrow> entry \<Rightarrow> status \<times> entry" where
  "complete_entry emitted_tokens terminal e0 =
     (let e = e0\<lparr>en_in_flight := False\<rparr> in
        if en_cancel_pending e
        then (status_success, e\<lparr>en_cancel_pending := False, en_phase := Cancelled\<rparr>)
        else
          let remaining = rq_max_output_tokens (en_request e) - en_generated_tokens e in
            if emitted_tokens > remaining
            then (status_failure Invalid_argument, e\<lparr>en_in_flight := True\<rparr>)
            else
              let e1 = e\<lparr>en_generated_tokens := en_generated_tokens e + emitted_tokens\<rparr>
              in (status_success,
                  e1\<lparr>en_phase :=
                       (if terminal \<or>
                           en_generated_tokens e1 = rq_max_output_tokens (en_request e1)
                        then Finished else Decoding)\<rparr>))"

definition complete :: "sequence_id \<Rightarrow> u32 \<Rightarrow> bool \<Rightarrow> scheduler \<Rightarrow> status \<times> scheduler" where
  "complete i emitted_tokens terminal s =
     (case find_entry s i of
        None \<Rightarrow> (status_failure Invalid_argument, s)
      | Some e \<Rightarrow>
          if \<not> en_in_flight e \<or> (emitted_tokens = 0 \<and> \<not> terminal)
          then (status_failure Invalid_argument, s)
          else (let (st, e') = complete_entry emitted_tokens terminal e
                in (st, set_entry i (\<lambda>_. e') s)))"

definition pause :: "sequence_id \<Rightarrow> scheduler \<Rightarrow> status \<times> scheduler" where
  "pause i s =
     (case find_entry s i of
        None \<Rightarrow> (status_failure Invalid_argument, s)
      | Some e \<Rightarrow>
          if en_in_flight e \<or> is_terminal (en_phase e) then (status_failure Invalid_argument, s)
          else if en_phase e = Paused then (status_success, s)
          else (status_success,
                set_entry i (\<lambda>e. e\<lparr>en_resume_phase := en_phase e, en_phase := Paused\<rparr>) s))"

definition resume :: "sequence_id \<Rightarrow> scheduler \<Rightarrow> status \<times> scheduler" where
  "resume i s =
     (case find_entry s i of
        None \<Rightarrow> (status_failure Invalid_argument, s)
      | Some e \<Rightarrow>
          if en_phase e \<noteq> Paused then (status_failure Invalid_argument, s)
          else (status_success, set_entry i (\<lambda>e. e\<lparr>en_phase := en_resume_phase e\<rparr>) s))"

definition cancel :: "sequence_id \<Rightarrow> scheduler \<Rightarrow> status \<times> scheduler" where
  "cancel i s =
     (case find_entry s i of
        None \<Rightarrow> (status_failure Invalid_argument, s)
      | Some e \<Rightarrow>
          if en_phase e = Finished then (status_failure Invalid_argument, s)
          else if en_phase e = Cancelled then (status_success, s)
          else if en_in_flight e
          then (status_success, set_entry i (\<lambda>e. e\<lparr>en_cancel_pending := True\<rparr>) s)
          else (status_success, set_entry i (\<lambda>e. e\<lparr>en_phase := Cancelled\<rparr>) s))"

definition state_of :: "sequence_id \<Rightarrow> scheduler \<Rightarrow> sequence_state result" where
  "state_of i s =
     (case find_entry s i of
        None \<Rightarrow> fail Invalid_argument
      | Some e \<Rightarrow>
          Inr \<lparr>ss_id = entry_id e, ss_phase = en_phase e,
               ss_prompt_tokens = rq_prompt_tokens (en_request e),
               ss_generated_tokens = en_generated_tokens e,
               ss_max_output_tokens = rq_max_output_tokens (en_request e),
               ss_in_flight = en_in_flight e, ss_cancel_pending = en_cancel_pending e\<rparr>)"

definition count_entry :: "entry \<Rightarrow> scheduler_snapshot \<Rightarrow> scheduler_snapshot" where
  "count_entry e r = r\<lparr>
     sn_in_flight_count := sn_in_flight_count r + (if en_in_flight e then 1 else 0),
     sn_paused_count := sn_paused_count r + (if en_phase e = Paused then 1 else 0),
     sn_finished_count := sn_finished_count r + (if en_phase e = Finished then 1 else 0),
     sn_cancelled_count := sn_cancelled_count r + (if en_phase e = Cancelled then 1 else 0),
     sn_resident_count := sn_resident_count r + (if \<not> is_terminal (en_phase e) then 1 else 0),
     sn_runnable_count := sn_runnable_count r + (if is_runnable e then 1 else 0)\<rparr>"

definition snapshot :: "scheduler \<Rightarrow> scheduler_snapshot" where
  "snapshot s = fold count_entry (sch_entries s)
     \<lparr>sn_generation = sch_generation s, sn_sequence_count = length (sch_entries s),
      sn_resident_count = 0, sn_runnable_count = 0, sn_in_flight_count = 0,
      sn_paused_count = 0, sn_finished_count = 0, sn_cancelled_count = 0\<rparr>"

end
