(* ===== verification/PagedKv.thy ===== *)
theory PagedKv
  imports Scheduler
begin

text \<open>
  \<open>serving/paged_kv_cache.cpp\<close>: logical ownership of key/value pages. A page is free,
  reserved by a pending reservation, owned by one sequence, or part of a published
  prefix. \<open>reserve\<close> picks free pages, \<open>commit\<close> moves them to the sequence, \<open>rollback\<close>
  returns them; \<open>publish_prefix\<close> freezes a sequence's pages so that other sequences can
  attach to them.
\<close>

section \<open>Data\<close>

type_synonym kv_page_id = u32
type_synonym prefix_id = u64
type_synonym reservation_id = u64

datatype page_state = Free | Reserved | Mutable_sequence | Immutable_prefix

record page =
  pg_state :: page_state
  pg_owner :: u64

definition empty_page :: page where
  "empty_page = \<lparr>pg_state = Free, pg_owner = 0\<rparr>"

record kv_sequence =
  sq_id :: sequence_id
  sq_prefix_id :: prefix_id
  sq_prefix_tokens :: u32
  sq_total_tokens :: u32
  sq_suffix_pages :: "kv_page_id list"

record kv_prefix =
  pf_id :: prefix_id
  pf_token_count :: u32
  pf_attachments :: u64
  pf_pages :: "kv_page_id list"

record pending_reservation =
  rv_id :: reservation_id
  rv_sequence_id :: sequence_id
  rv_target_token_count :: u32
  rv_pages :: "kv_page_id list"

record kv_reservation =
  res_id :: reservation_id
  res_sequence_id :: sequence_id
  res_target_token_count :: u32
  res_new_pages :: "kv_page_id list"

record kv_page_table =
  pt_sequence_id :: sequence_id
  pt_prefix_id :: prefix_id
  pt_prefix_tokens :: u32
  pt_total_tokens :: u32
  pt_shared_prefix_pages :: u32
  pt_pages :: "kv_page_id list"

record kv_cache_metrics =
  mt_total_pages :: u64
  mt_free_pages :: u64
  mt_pending_pages :: u64
  mt_mutable_pages :: u64
  mt_shared_prefix_pages :: u64
  mt_sequence_count :: u64
  mt_prefix_count :: u64
  mt_prefix_attachments :: u64
  mt_logical_payload_tokens :: u64
  mt_logical_reserved_tokens :: u64
  mt_logical_fragmentation_tokens :: u64
  mt_physical_committed_tokens :: u64

record paged_kv_cache =
  kv_pages :: "page list"
  kv_tokens_per_page :: u32
  kv_sequences :: "kv_sequence list"
  kv_prefixes :: "kv_prefix list"
  kv_reservations :: "pending_reservation list"
  kv_next_reservation_id :: reservation_id

section \<open>Operations\<close>

text \<open>
  The file has its own \<open>checked_add\<close> and \<open>checked_multiply\<close>, which report with a
  \<open>bool\<close> and write the sum through a reference: \<^const>\<open>None\<close> is \<open>false\<close>.
\<close>

definition kv_checked_add :: "u64 \<Rightarrow> u64 \<Rightarrow> u64 option" where
  "kv_checked_add left right =
     (if left > u64_max - right then None else Some (left + right))"

definition kv_checked_multiply :: "u64 \<Rightarrow> u64 \<Rightarrow> u64 option" where
  "kv_checked_multiply left right =
     (if left \<noteq> 0 \<and> right > u64_max div left then None else Some (left * right))"

definition pages_for :: "u32 \<Rightarrow> u32 \<Rightarrow> u64" where
  "pages_for tokens tokens_per_page =
     (ucast tokens + ucast tokens_per_page - 1) div ucast tokens_per_page"

definition kv_create :: "alloc \<Rightarrow> u32 \<Rightarrow> u32 \<Rightarrow> paged_kv_cache result" where
  "kv_create a page_count tokens_per_page =
     (if page_count = 0 \<or> tokens_per_page = 0 then fail Invalid_argument
      else if a \<noteq> Alloc_ok then fail (alloc_error a)
      else Inr \<lparr>kv_pages = replicate (unat page_count) empty_page,
                kv_tokens_per_page = tokens_per_page,
                kv_sequences = [], kv_prefixes = [], kv_reservations = [],
                kv_next_reservation_id = 1\<rparr>)"

definition find_sequence :: "paged_kv_cache \<Rightarrow> sequence_id \<Rightarrow> kv_sequence option" where
  "find_sequence c i = List.find (\<lambda>s. sq_id s = i) (kv_sequences c)"

definition find_prefix :: "paged_kv_cache \<Rightarrow> prefix_id \<Rightarrow> kv_prefix option" where
  "find_prefix c i = List.find (\<lambda>p. pf_id p = i) (kv_prefixes c)"

definition find_reservation ::
  "paged_kv_cache \<Rightarrow> reservation_id \<Rightarrow> pending_reservation option" where
  "find_reservation c i = List.find (\<lambda>r. rv_id r = i) (kv_reservations c)"

definition find_sequence_reservation ::
  "paged_kv_cache \<Rightarrow> sequence_id \<Rightarrow> pending_reservation option" where
  "find_sequence_reservation c i = List.find (\<lambda>r. rv_sequence_id r = i) (kv_reservations c)"

text \<open>The two loops over a page list: the ownership check and the overwrite.\<close>

definition pages_owned :: "page list \<Rightarrow> kv_page_id list \<Rightarrow> page \<Rightarrow> bool" where
  "pages_owned ps ids pg \<longleftrightarrow> list_all (\<lambda>i. unat i < length ps \<and> ps ! unat i = pg) ids"

fun assign_pages :: "page list \<Rightarrow> kv_page_id list \<Rightarrow> page \<Rightarrow> page list" where
  "assign_pages ps [] pg = ps"
| "assign_pages ps (i # ids) pg = assign_pages (ps[unat i := pg]) ids pg"

definition kv_create_sequence ::
  "alloc \<Rightarrow> sequence_id \<Rightarrow> prefix_id \<Rightarrow> paged_kv_cache \<Rightarrow> status \<times> paged_kv_cache" where
  "kv_create_sequence a sequence_id prefix_id c =
     (if sequence_id = 0 \<or> find_sequence c sequence_id \<noteq> None
      then (status_failure Invalid_argument, c)
      else
        let prefix = (if prefix_id = 0 then None else find_prefix c prefix_id)
        in
          if prefix_id \<noteq> 0 \<and>
             (case prefix of None \<Rightarrow> True | Some p \<Rightarrow> pf_attachments p = u64_max)
          then (status_failure Invalid_argument, c)
          else if a \<noteq> Alloc_ok then (status_failure (alloc_error a), c)
          else
            let tokens = (case prefix of None \<Rightarrow> 0 | Some p \<Rightarrow> pf_token_count p)
            in (status_success,
                c\<lparr>kv_sequences := kv_sequences c @
                    [\<lparr>sq_id = sequence_id, sq_prefix_id = prefix_id,
                      sq_prefix_tokens = tokens, sq_total_tokens = tokens,
                      sq_suffix_pages = []\<rparr>],
                  kv_prefixes :=
                    (case prefix of
                       None \<Rightarrow> kv_prefixes c
                     | Some _ \<Rightarrow>
                         update_first (\<lambda>p. pf_id p = prefix_id)
                           (\<lambda>p. p\<lparr>pf_attachments := pf_attachments p + 1\<rparr>)
                           (kv_prefixes c))\<rparr>))"

definition kv_destroy_sequence ::
  "sequence_id \<Rightarrow> paged_kv_cache \<Rightarrow> status \<times> paged_kv_cache" where
  "kv_destroy_sequence sequence_id c =
     (case find_sequence c sequence_id of
        None \<Rightarrow> (status_failure Invalid_argument, c)
      | Some sequence \<Rightarrow>
          if find_sequence_reservation c sequence_id \<noteq> None
          then (status_failure Invalid_argument, c)
          else
            let prefix = (if sq_prefix_id sequence = 0 then None
                          else find_prefix c (sq_prefix_id sequence))
            in
              if sq_prefix_id sequence \<noteq> 0 \<and>
                 (case prefix of None \<Rightarrow> True | Some p \<Rightarrow> pf_attachments p = 0)
              then (status_failure Invalid_format, c)
              else if \<not> pages_owned (kv_pages c) (sq_suffix_pages sequence)
                        \<lparr>pg_state = Mutable_sequence, pg_owner = sequence_id\<rparr>
              then (status_failure Invalid_format, c)
              else (status_success,
                c\<lparr>kv_pages := assign_pages (kv_pages c) (sq_suffix_pages sequence) empty_page,
                  kv_prefixes :=
                    (case prefix of
                       None \<Rightarrow> kv_prefixes c
                     | Some _ \<Rightarrow>
                         update_first (\<lambda>p. pf_id p = sq_prefix_id sequence)
                           (\<lambda>p. p\<lparr>pf_attachments := pf_attachments p - 1\<rparr>)
                           (kv_prefixes c)),
                  kv_sequences :=
                    erase_first (\<lambda>s. sq_id s = sequence_id) (kv_sequences c)\<rparr>))"

text \<open>
  The selection loop of \<open>reserve\<close>: the argument \<open>n\<close> is what \<open>selected\<close> still lacks.
\<close>

fun select_free :: "page list \<Rightarrow> nat \<Rightarrow> nat \<Rightarrow> kv_page_id list" where
  "select_free [] index n = []"
| "select_free (p # ps) index n =
     (if n = 0 then []
      else if pg_state p = Free then of_nat index # select_free ps (Suc index) (n - 1)
      else select_free ps (Suc index) n)"

definition reserve_page_count :: "paged_kv_cache \<Rightarrow> kv_sequence \<Rightarrow> u32 \<Rightarrow> u64" where
  "reserve_page_count c sequence target_token_count =
     (let suffix_tokens = target_token_count - sq_prefix_tokens sequence;
          required_pages = pages_for suffix_tokens (kv_tokens_per_page c);
          existing_pages = of_nat (length (sq_suffix_pages sequence))
      in if required_pages > existing_pages then required_pages - existing_pages else 0)"

text \<open>
  \<open>a1\<close> is the outcome of \<open>selected.reserve\<close>, \<open>a2\<close> that of the two copies of
  \<open>selected\<close> and of \<open>reservations_.push_back\<close>; both come before the first write.
\<close>

definition kv_reserve ::
  "alloc \<Rightarrow> alloc \<Rightarrow> sequence_id \<Rightarrow> u32 \<Rightarrow> paged_kv_cache \<Rightarrow>
     kv_reservation result \<times> paged_kv_cache" where
  "kv_reserve a1 a2 sequence_id target_token_count c =
     (case find_sequence c sequence_id of
        None \<Rightarrow> (fail Invalid_argument, c)
      | Some sequence \<Rightarrow>
          if find_sequence_reservation c sequence_id \<noteq> None \<or>
             target_token_count < sq_total_tokens sequence \<or>
             kv_next_reservation_id c = 0
          then (fail Invalid_argument, c)
          else
            let new_page_count = unat (reserve_page_count c sequence target_token_count)
            in
              if a1 \<noteq> Alloc_ok then (fail (alloc_error a1), c)
              else
                let selected = select_free (kv_pages c) 0 new_page_count
                in
                  if length selected \<noteq> new_page_count then (fail Insufficient_memory, c)
                  else if a2 \<noteq> Alloc_ok then (fail (alloc_error a2), c)
                  else
                    let reservation_id = kv_next_reservation_id c
                    in (Inr \<lparr>res_id = reservation_id, res_sequence_id = sequence_id,
                             res_target_token_count = target_token_count,
                             res_new_pages = selected\<rparr>,
                        c\<lparr>kv_reservations := kv_reservations c @
                            [\<lparr>rv_id = reservation_id, rv_sequence_id = sequence_id,
                              rv_target_token_count = target_token_count,
                              rv_pages = selected\<rparr>],
                          kv_pages := assign_pages (kv_pages c) selected
                            \<lparr>pg_state = Reserved, pg_owner = reservation_id\<rparr>,
                          kv_next_reservation_id := reservation_id + 1\<rparr>))"

definition kv_commit ::
  "alloc \<Rightarrow> reservation_id \<Rightarrow> paged_kv_cache \<Rightarrow> status \<times> paged_kv_cache" where
  "kv_commit a reservation_id c =
     (case find_reservation c reservation_id of
        None \<Rightarrow> (status_failure Invalid_argument, c)
      | Some reservation \<Rightarrow>
          (case find_sequence c (rv_sequence_id reservation) of
             None \<Rightarrow> (status_failure Invalid_format, c)
           | Some sequence \<Rightarrow>
               if \<not> pages_owned (kv_pages c) (rv_pages reservation)
                      \<lparr>pg_state = Reserved, pg_owner = reservation_id\<rparr>
               then (status_failure Invalid_format, c)
               else if a \<noteq> Alloc_ok then (status_failure (alloc_error a), c)
               else (status_success,
                 c\<lparr>kv_sequences :=
                     update_first (\<lambda>s. sq_id s = rv_sequence_id reservation)
                       (\<lambda>s. s\<lparr>sq_suffix_pages := sq_suffix_pages s @ rv_pages reservation,
                             sq_total_tokens := rv_target_token_count reservation\<rparr>)
                       (kv_sequences c),
                   kv_pages := assign_pages (kv_pages c) (rv_pages reservation)
                     \<lparr>pg_state = Mutable_sequence, pg_owner = sq_id sequence\<rparr>,
                   kv_reservations :=
                     erase_first (\<lambda>r. rv_id r = reservation_id) (kv_reservations c)\<rparr>)))"

definition kv_rollback :: "reservation_id \<Rightarrow> paged_kv_cache \<Rightarrow> status \<times> paged_kv_cache" where
  "kv_rollback reservation_id c =
     (case find_reservation c reservation_id of
        None \<Rightarrow> (status_failure Invalid_argument, c)
      | Some reservation \<Rightarrow>
          if \<not> pages_owned (kv_pages c) (rv_pages reservation)
                 \<lparr>pg_state = Reserved, pg_owner = reservation_id\<rparr>
          then (status_failure Invalid_format, c)
          else (status_success,
            c\<lparr>kv_pages := assign_pages (kv_pages c) (rv_pages reservation) empty_page,
              kv_reservations :=
                erase_first (\<lambda>r. rv_id r = reservation_id) (kv_reservations c)\<rparr>))"

definition kv_publish_prefix ::
  "alloc \<Rightarrow> prefix_id \<Rightarrow> sequence_id \<Rightarrow> paged_kv_cache \<Rightarrow> status \<times> paged_kv_cache" where
  "kv_publish_prefix a prefix_id sequence_id c =
     (if prefix_id = 0 then (status_failure Invalid_argument, c)
      else
        (case find_sequence c sequence_id of
           None \<Rightarrow> (status_failure Invalid_argument, c)
         | Some sequence \<Rightarrow>
             if find_prefix c prefix_id \<noteq> None \<or> sq_prefix_id sequence \<noteq> 0 \<or>
                sq_total_tokens sequence = 0 \<or> sq_suffix_pages sequence = [] \<or>
                find_sequence_reservation c sequence_id \<noteq> None
             then (status_failure Invalid_argument, c)
             else if \<not> pages_owned (kv_pages c) (sq_suffix_pages sequence)
                         \<lparr>pg_state = Mutable_sequence, pg_owner = sequence_id\<rparr>
             then (status_failure Invalid_format, c)
             else if a \<noteq> Alloc_ok then (status_failure (alloc_error a), c)
             else (status_success,
               c\<lparr>kv_prefixes := kv_prefixes c @
                   [\<lparr>pf_id = prefix_id, pf_token_count = sq_total_tokens sequence,
                     pf_attachments = 1, pf_pages = sq_suffix_pages sequence\<rparr>],
                 kv_pages := assign_pages (kv_pages c) (sq_suffix_pages sequence)
                   \<lparr>pg_state = Immutable_prefix, pg_owner = prefix_id\<rparr>,
                 kv_sequences :=
                   update_first (\<lambda>s. sq_id s = sequence_id)
                     (\<lambda>s. s\<lparr>sq_prefix_id := prefix_id,
                           sq_prefix_tokens := sq_total_tokens s,
                           sq_suffix_pages := []\<rparr>)
                     (kv_sequences c)\<rparr>)))"

definition kv_destroy_prefix :: "prefix_id \<Rightarrow> paged_kv_cache \<Rightarrow> status \<times> paged_kv_cache" where
  "kv_destroy_prefix prefix_id c =
     (case find_prefix c prefix_id of
        None \<Rightarrow> (status_failure Invalid_argument, c)
      | Some prefix \<Rightarrow>
          if pf_attachments prefix \<noteq> 0 then (status_failure Invalid_argument, c)
          else if \<not> pages_owned (kv_pages c) (pf_pages prefix)
                      \<lparr>pg_state = Immutable_prefix, pg_owner = prefix_id\<rparr>
          then (status_failure Invalid_format, c)
          else (status_success,
            c\<lparr>kv_pages := assign_pages (kv_pages c) (pf_pages prefix) empty_page,
              kv_prefixes := erase_first (\<lambda>p. pf_id p = prefix_id) (kv_prefixes c)\<rparr>))"

definition kv_page_table :: "alloc \<Rightarrow> sequence_id \<Rightarrow> paged_kv_cache \<Rightarrow> kv_page_table result" where
  "kv_page_table a sequence_id c =
     (case find_sequence c sequence_id of
        None \<Rightarrow> fail Invalid_argument
      | Some sequence \<Rightarrow>
          let prefix = (if sq_prefix_id sequence = 0 then None
                        else find_prefix c (sq_prefix_id sequence))
          in
            if sq_prefix_id sequence \<noteq> 0 \<and> prefix = None then fail Invalid_format
            else if a \<noteq> Alloc_ok then fail (alloc_error a)
            else
              let shared = (case prefix of None \<Rightarrow> [] | Some p \<Rightarrow> pf_pages p)
              in Inr \<lparr>pt_sequence_id = sequence_id,
                      pt_prefix_id = sq_prefix_id sequence,
                      pt_prefix_tokens = sq_prefix_tokens sequence,
                      pt_total_tokens = sq_total_tokens sequence,
                      pt_shared_prefix_pages = of_nat (length shared),
                      pt_pages = shared @ sq_suffix_pages sequence\<rparr>)"

subsection \<open>Metrics\<close>

definition empty_metrics :: kv_cache_metrics where
  "empty_metrics =
     \<lparr>mt_total_pages = 0, mt_free_pages = 0, mt_pending_pages = 0, mt_mutable_pages = 0,
      mt_shared_prefix_pages = 0, mt_sequence_count = 0, mt_prefix_count = 0,
      mt_prefix_attachments = 0, mt_logical_payload_tokens = 0,
      mt_logical_reserved_tokens = 0, mt_logical_fragmentation_tokens = 0,
      mt_physical_committed_tokens = 0\<rparr>"

text \<open>One turn of the page loop: count the page and check its owner.\<close>

fun count_page :: "page_state \<Rightarrow> kv_cache_metrics \<Rightarrow> kv_cache_metrics" where
  "count_page Free m = m\<lparr>mt_free_pages := mt_free_pages m + 1\<rparr>"
| "count_page Reserved m = m\<lparr>mt_pending_pages := mt_pending_pages m + 1\<rparr>"
| "count_page Mutable_sequence m = m\<lparr>mt_mutable_pages := mt_mutable_pages m + 1\<rparr>"
| "count_page Immutable_prefix m =
     m\<lparr>mt_shared_prefix_pages := mt_shared_prefix_pages m + 1\<rparr>"

definition owner_is_valid :: "paged_kv_cache \<Rightarrow> kv_page_id \<Rightarrow> page \<Rightarrow> bool" where
  "owner_is_valid c i pg =
     (case pg_state pg of
        Free \<Rightarrow> pg_owner pg = 0
      | Reserved \<Rightarrow>
          (case find_reservation c (pg_owner pg) of
             None \<Rightarrow> False | Some r \<Rightarrow> i \<in> set (rv_pages r))
      | Mutable_sequence \<Rightarrow>
          (case find_sequence c (pg_owner pg) of
             None \<Rightarrow> False | Some s \<Rightarrow> i \<in> set (sq_suffix_pages s))
      | Immutable_prefix \<Rightarrow>
          (case find_prefix c (pg_owner pg) of
             None \<Rightarrow> False | Some p \<Rightarrow> i \<in> set (pf_pages p)))"

fun metrics_pages ::
  "paged_kv_cache \<Rightarrow> nat \<Rightarrow> page list \<Rightarrow> kv_cache_metrics \<Rightarrow> kv_cache_metrics result" where
  "metrics_pages c i [] m = Inr m"
| "metrics_pages c i (pg # pgs) m =
     (if owner_is_valid c (of_nat i) pg
      then metrics_pages c (Suc i) pgs (count_page (pg_state pg) m)
      else fail Invalid_format)"

fun metrics_prefixes :: "kv_prefix list \<Rightarrow> kv_cache_metrics \<Rightarrow> kv_cache_metrics result" where
  "metrics_prefixes [] m = Inr m"
| "metrics_prefixes (p # ps) m =
     (case kv_checked_add (mt_prefix_attachments m) (pf_attachments p) of
        None \<Rightarrow> fail Arithmetic_overflow
      | Some attached \<Rightarrow> metrics_prefixes ps (m\<lparr>mt_prefix_attachments := attached\<rparr>))"

fun metrics_sequences ::
  "paged_kv_cache \<Rightarrow> kv_sequence list \<Rightarrow> kv_cache_metrics \<Rightarrow> kv_cache_metrics result" where
  "metrics_sequences c [] m = Inr m"
| "metrics_sequences c (s # ss) m =
     (case kv_checked_add (mt_logical_payload_tokens m) (ucast (sq_total_tokens s)) of
        None \<Rightarrow> fail Arithmetic_overflow
      | Some payload \<Rightarrow>
          let prefix = (if sq_prefix_id s = 0 then None else find_prefix c (sq_prefix_id s))
          in
            if sq_prefix_id s \<noteq> 0 \<and> prefix = None then fail Invalid_format
            else
              let logical_pages =
                    of_nat (length (sq_suffix_pages s)) +
                    (case prefix of None \<Rightarrow> 0 | Some p \<Rightarrow> of_nat (length (pf_pages p)))
              in
                (case kv_checked_multiply logical_pages (ucast (kv_tokens_per_page c)) of
                   None \<Rightarrow> fail Arithmetic_overflow
                 | Some logical_capacity \<Rightarrow>
                     (case kv_checked_add (mt_logical_reserved_tokens m) logical_capacity of
                        None \<Rightarrow> fail Arithmetic_overflow
                      | Some reserved \<Rightarrow>
                          metrics_sequences c ss
                            (m\<lparr>mt_logical_payload_tokens := payload,
                               mt_logical_reserved_tokens := reserved\<rparr>))))"

definition kv_metrics :: "paged_kv_cache \<Rightarrow> kv_cache_metrics result" where
  "kv_metrics c =
     (case metrics_pages c 0 (kv_pages c)
             (empty_metrics\<lparr>mt_total_pages := of_nat (length (kv_pages c)),
                            mt_sequence_count := of_nat (length (kv_sequences c)),
                            mt_prefix_count := of_nat (length (kv_prefixes c))\<rparr>) of
        Inl e \<Rightarrow> Inl e
      | Inr m1 \<Rightarrow>
      (case metrics_prefixes (kv_prefixes c) m1 of
        Inl e \<Rightarrow> Inl e
      | Inr m2 \<Rightarrow>
      (case metrics_sequences c (kv_sequences c) m2 of
        Inl e \<Rightarrow> Inl e
      | Inr m3 \<Rightarrow>
          if mt_logical_payload_tokens m3 > mt_logical_reserved_tokens m3
          then fail Invalid_format
          else
            (case kv_checked_multiply (mt_mutable_pages m3 + mt_shared_prefix_pages m3)
                    (ucast (kv_tokens_per_page c)) of
               None \<Rightarrow> fail Arithmetic_overflow
             | Some committed \<Rightarrow>
                 Inr (m3\<lparr>mt_logical_fragmentation_tokens :=
                           mt_logical_reserved_tokens m3 - mt_logical_payload_tokens m3,
                         mt_physical_committed_tokens := committed\<rparr>)))))"

end
