(* ===== verification/PagedKvInv.thy ===== *)
theory PagedKvInv
  imports PagedKv
begin

text \<open>
  The ownership invariant of the paged KV cache and its preservation by every operation.
  The claims of a cache are all (page id, expected page record) pairs that its pending
  reservations, sequences and prefixes hold; the page vector must agree with them, no
  page is claimed twice, and every unclaimed page is free.
\<close>

section \<open>A page vector and the claims on it\<close>

type_synonym claim = "kv_page_id \<times> page"

definition claim_pages :: "page_state \<Rightarrow> u64 \<Rightarrow> kv_page_id list \<Rightarrow> claim list" where
  "claim_pages st holder ids = map (\<lambda>i. (i, \<lparr>pg_state = st, pg_owner = holder\<rparr>)) ids"

definition store_ok :: "page list \<Rightarrow> claim list \<Rightarrow> bool" where
  "store_ok ps cl \<longleftrightarrow>
     length ps < 2 ^ 32 \<and> distinct (map fst cl) \<and>
     (\<forall>i pg. (i, pg) \<in> set cl \<longrightarrow>
        unat i < length ps \<and> ps ! unat i = pg \<and> pg_state pg \<noteq> Free) \<and>
     (\<forall>i. unat i < length ps \<and> i \<notin> fst ` set cl \<longrightarrow> ps ! unat i = empty_page)"

lemma claim_pages_append [simp]:
  "claim_pages st h (xs @ ys) = claim_pages st h xs @ claim_pages st h ys"
  "claim_pages st h [] = []"
  by (simp_all add: claim_pages_def)

lemma map_fst_claim_pages [simp]: "map fst (claim_pages st h ids) = ids"
  by (simp add: claim_pages_def comp_def)

lemma fst_set_claim_pages [simp]: "fst ` set (claim_pages st h ids) = set ids"
  by (force simp: claim_pages_def)

lemma set_claim_pages:
  "(i, pg) \<in> set (claim_pages st h ids) \<longleftrightarrow>
     i \<in> set ids \<and> pg = \<lparr>pg_state = st, pg_owner = h\<rparr>"
  by (auto simp: claim_pages_def)

lemma store_ok_perm: "mset cl = mset cl' \<Longrightarrow> store_ok ps cl \<longleftrightarrow> store_ok ps cl'"
proof -
  assume eq: "mset cl = mset cl'"
  then have "mset (map fst cl) = mset (map fst cl')" by simp
  then have "distinct (map fst cl) \<longleftrightarrow> distinct (map fst cl')"
    by (rule mset_eq_imp_distinct_iff)
  moreover from eq have "set cl = set cl'" by (rule mset_eq_setD)
  ultimately show ?thesis by (simp add: store_ok_def)
qed

lemma length_assign_pages [simp]: "length (assign_pages ps ids pg) = length ps"
  by (induction ids arbitrary: ps) auto

lemma assign_pages_Nil_iff [simp]: "assign_pages ps ids pg = [] \<longleftrightarrow> ps = []"
  by (metis length_0_conv length_assign_pages)

lemma nth_assign_pages:
  "unat i < length ps \<Longrightarrow>
     assign_pages ps ids pg ! unat i = (if i \<in> set ids then pg else ps ! unat i)"
  by (induction ids arbitrary: ps) (auto simp: nth_list_update unat_inject)

lemma not_in_set_claim_pages:
  "i \<notin> set ids \<Longrightarrow> (i, pg) \<notin> set (claim_pages st h ids)"
  by (simp add: set_claim_pages)

lemma store_ok_claim:
  assumes ok: "store_ok ps cl" and ids: "distinct ids"
    and free: "\<And>i. i \<in> set ids \<Longrightarrow> unat i < length ps \<and> pg_state (ps ! unat i) = Free"
    and st: "st \<noteq> Free"
  shows "store_ok (assign_pages ps ids \<lparr>pg_state = st, pg_owner = h\<rparr>) (claim_pages st h ids @ cl)"
proof -
  have disj: "\<And>i pg. (i, pg) \<in> set cl \<Longrightarrow> i \<notin> set ids"
    using ok free by (metis store_ok_def)
  then have "set ids \<inter> fst ` set cl = {}" by auto
  then show ?thesis
    using ok ids free st disj unfolding store_ok_def
    by (simp add: set_claim_pages nth_assign_pages image_Un)
qed

lemma store_ok_transfer:
  assumes ok: "store_ok ps (claim_pages st h ids @ cl)" and st: "st' \<noteq> Free"
  shows "store_ok (assign_pages ps ids \<lparr>pg_state = st', pg_owner = h'\<rparr>)
           (claim_pages st' h' ids @ cl)"
proof -
  have "\<And>i pg. (i, pg) \<in> set cl \<Longrightarrow> i \<notin> set ids"
    using ok by (force simp: store_ok_def)
  then show ?thesis
    using ok st unfolding store_ok_def
    by (simp add: set_claim_pages nth_assign_pages image_Un)
qed

lemma store_ok_release:
  assumes ok: "store_ok ps (claim_pages st h ids @ cl)"
  shows "store_ok (assign_pages ps ids empty_page) cl"
proof -
  have "\<And>i pg. (i, pg) \<in> set cl \<Longrightarrow> i \<notin> set ids"
    using ok by (force simp: store_ok_def)
  then show ?thesis
    using ok unfolding store_ok_def
    by (simp add: set_claim_pages nth_assign_pages image_Un)
qed

lemma store_ok_owned:
  "store_ok ps (claim_pages st h ids @ cl) \<Longrightarrow>
     pages_owned ps ids \<lparr>pg_state = st, pg_owner = h\<rparr>"
  by (auto simp: store_ok_def pages_owned_def list_all_iff set_claim_pages)

section \<open>The invariant\<close>

definition npages :: "nat \<Rightarrow> nat \<Rightarrow> nat" where
  "npages tokens per_page = (tokens + per_page - 1) div per_page"

definition res_claims :: "pending_reservation list \<Rightarrow> claim list" where
  "res_claims rs = concat (map (\<lambda>r. claim_pages Reserved (rv_id r) (rv_pages r)) rs)"

definition seq_claims :: "kv_sequence list \<Rightarrow> claim list" where
  "seq_claims ss = concat (map (\<lambda>s. claim_pages Mutable_sequence (sq_id s) (sq_suffix_pages s)) ss)"

definition pf_claims :: "kv_prefix list \<Rightarrow> claim list" where
  "pf_claims ps = concat (map (\<lambda>p. claim_pages Immutable_prefix (pf_id p) (pf_pages p)) ps)"

definition claims :: "paged_kv_cache \<Rightarrow> claim list" where
  "claims c =
     res_claims (kv_reservations c) @ seq_claims (kv_sequences c) @ pf_claims (kv_prefixes c)"

definition seq_tokens :: "kv_sequence \<Rightarrow> nat" where
  "seq_tokens s = unat (sq_total_tokens s) - unat (sq_prefix_tokens s)"

definition seq_ok :: "nat \<Rightarrow> kv_prefix list \<Rightarrow> kv_sequence \<Rightarrow> bool" where
  "seq_ok per_page ps s \<longleftrightarrow>
     sq_id s \<noteq> 0 \<and> sq_prefix_tokens s \<le> sq_total_tokens s \<and>
     length (sq_suffix_pages s) = npages (seq_tokens s) per_page \<and>
     (if sq_prefix_id s = 0 then sq_prefix_tokens s = 0
      else \<exists>p \<in> set ps. pf_id p = sq_prefix_id s \<and> pf_token_count p = sq_prefix_tokens s)"

definition prefix_ok :: "nat \<Rightarrow> kv_sequence list \<Rightarrow> kv_prefix \<Rightarrow> bool" where
  "prefix_ok per_page ss p \<longleftrightarrow>
     pf_id p \<noteq> 0 \<and> pf_token_count p \<noteq> 0 \<and>
     length (pf_pages p) = npages (unat (pf_token_count p)) per_page \<and>
     unat (pf_attachments p) = count_list (map sq_prefix_id ss) (pf_id p)"

definition res_ok :: "nat \<Rightarrow> u64 \<Rightarrow> kv_sequence list \<Rightarrow> pending_reservation \<Rightarrow> bool" where
  "res_ok per_page next ss r \<longleftrightarrow>
     rv_id r \<noteq> 0 \<and> (next \<noteq> 0 \<longrightarrow> rv_id r < next) \<and>
     (\<exists>s \<in> set ss. sq_id s = rv_sequence_id r \<and>
        sq_total_tokens s \<le> rv_target_token_count r \<and>
        length (rv_pages r) + length (sq_suffix_pages s) =
          npages (unat (rv_target_token_count r) - unat (sq_prefix_tokens s)) per_page)"

definition kv_inv :: "paged_kv_cache \<Rightarrow> bool" where
  "kv_inv c \<longleftrightarrow>
     kv_tokens_per_page c \<noteq> 0 \<and> kv_pages c \<noteq> [] \<and>
     store_ok (kv_pages c) (claims c) \<and>
     distinct (map sq_id (kv_sequences c)) \<and>
     distinct (map pf_id (kv_prefixes c)) \<and>
     distinct (map rv_id (kv_reservations c)) \<and>
     distinct (map rv_sequence_id (kv_reservations c)) \<and>
     (\<forall>s \<in> set (kv_sequences c). seq_ok (unat (kv_tokens_per_page c)) (kv_prefixes c) s) \<and>
     (\<forall>p \<in> set (kv_prefixes c). prefix_ok (unat (kv_tokens_per_page c)) (kv_sequences c) p) \<and>
     (\<forall>r \<in> set (kv_reservations c).
        res_ok (unat (kv_tokens_per_page c)) (kv_next_reservation_id c) (kv_sequences c) r)"

lemma mset_concat_map_erase:
  "List.find P xs = Some x \<Longrightarrow>
     mset (concat (map f xs)) = mset (f x) + mset (concat (map f (erase_first P xs)))"
  by (induction xs) (auto split: if_splits)

lemma mset_concat_map_update:
  "List.find P xs = Some x \<Longrightarrow>
     mset (concat (map f (update_first P g xs))) =
       mset (f (g x)) + mset (concat (map f (erase_first P xs)))"
  by (induction xs) (auto split: if_splits)

lemma count_list_erase:
  "List.find P xs = Some x \<Longrightarrow>
     count_list (map g xs) k = (if g x = k then 1 else 0) + count_list (map g (erase_first P xs)) k"
  by (induction xs) (auto split: if_splits)

lemma count_list_update:
  "List.find P xs = Some x \<Longrightarrow>
     count_list (map g (update_first P f xs)) k =
       (if g (f x) = k then 1 else 0) + count_list (map g (erase_first P xs)) k"
  by (induction xs) (auto split: if_splits)

lemma npages_mono: "a \<le> b \<Longrightarrow> npages a k \<le> npages b k"
  by (simp add: npages_def div_le_mono)

lemma npages_0 [simp]: "0 < k \<Longrightarrow> npages 0 k = 0"
  by (simp add: npages_def)

lemma npages_pos: "0 < k \<Longrightarrow> 0 < t \<Longrightarrow> 0 < npages t k"
  by (simp add: npages_def div_greater_zero_iff)

lemma npages_cover: "0 < k \<Longrightarrow> t \<le> npages t k * k"
proof -
  assume k: "0 < k"
  have "(t + k - 1) mod k < k" using k by simp
  moreover have "t + k - 1 = npages t k * k + (t + k - 1) mod k"
    by (simp add: npages_def)
  ultimately show ?thesis using k by linarith
qed

lemma unat_pages_for:
  assumes "k \<noteq> 0"
  shows "unat (pages_for t k) = npages (unat t) (unat k)"
proof -
  have pos: "0 < unat k" using assms by (simp add: unat_gt_0)
  have lt: "unat t + unat k < 2 ^ 64"
    using unat_u32_lt [of t] unat_u32_lt [of k] by simp
  have s: "unat (ucast t + ucast k :: u64) = unat t + unat k"
    using lt by (simp add: unat_u64_plus)
  have "(1 :: u64) \<le> ucast t + ucast k"
    using s pos by (simp add: word_le_nat_alt)
  then have "unat (ucast t + ucast k - 1 :: u64) = unat t + unat k - 1"
    using s by (simp add: unat_word_minus)
  then show ?thesis by (simp add: pages_for_def npages_def unat_div)
qed

lemma kv_inv_tpp: "kv_inv c \<Longrightarrow> 0 < unat (kv_tokens_per_page c)"
  by (simp add: kv_inv_def unat_gt_0)

lemma kv_create_inv:
  assumes "kv_create a n k = Inr c"
  shows "kv_inv c"
proof -
  have "unat n < 2 ^ 32" by (rule unat_u32_lt)
  then show ?thesis
    using assms
    by (auto simp: kv_create_def kv_inv_def claims_def res_claims_def seq_claims_def
        pf_claims_def store_ok_def empty_page_def unat_eq_0 split: if_splits)
qed

section \<open>Every operation keeps the invariant\<close>

text \<open>
  \<open>create_sequence\<close> and \<open>destroy_sequence\<close> move one attachment counter; no other part
  of the invariant reads it.
\<close>

definition add_attachment :: "u64 \<Rightarrow> kv_prefix \<Rightarrow> kv_prefix" where
  "add_attachment d p = p\<lparr>pf_attachments := pf_attachments p + d\<rparr>"

lemma add_attachment_simps [simp]:
  "pf_id (add_attachment d p) = pf_id p"
  "pf_token_count (add_attachment d p) = pf_token_count p"
  "pf_pages (add_attachment d p) = pf_pages p"
  "pf_attachments (add_attachment d p) = pf_attachments p + d"
  by (simp_all add: add_attachment_def)

lemma pf_claims_add_attachment [simp]:
  "pf_claims (update_first P (add_attachment d) ps) = pf_claims ps"
  by (simp add: pf_claims_def)

lemma seq_ok_add_attachment [simp]:
  "seq_ok k (update_first P (add_attachment d) ps) s = seq_ok k ps s"
proof -
  have "(\<lambda>p. (pf_id p, pf_token_count p)) ` set (update_first P (add_attachment d) ps) =
        (\<lambda>p. (pf_id p, pf_token_count p)) ` set ps"
    by (metis (no_types, lifting) add_attachment_simps(1,2) list.set_map map_update_first)
  then have "(\<exists>p \<in> set (update_first P (add_attachment d) ps). pf_id p = a \<and> pf_token_count p = b)
         \<longleftrightarrow> (\<exists>p \<in> set ps. pf_id p = a \<and> pf_token_count p = b)" for a b
    by (smt (verit) image_iff prod.inject)
  then show ?thesis by (simp add: seq_ok_def)
qed

lemma prefix_ok_add_attachment:
  assumes old: "\<forall>r \<in> set ps. prefix_ok k ss r" and dist: "distinct (map pf_id ps)"
    and q: "List.find (\<lambda>q. pf_id q = p) ps = Some q"
    and own: "unat (pf_attachments q + d) = count_list (map sq_prefix_id ss') p"
    and others: "\<And>j. j \<noteq> 0 \<Longrightarrow> j \<noteq> p \<Longrightarrow>
       count_list (map sq_prefix_id ss') j = count_list (map sq_prefix_id ss) j"
  shows "\<forall>r \<in> set (update_first (\<lambda>q. pf_id q = p) (add_attachment d) ps). prefix_ok k ss' r"
proof
  fix r assume "r \<in> set (update_first (\<lambda>q. pf_id q = p) (add_attachment d) ps)"
  moreover have q': "q \<in> set ps" "pf_id q = p" using q find_SomeD by fastforce+
  ultimately consider "r = add_attachment d q" | "r \<in> set ps" "r \<noteq> q"
    using set_update_first [OF dist q, of "add_attachment d"] by auto
  then show "prefix_ok k ss' r"
  proof cases
    case 1
    then show ?thesis using old q' own by (auto simp: prefix_ok_def)
  next
    case 2
    then have "pf_id r \<noteq> p" using q' distinct_key_unique [OF dist] by auto
    then show ?thesis using old 2 others by (simp add: prefix_ok_def)
  qed
qed

lemma prefix_ok_same_counts:
  "(\<And>j. j \<noteq> 0 \<Longrightarrow> count_list (map sq_prefix_id ss') j = count_list (map sq_prefix_id ss) j) \<Longrightarrow>
     prefix_ok k ss p \<Longrightarrow> prefix_ok k ss' p"
  by (simp add: prefix_ok_def)

lemma kv_create_sequence_cases:
  obtains (fails) "snd (kv_create_sequence a i p c) = c"
  | (plain) "p = 0" "i \<noteq> 0" "i \<notin> sq_id ` set (kv_sequences c)"
      "kv_create_sequence a i p c = (status_success, c\<lparr>kv_sequences := kv_sequences c @
         [\<lparr>sq_id = i, sq_prefix_id = 0, sq_prefix_tokens = 0, sq_total_tokens = 0,
           sq_suffix_pages = []\<rparr>]\<rparr>)"
  | (attached) q where "p \<noteq> 0" "i \<noteq> 0" "i \<notin> sq_id ` set (kv_sequences c)"
      "List.find (\<lambda>q. pf_id q = p) (kv_prefixes c) = Some q" "pf_attachments q \<noteq> u64_max"
      "kv_create_sequence a i p c = (status_success, c\<lparr>
         kv_sequences := kv_sequences c @
           [\<lparr>sq_id = i, sq_prefix_id = p, sq_prefix_tokens = pf_token_count q,
             sq_total_tokens = pf_token_count q, sq_suffix_pages = []\<rparr>],
         kv_prefixes := update_first (\<lambda>q. pf_id q = p) (add_attachment 1) (kv_prefixes c)\<rparr>)"
proof (cases "fst (kv_create_sequence a i p c) = status_success")
  case False
  then show ?thesis
    by (intro fails) (auto simp: kv_create_sequence_def Let_def split: if_splits option.splits)
next
  case True
  have upd: "(\<lambda>p. p\<lparr>pf_attachments := pf_attachments p + 1\<rparr>) = add_attachment 1"
    by (simp add: add_attachment_def fun_eq_iff)
  from True have "i \<noteq> 0" "i \<notin> sq_id ` set (kv_sequences c)"
    by (auto simp: kv_create_sequence_def find_sequence_def keyed Let_def split: if_splits)
  then show ?thesis
    using True plain attached
    by (auto simp: kv_create_sequence_def find_prefix_def Let_def upd
        split: if_splits option.splits)
qed

lemma kv_create_sequence_inv:
  assumes inv: "kv_inv c"
  shows "kv_inv (snd (kv_create_sequence a i p c))"
proof (cases rule: kv_create_sequence_cases [of a i p c])
  case fails
  with inv show ?thesis by simp
next
  case plain
  have "\<And>s. s \<in> set (kv_sequences c) \<Longrightarrow> seq_ok (unat (kv_tokens_per_page c)) (kv_prefixes c) s"
    and "\<And>q. q \<in> set (kv_prefixes c) \<Longrightarrow> prefix_ok (unat (kv_tokens_per_page c)) (kv_sequences c) q"
    and "\<And>r. r \<in> set (kv_reservations c) \<Longrightarrow>
      res_ok (unat (kv_tokens_per_page c)) (kv_next_reservation_id c) (kv_sequences c) r"
    using inv unfolding kv_inv_def by blast+
  then show ?thesis
    using inv plain kv_inv_tpp [OF inv]
    by (fastforce simp: kv_inv_def claims_def seq_claims_def seq_ok_def prefix_ok_def res_ok_def
        seq_tokens_def)
next
  case (attached q)
  note parts = inv [unfolded kv_inv_def]
  let ?s = "\<lparr>sq_id = i, sq_prefix_id = p, sq_prefix_tokens = pf_token_count q,
             sq_total_tokens = pf_token_count q, sq_suffix_pages = []\<rparr>"
  have q: "q \<in> set (kv_prefixes c)" "pf_id q = p" using attached(4) find_SomeD by fastforce+
  have "\<forall>r \<in> set (update_first (\<lambda>q. pf_id q = p) (add_attachment 1) (kv_prefixes c)).
          prefix_ok (unat (kv_tokens_per_page c)) (kv_sequences c @ [?s]) r"
    using parts attached q unat_plus_one [of "pf_attachments q"]
    by (intro prefix_ok_add_attachment [where ss = "kv_sequences c"]) (auto simp: prefix_ok_def)
  moreover have "seq_ok (unat (kv_tokens_per_page c)) (kv_prefixes c) ?s"
    using attached q kv_inv_tpp [OF inv] by (auto simp: seq_ok_def seq_tokens_def)
  moreover have "\<forall>r \<in> set (kv_reservations c). res_ok (unat (kv_tokens_per_page c))
      (kv_next_reservation_id c) (kv_sequences c @ [?s]) r"
    using parts by (fastforce simp: res_ok_def)
  ultimately show ?thesis
    using parts attached by (simp add: kv_inv_def claims_def seq_claims_def)
qed

lemma erase_firstD: "x \<in> set (erase_first P xs) \<Longrightarrow> x \<in> set xs"
  by (rule subsetD [OF set_erase_first_subset])

text \<open>
  Claims of the three vectors when one element is taken out, and the ownership checks of
  the code, which the invariant makes succeed.
\<close>

lemma claims_without_reservation:
  "find_reservation c i = Some r \<Longrightarrow>
     mset (claims c) = mset (claim_pages Reserved (rv_id r) (rv_pages r)) +
       mset (claims (c\<lparr>kv_reservations := erase_first (\<lambda>r. rv_id r = i) (kv_reservations c)\<rparr>))"
  unfolding find_reservation_def claims_def res_claims_def
  using mset_concat_map_erase by fastforce

lemma claims_without_sequence:
  "find_sequence c i = Some s \<Longrightarrow>
     mset (claims c) = mset (claim_pages Mutable_sequence (sq_id s) (sq_suffix_pages s)) +
       mset (claims (c\<lparr>kv_sequences := erase_first (\<lambda>s. sq_id s = i) (kv_sequences c)\<rparr>))"
  unfolding find_sequence_def claims_def seq_claims_def
  using mset_concat_map_erase by fastforce

lemma claims_without_prefix:
  "find_prefix c i = Some p \<Longrightarrow>
     mset (claims c) = mset (claim_pages Immutable_prefix (pf_id p) (pf_pages p)) +
       mset (claims (c\<lparr>kv_prefixes := erase_first (\<lambda>p. pf_id p = i) (kv_prefixes c)\<rparr>))"
  unfolding find_prefix_def claims_def pf_claims_def
  using mset_concat_map_erase by fastforce

lemma store_ok_split:
  "store_ok ps cl \<Longrightarrow> mset cl = mset (claim_pages st h ids) + mset cl' \<Longrightarrow>
     store_ok ps (claim_pages st h ids @ cl')"
  using store_ok_perm [of cl "claim_pages st h ids @ cl'"] by simp

lemma find_reservationD:
  "find_reservation c i = Some r \<Longrightarrow> r \<in> set (kv_reservations c) \<and> rv_id r = i"
  unfolding find_reservation_def by (drule find_SomeD) simp

lemma find_sequenceD:
  "find_sequence c i = Some s \<Longrightarrow> s \<in> set (kv_sequences c) \<and> sq_id s = i"
  unfolding find_sequence_def by (drule find_SomeD) simp

lemma find_prefixD:
  "find_prefix c i = Some p \<Longrightarrow> p \<in> set (kv_prefixes c) \<and> pf_id p = i"
  unfolding find_prefix_def by (drule find_SomeD) simp

lemma kv_inv_store: "kv_inv c \<Longrightarrow> store_ok (kv_pages c) (claims c)"
  by (simp add: kv_inv_def)

lemma reservation_owned:
  "kv_inv c \<Longrightarrow> find_reservation c i = Some r \<Longrightarrow>
     pages_owned (kv_pages c) (rv_pages r) \<lparr>pg_state = Reserved, pg_owner = i\<rparr>"
  using store_ok_split [OF kv_inv_store claims_without_reservation] store_ok_owned find_reservationD
  by metis

lemma sequence_owned:
  "kv_inv c \<Longrightarrow> find_sequence c i = Some s \<Longrightarrow>
     pages_owned (kv_pages c) (sq_suffix_pages s) \<lparr>pg_state = Mutable_sequence, pg_owner = i\<rparr>"
  using store_ok_split [OF kv_inv_store claims_without_sequence] store_ok_owned find_sequenceD
  by metis

lemma prefix_owned:
  "kv_inv c \<Longrightarrow> find_prefix c i = Some p \<Longrightarrow>
     pages_owned (kv_pages c) (pf_pages p) \<lparr>pg_state = Immutable_prefix, pg_owner = i\<rparr>"
  using store_ok_split [OF kv_inv_store claims_without_prefix] store_ok_owned find_prefixD
  by metis

lemma kv_inv_seq_ok:
  "kv_inv c \<Longrightarrow> find_sequence c i = Some s \<Longrightarrow>
     seq_ok (unat (kv_tokens_per_page c)) (kv_prefixes c) s"
  using find_sequenceD unfolding kv_inv_def by blast

lemma kv_inv_prefix_ok:
  "kv_inv c \<Longrightarrow> find_prefix c i = Some p \<Longrightarrow>
     prefix_ok (unat (kv_tokens_per_page c)) (kv_sequences c) p"
  using find_prefixD unfolding kv_inv_def by blast

lemma kv_inv_res_ok:
  "kv_inv c \<Longrightarrow> find_reservation c i = Some r \<Longrightarrow>
     res_ok (unat (kv_tokens_per_page c)) (kv_next_reservation_id c) (kv_sequences c) r"
  using find_reservationD unfolding kv_inv_def by blast

lemma attached_prefix:
  assumes inv: "kv_inv c" and s: "find_sequence c i = Some s" and p: "sq_prefix_id s \<noteq> 0"
  obtains q where "find_prefix c (sq_prefix_id s) = Some q" "pf_attachments q \<noteq> 0"
    "pf_token_count q = sq_prefix_tokens s"
proof -
  from kv_inv_seq_ok [OF inv s] p obtain q where q: "q \<in> set (kv_prefixes c)"
    "pf_id q = sq_prefix_id s" "pf_token_count q = sq_prefix_tokens s"
    by (auto simp: seq_ok_def)
  have found: "find_prefix c (sq_prefix_id s) = Some q"
    using inv q by (simp add: kv_inv_def find_prefix_def keyed)
  moreover have "pf_attachments q \<noteq> 0"
    using kv_inv_prefix_ok [OF inv found] q find_sequenceD [OF s]
    by (auto simp: prefix_ok_def count_list_0_iff)
  ultimately show thesis using q that by blast
qed

lemma kv_rollback_inv:
  assumes inv: "kv_inv c"
  shows "kv_inv (snd (kv_rollback i c))"
proof (cases "find_reservation c i")
  case None
  with inv show ?thesis by (simp add: kv_rollback_def)
next
  case (Some r)
  let ?c = "c\<lparr>kv_reservations := erase_first (\<lambda>r. rv_id r = i) (kv_reservations c)\<rparr>"
  have "store_ok (assign_pages (kv_pages c) (rv_pages r) empty_page) (claims ?c)"
    by (rule store_ok_release [OF store_ok_split
          [OF kv_inv_store [OF inv] claims_without_reservation [OF Some]]])
  then show ?thesis
    using inv Some reservation_owned [OF inv Some]
    by (auto simp: kv_rollback_def kv_inv_def claims_def dest!: erase_firstD)
qed

lemma kv_destroy_prefix_inv:
  assumes inv: "kv_inv c"
  shows "kv_inv (snd (kv_destroy_prefix i c))"
proof (cases "\<exists>p. find_prefix c i = Some p \<and> pf_attachments p = 0")
  case False
  with inv show ?thesis by (auto simp: kv_destroy_prefix_def split: option.splits)
next
  case True
  then obtain p where p: "find_prefix c i = Some p" "pf_attachments p = 0" by blast
  let ?c = "c\<lparr>kv_prefixes := erase_first (\<lambda>p. pf_id p = i) (kv_prefixes c)\<rparr>"
  have st: "store_ok (assign_pages (kv_pages c) (pf_pages p) empty_page) (claims ?c)"
    by (rule store_ok_release [OF store_ok_split
          [OF kv_inv_store [OF inv] claims_without_prefix [OF p(1)]]])
  have unattached: "\<forall>s \<in> set (kv_sequences c). sq_prefix_id s \<noteq> i"
    using kv_inv_prefix_ok [OF inv p(1)] p(2) find_prefixD [OF p(1)]
    by (force simp: prefix_ok_def count_list_0_iff)
  have "set (erase_first (\<lambda>p. pf_id p = i) (kv_prefixes c)) = set (kv_prefixes c) - {p}"
    using inv p(1) by (intro set_erase_first) (auto simp: kv_inv_def find_prefix_def)
  then have "seq_ok (unat (kv_tokens_per_page c)) (kv_prefixes ?c) s"
    if "s \<in> set (kv_sequences c)" for s
    using that inv unattached find_prefixD [OF p(1)]
    by (fastforce simp: kv_inv_def seq_ok_def split: if_splits)
  then show ?thesis
    using inv p prefix_owned [OF inv p(1)] st
    by (auto simp: kv_destroy_prefix_def kv_inv_def claims_def dest!: erase_firstD)
qed

lemma kv_destroy_sequence_inv:
  assumes inv: "kv_inv c"
  shows "kv_inv (snd (kv_destroy_sequence i c))"
proof (cases "\<exists>s. find_sequence c i = Some s \<and> find_sequence_reservation c i = None")
  case False
  with inv show ?thesis by (auto simp: kv_destroy_sequence_def split: option.splits)
next
  case True
  then obtain s where s: "find_sequence c i = Some s" and nores: "find_sequence_reservation c i = None"
    by blast
  note parts = inv [unfolded kv_inv_def]
  note s' = find_sequenceD [OF s]
  let ?ss = "erase_first (\<lambda>s. sq_id s = i) (kv_sequences c)"
  have st: "store_ok (assign_pages (kv_pages c) (sq_suffix_pages s) empty_page)
      (claims (c\<lparr>kv_sequences := ?ss\<rparr>))"
    by (rule store_ok_release [OF store_ok_split
          [OF kv_inv_store [OF inv] claims_without_sequence [OF s]]])
  have cnt: "count_list (map sq_prefix_id (kv_sequences c)) j =
      (if sq_prefix_id s = j then 1 else 0) + count_list (map sq_prefix_id ?ss) j" for j
    using s unfolding find_sequence_def by (rule count_list_erase)
  have ss: "set ?ss = set (kv_sequences c) - {s}"
    using parts s by (intro set_erase_first) (auto simp: find_sequence_def)
  have res: "\<forall>r \<in> set (kv_reservations c).
      res_ok (unat (kv_tokens_per_page c)) (kv_next_reservation_id c) ?ss r"
  proof
    fix r assume r: "r \<in> set (kv_reservations c)"
    then have "rv_sequence_id r \<noteq> sq_id s"
      using nores s' by (auto simp: find_sequence_reservation_def find_None_iff)
    moreover from parts r have "res_ok (unat (kv_tokens_per_page c)) (kv_next_reservation_id c)
        (kv_sequences c) r" by blast
    ultimately show "res_ok (unat (kv_tokens_per_page c)) (kv_next_reservation_id c) ?ss r"
      unfolding res_ok_def ss by auto
  qed
  show ?thesis
  proof (cases "sq_prefix_id s = 0")
    case True
    then have "kv_destroy_sequence i c = (status_success, c\<lparr>kv_sequences := ?ss,
        kv_pages := assign_pages (kv_pages c) (sq_suffix_pages s) empty_page\<rparr>)"
      using s nores sequence_owned [OF inv s] by (simp add: kv_destroy_sequence_def)
    moreover have "\<forall>p \<in> set (kv_prefixes c). prefix_ok (unat (kv_tokens_per_page c)) ?ss p"
      using parts cnt True by (auto simp: prefix_ok_def)
    ultimately show ?thesis
      using parts st res by (auto simp: kv_inv_def claims_def dest!: erase_firstD)
  next
    case False
    from attached_prefix [OF inv s False] obtain q where
      q: "find_prefix c (sq_prefix_id s) = Some q" "pf_attachments q \<noteq> 0" by blast
    have upd: "(\<lambda>p. p\<lparr>pf_attachments := pf_attachments p - 1\<rparr>) = add_attachment (- 1)"
      by (simp add: add_attachment_def fun_eq_iff)
    let ?ps = "update_first (\<lambda>p. pf_id p = sq_prefix_id s) (add_attachment (- 1)) (kv_prefixes c)"
    have "kv_destroy_sequence i c = (status_success, c\<lparr>kv_sequences := ?ss, kv_prefixes := ?ps,
        kv_pages := assign_pages (kv_pages c) (sq_suffix_pages s) empty_page\<rparr>)"
      using s nores q False sequence_owned [OF inv s] upd by (simp add: kv_destroy_sequence_def)
    moreover have "\<forall>p \<in> set ?ps. prefix_ok (unat (kv_tokens_per_page c)) ?ss p"
    proof (rule prefix_ok_add_attachment [where ss = "kv_sequences c"])
      show "List.find (\<lambda>p. pf_id p = sq_prefix_id s) (kv_prefixes c) = Some q"
        using q by (simp add: find_prefix_def)
      have "unat (pf_attachments q) = count_list (map sq_prefix_id (kv_sequences c)) (sq_prefix_id s)"
        using kv_inv_prefix_ok [OF inv q(1)] find_prefixD [OF q(1)] by (simp add: prefix_ok_def)
      moreover have "unat (pf_attachments q + - 1) = unat (pf_attachments q) - 1"
        using q(2) by (simp add: unat_minus_one)
      ultimately show "unat (pf_attachments q + - 1) = count_list (map sq_prefix_id ?ss) (sq_prefix_id s)"
        using cnt [of "sq_prefix_id s"] by simp
    qed (use parts cnt in auto)
    ultimately show ?thesis
      using parts st res by (auto simp: kv_inv_def claims_def dest!: erase_firstD)
  qed
qed

text \<open>
  The selection loop picks, in ascending order, free pages only, and finds as many as it
  was asked for whenever there are that many.
\<close>

definition free_count :: "page list \<Rightarrow> nat" where
  "free_count ps = length (filter (\<lambda>p. pg_state p = Free) ps)"

lemma select_free_take:
  "select_free ps k n =
     take n (map of_nat (filter (\<lambda>i. pg_state (ps ! (i - k)) = Free) [k ..< k + length ps]))"
proof (induction ps arbitrary: k n)
  case Nil
  then show ?case by simp
next
  case (Cons p ps)
  have "filter (\<lambda>i. pg_state ((p # ps) ! (i - k)) = Free) [Suc k ..< Suc k + length ps] =
        filter (\<lambda>i. pg_state (ps ! (i - Suc k)) = Free) [Suc k ..< Suc k + length ps]"
    by (rule filter_cong) (auto simp: nth_Cons')
  moreover have "[k ..< k + length (p # ps)] = k # [Suc k ..< Suc k + length ps]"
    by (subst upt_conv_Cons) auto
  ultimately show ?case
    using Cons.IH [of "Suc k"] by (cases n) (auto simp: take_Cons')
qed

lemma select_free_0:
  "select_free ps 0 n = take n (map of_nat (filter (\<lambda>i. pg_state (ps ! i) = Free) [0 ..< length ps]))"
  by (simp add: select_free_take)

lemma free_count_upt:
  "length (filter (\<lambda>i. pg_state (ps ! i) = Free) [0 ..< length ps]) = free_count ps"
proof -
  have "map ((!) ps) (filter (\<lambda>i. pg_state (ps ! i) = Free) [0 ..< length ps]) =
        filter (\<lambda>p. pg_state p = Free) (map ((!) ps) [0 ..< length ps])"
    by (simp add: filter_map comp_def)
  then show ?thesis
    by (metis free_count_def length_map map_nth)
qed

lemma length_select_free: "length (select_free ps 0 n) = min n (free_count ps)"
  by (simp add: select_free_0 free_count_upt min.commute)

lemma select_free_props:
  assumes len: "length ps < 2 ^ 32"
  shows "distinct (select_free ps 0 n)"
    and "i \<in> set (select_free ps 0 n) \<Longrightarrow> unat i < length ps \<and> pg_state (ps ! unat i) = Free"
proof -
  have un: "k < length ps \<Longrightarrow> unat (of_nat k :: u32) = k" for k
    using len by (simp add: unat_u32_of_nat)
  then have inj: "inj_on (of_nat :: nat \<Rightarrow> u32) {0 ..< length ps}"
    by (metis atLeastLessThan_iff inj_onI)
  show "distinct (select_free ps 0 n)"
    unfolding select_free_0
    by (intro distinct_take distinct_map [THEN iffD2] conjI inj_on_subset [OF inj]) auto
  show "i \<in> set (select_free ps 0 n) \<Longrightarrow> unat i < length ps \<and> pg_state (ps ! unat i) = Free"
    unfolding select_free_0 using un by (auto dest!: in_set_takeD)
qed

lemma res_ok_next:
  "res_ok k n ss r \<Longrightarrow> n \<noteq> 0 \<Longrightarrow> res_ok k (n + 1) ss r"
  unfolding res_ok_def using unat_plus_one [of n]
  by (smt (verit) add.inverse_inverse add_eq_0_iff2 less_add_one nat_less_le order_less_trans
      word_less_nat_alt)

lemma unat_reserve_page_count:
  assumes inv: "kv_inv c" and s: "find_sequence c i = Some s" and t: "sq_total_tokens s \<le> t"
  shows "unat (reserve_page_count c s t) + length (sq_suffix_pages s) =
           npages (unat t - unat (sq_prefix_tokens s)) (unat (kv_tokens_per_page c))"
proof -
  let ?k = "kv_tokens_per_page c"
  let ?req = "pages_for (t - sq_prefix_tokens s) ?k"
  note ok = kv_inv_seq_ok [OF inv s, unfolded seq_ok_def]
  have "sq_prefix_tokens s \<le> t" using ok t by auto
  then have req: "unat ?req = npages (unat t - unat (sq_prefix_tokens s)) (unat ?k)"
    using inv by (simp add: unat_pages_for kv_inv_def unat_word_minus)
  have "length (sq_suffix_pages s) \<le> npages (unat t - unat (sq_prefix_tokens s)) (unat ?k)"
    using ok t by (simp add: seq_tokens_def npages_mono word_le_nat_alt)
  then have le: "length (sq_suffix_pages s) \<le> unat ?req" using req by simp
  then have "unat (of_nat (length (sq_suffix_pages s)) :: u64) = length (sq_suffix_pages s)"
    using unat_u64_lt [of ?req] by (simp add: unat_u64_of_nat)
  then show ?thesis
    using le req
    by (auto simp: reserve_page_count_def Let_def word_less_nat_alt unat_word_minus word_le_nat_alt)
qed

lemma kv_reserve_cases:
  obtains (fails) e where "kv_reserve a1 a2 i t c = (Inl e, c)"
  | (reserves) s n where "find_sequence c i = Some s" "find_sequence_reservation c i = None"
      "sq_total_tokens s \<le> t" "kv_next_reservation_id c \<noteq> 0"
      "n = unat (reserve_page_count c s t)" "n \<le> free_count (kv_pages c)"
      "kv_reserve a1 a2 i t c =
         (Inr \<lparr>res_id = kv_next_reservation_id c, res_sequence_id = i,
               res_target_token_count = t, res_new_pages = select_free (kv_pages c) 0 n\<rparr>,
          c\<lparr>kv_reservations := kv_reservations c @
              [\<lparr>rv_id = kv_next_reservation_id c, rv_sequence_id = i,
                rv_target_token_count = t, rv_pages = select_free (kv_pages c) 0 n\<rparr>],
            kv_pages := assign_pages (kv_pages c) (select_free (kv_pages c) 0 n)
              \<lparr>pg_state = Reserved, pg_owner = kv_next_reservation_id c\<rparr>,
            kv_next_reservation_id := kv_next_reservation_id c + 1\<rparr>)"
proof (cases "fst (kv_reserve a1 a2 i t c)")
  case (Inl e)
  then have "kv_reserve a1 a2 i t c = (Inl e, c)"
    by (auto simp: kv_reserve_def Let_def split: option.splits if_splits)
  then show ?thesis by (rule fails)
next
  case (Inr r)
  then obtain s where s: "find_sequence c i = Some s"
    by (auto simp: kv_reserve_def split: option.splits)
  show ?thesis
    by (rule reserves [OF s, of "unat (reserve_page_count c s t)"])
      (use Inr s in \<open>auto simp: kv_reserve_def Let_def length_select_free not_less min_def
         split: if_splits\<close>)
qed

lemma kv_reserve_inv:
  assumes inv: "kv_inv c"
  shows "kv_inv (snd (kv_reserve a1 a2 i t c))"
proof (cases rule: kv_reserve_cases [of a1 a2 i t c])
  case fails
  with inv show ?thesis by simp
next
  case (reserves s n)
  note parts = inv [unfolded kv_inv_def]
  let ?sel = "select_free (kv_pages c) 0 n"
  let ?next = "kv_next_reservation_id c"
  let ?r = "\<lparr>rv_id = ?next, rv_sequence_id = i, rv_target_token_count = t, rv_pages = ?sel\<rparr>"
  let ?rs = "kv_reservations c @ [?r]"
  have lt: "length (kv_pages c) < 2 ^ 32" using parts by (simp add: store_ok_def)
  have "store_ok (assign_pages (kv_pages c) ?sel \<lparr>pg_state = Reserved, pg_owner = ?next\<rparr>)
      (claim_pages Reserved ?next ?sel @ claims c)"
    using parts select_free_props [OF lt] by (intro store_ok_claim) auto
  then have st: "store_ok (assign_pages (kv_pages c) ?sel \<lparr>pg_state = Reserved, pg_owner = ?next\<rparr>)
      (res_claims ?rs @ seq_claims (kv_sequences c) @ pf_claims (kv_prefixes c))"
    by (rule iffD1 [OF store_ok_perm, rotated]) (simp add: claims_def res_claims_def)
  have new: "res_ok (unat (kv_tokens_per_page c)) (?next + 1) (kv_sequences c) ?r"
    using reserves find_sequenceD [OF reserves(1)] unat_reserve_page_count [OF inv reserves(1,3)]
      unat_plus_one [of ?next] length_select_free [of "kv_pages c" n]
    by (auto simp: res_ok_def word_less_nat_alt add_eq_0_iff2)
  have old: "r \<in> set (kv_reservations c) \<Longrightarrow>
      res_ok (unat (kv_tokens_per_page c)) (?next + 1) (kv_sequences c) r" for r
    using parts reserves(4) by (blast intro: res_ok_next)
  have "?next \<notin> rv_id ` set (kv_reservations c)"
    using parts reserves(4) by (force simp: res_ok_def)
  moreover have "i \<notin> rv_sequence_id ` set (kv_reservations c)"
    using reserves(2) by (simp add: find_sequence_reservation_def keyed)
  ultimately show ?thesis
    using parts st new old reserves(7) by (auto simp: kv_inv_def claims_def)
qed

text \<open>
  \<open>commit\<close> and \<open>publish_prefix\<close> rewrite one sequence in place.
\<close>

lemma seq_update_all:
  assumes dist: "distinct (map sq_id ss)" and found: "List.find (\<lambda>s. sq_id s = i) ss = Some s"
    and new: "P (f s)" and old: "\<And>s'. s' \<in> set ss \<Longrightarrow> sq_id s' \<noteq> i \<Longrightarrow> P s'"
  shows "\<forall>s' \<in> set (update_first (\<lambda>s. sq_id s = i) f ss). P s'"
proof -
  have s: "s \<in> set ss" "sq_id s = i" using find_SomeD [OF found] by auto
  then have "s' \<in> set ss - {s} \<Longrightarrow> sq_id s' \<noteq> i" for s'
    using distinct_key_unique [OF dist, of s' s] by auto
  then show ?thesis
    unfolding set_update_first [OF dist found] using new old by auto
qed

lemma seq_update_other:
  assumes dist: "distinct (map sq_id ss)" and found: "List.find (\<lambda>s. sq_id s = i) ss = Some s"
    and s': "s' \<in> set ss" "sq_id s' \<noteq> i"
  shows "s' \<in> set (update_first (\<lambda>s. sq_id s = i) f ss)"
  using set_update_first [OF dist found] s' find_SomeD [OF found] by auto

definition grow :: "kv_page_id list \<Rightarrow> u32 \<Rightarrow> kv_sequence \<Rightarrow> kv_sequence" where
  "grow pages t s = s\<lparr>sq_suffix_pages := sq_suffix_pages s @ pages, sq_total_tokens := t\<rparr>"

lemma grow_simps [simp]:
  "sq_id (grow pages t s) = sq_id s"
  "sq_prefix_id (grow pages t s) = sq_prefix_id s"
  "sq_prefix_tokens (grow pages t s) = sq_prefix_tokens s"
  "sq_total_tokens (grow pages t s) = t"
  "sq_suffix_pages (grow pages t s) = sq_suffix_pages s @ pages"
  by (simp_all add: grow_def)

lemma kv_commit_cases:
  assumes inv: "kv_inv c"
  obtains (fails) "snd (kv_commit a i c) = c" "fst (kv_commit a i c) \<noteq> status_success"
  | (commits) r s where "a = Alloc_ok" "find_reservation c i = Some r"
      "find_sequence c (rv_sequence_id r) = Some s"
      "sq_total_tokens s \<le> rv_target_token_count r"
      "length (rv_pages r) + length (sq_suffix_pages s) =
         npages (unat (rv_target_token_count r) - unat (sq_prefix_tokens s))
           (unat (kv_tokens_per_page c))"
      "kv_commit a i c = (status_success, c\<lparr>
         kv_sequences := update_first (\<lambda>s. sq_id s = rv_sequence_id r)
           (grow (rv_pages r) (rv_target_token_count r)) (kv_sequences c),
         kv_pages := assign_pages (kv_pages c) (rv_pages r)
           \<lparr>pg_state = Mutable_sequence, pg_owner = sq_id s\<rparr>,
         kv_reservations := erase_first (\<lambda>r. rv_id r = i) (kv_reservations c)\<rparr>)"
proof (cases "find_reservation c i")
  case None
  then show ?thesis by (intro fails) (simp_all add: kv_commit_def)
next
  case (Some r)
  from kv_inv_res_ok [OF inv Some] obtain s where s: "s \<in> set (kv_sequences c)"
    "sq_id s = rv_sequence_id r" "sq_total_tokens s \<le> rv_target_token_count r"
    "length (rv_pages r) + length (sq_suffix_pages s) =
       npages (unat (rv_target_token_count r) - unat (sq_prefix_tokens s))
         (unat (kv_tokens_per_page c))"
    by (auto simp: res_ok_def)
  then have found: "find_sequence c (rv_sequence_id r) = Some s"
    using inv by (simp add: kv_inv_def find_sequence_def keyed)
  have upd: "(\<lambda>s. s\<lparr>sq_suffix_pages := sq_suffix_pages s @ rv_pages r,
      sq_total_tokens := rv_target_token_count r\<rparr>) = grow (rv_pages r) (rv_target_token_count r)"
    by (simp add: grow_def fun_eq_iff)
  show ?thesis
  proof (cases "a = Alloc_ok")
    case True
    then show ?thesis
      using Some found s reservation_owned [OF inv Some] upd
      by (intro commits [of r s]) (simp_all add: kv_commit_def)
  next
    case False
    then show ?thesis
      using Some found reservation_owned [OF inv Some]
      by (intro fails) (simp_all add: kv_commit_def)
  qed
qed

lemma kv_commit_inv:
  assumes inv: "kv_inv c"
  shows "kv_inv (snd (kv_commit a i c))"
proof (cases rule: kv_commit_cases [OF inv, of a i])
  case fails: 1
  with inv show ?thesis by simp
next
  case commits: (2 r s)
  note parts = inv [unfolded kv_inv_def]
  let ?f = "grow (rv_pages r) (rv_target_token_count r)"
  let ?ss = "update_first (\<lambda>s. sq_id s = rv_sequence_id r) ?f (kv_sequences c)"
  let ?rs = "erase_first (\<lambda>r. rv_id r = i) (kv_reservations c)"
  have found: "List.find (\<lambda>s. sq_id s = rv_sequence_id r) (kv_sequences c) = Some s"
    using commits(3) by (simp add: find_sequence_def)
  note dist = parts [THEN conjunct2, THEN conjunct2, THEN conjunct2, THEN conjunct1]
  have r: "r \<in> set (kv_reservations c)" "rv_id r = i" using find_reservationD [OF commits(2)] by auto
  have "store_ok (assign_pages (kv_pages c) (rv_pages r)
        \<lparr>pg_state = Mutable_sequence, pg_owner = sq_id s\<rparr>)
      (claim_pages Mutable_sequence (sq_id s) (rv_pages r) @ claims (c\<lparr>kv_reservations := ?rs\<rparr>))"
    by (rule store_ok_transfer [OF store_ok_split
          [OF kv_inv_store [OF inv] claims_without_reservation [OF commits(2)]]]) simp
  then have st: "store_ok (assign_pages (kv_pages c) (rv_pages r)
        \<lparr>pg_state = Mutable_sequence, pg_owner = sq_id s\<rparr>)
      (res_claims ?rs @ seq_claims ?ss @ pf_claims (kv_prefixes c))"
    by (rule iffD1 [OF store_ok_perm, rotated])
      (simp add: claims_def seq_claims_def mset_concat_map_update [OF found]
        mset_concat_map_erase [OF found])
  have rs: "set ?rs = set (kv_reservations c) - {r}"
    using parts commits(2) by (intro set_erase_first) (auto simp: find_reservation_def)
  have seqs: "\<forall>s' \<in> set ?ss. seq_ok (unat (kv_tokens_per_page c)) (kv_prefixes c) s'"
    using parts commits find_sequenceD [OF commits(3)]
    by (intro seq_update_all [OF dist found]) (auto simp: seq_ok_def seq_tokens_def)
  have res: "\<forall>r' \<in> set ?rs. res_ok (unat (kv_tokens_per_page c)) (kv_next_reservation_id c) ?ss r'"
  proof
    fix r' assume r': "r' \<in> set ?rs"
    then have "rv_sequence_id r' \<noteq> rv_sequence_id r"
      using rs parts r distinct_key_unique [of rv_sequence_id "kv_reservations c" r' r] by auto
    moreover have "res_ok (unat (kv_tokens_per_page c)) (kv_next_reservation_id c) (kv_sequences c) r'"
      using parts r' rs by blast
    ultimately show "res_ok (unat (kv_tokens_per_page c)) (kv_next_reservation_id c) ?ss r'"
      unfolding res_ok_def using seq_update_other [OF dist found] by metis
  qed
  show ?thesis
    using parts st seqs res commits(6)
    by (auto simp: kv_inv_def claims_def prefix_ok_def)
qed

definition freeze :: "prefix_id \<Rightarrow> kv_sequence \<Rightarrow> kv_sequence" where
  "freeze p s = s\<lparr>sq_prefix_id := p, sq_prefix_tokens := sq_total_tokens s, sq_suffix_pages := []\<rparr>"

lemma freeze_simps [simp]:
  "sq_id (freeze p s) = sq_id s"
  "sq_prefix_id (freeze p s) = p"
  "sq_prefix_tokens (freeze p s) = sq_total_tokens s"
  "sq_total_tokens (freeze p s) = sq_total_tokens s"
  "sq_suffix_pages (freeze p s) = []"
  by (simp_all add: freeze_def)

lemma kv_publish_prefix_cases:
  assumes inv: "kv_inv c"
  obtains (fails) "snd (kv_publish_prefix a p i c) = c"
  | (publishes) s where "p \<noteq> 0" "find_sequence c i = Some s" "find_prefix c p = None"
      "sq_prefix_id s = 0" "sq_total_tokens s \<noteq> 0" "find_sequence_reservation c i = None"
      "kv_publish_prefix a p i c = (status_success, c\<lparr>
         kv_prefixes := kv_prefixes c @
           [\<lparr>pf_id = p, pf_token_count = sq_total_tokens s, pf_attachments = 1,
             pf_pages = sq_suffix_pages s\<rparr>],
         kv_pages := assign_pages (kv_pages c) (sq_suffix_pages s)
           \<lparr>pg_state = Immutable_prefix, pg_owner = p\<rparr>,
         kv_sequences := update_first (\<lambda>s. sq_id s = i) (freeze p) (kv_sequences c)\<rparr>)"
proof (cases "fst (kv_publish_prefix a p i c) = status_success")
  case False
  then show ?thesis
    by (intro fails) (auto simp: kv_publish_prefix_def split: if_splits option.splits)
next
  case True
  then obtain s where s: "find_sequence c i = Some s"
    by (auto simp: kv_publish_prefix_def split: if_splits option.splits)
  have upd: "(\<lambda>s. s\<lparr>sq_prefix_id := p, sq_prefix_tokens := sq_total_tokens s,
      sq_suffix_pages := []\<rparr>) = freeze p"
    by (simp add: freeze_def fun_eq_iff)
  show ?thesis
    by (rule publishes [OF _ s])
      (use True s in \<open>auto simp: kv_publish_prefix_def upd split: if_splits\<close>)
qed

lemma kv_publish_prefix_inv:
  assumes inv: "kv_inv c"
  shows "kv_inv (snd (kv_publish_prefix a p i c))"
proof (cases rule: kv_publish_prefix_cases [OF inv, of a p i])
  case 1
  with inv show ?thesis by simp
next
  case publishes: (2 s)
  note parts = inv [unfolded kv_inv_def]
  let ?q = "\<lparr>pf_id = p, pf_token_count = sq_total_tokens s, pf_attachments = 1,
             pf_pages = sq_suffix_pages s\<rparr>"
  let ?ss = "update_first (\<lambda>s. sq_id s = i) (freeze p) (kv_sequences c)"
  have found: "List.find (\<lambda>s. sq_id s = i) (kv_sequences c) = Some s"
    using publishes(2) by (simp add: find_sequence_def)
  note dist = parts [THEN conjunct2, THEN conjunct2, THEN conjunct2, THEN conjunct1]
  note sok = kv_inv_seq_ok [OF inv publishes(2)] and sid = find_sequenceD [OF publishes(2)]
  have nop: "p \<notin> pf_id ` set (kv_prefixes c)"
    using publishes(3) by (simp add: find_prefix_def keyed)
  have "store_ok (assign_pages (kv_pages c) (sq_suffix_pages s)
        \<lparr>pg_state = Immutable_prefix, pg_owner = p\<rparr>)
      (claim_pages Immutable_prefix p (sq_suffix_pages s) @
       claims (c\<lparr>kv_sequences := erase_first (\<lambda>s. sq_id s = i) (kv_sequences c)\<rparr>))"
    by (rule store_ok_transfer [OF store_ok_split
          [OF kv_inv_store [OF inv] claims_without_sequence [OF publishes(2)]]]) simp
  then have st: "store_ok (assign_pages (kv_pages c) (sq_suffix_pages s)
        \<lparr>pg_state = Immutable_prefix, pg_owner = p\<rparr>)
      (res_claims (kv_reservations c) @ seq_claims ?ss @ pf_claims (kv_prefixes c @ [?q]))"
    by (rule iffD1 [OF store_ok_perm, rotated])
      (simp add: claims_def seq_claims_def pf_claims_def mset_concat_map_update [OF found])
  have seqs: "\<forall>s' \<in> set ?ss. seq_ok (unat (kv_tokens_per_page c)) (kv_prefixes c @ [?q]) s'"
  proof (rule seq_update_all [OF dist found])
    show "seq_ok (unat (kv_tokens_per_page c)) (kv_prefixes c @ [?q]) (freeze p s)"
      using sok publishes(1) kv_inv_tpp [OF inv] by (simp add: seq_ok_def seq_tokens_def)
    show "seq_ok (unat (kv_tokens_per_page c)) (kv_prefixes c @ [?q]) s'"
      if "s' \<in> set (kv_sequences c)" for s'
    proof -
      have "seq_ok (unat (kv_tokens_per_page c)) (kv_prefixes c) s'" using parts that by blast
      then show ?thesis by (auto simp: seq_ok_def)
    qed
  qed
  have cnt: "count_list (map sq_prefix_id ?ss) j =
      (if j = p then 1 else count_list (map sq_prefix_id (kv_sequences c)) j)" if "j \<noteq> 0" for j
  proof -
    have "p \<notin> sq_prefix_id ` set (kv_sequences c)"
    proof
      assume "p \<in> sq_prefix_id ` set (kv_sequences c)"
      then obtain s' where s': "s' \<in> set (kv_sequences c)" "sq_prefix_id s' = p" by auto
      with parts have "seq_ok (unat (kv_tokens_per_page c)) (kv_prefixes c) s'" by blast
      with s' publishes(1) nop show False by (force simp: seq_ok_def)
    qed
    then have "count_list (map sq_prefix_id (kv_sequences c)) p = 0" by (simp add: count_list_0_iff)
    then show ?thesis
      using that publishes(4) count_list_erase [OF found, of sq_prefix_id j]
        count_list_update [OF found, of sq_prefix_id "freeze p" j] by auto
  qed
  have prefixes: "\<forall>q \<in> set (kv_prefixes c @ [?q]). prefix_ok (unat (kv_tokens_per_page c)) ?ss q"
  proof
    fix q assume "q \<in> set (kv_prefixes c @ [?q])"
    then consider "q = ?q" | "q \<in> set (kv_prefixes c)" by auto
    then show "prefix_ok (unat (kv_tokens_per_page c)) ?ss q"
    proof cases
      case 1
      then show ?thesis using publishes sok cnt [of p] by (simp add: prefix_ok_def seq_ok_def seq_tokens_def)
    next
      case 2
      with parts have "prefix_ok (unat (kv_tokens_per_page c)) (kv_sequences c) q" by blast
      with 2 nop show ?thesis by (auto simp: prefix_ok_def cnt)
    qed
  qed
  have res: "\<forall>r \<in> set (kv_reservations c).
      res_ok (unat (kv_tokens_per_page c)) (kv_next_reservation_id c) ?ss r"
  proof
    fix r assume r: "r \<in> set (kv_reservations c)"
    then have "rv_sequence_id r \<noteq> i"
      using publishes(6) by (auto simp: find_sequence_reservation_def find_None_iff)
    moreover have "res_ok (unat (kv_tokens_per_page c)) (kv_next_reservation_id c) (kv_sequences c) r"
      using parts r by blast
    ultimately show "res_ok (unat (kv_tokens_per_page c)) (kv_next_reservation_id c) ?ss r"
      unfolding res_ok_def using seq_update_other [OF dist found] by metis
  qed
  show ?thesis
    using parts st seqs prefixes res publishes(7) nop
    by (simp add: kv_inv_def claims_def)
qed

section \<open>The cache as a guarded machine\<close>

text \<open>
  Every public call that can change the cache, with the outcomes of its allocations; the
  reply of \<open>reserve\<close> is cut to its status.
\<close>

datatype kv_op =
    Create_sequence alloc sequence_id prefix_id
  | Destroy_sequence sequence_id
  | Reserve alloc alloc sequence_id u32
  | Commit alloc reservation_id
  | Rollback reservation_id
  | Publish_prefix alloc prefix_id sequence_id
  | Destroy_prefix prefix_id

fun kv_step :: "kv_op \<Rightarrow> paged_kv_cache \<Rightarrow> status \<times> paged_kv_cache" where
  "kv_step (Create_sequence a i p) c = kv_create_sequence a i p c"
| "kv_step (Destroy_sequence i) c = kv_destroy_sequence i c"
| "kv_step (Reserve a1 a2 i t) c =
     (let (r, c') = kv_reserve a1 a2 i t c in (result_status r, c'))"
| "kv_step (Commit a i) c = kv_commit a i c"
| "kv_step (Rollback i) c = kv_rollback i c"
| "kv_step (Publish_prefix a p i) c = kv_publish_prefix a p i c"
| "kv_step (Destroy_prefix p) c = kv_destroy_prefix p c"

lemma kv_step_inv: "kv_inv c \<Longrightarrow> kv_inv (snd (kv_step x c))"
  using kv_reserve_inv
  by (cases x)
    (auto simp: kv_create_sequence_inv kv_destroy_sequence_inv kv_commit_inv kv_rollback_inv
      kv_publish_prefix_inv kv_destroy_prefix_inv split: prod.splits, metis snd_conv)

definition kv_starts :: "paged_kv_cache \<Rightarrow> bool" where
  "kv_starts c \<longleftrightarrow> (\<exists>n k. kv_create Alloc_ok n k = Inr c)"

interpretation kv: guarded_machine kv_starts kv_step kv_inv
  by unfold_locales (auto simp: kv_starts_def intro: kv_create_inv kv_step_inv)

end
