(* ===== verification/PagedKvProps.thy ===== *)
theory PagedKvProps
  imports PagedKvInv
begin

text \<open>
  What the paged KV cache promises its callers, in every state a run of its operations
  can reach: exclusive ownership of pages, capacity, error behaviour, round trips of the
  two-phase reservation and exact metrics.
\<close>

definition kv_reachable :: "paged_kv_cache \<Rightarrow> bool" where
  "kv_reachable c \<longleftrightarrow> (\<exists>c0 xs. kv_starts c0 \<and> c = run_ops kv_step xs c0)"

lemma kv_reachable_inv: "kv_reachable c \<Longrightarrow> kv_inv c"
  unfolding kv_reachable_def using kv.reachable_inv by blast

lemma kv_reachable_start: "kv_create Alloc_ok n k = Inr c \<Longrightarrow> kv_reachable c"
  unfolding kv_reachable_def kv_starts_def by (metis run_ops.simps(1))

lemma kv_reachable_step: "kv_reachable c \<Longrightarrow> kv_reachable (snd (kv_step x c))"
  unfolding kv_reachable_def by (metis kv.run_append run_ops.simps)

text \<open>
  A concrete run, for the witnesses: eight pages of sixteen tokens, a prefix of twenty
  tokens published by sequence 1, two sequences attached to it, the first of them grown to
  forty tokens.
\<close>

definition demo_run :: "kv_op list" where
  "demo_run =
     [Create_sequence Alloc_ok 1 0, Reserve Alloc_ok Alloc_ok 1 20, Commit Alloc_ok 1,
      Publish_prefix Alloc_ok 7 1, Create_sequence Alloc_ok 2 7,
      Create_sequence Alloc_ok 3 7, Reserve Alloc_ok Alloc_ok 2 40, Commit Alloc_ok 2]"

definition demo_cache :: paged_kv_cache where
  "demo_cache = run_ops kv_step demo_run (projr (kv_create Alloc_ok 8 16))"

lemma demo_reachable: "kv_reachable demo_cache"
proof -
  have "kv_create Alloc_ok 8 16 = Inr (projr (kv_create Alloc_ok 8 16))"
    by (simp add: kv_create_def)
  then show ?thesis
    unfolding kv_reachable_def demo_cache_def kv_starts_def by blast
qed

section \<open>Who holds a page\<close>

lemma claim_unique:
  "kv_inv c \<Longrightarrow> (i, pg) \<in> set (claims c) \<Longrightarrow> (i, pg') \<in> set (claims c) \<Longrightarrow> pg = pg'"
  using kv_inv_store unfolding store_ok_def by blast

lemma sequence_claim:
  "s \<in> set (kv_sequences c) \<Longrightarrow> i \<in> set (sq_suffix_pages s) \<Longrightarrow>
     (i, \<lparr>pg_state = Mutable_sequence, pg_owner = sq_id s\<rparr>) \<in> set (claims c)"
  by (auto simp: claims_def seq_claims_def set_claim_pages)

lemma prefix_claim:
  "p \<in> set (kv_prefixes c) \<Longrightarrow> i \<in> set (pf_pages p) \<Longrightarrow>
     (i, \<lparr>pg_state = Immutable_prefix, pg_owner = pf_id p\<rparr>) \<in> set (claims c)"
  by (auto simp: claims_def pf_claims_def set_claim_pages)

lemma reservation_claim:
  "r \<in> set (kv_reservations c) \<Longrightarrow> i \<in> set (rv_pages r) \<Longrightarrow>
     (i, \<lparr>pg_state = Reserved, pg_owner = rv_id r\<rparr>) \<in> set (claims c)"
  by (auto simp: claims_def res_claims_def set_claim_pages)

lemma suffix_disjoint:
  assumes "kv_inv c" "s \<in> set (kv_sequences c)" "s' \<in> set (kv_sequences c)" "sq_id s \<noteq> sq_id s'"
  shows "set (sq_suffix_pages s) \<inter> set (sq_suffix_pages s') = {}"
  using assms claim_unique sequence_claim by fastforce

lemma suffix_prefix_disjoint:
  assumes "kv_inv c" "s \<in> set (kv_sequences c)" "p \<in> set (kv_prefixes c)"
  shows "set (sq_suffix_pages s) \<inter> set (pf_pages p) = {}"
  using assms claim_unique sequence_claim prefix_claim by fastforce

lemma prefix_disjoint:
  assumes "kv_inv c" "p \<in> set (kv_prefixes c)" "q \<in> set (kv_prefixes c)" "pf_id p \<noteq> pf_id q"
  shows "set (pf_pages p) \<inter> set (pf_pages q) = {}"
  using assms claim_unique prefix_claim by fastforce

lemma claimed_distinct:
  assumes "store_ok ps cl" "mset cl = mset (claim_pages st h ids) + mset cl'"
  shows "distinct ids" and "i \<in> set ids \<Longrightarrow> unat i < length ps"
proof -
  have ok: "store_ok ps (claim_pages st h ids @ cl')" using assms by (rule store_ok_split)
  then show "distinct ids" by (simp add: store_ok_def)
  from ok show "i \<in> set ids \<Longrightarrow> unat i < length ps"
    by (auto simp: store_ok_def set_claim_pages)
qed

lemma suffix_distinct:
  assumes "kv_inv c" "find_sequence c i = Some s"
  shows "distinct (sq_suffix_pages s)" "j \<in> set (sq_suffix_pages s) \<Longrightarrow> unat j < length (kv_pages c)"
  using claimed_distinct [OF kv_inv_store [OF assms(1)] claims_without_sequence [OF assms(2)]] by auto

lemma prefix_pages_distinct:
  assumes "kv_inv c" "find_prefix c i = Some p"
  shows "distinct (pf_pages p)" "j \<in> set (pf_pages p) \<Longrightarrow> unat j < length (kv_pages c)"
  using claimed_distinct [OF kv_inv_store [OF assms(1)] claims_without_prefix [OF assms(2)]] by auto

text \<open>The page table, once the invariant has ruled its error branch out.\<close>

definition shared_pages :: "paged_kv_cache \<Rightarrow> kv_sequence \<Rightarrow> kv_page_id list" where
  "shared_pages c s =
     (if sq_prefix_id s = 0 then []
      else (case find_prefix c (sq_prefix_id s) of None \<Rightarrow> [] | Some p \<Rightarrow> pf_pages p))"

lemma kv_page_table_eq:
  assumes inv: "kv_inv c" and s: "find_sequence c i = Some s"
  shows "kv_page_table Alloc_ok i c =
    Inr \<lparr>pt_sequence_id = i, pt_prefix_id = sq_prefix_id s, pt_prefix_tokens = sq_prefix_tokens s,
         pt_total_tokens = sq_total_tokens s,
         pt_shared_prefix_pages = of_nat (length (shared_pages c s)),
         pt_pages = shared_pages c s @ sq_suffix_pages s\<rparr>"
proof (cases "sq_prefix_id s = 0")
  case True
  with s show ?thesis by (simp add: kv_page_table_def shared_pages_def)
next
  case False
  from attached_prefix [OF inv s False] obtain q where "find_prefix c (sq_prefix_id s) = Some q"
    by blast
  with s False show ?thesis by (simp add: kv_page_table_def shared_pages_def Let_def)
qed

lemma kv_page_table_Inr:
  assumes "kv_inv c"
  shows "kv_page_table a i c = Inr t \<longleftrightarrow>
    a = Alloc_ok \<and> (\<exists>s. find_sequence c i = Some s \<and>
    t = \<lparr>pt_sequence_id = i, pt_prefix_id = sq_prefix_id s, pt_prefix_tokens = sq_prefix_tokens s,
         pt_total_tokens = sq_total_tokens s,
         pt_shared_prefix_pages = of_nat (length (shared_pages c s)),
         pt_pages = shared_pages c s @ sq_suffix_pages s\<rparr>)"
proof (cases "find_sequence c i")
  case None
  then show ?thesis by (simp add: kv_page_table_def)
next
  case (Some s)
  show ?thesis
  proof (cases "a = Alloc_ok")
    case True
    then show ?thesis using kv_page_table_eq [OF assms Some] Some by auto
  next
    case False
    then show ?thesis using Some by (auto simp: kv_page_table_def Let_def)
  qed
qed

lemma shared_pages_conj:
  assumes inv: "kv_inv c" and s: "find_sequence c i = Some s"
  shows "distinct (shared_pages c s) \<and>
    (\<forall>j \<in> set (shared_pages c s). unat j < length (kv_pages c)) \<and>
    set (shared_pages c s) \<inter> set (sq_suffix_pages s) = {} \<and>
    length (shared_pages c s) = npages (unat (sq_prefix_tokens s)) (unat (kv_tokens_per_page c))"
proof (cases "sq_prefix_id s = 0")
  case True
  then show ?thesis
    using kv_inv_seq_ok [OF inv s] kv_inv_tpp [OF inv]
    by (simp add: shared_pages_def seq_ok_def)
next
  case False
  from attached_prefix [OF inv s False] obtain q where q: "find_prefix c (sq_prefix_id s) = Some q"
    "pf_token_count q = sq_prefix_tokens s" by blast
  have "set (pf_pages q) \<inter> set (sq_suffix_pages s) = {}"
    using suffix_prefix_disjoint [OF inv] find_sequenceD [OF s] find_prefixD [OF q(1)] by blast
  then show ?thesis
    using prefix_pages_distinct [OF inv q(1)] kv_inv_prefix_ok [OF inv q(1)] q False
    by (simp add: shared_pages_def prefix_ok_def)
qed

lemmas shared_pages_facts =
  shared_pages_conj [THEN conjunct1]
  shared_pages_conj [THEN conjunct2, THEN conjunct1, THEN bspec]
  shared_pages_conj [THEN conjunct2, THEN conjunct2, THEN conjunct1]
  shared_pages_conj [THEN conjunct2, THEN conjunct2, THEN conjunct2]

lemma shared_pages_cases:
  obtains "shared_pages c s = []"
  | q where "sq_prefix_id s \<noteq> 0" "q \<in> set (kv_prefixes c)" "pf_id q = sq_prefix_id s"
      "shared_pages c s = pf_pages q"
  by (cases "find_prefix c (sq_prefix_id s)"; cases "sq_prefix_id s = 0")
    (auto simp: shared_pages_def dest: find_prefixD)

lemma shared_suffix_disjoint:
  "kv_inv c \<Longrightarrow> s' \<in> set (kv_sequences c) \<Longrightarrow>
     set (shared_pages c s) \<inter> set (sq_suffix_pages s') = {}"
  using suffix_prefix_disjoint [of c s'] by (cases rule: shared_pages_cases [of c s]) auto

lemma shared_pages_meet:
  assumes "kv_inv c" "set (shared_pages c s) \<inter> set (shared_pages c s') \<noteq> {}"
  shows "sq_prefix_id s = sq_prefix_id s' \<and> sq_prefix_id s \<noteq> 0 \<and>
    shared_pages c s = shared_pages c s'"
proof -
  from assms(2) have "shared_pages c s \<noteq> []" "shared_pages c s' \<noteq> []" by auto
  then obtain q q' where q: "sq_prefix_id s \<noteq> 0" "q \<in> set (kv_prefixes c)"
      "pf_id q = sq_prefix_id s" "shared_pages c s = pf_pages q"
    and q': "q' \<in> set (kv_prefixes c)" "pf_id q' = sq_prefix_id s'"
      "shared_pages c s' = pf_pages q'"
    by (metis shared_pages_cases)
  have "sq_prefix_id s = sq_prefix_id s' \<and> sq_prefix_id s \<noteq> 0"
    using prefix_disjoint [OF assms(1) q(2) q'(1)] assms(2) q q' by force
  then show ?thesis by (auto simp: shared_pages_def)
qed

lemma distinct_u32_length: "distinct (xs :: u32 list) \<Longrightarrow> \<forall>j \<in> set xs. unat j < n \<Longrightarrow> length xs \<le> n"
proof -
  assume d: "distinct xs" and b: "\<forall>j \<in> set xs. unat j < n"
  have "distinct (map unat xs)"
    using d by (simp add: distinct_map inj_on_def unat_inject)
  then have "length xs = card (set (map unat xs))" by (metis distinct_card length_map)
  also have "\<dots> \<le> card {..< n}" using b by (intro card_mono) auto
  finally show ?thesis by simp
qed

section \<open>Exclusive ownership\<close>

text \<open>
  (C1) In every reachable cache, the page tables of two different sequences meet only in
  the pages of a prefix that both are attached to: the pages after the shared prefix
  belong to one sequence alone, no table lists a page twice, and every listed page
  exists.
\<close>

theorem kv_page_tables_isolated:
  assumes "kv_reachable c"
    and "kv_page_table a i c = Inr t" and "kv_page_table b j c = Inr u" and "i \<noteq> j"
  shows "distinct (pt_pages t) \<and> (\<forall>p \<in> set (pt_pages t). unat p < length (kv_pages c)) \<and>
    set (drop (unat (pt_shared_prefix_pages t)) (pt_pages t)) \<inter> set (pt_pages u) = {} \<and>
    (set (pt_pages t) \<inter> set (pt_pages u) \<noteq> {} \<longrightarrow>
       pt_prefix_id t = pt_prefix_id u \<and> pt_prefix_id t \<noteq> 0 \<and>
       take (unat (pt_shared_prefix_pages t)) (pt_pages t) =
       take (unat (pt_shared_prefix_pages u)) (pt_pages u))"
proof -
  note inv = kv_reachable_inv [OF assms(1)]
  from assms(2,3) obtain s v where
    s: "find_sequence c i = Some s" and t: "pt_prefix_id t = sq_prefix_id s"
      "pt_shared_prefix_pages t = of_nat (length (shared_pages c s))"
      "pt_pages t = shared_pages c s @ sq_suffix_pages s"
    and v: "find_sequence c j = Some v" and u: "pt_prefix_id u = sq_prefix_id v"
      "pt_shared_prefix_pages u = of_nat (length (shared_pages c v))"
      "pt_pages u = shared_pages c v @ sq_suffix_pages v"
    by (auto simp: kv_page_table_Inr [OF inv])
  have lt: "length (shared_pages c w) < 2 ^ 32" if "find_sequence c k = Some w" for k w
    using distinct_u32_length [of "shared_pages c w" "length (kv_pages c)"]
      shared_pages_facts(1,2) [OF inv that] kv_inv_store [OF inv]
    by (auto simp: store_ok_def)
  have cut: "take (unat (pt_shared_prefix_pages t)) (pt_pages t) = shared_pages c s"
    "drop (unat (pt_shared_prefix_pages t)) (pt_pages t) = sq_suffix_pages s"
    "take (unat (pt_shared_prefix_pages u)) (pt_pages u) = shared_pages c v"
    using lt [OF s] lt [OF v] by (simp_all add: t u unat_u32_of_nat)
  have own: "set (sq_suffix_pages s) \<inter> set (sq_suffix_pages v) = {}"
    using suffix_disjoint [OF inv] find_sequenceD [OF s] find_sequenceD [OF v] assms(4) by blast
  note shared = shared_suffix_disjoint [OF inv] and ids = find_sequenceD [OF s] find_sequenceD [OF v]
  have "set (pt_pages t) \<inter> set (pt_pages u) \<noteq> {} \<Longrightarrow>
      set (shared_pages c s) \<inter> set (shared_pages c v) \<noteq> {}"
    unfolding t u using own shared [of s v] shared [of v s] ids by auto
  note meet = this [THEN shared_pages_meet [OF inv]]
  then show ?thesis
    unfolding cut using meet
    using own shared [of s v] shared [of v s] shared_pages_facts [OF inv s]
      suffix_distinct [OF inv s] ids by (auto simp: t u)
qed

theorem kv_page_tables_isolated_witness:
  "\<exists>t u. kv_page_table Alloc_ok 2 demo_cache = Inr t \<and> kv_page_table Alloc_ok 3 demo_cache = Inr u \<and>
     pt_pages t = [0, 1, 2, 3] \<and> pt_pages u = [0, 1] \<and>
     set (drop (unat (pt_shared_prefix_pages t)) (pt_pages t)) \<inter> set (pt_pages u) = {} \<and>
     pt_prefix_id t = pt_prefix_id u"
proof -
  let ?t = "\<lparr>pt_sequence_id = 2, pt_prefix_id = 7, pt_prefix_tokens = 20, pt_total_tokens = 40,
      pt_shared_prefix_pages = 2, pt_pages = [0, 1, 2, 3]\<rparr>"
  let ?u = "\<lparr>pt_sequence_id = 3, pt_prefix_id = 7, pt_prefix_tokens = 20, pt_total_tokens = 20,
      pt_shared_prefix_pages = 2, pt_pages = [0, 1]\<rparr>"
  have t: "kv_page_table Alloc_ok 2 demo_cache = Inr ?t" by code_simp
  have u: "kv_page_table Alloc_ok 3 demo_cache = Inr ?u" by code_simp
  from kv_page_tables_isolated [OF demo_reachable t u] t u show ?thesis by auto
qed

text \<open>
  A page table always has room for the tokens it reports, and no page to spare: with
  \<open>k\<close> tokens per page the shared part holds exactly the pages its prefix tokens need and
  the private part exactly those the remaining tokens need.
\<close>

theorem kv_page_table_capacity:
  assumes "kv_reachable c" and "kv_page_table a i c = Inr t"
  shows "unat (pt_total_tokens t) \<le> length (pt_pages t) * unat (kv_tokens_per_page c) \<and>
    unat (pt_shared_prefix_pages t) =
      npages (unat (pt_prefix_tokens t)) (unat (kv_tokens_per_page c)) \<and>
    length (pt_pages t) = unat (pt_shared_prefix_pages t) +
      npages (unat (pt_total_tokens t) - unat (pt_prefix_tokens t)) (unat (kv_tokens_per_page c))"
proof -
  note inv = kv_reachable_inv [OF assms(1)]
  let ?k = "unat (kv_tokens_per_page c)"
  from assms(2) obtain s where s: "find_sequence c i = Some s"
    and t: "t = \<lparr>pt_sequence_id = i, pt_prefix_id = sq_prefix_id s,
         pt_prefix_tokens = sq_prefix_tokens s, pt_total_tokens = sq_total_tokens s,
         pt_shared_prefix_pages = of_nat (length (shared_pages c s)),
         pt_pages = shared_pages c s @ sq_suffix_pages s\<rparr>"
    by (auto simp: kv_page_table_Inr [OF inv])
  note ok = kv_inv_seq_ok [OF inv s, unfolded seq_ok_def seq_tokens_def]
  have "length (shared_pages c s) \<le> length (kv_pages c)"
    using distinct_u32_length shared_pages_facts(1,2) [OF inv s] by blast
  then have sh: "unat (of_nat (length (shared_pages c s)) :: u32) = length (shared_pages c s)"
    using kv_inv_store [OF inv] by (intro unat_u32_of_nat) (simp add: store_ok_def)
  have "unat (sq_prefix_tokens s) \<le> npages (unat (sq_prefix_tokens s)) ?k * ?k"
    "unat (sq_total_tokens s) - unat (sq_prefix_tokens s) \<le>
       npages (unat (sq_total_tokens s) - unat (sq_prefix_tokens s)) ?k * ?k"
    using npages_cover [OF kv_inv_tpp [OF inv]] by blast+
  then show ?thesis
    using ok shared_pages_facts(4) [OF inv s] sh by (simp add: t add_mult_distrib)
qed

theorem kv_page_table_capacity_witness:
  "\<exists>t. kv_page_table Alloc_ok 2 demo_cache = Inr t \<and> unat (pt_total_tokens t) = 40 \<and>
     length (pt_pages t) = unat (pt_shared_prefix_pages t) + npages (40 - 20) 16"
proof -
  let ?t = "\<lparr>pt_sequence_id = 2, pt_prefix_id = 7, pt_prefix_tokens = 20, pt_total_tokens = 40,
      pt_shared_prefix_pages = 2, pt_pages = [0, 1, 2, 3]\<rparr>"
  have t: "kv_page_table Alloc_ok 2 demo_cache = Inr ?t" by code_simp
  have k: "kv_tokens_per_page demo_cache = 16" by code_simp
  from kv_page_table_capacity [OF demo_reachable t] t show ?thesis by (simp add: k)
qed

section \<open>Errors\<close>

lemma metrics_pages_valid:
  assumes "\<And>k. k < length ps \<Longrightarrow> owner_is_valid c (of_nat (i + k)) (ps ! k)"
  shows "\<exists>m'. metrics_pages c i ps m = Inr m'"
  using assms
proof (induction ps arbitrary: i m)
  case Nil
  then show ?case by simp
next
  case (Cons p ps)
  from Cons.prems [of 0] have "owner_is_valid c (of_nat i) p" by simp
  moreover have "\<exists>m'. metrics_pages c (Suc i) ps (count_page (pg_state p) m) = Inr m'"
    using Cons.prems [of "Suc _"] by (intro Cons.IH) simp
  ultimately show ?case by simp
qed

lemma claim_valid:
  assumes inv: "kv_inv c" and cl: "(i, pg) \<in> set (claims c)"
  shows "owner_is_valid c i pg"
proof -
  note parts = inv [unfolded kv_inv_def]
  from cl consider
    (r) r where "r \<in> set (kv_reservations c)" "i \<in> set (rv_pages r)"
      "pg = \<lparr>pg_state = Reserved, pg_owner = rv_id r\<rparr>"
  | (s) s where "s \<in> set (kv_sequences c)" "i \<in> set (sq_suffix_pages s)"
      "pg = \<lparr>pg_state = Mutable_sequence, pg_owner = sq_id s\<rparr>"
  | (p) p where "p \<in> set (kv_prefixes c)" "i \<in> set (pf_pages p)"
      "pg = \<lparr>pg_state = Immutable_prefix, pg_owner = pf_id p\<rparr>"
    by (auto simp: claims_def res_claims_def seq_claims_def pf_claims_def set_claim_pages)
  then show ?thesis
  proof cases
    case r
    then have "find_reservation c (rv_id r) = Some r"
      using parts by (simp add: find_reservation_def keyed)
    with r show ?thesis by (simp add: owner_is_valid_def)
  next
    case s
    then have "find_sequence c (sq_id s) = Some s"
      using parts by (simp add: find_sequence_def keyed)
    with s show ?thesis by (simp add: owner_is_valid_def)
  next
    case p
    then have "find_prefix c (pf_id p) = Some p"
      using parts by (simp add: find_prefix_def keyed)
    with p show ?thesis by (simp add: owner_is_valid_def)
  qed
qed

lemma page_valid:
  assumes inv: "kv_inv c" and k: "k < length (kv_pages c)"
  shows "owner_is_valid c (of_nat k) (kv_pages c ! k)"
proof -
  have st: "store_ok (kv_pages c) (claims c)" by (rule kv_inv_store [OF inv])
  have un: "unat (of_nat k :: u32) = k"
    using st k by (intro unat_u32_of_nat) (simp add: store_ok_def)
  show ?thesis
  proof (cases "of_nat k \<in> fst ` set (claims c)")
    case True
    then obtain pg where cl: "(of_nat k, pg) \<in> set (claims c)" by force
    then have "kv_pages c ! k = pg" using st un by (metis store_ok_def)
    with claim_valid [OF inv cl] show ?thesis by simp
  next
    case False
    then have "kv_pages c ! k = empty_page" using st un k by (metis store_ok_def)
    then show ?thesis by (simp add: owner_is_valid_def empty_page_def)
  qed
qed

lemma metrics_prefixes_error: "metrics_prefixes ps m = Inl e \<Longrightarrow> e = status_failure Arithmetic_overflow"
  by (induction ps arbitrary: m) (auto split: option.splits)

lemma known_prefix:
  assumes inv: "kv_inv c" and s: "s \<in> set (kv_sequences c)"
  shows "sq_prefix_id s = 0 \<or> find_prefix c (sq_prefix_id s) \<noteq> None"
proof -
  have "find_sequence c (sq_id s) = Some s"
    using inv s by (simp add: kv_inv_def find_sequence_def keyed)
  then show ?thesis using attached_prefix [OF inv] by (metis option.distinct(1))
qed

lemma metrics_sequences_error:
  assumes "\<forall>s \<in> set ss. sq_prefix_id s = 0 \<or> find_prefix c (sq_prefix_id s) \<noteq> None"
    and "metrics_sequences c ss m = Inl e"
  shows "e = status_failure Arithmetic_overflow"
  using assms by (induction ss arbitrary: m) (auto simp: Let_def split: option.splits if_splits)

text \<open>Counting page states.\<close>

definition state_count :: "page_state \<Rightarrow> page list \<Rightarrow> nat" where
  "state_count st ps = length (filter (\<lambda>p. pg_state p = st) ps)"

lemma state_count_simps [simp]:
  "state_count st [] = 0"
  "state_count st (p # ps) = (if pg_state p = st then 1 else 0) + state_count st ps"
  by (simp_all add: state_count_def)

lemma state_count_sum:
  "state_count Free ps + state_count Reserved ps + state_count Mutable_sequence ps +
     state_count Immutable_prefix ps = length ps"
proof (induction ps)
  case (Cons p ps)
  then show ?case by (cases "pg_state p") auto
qed simp

lemma kv_checked_add_eq:
  "kv_checked_add a b = (if unat a + unat b < 2 ^ 64 then Some (a + b) else None)"
  using checked_add_guard [of b a] by (auto simp: kv_checked_add_def add.commute)

lemma kv_checked_multiply_eq:
  "kv_checked_multiply a b = (if unat a * unat b < 2 ^ 64 then Some (a * b) else None)"
  using checked_multiply_guard [of a b] by (auto simp: kv_checked_multiply_def)

definition only_pages_counted :: "kv_cache_metrics \<Rightarrow> kv_cache_metrics \<Rightarrow> bool" where
  "only_pages_counted m m' \<longleftrightarrow>
     mt_total_pages m' = mt_total_pages m \<and>
     mt_sequence_count m' = mt_sequence_count m \<and> mt_prefix_count m' = mt_prefix_count m \<and>
     mt_prefix_attachments m' = mt_prefix_attachments m \<and>
     mt_logical_payload_tokens m' = mt_logical_payload_tokens m \<and>
     mt_logical_reserved_tokens m' = mt_logical_reserved_tokens m"

lemma metrics_pages_counts:
  "metrics_pages c i ps m = Inr m' \<Longrightarrow>
     mt_free_pages m' = mt_free_pages m + of_nat (state_count Free ps) \<and>
     mt_pending_pages m' = mt_pending_pages m + of_nat (state_count Reserved ps) \<and>
     mt_mutable_pages m' = mt_mutable_pages m + of_nat (state_count Mutable_sequence ps) \<and>
     mt_shared_prefix_pages m' =
       mt_shared_prefix_pages m + of_nat (state_count Immutable_prefix ps) \<and>
     only_pages_counted m m'"
proof (induction ps arbitrary: i m)
  case Nil
  then show ?case by (simp add: only_pages_counted_def)
next
  case (Cons p ps)
  then have "metrics_pages c (Suc i) ps (count_page (pg_state p) m) = Inr m'"
    by (simp split: if_splits)
  from Cons.IH [OF this] show ?case
    by (cases "pg_state p") (simp_all add: only_pages_counted_def)
qed

definition page_counters_kept :: "kv_cache_metrics \<Rightarrow> kv_cache_metrics \<Rightarrow> bool" where
  "page_counters_kept m m' \<longleftrightarrow>
     mt_total_pages m' = mt_total_pages m \<and>
     mt_sequence_count m' = mt_sequence_count m \<and> mt_prefix_count m' = mt_prefix_count m \<and>
     mt_free_pages m' = mt_free_pages m \<and> mt_pending_pages m' = mt_pending_pages m \<and>
     mt_mutable_pages m' = mt_mutable_pages m \<and>
     mt_shared_prefix_pages m' = mt_shared_prefix_pages m"

lemma metrics_prefixes_sum:
  "metrics_prefixes ps m = Inr m' \<Longrightarrow>
     unat (mt_prefix_attachments m') =
       unat (mt_prefix_attachments m) + (\<Sum>p\<leftarrow>ps. unat (pf_attachments p)) \<and>
     page_counters_kept m m' \<and>
     mt_logical_payload_tokens m' = mt_logical_payload_tokens m \<and>
     mt_logical_reserved_tokens m' = mt_logical_reserved_tokens m"
proof (induction ps arbitrary: m)
  case Nil
  then show ?case by (simp add: page_counters_kept_def)
next
  case (Cons p ps)
  then have "unat (mt_prefix_attachments m) + unat (pf_attachments p) < 2 ^ 64"
    and "metrics_prefixes ps (m\<lparr>mt_prefix_attachments :=
      mt_prefix_attachments m + pf_attachments p\<rparr>) = Inr m'"
    by (auto simp: kv_checked_add_eq split: if_splits)
  with Cons.IH [OF this(2)] show ?case
    by (simp add: unat_u64_plus page_counters_kept_def)
qed

definition logical_pages :: "paged_kv_cache \<Rightarrow> kv_sequence \<Rightarrow> nat" where
  "logical_pages c s = length (shared_pages c s @ sq_suffix_pages s)"

lemma logical_pages_le:
  assumes inv: "kv_inv c" and s: "s \<in> set (kv_sequences c)"
  shows "logical_pages c s \<le> length (kv_pages c)"
proof -
  have f: "find_sequence c (sq_id s) = Some s"
    using inv s by (simp add: kv_inv_def find_sequence_def keyed)
  have "distinct (shared_pages c s @ sq_suffix_pages s)"
    using shared_pages_facts(1,3) [OF inv f] suffix_distinct(1) [OF inv f] by simp
  then show ?thesis
    unfolding logical_pages_def
    by (rule distinct_u32_length) (use shared_pages_facts(2) [OF inv f] suffix_distinct(2) [OF inv f] in auto)
qed

lemma metrics_sequences_step:
  assumes inv: "kv_inv c" and s: "s \<in> set (kv_sequences c)"
  shows "metrics_sequences c (s # ss) m =
    (if unat (mt_logical_payload_tokens m) + unat (sq_total_tokens s) < 2 ^ 64 \<and>
        unat (mt_logical_reserved_tokens m) + logical_pages c s * unat (kv_tokens_per_page c) < 2 ^ 64
     then metrics_sequences c ss (m\<lparr>
       mt_logical_payload_tokens := mt_logical_payload_tokens m + ucast (sq_total_tokens s),
       mt_logical_reserved_tokens := mt_logical_reserved_tokens m +
         of_nat (logical_pages c s) * ucast (kv_tokens_per_page c)\<rparr>)
     else fail Arithmetic_overflow)"
proof -
  let ?k = "kv_tokens_per_page c"
  have len: "length (kv_pages c) < 2 ^ 32" using kv_inv_store [OF inv] by (simp add: store_ok_def)
  with logical_pages_le [OF inv s] have lt: "logical_pages c s < 2 ^ 32" by simp
  then have un: "unat (of_nat (logical_pages c s) :: u64) = logical_pages c s"
    by (intro unat_u64_of_nat) simp
  have "logical_pages c s * unat ?k \<le> 2 ^ 32 * (2 ^ 32 - 1)"
    using lt unat_u32_lt [of ?k] by (intro mult_mono) auto
  then have prod: "logical_pages c s * unat ?k < 2 ^ 64" by simp
  have pages: "of_nat (length (sq_suffix_pages s)) +
      (case if sq_prefix_id s = 0 then None else find_prefix c (sq_prefix_id s) of
         None \<Rightarrow> 0 | Some p \<Rightarrow> of_nat (length (pf_pages p))) = (of_nat (logical_pages c s) :: u64)"
    by (simp add: logical_pages_def shared_pages_def add.commute split: option.splits)
  have known: "\<not> (sq_prefix_id s \<noteq> 0 \<and>
      (if sq_prefix_id s = 0 then None else find_prefix c (sq_prefix_id s)) = None)"
    using known_prefix [OF inv s] by auto
  have mult: "kv_checked_multiply (of_nat (logical_pages c s)) (ucast ?k) =
      Some (of_nat (logical_pages c s) * ucast ?k)"
    using prod un by (simp add: kv_checked_multiply_eq)
  have "unat (of_nat (logical_pages c s) * ucast ?k :: u64) = logical_pages c s * unat ?k"
    using prod un by (simp add: unat_u64_times)
  then show ?thesis
    unfolding metrics_sequences.simps Let_def pages mult
    using known by (auto simp: kv_checked_add_eq)
qed

lemma metrics_sequences_sum:
  assumes inv: "kv_inv c" and "set ss \<subseteq> set (kv_sequences c)"
    and "metrics_sequences c ss m = Inr m'"
  shows "unat (mt_logical_payload_tokens m') =
       unat (mt_logical_payload_tokens m) + (\<Sum>s\<leftarrow>ss. unat (sq_total_tokens s)) \<and>
     unat (mt_logical_reserved_tokens m') =
       unat (mt_logical_reserved_tokens m) +
         (\<Sum>s\<leftarrow>ss. logical_pages c s) * unat (kv_tokens_per_page c) \<and>
     page_counters_kept m m' \<and> mt_prefix_attachments m' = mt_prefix_attachments m"
  using assms(2,3)
proof (induction ss arbitrary: m)
  case Nil
  then show ?case by (simp add: page_counters_kept_def)
next
  case (Cons s ss)
  let ?k = "unat (kv_tokens_per_page c)"
  have s: "s \<in> set (kv_sequences c)" using Cons.prems by simp
  have "logical_pages c s < 2 ^ 32"
    using logical_pages_le [OF inv s] kv_inv_store [OF inv] by (simp add: store_ok_def)
  moreover from this have "logical_pages c s * ?k \<le> 2 ^ 32 * (2 ^ 32 - 1)"
    using unat_u32_lt [of "kv_tokens_per_page c"] by (intro mult_mono) auto
  ultimately have un: "unat (of_nat (logical_pages c s) * ucast (kv_tokens_per_page c) :: u64) =
      logical_pages c s * ?k"
    by (simp add: unat_u64_times unat_u64_of_nat)
  from Cons.prems(2) have
    bounds: "unat (mt_logical_payload_tokens m) + unat (sq_total_tokens s) < 2 ^ 64"
      "unat (mt_logical_reserved_tokens m) + logical_pages c s * ?k < 2 ^ 64"
    and rest: "metrics_sequences c ss (m\<lparr>
       mt_logical_payload_tokens := mt_logical_payload_tokens m + ucast (sq_total_tokens s),
       mt_logical_reserved_tokens := mt_logical_reserved_tokens m +
         of_nat (logical_pages c s) * ucast (kv_tokens_per_page c)\<rparr>) = Inr m'"
    unfolding metrics_sequences_step [OF inv s] by (auto split: if_splits)
  from Cons.IH [OF _ rest] Cons.prems(1) bounds un show ?case
    by (simp add: unat_u64_plus page_counters_kept_def add_mult_distrib)
qed

text \<open>The stages of \<open>metrics\<close> in a reachable cache.\<close>

lemma kv_metrics_pages_ok:
  assumes inv: "kv_inv c"
  obtains m' where "metrics_pages c 0 (kv_pages c) m = Inr m'"
  using metrics_pages_valid [of "kv_pages c" c 0 m] page_valid [OF inv] by auto

lemma sum_pages_bound:
  assumes inv: "kv_inv c"
  shows "(\<Sum>s\<leftarrow>kv_sequences c. unat (sq_total_tokens s)) \<le>
    (\<Sum>s\<leftarrow>kv_sequences c. logical_pages c s) * unat (kv_tokens_per_page c)"
proof -
  let ?k = "unat (kv_tokens_per_page c)"
  have "unat (sq_total_tokens s) \<le> logical_pages c s * ?k" if s: "s \<in> set (kv_sequences c)" for s
  proof -
    have f: "find_sequence c (sq_id s) = Some s"
      using inv s by (simp add: kv_inv_def find_sequence_def keyed)
    note ok = kv_inv_seq_ok [OF inv f, unfolded seq_ok_def seq_tokens_def]
    show ?thesis
      using npages_cover [OF kv_inv_tpp [OF inv], of "unat (sq_prefix_tokens s)"]
        npages_cover [OF kv_inv_tpp [OF inv], of "unat (sq_total_tokens s) - unat (sq_prefix_tokens s)"]
        ok shared_pages_facts(4) [OF inv f]
      by (simp add: logical_pages_def add_mult_distrib)
  qed
  then have "(\<Sum>s\<leftarrow>kv_sequences c. unat (sq_total_tokens s)) \<le>
      (\<Sum>s\<leftarrow>kv_sequences c. logical_pages c s * ?k)"
    by (intro sum_list_mono) auto
  then show ?thesis by (simp add: sum_list_mult_const)
qed

lemma sum_counts:
  "distinct ks \<Longrightarrow> (\<Sum>k\<leftarrow>ks. count_list xs k) = length (filter (\<lambda>x. x \<in> set ks) xs)"
proof (induction xs)
  case Nil
  then show ?case by (induction ks) auto
next
  case (Cons x xs)
  have "(\<Sum>k\<leftarrow>ks. count_list (x # xs) k) =
      (\<Sum>k\<leftarrow>ks. if x = k then 1 else 0) + (\<Sum>k\<leftarrow>ks. count_list xs k)"
    by (induction ks) auto
  moreover have "distinct ks \<Longrightarrow> (\<Sum>k\<leftarrow>ks. if x = k then 1 else 0) = (if x \<in> set ks then 1 else (0::nat))"
    by (induction ks) auto
  ultimately show ?case using Cons by simp
qed

definition attached_count :: "kv_sequence list \<Rightarrow> nat" where
  "attached_count ss = length (filter (\<lambda>s. sq_prefix_id s \<noteq> 0) ss)"

lemma sum_attachments:
  assumes inv: "kv_inv c"
  shows "(\<Sum>p\<leftarrow>kv_prefixes c. unat (pf_attachments p)) = attached_count (kv_sequences c)"
proof -
  let ?ids = "map pf_id (kv_prefixes c)"
  have "map (\<lambda>p. unat (pf_attachments p)) (kv_prefixes c) =
      map (count_list (map sq_prefix_id (kv_sequences c))) ?ids"
    using inv by (simp add: kv_inv_def prefix_ok_def)
  then have "(\<Sum>p\<leftarrow>kv_prefixes c. unat (pf_attachments p)) =
      (\<Sum>k\<leftarrow>?ids. count_list (map sq_prefix_id (kv_sequences c)) k)"
    by metis
  also have "\<dots> = length (filter (\<lambda>x. x \<in> set ?ids) (map sq_prefix_id (kv_sequences c)))"
    using inv by (intro sum_counts) (simp add: kv_inv_def)
  also have "\<dots> = length (filter (\<lambda>s. sq_prefix_id s \<in> set ?ids) (kv_sequences c))"
    by (simp add: filter_map comp_def)
  also have "filter (\<lambda>s. sq_prefix_id s \<in> set ?ids) (kv_sequences c) =
      filter (\<lambda>s. sq_prefix_id s \<noteq> 0) (kv_sequences c)"
  proof (rule filter_cong)
    fix s assume "s \<in> set (kv_sequences c)"
    with inv have "seq_ok (unat (kv_tokens_per_page c)) (kv_prefixes c) s"
      and "\<forall>p \<in> set (kv_prefixes c). pf_id p \<noteq> 0"
      by (auto simp: kv_inv_def prefix_ok_def)
    then show "sq_prefix_id s \<in> set ?ids \<longleftrightarrow> sq_prefix_id s \<noteq> 0"
      by (force simp: seq_ok_def split: if_splits)
  qed simp
  finally show ?thesis by (simp add: attached_count_def)
qed

text \<open>Ids are different and not zero, so 64 bits count whatever they number.\<close>

lemma distinct_u64_length:
  fixes key :: "'a \<Rightarrow> u64"
  assumes "distinct (map key xs)" "0 \<notin> key ` set xs"
  shows "length xs < 2 ^ 64"
proof -
  have "card (insert 0 (key ` set xs)) \<le> card (UNIV :: u64 set)" by (intro card_mono) auto
  moreover have "card (key ` set xs) = length xs" using distinct_card [OF assms(1)] by simp
  ultimately show ?thesis using assms(2) by (simp add: card_word)
qed

lemma count_sequences: "kv_inv c \<Longrightarrow> length (kv_sequences c) < 2 ^ 64"
  by (rule distinct_u64_length [of sq_id]) (auto simp: kv_inv_def seq_ok_def)

lemma count_prefixes: "kv_inv c \<Longrightarrow> length (kv_prefixes c) < 2 ^ 64"
  by (rule distinct_u64_length [of pf_id]) (auto simp: kv_inv_def prefix_ok_def)

lemma metrics_final_counters:
  assumes inv: "kv_inv c"
    and m1: "metrics_pages c 0 (kv_pages c)
        (empty_metrics\<lparr>mt_total_pages := of_nat (length (kv_pages c)),
           mt_sequence_count := of_nat (length (kv_sequences c)),
           mt_prefix_count := of_nat (length (kv_prefixes c))\<rparr>) = Inr m1"
    and m2: "metrics_prefixes (kv_prefixes c) m1 = Inr m2"
    and m3: "metrics_sequences c (kv_sequences c) m2 = Inr m3"
  shows "unat (mt_total_pages m3) = length (kv_pages c)"
    and "unat (mt_sequence_count m3) = length (kv_sequences c)"
    and "unat (mt_prefix_count m3) = length (kv_prefixes c)"
    and "unat (mt_free_pages m3) = state_count Free (kv_pages c)"
    and "unat (mt_pending_pages m3) = state_count Reserved (kv_pages c)"
    and "unat (mt_mutable_pages m3) = state_count Mutable_sequence (kv_pages c)"
    and "unat (mt_shared_prefix_pages m3) = state_count Immutable_prefix (kv_pages c)"
    and "unat (mt_prefix_attachments m3) = attached_count (kv_sequences c)"
    and "unat (mt_logical_payload_tokens m3) = (\<Sum>s\<leftarrow>kv_sequences c. unat (sq_total_tokens s))"
    and "unat (mt_logical_reserved_tokens m3) =
      (\<Sum>s\<leftarrow>kv_sequences c. logical_pages c s) * unat (kv_tokens_per_page c)"
proof -
  have len: "length (kv_pages c) < 2 ^ 32" using kv_inv_store [OF inv] by (simp add: store_ok_def)
  have le: "state_count st (kv_pages c) \<le> length (kv_pages c)" for st
    by (simp add: state_count_def)
  have cnt: "unat (of_nat (state_count st (kv_pages c)) :: u64) = state_count st (kv_pages c)" for st
    using le [of st] len by (intro unat_u64_of_nat) simp
  note facts = metrics_pages_counts [OF m1, unfolded only_pages_counted_def]
    metrics_prefixes_sum [OF m2, unfolded page_counters_kept_def]
    metrics_sequences_sum [OF inv subset_refl m3, unfolded page_counters_kept_def]
  show "unat (mt_total_pages m3) = length (kv_pages c)"
    using facts len by (simp add: empty_metrics_def unat_u64_of_nat)
  show "unat (mt_sequence_count m3) = length (kv_sequences c)"
    "unat (mt_prefix_count m3) = length (kv_prefixes c)"
    using facts unat_u64_of_nat [OF count_sequences [OF inv]] unat_u64_of_nat [OF count_prefixes [OF inv]]
    by (simp_all add: empty_metrics_def)
  show "unat (mt_free_pages m3) = state_count Free (kv_pages c)"
    "unat (mt_pending_pages m3) = state_count Reserved (kv_pages c)"
    "unat (mt_mutable_pages m3) = state_count Mutable_sequence (kv_pages c)"
    "unat (mt_shared_prefix_pages m3) = state_count Immutable_prefix (kv_pages c)"
    using facts by (simp_all add: empty_metrics_def cnt)
  show "unat (mt_prefix_attachments m3) = attached_count (kv_sequences c)"
    "unat (mt_logical_payload_tokens m3) = (\<Sum>s\<leftarrow>kv_sequences c. unat (sq_total_tokens s))"
    "unat (mt_logical_reserved_tokens m3) =
      (\<Sum>s\<leftarrow>kv_sequences c. logical_pages c s) * unat (kv_tokens_per_page c)"
    using facts sum_attachments [OF inv] by (simp_all add: empty_metrics_def)
qed

definition exact_metrics :: "paged_kv_cache \<Rightarrow> kv_cache_metrics \<Rightarrow> bool" where
  "exact_metrics c m \<longleftrightarrow>
     unat (mt_total_pages m) = length (kv_pages c) \<and>
     unat (mt_sequence_count m) = length (kv_sequences c) \<and>
     unat (mt_prefix_count m) = length (kv_prefixes c) \<and>
     unat (mt_free_pages m) + unat (mt_pending_pages m) + unat (mt_mutable_pages m) +
       unat (mt_shared_prefix_pages m) = length (kv_pages c) \<and>
     unat (mt_free_pages m) = state_count Free (kv_pages c) \<and>
     unat (mt_pending_pages m) = state_count Reserved (kv_pages c) \<and>
     unat (mt_mutable_pages m) = state_count Mutable_sequence (kv_pages c) \<and>
     unat (mt_shared_prefix_pages m) = state_count Immutable_prefix (kv_pages c) \<and>
     unat (mt_prefix_attachments m) = attached_count (kv_sequences c) \<and>
     unat (mt_logical_payload_tokens m) = (\<Sum>s\<leftarrow>kv_sequences c. unat (sq_total_tokens s)) \<and>
     unat (mt_logical_reserved_tokens m) =
       (\<Sum>s\<leftarrow>kv_sequences c. logical_pages c s) * unat (kv_tokens_per_page c) \<and>
     unat (mt_logical_payload_tokens m) + unat (mt_logical_fragmentation_tokens m) =
       unat (mt_logical_reserved_tokens m) \<and>
     unat (mt_physical_committed_tokens m) =
       (unat (mt_mutable_pages m) + unat (mt_shared_prefix_pages m)) *
         unat (kv_tokens_per_page c)"

lemma kv_metrics_finish:
  assumes inv: "kv_inv c"
    and m1: "metrics_pages c 0 (kv_pages c)
        (empty_metrics\<lparr>mt_total_pages := of_nat (length (kv_pages c)),
           mt_sequence_count := of_nat (length (kv_sequences c)),
           mt_prefix_count := of_nat (length (kv_prefixes c))\<rparr>) = Inr m1"
    and m2: "metrics_prefixes (kv_prefixes c) m1 = Inr m2"
    and m3: "metrics_sequences c (kv_sequences c) m2 = Inr m3"
  shows "\<exists>m. kv_metrics c = Inr m \<and> exact_metrics c m"
proof -
  let ?k = "kv_tokens_per_page c"
  note facts = metrics_final_counters [OF inv m1 m2 m3]
  have len: "length (kv_pages c) < 2 ^ 32" using kv_inv_store [OF inv] by (simp add: store_ok_def)
  have order: "mt_logical_payload_tokens m3 \<le> mt_logical_reserved_tokens m3"
    using sum_pages_bound [OF inv] facts by (simp add: word_le_nat_alt)
  have committed: "unat (mt_mutable_pages m3 + mt_shared_prefix_pages m3) =
      unat (mt_mutable_pages m3) + unat (mt_shared_prefix_pages m3)"
    using facts state_count_sum [of "kv_pages c"] len by (intro unat_u64_plus) simp
  moreover have "\<dots> * unat ?k \<le> 2 ^ 32 * (2 ^ 32 - 1)"
    using facts state_count_sum [of "kv_pages c"] len unat_u32_lt [of ?k]
    by (intro mult_mono) auto
  ultimately have fits: "unat (mt_mutable_pages m3 + mt_shared_prefix_pages m3) *
      unat (ucast ?k :: u64) < 2 ^ 64" by simp
  then have total: "unat ((mt_mutable_pages m3 + mt_shared_prefix_pages m3) * ucast ?k) =
      (unat (mt_mutable_pages m3) + unat (mt_shared_prefix_pages m3)) * unat ?k"
    using committed by (simp add: unat_u64_times)
  let ?m = "m3\<lparr>mt_logical_fragmentation_tokens :=
      mt_logical_reserved_tokens m3 - mt_logical_payload_tokens m3,
      mt_physical_committed_tokens :=
        (mt_mutable_pages m3 + mt_shared_prefix_pages m3) * ucast ?k\<rparr>"
  have "kv_metrics c = Inr ?m"
    using m1 m2 m3 order fits by (simp add: kv_metrics_def kv_checked_multiply_eq not_less)
  moreover have "unat (mt_logical_payload_tokens m3) +
      unat (mt_logical_reserved_tokens m3 - mt_logical_payload_tokens m3) =
      unat (mt_logical_reserved_tokens m3)"
    using order by (simp add: unat_word_minus word_le_nat_alt)
  then have "exact_metrics c ?m"
    unfolding exact_metrics_def using facts total state_count_sum [of "kv_pages c"] by simp
  ultimately show ?thesis by blast
qed

text \<open>
  The sums stay below 64 bits: attachments are at most the sequences, and the payload is at
  most the capacity of the page tables.
\<close>

lemma metrics_prefixes_fit:
  "unat (mt_prefix_attachments m) + (\<Sum>p\<leftarrow>ps. unat (pf_attachments p)) < 2 ^ 64 \<Longrightarrow>
     \<exists>m'. metrics_prefixes ps m = Inr m'"
proof (induction ps arbitrary: m)
  case (Cons p ps)
  then have fits: "unat (mt_prefix_attachments m) + unat (pf_attachments p) < 2 ^ 64" by simp
  let ?m = "m\<lparr>mt_prefix_attachments := mt_prefix_attachments m + pf_attachments p\<rparr>"
  have "\<exists>m'. metrics_prefixes ps ?m = Inr m'"
    using Cons.prems fits by (intro Cons.IH) (simp add: unat_u64_plus)
  then show ?case using fits by (simp add: kv_checked_add_eq)
qed simp

lemma metrics_sequences_fit:
  assumes inv: "kv_inv c" and "set ss \<subseteq> set (kv_sequences c)"
    and "unat (mt_logical_payload_tokens m) + (\<Sum>s\<leftarrow>ss. unat (sq_total_tokens s)) < 2 ^ 64"
    and "unat (mt_logical_reserved_tokens m) +
      (\<Sum>s\<leftarrow>ss. logical_pages c s) * unat (kv_tokens_per_page c) < 2 ^ 64"
  shows "\<exists>m'. metrics_sequences c ss m = Inr m'"
  using assms(2-4)
proof (induction ss arbitrary: m)
  case (Cons s ss)
  let ?k = "unat (kv_tokens_per_page c)"
  have s: "s \<in> set (kv_sequences c)" using Cons.prems by simp
  have "logical_pages c s < 2 ^ 32"
    using logical_pages_le [OF inv s] kv_inv_store [OF inv] by (simp add: store_ok_def)
  moreover from this have "logical_pages c s * ?k \<le> 2 ^ 32 * (2 ^ 32 - 1)"
    using unat_u32_lt [of "kv_tokens_per_page c"] by (intro mult_mono) auto
  ultimately have un: "unat (of_nat (logical_pages c s) * ucast (kv_tokens_per_page c) :: u64) =
      logical_pages c s * ?k"
    by (simp add: unat_u64_times unat_u64_of_nat)
  let ?m = "m\<lparr>
       mt_logical_payload_tokens := mt_logical_payload_tokens m + ucast (sq_total_tokens s),
       mt_logical_reserved_tokens := mt_logical_reserved_tokens m +
         of_nat (logical_pages c s) * ucast (kv_tokens_per_page c)\<rparr>"
  have fits: "unat (mt_logical_payload_tokens m) + unat (sq_total_tokens s) < 2 ^ 64"
      "unat (mt_logical_reserved_tokens m) + logical_pages c s * ?k < 2 ^ 64"
    using Cons.prems(2,3) by (simp_all add: add_mult_distrib)
  have "\<exists>m'. metrics_sequences c ss ?m = Inr m'"
  proof (rule Cons.IH)
    show "set ss \<subseteq> set (kv_sequences c)" using Cons.prems(1) by simp
    show "unat (mt_logical_payload_tokens ?m) + (\<Sum>s\<leftarrow>ss. unat (sq_total_tokens s)) < 2 ^ 64"
      using Cons.prems(2) fits by (simp add: unat_u64_plus)
    show "unat (mt_logical_reserved_tokens ?m) + (\<Sum>s\<leftarrow>ss. logical_pages c s) * ?k < 2 ^ 64"
      using Cons.prems(3) fits un by (simp add: unat_u64_plus add_mult_distrib)
  qed
  then show ?case using fits by (simp add: metrics_sequences_step [OF inv s] del: metrics_sequences.simps)
qed simp

definition table_capacity :: "paged_kv_cache \<Rightarrow> nat" where
  "table_capacity c = (\<Sum>s\<leftarrow>kv_sequences c. logical_pages c s) * unat (kv_tokens_per_page c)"

lemma kv_metrics_stages:
  assumes inv: "kv_inv c"
  obtains m1 m2 where
    "metrics_pages c 0 (kv_pages c)
        (empty_metrics\<lparr>mt_total_pages := of_nat (length (kv_pages c)),
           mt_sequence_count := of_nat (length (kv_sequences c)),
           mt_prefix_count := of_nat (length (kv_prefixes c))\<rparr>) = Inr m1"
    "metrics_prefixes (kv_prefixes c) m1 = Inr m2"
    "mt_logical_payload_tokens m2 = 0" "mt_logical_reserved_tokens m2 = 0"
proof -
  let ?m0 = "empty_metrics\<lparr>mt_total_pages := of_nat (length (kv_pages c)),
      mt_sequence_count := of_nat (length (kv_sequences c)),
      mt_prefix_count := of_nat (length (kv_prefixes c))\<rparr>"
  obtain m1 where m1: "metrics_pages c 0 (kv_pages c) ?m0 = Inr m1"
    using kv_metrics_pages_ok [OF inv] by blast
  have zero: "mt_prefix_attachments m1 = 0" "mt_logical_payload_tokens m1 = 0"
    "mt_logical_reserved_tokens m1 = 0"
    using metrics_pages_counts [OF m1] by (simp_all add: only_pages_counted_def empty_metrics_def)
  have "attached_count (kv_sequences c) < 2 ^ 64"
    using count_sequences [OF inv] length_filter_le [of _ "kv_sequences c"]
    unfolding attached_count_def by (rule le_less_trans [rotated])
  then obtain m2 where m2: "metrics_prefixes (kv_prefixes c) m1 = Inr m2"
    using metrics_prefixes_fit [of m1 "kv_prefixes c"] zero sum_attachments [OF inv] by auto
  show thesis by (rule that [OF m1 m2]) (use metrics_prefixes_sum [OF m2] zero in simp_all)
qed

lemma kv_metrics_fit:
  assumes inv: "kv_inv c" and fits: "table_capacity c < 2 ^ 64"
  shows "\<exists>m. kv_metrics c = Inr m \<and> exact_metrics c m"
proof -
  obtain m1 m2 where m: "metrics_pages c 0 (kv_pages c)
        (empty_metrics\<lparr>mt_total_pages := of_nat (length (kv_pages c)),
           mt_sequence_count := of_nat (length (kv_sequences c)),
           mt_prefix_count := of_nat (length (kv_prefixes c))\<rparr>) = Inr m1"
    "metrics_prefixes (kv_prefixes c) m1 = Inr m2"
    "mt_logical_payload_tokens m2 = 0" "mt_logical_reserved_tokens m2 = 0"
    by (rule kv_metrics_stages [OF inv])
  obtain m3 where "metrics_sequences c (kv_sequences c) m2 = Inr m3"
    using metrics_sequences_fit [OF inv subset_refl, of m2] m(3,4) fits sum_pages_bound [OF inv]
    by (auto simp: table_capacity_def)
  then show ?thesis by (rule kv_metrics_finish [OF inv m(1,2)])
qed

text \<open>
  (C7) Metrics of a reachable cache are exact, unless the page tables together have room for
  2^64 tokens or more, when and only when the call reports an overflow. Exact means: every
  page is counted in exactly one of free, pending, mutable and shared, the counters agree
  with the page vector, sequences and prefixes are counted, payload is the tokens of all
  sequences, reserved is the capacity of all page tables, fragmentation their difference,
  and attachments count the sequences that hang on a prefix. A broken cache is never
  reported.
\<close>

theorem kv_metrics_exact:
  assumes "kv_reachable c"
  shows "if table_capacity c < 2 ^ 64
    then \<exists>m. kv_metrics c = Inr m \<and> exact_metrics c m
    else kv_metrics c = fail Arithmetic_overflow"
proof (cases "table_capacity c < 2 ^ 64")
  case True
  then show ?thesis using kv_metrics_fit [OF kv_reachable_inv [OF assms]] by simp
next
  case False
  note inv = kv_reachable_inv [OF assms]
  obtain m1 m2 where m: "metrics_pages c 0 (kv_pages c)
        (empty_metrics\<lparr>mt_total_pages := of_nat (length (kv_pages c)),
           mt_sequence_count := of_nat (length (kv_sequences c)),
           mt_prefix_count := of_nat (length (kv_prefixes c))\<rparr>) = Inr m1"
    "metrics_prefixes (kv_prefixes c) m1 = Inr m2"
    "mt_logical_payload_tokens m2 = 0" "mt_logical_reserved_tokens m2 = 0"
    by (rule kv_metrics_stages [OF inv])
  show ?thesis
  proof (cases "metrics_sequences c (kv_sequences c) m2")
    case (Inl e)
    then have "e = status_failure Arithmetic_overflow"
      using metrics_sequences_error known_prefix [OF inv] by blast
    with m(1,2) Inl False show ?thesis by (simp add: kv_metrics_def)
  next
    case (Inr m3)
    have "unat (mt_logical_reserved_tokens m3) = table_capacity c"
      using metrics_sequences_sum [OF inv subset_refl Inr] m(4) by (simp add: table_capacity_def)
    with False unat_u64_lt [of "mt_logical_reserved_tokens m3"] show ?thesis by simp
  qed
qed

theorem kv_metrics_exact_witness:
  "\<exists>m. kv_metrics demo_cache = Inr m \<and> exact_metrics demo_cache m"
proof -
  have "has_value (kv_metrics demo_cache)" by code_simp
  with kv_metrics_exact [OF demo_reachable] show ?thesis by (auto split: if_splits)
qed

lemma prefix_attached:
  "kv_inv c \<Longrightarrow> find_sequence c i = Some s \<Longrightarrow> sq_prefix_id s = 0 \<or>
     (\<exists>q. find_prefix c (sq_prefix_id s) = Some q \<and> pf_attachments q \<noteq> 0)"
  by (metis attached_prefix)

lemma kv_step_never_broken:
  assumes inv: "kv_inv c"
  shows "status_code (fst (kv_step x c)) \<noteq> Invalid_format"
proof -
  have al: "alloc_error a \<noteq> Invalid_format" for a by (cases a) auto
  show ?thesis
  proof (cases x)
    case (Create_sequence a i p)
    then show ?thesis
      by (auto simp: kv_create_sequence_def status_success_def al Let_def split: option.splits)
  next
    case (Destroy_sequence i)
    then show ?thesis
    proof (cases "find_sequence c i")
      case (Some s)
      then show ?thesis
        using Destroy_sequence sequence_owned [OF inv Some] prefix_attached [OF inv Some]
        by (auto simp: kv_destroy_sequence_def status_success_def Let_def)
    qed (simp add: kv_destroy_sequence_def)
  next
    case (Reserve a1 a2 i t)
    then show ?thesis
      by (auto simp: kv_reserve_def status_success_def al Let_def split: option.splits)
  next
    case (Commit a i)
    show ?thesis
    proof (cases "find_reservation c i")
      case (Some r)
      obtain s where "find_sequence c (rv_sequence_id r) = Some s"
        using kv_inv_res_ok [OF inv Some] inv
        by (auto simp: res_ok_def kv_inv_def find_sequence_def keyed)
      then show ?thesis
        using Commit Some reservation_owned [OF inv Some]
        by (simp add: kv_commit_def status_success_def al)
    qed (simp add: Commit kv_commit_def)
  next
    case (Rollback i)
    then show ?thesis
      using reservation_owned [OF inv]
      by (auto simp: kv_rollback_def status_success_def split: option.splits)
  next
    case (Publish_prefix a p i)
    then show ?thesis
      using sequence_owned [OF inv]
      by (auto simp: kv_publish_prefix_def status_success_def al split: option.splits)
  next
    case (Destroy_prefix p)
    then show ?thesis
      using prefix_owned [OF inv]
      by (auto simp: kv_destroy_prefix_def status_success_def split: option.splits)
  qed
qed

lemma kv_step_failure_keeps:
  "fst (kv_step x c) \<noteq> status_success \<Longrightarrow> snd (kv_step x c) = c"
  by (cases x)
    (auto simp: kv_create_sequence_def kv_destroy_sequence_def kv_reserve_def kv_commit_def
      kv_rollback_def kv_publish_prefix_def kv_destroy_prefix_def Let_def
      split: option.splits if_splits)

text \<open>
  (C8) No operation on a reachable cache reports \<open>invalid_format\<close>, the code for a page
  table that contradicts itself, and an operation that reports any error at all has
  changed nothing, whatever its allocations did.
\<close>

theorem kv_errors_harmless:
  assumes "kv_reachable c"
  shows "status_code (fst (kv_step x c)) \<noteq> Invalid_format \<and>
    (fst (kv_step x c) \<noteq> status_success \<longrightarrow> snd (kv_step x c) = c)"
  using kv_step_never_broken [OF kv_reachable_inv [OF assms]] kv_step_failure_keeps by blast

theorem kv_errors_harmless_witness:
  "fst (kv_step (Destroy_prefix 7) demo_cache) \<noteq> status_success \<and>
   status_code (fst (kv_step (Destroy_prefix 7) demo_cache)) \<noteq> Invalid_format \<and>
   snd (kv_step (Destroy_prefix 7) demo_cache) = demo_cache"
proof -
  have "fst (kv_step (Destroy_prefix 7) demo_cache) \<noteq> status_success" by code_simp
  with kv_errors_harmless [OF demo_reachable, of "Destroy_prefix 7"] show ?thesis by blast
qed

section \<open>The two-phase reservation\<close>

text \<open>
  (C9) With memory for its own vectors, \<open>reserve\<close> succeeds exactly when the sequence
  exists, has no pending reservation, does not shrink, ids are not used up, and enough
  pages are free; it then hands out the lowest-numbered free pages, as many as the new
  length needs and no more, and lack of pages is reported as \<open>insufficient_memory\<close>.
\<close>

theorem kv_reserve_exact:
  assumes "kv_reachable c" and "find_sequence c i = Some s"
  shows "let need = npages (unat t - unat (sq_prefix_tokens s)) (unat (kv_tokens_per_page c))
                      - length (sq_suffix_pages s);
             admissible = (find_sequence_reservation c i = None \<and> sq_total_tokens s \<le> t \<and>
                           kv_next_reservation_id c \<noteq> 0);
             lowest = map of_nat (filter (\<lambda>k. pg_state (kv_pages c ! k) = Free)
                                    [0 ..< length (kv_pages c)])
         in fst (kv_reserve Alloc_ok Alloc_ok i t c) =
            (if \<not> admissible then fail Invalid_argument
             else if state_count Free (kv_pages c) < need then fail Insufficient_memory
             else Inr \<lparr>res_id = kv_next_reservation_id c, res_sequence_id = i,
                       res_target_token_count = t, res_new_pages = take need lowest\<rparr>)"
proof (cases "find_sequence_reservation c i = None \<and> sq_total_tokens s \<le> t \<and>
    kv_next_reservation_id c \<noteq> 0")
  case False
  then show ?thesis using assms(2) by (auto simp: kv_reserve_def not_less)
next
  case True
  note inv = kv_reachable_inv [OF assms(1)]
  let ?need = "npages (unat t - unat (sq_prefix_tokens s)) (unat (kv_tokens_per_page c))
                 - length (sq_suffix_pages s)"
  have need: "unat (reserve_page_count c s t) = ?need"
    using unat_reserve_page_count [OF inv assms(2), of t] True by linarith
  have "free_count (kv_pages c) = state_count Free (kv_pages c)"
    by (simp add: free_count_def state_count_def)
  then show ?thesis
    using True assms(2) need length_select_free [of "kv_pages c" ?need]
    by (auto simp: kv_reserve_def Let_def select_free_0 not_less min_def)
qed

theorem kv_reserve_exact_witness:
  "\<exists>r. fst (kv_reserve Alloc_ok Alloc_ok 3 60 demo_cache) = Inr r \<and> res_new_pages r = [4, 5, 6]"
proof -
  have s: "find_sequence demo_cache 3 = Some \<lparr>sq_id = 3, sq_prefix_id = 7, sq_prefix_tokens = 20,
      sq_total_tokens = 20, sq_suffix_pages = []\<rparr>" by code_simp
  have c: "kv_tokens_per_page demo_cache = 16" "find_sequence_reservation demo_cache 3 = None"
    "kv_next_reservation_id demo_cache = 3" "length (kv_pages demo_cache) = 8"
    "state_count Free (kv_pages demo_cache) = 4"
    "filter (\<lambda>k. pg_state (kv_pages demo_cache ! k) = Free) [0 ..< 8] = [4, 5, 6, 7]"
    by code_simp+
  have n: "npages 40 16 = 3" by code_simp
  from kv_reserve_exact [OF demo_reachable s, of 60] show ?thesis
    by (simp add: c n Let_def)
qed

definition pending_of :: "kv_reservation \<Rightarrow> pending_reservation" where
  "pending_of r = \<lparr>rv_id = res_id r, rv_sequence_id = res_sequence_id r,
     rv_target_token_count = res_target_token_count r, rv_pages = res_new_pages r\<rparr>"

lemma kv_reserve_pending:
  assumes inv: "kv_inv c" and r: "kv_reserve a1 a2 i t c = (Inr r, c')"
  obtains n where "res_new_pages r = select_free (kv_pages c) 0 n"
    "res_sequence_id r = i" "res_target_token_count r = t"
    "res_id r \<notin> rv_id ` set (kv_reservations c)"
    "find_reservation c' (res_id r) = Some (pending_of r)"
    "c' = c\<lparr>kv_reservations := kv_reservations c @ [pending_of r],
          kv_pages := assign_pages (kv_pages c) (res_new_pages r)
            \<lparr>pg_state = Reserved, pg_owner = res_id r\<rparr>,
          kv_next_reservation_id := kv_next_reservation_id c + 1\<rparr>"
proof (cases rule: kv_reserve_cases [of a1 a2 i t c])
  case fails
  with r show thesis by simp
next
  case (reserves s n)
  have new: "kv_next_reservation_id c \<notin> rv_id ` set (kv_reservations c)"
    using inv reserves(4) by (force simp: kv_inv_def res_ok_def)
  show thesis
    by (rule that [of n])
      (use reserves(7) r new find_append_new [OF new, of "pending_of r"] in
        \<open>auto simp: find_reservation_def pending_of_def\<close>)
qed

text \<open>
  (C10) A reservation that is rolled back leaves no trace but the consumed id: pages,
  sequences, prefixes and the other reservations are exactly as before.
\<close>

theorem kv_reserve_rollback:
  assumes "kv_reachable c" and "kv_reserve a1 a2 i t c = (Inr r, c')"
  shows "kv_rollback (res_id r) c' =
    (status_success, c\<lparr>kv_next_reservation_id := kv_next_reservation_id c + 1\<rparr>)"
proof -
  note inv = kv_reachable_inv [OF assms(1)]
  obtain n where sel: "res_new_pages r = select_free (kv_pages c) 0 n"
    and new: "res_id r \<notin> rv_id ` set (kv_reservations c)"
    and found: "find_reservation c' (res_id r) = Some (pending_of r)"
    and c': "c' = c\<lparr>kv_reservations := kv_reservations c @ [pending_of r],
          kv_pages := assign_pages (kv_pages c) (res_new_pages r)
            \<lparr>pg_state = Reserved, pg_owner = res_id r\<rparr>,
          kv_next_reservation_id := kv_next_reservation_id c + 1\<rparr>"
    using kv_reserve_pending [OF inv assms(2)] by blast
  have inv': "kv_inv c'" using kv_reserve_inv [OF inv, of a1 a2 i t] assms(2) by simp
  have len: "length (kv_pages c) < 2 ^ 32" using kv_inv_store [OF inv] by (simp add: store_ok_def)
  have undo: "assign_pages (assign_pages (kv_pages c) (res_new_pages r) pg) (res_new_pages r) empty_page
      = kv_pages c" (is "?ps = _") for pg
  proof (rule nth_equalityI)
    fix k assume "k < length ?ps"
    then have k: "k < length (kv_pages c)" by simp
    then have un: "unat (of_nat k :: u32) = k" using len by (intro unat_u32_of_nat) simp
    have "kv_pages c ! k = empty_page" if "(of_nat k :: u32) \<in> set (res_new_pages r)"
      using select_free_props(2) [OF len that [unfolded sel]] un page_valid [OF inv k]
      by (cases "kv_pages c ! k") (auto simp: owner_is_valid_def empty_page_def)
    then show "?ps ! k = kv_pages c ! k"
      using k un nth_assign_pages [of "of_nat k"] by (metis length_assign_pages)
  qed simp
  have "rv_id (pending_of r) = res_id r" "rv_pages (pending_of r) = res_new_pages r"
    by (simp_all add: pending_of_def)
  then show ?thesis
    using reservation_owned [OF inv' found] found c' erase_append_new [OF new] undo
    by (simp add: kv_rollback_def)
qed

theorem kv_reserve_rollback_witness:
  "fst (kv_rollback 3 (snd (kv_reserve Alloc_ok Alloc_ok 3 60 demo_cache))) = status_success"
proof -
  have "fst (kv_reserve Alloc_ok Alloc_ok 3 60 demo_cache) = Inr \<lparr>res_id = 3, res_sequence_id = 3,
      res_target_token_count = 60, res_new_pages = [4, 5, 6]\<rparr>" by code_simp
  then have "kv_reserve Alloc_ok Alloc_ok 3 60 demo_cache = (Inr \<lparr>res_id = 3, res_sequence_id = 3,
      res_target_token_count = 60, res_new_pages = [4, 5, 6]\<rparr>,
      snd (kv_reserve Alloc_ok Alloc_ok 3 60 demo_cache))" by (metis prod.collapse)
  from kv_reserve_rollback [OF demo_reachable this] show ?thesis by simp
qed

text \<open>
  Committing a fresh reservation cannot fail once its vector can grow: the sequence's
  page table becomes the old one with the reserved pages at the end and the target length,
  and no other sequence's page table changes.
\<close>

theorem kv_reserve_commit:
  assumes "kv_reachable c" and "kv_page_table Alloc_ok i c = Inr t"
    and "kv_reserve a1 a2 i n c = (Inr r, c1)" and "kv_commit Alloc_ok (res_id r) c1 = (st, c2)"
  shows "st = status_success \<and>
    kv_page_table Alloc_ok i c2 =
      Inr (t\<lparr>pt_pages := pt_pages t @ res_new_pages r, pt_total_tokens := n\<rparr>) \<and>
    (\<forall>j. j \<noteq> i \<longrightarrow> kv_page_table Alloc_ok j c2 = kv_page_table Alloc_ok j c)"
proof -
  note inv = kv_reachable_inv [OF assms(1)]
  obtain k where r: "res_sequence_id r = i" "res_target_token_count r = n"
    and found: "find_reservation c1 (res_id r) = Some (pending_of r)"
    and c1: "c1 = c\<lparr>kv_reservations := kv_reservations c @ [pending_of r],
          kv_pages := assign_pages (kv_pages c) (res_new_pages r)
            \<lparr>pg_state = Reserved, pg_owner = res_id r\<rparr>,
          kv_next_reservation_id := kv_next_reservation_id c + 1\<rparr>"
    using kv_reserve_pending [OF inv assms(3)] by metis
  have inv1: "kv_inv c1" using kv_reserve_inv [OF inv, of a1 a2 i n] assms(3) by simp
  have pend: "rv_sequence_id (pending_of r) = i" "rv_pages (pending_of r) = res_new_pages r"
    "rv_target_token_count (pending_of r) = n"
    using r by (simp_all add: pending_of_def)
  obtain s where s: "find_sequence c i = Some s"
    using assms(2) by (auto simp: kv_page_table_Inr [OF inv])
  then have s1: "find_sequence c1 i = Some s" by (simp add: c1 find_sequence_def)
  have upd: "(\<lambda>s. s\<lparr>sq_suffix_pages := sq_suffix_pages s @ res_new_pages r, sq_total_tokens := n\<rparr>)
      = grow (res_new_pages r) n"
    by (simp add: grow_def fun_eq_iff)
  have c2: "st = status_success"
    "kv_sequences c2 = update_first (\<lambda>s. sq_id s = i) (grow (res_new_pages r) n) (kv_sequences c)"
    "kv_prefixes c2 = kv_prefixes c"
    using assms(4) found s1 reservation_owned [OF inv1 found] pend
    by (auto simp: kv_commit_def upd c1)
  have find2: "find_sequence c2 j =
      (if j = i then Some (grow (res_new_pages r) n s) else find_sequence c j)" for j
    using s find_update_first [of sq_id "grow (res_new_pages r) n" j i "kv_sequences c"]
    by (auto simp: find_sequence_def c2)
  have "find_prefix c2 = find_prefix c" by (simp add: find_prefix_def c2 fun_eq_iff)
  then show ?thesis
    using c2(1) s assms(2) by (auto simp: kv_page_table_def find2 Let_def split: if_splits option.splits)
qed

theorem kv_reserve_commit_witness:
  "\<exists>t. kv_page_table Alloc_ok 3
      (snd (kv_commit Alloc_ok 3 (snd (kv_reserve Alloc_ok Alloc_ok 3 60 demo_cache)))) = Inr t \<and>
     pt_pages t = [0, 1, 4, 5, 6] \<and> pt_total_tokens t = 60"
proof -
  let ?r = "\<lparr>res_id = 3, res_sequence_id = 3, res_target_token_count = 60,
      res_new_pages = [4, 5, 6]\<rparr> :: kv_reservation"
  let ?c1 = "snd (kv_reserve Alloc_ok Alloc_ok 3 60 demo_cache)"
  have u: "kv_page_table Alloc_ok 3 demo_cache = Inr \<lparr>pt_sequence_id = 3, pt_prefix_id = 7,
      pt_prefix_tokens = 20, pt_total_tokens = 20, pt_shared_prefix_pages = 2, pt_pages = [0, 1]\<rparr>"
    by code_simp
  have "fst (kv_reserve Alloc_ok Alloc_ok 3 60 demo_cache) = Inr ?r" by code_simp
  then have r: "kv_reserve Alloc_ok Alloc_ok 3 60 demo_cache = (Inr ?r, ?c1)"
    by (metis prod.collapse)
  have "kv_commit Alloc_ok (res_id ?r) ?c1 =
      (fst (kv_commit Alloc_ok (res_id ?r) ?c1), snd (kv_commit Alloc_ok (res_id ?r) ?c1))" by simp
  from kv_reserve_commit [OF demo_reachable u r this] show ?thesis by simp
qed

section \<open>Lifetimes\<close>

text \<open>
  (C11) A published prefix can be destroyed exactly when no sequence is attached to it, so
  no page table ever loses its shared pages.
\<close>

theorem kv_prefix_lifetime:
  assumes "kv_reachable c"
  shows "fst (kv_destroy_prefix p c) = status_success \<longleftrightarrow>
    find_prefix c p \<noteq> None \<and> (\<forall>s \<in> set (kv_sequences c). sq_prefix_id s \<noteq> p)"
proof (cases "find_prefix c p")
  case None
  then show ?thesis by (simp add: kv_destroy_prefix_def)
next
  case (Some q)
  note inv = kv_reachable_inv [OF assms]
  have "unat (pf_attachments q) = count_list (map sq_prefix_id (kv_sequences c)) p"
    using kv_inv_prefix_ok [OF inv Some] find_prefixD [OF Some] by (simp add: prefix_ok_def)
  then have "pf_attachments q = 0 \<longleftrightarrow> p \<notin> set (map sq_prefix_id (kv_sequences c))"
    by (metis count_list_0_iff unat_eq_zero)
  then show ?thesis
    using Some prefix_owned [OF inv Some] by (auto simp: kv_destroy_prefix_def)
qed

theorem kv_prefix_lifetime_witness:
  "fst (kv_destroy_prefix 7 demo_cache) \<noteq> status_success \<and>
   (\<exists>s \<in> set (kv_sequences demo_cache). sq_prefix_id s = 7)"
proof -
  have f: "find_prefix demo_cache 7 \<noteq> None" by code_simp
  have "fst (kv_destroy_prefix 7 demo_cache) \<noteq> status_success" by code_simp
  with f kv_prefix_lifetime [OF demo_reachable, of 7] show ?thesis by blast
qed

text \<open>
  No page leaks: when the last sequence and the last prefix are gone, every page is
  free again and the metrics say so.
\<close>

theorem kv_drained_all_free:
  assumes "kv_reachable c" and "kv_sequences c = []" and "kv_prefixes c = []"
  shows "kv_pages c = replicate (length (kv_pages c)) empty_page \<and> kv_reservations c = [] \<and>
    (\<exists>m. kv_metrics c = Inr m \<and> mt_free_pages m = mt_total_pages m)"
proof -
  note inv = kv_reachable_inv [OF assms(1)]
  have "\<forall>r \<in> set (kv_reservations c). res_ok (unat (kv_tokens_per_page c))
      (kv_next_reservation_id c) (kv_sequences c) r"
    using inv by (simp add: kv_inv_def)
  then have res: "kv_reservations c = []"
    using assms(2) by (cases "kv_reservations c") (auto simp: res_ok_def)
  then have none: "claims c = []"
    by (simp add: claims_def res_claims_def seq_claims_def pf_claims_def assms)
  have "kv_pages c ! k = empty_page" if k: "k < length (kv_pages c)" for k
  proof -
    have "unat (of_nat k :: u32) = k"
      using k kv_inv_store [OF inv] by (intro unat_u32_of_nat) (simp add: store_ok_def)
    then show ?thesis using kv_inv_store [OF inv] k none by (metis image_empty list.set(1) store_ok_def empty_iff)
  qed
  then have free: "kv_pages c = replicate (length (kv_pages c)) empty_page"
    by (intro nth_equalityI) auto
  obtain m where m: "kv_metrics c = Inr m" "exact_metrics c m"
    using kv_metrics_fit [OF inv] assms by (auto simp: table_capacity_def)
  have "state_count Free (kv_pages c) = length (kv_pages c)"
    by (subst free) (simp add: state_count_def empty_page_def)
  then have "mt_free_pages m = mt_total_pages m"
    using m(2) by (simp add: exact_metrics_def flip: unat_inject)
  with free res m(1) show ?thesis by blast
qed

theorem kv_drained_all_free_witness:
  "\<exists>c m. kv_create Alloc_ok 8 16 = Inr c \<and> kv_metrics c = Inr m \<and> mt_free_pages m = mt_total_pages m"
proof -
  let ?c = "projr (kv_create Alloc_ok 8 16)"
  have c: "kv_create Alloc_ok 8 16 = Inr ?c" by (simp add: kv_create_def)
  have "kv_sequences ?c = []" "kv_prefixes ?c = []" by (simp_all add: kv_create_def)
  from kv_drained_all_free [OF kv_reachable_start [OF c] this] c show ?thesis by blast
qed

end
