(* ===== verification/SchedulerProps.thy ===== *)
theory SchedulerProps
  imports Scheduler
begin

text \<open>
  The scheduler's invariant, the round-robin specification of \<open>schedule\<close>, freedom from
  starvation, the life of a sequence and the exactness of its token counts.
\<close>

section \<open>The invariant\<close>

definition active_ok :: "sequence_phase \<Rightarrow> entry \<Rightarrow> bool" where
  "active_ok p e \<longleftrightarrow>
     p = Queued \<and> en_generated_tokens e = 0 \<or>
     p = Decoding \<and> 0 < unat (en_generated_tokens e) \<and>
       unat (en_generated_tokens e) < unat (rq_max_output_tokens (en_request e))"

definition entry_ok :: "entry \<Rightarrow> bool" where
  "entry_ok e \<longleftrightarrow>
     rq_id (en_request e) \<noteq> 0 \<and> rq_prompt_tokens (en_request e) \<noteq> 0 \<and>
     rq_max_output_tokens (en_request e) \<noteq> 0 \<and>
     unat (rq_prompt_tokens (en_request e)) + unat (rq_max_output_tokens (en_request e)) < 2 ^ 32 \<and>
     unat (en_generated_tokens e) \<le> unat (rq_max_output_tokens (en_request e)) \<and>
     (en_cancel_pending e \<longrightarrow> en_in_flight e) \<and>
     (en_in_flight e \<longrightarrow> active_ok (en_phase e) e) \<and>
     (\<not> is_terminal (en_phase e) \<longrightarrow>
        active_ok (if en_phase e = Paused then en_resume_phase e else en_phase e) e)"

definition sched_inv :: "scheduler \<Rightarrow> bool" where
  "sched_inv s \<longleftrightarrow>
     distinct (map entry_id (sch_entries s)) \<and> (\<forall>e \<in> set (sch_entries s). entry_ok e) \<and>
     sch_next_scan_index s \<le> length (sch_entries s) - 1"

lemma sched_inv_entry: "sched_inv s \<Longrightarrow> find_entry s i = Some e \<Longrightarrow> entry_ok e \<and> entry_id e = i"
  unfolding sched_inv_def find_entry_def by (auto dest: find_SomeD)

lemma find_entry_iff:
  "sched_inv s \<Longrightarrow> find_entry s i = Some e \<longleftrightarrow> e \<in> set (sch_entries s) \<and> entry_id e = i"
  by (simp add: sched_inv_def find_entry_def find_distinct_key)

lemma set_entry_inv:
  assumes "sched_inv s" "find_entry s i = Some e" "entry_ok (f e)" "entry_id (f e) = i"
  shows "sched_inv (set_entry i f s)"
proof -
  have found: "List.find (\<lambda>e. entry_id e = i) (sch_entries s) = Some e"
    using assms(2) by (simp add: find_entry_def)
  have "entry_id (f e) = entry_id e" using assms(4) find_SomeD [OF found] by simp
  note keys = map_update_first_found [OF found, of entry_id f, OF this]
  from assms(1,3) set_update_first_subset [OF found, of f] show ?thesis
    unfolding sched_inv_def set_entry_def by (auto simp: keys)
qed

lemma find_set_entry:
  assumes "find_entry s i = Some e" "entry_id (f e) = i"
  shows "find_entry (set_entry i f s) j = (if j = i then Some (f e) else find_entry s j)"
  using find_update_first_found [of entry_id i "sch_entries s" e f j] assms
  by (simp add: find_entry_def set_entry_def)

lemma entry_ids_set_entry:
  assumes "find_entry s i = Some e" "entry_id (f e) = i"
  shows "map entry_id (sch_entries (set_entry i f s)) = map entry_id (sch_entries s)"
proof -
  have found: "List.find (\<lambda>e. entry_id e = i) (sch_entries s) = Some e"
    using assms(1) by (simp add: find_entry_def)
  have "entry_id (f e) = entry_id e" using assms(2) find_SomeD [OF found] by simp
  from map_update_first_found [OF found, of entry_id f, OF this] show ?thesis
    by (simp add: set_entry_def)
qed

lemma set_entry_simps [simp]:
  "sch_next_scan_index (set_entry i f s) = sch_next_scan_index s"
  "sch_generation (set_entry i f s) = sch_generation s"
  "length (sch_entries (set_entry i f s)) = length (sch_entries s)"
  by (simp_all add: set_entry_def)

section \<open>The scan\<close>

lemma select_runnable_eq:
  "select_runnable es js limit = take limit (filter (\<lambda>i. is_runnable (es ! i)) js)"
  by (induction es js limit rule: select_runnable.induct) (auto simp: take_Cons')

lemma length_scan_order [simp]: "length (scan_order start n) = n"
  by (simp add: scan_order_def)

lemma scan_order_rotate: "scan_order start n = rotate start [0 ..< n]"
  by (rule nth_equalityI) (auto simp: scan_order_def nth_rotate)

lemma set_scan_order [simp]: "set (scan_order start n) = {..< n}"
  by (auto simp: scan_order_rotate)

lemma distinct_scan_order [simp]: "distinct (scan_order start n)"
  by (simp add: scan_order_rotate)

lemma map_nth_scan_order: "map ((!) es) (scan_order start (length es)) = rotate start es"
  by (metis map_nth rotate_map scan_order_rotate)

lemma batch_items_eq: "batch_items es js k = map (\<lambda>(k, i). batch_item_for k (es ! i)) (enumerate k js)"
  by (induction js arbitrary: k) auto

definition marked :: "entry \<Rightarrow> entry" where
  "marked e = e\<lparr>en_in_flight := True,
     en_in_flight_work := (if en_phase e = Queued then Prefill else Decode)\<rparr>"

lemma mark_in_flight_nth:
  "distinct js \<Longrightarrow> set js \<subseteq> {..< length es} \<Longrightarrow> (\<forall>i \<in> set js. es ! i = es' ! i) \<Longrightarrow>
     length (mark_in_flight es js (batch_items es' js k)) = length es \<and>
     (\<forall>j < length es. mark_in_flight es js (batch_items es' js k) ! j =
        (if j \<in> set js then marked (es ! j) else es ! j))"
proof (induction js arbitrary: es k)
  case Nil
  then show ?case by simp
next
  case (Cons i js)
  let ?es = "es[i := (es ! i)\<lparr>en_in_flight := True,
    en_in_flight_work := bi_work (batch_item_for k (es' ! i))\<rparr>]"
  have "length (mark_in_flight ?es js (batch_items es' js (Suc k))) = length ?es \<and>
     (\<forall>j < length ?es. mark_in_flight ?es js (batch_items es' js (Suc k)) ! j =
        (if j \<in> set js then marked (?es ! j) else ?es ! j))"
    using Cons.prems by (intro Cons.IH) (auto simp: nth_list_update)
  then show ?case
    using Cons.prems by (auto simp: nth_list_update marked_def batch_item_for_def)
qed

lemma mark_in_flight_map:
  assumes "distinct (map key es)" "distinct js" "set js \<subseteq> {..< length es}"
  shows "mark_in_flight es js (batch_items es js k) =
    map (\<lambda>e. if key e \<in> set (map (\<lambda>i. key (es ! i)) js) then marked e else e) es"
    (is "?l = map ?f es")
proof (rule nth_equalityI)
  note m = mark_in_flight_nth [OF assms(2,3), where es' = es and k = k, simplified]
  show "length ?l = length (map ?f es)" using m by simp
  fix j assume "j < length ?l"
  then have j: "j < length es" using m by simp
  have "key (es ! j) \<in> set (map (\<lambda>i. key (es ! i)) js) \<longleftrightarrow> j \<in> set js"
    using assms(1,3) j nth_eq_iff_index_eq [OF assms(1)] by (force simp: nth_map)
  then show "?l ! j = map ?f es ! j" using m j by simp
qed

text \<open>What one \<open>schedule\<close> does, in terms of the entries it selected.\<close>

definition sched_selected :: "scheduler \<Rightarrow> nat \<Rightarrow> nat list" where
  "sched_selected s limit = take limit (filter (\<lambda>i. is_runnable (sch_entries s ! i))
     (scan_order (sch_next_scan_index s mod length (sch_entries s)) (length (sch_entries s))))"

lemma sched_selected_facts:
  "distinct (sched_selected s k)" "set (sched_selected s k) \<subseteq> {..< length (sch_entries s)}"
  "i \<in> set (sched_selected s k) \<Longrightarrow> is_runnable (sch_entries s ! i)"
  by (auto simp: sched_selected_def dest!: in_set_takeD)

lemma take_min_length: "length xs \<le> n \<Longrightarrow> take (min k n) xs = take k xs"
  by (simp add: min_def)

lemma sched_selected_min: "sched_selected s (min k (length (sch_entries s))) = sched_selected s k"
  unfolding sched_selected_def
  by (rule take_min_length) (metis length_filter_le length_scan_order)

lemma schedule_cases:
  obtains (error) e where "schedule a1 a2 m s = (fail e, s)" "e \<noteq> Ok"
  | (idle) "schedule a1 a2 m s = (Inr \<lparr>ib_generation = sch_generation s, ib_items = []\<rparr>, s)"
      "sched_selected s (unat m) = []" "m \<noteq> 0"
  | (batch) "schedule a1 a2 m s =
        (Inr \<lparr>ib_generation = sch_generation s + 1,
             ib_items = batch_items (sch_entries s) (sched_selected s (unat m)) 0\<rparr>,
         s\<lparr>sch_generation := sch_generation s + 1,
           sch_entries := mark_in_flight (sch_entries s) (sched_selected s (unat m))
             (batch_items (sch_entries s) (sched_selected s (unat m)) 0),
           sch_next_scan_index :=
             (last (sched_selected s (unat m)) + 1) mod length (sch_entries s)\<rparr>)"
      "sched_selected s (unat m) \<noteq> []" "m \<noteq> 0" "sch_generation s \<noteq> u64_max"
proof -
  have sel: "select_runnable (sch_entries s)
      (scan_order (sch_next_scan_index s mod length (sch_entries s)) (length (sch_entries s)))
      (min (unat m) (length (sch_entries s))) = sched_selected s (unat m)"
    using sched_selected_min [of s "unat m"] by (simp add: select_runnable_eq sched_selected_def)
  have none: "sch_entries s = [] \<Longrightarrow> sched_selected s (unat m) = []"
    by (simp add: sched_selected_def scan_order_def)
  let ?sel = "sched_selected s (unat m)"
  have *: "schedule a1 a2 m s =
     (if m = 0 then (fail Invalid_argument, s)
      else if sch_entries s = [] then (Inr \<lparr>ib_generation = sch_generation s, ib_items = []\<rparr>, s)
      else if a1 \<noteq> Alloc_ok then (fail (alloc_error a1), s)
      else if ?sel = [] then (Inr \<lparr>ib_generation = sch_generation s, ib_items = []\<rparr>, s)
      else if sch_generation s = u64_max then (fail Arithmetic_overflow, s)
      else if a2 \<noteq> Alloc_ok then (fail (alloc_error a2), s)
      else (Inr \<lparr>ib_generation = sch_generation s + 1,
             ib_items = batch_items (sch_entries s) ?sel 0\<rparr>,
         s\<lparr>sch_generation := sch_generation s + 1,
           sch_entries := mark_in_flight (sch_entries s) ?sel
             (batch_items (sch_entries s) ?sel 0),
           sch_next_scan_index := (last ?sel + 1) mod length (sch_entries s)\<rparr>))"
    unfolding schedule_def Let_def sel by simp
  consider "m = 0" | "m \<noteq> 0" "sch_entries s = []" | "sch_entries s \<noteq> []" "m \<noteq> 0" by blast
  then show ?thesis
  proof cases
    case 1
    with * show ?thesis by (intro error [of Invalid_argument]) simp_all
  next
    case 2
    with * none show ?thesis by (intro idle) simp_all
  next
    case 3
    show ?thesis
    proof (cases "a1 = Alloc_ok \<and> ?sel = []")
      case True
      with * 3 show ?thesis by (intro idle) simp_all
    next
      case False
      show ?thesis
      proof (cases "a1 = Alloc_ok \<and> sch_generation s \<noteq> u64_max \<and> a2 = Alloc_ok")
        case True
        with * 3 False show ?thesis by (intro batch) simp_all
      next
        case no: False
        show ?thesis
          using * 3 False no error [of "alloc_error a1"] error [of "alloc_error a2"]
            error [of Arithmetic_overflow] by (auto split: if_splits)
      qed
    qed
  qed
qed

section \<open>The scheduler as a guarded machine\<close>

datatype sched_op =
    Enqueue alloc sequence_request
  | Schedule alloc alloc u64
  | Complete sequence_id u32 bool
  | Pause sequence_id
  | Resume sequence_id
  | Cancel sequence_id

text \<open>A reply is a status, with the batch when \<open>schedule\<close> returned one.\<close>

fun no_batch :: "status \<times> scheduler \<Rightarrow> (status \<times> inference_batch option) \<times> scheduler" where
  "no_batch (st, s) = ((st, None), s)"

fun sched_step :: "sched_op \<Rightarrow> scheduler \<Rightarrow> (status \<times> inference_batch option) \<times> scheduler" where
  "sched_step (Enqueue a r) s = no_batch (enqueue a r s)"
| "sched_step (Schedule a1 a2 m) s =
     (case schedule a1 a2 m s of
        (Inl e, s') \<Rightarrow> ((e, None), s')
      | (Inr b, s') \<Rightarrow> ((status_success, Some b), s'))"
| "sched_step (Complete i n t) s = no_batch (complete i n t s)"
| "sched_step (Pause i) s = no_batch (pause i s)"
| "sched_step (Resume i) s = no_batch (resume i s)"
| "sched_step (Cancel i) s = no_batch (cancel i s)"

lemma snd_no_batch [simp]: "snd (no_batch p) = snd p" "fst (no_batch p) = (fst p, None)"
  by (cases p; simp)+

lemma schedule_keeps:
  assumes "sched_inv s" "sched_selected s k \<noteq> []"
  shows "mark_in_flight (sch_entries s) (sched_selected s k)
      (batch_items (sch_entries s) (sched_selected s k) 0) =
    map (\<lambda>e. if entry_id e \<in> set (map (\<lambda>i. entry_id (sch_entries s ! i)) (sched_selected s k))
             then marked e else e) (sch_entries s)"
  using assms(1) sched_selected_facts(1,2) [of s k]
  by (intro mark_in_flight_map) (simp_all add: sched_inv_def)

lemma selected_runnable:
  assumes "sched_inv s" "e \<in> set (sch_entries s)"
    "entry_id e \<in> set (map (\<lambda>i. entry_id (sch_entries s ! i)) (sched_selected s k))"
  shows "is_runnable e"
proof -
  from assms(3) obtain i where i: "i \<in> set (sched_selected s k)"
    "entry_id e = entry_id (sch_entries s ! i)" by auto
  then have "i < length (sch_entries s)" using sched_selected_facts(2) by blast
  then have "e = sch_entries s ! i"
    using assms(1,2) i(2) distinct_key_unique [of entry_id "sch_entries s"]
    by (simp add: sched_inv_def)
  then show ?thesis using sched_selected_facts(3) i(1) by blast
qed

lemma marked_ok: "entry_ok e \<Longrightarrow> is_runnable e \<Longrightarrow> entry_ok (marked e)"
  by (auto simp: entry_ok_def marked_def is_runnable_def is_terminal_def active_ok_def)

lemma marked_simps [simp]:
  "entry_id (marked e) = entry_id e" "en_request (marked e) = en_request e"
  "en_phase (marked e) = en_phase e" "en_generated_tokens (marked e) = en_generated_tokens e"
  "en_in_flight (marked e)" "en_cancel_pending (marked e) = en_cancel_pending e"
  by (simp_all add: marked_def)

lemma schedule_inv:
  assumes inv: "sched_inv s"
  shows "sched_inv (snd (schedule a1 a2 m s))"
proof (cases rule: schedule_cases [of a1 a2 m s])
  case batch
  define f where "f = (\<lambda>e. if entry_id e \<in> set (map (\<lambda>i. entry_id (sch_entries s ! i))
    (sched_selected s (unat m))) then marked e else e)"
  have "entry_ok (f e)" if "e \<in> set (sch_entries s)" for e
    using inv marked_ok selected_runnable [OF inv that] that by (auto simp: sched_inv_def f_def)
  moreover have "map entry_id (map f (sch_entries s)) = map entry_id (sch_entries s)"
    by (simp add: f_def)
  moreover have "(last (sched_selected s (unat m)) + 1) mod length (sch_entries s)
      \<le> length (sch_entries s) - 1"
    using batch(2) sched_selected_facts(2) [of s "unat m"]
    by (cases "sch_entries s") (auto simp: less_Suc_eq_le [symmetric])
  ultimately show ?thesis
    using inv unfolding batch(1) schedule_keeps [OF inv batch(2)] sched_inv_def f_def [symmetric]
    by (simp del: map_map)
qed (use inv in auto)

lemma enqueue_inv: "sched_inv s \<Longrightarrow> sched_inv (snd (enqueue a r s))"
proof -
  assume inv: "sched_inv s"
  have "entry_ok (new_entry r)" if "rq_id r \<noteq> 0" "rq_prompt_tokens r \<noteq> 0"
      "rq_max_output_tokens r \<noteq> 0" "\<not> u32_max - rq_max_output_tokens r < rq_prompt_tokens r"
  proof -
    have "unat (u32_max - rq_max_output_tokens r) = 2 ^ 32 - 1 - unat (rq_max_output_tokens r)"
      by (simp add: unat_word_minus word_nat)
    with that show ?thesis
      using unat_u32_lt [of "rq_max_output_tokens r"]
      by (auto simp: entry_ok_def new_entry_def active_ok_def is_terminal_def word_less_nat_alt)
  qed
  then show ?thesis
    using inv by (auto simp: enqueue_def sched_inv_def find_entry_def find_None_iff_key new_entry_def)
qed

lemma unat_add_within: "\<not> n > m - g \<Longrightarrow> unat g \<le> unat m \<Longrightarrow> unat (g + n) = unat g + unat (n :: u32)
    \<and> unat (g + n) \<le> unat m"
proof -
  assume n: "\<not> n > m - g" and g: "unat g \<le> unat m"
  have "unat (m - g) = unat m - unat g" using g by (simp add: unat_word_minus word_le_nat_alt)
  then have le: "unat g + unat n \<le> unat m" using n g by (simp add: word_less_nat_alt)
  then have "unat (g + n) = unat g + unat n"
    using unat_u32_lt [of m] by (intro unat_u32_plus) simp
  with le show ?thesis by simp
qed

lemma complete_entry_ok:
  assumes "entry_ok e" "en_in_flight e" "n \<noteq> 0 \<or> t"
  shows "entry_ok (snd (complete_entry n t e)) \<and>
    entry_id (snd (complete_entry n t e)) = entry_id e"
proof (cases "en_cancel_pending e \<or> n > rq_max_output_tokens (en_request e) - en_generated_tokens e")
  case True
  then show ?thesis
    using assms by (auto simp: complete_entry_def Let_def entry_ok_def is_terminal_def active_ok_def)
next
  case False
  have g: "unat (en_generated_tokens e + n) = unat (en_generated_tokens e) + unat n"
    "unat (en_generated_tokens e + n) \<le> unat (rq_max_output_tokens (en_request e))"
    using unat_add_within [of "rq_max_output_tokens (en_request e)" "en_generated_tokens e" n]
      False assms(1) by (simp_all add: entry_ok_def)
  have "n \<noteq> 0 \<Longrightarrow> 0 < unat n" by (simp add: unat_gt_0)
  then show ?thesis
    using assms False g by (auto simp: complete_entry_def Let_def entry_ok_def is_terminal_def
        active_ok_def simp flip: unat_inject)
qed

lemma complete_inv:
  assumes inv: "sched_inv s"
  shows "sched_inv (snd (complete i n t s))"
proof (cases "find_entry s i")
  case None
  with inv show ?thesis by (simp add: complete_def)
next
  case (Some e)
  have "sched_inv (set_entry i (\<lambda>_. snd (complete_entry n t e)) s)"
    if "en_in_flight e" "n \<noteq> 0 \<or> t"
    using sched_inv_entry [OF inv Some] complete_entry_ok [OF _ that]
    by (intro set_entry_inv [OF inv Some]) auto
  with inv Some show ?thesis by (auto simp: complete_def split: prod.splits)
qed

lemma pause_inv: "sched_inv s \<Longrightarrow> sched_inv (snd (pause i s))"
  using sched_inv_entry [of s i]
  by (auto simp: pause_def split: option.splits intro!: set_entry_inv)
    (auto simp: entry_ok_def is_terminal_def active_ok_def)

lemma resume_inv: "sched_inv s \<Longrightarrow> sched_inv (snd (resume i s))"
  using sched_inv_entry [of s i]
  by (auto simp: resume_def split: option.splits intro!: set_entry_inv)
    (auto simp: entry_ok_def is_terminal_def active_ok_def)

lemma cancel_inv: "sched_inv s \<Longrightarrow> sched_inv (snd (cancel i s))"
  using sched_inv_entry [of s i]
  by (auto simp: cancel_def split: option.splits intro!: set_entry_inv)
    (auto simp: entry_ok_def is_terminal_def active_ok_def)

lemma sched_step_inv: "sched_inv s \<Longrightarrow> sched_inv (snd (sched_step x s))"
  using schedule_inv [of s] enqueue_inv complete_inv pause_inv resume_inv cancel_inv
  by (cases x) (auto split: prod.splits sum.splits, (metis snd_conv)+)

lemma new_scheduler_inv: "sched_inv new_scheduler"
  by (simp add: new_scheduler_def sched_inv_def)

interpretation sched: guarded_machine "\<lambda>s. s = new_scheduler" sched_step sched_inv
  by unfold_locales (simp_all add: new_scheduler_inv sched_step_inv)

definition sched_reachable :: "scheduler \<Rightarrow> bool" where
  "sched_reachable s \<longleftrightarrow> (\<exists>xs. s = run_ops sched_step xs new_scheduler)"

lemma sched_reachable_inv: "sched_reachable s \<Longrightarrow> sched_inv s"
  unfolding sched_reachable_def using sched.reachable_inv by blast

lemma sched_reachable_run: "sched_reachable s \<Longrightarrow> sched_reachable (run_ops sched_step xs s)"
  unfolding sched_reachable_def by (metis sched.run_append)

section \<open>Round robin\<close>

text \<open>
  A concrete run for the witnesses: three sequences, a batch of two, one of them completed.
\<close>

definition demo_request :: "u64 \<Rightarrow> sequence_request" where
  "demo_request i = \<lparr>rq_id = i, rq_prompt_tokens = 5, rq_max_output_tokens = 4\<rparr>"

definition demo_sched :: scheduler where
  "demo_sched = run_ops sched_step
     [Enqueue Alloc_ok (demo_request 1), Enqueue Alloc_ok (demo_request 2),
      Enqueue Alloc_ok (demo_request 3), Schedule Alloc_ok Alloc_ok 2, Complete 1 1 False]
     new_scheduler"

lemma demo_sched_reachable: "sched_reachable demo_sched"
  unfolding sched_reachable_def demo_sched_def by blast

text \<open>
  (C12) \<open>schedule\<close> is round robin: the batch holds the first \<open>m\<close> runnable entries of the
  vector rotated to the scan position, numbered by their slots and in that order; exactly
  these entries become in flight and nothing else about the entries changes; the next scan
  starts behind the last one taken, and the generation grows by one for a batch that is
  not empty.
\<close>

theorem sched_round_robin:
  assumes "sched_reachable s" and "schedule a1 a2 m s = (Inr b, s')"
  shows "let chosen = take (unat m) (filter is_runnable
                        (rotate (sch_next_scan_index s) (sch_entries s)))
         in ib_items b = map (\<lambda>(k, e). batch_item_for k e) (enumerate 0 chosen) \<and>
            sch_entries s' = map (\<lambda>e. if e \<in> set chosen then marked e else e) (sch_entries s) \<and>
            ib_generation b = sch_generation s' \<and>
            unat (sch_generation s') = unat (sch_generation s) + (if chosen = [] then 0 else 1) \<and>
            (chosen \<noteq> [] \<longrightarrow> (\<exists>j < length (sch_entries s). sch_entries s ! j = last chosen \<and>
               sch_next_scan_index s' = (j + 1) mod length (sch_entries s)))"
proof -
  note inv = sched_reachable_inv [OF assms(1)]
  let ?es = "sch_entries s" and ?sel = "sched_selected s (unat m)"
  define chosen where "chosen = take (unat m) (filter is_runnable (rotate (sch_next_scan_index s) ?es))"
  have chosen: "map ((!) ?es) ?sel = chosen"
    unfolding chosen_def sched_selected_def
    using map_nth_scan_order [of ?es "sch_next_scan_index s mod length ?es"]
    by (simp add: take_map [symmetric] filter_map [symmetric, unfolded o_def] rotate_conv_mod [symmetric])
  have items: "batch_items ?es ?sel 0 = map (\<lambda>(k, e). batch_item_for k e) (enumerate 0 chosen)"
    by (simp add: chosen [symmetric] batch_items_eq enumerate_map_upt zip_map2 enumerate_eq_zip split_def o_def)
  show ?thesis
  proof (cases rule: schedule_cases [of a1 a2 m s])
    case (error e)
    with assms(2) show ?thesis by simp
  next
    case idle
    from idle(2) chosen have "chosen = []" by simp
    then show ?thesis using assms(2) idle(1) unfolding chosen_def [symmetric] Let_def by auto
  next
    case batch
    have last: "?es ! last ?sel = last chosen" "last ?sel < length ?es"
      using batch(2) chosen sched_selected_facts(2) [of s "unat m"]
      by (auto simp: last_map dest: last_in_set)
    have "entry_id e \<in> set (map (\<lambda>i. entry_id (?es ! i)) ?sel) \<longleftrightarrow> e \<in> set chosen"
      if "e \<in> set ?es" for e
    proof -
      have "set chosen \<subseteq> set ?es" by (auto simp: chosen_def dest!: in_set_takeD)
      then have "entry_id e \<in> entry_id ` set chosen \<longleftrightarrow> e \<in> set chosen"
        using inv that distinct_key_unique [of entry_id ?es e] unfolding sched_inv_def by blast
      then show ?thesis by (simp add: chosen [symmetric] image_image)
    qed
    then have "sch_entries s' = map (\<lambda>e. if e \<in> set chosen then marked e else e) ?es"
      using assms(2) schedule_keeps [OF inv batch(2)] by (simp add: batch(1)) auto
    then show ?thesis
      using assms(2) batch items last chosen unat_plus_one [of "sch_generation s"]
      by (auto simp: chosen_def [symmetric])
  qed
qed

theorem sched_round_robin_witness:
  "\<exists>b s'. schedule Alloc_ok Alloc_ok 2 demo_sched = (Inr b, s') \<and>
     map bi_id (ib_items b) = [3, 1] \<and> map bi_work (ib_items b) = [Prefill, Decode] \<and>
     map bi_context_tokens (ib_items b) = [5, 6]"
proof -
  obtain r s' where r: "schedule Alloc_ok Alloc_ok 2 demo_sched = (r, s')" by fastforce
  have "has_value (fst (schedule Alloc_ok Alloc_ok 2 demo_sched))" by code_simp
  then obtain b where b: "r = Inr b" using r by (cases r) auto
  have e: "map (\<lambda>(k, e). batch_item_for k e) (enumerate 0 (take (unat (2 :: u64)) (filter is_runnable
      (rotate (sch_next_scan_index demo_sched) (sch_entries demo_sched))))) =
      [\<lparr>bi_id = 3, bi_work = Prefill, bi_context_tokens = 5, bi_slot = 0\<rparr>,
       \<lparr>bi_id = 1, bi_work = Decode, bi_context_tokens = 6, bi_slot = 1\<rparr>]" by code_simp
  from sched_round_robin [OF demo_sched_reachable r [unfolded b]] r b show ?thesis
    unfolding Let_def e by simp
qed

section \<open>No starvation\<close>

text \<open>How many entries the scan visits before it reaches index \<open>j\<close>.\<close>

definition scan_distance :: "scheduler \<Rightarrow> nat \<Rightarrow> nat" where
  "scan_distance s j = (j + length (sch_entries s) - sch_next_scan_index s) mod length (sch_entries s)"

lemma last_take_filter:
  "d < length ys \<Longrightarrow> P (ys ! d) \<Longrightarrow> 0 < k \<Longrightarrow> ys ! d \<notin> set (take k (filter P ys)) \<Longrightarrow>
     \<exists>p < d. last (take k (filter P ys)) = ys ! p \<and> take k (filter P ys) \<noteq> []"
proof (induction ys arbitrary: k d)
  case Nil
  then show ?case by simp
next
  case (Cons y ys)
  show ?case
  proof (cases d)
    case 0
    with Cons.prems show ?thesis by (auto simp: take_Cons')
  next
    case (Suc d')
    show ?thesis
    proof (cases "P y \<and> k = 1")
      case True
      with Suc show ?thesis by (intro exI [of _ 0]) simp
    next
      case False
      define k' where "k' = (if P y then k - 1 else k)"
      have t: "take k (filter P (y # ys)) = (if P y then [y] else []) @ take k' (filter P ys)"
        using Cons.prems(3) by (auto simp: k'_def take_Cons')
      have "0 < k'" using False Cons.prems(3) by (auto simp: k'_def)
      from Cons.IH [OF _ _ this, of d'] Cons.prems Suc t obtain p where
        "p < d'" "last (take k' (filter P ys)) = ys ! p" "take k' (filter P ys) \<noteq> []" by auto
      with Suc t show ?thesis by (intro exI [of _ "Suc p"]) simp
    qed
  qed
qed

lemma wrap_distance:
  assumes "a < (n :: nat)" "b < n"
  shows "(a + n - b) mod n = (if b \<le> a then a - b else a + n - b)"
proof (cases "b \<le> a")
  case True
  then have "(a + n - b) mod n = ((a - b) + n) mod n" by simp
  also have "\<dots> = a - b" using assms by (simp only: mod_add_self2) simp
  finally show ?thesis using True by simp
qed (use assms in auto)

lemma wrap_index: "a < (n :: nat) \<Longrightarrow> b \<le> n \<Longrightarrow> (a + b) mod n = (if a + b < n then a + b else a + b - n)"
  by (simp add: le_mod_geq)

lemma scan_order_nth_distance:
  "start < n \<Longrightarrow> j < n \<Longrightarrow> scan_order start n ! ((j + n - start) mod n) = j"
  by (cases "start \<le> j") (simp_all add: scan_order_def wrap_distance)

lemma distance_decreases:
  assumes "start < n" "j < n" "p < (j + n - start) mod n"
  shows "(j + n - (scan_order start n ! p + 1) mod n) mod n < (j + n - start) mod n"
proof -
  have p: "p < n" using assms(2,3) mod_less_divisor [of n "j + n - start"] by linarith
  then have "scan_order start n ! p = (start + p) mod n" by (simp add: scan_order_def)
  then have "(scan_order start n ! p + 1) mod n = (start + (p + 1)) mod n"
    by (simp add: mod_Suc_eq)
  also have "\<dots> = (if start + (p + 1) < n then start + (p + 1) else start + (p + 1) - n)"
    using assms(1) p by (intro wrap_index) simp_all
  finally have next_index: "(scan_order start n ! p + 1) mod n =
    (if start + (p + 1) < n then start + (p + 1) else start + (p + 1) - n)" .
  then have "(scan_order start n ! p + 1) mod n < n"
    using assms(1) p by (auto split: if_splits)
  then show ?thesis
    using assms p unfolding wrap_distance [OF assms(2,1)] next_index
    by (subst wrap_distance) (auto split: if_splits)
qed

text \<open>Turns are the calls of \<open>schedule\<close> that returned a batch.\<close>

fun is_turn :: "sched_op \<Rightarrow> scheduler \<Rightarrow> bool" where
  "is_turn (Schedule a1 a2 m) s = has_value (fst (schedule a1 a2 m s))"
| "is_turn _ s = False"

fun turns :: "sched_op list \<Rightarrow> scheduler \<Rightarrow> nat" where
  "turns [] s = 0"
| "turns (x # xs) s = (if is_turn x s then 1 else 0) + turns xs (snd (sched_step x s))"

definition runnable_id :: "scheduler \<Rightarrow> sequence_id \<Rightarrow> bool" where
  "runnable_id s i = (case find_entry s i of None \<Rightarrow> False | Some e \<Rightarrow> is_runnable e)"

definition runnable_at :: "scheduler \<Rightarrow> sequence_id \<Rightarrow> nat \<Rightarrow> bool" where
  "runnable_at s i j \<longleftrightarrow>
     j < length (sch_entries s) \<and> entry_id (sch_entries s ! j) = i \<and> is_runnable (sch_entries s ! j)"

lemma runnable_id_at: "sched_inv s \<Longrightarrow> runnable_id s i \<longleftrightarrow> (\<exists>j. runnable_at s i j)"
proof -
  assume inv: "sched_inv s"
  have "runnable_id s i \<longleftrightarrow> (\<exists>e. find_entry s i = Some e \<and> is_runnable e)"
    by (simp add: runnable_id_def split: option.splits)
  also have "\<dots> \<longleftrightarrow> (\<exists>e \<in> set (sch_entries s). entry_id e = i \<and> is_runnable e)"
    using find_entry_iff [OF inv] by blast
  also have "\<dots> \<longleftrightarrow> (\<exists>j. runnable_at s i j)"
    unfolding runnable_at_def by (metis in_set_conv_nth)
  finally show ?thesis .
qed

lemma turn_gets_closer:
  assumes inv: "sched_inv s" and at: "runnable_at s i j" "runnable_at s' i j"
    and turn: "schedule a1 a2 m s = (Inr b, s')"
  shows "scan_distance s' j < scan_distance s j \<and> length (sch_entries s') = length (sch_entries s)"
proof -
  let ?n = "length (sch_entries s)" and ?sel = "sched_selected s (unat m)"
  have n: "j < ?n" using at(1) by (simp add: runnable_at_def)
  then have start: "sch_next_scan_index s < ?n" using inv by (auto simp: sched_inv_def)
  let ?d = "(j + ?n - sch_next_scan_index s) mod ?n"
  let ?order = "scan_order (sch_next_scan_index s) ?n"
  have sel: "?sel = take (unat m) (filter (\<lambda>i. is_runnable (sch_entries s ! i)) ?order)"
    using start by (simp add: sched_selected_def)
  have d: "?d < length ?order" "?order ! ?d = j"
    using scan_order_nth_distance [OF start n] wrap_distance [OF n start] start n by auto
  have skip: "j \<notin> set ?sel \<Longrightarrow> m \<noteq> 0 \<Longrightarrow> \<exists>p < ?d. last ?sel = ?order ! p \<and> ?sel \<noteq> []"
    using last_take_filter [OF d(1), of "\<lambda>i. is_runnable (sch_entries s ! i)" "unat m"] d(2) at(1)
    unfolding sel by (simp add: runnable_at_def unat_gt_0)
  show ?thesis
  proof (cases rule: schedule_cases [of a1 a2 m s])
    case batch
    have "j \<notin> set ?sel"
    proof
      assume "j \<in> set ?sel"
      then have "en_in_flight (sch_entries s' ! j)"
        using turn n mark_in_flight_nth [OF sched_selected_facts(1,2), of s "unat m"
            "sch_entries s" 0] by (auto simp: batch(1))
      with at(2) show False by (simp add: runnable_at_def is_runnable_def)
    qed
    from skip [OF this batch(3)] obtain p where "p < ?d" "last ?sel = ?order ! p" by blast
    then show ?thesis
      using distance_decreases [OF start n] turn
        mark_in_flight_nth [OF sched_selected_facts(1,2), of s "unat m" "sch_entries s" 0]
      by (auto simp: scan_distance_def batch(1))
  qed (use turn skip in auto)
qed

lemma set_entry_distance [simp]: "scan_distance (set_entry i f s) j = scan_distance s j"
  by (simp add: scan_distance_def)

lemma other_step_distance:
  assumes inv: "sched_inv s" and j: "j < length (sch_entries s)" and "\<not> is_turn x s"
  shows "scan_distance (snd (sched_step x s)) j + length (sch_entries s)
    \<le> scan_distance s j + length (sch_entries (snd (sched_step x s)))"
proof (cases x)
  case (Enqueue a r)
  have next_lt: "sch_next_scan_index s < length (sch_entries s)"
    using inv j by (auto simp: sched_inv_def)
  then show ?thesis
    using wrap_distance [OF j next_lt] wrap_distance [of j "Suc (length (sch_entries s))"]
      j Enqueue by (auto simp: enqueue_def scan_distance_def)
next
  case (Schedule a1 a2 m)
  with assms(3) show ?thesis
    by (cases rule: schedule_cases [of a1 a2 m s]) auto
qed (auto simp: complete_def pause_def resume_def cancel_def split: option.splits prod.splits)

lemma sched_step_ids:
  assumes "sched_inv s"
  shows "\<exists>new. map entry_id (sch_entries (snd (sched_step x s))) = map entry_id (sch_entries s) @ new"
proof (cases x)
  case (Schedule a1 a2 m)
  then show ?thesis
    by (cases rule: schedule_cases [of a1 a2 m s])
      (intro exI [of _ "[]"], simp add: schedule_keeps [OF assms])+
next
  case (Complete i n t)
  show ?thesis
  proof (cases "find_entry s i")
    case (Some e)
    have "en_in_flight e \<Longrightarrow> n \<noteq> 0 \<or> t \<Longrightarrow> map entry_id
        (sch_entries (set_entry i (\<lambda>_. snd (complete_entry n t e)) s)) = map entry_id (sch_entries s)"
      using sched_inv_entry [OF assms Some] complete_entry_ok [of e n t]
      by (intro entry_ids_set_entry [OF Some]) auto
    then show ?thesis using Complete Some by (auto simp: complete_def split: prod.splits)
  qed (simp add: Complete complete_def)
qed (use sched_inv_entry [OF assms] in \<open>auto simp: enqueue_def pause_def resume_def cancel_def
    entry_ids_set_entry split: option.splits\<close>)

lemma runnable_at_step:
  assumes inv: "sched_inv s" and at: "runnable_at s i j" and "runnable_id (snd (sched_step x s)) i"
  shows "runnable_at (snd (sched_step x s)) i j"
proof -
  note inv' = sched_step_inv [OF inv, of x]
  from assms(3) obtain k where k: "runnable_at (snd (sched_step x s)) i k"
    using runnable_id_at [OF inv'] by blast
  obtain new where ids: "map entry_id (sch_entries (snd (sched_step x s))) =
      map entry_id (sch_entries s) @ new"
    using sched_step_ids [OF inv] by blast
  have j: "j < length (sch_entries s)" "map entry_id (sch_entries s) ! j = i"
    using at by (simp_all add: runnable_at_def)
  then have "j < length (sch_entries (snd (sched_step x s)))"
    "map entry_id (sch_entries (snd (sched_step x s))) ! j = i"
    using ids by (metis length_append length_map trans_less_add1)
      (metis ids j length_map nth_append)
  then have "k = j"
    using k inv' nth_eq_iff_index_eq [of "map entry_id (sch_entries (snd (sched_step x s)))" k j]
    by (simp add: runnable_at_def sched_inv_def)
  with k show ?thesis by simp
qed

lemma waiting_bound:
  "sched_inv s \<Longrightarrow> runnable_at s i j \<Longrightarrow>
     (\<forall>k \<le> length xs. runnable_id (run_ops sched_step (take k xs) s) i) \<Longrightarrow>
     turns xs s + scan_distance (run_ops sched_step xs s) j + length (sch_entries s)
       \<le> scan_distance s j + length (sch_entries (run_ops sched_step xs s))"
proof (induction xs arbitrary: s)
  case Nil
  then show ?case by simp
next
  case (Cons x xs)
  let ?s = "snd (sched_step x s)"
  have later: "runnable_id (run_ops sched_step (take k xs) ?s) i" if "k \<le> length xs" for k
    using Cons.prems(3) [rule_format, of "Suc k"] that by simp
  have at: "runnable_at ?s i j"
    using runnable_at_step [OF Cons.prems(1,2)] later [of 0] by simp
  have IH: "turns xs ?s + scan_distance (run_ops sched_step xs ?s) j + length (sch_entries ?s)
       \<le> scan_distance ?s j + length (sch_entries (run_ops sched_step xs ?s))"
    using later by (intro Cons.IH [OF sched_step_inv [OF Cons.prems(1)] at]) simp
  show ?case
  proof (cases "is_turn x s")
    case True
    then obtain a1 a2 m where x: "x = Schedule a1 a2 m" by (cases x) auto
    with True obtain b where b: "schedule a1 a2 m s = (Inr b, ?s)"
      by (cases "schedule a1 a2 m s"; cases "fst (schedule a1 a2 m s)") auto
    from turn_gets_closer [OF Cons.prems(1,2) at b] IH True show ?thesis by simp
  next
    case False
    then show ?thesis
      using IH other_step_distance [OF Cons.prems(1) _ False, of j] Cons.prems(2)
      by (simp add: runnable_at_def)
  qed
qed

text \<open>
  (C13) No sequence starves: while a sequence stays runnable without being scheduled, fewer
  batches can be handed out than there are sequences at the end, whatever the batch sizes
  and however enqueueing, completion, pausing and cancelling are interleaved.
\<close>

theorem sched_no_starvation:
  assumes "sched_reachable s"
    and "\<forall>k \<le> length xs. runnable_id (run_ops sched_step (take k xs) s) i"
  shows "turns xs s < length (sch_entries (run_ops sched_step xs s))"
proof -
  note inv = sched_reachable_inv [OF assms(1)]
  from assms(2) have "runnable_id s i" by (metis le0 run_ops.simps(1) take_0)
  then obtain j where at: "runnable_at s i j" using runnable_id_at [OF inv] by blast
  then have "scan_distance s j < length (sch_entries s)"
    by (auto simp: runnable_at_def scan_distance_def intro!: mod_less_divisor)
  then show ?thesis using waiting_bound [OF inv at assms(2)] by simp
qed

theorem sched_no_starvation_witness:
  "turns [Schedule Alloc_ok Alloc_ok 1, Complete 3 1 False] demo_sched = 1 \<and>
   length (sch_entries demo_sched) = 3 \<and>
   1 < length (sch_entries (run_ops sched_step
         [Schedule Alloc_ok Alloc_ok 1, Complete 3 1 False] demo_sched))"
proof -
  let ?xs = "[Schedule Alloc_ok Alloc_ok 1, Complete 3 1 False]"
  have "list_all (\<lambda>k. runnable_id (run_ops sched_step (take k ?xs) demo_sched) 1) [0, 1, 2]"
    by code_simp
  then have "\<forall>k \<le> length ?xs. runnable_id (run_ops sched_step (take k ?xs) demo_sched) 1"
    by (auto simp: le_Suc_eq numeral_2_eq_2)
  note sched_no_starvation [OF demo_sched_reachable this]
  moreover have "turns ?xs demo_sched = 1" "length (sch_entries demo_sched) = 3" by code_simp+
  ultimately show ?thesis by simp
qed

section \<open>The life of a sequence\<close>

text \<open>The phases and the moves between them.\<close>

inductive phase_move :: "sequence_phase \<Rightarrow> sequence_phase \<Rightarrow> bool" where
  emit: "p = Queued \<or> p = Decoding \<Longrightarrow> phase_move p Decoding"
| finish: "p = Queued \<or> p = Decoding \<Longrightarrow> phase_move p Finished"
| suspend: "p = Queued \<or> p = Decoding \<Longrightarrow> phase_move p Paused"
| wake: "q = Queued \<or> q = Decoding \<Longrightarrow> phase_move Paused q"
| abandon: "\<not> is_terminal p \<Longrightarrow> phase_move p Cancelled"

inductive_cases phase_move_finished [elim!]: "phase_move Finished q"
inductive_cases phase_move_cancelled [elim!]: "phase_move Cancelled q"
inductive_simps phase_move_iff: "phase_move p q"

text \<open>One operation on one entry: what may happen to it.\<close>

definition entry_moves :: "sched_op \<Rightarrow> entry \<Rightarrow> entry \<Rightarrow> bool" where
  "entry_moves x e e' \<longleftrightarrow>
     en_request e' = en_request e \<and>
     (en_phase e' = en_phase e \<or> phase_move (en_phase e) (en_phase e')) \<and>
     unat (en_generated_tokens e) \<le> unat (en_generated_tokens e') \<and>
     (en_generated_tokens e' \<noteq> en_generated_tokens e \<longrightarrow>
        en_in_flight e \<and> \<not> en_cancel_pending e) \<and>
     (en_in_flight e \<longrightarrow> (\<exists>n t. x = Complete (entry_id e) n t) \<or> en_in_flight e') \<and>
     (en_cancel_pending e \<longrightarrow> en_cancel_pending e' \<or> en_phase e' = Cancelled)"

lemma entry_moves_refl [simp]: "entry_moves x e e"
  by (simp add: entry_moves_def)

lemma complete_entry_moves:
  assumes "entry_ok e" "en_in_flight e"
  shows "entry_moves (Complete (entry_id e) n t) e (snd (complete_entry n t e))"
proof -
  have g: "\<not> n > rq_max_output_tokens (en_request e) - en_generated_tokens e \<Longrightarrow>
      unat (en_generated_tokens e) \<le> unat (en_generated_tokens e + n)"
    using unat_add_within [of "rq_max_output_tokens (en_request e)" "en_generated_tokens e" n]
      assms(1) by (simp add: entry_ok_def)
  have "en_phase e = Queued \<or> en_phase e = Decoding"
    using assms by (auto simp: entry_ok_def active_ok_def)
  then show ?thesis
    using assms g
    by (auto simp: complete_entry_def Let_def entry_moves_def phase_move_iff is_terminal_def)
qed

lemma set_entry_moves:
  assumes "sched_inv s" "find_entry s i = Some e" "find_entry s j = Some d"
    and "entry_id (f e) = i" "entry_moves x e (f e)"
  shows "\<exists>d'. find_entry (set_entry i f s) j = Some d' \<and> entry_moves x d d'"
  using find_set_entry [of s i e f j] assms by (cases "i = j") auto

lemma entry_moves_flags:
  assumes "entry_ok e" "\<not> is_terminal (en_phase e)"
  shows "en_phase e \<noteq> Paused \<Longrightarrow>
      entry_moves x e (e\<lparr>en_resume_phase := en_phase e, en_phase := Paused\<rparr>)"
    and "en_phase e = Paused \<Longrightarrow> entry_moves x e (e\<lparr>en_phase := en_resume_phase e\<rparr>)"
    and "entry_moves x e (e\<lparr>en_phase := Cancelled\<rparr>)"
    and "entry_moves x e (e\<lparr>en_cancel_pending := True\<rparr>)"
  using assms
  by (cases "en_phase e"; auto simp: entry_moves_def phase_move_iff is_terminal_def entry_ok_def active_ok_def)+

lemma schedule_moves:
  assumes inv: "sched_inv s" and e: "find_entry s i = Some e"
  shows "\<exists>e'. find_entry (snd (schedule a1 a2 m s)) i = Some e' \<and>
    entry_moves (Schedule a1 a2 m) e e'"
proof (cases rule: schedule_cases [of a1 a2 m s])
  case batch
  define f where "f = (\<lambda>e. if entry_id e \<in> set (map (\<lambda>i. entry_id (sch_entries s ! i))
    (sched_selected s (unat m))) then marked e else e)"
  have "f e \<in> set (sch_entries (snd (schedule a1 a2 m s)))"
    using find_entry_iff [OF inv, of i e] e unfolding batch(1) schedule_keeps [OF inv batch(2)]
      f_def [symmetric] by simp
  moreover have "entry_id (f e) = i" using sched_inv_entry [OF inv e] by (simp add: f_def)
  ultimately have "find_entry (snd (schedule a1 a2 m s)) i = Some (f e)"
    using find_entry_iff [OF schedule_inv [OF inv]] by blast
  moreover have "entry_moves (Schedule a1 a2 m) e (f e)"
    by (simp add: f_def entry_moves_def)
  ultimately show ?thesis by blast
qed (use e in auto)

lemma sched_step_moves:
  assumes inv: "sched_inv s" and e: "find_entry s i = Some e"
  shows "\<exists>e'. find_entry (snd (sched_step x s)) i = Some e' \<and> entry_moves x e e'"
proof (cases x)
  case (Enqueue a r)
  then show ?thesis using e by (auto simp: enqueue_def find_entry_def find_append_None_Some)
next
  case (Schedule a1 a2 m)
  then show ?thesis using schedule_moves [OF inv e, of a1 a2 m] by (auto split: prod.splits sum.splits)
next
  case (Complete j n t)
  show ?thesis
  proof (cases "find_entry s j")
    case (Some d)
    note d = sched_inv_entry [OF inv Some]
    have "\<exists>e'. find_entry (set_entry j (\<lambda>_. snd (complete_entry n t d)) s) i = Some e' \<and>
        entry_moves x e e'" if "en_in_flight d" "n \<noteq> 0 \<or> t"
      using d complete_entry_ok [of d n t] complete_entry_moves [of d n t] that Complete
      by (intro set_entry_moves [OF inv Some e]) auto
    then show ?thesis using Complete Some e by (auto simp: complete_def split: prod.splits)
  qed (use e Complete in \<open>simp add: complete_def\<close>)
next
  case (Pause j)
  then show ?thesis using e sched_inv_entry [OF inv, of j]
    by (auto simp: pause_def split: option.splits intro!: set_entry_moves [OF inv _ e] entry_moves_flags)
next
  case (Resume j)
  then show ?thesis using e sched_inv_entry [OF inv, of j]
    by (auto simp: resume_def is_terminal_def split: option.splits
        intro!: set_entry_moves [OF inv _ e] entry_moves_flags)
next
  case (Cancel j)
  then show ?thesis using e sched_inv_entry [OF inv, of j]
    by (auto simp: cancel_def is_terminal_def split: option.splits
        intro!: set_entry_moves [OF inv _ e] entry_moves_flags)
qed

text \<open>
  (C15) Every operation moves every sequence along the phase diagram or leaves its phase:
  queued and decoding sequences emit, finish or are suspended, a suspended one goes back to
  an active phase, anything not over can be cancelled. Emitted tokens never decrease and
  never pass the limit of the request.
\<close>

theorem sched_phases:
  assumes "sched_reachable s" and "state_of i s = Inr t"
  shows "\<exists>u. state_of i (snd (sched_step x s)) = Inr u \<and>
    (ss_phase u = ss_phase t \<or> phase_move (ss_phase t) (ss_phase u)) \<and>
    unat (ss_generated_tokens t) \<le> unat (ss_generated_tokens u) \<and>
    unat (ss_generated_tokens u) \<le> unat (ss_max_output_tokens t) \<and>
    ss_max_output_tokens u = ss_max_output_tokens t \<and> ss_prompt_tokens u = ss_prompt_tokens t"
proof -
  note inv = sched_reachable_inv [OF assms(1)]
  obtain e where e: "find_entry s i = Some e" and t: "ss_phase t = en_phase e"
    "ss_generated_tokens t = en_generated_tokens e" "ss_max_output_tokens t = rq_max_output_tokens (en_request e)"
    "ss_prompt_tokens t = rq_prompt_tokens (en_request e)"
    using assms(2) by (auto simp: state_of_def split: option.splits)
  from sched_step_moves [OF inv e, of x] obtain e' where
    e': "find_entry (snd (sched_step x s)) i = Some e'" and m: "entry_moves x e e'" by blast
  have "entry_ok e'" using sched_inv_entry [OF sched_step_inv [OF inv] e'] by blast
  then have "unat (en_generated_tokens e') \<le> unat (rq_max_output_tokens (en_request e'))"
    by (simp add: entry_ok_def)
  with m e' t show ?thesis by (simp add: state_of_def entry_moves_def)
qed

theorem sched_phases_witness:
  "\<exists>t u. state_of 1 demo_sched = Inr t \<and> ss_phase t = Decoding \<and>
     state_of 1 (snd (sched_step (Pause 1) demo_sched)) = Inr u \<and>
     (ss_phase u = Decoding \<or> phase_move Decoding (ss_phase u))"
proof -
  have t: "state_of 1 demo_sched = Inr \<lparr>ss_id = 1, ss_phase = Decoding, ss_prompt_tokens = 5,
      ss_generated_tokens = 1, ss_max_output_tokens = 4, ss_in_flight = False,
      ss_cancel_pending = False\<rparr>" by code_simp
  from sched_phases [OF demo_sched_reachable t, of "Pause 1"] t show ?thesis by auto
qed

text \<open>
  A finished or cancelled sequence is over: no run of operations changes its state
  again.
\<close>

theorem sched_terminal_final:
  assumes "sched_reachable s" and "state_of i s = Inr t" and "is_terminal (ss_phase t)"
  shows "state_of i (run_ops sched_step xs s) = Inr t"
proof -
  note inv = sched_reachable_inv [OF assms(1)]
  have step: "state_of i (snd (sched_step x c)) = Inr t"
    if "sched_inv c" "state_of i c = Inr t" for x c
  proof -
    from that(2) obtain e where e: "find_entry c i = Some e" "is_terminal (en_phase e)"
      using assms(3) by (auto simp: state_of_def split: option.splits)
    from sched_step_moves [OF that(1) e(1), of x] obtain e' where
      e': "find_entry (snd (sched_step x c)) i = Some e'" and m: "entry_moves x e e'" by blast
    have idle: "\<not> en_in_flight e" "\<not> en_cancel_pending e"
      using sched_inv_entry [OF that(1) e(1)] e(2)
      by (auto simp: entry_ok_def active_ok_def is_terminal_def)
    have p: "en_phase e' = en_phase e"
      using m e(2) by (auto simp: entry_moves_def is_terminal_def)
    have "\<not> en_in_flight e' \<and> \<not> en_cancel_pending e'"
      using sched_inv_entry [OF sched_step_inv [OF that(1)] e'] p e(2)
      by (auto simp: entry_ok_def active_ok_def is_terminal_def)
    then have "state_of i (snd (sched_step x c)) = state_of i c"
      using m e(1) e' p idle by (auto simp: state_of_def entry_moves_def)
    with that(2) show ?thesis by simp
  qed
  have "sched_inv c \<Longrightarrow> state_of i c = Inr t \<Longrightarrow> state_of i (run_ops sched_step xs c) = Inr t" for c
    by (induction xs arbitrary: c) (auto simp: step sched_step_inv)
  with inv assms(2) show ?thesis by blast
qed

theorem sched_terminal_final_witness:
  "state_of 1 (run_ops sched_step [Resume 1, Schedule Alloc_ok Alloc_ok 9]
     (snd (cancel 1 demo_sched))) = state_of 1 (snd (cancel 1 demo_sched))"
proof -
  let ?t = "\<lparr>ss_id = 1, ss_phase = Cancelled, ss_prompt_tokens = 5, ss_generated_tokens = 1,
      ss_max_output_tokens = 4, ss_in_flight = False, ss_cancel_pending = False\<rparr>"
  have r: "sched_reachable (snd (cancel 1 demo_sched))"
    using sched_reachable_run [OF demo_sched_reachable, of "[Cancel 1]"] by simp
  have t: "state_of 1 (snd (cancel 1 demo_sched)) = Inr ?t" by code_simp
  have "is_terminal (ss_phase ?t)" by (simp add: is_terminal_def)
  from sched_terminal_final [OF r t this] t show ?thesis by (simp only:)
qed

definition in_flight_id :: "scheduler \<Rightarrow> sequence_id \<Rightarrow> bool" where
  "in_flight_id s i \<longleftrightarrow> (\<exists>e. find_entry s i = Some e \<and> en_in_flight e)"

lemma batch_item_ids:
  "map bi_id (batch_items es js k) = map (\<lambda>j. entry_id (es ! j)) js"
  by (induction js arbitrary: k) (auto simp: batch_item_for_def)

lemma batched_in_flight:
  assumes inv: "sched_inv s" and "schedule a1 a2 m s = (Inr b, s1)" "i \<in> set (map bi_id (ib_items b))"
  shows "in_flight_id s1 i"
proof (cases rule: schedule_cases [of a1 a2 m s])
  case batch
  then obtain j where j: "j \<in> set (sched_selected s (unat m))" "entry_id (sch_entries s ! j) = i"
    using assms(2,3) batch_item_ids [of "sch_entries s" "sched_selected s (unat m)" 0] by auto
  then have "sch_entries s1 ! j = marked (sch_entries s ! j) \<and> j < length (sch_entries s1)"
    using sched_selected_facts(2) [of s "unat m"] assms(2)
      mark_in_flight_nth [OF sched_selected_facts(1,2), of s "unat m" "sch_entries s" 0]
    by (auto simp: batch(1))
  moreover have "sched_inv s1" using schedule_inv [OF inv, of a1 a2 m] assms(2) by simp
  ultimately show ?thesis
    using j(2) find_entry_iff unfolding in_flight_id_def by (metis marked_simps(1,5) nth_mem)
qed (use assms(2,3) in auto)

lemma in_flight_step:
  assumes inv: "sched_inv s" and "in_flight_id s i" "\<forall>n t. x \<noteq> Complete i n t"
  shows "in_flight_id (snd (sched_step x s)) i"
proof -
  from assms(2) obtain e where e: "find_entry s i = Some e" "en_in_flight e"
    by (auto simp: in_flight_id_def)
  from sched_step_moves [OF inv e(1), of x] obtain e' where
    "find_entry (snd (sched_step x s)) i = Some e'" "entry_moves x e e'" by blast
  then show ?thesis
    using e(2) assms(3) sched_inv_entry [OF inv e(1)] unfolding in_flight_id_def entry_moves_def
    by blast
qed

lemma in_flight_run:
  "sched_inv s \<Longrightarrow> in_flight_id s i \<Longrightarrow> \<forall>n t. Complete i n t \<notin> set xs \<Longrightarrow>
     in_flight_id (run_ops sched_step xs s) i"
proof (induction xs arbitrary: s)
  case (Cons x xs)
  then have "in_flight_id (snd (sched_step x s)) i" by (intro in_flight_step) auto
  then show ?case using Cons by (simp add: sched_step_inv)
qed simp

lemma in_flight_not_batched:
  assumes inv: "sched_inv s" and "in_flight_id s i" "schedule a1 a2 m s = (Inr b, s1)"
  shows "i \<notin> set (map bi_id (ib_items b))"
proof (cases rule: schedule_cases [of a1 a2 m s])
  case batch
  from assms(2) obtain e where e: "find_entry s i = Some e" "en_in_flight e"
    by (auto simp: in_flight_id_def)
  then have "\<not> is_runnable e" by (simp add: is_runnable_def)
  then have "i \<notin> set (map (\<lambda>j. entry_id (sch_entries s ! j)) (sched_selected s (unat m)))"
    using selected_runnable [OF inv, of e "unat m"] find_entry_iff [OF inv, of i e] e(1) by blast
  moreover have "ib_items b = batch_items (sch_entries s) (sched_selected s (unat m)) 0"
    using assms(3) batch(1) by auto
  ultimately show ?thesis by (simp only: batch_item_ids not_False_eq_True)
qed (use assms(3) in auto)

text \<open>
  (C14) A sequence is in at most one batch at a time: after a batch that holds it, no later
  batch does until some call of \<open>complete\<close> for it.
\<close>

theorem sched_in_flight_exclusive:
  assumes "sched_reachable s" and "schedule a1 a2 m s = (Inr b, s1)"
    and "i \<in> set (map bi_id (ib_items b))" and "\<forall>n t. Complete i n t \<notin> set xs"
    and "schedule a3 a4 m' (run_ops sched_step xs s1) = (Inr b', s2)"
  shows "i \<notin> set (map bi_id (ib_items b'))"
proof -
  note inv = sched_reachable_inv [OF assms(1)]
  have "sched_inv s1" using schedule_inv [OF inv, of a1 a2 m] assms(2) by simp
  then show ?thesis
    using in_flight_not_batched [OF _ _ assms(5)] in_flight_run [OF _ _ assms(4), of s1]
      batched_in_flight [OF inv assms(2,3)] sched.run_inv by blast
qed

theorem sched_in_flight_exclusive_witness:
  "\<exists>b s1 b' s2. schedule Alloc_ok Alloc_ok 1 demo_sched = (Inr b, s1) \<and>
     map bi_id (ib_items b) = [3] \<and>
     schedule Alloc_ok Alloc_ok 5 (run_ops sched_step [Pause 3, Cancel 3] s1) = (Inr b', s2) \<and>
     3 \<notin> set (map bi_id (ib_items b'))"
proof -
  let ?r = "schedule Alloc_ok Alloc_ok 1 demo_sched"
  let ?r' = "schedule Alloc_ok Alloc_ok 5 (run_ops sched_step [Pause 3, Cancel 3] (snd ?r))"
  have "has_value (fst ?r)" "has_value (fst ?r')" "map bi_id (ib_items (projr (fst ?r))) = [3]"
    by code_simp+
  then obtain b b' where b: "?r = (Inr b, snd ?r)" "?r' = (Inr b', snd ?r')" "map bi_id (ib_items b) = [3]"
    by (cases "fst ?r"; cases "fst ?r'") (auto simp: prod_eq_iff)
  then have "3 \<notin> set (map bi_id (ib_items b'))"
    using sched_in_flight_exclusive [OF demo_sched_reachable b(1) _ _ b(2), of 3] by simp
  with b show ?thesis by (intro exI conjI)
qed

section \<open>Errors and counts\<close>

lemma complete_entry_failure:
  "fst (complete_entry n t e) \<noteq> status_success \<Longrightarrow> en_in_flight e \<Longrightarrow>
     snd (complete_entry n t e) = e"
  by (cases e) (auto simp: complete_entry_def Let_def split: if_splits)

text \<open>
  (C16) An operation that reports an error has changed nothing, whatever its allocations
  did.
\<close>

theorem sched_errors_harmless:
  assumes "sched_reachable s" and "fst (fst (sched_step x s)) \<noteq> status_success"
  shows "snd (sched_step x s) = s"
proof (cases x)
  case (Schedule a1 a2 m)
  with assms(2) show ?thesis
    by (cases rule: schedule_cases [of a1 a2 m s]) auto
next
  case (Complete i n t)
  show ?thesis
  proof (cases "find_entry s i")
    case (Some e)
    have "set_entry i (\<lambda>_. e) s = s"
      using update_first_id [of "\<lambda>e. entry_id e = i" "sch_entries s" e] Some
      by (simp add: set_entry_def find_entry_def)
    then show ?thesis
      using assms(2) Complete Some complete_entry_failure [of n t e]
      by (auto simp: complete_def split: prod.splits)
  qed (simp add: Complete complete_def)
qed (use assms(2) in \<open>auto simp: enqueue_def pause_def resume_def cancel_def split: option.splits\<close>)

theorem sched_errors_harmless_witness:
  "fst (fst (sched_step (Complete 1 9 False) demo_sched)) \<noteq> status_success \<and>
   snd (sched_step (Complete 1 9 False) demo_sched) = demo_sched"
proof -
  have "fst (fst (sched_step (Complete 1 9 False) demo_sched)) \<noteq> status_success" by code_simp
  with sched_errors_harmless [OF demo_sched_reachable this] show ?thesis by blast
qed

lemma fold_count_entry:
  "\<forall>e \<in> set es. entry_ok e \<Longrightarrow>
   let r' = fold count_entry es r in
     sn_generation r' = sn_generation r \<and> sn_sequence_count r' = sn_sequence_count r \<and>
     sn_resident_count r' + sn_finished_count r' + sn_cancelled_count r' =
       sn_resident_count r + sn_finished_count r + sn_cancelled_count r + length es \<and>
     sn_runnable_count r' + sn_in_flight_count r' + sn_paused_count r' + sn_resident_count r =
       sn_runnable_count r + sn_in_flight_count r + sn_paused_count r + sn_resident_count r' \<and>
     sn_runnable_count r' = sn_runnable_count r + length (filter is_runnable es)"
proof (induction es arbitrary: r)
  case (Cons e es)
  have "entry_ok e" using Cons.prems by simp
  then have one: "(if is_runnable e then 1 else 0) + (if en_in_flight e then 1 else 0) +
      (if en_phase e = Paused then 1 else 0) = (if is_terminal (en_phase e) then 0 else (1::nat))"
    by (cases "en_phase e") (auto simp: entry_ok_def active_ok_def is_runnable_def is_terminal_def)
  show ?case
    using Cons.IH [of "count_entry e r"] Cons.prems one
    by (cases "en_phase e")
      (auto simp: Let_def count_entry_def is_terminal_def is_runnable_def split: if_splits)
qed simp

text \<open>
  The snapshot counts exactly: every sequence is resident, finished or cancelled, and
  a resident one is runnable, in flight or paused, one of the three.
\<close>

theorem sched_snapshot_exact:
  assumes "sched_reachable s"
  shows "let r = snapshot s in
    sn_generation r = sch_generation s \<and> sn_sequence_count r = length (sch_entries s) \<and>
    sn_resident_count r + sn_finished_count r + sn_cancelled_count r = sn_sequence_count r \<and>
    sn_runnable_count r + sn_in_flight_count r + sn_paused_count r = sn_resident_count r \<and>
    sn_runnable_count r = length (filter is_runnable (sch_entries s))"
proof -
  have "\<forall>e \<in> set (sch_entries s). entry_ok e"
    using sched_reachable_inv [OF assms] by (simp add: sched_inv_def)
  from fold_count_entry [OF this, of "\<lparr>sn_generation = sch_generation s,
      sn_sequence_count = length (sch_entries s), sn_resident_count = 0, sn_runnable_count = 0,
      sn_in_flight_count = 0, sn_paused_count = 0, sn_finished_count = 0, sn_cancelled_count = 0\<rparr>"]
  show ?thesis unfolding snapshot_def [symmetric] by (simp add: Let_def)
qed

theorem sched_snapshot_exact_witness:
  "sn_runnable_count (snapshot demo_sched) + sn_in_flight_count (snapshot demo_sched) = 3 \<and>
   sn_resident_count (snapshot demo_sched) = 3"
proof -
  have "sn_paused_count (snapshot demo_sched) = 0" "sn_resident_count (snapshot demo_sched) = 3"
    by code_simp+
  with sched_snapshot_exact [OF demo_sched_reachable] show ?thesis by (simp add: Let_def)
qed

end
