(* ===== verification/Action.thy ===== *)
theory Action
  imports Core
begin

text \<open>
  \<open>grammar/action.cpp\<close>: what a trading agent may do, with the range checks of the two
  public constructors. The data constructor is private in the code, so the actions that
  exist are the valid ones below.
\<close>

datatype action_kind = Hold | Buy_yes | Sell_yes

record action =
  act_kind :: action_kind
  act_quantity :: u8
  act_price_tick :: u8

definition action_hold :: action where
  "action_hold = \<lparr>act_kind = Hold, act_quantity = 0, act_price_tick = 0\<rparr>"

definition buy_yes :: "u32 \<Rightarrow> u32 \<Rightarrow> action result" where
  "buy_yes quantity price_tick =
     (if quantity < 1 \<or> quantity > 8 \<or> price_tick < 1 \<or> price_tick > 99
      then fail Invalid_argument
      else Inr \<lparr>act_kind = Buy_yes, act_quantity = ucast quantity,
                act_price_tick = ucast price_tick\<rparr>)"

definition sell_yes :: "u32 \<Rightarrow> u32 \<Rightarrow> action result" where
  "sell_yes quantity price_tick =
     (if quantity < 1 \<or> quantity > 8 \<or> price_tick < 1 \<or> price_tick > 99
      then fail Invalid_argument
      else Inr \<lparr>act_kind = Sell_yes, act_quantity = ucast quantity,
                act_price_tick = ucast price_tick\<rparr>)"

text \<open>The actions the public interface can build.\<close>

definition action_valid :: "action \<Rightarrow> bool" where
  "action_valid a \<longleftrightarrow>
     (if act_kind a = Hold then a = action_hold
      else 1 \<le> act_quantity a \<and> act_quantity a \<le> 8 \<and>
           1 \<le> act_price_tick a \<and> act_price_tick a \<le> 99)"

lemma action_valid_built:
  "action_valid action_hold"
  "buy_yes q t = Inr a \<Longrightarrow> action_valid a"
  "sell_yes q t = Inr a \<Longrightarrow> action_valid a"
  by (auto simp: action_valid_def action_hold_def buy_yes_def sell_yes_def word_le_nat_alt
      word_less_nat_alt unat_ucast_to_u8 not_less split: if_splits)

lemma action_built:
  assumes "action_valid a"
  shows "a = action_hold \<or> (\<exists>q t. buy_yes q t = Inr a) \<or> (\<exists>q t. sell_yes q t = Inr a)"
proof (cases "act_kind a = Hold")
  case False
  have widen: "ucast (ucast (x :: u8) :: u32) = x" for x
    by (simp add: unat_ucast_to_u8 unat_u8_lt flip: unat_inject)
  let ?q = "ucast (act_quantity a) :: u32" and ?t = "ucast (act_price_tick a) :: u32"
  have "a = \<lparr>act_kind = act_kind a, act_quantity = ucast ?q, act_price_tick = ucast ?t\<rparr>"
    by (simp only: widen) simp
  moreover have "\<not> (?q < 1 \<or> ?q > 8 \<or> ?t < 1 \<or> ?t > 99)"
    using assms False by (auto simp: action_valid_def word_le_nat_alt word_less_nat_alt)
  ultimately show ?thesis
    using False by (cases "act_kind a") (metis buy_yes_def sell_yes_def)+
qed (use assms in \<open>simp add: action_valid_def\<close>)

end
