(* ===== verification/Market.thy ===== *)
theory Market
  imports Action "HOL-Library.Product_Lexorder"
begin

text \<open>
  \<open>market/batch_market.cpp\<close>: a batch auction. \<open>clear\<close> collects the orders, picks the
  price tick at which most shares change hands, fills the orders by price and agent, and
  moves cash and shares. Cash is a signed 64-bit amount: an integer here, with the bounds
  of the type in the guards that the code writes. The first argument of \<open>clear\<close> is how
  many of its allocations succeed before one throws \<open>std::bad_alloc\<close>.
\<close>

section \<open>Data\<close>

type_synonym agent_id = u32
type_synonym cash = int

definition cash_max :: int where "cash_max = 2 ^ 63 - 1"
definition cash_min :: int where "cash_min = - (2 ^ 63)"

definition cash_units_per_tick :: cash where "cash_units_per_tick = 10000"

record account =
  ac_id :: agent_id
  ac_cash :: cash
  ac_yes_shares :: u32

record agent_action =
  aa_agent :: agent_id
  aa_action :: action

record fill =
  fl_agent :: agent_id
  fl_side :: action_kind
  fl_quantity :: u8

record batch_result =
  br_traded :: bool
  br_clearing_tick :: u8
  br_matched_quantity :: u32
  br_fills :: "fill list"

record clearing_candidate =
  cc_matched_quantity :: u64
  cc_imbalance :: u64
  cc_reference_distance :: u32
  cc_tick :: u8

record order =
  od_account_index :: nat
  od_agent :: agent_id
  od_side :: action_kind
  od_quantity :: u8
  od_limit :: u8
  od_fill :: u8

record batch_market =
  bm_accounts :: "account list"
  bm_last_traded_tick :: u8

section \<open>Helpers\<close>

text \<open>The guards of \<open>checked_add_cash\<close>; \<^const>\<open>None\<close> is \<open>false\<close>.\<close>

definition checked_add_cash :: "cash \<Rightarrow> cash \<Rightarrow> cash option" where
  "checked_add_cash value delta =
     (if (delta > 0 \<and> value > cash_max - delta) \<or> (delta < 0 \<and> value < cash_min - delta)
      then None else Some (value + delta))"

definition better_clearing_candidate :: "clearing_candidate \<Rightarrow> clearing_candidate \<Rightarrow> bool" where
  "better_clearing_candidate c i \<longleftrightarrow>
     cc_matched_quantity c > cc_matched_quantity i \<or>
     (cc_matched_quantity c = cc_matched_quantity i \<and>
       (cc_imbalance c < cc_imbalance i \<or>
        (cc_imbalance c = cc_imbalance i \<and>
          (cc_reference_distance c < cc_reference_distance i \<or>
           (cc_reference_distance c = cc_reference_distance i \<and> cc_tick c < cc_tick i)))))"

section \<open>create\<close>

definition adjacent_ok :: "account list \<Rightarrow> bool" where
  "adjacent_ok ordered \<longleftrightarrow>
     (\<forall>index < length ordered. 0 \<le> ac_cash (ordered ! index) \<and>
        \<not> (index \<noteq> 0 \<and> ac_id (ordered ! (index - 1)) = ac_id (ordered ! index)))"

definition market_create :: "nat \<Rightarrow> account list \<Rightarrow> u32 \<Rightarrow> batch_market result" where
  "market_create mem accounts reference_tick =
     (if accounts = [] \<or> reference_tick < 1 \<or> reference_tick > 99 then fail Invalid_argument
      else
        (case use_alloc mem of
           None \<Rightarrow> fail Allocation_failed
         | Some _ \<Rightarrow>
             let ordered = sort_key ac_id accounts
             in if \<not> adjacent_ok ordered then fail Invalid_argument
                else Inr \<lparr>bm_accounts = ordered, bm_last_traded_tick = ucast reference_tick\<rparr>))"

section \<open>clear\<close>

text \<open>\<open>std::lower_bound\<close> on the accounts, which \<open>create\<close> sorted by id.\<close>

definition lower_bound :: "account list \<Rightarrow> agent_id \<Rightarrow> nat" where
  "lower_bound accounts i = length (takeWhile (\<lambda>a. ac_id a < i) accounts)"

definition order_for :: "account list \<Rightarrow> agent_action \<Rightarrow> order" where
  "order_for accounts submission =
     \<lparr>od_account_index = lower_bound accounts (aa_agent submission),
      od_agent = aa_agent submission, od_side = act_kind (aa_action submission),
      od_quantity = act_quantity (aa_action submission),
      od_limit = act_price_tick (aa_action submission), od_fill = 0\<rparr>"

definition limit_notional :: "order \<Rightarrow> cash" where
  "limit_notional order =
     int (unat (od_quantity order)) * int (unat (od_limit order)) * cash_units_per_tick"

fun collect_orders ::
  "account list \<Rightarrow> agent_action list \<Rightarrow> nat \<Rightarrow> agent_id set \<Rightarrow> order list \<Rightarrow> order list \<Rightarrow>
     (nat \<times> order list \<times> order list) result" where
  "collect_orders accounts [] mem submitted buys sells = Inr (mem, buys, sells)"
| "collect_orders accounts (submission # rest) mem submitted buys sells =
     (if aa_agent submission \<in> submitted then fail Invalid_argument
      else
        (case use_alloc mem of
           None \<Rightarrow> fail Allocation_failed
         | Some mem' \<Rightarrow>
             let submitted' = insert (aa_agent submission) submitted;
                 index = lower_bound accounts (aa_agent submission)
             in
               if index = length accounts \<or> ac_id (accounts ! index) \<noteq> aa_agent submission
               then fail Invalid_argument
               else if act_kind (aa_action submission) = Hold
               then collect_orders accounts rest mem' submitted' buys sells
               else
                 let order = order_for accounts submission
                 in
                   if act_kind (aa_action submission) = Buy_yes
                   then
                     (if ac_cash (accounts ! index) < limit_notional order
                      then fail Insufficient_resources
                      else collect_orders accounts rest mem' submitted' (buys @ [order]) sells)
                   else
                     (if ac_yes_shares (accounts ! index) < ucast (od_quantity order)
                      then fail Insufficient_resources
                      else collect_orders accounts rest mem' submitted' buys (sells @ [order]))))"

text \<open>The two summing loops of one tick, with their overflow guard.\<close>

fun add_quantities :: "(order \<Rightarrow> bool) \<Rightarrow> order list \<Rightarrow> u64 \<Rightarrow> u64 option" where
  "add_quantities eligible [] acc = Some acc"
| "add_quantities eligible (order # orders) acc =
     (if eligible order
      then (if acc > u64_max - ucast (od_quantity order) then None
            else add_quantities eligible orders (acc + ucast (od_quantity order)))
      else add_quantities eligible orders acc)"

definition candidate_at :: "order list \<Rightarrow> order list \<Rightarrow> u8 \<Rightarrow> nat \<Rightarrow> clearing_candidate option" where
  "candidate_at buys sells last_tick tick =
     (case add_quantities (\<lambda>order. unat (od_limit order) \<ge> tick) buys 0 of
        None \<Rightarrow> None
      | Some demand \<Rightarrow>
          (case add_quantities (\<lambda>order. unat (od_limit order) \<le> tick) sells 0 of
             None \<Rightarrow> None
           | Some supply \<Rightarrow>
               Some \<lparr>cc_matched_quantity = min demand supply,
                     cc_imbalance = (if demand \<ge> supply then demand - supply else supply - demand),
                     cc_reference_distance = of_int \<bar>int tick - int (unat last_tick)\<bar>,
                     cc_tick = of_nat tick\<rparr>))"

fun scan_ticks ::
  "order list \<Rightarrow> order list \<Rightarrow> u8 \<Rightarrow> nat list \<Rightarrow> clearing_candidate \<Rightarrow> clearing_candidate option" where
  "scan_ticks buys sells last_tick [] best = Some best"
| "scan_ticks buys sells last_tick (tick # ticks) best =
     (case candidate_at buys sells last_tick tick of
        None \<Rightarrow> None
      | Some candidate \<Rightarrow>
          scan_ticks buys sells last_tick ticks
            (if cc_tick best = 0 \<or> better_clearing_candidate candidate best
             then candidate else best))"

definition no_candidate :: clearing_candidate where
  "no_candidate = \<lparr>cc_matched_quantity = 0, cc_imbalance = u64_max,
     cc_reference_distance = u32_max, cc_tick = 0\<rparr>"

text \<open>The lambda \<open>allocate\<close>: the remaining quantity and the filled orders.\<close>

fun allocate_fills :: "(order \<Rightarrow> bool) \<Rightarrow> order list \<Rightarrow> u64 \<Rightarrow> order list \<times> u64" where
  "allocate_fills eligible [] remaining = ([], remaining)"
| "allocate_fills eligible (order # orders) remaining =
     (if \<not> eligible order \<or> remaining = 0
      then (let (os, r) = allocate_fills eligible orders remaining in (order # os, r))
      else
        let given = ucast (min (ucast (od_quantity order)) remaining) :: u8;
            (os, r) = allocate_fills eligible orders (remaining - ucast given)
        in (order\<lparr>od_fill := given\<rparr> # os, r))"

text \<open>The lambda \<open>apply\<close>, on the accounts being updated and the fills collected so far.\<close>

definition apply_order ::
  "u8 \<Rightarrow> order \<Rightarrow> account list \<times> fill list \<Rightarrow> (account list \<times> fill list) option" where
  "apply_order clearing_tick order = (\<lambda>(updated, fills).
     if od_fill order = 0 then Some (updated, fills)
     else
       let notional = int (unat (od_fill order)) * int (unat clearing_tick) * cash_units_per_tick;
           account = updated ! od_account_index order;
           entry = \<lparr>fl_agent = od_agent order, fl_side = od_side order,
                    fl_quantity = od_fill order\<rparr>
       in
         if od_side order = Buy_yes then
           (case checked_add_cash (ac_cash account) (- notional) of
              None \<Rightarrow> None
            | Some cash \<Rightarrow>
                if ac_yes_shares account > u32_max - ucast (od_fill order) then None
                else Some (updated[od_account_index order :=
                             account\<lparr>ac_cash := cash,
                               ac_yes_shares := ac_yes_shares account + ucast (od_fill order)\<rparr>],
                           fills @ [entry]))
         else
           (case checked_add_cash (ac_cash account) notional of
              None \<Rightarrow> None
            | Some cash \<Rightarrow>
                if ac_yes_shares account < ucast (od_fill order) then None
                else Some (updated[od_account_index order :=
                             account\<lparr>ac_cash := cash,
                               ac_yes_shares := ac_yes_shares account - ucast (od_fill order)\<rparr>],
                           fills @ [entry])))"

fun apply_orders ::
  "u8 \<Rightarrow> order list \<Rightarrow> account list \<times> fill list \<Rightarrow> (account list \<times> fill list) option" where
  "apply_orders clearing_tick [] st = Some st"
| "apply_orders clearing_tick (order # orders) st =
     (case apply_order clearing_tick order st of
        None \<Rightarrow> None
      | Some st' \<Rightarrow> apply_orders clearing_tick orders st')"

definition no_trade :: batch_result where
  "no_trade = \<lparr>br_traded = False, br_clearing_tick = 0, br_matched_quantity = 0, br_fills = []\<rparr>"

definition buy_key :: "order \<Rightarrow> int \<times> agent_id" where
  "buy_key order = (- int (unat (od_limit order)), od_agent order)"

definition sell_key :: "order \<Rightarrow> int \<times> agent_id" where
  "sell_key order = (int (unat (od_limit order)), od_agent order)"

text \<open>The second half of \<open>clear\<close>: from the sorted orders and the best candidate.\<close>

definition settle ::
  "nat \<Rightarrow> order list \<Rightarrow> order list \<Rightarrow> clearing_candidate \<Rightarrow> batch_market \<Rightarrow>
     batch_result result \<times> batch_market" where
  "settle mem buys sells best m =
     (let tick = cc_tick best;
          (filled_buys, unfilled_buys) =
            allocate_fills (\<lambda>order. od_limit order \<ge> tick) buys (cc_matched_quantity best);
          (filled_sells, unfilled_sells) =
            allocate_fills (\<lambda>order. od_limit order \<le> tick) sells (cc_matched_quantity best)
      in
        if unfilled_buys \<noteq> 0 \<or> unfilled_sells \<noteq> 0 then (fail Invalid_format, m)
        else
          (case use_alloc mem of
             None \<Rightarrow> (fail Allocation_failed, m)
           | Some mem' \<Rightarrow>
               (case use_reserve (length buys + length sells) mem' of
                  None \<Rightarrow> (fail Allocation_failed, m)
                | Some _ \<Rightarrow>
                    (case apply_orders tick filled_buys (bm_accounts m, []) of
                       None \<Rightarrow> (fail Arithmetic_overflow, m)
                     | Some st \<Rightarrow>
                         (case apply_orders tick filled_sells st of
                            None \<Rightarrow> (fail Arithmetic_overflow, m)
                          | Some (updated, fills) \<Rightarrow>
                              (Inr \<lparr>br_traded = True, br_clearing_tick = tick,
                                    br_matched_quantity = ucast (cc_matched_quantity best),
                                    br_fills = sort_key fl_agent fills\<rparr>,
                               m\<lparr>bm_accounts := updated, bm_last_traded_tick := tick\<rparr>))))))"

definition market_clear ::
  "nat \<Rightarrow> agent_action list \<Rightarrow> batch_market \<Rightarrow> batch_result result \<times> batch_market" where
  "market_clear mem0 actions m =
     (case Option.bind (use_reserve (length actions) mem0) (use_reserve (length actions)) of
        None \<Rightarrow> (fail Allocation_failed, m)
      | Some mem \<Rightarrow>
          (case collect_orders (bm_accounts m) actions mem {} [] [] of
             Inl e \<Rightarrow> (Inl e, m)
           | Inr (mem', buys, sells) \<Rightarrow>
               (case scan_ticks buys sells (bm_last_traded_tick m) [1 ..< 100] no_candidate of
                  None \<Rightarrow> (fail Arithmetic_overflow, m)
                | Some best \<Rightarrow>
                    if cc_matched_quantity best = 0 then (Inr no_trade, m)
                    else if cc_matched_quantity best > ucast u32_max
                    then (fail Arithmetic_overflow, m)
                    else settle mem' (sort_key buy_key buys) (sort_key sell_key sells) best m)))"

end
