(* ===== verification/MarketProps.thy ===== *)
theory MarketProps
  imports Market
begin

text \<open>
  What the batch auction promises: cash and shares are conserved, nobody trades beyond the
  submitted limit or into debt, the clearing tick is the best one, fills follow price and
  agent priority, and a failed call leaves the market as it was.
\<close>

section \<open>Collecting the orders\<close>

definition is_buy :: "agent_action \<Rightarrow> bool" where
  "is_buy s \<longleftrightarrow> act_kind (aa_action s) = Buy_yes"

definition is_sell :: "agent_action \<Rightarrow> bool" where
  "is_sell s \<longleftrightarrow> act_kind (aa_action s) = Sell_yes"

text \<open>A submission that names an account with the means for it.\<close>

definition backed :: "account list \<Rightarrow> agent_action \<Rightarrow> bool" where
  "backed accounts s \<longleftrightarrow>
     (let index = lower_bound accounts (aa_agent s) in
        index < length accounts \<and> ac_id (accounts ! index) = aa_agent s \<and>
        (is_buy s \<longrightarrow> limit_notional (order_for accounts s) \<le> ac_cash (accounts ! index)) \<and>
        (is_sell s \<longrightarrow> unat (act_quantity (aa_action s)) \<le> unat (ac_yes_shares (accounts ! index))))"

lemma lower_bound_le: "lower_bound accounts i \<le> length accounts"
  by (simp add: lower_bound_def length_takeWhile_le)

lemma collect_orders_Inr:
  "collect_orders accounts rest mem submitted buys sells = Inr (mem', buys', sells') \<Longrightarrow>
     buys' = buys @ map (order_for accounts) (filter is_buy rest) \<and>
     sells' = sells @ map (order_for accounts) (filter is_sell rest) \<and>
     distinct (map aa_agent rest) \<and> aa_agent ` set rest \<inter> submitted = {} \<and>
     (\<forall>s \<in> set rest. backed accounts s)"
proof (induction accounts rest mem submitted buys sells rule: collect_orders.induct)
  case (2 accounts submission rest mem submitted buys sells)
  note split_all = if_splits option.splits
  obtain mem1 where new: "aa_agent submission \<notin> submitted" "use_alloc mem = Some mem1"
    using "2.prems" by (auto split: split_all)
  have found: "lower_bound accounts (aa_agent submission) < length accounts"
    "ac_id (accounts ! lower_bound accounts (aa_agent submission)) = aa_agent submission"
    using "2.prems" lower_bound_le [of accounts "aa_agent submission"] new
    by (auto simp: Let_def le_less split: split_all)
  note IH = "2.IH" [OF new(1) new(2) refl refl]
  consider "act_kind (aa_action submission) = Hold" | "act_kind (aa_action submission) = Buy_yes"
    | "act_kind (aa_action submission) = Sell_yes" by (cases "act_kind (aa_action submission)")
  then show ?case
    using "2.prems" found new IH
    by cases (auto simp: Let_def is_buy_def is_sell_def backed_def order_for_def
        word_less_nat_alt word_le_nat_alt not_less split: split_all)
qed auto

definition order_ok :: "account list \<Rightarrow> order \<Rightarrow> bool" where
  "order_ok accounts o1 \<longleftrightarrow>
     od_account_index o1 < length accounts \<and>
     ac_id (accounts ! od_account_index o1) = od_agent o1 \<and>
     (od_side o1 = Buy_yes \<longrightarrow> limit_notional o1 \<le> ac_cash (accounts ! od_account_index o1)) \<and>
     (od_side o1 = Sell_yes \<longrightarrow>
        unat (od_quantity o1) \<le> unat (ac_yes_shares (accounts ! od_account_index o1)))"

lemma order_for_ok: "backed accounts s \<Longrightarrow> order_ok accounts (order_for accounts s)"
  by (auto simp: backed_def order_ok_def order_for_def is_buy_def is_sell_def Let_def)

lemma order_for_simps [simp]:
  "od_agent (order_for accounts s) = aa_agent s" "od_fill (order_for accounts s) = 0"
  "od_side (order_for accounts s) = act_kind (aa_action s)"
  "od_quantity (order_for accounts s) = act_quantity (aa_action s)"
  "od_limit (order_for accounts s) = act_price_tick (aa_action s)"
  by (simp_all add: order_for_def)

lemma collect_never_format:
  "collect_orders accounts rest mem submitted buys sells = Inl e \<Longrightarrow>
     e \<in> {status_failure Invalid_argument, status_failure Allocation_failed,
          status_failure Insufficient_resources}"
proof (induction accounts rest mem submitted buys sells rule: collect_orders.induct)
  case (2 accounts submission rest mem submitted buys sells)
  show ?case
  proof (cases "aa_agent submission \<in> submitted \<or> use_alloc mem = None")
    case True
    with "2.prems" show ?thesis by (auto split: if_splits)
  next
    case False
    then obtain mem1 where new: "aa_agent submission \<notin> submitted" "use_alloc mem = Some mem1" by blast
    note IH = "2.IH" [OF new(1) new(2) refl refl]
    show ?thesis
      using "2.prems" new IH by (simp add: Let_def split: if_splits)
  qed
qed simp

section \<open>Volumes and the clearing tick\<close>

definition volume :: "(order \<Rightarrow> bool) \<Rightarrow> order list \<Rightarrow> nat" where
  "volume P os = (\<Sum>o1\<leftarrow>filter P os. unat (od_quantity o1))"

lemma volume_simps [simp]:
  "volume P [] = 0"
  "volume P (o1 # os) = (if P o1 then unat (od_quantity o1) else 0) + volume P os"
  by (simp_all add: volume_def)

lemma volume_mset: "mset os = mset os' \<Longrightarrow> volume P os = volume P os'"
proof -
  assume "mset os = mset os'"
  then have "mset (map (\<lambda>o1. unat (od_quantity o1)) (filter P os)) =
    mset (map (\<lambda>o1. unat (od_quantity o1)) (filter P os'))" by simp
  then show ?thesis unfolding volume_def by (metis sum_mset_sum_list)
qed

lemma add_quantities_Some:
  "add_quantities P os acc = Some r \<longleftrightarrow>
     unat acc + volume P os < 2 ^ 64 \<and> unat r = unat acc + volume P os"
proof (induction os arbitrary: acc)
  case Nil
  show ?case using unat_u64_lt [of acc] unat_inject [of r acc] by auto
next
  case (Cons o1 os)
  have g: "acc > u64_max - ucast (od_quantity o1) \<longleftrightarrow> 2 ^ 64 \<le> unat acc + unat (od_quantity o1)"
    using checked_add_guard [of "ucast (od_quantity o1)" acc] by (simp add: add.commute)
  show ?case
  proof (cases "P o1 \<and> 2 ^ 64 \<le> unat acc + unat (od_quantity o1)")
    case True
    then show ?thesis by (simp add: g)
  next
    case fits: False
    show ?thesis
    proof (cases "P o1")
      case True
      then have "unat (acc + ucast (od_quantity o1)) = unat acc + unat (od_quantity o1)"
        using fits unat_u64_plus [of acc "ucast (od_quantity o1)"] by simp
      then show ?thesis
        using True fits Cons.IH [of "acc + ucast (od_quantity o1)"] by (simp add: g add.assoc)
    next
      case False
      then show ?thesis using Cons.IH [of acc] by simp
    qed
  qed
qed

definition demand_at :: "order list \<Rightarrow> nat \<Rightarrow> nat" where
  "demand_at buys tick = volume (\<lambda>o1. tick \<le> unat (od_limit o1)) buys"

definition supply_at :: "order list \<Rightarrow> nat \<Rightarrow> nat" where
  "supply_at sells tick = volume (\<lambda>o1. unat (od_limit o1) \<le> tick) sells"

lemma candidate_at_Some:
  assumes "candidate_at buys sells last_tick tick = Some c" "tick < 100"
  shows "unat (cc_matched_quantity c) = min (demand_at buys tick) (supply_at sells tick)"
    and "unat (cc_tick c) = tick"
    and "unat (cc_imbalance c) = nat \<bar>int (demand_at buys tick) - int (supply_at sells tick)\<bar>"
    and "unat (cc_reference_distance c) = nat \<bar>int tick - int (unat last_tick)\<bar>"
proof -
  from assms(1) obtain d s where ds: "unat d = demand_at buys tick" "unat s = supply_at sells tick"
    and c: "c = \<lparr>cc_matched_quantity = min d s, cc_imbalance = (if d \<ge> s then d - s else s - d),
       cc_reference_distance = of_int \<bar>int tick - int (unat last_tick)\<bar>, cc_tick = of_nat tick\<rparr>"
    by (auto simp: candidate_at_def add_quantities_Some demand_at_def supply_at_def
        split: option.splits)
  show "unat (cc_matched_quantity c) = min (demand_at buys tick) (supply_at sells tick)"
    by (simp add: c ds [symmetric] min_def word_le_nat_alt)
  show "unat (cc_tick c) = tick" using assms(2) by (simp add: c unat_of_nat)
  show "unat (cc_imbalance c) = nat \<bar>int (demand_at buys tick) - int (supply_at sells tick)\<bar>"
  proof (cases "s \<le> d")
    case True
    then have "unat (cc_imbalance c) = demand_at buys tick - supply_at sells tick"
      "supply_at sells tick \<le> demand_at buys tick"
      by (simp_all add: c ds unat_word_minus word_le_nat_alt)
    then show ?thesis by linarith
  next
    case False
    then have "unat (cc_imbalance c) = supply_at sells tick - demand_at buys tick"
      "demand_at buys tick < supply_at sells tick"
      by (simp_all add: c ds unat_word_minus word_le_nat_alt)
    then show ?thesis by linarith
  qed
  let ?k = "nat \<bar>int tick - int (unat last_tick)\<bar>"
  have "cc_reference_distance c = of_int (int ?k)" by (simp add: c)
  then have k: "cc_reference_distance c = of_nat ?k" by (simp only: of_int_of_nat_eq)
  have "?k \<le> 300" using assms(2) unat_u8_lt [of last_tick] by linarith
  then have "?k < 2 ^ 32" by (rule le_less_trans) simp
  then show "unat (cc_reference_distance c) = ?k" unfolding k by (rule unat_u32_of_nat)
qed

text \<open>The comparison of candidates is a lexicographic order, so a scan finds the least.\<close>

definition cand_key :: "clearing_candidate \<Rightarrow> int \<times> u64 \<times> u32 \<times> u8" where
  "cand_key c = (- int (unat (cc_matched_quantity c)), cc_imbalance c,
     cc_reference_distance c, cc_tick c)"

lemma lex_less:
  "(a, b, c, d) < (a', b', c', d') \<longleftrightarrow>
     a < a' \<or> a = a' \<and> (b < b' \<or> b = b' \<and> (c < c' \<or> c = c' \<and> d < d'))"
  for a :: "'a :: linorder" and b :: "'b :: linorder" and c :: "'c :: linorder" and d :: "'d :: linorder"
  by (auto simp: le_less)

lemma better_iff: "better_clearing_candidate c i \<longleftrightarrow> cand_key c < cand_key i"
proof -
  have "- int (unat a) < - int (unat b) \<longleftrightarrow> b < a" "- int (unat a) = - int (unat b) \<longleftrightarrow> a = b"
    for a b :: u64
    by (simp_all add: word_less_def word_uint_eq_iff)
  then show ?thesis
    unfolding better_clearing_candidate_def cand_key_def lex_less by simp
qed

lemma scan_ticks_best:
  assumes "scan_ticks buys sells l ts best = Some best'" "\<forall>t \<in> set ts. 0 < t \<and> t < 100"
    "cc_tick best \<noteq> 0"
  shows "cand_key best' \<le> cand_key best \<and>
    (best' = best \<or> (\<exists>t \<in> set ts. candidate_at buys sells l t = Some best')) \<and>
    (\<forall>t \<in> set ts. \<exists>c. candidate_at buys sells l t = Some c \<and> cand_key best' \<le> cand_key c)"
  using assms
proof (induction ts arbitrary: best)
  case (Cons t ts)
  from Cons.prems(1) obtain c where c: "candidate_at buys sells l t = Some c"
    by (auto split: option.splits)
  let ?next = "if cc_tick best = 0 \<or> better_clearing_candidate c best then c else best"
  have "cc_tick ?next \<noteq> 0"
    using Cons.prems(2,3) candidate_at_Some(2) [OF c] by auto
  moreover have "scan_ticks buys sells l ts ?next = Some best'" using Cons.prems(1) c by simp
  ultimately have "cand_key best' \<le> cand_key ?next \<and>
    (best' = ?next \<or> (\<exists>t \<in> set ts. candidate_at buys sells l t = Some best')) \<and>
    (\<forall>t \<in> set ts. \<exists>c. candidate_at buys sells l t = Some c \<and> cand_key best' \<le> cand_key c)"
    using Cons.prems(2) by (intro Cons.IH) auto
  then show ?case
    using Cons.prems(3) c by (auto simp: better_iff not_less split: if_splits)
qed auto

lemma scan_ticks_from_none:
  assumes "scan_ticks buys sells l ts no_candidate = Some best" "ts \<noteq> []"
    "\<forall>t \<in> set ts. 0 < t \<and> t < 100"
  shows "(\<exists>t \<in> set ts. candidate_at buys sells l t = Some best) \<and>
    (\<forall>t \<in> set ts. \<exists>c. candidate_at buys sells l t = Some c \<and> cand_key best \<le> cand_key c)"
proof -
  obtain t ts' where ts: "ts = t # ts'" using assms(2) by (cases ts) auto
  from assms(1) obtain c where c: "candidate_at buys sells l t = Some c"
    "scan_ticks buys sells l ts' c = Some best"
    by (auto simp: no_candidate_def ts split: option.splits)
  have "cc_tick c \<noteq> 0" using assms(3) candidate_at_Some(2) [OF c(1)] by (auto simp: ts)
  from scan_ticks_best [OF c(2) _ this] assms(3) c(1) show ?thesis by (auto simp: ts)
qed

section \<open>Allocation\<close>

definition total_fill :: "order list \<Rightarrow> nat" where
  "total_fill os = (\<Sum>o1\<leftarrow>os. unat (od_fill o1))"

lemma total_fill_simps [simp]:
  "total_fill [] = 0" "total_fill (o1 # os) = unat (od_fill o1) + total_fill os"
  "total_fill (os @ os') = total_fill os + total_fill os'"
  by (simp_all add: total_fill_def)

text \<open>An order and the same order after \<open>allocate\<close>.\<close>

definition filled_from :: "(order \<Rightarrow> bool) \<Rightarrow> order \<Rightarrow> order \<Rightarrow> bool" where
  "filled_from P o1 o2 \<longleftrightarrow>
     o2 = o1\<lparr>od_fill := od_fill o2\<rparr> \<and> unat (od_fill o2) \<le> unat (od_quantity o1) \<and>
     (od_fill o2 \<noteq> 0 \<longrightarrow> P o1)"

lemma unat_given:
  "unat (ucast (min (ucast (q :: u8)) (r :: u64)) :: u8) = min (unat q) (unat r)"
proof -
  have "unat (min (ucast q) r) = min (unat q) (unat r)"
    by (simp add: min_def word_le_nat_alt)
  then show ?thesis using unat_u8_lt [of q] by (simp add: unat_ucast_to_u8)
qed

lemma allocate_fills_spec:
  assumes "allocate_fills P os r = (os', r')" "\<forall>o1 \<in> set os. od_fill o1 = 0"
  shows "list_all2 (filled_from P) os os' \<and> total_fill os' + unat r' = unat r \<and>
    unat r' = unat r - volume P os"
  using assms
proof (induction P os r arbitrary: os' r' rule: allocate_fills.induct)
  case (1 P r)
  then show ?case by simp
next
  case (2 P o1 os r)
  show ?case
  proof (cases "\<not> P o1 \<or> r = 0")
    case True
    from 2(3) True obtain os1 where "allocate_fills P os r = (os1, r')" "os' = o1 # os1"
      by (auto split: prod.splits)
    with True 2(1) [OF True] 2(4) show ?thesis by (auto simp: filled_from_def)
  next
    case False
    define given where "given = (ucast (min (ucast (od_quantity o1)) r) :: u8)"
    have g: "unat given = min (unat (od_quantity o1)) (unat r)"
      unfolding given_def by (rule unat_given)
    then have rest: "unat (r - ucast given) = unat r - unat given"
      by (intro trans [OF unat_word_minus]) (simp_all add: word_le_nat_alt)
    from 2(3) False obtain os1 where os1: "allocate_fills P os (r - ucast given) = (os1, r')"
      "os' = o1\<lparr>od_fill := given\<rparr> # os1"
      by (auto simp: Let_def given_def [symmetric] split: prod.splits)
    with 2(2) [OF False given_def] 2(4) False g rest show ?thesis
      by (auto simp: filled_from_def min_def split: if_splits)
  qed
qed

lemma allocate_fills_priority:
  assumes "allocate_fills P os r = (os', r')" "\<forall>o1 \<in> set os. od_fill o1 = 0"
    "i < j" "j < length os" "od_fill (os' ! j) \<noteq> 0" "P (os ! i)"
  shows "od_fill (os' ! i) = od_quantity (os ! i)"
  using assms
proof (induction P os r arbitrary: os' r' i j rule: allocate_fills.induct)
  case (2 P o1 os r)
  obtain j' where j': "j = Suc j'" "j' < length os" using 2(5,6) by (cases j) auto
  show ?case
  proof (cases "\<not> P o1 \<or> r = 0")
    case True
    from 2(3) True obtain os1 where os1: "allocate_fills P os r = (os1, r')" "os' = o1 # os1"
      by (auto split: prod.splits)
    show ?thesis
    proof (cases i)
      case 0
      then have "r = 0" using True 2(8) by simp
      then have "total_fill os1 = 0" using allocate_fills_spec [OF os1(1)] 2(4) by simp
      moreover have "length os1 = length os"
        using allocate_fills_spec [OF os1(1)] 2(4) by (auto dest: list_all2_lengthD)
      ultimately have "od_fill (os1 ! j') = 0"
        using j'(2) by (simp add: total_fill_def unat_eq_zero)
      then show ?thesis using 2(7) j' os1(2) by simp
    next
      case (Suc i')
      then show ?thesis using 2(1) [OF True os1(1)] 2(4-8) j' os1(2) by simp
    qed
  next
    case False
    define given where "given = (ucast (min (ucast (od_quantity o1)) r) :: u8)"
    have g: "unat given = min (unat (od_quantity o1)) (unat r)"
      unfolding given_def by (rule unat_given)
    from 2(3) False obtain os1 where os1: "allocate_fills P os (r - ucast given) = (os1, r')"
      "os' = o1\<lparr>od_fill := given\<rparr> # os1"
      by (auto simp: Let_def given_def [symmetric] split: prod.splits)
    show ?thesis
    proof (cases i)
      case 0
      have "given = od_quantity o1"
      proof (rule ccontr)
        assume "given \<noteq> od_quantity o1"
        then have "unat given = unat r" using g by (auto simp: min_def simp flip: unat_inject)
        then have "unat (r - ucast given) = 0"
          by (subst unat_word_minus) (simp_all add: word_le_nat_alt)
        then have "total_fill os1 = 0" using allocate_fills_spec [OF os1(1)] 2(4) by simp
        moreover have "length os1 = length os"
          using allocate_fills_spec [OF os1(1)] 2(4) by (auto dest: list_all2_lengthD)
        ultimately have "od_fill (os1 ! j') = 0"
          using j'(2) by (simp add: total_fill_def unat_eq_zero)
        then show False using 2(7) j' os1(2) by simp
      qed
      then show ?thesis using 0 os1(2) by simp
    next
      case (Suc i')
      then show ?thesis using 2(2) [OF False given_def os1(1)] 2(4-8) j' os1(2) by simp
    qed
  qed
qed simp

section \<open>Settlement\<close>

definition trade_value :: "u8 \<Rightarrow> u8 \<Rightarrow> cash" where
  "trade_value tick q = int (unat q) * int (unat tick) * cash_units_per_tick"

definition cash_delta :: "u8 \<Rightarrow> order \<Rightarrow> cash" where
  "cash_delta tick o1 = (if od_side o1 = Buy_yes then - trade_value tick (od_fill o1)
     else trade_value tick (od_fill o1))"

definition shares_in :: "order \<Rightarrow> nat" where
  "shares_in o1 = (if od_side o1 = Buy_yes then unat (od_fill o1) else 0)"

definition shares_out :: "order \<Rightarrow> nat" where
  "shares_out o1 = (if od_side o1 = Buy_yes then 0 else unat (od_fill o1))"

text \<open>The account after an order, and the shares seen without wrap-around.\<close>

definition settled :: "u8 \<Rightarrow> order \<Rightarrow> account \<Rightarrow> account \<Rightarrow> bool" where
  "settled tick o1 a a' \<longleftrightarrow>
     ac_id a' = ac_id a \<and> ac_cash a' = ac_cash a + cash_delta tick o1 \<and>
     unat (ac_yes_shares a') + shares_out o1 = unat (ac_yes_shares a) + shares_in o1 \<and>
     (ac_cash a \<le> cash_max \<longrightarrow> ac_cash a' \<le> cash_max)"

definition fill_of :: "order \<Rightarrow> fill" where
  "fill_of o1 = \<lparr>fl_agent = od_agent o1, fl_side = od_side o1, fl_quantity = od_fill o1\<rparr>"

definition fills_of :: "order list \<Rightarrow> fill list" where
  "fills_of os = map fill_of (filter (\<lambda>o1. od_fill o1 \<noteq> 0) os)"

lemma trade_value_nonneg [simp]: "0 \<le> trade_value tick q" "trade_value tick 0 = 0"
  by (simp_all add: trade_value_def cash_units_per_tick_def)

lemma apply_order_Some:
  assumes "apply_order tick o1 (u, f) = Some (u', f')"
  shows "\<exists>a'. u' = u[od_account_index o1 := a'] \<and> settled tick o1 (u ! od_account_index o1) a' \<and>
    f' = f @ fills_of [o1]"
proof (cases "od_fill o1 = 0")
  case True
  with assms show ?thesis
    by (intro exI [of _ "u ! od_account_index o1"])
      (simp add: apply_order_def settled_def cash_delta_def shares_in_def shares_out_def fills_of_def)
next
  case False
  let ?a = "u ! od_account_index o1" and ?q = "od_fill o1"
  have v: "uint ?q * uint tick * cash_units_per_tick = trade_value tick ?q"
    by (simp add: trade_value_def)
  show ?thesis
  proof (cases "od_side o1 = Buy_yes")
    case True
    have "ac_yes_shares ?a > u32_max - ucast ?q \<longleftrightarrow> 2 ^ 32 \<le> unat (ac_yes_shares ?a) + unat ?q"
      using unat_word_minus [of "ucast ?q" u32_max] unat_u8_lt [of ?q]
      by (auto simp: word_less_nat_alt word_nat)
    with assms False True have u': "f' = f @ fills_of [o1]"
      "u' = u[od_account_index o1 := ?a\<lparr>ac_cash := ac_cash ?a - trade_value tick ?q,
         ac_yes_shares := ac_yes_shares ?a + ucast ?q\<rparr>]"
      "unat (ac_yes_shares ?a) + unat ?q < 2 ^ 32"
      by (auto simp: apply_order_def Let_def v fills_of_def fill_of_def checked_add_cash_def
          split: option.splits if_splits)
    then show ?thesis
      using True unat_u32_plus [of "ac_yes_shares ?a" "ucast ?q"]
      by (intro exI conjI) (auto simp: settled_def cash_delta_def shares_in_def shares_out_def
          intro: order_trans [of _ "ac_cash ?a"])
  next
    case False2: False
    with assms False have u': "f' = f @ fills_of [o1]"
      "u' = u[od_account_index o1 := ?a\<lparr>ac_cash := ac_cash ?a + trade_value tick ?q,
         ac_yes_shares := ac_yes_shares ?a - ucast ?q\<rparr>]"
      "ucast ?q \<le> ac_yes_shares ?a"
      "0 < trade_value tick ?q \<Longrightarrow> ac_cash ?a + trade_value tick ?q \<le> cash_max"
      by (auto simp: apply_order_def Let_def v fills_of_def fill_of_def checked_add_cash_def
          not_less split: option.splits if_splits)
    have "unat (ac_yes_shares ?a - ucast ?q) = unat (ac_yes_shares ?a) - unat ?q"
      "unat ?q \<le> unat (ac_yes_shares ?a)"
      using u'(3) by (simp_all add: unat_word_minus word_le_nat_alt)
    with u' False2 trade_value_nonneg(1) [of tick ?q] show ?thesis
      by (intro exI conjI) (auto simp: settled_def cash_delta_def shares_in_def shares_out_def le_less)
  qed
qed

lemma fills_of_simps [simp]:
  "fills_of [] = []"
  "fills_of (o1 # os) = (if od_fill o1 = 0 then [] else [fill_of o1]) @ fills_of os"
  "fills_of (os @ os') = fills_of os @ fills_of os'"
  by (simp_all add: fills_of_def)

lemma apply_orders_append:
  "apply_orders tick (os @ os') st = Option.bind (apply_orders tick os st) (apply_orders tick os')"
  by (induction os arbitrary: st) (auto split: option.splits)

lemma apply_orders_fills:
  "apply_orders tick os (u, f) = Some (u', f') \<Longrightarrow> f' = f @ fills_of os \<and> length u' = length u"
proof (induction os arbitrary: u f)
  case (Cons o1 os)
  then obtain u1 f1 where step: "apply_order tick o1 (u, f) = Some (u1, f1)"
    "apply_orders tick os (u1, f1) = Some (u', f')"
    by (auto split: option.splits)
  from apply_order_Some [OF step(1)] Cons.IH [OF step(2)] show ?case by auto
qed simp

text \<open>Each account meets at most one order: accounts without one do not change.\<close>

lemma apply_orders_accounts:
  assumes "apply_orders tick os (u, f) = Some (u', f')" "distinct (map od_account_index os)"
    "j < length u"
  shows "(j \<notin> od_account_index ` set os \<longrightarrow> u' ! j = u ! j) \<and>
    (\<forall>o1 \<in> set os. od_account_index o1 = j \<longrightarrow> settled tick o1 (u ! j) (u' ! j))"
  using assms
proof (induction os arbitrary: u f)
  case (Cons o1 os)
  then obtain u1 f1 where step: "apply_order tick o1 (u, f) = Some (u1, f1)"
    "apply_orders tick os (u1, f1) = Some (u', f')"
    by (auto split: option.splits)
  from apply_order_Some [OF step(1)] obtain a' where
    u1: "u1 = u[od_account_index o1 := a']" "settled tick o1 (u ! od_account_index o1) a'" by blast
  have IH: "(j \<notin> od_account_index ` set os \<longrightarrow> u' ! j = u1 ! j) \<and>
    (\<forall>o1 \<in> set os. od_account_index o1 = j \<longrightarrow> settled tick o1 (u1 ! j) (u' ! j))"
    using Cons.prems u1(1) by (intro Cons.IH [OF step(2)]) auto
  show ?case
  proof (cases "od_account_index o1 = j")
    case True
    then have no: "\<forall>o2 \<in> set os. od_account_index o2 \<noteq> j"
      using Cons.prems(2) by (fastforce simp: image_iff)
    then have "u' ! j = a'" using IH u1(1) True Cons.prems(3) by auto
    then show ?thesis using no u1(2) True by auto
  next
    case False
    then show ?thesis using IH u1 by auto
  qed
qed simp

lemma apply_orders_sums:
  assumes "apply_orders tick os (u, f) = Some (u', f')" "\<forall>o1 \<in> set os. od_account_index o1 < length u"
  shows "sum_list (map ac_cash u') = sum_list (map ac_cash u) + sum_list (map (cash_delta tick) os) \<and>
    (\<Sum>a\<leftarrow>u'. unat (ac_yes_shares a)) + sum_list (map shares_out os) =
      (\<Sum>a\<leftarrow>u. unat (ac_yes_shares a)) + sum_list (map shares_in os)"
  using assms
proof (induction os arbitrary: u f)
  case (Cons o1 os)
  then obtain u1 f1 where step: "apply_order tick o1 (u, f) = Some (u1, f1)"
    "apply_orders tick os (u1, f1) = Some (u', f')"
    by (auto split: option.splits)
  from apply_order_Some [OF step(1)] obtain a' where
    u1: "u1 = u[od_account_index o1 := a']" "settled tick o1 (u ! od_account_index o1) a'" by blast
  have "sum_list (map ac_cash u1) = sum_list (map ac_cash u) + cash_delta tick o1"
    "(\<Sum>a\<leftarrow>u1. unat (ac_yes_shares a)) + shares_out o1 =
       (\<Sum>a\<leftarrow>u. unat (ac_yes_shares a)) + shares_in o1"
    using u1(2) Cons.prems(2) sum_list_map_update [of "od_account_index o1" u ac_cash a']
      sum_list_map_update [of "od_account_index o1" u "\<lambda>a. unat (ac_yes_shares a)" a']
    unfolding u1(1) settled_def by simp_all
  with Cons.IH [OF step(2)] Cons.prems(2) u1(1) show ?case by simp
qed simp

section \<open>One call of clear\<close>

definition buy_orders :: "account list \<Rightarrow> agent_action list \<Rightarrow> order list" where
  "buy_orders accounts actions = map (order_for accounts) (filter is_buy actions)"

definition sell_orders :: "account list \<Rightarrow> agent_action list \<Rightarrow> order list" where
  "sell_orders accounts actions = map (order_for accounts) (filter is_sell actions)"

text \<open>The facts about a successful call, gathered from the pieces above.\<close>

definition cleared ::
  "batch_market \<Rightarrow> agent_action list \<Rightarrow> clearing_candidate \<Rightarrow> order list \<Rightarrow> order list \<Rightarrow>
     batch_result \<Rightarrow> batch_market \<Rightarrow> bool" where
  "cleared m actions best fb fs r m' \<longleftrightarrow>
     0 < unat (cc_matched_quantity best) \<and> unat (cc_matched_quantity best) < 2 ^ 32 \<and>
     allocate_fills (\<lambda>o1. od_limit o1 \<ge> cc_tick best)
       (sort_key buy_key (buy_orders (bm_accounts m) actions)) (cc_matched_quantity best) = (fb, 0) \<and>
     allocate_fills (\<lambda>o1. od_limit o1 \<le> cc_tick best)
       (sort_key sell_key (sell_orders (bm_accounts m) actions)) (cc_matched_quantity best) = (fs, 0) \<and>
     (\<exists>f. apply_orders (cc_tick best) (fb @ fs) (bm_accounts m, []) = Some (bm_accounts m', f)) \<and>
     r = \<lparr>br_traded = True, br_clearing_tick = cc_tick best,
          br_matched_quantity = ucast (cc_matched_quantity best),
          br_fills = sort_key fl_agent (fills_of (fb @ fs))\<rparr> \<and>
     bm_last_traded_tick m' = cc_tick best"

lemma settle_Inr:
  assumes "settle mem buys sells best m = (Inr r, m')"
  obtains fb fs mem2 f where
    "allocate_fills (\<lambda>o1. od_limit o1 \<ge> cc_tick best) buys (cc_matched_quantity best) = (fb, 0)"
    "allocate_fills (\<lambda>o1. od_limit o1 \<le> cc_tick best) sells (cc_matched_quantity best) = (fs, 0)"
    "apply_orders (cc_tick best) (fb @ fs) (bm_accounts m, []) = Some (bm_accounts m', f)"
    "r = \<lparr>br_traded = True, br_clearing_tick = cc_tick best,
          br_matched_quantity = ucast (cc_matched_quantity best), br_fills = sort_key fl_agent f\<rparr>"
    "bm_last_traded_tick m' = cc_tick best"
proof -
  obtain fb rb where b: "allocate_fills (\<lambda>o1. od_limit o1 \<ge> cc_tick best) buys
      (cc_matched_quantity best) = (fb, rb)" by fastforce
  obtain fs rs where s: "allocate_fills (\<lambda>o1. od_limit o1 \<le> cc_tick best) sells
      (cc_matched_quantity best) = (fs, rs)" by fastforce
  from assms b s that show ?thesis
    by (auto simp: settle_def Let_def apply_orders_append split: if_splits option.splits prod.splits)
qed

lemma market_clear_Inr:
  assumes "market_clear mem actions m = (Inr r, m')"
  shows "distinct (map aa_agent actions) \<and> (\<forall>s \<in> set actions. backed (bm_accounts m) s) \<and>
    (\<exists>best. scan_ticks (buy_orders (bm_accounts m) actions) (sell_orders (bm_accounts m) actions)
        (bm_last_traded_tick m) [1 ..< 100] no_candidate = Some best \<and>
      (cc_matched_quantity best = 0 \<and> r = no_trade \<and> m' = m \<or>
       (\<exists>fb fs. cleared m actions best fb fs r m')))"
proof -
  let ?A = "bm_accounts m"
  from assms obtain mem1 mem2 buys sells where
    a: "Option.bind (use_reserve (length actions) mem) (use_reserve (length actions)) = Some mem1" and
    c: "collect_orders ?A actions mem1 {} [] [] = Inr (mem2, buys, sells)"
    by (auto simp: market_clear_def split: option.splits sum.splits)
  note col = collect_orders_Inr [OF c]
  then have os: "buys = buy_orders ?A actions" "sells = sell_orders ?A actions"
    by (simp_all add: buy_orders_def sell_orders_def)
  from assms a c obtain best where best:
    "scan_ticks buys sells (bm_last_traded_tick m) [1 ..< 100] no_candidate = Some best"
    "cc_matched_quantity best = 0 \<and> r = no_trade \<and> m' = m \<or>
     cc_matched_quantity best \<noteq> 0 \<and> \<not> cc_matched_quantity best > ucast u32_max \<and>
     (\<exists>mem. settle mem (sort_key buy_key buys) (sort_key sell_key sells) best m = (Inr r, m'))"
    by (auto simp: market_clear_def split: option.splits sum.splits if_splits)
  have "\<exists>fb fs. cleared m actions best fb fs r m'" if "cc_matched_quantity best \<noteq> 0"
    "\<not> cc_matched_quantity best > ucast u32_max"
    "settle mem3 (sort_key buy_key buys) (sort_key sell_key sells) best m = (Inr r, m')" for mem3
  proof -
    have range: "0 < unat (cc_matched_quantity best)" "unat (cc_matched_quantity best) < 2 ^ 32"
      using that(1,2) by (simp_all add: unat_gt_0 word_less_nat_alt not_less unat_ucast_u32_u64 word_nat)
    from that(3) obtain fb fs f where *:
      "allocate_fills (\<lambda>o1. od_limit o1 \<ge> cc_tick best) (sort_key buy_key buys)
         (cc_matched_quantity best) = (fb, 0)"
      "allocate_fills (\<lambda>o1. od_limit o1 \<le> cc_tick best) (sort_key sell_key sells)
         (cc_matched_quantity best) = (fs, 0)"
      "apply_orders (cc_tick best) (fb @ fs) (bm_accounts m, []) = Some (bm_accounts m', f)"
      "r = \<lparr>br_traded = True, br_clearing_tick = cc_tick best,
          br_matched_quantity = ucast (cc_matched_quantity best), br_fills = sort_key fl_agent f\<rparr>"
      "bm_last_traded_tick m' = cc_tick best"
      by (rule settle_Inr)
    have f: "f = fills_of (fb @ fs)" using apply_orders_fills [OF *(3)] by (simp only: append_Nil)
    have "cleared m actions best fb fs r m'"
      unfolding cleared_def os [symmetric] using range * [unfolded f] by (intro conjI exI)
    then show ?thesis by blast
  qed
  then have "cc_matched_quantity best = 0 \<and> r = no_trade \<and> m' = m \<or>
      (\<exists>fb fs. cleared m actions best fb fs r m')"
    using best(2) by blast
  moreover note best(1) [unfolded os]
  ultimately show ?thesis using col by blast
qed

lemma list_all2_map_eq:
  "list_all2 R xs ys \<Longrightarrow> (\<And>x y. R x y \<Longrightarrow> g y = g x) \<Longrightarrow> map g ys = map g xs"
  by (induction rule: list_all2_induct) auto

lemma list_all2_right: "list_all2 R xs ys \<Longrightarrow> y \<in> set ys \<Longrightarrow> \<exists>x \<in> set xs. R x y"
  by (induction rule: list_all2_induct) auto

lemma distinct_map_filters:
  "distinct (map f xs) \<Longrightarrow> (\<And>x. \<not> (P x \<and> Q x)) \<Longrightarrow> distinct (map f (filter P xs @ filter Q xs))"
  by (auto simp: distinct_map inj_on_def)

text \<open>A filled order, traced back to the submission it came from.\<close>

definition order_from :: "account list \<Rightarrow> u8 \<Rightarrow> agent_action \<Rightarrow> order \<Rightarrow> bool" where
  "order_from accounts tick s o1 \<longleftrightarrow>
     o1 = (order_for accounts s)\<lparr>od_fill := od_fill o1\<rparr> \<and> backed accounts s \<and>
     unat (od_fill o1) \<le> unat (act_quantity (aa_action s)) \<and>
     (od_fill o1 \<noteq> 0 \<longrightarrow>
        (if is_buy s then tick \<le> act_price_tick (aa_action s) else act_price_tick (aa_action s) \<le> tick))"

lemma side_orders:
  assumes "allocate_fills P (sort_key k (map (order_for A) (filter Q actions))) q = (fb, 0)"
    and "\<And>s. Q s \<Longrightarrow> P (order_for A s) \<Longrightarrow>
      if is_buy s then tick \<le> act_price_tick (aa_action s) else act_price_tick (aa_action s) \<le> tick"
    and "\<And>o1 x. P (o1\<lparr>od_fill := x\<rparr>) = P o1" and "\<forall>s \<in> set actions. backed A s"
  shows "(\<forall>o1 \<in> set fb. \<exists>s \<in> set actions. Q s \<and> order_from A tick s o1) \<and>
    mset (map od_agent fb) = mset (map aa_agent (filter Q actions)) \<and> total_fill fb = unat q"
proof -
  let ?B = "map (order_for A) (filter Q actions)"
  have spec: "list_all2 (filled_from P) (sort_key k ?B) fb" "total_fill fb = unat q"
    using allocate_fills_spec [OF assms(1)] by auto
  have "map od_agent fb = map od_agent (sort_key k ?B)"
    by (rule list_all2_map_eq [OF spec(1)]) (simp add: filled_from_def, metis order.select_convs(2) order.surjective order.update_convs(6))
  then have "mset (map od_agent fb) = mset (map od_agent ?B)"
    by (simp add: image_mset.compositionality)
  then have agents: "mset (map od_agent fb) = mset (map aa_agent (filter Q actions))"
    by (simp add: o_def)
  have "\<exists>s \<in> set actions. Q s \<and> order_from A tick s o1" if o1: "o1 \<in> set fb" for o1
  proof -
    from list_all2_right [OF spec(1) o1] obtain s where
      s: "s \<in> set actions" "Q s" "filled_from P (order_for A s) o1" by auto
    then have "od_fill o1 \<noteq> 0 \<Longrightarrow> P (order_for A s)" by (simp add: filled_from_def)
    with s assms(2,4) show ?thesis
      unfolding order_from_def filled_from_def by (intro bexI [of _ s]) auto
  qed
  with agents spec(2) show ?thesis by blast
qed

lemma cleared_orders:
  assumes "cleared m actions best fb fs r m'" "distinct (map aa_agent actions)"
    "\<forall>s \<in> set actions. backed (bm_accounts m) s"
  shows "(\<forall>o1 \<in> set fb. \<exists>s \<in> set actions. is_buy s \<and> order_from (bm_accounts m) (cc_tick best) s o1)"
    and "(\<forall>o1 \<in> set fs. \<exists>s \<in> set actions. is_sell s \<and> order_from (bm_accounts m) (cc_tick best) s o1)"
    and "distinct (map od_account_index (fb @ fs))"
    and "mset (map od_agent (fb @ fs)) = mset (map aa_agent (filter is_buy actions @ filter is_sell actions))"
    and "total_fill fb = unat (cc_matched_quantity best)"
    and "total_fill fs = unat (cc_matched_quantity best)"
proof -
  let ?A = "bm_accounts m"
  note b = side_orders [OF assms(1) [unfolded cleared_def buy_orders_def, THEN conjunct2, THEN conjunct2, THEN conjunct1],
      of "cc_tick best", OF _ _ assms(3)]
  note s = side_orders [OF assms(1) [unfolded cleared_def sell_orders_def, THEN conjunct2, THEN conjunct2, THEN conjunct2, THEN conjunct1],
      of "cc_tick best", OF _ _ assms(3)]
  show buys: "(\<forall>o1 \<in> set fb. \<exists>s \<in> set actions. is_buy s \<and> order_from ?A (cc_tick best) s o1)"
    and tb: "total_fill fb = unat (cc_matched_quantity best)"
    using b by simp_all
  show sells: "(\<forall>o1 \<in> set fs. \<exists>s \<in> set actions. is_sell s \<and> order_from ?A (cc_tick best) s o1)"
    and ts: "total_fill fs = unat (cc_matched_quantity best)"
    using s by (simp_all add: is_buy_def is_sell_def)
  show agents: "mset (map od_agent (fb @ fs)) =
      mset (map aa_agent (filter is_buy actions @ filter is_sell actions))"
    using b s by (simp add: is_buy_def is_sell_def)
  have "distinct (map aa_agent (filter is_buy actions @ filter is_sell actions))"
    by (rule distinct_map_filters [OF assms(2)]) (simp add: is_buy_def is_sell_def)
  then have d: "distinct (map od_agent (fb @ fs))"
    using agents mset_eq_imp_distinct_iff by blast
  have "ac_id (?A ! od_account_index o1) = od_agent o1" if o1: "o1 \<in> set (fb @ fs)" for o1
  proof -
    obtain s where "order_from ?A (cc_tick best) s o1"
      using buys sells o1 by (metis UnE set_append)
    then have "order_ok ?A (order_for ?A s)" "o1 = (order_for ?A s)\<lparr>od_fill := od_fill o1\<rparr>"
      by (auto simp: order_from_def intro: order_for_ok)
    then show ?thesis by (metis order_ok_def order.ext_inject order.surjective order.update_convs(6))
  qed
  then have "map (\<lambda>i. ac_id (?A ! i)) (map od_account_index (fb @ fs)) = map od_agent (fb @ fs)"
    by simp
  with d show "distinct (map od_account_index (fb @ fs))" by (metis distinct_map)
qed

section \<open>The market as a guarded machine\<close>

definition market_inv :: "batch_market \<Rightarrow> bool" where
  "market_inv m \<longleftrightarrow> bm_accounts m \<noteq> [] \<and> sorted_wrt (<) (map ac_id (bm_accounts m)) \<and>
     (\<forall>a \<in> set (bm_accounts m). 0 \<le> ac_cash a \<and> ac_cash a \<le> cash_max) \<and>
     1 \<le> unat (bm_last_traded_tick m) \<and> unat (bm_last_traded_tick m) \<le> 99"

text \<open>Cash in the accounts given to \<open>create\<close> is a value of the signed 64-bit type.\<close>

definition market_starts :: "batch_market \<Rightarrow> bool" where
  "market_starts m \<longleftrightarrow> (\<exists>mem accounts tick.
     (\<forall>a \<in> set accounts. cash_min \<le> ac_cash a \<and> ac_cash a \<le> cash_max) \<and>
     market_create mem accounts tick = Inr m)"

lemma adjacent_distinct:
  assumes "sorted (xs :: 'a :: linorder list)"
  shows "(\<forall>i < length xs. i \<noteq> 0 \<longrightarrow> xs ! (i - 1) \<noteq> xs ! i) \<longleftrightarrow> distinct xs"
proof -
  have "(\<forall>i < length xs. i \<noteq> 0 \<longrightarrow> xs ! (i - 1) \<noteq> xs ! i) \<longleftrightarrow>
      (\<forall>i. Suc i < length xs \<longrightarrow> xs ! i \<noteq> xs ! Suc i)"
    by (metis diff_Suc_1 not0_implies_Suc nat.distinct(1))
  also have "\<dots> \<longleftrightarrow> (\<forall>i. Suc i < length xs \<longrightarrow> xs ! i < xs ! Suc i)"
    using assms by (auto simp: sorted_iff_nth_Suc le_less)
  also have "\<dots> \<longleftrightarrow> sorted_wrt (<) xs"
    by (simp add: sorted_wrt_iff_nth_Suc_transp)
  finally show ?thesis using assms by (simp add: strict_sorted_iff)
qed

lemma adjacent_ok_iff:
  "adjacent_ok (sort_key ac_id accounts) \<longleftrightarrow>
     (\<forall>a \<in> set accounts. 0 \<le> ac_cash a) \<and> distinct (map ac_id accounts)"
proof -
  let ?s = "sort_key ac_id accounts"
  have "adjacent_ok ?s \<longleftrightarrow> (\<forall>i < length ?s. 0 \<le> ac_cash (?s ! i)) \<and>
      (\<forall>i < length (map ac_id ?s). i \<noteq> 0 \<longrightarrow> map ac_id ?s ! (i - 1) \<noteq> map ac_id ?s ! i)"
    unfolding adjacent_ok_def by (auto simp del: length_sort)
  also have "\<dots> \<longleftrightarrow> (\<forall>a \<in> set ?s. 0 \<le> ac_cash a) \<and> distinct (map ac_id ?s)"
    using adjacent_distinct [OF sorted_sort_key [of ac_id accounts]] by (metis in_set_conv_nth)
  also have "distinct (map ac_id ?s) \<longleftrightarrow> distinct (map ac_id accounts)"
    by (rule mset_eq_imp_distinct_iff) simp
  finally show ?thesis by simp
qed

text \<open>
  \<open>create\<close> succeeds, given memory, exactly for a non-empty set of accounts with
  different ids and no debt and a reference tick between 1 and 99; the market then holds
  the same accounts in the order of their ids.
\<close>

theorem market_create_exact:
  "market_create (Suc mem) accounts tick =
     (if accounts \<noteq> [] \<and> 1 \<le> unat tick \<and> unat tick \<le> 99 \<and> distinct (map ac_id accounts) \<and>
         list_all (\<lambda>a. 0 \<le> ac_cash a) accounts
      then Inr \<lparr>bm_accounts = sort_key ac_id accounts, bm_last_traded_tick = ucast tick\<rparr>
      else fail Invalid_argument)"
  using adjacent_ok_iff [of accounts]
  by (auto simp: market_create_def use_alloc_def Let_def word_less_nat_alt list_all_iff not_less)

lemma market_create_Inr:
  assumes "market_create mem accounts tick = Inr m"
  shows "accounts \<noteq> [] \<and> 1 \<le> unat tick \<and> unat tick \<le> 99 \<and>
    (\<forall>a \<in> set accounts. 0 \<le> ac_cash a) \<and> distinct (map ac_id accounts) \<and>
    m = \<lparr>bm_accounts = sort_key ac_id accounts, bm_last_traded_tick = ucast tick\<rparr>"
  using assms adjacent_ok_iff [of accounts]
  by (auto simp: market_create_def Let_def word_less_nat_alt not_less split: option.splits if_splits)

lemma market_starts_inv: "market_starts m \<Longrightarrow> market_inv m"
proof -
  assume "market_starts m"
  then obtain mem accounts tick where
    range: "\<forall>a \<in> set accounts. cash_min \<le> ac_cash a \<and> ac_cash a \<le> cash_max"
    and c: "market_create mem accounts tick = Inr m" by (auto simp: market_starts_def)
  note c = market_create_Inr [OF c]
  have "distinct (map ac_id (sort_key ac_id accounts))"
    using c by (metis mset_eq_imp_distinct_iff mset_map mset_sort)
  then have "sorted_wrt (<) (map ac_id (sort_key ac_id accounts))"
    by (simp add: strict_sorted_iff)
  with c range show ?thesis
    by (simp add: market_inv_def unat_ucast_to_u8) (metis length_0_conv length_sort)
qed

lemma market_inv_distinct: "market_inv m \<Longrightarrow> distinct (map ac_id (bm_accounts m))"
  by (simp add: market_inv_def strict_sorted_iff)

lemma best_tick_range:
  assumes "scan_ticks buys sells l [1 ..< 100] no_candidate = Some best"
  shows "1 \<le> unat (cc_tick best) \<and> unat (cc_tick best) \<le> 99 \<and>
    candidate_at buys sells l (unat (cc_tick best)) = Some best \<and>
    (\<forall>t \<in> {1 ..< 100}. \<exists>c. candidate_at buys sells l t = Some c \<and> cand_key best \<le> cand_key c)"
proof -
  have ticks: "set [1 ..< 100 :: nat] = {1 ..< 100}" "[1 ..< 100 :: nat] \<noteq> []"
    by (simp_all only: set_upt upt_eq_Nil_conv) simp
  have "(\<exists>t \<in> {1 ..< 100}. candidate_at buys sells l t = Some best) \<and>
    (\<forall>t \<in> {1 ..< 100}. \<exists>c. candidate_at buys sells l t = Some c \<and> cand_key best \<le> cand_key c)"
    using scan_ticks_from_none [OF assms ticks(2)] unfolding ticks(1) by simp
  moreover have "unat (cc_tick best) = t" if "t \<in> {1 ..< 100}"
    "candidate_at buys sells l t = Some best" for t
    using that candidate_at_Some(2) [OF that(2)] by simp
  ultimately show ?thesis by auto
qed

lemma order_from_side:
  "order_from A tick s o1 \<Longrightarrow> od_side o1 = act_kind (aa_action s) \<and> od_agent o1 = aa_agent s \<and>
     od_account_index o1 = lower_bound A (aa_agent s) \<and>
     od_account_index o1 < length A \<and> ac_id (A ! od_account_index o1) = aa_agent s"
  unfolding order_from_def backed_def order_for_def Let_def by (metis order.select_convs order.update_convs(6))

lemma cash_delta_sum:
  "\<forall>o1 \<in> set os. od_side o1 = Buy_yes \<Longrightarrow>
     sum_list (map (cash_delta tick) os) = - (int (total_fill os) * int (unat tick) * cash_units_per_tick) \<and>
     sum_list (map shares_in os) = total_fill os \<and> sum_list (map shares_out os) = 0"
  by (induction os) (auto simp: cash_delta_def shares_in_def shares_out_def trade_value_def algebra_simps)

lemma cash_delta_sum_sell:
  "\<forall>o1 \<in> set os. od_side o1 \<noteq> Buy_yes \<Longrightarrow>
     sum_list (map (cash_delta tick) os) = int (total_fill os) * int (unat tick) * cash_units_per_tick \<and>
     sum_list (map shares_out os) = total_fill os \<and> sum_list (map shares_in os) = 0"
  by (induction os) (auto simp: cash_delta_def shares_in_def shares_out_def trade_value_def algebra_simps)

lemma cleared_sums:
  assumes "cleared m actions best fb fs r m'" "distinct (map aa_agent actions)"
    "\<forall>s \<in> set actions. backed (bm_accounts m) s"
  shows "sum_list (map ac_cash (bm_accounts m')) = sum_list (map ac_cash (bm_accounts m))"
    and "(\<Sum>a\<leftarrow>bm_accounts m'. unat (ac_yes_shares a)) = (\<Sum>a\<leftarrow>bm_accounts m. unat (ac_yes_shares a))"
proof -
  note os = cleared_orders [OF assms]
  obtain f where ap: "apply_orders (cc_tick best) (fb @ fs) (bm_accounts m, []) = Some (bm_accounts m', f)"
    using assms(1) by (auto simp: cleared_def)
  have sides: "\<forall>o1 \<in> set fb. od_side o1 = Buy_yes" "\<forall>o1 \<in> set fs. od_side o1 \<noteq> Buy_yes"
    using os(1,2) order_from_side unfolding is_buy_def is_sell_def
    by (metis, metis action_kind.distinct(5))
  have "\<forall>o1 \<in> set (fb @ fs). od_account_index o1 < length (bm_accounts m)"
    using os(1,2) order_from_side by (metis UnE set_append)
  from apply_orders_sums [OF ap this] cash_delta_sum [OF sides(1), of "cc_tick best"]
    cash_delta_sum_sell [OF sides(2), of "cc_tick best"] os(5,6)
  show "sum_list (map ac_cash (bm_accounts m')) = sum_list (map ac_cash (bm_accounts m))"
    and "(\<Sum>a\<leftarrow>bm_accounts m'. unat (ac_yes_shares a)) = (\<Sum>a\<leftarrow>bm_accounts m. unat (ac_yes_shares a))"
    by simp_all
qed

text \<open>What happened to one account.\<close>

definition account_moves ::
  "agent_action list \<Rightarrow> u8 \<Rightarrow> order list \<Rightarrow> account \<Rightarrow> account \<Rightarrow> bool" where
  "account_moves actions tick os a a' \<longleftrightarrow>
     a' = a \<and> (\<forall>o1 \<in> set os. od_fill o1 \<noteq> 0 \<longrightarrow> od_agent o1 \<noteq> ac_id a) \<or>
     (\<exists>o1 \<in> set os. \<exists>s \<in> set actions. od_fill o1 \<noteq> 0 \<and> aa_agent s = ac_id a \<and>
        od_agent o1 = ac_id a \<and> od_side o1 = act_kind (aa_action s) \<and>
        unat (od_fill o1) \<le> unat (act_quantity (aa_action s)) \<and> settled tick o1 a a' \<and>
        (is_buy s \<and> tick \<le> act_price_tick (aa_action s) \<and>
           limit_notional (order_for [] s) \<le> ac_cash a \<or>
         is_sell s \<and> act_price_tick (aa_action s) \<le> tick))"

lemma limit_notional_order: "limit_notional (order_for A s) = limit_notional (order_for [] s)"
  by (simp add: limit_notional_def)

lemma settled_nothing: "settled tick o1 a a' \<Longrightarrow> od_fill o1 = 0 \<Longrightarrow> a' = a"
proof -
  assume st: "settled tick o1 a a'" and z: "od_fill o1 = 0"
  have "ac_id a' = ac_id a" "ac_cash a' = ac_cash a" "unat (ac_yes_shares a') = unat (ac_yes_shares a)"
    using st by (simp_all add: settled_def cash_delta_def shares_in_def shares_out_def z split: if_splits)
  then show ?thesis by (intro account.equality) (simp_all add: unat_inject)
qed

lemma order_agent_account:
  assumes "distinct (map ac_id A)" "order_from A tick s o1" "j < length A" "od_agent o1 = ac_id (A ! j)"
  shows "od_account_index o1 = j"
  using assms(3,4) order_from_side [OF assms(2)]
    nth_eq_iff_index_eq [OF assms(1), of "od_account_index o1" j]
  by (metis length_map nth_map)

lemma cleared_account:
  assumes inv: "market_inv m" and c: "cleared m actions best fb fs r m'"
    and d: "distinct (map aa_agent actions)" "\<forall>s \<in> set actions. backed (bm_accounts m) s"
    and j: "j < length (bm_accounts m)"
  shows "account_moves actions (cc_tick best) (fb @ fs) (bm_accounts m ! j) (bm_accounts m' ! j)"
proof -
  let ?A = "bm_accounts m" and ?tick = "cc_tick best"
  note os = cleared_orders [OF c d]
  obtain f where ap: "apply_orders ?tick (fb @ fs) (?A, []) = Some (bm_accounts m', f)"
    using c by (auto simp: cleared_def)
  note acc = apply_orders_accounts [OF ap os(3) j]
  have from_sub: "\<exists>s \<in> set actions. (is_buy s \<or> is_sell s) \<and> order_from ?A ?tick s o1"
    if o1: "o1 \<in> set (fb @ fs)" for o1
    using os(1,2) o1 by (metis UnE set_append)
  show ?thesis
  proof (cases "\<exists>o1 \<in> set (fb @ fs). od_fill o1 \<noteq> 0 \<and> od_agent o1 = ac_id (?A ! j)")
    case True
    then obtain o1 s where o1: "o1 \<in> set (fb @ fs)" "od_fill o1 \<noteq> 0" "od_agent o1 = ac_id (?A ! j)"
      and s: "s \<in> set actions" "is_buy s \<or> is_sell s" "order_from ?A ?tick s o1"
      using from_sub by blast
    have idx: "od_account_index o1 = j"
      using order_agent_account [OF market_inv_distinct [OF inv] s(3) j o1(3)] .
    have "is_buy s \<Longrightarrow> limit_notional (order_for [] s) \<le> ac_cash (?A ! j)"
      using s(3) idx order_from_side [OF s(3)]
      unfolding order_from_def backed_def Let_def limit_notional_order [of ?A] by simp
    then show ?thesis
      using acc o1 s idx order_from_side [OF s(3)] unfolding account_moves_def order_from_def
      by (intro disjI2 bexI [of _ o1] bexI [of _ s]) (auto simp: is_buy_def is_sell_def)
  next
    case False
    have "bm_accounts m' ! j = ?A ! j"
    proof (cases "j \<in> od_account_index ` set (fb @ fs)")
      case True
      then obtain o1 where o1: "o1 \<in> set (fb @ fs)" "od_account_index o1 = j" by auto
      then have "od_agent o1 = ac_id (?A ! j)" using from_sub [OF o1(1)] order_from_side by metis
      with False o1(1) have "od_fill o1 = 0" by blast
      with acc o1 settled_nothing show ?thesis by blast
    qed (use acc in blast)
    with False show ?thesis unfolding account_moves_def by blast
  qed
qed

lemma notional_mono:
  assumes "unat q \<le> unat (act_quantity (aa_action s))" "tick \<le> act_price_tick (aa_action s)"
  shows "trade_value tick q \<le> limit_notional (order_for A s)"
proof -
  have "unat q * unat tick \<le> unat (act_quantity (aa_action s)) * unat (act_price_tick (aa_action s))"
    using assms by (intro mult_le_mono) (simp_all add: word_le_nat_alt)
  then have "int (unat q * unat tick) * 10000 \<le>
    int (unat (act_quantity (aa_action s)) * unat (act_price_tick (aa_action s))) * 10000"
    by (intro mult_right_mono) (simp_all only: of_nat_le_iff)
  then show ?thesis
    by (simp add: trade_value_def limit_notional_def cash_units_per_tick_def)
qed

lemma account_moves_inv:
  assumes "account_moves actions tick os a a'" "0 \<le> ac_cash a" "ac_cash a \<le> cash_max"
  shows "ac_id a' = ac_id a \<and> 0 \<le> ac_cash a' \<and> ac_cash a' \<le> cash_max"
  using assms notional_mono trade_value_nonneg(1)
  unfolding account_moves_def settled_def cash_delta_def is_buy_def is_sell_def
  by (smt (verit, best) action_kind.distinct(5))

lemma cleared_inv:
  assumes inv: "market_inv m" and c: "cleared m actions best fb fs r m'"
    and d: "distinct (map aa_agent actions)" "\<forall>s \<in> set actions. backed (bm_accounts m) s"
    and tick: "1 \<le> unat (cc_tick best)" "unat (cc_tick best) \<le> 99"
  shows "market_inv m' \<and> map ac_id (bm_accounts m') = map ac_id (bm_accounts m)"
proof -
  let ?A = "bm_accounts m" and ?B = "bm_accounts m'"
  have len: "length ?B = length ?A"
    using c apply_orders_fills unfolding cleared_def by blast
  have "0 \<le> ac_cash (?A ! j) \<and> ac_cash (?A ! j) \<le> cash_max" if "j < length ?A" for j
    using inv that by (simp add: market_inv_def)
  then have acc: "ac_id (?B ! j) = ac_id (?A ! j) \<and> 0 \<le> ac_cash (?B ! j) \<and> ac_cash (?B ! j) \<le> cash_max"
    if "j < length ?A" for j
    using account_moves_inv [OF cleared_account [OF inv c d that]] that by blast
  then have ids: "map ac_id ?B = map ac_id ?A"
    by (intro nth_equalityI) (simp_all add: len)
  have "\<forall>a \<in> set ?B. 0 \<le> ac_cash a \<and> ac_cash a \<le> cash_max"
    using acc len by (metis in_set_conv_nth)
  with ids show ?thesis
    using inv c tick len by (auto simp: market_inv_def cleared_def)
qed

definition market_step ::
  "nat \<times> agent_action list \<Rightarrow> batch_market \<Rightarrow> batch_result result \<times> batch_market" where
  "market_step = (\<lambda>(mem, actions). market_clear mem actions)"

lemma market_clear_failure: "market_clear mem actions m = (Inl e, m') \<Longrightarrow> m' = m"
  unfolding market_clear_def settle_def Let_def
  by (auto split: option.splits sum.splits if_splits prod.splits)

lemma market_step_inv: "market_inv m \<Longrightarrow> market_inv (snd (market_step x m))"
proof -
  assume inv: "market_inv m"
  obtain mem actions r m' where x: "x = (mem, actions)" "market_clear mem actions m = (r, m')"
    by (cases x) fastforce
  have "market_inv m'"
  proof (cases r)
    case (Inl e)
    with x inv market_clear_failure show ?thesis by blast
  next
    case (Inr b)
    note c = market_clear_Inr [OF x(2) [unfolded Inr]]
    then obtain best where best: "scan_ticks (buy_orders (bm_accounts m) actions)
        (sell_orders (bm_accounts m) actions) (bm_last_traded_tick m) [1 ..< 100] no_candidate = Some best"
      "m' = m \<or> (\<exists>fb fs. cleared m actions best fb fs b m')" by blast
    then show ?thesis using inv c cleared_inv [OF inv] best_tick_range [OF best(1)] by blast
  qed
  with x show ?thesis by (simp add: market_step_def)
qed

interpretation market: guarded_machine market_starts market_step market_inv
  by unfold_locales (simp_all add: market_starts_inv market_step_inv)

definition market_reachable :: "batch_market \<Rightarrow> bool" where
  "market_reachable m \<longleftrightarrow> (\<exists>m0 xs. market_starts m0 \<and> m = run_ops market_step xs m0)"

lemma market_reachable_inv: "market_reachable m \<Longrightarrow> market_inv m"
  unfolding market_reachable_def using market.reachable_inv by blast

text \<open>
  A concrete market for the witnesses: three accounts, one buyer who meets two sellers.
\<close>

definition demo_accounts :: "account list" where
  "demo_accounts =
     [\<lparr>ac_id = 3, ac_cash = 5000000, ac_yes_shares = 10\<rparr>,
      \<lparr>ac_id = 1, ac_cash = 4000000, ac_yes_shares = 0\<rparr>,
      \<lparr>ac_id = 2, ac_cash = 0, ac_yes_shares = 8\<rparr>]"

definition demo_market :: batch_market where
  "demo_market = projr (market_create 1 demo_accounts 50)"

definition demo_actions :: "agent_action list" where
  "demo_actions =
     [\<lparr>aa_agent = 1, aa_action = projr (buy_yes 5 60)\<rparr>,
      \<lparr>aa_agent = 2, aa_action = projr (sell_yes 3 40)\<rparr>,
      \<lparr>aa_agent = 3, aa_action = projr (sell_yes 4 55)\<rparr>]"

definition demo_result :: batch_result where
  "demo_result = \<lparr>br_traded = True, br_clearing_tick = 55, br_matched_quantity = 5,
     br_fills = [\<lparr>fl_agent = 1, fl_side = Buy_yes, fl_quantity = 5\<rparr>,
                 \<lparr>fl_agent = 2, fl_side = Sell_yes, fl_quantity = 3\<rparr>,
                 \<lparr>fl_agent = 3, fl_side = Sell_yes, fl_quantity = 2\<rparr>]\<rparr>"

definition demo_after :: batch_market where
  "demo_after = snd (market_clear 9 demo_actions demo_market)"

lemma demo_market_reachable: "market_reachable demo_market"
proof -
  have "has_value (market_create 1 demo_accounts 50)" by code_simp
  then have "market_create 1 demo_accounts 50 = Inr demo_market"
    by (cases "market_create 1 demo_accounts 50") (simp_all add: demo_market_def)
  moreover have "\<forall>a \<in> set demo_accounts. cash_min \<le> ac_cash a \<and> ac_cash a \<le> cash_max"
    by (simp add: demo_accounts_def cash_min_def cash_max_def)
  ultimately have "market_starts demo_market" unfolding market_starts_def by blast
  then show ?thesis unfolding market_reachable_def by (metis run_ops.simps(1))
qed

lemma demo_clear: "market_clear 9 demo_actions demo_market = (Inr demo_result, demo_after)"
proof -
  have "fst (market_clear 9 demo_actions demo_market) = Inr demo_result" by code_simp
  then show ?thesis unfolding demo_after_def by (metis prod.collapse)
qed

section \<open>Conservation and settlement\<close>

text \<open>
  (C17) Clearing neither creates nor destroys anything: the cash of all accounts together
  and their shares together are the same before and after, the accounts keep their ids and
  no account goes into debt or beyond the range of its type.
\<close>

theorem market_conserves:
  assumes "market_reachable m" and "market_clear mem actions m = (Inr r, m')"
  shows "sum_list (map ac_cash (bm_accounts m')) = sum_list (map ac_cash (bm_accounts m)) \<and>
    (\<Sum>a\<leftarrow>bm_accounts m'. unat (ac_yes_shares a)) = (\<Sum>a\<leftarrow>bm_accounts m. unat (ac_yes_shares a)) \<and>
    map ac_id (bm_accounts m') = map ac_id (bm_accounts m) \<and>
    (\<forall>a \<in> set (bm_accounts m'). 0 \<le> ac_cash a \<and> ac_cash a \<le> cash_max)"
proof -
  note inv = market_reachable_inv [OF assms(1)]
  have inv': "market_inv m'"
    using market_step_inv [OF inv, of "(mem, actions)"] assms(2) by (simp add: market_step_def)
  note c = market_clear_Inr [OF assms(2)]
  then have d: "distinct (map aa_agent actions)" "\<forall>s \<in> set actions. backed (bm_accounts m) s"
    by blast+
  from c obtain best where
    "scan_ticks (buy_orders (bm_accounts m) actions) (sell_orders (bm_accounts m) actions)
       (bm_last_traded_tick m) [1 ..< 100] no_candidate = Some best"
    "m' = m \<or> (\<exists>fb fs. cleared m actions best fb fs r m')" by blast
  then show ?thesis
    using inv' cleared_sums [OF _ d] cleared_inv [OF inv _ d] best_tick_range
    unfolding market_inv_def by metis
qed

theorem market_conserves_witness:
  "sum_list (map ac_cash (bm_accounts demo_after)) = 9000000 \<and> bm_accounts demo_after \<noteq> bm_accounts demo_market"
proof -
  have "sum_list (map ac_cash (bm_accounts demo_market)) = 9000000"
    "bm_accounts demo_after \<noteq> bm_accounts demo_market" by code_simp+
  with market_conserves [OF demo_market_reachable demo_clear] show ?thesis by simp
qed

text \<open>
  (C18) Every account is settled exactly by its fill: an account without a fill is
  untouched, a buyer pays the clearing price, at most its limit, for each share it gets,
  a seller receives it, at least its limit, for each share it gives, and no fill is larger
  than the order behind it.
\<close>

theorem market_settles:
  assumes "market_reachable m" and "market_clear mem actions m = (Inr r, m')"
    and "j < length (bm_accounts m)"
  shows "let a = bm_accounts m ! j; a' = bm_accounts m' ! j; tick = br_clearing_tick r in
    (if ac_id a \<notin> fl_agent ` set (br_fills r) then a' = a
     else \<exists>s \<in> set actions. \<exists>q. aa_agent s = ac_id a \<and>
       \<lparr>fl_agent = ac_id a, fl_side = act_kind (aa_action s), fl_quantity = q\<rparr> \<in> set (br_fills r) \<and>
       0 < unat q \<and> unat q \<le> unat (act_quantity (aa_action s)) \<and>
       (is_buy s \<and> tick \<le> act_price_tick (aa_action s) \<and>
          ac_cash a' = ac_cash a - trade_value tick q \<and>
          unat (ac_yes_shares a') = unat (ac_yes_shares a) + unat q \<or>
        is_sell s \<and> act_price_tick (aa_action s) \<le> tick \<and>
          ac_cash a' = ac_cash a + trade_value tick q \<and>
          unat (ac_yes_shares a') + unat q = unat (ac_yes_shares a)))"
proof -
  note inv = market_reachable_inv [OF assms(1)]
  let ?a = "bm_accounts m ! j" and ?a' = "bm_accounts m' ! j"
  note c = market_clear_Inr [OF assms(2)]
  then have d: "distinct (map aa_agent actions)" "\<forall>s \<in> set actions. backed (bm_accounts m) s"
    by blast+
  from c consider "r = no_trade" "m' = m" | best fb fs where "cleared m actions best fb fs r m'"
    by blast
  then show ?thesis
  proof cases
    case 1
    then show ?thesis by (simp add: no_trade_def)
  next
    case 2
    have r: "br_clearing_tick r = cc_tick best" "set (br_fills r) = set (fills_of (fb @ fs))"
      using 2 by (simp_all add: cleared_def)
    then have fills: "set (br_fills r) = fill_of ` {o1 \<in> set (fb @ fs). od_fill o1 \<noteq> 0}"
      by (auto simp: fills_of_def)
    from cleared_account [OF inv 2 d assms(3)] show ?thesis
      unfolding account_moves_def
    proof (elim disjE conjE bexE)
      assume "?a' = ?a" "\<forall>o1 \<in> set (fb @ fs). od_fill o1 \<noteq> 0 \<longrightarrow> od_agent o1 \<noteq> ac_id ?a"
      then have "ac_id ?a \<notin> fl_agent ` set (br_fills r)" unfolding fills by (auto simp: fill_of_def)
      with \<open>?a' = ?a\<close> show ?thesis by (simp add: Let_def)
    next
      fix o1 s
      assume o1: "o1 \<in> set (fb @ fs)" "od_fill o1 \<noteq> 0" "od_agent o1 = ac_id ?a"
        "od_side o1 = act_kind (aa_action s)"
        "unat (od_fill o1) \<le> unat (act_quantity (aa_action s))"
        and s: "s \<in> set actions" "aa_agent s = ac_id ?a"
        and st: "settled (cc_tick best) o1 ?a ?a'"
        and side: "is_buy s" "cc_tick best \<le> act_price_tick (aa_action s)"
      have f: "fill_of o1 \<in> set (br_fills r)" using o1 fills by blast
      then have "ac_id ?a \<in> fl_agent ` set (br_fills r)" using o1(3) by (force simp: fill_of_def)
      then show ?thesis
        using f o1 s st side unfolding Let_def r(1) settled_def cash_delta_def shares_in_def shares_out_def
        by (auto simp: fill_of_def is_buy_def unat_gt_0 intro!: bexI [of _ s] exI [of _ "od_fill o1"])
    next
      fix o1 s
      assume o1: "o1 \<in> set (fb @ fs)" "od_fill o1 \<noteq> 0" "od_agent o1 = ac_id ?a"
        "od_side o1 = act_kind (aa_action s)"
        "unat (od_fill o1) \<le> unat (act_quantity (aa_action s))"
        and s: "s \<in> set actions" "aa_agent s = ac_id ?a"
        and st: "settled (cc_tick best) o1 ?a ?a'"
        and side: "is_sell s" "act_price_tick (aa_action s) \<le> cc_tick best"
      have f: "fill_of o1 \<in> set (br_fills r)" using o1 fills by blast
      then have "ac_id ?a \<in> fl_agent ` set (br_fills r)" using o1(3) by (force simp: fill_of_def)
      then show ?thesis
        using f o1 s st side unfolding Let_def r(1) settled_def cash_delta_def shares_in_def shares_out_def
        by (auto simp: fill_of_def is_buy_def is_sell_def unat_gt_0
            intro!: bexI [of _ s] exI [of _ "od_fill o1"])
    qed
  qed
qed

theorem market_settles_witness:
  "ac_cash (bm_accounts demo_after ! 0) = ac_cash (bm_accounts demo_market ! 0) - trade_value 55 5 \<and>
   unat (ac_yes_shares (bm_accounts demo_after ! 0)) = 5"
proof -
  have j: "0 < length (bm_accounts demo_market)" by code_simp
  have id: "ac_id (bm_accounts demo_market ! 0) = 1"
    "ac_yes_shares (bm_accounts demo_market ! 0) = 0" by code_simp+
  have "demo_actions = [\<lparr>aa_agent = 1, aa_action = \<lparr>act_kind = Buy_yes, act_quantity = 5, act_price_tick = 60\<rparr>\<rparr>,
      \<lparr>aa_agent = 2, aa_action = \<lparr>act_kind = Sell_yes, act_quantity = 3, act_price_tick = 40\<rparr>\<rparr>,
      \<lparr>aa_agent = 3, aa_action = \<lparr>act_kind = Sell_yes, act_quantity = 4, act_price_tick = 55\<rparr>\<rparr>]"
    by code_simp
  with market_settles [OF demo_market_reachable demo_clear j] show ?thesis
    by (auto simp: Let_def demo_result_def id is_buy_def is_sell_def)
qed

section \<open>The clearing tick\<close>

definition demand_of :: "agent_action list \<Rightarrow> nat \<Rightarrow> nat" where
  "demand_of actions tick =
     (\<Sum>s\<leftarrow>filter (\<lambda>s. is_buy s \<and> tick \<le> unat (act_price_tick (aa_action s))) actions.
        unat (act_quantity (aa_action s)))"

definition supply_of :: "agent_action list \<Rightarrow> nat \<Rightarrow> nat" where
  "supply_of actions tick =
     (\<Sum>s\<leftarrow>filter (\<lambda>s. is_sell s \<and> unat (act_price_tick (aa_action s)) \<le> tick) actions.
        unat (act_quantity (aa_action s)))"

text \<open>
  The rank of a tick, smaller is better: most shares matched, then least imbalance, then
  nearest to the last traded tick, then lowest.
\<close>

definition tick_rank :: "agent_action list \<Rightarrow> nat \<Rightarrow> nat \<Rightarrow> int \<times> nat \<times> nat \<times> nat" where
  "tick_rank actions last_tick tick =
     (- int (min (demand_of actions tick) (supply_of actions tick)),
      nat \<bar>int (demand_of actions tick) - int (supply_of actions tick)\<bar>,
      nat \<bar>int tick - int last_tick\<bar>, tick)"

lemma demand_at_orders: "demand_at (buy_orders A actions) = demand_of actions"
proof
  fix t show "demand_at (buy_orders A actions) t = demand_of actions t"
    by (induction actions) (simp_all add: demand_at_def buy_orders_def demand_of_def)
qed

lemma supply_at_orders: "supply_at (sell_orders A actions) = supply_of actions"
proof
  fix t show "supply_at (sell_orders A actions) t = supply_of actions t"
    by (induction actions) (simp_all add: supply_at_def sell_orders_def supply_of_def)
qed

lemma rank_of_candidate:
  assumes "candidate_at (buy_orders A actions) (sell_orders A actions) l t = Some c" "t < 100"
  shows "tick_rank actions (unat l) t =
    (- int (unat (cc_matched_quantity c)), unat (cc_imbalance c),
     unat (cc_reference_distance c), unat (cc_tick c))"
  using candidate_at_Some [OF assms]
  by (simp add: tick_rank_def demand_at_orders supply_at_orders del: of_nat_unat)

lemma rank_less_iff:
  assumes "candidate_at (buy_orders A actions) (sell_orders A actions) l t = Some c" "t < 100"
    "candidate_at (buy_orders A actions) (sell_orders A actions) l t' = Some c'" "t' < 100"
  shows "tick_rank actions (unat l) t \<le> tick_rank actions (unat l) t' \<longleftrightarrow> cand_key c \<le> cand_key c'"
proof -
  have "tick_rank actions (unat l) t' < tick_rank actions (unat l) t \<longleftrightarrow> cand_key c' < cand_key c"
    unfolding rank_of_candidate [OF assms(1,2)] rank_of_candidate [OF assms(3,4)] cand_key_def lex_less
    by (simp add: word_less_nat_alt unat_inject)
  then show ?thesis by (meson not_less)
qed

lemma lex_first: "(a, b) \<le> (a', b') \<Longrightarrow> a \<le> a'" for a :: "'a :: order"
  by (auto simp: less_eq_prod_def)

definition filled :: "action_kind \<Rightarrow> batch_result \<Rightarrow> nat" where
  "filled side r = (\<Sum>f\<leftarrow>filter (\<lambda>f. fl_side f = side) (br_fills r). unat (fl_quantity f))"

lemma filled_eq:
  assumes "\<forall>o1 \<in> set os. od_side o1 = side" "\<forall>o1 \<in> set os'. od_side o1 \<noteq> side"
    "mset (br_fills r) = mset (fills_of os) + mset (fills_of os')"
  shows "filled side r = total_fill os"
proof -
  have one: "\<forall>o1 \<in> set os. od_side o1 = side \<Longrightarrow>
      (\<Sum>f\<leftarrow>filter (\<lambda>f. fl_side f = side) (fills_of os). unat (fl_quantity f)) = total_fill os" for os
    by (induction os) (auto simp: fill_of_def)
  have none: "\<forall>o1 \<in> set os. od_side o1 \<noteq> side \<Longrightarrow> filter (\<lambda>f. fl_side f = side) (fills_of os) = []" for os
    by (induction os) (auto simp: fill_of_def)
  have "mset (map (\<lambda>f. unat (fl_quantity f)) (filter (\<lambda>f. fl_side f = side) (br_fills r))) =
    mset (map (\<lambda>f. unat (fl_quantity f)) (filter (\<lambda>f. fl_side f = side) (fills_of os @ fills_of os')))"
    using assms(3) by simp
  then have "filled side r =
    (\<Sum>f\<leftarrow>filter (\<lambda>f. fl_side f = side) (fills_of os @ fills_of os'). unat (fl_quantity f))"
    unfolding filled_def by (metis sum_mset_sum_list)
  then show ?thesis using one [OF assms(1)] none [OF assms(2)] by simp
qed

text \<open>
  (C19) The auction clears at the best tick: when it trades, the tick's rank is least among
  all ticks from 1 to 99, the shares bought, the shares sold and the reported quantity are
  all the smaller of demand and supply there; when it does not trade, no tick at all would
  match anything, and the market is unchanged.
\<close>

theorem market_clears_best:
  assumes "market_reachable m" and "market_clear mem actions m = (Inr r, m')"
  shows "let p = unat (br_clearing_tick r); l = unat (bm_last_traded_tick m);
             matched = (\<lambda>t. min (demand_of actions t) (supply_of actions t))
    in if br_traded r
       then 1 \<le> p \<and> p \<le> 99 \<and> 0 < matched p \<and>
         unat (br_matched_quantity r) = matched p \<and>
         filled Buy_yes r = matched p \<and> filled Sell_yes r = matched p \<and>
         bm_last_traded_tick m' = br_clearing_tick r \<and>
         (\<forall>t \<in> {1 ..< 100}. tick_rank actions l p \<le> tick_rank actions l t)
       else m' = m \<and> (\<forall>t \<in> {1 ..< 100}. matched t = 0)"
proof -
  let ?A = "bm_accounts m" and ?l = "bm_last_traded_tick m"
  let ?cand = "candidate_at (buy_orders ?A actions) (sell_orders ?A actions) ?l"
  note c = market_clear_Inr [OF assms(2)]
  then have d: "distinct (map aa_agent actions)" "\<forall>s \<in> set actions. backed ?A s"
    by blast+
  from c obtain best where best: "scan_ticks (buy_orders ?A actions) (sell_orders ?A actions) ?l
      [1 ..< 100] no_candidate = Some best"
    and out: "cc_matched_quantity best = 0 \<and> r = no_trade \<and> m' = m \<or>
      (\<exists>fb fs. cleared m actions best fb fs r m')" by blast
  note b = best_tick_range [OF best]
  let ?p = "unat (cc_tick best)"
  have p: "?cand ?p = Some best" "?p < 100" using b by auto
  have matched: "unat (cc_matched_quantity best) = min (demand_of actions ?p) (supply_of actions ?p)"
    using candidate_at_Some(1) [OF p] by (simp add: demand_at_orders supply_at_orders)
  have rank: "\<forall>t \<in> {1 ..< 100}. tick_rank actions (unat ?l) ?p \<le> tick_rank actions (unat ?l) t"
    using b rank_less_iff [OF p] by (metis atLeastLessThan_iff)
  from out show ?thesis
  proof (elim disjE exE conjE)
    assume none: "cc_matched_quantity best = 0" "r = no_trade" "m' = m"
    have "min (demand_of actions t) (supply_of actions t) = 0" if "t \<in> {1 ..< 100}" for t
    proof -
      have "- int (min (demand_of actions ?p) (supply_of actions ?p)) \<le>
          - int (min (demand_of actions t) (supply_of actions t))"
        using lex_first [OF rank [rule_format, OF that, unfolded tick_rank_def]] .
      then have "min (demand_of actions t) (supply_of actions t) \<le>
          min (demand_of actions ?p) (supply_of actions ?p)"
        by (simp only: neg_le_iff_le of_nat_le_iff)
      then show ?thesis using matched none(1) by (metis le_zero_eq unsigned_0)
    qed
    with none show ?thesis by (simp add: no_trade_def Let_def)
  next
    fix fb fs assume cl: "cleared m actions best fb fs r m'"
    note os = cleared_orders [OF cl d]
    have sides: "\<forall>o1 \<in> set fb. od_side o1 = Buy_yes" "\<forall>o1 \<in> set fs. od_side o1 = Sell_yes"
      using os(1,2) order_from_side unfolding is_buy_def is_sell_def by metis+
    have fills: "mset (br_fills r) = mset (fills_of fb) + mset (fills_of fs)"
      using cl by (simp add: cleared_def)
    have "filled Buy_yes r = total_fill fb" using sides by (intro filled_eq [OF _ _ fills]) auto
    moreover have "filled Sell_yes r = total_fill fs"
      using sides fills by (intro filled_eq [of fs _ fb]) (auto simp: add.commute)
    moreover have "unat (br_matched_quantity r) = unat (cc_matched_quantity best)"
      "0 < unat (cc_matched_quantity best)" "br_traded r" "br_clearing_tick r = cc_tick best"
      "bm_last_traded_tick m' = cc_tick best"
      using cl by (auto simp: cleared_def unsigned_ucast_eq take_bit_nat_eq_self)
    ultimately show ?thesis using os(5,6) matched rank b by (simp add: Let_def)
  qed
qed

theorem market_clears_best_witness:
  "filled Buy_yes demo_result = 5 \<and> filled Sell_yes demo_result = 5 \<and>
   min (demand_of demo_actions 55) (supply_of demo_actions 55) = 5 \<and>
   tick_rank demo_actions 50 55 \<le> tick_rank demo_actions 50 60"
proof -
  have l: "unat (bm_last_traded_tick demo_market) = 50" by code_simp
  have "filled Buy_yes demo_result = 5" by code_simp
  moreover have "unat (br_clearing_tick demo_result) = 55" "br_traded demo_result"
    by (simp_all add: demo_result_def)
  ultimately show ?thesis
    using market_clears_best [OF demo_market_reachable demo_clear] by (simp add: Let_def l)
qed

section \<open>Priority\<close>

lemma sorted_key_before:
  assumes "x \<in> set xs" "y \<in> set xs" "k x < (k y :: 'a :: linorder)"
  shows "\<exists>i j. i < j \<and> j < length xs \<and> sort_key k xs ! i = x \<and> sort_key k xs ! j = y"
proof -
  obtain i j where ij: "i < length xs" "sort_key k xs ! i = x" "j < length xs" "sort_key k xs ! j = y"
    using assms(1,2) by (metis in_set_conv_nth length_sort set_sort)
  have "i < j"
  proof (rule ccontr)
    assume "\<not> i < j"
    then have "map k (sort_key k xs) ! j \<le> map k (sort_key k xs) ! i"
      using ij sorted_nth_mono [OF sorted_sort_key [of k xs], of j i] by simp
    with ij assms(3) show False by simp
  qed
  with ij show ?thesis by blast
qed

lemma side_priority:
  assumes al: "allocate_fills P (sort_key k (map (order_for A) (filter Q actions))) q = (fb, 0)"
    and P: "\<And>o1 x. P (o1\<lparr>od_fill := x\<rparr>) = P o1"
    and s: "s \<in> set actions" "Q s" and t: "t \<in> set actions" "Q t"
    and k: "k (order_for A s) < k (order_for A t)" and elig: "P (order_for A t) \<Longrightarrow> P (order_for A s)"
    and d: "distinct (map aa_agent actions)"
    and o2: "o2 \<in> set fb" "od_agent o2 = aa_agent t" "od_fill o2 \<noteq> 0"
  shows "\<exists>o1 \<in> set fb. od_agent o1 = aa_agent s \<and> od_side o1 = act_kind (aa_action s) \<and>
    od_fill o1 = act_quantity (aa_action s)"
proof -
  let ?B = "map (order_for A) (filter Q actions)" and ?S = "sort_key k (map (order_for A) (filter Q actions))"
  have spec: "list_all2 (filled_from P) ?S fb" using allocate_fills_spec [OF al] by auto
  then have len: "length fb = length ?S" by (auto dest: list_all2_lengthD)
  have at: "filled_from P (?S ! i) (fb ! i)" if "i < length ?S" for i
    using spec that by (simp add: list_all2_conv_all_nth)
  obtain i j where ij: "i < j" "j < length ?B" "?S ! i = order_for A s" "?S ! j = order_for A t"
    using sorted_key_before [of "order_for A s" ?B "order_for A t" k] s t k by auto
  then have len_ij: "i < length ?S" "j < length ?S" by simp_all
  obtain n where n: "n < length fb" "fb ! n = o2" using o2(1) by (auto simp: in_set_conv_nth)
  then obtain t' where t': "t' \<in> set actions" "Q t'" "?S ! n = order_for A t'"
    using len nth_mem [of n ?S] by auto
  have "od_agent (?S ! n) = aa_agent t"
    using at [of n] n len o2(2) by (metis filled_from_def order.select_convs(2) order.surjective order.update_convs(6))
  then have "t' = t" using t' t(1) d distinct_key_unique [of aa_agent actions t' t] by simp
  then have elig_t: "P (order_for A t)" using at [of n] n len o2(3) t'(3) by (simp add: filled_from_def)
  have "n = j"
  proof -
    have "map od_agent ?S = map od_agent fb"
      using list_all2_map_eq [OF spec, of od_agent]
      by (metis filled_from_def order.select_convs(2) order.surjective order.update_convs(6))
    moreover have "mset (map od_agent ?S) = mset (map aa_agent (filter Q actions))"
      by (simp add: image_mset.compositionality o_def)
    then have "distinct (map od_agent ?S)"
      using d distinct_map_filter mset_eq_imp_distinct_iff by blast
    ultimately show ?thesis
      using n len_ij len ij(4) o2(2) nth_eq_iff_index_eq [of "map od_agent ?S" n j]
      by (metis length_map nth_map order_for_simps(1))
  qed
  then have "od_fill (fb ! j) \<noteq> 0" using n o2(3) by simp
  then have "od_fill (fb ! i) = od_quantity (?S ! i)"
    using allocate_fills_priority [OF al _ ij(1) len_ij(2)] ij elig elig_t by auto
  moreover have "od_agent (fb ! i) = od_agent (?S ! i)" "od_side (fb ! i) = od_side (?S ! i)"
    using at [OF len_ij(1)] unfolding filled_from_def
    by (metis order.select_convs order.surjective order.update_convs(6))+
  ultimately show ?thesis
    using len_ij len ij(3) by (intro bexI [of _ "fb ! i"]) (simp_all)
qed

text \<open>Which of two submissions on the same side comes first.\<close>

definition outranks :: "agent_action \<Rightarrow> agent_action \<Rightarrow> bool" where
  "outranks s t \<longleftrightarrow>
     (let p = unat (act_price_tick (aa_action s)); q = unat (act_price_tick (aa_action t))
      in is_buy s \<and> is_buy t \<and> (q < p \<or> p = q \<and> aa_agent s < aa_agent t) \<or>
         is_sell s \<and> is_sell t \<and> (p < q \<or> p = q \<and> aa_agent s < aa_agent t))"

lemma outranks_keys:
  assumes "outranks s t"
  shows "is_buy s \<and> is_buy t \<and> buy_key (order_for A s) < buy_key (order_for A t) \<or>
    is_sell s \<and> is_sell t \<and> sell_key (order_for A s) < sell_key (order_for A t)"
  using assms unfolding outranks_def Let_def buy_key_def sell_key_def less_prod_def
  by (auto simp del: of_nat_unat)

lemma order_side_agent:
  assumes "\<exists>s \<in> set actions. Q s \<and> order_from A tick s o2" "t \<in> set actions"
    "od_agent o2 = aa_agent t" "distinct (map aa_agent actions)"
  shows "Q t"
proof -
  obtain s where s: "s \<in> set actions" "Q s" "order_from A tick s o2" using assms(1) by blast
  then have "s = t"
    using assms(2-4) order_from_side [OF s(3)] distinct_key_unique [of aa_agent actions s t] by simp
  with s show ?thesis by simp
qed

lemma cleared_priority:
  assumes cl: "cleared m actions best fb fs r m'"
    and d: "distinct (map aa_agent actions)" "\<forall>s \<in> set actions. backed (bm_accounts m) s"
    and s: "s \<in> set actions" and t: "t \<in> set actions" and out: "outranks s t"
    and o2: "o2 \<in> set (fb @ fs)" "od_agent o2 = aa_agent t" "od_fill o2 \<noteq> 0"
  shows "\<exists>o1 \<in> set (fb @ fs). od_agent o1 = aa_agent s \<and> od_side o1 = act_kind (aa_action s) \<and>
      od_fill o1 = act_quantity (aa_action s)"
proof -
  note os = cleared_orders [OF cl d]
  note alloc = cl [unfolded cleared_def buy_orders_def sell_orders_def]
  from outranks_keys [OF out, of "bm_accounts m"] show ?thesis
  proof (elim disjE conjE)
    assume b: "is_buy s" "is_buy t" "buy_key (order_for (bm_accounts m) s) < buy_key (order_for (bm_accounts m) t)"
    then have "o2 \<notin> set fs"
      using order_side_agent [OF _ t o2(2) d(1), of is_sell] os(2) b(2)
      unfolding is_buy_def is_sell_def by (metis action_kind.distinct(5))
    then have "o2 \<in> set fb" using o2(1) by simp
    then show ?thesis
      using side_priority [OF alloc [THEN conjunct2, THEN conjunct2, THEN conjunct1] _
          s b(1) t b(2,3) _ d(1) _ o2(2,3)] out b(1)
      by (auto simp: outranks_def Let_def word_le_nat_alt is_buy_def is_sell_def)
  next
    assume b: "is_sell s" "is_sell t" "sell_key (order_for (bm_accounts m) s) < sell_key (order_for (bm_accounts m) t)"
    then have "o2 \<notin> set fb"
      using order_side_agent [OF _ t o2(2) d(1), of is_buy] os(1) b(2)
      unfolding is_buy_def is_sell_def by (metis action_kind.distinct(5))
    then have "o2 \<in> set fs" using o2(1) by simp
    then show ?thesis
      using side_priority [OF alloc [THEN conjunct2, THEN conjunct2, THEN conjunct2, THEN conjunct1] _
          s b(1) t b(2,3) _ d(1) _ o2(2,3)] out b(1)
      by (auto simp: outranks_def Let_def word_le_nat_alt is_buy_def is_sell_def)
  qed
qed

text \<open>
  (C20) Price and agent priority: if a buyer gets a share, every buyer with a higher limit,
  or the same limit and a smaller id, is filled completely; likewise for sellers with a
  lower limit.
\<close>

theorem market_priority:
  assumes "market_clear mem actions m = (Inr r, m')"
    and "s \<in> set actions" and "t \<in> set actions" and "action_valid (aa_action s)"
    and "outranks s t" and "aa_agent t \<in> fl_agent ` set (br_fills r)"
  shows "\<lparr>fl_agent = aa_agent s, fl_side = act_kind (aa_action s),
      fl_quantity = act_quantity (aa_action s)\<rparr> \<in> set (br_fills r)"
proof -
  note c = market_clear_Inr [OF assms(1)]
  then have d: "distinct (map aa_agent actions)" "\<forall>s \<in> set actions. backed (bm_accounts m) s"
    by blast+
  from c assms(6) obtain best fb fs where cl: "cleared m actions best fb fs r m'"
    by (auto simp: no_trade_def)
  have fills: "set (br_fills r) = fill_of ` {o1 \<in> set (fb @ fs). od_fill o1 \<noteq> 0}"
    using cl by (auto simp: cleared_def fills_of_def)
  then have "\<exists>o2 \<in> set (fb @ fs). od_agent o2 = aa_agent t \<and> od_fill o2 \<noteq> 0"
    using assms(6) by (force simp: fill_of_def)
  with cleared_priority [OF cl d assms(2,3,5)] obtain o1 where
    o1: "o1 \<in> set (fb @ fs)" "od_agent o1 = aa_agent s" "od_side o1 = act_kind (aa_action s)"
      "od_fill o1 = act_quantity (aa_action s)" by blast
  moreover have "act_quantity (aa_action s) \<noteq> 0"
    using assms(4,5) by (auto simp: action_valid_def outranks_def Let_def is_buy_def is_sell_def)
  ultimately have "fill_of o1 \<in> set (br_fills r)" unfolding fills by (intro imageI) simp
  with o1 show ?thesis by (simp add: fill_of_def)
qed

theorem market_priority_witness:
  "\<lparr>fl_agent = 2, fl_side = Sell_yes, fl_quantity = 3\<rparr> \<in> set (br_fills demo_result)"
proof -
  let ?s = "\<lparr>aa_agent = 2, aa_action = \<lparr>act_kind = Sell_yes, act_quantity = 3, act_price_tick = 40\<rparr>\<rparr>"
  let ?t = "\<lparr>aa_agent = 3, aa_action = \<lparr>act_kind = Sell_yes, act_quantity = 4, act_price_tick = 55\<rparr>\<rparr>"
  have "?s \<in> set demo_actions" "?t \<in> set demo_actions" "action_valid (aa_action ?s)" "outranks ?s ?t"
    by code_simp+
  moreover have "aa_agent ?t \<in> fl_agent ` set (br_fills demo_result)" by (simp add: demo_result_def)
  ultimately show ?thesis using market_priority [OF demo_clear, of ?s ?t] by simp
qed

section \<open>Errors\<close>

lemma collect_orders_complete:
  "collect_orders accounts rest mem submitted buys sells = Inl e \<Longrightarrow>
     distinct (map aa_agent rest) \<Longrightarrow> aa_agent ` set rest \<inter> submitted = {} \<Longrightarrow>
     \<forall>s \<in> set rest. backed accounts s \<Longrightarrow> e = status_failure Allocation_failed"
proof (induction accounts rest mem submitted buys sells rule: collect_orders.induct)
  case (2 accounts submission rest mem submitted buys sells)
  have new: "aa_agent submission \<notin> submitted" using "2.prems"(3) by simp
  show ?case
  proof (cases "use_alloc mem")
    case None
    with "2.prems"(1) new show ?thesis by simp
  next
    case (Some mem1)
    note IH = "2.IH" [OF new Some refl refl]
    have b: "backed accounts submission" using "2.prems"(4) by simp
    consider "act_kind (aa_action submission) = Hold" | "act_kind (aa_action submission) = Buy_yes"
      | "act_kind (aa_action submission) = Sell_yes" by (cases "act_kind (aa_action submission)")
    then show ?thesis
      using "2.prems" new Some IH b
      by cases (auto simp: Let_def backed_def is_buy_def is_sell_def not_less order_for_def
          word_less_nat_alt split: if_splits)
  qed
qed simp

lemma settle_errors:
  assumes "settle mem (sort_key buy_key buys) (sort_key sell_key sells) best m = (Inl e, m')"
    "unat (cc_matched_quantity best) = min (demand_at buys (unat (cc_tick best))) (supply_at sells (unat (cc_tick best)))"
    "\<forall>o1 \<in> set buys \<union> set sells. od_fill o1 = 0"
  shows "e = status_failure Allocation_failed \<or> e = status_failure Arithmetic_overflow"
proof -
  let ?q = "cc_matched_quantity best"
  have le: "(\<lambda>o1. od_limit o1 \<ge> cc_tick best) = (\<lambda>o1. unat (cc_tick best) \<le> unat (od_limit o1))"
    "(\<lambda>o1. od_limit o1 \<le> cc_tick best) = (\<lambda>o1. unat (od_limit o1) \<le> unat (cc_tick best))"
    by (simp_all add: fun_eq_iff word_le_nat_alt)
  have "r = 0" if "allocate_fills (\<lambda>o1. od_limit o1 \<ge> cc_tick best) (sort_key buy_key buys) ?q = (os, r)" for os r
    using allocate_fills_spec [OF that] assms(2,3) volume_mset [of "sort_key buy_key buys" buys]
    by (simp add: le demand_at_def unat_eq_zero)
  moreover have "r = 0" if "allocate_fills (\<lambda>o1. od_limit o1 \<le> cc_tick best) (sort_key sell_key sells) ?q = (os, r)" for os r
    using allocate_fills_spec [OF that] assms(2,3) volume_mset [of "sort_key sell_key sells" sells]
    by (simp add: le supply_at_def unat_eq_zero)
  ultimately show ?thesis
    using assms(1) unfolding settle_def Let_def
    by (auto split: prod.splits option.splits if_splits)
qed

text \<open>
  A failed call has changed nothing and says why: \<open>invalid_argument\<close> and
  \<open>insufficient_resources\<close> come only from submissions that repeat an agent, name no account
  or lack the means, an overflow or a failed allocation only from the market itself, and
  \<open>invalid_format\<close>, the code for an allocation that did not add up, never.
\<close>

theorem market_errors:
  assumes "market_clear mem actions m = (Inl e, m')"
  shows "m' = m \<and>
    (status_code e = Allocation_failed \<or> status_code e = Arithmetic_overflow \<or>
     (status_code e = Invalid_argument \<or> status_code e = Insufficient_resources) \<and>
       \<not> (distinct (map aa_agent actions) \<and> list_all (backed (bm_accounts m)) actions))"
proof (intro conjI)
  show "m' = m" using market_clear_failure [OF assms] .
  let ?A = "bm_accounts m"
  consider "e = status_failure Allocation_failed" | "e = status_failure Arithmetic_overflow"
    | mem1 where "collect_orders ?A actions mem1 {} [] [] = Inl e"
    | mem1 mem2 buys sells best where "collect_orders ?A actions mem1 {} [] [] = Inr (mem2, buys, sells)"
      "scan_ticks buys sells (bm_last_traded_tick m) [1 ..< 100] no_candidate = Some best"
      "settle mem2 (sort_key buy_key buys) (sort_key sell_key sells) best m = (Inl e, m')"
    using assms unfolding market_clear_def
    by (auto split: option.splits sum.splits if_splits)
  then show "status_code e = Allocation_failed \<or> status_code e = Arithmetic_overflow \<or>
     (status_code e = Invalid_argument \<or> status_code e = Insufficient_resources) \<and>
       \<not> (distinct (map aa_agent actions) \<and> list_all (backed ?A) actions)"
  proof cases
    case 3
    then show ?thesis
      using collect_never_format [OF 3] collect_orders_complete [OF 3] unfolding list_all_iff
      by (elim insertE emptyE) (simp_all, blast+)
  next
    case 4
    note col = collect_orders_Inr [OF 4(1)]
    note b = best_tick_range [OF 4(2)]
    then have q: "unat (cc_matched_quantity best) =
        min (demand_at buys (unat (cc_tick best))) (supply_at sells (unat (cc_tick best)))"
      by (intro candidate_at_Some(1)) auto
    have "\<forall>o1 \<in> set buys \<union> set sells. od_fill o1 = 0" using col by auto
    from settle_errors [OF 4(3) q this] show ?thesis by auto
  qed simp_all
qed

theorem market_errors_witness:
  "fst (market_clear 9 (demo_actions @ demo_actions) demo_market) = fail Invalid_argument \<and>
   snd (market_clear 9 (demo_actions @ demo_actions) demo_market) = demo_market"
proof -
  have f: "fst (market_clear 9 (demo_actions @ demo_actions) demo_market) = fail Invalid_argument"
    by code_simp
  then have "market_clear 9 (demo_actions @ demo_actions) demo_market =
      (fail Invalid_argument, snd (market_clear 9 (demo_actions @ demo_actions) demo_market))"
    by (metis prod.collapse)
  from market_errors [OF this] f show ?thesis by blast
qed

end
