(* ===== verification/Grammar.thy ===== *)
theory Grammar
  imports Action
begin

text \<open>
  \<open>grammar/token_dfa.cpp\<close>: deterministic token automata for finite languages. \<open>build\<close>
  inserts the words into a trie and flattens it into a table of states and a table of arcs,
  the queries read the tables. The functions are written over a type of labels, of which
  the code needs only equality, so that what is proved of them also serves the automaton of
  actions (\<open>ActionDfa\<close>). A \<open>std::map\<close> from tokens to nodes is an association list sorted by
  token.
\<close>

section \<open>Data\<close>

type_synonym token_id = u32
type_synonym grammar_state = u32
type_synonym choice_id = u32

abbreviation no_terminal :: u32 where "no_terminal \<equiv> u32_max"

record grammar_arc =
  ga_token :: token_id
  ga_next :: grammar_state

record trie_node =
  tn_children :: "(token_id \<times> u32) list"
  tn_terminal :: u32

record state_record =
  sr_first_arc :: u32
  sr_arc_count :: u32
  sr_terminal :: u32

record dfa_config =
  dc_vocabulary_size :: u32
  dc_maximum_sequence_tokens :: u32
  dc_maximum_labels :: u32
  dc_maximum_states :: u32
  dc_maximum_arcs :: u32

record 'l dfa =
  df_states :: "state_record list"
  df_arcs :: "grammar_arc list"
  df_labels :: "'l list"

definition empty_node :: trie_node where
  "empty_node = \<lparr>tn_children = [], tn_terminal = no_terminal\<rparr>"

section \<open>build\<close>

text \<open>\<open>std::map::emplace\<close> of a token that is not a key yet.\<close>

fun emplace_child :: "token_id \<Rightarrow> u32 \<Rightarrow> (token_id \<times> u32) list \<Rightarrow> (token_id \<times> u32) list" where
  "emplace_child t n [] = [(t, n)]"
| "emplace_child t n (c # cs) = (if t < fst c then (t, n) # c # cs else c # emplace_child t n cs)"

text \<open>The state of the insertion loop: memory, trie, number of arcs.\<close>

type_synonym builder = "nat \<times> trie_node list \<times> u32"

definition insert_token ::
  "dfa_config \<Rightarrow> token_id \<Rightarrow> u32 \<Rightarrow> builder \<Rightarrow> (u32 \<times> builder) result" where
  "insert_token config token state = (\<lambda>(mem, trie, arc_count).
     let node = trie ! unat state in
       if token \<ge> dc_vocabulary_size config \<or> tn_terminal node \<noteq> no_terminal
       then fail Invalid_argument
       else
         (case map_of (tn_children node) token of
            Some next_state \<Rightarrow> Inr (next_state, mem, trie, arc_count)
          | None \<Rightarrow>
              if length trie \<ge> unat (dc_maximum_states config) \<or>
                 arc_count \<ge> dc_maximum_arcs config
              then fail Resource_limit
              else
                (case Option.bind (use_alloc mem) use_alloc of
                   None \<Rightarrow> fail Allocation_failed
                 | Some mem' \<Rightarrow>
                     let next_state = of_nat (length trie);
                         grown = trie @ [empty_node];
                         linked = grown[unat state :=
                           node\<lparr>tn_children := emplace_child token next_state (tn_children node)\<rparr>]
                     in Inr (next_state, mem', linked, arc_count + 1))))"

fun insert_tokens ::
  "dfa_config \<Rightarrow> token_id list \<Rightarrow> u32 \<Rightarrow> builder \<Rightarrow> (u32 \<times> builder) result" where
  "insert_tokens config [] state b = Inr (state, b)"
| "insert_tokens config (token # tokens) state b =
     (case insert_token config token state b of
        Inl e \<Rightarrow> Inl e
      | Inr (state', b') \<Rightarrow> insert_tokens config tokens state' b')"

text \<open>
  The loop over the language: \<open>usable\<close> is the test of a label, \<open>labels\<close> are the labels so
  far, in order; \<open>std::set\<close> insertion of a new label is an allocation.
\<close>

fun insert_language ::
  "('l \<Rightarrow> bool) \<Rightarrow> dfa_config \<Rightarrow> ('l \<times> token_id list) list \<Rightarrow> 'l list \<Rightarrow> builder \<Rightarrow>
     ('l list \<times> builder) result" where
  "insert_language usable config [] labels b = Inr (labels, b)"
| "insert_language usable config ((label, tokens) # rest) labels b =
     (if \<not> usable label \<or> tokens = [] \<or>
         length tokens > unat (dc_maximum_sequence_tokens config) \<or> label \<in> set labels
      then fail Invalid_argument
      else
        (case use_alloc (fst b) of
           None \<Rightarrow> fail Allocation_failed
         | Some mem \<Rightarrow>
             (case insert_tokens config tokens 0 (mem, snd b) of
                Inl e \<Rightarrow> Inl e
              | Inr (state, mem', trie, arc_count) \<Rightarrow>
                  let node = trie ! unat state in
                    if tn_terminal node \<noteq> no_terminal \<or> tn_children node \<noteq> []
                    then fail Invalid_argument
                    else insert_language usable config rest (labels @ [label])
                      (mem', trie[unat state := node\<lparr>tn_terminal := of_nat (length labels)\<rparr>],
                       arc_count))))"

definition node_arcs :: "trie_node \<Rightarrow> grammar_arc list" where
  "node_arcs node = map (\<lambda>(token, n). \<lparr>ga_token = token, ga_next = n\<rparr>) (tn_children node)"

fun flatten_trie ::
  "trie_node list \<Rightarrow> state_record list \<times> grammar_arc list \<Rightarrow>
     state_record list \<times> grammar_arc list" where
  "flatten_trie [] tables = tables"
| "flatten_trie (node # nodes) (states, arcs) =
     flatten_trie nodes
       (states @ [\<lparr>sr_first_arc = of_nat (length arcs),
                   sr_arc_count = of_nat (length (tn_children node)),
                   sr_terminal = tn_terminal node\<rparr>],
        arcs @ node_arcs node)"

definition build_dfa ::
  "('l \<Rightarrow> bool) \<Rightarrow> nat \<Rightarrow> ('l \<times> token_id list) list \<Rightarrow> dfa_config \<Rightarrow> 'l dfa result" where
  "build_dfa usable mem language config =
     (if language = [] \<or> dc_vocabulary_size config = 0 \<or>
         dc_maximum_sequence_tokens config = 0 \<or> dc_maximum_labels config = 0 \<or>
         dc_maximum_states config = 0 \<or> dc_maximum_arcs config = 0
      then fail Invalid_argument
      else if length language > unat (dc_maximum_labels config) then fail Resource_limit
      else
        (case Option.bind (use_alloc mem) use_alloc of
           None \<Rightarrow> fail Allocation_failed
         | Some mem1 \<Rightarrow>
             (case insert_language usable config language [] (mem1, [empty_node], 0) of
                Inl e \<Rightarrow> Inl e
              | Inr (labels, mem2, trie, arc_count) \<Rightarrow>
                  (case Option.bind (use_alloc mem2) (use_reserve (unat arc_count)) of
                     None \<Rightarrow> fail Allocation_failed
                   | Some _ \<Rightarrow>
                       let (states, arcs) = flatten_trie trie ([], [])
                       in if length arcs \<noteq> unat arc_count \<or> length labels \<noteq> length language
                          then fail Invalid_format
                          else Inr \<lparr>df_states = states, df_arcs = arcs, df_labels = labels\<rparr>))))"

section \<open>Queries\<close>

definition valid_state :: "'l dfa \<Rightarrow> grammar_state \<Rightarrow> bool" where
  "valid_state d s \<longleftrightarrow> unat s < length (df_states d)"

definition dfa_allowed :: "'l dfa \<Rightarrow> grammar_state \<Rightarrow> grammar_arc list result" where
  "dfa_allowed d s =
     (if \<not> valid_state d s then fail Invalid_argument
      else let r = df_states d ! unat s
           in Inr (take (unat (sr_arc_count r)) (drop (unat (sr_first_arc r)) (df_arcs d))))"

definition dfa_advance :: "'l dfa \<Rightarrow> grammar_state \<Rightarrow> token_id \<Rightarrow> grammar_state result" where
  "dfa_advance d s token =
     (case dfa_allowed d s of
        Inl e \<Rightarrow> Inl e
      | Inr arcs \<Rightarrow>
          (case dropWhile (\<lambda>a. ga_token a < token) arcs of
             [] \<Rightarrow> fail Invalid_argument
           | a # _ \<Rightarrow> if ga_token a \<noteq> token then fail Invalid_argument else Inr (ga_next a)))"

definition dfa_terminal :: "'l dfa \<Rightarrow> grammar_state \<Rightarrow> bool" where
  "dfa_terminal d s \<longleftrightarrow> valid_state d s \<and> sr_terminal (df_states d ! unat s) \<noteq> no_terminal"

definition dfa_decode_terminal :: "'l dfa \<Rightarrow> grammar_state \<Rightarrow> 'l result" where
  "dfa_decode_terminal d s =
     (if \<not> valid_state d s then fail Invalid_argument
      else
        let index = sr_terminal (df_states d ! unat s)
        in if index = no_terminal \<or> unat index \<ge> length (df_labels d) then fail Invalid_argument
           else Inr (df_labels d ! unat index))"

section \<open>The class\<close>

text \<open>\<open>TokenDfa\<close>: labels are choice ids, of which the largest number is reserved.\<close>

record encoded_choice =
  ec_id :: choice_id
  ec_tokens :: "token_id list"

definition token_build :: "nat \<Rightarrow> encoded_choice list \<Rightarrow> dfa_config \<Rightarrow> choice_id dfa result" where
  "token_build mem language config =
     build_dfa (\<lambda>i. i \<noteq> no_terminal) mem (map (\<lambda>e. (ec_id e, ec_tokens e)) language) config"

definition token_allowed :: "choice_id dfa \<Rightarrow> grammar_state \<Rightarrow> grammar_arc list result" where
  "token_allowed = dfa_allowed"

definition token_advance :: "choice_id dfa \<Rightarrow> grammar_state \<Rightarrow> token_id \<Rightarrow> grammar_state result" where
  "token_advance = dfa_advance"

definition token_terminal :: "choice_id dfa \<Rightarrow> grammar_state \<Rightarrow> bool" where
  "token_terminal = dfa_terminal"

definition token_decode_terminal :: "choice_id dfa \<Rightarrow> grammar_state \<Rightarrow> choice_id result" where
  "token_decode_terminal = dfa_decode_terminal"

end
