(* ===== verification/ActionDfa.thy ===== *)
theory ActionDfa
  imports Grammar
begin

text \<open>
  \<open>grammar/action_dfa.cpp\<close>: the token automaton whose choices are actions. It is a second
  implementation beside \<open>TokenDfa\<close>, with its own loops, checks and queries; only the types of
  the header are shared (a state record, a node of the trie and the limits have the same
  fields in both files, with \<open>terminal_action\<close> and \<open>maximum_actions\<close> for \<open>terminal_choice\<close> and
  \<open>maximum_choices\<close>). \<open>GrammarProps\<close> shows that the two agree.
\<close>

record encoded_action =
  ea_action :: action
  ea_tokens :: "token_id list"

definition action_key :: "action \<Rightarrow> action_kind \<times> u8 \<times> u8" where
  "action_key a = (act_kind a, act_quantity a, act_price_tick a)"

section \<open>build\<close>

text \<open>The body of the loop over the tokens of an action.\<close>

definition action_insert_token ::
  "dfa_config \<Rightarrow> token_id \<Rightarrow> u32 \<Rightarrow> builder \<Rightarrow> (u32 \<times> builder) result" where
  "action_insert_token config token state = (\<lambda>(mem, trie, arc_count).
     if token \<ge> dc_vocabulary_size config then fail Invalid_argument
     else if tn_terminal (trie ! unat state) \<noteq> u32_max then fail Invalid_argument
     else
       (case map_of (tn_children (trie ! unat state)) token of
          Some child \<Rightarrow> Inr (child, mem, trie, arc_count)
        | None \<Rightarrow>
            if length trie \<ge> unat (dc_maximum_states config) \<or> arc_count \<ge> dc_maximum_arcs config
            then fail Resource_limit
            else
              let next_state = of_nat (length trie)
              in (case use_alloc mem of
                    None \<Rightarrow> fail Allocation_failed
                  | Some mem1 \<Rightarrow>
                      let grown = trie @ [empty_node]
                      in (case use_alloc mem1 of
                            None \<Rightarrow> fail Allocation_failed
                          | Some mem2 \<Rightarrow>
                              let node = grown ! unat state
                              in Inr (next_state, mem2,
                                   grown[unat state := node\<lparr>tn_children :=
                                     emplace_child token next_state (tn_children node)\<rparr>],
                                   arc_count + 1)))))"

fun action_insert_tokens ::
  "dfa_config \<Rightarrow> token_id list \<Rightarrow> u32 \<Rightarrow> builder \<Rightarrow> (u32 \<times> builder) result" where
  "action_insert_tokens config [] state b = Inr (state, b)"
| "action_insert_tokens config (token # tokens) state b =
     (case action_insert_token config token state b of
        Inl e \<Rightarrow> Inl e
      | Inr (state', b') \<Rightarrow> action_insert_tokens config tokens state' b')"

text \<open>The loop over the language, with the keys and the actions so far.\<close>

fun action_insert_language ::
  "dfa_config \<Rightarrow> encoded_action list \<Rightarrow> (action_kind \<times> u8 \<times> u8) list \<Rightarrow> action list \<Rightarrow> builder \<Rightarrow>
     (action list \<times> builder) result" where
  "action_insert_language config [] keys actions b = Inr (actions, b)"
| "action_insert_language config (encoded # language) keys actions (mem, trie, arc_count) =
     (if ea_tokens encoded = [] \<or>
         length (ea_tokens encoded) > unat (dc_maximum_sequence_tokens config)
      then fail Invalid_argument
      else if action_key (ea_action encoded) \<in> set keys then fail Invalid_argument
      else
        (case use_alloc mem of
           None \<Rightarrow> fail Allocation_failed
         | Some mem1 \<Rightarrow>
             (case action_insert_tokens config (ea_tokens encoded) 0 (mem1, trie, arc_count) of
                Inl e \<Rightarrow> Inl e
              | Inr (state, mem2, trie2, arc_count2) \<Rightarrow>
                  let node = trie2 ! unat state in
                    if tn_terminal node \<noteq> u32_max \<or> tn_children node \<noteq> []
                    then fail Invalid_argument
                    else action_insert_language config language
                      (keys @ [action_key (ea_action encoded)]) (actions @ [ea_action encoded])
                      (mem2, trie2[unat state := node\<lparr>tn_terminal := of_nat (length actions)\<rparr>],
                       arc_count2))))"

text \<open>The loop that writes the tables.\<close>

fun action_tables ::
  "trie_node list \<Rightarrow> state_record list \<Rightarrow> grammar_arc list \<Rightarrow>
     state_record list \<times> grammar_arc list" where
  "action_tables [] states arcs = (states, arcs)"
| "action_tables (node # nodes) states arcs =
     action_tables nodes
       (states @ [\<lparr>sr_first_arc = of_nat (length arcs),
                   sr_arc_count = of_nat (length (tn_children node)),
                   sr_terminal = tn_terminal node\<rparr>])
       (fold (\<lambda>(token, n) arcs. arcs @ [\<lparr>ga_token = token, ga_next = n\<rparr>]) (tn_children node) arcs)"

definition action_build :: "nat \<Rightarrow> encoded_action list \<Rightarrow> dfa_config \<Rightarrow> action dfa result" where
  "action_build mem language config =
     (if language = [] \<or> dc_vocabulary_size config = 0 \<or>
         dc_maximum_sequence_tokens config = 0 \<or> dc_maximum_labels config = 0 \<or>
         dc_maximum_states config = 0 \<or> dc_maximum_arcs config = 0
      then fail Invalid_argument
      else if length language > unat (dc_maximum_labels config) then fail Resource_limit
      else
        (case Option.bind (use_alloc mem) use_alloc of
           None \<Rightarrow> fail Allocation_failed
         | Some mem1 \<Rightarrow>
             (case action_insert_language config language [] [] (mem1, [empty_node], 0) of
                Inl e \<Rightarrow> Inl e
              | Inr (actions, mem2, trie, arc_count) \<Rightarrow>
                  (case Option.bind (use_alloc mem2) (use_reserve (unat arc_count)) of
                     None \<Rightarrow> fail Allocation_failed
                   | Some _ \<Rightarrow>
                       let (states, arcs) = action_tables trie [] []
                       in if length arcs \<noteq> unat arc_count \<or> length actions \<noteq> length language
                          then fail Invalid_format
                          else Inr \<lparr>df_states = states, df_arcs = arcs, df_labels = actions\<rparr>))))"

section \<open>Queries\<close>

definition action_valid_state :: "action dfa \<Rightarrow> grammar_state \<Rightarrow> bool" where
  "action_valid_state d s \<longleftrightarrow> unat s < length (df_states d)"

definition action_allowed :: "action dfa \<Rightarrow> grammar_state \<Rightarrow> grammar_arc list result" where
  "action_allowed d s =
     (if \<not> action_valid_state d s then fail Invalid_argument
      else
        let r = df_states d ! unat s
        in Inr (take (unat (sr_arc_count r)) (drop (unat (sr_first_arc r)) (df_arcs d))))"

definition action_advance :: "action dfa \<Rightarrow> grammar_state \<Rightarrow> token_id \<Rightarrow> grammar_state result" where
  "action_advance d s token =
     (case action_allowed d s of
        Inl e \<Rightarrow> Inl e
      | Inr arcs \<Rightarrow>
          (case dropWhile (\<lambda>arc. ga_token arc < token) arcs of
             [] \<Rightarrow> fail Invalid_argument
           | arc # _ \<Rightarrow>
               if ga_token arc \<noteq> token then fail Invalid_argument else Inr (ga_next arc)))"

definition action_terminal :: "action dfa \<Rightarrow> grammar_state \<Rightarrow> bool" where
  "action_terminal d s \<longleftrightarrow>
     action_valid_state d s \<and> sr_terminal (df_states d ! unat s) \<noteq> no_terminal"

definition action_decode_terminal :: "action dfa \<Rightarrow> grammar_state \<Rightarrow> action result" where
  "action_decode_terminal d s =
     (if \<not> action_valid_state d s then fail Invalid_argument
      else
        let index = sr_terminal (df_states d ! unat s)
        in if index = no_terminal \<or> unat index \<ge> length (df_labels d) then fail Invalid_argument
           else Inr (df_labels d ! unat index))"

end
