(* ===== verification/GrammarProps.thy ===== *)
theory GrammarProps
  imports ActionDfa "HOL-Library.Sublist"
begin

text \<open>
  A built automaton accepts exactly the words of its language, each leading to its own
  label. The proof follows the trie while it is built: node \<open>s\<close> stands for the word
  \<open>ws ! s\<close> that leads to it.
\<close>

section \<open>The trie and its words\<close>

definition represents :: "trie_node list \<Rightarrow> token_id list list \<Rightarrow> bool" where
  "represents trie ws \<longleftrightarrow>
     length ws = length trie \<and> length trie < 2 ^ 32 \<and> ws \<noteq> [] \<and> hd ws = [] \<and> distinct ws \<and>
     (\<forall>u x. u @ [x] \<in> set ws \<longrightarrow> u \<in> set ws) \<and>
     (\<forall>s < length trie. sorted_wrt (<) (map fst (tn_children (trie ! s))) \<and>
        (\<forall>t n. map_of (tn_children (trie ! s)) t = Some n \<longleftrightarrow>
           unat n < length ws \<and> ws ! unat n = ws ! s @ [t]))"

text \<open>The terminal mark of a word: its position in the language so far.\<close>

definition index_of :: "'a list \<Rightarrow> 'a \<Rightarrow> nat" where
  "index_of xs x = length (takeWhile (\<lambda>y. y \<noteq> x) xs)"

definition mark_of :: "token_id list list \<Rightarrow> token_id list \<Rightarrow> u32" where
  "mark_of W u = (if u \<in> set W then of_nat (index_of W u) else no_terminal)"

lemma index_of_less: "x \<in> set xs \<Longrightarrow> index_of xs x < length xs \<and> xs ! index_of xs x = x"
  unfolding index_of_def
  by (induction xs) auto

lemma index_of_nth: "distinct xs \<Longrightarrow> i < length xs \<Longrightarrow> index_of xs (xs ! i) = i"
  using index_of_less [of "xs ! i" xs] nth_eq_iff_index_eq [of xs] by auto

lemma index_of_append: "index_of (xs @ [y]) x =
    (if x \<in> set xs then index_of xs x else if x = y then length xs else Suc (length xs))"
  unfolding index_of_def by (induction xs) auto

lemma mark_of_member: "u \<in> set W \<Longrightarrow> length W < 2 ^ 32 \<Longrightarrow> unat (mark_of W u) = index_of W u"
  using index_of_less [of u W] by (simp add: mark_of_def unat_u32_of_nat)

lemma mark_of_none:
  assumes "length W < 2 ^ 32" shows "mark_of W u = no_terminal \<longleftrightarrow> u \<notin> set W"
proof (cases "u \<in> set W")
  case True
  then have "unat (mark_of W u) < 2 ^ 32 - 1"
    using mark_of_member [OF True assms] index_of_less [OF True] assms by simp
  then have "mark_of W u \<noteq> no_terminal" by (metis less_irrefl unat_u32_max)
  with True show ?thesis by simp
qed (simp add: mark_of_def)

lemma mark_of_append:
  "w \<notin> set W \<Longrightarrow> mark_of (W @ [w]) u = (if u = w then of_nat (length W) else mark_of W u)"
  by (auto simp: mark_of_def index_of_append)

lemma emplace_child_keys: "set (emplace_child t n cs) = insert (t, n) (set cs)"
  by (induction cs) auto

lemma length_emplace_child [simp]: "length (emplace_child t n cs) = Suc (length cs)"
  by (induction cs) auto

lemma emplace_child_sorted:
  "sorted_wrt (<) (map fst cs) \<Longrightarrow> t \<notin> fst ` set cs \<Longrightarrow>
     sorted_wrt (<) (map fst (emplace_child t n cs))"
proof (induction cs)
  case (Cons c cs)
  have "fst c \<noteq> t" using Cons.prems(2) by auto
  with Cons show ?case
    by (auto simp: emplace_child_keys neq_iff dest: less_trans)
qed simp

lemma emplace_child_map:
  "t \<notin> fst ` set cs \<Longrightarrow> map_of (emplace_child t n cs) x = (if x = t then Some n else map_of cs x)"
  by (induction cs) (auto simp: image_iff)

lemma child_new_word:
  assumes "represents trie ws" "s < length trie" "map_of (tn_children (trie ! s)) t = None"
  shows "ws ! s @ [t] \<notin> set ws"
proof
  assume "ws ! s @ [t] \<in> set ws"
  then obtain k where k: "k < length ws" "ws ! k = ws ! s @ [t]" by (metis in_set_conv_nth)
  then have "unat (of_nat k :: u32) = k"
    using assms(1) by (intro unat_u32_of_nat) (simp add: represents_def)
  with k have "map_of (tn_children (trie ! s)) t = Some (of_nat k)"
    using assms(1,2) by (simp add: represents_def)
  with assms(3) show False by simp
qed

lemma represents_grow:
  assumes rep: "represents trie ws" and s: "s < length trie"
    and new: "map_of (tn_children (trie ! s)) t = None" and room: "Suc (length trie) < 2 ^ 32"
  shows "represents ((trie @ [empty_node])[s := (trie ! s)\<lparr>tn_children :=
      emplace_child t (of_nat (length trie)) (tn_children (trie ! s))\<rparr>]) (ws @ [ws ! s @ [t]])"
    (is "represents ?trie ?ws")
proof -
  have len: "length ws = length trie" using rep by (simp add: represents_def)
  note fresh = child_new_word [OF rep s new]
  have un: "unat (of_nat (length trie) :: u32) = length trie"
    using room by (intro unat_u32_of_nat) simp
  have last_node: "n = of_nat (length trie) \<longleftrightarrow> unat n = length trie" for n :: u32
    using un by (metis unat_inject)
  have key: "t \<notin> fst ` set (tn_children (trie ! s))" using new by (simp add: map_of_eq_None_iff)
  have ws: "ws \<noteq> []" "hd ws = []" "distinct ws" "\<And>u x. u @ [x] \<in> set ws \<Longrightarrow> u \<in> set ws"
    using rep by (auto simp: represents_def)
  have node: "sorted_wrt (<) (map fst (tn_children (trie ! k)))"
    "map_of (tn_children (trie ! k)) x = Some n \<longleftrightarrow> unat n < length ws \<and> ws ! unat n = ws ! k @ [x]"
    if "k < length trie" for k x n
    using rep that by (simp_all add: represents_def)
  have next_word: "?ws ! unat n = w \<and> unat n < length ?ws \<longleftrightarrow>
      (n = of_nat (length trie) \<and> w = ws ! s @ [t]) \<or> (unat n < length ws \<and> ws ! unat n = w)" for n :: u32 and w
    unfolding last_node using len by (auto simp: nth_append less_Suc_eq)
  have "sorted_wrt (<) (map fst (tn_children (?trie ! k))) \<and>
      (map_of (tn_children (?trie ! k)) x = Some n \<longleftrightarrow>
         unat n < length ?ws \<and> ?ws ! unat n = ?ws ! k @ [x])" if k: "k < length ?trie" for k x n
  proof -
    consider "k = s" | "k < length trie" "k \<noteq> s" | "k = length trie" using k by fastforce
    then show ?thesis
    proof cases
      case 1
      have "map_of (tn_children (trie ! s)) t \<noteq> Some n" using new by simp
      then show ?thesis
        using 1 s len node(1) [OF s] node(2) [OF s, of x n] next_word [of n "ws ! s @ [x]"] fresh
          emplace_child_sorted [OF _ key] emplace_child_map [OF key]
        by (auto simp: nth_append)
    next
      case 2
      have "ws ! k \<noteq> ws ! s" using 2 s len ws(3) by (simp add: nth_eq_iff_index_eq)
      then show ?thesis
        using 2 s len node [OF 2(1)] next_word [of n "ws ! k @ [x]"] by (auto simp: nth_append)
    next
      case 3
      have "(ws ! s @ [t]) @ [x] \<notin> set ws" using ws(4) fresh by blast
      then have "\<not> (unat n < length ws \<and> ws ! unat n = (ws ! s @ [t]) @ [x])" by (metis nth_mem)
      then show ?thesis
        using 3 s len next_word [of n "(ws ! s @ [t]) @ [x]"] by (auto simp: nth_append empty_node_def)
    qed
  qed
  then show ?thesis
    using len ws fresh room s unfolding represents_def by (auto simp: hd_append)
qed

section \<open>Inserting a word\<close>

text \<open>
  The facts kept while a word is inserted: \<open>W\<close> are the complete words so far, the trie
  holds the words \<open>ws\<close>, complete ones are marked with their position.
\<close>

definition inserting :: "token_id list list \<Rightarrow> trie_node list \<Rightarrow> u32 \<Rightarrow> token_id list list \<Rightarrow> bool" where
  "inserting W trie arc_count ws \<longleftrightarrow>
     represents trie ws \<and> unat arc_count + 1 = length ws \<and>
     (\<Sum>node\<leftarrow>trie. length (tn_children node)) = unat arc_count \<and>
     map tn_terminal trie = map (mark_of W) ws \<and> set W \<subseteq> set ws"

lemma insert_token_Inr:
  assumes inv: "inserting W trie ac ws" and W: "length W < 2 ^ 32"
    and s: "unat state < length trie"
    and ok: "insert_token config token state (mem, trie, ac) = Inr (n, mem', trie', ac')"
  shows "\<exists>ws'. inserting W trie' ac' ws' \<and> prefix ws ws' \<and>
    set ws' = insert (ws ! unat state @ [token]) (set ws) \<and>
    unat n < length ws' \<and> ws' ! unat n = ws ! unat state @ [token] \<and>
    ws ! unat state \<notin> set W \<and> token < dc_vocabulary_size config \<and>
    length ws' \<le> max (length ws) (unat (dc_maximum_states config))"
proof -
  have rep: "represents trie ws" using inv by (simp add: inserting_def)
  then have len: "length ws = length trie" by (simp add: represents_def)
  have "map tn_terminal trie ! unat state = map (mark_of W) ws ! unat state"
    using inv by (simp add: inserting_def)
  then have mark: "tn_terminal (trie ! unat state) = mark_of W (ws ! unat state)" using s len by simp
  have step: "token < dc_vocabulary_size config" "ws ! unat state \<notin> set W"
    using ok mark mark_of_none [OF W] by (auto simp: insert_token_def Let_def split: if_splits)
  show ?thesis
  proof (cases "map_of (tn_children (trie ! unat state)) token")
    case (Some k)
    then have k: "unat k < length ws" "ws ! unat k = ws ! unat state @ [token]"
      using rep s by (auto simp: represents_def)
    moreover have "n = k" "trie' = trie" "ac' = ac"
      using ok Some by (auto simp: insert_token_def Let_def split: if_splits)
    moreover have "ws ! unat state @ [token] \<in> set ws" using k by (metis nth_mem)
    ultimately show ?thesis
      using inv step by (intro exI [of _ ws]) (auto simp: insert_absorb)
  next
    case None
    let ?new = "ws ! unat state @ [token]"
    let ?node = "trie ! unat state"
    have new: "n = of_nat (length trie)" "ac' = ac + 1" "ac < dc_maximum_arcs config"
      "length trie < unat (dc_maximum_states config)"
      "trie' = (trie @ [empty_node])[unat state := ?node\<lparr>tn_children :=
         emplace_child token (of_nat (length trie)) (tn_children ?node)\<rparr>]"
      using ok None by (auto simp: insert_token_def Let_def not_le split: if_splits option.splits)
    have room: "Suc (length trie) < 2 ^ 32"
      using new(4) unat_u32_max unsigned_less [of "dc_maximum_states config", where ?'a = nat]
        word_n1_ge [of "dc_maximum_states config"] by (simp add: word_le_nat_alt)
    have rep': "represents trie' (ws @ [?new])"
      unfolding new(5) by (rule represents_grow [OF rep s None room])
    have fresh: "?new \<notin> set ws" by (rule child_new_word [OF rep s None])
    have "ac \<noteq> u32_max" using new(3) by (metis word_n1_ge linorder_not_le)
    then have "unat (ac + 1) = unat ac + 1" by (rule unat_plus_one)
    moreover have "(\<Sum>node\<leftarrow>trie'. length (tn_children node)) = unat ac + 1"
      using sum_list_map_update [of "unat state" "trie @ [empty_node]" "\<lambda>node. length (tn_children node)"
          "?node\<lparr>tn_children := emplace_child token (of_nat (length trie)) (tn_children ?node)\<rparr>"]
        inv s by (simp add: new(5) nth_append empty_node_def inserting_def)
    moreover have "map tn_terminal trie' = map (mark_of W) (ws @ [?new])"
    proof (rule nth_equalityI)
      show "length (map tn_terminal trie') = length (map (mark_of W) (ws @ [?new]))"
        by (simp add: new(5) len)
      fix k assume "k < length (map tn_terminal trie')"
      then have k: "k \<le> length trie" by (simp add: new(5))
      have "map tn_terminal trie ! k = map (mark_of W) ws ! k" using inv by (simp add: inserting_def)
      moreover have "mark_of W ?new = no_terminal"
        using fresh inv mark_of_none [OF W] by (auto simp: inserting_def)
      ultimately show "map tn_terminal trie' ! k = map (mark_of W) (ws @ [?new]) ! k"
        using k s len by (cases "k = length trie"; cases "k = unat state")
          (simp_all add: new(5) nth_append empty_node_def)
    qed
    moreover have "unat n = length trie" unfolding new(1) using room by (intro unat_u32_of_nat) simp
    ultimately show ?thesis
      using inv rep' step new(2,4) len by (intro exI [of _ "ws @ [?new]"])
        (auto simp: inserting_def nth_append)
  qed
qed

lemma insert_tokens_Inr:
  assumes "inserting W trie ac ws" "length W < 2 ^ 32" "unat state < length trie"
    "insert_tokens config tokens state (mem, trie, ac) = Inr (n, mem', trie', ac')"
  shows "\<exists>ws'. inserting W trie' ac' ws' \<and> prefix ws ws' \<and>
    set ws' = set ws \<union> {ws ! unat state @ p | p. prefix p tokens} \<and>
    unat n < length ws' \<and> ws' ! unat n = ws ! unat state @ tokens \<and>
    (\<forall>p. strict_prefix p tokens \<longrightarrow> ws ! unat state @ p \<notin> set W) \<and>
    (\<forall>t \<in> set tokens. t < dc_vocabulary_size config) \<and>
    length ws' \<le> max (length ws) (unat (dc_maximum_states config))"
  using assms
proof (induction tokens arbitrary: state mem trie ac ws)
  case Nil
  have "ws ! unat state \<in> set ws"
    using Nil.prems(1,3) by (simp add: inserting_def represents_def)
  with Nil.prems show ?case
    by (intro exI [of _ ws]) (auto simp: inserting_def represents_def insert_absorb)
next
  case (Cons token tokens)
  let ?u = "ws ! unat state"
  obtain k mem1 trie1 ac1 where
    one: "insert_token config token state (mem, trie, ac) = Inr (k, mem1, trie1, ac1)"
    and rest: "insert_tokens config tokens k (mem1, trie1, ac1) = Inr (n, mem', trie', ac')"
    using Cons.prems(4) by (auto split: sum.splits)
  from insert_token_Inr [OF Cons.prems(1-3) one] obtain ws1 where
    ws1: "inserting W trie1 ac1 ws1" "prefix ws ws1" "set ws1 = insert (?u @ [token]) (set ws)"
      "unat k < length ws1" "ws1 ! unat k = ?u @ [token]" "?u \<notin> set W"
      "token < dc_vocabulary_size config"
      "length ws1 \<le> max (length ws) (unat (dc_maximum_states config))" by blast
  have "unat k < length trie1" using ws1(1,4) by (simp add: inserting_def represents_def)
  from Cons.IH [OF ws1(1) Cons.prems(2) this rest] obtain ws2 where
    ws2: "inserting W trie' ac' ws2" "prefix ws1 ws2"
      "set ws2 = set ws1 \<union> {(?u @ [token]) @ p | p. prefix p tokens}"
      "unat n < length ws2" "ws2 ! unat n = (?u @ [token]) @ tokens"
      "\<forall>p. strict_prefix p tokens \<longrightarrow> (?u @ [token]) @ p \<notin> set W"
      "\<forall>t \<in> set tokens. t < dc_vocabulary_size config"
      "length ws2 \<le> max (length ws1) (unat (dc_maximum_states config))"
    unfolding ws1(5) by blast
  have u: "?u \<in> set ws"
    using Cons.prems(1,3) by (simp add: inserting_def represents_def)
  have "set ws2 = set ws \<union> {?u @ p | p. prefix p (token # tokens)}"
    using ws1(3) ws2(3) u by (auto simp: prefix_Cons)
  moreover have "?u @ p \<notin> set W" if "strict_prefix p (token # tokens)" for p
    using that ws1(6) ws2(6) by (cases p) auto
  ultimately show ?case
    using ws1 ws2 by (intro exI [of _ ws2]) (auto intro: prefix_order.trans)
qed

section \<open>The whole language\<close>

text \<open>
  The languages the automaton can hold: different labels that pass the test, words that
  are not empty, not too long, over the vocabulary, and no word a prefix of another.
\<close>

definition well_formed ::
  "('l \<Rightarrow> bool) \<Rightarrow> dfa_config \<Rightarrow> ('l \<times> token_id list) list \<Rightarrow> bool" where
  "well_formed usable config L \<longleftrightarrow>
     distinct (map fst L) \<and>
     (\<forall>(l, w) \<in> set L. usable l \<and> w \<noteq> [] \<and>
        length w \<le> unat (dc_maximum_sequence_tokens config) \<and>
        (\<forall>t \<in> set w. t < dc_vocabulary_size config)) \<and>
     (\<forall>i < length L. \<forall>j < length L. i \<noteq> j \<longrightarrow> \<not> prefix (snd (L ! i)) (snd (L ! j)))"

text \<open>A finished trie for \<open>L\<close>.\<close>

definition language_trie ::
  "('l \<Rightarrow> bool) \<Rightarrow> dfa_config \<Rightarrow> ('l \<times> token_id list) list \<Rightarrow> trie_node list \<Rightarrow> u32 \<Rightarrow>
     token_id list list \<Rightarrow> bool" where
  "language_trie usable config L trie arc_count ws \<longleftrightarrow>
     inserting (map snd L) trie arc_count ws \<and>
     set ws = insert [] {p. \<exists>w \<in> snd ` set L. prefix p w} \<and>
     (\<forall>w \<in> snd ` set L. \<forall>t. w @ [t] \<notin> set ws) \<and> well_formed usable config L \<and>
     length ws \<le> unat (dc_maximum_states config)"

lemma no_extension:
  assumes "\<forall>t. w @ [t] \<notin> S" "\<And>u x. u @ [x] \<in> S \<Longrightarrow> u \<in> S" "strict_prefix w v"
  shows "v \<notin> S"
  using assms(3)
proof (induction v rule: rev_induct)
  case (snoc x v)
  then have "w = v \<or> strict_prefix w v" by (auto simp: strict_prefix_def prefix_snoc)
  then show ?case using snoc.IH assms(1,2) by blast
qed simp

lemma language_word_new:
  assumes lt: "language_trie usable config L trie ac ws"
    and w: "w \<notin> snd ` set L" "w \<noteq> []"
    and before: "\<forall>p. strict_prefix p w \<longrightarrow> p \<notin> snd ` set L"
    and ws': "represents trie' ws'" "set ws' = set ws \<union> {p. prefix p w}"
    and leaf: "\<forall>t. w @ [t] \<notin> set ws'"
  shows "(\<forall>v \<in> snd ` set (L @ [(l, w)]). \<forall>t. v @ [t] \<notin> set ws') \<and>
    (\<forall>v \<in> snd ` set L. \<not> prefix v w \<and> \<not> prefix w v)"
proof -
  have closed: "\<And>u x. u @ [x] \<in> set ws' \<Longrightarrow> u \<in> set ws'"
    using ws'(1) unfolding represents_def by blast
  have leaf_old: "v @ [t] \<notin> set ws'" if "v \<in> snd ` set L" for v t
  proof
    assume "v @ [t] \<in> set ws'"
    moreover have "v @ [t] \<notin> set ws" using lt that unfolding language_trie_def by blast
    ultimately have "prefix (v @ [t]) w" using ws'(2) by blast
    then have "strict_prefix v w" by (meson append_prefixD prefixI prefix_order.dual_order.strict_trans1 prefix_snoc strict_prefixI')
    with before that show False by blast
  qed
  have "\<not> prefix v w \<and> \<not> prefix w v" if v: "v \<in> snd ` set L" for v
  proof -
    have "v \<in> set ws" using lt v by (auto simp: language_trie_def inserting_def)
    then have "v \<in> set ws'" using ws'(2) by simp
    then have "\<not> strict_prefix w v" using no_extension [of w "set ws'" v, OF leaf] closed by blast
    then show ?thesis using before v w(1) by (auto simp: strict_prefix_def)
  qed
  with leaf leaf_old show ?thesis by auto
qed

lemma no_children_leaf:
  assumes rep: "represents trie ws" and s: "s < length trie" and "tn_children (trie ! s) = []"
  shows "ws ! s @ [t] \<notin> set ws"
  using child_new_word [OF rep s, of t] assms(3) by simp

lemma represents_terminal:
  "represents trie ws \<Longrightarrow> s < length trie \<Longrightarrow>
     represents (trie[s := (trie ! s)\<lparr>tn_terminal := x\<rparr>]) ws"
  unfolding represents_def by (auto simp: nth_list_update)

lemma inserting_mark:
  assumes inv: "inserting W trie ac ws" and s: "unat n < length ws" "ws ! unat n = w"
    and new: "w \<notin> set W"
  shows "inserting (W @ [w])
    (trie[unat n := (trie ! unat n)\<lparr>tn_terminal := of_nat (length W)\<rparr>]) ac ws"
proof -
  have rep: "represents trie ws" and len: "length ws = length trie" and d: "distinct ws"
    using inv by (simp_all add: inserting_def represents_def)
  let ?trie = "trie[unat n := (trie ! unat n)\<lparr>tn_terminal := of_nat (length W)\<rparr>]"
  have "map tn_terminal ?trie = map (mark_of (W @ [w])) ws"
  proof (rule nth_equalityI)
    show "length (map tn_terminal ?trie) = length (map (mark_of (W @ [w])) ws)" by (simp add: len)
    fix k assume "k < length (map tn_terminal ?trie)"
    then have k: "k < length trie" by simp
    have "map tn_terminal trie ! k = map (mark_of W) ws ! k" using inv by (simp add: inserting_def)
    moreover have "k \<noteq> unat n \<Longrightarrow> ws ! k \<noteq> w" using s d k len nth_eq_iff_index_eq [of ws k "unat n"] by auto
    ultimately show "map tn_terminal ?trie ! k = map (mark_of (W @ [w])) ws ! k"
      using k len s mark_of_append [OF new] by (cases "k = unat n") simp_all
  qed
  moreover have "w \<in> set ws" using s by (metis nth_mem)
  moreover have "(\<Sum>node\<leftarrow>?trie. length (tn_children node)) = unat ac"
    using sum_list_map_update [of "unat n" trie "\<lambda>node. length (tn_children node)"
        "(trie ! unat n)\<lparr>tn_terminal := of_nat (length W)\<rparr>"] inv s len
    by (simp add: inserting_def)
  ultimately show ?thesis
    using inv represents_terminal [OF rep, of "unat n"] s len by (auto simp: inserting_def)
qed

lemma well_formed_append:
  assumes "well_formed usable config L" "l \<notin> fst ` set L" "usable l" "w \<noteq> []"
    "length w \<le> unat (dc_maximum_sequence_tokens config)"
    "\<forall>t \<in> set w. t < dc_vocabulary_size config"
    "\<forall>v \<in> snd ` set L. \<not> prefix v w \<and> \<not> prefix w v"
  shows "well_formed usable config (L @ [(l, w)])"
proof -
  have "\<not> prefix (snd ((L @ [(l, w)]) ! i)) (snd ((L @ [(l, w)]) ! j))"
    if "i < length (L @ [(l, w)])" "j < length (L @ [(l, w)])" "i \<noteq> j" for i j
    using that assms(1,7) by (auto simp: well_formed_def nth_append less_Suc_eq)
  then show ?thesis using assms by (auto simp: well_formed_def)
qed

lemma insert_word:
  assumes lt: "language_trie usable config L trie ac ws" and small: "length L < 2 ^ 32"
    and label: "usable l" "w \<noteq> []" "length w \<le> unat (dc_maximum_sequence_tokens config)"
      "l \<notin> fst ` set L"
    and ins: "insert_tokens config w 0 (mem, trie, ac) = Inr (n, mem', trie', ac')"
    and leaf: "tn_terminal (trie' ! unat n) = no_terminal" "tn_children (trie' ! unat n) = []"
  shows "\<exists>ws'. language_trie usable config (L @ [(l, w)])
    (trie'[unat n := (trie' ! unat n)\<lparr>tn_terminal := of_nat (length L)\<rparr>]) ac' ws'"
proof -
  have inv: "inserting (map snd L) trie ac ws" using lt by (simp add: language_trie_def)
  then have ws0: "0 < length ws" "ws ! 0 = []" "length ws = length trie"
    by (auto simp: inserting_def represents_def hd_conv_nth)
  obtain ws' where ws': "inserting (map snd L) trie' ac' ws'"
    "set ws' = set ws \<union> {ws ! 0 @ p | p. prefix p w}"
    "unat n < length ws'" "ws' ! unat n = ws ! 0 @ w"
    "\<forall>p. strict_prefix p w \<longrightarrow> ws ! 0 @ p \<notin> set (map snd L)"
    "\<forall>t \<in> set w. t < dc_vocabulary_size config"
    "length ws' \<le> max (length ws) (unat (dc_maximum_states config))"
    using insert_tokens_Inr [OF inv _ _ ins] small ws0 by auto
  have rep': "represents trie' ws'" "length ws' = length trie'"
    using ws'(1) by (simp_all add: inserting_def represents_def)
  have "map tn_terminal trie' ! unat n = map (mark_of (map snd L)) ws' ! unat n"
    using ws'(1) by (simp add: inserting_def)
  then have new: "w \<notin> set (map snd L)"
    using leaf(1) ws'(3,4) rep'(2) ws0(2) mark_of_none [of "map snd L" w] small by simp
  have no_child: "\<forall>t. w @ [t] \<notin> set ws'"
    using no_children_leaf [OF rep'(1) _ leaf(2)] ws'(3,4) rep'(2) ws0(2) by simp
  have words: "set ws' = set ws \<union> {p. prefix p w}" using ws'(2) ws0(2) by auto
  have old: "(\<forall>v \<in> snd ` set (L @ [(l, w)]). \<forall>t. v @ [t] \<notin> set ws') \<and>
    (\<forall>v \<in> snd ` set L. \<not> prefix v w \<and> \<not> prefix w v)"
    using language_word_new [OF lt _ label(2) _ rep'(1) words no_child] new ws'(5) ws0(2) by simp
  have "well_formed usable config (L @ [(l, w)])"
    using well_formed_append [of usable config L l w] lt label ws'(6) old
    by (simp add: language_trie_def)
  moreover have "inserting (map snd (L @ [(l, w)]))
      (trie'[unat n := (trie' ! unat n)\<lparr>tn_terminal := of_nat (length L)\<rparr>]) ac' ws'"
    using inserting_mark [OF ws'(1,3) _ new] ws'(4) ws0(2) by simp
  moreover have "set ws' = insert [] {p. \<exists>v \<in> snd ` set (L @ [(l, w)]). prefix p v}"
    using words lt by (auto simp: language_trie_def)
  moreover have "length ws' \<le> unat (dc_maximum_states config)"
    using ws'(7) lt by (simp add: language_trie_def)
  ultimately show ?thesis using old unfolding language_trie_def by blast
qed

lemma insert_language_Inr:
  assumes "language_trie usable config L trie ac ws" "labels = map fst L"
    "length L + length rest < 2 ^ 32"
    "insert_language usable config rest labels (mem, trie, ac) = Inr (labels', mem', trie', ac')"
  shows "(\<exists>ws'. language_trie usable config (L @ rest) trie' ac' ws') \<and> labels' = map fst (L @ rest)"
  using assms
proof (induction rest arbitrary: L labels mem trie ac ws)
  case Nil
  then show ?case by auto
next
  case (Cons e rest)
  obtain l w where e: "e = (l, w)" by (cases e)
  from Cons.prems(4) obtain mem1 n mem2 trie1 ac1 where
    label: "usable l" "w \<noteq> []" "length w \<le> unat (dc_maximum_sequence_tokens config)"
      "l \<notin> fst ` set L"
    and ins: "insert_tokens config w 0 (mem1, trie, ac) = Inr (n, mem2, trie1, ac1)"
    and leaf: "tn_terminal (trie1 ! unat n) = no_terminal" "tn_children (trie1 ! unat n) = []"
    and rest: "insert_language usable config rest (labels @ [l])
      (mem2, trie1[unat n := (trie1 ! unat n)\<lparr>tn_terminal := of_nat (length labels)\<rparr>], ac1) =
      Inr (labels', mem', trie', ac')"
    using Cons.prems(2) by (auto simp: e Let_def not_le split: if_splits option.splits sum.splits)
  have "length L < 2 ^ 32" using Cons.prems(3) by simp
  from insert_word [OF Cons.prems(1) this label ins leaf] obtain ws' where
    "language_trie usable config (L @ [(l, w)])
       (trie1[unat n := (trie1 ! unat n)\<lparr>tn_terminal := of_nat (length labels)\<rparr>]) ac1 ws'"
    using Cons.prems(2) by auto
  from Cons.IH [OF this _ _ rest] Cons.prems(2,3) show ?case by (simp add: e)
qed

lemma empty_language_trie:
  "dc_maximum_states config \<noteq> 0 \<Longrightarrow> language_trie usable config [] [empty_node] 0 [[]]"
  by (auto simp: language_trie_def inserting_def represents_def empty_node_def mark_of_def
      well_formed_def Suc_le_eq unat_gt_0)

section \<open>The tables\<close>

lemma flatten_trie_eq:
  "flatten_trie trie (states, arcs) =
     (states @ map (\<lambda>k. \<lparr>sr_first_arc =
          of_nat (length arcs + (\<Sum>node\<leftarrow>take k trie. length (tn_children node))),
        sr_arc_count = of_nat (length (tn_children (trie ! k))),
        sr_terminal = tn_terminal (trie ! k)\<rparr>) [0 ..< length trie],
      arcs @ concat (map node_arcs trie))"
proof (induction trie arbitrary: states arcs)
  case (Cons node trie)
  have "[0 ..< length (node # trie)] = 0 # map Suc [0 ..< length trie]"
    by (simp add: map_Suc_upt upt_conv_Cons del: upt_Suc)
  then show ?case
    by (simp only: flatten_trie.simps Cons.IH)
      (simp add: node_arcs_def comp_def add.assoc del: upt_Suc)
qed simp

lemma take_drop_concat:
  "k < length xss \<Longrightarrow>
     take (length (xss ! k)) (drop (\<Sum>xs\<leftarrow>take k xss. length xs) (concat xss)) = xss ! k"
proof (induction xss arbitrary: k)
  case (Cons xs xss)
  then show ?case by (cases k) auto
qed simp

text \<open>The tables of the automaton hold the trie.\<close>

definition tables_of :: "trie_node list \<Rightarrow> 'l dfa \<Rightarrow> bool" where
  "tables_of trie d \<longleftrightarrow>
     length (df_states d) = length trie \<and>
     (\<forall>s < length trie.
        sr_terminal (df_states d ! s) = tn_terminal (trie ! s) \<and>
        take (unat (sr_arc_count (df_states d ! s)))
          (drop (unat (sr_first_arc (df_states d ! s))) (df_arcs d)) = node_arcs (trie ! s))"

lemma sum_take_le:
  "k < length xs \<Longrightarrow> (\<Sum>x\<leftarrow>take k xs. f x) + f (xs ! k) \<le> (\<Sum>x\<leftarrow>xs. f x :: nat)"
proof (induction xs arbitrary: k)
  case (Cons x xs)
  then show ?case by (cases k) auto
qed simp

lemma flatten_tables:
  assumes "flatten_trie trie ([], []) = (states, arcs)"
    "(\<Sum>node\<leftarrow>trie. length (tn_children node)) < 2 ^ 32"
  shows "tables_of trie \<lparr>df_states = states, df_arcs = arcs, df_labels = labels\<rparr> \<and>
    length arcs = (\<Sum>node\<leftarrow>trie. length (tn_children node)) \<and> length states = length trie"
proof -
  have eq: "states = map (\<lambda>k. \<lparr>sr_first_arc = of_nat (\<Sum>node\<leftarrow>take k trie. length (tn_children node)),
        sr_arc_count = of_nat (length (tn_children (trie ! k))),
        sr_terminal = tn_terminal (trie ! k)\<rparr>) [0 ..< length trie]"
    "arcs = concat (map node_arcs trie)"
    using assms(1) flatten_trie_eq [of trie "[]" "[]"] by auto
  have "take (unat (sr_arc_count (states ! s))) (drop (unat (sr_first_arc (states ! s))) arcs) =
      node_arcs (trie ! s) \<and> sr_terminal (states ! s) = tn_terminal (trie ! s)"
    if s: "s < length trie" for s
  proof -
    have "(\<Sum>node\<leftarrow>take s trie. length (tn_children node)) + length (tn_children (trie ! s)) < 2 ^ 32"
      using sum_take_le [OF s, of "\<lambda>node. length (tn_children node)"] assms(2) by simp
    then have "unat (sr_first_arc (states ! s)) = (\<Sum>node\<leftarrow>take s trie. length (tn_children node))"
      "unat (sr_arc_count (states ! s)) = length (tn_children (trie ! s))"
      using s by (simp_all add: eq(1) unat_u32_of_nat)
    moreover have "length (map node_arcs trie ! s) = length (tn_children (trie ! s))"
      "(\<Sum>xs\<leftarrow>take s (map node_arcs trie). length xs) = (\<Sum>node\<leftarrow>take s trie. length (tn_children node))"
      using s by (simp_all add: node_arcs_def take_map comp_def)
    ultimately show ?thesis
      using take_drop_concat [of s "map node_arcs trie"] s by (simp add: eq)
  qed
  moreover have "length arcs = (\<Sum>node\<leftarrow>trie. length (tn_children node))"
    by (simp add: eq(2) length_concat comp_def node_arcs_def)
  ultimately show ?thesis by (auto simp: tables_of_def eq(1))
qed

lemma tables_allowed:
  "tables_of trie d \<Longrightarrow> dfa_allowed d s =
     (if unat s < length trie then Inr (node_arcs (trie ! unat s)) else fail Invalid_argument)"
  by (simp add: tables_of_def dfa_allowed_def valid_state_def Let_def)

lemma sorted_lookup:
  "sorted_wrt (<) (map fst cs) \<Longrightarrow>
     (case dropWhile (\<lambda>a. ga_token a < t) (map (\<lambda>(t, n). \<lparr>ga_token = t, ga_next = n\<rparr>) cs) of
        [] \<Rightarrow> None | a # _ \<Rightarrow> if ga_token a \<noteq> t then None else Some (ga_next a)) = map_of cs t"
proof (induction cs)
  case (Cons c cs)
  show ?case
  proof (cases "fst c < t")
    case True
    then show ?thesis using Cons by (cases c) auto
  next
    case False
    moreover have "fst c \<noteq> t \<Longrightarrow> \<not> fst c < t \<Longrightarrow> map_of cs t = None"
      using Cons.prems by (auto simp: map_of_eq_None_iff)
    ultimately show ?thesis by (cases c) auto
  qed
qed simp

lemma tables_advance:
  assumes "tables_of trie d" "represents trie ws"
  shows "dfa_advance d s t = Inr n \<longleftrightarrow>
    unat s < length ws \<and> unat n < length ws \<and> ws ! unat n = ws ! unat s @ [t]"
proof (cases "unat s < length trie")
  case True
  then have "sorted_wrt (<) (map fst (tn_children (trie ! unat s)))"
    and m: "map_of (tn_children (trie ! unat s)) t = Some n \<longleftrightarrow>
      unat n < length ws \<and> ws ! unat n = ws ! unat s @ [t]"
    using assms(2) by (simp_all add: represents_def)
  define xs where "xs = dropWhile (\<lambda>a. ga_token a < t) (node_arcs (trie ! unat s))"
  have "(case xs of [] \<Rightarrow> None | a # _ \<Rightarrow> if ga_token a \<noteq> t then None else Some (ga_next a)) =
      map_of (tn_children (trie ! unat s)) t"
    unfolding xs_def node_arcs_def by (rule sorted_lookup) fact
  moreover have "dfa_advance d s t = (case xs of [] \<Rightarrow> fail Invalid_argument
      | a # _ \<Rightarrow> if ga_token a \<noteq> t then fail Invalid_argument else Inr (ga_next a))"
    using True tables_allowed [OF assms(1), of s] by (simp add: dfa_advance_def xs_def)
  ultimately have "dfa_advance d s t = Inr n \<longleftrightarrow>
      map_of (tn_children (trie ! unat s)) t = Some n"
    by (cases xs) auto
  moreover have "length ws = length trie" using assms(2) by (simp add: represents_def)
  ultimately show ?thesis using m True by simp
next
  case False
  then show ?thesis
    using assms(2) tables_allowed [OF assms(1), of s] by (simp add: dfa_advance_def represents_def)
qed

section \<open>The automaton of a language\<close>

text \<open>Following a word from a state, as the clients of the automaton do.\<close>

fun run_word ::
  "('s \<Rightarrow> token_id \<Rightarrow> 's result) \<Rightarrow> 's \<Rightarrow> token_id list \<Rightarrow> 's result" where
  "run_word advance s [] = Inr s"
| "run_word advance s (t # ts) =
     (case advance s t of Inl e \<Rightarrow> Inl e | Inr s' \<Rightarrow> run_word advance s' ts)"

definition automaton_for ::
  "('l \<Rightarrow> bool) \<Rightarrow> dfa_config \<Rightarrow> ('l \<times> token_id list) list \<Rightarrow> 'l dfa \<Rightarrow> token_id list list \<Rightarrow> bool" where
  "automaton_for usable config L d ws \<longleftrightarrow>
     (\<exists>trie ac. language_trie usable config L trie ac ws \<and> tables_of trie d) \<and>
     df_labels d = map fst L \<and> L \<noteq> [] \<and> length L < 2 ^ 32 \<and>
     length (df_states d) = Suc (length (df_arcs d)) \<and>
     length (df_states d) \<le> unat (dc_maximum_states config)"

lemma build_dfa_Inr:
  assumes "build_dfa usable mem L config = Inr d"
  shows "\<exists>ws. automaton_for usable config L d ws"
proof -
  from assms have start: "L \<noteq> []" "dc_maximum_states config \<noteq> 0"
    "length L \<le> unat (dc_maximum_labels config)"
    by (auto simp: build_dfa_def split: if_splits)
  then have small: "length L < 2 ^ 32" using unat_u32_lt [of "dc_maximum_labels config"] by simp
  from assms obtain mem1 labels mem2 trie ac states arcs where
    ins: "insert_language usable config L [] (mem1, [empty_node], 0) = Inr (labels, mem2, trie, ac)"
    and flat: "flatten_trie trie ([], []) = (states, arcs)"
    and d: "d = \<lparr>df_states = states, df_arcs = arcs, df_labels = labels\<rparr>"
    by (auto simp: build_dfa_def Let_def split: if_splits option.splits sum.splits prod.splits)
  from insert_language_Inr [OF empty_language_trie [OF start(2)] _ _ ins] small obtain ws where
    lt: "language_trie usable config L trie ac ws" and labels: "labels = map fst L" by auto
  have sum: "(\<Sum>node\<leftarrow>trie. length (tn_children node)) = unat ac" "length ws = length trie"
    "unat ac + 1 = length ws" "length ws \<le> unat (dc_maximum_states config)"
    using lt by (simp_all add: language_trie_def inserting_def represents_def)
  have "tables_of trie d \<and> length arcs = unat ac \<and> length states = length trie"
    using flatten_tables [OF flat] sum(1) unat_u32_lt [of ac] by (simp add: d)
  with lt labels start small sum show ?thesis
    by (auto simp: automaton_for_def d)
qed

lemma run_word_iff:
  assumes "tables_of trie d" "represents trie ws" "unat s < length ws"
  shows "run_word (dfa_advance d) s w = Inr n \<longleftrightarrow>
    unat n < length ws \<and> ws ! unat n = ws ! unat s @ w"
  using assms(3)
proof (induction w arbitrary: s)
  case Nil
  have "ws ! unat n = ws ! unat s \<longleftrightarrow> n = s" if "unat n < length ws"
    using that Nil assms(2) by (simp add: represents_def nth_eq_iff_index_eq unat_inject)
  then show ?case using Nil by auto
next
  case (Cons t w)
  note adv = tables_advance [OF assms(1,2), of s t]
  show ?case
  proof (cases "dfa_advance d s t")
    case (Inr k)
    then show ?thesis using adv [of k] Cons by simp
  next
    case (Inl e)
    have "ws ! unat n \<noteq> ws ! unat s @ t # w" if n: "unat n < length ws"
    proof
      assume eq: "ws ! unat n = ws ! unat s @ t # w"
      have "(ws ! unat s @ [t]) @ w \<in> set ws" using n eq by (metis append.assoc append_Cons append_Nil nth_mem)
      moreover have "u @ v \<in> set ws \<Longrightarrow> u \<in> set ws" for u v
        using assms(2) unfolding represents_def
        by (induction v rule: rev_induct) (auto simp flip: append_assoc)
      ultimately have "ws ! unat s @ [t] \<in> set ws" by blast
      then obtain j where j: "j < length ws" "ws ! j = ws ! unat s @ [t]" by (metis in_set_conv_nth)
      have "unat (of_nat j :: u32) = j"
        using j(1) assms(2) by (intro unat_u32_of_nat) (simp add: represents_def)
      then have "dfa_advance d s t = Inr (of_nat j)" using adv [of "of_nat j"] j Cons.prems by simp
      with Inl show False by simp
    qed
    with Inl show ?thesis by auto
  qed
qed

lemma decode_index:
  assumes wf: "well_formed usable config L" and small: "length L < 2 ^ 32"
  shows "(let index = mark_of (map snd L) w in
     if index = no_terminal \<or> unat index \<ge> length (map fst L) then fail Invalid_argument
     else Inr (map fst L ! unat index)) = Inr l \<longleftrightarrow> (l, w) \<in> set L"
proof (cases "w \<in> set (map snd L)")
  case True
  let ?i = "index_of (map snd L) w"
  have i: "?i < length L" "snd (L ! ?i) = w" using index_of_less [OF True]
    by (simp_all, metis length_map nth_map)
  have m: "unat (mark_of (map snd L) w) = ?i" "mark_of (map snd L) w \<noteq> no_terminal"
    using mark_of_member [OF True] mark_of_none [of "map snd L" w] True small by simp_all
  have label: "l = fst (L ! ?i)" if "(l, w) \<in> set L" for l
  proof -
    from that obtain j where j: "j < length L" "L ! j = (l, w)" by (metis in_set_conv_nth)
    have "\<not> prefix (snd (L ! j)) (snd (L ! ?i))" if "j \<noteq> ?i"
      using wf i(1) j(1) that unfolding well_formed_def by blast
    with i(2) j(2) have "j = ?i" by auto
    with j show ?thesis by simp
  qed
  have "(fst (L ! ?i), w) \<in> set L" using i by (metis nth_mem prod.collapse)
  then have "fst (L ! ?i) = l \<longleftrightarrow> (l, w) \<in> set L" using label by blast
  then show ?thesis using i(1) m by (simp add: Let_def)
next
  case False
  then have "mark_of (map snd L) w = no_terminal" by (simp add: mark_of_def)
  moreover have "(l, w) \<notin> set L" using False by force
  ultimately show ?thesis by (simp add: Let_def)
qed

text \<open>The four queries, in terms of the words.\<close>

lemma automaton_queries:
  assumes "automaton_for usable config L d ws"
  shows "ws \<noteq> [] \<and> ws ! 0 = [] \<and> distinct ws \<and> length ws = length (df_states d) \<and> length ws < 2 ^ 32"
    and "run_word (dfa_advance d) 0 w = Inr n \<longleftrightarrow> unat n < length ws \<and> ws ! unat n = w"
    and "dfa_terminal d n \<longleftrightarrow> unat n < length ws \<and> ws ! unat n \<in> snd ` set L"
    and "dfa_decode_terminal d n = Inr l \<longleftrightarrow> unat n < length ws \<and> (l, ws ! unat n) \<in> set L"
    and "w \<in> set ws \<longleftrightarrow> w = [] \<or> (\<exists>v \<in> snd ` set L. prefix w v)"
    and "well_formed usable config L"
proof -
  from assms obtain trie ac where lt: "language_trie usable config L trie ac ws"
    and t: "tables_of trie d" and lab: "df_labels d = map fst L" and small: "length L < 2 ^ 32"
    by (auto simp: automaton_for_def)
  then have inv: "inserting (map snd L) trie ac ws" and wf: "well_formed usable config L"
    unfolding language_trie_def by blast+
  then have rep: "represents trie ws" by (simp add: inserting_def)
  show "well_formed usable config L" by (rule wf)
  have states: "length (df_states d) = length trie" "length ws = length trie"
    using t rep by (simp_all add: tables_of_def represents_def)
  show basic: "ws \<noteq> [] \<and> ws ! 0 = [] \<and> distinct ws \<and> length ws = length (df_states d) \<and> length ws < 2 ^ 32"
    using rep states by (auto simp: represents_def hd_conv_nth)
  then have "unat (0 :: u32) < length ws" by (metis length_greater_0_conv unsigned_0)
  from run_word_iff [OF t rep this] basic
  show "run_word (dfa_advance d) 0 w = Inr n \<longleftrightarrow> unat n < length ws \<and> ws ! unat n = w" by simp
  have mark: "sr_terminal (df_states d ! unat n) = mark_of (map snd L) (ws ! unat n)"
    if "unat n < length ws" for n
  proof -
    have "map tn_terminal trie ! unat n = map (mark_of (map snd L)) ws ! unat n"
      using inv by (simp add: inserting_def)
    then show ?thesis using that t states by (simp add: tables_of_def)
  qed
  show "dfa_terminal d n \<longleftrightarrow> unat n < length ws \<and> ws ! unat n \<in> snd ` set L"
    using mark [of n] mark_of_none [of "map snd L" "ws ! unat n"] small states
    by (auto simp: dfa_terminal_def valid_state_def)
  show "w \<in> set ws \<longleftrightarrow> w = [] \<or> (\<exists>v \<in> snd ` set L. prefix w v)"
    using lt by (simp add: language_trie_def)
  show "dfa_decode_terminal d n = Inr l \<longleftrightarrow> unat n < length ws \<and> (l, ws ! unat n) \<in> set L"
    using wf mark [of n] small states lab decode_index [of usable config L "ws ! unat n" l]
    by (auto simp: dfa_decode_terminal_def valid_state_def Let_def)
qed

section \<open>The interface of an automaton\<close>

text \<open>
  What a client of either class relies on: \<open>built d L\<close> says that \<open>d\<close> was built from the
  labelled words \<open>L\<close>; the laws say where following a word leads.
\<close>

locale token_automaton =
  fixes built :: "'d \<Rightarrow> ('l \<times> token_id list) list \<Rightarrow> bool"
    and advance :: "'d \<Rightarrow> grammar_state \<Rightarrow> token_id \<Rightarrow> grammar_state result"
    and allowed :: "'d \<Rightarrow> grammar_state \<Rightarrow> grammar_arc list result"
    and terminal :: "'d \<Rightarrow> grammar_state \<Rightarrow> bool"
    and decode :: "'d \<Rightarrow> grammar_state \<Rightarrow> 'l result"
  assumes reach: "built d L \<Longrightarrow> (\<exists>s. run_word (advance d) 0 w = Inr s) \<longleftrightarrow>
      w = [] \<or> (\<exists>v \<in> snd ` set L. prefix w v)"
    and decode_iff: "built d L \<Longrightarrow> run_word (advance d) 0 w = Inr s \<Longrightarrow>
      decode d s = Inr l \<longleftrightarrow> (l, w) \<in> set L"
    and terminal_iff: "built d L \<Longrightarrow> run_word (advance d) 0 w = Inr s \<Longrightarrow>
      terminal d s \<longleftrightarrow> w \<in> snd ` set L"
    and allowed_iff: "built d L \<Longrightarrow> run_word (advance d) 0 w = Inr s \<Longrightarrow>
      \<exists>arcs. allowed d s = Inr arcs \<and> distinct (map ga_token arcs) \<and>
        (\<forall>t n. advance d s t = Inr n \<longleftrightarrow> \<lparr>ga_token = t, ga_next = n\<rparr> \<in> set arcs)"
    and language: "built d L \<Longrightarrow> L \<noteq> [] \<and> distinct (map fst L) \<and>
      (\<forall>(l, v) \<in> set L. \<forall>(k, w) \<in> set L. prefix v w \<longrightarrow> l = k \<and> v = w)"
begin

lemma word_decodes:
  assumes "built d L" "(l, w) \<in> set L"
  shows "\<exists>s. run_word (advance d) 0 w = Inr s \<and> terminal d s \<and> decode d s = Inr l"
proof -
  have "w \<in> snd ` set L" using assms(2) by force
  moreover from this obtain s where "run_word (advance d) 0 w = Inr s"
    using reach [OF assms(1), of w] by blast
  ultimately show ?thesis using decode_iff terminal_iff assms by blast
qed

lemma terminal_word:
  assumes "built d L" "run_word (advance d) 0 w = Inr s" "terminal d s"
  shows "\<exists>l. (l, w) \<in> set L \<and> decode d s = Inr l"
proof -
  obtain l where "(l, w) \<in> set L" using terminal_iff [OF assms(1,2)] assms(3) by force
  then show ?thesis using decode_iff [OF assms(1,2)] by blast
qed

lemma run_word_append:
  "run_word f s (v @ w) = (case run_word f s v of Inl e \<Rightarrow> Inl e | Inr s' \<Rightarrow> run_word f s' w)"
  by (induction v arbitrary: s) (auto split: sum.splits)

lemma completes:
  assumes "built d L" "run_word (advance d) 0 w = Inr s"
  shows "\<exists>v s'. run_word (advance d) s v = Inr s' \<and> terminal d s'"
proof -
  obtain l u where "(l, u) \<in> set L" using language [OF assms(1)] by (cases L) auto
  then have "\<exists>u \<in> snd ` set L. prefix w u"
    using reach [OF assms(1), of w] assms(2) by force
  then obtain l v where lv: "(l, w @ v) \<in> set L" by (auto simp: prefix_def)
  from word_decodes [OF assms(1) lv] assms(2) show ?thesis by (auto simp: run_word_append)
qed

lemma stops:
  assumes "built d L" "run_word (advance d) 0 w = Inr s"
  shows "\<exists>arcs. allowed d s = Inr arcs \<and> (terminal d s \<longleftrightarrow> arcs = [])"
proof -
  obtain arcs where arcs: "allowed d s = Inr arcs"
    "\<forall>t n. advance d s t = Inr n \<longleftrightarrow> \<lparr>ga_token = t, ga_next = n\<rparr> \<in> set arcs"
    using allowed_iff [OF assms] by blast
  have "\<exists>a. a \<in> set arcs" if "\<not> terminal d s"
  proof -
    obtain v s' where v: "run_word (advance d) s v = Inr s'" "terminal d s'"
      using completes [OF assms] by blast
    with that obtain t v' where "v = t # v'" by (cases v) auto
    with v arcs(2) show ?thesis by (auto split: sum.splits)
  qed
  moreover have False if t: "terminal d s" and a: "a \<in> set arcs" for a
  proof -
    obtain l where l: "(l, w) \<in> set L" using terminal_word [OF assms t] by blast
    have "\<lparr>ga_token = ga_token a, ga_next = ga_next a\<rparr> = a" by simp
    then have "advance d s (ga_token a) = Inr (ga_next a)" using arcs(2) a by metis
    then have "run_word (advance d) 0 (w @ [ga_token a]) = Inr (ga_next a)"
      using assms(2) by (simp add: run_word_append)
    then obtain k v where kv: "(k, v) \<in> set L" "prefix (w @ [ga_token a]) v"
      using reach [OF assms(1), of "w @ [ga_token a]"] by force
    then have "prefix w v" by (auto simp: prefix_def)
    then have "v = w" using language [OF assms(1)] l kv(1) by fast
    with kv(2) show False by (auto simp: prefix_def)
  qed
  ultimately show ?thesis using arcs(1) by (metis list.set_intros(1) neq_Nil_conv empty_iff list.set(1))
qed

end

definition dfa_built :: "'l dfa \<Rightarrow> ('l \<times> token_id list) list \<Rightarrow> bool" where
  "dfa_built d L \<longleftrightarrow> (\<exists>usable mem config. build_dfa usable mem L config = Inr d)"

definition token_built :: "choice_id dfa \<Rightarrow> (choice_id \<times> token_id list) list \<Rightarrow> bool" where
  "token_built d L \<longleftrightarrow> (\<exists>mem language config. token_build mem language config = Inr d \<and>
     L = map (\<lambda>e. (ec_id e, ec_tokens e)) language)"

definition action_built :: "action dfa \<Rightarrow> (action \<times> token_id list) list \<Rightarrow> bool" where
  "action_built d L \<longleftrightarrow> (\<exists>mem language config. action_build mem language config = Inr d \<and>
     L = map (\<lambda>e. (ea_action e, ea_tokens e)) language)"

lemma dfa_allowed_arcs:
  assumes a: "automaton_for usable config L d ws" and s: "unat s < length ws"
  shows "\<exists>arcs. dfa_allowed d s = Inr arcs \<and> distinct (map ga_token arcs) \<and>
    (\<forall>t n. dfa_advance d s t = Inr n \<longleftrightarrow> \<lparr>ga_token = t, ga_next = n\<rparr> \<in> set arcs)"
proof -
  from a obtain trie ac where "language_trie usable config L trie ac ws" and t: "tables_of trie d"
    by (auto simp: automaton_for_def)
  then have rep: "represents trie ws" by (simp add: language_trie_def inserting_def)
  then have len: "unat s < length trie" using s by (simp add: represents_def)
  let ?cs = "tn_children (trie ! unat s)"
  have sorted: "sorted_wrt (<) (map fst ?cs)"
    and find: "map_of ?cs t = Some n \<longleftrightarrow> unat n < length ws \<and> ws ! unat n = ws ! unat s @ [t]" for t n
    using rep len by (simp_all add: represents_def)
  then have d: "distinct (map fst ?cs)" by (simp add: strict_sorted_iff)
  have member: "\<lparr>ga_token = t, ga_next = n\<rparr> \<in> set (node_arcs (trie ! unat s)) \<longleftrightarrow> (t, n) \<in> set ?cs" for t n
    unfolding node_arcs_def set_map by (auto intro!: image_eqI [of _ _ "(t, n)"])
  have "dfa_advance d s t = Inr n \<longleftrightarrow> \<lparr>ga_token = t, ga_next = n\<rparr> \<in> set (node_arcs (trie ! unat s))" for t n
    unfolding member map_of_eq_Some_iff [OF d, symmetric] find
    using tables_advance [OF t rep, of s t n] s by simp
  moreover have "map ga_token (node_arcs (trie ! unat s)) = map fst ?cs"
    by (simp add: node_arcs_def comp_def case_prod_beta)
  ultimately show ?thesis using tables_allowed [OF t, of s] len d by auto
qed

lemma well_formed_prefix_free:
  assumes "well_formed usable config L" "(l, v) \<in> set L" "(k, w) \<in> set L" "prefix v w"
  shows "l = k \<and> v = w"
proof -
  from assms(2,3) obtain i j where ij: "i < length L" "L ! i = (l, v)" "j < length L" "L ! j = (k, w)"
    by (metis in_set_conv_nth)
  have "\<not> prefix (snd (L ! i)) (snd (L ! j))" if "i \<noteq> j"
    using assms(1) ij(1,3) that unfolding well_formed_def by blast
  then have "i = j" using ij assms(4) by auto
  with ij show ?thesis by simp
qed

interpretation generic: token_automaton dfa_built dfa_advance dfa_allowed dfa_terminal dfa_decode_terminal
proof
  fix d :: "'a dfa" and L w s l
  assume "dfa_built d L"
  then obtain usable config ws where a: "automaton_for usable config L d ws"
    using build_dfa_Inr unfolding dfa_built_def by blast
  note q = automaton_queries [OF a]
  show "(\<exists>s. run_word (dfa_advance d) 0 w = Inr s) \<longleftrightarrow> w = [] \<or> (\<exists>v \<in> snd ` set L. prefix w v)"
    unfolding q(2) q(5) [symmetric] using q(1)
    by (metis in_set_conv_nth nth_mem order.strict_trans unat_u32_of_nat)
  show "L \<noteq> [] \<and> distinct (map fst L) \<and>
      (\<forall>(l, v) \<in> set L. \<forall>(k, w) \<in> set L. prefix v w \<longrightarrow> l = k \<and> v = w)"
    using a q(6) well_formed_prefix_free [OF q(6)] by (auto simp: automaton_for_def well_formed_def)
  assume "run_word (dfa_advance d) 0 w = Inr s"
  then have s: "unat s < length ws" "ws ! unat s = w" unfolding q(2) by blast+
  show "dfa_decode_terminal d s = Inr l \<longleftrightarrow> (l, w) \<in> set L" using q(4) s by simp
  show "dfa_terminal d s \<longleftrightarrow> w \<in> snd ` set L" using q(3) s by simp
  show "\<exists>arcs. dfa_allowed d s = Inr arcs \<and> distinct (map ga_token arcs) \<and>
      (\<forall>t n. dfa_advance d s t = Inr n \<longleftrightarrow> \<lparr>ga_token = t, ga_next = n\<rparr> \<in> set arcs)"
    by (rule dfa_allowed_arcs [OF a s(1)])
qed

lemma token_built_dfa: "token_built d L \<Longrightarrow> dfa_built d L"
  unfolding token_built_def token_build_def dfa_built_def by blast

text \<open>
  The second implementation, with its keys, its order of tests and its loop over the arcs,
  builds the same automaton as the first one and answers alike.
\<close>

lemma action_key_inj [simp]: "action_key a = action_key b \<longleftrightarrow> a = b"
  by (cases a; cases b) (simp add: action_key_def)

text \<open>Every index of a node that the construction follows is in the trie.\<close>

definition closed_trie :: "trie_node list \<Rightarrow> bool" where
  "closed_trie trie \<longleftrightarrow> trie \<noteq> [] \<and>
     (\<forall>node \<in> set trie. \<forall>n \<in> snd ` set (tn_children node). unat n < length trie)"

lemma closed_trie_update:
  assumes "closed_trie trie" "tn_children node = tn_children (trie ! i)" "i < length trie"
  shows "closed_trie (trie[i := node])"
proof -
  have "unat n < length trie" if "m \<in> set (trie[i := node])" "n \<in> snd ` set (tn_children m)" for m n
  proof -
    have "m = node \<or> m \<in> set trie" using that(1) set_update_subset_insert by fast
    then have "\<exists>k \<in> set trie. n \<in> snd ` set (tn_children k)"
      using that(2) assms(2,3) by (metis nth_mem)
    then show ?thesis using assms(1) by (auto simp: closed_trie_def)
  qed
  then show ?thesis using assms(1) by (auto simp: closed_trie_def)
qed

lemma insert_token_closed:
  assumes c: "closed_trie trie" and s: "unat state < length trie"
    and ins: "insert_token config token state (mem, trie, ac) = Inr (n, mem', trie', ac')"
  shows "closed_trie trie' \<and> unat n < length trie'"
proof (cases "map_of (tn_children (trie ! unat state)) token")
  case (Some k)
  then have "trie' = trie" "n = k" using ins by (auto simp: insert_token_def Let_def split: if_splits)
  moreover have "k \<in> snd ` set (tn_children (trie ! unat state))"
    using map_of_SomeD [OF Some] by force
  ultimately show ?thesis using c s by (auto simp: closed_trie_def)
next
  case None
  let ?grown = "trie @ [empty_node]"
  let ?node = "(trie ! unat state)\<lparr>tn_children :=
      emplace_child token (of_nat (length trie)) (tn_children (trie ! unat state))\<rparr>"
  have new: "trie' = ?grown[unat state := ?node]" "n = of_nat (length trie)"
    and "length trie < unat (dc_maximum_states config)"
    using ins None by (auto simp: insert_token_def Let_def split: if_splits option.splits)
  then have n: "unat n = length trie"
    using unat_u32_lt [of "dc_maximum_states config"] by (simp add: unat_u32_of_nat)
  have "unat k < Suc (length trie)" if "m \<in> set trie'" "k \<in> snd ` set (tn_children m)" for m k
  proof -
    have "m = ?node \<or> m \<in> set trie \<or> m = empty_node"
      using that(1) set_update_subset_insert [of ?grown "unat state" ?node] unfolding new(1) by auto
    then have "k = n \<or> (\<exists>m \<in> set trie. k \<in> snd ` set (tn_children m))"
      using that(2) s new(2) by (auto simp: emplace_child_keys empty_node_def) (metis imageI nth_mem snd_conv)
    then show ?thesis using c n unfolding closed_trie_def by (metis less_Suc_eq)
  qed
  then show ?thesis using n new(1) by (auto simp: closed_trie_def)
qed

lemma insert_tokens_closed:
  "closed_trie trie \<Longrightarrow> unat state < length trie \<Longrightarrow>
     insert_tokens config tokens state (mem, trie, ac) = Inr (n, mem', trie', ac') \<Longrightarrow>
     closed_trie trie' \<and> unat n < length trie'"
proof (induction tokens arbitrary: state mem trie ac)
  case (Cons token tokens)
  from Cons.prems(3) obtain k mem1 trie1 ac1 where
    ins: "insert_token config token state (mem, trie, ac) = Inr (k, mem1, trie1, ac1)"
    and rest: "insert_tokens config tokens k (mem1, trie1, ac1) = Inr (n, mem', trie', ac')"
    by (auto split: sum.splits)
  from insert_token_closed [OF Cons.prems(1,2) ins] Cons.IH [OF _ _ rest] show ?case by blast
qed simp

lemma action_insert_token_eq:
  "unat state < length trie \<Longrightarrow>
     action_insert_token config token state (mem, trie, arc_count) =
     insert_token config token state (mem, trie, arc_count)"
  by (auto simp: action_insert_token_def insert_token_def Let_def nth_append
      split: option.splits)

lemma action_insert_tokens_eq:
  "closed_trie trie \<Longrightarrow> unat state < length trie \<Longrightarrow>
     action_insert_tokens config tokens state (mem, trie, ac) =
     insert_tokens config tokens state (mem, trie, ac)"
proof (induction tokens arbitrary: state mem trie ac)
  case (Cons token tokens)
  show ?case
  proof (cases "insert_token config token state (mem, trie, ac)")
    case (Inr r)
    obtain k mem1 trie1 ac1 where r: "r = (k, mem1, trie1, ac1)" by (rule prod_cases4)
    from insert_token_closed [OF Cons.prems Inr [unfolded r]] show ?thesis
      using Inr r Cons.IH Cons.prems(2) by (simp add: action_insert_token_eq)
  qed (use Cons.prems(2) in \<open>simp add: action_insert_token_eq\<close>)
qed simp

lemma action_insert_language_eq:
  "closed_trie trie \<Longrightarrow>
     action_insert_language config language (map action_key actions) actions (mem, trie, ac) =
     insert_language (\<lambda>_. True) config (map (\<lambda>e. (ea_action e, ea_tokens e)) language) actions
       (mem, trie, ac)"
proof (induction language arbitrary: actions mem trie ac)
  case (Cons e language)
  have start: "unat (0 :: u32) < length trie" using Cons.prems by (simp add: closed_trie_def)
  have keys: "action_key (ea_action e) \<in> set (map action_key actions) \<longleftrightarrow> ea_action e \<in> set actions"
    by auto
  have step: "action_insert_language config language
      (map action_key actions @ [action_key (ea_action e)]) (actions @ [ea_action e])
      (mem2, trie2[unat n := (trie2 ! unat n)\<lparr>tn_terminal := t\<rparr>], ac2) =
    insert_language (\<lambda>_. True) config (map (\<lambda>e. (ea_action e, ea_tokens e)) language)
      (actions @ [ea_action e]) (mem2, trie2[unat n := (trie2 ! unat n)\<lparr>tn_terminal := t\<rparr>], ac2)"
    if "insert_tokens config (ea_tokens e) 0 (mem1, trie, ac) = Inr (n, mem2, trie2, ac2)"
    for mem1 n mem2 trie2 ac2 t
    using insert_tokens_closed [OF Cons.prems start that]
      Cons.IH [of "trie2[unat n := (trie2 ! unat n)\<lparr>tn_terminal := t\<rparr>]" "actions @ [ea_action e]"]
    by (simp add: closed_trie_update)
  show ?case
    unfolding action_insert_language.simps list.map insert_language.simps keys fst_conv snd_conv
    using action_insert_tokens_eq [OF Cons.prems start]
    by (auto simp: step Let_def split: option.splits sum.splits)
qed simp

lemma action_tables_eq: "action_tables nodes states arcs = flatten_trie nodes (states, arcs)"
proof (induction nodes arbitrary: states arcs)
  case (Cons node nodes)
  have "fold (\<lambda>(token, n) arcs. arcs @ [\<lparr>ga_token = token, ga_next = n\<rparr>]) cs arcs =
      arcs @ map (\<lambda>(token, n). \<lparr>ga_token = token, ga_next = n\<rparr>) cs" for cs arcs
    by (induction cs arbitrary: arcs) auto
  with Cons show ?case by (simp add: node_arcs_def)
qed simp

lemma action_queries_eq:
  "action_allowed = dfa_allowed" "action_advance = dfa_advance" "action_terminal = dfa_terminal"
  "action_decode_terminal = dfa_decode_terminal"
proof -
  show allowed: "action_allowed = dfa_allowed"
    by (intro ext) (simp add: action_allowed_def dfa_allowed_def action_valid_state_def valid_state_def)
  show "action_advance = dfa_advance"
    by (intro ext) (simp add: action_advance_def dfa_advance_def allowed)
  show "action_terminal = dfa_terminal" "action_decode_terminal = dfa_decode_terminal"
    by (intro ext; simp add: action_terminal_def dfa_terminal_def action_decode_terminal_def
      dfa_decode_terminal_def action_valid_state_def valid_state_def)+
qed

lemma action_build_eq:
  "action_build mem language config =
     build_dfa (\<lambda>_. True) mem (map (\<lambda>e. (ea_action e, ea_tokens e)) language) config"
proof -
  have closed: "closed_trie [empty_node]" by (simp add: closed_trie_def empty_node_def)
  note eq = action_insert_language_eq [OF closed, of config language "[]", unfolded list.map(1)]
  show ?thesis
    unfolding action_build_def build_dfa_def eq action_tables_eq length_map map_is_Nil_conv
    by (rule refl)
qed

lemma action_built_dfa: "action_built d L \<Longrightarrow> dfa_built d L"
  unfolding action_built_def dfa_built_def action_build_eq by blast

interpretation choices: token_automaton token_built token_advance token_allowed token_terminal
    token_decode_terminal
  unfolding token_advance_def token_allowed_def token_terminal_def token_decode_terminal_def
  by unfold_locales
    ((drule token_built_dfa, rule generic.reach generic.decode_iff generic.terminal_iff
      generic.allowed_iff generic.language; assumption)+)

interpretation actions: token_automaton action_built action_advance action_allowed action_terminal
    action_decode_terminal
  unfolding action_queries_eq
  by unfold_locales
    ((drule action_built_dfa, rule generic.reach generic.decode_iff generic.terminal_iff
      generic.allowed_iff generic.language; assumption)+)

end
