(* ===== verification/GrammarBuild.thy ===== *)
theory GrammarBuild
  imports GrammarProps
begin

text \<open>
  When \<open>build\<close> fails. The number of states a language needs is the number of prefixes of
  its words; each failure of the insertion is traced to a word that breaks the language, to
  a limit smaller than that number, or to the memory.
\<close>

definition prefixes_of :: "token_id list set \<Rightarrow> token_id list set" where
  "prefixes_of S = insert [] {p. \<exists>w \<in> S. prefix p w}"

lemma prefixes_as_image: "{u @ p | p. prefix p w} = (\<lambda>p. u @ p) ` set (prefixes w)"
  by auto

lemma finite_prefixes [simp]: "finite {u @ p | p. prefix p w}"
  unfolding prefixes_as_image by simp

lemma finite_prefixes_of: "finite S \<Longrightarrow> finite (prefixes_of S)"
proof -
  assume "finite S"
  moreover have "prefixes_of S = insert [] (\<Union>w \<in> S. set (prefixes w))"
    by (auto simp: prefixes_of_def)
  ultimately show ?thesis by simp
qed

lemma represents_card: "represents trie ws \<Longrightarrow> length trie = card (set ws)"
  by (simp add: represents_def distinct_card)

section \<open>Inserting a word\<close>

text \<open>What a failed insertion into a trie with the words \<open>ws\<close> says, \<open>U\<close> being the words it needs.\<close>

definition insert_failure ::
  "dfa_config \<Rightarrow> bool \<Rightarrow> token_id list set \<Rightarrow> nat \<Rightarrow> status \<Rightarrow> bool" where
  "insert_failure config broken U free e \<longleftrightarrow>
     (e = status_failure Invalid_argument \<and> broken) \<or>
     (e = status_failure Resource_limit \<and>
        (unat (dc_maximum_states config) < card U \<or> Suc (unat (dc_maximum_arcs config)) < card U)) \<or>
     (e = status_failure Allocation_failed \<and> free < 2 * card U)"

lemma insert_failure_mono:
  assumes "insert_failure config broken U free e" "broken \<Longrightarrow> broken'" "U \<subseteq> U'" "finite U'"
    "free' \<le> free"
  shows "insert_failure config broken' U' free' e"
  using assms(1,2,5) card_mono [OF assms(4,3)] unfolding insert_failure_def by linarith

lemma insert_token_Inl:
  assumes inv: "inserting W trie ac ws" and W: "length W < 2 ^ 32"
    and s: "unat state < length trie"
    and bad: "insert_token config token state (mem, trie, ac) = Inl e"
  shows "insert_failure config (dc_vocabulary_size config \<le> token \<or> ws ! unat state \<in> set W)
    (insert (ws ! unat state @ [token]) (set ws)) (mem + 2 * length ws) e"
proof -
  have rep: "represents trie ws" using inv by (simp add: inserting_def)
  then have len: "length ws = length trie" by (simp add: represents_def)
  have "map tn_terminal trie ! unat state = map (mark_of W) ws ! unat state"
    using inv by (simp add: inserting_def)
  then have mark: "tn_terminal (trie ! unat state) \<noteq> no_terminal \<longleftrightarrow> ws ! unat state \<in> set W"
    using s len mark_of_none [OF W] by simp
  show ?thesis
  proof (cases "dc_vocabulary_size config \<le> token \<or> ws ! unat state \<in> set W")
    case True
    then show ?thesis using bad mark by (auto simp: insert_token_def Let_def insert_failure_def)
  next
    case False
    then have new: "map_of (tn_children (trie ! unat state)) token = None"
      using bad mark by (auto simp: insert_token_def Let_def split: option.splits)
    have "card (insert (ws ! unat state @ [token]) (set ws)) = Suc (length ws)"
      using child_new_word [OF rep s new] represents_card [OF rep] len by simp
    moreover have "unat ac + 1 = length ws" using inv by (simp add: inserting_def)
    ultimately show ?thesis
      using bad False new mark len
      by (auto simp: insert_token_def Let_def insert_failure_def not_le word_le_nat_alt
          use_alloc_def split: if_splits option.splits)
  qed
qed

lemma insert_token_mem:
  "insert_token config token state (mem, trie, ac) = Inr (n, mem', trie', ac') \<Longrightarrow>
     mem' + 2 * length trie' = mem + 2 * length trie"
  by (auto simp: insert_token_def Let_def use_alloc_def split: if_splits option.splits)

lemma insert_tokens_mem:
  "insert_tokens config tokens state (mem, trie, ac) = Inr (n, mem', trie', ac') \<Longrightarrow>
     mem' + 2 * length trie' = mem + 2 * length trie"
proof (induction tokens arbitrary: state mem trie ac)
  case (Cons token tokens)
  then show ?case using insert_token_mem by (fastforce split: sum.splits)
qed simp

lemma insert_tokens_Inl:
  assumes "inserting W trie ac ws" "length W < 2 ^ 32" "unat state < length trie"
    "insert_tokens config tokens state (mem, trie, ac) = Inl e"
  shows "insert_failure config
    ((\<exists>t \<in> set tokens. dc_vocabulary_size config \<le> t) \<or>
     (\<exists>p. strict_prefix p tokens \<and> ws ! unat state @ p \<in> set W))
    (set ws \<union> {ws ! unat state @ p | p. prefix p tokens}) (mem + 2 * length ws) e"
  using assms
proof (induction tokens arbitrary: state mem trie ac ws)
  case (Cons token tokens)
  let ?u = "ws ! unat state"
  have small: "finite (set ws \<union> {?u @ p | p. prefix p (token # tokens)})" by simp
  show ?case
  proof (cases "insert_token config token state (mem, trie, ac)")
    case (Inl e')
    then have e: "e' = e" using Cons.prems(4) by simp
    show ?thesis
    proof (rule insert_failure_mono [OF insert_token_Inl [OF Cons.prems(1-3) Inl, unfolded e] _ _ small])
      show "insert (?u @ [token]) (set ws) \<subseteq> set ws \<union> {?u @ p | p. prefix p (token # tokens)}"
        by auto
    next
      assume "dc_vocabulary_size config \<le> token \<or> ?u \<in> set W"
      then show "(\<exists>t \<in> set (token # tokens). dc_vocabulary_size config \<le> t) \<or>
          (\<exists>p. strict_prefix p (token # tokens) \<and> ?u @ p \<in> set W)"
        by (metis append_Nil2 list.set_intros(1) strict_prefix_simps(2))
    qed simp
  next
    case (Inr r)
    then obtain k mem1 trie1 ac1 where
      one: "insert_token config token state (mem, trie, ac) = Inr (k, mem1, trie1, ac1)"
      and rest: "insert_tokens config tokens k (mem1, trie1, ac1) = Inl e"
      using Cons.prems(4) by (cases r) auto
    from insert_token_Inr [OF Cons.prems(1-3) one] obtain ws1 where
      ws1: "inserting W trie1 ac1 ws1" "set ws1 = insert (?u @ [token]) (set ws)"
        "unat k < length ws1" "ws1 ! unat k = ?u @ [token]" by blast
    have len: "length trie1 = length ws1" "length trie = length ws"
      using ws1(1) Cons.prems(1) by (simp_all add: inserting_def represents_def)
    have "unat k < length trie1" using ws1(3) len by simp
    note ih = Cons.IH [OF ws1(1) Cons.prems(2) this rest, unfolded ws1(2,4)]
    show ?thesis
    proof (rule insert_failure_mono [OF ih _ _ small])
      show "insert (?u @ [token]) (set ws) \<union> {(?u @ [token]) @ p | p. prefix p tokens}
          \<subseteq> set ws \<union> {?u @ p | p. prefix p (token # tokens)}"
        by auto
      show "mem + 2 * length ws \<le> mem1 + 2 * length ws1" using insert_token_mem [OF one] len by simp
    next
      assume "(\<exists>t \<in> set tokens. dc_vocabulary_size config \<le> t) \<or>
          (\<exists>p. strict_prefix p tokens \<and> (?u @ [token]) @ p \<in> set W)"
      then show "(\<exists>t \<in> set (token # tokens). dc_vocabulary_size config \<le> t) \<or>
          (\<exists>p. strict_prefix p (token # tokens) \<and> ?u @ p \<in> set W)"
      proof
        assume "\<exists>p. strict_prefix p tokens \<and> (?u @ [token]) @ p \<in> set W"
        then obtain p where "strict_prefix (token # p) (token # tokens)" "?u @ token # p \<in> set W"
          by auto
        then show ?thesis by blast
      qed auto
    qed
  qed
qed simp

section \<open>Inserting the language\<close>

text \<open>A word that cannot be added to the language so far.\<close>

lemma not_well_formed:
  assumes "\<not> (usable l \<and> w \<noteq> [] \<and> length w \<le> unat (dc_maximum_sequence_tokens config) \<and>
      (\<forall>t \<in> set w. t < dc_vocabulary_size config)) \<or> l \<in> fst ` set L \<or>
    (\<exists>v \<in> snd ` set L. prefix v w \<or> prefix w v)"
  shows "\<not> well_formed usable config (L @ (l, w) # rest)"
proof
  assume wf: "well_formed usable config (L @ (l, w) # rest)"
  then have "l \<notin> fst ` set L" and
    "usable l \<and> w \<noteq> [] \<and> length w \<le> unat (dc_maximum_sequence_tokens config) \<and>
      (\<forall>t \<in> set w. t < dc_vocabulary_size config)"
    by (auto simp: well_formed_def)
  with assms obtain k v where v: "(k, v) \<in> set L" "prefix v w \<or> prefix w v" by force
  then have "k = l"
    using well_formed_prefix_free [OF wf, of k v l w] well_formed_prefix_free [OF wf, of l w k v]
    by auto
  with v(1) \<open>l \<notin> fst ` set L\<close> show False by force
qed

lemma insert_language_Inl:
  assumes "language_trie usable config L trie ac ws" "labels = map fst L"
    "length L + length rest < 2 ^ 32"
    "insert_language usable config rest labels (mem, trie, ac) = Inl e"
  shows "insert_failure config (\<not> well_formed usable config (L @ rest))
    (prefixes_of (snd ` set (L @ rest))) (mem + 2 * length ws - length rest) e"
  using assms
proof (induction rest arbitrary: L labels mem trie ac ws)
  case (Cons x rest)
  obtain l w where x: "x = (l, w)" by (cases x)
  have inv: "inserting (map snd L) trie ac ws" using Cons.prems(1) by (simp add: language_trie_def)
  then have ws0: "0 < length ws" "ws ! 0 = []" "length ws = length trie" "represents trie ws"
    by (auto simp: inserting_def represents_def hd_conv_nth)
  have small: "length (map snd L) < 2 ^ 32" using Cons.prems(3) by simp
  have U: "finite (prefixes_of (snd ` set (L @ x # rest)))" by (simp add: finite_prefixes_of)
  have words: "set ws = prefixes_of (snd ` set L)"
    using Cons.prems(1) by (simp add: language_trie_def prefixes_of_def)
  have pos: "length ws \<le> card (prefixes_of (snd ` set (L @ x # rest)))"
    using card_mono [OF U, of "set ws"] words ws0(3) represents_card [OF ws0(4)]
    by (auto simp: prefixes_of_def)
  show ?case
  proof (cases "\<not> usable l \<or> w = [] \<or> unat (dc_maximum_sequence_tokens config) < length w \<or>
      l \<in> set labels")
    case True
    then have "e = status_failure Invalid_argument" using Cons.prems(4) by (auto simp: x)
    moreover have "\<not> well_formed usable config (L @ (l, w) # rest)"
      using True Cons.prems(2) by (intro not_well_formed) auto
    ultimately show ?thesis by (simp add: insert_failure_def x)
  next
    case ok: False
    show ?thesis
    proof (cases mem)
      case 0
      then have "e = status_failure Allocation_failed"
        using Cons.prems(4) ok by (auto simp: x use_alloc_def)
      then show ?thesis
        using 0 pos ws0(1) by (simp add: insert_failure_def del: length_greater_0_conv)
    next
      case (Suc mem1)
      have start: "unat (0 :: u32) < length trie" using ws0 by simp
      show ?thesis
      proof (cases "insert_tokens config w 0 (mem1, trie, ac)")
        case (Inl e')
        then have e: "e' = e" using Cons.prems(4) ok Suc by (auto simp: x use_alloc_def)
        note bad = insert_tokens_Inl [OF inv small start Inl, unfolded e, simplified, unfolded ws0(2), simplified]
        show ?thesis
        proof (rule insert_failure_mono [OF bad _ _ U])
          show "set ws \<union> {p. prefix p w} \<subseteq> prefixes_of (snd ` set (L @ x # rest))"
            unfolding words by (auto simp: prefixes_of_def x)
          show "mem + 2 * length ws - length (x # rest) \<le> mem1 + 2 * length ws" using Suc by simp
          assume "(\<exists>t \<in> set w. dc_vocabulary_size config \<le> t) \<or>
            (\<exists>p. strict_prefix p w \<and> p \<in> snd ` set L)"
          then show "\<not> well_formed usable config (L @ x # rest)"
            unfolding x by (intro not_well_formed) (auto simp: not_less strict_prefix_def)
        qed
      next
        case (Inr r)
        then obtain n mem2 trie1 ac1 where
          ins: "insert_tokens config w 0 (mem1, trie, ac) = Inr (n, mem2, trie1, ac1)"
          by (cases r) auto
        obtain ws' where ws': "inserting (map snd L) trie1 ac1 ws'"
          "set ws' = set ws \<union> {p. prefix p w}" "unat n < length ws'" "ws' ! unat n = w"
          using insert_tokens_Inr [OF inv small start ins] ws0(2) by auto
        have rep': "represents trie1 ws'" "length ws' = length trie1"
          using ws'(1) by (simp_all add: inserting_def represents_def)
        show ?thesis
        proof (cases "tn_terminal (trie1 ! unat n) \<noteq> no_terminal \<or> tn_children (trie1 ! unat n) \<noteq> []")
          case True
          then have "e = status_failure Invalid_argument"
            using Cons.prems(4) ok Suc ins by (auto simp: x use_alloc_def Let_def)
          moreover have "\<exists>v \<in> snd ` set L. prefix v w \<or> prefix w v"
          proof (cases "w \<in> snd ` set L")
            case False
            then have "tn_terminal (trie1 ! unat n) = no_terminal"
              using ws' rep'(2) mark_of_none [OF small, of w]
              by (simp add: inserting_def) (metis length_map nth_map)
            then obtain t k where "(t, k) \<in> set (tn_children (trie1 ! unat n))"
              using True by (cases "tn_children (trie1 ! unat n)") auto
            then have "\<exists>k. map_of (tn_children (trie1 ! unat n)) t = Some k"
              by (meson weak_map_of_SomeI)
            then have "w @ [t] \<in> set ws'"
              using rep' ws'(3,4) by (auto simp: represents_def) (metis nth_mem)
            then have "w @ [t] \<in> set ws" using ws'(2) by (auto dest: prefix_length_le)
            then show ?thesis unfolding words prefixes_of_def by (auto dest: append_prefixD)
          qed auto
          then have "\<not> well_formed usable config (L @ (l, w) # rest)" by (intro not_well_formed) blast
          ultimately show ?thesis by (simp add: insert_failure_def x)
        next
          case False
          let ?trie = "trie1[unat n := (trie1 ! unat n)\<lparr>tn_terminal := of_nat (length labels)\<rparr>]"
          have rest: "insert_language usable config rest (labels @ [l]) (mem2, ?trie, ac1) = Inl e"
            using Cons.prems(4) ok Suc ins False by (auto simp: x use_alloc_def Let_def)
          have "length L < 2 ^ 32" using small by simp
          from insert_word [OF Cons.prems(1) this _ _ _ _ ins] ok False Cons.prems(2) obtain ws2 where
            lt: "language_trie usable config (L @ [(l, w)]) ?trie ac1 ws2" by auto
          have len: "length ws2 = length trie1"
            using lt by (simp add: language_trie_def inserting_def represents_def)
          have "insert_failure config (\<not> well_formed usable config ((L @ [(l, w)]) @ rest))
              (prefixes_of (snd ` set ((L @ [(l, w)]) @ rest))) (mem2 + 2 * length ws2 - length rest) e"
            by (rule Cons.IH [OF lt _ _ rest]) (use Cons.prems(2,3) in simp_all)
          moreover have "mem2 + 2 * length ws2 - length rest = mem + 2 * length ws - length (x # rest)"
            using insert_tokens_mem [OF ins] len ws0(3) Suc by simp
          ultimately show ?thesis by (simp add: x)
        qed
      qed
    qed
  qed
qed simp

lemma insert_language_mem:
  "insert_language usable config rest labels (mem, trie, ac) = Inr (labels', mem', trie', ac') \<Longrightarrow>
     mem' + 2 * length trie' + length rest = mem + 2 * length trie"
proof (induction rest arbitrary: labels mem trie ac)
  case (Cons x rest)
  obtain l w where x: "x = (l, w)" by (cases x)
  from Cons.prems obtain n mem1 trie1 ac1 labels1 trie2 where
    mem: "mem \<noteq> 0" and ins: "insert_tokens config w 0 (mem - 1, trie, ac) = Inr (n, mem1, trie1, ac1)"
    and rest: "insert_language usable config rest labels1 (mem1, trie2, ac1) = Inr (labels', mem', trie', ac')"
    and len: "length trie2 = length trie1"
    by (auto simp: x Let_def use_alloc_def split: if_splits option.splits sum.splits)
  from Cons.IH [OF rest] insert_tokens_mem [OF ins] mem len show ?case by simp
qed simp

lemma insert_token_arcs:
  "insert_token config token state (mem, trie, ac) = Inr (n, mem', trie', ac') \<Longrightarrow>
     ac \<le> dc_maximum_arcs config \<Longrightarrow> ac' \<le> dc_maximum_arcs config"
  by (auto simp: insert_token_def Let_def not_le inc_le split: if_splits option.splits)

lemma insert_tokens_arcs:
  "insert_tokens config tokens state (mem, trie, ac) = Inr (n, mem', trie', ac') \<Longrightarrow>
     ac \<le> dc_maximum_arcs config \<Longrightarrow> ac' \<le> dc_maximum_arcs config"
proof (induction tokens arbitrary: state mem trie ac)
  case (Cons token tokens)
  then show ?case using insert_token_arcs by (fastforce split: sum.splits)
qed simp

lemma insert_language_arcs:
  "insert_language usable config rest labels (mem, trie, ac) = Inr (labels', mem', trie', ac') \<Longrightarrow>
     ac \<le> dc_maximum_arcs config \<Longrightarrow> ac' \<le> dc_maximum_arcs config"
proof (induction rest arbitrary: labels mem trie ac)
  case (Cons x rest)
  obtain l w where x: "x = (l, w)" by (cases x)
  from Cons.prems(1) obtain n mem0 mem1 trie1 ac1 labels1 trie2 where
    ins: "insert_tokens config w 0 (mem0, trie, ac) = Inr (n, mem1, trie1, ac1)"
    and rest: "insert_language usable config rest labels1 (mem1, trie2, ac1) = Inr (labels', mem', trie', ac')"
    by (auto simp: x Let_def split: if_splits option.splits sum.splits)
  from Cons.IH [OF rest insert_tokens_arcs [OF ins Cons.prems(2)]] show ?case .
qed simp

section \<open>build\<close>

definition config_positive :: "dfa_config \<Rightarrow> bool" where
  "config_positive config \<longleftrightarrow>
     dc_vocabulary_size config \<noteq> 0 \<and> dc_maximum_sequence_tokens config \<noteq> 0 \<and>
     dc_maximum_labels config \<noteq> 0 \<and> dc_maximum_states config \<noteq> 0 \<and> dc_maximum_arcs config \<noteq> 0"

text \<open>What a failed build says about its arguments; no failure is \<open>invalid_format\<close>.\<close>

definition build_failure ::
  "('l \<Rightarrow> bool) \<Rightarrow> nat \<Rightarrow> ('l \<times> token_id list) list \<Rightarrow> dfa_config \<Rightarrow> status \<Rightarrow> bool" where
  "build_failure usable mem L config e \<longleftrightarrow>
     (let n = card (prefixes_of (snd ` set L))
      in (e = status_failure Invalid_argument \<and>
            \<not> (L \<noteq> [] \<and> config_positive config \<and> well_formed usable config L)) \<or>
         (e = status_failure Resource_limit \<and>
            (unat (dc_maximum_labels config) < length L \<or> unat (dc_maximum_states config) < n \<or>
             Suc (unat (dc_maximum_arcs config)) < n)) \<or>
         (e = status_failure Allocation_failed \<and> mem < 2 * n + length L + 2))"

lemma build_dfa_Inl:
  assumes "build_dfa usable mem L config = Inl e"
  shows "build_failure usable mem L config e"
proof (cases "L \<noteq> [] \<and> config_positive config \<and> length L \<le> unat (dc_maximum_labels config)")
  case False
  then show ?thesis
    using assms by (auto simp: build_dfa_def build_failure_def config_positive_def Let_def
        split: if_splits)
next
  case True
  then have states: "dc_maximum_states config \<noteq> 0" by (simp add: config_positive_def)
  have small: "length L < 2 ^ 32" using True unat_u32_lt [of "dc_maximum_labels config"] by simp
  show ?thesis
  proof (cases "mem < 2")
    case True
    then have "e = status_failure Allocation_failed"
      using assms \<open>L \<noteq> [] \<and> _\<close> by (auto simp: build_dfa_def config_positive_def use_alloc_def
          split: if_splits option.splits)
    then show ?thesis using True by (simp add: build_failure_def Let_def)
  next
    case False
    then obtain mem1 where mem: "mem = mem1 + 2" by (metis add.commute le_Suc_ex not_less)
    let ?n = "card (prefixes_of (snd ` set L))"
    show ?thesis
    proof (cases "insert_language usable config L [] (mem1, [empty_node], 0)")
      case (Inl e')
      then have e: "e' = e" using assms True mem
        by (auto simp: build_dfa_def config_positive_def use_alloc_def)
      have "insert_failure config (\<not> well_formed usable config L) (prefixes_of (snd ` set L))
          (mem1 + 2 - length L) e"
        using insert_language_Inl [OF empty_language_trie [OF states] _ _ Inl [unfolded e]] small
        by simp
      then show ?thesis using mem by (auto simp: insert_failure_def build_failure_def Let_def)
    next
      case (Inr r)
      then obtain labels mem2 trie ac where
        ins: "insert_language usable config L [] (mem1, [empty_node], 0) = Inr (labels, mem2, trie, ac)"
        by (cases r) auto
      from insert_language_Inr [OF empty_language_trie [OF states] _ _ ins] small obtain ws where
        lt: "language_trie usable config L trie ac ws" and labels: "labels = map fst L" by auto
      have n: "length trie = ?n" "(\<Sum>node\<leftarrow>trie. length (tn_children node)) = unat ac"
        using lt represents_card [of trie ws]
        by (simp_all add: language_trie_def inserting_def prefixes_of_def)
      have "length (snd (flatten_trie trie ([], []))) = unat ac"
        using flatten_tables [of trie "fst (flatten_trie trie ([], []))"
            "snd (flatten_trie trie ([], []))" "[] :: unit list"] n(2) unat_u32_lt [of ac] by simp
      then have "e = status_failure Allocation_failed \<and> mem2 < 2"
        using assms True mem ins labels
        by (auto simp: build_dfa_def config_positive_def use_alloc_def use_reserve_def Let_def
            case_prod_beta split: if_splits option.splits)
      then show ?thesis
        using insert_language_mem [OF ins] n(1) mem by (simp add: build_failure_def Let_def)
    qed
  qed
qed

lemma build_dfa_limits:
  assumes "build_dfa usable mem L config = Inr d"
  shows "L \<noteq> [] \<and> config_positive config \<and> well_formed usable config L \<and>
    length L \<le> unat (dc_maximum_labels config) \<and> df_labels d = map fst L \<and>
    length (df_states d) = card (prefixes_of (snd ` set L)) \<and>
    length (df_states d) = Suc (length (df_arcs d)) \<and>
    length (df_states d) \<le> unat (dc_maximum_states config) \<and>
    length (df_arcs d) \<le> unat (dc_maximum_arcs config)"
proof -
  obtain ws where a: "automaton_for usable config L d ws" using build_dfa_Inr [OF assms] ..
  from assms obtain mem1 labels mem2 trie ac where
    ins: "insert_language usable config L [] (mem1, [empty_node], 0) = Inr (labels, mem2, trie, ac)"
    and "length (df_arcs d) = unat ac"
    by (auto simp: build_dfa_def Let_def split: if_splits option.splits sum.splits prod.splits)
  moreover have "ac \<le> dc_maximum_arcs config" by (rule insert_language_arcs [OF ins]) simp
  ultimately have arcs: "length (df_arcs d) \<le> unat (dc_maximum_arcs config)"
    by (simp add: word_le_nat_alt)
  note q = automaton_queries [OF a]
  have "set ws = prefixes_of (snd ` set L)" using q(5) by (auto simp: prefixes_of_def)
  then have "length (df_states d) = card (prefixes_of (snd ` set L))"
    using q(1) by (metis distinct_card)
  moreover have "config_positive config \<and> length L \<le> unat (dc_maximum_labels config)"
    using assms by (auto simp: build_dfa_def config_positive_def split: if_splits)
  ultimately show ?thesis using a q(6) arcs by (simp add: automaton_for_def)
qed

section \<open>Labels do not matter\<close>

definition relabel :: "('k \<Rightarrow> 'l) \<Rightarrow> 'k dfa \<Rightarrow> 'l dfa" where
  "relabel f d = \<lparr>df_states = df_states d, df_arcs = df_arcs d, df_labels = map f (df_labels d)\<rparr>"

lemma insert_language_relabel:
  assumes "inj_on f (set labels \<union> fst ` set rest)"
    "\<forall>l \<in> fst ` set rest. usable' (f l) \<longleftrightarrow> usable l"
  shows "insert_language usable' config (map (apfst f) rest) (map f labels) b =
    map_sum id (apfst (map f)) (insert_language usable config rest labels b)"
  using assms
proof (induction rest arbitrary: labels b)
  case (Cons x rest)
  obtain l w where x: "x = (l, w)" by (cases x)
  have "f l \<in> set (map f labels) \<longleftrightarrow> l \<in> set labels"
    using Cons.prems(1) by (auto simp: x inj_on_def)
  moreover have "usable' (f l) \<longleftrightarrow> usable l" using Cons.prems(2) by (simp add: x)
  moreover have "insert_language usable' config (map (apfst f) rest) (map f (labels @ [l])) b' =
      map_sum id (apfst (map f)) (insert_language usable config rest (labels @ [l]) b')" for b'
    using Cons.prems by (intro Cons.IH) (auto simp: x insert_commute)
  ultimately show ?case
    by (auto simp: x Let_def id_def split: option.splits sum.splits)
qed simp

lemma build_dfa_relabel:
  assumes "inj_on f (fst ` set L)" "\<forall>l \<in> fst ` set L. usable' (f l) \<longleftrightarrow> usable l"
  shows "build_dfa usable' mem (map (apfst f) L) config =
    map_sum id (relabel f) (build_dfa usable mem L config)"
proof -
  have "insert_language usable' config (map (apfst f) L) [] b =
      map_sum id (apfst (map f)) (insert_language usable config L [] b)" for b
    using insert_language_relabel [of f "[]" L usable' usable config b] assms by simp
  then show ?thesis
    by (auto simp: build_dfa_def Let_def relabel_def split: option.splits sum.splits prod.splits)
qed

lemma queries_relabel:
  "dfa_allowed (relabel f d) s = dfa_allowed d s"
  "dfa_advance (relabel f d) s t = dfa_advance d s t"
  "dfa_terminal (relabel f d) s = dfa_terminal d s"
  "dfa_decode_terminal (relabel f d) s = map_sum id f (dfa_decode_terminal d s)"
  by (auto simp: relabel_def dfa_allowed_def dfa_advance_def dfa_terminal_def
      dfa_decode_terminal_def valid_state_def Let_def split: sum.splits list.splits)

end
