(* ===== verification/Catalog.thy ===== *)
theory Catalog
  imports GrammarProps Market
begin

text \<open>
  \<open>grammar/smollm2_market_actions.cpp\<close>: the catalogue of market actions with the tokens
  that spell them, and the decoding of an action through the catalogue of
  \<open>tools/market_trace.cpp\<close>. The generated tables \<open>kGeneratedEntries\<close> and
  \<open>kGeneratedTokens\<close> are arguments.
\<close>

record generated_catalog_entry =
  gce_kind :: action_kind
  gce_quantity :: u8
  gce_tick :: u8
  gce_token_offset :: u32
  gce_token_count :: u8

record action_catalog =
  cat_dfa :: "action dfa"
  cat_entries :: "encoded_action list"

text \<open>An \<^typ>\<open>action_kind\<close> has the three enumerators only, so the last return is not a case.\<close>

definition generated_action :: "generated_catalog_entry \<Rightarrow> action result" where
  "generated_action entry =
     (case gce_kind entry of
        Hold \<Rightarrow> if gce_quantity entry \<noteq> 0 \<or> gce_tick entry \<noteq> 0 then fail Invalid_format
                else Inr action_hold
      | Buy_yes \<Rightarrow> buy_yes (ucast (gce_quantity entry)) (ucast (gce_tick entry))
      | Sell_yes \<Rightarrow> sell_yes (ucast (gce_quantity entry)) (ucast (gce_tick entry)))"

text \<open>The loop over the generated entries; each word is an allocation.\<close>

fun catalog_entries ::
  "generated_catalog_entry list \<Rightarrow> token_id list \<Rightarrow> nat \<Rightarrow> (nat \<times> encoded_action list) result" where
  "catalog_entries [] tokens mem = Inr (mem, [])"
| "catalog_entries (generated # rest) tokens mem =
     (let end_token = (ucast (gce_token_offset generated) :: u64) + ucast (gce_token_count generated)
      in case generated_action generated of
           Inl _ \<Rightarrow> fail Invalid_format
         | Inr action \<Rightarrow>
             if gce_token_count generated = 0 \<or> unat end_token > length tokens
             then fail Invalid_format
             else
               (case use_alloc mem of
                  None \<Rightarrow> fail Allocation_failed
                | Some mem' \<Rightarrow>
                    (case catalog_entries rest tokens mem' of
                       Inl e \<Rightarrow> Inl e
                     | Inr (mem'', entries) \<Rightarrow>
                         Inr (mem'', \<lparr>ea_action = action,
                           ea_tokens = take (unat (gce_token_count generated))
                             (drop (unat (gce_token_offset generated)) tokens)\<rparr> # entries))))"

definition catalog_vocabulary_size :: u32 where "catalog_vocabulary_size = 49152"

definition catalog_config :: dfa_config where
  "catalog_config =
     \<lparr>dc_vocabulary_size = catalog_vocabulary_size, dc_maximum_sequence_tokens = 12,
      dc_maximum_labels = 4096, dc_maximum_states = 65536, dc_maximum_arcs = 65536\<rparr>"

definition catalog_create ::
  "generated_catalog_entry list \<Rightarrow> token_id list \<Rightarrow> nat \<Rightarrow> action_catalog result" where
  "catalog_create generated tokens mem =
     (case use_reserve (length generated) mem of
        None \<Rightarrow> fail Allocation_failed
      | Some mem1 \<Rightarrow>
          (case catalog_entries generated tokens mem1 of
             Inl e \<Rightarrow> Inl e
           | Inr (mem2, entries) \<Rightarrow>
               (case action_build mem2 entries catalog_config of
                  Inl e \<Rightarrow> Inl e
                | Inr d \<Rightarrow> Inr \<lparr>cat_dfa = d, cat_entries = entries\<rparr>)))"

definition catalog_tokens :: "action_catalog \<Rightarrow> action \<Rightarrow> token_id list result" where
  "catalog_tokens catalog a =
     (case List.find (\<lambda>entry. ea_action entry = a) (cat_entries catalog) of
        Some entry \<Rightarrow> Inr (ea_tokens entry)
      | None \<Rightarrow> fail Invalid_argument)"

section \<open>market\_trace\<close>

text \<open>The loop of \<open>decode\<close> over the tokens of an action.\<close>

fun trace_advance :: "action dfa \<Rightarrow> grammar_state \<Rightarrow> token_id list \<Rightarrow> grammar_state result" where
  "trace_advance d state [] = Inr state"
| "trace_advance d state (token # tokens) =
     (case action_advance d state token of
        Inl e \<Rightarrow> Inl e
      | Inr next_state \<Rightarrow> trace_advance d next_state tokens)"

definition trace_decode :: "action_catalog \<Rightarrow> action \<Rightarrow> action result" where
  "trace_decode catalog a =
     (case catalog_tokens catalog a of
        Inl e \<Rightarrow> Inl e
      | Inr tokens \<Rightarrow>
          (case trace_advance (cat_dfa catalog) 0 tokens of
             Inl e \<Rightarrow> Inl e
           | Inr state \<Rightarrow> action_decode_terminal (cat_dfa catalog) state))"

text \<open>\<open>append\<close>: the batch grows by the decoded action of the agent, or stays.\<close>

definition trace_append ::
  "agent_action list \<Rightarrow> action_catalog \<Rightarrow> agent_id \<Rightarrow> action \<Rightarrow> bool \<times> agent_action list" where
  "trace_append batch catalog agent a =
     (case trace_decode catalog a of
        Inl _ \<Rightarrow> (False, batch)
      | Inr decoded \<Rightarrow> (True, batch @ [\<lparr>aa_agent = agent, aa_action = decoded\<rparr>]))"

section \<open>Facts\<close>

lemma trace_advance_run: "trace_advance d s ts = run_word (action_advance d) s ts"
  by (induction ts arbitrary: s) (auto split: sum.splits)

lemma generated_action_valid: "generated_action entry = Inr a \<Longrightarrow> action_valid a"
  by (auto simp: generated_action_def intro: action_valid_built
      split: action_kind.splits if_splits)

lemma catalog_entries_valid:
  "catalog_entries generated tokens mem = Inr (mem', entries) \<Longrightarrow>
     list_all (\<lambda>e. action_valid (ea_action e)) entries \<and> length entries = length generated"
  by (induction generated arbitrary: mem entries)
    (auto simp: Let_def generated_action_valid split: sum.splits option.splits if_splits)

lemma catalog_create_built:
  assumes "catalog_create generated tokens mem = Inr catalog"
  shows "action_built (cat_dfa catalog)
      (map (\<lambda>e. (ea_action e, ea_tokens e)) (cat_entries catalog))"
    and "list_all (\<lambda>e. action_valid (ea_action e)) (cat_entries catalog)"
    and "length (cat_entries catalog) = length generated"
proof -
  obtain mem1 mem2 where
    entries: "catalog_entries generated tokens mem1 = Inr (mem2, cat_entries catalog)"
    and build: "action_build mem2 (cat_entries catalog) catalog_config = Inr (cat_dfa catalog)"
    using assms by (auto simp: catalog_create_def split: sum.splits option.splits)
  show "action_built (cat_dfa catalog) (map (\<lambda>e. (ea_action e, ea_tokens e)) (cat_entries catalog))"
    using build unfolding action_built_def by blast
  show "list_all (\<lambda>e. action_valid (ea_action e)) (cat_entries catalog)"
    "length (cat_entries catalog) = length generated"
    using catalog_entries_valid [OF entries] by blast+
qed

lemma catalog_decodes:
  assumes "catalog_create generated tokens mem = Inr catalog"
  shows "trace_decode catalog a =
    (if a \<in> ea_action ` set (cat_entries catalog) then Inr a else fail Invalid_argument)"
proof (cases "List.find (\<lambda>entry. ea_action entry = a) (cat_entries catalog)")
  case None
  then have "a \<notin> ea_action ` set (cat_entries catalog)" by (auto simp: find_None_iff)
  then show ?thesis using None by (simp add: trace_decode_def catalog_tokens_def)
next
  case (Some entry)
  then have e: "entry \<in> set (cat_entries catalog)" "ea_action entry = a"
    by (auto dest: find_SomeD)
  then have "(a, ea_tokens entry) \<in> set (map (\<lambda>e. (ea_action e, ea_tokens e)) (cat_entries catalog))"
    by force
  from actions.word_decodes [OF catalog_create_built(1) [OF assms] this] Some e show ?thesis
    by (auto simp: trace_decode_def catalog_tokens_def trace_advance_run)
qed

end
