(* ===== verification/GrammarClaims.thy ===== *)
theory GrammarClaims
  imports GrammarBuild Catalog
begin

text \<open>
  What the token automata and the action catalogue promise: exact acceptance, progress of
  constrained generation, when \<open>build\<close> succeeds, that the two classes agree, and the
  round trip through the catalogue.
\<close>

section \<open>A small language\<close>

definition demo_config :: dfa_config where
  "demo_config = \<lparr>dc_vocabulary_size = 100, dc_maximum_sequence_tokens = 4,
     dc_maximum_labels = 8, dc_maximum_states = 16, dc_maximum_arcs = 16\<rparr>"

definition demo_choices :: "encoded_choice list" where
  "demo_choices = [\<lparr>ec_id = 7, ec_tokens = [5, 9]\<rparr>, \<lparr>ec_id = 3, ec_tokens = [5, 2, 1]\<rparr>,
     \<lparr>ec_id = 4, ec_tokens = [8]\<rparr>]"

definition demo_dfa :: "choice_id dfa" where
  "demo_dfa = \<lparr>df_states = [\<lparr>sr_first_arc = 0, sr_arc_count = 2, sr_terminal = no_terminal\<rparr>,
       \<lparr>sr_first_arc = 2, sr_arc_count = 2, sr_terminal = no_terminal\<rparr>,
       \<lparr>sr_first_arc = 4, sr_arc_count = 0, sr_terminal = 0\<rparr>,
       \<lparr>sr_first_arc = 4, sr_arc_count = 1, sr_terminal = no_terminal\<rparr>,
       \<lparr>sr_first_arc = 5, sr_arc_count = 0, sr_terminal = 1\<rparr>,
       \<lparr>sr_first_arc = 5, sr_arc_count = 0, sr_terminal = 2\<rparr>],
     df_arcs = [\<lparr>ga_token = 5, ga_next = 1\<rparr>, \<lparr>ga_token = 8, ga_next = 5\<rparr>,
       \<lparr>ga_token = 2, ga_next = 3\<rparr>, \<lparr>ga_token = 9, ga_next = 2\<rparr>,
       \<lparr>ga_token = 1, ga_next = 4\<rparr>],
     df_labels = [7, 3, 4]\<rparr>"

lemma demo_build: "token_build 100 demo_choices demo_config = Inr demo_dfa"
  unfolding token_build_def demo_choices_def demo_config_def demo_dfa_def by code_simp

definition demo_entries :: "generated_catalog_entry list" where
  "demo_entries = [\<lparr>gce_kind = Hold, gce_quantity = 0, gce_tick = 0, gce_token_offset = 0, gce_token_count = 1\<rparr>,
     \<lparr>gce_kind = Buy_yes, gce_quantity = 2, gce_tick = 40, gce_token_offset = 1, gce_token_count = 3\<rparr>]"

definition demo_catalog_entries :: "encoded_action list" where
  "demo_catalog_entries = [\<lparr>ea_action = action_hold, ea_tokens = [10]\<rparr>,
     \<lparr>ea_action = \<lparr>act_kind = Buy_yes, act_quantity = 2, act_price_tick = 40\<rparr>, ea_tokens = [11, 12, 13]\<rparr>]"

lemma demo_entries:
  "catalog_entries demo_entries [10, 11, 12, 13] 99 = Inr (97, demo_catalog_entries)"
  by (simp add: demo_entries_def demo_catalog_entries_def Let_def generated_action_def
      buy_yes_def use_alloc_def)

lemma demo_action_build: "\<exists>d. action_build 97 demo_catalog_entries catalog_config = Inr d"
  by (simp add: demo_catalog_entries_def action_build_eq build_dfa_def catalog_config_def
      catalog_vocabulary_size_def use_alloc_def use_reserve_def insert_token_def Let_def
      empty_node_def action_hold_def node_arcs_def word_le_nat_alt word_less_nat_alt)

definition demo_catalog :: action_catalog where
  "demo_catalog = (case catalog_create demo_entries [10, 11, 12, 13] 100 of Inr c \<Rightarrow> c)"

lemma demo_catalog:
  "catalog_create demo_entries [10, 11, 12, 13] 100 = Inr demo_catalog"
  "cat_entries demo_catalog = demo_catalog_entries"
proof -
  obtain d where d: "action_build 97 demo_catalog_entries catalog_config = Inr d"
    using demo_action_build ..
  have "use_reserve (length demo_entries) 100 = Some 99"
    by (simp add: demo_entries_def use_reserve_def use_alloc_def)
  then have "catalog_create demo_entries [10, 11, 12, 13] 100 =
      Inr \<lparr>cat_dfa = d, cat_entries = demo_catalog_entries\<rparr>"
    using demo_entries d by (simp add: catalog_create_def)
  then show "catalog_create demo_entries [10, 11, 12, 13] 100 = Inr demo_catalog"
    "cat_entries demo_catalog = demo_catalog_entries"
    by (simp_all add: demo_catalog_def)
qed

section \<open>Acceptance\<close>

abbreviation choice_words :: "encoded_choice list \<Rightarrow> (choice_id \<times> token_id list) list" where
  "choice_words language \<equiv> map (\<lambda>e. (ec_id e, ec_tokens e)) language"

abbreviation action_words :: "encoded_action list \<Rightarrow> (action \<times> token_id list) list" where
  "action_words language \<equiv> map (\<lambda>e. (ea_action e, ea_tokens e)) language"

lemma choice_words_member:
  "(i, w) \<in> set (choice_words language) \<longleftrightarrow> \<lparr>ec_id = i, ec_tokens = w\<rparr> \<in> set language"
proof (induction language)
  case (Cons e language)
  then show ?case by (cases e) auto
qed simp

lemma token_builtI: "token_build mem language config = Inr d \<Longrightarrow> token_built d (choice_words language)"
  unfolding token_built_def by blast

text \<open>
  (C21) A choice automaton decodes a sequence of tokens to a choice id exactly when the
  language lists the sequence under that id, and it is in a terminal state exactly after a
  listed sequence: nothing outside the language is accepted and nothing in it is lost.
\<close>

theorem token_dfa_accepts_exactly:
  assumes "token_build mem language config = Inr d"
  shows "((\<exists>s. run_word (token_advance d) 0 w = Inr s \<and> token_decode_terminal d s = Inr i) \<longleftrightarrow>
      \<lparr>ec_id = i, ec_tokens = w\<rparr> \<in> set language) \<and>
    (\<forall>s. run_word (token_advance d) 0 w = Inr s \<longrightarrow>
      token_terminal d s = (w \<in> ec_tokens ` set language))"
proof -
  note b = token_builtI [OF assms]
  have "(i, w) \<in> set (choice_words language) \<longleftrightarrow> \<lparr>ec_id = i, ec_tokens = w\<rparr> \<in> set language"
    by (rule choice_words_member)
  moreover have "(\<exists>s. run_word (token_advance d) 0 w = Inr s \<and> token_decode_terminal d s = Inr i) \<longleftrightarrow>
      (i, w) \<in> set (choice_words language)"
    using choices.word_decodes [OF b] choices.decode_iff [OF b] by blast
  moreover have "token_terminal d s = (w \<in> ec_tokens ` set language)"
    if "run_word (token_advance d) 0 w = Inr s" for s
    using choices.terminal_iff [OF b that] by (simp add: image_image)
  ultimately show ?thesis by blast
qed

theorem token_dfa_accepts_exactly_witness:
  "(\<exists>s. run_word (token_advance demo_dfa) 0 [5, 2, 1] = Inr s \<and>
      token_decode_terminal demo_dfa s = Inr 3) \<and> token_terminal demo_dfa 4 \<and>
   \<not> (\<exists>s. run_word (token_advance demo_dfa) 0 [5] = Inr s \<and>
      token_decode_terminal demo_dfa s = Inr 3)"
proof -
  have "run_word (token_advance demo_dfa) 0 [5, 2, 1] = Inr 4" by code_simp
  with token_dfa_accepts_exactly [OF demo_build, of "[5, 2, 1]" 3]
    token_dfa_accepts_exactly [OF demo_build, of "[5]" 3]
  show ?thesis by (simp add: demo_choices_def)
qed

section \<open>Progress\<close>

text \<open>
  (C22) Constrained generation never gets stuck: in every state a token sequence reaches, the
  offered arcs are exactly the tokens that \<open>advance\<close> takes, there are none exactly in a
  terminal state, a terminal state can always be reached, and the sequence is at most as
  long as the configured maximum.
\<close>

theorem token_dfa_progress:
  assumes "token_build mem language config = Inr d" "run_word (token_advance d) 0 w = Inr s"
  shows "(\<exists>arcs. token_allowed d s = Inr arcs \<and> (token_terminal d s \<longleftrightarrow> arcs = []) \<and>
      (\<forall>t n. token_advance d s t = Inr n \<longleftrightarrow> \<lparr>ga_token = t, ga_next = n\<rparr> \<in> set arcs)) \<and>
    (\<exists>v s'. run_word (token_advance d) s v = Inr s' \<and> token_terminal d s') \<and>
    length w \<le> unat (dc_maximum_sequence_tokens config)"
proof -
  note b = token_builtI [OF assms(1)]
  have "w = [] \<or> (\<exists>v \<in> snd ` set (choice_words language). prefix w v)"
    using choices.reach [OF b, of w] assms(2) by blast
  moreover have "well_formed (\<lambda>i. i \<noteq> no_terminal) config (choice_words language)"
    using build_dfa_limits assms(1) unfolding token_build_def by blast
  then have "length v \<le> unat (dc_maximum_sequence_tokens config)"
    if "v \<in> snd ` set (choice_words language)" for v
    using that by (auto simp: well_formed_def)
  ultimately have "length w \<le> unat (dc_maximum_sequence_tokens config)"
    using prefix_length_le le_trans by (cases "w = []") (simp, blast)
  moreover have "\<exists>arcs. token_allowed d s = Inr arcs \<and> (token_terminal d s \<longleftrightarrow> arcs = []) \<and>
      (\<forall>t n. token_advance d s t = Inr n \<longleftrightarrow> \<lparr>ga_token = t, ga_next = n\<rparr> \<in> set arcs)"
    using choices.stops [OF b assms(2)] choices.allowed_iff [OF b assms(2)] by force
  ultimately show ?thesis using choices.completes [OF b assms(2)] by blast
qed

theorem token_dfa_progress_witness:
  "\<exists>arcs. token_allowed demo_dfa 1 = Inr arcs \<and> arcs \<noteq> [] \<and>
     (\<exists>v s'. run_word (token_advance demo_dfa) 1 v = Inr s' \<and> token_terminal demo_dfa s')"
proof -
  have "run_word (token_advance demo_dfa) 0 [5] = Inr 1" by code_simp
  note p = token_dfa_progress [OF demo_build this]
  have "\<not> token_terminal demo_dfa 1" by code_simp
  with p show ?thesis by blast
qed

section \<open>When build succeeds\<close>

text \<open>
  (C23) With enough memory \<open>ActionDfa::build\<close> returns an automaton exactly for a language
  of different actions whose words are not empty, not too long, over the vocabulary and
  prefix-free, and that fits the limits on actions, states and arcs. A success has one
  state per prefix, one arc less, and the actions in order; a failure names the reason, and
  \<open>invalid_format\<close> is not one.
\<close>

theorem action_build_exact:
  fixes language config
  defines "L \<equiv> action_words language"
  defines "n \<equiv> card (prefixes_of (snd ` set L))"
  assumes memory: "2 * n + length language + 2 \<le> mem"
  shows "case action_build mem language config of
      Inr d \<Rightarrow> language \<noteq> [] \<and> config_positive config \<and> well_formed (\<lambda>_. True) config L \<and>
        length language \<le> unat (dc_maximum_labels config) \<and>
        n \<le> unat (dc_maximum_states config) \<and> n \<le> Suc (unat (dc_maximum_arcs config)) \<and>
        length (df_states d) = n \<and> Suc (length (df_arcs d)) = n \<and>
        df_labels d = map ea_action language
    | Inl e \<Rightarrow>
        (e = status_failure Invalid_argument \<and>
           \<not> (language \<noteq> [] \<and> config_positive config \<and> well_formed (\<lambda>_. True) config L)) \<or>
        (e = status_failure Resource_limit \<and>
           (unat (dc_maximum_labels config) < length language \<or>
            unat (dc_maximum_states config) < n \<or> Suc (unat (dc_maximum_arcs config)) < n))"
proof (cases "action_build mem language config")
  case (Inl e)
  then have "build_failure (\<lambda>_. True) mem L config e"
    unfolding action_build_eq L_def by (rule build_dfa_Inl)
  then show ?thesis
    using Inl memory by (auto simp: build_failure_def Let_def L_def n_def)
next
  case (Inr d)
  then have "build_dfa (\<lambda>_. True) mem L config = Inr d" unfolding action_build_eq L_def .
  from build_dfa_limits [OF this] Inr show ?thesis by (auto simp: L_def n_def comp_def)
qed

theorem action_build_exact_witness:
  "\<exists>d. action_build 97 demo_catalog_entries catalog_config = Inr d \<and> length (df_states d) = 5"
proof -
  let ?L = demo_catalog_entries
  have "prefixes_of (snd ` set (action_words ?L)) = {[], [10], [11], [11, 12], [11, 12, 13]}"
    by (auto simp: demo_catalog_entries_def prefixes_of_def prefix_Cons)
  then have "card (prefixes_of (snd ` set (action_words ?L))) = 5" by simp
  moreover obtain d where "action_build 97 ?L catalog_config = Inr d" using demo_action_build ..
  moreover have "length ?L = 2" by (simp add: demo_catalog_entries_def)
  ultimately show ?thesis using action_build_exact [of ?L 97 catalog_config] by simp
qed

section \<open>The two automata agree\<close>

lemma action_relabel:
  assumes "inj_on id_of (ea_action ` set language)"
    "no_terminal \<notin> id_of ` ea_action ` set language"
  shows "token_build mem (map (\<lambda>e. \<lparr>ec_id = id_of (ea_action e), ec_tokens = ea_tokens e\<rparr>) language) config =
    map_sum id (relabel id_of) (action_build mem language config)"
proof -
  have "choice_words (map (\<lambda>e. \<lparr>ec_id = id_of (ea_action e), ec_tokens = ea_tokens e\<rparr>) language) =
      map (apfst id_of) (action_words language)" by simp
  moreover have "build_dfa (\<lambda>i. i \<noteq> no_terminal) mem (map (apfst id_of) (action_words language)) config =
      map_sum id (relabel id_of) (build_dfa (\<lambda>_. True) mem (action_words language) config)"
    using assms by (intro build_dfa_relabel) (auto simp: image_image image_iff)
  ultimately show ?thesis by (simp only: token_build_def action_build_eq)
qed

lemma action_words_member:
  "(a, w) \<in> set (action_words language) \<longleftrightarrow> \<lparr>ea_action = a, ea_tokens = w\<rparr> \<in> set language"
proof (induction language)
  case (Cons e language)
  then show ?case by (cases e) auto
qed simp

lemma action_accepts:
  assumes "action_build mem language config = Inr d"
  shows "(\<exists>s. run_word (action_advance d) 0 w = Inr s \<and> action_decode_terminal d s = Inr a) \<longleftrightarrow>
    \<lparr>ea_action = a, ea_tokens = w\<rparr> \<in> set language"
proof -
  have b: "action_built d (action_words language)" using assms unfolding action_built_def by blast
  then show ?thesis
    unfolding action_words_member [symmetric] using actions.word_decodes actions.decode_iff by blast
qed

text \<open>
  (C24) The two implementations are one machine: numbering the actions with different ids
  below the reserved one, \<open>TokenDfa::build\<close> of the numbered language succeeds exactly when
  \<open>ActionDfa::build\<close> does, fails with the same status, and its automaton answers every query
  alike, up to the numbering. And it is the right machine: the action automaton decodes a
  sequence of tokens to an action exactly when the language lists it under that action.
\<close>

theorem action_dfa_refines_token_dfa:
  fixes language id_of
  defines "numbered \<equiv> map (\<lambda>e. \<lparr>ec_id = id_of (ea_action e), ec_tokens = ea_tokens e\<rparr>) language"
  assumes "inj_on id_of (ea_action ` set language)"
    "no_terminal \<notin> id_of ` ea_action ` set language"
  shows "case action_build mem language config of
      Inl e \<Rightarrow> token_build mem numbered config = Inl e
    | Inr d \<Rightarrow> \<exists>d'. token_build mem numbered config = Inr d' \<and>
        (\<forall>s t. token_allowed d' s = action_allowed d s \<and>
           token_advance d' s t = action_advance d s t \<and>
           token_terminal d' s = action_terminal d s \<and>
           token_decode_terminal d' s = map_sum id id_of (action_decode_terminal d s)) \<and>
        (\<forall>w a. (\<exists>s. run_word (action_advance d) 0 w = Inr s \<and> action_decode_terminal d s = Inr a) =
           (\<lparr>ea_action = a, ea_tokens = w\<rparr> \<in> set language))"
proof (cases "action_build mem language config")
  case (Inl e)
  then show ?thesis using action_relabel [OF assms(2,3), of mem config] by (simp add: numbered_def)
next
  case (Inr d)
  then have "token_build mem numbered config = Inr (relabel id_of d)"
    using action_relabel [OF assms(2,3), of mem config] by (simp add: numbered_def)
  with Inr action_accepts [OF Inr] show ?thesis
    by (auto simp: queries_relabel action_queries_eq token_allowed_def token_advance_def
        token_terminal_def token_decode_terminal_def)
qed

theorem action_dfa_refines_token_dfa_witness:
  "\<exists>d d'. action_build 97 demo_catalog_entries catalog_config = Inr d \<and>
     token_build 97 [\<lparr>ec_id = 0, ec_tokens = [10]\<rparr>, \<lparr>ec_id = 1, ec_tokens = [11, 12, 13]\<rparr>]
       catalog_config = Inr d' \<and> token_terminal d' 4 = action_terminal d 4"
proof -
  let ?L = demo_catalog_entries
  let ?id = "\<lambda>a. if act_kind a = Hold then 0 else 1 :: choice_id"
  obtain d where "action_build 97 ?L catalog_config = Inr d" using demo_action_build ..
  moreover have "inj_on ?id (ea_action ` set ?L)" "no_terminal \<notin> ?id ` ea_action ` set ?L"
    by (simp_all add: demo_catalog_entries_def action_hold_def)
  moreover have "map (\<lambda>e. \<lparr>ec_id = ?id (ea_action e), ec_tokens = ea_tokens e\<rparr>) ?L =
      [\<lparr>ec_id = 0, ec_tokens = [10]\<rparr>, \<lparr>ec_id = 1, ec_tokens = [11, 12, 13]\<rparr>]"
    by (simp add: demo_catalog_entries_def action_hold_def)
  ultimately show ?thesis using action_dfa_refines_token_dfa [of ?id ?L 97 catalog_config] by auto
qed

section \<open>The catalogue\<close>

text \<open>
  (C25) A catalogue built from the generated tables holds an action of the public interface
  for every generated entry, all different, and decoding an action through its tokens and
  the automaton returns that very action; an action that is not in the catalogue is refused
  with \<open>invalid_argument\<close>. So \<open>append\<close> of \<open>market_trace\<close> submits exactly the action it
  was given, or leaves the batch alone.
\<close>

theorem catalog_round_trip:
  assumes "catalog_create generated tokens mem = Inr catalog"
  shows "distinct (map ea_action (cat_entries catalog)) \<and>
    length (cat_entries catalog) = length generated \<and>
    (\<forall>a. trace_decode catalog a =
       (if a \<in> ea_action ` set (cat_entries catalog) then Inr a else fail Invalid_argument)) \<and>
    (\<forall>batch agent a. trace_append batch catalog agent a =
       (if a \<in> ea_action ` set (cat_entries catalog) then (True, batch @ [\<lparr>aa_agent = agent, aa_action = a\<rparr>])
        else (False, batch))) \<and>
    (\<forall>a \<in> ea_action ` set (cat_entries catalog). action_valid a)"
proof -
  note built = catalog_create_built [OF assms] and decodes = catalog_decodes [OF assms]
  have "distinct (map fst (action_words (cat_entries catalog)))"
    using actions.language [OF built(1)] by blast
  then have "distinct (map ea_action (cat_entries catalog))" by (simp add: comp_def)
  moreover have "\<forall>a \<in> ea_action ` set (cat_entries catalog). action_valid a"
    using built(2) by (simp add: list_all_iff)
  moreover have "trace_append batch catalog agent a =
      (if a \<in> ea_action ` set (cat_entries catalog) then (True, batch @ [\<lparr>aa_agent = agent, aa_action = a\<rparr>])
       else (False, batch))" for batch agent a
    by (simp add: trace_append_def decodes)
  ultimately show ?thesis using built(3) decodes by blast
qed

theorem catalog_round_trip_witness:
  "trace_decode demo_catalog \<lparr>act_kind = Buy_yes, act_quantity = 2, act_price_tick = 40\<rparr> =
     Inr \<lparr>act_kind = Buy_yes, act_quantity = 2, act_price_tick = 40\<rparr> \<and>
   trace_decode demo_catalog \<lparr>act_kind = Sell_yes, act_quantity = 2, act_price_tick = 40\<rparr> =
     fail Invalid_argument"
proof -
  show ?thesis
    using catalog_round_trip [OF demo_catalog(1)]
    by (simp add: demo_catalog(2) demo_catalog_entries_def action_hold_def)
qed

end
