(* ===== verification/HostBuffer.thy ===== *)
theory HostBuffer
  imports Core
begin

text \<open>
  \<open>core/host_buffer.cpp\<close>: owned, aligned memory. The heap records the live blocks of
  \<open>operator new\<close> with their size and alignment; \<open>operator delete\<close> of an address that is
  not live, or with another alignment, is undefined behaviour, the value None. Addresses
  are 64-bit words and the null pointer is 0; \<open>alignof(void*)\<close> is 8 and
  \<open>alignof(std::max_align_t)\<close> is 16, and \<open>std::size_t\<close> has 64 bits, as on the supported platform.
\<close>

section \<open>Operations\<close>

type_synonym heap = "u64 \<Rightarrow> (u64 \<times> u64) option"

record host_buffer =
  hb_data :: u64
  hb_size :: u64
  hb_alignment :: u64

definition pointer_alignment :: u64 where "pointer_alignment = 8"
definition default_alignment :: u64 where "default_alignment = 16"

definition is_power_of_two :: "u64 \<Rightarrow> bool" where
  "is_power_of_two v \<longleftrightarrow> v \<noteq> 0 \<and> and v (v - 1) = 0"

definition empty_buffer :: host_buffer where
  "empty_buffer = \<lparr>hb_data = 0, hb_size = 0, hb_alignment = default_alignment\<rparr>"

text \<open>
  \<open>allocate\<close>; \<open>block\<close> is the address \<open>operator new\<close> returns, 0 if it fails. The tests
  against the largest \<open>std::size_t\<close> are never true of 64-bit values.
\<close>

definition host_allocate ::
  "u64 \<Rightarrow> u64 \<Rightarrow> u64 \<Rightarrow> heap \<Rightarrow> host_buffer result \<times> heap" where
  "host_allocate block bytes alignment heap =
     (if \<not> is_power_of_two alignment \<or> alignment < pointer_alignment \<or> alignment > u64_max
      then (fail Invalid_alignment, heap)
      else if bytes > u64_max then (fail Arithmetic_overflow, heap)
      else if bytes = 0
      then (Inr \<lparr>hb_data = 0, hb_size = 0, hb_alignment = alignment\<rparr>, heap)
      else if block = 0 then (fail Allocation_failed, heap)
      else (Inr \<lparr>hb_data = block, hb_size = bytes, hb_alignment = alignment\<rparr>,
            heap(block \<mapsto> (bytes, alignment))))"

definition aligned_delete :: "u64 \<Rightarrow> u64 \<Rightarrow> heap \<Rightarrow> heap option" where
  "aligned_delete p alignment heap =
     (case heap p of
        None \<Rightarrow> None
      | Some (_, a) \<Rightarrow> if a = alignment then Some (heap(p := None)) else None)"

definition host_reset :: "host_buffer \<Rightarrow> heap \<Rightarrow> (host_buffer \<times> heap) option" where
  "host_reset b heap =
     (case if hb_data b \<noteq> 0 then aligned_delete (hb_data b) (hb_alignment b) heap else Some heap of
        None \<Rightarrow> None
      | Some heap' \<Rightarrow> Some (empty_buffer, heap'))"

text \<open>The move constructor: the new buffer and what is left in the other one.\<close>

definition host_move :: "host_buffer \<Rightarrow> host_buffer \<times> host_buffer" where
  "host_move other = (other, empty_buffer)"

text \<open>
  Move assignment of the buffer at \<open>j\<close> to the buffer at \<open>i\<close>, with the test for self
  assignment.
\<close>

definition host_move_assign ::
  "nat \<Rightarrow> nat \<Rightarrow> host_buffer list \<Rightarrow> heap \<Rightarrow> (host_buffer list \<times> heap) option" where
  "host_move_assign i j buffers heap =
     (if i = j then Some (buffers, heap)
      else
        (case host_reset (buffers ! i) heap of
           None \<Rightarrow> None
         | Some (_, heap') \<Rightarrow>
             let (moved, rest) = host_move (buffers ! j)
             in Some (buffers[i := moved, j := rest], heap')))"

definition host_destroy :: "host_buffer \<Rightarrow> heap \<Rightarrow> heap option" where
  "host_destroy b heap = map_option snd (host_reset b heap)"

definition host_bytes :: "host_buffer \<Rightarrow> u64 \<times> u64" where
  "host_bytes b = (hb_data b, hb_size b)"

section \<open>Programs that use buffers\<close>

text \<open>
  What a client can do with its buffer variables. \<open>operator new\<close> returns the null pointer
  or an address that is not live.
\<close>

datatype buffer_op =
    Allocate u64 u64 u64
  | Move_construct nat
  | Move_assign nat nat
  | Destroy nat

definition buffer_op_legal :: "buffer_op \<Rightarrow> heap \<times> host_buffer list \<Rightarrow> bool" where
  "buffer_op_legal x = (\<lambda>(heap, buffers).
     (case x of
        Allocate block _ _ \<Rightarrow> heap block = None
      | Move_construct i \<Rightarrow> i < length buffers
      | Move_assign i j \<Rightarrow> i < length buffers \<and> j < length buffers
      | Destroy i \<Rightarrow> i < length buffers))"

definition buffer_step ::
  "buffer_op \<Rightarrow> heap \<times> host_buffer list \<Rightarrow> (heap \<times> host_buffer list) option" where
  "buffer_step x = (\<lambda>(heap, buffers).
     (case x of
        Allocate block bytes alignment \<Rightarrow>
          (case host_allocate block bytes alignment heap of
             (Inl _, heap') \<Rightarrow> Some (heap', buffers)
           | (Inr b, heap') \<Rightarrow> Some (heap', buffers @ [b]))
      | Move_construct i \<Rightarrow>
          (case host_move (buffers ! i) of
             (moved, rest) \<Rightarrow> Some (heap, buffers[i := rest] @ [moved]))
      | Move_assign i j \<Rightarrow> map_option prod.swap (host_move_assign i j buffers heap)
      | Destroy i \<Rightarrow>
          map_option (\<lambda>heap'. (heap', take i buffers @ drop (Suc i) buffers))
            (host_destroy (buffers ! i) heap)))"

inductive buffers_reachable :: "heap \<times> host_buffer list \<Rightarrow> bool" where
  start: "buffers_reachable (\<lambda>_. None, [])"
| step: "buffers_reachable w \<Longrightarrow> buffer_op_legal x w \<Longrightarrow> buffer_step x w = Some w' \<Longrightarrow>
    buffers_reachable w'"

section \<open>Ownership\<close>

definition blocks :: "host_buffer list \<Rightarrow> (u64 \<times> u64 \<times> u64) list" where
  "blocks buffers = map (\<lambda>b. (hb_data b, hb_size b, hb_alignment b))
     (filter (\<lambda>b. hb_data b \<noteq> 0) buffers)"

definition owned :: "heap \<times> host_buffer list \<Rightarrow> bool" where
  "owned = (\<lambda>(heap, buffers).
     distinct (map fst (blocks buffers)) \<and> heap = map_of (blocks buffers) \<and>
     (\<forall>b \<in> set buffers. hb_size b = 0 \<longleftrightarrow> hb_data b = 0) \<and>
     (\<forall>b \<in> set buffers. is_power_of_two (hb_alignment b)))"

lemma default_alignment_power: "is_power_of_two default_alignment"
  by (simp add: is_power_of_two_def default_alignment_def)

lemma blocks_simps [simp]:
  "blocks [] = []"
  "blocks (xs @ ys) = blocks xs @ blocks ys"
  "blocks (b # xs) =
     (if hb_data b = 0 then [] else [(hb_data b, hb_size b, hb_alignment b)]) @ blocks xs"
  by (simp_all add: blocks_def)

lemma hb_empty [simp]: "hb_data empty_buffer = 0" "hb_size empty_buffer = 0"
  "hb_alignment empty_buffer = default_alignment"
  by (simp_all add: empty_buffer_def)

text \<open>The heap depends on the owned blocks, not on their order.\<close>

lemma owned_mset:
  assumes "owned (heap, bs)" "mset (blocks bs) = mset (blocks cs)"
    "\<forall>b \<in> set cs. hb_size b = 0 \<longleftrightarrow> hb_data b = 0" "\<forall>b \<in> set cs. is_power_of_two (hb_alignment b)"
  shows "owned (heap, cs)"
proof -
  have d: "distinct (map fst (blocks bs))" using assms(1) by (simp add: owned_def)
  then have d': "distinct (map fst (blocks cs))" using assms(2) by (metis mset_eq_imp_distinct_iff mset_map)
  moreover have "map_of (blocks bs) = map_of (blocks cs)"
    using map_of_inject_set [OF d d'] mset_eq_setD [OF assms(2)] by simp
  ultimately show ?thesis using assms by (simp add: owned_def)
qed

lemma reset_owned:
  assumes own: "owned (heap, xs @ b # ys)"
  shows "\<exists>heap'. host_reset b heap = Some (empty_buffer, heap') \<and> owned (heap', xs @ ys)"
proof (cases "hb_data b = 0")
  case True
  then show ?thesis using own by (auto simp: host_reset_def owned_def)
next
  case False
  let ?p = "hb_data b"
  have d: "distinct (map fst (blocks xs @ (?p, hb_size b, hb_alignment b) # blocks ys))"
    and h: "heap = map_of (blocks xs @ (?p, hb_size b, hb_alignment b) # blocks ys)"
    using own False by (auto simp: owned_def)
  have "?p \<notin> fst ` set (blocks xs)" "?p \<notin> fst ` set (blocks ys)" using d by auto
  then have "map_of (blocks xs) ?p = None" "map_of (blocks ys) ?p = None"
    by (simp_all add: map_of_eq_None_iff)
  then have "heap ?p = Some (hb_size b, hb_alignment b)"
    "heap(?p := None) = map_of (blocks (xs @ ys))"
    unfolding h by (auto simp: map_add_def fun_eq_iff split: option.splits)
  then show ?thesis
    using own False d by (auto simp: host_reset_def aligned_delete_def owned_def)
qed

lemma distinct_blocks_index:
  "distinct (map fst (blocks bs)) \<Longrightarrow> i < length bs \<Longrightarrow> j < length bs \<Longrightarrow>
     hb_data (bs ! i) \<noteq> 0 \<Longrightarrow> hb_data (bs ! i) = hb_data (bs ! j) \<Longrightarrow> i = j"
proof (induction bs arbitrary: i j)
  case (Cons b bs)
  have member: "hb_data (bs ! k) \<in> fst ` set (blocks bs)" if "k < length bs" "hb_data (bs ! k) \<noteq> 0" for k
    using that by (force simp: blocks_def)
  have new: "hb_data b \<noteq> 0 \<Longrightarrow> hb_data b \<notin> fst ` set (blocks bs)" using Cons.prems(1) by simp
  have d: "distinct (map fst (blocks bs))" using Cons.prems(1) by (auto split: if_splits)
  show ?case
  proof (cases i)
    case 0
    then show ?thesis using Cons.prems new member by (cases j) auto
  next
    case (Suc i')
    then show ?thesis using Cons.prems new member [of i'] Cons.IH [OF d] by (cases j) auto
  qed
qed simp

lemma split_at: "i < length xs \<Longrightarrow> xs = take i xs @ xs ! i # drop (Suc i) xs"
  by (rule id_take_nth_drop)

lemma buffer_step_owned:
  assumes own: "owned w" and legal: "buffer_op_legal x w"
  shows "\<exists>w'. buffer_step x w = Some w' \<and> owned w'"
proof -
  obtain heap bs where w: "w = (heap, bs)" by (cases w)
  note own = own [unfolded w] and legal = legal [unfolded w]
  show ?thesis
  proof (cases x)
    case (Allocate block bytes alignment)
    have "block \<notin> fst ` set (blocks bs)"
      using own legal by (simp add: owned_def buffer_op_legal_def Allocate map_of_eq_None_iff)
    then have "owned (heap(block \<mapsto> (bytes, alignment)),
        bs @ [\<lparr>hb_data = block, hb_size = bytes, hb_alignment = alignment\<rparr>])"
      if "block \<noteq> 0" "bytes \<noteq> 0" "is_power_of_two alignment"
      using that own map_of_eq_None_iff [of "blocks bs" block]
      by (auto simp: owned_def map_add_def fun_eq_iff split: option.splits)
    then show ?thesis
      using own by (auto simp: buffer_step_def w Allocate host_allocate_def owned_def)
  next
    case (Move_construct i)
    then have i: "i < length bs" using legal by (simp add: buffer_op_legal_def)
    let ?l = "take i bs" and ?r = "drop (Suc i) bs"
    have "owned (heap, ?l @ bs ! i # ?r)" using own split_at [OF i] by simp
    then have "owned (heap, (?l @ empty_buffer # ?r) @ [bs ! i])"
      by (rule owned_mset) (use own in \<open>auto simp: owned_def default_alignment_power i
        dest: in_set_takeD in_set_dropD\<close>)
    then show ?thesis
      using i by (simp add: buffer_step_def w Move_construct host_move_def upd_conv_take_nth_drop)
  next
    case (Move_assign i j)
    then have ij: "i < length bs" "j < length bs" using legal by (simp_all add: buffer_op_legal_def)
    show ?thesis
    proof (cases "i = j")
      case True
      then show ?thesis using own by (simp add: buffer_step_def w Move_assign host_move_assign_def)
    next
      case False
      let ?l = "take i bs" and ?r = "drop (Suc i) bs"
      have "owned (heap, ?l @ bs ! i # ?r)" using own split_at [OF ij(1)] by simp
      from reset_owned [OF this] obtain heap' where
        h: "host_reset (bs ! i) heap = Some (empty_buffer, heap')" and o1: "owned (heap', ?l @ ?r)"
        by blast
      let ?mid = "bs[i := empty_buffer]"
      have mid: "owned (heap', ?mid)"
        by (rule owned_mset [OF o1])
          (use own in \<open>auto simp: owned_def default_alignment_power upd_conv_take_nth_drop [OF ij(1)]
            dest: in_set_takeD in_set_dropD\<close>)
      let ?fin = "bs[i := bs ! j, j := empty_buffer]"
      have "mset ?fin = mset ?mid"
        using False ij by (simp add: mset_update multiset_eq_iff nth_list_update)
      then have "mset (blocks ?fin) = mset (blocks ?mid)" "set ?fin = set ?mid"
        unfolding blocks_def by (simp_all add: mset_filter, metis set_mset_mset)
      then have "owned (heap', ?fin)"
        using mid by (intro owned_mset [OF mid]) (simp_all add: owned_def)
      then show ?thesis
        using False h by (simp add: buffer_step_def w Move_assign host_move_assign_def host_move_def)
    qed
  next
    case (Destroy i)
    then have i: "i < length bs" using legal by (simp add: buffer_op_legal_def)
    have "owned (heap, take i bs @ bs ! i # drop (Suc i) bs)" using own split_at [OF i] by simp
    from reset_owned [OF this] show ?thesis
      by (auto simp: buffer_step_def w Destroy host_destroy_def)
  qed
qed

lemma reachable_owned: "buffers_reachable w \<Longrightarrow> owned w"
proof (induction rule: buffers_reachable.induct)
  case start
  show ?case by (simp add: owned_def)
next
  case (step w x w')
  then show ?case using buffer_step_owned by fastforce
qed

text \<open>
  (C27) Host buffers own their memory: however buffers are allocated, moved (onto themselves
  too), assigned and destroyed, no operation ever frees a block that is not live or with
  the wrong alignment, the live blocks are exactly those the buffers hold, each held by one
  buffer with its size and alignment, and a buffer has bytes exactly when it holds a block.
\<close>

theorem host_buffers_own_memory:
  assumes "buffers_reachable (heap, buffers)"
  shows "(\<forall>x. buffer_op_legal x (heap, buffers) \<longrightarrow> buffer_step x (heap, buffers) \<noteq> None) \<and>
    (\<forall>p size alignment. heap p = Some (size, alignment) \<longleftrightarrow>
       p \<noteq> 0 \<and> (\<exists>b \<in> set buffers. hb_data b = p \<and> hb_size b = size \<and> hb_alignment b = alignment)) \<and>
    (\<forall>i < length buffers. \<forall>j < length buffers.
       hb_data (buffers ! i) \<noteq> 0 \<and> hb_data (buffers ! i) = hb_data (buffers ! j) \<longrightarrow> i = j) \<and>
    (\<forall>b \<in> set buffers. (hb_size b = 0) = (hb_data b = 0) \<and> is_power_of_two (hb_alignment b))"
proof -
  have own: "owned (heap, buffers)" by (rule reachable_owned [OF assms])
  have d: "distinct (map fst (blocks buffers))" and h: "heap = map_of (blocks buffers)"
    using own by (simp_all add: owned_def)
  have "\<forall>x. buffer_op_legal x (heap, buffers) \<longrightarrow> buffer_step x (heap, buffers) \<noteq> None"
    using buffer_step_owned [OF own] by fastforce
  moreover have "heap p = Some (size, alignment) \<longleftrightarrow> p \<noteq> 0 \<and>
      (\<exists>b \<in> set buffers. hb_data b = p \<and> hb_size b = size \<and> hb_alignment b = alignment)" for p size alignment
    unfolding h map_of_eq_Some_iff [OF d] by (auto simp: blocks_def)
  moreover have "i = j" if "i < length buffers" "j < length buffers"
    "hb_data (buffers ! i) \<noteq> 0" "hb_data (buffers ! i) = hb_data (buffers ! j)" for i j
    using d that by (intro distinct_blocks_index)
  ultimately show ?thesis using own by (auto simp: owned_def)
qed

theorem host_buffers_own_memory_witness:
  "buffers_reachable ([4096 \<mapsto> (100, 64)], [empty_buffer, \<lparr>hb_data = 4096, hb_size = 100, hb_alignment = 64\<rparr>]) \<and>
   buffer_step (Destroy 1) ([4096 \<mapsto> (100, 64)],
     [empty_buffer, \<lparr>hb_data = 4096, hb_size = 100, hb_alignment = 64\<rparr>]) \<noteq> None"
proof -
  let ?b = "\<lparr>hb_data = 4096, hb_size = 100, hb_alignment = 64\<rparr>"
  let ?heap = "[4096 \<mapsto> (100 :: u64, 64 :: u64)]"
  have s1: "buffer_step (Allocate 4096 100 64) (\<lambda>_. None, []) = Some (?heap, [?b])"
    by (simp add: buffer_step_def host_allocate_def is_power_of_two_def pointer_alignment_def)
  have r1: "buffers_reachable (?heap, [?b])"
    by (rule buffers_reachable.step [OF buffers_reachable.start _ s1]) (simp add: buffer_op_legal_def)
  have s2: "buffer_step (Move_construct 0) (?heap, [?b]) = Some (?heap, [empty_buffer, ?b])"
    by (simp add: buffer_step_def host_move_def)
  have r2: "buffers_reachable (?heap, [empty_buffer, ?b])"
    by (rule buffers_reachable.step [OF r1 _ s2]) (simp add: buffer_op_legal_def)
  have "buffer_op_legal (Destroy 1) (?heap, [empty_buffer, ?b])" by (simp add: buffer_op_legal_def)
  with host_buffers_own_memory [OF r2] r2 show ?thesis by blast
qed

end
