(* ===== verification/Tensor.thy ===== *)
theory Tensor
  imports Core
begin

text \<open>
  \<open>core/dtype.hpp\<close>, \<open>core/shape.cpp\<close> and \<open>core/tensor_view.hpp\<close>: element types, shapes of
  at most six extents, the size of a tensor with its overflow guards, and row-major
  offsets, shown to number the index tuples of a shape one to one.
\<close>

section \<open>Element types and shapes\<close>

datatype dtype = F32 | F16 | Bf16 | I8 | I32 | U32

text \<open>A \<^typ>\<open>dtype\<close> is one of the six enumerators, so the call cannot fail.\<close>

definition dtype_size :: "dtype \<Rightarrow> u32 result" where
  "dtype_size t = (case t of F32 \<Rightarrow> Inr 4 | I32 \<Rightarrow> Inr 4 | U32 \<Rightarrow> Inr 4
     | F16 \<Rightarrow> Inr 2 | Bf16 \<Rightarrow> Inr 2 | I8 \<Rightarrow> Inr 1)"

definition max_rank :: nat where "max_rank = 6"

text \<open>\<open>std::array\<close> of \<^const>\<open>max_rank\<close> extents: a list of that length.\<close>

record shape =
  sh_extents :: "u64 list"
  sh_rank :: u8

definition make_shape :: "u64 list \<Rightarrow> shape result" where
  "make_shape extents =
     (if length extents > max_rank then fail Invalid_shape
      else Inr \<lparr>sh_extents = extents @ replicate (max_rank - length extents) 0,
                sh_rank = of_nat (length extents)\<rparr>)"

definition validate_shape :: "shape \<Rightarrow> status" where
  "validate_shape s =
     (let rank = unat (sh_rank s)
      in if rank > max_rank then status_failure Invalid_shape
         else
           (case List.find (\<lambda>index. sh_extents s ! index \<noteq> 0) [rank ..< max_rank] of
              Some index \<Rightarrow> status_failure_at Invalid_shape (of_nat index)
            | None \<Rightarrow> status_success))"

fun numel_loop :: "u64 list \<Rightarrow> u64 \<Rightarrow> u64 result" where
  "numel_loop [] elements = Inr elements"
| "numel_loop (extent # extents) elements =
     (case checked_multiply elements extent of
        Inl e \<Rightarrow> Inl e
      | Inr product \<Rightarrow> numel_loop extents product)"

definition checked_numel :: "shape \<Rightarrow> u64 result" where
  "checked_numel s =
     (if \<not> status_ok (validate_shape s) then Inl (validate_shape s)
      else numel_loop (take (unat (sh_rank s)) (sh_extents s)) 1)"

definition checked_nbytes :: "shape \<Rightarrow> dtype \<Rightarrow> u64 result" where
  "checked_nbytes s t =
     (case checked_numel s of
        Inl e \<Rightarrow> Inl e
      | Inr elements \<Rightarrow>
          (case dtype_size t of
             Inl e \<Rightarrow> Inl e
           | Inr bytes_per_element \<Rightarrow> checked_multiply elements (ucast bytes_per_element)))"

fun offset_loop :: "nat \<Rightarrow> (u64 \<times> u64) list \<Rightarrow> u64 \<Rightarrow> u64 result" where
  "offset_loop axis [] offset = Inr offset"
| "offset_loop axis ((index, extent) # rest) offset =
     (if index \<ge> extent then Inl (status_failure_at Invalid_argument (of_nat axis))
      else
        (case checked_multiply offset extent of
           Inl e \<Rightarrow> Inl e
         | Inr scaled \<Rightarrow>
             (case checked_add scaled index of
                Inl e \<Rightarrow> Inl e
              | Inr next_offset \<Rightarrow> offset_loop (Suc axis) rest next_offset)))"

definition row_major_offset :: "shape \<Rightarrow> u64 list \<Rightarrow> u64 result" where
  "row_major_offset s indices =
     (if \<not> status_ok (validate_shape s) \<or> length indices \<noteq> unat (sh_rank s)
      then fail Invalid_shape
      else offset_loop 0 (zip indices (take (unat (sh_rank s)) (sh_extents s))) 0)"

section \<open>Tensor views\<close>

datatype memory_kind = Host | Device

text \<open>A pointer is an address, the null pointer is 0; the const view has the same fields.\<close>

record tensor_view =
  tv_data :: u64
  tv_shape :: shape
  tv_dtype :: dtype
  tv_memory :: memory_kind

definition validate_tensor_view :: "tensor_view \<Rightarrow> status" where
  "validate_tensor_view view =
     (case checked_nbytes (tv_shape view) (tv_dtype view) of
        Inl e \<Rightarrow> e
      | Inr bytes \<Rightarrow>
          if bytes \<noteq> 0 \<and> tv_data view = 0 then status_failure Invalid_argument
          else status_success)"

section \<open>Sizes\<close>

definition dims :: "shape \<Rightarrow> nat list" where
  "dims s = map unat (take (unat (sh_rank s)) (sh_extents s))"

definition numel :: "tensor_view \<Rightarrow> nat" where
  "numel t = prod_list (dims (tv_shape t))"

definition well_shaped :: "shape \<Rightarrow> bool" where
  "well_shaped s \<longleftrightarrow> length (sh_extents s) = max_rank \<and> unat (sh_rank s) \<le> max_rank \<and>
     (\<forall>k < max_rank. unat (sh_rank s) \<le> k \<longrightarrow> sh_extents s ! k = 0)"

lemma dtype_size_values:
  "dtype_size t = Inr n \<Longrightarrow> unat n \<in> {1, 2, 4}"
  "\<exists>n. dtype_size t = Inr n"
  by (cases t; auto simp: dtype_size_def)+

lemma unat_u8_small: "n \<le> max_rank \<Longrightarrow> unat (of_nat n :: u8) = n"
  by (simp add: max_rank_def unat_of_nat)

lemma validate_shape_ok:
  "length (sh_extents s) = max_rank \<Longrightarrow> status_ok (validate_shape s) \<longleftrightarrow> well_shaped s"
  by (auto simp: validate_shape_def well_shaped_def find_None_iff Let_def max_rank_def
      split: option.splits dest!: find_SomeD)

lemma make_shape_Inr:
  assumes "make_shape es = Inr s"
  shows "well_shaped s" "dims s = map unat es" "length es \<le> max_rank"
    "unat (sh_rank s) = length es"
    "take (length es) (sh_extents s) = es"
  using assms unat_u8_small [of "length es"]
  by (auto simp: make_shape_def well_shaped_def dims_def nth_append split: if_splits)

lemma make_shape_total: "(\<exists>s. make_shape es = Inr s) \<longleftrightarrow> length es \<le> max_rank"
  by (auto simp: make_shape_def)

lemma numel_loop_Inr:
  "numel_loop es a = Inr n \<longleftrightarrow>
     (\<forall>k \<le> length es. unat a * prod_list (map unat (take k es)) < 2 ^ 64) \<and>
     unat n = unat a * prod_list (map unat es)"
proof (induction es arbitrary: a)
  case Nil
  then show ?case using unat_u64_lt [of a] by (auto simp: unat_inject)
next
  case (Cons e es)
  have all: "(\<forall>k \<le> Suc (length es). P k) \<longleftrightarrow> P 0 \<and> (\<forall>k \<le> length es. P (Suc k))" for P
    by (metis Suc_le_mono not0_implies_Suc zero_le)
  show ?case
  proof (cases "unat a * unat e < 2 ^ 64")
    case True
    then have "checked_multiply a e = Inr (a * e)" by simp
    moreover have "unat (a * e) = unat a * unat e" by (rule unat_u64_times [OF True])
    ultimately show ?thesis
      using Cons.IH [of "a * e"] unat_u64_lt [of a]
      by (simp add: all mult.assoc del: checked_multiply_Inr)
  next
    case False
    then have "checked_multiply a e = fail Arithmetic_overflow" by (simp add: checked_multiply_Inl)
    moreover have "\<not> (\<forall>k \<le> Suc (length es). unat a * prod_list (map unat (take k (e # es))) < 2 ^ 64)"
      using False by (simp add: all) (metis mult.right_neutral prod_list.Nil list.map(1) take0 zero_le)
    ultimately show ?thesis by simp
  qed
qed

lemma checked_numel_Inr:
  assumes "well_shaped s"
  shows "checked_numel s = Inr n \<longleftrightarrow>
    (\<forall>k \<le> length (dims s). prod_list (take k (dims s)) < 2 ^ 64) \<and> unat n = prod_list (dims s)"
proof -
  have "status_ok (validate_shape s)"
    using assms validate_shape_ok [of s] by (simp add: well_shaped_def)
  then show ?thesis
    using numel_loop_Inr [of "take (unat (sh_rank s)) (sh_extents s)" 1 n]
    by (simp add: checked_numel_def dims_def take_map)
qed

lemma checked_numel_Inl:
  assumes "well_shaped s" "checked_numel s = Inl e" shows "e = status_failure Arithmetic_overflow"
proof -
  have "numel_loop es a = Inl e \<Longrightarrow> e = status_failure Arithmetic_overflow" for es a
    by (induction es arbitrary: a) (auto simp: checked_multiply_Inl split: sum.splits)
  moreover have "status_ok (validate_shape s)"
    using assms validate_shape_ok [of s] by (simp add: well_shaped_def)
  ultimately show ?thesis using assms(2) by (simp add: checked_numel_def)
qed

lemma checked_nbytes_Inr:
  assumes "well_shaped s" "checked_nbytes s t = Inr n"
  shows "\<exists>m k. checked_numel s = Inr m \<and> dtype_size t = Inr k \<and> unat n = unat m * unat k"
  using assms(2) by (auto simp: checked_nbytes_def unat_u64_times split: sum.splits)

section \<open>Row-major numbering\<close>

fun radix :: "(nat \<times> nat) list \<Rightarrow> nat \<Rightarrow> nat" where
  "radix [] acc = acc"
| "radix ((i, e) # rest) acc = radix rest (acc * e + i)"

lemma radix_bound:
  "\<forall>(i, e) \<in> set ps. i < e \<Longrightarrow> acc * prod_list (map snd ps) \<le> radix ps acc \<and>
     radix ps acc < (acc + 1) * prod_list (map snd ps)"
proof (induction ps arbitrary: acc)
  case (Cons p ps)
  obtain i e where p: "p = (i, e)" by (cases p)
  let ?P = "prod_list (map snd ps)"
  have i: "i < e" using Cons.prems by (simp add: p)
  have ih: "(acc * e + i) * ?P \<le> radix ps (acc * e + i)"
    "radix ps (acc * e + i) < (acc * e + i + 1) * ?P"
    using Cons.IH [of "acc * e + i"] Cons.prems by simp_all
  have "(acc * e) * ?P \<le> (acc * e + i) * ?P" by (rule mult_right_mono) simp_all
  moreover have "(acc * e + i + 1) * ?P \<le> ((acc + 1) * e) * ?P"
    using i by (intro mult_right_mono) simp_all
  ultimately have "(acc * e) * ?P \<le> radix ps (acc * e + i)"
    "radix ps (acc * e + i) < ((acc + 1) * e) * ?P"
    using ih by linarith+
  then show ?case by (simp only: p radix.simps list.map snd_conv prod_list.Cons mult.assoc)
qed simp

lemma radix_inj:
  assumes "length is1 = length es" "length is2 = length es"
    "\<forall>(i, e) \<in> set (zip is1 es). i < e" "\<forall>(i, e) \<in> set (zip is2 es). i < e"
    "radix (zip is1 es) a = radix (zip is2 es) b"
  shows "is1 = is2 \<and> a = b"
  using assms
proof (induction es arbitrary: is1 is2 a b)
  case (Cons e es)
  then obtain i is1' j is2' where l: "is1 = i # is1'" "is2 = j # is2'"
    by (metis length_Suc_conv list.size(4) Suc_eq_plus1)
  with Cons.prems have ih: "is1' = is2' \<and> a * e + i = b * e + j"
    by (intro Cons.IH) simp_all
  have "i < e" "j < e" using Cons.prems(3,4) l by simp_all
  then have "a = (a * e + i) div e" "b = (b * e + j) div e" by simp_all
  with ih have "a = b" by simp
  with ih l show ?case by simp
qed simp

lemma radix_surj:
  assumes "a * prod_list es \<le> m" "m < (a + 1) * prod_list es"
  shows "\<exists>ns. length ns = length es \<and> (\<forall>(i, e) \<in> set (zip ns es). i < e) \<and> radix (zip ns es) a = m"
  using assms
proof (induction es arbitrary: a)
  case (Cons e es)
  let ?P = "prod_list es"
  have pos: "0 < ?P" "0 < e" using Cons.prems by (auto intro!: Nat.gr0I)
  define q where "q = m div ?P"
  have q: "q * ?P \<le> m" "m < (q + 1) * ?P"
    unfolding q_def using pos div_times_less_eq_dividend [of m ?P] dividend_less_div_times [of ?P m]
    by (simp_all add: algebra_simps)
  have "a * e \<le> q" unfolding q_def using Cons.prems(1) pos by (simp add: less_eq_div_iff_mult_less_eq mult.assoc)
  moreover have "q < (a + 1) * e"
  proof -
    have "m < ((a + 1) * e) * ?P" using Cons.prems(2) by (simp only: prod_list.Cons mult.assoc)
    then show ?thesis unfolding q_def using pos(1) by (subst div_less_iff_less_mult) simp_all
  qed
  ultimately obtain i where i: "q = a * e + i" "i < e"
    by (metis add_less_cancel_left add_mult_distrib le_Suc_ex mult_1)
  from Cons.IH [of "q"] q obtain ns where
    "length ns = length es" "\<forall>(i, e) \<in> set (zip ns es). i < e" "radix (zip ns es) q = m" by blast
  then show ?case using i by (intro exI [of _ "i # ns"]) simp
qed simp

lemma offset_loop_radix:
  assumes "length ns = length es" "(unat a + 1) * prod_list (map unat es) < 2 ^ 64"
    "\<forall>k \<le> length es. (unat a + 1) * prod_list (map unat (take k es)) < 2 ^ 64"
  shows "offset_loop axis (zip ns es) a = Inr off \<longleftrightarrow>
    (\<forall>(i, e) \<in> set (zip ns es). i < e) \<and>
    unat off = radix (zip (map unat ns) (map unat es)) (unat a)"
  using assms
proof (induction es arbitrary: ns a axis)
  case Nil
  then show ?case by (auto simp: unat_inject)
next
  case (Cons e es)
  then obtain i ns' where ns: "ns = i # ns'" by (metis length_Suc_conv)
  show ?case
  proof (cases "i < e")
    case False
    then show ?thesis by (simp add: ns not_le)
  next
    case True
    have room: "(unat a + 1) * unat e < 2 ^ 64" using Cons.prems(3) [rule_format, of "Suc 0"] by simp
    have nle: "\<not> e \<le> i" using True by simp
    have less: "unat i < unat e" using True by (simp add: word_less_nat_alt)
    have "unat a * unat e + unat i < (unat a + 1) * unat e" using less by simp
    then have m: "unat a * unat e + unat i < 2 ^ 64" using room by (rule less_trans)
    then have mul: "checked_multiply a e = Inr (a * e)" "unat (a * e) = unat a * unat e"
      by (simp, intro unat_u64_times, simp)
    then have add: "checked_add (a * e) i = Inr (a * e + i)"
      "unat (a * e + i) = unat a * unat e + unat i"
      using m unat_u64_plus [of "a * e" i] by simp_all
    have le: "unat (a * e + i) + 1 \<le> (unat a + 1) * unat e" using add(2) less by simp
    have bound: "(unat (a * e + i) + 1) * prod_list (map unat (take k es)) < 2 ^ 64"
      if "k \<le> length es" for k
    proof -
      have "(unat (a * e + i) + 1) * prod_list (map unat (take k es)) \<le>
          ((unat a + 1) * unat e) * prod_list (map unat (take k es))"
        using le by (rule mult_right_mono) simp
      moreover have "Suc k \<le> length (e # es)" using that by simp
      then have "((unat a + 1) * unat e) * prod_list (map unat (take k es)) < 2 ^ 64"
        using Cons.prems(3) [rule_format, of "Suc k"]
        by (simp only: take_Suc_Cons list.map prod_list.Cons mult.assoc)
      ultimately show ?thesis by (rule le_less_trans)
    qed
    have "length ns' = length es" using Cons.prems(1) by (simp add: ns)
    moreover have "(unat (a * e + i) + 1) * prod_list (map unat es) < 2 ^ 64"
      using bound [OF le_refl] by (simp only: take_all [OF le_refl])
    moreover have "\<forall>k \<le> length es. (unat (a * e + i) + 1) * prod_list (map unat (take k es)) < 2 ^ 64"
      using bound by blast
    ultimately have "offset_loop (Suc axis) (zip ns' es) (a * e + i) = Inr off \<longleftrightarrow>
        (\<forall>(i, e) \<in> set (zip ns' es). i < e) \<and>
        unat off = radix (zip (map unat ns') (map unat es)) (unat a * unat e + unat i)"
      unfolding add(2) [symmetric] by (rule Cons.IH)
    moreover have "offset_loop axis (zip ns (e # es)) a = offset_loop (Suc axis) (zip ns' es) (a * e + i)"
      using nle mul(1) add(1) by (simp only: ns zip_Cons_Cons offset_loop.simps if_False sum.case)
    ultimately show ?thesis using True by (simp add: ns)
  qed
qed

lemma row_major_offset_Inr:
  assumes s: "make_shape es = Inr s" and n: "checked_numel s = Inr n"
  shows "row_major_offset s indices = Inr off \<longleftrightarrow>
    list_all2 (<) indices es \<and> unat off = radix (zip (map unat indices) (map unat es)) 0"
proof (cases "length indices = length es")
  case True
  note shape = make_shape_Inr [OF s]
  have "status_ok (validate_shape s)"
    using shape(1) validate_shape_ok [of s] by (simp add: well_shaped_def)
  then have "row_major_offset s indices = offset_loop 0 (zip indices es) 0"
    using True shape(4,5) by (simp add: row_major_offset_def)
  moreover have pre: "\<forall>k \<le> length es. (unat (0 :: u64) + 1) * prod_list (map unat (take k es)) < 2 ^ 64"
    using n shape(2) checked_numel_Inr [OF shape(1), of n] by (simp add: take_map)
  then have "(unat (0 :: u64) + 1) * prod_list (map unat es) < 2 ^ 64" by (metis le_refl take_all_iff)
  ultimately show ?thesis
    using offset_loop_radix [OF True _ pre, of 0 off] True by (simp add: list_all2_iff)
next
  case False
  then show ?thesis
    using make_shape_Inr(4) [OF s] by (auto simp: row_major_offset_def dest: list_all2_lengthD)
qed

lemma zip_all_iff:
  "length xs = length ys \<Longrightarrow>
     (\<forall>(x, y) \<in> set (zip (map unat xs) (map unat ys)). x < y) \<longleftrightarrow> list_all2 (<) xs (ys :: u64 list)"
  by (induction xs ys rule: list_induct2) (simp_all add: word_less_nat_alt)

text \<open>
  (C26) Row-major offsets number the index tuples of a shape one to one: once
  \<open>checked_numel\<close> accepted the shape, \<open>row_major_offset\<close> succeeds exactly for the tuples
  below the extents, never overflows, stays below the number of elements, and every
  position below that number is the offset of exactly one tuple.
\<close>

theorem row_major_bijection:
  assumes s: "make_shape es = Inr s" and n: "checked_numel s = Inr n"
  shows "(\<forall>indices. (\<exists>off. row_major_offset s indices = Inr off) = list_all2 (<) indices es) \<and>
    (\<forall>indices off. row_major_offset s indices = Inr off \<longrightarrow> off < n) \<and>
    (\<forall>off < n. \<exists>!indices. row_major_offset s indices = Inr off)"
proof -
  note offset = row_major_offset_Inr [OF assms]
  let ?es = "map unat es"
  have size: "unat n = prod_list ?es"
    using n make_shape_Inr [OF s] checked_numel_Inr [of s n] by simp
  have below: "radix (zip (map unat indices) ?es) 0 < unat n" if "list_all2 (<) indices es" for indices
  proof -
    have len: "length indices = length es" using that by (rule list_all2_lengthD)
    then show ?thesis
      using radix_bound [of "zip (map unat indices) ?es" 0] that zip_all_iff [OF len] size by simp
  qed
  have small: "m < unat n \<Longrightarrow> unat (of_nat m :: u64) = m" for m
    using unat_u64_lt [of n] by (intro unat_u64_of_nat) simp
  have "\<exists>off. row_major_offset s indices = Inr off" if "list_all2 (<) indices es" for indices
    using offset [of indices "of_nat (radix (zip (map unat indices) ?es) 0)"] small [OF below [OF that]] that
    by auto
  moreover have "off < n" if "row_major_offset s indices = Inr off" for indices off
    using that below unfolding offset word_less_nat_alt by simp
  moreover have "\<exists>!indices. row_major_offset s indices = Inr off" if "off < n" for off
  proof -
    have "0 * prod_list ?es \<le> unat off" "unat off < (0 + 1) * prod_list ?es"
      using that size by (simp_all add: word_less_nat_alt)
    from radix_surj [OF this] obtain ns where
      ns: "length ns = length ?es" "\<forall>(i, e) \<in> set (zip ns ?es). i < e" "radix (zip ns ?es) 0 = unat off"
      by blast
    define xs where "xs = map (of_nat :: nat \<Rightarrow> u64) ns"
    have "unat (of_nat (ns ! k) :: u64) = ns ! k" if "k < length ns" for k
    proof -
      have "(ns ! k, ?es ! k) \<in> set (zip ns ?es)" using that ns(1) by (auto simp: set_zip)
      then have "ns ! k < ?es ! k" using ns(2) by blast
      then show ?thesis using that ns(1) unat_u64_lt [of "es ! k"] by (intro unat_u64_of_nat) simp
    qed
    then have xs: "map unat xs = ns" by (simp add: xs_def list_eq_iff_nth_eq)
    have "length xs = length es" using ns(1) by (simp add: xs_def)
    then have "row_major_offset s xs = Inr off"
      using ns zip_all_iff [of xs es] by (simp add: offset xs)
    moreover have "ys = zs" if "row_major_offset s ys = Inr off" "row_major_offset s zs = Inr off" for ys zs
    proof -
      have len: "length ys = length es" "length zs = length es"
        using that unfolding offset by (auto dest: list_all2_lengthD)
      have "map unat ys = map unat zs"
        using radix_inj [of "map unat ys" ?es "map unat zs" 0 0] that len
          zip_all_iff [OF len(1)] zip_all_iff [OF len(2)] unfolding offset by simp
      then show ?thesis by (rule map_injective) (simp add: inj_def unat_inject)
    qed
    ultimately show ?thesis by blast
  qed
  ultimately show ?thesis using offset by blast
qed

theorem row_major_bijection_witness:
  "\<exists>s. make_shape [2, 3, 4] = Inr s \<and> (\<exists>!indices. row_major_offset s indices = Inr 23) \<and>
     row_major_offset s [1, 2, 3] = Inr 23"
proof -
  define s where "s = \<lparr>sh_extents = [2, 3, 4, 0, 0, 0], sh_rank = 3\<rparr>"
  have s: "make_shape [2, 3, 4] = Inr s" unfolding s_def by code_simp
  have n: "checked_numel s = Inr 24" unfolding s_def by code_simp
  have "row_major_offset s [1, 2, 3] = Inr 23" unfolding s_def by code_simp
  with row_major_bijection [OF s n] s show ?thesis by auto
qed

end
