(* ===== verification/ModelSpec.thy ===== *)
theory ModelSpec
  imports Tensor
begin

text \<open>
  \<open>model/model_spec.cpp\<close>: the shape of a model, its number of parameters and its memory
  footprint, in 64-bit arithmetic with overflow guards. A \<open>float\<close> is its IEEE bit pattern;
  an architecture is one of the two enumerators, so the default branches of the switches
  are not cases.
\<close>

section \<open>Floats as bit patterns\<close>

type_synonym f32 = u32

definition f32_is_finite :: "f32 \<Rightarrow> bool" where
  "f32_is_finite x \<longleftrightarrow> and x 0x7F800000 \<noteq> 0x7F800000"

text \<open>\<open>x <= 0.0F\<close> for a finite \<open>x\<close>: a zero or a set sign bit.\<close>

definition f32_not_positive :: "f32 \<Rightarrow> bool" where
  "f32_not_positive x \<longleftrightarrow> x = 0 \<or> and x 0x80000000 \<noteq> 0"

section \<open>Specifications\<close>

datatype architecture = Smollm2_llama | Qwen2

record model_spec =
  ms_architecture :: architecture
  ms_layers :: u32
  ms_hidden_size :: u32
  ms_intermediate_size :: u32
  ms_query_heads :: u32
  ms_kv_heads :: u32
  ms_head_dim :: u32
  ms_vocabulary_size :: u32
  ms_max_positions :: u32
  ms_rms_norm_epsilon :: f32
  ms_rope_theta :: f32
  ms_qkv_bias :: bool
  ms_tied_embeddings :: bool

record model_profile =
  mp_name :: string
  mp_repository :: string
  mp_revision :: string
  mp_spec :: model_spec
  mp_max_checkpoint_bytes :: u64

record model_footprint =
  mf_parameter_count :: u64
  mf_source_weight_bytes :: u64
  mf_materialized_weight_bytes :: u64
  mf_peak_cpu_weight_bytes :: u64
  mf_kv_bytes_per_token :: u64

record runtime_memory_plan =
  rp_resident_kv_tokens :: u64
  rp_workspace_bytes :: u64
  rp_reserve_bytes :: u64

definition smollm2_135m_profile :: model_profile where
  "smollm2_135m_profile = \<lparr>mp_name = ''SmolLM2-135M'',
     mp_repository = ''HuggingFaceTB/SmolLM2-135M'',
     mp_revision = ''93efa2f097d58c2a74874c7e644dbc9b0cee75a2'',
     mp_spec = \<lparr>ms_architecture = Smollm2_llama, ms_layers = 30, ms_hidden_size = 576,
       ms_intermediate_size = 1536, ms_query_heads = 9, ms_kv_heads = 3, ms_head_dim = 64,
       ms_vocabulary_size = 49152, ms_max_positions = 8192, ms_rms_norm_epsilon = 0x3727C5AC,
       ms_rope_theta = 0x47C35000, ms_qkv_bias = False, ms_tied_embeddings = True\<rparr>,
     mp_max_checkpoint_bytes = 300 * 1024 * 1024\<rparr>"

definition qwen2_5_0_5b_profile :: model_profile where
  "qwen2_5_0_5b_profile = \<lparr>mp_name = ''Qwen2.5-0.5B-Instruct'',
     mp_repository = ''Qwen/Qwen2.5-0.5B-Instruct'',
     mp_revision = ''7ae557604adf67be50417f59c2c2f167def9a775'',
     mp_spec = \<lparr>ms_architecture = Qwen2, ms_layers = 24, ms_hidden_size = 896,
       ms_intermediate_size = 4864, ms_query_heads = 14, ms_kv_heads = 2, ms_head_dim = 64,
       ms_vocabulary_size = 151936, ms_max_positions = 32768, ms_rms_norm_epsilon = 0x358637BD,
       ms_rope_theta = 0x49742400, ms_qkv_bias = True, ms_tied_embeddings = True\<rparr>,
     mp_max_checkpoint_bytes = 1100 * 1024 * 1024\<rparr>"

section \<open>Parameter count\<close>

definition add_to :: "u64 \<Rightarrow> u64 result \<Rightarrow> u64 result" where
  "add_to so_far value = (case value of Inl e \<Rightarrow> Inl e | Inr v \<Rightarrow> checked_add so_far v)"

definition matrix_parameters :: "u64 \<Rightarrow> u64 \<Rightarrow> u64 result" where
  "matrix_parameters rows columns = checked_multiply rows columns"

text \<open>The chain of \<open>add_matrix\<close> calls; any failure is reported as an overflow.\<close>

fun add_matrices :: "u64 \<Rightarrow> (u64 \<times> u64) list \<Rightarrow> u64 result" where
  "add_matrices per_layer [] = Inr per_layer"
| "add_matrices per_layer ((rows, columns) # rest) =
     (case add_to per_layer (matrix_parameters rows columns) of
        Inl _ \<Rightarrow> fail Arithmetic_overflow
      | Inr next_so_far \<Rightarrow> add_matrices next_so_far rest)"

definition layer_matrices :: "u64 \<Rightarrow> u64 \<Rightarrow> u64 \<Rightarrow> u64 \<Rightarrow> (u64 \<times> u64) list" where
  "layer_matrices hidden intermediate query_width kv_width =
     [(hidden, query_width), (hidden, kv_width), (hidden, kv_width), (query_width, hidden),
      (hidden, intermediate), (hidden, intermediate), (intermediate, hidden)]"

definition layer_biases :: "bool \<Rightarrow> u64 \<Rightarrow> u64 \<Rightarrow> u64 \<Rightarrow> u64 result" where
  "layer_biases qkv_bias per_layer query_width kv_width =
     (if \<not> qkv_bias then Inr per_layer
      else
        (case checked_multiply kv_width 2 of
           Inl e \<Rightarrow> Inl e
         | Inr two_kv_biases \<Rightarrow> add_to per_layer (checked_add query_width two_kv_biases)))"

definition estimate_parameter_count :: "model_spec \<Rightarrow> u64 result" where
  "estimate_parameter_count spec =
     (if ms_layers spec = 0 \<or> ms_hidden_size spec = 0 \<or> ms_intermediate_size spec = 0 \<or>
         ms_query_heads spec = 0 \<or> ms_kv_heads spec = 0 \<or> ms_head_dim spec = 0 \<or>
         ms_vocabulary_size spec = 0
      then fail Invalid_model
      else if ms_query_heads spec mod ms_kv_heads spec \<noteq> 0 then fail Invalid_model
      else
        let hidden = ucast (ms_hidden_size spec);
            intermediate = ucast (ms_intermediate_size spec)
        in (case (checked_multiply (ucast (ms_query_heads spec)) (ucast (ms_head_dim spec)),
                  checked_multiply (ucast (ms_kv_heads spec)) (ucast (ms_head_dim spec))) of
              (Inr query_width, Inr kv_width) \<Rightarrow>
                if query_width \<noteq> hidden then fail Invalid_model
                else
                  (case matrix_parameters (ucast (ms_vocabulary_size spec)) hidden of
                     Inl e \<Rightarrow> Inl e
                   | Inr so_far \<Rightarrow>
                  (case add_matrices 0 (layer_matrices hidden intermediate query_width kv_width) of
                     Inl e \<Rightarrow> Inl e
                   | Inr per_layer \<Rightarrow>
                  (case add_to per_layer (checked_multiply hidden 2) of
                     Inl e \<Rightarrow> Inl e
                   | Inr per_layer \<Rightarrow>
                  (case layer_biases (ms_qkv_bias spec) per_layer query_width kv_width of
                     Inl e \<Rightarrow> Inl e
                   | Inr per_layer \<Rightarrow>
                  (case add_to so_far (checked_multiply per_layer (ucast (ms_layers spec))) of
                     Inl e \<Rightarrow> Inl e
                   | Inr so_far \<Rightarrow>
                  (case checked_add so_far hidden of
                     Inl e \<Rightarrow> Inl e
                   | Inr so_far \<Rightarrow>
                       if ms_tied_embeddings spec then Inr so_far
                       else add_to so_far
                         (matrix_parameters (ucast (ms_vocabulary_size spec)) hidden)))))))
            | _ \<Rightarrow> fail Arithmetic_overflow))"

section \<open>Validation and footprint\<close>

definition validate_model :: "model_spec \<Rightarrow> status" where
  "validate_model spec =
     (if ms_layers spec = 0 \<or> ms_hidden_size spec = 0 \<or> ms_intermediate_size spec = 0 \<or>
         ms_query_heads spec = 0 \<or> ms_kv_heads spec = 0 \<or> ms_head_dim spec = 0 \<or>
         ms_vocabulary_size spec = 0 \<or> ms_max_positions spec = 0
      then status_failure Invalid_model
      else if ms_query_heads spec mod ms_kv_heads spec \<noteq> 0 then status_failure Invalid_model
      else if (case checked_multiply (ucast (ms_query_heads spec)) (ucast (ms_head_dim spec)) of
                 Inl _ \<Rightarrow> True
               | Inr query_width \<Rightarrow> query_width \<noteq> ucast (ms_hidden_size spec))
      then status_failure Invalid_model
      else if \<not> f32_is_finite (ms_rms_norm_epsilon spec) \<or>
              f32_not_positive (ms_rms_norm_epsilon spec) \<or>
              \<not> f32_is_finite (ms_rope_theta spec) \<or> f32_not_positive (ms_rope_theta spec)
      then status_failure Invalid_model
      else result_status (estimate_parameter_count spec))"

text \<open>The product behind \<open>kv_bytes\<close>, one guarded factor at a time.\<close>

fun multiply_all :: "u64 \<Rightarrow> u64 list \<Rightarrow> u64 result" where
  "multiply_all acc [] = Inr acc"
| "multiply_all acc (x # xs) =
     (case checked_multiply acc x of Inl e \<Rightarrow> Inl e | Inr product \<Rightarrow> multiply_all product xs)"

definition estimate_model_footprint ::
  "model_spec \<Rightarrow> dtype \<Rightarrow> dtype \<Rightarrow> dtype \<Rightarrow> model_footprint result" where
  "estimate_model_footprint spec source_dtype materialized_dtype kv_dtype =
     (if \<not> status_ok (validate_model spec) then Inl (validate_model spec)
      else
        (case (estimate_parameter_count spec, dtype_size source_dtype,
               dtype_size materialized_dtype, dtype_size kv_dtype) of
           (Inr parameters, Inr source_width, Inr materialized_width, Inr kv_width) \<Rightarrow>
             (case (checked_multiply parameters (ucast source_width),
                    checked_multiply parameters (ucast materialized_width)) of
                (Inr source_bytes, Inr materialized_bytes) \<Rightarrow>
                  (case checked_add source_bytes materialized_bytes of
                     Inl e \<Rightarrow> Inl e
                   | Inr peak_weights \<Rightarrow>
                       (case multiply_all 2 [ucast (ms_layers spec), ucast (ms_kv_heads spec),
                                ucast (ms_head_dim spec), ucast kv_width] of
                          Inl e \<Rightarrow> Inl e
                        | Inr kv_bytes \<Rightarrow>
                            Inr \<lparr>mf_parameter_count = parameters,
                                 mf_source_weight_bytes = source_bytes,
                                 mf_materialized_weight_bytes = materialized_bytes,
                                 mf_peak_cpu_weight_bytes = peak_weights,
                                 mf_kv_bytes_per_token = kv_bytes\<rparr>))
              | _ \<Rightarrow> fail Arithmetic_overflow)
         | _ \<Rightarrow> fail Unsupported_dtype))"

definition estimate_peak_runtime_bytes ::
  "model_footprint \<Rightarrow> runtime_memory_plan \<Rightarrow> u64 result" where
  "estimate_peak_runtime_bytes footprint plan =
     (case checked_multiply (mf_kv_bytes_per_token footprint) (rp_resident_kv_tokens plan) of
        Inl e \<Rightarrow> Inl e
      | Inr kv_bytes \<Rightarrow>
          (case checked_add (mf_peak_cpu_weight_bytes footprint) kv_bytes of
             Inl e \<Rightarrow> Inl e
           | Inr so_far \<Rightarrow>
               (case checked_add so_far (rp_workspace_bytes plan) of
                  Inl e \<Rightarrow> Inl e
                | Inr so_far \<Rightarrow> checked_add so_far (rp_reserve_bytes plan))))"

definition fits_memory_budget ::
  "model_footprint \<Rightarrow> runtime_memory_plan \<Rightarrow> u64 \<Rightarrow> bool result" where
  "fits_memory_budget footprint plan available_bytes =
     (case estimate_peak_runtime_bytes footprint plan of
        Inl e \<Rightarrow> Inl e
      | Inr required \<Rightarrow> Inr (required \<le> available_bytes))"

section \<open>Guarded arithmetic is arithmetic that fits\<close>

text \<open>A natural number as a 64-bit result.\<close>

definition fits :: "nat \<Rightarrow> u64 result" where
  "fits n = (if n < 2 ^ 64 then Inr (of_nat n) else fail Arithmetic_overflow)"

named_theorems fitting \<open>guarded operations as \<^const>\<open>fits\<close>\<close>

lemma fits_unat [simp]: "fits (unat x) = Inr x"
  using unat_u64_lt [of x] by (simp add: fits_def)

lemma fits_Inr: "fits n = Inr x \<longleftrightarrow> unat x = n"
  using unat_u64_lt [of x] by (auto simp: fits_def unat_of_nat)

lemma fits_Inl: "fits n = Inl e \<longleftrightarrow> 2 ^ 64 \<le> n \<and> e = status_failure Arithmetic_overflow"
  by (auto simp: fits_def)

lemma checked_add_fits [fitting]: "checked_add a b = fits (unat a + unat b)"
  by (cases "checked_add a b") (auto simp: checked_add_Inl fits_def unat_u64_plus simp flip: unat_inject)

lemma checked_multiply_fits [fitting]: "checked_multiply a b = fits (unat a * unat b)"
  by (cases "checked_multiply a b")
    (auto simp: checked_multiply_Inl fits_def unat_u64_times simp flip: unat_inject)

text \<open>A chain of guarded steps that only grow fails exactly when the last value does not fit.\<close>

lemma fits_bind:
  assumes "\<And>x. unat x = n \<Longrightarrow> f x = fits m" "n \<le> m"
  shows "(case fits n of Inl e \<Rightarrow> Inl e | Inr x \<Rightarrow> f x) = fits m"
proof (cases "n < 2 ^ 64")
  case True
  then have "unat (of_nat n :: u64) = n" by (rule unat_u64_of_nat)
  with True assms(1) show ?thesis by (simp add: fits_def)
next
  case False
  with assms(2) show ?thesis by (simp add: fits_def)
qed

lemma add_to_fits [fitting]: "add_to a (fits n) = fits (unat a + n)"
  unfolding add_to_def by (rule fits_bind) (simp_all add: fitting)

lemma add_matrices_fits [fitting]:
  "add_matrices a ms = fits (unat a + (\<Sum>(r, c)\<leftarrow>ms. unat r * unat c))"
proof (induction ms arbitrary: a)
  case (Cons m ms)
  obtain r c where m: "m = (r, c)" by (cases m)
  have swap: "(case fits n of Inl _ \<Rightarrow> fail Arithmetic_overflow | Inr x \<Rightarrow> f x) =
      (case fits n of Inl e \<Rightarrow> Inl e | Inr x \<Rightarrow> f x)" for n and f :: "u64 \<Rightarrow> u64 result"
    by (simp add: fits_def)
  show ?case
    by (simp add: m matrix_parameters_def fitting swap)
      (rule fits_bind, simp_all add: Cons.IH add.assoc)
qed simp

lemma multiply_all_fits:
  "0 \<notin> set xs \<Longrightarrow> multiply_all a xs = fits (unat a * prod_list (map unat xs))"
proof (induction xs arbitrary: a)
  case (Cons x xs)
  have "1 \<le> prod_list (map unat xs)" using Cons.prems by (induction xs) (auto simp: unat_gt_0 Suc_le_eq)
  then have "unat a * unat x * 1 \<le> unat a * unat x * prod_list (map unat xs)"
    by (rule mult_left_mono) simp
  then show ?case
    using Cons by (simp add: fitting) (rule fits_bind, simp_all add: mult.assoc)
qed simp

section \<open>The count\<close>

definition model_shape_ok :: "model_spec \<Rightarrow> bool" where
  "model_shape_ok spec \<longleftrightarrow>
     ms_layers spec \<noteq> 0 \<and> ms_hidden_size spec \<noteq> 0 \<and> ms_intermediate_size spec \<noteq> 0 \<and>
     ms_query_heads spec \<noteq> 0 \<and> ms_kv_heads spec \<noteq> 0 \<and> ms_head_dim spec \<noteq> 0 \<and>
     ms_vocabulary_size spec \<noteq> 0 \<and> unat (ms_kv_heads spec) dvd unat (ms_query_heads spec) \<and>
     unat (ms_query_heads spec) * unat (ms_head_dim spec) = unat (ms_hidden_size spec)"

text \<open>Attention, gated MLP, two norms and the optional biases of one layer.\<close>

definition layer_parameters :: "model_spec \<Rightarrow> nat" where
  "layer_parameters spec =
     (let h = unat (ms_hidden_size spec); i = unat (ms_intermediate_size spec);
          kv = unat (ms_kv_heads spec) * unat (ms_head_dim spec)
      in 2 * h * h + 2 * h * kv + 3 * h * i + 2 * h +
         (if ms_qkv_bias spec then h + 2 * kv else 0))"

definition model_parameters :: "model_spec \<Rightarrow> nat" where
  "model_parameters spec =
     (let h = unat (ms_hidden_size spec); v = unat (ms_vocabulary_size spec)
      in v * h + unat (ms_layers spec) * layer_parameters spec + h +
         (if ms_tied_embeddings spec then 0 else v * h))"

lemma word_mod_0: "x mod y = 0 \<longleftrightarrow> unat y dvd unat (x :: 'a::len word)"
  by (simp add: unat_mod dvd_eq_mod_eq_0 flip: unat_inject)

lemma product_u32: "unat (a :: u32) * unat (b :: u32) < 2 ^ 64"
proof -
  have "unat a * unat b < 2 ^ 32 * 2 ^ 32"
    using unat_u32_lt by (intro mult_strict_mono) simp_all
  then show ?thesis by simp
qed

lemma product_u32_Inr:
  "checked_multiply (ucast (a :: u32)) (ucast (b :: u32)) =
     Inr (of_nat (unat a * unat b))"
  "unat (of_nat (unat a * unat b) :: u64) = unat a * unat b"
  using product_u32 [of a b] unat_u64_of_nat [OF product_u32, of a b]
  by (simp_all add: fitting fits_def)

lemma layer_biases_fits [fitting]:
  "layer_biases b p q k = fits (unat p + (if b then unat q + 2 * unat k else 0))"
  by (simp add: layer_biases_def fitting) (intro impI fits_bind, simp_all add: fitting ac_simps)

lemma if_fits:
  "unat x = n \<Longrightarrow> unat y = m \<Longrightarrow>
     (if b then Inr x else add_to x (Inr y)) = fits (n + (if b then 0 else m))"
  by (auto simp: add_to_def fitting)

lemma parameter_count_shape:
  "estimate_parameter_count spec = fail Invalid_model" if "\<not> model_shape_ok spec"
proof -
  have "of_nat (unat (ms_query_heads spec) * unat (ms_head_dim spec)) \<noteq> (ucast (ms_hidden_size spec) :: u64)"
    if "unat (ms_query_heads spec) * unat (ms_head_dim spec) \<noteq> unat (ms_hidden_size spec)"
    using that product_u32_Inr(2) [of "ms_query_heads spec" "ms_head_dim spec"]
    by (metis unat_ucast_u32_u64)
  then show ?thesis
    using \<open>\<not> model_shape_ok spec\<close>
    by (auto simp: estimate_parameter_count_def model_shape_ok_def product_u32_Inr(1) Let_def
        word_mod_0 simp del: of_nat_mult)
qed

lemma parameter_count_fits:
  assumes ok: "model_shape_ok spec"
  shows "estimate_parameter_count spec = fits (model_parameters spec)"
proof -
  let ?h = "unat (ms_hidden_size spec)" and ?i = "unat (ms_intermediate_size spec)"
  let ?v = "unat (ms_vocabulary_size spec)" and ?l = "unat (ms_layers spec)"
  define kv where "kv = unat (ms_kv_heads spec) * unat (ms_head_dim spec)"
  have kv: "unat (of_nat kv :: u64) = kv" unfolding kv_def by (rule product_u32_Inr(2))
  have q: "of_nat (unat (ms_query_heads spec) * unat (ms_head_dim spec)) = (ucast (ms_hidden_size spec) :: u64)"
    using ok product_u32_Inr(2) [of "ms_query_heads spec" "ms_head_dim spec"]
    by (simp add: model_shape_ok_def flip: unat_inject)
  have guards: "\<not> (ms_layers spec = 0 \<or> ms_hidden_size spec = 0 \<or> ms_intermediate_size spec = 0 \<or>
         ms_query_heads spec = 0 \<or> ms_kv_heads spec = 0 \<or> ms_head_dim spec = 0 \<or>
         ms_vocabulary_size spec = 0)" "\<not> ms_query_heads spec mod ms_kv_heads spec \<noteq> 0"
    using ok by (simp_all add: model_shape_ok_def word_mod_0)
  have sum: "(\<Sum>(r, c)\<leftarrow>layer_matrices (ucast (ms_hidden_size spec)) (ucast (ms_intermediate_size spec))
      (ucast (ms_hidden_size spec)) (of_nat kv). unat r * unat c) = 2 * ?h * ?h + 2 * ?h * kv + 3 * ?h * ?i"
    by (simp add: layer_matrices_def kv algebra_simps)
  have layer: "layer_parameters spec = 2 * ?h * ?h + 2 * ?h * kv + 3 * ?h * ?i + ?h * 2 +
      (if ms_qkv_bias spec then ?h + 2 * kv else 0)"
    by (simp add: layer_parameters_def kv_def Let_def)
  have mono: "layer_parameters spec \<le> ?l * layer_parameters spec"
    using ok by (simp add: model_shape_ok_def unat_gt_0 Suc_le_eq)
  have whole: "model_parameters spec = ?v * ?h + ?l * layer_parameters spec + ?h +
      (if ms_tied_embeddings spec then 0 else ?v * ?h)"
    by (simp add: model_parameters_def Let_def)
  have v: "unat (of_nat (?v * ?h) :: u64) = ?v * ?h" by (rule product_u32_Inr(2))
  have two: "unat (2 :: u64) = 2" by simp
  define B where "B = (if ms_qkv_bias spec then ?h + 2 * kv else 0)"
  define T where "T = (if ms_tied_embeddings spec then 0 else ?v * ?h)"
  note layer = layer [folded B_def] and whole = whole [folded T_def]
  have parts: "layer_parameters spec \<le> ?v * ?h + ?l * layer_parameters spec + ?h + T"
    "2 * ?h * ?h + 2 * ?h * kv + 3 * ?h * ?i + ?h * 2 \<le> ?v * ?h + ?l * layer_parameters spec + ?h + T"
    "2 * ?h * ?h + 2 * ?h * kv + 3 * ?h * ?i \<le> ?v * ?h + ?l * layer_parameters spec + ?h + T"
    using mono layer by linarith+
  show ?thesis
    unfolding estimate_parameter_count_def Let_def if_not_P [OF guards(1)] if_not_P [OF guards(2)]
      product_u32_Inr(1) prod.case sum.case q kv_def [symmetric] matrix_parameters_def
    unfolding fitting sum if_not_P [OF not_not [THEN iffD2, OF refl]] unat_ucast_u32_u64
    apply (rule fits_bind)+
         apply (simp_all only: kv v two unat_0 add_0 B_def [symmetric] layer [symmetric] whole mult.commute [of "layer_parameters spec"])
         apply (unfold T_def, erule if_fits [OF _ v], fold T_def)
      apply (rule parts)+
    done
qed

text \<open>
  (C28) \<open>estimate_parameter_count\<close> is exact: it refuses a specification whose dimensions do
  not fit together as an invalid model, returns the number of parameters of the
  architecture when it fits 64 bits, and reports an overflow exactly when it does not, so
  no intermediate sum wraps. The two profiles have 134,515,008 and 494,032,768 parameters.
\<close>

theorem parameter_count_exact:
  "estimate_parameter_count spec =
     (if \<not> model_shape_ok spec then fail Invalid_model
      else if model_parameters spec < 2 ^ 64 then Inr (of_nat (model_parameters spec))
      else fail Arithmetic_overflow) \<and>
   estimate_parameter_count (mp_spec smollm2_135m_profile) = Inr 134515008 \<and>
   estimate_parameter_count (mp_spec qwen2_5_0_5b_profile) = Inr 494032768"
proof -
  have exact: "estimate_parameter_count s = (if \<not> model_shape_ok s then fail Invalid_model
      else if model_parameters s < 2 ^ 64 then Inr (of_nat (model_parameters s))
      else fail Arithmetic_overflow)" for s
    using parameter_count_shape [of s] parameter_count_fits [of s] by (simp add: fits_def)
  have "model_shape_ok (mp_spec smollm2_135m_profile)" "model_shape_ok (mp_spec qwen2_5_0_5b_profile)"
    "model_parameters (mp_spec smollm2_135m_profile) = 134515008"
    "model_parameters (mp_spec qwen2_5_0_5b_profile) = 494032768"
    by (simp_all add: model_shape_ok_def model_parameters_def layer_parameters_def Let_def
        smollm2_135m_profile_def qwen2_5_0_5b_profile_def)
  then show ?thesis using exact by simp
qed

section \<open>Memory\<close>

definition dtype_bytes :: "dtype \<Rightarrow> nat" where
  "dtype_bytes t = (case t of F32 \<Rightarrow> 4 | I32 \<Rightarrow> 4 | U32 \<Rightarrow> 4 | F16 \<Rightarrow> 2 | Bf16 \<Rightarrow> 2 | I8 \<Rightarrow> 1)"

lemma dtype_size_bytes: "\<exists>n. dtype_size t = Inr n \<and> unat n = dtype_bytes t"
  by (cases t) (simp_all add: dtype_size_def dtype_bytes_def)

definition kv_token_bytes :: "model_spec \<Rightarrow> dtype \<Rightarrow> nat" where
  "kv_token_bytes spec kv =
     2 * unat (ms_layers spec) * unat (ms_kv_heads spec) * unat (ms_head_dim spec) * dtype_bytes kv"

definition peak_bytes :: "model_spec \<Rightarrow> dtype \<Rightarrow> dtype \<Rightarrow> dtype \<Rightarrow> runtime_memory_plan \<Rightarrow> nat" where
  "peak_bytes spec source materialized kv plan =
     model_parameters spec * (dtype_bytes source + dtype_bytes materialized) +
     kv_token_bytes spec kv * unat (rp_resident_kv_tokens plan) +
     unat (rp_workspace_bytes plan) + unat (rp_reserve_bytes plan)"

lemma runtime_bytes_fits:
  "estimate_peak_runtime_bytes f plan =
     fits (unat (mf_peak_cpu_weight_bytes f) +
       unat (mf_kv_bytes_per_token f) * unat (rp_resident_kv_tokens plan) +
       unat (rp_workspace_bytes plan) + unat (rp_reserve_bytes plan))"
  unfolding estimate_peak_runtime_bytes_def fitting
  by (rule fits_bind, simp only: fitting, (rule fits_bind, simp only: fitting)+) simp_all

lemma model_shape_validated: "status_ok (validate_model spec) \<Longrightarrow> model_shape_ok spec"
  by (rule ccontr) (simp add: validate_model_def parameter_count_shape split: if_splits)

lemma footprint_fields:
  assumes "estimate_model_footprint spec source materialized kv = Inr f"
  shows "model_shape_ok spec \<and> unat (mf_parameter_count f) = model_parameters spec \<and>
    unat (mf_source_weight_bytes f) = model_parameters spec * dtype_bytes source \<and>
    unat (mf_materialized_weight_bytes f) = model_parameters spec * dtype_bytes materialized \<and>
    unat (mf_peak_cpu_weight_bytes f) =
      model_parameters spec * (dtype_bytes source + dtype_bytes materialized) \<and>
    unat (mf_kv_bytes_per_token f) = kv_token_bytes spec kv"
proof -
  obtain s m k where sizes: "dtype_size source = Inr s" "dtype_size materialized = Inr m"
    "dtype_size kv = Inr k" "unat s = dtype_bytes source" "unat m = dtype_bytes materialized"
    "unat k = dtype_bytes kv"
    using dtype_size_bytes [of source] dtype_size_bytes [of materialized] dtype_size_bytes [of kv]
    by blast
  have shape: "model_shape_ok spec"
    using assms model_shape_validated by (auto simp: estimate_model_footprint_def split: if_splits)
  have nz: "0 \<notin> set [ucast (ms_layers spec), ucast (ms_kv_heads spec), ucast (ms_head_dim spec), ucast k :: u64]"
    using shape sizes(6) by (auto simp: model_shape_ok_def dtype_bytes_def simp flip: unat_inject split: dtype.splits)
  show ?thesis
    using assms shape sizes
    unfolding estimate_model_footprint_def parameter_count_fits [OF shape] multiply_all_fits [OF nz]
    by (auto simp: fitting fits_Inr kv_token_bytes_def algebra_simps
        split: if_splits sum.splits prod.splits)
qed

text \<open>
  The memory budget is exact: for a footprint computed from a specification,
  \<open>fits_memory_budget\<close> compares the bytes of the source weights, the materialized weights,
  the resident keys and values, the workspace and the reserve with what is available, and
  reports an overflow exactly when that sum does not fit 64 bits.
\<close>

theorem memory_budget_exact:
  assumes "estimate_model_footprint spec source materialized kv = Inr f"
  shows "fits_memory_budget f plan available =
      (if peak_bytes spec source materialized kv plan < 2 ^ 64
       then Inr (peak_bytes spec source materialized kv plan \<le> unat available)
       else fail Arithmetic_overflow) \<and>
    unat (mf_parameter_count f) = model_parameters spec \<and>
    unat (mf_kv_bytes_per_token f) = kv_token_bytes spec kv"
proof -
  note fields = footprint_fields [OF assms]
  have "estimate_peak_runtime_bytes f plan = fits (peak_bytes spec source materialized kv plan)"
    using fields by (simp add: runtime_bytes_fits peak_bytes_def)
  then have "fits_memory_budget f plan available =
      (if peak_bytes spec source materialized kv plan < 2 ^ 64
       then Inr (peak_bytes spec source materialized kv plan \<le> unat available)
       else fail Arithmetic_overflow)"
    by (simp add: fits_memory_budget_def fits_def word_le_nat_alt unat_u64_of_nat)
  with fields show ?thesis by blast
qed

theorem memory_budget_exact_witness:
  "\<exists>f. estimate_model_footprint (mp_spec smollm2_135m_profile) Bf16 F32 F32 = Inr f \<and>
     fits_memory_budget f \<lparr>rp_resident_kv_tokens = 1024, rp_workspace_bytes = 0, rp_reserve_bytes = 0\<rparr>
       1000000000 = Inr True"
proof -
  let ?spec = "mp_spec smollm2_135m_profile"
  let ?plan = "\<lparr>rp_resident_kv_tokens = 1024, rp_workspace_bytes = 0, rp_reserve_bytes = 0\<rparr>"
  have count: "estimate_parameter_count ?spec = Inr 134515008" by code_simp
  have "validate_model ?spec = status_success"
    unfolding validate_model_def count by code_simp
  then obtain f where f: "estimate_model_footprint ?spec Bf16 F32 F32 = Inr f"
    unfolding estimate_model_footprint_def count by (simp add: dtype_size_def smollm2_135m_profile_def fitting fits_def)
  have "peak_bytes ?spec Bf16 F32 F32 ?plan = 854275968"
    by (simp add: peak_bytes_def model_parameters_def layer_parameters_def kv_token_bytes_def
        dtype_bytes_def smollm2_135m_profile_def Let_def)
  with memory_budget_exact [OF f, of ?plan 1000000000] f show ?thesis by simp
qed

end
