(* ===== verification/Json.thy ===== *)
theory Json
  imports Core
begin

unbundle bit_operations_syntax

text \<open>
  \<open>model/json_parser.cpp\<close>: UTF-8 validation and the JSON parser. The input is a list of
  bytes; the parser's position is the part of the input that is still to be read, the
  number of bytes of the whole input being an argument where a status reports the position.
  The loops of \<open>parse_object\<close> and \<open>parse_array\<close> take fuel, and None means that it ran out;
  theory JsonProps shows that it never does.
\<close>

section \<open>Values\<close>

type_synonym bytes = "u8 list"

datatype json =
    Json_null
  | Json_boolean bool
  | Json_number bytes
  | Json_string bytes
  | Json_array "json list"
  | Json_object "(bytes \<times> json) list"

text \<open>\<open>JsonValue::find\<close>.\<close>

definition json_find :: "json \<Rightarrow> bytes \<Rightarrow> json option" where
  "json_find value key =
     (case value of
        Json_object members \<Rightarrow> map_option snd (List.find (\<lambda>m. fst m = key) members)
      | _ \<Rightarrow> None)"

abbreviation (input) c_space :: u8 where "c_space \<equiv> 0x20"
abbreviation (input) c_tab :: u8 where "c_tab \<equiv> 0x09"
abbreviation (input) c_newline :: u8 where "c_newline \<equiv> 0x0A"
abbreviation (input) c_return :: u8 where "c_return \<equiv> 0x0D"
abbreviation (input) c_quote :: u8 where "c_quote \<equiv> 0x22"
abbreviation (input) c_plus :: u8 where "c_plus \<equiv> 0x2B"
abbreviation (input) c_comma :: u8 where "c_comma \<equiv> 0x2C"
abbreviation (input) c_minus :: u8 where "c_minus \<equiv> 0x2D"
abbreviation (input) c_dot :: u8 where "c_dot \<equiv> 0x2E"
abbreviation (input) c_slash :: u8 where "c_slash \<equiv> 0x2F"
abbreviation (input) c_0 :: u8 where "c_0 \<equiv> 0x30"
abbreviation (input) c_1 :: u8 where "c_1 \<equiv> 0x31"
abbreviation (input) c_9 :: u8 where "c_9 \<equiv> 0x39"
abbreviation (input) c_colon :: u8 where "c_colon \<equiv> 0x3A"
abbreviation (input) c_upper_a :: u8 where "c_upper_a \<equiv> 0x41"
abbreviation (input) c_upper_e :: u8 where "c_upper_e \<equiv> 0x45"
abbreviation (input) c_upper_f :: u8 where "c_upper_f \<equiv> 0x46"
abbreviation (input) c_lbracket :: u8 where "c_lbracket \<equiv> 0x5B"
abbreviation (input) c_backslash :: u8 where "c_backslash \<equiv> 0x5C"
abbreviation (input) c_rbracket :: u8 where "c_rbracket \<equiv> 0x5D"
abbreviation (input) c_a :: u8 where "c_a \<equiv> 0x61"
abbreviation (input) c_b :: u8 where "c_b \<equiv> 0x62"
abbreviation (input) c_e :: u8 where "c_e \<equiv> 0x65"
abbreviation (input) c_f :: u8 where "c_f \<equiv> 0x66"
abbreviation (input) c_n :: u8 where "c_n \<equiv> 0x6E"
abbreviation (input) c_r :: u8 where "c_r \<equiv> 0x72"
abbreviation (input) c_t :: u8 where "c_t \<equiv> 0x74"
abbreviation (input) c_u :: u8 where "c_u \<equiv> 0x75"
abbreviation (input) c_lbrace :: u8 where "c_lbrace \<equiv> 0x7B"
abbreviation (input) c_rbrace :: u8 where "c_rbrace \<equiv> 0x7D"

section \<open>UTF-8\<close>

text \<open>The bytes that \<open>append_utf8\<close> pushes.\<close>

definition append_utf8 :: "u32 \<Rightarrow> bytes" where
  "append_utf8 code_point =
     (if code_point \<le> 0x7F then [ucast code_point]
      else if code_point \<le> 0x7FF then
        [ucast (0xC0 OR drop_bit 6 code_point), ucast (0x80 OR (code_point AND 0x3F))]
      else if code_point \<le> 0xFFFF then
        [ucast (0xE0 OR drop_bit 12 code_point),
         ucast (0x80 OR (drop_bit 6 code_point AND 0x3F)),
         ucast (0x80 OR (code_point AND 0x3F))]
      else
        [ucast (0xF0 OR drop_bit 18 code_point),
         ucast (0x80 OR (drop_bit 12 code_point AND 0x3F)),
         ucast (0x80 OR (drop_bit 6 code_point AND 0x3F)),
         ucast (0x80 OR (code_point AND 0x3F))])"

text \<open>The number of continuation bytes and the first bits of the code point.\<close>

definition utf8_lead :: "u8 \<Rightarrow> (nat \<times> u32) option" where
  "utf8_lead first =
     (if first \<ge> 0xC2 \<and> first \<le> 0xDF then Some (1, ucast (first AND 0x1F))
      else if first \<ge> 0xE0 \<and> first \<le> 0xEF then Some (2, ucast (first AND 0x0F))
      else if first \<ge> 0xF0 \<and> first \<le> 0xF4 then Some (3, ucast (first AND 0x07))
      else None)"

fun utf8_continue :: "bytes \<Rightarrow> u32 \<Rightarrow> u32 option" where
  "utf8_continue [] code_point = Some code_point"
| "utf8_continue (b # bs) code_point =
     (if b AND 0xC0 \<noteq> 0x80 then None
      else utf8_continue bs (push_bit 6 code_point OR ucast (b AND 0x3F)))"

definition utf8_out_of_range :: "nat \<Rightarrow> u32 \<Rightarrow> bool" where
  "utf8_out_of_range continuation_count code_point \<longleftrightarrow>
     (continuation_count = 2 \<and>
        (code_point < 0x800 \<or> (code_point \<ge> 0xD800 \<and> code_point \<le> 0xDFFF))) \<or>
     (continuation_count = 3 \<and> (code_point < 0x10000 \<or> code_point > 0x10FFFF))"

fun is_valid_utf8 :: "bytes \<Rightarrow> bool" where
  "is_valid_utf8 [] = True"
| "is_valid_utf8 (first # rest) =
     (if first \<le> 0x7F then is_valid_utf8 rest
      else
        (case utf8_lead first of
           None \<Rightarrow> False
         | Some (continuation_count, code_point) \<Rightarrow>
             if length rest < continuation_count then False
             else
               (case utf8_continue (take continuation_count rest) code_point of
                  None \<Rightarrow> False
                | Some code_point \<Rightarrow>
                    if utf8_out_of_range continuation_count code_point then False
                    else is_valid_utf8 (drop continuation_count rest))))"

section \<open>Scanning\<close>

text \<open>\<open>Parser::fail\<close>: the position, at most the largest 32-bit number.\<close>

definition json_fail :: "nat \<Rightarrow> bytes \<Rightarrow> error_code \<Rightarrow> 'a result" where
  "json_fail size_of_input rest code =
     (let position = size_of_input - length rest
      in Inl (status_failure_at code
           (if position > unat u32_max then u32_max else of_nat position)))"

definition is_whitespace :: "u8 \<Rightarrow> bool" where
  "is_whitespace c \<longleftrightarrow> c = c_space \<or> c = c_newline \<or> c = c_return \<or> c = c_tab"

definition skip_whitespace :: "bytes \<Rightarrow> bytes" where
  "skip_whitespace rest = dropWhile is_whitespace rest"

definition consume :: "u8 \<Rightarrow> bytes \<Rightarrow> bool \<times> bytes" where
  "consume expected rest =
     (case skip_whitespace rest of
        [] \<Rightarrow> (False, [])
      | c # cs \<Rightarrow> if c \<noteq> expected then (False, c # cs) else (True, cs))"

definition consume_literal :: "bytes \<Rightarrow> bytes \<Rightarrow> bytes option" where
  "consume_literal literal rest =
     (if take (length literal) rest \<noteq> literal then None
      else Some (drop (length literal) rest))"

definition is_digit :: "u8 \<Rightarrow> bool" where
  "is_digit c \<longleftrightarrow> c \<ge> c_0 \<and> c \<le> c_9"

text \<open>
  \<open>parse_number\<close>: sign, integer part, fraction, exponent; each part returns the rest
  after it, or the rest at which \<open>fail\<close> is called.
\<close>

definition scan_integer :: "bytes \<Rightarrow> bytes + bytes" where
  "scan_integer rest =
     (case rest of
        [] \<Rightarrow> Inl rest
      | c # cs \<Rightarrow>
          if c = c_0 then
            (case cs of d # _ \<Rightarrow> if is_digit d then Inl cs else Inr cs | [] \<Rightarrow> Inr cs)
          else if c \<ge> c_1 \<and> c \<le> c_9 then Inr (dropWhile is_digit rest)
          else Inl rest)"

definition scan_fraction :: "bytes \<Rightarrow> bytes + bytes" where
  "scan_fraction rest =
     (case rest of
        [] \<Rightarrow> Inr rest
      | c # cs \<Rightarrow>
          if c \<noteq> c_dot then Inr rest
          else let after = dropWhile is_digit cs
               in if after = cs then Inl after else Inr after)"

definition scan_exponent :: "bytes \<Rightarrow> bytes + bytes" where
  "scan_exponent rest =
     (case rest of
        [] \<Rightarrow> Inr rest
      | c # cs \<Rightarrow>
          if c \<noteq> c_e \<and> c \<noteq> c_upper_e then Inr rest
          else
            let digits = (case cs of d # ds \<Rightarrow> if d = c_plus \<or> d = c_minus then ds else cs | [] \<Rightarrow> cs);
                after = dropWhile is_digit digits
            in if after = digits then Inl after else Inr after)"

definition parse_number :: "nat \<Rightarrow> bytes \<Rightarrow> (json \<times> bytes) result" where
  "parse_number n start =
     (let unsigned_part = (case start of c # cs \<Rightarrow> if c = c_minus then cs else start | [] \<Rightarrow> start)
      in case scan_integer unsigned_part of
           Inl rest \<Rightarrow> json_fail n rest Invalid_json
         | Inr rest1 \<Rightarrow>
             (case scan_fraction rest1 of
                Inl rest \<Rightarrow> json_fail n rest Invalid_json
              | Inr rest2 \<Rightarrow>
                  (case scan_exponent rest2 of
                     Inl rest \<Rightarrow> json_fail n rest Invalid_json
                   | Inr rest3 \<Rightarrow>
                       Inr (Json_number (take (length start - length rest3) start), rest3))))"

section \<open>Strings\<close>

definition is_hex :: "u8 \<Rightarrow> bool" where
  "is_hex c \<longleftrightarrow> (c \<ge> c_0 \<and> c \<le> c_9) \<or> (c \<ge> c_a \<and> c \<le> c_f) \<or>
     (c \<ge> c_upper_a \<and> c \<le> c_upper_f)"

definition hex_value :: "u8 \<Rightarrow> u32" where
  "hex_value c =
     (if c \<ge> c_0 \<and> c \<le> c_9 then ucast (c - c_0)
      else if c \<ge> c_a \<and> c \<le> c_f then ucast (c - c_a + 10)
      else ucast (c - c_upper_a + 10))"

definition parse_hex_quad :: "bytes \<Rightarrow> (u32 \<times> bytes) option" where
  "parse_hex_quad rest =
     (if length rest < 4 \<or> \<not> list_all is_hex (take 4 rest) then None
      else Some (foldl (\<lambda>value digit. value * 16 + hex_value digit) 0 (take 4 rest), drop 4 rest))"

text \<open>The code point of an escape \<open>u\<close>, surrogate pairs included, and the rest after it.\<close>

definition parse_unicode_escape :: "bytes \<Rightarrow> (u32 \<times> bytes) option" where
  "parse_unicode_escape rest =
     (case parse_hex_quad rest of
        None \<Rightarrow> None
      | Some (code_point, rest1) \<Rightarrow>
          if code_point \<ge> 0xD800 \<and> code_point \<le> 0xDBFF then
            if length rest1 < 6 \<or> rest1 ! 0 \<noteq> c_backslash \<or> rest1 ! 1 \<noteq> c_u then None
            else
              (case parse_hex_quad (drop 2 rest1) of
                 None \<Rightarrow> None
               | Some (low, rest2) \<Rightarrow>
                   if low < 0xDC00 \<or> low > 0xDFFF then None
                   else Some (0x10000 + push_bit 10 (code_point - 0xD800) + (low - 0xDC00), rest2))
          else if code_point \<ge> 0xDC00 \<and> code_point \<le> 0xDFFF then None
          else Some (code_point, rest1))"

definition simple_escape :: "u8 \<Rightarrow> u8 option" where
  "simple_escape e =
     (if e = c_quote \<or> e = c_backslash \<or> e = c_slash then Some e
      else if e = c_b then Some 0x08
      else if e = c_f then Some 0x0C
      else if e = c_n then Some 0x0A
      else if e = c_r then Some 0x0D
      else if e = c_t then Some 0x09
      else None)"

lemma parse_hex_quad_shorter:
  "parse_hex_quad rest = Some (v, rest') \<Longrightarrow> length rest = length rest' + 4"
  by (auto simp: parse_hex_quad_def split: if_splits)

lemma parse_unicode_escape_shorter:
  "parse_unicode_escape rest = Some (v, rest') \<Longrightarrow> length rest' + 4 \<le> length rest"
  by (auto simp: parse_unicode_escape_def split: option.splits if_splits dest!: parse_hex_quad_shorter)

text \<open>The loop of \<open>parse_string\<close> after the opening quote.\<close>

function parse_string_loop :: "nat \<Rightarrow> bytes \<Rightarrow> bytes \<Rightarrow> (bytes \<times> bytes) result" where
  "parse_string_loop n [] output = fail Invalid_json"
| "parse_string_loop n (c # rest) output =
     (if c = c_quote then Inr (output, rest)
      else if c < 0x20 then
        Inl (status_failure_at Invalid_json (of_nat (n - length (c # rest))))
      else if c \<noteq> c_backslash then parse_string_loop n rest (output @ [c])
      else
        (case rest of
           [] \<Rightarrow> fail Invalid_json
         | e # rest1 \<Rightarrow>
             if e = c_u then
               (case parse_unicode_escape rest1 of
                  None \<Rightarrow> fail Invalid_json
                | Some (code_point, rest2) \<Rightarrow>
                    parse_string_loop n rest2 (output @ append_utf8 code_point))
             else
               (case simple_escape e of
                  None \<Rightarrow> fail Invalid_json
                | Some b \<Rightarrow> parse_string_loop n rest1 (output @ [b]))))"
  by pat_completeness auto
termination
  by (relation "measure (\<lambda>(n, rest, output). length rest)")
    (auto dest: parse_unicode_escape_shorter)

definition parse_string :: "nat \<Rightarrow> bytes \<Rightarrow> (bytes \<times> bytes) result" where
  "parse_string n rest =
     (case rest of
        [] \<Rightarrow> fail Invalid_json
      | c # cs \<Rightarrow> if c \<noteq> c_quote then fail Invalid_json else parse_string_loop n cs [])"

section \<open>Values, objects and arrays\<close>

definition maximum_depth :: nat where "maximum_depth = 64"

abbreviation literal_true :: bytes where "literal_true \<equiv> [0x74, 0x72, 0x75, 0x65]"
abbreviation literal_false :: bytes where "literal_false \<equiv> [0x66, 0x61, 0x6C, 0x73, 0x65]"
abbreviation literal_null :: bytes where "literal_null \<equiv> [0x6E, 0x75, 0x6C, 0x6C]"

text \<open>The cases of \<open>parse_value\<close> that do not recurse.\<close>

definition parse_scalar :: "nat \<Rightarrow> bytes \<Rightarrow> (json \<times> bytes) result" where
  "parse_scalar n rest =
     (if hd rest = c_quote then
        (case parse_string n rest of
           Inl e \<Rightarrow> Inl e
         | Inr (text, rest') \<Rightarrow> Inr (Json_string text, rest'))
      else if hd rest = c_t then
        (case consume_literal literal_true rest of
           Some rest' \<Rightarrow> Inr (Json_boolean True, rest')
         | None \<Rightarrow> json_fail n rest Invalid_json)
      else if hd rest = c_f then
        (case consume_literal literal_false rest of
           Some rest' \<Rightarrow> Inr (Json_boolean False, rest')
         | None \<Rightarrow> json_fail n rest Invalid_json)
      else if hd rest = c_n then
        (case consume_literal literal_null rest of
           Some rest' \<Rightarrow> Inr (Json_null, rest')
         | None \<Rightarrow> json_fail n rest Invalid_json)
      else parse_number n rest)"

text \<open>A key of an object and the colon after it.\<close>

definition parse_key ::
  "nat \<Rightarrow> (bytes \<times> json) list \<Rightarrow> bytes \<Rightarrow> (bytes \<times> bytes) result" where
  "parse_key n members rest =
     (let rest0 = skip_whitespace rest
      in if rest0 = [] \<or> hd rest0 \<noteq> c_quote then json_fail n rest0 Invalid_json
         else
           (case parse_string n rest0 of
              Inl e \<Rightarrow> Inl e
            | Inr (key, rest1) \<Rightarrow>
                if key \<in> fst ` set members then json_fail n rest1 Duplicate_key
                else
                  (case consume c_colon rest1 of
                     (False, rest2) \<Rightarrow> json_fail n rest2 Invalid_json
                   | (True, rest2) \<Rightarrow> Inr (key, rest2))))"

text \<open>
  The loops of \<open>parse_object\<close> and \<open>parse_array\<close> over a parser of the values inside; each
  round takes one unit of fuel.
\<close>

type_synonym value_parser = "bytes \<Rightarrow> (json \<times> bytes) result option"

fun parse_members ::
  "value_parser \<Rightarrow> nat \<Rightarrow> nat \<Rightarrow> (bytes \<times> json) list \<Rightarrow> value_parser" where
  "parse_members parse n 0 members rest = None"
| "parse_members parse n (Suc fuel) members rest =
     (case parse_key n members rest of
        Inl e \<Rightarrow> Some (Inl e)
      | Inr (key, rest1) \<Rightarrow>
          (case parse rest1 of
             None \<Rightarrow> None
           | Some (Inl e) \<Rightarrow> Some (Inl e)
           | Some (Inr (member, rest2)) \<Rightarrow>
               (case consume c_rbrace rest2 of
                  (True, rest3) \<Rightarrow> Some (Inr (Json_object (members @ [(key, member)]), rest3))
                | (False, rest3) \<Rightarrow>
                    (case consume c_comma rest3 of
                       (False, rest4) \<Rightarrow> Some (json_fail n rest4 Invalid_json)
                     | (True, rest4) \<Rightarrow>
                         parse_members parse n fuel (members @ [(key, member)]) rest4))))"

fun parse_elements :: "value_parser \<Rightarrow> nat \<Rightarrow> nat \<Rightarrow> json list \<Rightarrow> value_parser" where
  "parse_elements parse n 0 elements rest = None"
| "parse_elements parse n (Suc fuel) elements rest =
     (case parse rest of
        None \<Rightarrow> None
      | Some (Inl e) \<Rightarrow> Some (Inl e)
      | Some (Inr (element, rest1)) \<Rightarrow>
          (case consume c_rbracket rest1 of
             (True, rest2) \<Rightarrow> Some (Inr (Json_array (elements @ [element]), rest2))
           | (False, rest2) \<Rightarrow>
               (case consume c_comma rest2 of
                  (False, rest3) \<Rightarrow> Some (json_fail n rest3 Invalid_json)
                | (True, rest3) \<Rightarrow>
                    parse_elements parse n fuel (elements @ [element]) rest3)))"

text \<open>
  \<open>parse_value\<close> at \<open>depth\<close> is \<^term>\<open>parse_value (maximum_depth + 1 - depth)\<close>: the argument
  counts the levels that are left, and \<open>depth > maximum_depth\<close> is zero of them. Every
  round of a loop reads at least one byte, so the rest of the input bounds the rounds.
\<close>

primrec parse_value :: "nat \<Rightarrow> nat \<Rightarrow> value_parser" where
  "parse_value 0 n rest = Some (json_fail n rest Resource_limit)"
| "parse_value (Suc levels) n rest =
     (let rest0 = skip_whitespace rest
      in if rest0 = [] then Some (json_fail n rest0 Invalid_json)
         else if hd rest0 = c_lbrace then
           (case consume c_rbrace (tl rest0) of
              (True, rest1) \<Rightarrow> Some (Inr (Json_object [], rest1))
            | (False, rest1) \<Rightarrow> parse_members (parse_value levels n) n (length rest0) [] rest1)
         else if hd rest0 = c_lbracket then
           (case consume c_rbracket (tl rest0) of
              (True, rest1) \<Rightarrow> Some (Inr (Json_array [], rest1))
            | (False, rest1) \<Rightarrow> parse_elements (parse_value levels n) n (length rest0) [] rest1)
         else Some (parse_scalar n rest0))"

text \<open>\<open>json_total\<close> of theory JsonProps: the parser always returns.\<close>

definition parse_json :: "bytes \<Rightarrow> json result" where
  "parse_json input =
     (if \<not> is_valid_utf8 input then json_fail (length input) input Invalid_utf8
      else
        (case the (parse_value (maximum_depth + 1) (length input) input) of
           Inl e \<Rightarrow> Inl e
         | Inr (value, rest) \<Rightarrow>
             let rest' = skip_whitespace rest
             in if rest' \<noteq> [] then json_fail (length input) rest' Invalid_json else Inr value))"

end
