(* ===== verification/Utf8.thy ===== *)
theory Utf8
  imports Json
begin

text \<open>
  UTF-8 validation against the encoder of the same file: \<open>is_valid_utf8\<close> accepts exactly
  the concatenations of encoded scalar values. The bit operations are read as arithmetic on
  natural numbers first.
\<close>

section \<open>Bit operations as arithmetic\<close>

lemma unat_take_bit: "unat (take_bit k (x :: 'a::len word)) = unat x mod 2 ^ k"
  by (subst unsigned_take_bit_eq) (rule take_bit_eq_mod)

lemma unat_drop_bit: "unat (drop_bit k (x :: 'a::len word)) = unat x div 2 ^ k"
  by (subst unsigned_drop_bit_eq) (simp add: drop_bit_eq_div take_bit_nat_eq_self unsigned_less)

lemma unat_and_mask: "unat ((b :: 'a::len word) AND mask k) = unat b mod 2 ^ k"
  by (simp only: unat_take_bit flip: take_bit_eq_mask)

lemma or_add_push:
  assumes "unat (x :: 'a::len word) < 2 ^ k" shows "push_bit k a OR x = push_bit k a + x"
proof -
  have "push_bit k a OR take_bit k x = push_bit k a + take_bit k x"
    by (rule disjunctive_add_eq_or [symmetric], rule bit_word_eqI) (auto simp: bit_simps)
  moreover have "take_bit k x = x" using assms by (simp add: unat_take_bit flip: unat_inject)
  ultimately show ?thesis by simp
qed

lemma and_not_mask: "(b :: 'a::len word) AND NOT (mask k) = push_bit k (drop_bit k b)"
  by (rule bit_word_eqI) (auto simp: bit_simps)

lemma masks:
  "(0x3F :: u32) = mask 6" "(0x0F :: u8) = mask 4" "(0x07 :: u8) = mask 3"
  "(0x1F :: u8) = mask 5" "(0x3F :: u8) = mask 6"
  by (simp_all add: mask_eq_exp_minus_1)

lemma continuation_iff: "((b :: u8) AND 0xC0 = 0x80) \<longleftrightarrow> unat b div 64 = 2"
proof -
  have "(0xC0 :: u8) = NOT (mask 6)" by (simp add: mask_eq_exp_minus_1)
  then have "b AND 0xC0 = push_bit 6 (drop_bit 6 b)" using and_not_mask [of b 6] by simp
  moreover have "unat (push_bit 6 (drop_bit 6 b)) = (unat b div 64) * 64"
    using unat_u8_lt [of b] by (simp add: push_bit_eq_mult unat_word_ariths unat_drop_bit)
  moreover have "unat (0x80 :: u8) = 128" by simp
  ultimately show ?thesis by (simp flip: unat_inject)
qed

text \<open>A tag byte with the low bits of a value.\<close>

lemma unat_tagged:
  assumes "unat (x :: u32) < 2 ^ k" "t = push_bit k a" "unat t + unat x < 256"
  shows "unat (ucast (t OR x) :: u8) = unat t + unat x"
proof -
  have "t OR x = t + x" using or_add_push [OF assms(1), of a] assms(2) by simp
  moreover have "unat (t + x) = unat t + unat x" using assms(3) by (simp add: unat_word_ariths)
  ultimately show ?thesis using assms(3) by (simp add: unat_ucast_to_u8)
qed

lemma tags:
  "(0x80 :: u32) = push_bit 6 2" "(0xC0 :: u32) = push_bit 6 3" "(0xE0 :: u32) = push_bit 4 14"
  "(0xF0 :: u32) = push_bit 3 30"
  by simp_all

lemma unat_trail: "unat (ucast ((0x80 :: u32) OR (x AND 0x3F)) :: u8) = 128 + unat x mod 64"
proof -
  have "unat (x AND 0x3F) = unat x mod 64" using unat_and_mask [of x 6] by (simp add: masks)
  then show ?thesis using unat_tagged [OF _ tags(1), of "x AND 0x3F"] by simp
qed

section \<open>The encoder\<close>

definition enc :: "nat \<Rightarrow> nat list" where
  "enc n =
     (if n < 128 then [n]
      else if n < 2048 then [192 + n div 64, 128 + n mod 64]
      else if n < 65536 then [224 + n div 4096, 128 + (n div 64) mod 64, 128 + n mod 64]
      else [240 + n div 262144, 128 + (n div 4096) mod 64, 128 + (n div 64) mod 64,
            128 + n mod 64])"

definition scalar_value :: "u32 \<Rightarrow> bool" where
  "scalar_value cp \<longleftrightarrow> cp \<le> 0x10FFFF \<and> \<not> (cp \<ge> 0xD800 \<and> cp \<le> 0xDFFF)"

lemma append_utf8_enc:
  assumes "unat cp < 0x200000" shows "map unat (append_utf8 cp) = enc (unat cp)"
proof -
  have d: "unat (drop_bit 6 cp) = unat cp div 64" "unat (drop_bit 12 cp) = unat cp div 4096"
    "unat (drop_bit 18 cp) = unat cp div 262144"
    by (simp_all add: unat_drop_bit)
  have "unat cp < 2048 \<Longrightarrow> unat (ucast (0xC0 OR drop_bit 6 cp) :: u8) = 192 + unat cp div 64"
    using unat_tagged [OF _ tags(2), of "drop_bit 6 cp"] d by simp
  moreover have "unat cp < 65536 \<Longrightarrow> unat (ucast (0xE0 OR drop_bit 12 cp) :: u8) = 224 + unat cp div 4096"
    using unat_tagged [OF _ tags(3), of "drop_bit 12 cp"] d by simp
  moreover have "unat (ucast (0xF0 OR drop_bit 18 cp) :: u8) = 240 + unat cp div 262144"
    using unat_tagged [OF _ tags(4), of "drop_bit 18 cp"] d assms by simp
  moreover have "unat cp < 128 \<Longrightarrow> unat (ucast cp :: u8) = unat cp"
    by (simp add: unat_ucast_to_u8)
  ultimately show ?thesis
    by (simp add: append_utf8_def enc_def word_le_nat_alt unat_trail d)
qed

lemma append_utf8_eqI: "unat cp < 0x200000 \<Longrightarrow> enc (unat cp) = map unat bs \<Longrightarrow> append_utf8 cp = bs"
  using append_utf8_enc [of cp] by (metis (no_types, lifting) map_injective inj_def unat_inject)

section \<open>One character\<close>

lemma continue_step:
  fixes cp :: u32
  assumes "unat cp < 2 ^ 26"
  shows "unat (push_bit 6 cp OR ucast ((b :: u8) AND 0x3F)) = unat cp * 64 + unat b mod 64"
proof -
  have b: "unat (ucast (b AND 0x3F) :: u32) = unat b mod 64"
    using unat_and_mask [of b 6] by (simp add: masks)
  then have "unat (ucast (b AND 0x3F) :: u32) < 2 ^ 6" by (simp only: b) simp
  then have "push_bit 6 cp OR ucast (b AND 0x3F) = push_bit 6 cp + ucast (b AND 0x3F)"
    by (rule or_add_push)
  moreover have "unat (push_bit 6 cp) = unat cp * 64"
    using assms by (simp add: push_bit_eq_mult unat_word_ariths)
  ultimately show ?thesis using b assms by (simp add: unat_word_ariths)
qed

definition next_bits :: "u32 \<Rightarrow> u8 \<Rightarrow> u32" where
  "next_bits cp b = push_bit 6 cp OR ucast (b AND 0x3F)"

lemma unat_next_bits: "unat cp < 2 ^ 26 \<Longrightarrow> unat (next_bits cp b) = unat cp * 64 + unat b mod 64"
  unfolding next_bits_def by (rule continue_step)

lemma utf8_continue_Cons:
  "utf8_continue (b # bs) cp =
     (if unat b div 64 = 2 then utf8_continue bs (next_bits cp b) else None)"
  by (simp add: continuation_iff next_bits_def)

declare utf8_continue.simps(2) [simp del]

lemma mod_64: "(n :: nat) mod 64 < 64"
  by simp

lemma digits_2: "(n :: nat) = n div 4096 * 4096 + n div 64 mod 64 * 64 + n mod 64"
proof -
  have "n div 64 div 64 = n div 4096" by (simp flip: div_mult2_eq)
  with div_mult_mod_eq [of n 64] div_mult_mod_eq [of "n div 64" 64] show ?thesis by linarith
qed

lemma digits_3:
  "(n :: nat) = n div 262144 * 262144 + n div 4096 mod 64 * 4096 + n div 64 mod 64 * 64 + n mod 64"
proof -
  have "n div 4096 div 64 = n div 262144" by (simp flip: div_mult2_eq)
  with digits_2 [of n] div_mult_mod_eq [of "n div 4096" 64] show ?thesis by linarith
qed

text \<open>Up to three continuation bytes after a lead byte.\<close>

lemma utf8_continue_bits:
  assumes "unat c < 32"
  shows "utf8_continue [b1] c = Some cp \<longleftrightarrow>
      unat b1 div 64 = 2 \<and> unat cp = unat c * 64 + unat b1 mod 64"
    and "utf8_continue [b1, b2] c = Some cp \<longleftrightarrow>
      unat b1 div 64 = 2 \<and> unat b2 div 64 = 2 \<and>
      unat cp = unat c * 4096 + (unat b1 mod 64) * 64 + unat b2 mod 64"
    and "utf8_continue [b1, b2, b3] c = Some cp \<longleftrightarrow>
      unat b1 div 64 = 2 \<and> unat b2 div 64 = 2 \<and> unat b3 div 64 = 2 \<and>
      unat cp = unat c * 262144 + (unat b1 mod 64) * 4096 + (unat b2 mod 64) * 64 + unat b3 mod 64"
proof -
  have 1: "unat (next_bits c b1) = unat c * 64 + unat b1 mod 64"
    using assms by (intro unat_next_bits) simp
  have 2: "unat (next_bits (next_bits c b1) b2) =
      unat c * 4096 + (unat b1 mod 64) * 64 + unat b2 mod 64"
    using assms 1 mod_64 [of "unat b1"] by (subst unat_next_bits) simp_all
  have 3: "unat (next_bits (next_bits (next_bits c b1) b2) b3) =
      unat c * 262144 + (unat b1 mod 64) * 4096 + (unat b2 mod 64) * 64 + unat b3 mod 64"
    using assms 2 mod_64 [of "unat b1"] mod_64 [of "unat b2"] by (subst unat_next_bits) simp_all
  show "utf8_continue [b1] c = Some cp \<longleftrightarrow>
      unat b1 div 64 = 2 \<and> unat cp = unat c * 64 + unat b1 mod 64"
    using 1 by (auto simp: utf8_continue_Cons simp flip: unat_inject)
  show "utf8_continue [b1, b2] c = Some cp \<longleftrightarrow>
      unat b1 div 64 = 2 \<and> unat b2 div 64 = 2 \<and>
      unat cp = unat c * 4096 + (unat b1 mod 64) * 64 + unat b2 mod 64"
    using 2 by (auto simp: utf8_continue_Cons simp flip: unat_inject)
  show "utf8_continue [b1, b2, b3] c = Some cp \<longleftrightarrow>
      unat b1 div 64 = 2 \<and> unat b2 div 64 = 2 \<and> unat b3 div 64 = 2 \<and>
      unat cp = unat c * 262144 + (unat b1 mod 64) * 4096 + (unat b2 mod 64) * 64 + unat b3 mod 64"
    using 3 by (auto simp: utf8_continue_Cons simp flip: unat_inject)
qed

lemma utf8_lead_bits:
  "utf8_lead f = Some (k, c) \<longleftrightarrow>
     (k = 1 \<and> 194 \<le> unat f \<and> unat f < 224 \<and> unat c = unat f - 192) \<or>
     (k = 2 \<and> 224 \<le> unat f \<and> unat f < 240 \<and> unat c = unat f - 224) \<or>
     (k = 3 \<and> 240 \<le> unat f \<and> unat f < 245 \<and> unat c = unat f - 240)"
proof -
  have m: "unat (f AND 0x1F) = unat f mod 32" "unat (f AND 0x0F) = unat f mod 16"
    "unat (f AND 0x07) = unat f mod 8"
    using unat_and_mask [of f 5] unat_and_mask [of f 4] unat_and_mask [of f 3] by (simp_all add: masks)
  have n: "194 \<le> unat f \<Longrightarrow> unat f < 224 \<Longrightarrow> unat f mod 32 = unat f - 192"
    "224 \<le> unat f \<Longrightarrow> unat f < 240 \<Longrightarrow> unat f mod 16 = unat f - 224"
    "240 \<le> unat f \<Longrightarrow> unat f < 245 \<Longrightarrow> unat f mod 8 = unat f - 240"
    by (auto intro!: mod_nat_eqI)
  have le: "unat f \<le> 223 \<longleftrightarrow> unat f < 224" "unat f \<le> 239 \<longleftrightarrow> unat f < 240"
    "unat f \<le> 244 \<longleftrightarrow> unat f < 245"
    by auto
  have eq: "ucast (f AND b) = c \<longleftrightarrow> unat (f AND b) = unat c" for b
    by (simp flip: unat_inject)
  show ?thesis
    using n by (auto simp: utf8_lead_def word_le_nat_alt le eq m)
qed

lemma scalar_value_nat:
  "scalar_value cp \<longleftrightarrow> unat cp < 1114112 \<and> \<not> (55296 \<le> unat cp \<and> unat cp < 57344)"
  by (auto simp: scalar_value_def word_le_nat_alt)

lemma utf8_out_of_range_nat:
  "utf8_out_of_range k cp \<longleftrightarrow>
     (k = 2 \<and> (unat cp < 2048 \<or> (55296 \<le> unat cp \<and> unat cp < 57344))) \<or>
     (k = 3 \<and> (unat cp < 65536 \<or> 1114112 \<le> unat cp))"
  by (auto simp: utf8_out_of_range_def word_le_nat_alt word_less_nat_alt)

lemma byte_tail: "unat (b :: u8) div 64 = 2 \<Longrightarrow> 128 + unat b mod 64 = unat b"
  using div_mult_mod_eq [of "unat b" 64] by simp

text \<open>Base-64 digits of a number.\<close>

lemma base_64:
  fixes a x y z :: nat
  assumes "x < 64" "y < 64" "z < 64"
  shows "(a * 64 + z) div 64 = a" "(a * 64 + z) mod 64 = z"
    "(a * 4096 + y * 64 + z) div 64 mod 64 = y" "(a * 4096 + y * 64 + z) mod 64 = z"
    "(a * 4096 + y * 64 + z) div 4096 = a"
    "(a * 262144 + x * 4096 + y * 64 + z) div 262144 = a"
    "(a * 262144 + x * 4096 + y * 64 + z) div 4096 mod 64 = x"
    "(a * 262144 + x * 4096 + y * 64 + z) div 64 mod 64 = y"
    "(a * 262144 + x * 4096 + y * 64 + z) mod 64 = z"
proof -
  have d: "z < 64 \<Longrightarrow> (a * 64 + z) div 64 = a" "z < 64 \<Longrightarrow> (a * 64 + z) mod 64 = z" for a z :: nat
    by simp_all
  have e: "a * 4096 + y * 64 + z = (a * 64 + y) * 64 + z"
    "a * 262144 + x * 4096 + y * 64 + z = ((a * 64 + x) * 64 + y) * 64 + z"
    by simp_all
  have q: "n div 4096 = n div 64 div 64" "n div 262144 = n div 64 div 64 div 64" for n :: nat
    by (simp_all add: div_mult2_eq [symmetric])
  show "(a * 64 + z) div 64 = a" "(a * 64 + z) mod 64 = z"
    "(a * 4096 + y * 64 + z) div 64 mod 64 = y" "(a * 4096 + y * 64 + z) mod 64 = z"
    "(a * 4096 + y * 64 + z) div 4096 = a"
    "(a * 262144 + x * 4096 + y * 64 + z) div 262144 = a"
    "(a * 262144 + x * 4096 + y * 64 + z) div 4096 mod 64 = x"
    "(a * 262144 + x * 4096 + y * 64 + z) div 64 mod 64 = y"
    "(a * 262144 + x * 4096 + y * 64 + z) mod 64 = z"
    unfolding e q by (simp_all only: d assms)
qed

text \<open>What the validator accepts as one character is the encoding of a scalar value.\<close>

lemma decode_char:
  assumes lead: "utf8_lead f = Some (k, c)" and len: "length bs = k"
    and cont: "utf8_continue bs c = Some cp" and range: "\<not> utf8_out_of_range k cp"
  shows "scalar_value cp \<and> append_utf8 cp = f # bs"
proof -
  have c: "unat c < 32" using lead by (auto simp: utf8_lead_bits)
  consider "k = 1" | "k = 2" | "k = 3" using lead by (auto simp: utf8_lead_bits)
  then show ?thesis
  proof cases
    case 1
    then obtain b where bs: "bs = [b]" using len by (auto simp: length_Suc_conv)
    have n: "unat cp = (unat f - 192) * 64 + unat b mod 64" "unat b div 64 = 2"
      and f: "194 \<le> unat f" "unat f < 224"
      using cont [unfolded bs utf8_continue_bits(1) [OF c]] lead 1 by (simp_all add: utf8_lead_bits)
    have range: "128 \<le> unat cp" "unat cp < 2048"
      unfolding n(1) using f mod_64 [of "unat b"] by linarith+
    have d: "unat cp div 64 = unat f - 192" "unat cp mod 64 = unat b mod 64"
      unfolding n(1) by (simp_all only: base_64 [OF mod_64 mod_64 mod_64])
    have "enc (unat cp) = [192 + (unat f - 192), 128 + unat b mod 64]"
      using range by (simp add: enc_def d)
    then have "enc (unat cp) = map unat (f # bs)"
      using f byte_tail [OF n(2)] by (simp add: bs)
    moreover have "scalar_value cp" using range by (simp add: scalar_value_nat)
    ultimately show ?thesis using range by (auto intro: append_utf8_eqI)
  next
    case 2
    then obtain b1 b2 where bs: "bs = [b1, b2]" using len by (auto simp: length_Suc_conv numeral_eq_Suc)
    have n: "unat cp = (unat f - 224) * 4096 + (unat b1 mod 64) * 64 + unat b2 mod 64"
      "unat b1 div 64 = 2" "unat b2 div 64 = 2" and f: "224 \<le> unat f" "unat f < 240"
      using cont [unfolded bs utf8_continue_bits(2) [OF c]] lead 2 by (simp_all add: utf8_lead_bits)
    have d: "unat cp div 4096 = unat f - 224" "unat cp div 64 mod 64 = unat b1 mod 64"
      "unat cp mod 64 = unat b2 mod 64"
      unfolding n(1) by (simp_all only: base_64 [OF mod_64 mod_64 mod_64])
    have small: "unat cp < 65536" unfolding n(1) using f mod_64 [of "unat b1"] mod_64 [of "unat b2"] by linarith
    have in_range: "2048 \<le> unat cp" "\<not> (55296 \<le> unat cp \<and> unat cp < 57344)"
      using range 2 by (simp_all add: utf8_out_of_range_nat not_less)
    then have "enc (unat cp) = [224 + (unat f - 224), 128 + unat b1 mod 64, 128 + unat b2 mod 64]"
      using small by (simp add: enc_def d)
    then have "enc (unat cp) = map unat (f # bs)"
      using f byte_tail [OF n(2)] byte_tail [OF n(3)] by (simp add: bs)
    moreover have "scalar_value cp" using in_range small by (simp add: scalar_value_nat)
    ultimately show ?thesis using small by (auto intro: append_utf8_eqI)
  next
    case 3
    then obtain b1 b2 b3 where bs: "bs = [b1, b2, b3]" using len by (auto simp: length_Suc_conv numeral_eq_Suc)
    have n: "unat cp = (unat f - 240) * 262144 + (unat b1 mod 64) * 4096 + (unat b2 mod 64) * 64 + unat b3 mod 64"
      "unat b1 div 64 = 2" "unat b2 div 64 = 2" "unat b3 div 64 = 2"
      and f: "240 \<le> unat f" "unat f < 245"
      using cont [unfolded bs utf8_continue_bits(3) [OF c]] lead 3 by (simp_all add: utf8_lead_bits)
    have d: "unat cp div 262144 = unat f - 240" "unat cp div 4096 mod 64 = unat b1 mod 64"
      "unat cp div 64 mod 64 = unat b2 mod 64" "unat cp mod 64 = unat b3 mod 64"
      unfolding n(1) by (simp_all only: base_64 [OF mod_64 mod_64 mod_64])
    have in_range: "65536 \<le> unat cp" "unat cp < 1114112"
      using range 3 by (simp_all add: utf8_out_of_range_nat not_less not_le)
    then have "enc (unat cp) =
        [240 + (unat f - 240), 128 + unat b1 mod 64, 128 + unat b2 mod 64, 128 + unat b3 mod 64]"
      by (simp add: enc_def d)
    then have "enc (unat cp) = map unat (f # bs)"
      using f byte_tail [OF n(2)] byte_tail [OF n(3)] byte_tail [OF n(4)] by (simp add: bs)
    moreover have "scalar_value cp" using in_range by (simp add: scalar_value_nat)
    ultimately show ?thesis using in_range by (auto intro: append_utf8_eqI)
  qed
qed

text \<open>The encoding of a scalar value beyond ASCII is one character of the validator.\<close>

lemma list_of_nat: "map unat bs = ns \<longleftrightarrow> length bs = length ns \<and> (\<forall>i < length ns. unat (bs ! i) = ns ! i)"
  by (auto simp: list_eq_iff_nth_eq)

lemma word_u32_eqI: "n < 2 ^ 32 \<Longrightarrow> \<exists>c :: u32. unat c = n"
  using unat_u32_of_nat by blast

lemma lead_ranges:
  fixes n :: nat
  shows "128 \<le> n \<Longrightarrow> n < 2048 \<Longrightarrow> 2 \<le> n div 64 \<and> n div 64 < 32"
    "n < 65536 \<Longrightarrow> n div 4096 < 16" "n < 1114112 \<Longrightarrow> n div 262144 < 5"
  by (simp_all add: less_mult_imp_div_less less_eq_div_iff_mult_less_eq)

lemma encode_char:
  assumes sv: "scalar_value cp" and big: "\<not> cp \<le> 0x7F"
  shows "\<exists>f bs c. append_utf8 cp = f # bs \<and> \<not> f \<le> 0x7F \<and> utf8_lead f = Some (length bs, c) \<and>
    utf8_continue bs c = Some cp \<and> \<not> utf8_out_of_range (length bs) cp"
proof -
  let ?n = "unat cp"
  have n: "128 \<le> ?n" "?n < 1114112" "\<not> (55296 \<le> ?n \<and> ?n < 57344)"
    using assms by (auto simp: scalar_value_nat word_le_nat_alt)
  have e: "map unat (append_utf8 cp) = enc ?n" using n by (intro append_utf8_enc) simp
  have tail: "(128 + m mod 64) div 64 = 2" "(128 + m mod 64) mod 64 = m mod 64" for m :: nat
    using base_64(1,2) [OF mod_64 mod_64 mod_64, of 2 m] by simp_all
  have not_ascii: "\<not> f \<le> 0x7F \<longleftrightarrow> 128 \<le> unat f" for f :: u8
    by (auto simp: word_le_nat_alt)
  consider "?n < 2048" | "2048 \<le> ?n" "?n < 65536" | "65536 \<le> ?n" by linarith
  then show ?thesis
  proof cases
    case 1
    then obtain f b where app: "append_utf8 cp = [f, b]" "unat f = 192 + ?n div 64" "unat b = 128 + ?n mod 64"
      using e n(1) by (auto simp: enc_def map_eq_Cons_conv)
    obtain c :: u32 where c: "unat c = ?n div 64"
      using word_u32_eqI [OF le_less_trans [OF div_le_dividend [of ?n 64]]] n(2) by auto
    have "utf8_lead f = Some (1, c)" using app c lead_ranges(1) [OF n(1) 1] by (simp add: utf8_lead_bits)
    moreover have "utf8_continue [b] c = Some cp"
      using c lead_ranges(1) [OF n(1) 1] app(3) tail by (subst utf8_continue_bits) simp_all
    ultimately show ?thesis
      using app n(1) by (intro exI [of _ f] exI [of _ "[b]"] exI [of _ c])
        (simp add: not_ascii utf8_out_of_range_nat)
  next
    case 2
    then obtain f b1 b2 where app: "append_utf8 cp = [f, b1, b2]" "unat f = 224 + ?n div 4096"
      "unat b1 = 128 + ?n div 64 mod 64" "unat b2 = 128 + ?n mod 64"
      using e n(1) by (auto simp: enc_def map_eq_Cons_conv)
    obtain c :: u32 where c: "unat c = ?n div 4096"
      using word_u32_eqI [OF le_less_trans [OF div_le_dividend [of ?n 4096]]] n(2) by auto
    have q: "?n = ?n div 4096 * 4096 + ?n div 64 mod 64 * 64 + ?n mod 64"
      using digits_2 [of ?n] .
    have "utf8_lead f = Some (2, c)" using app c lead_ranges(2) [OF 2(2)] by (simp add: utf8_lead_bits)
    moreover have "utf8_continue [b1, b2] c = Some cp"
      using c lead_ranges(2) [OF 2(2)] app(3,4) tail q by (subst utf8_continue_bits) simp_all
    ultimately show ?thesis
      using app n(1,3) 2 by (intro exI [of _ f] exI [of _ "[b1, b2]"] exI [of _ c])
        (simp add: not_ascii utf8_out_of_range_nat)
  next
    case 3
    then obtain f b1 b2 b3 where app: "append_utf8 cp = [f, b1, b2, b3]" "unat f = 240 + ?n div 262144"
      "unat b1 = 128 + ?n div 4096 mod 64" "unat b2 = 128 + ?n div 64 mod 64" "unat b3 = 128 + ?n mod 64"
      using e n(1) by (auto simp: enc_def map_eq_Cons_conv)
    obtain c :: u32 where c: "unat c = ?n div 262144"
      using word_u32_eqI [OF le_less_trans [OF div_le_dividend [of ?n 262144]]] n(2) by auto
    have q: "?n = ?n div 262144 * 262144 + ?n div 4096 mod 64 * 4096 + ?n div 64 mod 64 * 64 + ?n mod 64"
      using digits_3 [of ?n] .
    note small = lead_ranges(3) [OF n(2)]
    have "utf8_lead f = Some (3, c)" using app c small by (simp add: utf8_lead_bits)
    moreover have "utf8_continue [b1, b2, b3] c = Some cp"
      using c small app(3,4,5) tail q by (subst utf8_continue_bits) simp_all
    ultimately show ?thesis
      using app n 3 by (intro exI [of _ f] exI [of _ "[b1, b2, b3]"] exI [of _ c])
        (simp add: not_ascii utf8_out_of_range_nat)
  qed
qed

section \<open>Whole inputs\<close>

lemma append_utf8_ascii: "cp \<le> 0x7F \<Longrightarrow> append_utf8 cp = [ucast cp]"
  by (simp add: append_utf8_def)

lemma ascii_scalar: "(f :: u8) \<le> 0x7F \<Longrightarrow> scalar_value (ucast f) \<and> append_utf8 (ucast f) = [f]"
proof -
  assume "f \<le> 0x7F"
  then have "(ucast f :: u32) \<le> 0x7F" by (simp add: word_le_nat_alt)
  moreover have "(ucast (ucast f :: u32) :: u8) = f"
    by (simp add: unat_ucast_to_u8 unat_u8_lt flip: unat_inject)
  ultimately show ?thesis
    by (auto simp: append_utf8_ascii scalar_value_nat word_le_nat_alt)
qed

lemma valid_encoded:
  assumes "scalar_value cp" shows "is_valid_utf8 (append_utf8 cp @ rest) = is_valid_utf8 rest"
proof (cases "cp \<le> 0x7F")
  case True
  then have "(ucast cp :: u8) \<le> 0x7F" by (simp add: word_le_nat_alt unat_ucast_to_u8)
  then show ?thesis using True by (simp add: append_utf8_ascii)
next
  case False
  from encode_char [OF assms this] obtain f bs c where "append_utf8 cp = f # bs" "\<not> f \<le> 0x7F"
    "utf8_lead f = Some (length bs, c)" "utf8_continue bs c = Some cp"
    "\<not> utf8_out_of_range (length bs) cp" by blast
  then show ?thesis by simp
qed

lemma valid_Cons:
  assumes "\<not> f \<le> 0x7F"
  shows "is_valid_utf8 (f # rest) \<longleftrightarrow>
    (\<exists>k c cp. utf8_lead f = Some (k, c) \<and> \<not> length rest < k \<and>
       utf8_continue (take k rest) c = Some cp \<and> \<not> utf8_out_of_range k cp \<and>
       is_valid_utf8 (drop k rest))"
proof (cases "utf8_lead f")
  case (Some kc)
  obtain k c where "kc = (k, c)" by (cases kc)
  with Some assms show ?thesis by (cases "utf8_continue (take k rest) c") simp_all
qed (use assms in simp)

lemma valid_utf8_encoded:
  "is_valid_utf8 xs \<Longrightarrow> \<exists>cps. list_all scalar_value cps \<and> xs = concat (map append_utf8 cps)"
proof (induction xs rule: is_valid_utf8.induct)
  case 1
  show ?case by (intro exI [of _ "[]"]) simp
next
  case (2 f rest)
  show ?case
  proof (cases "f \<le> 0x7F")
    case True
    then obtain cps where "list_all scalar_value cps" "rest = concat (map append_utf8 cps)"
      using 2 by auto
    with ascii_scalar [OF True] show ?thesis by (intro exI [of _ "ucast f # cps"]) simp
  next
    case False
    then obtain k c cp where ok: "utf8_lead f = Some (k, c)" "\<not> length rest < k"
      "utf8_continue (take k rest) c = Some cp" "\<not> utf8_out_of_range k cp" "is_valid_utf8 (drop k rest)"
      using 2(3) valid_Cons by blast
    then obtain cps where cps: "list_all scalar_value cps" "drop k rest = concat (map append_utf8 cps)"
      using 2(2) [OF False ok(1) refl ok(2,3,4,5)] by blast
    have "scalar_value cp \<and> append_utf8 cp = f # take k rest"
      using ok(2) by (intro decode_char [OF ok(1) _ ok(3,4)]) simp
    then show ?thesis using cps by (intro exI [of _ "cp # cps"]) (auto simp flip: cps(2))
  qed
qed

lemma encoded_valid_utf8:
  "list_all scalar_value cps \<Longrightarrow> is_valid_utf8 (concat (map append_utf8 cps))"
  by (induction cps) (simp_all add: valid_encoded)

lemma is_valid_utf8_iff:
  "is_valid_utf8 xs \<longleftrightarrow> (\<exists>cps. list_all scalar_value cps \<and> xs = concat (map append_utf8 cps))"
  using valid_utf8_encoded encoded_valid_utf8 by blast

lemma is_valid_utf8_append: "is_valid_utf8 xs \<Longrightarrow> is_valid_utf8 ys \<Longrightarrow> is_valid_utf8 (xs @ ys)"
proof -
  assume "is_valid_utf8 xs" "is_valid_utf8 ys"
  then obtain cps cqs where "list_all scalar_value (cps @ cqs)"
    "xs @ ys = concat (map append_utf8 (cps @ cqs))"
    unfolding is_valid_utf8_iff by auto
  then show ?thesis unfolding is_valid_utf8_iff by blast
qed

end
