(* ===== verification/JsonProps.thy ===== *)
theory JsonProps
  imports Utf8
begin

text \<open>
  The JSON parser returns on every input, and what it returns is well formed: keys of an
  object are different, strings and keys are valid UTF-8, numbers follow the grammar, and
  values nest at most as deep as allowed.
\<close>

section \<open>Splitting valid text at ASCII bytes\<close>

lemma valid_ascii_Cons [simp]: "c \<le> 0x7F \<Longrightarrow> is_valid_utf8 (c # r) = is_valid_utf8 r"
  by simp

declare is_valid_utf8.simps(2) [simp del]

lemma valid_ascii_suffix:
  "is_valid_utf8 (p @ r) \<Longrightarrow> \<forall>c \<in> set p. c \<le> 0x7F \<Longrightarrow> is_valid_utf8 r"
  by (induction p) auto

lemma utf8_continue_bytes: "utf8_continue bs c = Some cp \<Longrightarrow> b \<in> set bs \<Longrightarrow> \<not> b \<le> 0x7F"
proof (induction bs arbitrary: c)
  case (Cons b' bs)
  have "unat b' div 64 = 2 \<Longrightarrow> \<not> b' \<le> 0x7F"
    using byte_tail [of b'] by (auto simp: word_le_nat_alt)
  with Cons show ?case by (auto simp: utf8_continue_Cons split: if_splits)
qed simp

lemma valid_split_ascii:
  "is_valid_utf8 (a @ c # b) \<Longrightarrow> c \<le> 0x7F \<Longrightarrow> is_valid_utf8 a \<and> is_valid_utf8 b"
proof (induction a rule: length_induct)
  case (1 a)
  show ?case
  proof (cases a)
    case Nil
    then show ?thesis using 1 by simp
  next
    case (Cons f a')
    show ?thesis
    proof (cases "f \<le> 0x7F")
      case True
      then show ?thesis using 1(1) [rule_format, of a'] 1(2,3) Cons by auto
    next
      case False
      then obtain k x cp where ok: "utf8_lead f = Some (k, x)" "k \<le> length (a' @ c # b)"
        "utf8_continue (take k (a' @ c # b)) x = Some cp" "\<not> utf8_out_of_range k cp"
        "is_valid_utf8 (drop k (a' @ c # b))"
        using 1(2) Cons valid_Cons [OF False, of "a' @ c # b"] by (auto simp: not_less)
      have "k \<le> length a'"
      proof (rule ccontr)
        assume "\<not> k \<le> length a'"
        then have "c \<in> set (take k (a' @ c # b))" by (simp add: take_Cons')
        from utf8_continue_bytes [OF ok(3) this] 1(3) show False by simp
      qed
      moreover from this have "is_valid_utf8 (drop k a' @ c # b)" using ok(5) by simp
      ultimately have "is_valid_utf8 (drop k a') \<and> is_valid_utf8 b"
        using 1(1) [rule_format, of "drop k a'"] 1(3) Cons by simp
      then show ?thesis
        using ok False \<open>k \<le> length a'\<close> Cons valid_Cons [OF False, of a'] by auto
    qed
  qed
qed

section \<open>Scanning\<close>

named_theorems parsing \<open>what a parsing step read: the length and the validity of the rest\<close>

lemma skip_whitespace_rest [parsing]:
  "length (skip_whitespace r) \<le> length r"
  "is_valid_utf8 r \<Longrightarrow> is_valid_utf8 (skip_whitespace r)"
proof -
  show "length (skip_whitespace r) \<le> length r" by (simp add: skip_whitespace_def length_dropWhile_le)
  have "takeWhile is_whitespace r @ skip_whitespace r = r" by (simp add: skip_whitespace_def)
  moreover have "\<forall>c \<in> set (takeWhile is_whitespace r). c \<le> 0x7F"
    by (auto simp: is_whitespace_def dest!: set_takeWhileD)
  ultimately show "is_valid_utf8 r \<Longrightarrow> is_valid_utf8 (skip_whitespace r)"
    by (metis valid_ascii_suffix)
qed

lemma consume_rest [parsing]:
  assumes "consume c r = (ok, r')"
  shows "length r' \<le> length r" "ok \<Longrightarrow> length r' < length r"
    "is_valid_utf8 r \<Longrightarrow> c \<le> 0x7F \<Longrightarrow> is_valid_utf8 r'"
  using assms skip_whitespace_rest [of r]
  by (cases "skip_whitespace r"; auto simp: consume_def split: if_splits)+

definition ascii :: "bytes \<Rightarrow> bool" where
  "ascii t \<longleftrightarrow> (\<forall>c \<in> set t. c \<le> 0x7F)"

lemma ascii_simps [simp]:
  "ascii []" "ascii (c # t) \<longleftrightarrow> c \<le> 0x7F \<and> ascii t" "ascii (t @ u) \<longleftrightarrow> ascii t \<and> ascii u"
  by (auto simp: ascii_def)

definition digits :: "bytes \<Rightarrow> bool" where
  "digits ds \<longleftrightarrow> (\<forall>d \<in> set ds. is_digit d)"

lemma digit_ascii: "is_digit d \<Longrightarrow> d \<le> 0x7F"
  by (simp add: is_digit_def word_le_nat_alt)

lemma digits_ascii: "digits ds \<Longrightarrow> ascii ds"
  by (auto simp: digits_def ascii_def digit_ascii)

text \<open>The grammar of JSON numbers.\<close>

definition integer_part :: "bytes \<Rightarrow> bool" where
  "integer_part t \<longleftrightarrow> t = [c_0] \<or> (\<exists>d ds. t = d # ds \<and> c_1 \<le> d \<and> d \<le> c_9 \<and> digits ds)"

definition fraction_part :: "bytes \<Rightarrow> bool" where
  "fraction_part t \<longleftrightarrow> t = [] \<or> (\<exists>ds. t = c_dot # ds \<and> ds \<noteq> [] \<and> digits ds)"

definition exponent_part :: "bytes \<Rightarrow> bool" where
  "exponent_part t \<longleftrightarrow> t = [] \<or>
     (\<exists>e s ds. t = e # s @ ds \<and> e \<in> {c_e, c_upper_e} \<and> s \<in> {[], [c_plus], [c_minus]} \<and>
        ds \<noteq> [] \<and> digits ds)"

definition json_number :: "bytes \<Rightarrow> bool" where
  "json_number t \<longleftrightarrow> (\<exists>s i f e. t = s @ i @ f @ e \<and> s \<in> {[], [c_minus]} \<and>
     integer_part i \<and> fraction_part f \<and> exponent_part e)"

lemma digits_split: "\<exists>ds. r = ds @ dropWhile is_digit r \<and> digits ds"
proof (intro exI conjI)
  show "r = takeWhile is_digit r @ dropWhile is_digit r" by simp
  show "digits (takeWhile is_digit r)" by (auto simp: digits_def dest: set_takeWhileD)
qed

lemma scan_integer_Inr: "scan_integer r = Inr r' \<Longrightarrow> \<exists>i. r = i @ r' \<and> integer_part i"
proof (cases r)
  case (Cons c cs)
  assume ok: "scan_integer r = Inr r'"
  show ?thesis
  proof (cases "c = c_0")
    case True
    then have "r' = cs" using ok Cons by (auto simp: scan_integer_def split: list.splits if_splits)
    then show ?thesis using True Cons by (intro exI [of _ "[c_0]"]) (simp add: integer_part_def)
  next
    case False
    then have c: "c_1 \<le> c" "c \<le> c_9" "r' = dropWhile is_digit (c # cs)"
      using ok Cons by (auto simp: scan_integer_def split: if_splits)
    then have "r' = dropWhile is_digit cs" by (auto simp: is_digit_def word_le_nat_alt)
    then obtain ds where "cs = ds @ r'" "digits ds" using digits_split [of cs] by auto
    then show ?thesis using c Cons by (intro exI [of _ "c # ds"]) (auto simp: integer_part_def)
  qed
qed (simp add: scan_integer_def)

lemma scan_fraction_Inr: "scan_fraction r = Inr r' \<Longrightarrow> \<exists>f. r = f @ r' \<and> fraction_part f"
proof (cases r)
  case (Cons c cs)
  assume ok: "scan_fraction r = Inr r'"
  obtain ds where ds: "cs = ds @ dropWhile is_digit cs" "digits ds" using digits_split [of cs] by auto
  show ?thesis
  proof (cases "c = c_dot")
    case True
    then have "r' = dropWhile is_digit cs" "r' \<noteq> cs"
      using ok Cons by (auto simp: scan_fraction_def Let_def split: if_splits)
    then show ?thesis using ds Cons True by (intro exI [of _ "c_dot # ds"]) (auto simp: fraction_part_def)
  next
    case False
    then show ?thesis using ok Cons by (intro exI [of _ "[]"]) (simp add: scan_fraction_def fraction_part_def)
  qed
qed (simp add: scan_fraction_def fraction_part_def)

lemma scan_exponent_Inr: "scan_exponent r = Inr r' \<Longrightarrow> \<exists>e. r = e @ r' \<and> exponent_part e"
proof (cases r)
  case (Cons c cs)
  assume ok: "scan_exponent r = Inr r'"
  show ?thesis
  proof (cases "c = c_e \<or> c = c_upper_e")
    case True
    define t where "t = (case cs of d # ds \<Rightarrow> if d = c_plus \<or> d = c_minus then ds else cs | [] \<Rightarrow> cs)"
    have t: "\<exists>s. cs = s @ t \<and> s \<in> {[], [c_plus], [c_minus]}"
      by (auto simp: t_def split: list.splits)
    obtain ds where ds: "t = ds @ dropWhile is_digit t" "digits ds" using digits_split [of t] by auto
    have r': "r' = dropWhile is_digit t" "r' \<noteq> t"
      using ok Cons True unfolding scan_exponent_def t_def Let_def by (simp_all split: if_splits)
    have "t = ds @ r'" "ds \<noteq> []" using ds(1) r' by simp_all (metis append_Nil)
    moreover obtain s where "cs = s @ t" "s \<in> {[], [c_plus], [c_minus]}" using t by blast
    ultimately have "r = (c # s @ ds) @ r'" "exponent_part (c # s @ ds)"
      using True Cons ds(2) unfolding exponent_part_def by auto
    then show ?thesis by blast
  next
    case False
    then show ?thesis using ok Cons by (intro exI [of _ "[]"]) (simp add: scan_exponent_def exponent_part_def)
  qed
qed (simp add: scan_exponent_def exponent_part_def)

lemma json_number_ascii: "json_number t \<Longrightarrow> ascii t \<and> t \<noteq> []"
  by (auto simp: json_number_def integer_part_def fraction_part_def exponent_part_def
      word_le_nat_alt dest!: digits_ascii)

lemma parse_number_Inr:
  assumes "parse_number n r = Inr (v, r')"
  shows "\<exists>t. v = Json_number t \<and> json_number t \<and> r = t @ r'"
proof -
  define u where "u = (case r of c # cs \<Rightarrow> if c = c_minus then cs else r | [] \<Rightarrow> r)"
  have "\<exists>s. r = s @ u \<and> s \<in> {[], [c_minus]}" by (auto simp: u_def split: list.splits)
  then obtain s where s: "r = s @ u" "s \<in> {[], [c_minus]}" by blast
  from assms obtain r1 r2 where scan: "scan_integer u = Inr r1" "scan_fraction r1 = Inr r2"
    "scan_exponent r2 = Inr r'" and v: "v = Json_number (take (length r - length r') r)"
    unfolding parse_number_def Let_def u_def [symmetric]
    by (auto simp: json_fail_def Let_def split: sum.splits)
  from scan_integer_Inr [OF scan(1)] scan_fraction_Inr [OF scan(2)] scan_exponent_Inr [OF scan(3)]
  obtain i f e where t: "u = i @ f @ e @ r'" "integer_part i" "fraction_part f" "exponent_part e"
    by auto
  have "r = (s @ i @ f @ e) @ r'" using s t by simp
  moreover from this have "v = Json_number (s @ i @ f @ e)" unfolding v by (metis append_eq_conv_conj diff_add_inverse2 length_append)
  ultimately show ?thesis using s t unfolding json_number_def by blast
qed

section \<open>Strings\<close>

lemma hex_ascii: "is_hex c \<Longrightarrow> c \<le> 0x7F"
  by (auto simp: is_hex_def word_le_nat_alt)

lemma hex_value_less: "is_hex c \<Longrightarrow> unat (hex_value c) < 16"
proof -
  assume h: "is_hex c"
  have sub: "unat (c - x) = unat c - unat x" if "x \<le> c" for x using that by (rule unat_word_minus)
  have "unat (c - x + 10) = unat c - unat x + 10" if "x \<le> c" "unat c - unat x < 6" for x
    using sub [OF that(1)] that(2) by (simp add: unat_word_ariths)
  with sub h show ?thesis by (auto simp: is_hex_def hex_value_def word_le_nat_alt)
qed

lemma hex_step:
  assumes "is_hex d" "unat (v :: u32) < k" "k \<le> 4096" shows "unat (v * 16 + hex_value d) < 16 * k"
proof -
  have "unat (v * 16 + hex_value d) = unat v * 16 + unat (hex_value d)"
    using assms hex_value_less [OF assms(1)] by (simp add: unat_word_ariths)
  then show ?thesis using assms hex_value_less [OF assms(1)] by linarith
qed

lemma four: "length xs = 4 \<Longrightarrow> \<exists>a b c d. xs = [a, b, c, d]"
  by (auto simp: length_Suc_conv numeral_eq_Suc)

lemma parse_hex_quad_Some:
  assumes "parse_hex_quad r = Some (v, r')"
  shows "unat v < 65536" "\<exists>p. r = p @ r' \<and> ascii p \<and> length p = 4"
proof -
  have h: "list_all is_hex (take 4 r)" "length (take 4 r) = 4" "r' = drop 4 r"
    "v = foldl (\<lambda>v d. v * 16 + hex_value d) 0 (take 4 r)"
    using assms by (auto simp: parse_hex_quad_def split: if_splits)
  obtain d1 d2 d3 d4 where ds: "take 4 r = [d1, d2, d3, d4]"
    using four [OF h(2)] by blast
  have hex: "is_hex d1" "is_hex d2" "is_hex d3" "is_hex d4" using h(1) by (simp_all add: ds)
  have v: "v = (((0 * 16 + hex_value d1) * 16 + hex_value d2) * 16 + hex_value d3) * 16 + hex_value d4"
    using h(4) by (simp only: ds foldl_Cons foldl_Nil)
  have "unat (0 * 16 + hex_value d1) < 16 * 1" by (rule hex_step [OF hex(1)]) simp_all
  from hex_step [OF hex(4) hex_step [OF hex(3) hex_step [OF hex(2) this]]]
  show "unat v < 65536" unfolding v by simp
  have "r = take 4 r @ r'" using h(3) by simp
  moreover have "ascii (take 4 r)" using h(1) hex_ascii by (auto simp: list_all_iff ascii_def)
  ultimately show "\<exists>p. r = p @ r' \<and> ascii p \<and> length p = 4" using h(2) by blast
qed

lemma parse_unicode_escape_Some:
  assumes "parse_unicode_escape r = Some (cp, r')"
  shows "scalar_value cp" "\<exists>p. r = p @ r' \<and> ascii p \<and> 4 \<le> length p"
proof -
  obtain a r1 where q: "parse_hex_quad r = Some (a, r1)"
    using assms by (auto simp: parse_unicode_escape_def split: option.splits)
  note a = parse_hex_quad_Some [OF q]
  have "scalar_value cp \<and> (\<exists>p. r = p @ r' \<and> ascii p \<and> 4 \<le> length p)"
  proof (cases "a \<ge> 0xD800 \<and> a \<le> 0xDBFF")
    case True
    then obtain low where pair: "\<not> length r1 < 6" "r1 ! 0 = c_backslash" "r1 ! 1 = c_u"
      "parse_hex_quad (drop 2 r1) = Some (low, r')" "0xDC00 \<le> low" "low \<le> 0xDFFF"
      "cp = 0x10000 + push_bit 10 (a - 0xD800) + (low - 0xDC00)"
      using assms q by (auto simp: parse_unicode_escape_def not_less split: option.splits if_splits)
    note b = parse_hex_quad_Some [OF pair(4)]
    have n: "55296 \<le> unat a" "unat a \<le> 56319" "56320 \<le> unat low" "unat low \<le> 57343"
      using True pair(5,6) by (auto simp: word_le_nat_alt)
    have m: "unat (a - 0xD800) = unat a - 55296" "unat (low - 0xDC00) = unat low - 56320"
      using True pair(5) by (simp_all add: unat_word_minus)
    have "unat (push_bit 10 (a - 0xD800)) = (unat a - 55296) * 1024"
      unfolding push_bit_eq_mult unat_word_ariths m using n by simp
    then have "unat cp = 65536 + (unat a - 55296) * 1024 + (unat low - 56320)"
      using n m by (simp add: pair(7) unat_word_ariths)
    then have "scalar_value cp" using n by (simp add: scalar_value_nat)
    moreover have "r1 = [c_backslash, c_u] @ drop 2 r1"
      using pair(1,2,3) by (cases r1; cases "tl r1") auto
    moreover obtain p q where "r = p @ r1" "drop 2 r1 = q @ r'" "ascii p" "ascii q" "length p = 4"
      using a(2) b(2) by blast
    ultimately have "scalar_value cp" "r = (p @ [c_backslash, c_u] @ q) @ r'"
      "ascii (p @ [c_backslash, c_u] @ q)" "4 \<le> length (p @ [c_backslash, c_u] @ q)"
      by (simp_all add: word_le_nat_alt)
    then show ?thesis by blast
  next
    case False
    then have "cp = a" "r' = r1" "\<not> (a \<ge> 0xDC00 \<and> a \<le> 0xDFFF)"
      using assms q by (auto simp: parse_unicode_escape_def split: if_splits)
    then show ?thesis using a False by (auto simp: scalar_value_nat word_le_nat_alt)
  qed
  then show "scalar_value cp" "\<exists>p. r = p @ r' \<and> ascii p \<and> 4 \<le> length p" by blast+
qed

lemma simple_escape_Some: "simple_escape e = Some b \<Longrightarrow> e \<le> 0x7F \<and> b \<le> 0x7F"
  by (auto simp: simple_escape_def split: if_splits)

lemma ascii_prefix: "ascii p \<Longrightarrow> is_valid_utf8 (p @ r) \<Longrightarrow> is_valid_utf8 r"
  unfolding ascii_def by (rule valid_ascii_suffix)

lemma scalar_valid: "scalar_value cp \<Longrightarrow> is_valid_utf8 (append_utf8 cp)"
  using valid_encoded [of cp "[]"] by simp

text \<open>
  What is read of a string so far followed by what is left is valid text, at every round of
  the loop.
\<close>

lemma parse_string_loop_Inr:
  "parse_string_loop n r out = Inr (t, r') \<Longrightarrow>
     length r' < length r \<and> (is_valid_utf8 (out @ r) \<longrightarrow> is_valid_utf8 t \<and> is_valid_utf8 r')"
proof (induction n r out rule: parse_string_loop.induct)
  case (2 n c rest out)
  consider "c = c_quote" | "c \<noteq> c_quote" "\<not> c < 0x20" "c \<noteq> c_backslash" | "c = c_backslash"
    using 2(4) by (auto split: if_splits)
  then show ?case
  proof cases
    case 1
    then show ?thesis using 2(4) valid_split_ascii [of out c rest] by auto
  next
    case 2: 2
    then show ?thesis using "2.IH"(1) "2.prems" by auto
  next
    case 3
    then obtain e rest1 where rest: "rest = e # rest1" using 2(4) by (cases rest) auto
    have split: "is_valid_utf8 out \<and> is_valid_utf8 (e # rest1)" if "is_valid_utf8 (out @ c # rest)"
      using valid_split_ascii [OF that] 3 rest by simp
    show ?thesis
    proof (cases "e = c_u")
      case True
      then obtain cp rest2 where esc: "parse_unicode_escape rest1 = Some (cp, rest2)"
        and loop: "parse_string_loop n rest2 (out @ append_utf8 cp) = Inr (t, r')"
        using 2(4) 3 rest by (auto split: option.splits)
      obtain p where p: "rest1 = p @ rest2" "ascii p" using parse_unicode_escape_Some [OF esc] by blast
      have "is_valid_utf8 ((out @ append_utf8 cp) @ rest2)" if "is_valid_utf8 (out @ c # rest)"
      proof -
        have "is_valid_utf8 rest2" using split [OF that] True p ascii_prefix [of p rest2] by simp
        then show ?thesis
          using split [OF that] parse_unicode_escape_Some(1) [OF esc]
          by (simp add: is_valid_utf8_append scalar_valid valid_encoded)
      qed
      moreover have "length r' < length rest2 \<and>
          (is_valid_utf8 ((out @ append_utf8 cp) @ rest2) \<longrightarrow> is_valid_utf8 t \<and> is_valid_utf8 r')"
        using 2(2) 3 rest True esc loop by simp
      ultimately show ?thesis using p rest by auto
    next
      case False
      then obtain b where esc: "simple_escape e = Some b"
        and loop: "parse_string_loop n rest1 (out @ [b]) = Inr (t, r')"
        using 2(4) 3 rest by (auto split: option.splits)
      note e = simple_escape_Some [OF esc]
      have "is_valid_utf8 ((out @ [b]) @ rest1)" if "is_valid_utf8 (out @ c # rest)"
        using split [OF that] e by (simp add: is_valid_utf8_append)
      moreover have "length r' < length rest1 \<and>
          (is_valid_utf8 ((out @ [b]) @ rest1) \<longrightarrow> is_valid_utf8 t \<and> is_valid_utf8 r')"
        using 2(3) 3 rest False esc loop by simp
      ultimately show ?thesis using rest by auto
    qed
  qed
qed simp

lemma parse_string_Inr:
  "parse_string n r = Inr (t, r') \<Longrightarrow>
     length r' < length r \<and> (is_valid_utf8 r \<longrightarrow> is_valid_utf8 t \<and> is_valid_utf8 r')"
  using parse_string_loop_Inr [of n "tl r" "[]"]
  by (auto simp: parse_string_def split: list.splits if_splits)

lemma json_fail_not_Inr [simp]: "json_fail n r c \<noteq> Inr x"
  by (simp add: json_fail_def Let_def)

lemma parse_key_Inr:
  assumes "parse_key n ms r = Inr (k, r')"
  shows "length r' < length r \<and> k \<notin> fst ` set ms \<and>
    (is_valid_utf8 r \<longrightarrow> is_valid_utf8 k \<and> is_valid_utf8 r')"
proof -
  from assms obtain r1 where s: "parse_string n (skip_whitespace r) = Inr (k, r1)"
    "k \<notin> fst ` set ms" "consume c_colon r1 = (True, r')"
    by (auto simp: parse_key_def Let_def split: sum.splits if_splits prod.splits bool.splits)
  show ?thesis
    using parse_string_Inr [OF s(1)] s(2) consume_rest [OF s(3)] skip_whitespace_rest [of r] by auto
qed

section \<open>Well-formed values\<close>

primrec json_ok :: "nat \<Rightarrow> json \<Rightarrow> bool" where
  "json_ok 0 v = False"
| "json_ok (Suc levels) v =
     (case v of
        Json_null \<Rightarrow> True
      | Json_boolean _ \<Rightarrow> True
      | Json_number t \<Rightarrow> json_number t
      | Json_string t \<Rightarrow> is_valid_utf8 t
      | Json_array vs \<Rightarrow> list_all (json_ok levels) vs
      | Json_object ms \<Rightarrow> distinct (map fst ms) \<and>
          list_all (\<lambda>m. is_valid_utf8 (fst m) \<and> json_ok levels (snd m)) ms)"

text \<open>The contract of a parser of values.\<close>

definition parses :: "nat \<Rightarrow> value_parser \<Rightarrow> bool" where
  "parses levels P \<longleftrightarrow> (\<forall>r. \<exists>x. P r = Some x \<and>
     (\<forall>v r'. x = Inr (v, r') \<longrightarrow> length r' < length r \<and>
        (is_valid_utf8 r \<longrightarrow> json_ok levels v \<and> is_valid_utf8 r')))"

lemma parse_scalar_Inr:
  assumes "r \<noteq> []" "parse_scalar n r = Inr (v, r')"
  shows "length r' < length r \<and> (is_valid_utf8 r \<longrightarrow> json_ok (Suc levels) v \<and> is_valid_utf8 r')"
proof -
  have lit: "length r' < length r \<and> (is_valid_utf8 r \<longrightarrow> is_valid_utf8 r')"
    if "consume_literal l r = Some r'" "l \<noteq> []" "ascii l" for l
  proof -
    have "r = l @ r'" using that(1) by (auto simp: consume_literal_def split: if_splits) (metis append_take_drop_id)
    then show ?thesis using that ascii_prefix by auto
  qed
  consider (string) t where "parse_string n r = Inr (t, r')" "v = Json_string t"
    | (literal) l where "consume_literal l r = Some r'" "l \<in> {literal_true, literal_false, literal_null}"
      "v = Json_null \<or> (\<exists>b. v = Json_boolean b)"
    | (number) "parse_number n r = Inr (v, r')"
    using assms(2) by (auto simp: parse_scalar_def split: if_splits sum.splits option.splits)
  then show ?thesis
  proof cases
    case string
    then show ?thesis using parse_string_Inr by auto
  next
    case literal
    have "length r' < length r \<and> (is_valid_utf8 r \<longrightarrow> is_valid_utf8 r')"
      by (rule lit [OF literal(1)]) (use literal(2) in auto)
    then show ?thesis using literal(3) by auto
  next
    case number
    then obtain t where t: "v = Json_number t" "json_number t" "r = t @ r'" using parse_number_Inr by blast
    then show ?thesis using json_number_ascii [OF t(2)] ascii_prefix [of t r'] by auto
  qed
qed

lemma parse_members_parses:
  assumes P: "parses levels P"
  shows "length r < fuel \<Longrightarrow> distinct (map fst ms) \<Longrightarrow>
    \<exists>x. parse_members P n fuel ms r = Some x \<and>
      (\<forall>v r'. x = Inr (v, r') \<longrightarrow> length r' < length r \<and>
         (is_valid_utf8 r \<and> json_ok (Suc levels) (Json_object ms) \<longrightarrow>
            json_ok (Suc levels) v \<and> is_valid_utf8 r'))"
proof (induction fuel arbitrary: ms r)
  case (Suc fuel)
  show ?case
  proof (cases "parse_key n ms r")
    case (Inr kr)
    then obtain k r1 where key: "parse_key n ms r = Inr (k, r1)" by (cases kr) auto
    note k = parse_key_Inr [OF key]
    obtain x where x: "P r1 = Some x" "\<And>v r'. x = Inr (v, r') \<Longrightarrow> length r' < length r1 \<and>
        (is_valid_utf8 r1 \<longrightarrow> json_ok levels v \<and> is_valid_utf8 r')"
      using P unfolding parses_def by blast
    show ?thesis
    proof (cases x)
      case (Inr vr)
      then obtain v r2 where vr: "x = Inr (v, r2)" by (cases vr) auto
      note v = x(2) [OF vr]
      obtain ok r3 where brace: "consume c_rbrace r2 = (ok, r3)" by (cases "consume c_rbrace r2")
      have d: "distinct (map fst (ms @ [(k, v)]))" using Suc.prems(2) k by auto
      have grown: "json_ok (Suc levels) (Json_object (ms @ [(k, v)]))"
        if "is_valid_utf8 r" "json_ok (Suc levels) (Json_object ms)"
        using that d k v by (simp add: list_all_iff)
      note len = consume_rest [OF brace]
      show ?thesis
      proof (cases ok)
        case True
        then show ?thesis
          using key x(1) vr brace k v len grown by (fastforce simp del: json_ok.simps)
      next
        case False
        obtain ok' r4 where comma: "consume c_comma r3 = (ok', r4)" by (cases "consume c_comma r3")
        note len' = consume_rest [OF comma]
        show ?thesis
        proof (cases ok')
          case True
          have "length r4 < fuel" using Suc.prems(1) len len' k v True by linarith
          from Suc.IH [OF this d] obtain y where
            y: "parse_members P n fuel (ms @ [(k, v)]) r4 = Some y"
              "\<And>w r'. y = Inr (w, r') \<Longrightarrow> length r' < length r4 \<and>
                (is_valid_utf8 r4 \<and> json_ok (Suc levels) (Json_object (ms @ [(k, v)])) \<longrightarrow>
                  json_ok (Suc levels) w \<and> is_valid_utf8 r')" by blast
          have "parse_members P n (Suc fuel) ms r = Some y"
            using key x(1) vr brace False comma True y(1) by simp
          moreover have "length r' < length r \<and>
              (is_valid_utf8 r \<and> json_ok (Suc levels) (Json_object ms) \<longrightarrow>
                json_ok (Suc levels) w \<and> is_valid_utf8 r')" if "y = Inr (w, r')" for w r'
            using y(2) [OF that] len len' k v True grown by auto
          ultimately show ?thesis by blast
        next
          case no: False
          then show ?thesis using key x(1) vr brace False comma by simp
        qed
      qed
    qed (use key x(1) in simp)
  qed simp
qed simp

lemma parse_elements_parses:
  assumes P: "parses levels P"
  shows "length r < fuel \<Longrightarrow>
    \<exists>x. parse_elements P n fuel vs r = Some x \<and>
      (\<forall>v r'. x = Inr (v, r') \<longrightarrow> length r' < length r \<and>
         (is_valid_utf8 r \<and> json_ok (Suc levels) (Json_array vs) \<longrightarrow>
            json_ok (Suc levels) v \<and> is_valid_utf8 r'))"
proof (induction fuel arbitrary: vs r)
  case (Suc fuel)
  obtain x where x: "P r = Some x" "\<And>v r'. x = Inr (v, r') \<Longrightarrow> length r' < length r \<and>
      (is_valid_utf8 r \<longrightarrow> json_ok levels v \<and> is_valid_utf8 r')"
    using P unfolding parses_def by blast
  show ?case
  proof (cases x)
    case (Inr vr)
    then obtain v r1 where vr: "x = Inr (v, r1)" by (cases vr) auto
    note v = x(2) [OF vr]
    obtain ok r2 where bracket: "consume c_rbracket r1 = (ok, r2)" by (cases "consume c_rbracket r1")
    have grown: "json_ok (Suc levels) (Json_array (vs @ [v]))"
      if "is_valid_utf8 r" "json_ok (Suc levels) (Json_array vs)"
      using that v by simp
    note len = consume_rest [OF bracket]
    show ?thesis
    proof (cases ok)
      case True
      then show ?thesis
        using x(1) vr bracket v len grown by (fastforce simp del: json_ok.simps)
    next
      case False
      obtain ok' r3 where comma: "consume c_comma r2 = (ok', r3)" by (cases "consume c_comma r2")
      note len' = consume_rest [OF comma]
      show ?thesis
      proof (cases ok')
        case True
        have "length r3 < fuel" using Suc.prems len len' v True by linarith
        from Suc.IH [OF this] obtain y where
          y: "parse_elements P n fuel (vs @ [v]) r3 = Some y"
            "\<And>w r'. y = Inr (w, r') \<Longrightarrow> length r' < length r3 \<and>
              (is_valid_utf8 r3 \<and> json_ok (Suc levels) (Json_array (vs @ [v])) \<longrightarrow>
                json_ok (Suc levels) w \<and> is_valid_utf8 r')" by blast
        have "parse_elements P n (Suc fuel) vs r = Some y"
          using x(1) vr bracket False comma True y(1) by simp
        moreover have "length r' < length r \<and>
            (is_valid_utf8 r \<and> json_ok (Suc levels) (Json_array vs) \<longrightarrow>
              json_ok (Suc levels) w \<and> is_valid_utf8 r')" if "y = Inr (w, r')" for w r'
          using y(2) [OF that] len len' v True grown by auto
        ultimately show ?thesis by blast
      next
        case no: False
        then show ?thesis using x(1) vr bracket False comma by simp
      qed
    qed
  qed (use x(1) in simp)
qed simp

lemma parse_value_parses: "parses levels (parse_value levels n)"
proof (induction levels)
  case 0
  show ?case by (simp add: parses_def)
next
  case (Suc levels)
  show ?case
    unfolding parses_def
  proof
    fix r
    let ?goal = "\<exists>x. parse_value (Suc levels) n r = Some x \<and>
      (\<forall>v r'. x = Inr (v, r') \<longrightarrow> length r' < length r \<and>
         (is_valid_utf8 r \<longrightarrow> json_ok (Suc levels) v \<and> is_valid_utf8 r'))"
    define r0 where "r0 = skip_whitespace r"
    have skip: "length r0 \<le> length r" "is_valid_utf8 r \<Longrightarrow> is_valid_utf8 r0"
      using skip_whitespace_rest [of r] by (simp_all add: r0_def)
    show ?goal
    proof (cases r0)
      case Nil
      then show ?thesis by (simp add: r0_def [symmetric])
    next
      case (Cons c cs)
      have open_cs: "length cs < length r" "is_valid_utf8 r \<Longrightarrow> c \<le> 0x7F \<Longrightarrow> is_valid_utf8 cs"
        using skip Cons by simp_all
      consider "c = c_lbrace" | "c = c_lbracket" | "c \<noteq> c_lbrace" "c \<noteq> c_lbracket" by blast
      then show ?thesis
      proof cases
        case 1
        obtain ok r1 where brace: "consume c_rbrace cs = (ok, r1)" by (cases "consume c_rbrace cs")
        note len = consume_rest [OF brace]
        show ?thesis
        proof (cases ok)
          case True
          then show ?thesis using 1 Cons brace len open_cs by (simp add: r0_def [symmetric])
        next
          case False
          have "length r1 < length r0" using len Cons by simp
          from parse_members_parses [OF Suc.IH this, of "[]" n] obtain x where
            x: "parse_members (parse_value levels n) n (length r0) [] r1 = Some x"
            "\<And>v r'. x = Inr (v, r') \<Longrightarrow> length r' < length r1 \<and>
              (is_valid_utf8 r1 \<and> json_ok (Suc levels) (Json_object []) \<longrightarrow>
                json_ok (Suc levels) v \<and> is_valid_utf8 r')" by auto
          have "parse_value (Suc levels) n r = Some x"
            using 1 Cons brace False x(1) by (simp add: r0_def [symmetric])
          moreover have "is_valid_utf8 r \<Longrightarrow> is_valid_utf8 r1" using len open_cs 1 by simp
          ultimately show ?thesis using x(2) len open_cs by fastforce
        qed
      next
        case 2
        obtain ok r1 where bracket: "consume c_rbracket cs = (ok, r1)" by (cases "consume c_rbracket cs")
        note len = consume_rest [OF bracket]
        show ?thesis
        proof (cases ok)
          case True
          then show ?thesis using 2 Cons bracket len open_cs by (simp add: r0_def [symmetric])
        next
          case False
          have "length r1 < length r0" using len Cons by simp
          from parse_elements_parses [OF Suc.IH this, of n "[]"] obtain x where
            x: "parse_elements (parse_value levels n) n (length r0) [] r1 = Some x"
            "\<And>v r'. x = Inr (v, r') \<Longrightarrow> length r' < length r1 \<and>
              (is_valid_utf8 r1 \<and> json_ok (Suc levels) (Json_array []) \<longrightarrow>
                json_ok (Suc levels) v \<and> is_valid_utf8 r')" by auto
          have "parse_value (Suc levels) n r = Some x"
            using 2 Cons bracket False x(1) by (simp add: r0_def [symmetric])
          moreover have "is_valid_utf8 r \<Longrightarrow> is_valid_utf8 r1" using len open_cs 2 by simp
          ultimately show ?thesis using x(2) len open_cs by fastforce
        qed
      next
        case 3
        then have "parse_value (Suc levels) n r = Some (parse_scalar n r0)"
          using Cons by (simp add: r0_def [symmetric])
        moreover have "r0 \<noteq> []" using Cons by simp
        ultimately show ?thesis
          using parse_scalar_Inr [of r0 n _ _ levels] skip by (fastforce simp del: json_ok.simps)
      qed
    qed
  qed
qed

lemma parse_json_Inr:
  assumes "parse_json input = Inr v"
  shows "json_ok (maximum_depth + 1) v" "is_valid_utf8 input"
proof -
  show valid: "is_valid_utf8 input" using assms by (auto simp: parse_json_def split: if_splits)
  obtain x where x: "parse_value (maximum_depth + 1) (length input) input = Some x"
    "\<And>v r'. x = Inr (v, r') \<Longrightarrow> is_valid_utf8 input \<longrightarrow> json_ok (maximum_depth + 1) v"
    using parse_value_parses [of "maximum_depth + 1" "length input"] unfolding parses_def by blast
  with assms valid obtain r' where "x = Inr (v, r')"
    by (auto simp: parse_json_def Let_def split: sum.splits prod.splits if_splits)
  with x(2) valid show "json_ok (maximum_depth + 1) v" by blast
qed

lemma parse_json_keys:
  "parse_json input = Inr (Json_object members) \<Longrightarrow> distinct (map fst members)"
  using parse_json_Inr(1) [of input "Json_object members"]
  by (simp only: add_0_right Suc_eq_plus1 [symmetric] json_ok.simps json.case)

section \<open>Properties\<close>

text \<open>
  (C29) UTF-8 validation is exact: an input is valid exactly when it is the concatenation of
  the encodings, by the encoder the string parser uses, of Unicode scalar values (no
  surrogates, nothing beyond U+10FFFF, no overlong forms, no truncated characters).
\<close>

theorem utf8_valid_iff_encoded:
  "is_valid_utf8 input =
     (\<exists>code_points. list_all scalar_value code_points \<and>
        input = concat (map append_utf8 code_points))"
  by (rule is_valid_utf8_iff)

text \<open>
  (C30) The parser returns on every input: at every depth \<open>parse_value\<close> ends within the fuel
  of its loops, with a status or with a value and a strictly shorter rest, and so does
  \<open>parse_json\<close>; no nesting of the input can drive it deeper than the allowed levels.
\<close>

theorem json_parser_total:
  "(case parse_value levels n r of
      None \<Rightarrow> False
    | Some (Inl e) \<Rightarrow> True
    | Some (Inr (v, rest)) \<Rightarrow> length rest < length r) \<and>
   (\<exists>x. parse_value (maximum_depth + 1) (length input) input = Some x \<and>
      parse_json input =
        (if is_valid_utf8 input then
           (case x of
              Inl e \<Rightarrow> Inl e
            | Inr (v, rest) \<Rightarrow>
                if skip_whitespace rest = [] then Inr v
                else json_fail (length input) (skip_whitespace rest) Invalid_json)
         else json_fail (length input) input Invalid_utf8))"
proof -
  have total: "\<exists>x. parse_value levels n r = Some x \<and>
      (\<forall>v rest. x = Inr (v, rest) \<longrightarrow> length rest < length r)" for levels n r
    using parse_value_parses [of levels n] unfolding parses_def by blast
  then obtain x where x: "parse_value (maximum_depth + 1) (length input) input = Some x" by blast
  then have "parse_json input =
      (if is_valid_utf8 input then
         (case x of
            Inl e \<Rightarrow> Inl e
          | Inr (v, rest) \<Rightarrow>
              if skip_whitespace rest = [] then Inr v
              else json_fail (length input) (skip_whitespace rest) Invalid_json)
       else json_fail (length input) input Invalid_utf8)"
    unfolding parse_json_def x option.sel Let_def by (simp split: sum.split)
  moreover have "case parse_value levels n r of
      None \<Rightarrow> False
    | Some (Inl e) \<Rightarrow> True
    | Some (Inr (v, rest)) \<Rightarrow> length rest < length r"
    using total [of levels n r] by (auto split: sum.splits)
  ultimately show ?thesis using x by blast
qed

text \<open>
  (C31) What the parser accepts is well formed: the input is valid UTF-8, no object of the
  value has a key twice, so that \<open>find\<close> is a function of the key, strings and keys are
  valid UTF-8, numbers follow the JSON grammar, and values nest at most 65 deep.
\<close>

theorem json_value_well_formed:
  assumes "parse_json input = Inr v"
  shows "is_valid_utf8 input \<and> json_ok 65 v \<and>
    (\<forall>members. v = Json_object members \<longrightarrow> distinct (map fst members) \<and>
       (\<forall>key w. json_find v key = Some w \<longleftrightarrow> (key, w) \<in> set members))"
proof -
  have ok: "json_ok (Suc 64) v" using parse_json_Inr(1) [OF assms] by (simp add: maximum_depth_def del: json_ok.simps)
  have "distinct (map fst members)" if "v = Json_object members" for members
    using parse_json_keys assms that by simp
  moreover have "json_find v key = Some w \<longleftrightarrow> (key, w) \<in> set members"
    if "v = Json_object members" "distinct (map fst members)" for members key w
    using find_distinct_key [OF that(2), of key] that(1)
    by (auto simp: json_find_def image_iff split: option.splits dest: find_SomeD)
  moreover have "json_ok 65 v" using ok by (simp del: json_ok.simps)
  ultimately show ?thesis using parse_json_Inr(2) [OF assms] by blast
qed

theorem json_value_well_formed_witness:
  "\<exists>v. parse_json [0x7B, 0x22, 0x61, 0x22, 0x3A, 0x5B, 0x31, 0x2C, 0x2D, 0x32, 0x5D, 0x7D] = Inr v \<and>
     json_ok 65 v \<and> json_find v [0x61] = Some (Json_array [Json_number [0x31], Json_number [0x2D, 0x32]])"
proof -
  let ?in = "[0x7B, 0x22, 0x61, 0x22, 0x3A, 0x5B, 0x31, 0x2C, 0x2D, 0x32, 0x5D, 0x7D] :: bytes"
  let ?v = "Json_object [([0x61], Json_array [Json_number [0x31], Json_number [0x2D, 0x32]])]"
  have p: "parse_json ?in = Inr ?v" by code_simp
  from json_value_well_formed [OF p] p show ?thesis by (simp add: json_find_def)
qed

end
