(* ===== verification/SafeTensors.thy ===== *)
theory SafeTensors
  imports JsonProps Tensor
begin

text \<open>
  \<open>model/safetensors.cpp\<close>: the header of a checkpoint file and the tensors it describes.
  The file is a list of bytes; a mapped file is its address and its bytes.
\<close>

section \<open>Data\<close>

record tensor_record =
  tr_name :: bytes
  tr_dtype :: dtype
  tr_shape :: shape
  tr_begin :: u64
  tr_end :: u64

record safe_tensor_metadata =
  st_data_start :: u64
  st_records :: "tensor_record list"

record mapped_file =
  map_address :: u64
  map_bytes :: bytes

record safe_tensor_file =
  sf_mapping :: mapped_file
  sf_metadata :: safe_tensor_metadata

definition default_max_header_bytes :: u64 where
  "default_max_header_bytes = 16 * 1024 * 1024"

section \<open>Numbers\<close>

text \<open>The loop over the bytes; \<open>index\<close> is the position of the first of them.\<close>

fun load_bytes :: "nat \<Rightarrow> bytes \<Rightarrow> u64 \<Rightarrow> u64" where
  "load_bytes index [] acc = acc"
| "load_bytes index (b # bs) acc =
     load_bytes (index + 1) bs (acc OR push_bit (index * 8) (ucast b))"

definition load_u64_little_endian :: "bytes \<Rightarrow> u64" where
  "load_u64_little_endian bs = load_bytes 0 bs 0"

text \<open>
  \<open>std::from_chars\<close> into a 64-bit integer in base ten, of a text it reads to the end: the
  value of the digits, or None if one is not a digit or the value does not fit.
\<close>

fun decimal :: "bytes \<Rightarrow> nat \<Rightarrow> nat option" where
  "decimal [] acc = Some acc"
| "decimal (d # ds) acc =
     (if is_digit d then decimal ds (acc * 10 + unat (d - c_0)) else None)"

definition from_chars_u64 :: "bytes \<Rightarrow> u64 option" where
  "from_chars_u64 text =
     (if text = [] then None
      else
        (case decimal text 0 of
           None \<Rightarrow> None
         | Some n \<Rightarrow> if n < 2 ^ 64 then Some (of_nat n) else None))"

definition parse_unsigned :: "json \<Rightarrow> u64 result" where
  "parse_unsigned value =
     (case value of
        Json_number text \<Rightarrow>
          if text = [] \<or> hd text = c_minus \<or> c_dot \<in> set text \<or> c_e \<in> set text \<or>
             c_upper_e \<in> set text
          then fail Invalid_tensor
          else
            (case from_chars_u64 text of
               None \<Rightarrow> fail Arithmetic_overflow
             | Some n \<Rightarrow> Inr n)
      | _ \<Rightarrow> fail Invalid_tensor)"

section \<open>Records\<close>

abbreviation text_f32 :: bytes where "text_f32 \<equiv> [0x46, 0x33, 0x32]"
abbreviation text_f16 :: bytes where "text_f16 \<equiv> [0x46, 0x31, 0x36]"
abbreviation text_bf16 :: bytes where "text_bf16 \<equiv> [0x42, 0x46, 0x31, 0x36]"
abbreviation text_i8 :: bytes where "text_i8 \<equiv> [0x49, 0x38]"
abbreviation text_i32 :: bytes where "text_i32 \<equiv> [0x49, 0x33, 0x32]"
abbreviation text_u32 :: bytes where "text_u32 \<equiv> [0x55, 0x33, 0x32]"
abbreviation text_dtype :: bytes where "text_dtype \<equiv> [0x64, 0x74, 0x79, 0x70, 0x65]"
abbreviation text_shape :: bytes where "text_shape \<equiv> [0x73, 0x68, 0x61, 0x70, 0x65]"
abbreviation text_data_offsets :: bytes where
  "text_data_offsets \<equiv> [0x64, 0x61, 0x74, 0x61, 0x5F, 0x6F, 0x66, 0x66, 0x73, 0x65, 0x74, 0x73]"
abbreviation text_metadata :: bytes where
  "text_metadata \<equiv> [0x5F, 0x5F, 0x6D, 0x65, 0x74, 0x61, 0x64, 0x61, 0x74, 0x61, 0x5F, 0x5F]"

definition parse_dtype :: "json \<Rightarrow> dtype result" where
  "parse_dtype value =
     (case value of
        Json_string text \<Rightarrow>
          if text = text_f32 then Inr F32
          else if text = text_f16 then Inr F16
          else if text = text_bf16 then Inr Bf16
          else if text = text_i8 then Inr I8
          else if text = text_i32 then Inr I32
          else if text = text_u32 then Inr U32
          else fail Unsupported_dtype
      | _ \<Rightarrow> fail Invalid_tensor)"

definition validate_metadata_object :: "json \<Rightarrow> status" where
  "validate_metadata_object value =
     (case value of
        Json_object members \<Rightarrow>
          if list_all (\<lambda>m. case snd m of Json_string _ \<Rightarrow> True | _ \<Rightarrow> False) members
          then status_success else status_failure Invalid_tensor
      | _ \<Rightarrow> status_failure Invalid_tensor)"

text \<open>The loop over the extents.\<close>

fun parse_extents :: "json list \<Rightarrow> u64 list result" where
  "parse_extents [] = Inr []"
| "parse_extents (v # vs) =
     (case parse_unsigned v of
        Inl e \<Rightarrow> Inl e
      | Inr extent \<Rightarrow>
          (case parse_extents vs of Inl e \<Rightarrow> Inl e | Inr extents \<Rightarrow> Inr (extent # extents)))"

text \<open>The checks after dtype, shape and offsets were read.\<close>

definition finish_record ::
  "bytes \<Rightarrow> u64 \<Rightarrow> dtype \<Rightarrow> shape \<Rightarrow> u64 \<Rightarrow> u64 \<Rightarrow> tensor_record result" where
  "finish_record name data_size dtype shape begin_offset end_offset =
     (if end_offset < begin_offset \<or> end_offset > data_size then fail Invalid_tensor
      else
        (case checked_nbytes shape dtype of
           Inl e \<Rightarrow> Inl e
         | Inr expected_bytes \<Rightarrow>
             if expected_bytes \<noteq> end_offset - begin_offset then fail Invalid_tensor
             else Inr \<lparr>tr_name = name, tr_dtype = dtype, tr_shape = shape,
                       tr_begin = begin_offset, tr_end = end_offset\<rparr>))"

definition parse_tensor_record :: "bytes \<Rightarrow> json \<Rightarrow> u64 \<Rightarrow> tensor_record result" where
  "parse_tensor_record name value data_size =
     (case (name, value) of
        (_ # _, Json_object [_, _, _]) \<Rightarrow>
          (case (json_find value text_dtype, json_find value text_shape,
                 json_find value text_data_offsets) of
             (Some dtype_value, Some (Json_array extents), Some (Json_array [first, second])) \<Rightarrow>
               if length extents > max_rank then fail Invalid_tensor
               else
                 (case parse_dtype dtype_value of
                    Inl e \<Rightarrow> Inl e
                  | Inr dtype \<Rightarrow>
                 (case parse_extents extents of
                    Inl e \<Rightarrow> Inl e
                  | Inr es \<Rightarrow>
                 (case make_shape es of
                    Inl e \<Rightarrow> Inl e
                  | Inr shape \<Rightarrow>
                 (case parse_unsigned first of
                    Inl e \<Rightarrow> Inl e
                  | Inr begin_offset \<Rightarrow>
                 (case parse_unsigned second of
                    Inl e \<Rightarrow> Inl e
                  | Inr end_offset \<Rightarrow>
                      finish_record name data_size dtype shape begin_offset end_offset)))))
           | _ \<Rightarrow> fail Invalid_tensor)
      | _ \<Rightarrow> fail Invalid_tensor)"

section \<open>Coverage\<close>

text \<open>The records by begin, then end; equal ones are interchangeable.\<close>

definition record_key :: "tensor_record \<Rightarrow> nat \<times> nat" where
  "record_key r = (unat (tr_begin r), unat (tr_end r))"

definition sort_records :: "tensor_record list \<Rightarrow> tensor_record list" where
  "sort_records records = sort_key (\<lambda>r. unat (tr_begin r)) (sort_key (\<lambda>r. unat (tr_end r)) records)"

fun coverage_loop :: "tensor_record list \<Rightarrow> u64 \<Rightarrow> u64 option" where
  "coverage_loop [] expected_begin = Some expected_begin"
| "coverage_loop (r # rs) expected_begin =
     (if tr_begin r \<noteq> expected_begin then None else coverage_loop rs (tr_end r))"

definition validate_exact_coverage :: "tensor_record list \<Rightarrow> u64 \<Rightarrow> status" where
  "validate_exact_coverage records data_size =
     (case coverage_loop (sort_records records) 0 of
        None \<Rightarrow> status_failure Invalid_tensor
      | Some expected_begin \<Rightarrow>
          if expected_begin \<noteq> data_size then status_failure Invalid_tensor else status_success)"

section \<open>Files\<close>

text \<open>The loop over the members of the header.\<close>

fun parse_records :: "u64 \<Rightarrow> (bytes \<times> json) list \<Rightarrow> tensor_record list result" where
  "parse_records data_size [] = Inr []"
| "parse_records data_size ((name, value) # members) =
     (if name = text_metadata then
        if status_ok (validate_metadata_object value) then parse_records data_size members
        else Inl (validate_metadata_object value)
      else
        (case parse_tensor_record name value data_size of
           Inl e \<Rightarrow> Inl e
         | Inr record \<Rightarrow>
             (case parse_records data_size members of
                Inl e \<Rightarrow> Inl e
              | Inr records \<Rightarrow> Inr (record # records))))"

definition parse_safetensors_metadata :: "bytes \<Rightarrow> u64 \<Rightarrow> safe_tensor_metadata result" where
  "parse_safetensors_metadata input maximum_header_bytes =
     (if length input < 8 then fail Truncated_data
      else
        let header_size = load_u64_little_endian (take 8 input)
        in if header_size > maximum_header_bytes \<or> header_size > u64_max
           then fail Resource_limit
           else if unat header_size > length input - 8 then fail Truncated_data
           else
             let data_start = 8 + header_size;
                 data_size = of_nat (length input) - data_start;
                 header = take (unat header_size) (drop 8 input)
             in if header = [] \<or> hd header \<noteq> c_lbrace then fail Invalid_json
                else
                  (case parse_json header of
                     Inl e \<Rightarrow> Inl e
                   | Inr (Json_object members) \<Rightarrow>
                       (case parse_records data_size members of
                          Inl e \<Rightarrow> Inl e
                        | Inr records \<Rightarrow>
                            if \<not> status_ok (validate_exact_coverage records data_size)
                            then Inl (validate_exact_coverage records data_size)
                            else Inr \<lparr>st_data_start = data_start, st_records = records\<rparr>)
                   | Inr _ \<Rightarrow> fail Invalid_json))"

definition safe_tensor_parse :: "mapped_file \<Rightarrow> u64 \<Rightarrow> safe_tensor_file result" where
  "safe_tensor_parse mapping maximum_header_bytes =
     (case parse_safetensors_metadata (map_bytes mapping) maximum_header_bytes of
        Inl e \<Rightarrow> Inl e
      | Inr metadata \<Rightarrow> Inr \<lparr>sf_mapping = mapping, sf_metadata = metadata\<rparr>)"

definition safe_tensor_record :: "safe_tensor_file \<Rightarrow> bytes \<Rightarrow> tensor_record option" where
  "safe_tensor_record file name =
     List.find (\<lambda>r. tr_name r = name) (st_records (sf_metadata file))"

definition safe_tensor_view :: "safe_tensor_file \<Rightarrow> bytes \<Rightarrow> tensor_view result" where
  "safe_tensor_view file name =
     (case safe_tensor_record file name of
        None \<Rightarrow> fail Missing_tensor
      | Some found \<Rightarrow>
          let absolute_offset = st_data_start (sf_metadata file) + tr_begin found
          in if unat absolute_offset > length (map_bytes (sf_mapping file)) then fail Invalid_tensor
             else Inr \<lparr>tv_data = map_address (sf_mapping file) + absolute_offset,
                       tv_shape = tr_shape found, tv_dtype = tr_dtype found, tv_memory = Host\<rparr>)"

end
