(* ===== verification/SafeTensorsProps.thy ===== *)
theory SafeTensorsProps
  imports SafeTensors
begin

text \<open>
  An accepted checkpoint is covered exactly by its tensors, and a tensor that is looked up
  lies inside the file.
\<close>

section \<open>Records\<close>

definition covers :: "nat \<Rightarrow> tensor_record \<Rightarrow> bool" where
  "covers position r \<longleftrightarrow> unat (tr_begin r) \<le> position \<and> position < unat (tr_end r)"

text \<open>A record that fits its shape and the data.\<close>

definition record_ok :: "u64 \<Rightarrow> tensor_record \<Rightarrow> bool" where
  "record_ok data_size r \<longleftrightarrow>
     tr_name r \<noteq> [] \<and> well_shaped (tr_shape r) \<and>
     unat (tr_begin r) \<le> unat (tr_end r) \<and> unat (tr_end r) \<le> unat data_size \<and>
     checked_nbytes (tr_shape r) (tr_dtype r) = Inr (tr_end r - tr_begin r)"

lemma finish_record_Inr:
  assumes "finish_record name data_size t s b e = Inr r" "name \<noteq> []" "well_shaped s"
  shows "record_ok data_size r \<and> tr_name r = name"
  using assms
  by (auto simp: finish_record_def record_ok_def not_less word_le_nat_alt
      split: if_splits sum.splits)

lemma parse_tensor_record_Inr:
  assumes "parse_tensor_record name v data_size = Inr r"
  shows "record_ok data_size r \<and> tr_name r = name"
proof -
  from assms have "name \<noteq> []" by (cases name) (auto simp: parse_tensor_record_def)
  moreover from assms obtain t es s b e where "make_shape es = Inr s"
    "finish_record name data_size t s b e = Inr r"
    unfolding parse_tensor_record_def
    by (auto split: list.splits json.splits option.splits if_splits sum.splits prod.splits)
  ultimately show ?thesis using finish_record_Inr make_shape_Inr(1) by blast
qed

lemma parse_records_Inr:
  "parse_records data_size members = Inr records \<Longrightarrow>
     list_all (record_ok data_size) records \<and>
     map tr_name records = filter (\<lambda>name. name \<noteq> text_metadata) (map fst members)"
proof (induction members arbitrary: records)
  case (Cons m members)
  obtain name v where m: "m = (name, v)" by (cases m)
  show ?case
  proof (cases "name = text_metadata")
    case True
    then show ?thesis using Cons by (auto simp: m split: if_splits)
  next
    case False
    then obtain r rs where "parse_tensor_record name v data_size = Inr r"
      "parse_records data_size members = Inr rs" "records = r # rs"
      using Cons.prems by (auto simp: m split: sum.splits)
    then show ?thesis using Cons.IH parse_tensor_record_Inr False by (auto simp: m)
  qed
qed simp

section \<open>Coverage\<close>

lemma coverage_loop_Some:
  "coverage_loop rs b = Some e \<Longrightarrow> \<forall>r \<in> set rs. unat (tr_begin r) \<le> unat (tr_end r) \<Longrightarrow>
     unat b \<le> unat e \<and>
     length (filter (covers p) rs) = (if unat b \<le> p \<and> p < unat e then 1 else 0)"
proof (induction rs arbitrary: b)
  case (Cons r rs)
  then have r: "tr_begin r = b" "coverage_loop rs (tr_end r) = Some e" by (auto split: if_splits)
  have "unat b \<le> unat (tr_end r)" using Cons.prems(2) r(1) by auto
  then show ?case using Cons.IH [OF r(2)] Cons.prems(2) r(1) by (auto simp: covers_def)
qed simp

lemma mset_sort_records: "mset (sort_records rs) = mset rs"
  by (simp add: sort_records_def)

lemma coverage_exact:
  assumes "status_ok (validate_exact_coverage rs data_size)" "list_all (record_ok data_size) rs"
  shows "length (filter (covers p) rs) = (if p < unat data_size then 1 else 0)"
proof -
  have "coverage_loop (sort_records rs) 0 = Some data_size"
    using assms(1) by (auto simp: validate_exact_coverage_def split: option.splits if_splits)
  moreover have "set (sort_records rs) = set rs" using mset_sort_records mset_eq_setD by blast
  ultimately have "length (filter (covers p) (sort_records rs)) = (if p < unat data_size then 1 else 0)"
    using coverage_loop_Some [of "sort_records rs" 0 data_size p] assms(2)
    by (simp add: list_all_iff record_ok_def)
  moreover have "mset (filter (covers p) (sort_records rs)) = mset (filter (covers p) rs)"
    by (simp add: mset_filter mset_sort_records)
  ultimately show ?thesis by (metis size_mset)
qed

section \<open>Files\<close>

lemma parse_metadata_Inr:
  assumes "parse_safetensors_metadata input limit = Inr m" "length input < 2 ^ 64"
  obtains data_size where "unat (st_data_start m) + unat data_size = length input"
    "8 \<le> unat (st_data_start m)"
    "list_all (record_ok data_size) (st_records m)" "distinct (map tr_name (st_records m))"
    "status_ok (validate_exact_coverage (st_records m) data_size)"
proof -
  define h where "h = load_u64_little_endian (take 8 input)"
  define data_size where "data_size = of_nat (length input) - (8 + h)"
  from assms(1) have len: "8 \<le> length input" "unat h \<le> length input - 8"
    unfolding parse_safetensors_metadata_def Let_def h_def [symmetric] by (auto split: if_splits)
  then have start: "unat (8 + h) = 8 + unat h"
    using assms(2) unat_u64_plus [of 8 h] by simp
  have total: "unat (of_nat (length input) :: u64) = length input"
    using assms(2) by (rule unat_u64_of_nat)
  then have "unat data_size = length input - (8 + unat h)"
    unfolding data_size_def using start len by (subst unat_word_minus) (simp_all add: word_le_nat_alt)
  moreover from assms(1) obtain members where
    json: "parse_json (take (unat h) (drop 8 input)) = Inr (Json_object members)"
    and rec: "parse_records data_size members = Inr (st_records m)"
    and cover: "status_ok (validate_exact_coverage (st_records m) data_size)"
    and start': "st_data_start m = 8 + h"
    unfolding parse_safetensors_metadata_def Let_def h_def [symmetric] data_size_def [symmetric]
    by (auto split: if_splits sum.splits json.splits)
  moreover have "distinct (map fst members)"
    by (rule parse_json_keys [OF json])
  ultimately show thesis
    using that [of data_size] len start parse_records_Inr [OF rec] by simp
qed

lemma safetensors_bounds:
  assumes "parse_safetensors_metadata input limit = Inr m" "length input < 2 ^ 64"
    "r \<in> set (st_records m)"
  shows "tr_name r \<noteq> [] \<and> unat (tr_begin r) \<le> unat (tr_end r) \<and>
       unat (st_data_start m) + unat (tr_end r) \<le> length input \<and>
       (\<exists>n. checked_nbytes (tr_shape r) (tr_dtype r) = Inr n \<and>
          unat n = unat (tr_end r) - unat (tr_begin r))"
proof -
  obtain data_size where size: "unat (st_data_start m) + unat data_size = length input"
    "list_all (record_ok data_size) (st_records m)"
    using parse_metadata_Inr [OF assms(1,2)] by metis
  then have r: "record_ok data_size r" using assms(3) by (simp add: list_all_iff)
  then have "unat (tr_end r - tr_begin r) = unat (tr_end r) - unat (tr_begin r)"
    by (intro unat_word_minus) (simp add: record_ok_def word_le_nat_alt)
  with r size(1) show ?thesis by (auto simp: record_ok_def)
qed

text \<open>
  (C32) An accepted checkpoint is exactly covered: the names of its tensors are different and
  not empty, every tensor lies within the data and has as many bytes as its shape and
  element type need, and every byte of the data belongs to exactly one tensor, so tensors
  never overlap and leave no gap.
\<close>

theorem safetensors_exact_coverage:
  assumes "parse_safetensors_metadata input limit = Inr m" "length input < 2 ^ 64"
  shows "unat (st_data_start m) \<le> length input \<and>
    distinct (map tr_name (st_records m)) \<and>
    (\<forall>r \<in> set (st_records m). tr_name r \<noteq> [] \<and> unat (tr_begin r) \<le> unat (tr_end r) \<and>
       unat (st_data_start m) + unat (tr_end r) \<le> length input \<and>
       (\<exists>n. checked_nbytes (tr_shape r) (tr_dtype r) = Inr n \<and>
          unat n = unat (tr_end r) - unat (tr_begin r))) \<and>
    (\<forall>p. unat (st_data_start m) + p < length input \<longrightarrow>
       (\<exists>!k. k < length (st_records m) \<and> covers p (st_records m ! k)))"
proof -
  obtain data_size where size: "unat (st_data_start m) + unat data_size = length input"
    "list_all (record_ok data_size) (st_records m)" "distinct (map tr_name (st_records m))"
    "status_ok (validate_exact_coverage (st_records m) data_size)"
    using parse_metadata_Inr [OF assms] by metis
  have "\<exists>!k. k < length rs \<and> P (rs ! k)" if "length (filter P rs) = 1" for P and rs :: "'z list"
  proof -
    have "card {k. k < length rs \<and> P (rs ! k)} = 1" using that by (simp add: length_filter_conv_card)
    then obtain k where "{k. k < length rs \<and> P (rs ! k)} = {k}" by (auto simp: card_1_singleton_iff)
    then show ?thesis by (intro ex1I [of _ k]) auto
  qed
  then have "\<exists>!k. k < length (st_records m) \<and> covers p (st_records m ! k)"
    if "unat (st_data_start m) + p < length input" for p
    using that size(1) coverage_exact [OF size(4,2), of p] by simp
  then show ?thesis
    using safetensors_bounds [OF assms] size(1,3) by auto
qed

definition demo_file :: bytes where
  "demo_file = [0x39, 0, 0, 0, 0, 0, 0, 0,
     0x7B, 0x22, 0x77, 0x22, 0x3A, 0x7B, 0x22, 0x64, 0x74, 0x79, 0x70, 0x65, 0x22, 0x3A,
     0x22, 0x49, 0x38, 0x22, 0x2C, 0x22, 0x73, 0x68, 0x61, 0x70, 0x65, 0x22, 0x3A, 0x5B,
     0x32, 0x5D, 0x2C, 0x22, 0x64, 0x61, 0x74, 0x61, 0x5F, 0x6F, 0x66, 0x66, 0x73, 0x65,
     0x74, 0x73, 0x22, 0x3A, 0x5B, 0x30, 0x2C, 0x32, 0x5D, 0x7D, 0x7D, 0x20, 0x20, 0x20, 0x20, 7, 9]"

definition demo_metadata :: safe_tensor_metadata where
  "demo_metadata = \<lparr>st_data_start = 65, st_records =
     [\<lparr>tr_name = [0x77], tr_dtype = I8, tr_shape = \<lparr>sh_extents = [2, 0, 0, 0, 0, 0], sh_rank = 1\<rparr>,
       tr_begin = 0, tr_end = 2\<rparr>]\<rparr>"

definition demo_members :: "(bytes \<times> json) list" where
  "demo_members = [([0x77], Json_object [(text_dtype, Json_string text_i8),
     (text_shape, Json_array [Json_number [0x32]]),
     (text_data_offsets, Json_array [Json_number [0x30], Json_number [0x32]])])]"

lemma demo_parse: "parse_safetensors_metadata demo_file 100 = Inr demo_metadata"
proof -
  have h: "load_u64_little_endian (take 8 demo_file) = 57" unfolding demo_file_def by code_simp
  have json: "parse_json (take 57 (drop 8 demo_file)) = Inr (Json_object demo_members)"
    unfolding demo_file_def demo_members_def by code_simp
  have head: "take 57 (drop 8 demo_file) \<noteq> [] \<and> hd (take 57 (drop 8 demo_file)) = c_lbrace"
    unfolding demo_file_def by code_simp
  have n: "parse_unsigned (Json_number [0x32]) = Inr 2" "parse_unsigned (Json_number [0x30]) = Inr 0"
    by (simp_all add: parse_unsigned_def from_chars_u64_def is_digit_def)
  have s: "make_shape [2] = Inr \<lparr>sh_extents = [2, 0, 0, 0, 0, 0], sh_rank = 1\<rparr>" by code_simp
  have b: "checked_nbytes \<lparr>sh_extents = [2, 0, 0, 0, 0, 0], sh_rank = 1\<rparr> I8 = Inr 2" by code_simp
  have "parse_records 2 demo_members = Inr (st_records demo_metadata)"
    by (simp add: demo_members_def demo_metadata_def parse_tensor_record_def json_find_def
        parse_dtype_def finish_record_def max_rank_def n s b)
  moreover have "status_ok (validate_exact_coverage (st_records demo_metadata) 2)"
    by (simp add: validate_exact_coverage_def sort_records_def demo_metadata_def)
  moreover have "length demo_file = 67" by (simp add: demo_file_def)
  moreover have "st_data_start demo_metadata = 65" by (simp add: demo_metadata_def)
  ultimately show ?thesis
    using head by (simp add: parse_safetensors_metadata_def h json Let_def demo_metadata_def)
qed

theorem safetensors_exact_coverage_witness:
  "parse_safetensors_metadata demo_file 100 = Inr demo_metadata \<and>
   (\<exists>!k. k < length (st_records demo_metadata) \<and> covers 1 (st_records demo_metadata ! k))"
proof -
  have "length demo_file = 67" by (simp add: demo_file_def)
  moreover have "unat (st_data_start demo_metadata) = 65" by (simp add: demo_metadata_def)
  ultimately show ?thesis
    using safetensors_exact_coverage [OF demo_parse] demo_parse by simp
qed

text \<open>Where the view of a record points.\<close>

lemma safe_tensor_view_found:
  assumes "safe_tensor_parse mapping limit = Inr file"
    "unat (map_address mapping) + length (map_bytes mapping) < 2 ^ 64"
    "safe_tensor_record file name = Some r"
  obtains view n where "safe_tensor_view file name = Inr view"
    "tv_shape view = tr_shape r" "tv_dtype view = tr_dtype r" "tv_memory view = Host"
    "unat (tv_data view) = unat (map_address mapping) +
       unat (st_data_start (sf_metadata file)) + unat (tr_begin r)"
    "checked_nbytes (tr_shape r) (tr_dtype r) = Inr n" "unat n = unat (tr_end r) - unat (tr_begin r)"
    "unat (tv_data view) + unat n \<le> unat (map_address mapping) + length (map_bytes mapping)"
proof -
  from assms(1) have m: "sf_mapping file = mapping"
    "parse_safetensors_metadata (map_bytes mapping) limit = Inr (sf_metadata file)"
    by (auto simp: safe_tensor_parse_def split: sum.splits)
  have len: "length (map_bytes mapping) < 2 ^ 64" using assms(2) by simp
  have r: "r \<in> set (st_records (sf_metadata file))" "tr_name r = name"
    using assms(3) by (auto simp: safe_tensor_record_def dest: find_SomeD)
  obtain n where n: "unat (tr_begin r) \<le> unat (tr_end r)"
    "unat (st_data_start (sf_metadata file)) + unat (tr_end r) \<le> length (map_bytes mapping)"
    "checked_nbytes (tr_shape r) (tr_dtype r) = Inr n"
    "unat n = unat (tr_end r) - unat (tr_begin r)"
    using safetensors_bounds [OF m(2) len] r(1) by blast
  let ?off = "st_data_start (sf_metadata file) + tr_begin r"
  have off: "unat ?off = unat (st_data_start (sf_metadata file)) + unat (tr_begin r)"
    using n(1,2) len by (intro unat_u64_plus) linarith
  have data: "unat (map_address mapping + ?off) = unat (map_address mapping) + unat ?off"
    using off n(1,2) assms(2) by (intro unat_u64_plus) linarith
  have bound: "\<not> unat ?off > length (map_bytes mapping)" using off n by linarith
  show thesis
    by (rule that [of "\<lparr>tv_data = map_address mapping + ?off, tv_shape = tr_shape r,
          tv_dtype = tr_dtype r, tv_memory = Host\<rparr>" n])
      (use assms(3) r n data off bound m(1) in \<open>simp_all add: safe_tensor_view_def Let_def\<close>)
qed

text \<open>
  (C33) A lookup is safe: \<open>tensor\<close> finds exactly the names of the header, and the view it
  returns has the recorded shape and element type, needs no more bytes than the mapping has
  from its address on, and is therefore readable to its end; the offset check never fires.
\<close>

theorem safetensors_views_in_bounds:
  assumes "safe_tensor_parse mapping limit = Inr file"
    "unat (map_address mapping) + length (map_bytes mapping) < 2 ^ 64"
  shows "case safe_tensor_view file name of
      Inl e \<Rightarrow> e = status_failure Missing_tensor \<and>
        name \<notin> tr_name ` set (st_records (sf_metadata file))
    | Inr view \<Rightarrow> \<exists>r \<in> set (st_records (sf_metadata file)). tr_name r = name \<and>
        tv_shape view = tr_shape r \<and> tv_dtype view = tr_dtype r \<and>
        unat (tv_data view) = unat (map_address mapping) +
          unat (st_data_start (sf_metadata file)) + unat (tr_begin r) \<and>
        (\<exists>n. checked_nbytes (tv_shape view) (tv_dtype view) = Inr n \<and>
           unat (tv_data view) + unat n \<le> unat (map_address mapping) + length (map_bytes mapping))"
proof (cases "safe_tensor_record file name")
  case None
  then have "safe_tensor_view file name = fail Missing_tensor" by (simp add: safe_tensor_view_def)
  moreover have "name \<notin> tr_name ` set (st_records (sf_metadata file))"
    using None by (auto simp: safe_tensor_record_def find_None_iff)
  ultimately show ?thesis by simp
next
  case (Some r)
  then have r: "r \<in> set (st_records (sf_metadata file))" "tr_name r = name"
    by (auto simp: safe_tensor_record_def dest: find_SomeD)
  from safe_tensor_view_found [OF assms Some] show ?thesis
    by cases (use r in auto)
qed

theorem safetensors_views_in_bounds_witness:
  "\<exists>file view. safe_tensor_parse \<lparr>map_address = 4096, map_bytes = demo_file\<rparr> 100 = Inr file \<and>
     safe_tensor_view file [0x77] = Inr view \<and> unat (tv_data view) + 2 \<le> 4096 + length demo_file"
proof -
  let ?m = "\<lparr>map_address = 4096, map_bytes = demo_file\<rparr>"
  let ?file = "\<lparr>sf_mapping = ?m, sf_metadata = demo_metadata\<rparr>"
  have f: "safe_tensor_parse ?m 100 = Inr ?file" by (simp add: safe_tensor_parse_def demo_parse)
  have "length demo_file = 67" by (simp add: demo_file_def)
  then have room: "unat (map_address ?m) + length (map_bytes ?m) < 2 ^ 64" by simp
  have "safe_tensor_view ?file [0x77] = Inr \<lparr>tv_data = 4161,
      tv_shape = \<lparr>sh_extents = [2, 0, 0, 0, 0, 0], sh_rank = 1\<rparr>, tv_dtype = I8, tv_memory = Host\<rparr>"
    unfolding demo_metadata_def demo_file_def by code_simp
  moreover have "checked_nbytes \<lparr>sh_extents = [2, 0, 0, 0, 0, 0], sh_rank = 1\<rparr> I8 = Inr 2" by code_simp
  ultimately show ?thesis
    using safetensors_views_in_bounds [OF f room, of "[0x77]"] f by auto
qed

end
