(* ===== verification/LoadedWeights.thy ===== *)
theory LoadedWeights
  imports SafeTensorsProps ModelSpec
begin

text \<open>
  \<open>model/loaded_weights.cpp\<close>: the tensors a SmolLM2 checkpoint must have, and their binding
  to the fields of the layers. Allocation failures of strings and vectors are left out.
\<close>

section \<open>Data\<close>

record attention_weights =
  aw_query :: tensor_view
  aw_key :: tensor_view
  aw_value :: tensor_view
  aw_output :: tensor_view

record mlp_weights =
  mw_gate :: tensor_view
  mw_up :: tensor_view
  mw_down :: tensor_view

record layer_weights =
  lw_input_norm :: tensor_view
  lw_attention :: attention_weights
  lw_post_attention_norm :: tensor_view
  lw_mlp :: mlp_weights

text \<open>The fields of a layer in the order of the checkpoint.\<close>

definition layer_views :: "layer_weights \<Rightarrow> tensor_view list" where
  "layer_views l =
     [lw_input_norm l, aw_query (lw_attention l), aw_key (lw_attention l), aw_value (lw_attention l),
      aw_output (lw_attention l), lw_post_attention_norm l, mw_gate (lw_mlp l), mw_up (lw_mlp l),
      mw_down (lw_mlp l)]"

record loaded_weights =
  ld_file :: safe_tensor_file
  ld_embedding :: tensor_view
  ld_final_norm :: tensor_view
  ld_output_head :: tensor_view
  ld_output_head_aliases_embedding :: bool
  ld_layers :: "layer_weights list"

record expected_tensor =
  et_name :: bytes
  et_shape :: shape

section \<open>Expected tensors\<close>

text \<open>A string literal of ASCII characters as bytes.\<close>

definition ascii_text :: "string \<Rightarrow> bytes" where
  "ascii_text s = map of_char s"

text \<open>\<open>std::to_string\<close> of an unsigned number.\<close>

fun decimal_text :: "nat \<Rightarrow> bytes" where
  "decimal_text n =
     (if n < 10 then [c_0 + of_nat n] else decimal_text (n div 10) @ [c_0 + of_nat (n mod 10)])"

declare decimal_text.simps [simp del]

abbreviation shape_of :: "u64 list \<Rightarrow> shape result" where
  "shape_of \<equiv> make_shape"

definition layer_prefix :: "u32 \<Rightarrow> bytes" where
  "layer_prefix layer = ascii_text ''model.layers.'' @ decimal_text (unat layer) @ ascii_text ''.''"

definition expect :: "bytes \<Rightarrow> shape \<Rightarrow> expected_tensor" where
  "expect name s = \<lparr>et_name = name, et_shape = s\<rparr>"

text \<open>The body of the loop over the layers.\<close>

definition expected_layer ::
  "shape \<Rightarrow> shape \<Rightarrow> shape \<Rightarrow> shape \<Rightarrow> shape \<Rightarrow> u32 \<Rightarrow> expected_tensor list" where
  "expected_layer norm query key_value gate_up down layer =
     (let prefix = layer_prefix layer
      in [expect (prefix @ ascii_text ''input_layernorm.weight'') norm,
          expect (prefix @ ascii_text ''self_attn.q_proj.weight'') query,
          expect (prefix @ ascii_text ''self_attn.k_proj.weight'') key_value,
          expect (prefix @ ascii_text ''self_attn.v_proj.weight'') key_value,
          expect (prefix @ ascii_text ''self_attn.o_proj.weight'') query,
          expect (prefix @ ascii_text ''post_attention_layernorm.weight'') norm,
          expect (prefix @ ascii_text ''mlp.gate_proj.weight'') gate_up,
          expect (prefix @ ascii_text ''mlp.up_proj.weight'') gate_up,
          expect (prefix @ ascii_text ''mlp.down_proj.weight'') down])"

definition smollm2_expected_tensors :: "model_spec \<Rightarrow> expected_tensor list result" where
  "smollm2_expected_tensors spec =
     (let hidden = ucast (ms_hidden_size spec);
          intermediate = ucast (ms_intermediate_size spec);
          kv_width = ucast (ms_kv_heads spec) * ucast (ms_head_dim spec)
      in (case (shape_of [ucast (ms_vocabulary_size spec), hidden], shape_of [hidden],
                shape_of [hidden, hidden], shape_of [kv_width, hidden],
                shape_of [intermediate, hidden], shape_of [hidden, intermediate]) of
            (Inr embedding, Inr norm, Inr query, Inr key_value, Inr gate_up, Inr down) \<Rightarrow>
              Inr (expect (ascii_text ''model.embed_tokens.weight'') embedding #
                   concat (map (\<lambda>layer. expected_layer norm query key_value gate_up down (of_nat layer))
                     [0..<unat (ms_layers spec)]) @
                   [expect (ascii_text ''model.norm.weight'') norm])
          | _ \<Rightarrow> fail Invalid_model))"

section \<open>Binding\<close>

definition require_tensor ::
  "safe_tensor_file \<Rightarrow> expected_tensor \<Rightarrow> u32 \<Rightarrow> tensor_view result" where
  "require_tensor file expected detail =
     (case safe_tensor_record file (et_name expected) of
        None \<Rightarrow> Inl (status_failure_at Missing_tensor detail)
      | Some record \<Rightarrow>
          if tr_shape record \<noteq> et_shape expected \<or> tr_dtype record \<noteq> Bf16
          then Inl (status_failure_at Invalid_tensor detail)
          else safe_tensor_view file (et_name expected))"

text \<open>The loop over the records; \<open>index\<close> is the position of the first of them.\<close>

fun check_names :: "bytes set \<Rightarrow> nat \<Rightarrow> tensor_record list \<Rightarrow> status" where
  "check_names allowed index [] = status_success"
| "check_names allowed index (r # rs) =
     (if tr_name r \<notin> allowed then status_failure_at Unexpected_tensor (of_nat (index + 1))
      else check_names allowed (index + 1) rs)"

fun require_tensors ::
  "safe_tensor_file \<Rightarrow> nat \<Rightarrow> expected_tensor list \<Rightarrow> tensor_view list result" where
  "require_tensors file index [] = Inr []"
| "require_tensors file index (e # es) =
     (case require_tensor file e (of_nat (index + 1)) of
        Inl s \<Rightarrow> Inl s
      | Inr view \<Rightarrow>
          (case require_tensors file (index + 1) es of
             Inl s \<Rightarrow> Inl s
           | Inr views \<Rightarrow> Inr (view # views)))"

text \<open>The loop that deals the views out to the layers: the layers and the final cursor.\<close>

fun bind_layers :: "tensor_view list \<Rightarrow> nat \<Rightarrow> nat \<Rightarrow> layer_weights list \<times> nat" where
  "bind_layers views 0 cursor = ([], cursor)"
| "bind_layers views (Suc layers) cursor =
     (let layer = \<lparr>lw_input_norm = views ! cursor,
            lw_attention = \<lparr>aw_query = views ! (cursor + 1), aw_key = views ! (cursor + 2),
              aw_value = views ! (cursor + 3), aw_output = views ! (cursor + 4)\<rparr>,
            lw_post_attention_norm = views ! (cursor + 5),
            lw_mlp = \<lparr>mw_gate = views ! (cursor + 6), mw_up = views ! (cursor + 7),
              mw_down = views ! (cursor + 8)\<rparr>\<rparr>;
          (rest, final) = bind_layers views layers (cursor + 9)
      in (layer # rest, final))"

text \<open>
  The optional output head: its view and whether it is the embedding. None is the call of
  \<open>value\<close> on a failed result.
\<close>

definition bind_output_head ::
  "safe_tensor_file \<Rightarrow> model_spec \<Rightarrow> nat \<Rightarrow> tensor_view \<Rightarrow> (tensor_view \<times> bool) result option" where
  "bind_output_head file spec expected_count embedding =
     (case safe_tensor_record file (ascii_text ''lm_head.weight'') of
        None \<Rightarrow> Some (Inr (embedding, True))
      | Some output_record \<Rightarrow>
          if (case shape_of [ucast (ms_vocabulary_size spec), ucast (ms_hidden_size spec)] of
                Inl _ \<Rightarrow> True
              | Inr expected_output \<Rightarrow> tr_shape output_record \<noteq> expected_output) \<or>
             tr_dtype output_record \<noteq> Bf16
          then Some (Inl (status_failure_at Invalid_tensor (of_nat (expected_count + 1))))
          else
            (case safe_tensor_view file (ascii_text ''lm_head.weight'') of
               Inl _ \<Rightarrow> None
             | Inr view \<Rightarrow> Some (Inr (view, False))))"

definition weights_bind :: "safe_tensor_file \<Rightarrow> model_spec \<Rightarrow> loaded_weights result option" where
  "weights_bind file spec =
     (if ms_architecture spec \<noteq> Smollm2_llama \<or> ms_qkv_bias spec \<or> \<not> ms_tied_embeddings spec \<or>
         \<not> status_ok (validate_model spec)
      then Some (fail Invalid_model)
      else
        (case smollm2_expected_tensors spec of
           Inl e \<Rightarrow> Some (Inl e)
         | Inr expected \<Rightarrow>
             let allowed = insert (ascii_text ''lm_head.weight'') (set (map et_name expected));
                 names = check_names allowed 0 (st_records (sf_metadata file))
             in if \<not> status_ok names then Some (Inl names)
                else
                  (case require_tensors file 0 expected of
                     Inl e \<Rightarrow> Some (Inl e)
                   | Inr views \<Rightarrow>
                       let (layers, cursor) = bind_layers views (unat (ms_layers spec)) 1
                       in (case bind_output_head file spec (length expected) (views ! 0) of
                             None \<Rightarrow> None
                           | Some (Inl e) \<Rightarrow> Some (Inl e)
                           | Some (Inr (output_head, aliases)) \<Rightarrow>
                               Some (Inr \<lparr>ld_file = file, ld_embedding = views ! 0,
                                 ld_final_norm = views ! cursor, ld_output_head = output_head,
                                 ld_output_head_aliases_embedding = aliases,
                                 ld_layers = layers\<rparr>)))))"

text \<open>\<open>mapping\<close> is the outcome of opening the file.\<close>

definition open_and_bind ::
  "mapped_file result \<Rightarrow> model_spec \<Rightarrow> loaded_weights result option" where
  "open_and_bind mapping spec =
     (case mapping of
        Inl e \<Rightarrow> Some (Inl e)
      | Inr mapped \<Rightarrow>
          (case safe_tensor_parse mapped default_max_header_bytes of
             Inl e \<Rightarrow> Some (Inl e)
           | Inr file \<Rightarrow> weights_bind file spec))"

end
