(* ===== verification/CpuWeights.thy ===== *)
theory CpuWeights
  imports LoadedWeights HostBuffer
begin

unbundle bit_operations_syntax

text \<open>
  \<open>materialize_smollm2\<close> of \<open>cpu/smollm2.cpp\<close>: the copy of the bf16 tensors of a checkpoint into
  one buffer of 32-bit floats. A read outside the mapping and a write outside the buffer
  are the value None. Of the buffer the model keeps the values that were written, from its
  beginning on; the cursor is their number.
\<close>

section \<open>Values\<close>

definition decode_bf16 :: "u8 \<Rightarrow> u8 \<Rightarrow> f32" where
  "decode_bf16 low high =
     (let bf16 = ucast low OR push_bit 8 (ucast high) :: 16 word in push_bit 16 (ucast bf16))"

text \<open>A byte at an address of the mapping.\<close>

definition read_byte :: "mapped_file \<Rightarrow> u64 \<Rightarrow> u8 option" where
  "read_byte mapping a =
     (let offset = unat a - unat (map_address mapping)
      in if unat (map_address mapping) \<le> unat a \<and> offset < length (map_bytes mapping)
         then Some (map_bytes mapping ! offset) else None)"

definition read_bf16 :: "mapped_file \<Rightarrow> u64 \<Rightarrow> f32 option" where
  "read_bf16 mapping a =
     (case (read_byte mapping a, read_byte mapping (a + 1)) of
        (Some low, Some high) \<Rightarrow> Some (decode_bf16 low high)
      | _ \<Rightarrow> None)"

section \<open>Appending tensors\<close>

text \<open>
  The loop over the values of a tensor, \<open>remaining\<close> of them from \<open>index\<close> on: whether all were
  finite, and what has been written.
\<close>

fun copy_values ::
  "mapped_file \<Rightarrow> u64 \<Rightarrow> nat \<Rightarrow> nat \<Rightarrow> u64 \<Rightarrow> f32 list \<Rightarrow> (bool \<times> f32 list) option" where
  "copy_values mapping source_bytes capacity 0 index written = Some (True, written)"
| "copy_values mapping source_bytes capacity (Suc remaining) index written =
     (case read_bf16 mapping (source_bytes + index * 2) of
        None \<Rightarrow> None
      | Some v \<Rightarrow>
          if \<not> f32_is_finite v then Some (False, written)
          else if length written \<ge> capacity then None
          else copy_values mapping source_bytes capacity remaining (index + 1) (written @ [v]))"

definition append_tensor ::
  "mapped_file \<Rightarrow> u64 \<Rightarrow> u64 \<Rightarrow> tensor_view \<Rightarrow> f32 list \<Rightarrow> (tensor_view result \<times> f32 list) option" where
  "append_tensor mapping destination parameter_count tensor written =
     (if tv_dtype tensor \<noteq> Bf16 \<or> tv_memory tensor \<noteq> Host
      then Some (fail Invalid_tensor, written)
      else
        let cursor = of_nat (length written)
        in (case checked_numel (tv_shape tensor) of
              Inl _ \<Rightarrow> Some (fail Invalid_tensor, written)
            | Inr tensor_numel \<Rightarrow>
                if cursor > parameter_count \<or> tensor_numel > parameter_count - cursor
                then Some (fail Invalid_tensor, written)
                else if tensor_numel \<noteq> 0 \<and> tv_data tensor = 0 then Some (fail Invalid_tensor, written)
                else
                  (case copy_values mapping (tv_data tensor) (unat parameter_count) (unat tensor_numel) 0
                          written of
                     None \<Rightarrow> None
                   | Some (False, written') \<Rightarrow> Some (fail Invalid_tensor, written')
                   | Some (True, written') \<Rightarrow>
                       Some (Inr \<lparr>tv_data = destination + 4 * cursor, tv_shape = tv_shape tensor,
                                  tv_dtype = F32, tv_memory = Host\<rparr>, written'))))"

text \<open>The nine calls for a layer, all of them made before any result is looked at.\<close>

fun append_all ::
  "mapped_file \<Rightarrow> u64 \<Rightarrow> u64 \<Rightarrow> tensor_view list \<Rightarrow> f32 list \<Rightarrow>
     (tensor_view result list \<times> f32 list) option" where
  "append_all mapping destination parameter_count [] written = Some ([], written)"
| "append_all mapping destination parameter_count (t # ts) written =
     (case append_tensor mapping destination parameter_count t written of
        None \<Rightarrow> None
      | Some (r, written') \<Rightarrow>
          (case append_all mapping destination parameter_count ts written' of
             None \<Rightarrow> None
           | Some (rs, written'') \<Rightarrow> Some (r # rs, written'')))"

definition layer_of_views :: "tensor_view list \<Rightarrow> layer_weights" where
  "layer_of_views views =
     \<lparr>lw_input_norm = views ! 0,
      lw_attention = \<lparr>aw_query = views ! 1, aw_key = views ! 2, aw_value = views ! 3,
        aw_output = views ! 4\<rparr>,
      lw_post_attention_norm = views ! 5,
      lw_mlp = \<lparr>mw_gate = views ! 6, mw_up = views ! 7, mw_down = views ! 8\<rparr>\<rparr>"

fun materialize_layers ::
  "mapped_file \<Rightarrow> u64 \<Rightarrow> u64 \<Rightarrow> layer_weights list \<Rightarrow> f32 list \<Rightarrow>
     (layer_weights list result \<times> f32 list) option" where
  "materialize_layers mapping destination parameter_count [] written = Some (Inr [], written)"
| "materialize_layers mapping destination parameter_count (l # ls) written =
     (case append_all mapping destination parameter_count (layer_views l) written of
        None \<Rightarrow> None
      | Some (results, written') \<Rightarrow>
          if \<not> list_all has_value results then Some (fail Invalid_tensor, written')
          else
            (case materialize_layers mapping destination parameter_count ls written' of
               None \<Rightarrow> None
             | Some (Inl e, written'') \<Rightarrow> Some (Inl e, written'')
             | Some (Inr layers, written'') \<Rightarrow>
                 Some (Inr (layer_of_views (map projr results) # layers), written'')))"

section \<open>The whole model\<close>

record materialized_weights =
  mt_storage :: host_buffer
  mt_values :: "f32 list"
  mt_embedding :: tensor_view
  mt_final_norm :: tensor_view
  mt_output_head :: tensor_view
  mt_layers :: "layer_weights list"

text \<open>What \<open>HostBuffer::allocate\<close> returns when \<open>operator new\<close> returns \<open>block\<close>.\<close>

definition allocate_aligned :: "u64 \<Rightarrow> u64 \<Rightarrow> host_buffer result" where
  "allocate_aligned block bytes = fst (host_allocate block bytes 64 (\<lambda>_. None))"

definition materialize_smollm2 ::
  "u64 \<Rightarrow> loaded_weights \<Rightarrow> model_spec \<Rightarrow> materialized_weights result option" where
  "materialize_smollm2 block source spec =
     (if \<not> ld_output_head_aliases_embedding source \<or>
         length (ld_layers source) \<noteq> unat (ms_layers spec)
      then Some (fail Invalid_model)
      else
        (case estimate_parameter_count spec of
           Inl e \<Rightarrow> Some (Inl e)
         | Inr parameter_count \<Rightarrow>
        (case checked_multiply parameter_count 4 of
           Inl e \<Rightarrow> Some (Inl e)
         | Inr storage_bytes \<Rightarrow>
        (case allocate_aligned block storage_bytes of
           Inl e \<Rightarrow> Some (Inl e)
         | Inr storage \<Rightarrow>
             let mapping = sf_mapping (ld_file source);
                 destination = hb_data storage
             in (case append_tensor mapping destination parameter_count (ld_embedding source) [] of
                   None \<Rightarrow> None
                 | Some (Inl e, _) \<Rightarrow> Some (Inl e)
                 | Some (Inr embedding, written) \<Rightarrow>
                (case materialize_layers mapping destination parameter_count (ld_layers source)
                        written of
                   None \<Rightarrow> None
                 | Some (Inl e, _) \<Rightarrow> Some (Inl e)
                 | Some (Inr layers, written') \<Rightarrow>
                (case append_tensor mapping destination parameter_count (ld_final_norm source)
                        written' of
                   None \<Rightarrow> None
                 | Some (Inl _, _) \<Rightarrow> Some (fail Invalid_tensor)
                 | Some (Inr final_norm, written'') \<Rightarrow>
                     if of_nat (length written'') \<noteq> parameter_count then Some (fail Invalid_tensor)
                     else Some (Inr \<lparr>mt_storage = storage, mt_values = written'',
                       mt_embedding = embedding, mt_final_norm = final_norm,
                       mt_output_head = embedding, mt_layers = layers\<rparr>))))))))"

end
