(* ===== verification/LoadedWeightsProps.thy ===== *)
theory LoadedWeightsProps
  imports LoadedWeights
begin

text \<open>
  The checkpoint that \<open>bind\<close> accepts, and the tensor every field of the result is bound to.
\<close>

section \<open>Names\<close>

lemma digit_byte: "d < 10 \<Longrightarrow> unat (c_0 + of_nat d :: u8) = 48 + d"
  by (subst unat_plus_simple [THEN iffD1]) (simp_all add: no_olen_add_nat unat_of_nat)

lemma is_digit_byte: "d < 10 \<Longrightarrow> is_digit (c_0 + of_nat d)"
  by (simp add: is_digit_def word_le_nat_alt digit_byte)

lemma decimal_text_digits: "list_all is_digit (decimal_text n)"
  by (induction n rule: decimal_text.induct, subst decimal_text.simps) (simp add: is_digit_byte)

lemma decimal_append:
  "list_all is_digit xs \<Longrightarrow> d < 10 \<Longrightarrow>
     decimal (xs @ [c_0 + of_nat d]) acc = map_option (\<lambda>n. n * 10 + d) (decimal xs acc)"
  by (induction xs arbitrary: acc)
    (auto simp: is_digit_def word_le_nat_alt digit_byte unat_of_nat)

lemma decimal_text_round_trip: "decimal (decimal_text n) 0 = Some n"
proof (induction n rule: decimal_text.induct)
  case (1 n)
  show ?case
  proof (cases "n < 10")
    case True
    then show ?thesis
      using decimal_append [of "[]" n 0] by (subst decimal_text.simps) simp
  next
    case False
    then show ?thesis
      using 1 decimal_text_digits by (subst decimal_text.simps) (simp add: decimal_append)
  qed
qed

lemma layer_prefix_inject:
  assumes "layer_prefix a @ xs = layer_prefix b @ ys"
  shows "a = b \<and> xs = ys"
proof -
  have stop: "takeWhile is_digit (decimal_text n @ ascii_text ''.'' @ zs) = decimal_text n" for n zs
    using decimal_text_digits [of n]
    by (simp add: takeWhile_append list_all_iff ascii_text_def is_digit_def)
  have eq: "decimal_text (unat a) @ ascii_text ''.'' @ xs = decimal_text (unat b) @ ascii_text ''.'' @ ys"
    using assms by (simp add: layer_prefix_def)
  then have "decimal_text (unat a) = decimal_text (unat b)" by (metis stop)
  then show ?thesis
    using eq decimal_text_round_trip unat_inject by (metis append_same_eq option.inject same_append_eq)
qed

section \<open>The plan of a checkpoint\<close>

text \<open>The name and the extents of every tensor of the architecture, in the order of use.\<close>

definition layer_plan :: "model_spec \<Rightarrow> nat \<Rightarrow> (bytes \<times> nat list) list" where
  "layer_plan spec layer =
     (let h = unat (ms_hidden_size spec); i = unat (ms_intermediate_size spec);
          kv = unat (ms_kv_heads spec) * unat (ms_head_dim spec);
          named = (\<lambda>s. layer_prefix (of_nat layer) @ ascii_text s)
      in [(named ''input_layernorm.weight'', [h]),
          (named ''self_attn.q_proj.weight'', [h, h]),
          (named ''self_attn.k_proj.weight'', [kv, h]),
          (named ''self_attn.v_proj.weight'', [kv, h]),
          (named ''self_attn.o_proj.weight'', [h, h]),
          (named ''post_attention_layernorm.weight'', [h]),
          (named ''mlp.gate_proj.weight'', [i, h]),
          (named ''mlp.up_proj.weight'', [i, h]),
          (named ''mlp.down_proj.weight'', [h, i])])"

definition tensor_plan :: "model_spec \<Rightarrow> (bytes \<times> nat list) list" where
  "tensor_plan spec =
     (let h = unat (ms_hidden_size spec); v = unat (ms_vocabulary_size spec)
      in (ascii_text ''model.embed_tokens.weight'', [v, h]) #
         concat (map (layer_plan spec) [0..<unat (ms_layers spec)]) @
         [(ascii_text ''model.norm.weight'', [h])])"

lemma length_layer_plan [simp]: "length (layer_plan spec l) = 9"
  by (simp add: layer_plan_def Let_def)

lemma layer_plan_name:
  "name \<in> fst ` set (layer_plan spec l) \<Longrightarrow> \<exists>s. name = layer_prefix (of_nat l) @ ascii_text s"
  by (auto simp: layer_plan_def Let_def)

lemma distinct_layer_plan: "distinct (map fst (layer_plan spec l))"
  by (simp add: layer_plan_def Let_def ascii_text_def)

lemma layer_prefix_head: "\<exists>t. layer_prefix l @ xs = ascii_text ''model.l'' @ t"
  by (simp add: layer_prefix_def ascii_text_def)

lemma layer_plans_disjoint:
  assumes "of_nat l \<noteq> (of_nat k :: u32)"
  shows "fst ` set (layer_plan spec l) \<inter> fst ` set (layer_plan spec k) = {}"
proof (rule Int_emptyI)
  fix name
  assume "name \<in> fst ` set (layer_plan spec l)" "name \<in> fst ` set (layer_plan spec k)"
  then obtain s t where "layer_prefix (of_nat l) @ ascii_text s = layer_prefix (of_nat k) @ ascii_text t"
    using layer_plan_name by metis
  then show False using layer_prefix_inject assms by metis
qed

lemma distinct_plan: "distinct (map fst (tensor_plan spec))"
  "ascii_text ''lm_head.weight'' \<notin> fst ` set (tensor_plan spec)"
proof -
  let ?n = "unat (ms_layers spec)"
  have literals: "ascii_text ''model.embed_tokens.weight'' \<noteq> ascii_text ''model.norm.weight''"
    "ascii_text ''lm_head.weight'' \<noteq> ascii_text ''model.embed_tokens.weight''"
    "ascii_text ''lm_head.weight'' \<noteq> ascii_text ''model.norm.weight''"
    by (simp_all add: ascii_text_def)
  have small: "of_nat a \<noteq> (of_nat b :: u32)" if "a < ?n" "b < ?n" "a \<noteq> b" for a b
    using that unat_u32_lt [of "ms_layers spec"] unat_u32_of_nat [of a] unat_u32_of_nat [of b]
    by (metis order_less_trans)
  have distinct_names: "distinct (concat (map (\<lambda>l. map fst (layer_plan spec l)) ls))"
    if "distinct ls" "set ls \<subseteq> {0..<?n}" for ls
    using that
  proof (induction ls)
    case (Cons l ls)
    have "fst ` set (layer_plan spec l) \<inter> fst ` set (layer_plan spec k) = {}" if "k \<in> set ls" for k
      using that Cons.prems by (intro layer_plans_disjoint small) auto
    then show ?case using Cons distinct_layer_plan by auto
  qed simp
  have "fst ` set (concat (map (layer_plan spec) ls)) \<inter>
      {ascii_text ''model.embed_tokens.weight'', ascii_text ''model.norm.weight'',
       ascii_text ''lm_head.weight''} = {}" for ls
  proof -
    define starts where "starts name \<longleftrightarrow> (\<exists>t. name = ascii_text ''model.l'' @ t)" for name
    have "starts name" if "name \<in> fst ` set (concat (map (layer_plan spec) ls))" for name
    proof -
      from that obtain l where "name \<in> fst ` set (layer_plan spec l)" by auto
      then show ?thesis unfolding starts_def using layer_plan_name layer_prefix_head by metis
    qed
    note inside = this
    have outside: "\<not> starts (ascii_text ''model.embed_tokens.weight'')"
      "\<not> starts (ascii_text ''model.norm.weight'')" "\<not> starts (ascii_text ''lm_head.weight'')"
      by (simp_all add: starts_def ascii_text_def)
    show ?thesis
    proof (rule Int_emptyI)
      fix name
      assume "name \<in> fst ` set (concat (map (layer_plan spec) ls))"
      then have "starts name" by (rule inside)
      moreover assume "name \<in> {ascii_text ''model.embed_tokens.weight'',
        ascii_text ''model.norm.weight'', ascii_text ''lm_head.weight''}"
      ultimately show False using outside by (elim insertE emptyE) simp_all
    qed
  qed
  note apart = this
  define names where "names = concat (map (\<lambda>l. map fst (layer_plan spec l)) [0..<?n])"
  have all: "map fst (tensor_plan spec) =
      ascii_text ''model.embed_tokens.weight'' # names @ [ascii_text ''model.norm.weight'']"
    by (simp add: tensor_plan_def Let_def map_concat comp_def names_def)
  have "distinct names" unfolding names_def by (rule distinct_names) simp_all
  moreover have "set names \<inter> {ascii_text ''model.embed_tokens.weight'', ascii_text ''model.norm.weight'',
       ascii_text ''lm_head.weight''} = {}"
    using apart [of "[0..<?n]"] by (simp only: names_def set_concat set_map image_UN image_image image_Union)
  ultimately show "distinct (map fst (tensor_plan spec))" unfolding all using literals by auto
  have "ascii_text ''lm_head.weight'' \<notin> set (map fst (tensor_plan spec))"
    unfolding all using literals \<open>set names \<inter> _ = {}\<close> by auto
  then show "ascii_text ''lm_head.weight'' \<notin> fst ` set (tensor_plan spec)" by simp
qed

section \<open>Expected tensors\<close>

lemma dims_inject: "well_shaped s \<Longrightarrow> well_shaped t \<Longrightarrow> dims s = dims t \<Longrightarrow> s = t"
proof -
  assume s: "well_shaped s" and t: "well_shaped t" and eq: "dims s = dims t"
  have len: "length (dims x) = unat (sh_rank x)" if "well_shaped x" for x
    using that by (simp add: dims_def well_shaped_def)
  have rank: "sh_rank s = sh_rank t" using len [OF s] len [OF t] eq by (simp flip: unat_inject)
  have "sh_extents s ! k = sh_extents t ! k" if "k < max_rank" for k
  proof (cases "k < unat (sh_rank s)")
    case True
    then have "dims s ! k = unat (sh_extents s ! k)" "dims t ! k = unat (sh_extents t ! k)"
      using s t rank that by (simp_all add: dims_def well_shaped_def)
    then show ?thesis using eq by (simp add: unat_inject)
  next
    case False
    then show ?thesis using s t rank that by (simp add: well_shaped_def)
  qed
  then have "sh_extents s = sh_extents t"
    using s t by (intro nth_equalityI) (simp_all add: well_shaped_def)
  with rank show "s = t" by simp
qed

definition planned :: "expected_tensor \<Rightarrow> bytes \<times> nat list" where
  "planned e = (et_name e, dims (et_shape e))"

lemma make_shape_short:
  "length es \<le> max_rank \<Longrightarrow> \<exists>s. make_shape es = Inr s \<and> well_shaped s \<and> dims s = map unat es"
  using make_shape_total make_shape_Inr by metis

lemma expected_tensors_plan:
  "\<exists>es. smollm2_expected_tensors spec = Inr es \<and> map planned es = tensor_plan spec \<and>
     (\<forall>e \<in> set es. well_shaped (et_shape e))"
proof -
  let ?h = "ucast (ms_hidden_size spec) :: u64" and ?i = "ucast (ms_intermediate_size spec) :: u64"
  let ?v = "ucast (ms_vocabulary_size spec) :: u64"
  let ?kv = "ucast (ms_kv_heads spec) * ucast (ms_head_dim spec) :: u64"
  have kv: "unat ?kv = unat (ms_kv_heads spec) * unat (ms_head_dim spec)"
    using product_u32 [of "ms_kv_heads spec" "ms_head_dim spec"] by (subst unat_u64_times) simp_all
  obtain e n q k g d where s:
    "make_shape [?v, ?h] = Inr e" "make_shape [?h] = Inr n" "make_shape [?h, ?h] = Inr q"
    "make_shape [?kv, ?h] = Inr k" "make_shape [?i, ?h] = Inr g" "make_shape [?h, ?i] = Inr d"
    and w: "well_shaped e" "well_shaped n" "well_shaped q" "well_shaped k" "well_shaped g" "well_shaped d"
    and ds: "dims e = map unat [?v, ?h]" "dims n = map unat [?h]" "dims q = map unat [?h, ?h]"
    "dims k = map unat [?kv, ?h]" "dims g = map unat [?i, ?h]" "dims d = map unat [?h, ?i]"
    using make_shape_short [of "[?v, ?h]"] make_shape_short [of "[?h]"] make_shape_short [of "[?h, ?h]"]
      make_shape_short [of "[?kv, ?h]"] make_shape_short [of "[?i, ?h]"] make_shape_short [of "[?h, ?i]"]
    by (auto simp: max_rank_def)
  have layer: "map planned (expected_layer n q k g d (of_nat l)) = layer_plan spec l" for l
    by (simp add: expected_layer_def layer_plan_def planned_def expect_def ds kv Let_def)
  have shapes: "\<forall>e \<in> set (expected_layer n q k g d l). well_shaped (et_shape e)" for l
    by (simp add: expected_layer_def expect_def w Let_def)
  show ?thesis
    using shapes w
    by (auto simp: smollm2_expected_tensors_def s tensor_plan_def Let_def map_concat comp_def layer
        planned_def expect_def ds)
qed

section \<open>The loops\<close>

lemma check_names_ok: "status_ok (check_names allowed k rs) \<longleftrightarrow> tr_name ` set rs \<subseteq> allowed"
  by (induction rs arbitrary: k) auto

text \<open>A record of that name with those extents, of type bf16.\<close>

definition has_tensor :: "safe_tensor_file \<Rightarrow> bytes \<times> nat list \<Rightarrow> bool" where
  "has_tensor file = (\<lambda>(name, ds).
     \<exists>r \<in> set (st_records (sf_metadata file)).
       tr_name r = name \<and> dims (tr_shape r) = ds \<and> tr_dtype r = Bf16)"

definition file_ok :: "safe_tensor_file \<Rightarrow> bool" where
  "file_ok file \<longleftrightarrow> distinct (map tr_name (st_records (sf_metadata file))) \<and>
     (\<forall>r \<in> set (st_records (sf_metadata file)). well_shaped (tr_shape r) \<and>
        (\<exists>v. safe_tensor_view file (tr_name r) = Inr v \<and>
           tv_shape v = tr_shape r \<and> tv_dtype v = tr_dtype r \<and> tv_memory v = Host))"

lemma file_ok_record:
  "file_ok file \<Longrightarrow> safe_tensor_record file name = Some r \<longleftrightarrow>
     r \<in> set (st_records (sf_metadata file)) \<and> tr_name r = name"
  by (simp add: file_ok_def safe_tensor_record_def find_distinct_key)

lemma record_present:
  "file_ok file \<Longrightarrow> name \<in> tr_name ` set (st_records (sf_metadata file)) \<longleftrightarrow>
     (\<exists>r. safe_tensor_record file name = Some r)"
  by (auto simp: file_ok_record)

lemma has_tensor_record:
  assumes "file_ok file" "well_shaped s"
  shows "has_tensor file (name, dims s) \<longleftrightarrow>
    (\<exists>r. safe_tensor_record file name = Some r \<and> tr_shape r = s \<and> tr_dtype r = Bf16)"
  using assms dims_inject
  by (auto simp: has_tensor_def file_ok_record [OF assms(1)] file_ok_def)

lemma require_tensor_Inr:
  assumes "file_ok file" "well_shaped (et_shape e)"
  shows "require_tensor file e d = Inr v \<longleftrightarrow>
    has_tensor file (planned e) \<and> safe_tensor_view file (et_name e) = Inr v"
  unfolding require_tensor_def planned_def has_tensor_record [OF assms]
  by (auto split: option.splits)

lemma require_tensors_Cons:
  "require_tensors file k (e # es) = Inr vs \<longleftrightarrow>
     (\<exists>v vs'. require_tensor file e (of_nat (k + 1)) = Inr v \<and>
        require_tensors file (k + 1) es = Inr vs' \<and> vs = v # vs')"
  by (auto split: sum.splits)

lemma require_tensors_Inr:
  assumes "file_ok file" "\<forall>e \<in> set es. well_shaped (et_shape e)"
  shows "require_tensors file k es = Inr vs \<longleftrightarrow>
    list_all2 (\<lambda>e v. has_tensor file (planned e) \<and> safe_tensor_view file (et_name e) = Inr v) es vs"
  using assms(2)
proof (induction es arbitrary: k vs)
  case (Cons e es)
  then show ?case
    unfolding require_tensors_Cons list_all2_Cons1 by (auto simp: require_tensor_Inr [OF assms(1)])
qed auto

lemma has_tensor_view: "file_ok file \<Longrightarrow> has_tensor file (planned e) \<Longrightarrow>
    \<exists>v. safe_tensor_view file (et_name e) = Inr v"
  by (auto simp: has_tensor_def planned_def file_ok_def)

lemma require_tensors_total:
  assumes "file_ok file" "\<forall>e \<in> set es. well_shaped (et_shape e)"
  shows "(\<exists>vs. require_tensors file k es = Inr vs) \<longleftrightarrow> (\<forall>p \<in> set (map planned es). has_tensor file p)"
  unfolding require_tensors_Inr [OF assms]
proof
  show "\<exists>vs. list_all2 (\<lambda>e v. has_tensor file (planned e) \<and> safe_tensor_view file (et_name e) = Inr v) es vs"
    if "\<forall>p \<in> set (map planned es). has_tensor file p"
    using that
  proof (induction es)
    case (Cons e es)
    then obtain vs where
      "list_all2 (\<lambda>e v. has_tensor file (planned e) \<and> safe_tensor_view file (et_name e) = Inr v) es vs"
      by auto
    moreover obtain v where "safe_tensor_view file (et_name e) = Inr v"
      using has_tensor_view [OF assms(1), of e] Cons.prems by auto
    ultimately show ?case using Cons.prems by (intro exI [of _ "v # vs"]) simp
  qed auto
qed (auto simp: list_all2_conv_all_nth in_set_conv_nth)

lemma bind_layers_views:
  "bind_layers views n c = (ls, c') \<Longrightarrow> c + 9 * n \<le> length views \<Longrightarrow>
     c' = c + 9 * n \<and> length ls = n \<and>
     concat (map layer_views ls) = take (9 * n) (drop c views)"
proof (induction n arbitrary: c ls)
  case (Suc n)
  obtain rest where rest: "bind_layers views n (c + 9) = (rest, c')"
    using Suc.prems(1) by (auto simp: Let_def split: prod.splits)
  define l where "l = hd ls"
  have ls: "ls = l # rest"
    and l: "layer_views l = map ((!) views) [c, c + 1, c + 2, c + 3, c + 4, c + 5, c + 6, c + 7, c + 8]"
    using Suc.prems(1) rest by (auto simp: l_def Let_def layer_views_def)
  have "layer_views l = take 9 (drop c views)"
    using Suc.prems(2) unfolding l by (intro nth_equalityI) (auto simp: less_Suc_eq eval_nat_numeral)
  then show ?case
    using Suc.IH [OF rest] Suc.prems(2) ls
    by (simp add: take_add add.commute [of c 9] flip: drop_drop)
qed simp

section \<open>The result\<close>

lemma parsed_file_ok:
  assumes "safe_tensor_parse mapping limit = Inr file"
    "unat (map_address mapping) + length (map_bytes mapping) < 2 ^ 64"
  shows "file_ok file"
proof -
  from assms(1) have m: "parse_safetensors_metadata (map_bytes mapping) limit = Inr (sf_metadata file)"
    by (auto simp: safe_tensor_parse_def split: sum.splits)
  have "length (map_bytes mapping) < 2 ^ 64" using assms(2) by simp
  from parse_metadata_Inr [OF m this] obtain data_size where
    ok: "list_all (record_ok data_size) (st_records (sf_metadata file))"
    and d: "distinct (map tr_name (st_records (sf_metadata file)))"
    by metis
  have "\<exists>v. safe_tensor_view file (tr_name r) = Inr v \<and>
      tv_shape v = tr_shape r \<and> tv_dtype v = tr_dtype r \<and> tv_memory v = Host"
    if "r \<in> set (st_records (sf_metadata file))" for r
  proof -
    have "safe_tensor_record file (tr_name r) = Some r"
      using d that by (simp add: safe_tensor_record_def find_distinct_key)
    from safe_tensor_view_found [OF assms this] show ?thesis by metis
  qed
  with ok d show ?thesis by (auto simp: file_ok_def list_all_iff record_ok_def)
qed

abbreviation head_name :: bytes where
  "head_name \<equiv> ascii_text ''lm_head.weight''"

text \<open>The checkpoints that can be bound.\<close>

definition bindable :: "safe_tensor_file \<Rightarrow> model_spec \<Rightarrow> bool" where
  "bindable file spec \<longleftrightarrow>
     ms_architecture spec = Smollm2_llama \<and> \<not> ms_qkv_bias spec \<and> ms_tied_embeddings spec \<and>
     status_ok (validate_model spec) \<and>
     (\<forall>p \<in> set (tensor_plan spec). has_tensor file p) \<and>
     tr_name ` set (st_records (sf_metadata file)) \<subseteq> insert head_name (fst ` set (tensor_plan spec)) \<and>
     (head_name \<in> tr_name ` set (st_records (sf_metadata file)) \<longrightarrow>
        has_tensor file (head_name, [unat (ms_vocabulary_size spec), unat (ms_hidden_size spec)]))"

text \<open>What the fields of the result are bound to.\<close>

definition all_views :: "loaded_weights \<Rightarrow> tensor_view list" where
  "all_views w =
     ld_embedding w # concat (map layer_views (ld_layers w)) @ [ld_final_norm w]"

definition bound :: "safe_tensor_file \<Rightarrow> model_spec \<Rightarrow> loaded_weights \<Rightarrow> bool" where
  "bound file spec w \<longleftrightarrow>
     ld_file w = file \<and> length (ld_layers w) = unat (ms_layers spec) \<and>
     list_all2 (\<lambda>p v. safe_tensor_view file (fst p) = Inr v \<and> dims (tv_shape v) = snd p \<and>
        tv_dtype v = Bf16 \<and> tv_memory v = Host) (tensor_plan spec) (all_views w) \<and>
     (if head_name \<in> tr_name ` set (st_records (sf_metadata file))
      then \<not> ld_output_head_aliases_embedding w \<and>
        safe_tensor_view file head_name = Inr (ld_output_head w)
      else ld_output_head_aliases_embedding w \<and> ld_output_head w = ld_embedding w)"

lemma output_head_cases:
  assumes "file_ok file"
  shows "bind_output_head file spec n e \<noteq> None"
    "(\<exists>x. bind_output_head file spec n e = Some (Inr x)) \<longleftrightarrow>
      (head_name \<in> tr_name ` set (st_records (sf_metadata file)) \<longrightarrow>
        has_tensor file (head_name, [unat (ms_vocabulary_size spec), unat (ms_hidden_size spec)]))"
    "bind_output_head file spec n e = Some (Inr (v, aliases)) \<Longrightarrow>
      (if head_name \<in> tr_name ` set (st_records (sf_metadata file))
       then \<not> aliases \<and> safe_tensor_view file head_name = Inr v
       else aliases \<and> v = e)"
proof -
  obtain s where s: "make_shape [ucast (ms_vocabulary_size spec), ucast (ms_hidden_size spec)] = Inr s"
    "well_shaped s" "dims s = [unat (ms_vocabulary_size spec), unat (ms_hidden_size spec)]"
    using make_shape_short [of "[ucast (ms_vocabulary_size spec), ucast (ms_hidden_size spec)]"]
    by (auto simp: max_rank_def)
  have view: "\<exists>v. safe_tensor_view file (tr_name r) = Inr v"
    if "r \<in> set (st_records (sf_metadata file))" for r
    using assms that by (auto simp: file_ok_def)
  note eq = has_tensor_record [OF assms s(2), unfolded s(3)]
  have present: "head_name \<in> tr_name ` set (st_records (sf_metadata file)) \<longleftrightarrow>
      (\<exists>r. safe_tensor_record file head_name = Some r)"
    by (rule record_present [OF assms])
  have found: "\<exists>v. safe_tensor_view file name = Inr v" if "safe_tensor_record file name = Some r" for r name
    using that view by (auto simp: file_ok_record [OF assms])
  show "bind_output_head file spec n e \<noteq> None"
    "(\<exists>x. bind_output_head file spec n e = Some (Inr x)) \<longleftrightarrow>
      (head_name \<in> tr_name ` set (st_records (sf_metadata file)) \<longrightarrow>
        has_tensor file (head_name, [unat (ms_vocabulary_size spec), unat (ms_hidden_size spec)]))"
    "bind_output_head file spec n e = Some (Inr (v, aliases)) \<Longrightarrow>
      (if head_name \<in> tr_name ` set (st_records (sf_metadata file))
       then \<not> aliases \<and> safe_tensor_view file head_name = Inr v
       else aliases \<and> v = e)"
    unfolding bind_output_head_def present eq s(1)
    using found [of head_name] by (auto split: option.splits sum.splits if_splits)
qed

lemma views_of_plan:
  assumes "file_ok file" "\<forall>e \<in> set es. well_shaped (et_shape e)" "require_tensors file k es = Inr vs"
  shows "list_all2 (\<lambda>p v. safe_tensor_view file (fst p) = Inr v \<and> dims (tv_shape v) = snd p \<and>
    tv_dtype v = Bf16 \<and> tv_memory v = Host) (map planned es) vs"
proof -
  have "safe_tensor_view file (et_name e) = Inr v \<and> dims (tv_shape v) = dims (et_shape e) \<and>
      tv_dtype v = Bf16 \<and> tv_memory v = Host"
    if "has_tensor file (planned e)" "safe_tensor_view file (et_name e) = Inr v" for e v
    using that assms(1) by (auto simp: has_tensor_def planned_def file_ok_def)
  then show ?thesis
    using assms(3) unfolding require_tensors_Inr [OF assms(1,2)]
    by (auto simp: planned_def list_all2_map1 elim!: list_all2_mono)
qed

lemma length_plan: "length (tensor_plan spec) = 9 * unat (ms_layers spec) + 2"
  by (simp add: tensor_plan_def Let_def length_concat comp_def sum_list_triv)

lemma bound_views:
  assumes "bind_layers views n 1 = (layers, c)" "length views = 9 * n + 2"
  shows "length layers = n" "views ! 0 # concat (map layer_views layers) @ [views ! c] = views"
proof -
  note bl = bind_layers_views [OF assms(1)]
  show "length layers = n" using bl assms(2) by simp
  obtain v vs where v: "views = v # vs" "length vs = Suc (9 * n)" using assms(2) by (cases views) auto
  have "take (9 * n) vs @ [vs ! (9 * n)] = vs"
    using take_Suc_conv_app_nth [of "9 * n" vs] v(2) by simp
  then show "views ! 0 # concat (map layer_views layers) @ [views ! c] = views"
    using bl v by simp
qed

lemma weights_bind_cases:
  assumes "file_ok file"
  shows "weights_bind file spec \<noteq> None"
    "(\<exists>w. weights_bind file spec = Some (Inr w)) \<longleftrightarrow> bindable file spec"
    "weights_bind file spec = Some (Inr w) \<Longrightarrow> bound file spec w"
proof -
  obtain es where es: "smollm2_expected_tensors spec = Inr es" "map planned es = tensor_plan spec"
    "\<forall>e \<in> set es. well_shaped (et_shape e)"
    using expected_tensors_plan by blast
  have names: "set (map et_name es) = fst ` set (tensor_plan spec)"
    unfolding es(2) [symmetric] by (auto simp: planned_def image_iff)
  note head = output_head_cases [OF assms, of spec]
  note total = require_tensors_total [OF assms es(3), unfolded es(2)]
  have "\<exists>n e. bind_output_head file spec n e = None" if "weights_bind file spec = None"
    using that by (auto simp: weights_bind_def es(1) Let_def split: if_splits sum.splits option.splits prod.splits)
  then show "weights_bind file spec \<noteq> None" using head(1) by blast
  show "(\<exists>w. weights_bind file spec = Some (Inr w)) \<longleftrightarrow> bindable file spec"
  proof
    assume "bindable file spec"
    then obtain vs where vs: "require_tensors file 0 es = Inr vs"
      and ok: "ms_architecture spec = Smollm2_llama" "\<not> ms_qkv_bias spec" "ms_tied_embeddings spec"
        "status_ok (validate_model spec)"
        "status_ok (check_names (insert head_name (set (map et_name es))) 0 (st_records (sf_metadata file)))"
      unfolding names check_names_ok bindable_def using total [of 0] by blast
    obtain layers c where "bind_layers vs (unat (ms_layers spec)) 1 = (layers, c)" by fastforce
    moreover have "\<exists>x. bind_output_head file spec (length es) (vs ! 0) = Some (Inr x)"
      using \<open>bindable file spec\<close> head(2) by (simp add: bindable_def)
    ultimately show "\<exists>w. weights_bind file spec = Some (Inr w)"
      using ok by (auto simp: weights_bind_def es(1) vs Let_def)
  next
    assume "\<exists>w. weights_bind file spec = Some (Inr w)"
    then have ok: "ms_architecture spec = Smollm2_llama" "\<not> ms_qkv_bias spec" "ms_tied_embeddings spec"
        "status_ok (validate_model spec)"
        "status_ok (check_names (insert head_name (set (map et_name es))) 0 (st_records (sf_metadata file)))"
      and vs: "\<exists>vs. require_tensors file 0 es = Inr vs"
      and "head": "\<exists>n e x. bind_output_head file spec n e = Some (Inr x)"
      by (auto simp: weights_bind_def es(1) Let_def split: if_splits sum.splits option.splits prod.splits)
    from vs total have "\<forall>p \<in> set (tensor_plan spec). has_tensor file p" by blast
    moreover from "head" output_head_cases(2) [OF assms] have
      "head_name \<in> tr_name ` set (st_records (sf_metadata file)) \<longrightarrow>
        has_tensor file (head_name, [unat (ms_vocabulary_size spec), unat (ms_hidden_size spec)])" by blast
    ultimately show "bindable file spec"
      using ok unfolding bindable_def names check_names_ok by simp
  qed
  show "bound file spec w" if "weights_bind file spec = Some (Inr w)"
  proof -
    from that obtain vs layers c head aliases where
      vs: "require_tensors file 0 es = Inr vs" and layers: "bind_layers vs (unat (ms_layers spec)) 1 = (layers, c)"
      and "head": "bind_output_head file spec (length es) (vs ! 0) = Some (Inr (head, aliases))"
      and w: "w = \<lparr>ld_file = file, ld_embedding = vs ! 0, ld_final_norm = vs ! c, ld_output_head = head,
        ld_output_head_aliases_embedding = aliases, ld_layers = layers\<rparr>"
      by (auto simp: weights_bind_def es(1) Let_def split: if_splits sum.splits option.splits prod.splits)
    note views = views_of_plan [OF assms es(3) vs, unfolded es(2)]
    have "length vs = 9 * unat (ms_layers spec) + 2"
      using list_all2_lengthD [OF views] length_plan [of spec] by simp
    from bound_views [OF layers this] show ?thesis
      using views output_head_cases(3) [OF assms "head"] by (simp add: bound_def w all_views_def)
  qed
qed

text \<open>
  (C34) Binding is exact: a parsed checkpoint is bound exactly when the specification is a
  valid SmolLM2 one and the file has the tensors of the plan with their shapes in bf16 and
  no others but a well-shaped output head; every field of every layer is then the view of
  its own tensor, no two fields share one, and a lookup never fails on a name that was checked.
\<close>

theorem weights_bound_exactly:
  assumes "safe_tensor_parse mapping limit = Inr file"
    "unat (map_address mapping) + length (map_bytes mapping) < 2 ^ 64"
  shows "(case weights_bind file spec of
      None \<Rightarrow> False
    | Some (Inl e) \<Rightarrow> \<not> bindable file spec
    | Some (Inr w) \<Rightarrow> bindable file spec \<and> bound file spec w) \<and>
    distinct (head_name # map fst (tensor_plan spec)) \<and>
    length (tensor_plan spec) = 9 * unat (ms_layers spec) + 2"
proof -
  have "case weights_bind file spec of
      None \<Rightarrow> False
    | Some (Inl e) \<Rightarrow> \<not> bindable file spec
    | Some (Inr w) \<Rightarrow> bindable file spec \<and> bound file spec w"
    using weights_bind_cases [OF parsed_file_ok [OF assms], of spec]
    by (auto split: option.splits sum.splits)
  then show ?thesis using distinct_plan [of spec] length_plan [of spec] by simp
qed

end
