(* ===== verification/CpuWeightsProps.thy ===== *)
theory CpuWeightsProps
  imports CpuWeights LoadedWeightsProps
begin

text \<open>
  The float weights are the values of the bound tensors one after the other, they fill the
  buffer exactly, and nothing outside the mapping is read.
\<close>

section \<open>Tensors that can be read\<close>

definition values_of :: "mapped_file \<Rightarrow> tensor_view \<Rightarrow> f32 list" where
  "values_of m t = map (\<lambda>i. the (read_bf16 m (tv_data t + of_nat i * 2))) [0..<numel t]"

definition mapping_ok :: "mapped_file \<Rightarrow> bool" where
  "mapping_ok m \<longleftrightarrow> unat (map_address m) + length (map_bytes m) < 2 ^ 64"

definition readable :: "mapped_file \<Rightarrow> tensor_view \<Rightarrow> bool" where
  "readable m t \<longleftrightarrow> tv_dtype t = Bf16 \<and> tv_memory t = Host \<and> tv_data t \<noteq> 0 \<and>
     (\<exists>n. checked_numel (tv_shape t) = Inr n \<and> unat n = numel t) \<and>
     unat (map_address m) \<le> unat (tv_data t) \<and>
     unat (tv_data t) + 2 * numel t \<le> unat (map_address m) + length (map_bytes m)"

definition all_finite :: "f32 list \<Rightarrow> bool" where
  "all_finite vs \<longleftrightarrow> list_all f32_is_finite vs"

text \<open>The view of a tensor whose values start at position \<open>k\<close> of the buffer at \<open>d\<close>.\<close>

definition placed :: "u64 \<Rightarrow> nat \<Rightarrow> tensor_view \<Rightarrow> tensor_view" where
  "placed d k t = \<lparr>tv_data = d + 4 * of_nat k, tv_shape = tv_shape t, tv_dtype = F32, tv_memory = Host\<rparr>"

fun placed_all :: "u64 \<Rightarrow> nat \<Rightarrow> tensor_view list \<Rightarrow> tensor_view list" where
  "placed_all d k [] = []"
| "placed_all d k (t # ts) = placed d k t # placed_all d (k + numel t) ts"

definition total_numel :: "tensor_view list \<Rightarrow> nat" where
  "total_numel ts = sum_list (map numel ts)"

lemma total_numel_simps [simp]:
  "total_numel [] = 0" "total_numel (t # ts) = numel t + total_numel ts"
  "total_numel (ts @ us) = total_numel ts + total_numel us"
  by (simp_all add: total_numel_def)

lemma placed_all_append:
  "placed_all d k (ts @ us) = placed_all d k ts @ placed_all d (k + total_numel ts) us"
  by (induction ts arbitrary: k) (simp_all add: add.assoc)

lemma length_placed_all [simp]: "length (placed_all d k ts) = length ts"
  by (induction ts arbitrary: k) simp_all

lemma length_values_of [simp]: "length (values_of m t) = numel t"
  by (simp add: values_of_def)

lemma length_all_values [simp]: "length (concat (map (values_of m) ts)) = total_numel ts"
  by (induction ts) simp_all

lemma all_finite_append [simp]: "all_finite (xs @ ys) \<longleftrightarrow> all_finite xs \<and> all_finite ys" "all_finite []"
  by (simp_all add: all_finite_def)

lemma read_bf16_total:
  assumes "mapping_ok m" "unat (map_address m) \<le> unat a"
    "unat a + 2 \<le> unat (map_address m) + length (map_bytes m)"
  shows "\<exists>v. read_bf16 m a = Some v"
proof -
  have "unat (a + 1) = unat a + 1"
    using assms unat_u64_plus [of a 1] by (simp add: mapping_ok_def)
  moreover have "unat a - unat (map_address m) < length (map_bytes m)"
    "unat a + 1 - unat (map_address m) < length (map_bytes m)"
    using assms(2,3) by arith+
  ultimately show ?thesis using assms(2) by (simp add: read_bf16_def read_byte_def Let_def)
qed

lemma readable_values:
  assumes "mapping_ok m" "readable m t" "i < numel t"
  shows "\<exists>v. read_bf16 m (tv_data t + of_nat i * 2) = Some v"
proof -
  have small: "unat (tv_data t) + 2 * i + 2 \<le> unat (map_address m) + length (map_bytes m)"
    using assms(2,3) by (simp add: readable_def)
  have i: "unat (of_nat i * 2 :: u64) = 2 * i"
    using small assms(1) unat_u64_of_nat [of "2 * i"] by (simp add: mapping_ok_def mult.commute)
  have "unat (tv_data t + of_nat i * 2) = unat (tv_data t) + 2 * i"
    using small assms(1) unat_u64_plus [of "tv_data t" "of_nat i * 2"] by (simp add: i mapping_ok_def)
  then show ?thesis
    using read_bf16_total [OF assms(1), of "tv_data t + of_nat i * 2"] small assms(2)
    by (simp add: readable_def)
qed

section \<open>Copying\<close>

lemma copy_values_eq:
  assumes "\<And>j. j < n \<Longrightarrow> read_bf16 m (src + (index + of_nat j) * 2) = Some (f j)"
    "length written + n \<le> cap"
  shows "if all_finite (map f [0..<n])
    then copy_values m src cap n index written = Some (True, written @ map f [0..<n])
    else \<exists>w. copy_values m src cap n index written = Some (False, w) \<and> length w \<le> length written + n"
  using assms
proof (induction n arbitrary: index written f)
  case (Suc n)
  have upt: "map f [0..<Suc n] = f 0 # map (\<lambda>j. f (Suc j)) [0..<n]"
    by (simp add: map_upt_Suc del: upt_Suc)
  have "read_bf16 m (src + ((index + 1) + of_nat j) * 2) = Some (f (Suc j))" if "j < n" for j
    using Suc.prems(1) [of "Suc j"] that by (simp add: add.assoc)
  from Suc.IH [OF this, of "written @ [f 0]"] Suc.prems(2) Suc.prems(1) [of 0]
  show ?case unfolding upt by (auto simp: all_finite_def split: if_splits)
qed simp

lemma append_tensor_ok:
  assumes "mapping_ok m" "readable m t" "length written + numel t \<le> unat params"
  shows "if all_finite (values_of m t)
    then append_tensor m d params t written =
      Some (Inr (placed d (length written) t), written @ values_of m t)
    else \<exists>s w. append_tensor m d params t written = Some (Inl s, w) \<and> length w \<le> length written + numel t"
proof -
  obtain n where n: "checked_numel (tv_shape t) = Inr n" "unat n = numel t"
    using assms(2) by (auto simp: readable_def)
  have cursor: "unat (of_nat (length written) :: u64) = length written"
    using assms(3) unat_u64_lt [of params] by (intro unat_u64_of_nat) simp
  have guard: "\<not> (of_nat (length written) > params \<or> n > params - of_nat (length written))"
    using assms(3) n(2) cursor by (simp add: word_less_nat_alt unat_word_minus word_le_nat_alt not_less)
  have "read_bf16 m (tv_data t + (0 + of_nat j) * 2) = Some (the (read_bf16 m (tv_data t + of_nat j * 2)))"
    if "j < numel t" for j
    using readable_values [OF assms(1,2) that] by auto
  from copy_values_eq [OF this assms(3)]
  show ?thesis
    using assms(2) n guard
    by (auto simp: append_tensor_def readable_def Let_def placed_def simp flip: values_of_def split: if_splits)
qed

lemma append_all_ok:
  assumes "mapping_ok m" "\<forall>t \<in> set ts. readable m t" "length written + total_numel ts \<le> unat params"
  shows "if all_finite (concat (map (values_of m) ts))
    then append_all m d params ts written =
      Some (map Inr (placed_all d (length written) ts), written @ concat (map (values_of m) ts))
    else \<exists>rs w. append_all m d params ts written = Some (rs, w) \<and> \<not> list_all has_value rs \<and>
      length w \<le> length written + total_numel ts"
  using assms(2,3)
proof (induction ts arbitrary: written)
  case (Cons t ts)
  have t: "readable m t" "length written + numel t \<le> unat params" using Cons.prems by simp_all
  have bounded: "\<exists>rs w'. append_all m d params ts w = Some (rs, w') \<and> length w' \<le> length w + total_numel ts"
    if "length w \<le> length written + numel t" for w
    using Cons.IH [of w] Cons.prems that by (auto split: if_splits)
  show ?case
  proof (cases "all_finite (values_of m t)")
    case True
    then have "append_tensor m d params t written =
        Some (Inr (placed d (length written) t), written @ values_of m t)"
      using append_tensor_ok [OF assms(1) t, of d] by simp
    with True Cons.IH [of "written @ values_of m t"] Cons.prems show ?thesis
      by (auto simp: add.assoc split: if_splits)
  next
    case False
    then obtain s w where "append_tensor m d params t written = Some (Inl s, w)"
      "length w \<le> length written + numel t"
      using append_tensor_ok [OF assms(1) t, of d] by auto
    moreover from bounded [OF this(2)] obtain rs w' where
      "append_all m d params ts w = Some (rs, w')" "length w' \<le> length w + total_numel ts" by blast
    ultimately show ?thesis using False by auto
  qed
qed simp

lemma layer_of_views_views: "length vs = 9 \<Longrightarrow> layer_views (layer_of_views vs) = vs"
  by (auto simp: layer_of_views_def layer_views_def eval_nat_numeral length_Suc_conv)

lemma length_layer_views [simp]: "length (layer_views l) = 9"
  by (simp add: layer_views_def)

lemma materialize_layers_ok:
  assumes "mapping_ok m" "\<forall>t \<in> set (concat (map layer_views ls)). readable m t"
    "length written + total_numel (concat (map layer_views ls)) \<le> unat params"
  shows "if all_finite (concat (map (values_of m) (concat (map layer_views ls))))
    then \<exists>layers. materialize_layers m d params ls written =
        Some (Inr layers, written @ concat (map (values_of m) (concat (map layer_views ls)))) \<and>
      length layers = length ls \<and>
      concat (map layer_views layers) = placed_all d (length written) (concat (map layer_views ls))
    else \<exists>s w. materialize_layers m d params ls written = Some (Inl s, w)"
  using assms(2,3)
proof (induction ls arbitrary: written)
  case (Cons l ls)
  have l: "\<forall>t \<in> set (layer_views l). readable m t"
    "length written + total_numel (layer_views l) \<le> unat params"
    using Cons.prems by simp_all
  note first = append_all_ok [OF assms(1) l, of d]
  show ?case
  proof (cases "all_finite (concat (map (values_of m) (layer_views l)))")
    case True
    let ?w = "written @ concat (map (values_of m) (layer_views l))"
    have app: "append_all m d params (layer_views l) written =
        Some (map Inr (placed_all d (length written) (layer_views l)), ?w)"
      using first True by simp
    have views: "layer_views (layer_of_views (map projr (map Inr (placed_all d (length written) (layer_views l))))) =
        placed_all d (length written) (layer_views l)"
      by (simp add: layer_of_views_views comp_def)
    have "list_all has_value (map Inr (placed_all d (length written) (layer_views l)))"
      by (simp add: list_all_iff)
    with Cons.IH [of ?w] Cons.prems True app views show ?thesis
      by (fastforce simp: placed_all_append add.assoc split: if_splits)
  next
    case False
    then show ?thesis using first by auto
  qed
qed simp

section \<open>The number of values\<close>

definition plan_numel :: "(bytes \<times> nat list) list \<Rightarrow> nat" where
  "plan_numel ps = (\<Sum>p\<leftarrow>ps. prod_list (snd p))"

lemma plan_numel_model:
  assumes "model_shape_ok spec" "\<not> ms_qkv_bias spec" "ms_tied_embeddings spec"
  shows "plan_numel (tensor_plan spec) = model_parameters spec"
proof -
  have "plan_numel (layer_plan spec l) = layer_parameters spec" for l
    using assms(2)
    by (simp add: plan_numel_def layer_plan_def layer_parameters_def Let_def algebra_simps)
  then have "plan_numel (concat (map (layer_plan spec) ls)) = length ls * layer_parameters spec" for ls
    by (induction ls) (simp_all add: plan_numel_def)
  then show ?thesis
    using assms(3) by (simp add: tensor_plan_def plan_numel_def model_parameters_def Let_def)
qed

section \<open>Bound tensors\<close>

lemma parsed_mapping: "safe_tensor_parse mapping limit = Inr file \<Longrightarrow> sf_mapping file = mapping"
  by (auto simp: safe_tensor_parse_def split: sum.splits)

lemma bound_readable:
  assumes "safe_tensor_parse mapping limit = Inr file" "mapping_ok mapping"
    "safe_tensor_view file name = Inr v" "tv_dtype v = Bf16"
  shows "readable mapping v"
proof -
  obtain r where r: "safe_tensor_record file name = Some r"
    using assms(3) by (auto simp: safe_tensor_view_def split: option.splits)
  from assms(1) have m: "parse_safetensors_metadata (map_bytes mapping) limit = Inr (sf_metadata file)"
    by (auto simp: safe_tensor_parse_def split: sum.splits)
  have len: "length (map_bytes mapping) < 2 ^ 64" using assms(2) by (simp add: mapping_ok_def)
  have ok: "file_ok file" using parsed_file_ok assms(1,2) by (simp add: mapping_ok_def)
  then have shape: "well_shaped (tr_shape r)"
    using r file_ok_record [OF ok, of name r] by (auto simp: file_ok_def)
  have start: "8 \<le> unat (st_data_start (sf_metadata file))"
    using parse_metadata_Inr [OF m len] by metis
  from safe_tensor_view_found [OF assms(1) assms(2) [unfolded mapping_ok_def] r] obtain n where
    v: "tv_shape v = tr_shape r" "tr_dtype r = Bf16" "tv_memory v = Host"
    "unat (tv_data v) = unat (map_address mapping) +
       unat (st_data_start (sf_metadata file)) + unat (tr_begin r)"
    "checked_nbytes (tr_shape r) (tr_dtype r) = Inr n"
    "unat (tv_data v) + unat n \<le> unat (map_address mapping) + length (map_bytes mapping)"
    using assms(3,4) by (metis sum.inject(2))
  obtain k where k: "checked_numel (tr_shape r) = Inr k" "unat n = unat k * 2"
    using checked_nbytes_Inr [OF shape v(5)] v(2) by (auto simp: dtype_size_def)
  then have "unat k = numel v" using checked_numel_Inr [OF shape, of k] v(1) by (simp add: numel_def)
  then show ?thesis
    using v k start assms(4) by (auto simp: readable_def)
qed

lemma bound_views_readable:
  assumes "safe_tensor_parse mapping limit = Inr file" "mapping_ok mapping" "bound file spec w"
  shows "\<forall>t \<in> set (all_views w). readable mapping t"
    "total_numel (all_views w) = plan_numel (tensor_plan spec)"
proof -
  have views: "list_all2 (\<lambda>p v. safe_tensor_view file (fst p) = Inr v \<and> dims (tv_shape v) = snd p \<and>
      tv_dtype v = Bf16 \<and> tv_memory v = Host) (tensor_plan spec) (all_views w)"
    using assms(3) by (simp add: bound_def)
  show "\<forall>t \<in> set (all_views w). readable mapping t"
  proof
    fix t
    assume "t \<in> set (all_views w)"
    then obtain p where "safe_tensor_view file (fst p) = Inr t" "tv_dtype t = Bf16"
      using views by (auto simp: list_all2_conv_all_nth in_set_conv_nth)
    then show "readable mapping t" using bound_readable [OF assms(1,2)] by blast
  qed
  have "map numel vs = map (\<lambda>p. prod_list (snd p)) ps"
    if "list_all2 (\<lambda>p v. safe_tensor_view file (fst p) = Inr v \<and> dims (tv_shape v) = snd p \<and>
      tv_dtype v = Bf16 \<and> tv_memory v = Host) ps vs" for ps vs
    using that by (induction ps vs rule: list_all2_induct) (auto simp: numel_def)
  from this [OF views] show "total_numel (all_views w) = plan_numel (tensor_plan spec)"
    by (simp add: total_numel_def plan_numel_def)
qed

section \<open>The whole model\<close>

lemma allocate_aligned_ok:
  "bytes \<noteq> 0 \<Longrightarrow> allocate_aligned block bytes =
     (if block = 0 then fail Allocation_failed
      else Inr \<lparr>hb_data = block, hb_size = bytes, hb_alignment = 64\<rparr>)"
  by (simp add: allocate_aligned_def host_allocate_def is_power_of_two_def pointer_alignment_def)

lemma materialize_cases:
  assumes m_def: "m = sf_mapping (ld_file w)" and m: "mapping_ok m"
    and views: "\<forall>t \<in> set (all_views w). readable m t"
    and size: "total_numel (all_views w) = unat params" "unat params \<noteq> 0"
    and count: "estimate_parameter_count spec = Inr params"
    and layers: "length (ld_layers w) = unat (ms_layers spec)"
  shows "if ld_output_head_aliases_embedding w \<and> 4 * unat params < 2 ^ 64 \<and> block \<noteq> 0 \<and>
      all_finite (concat (map (values_of m) (all_views w)))
    then \<exists>r. materialize_smollm2 block w spec = Some (Inr r) \<and>
      mt_values r = concat (map (values_of m) (all_views w)) \<and>
      mt_embedding r # concat (map layer_views (mt_layers r)) @ [mt_final_norm r] =
        placed_all block 0 (all_views w) \<and>
      mt_output_head r = mt_embedding r \<and> length (mt_layers r) = length (ld_layers w) \<and>
      hb_data (mt_storage r) = block \<and> unat (hb_size (mt_storage r)) = 4 * unat params
    else \<exists>s. materialize_smollm2 block w spec = Some (Inl s)"
proof -
  let ?e = "ld_embedding w" and ?n = "ld_final_norm w" and ?ls = "ld_layers w"
  let ?ts = "concat (map layer_views ?ls)" and ?f = "values_of m"
  have all: "all_views w = ?e # ?ts @ [?n]" by (simp add: all_views_def)
  have room: "numel ?e + total_numel ?ts + numel ?n = unat params" using size(1) by (simp add: all)
  show ?thesis
  proof (cases "ld_output_head_aliases_embedding w \<and> 4 * unat params < 2 ^ 64 \<and> block \<noteq> 0")
    case False
    have "params * 4 \<noteq> 0" if "4 * unat params < 2 ^ 64"
      using that size(2) by (auto simp: unat_u64_times mult.commute simp flip: unat_inject)
    then have "\<exists>s. materialize_smollm2 block w spec = Some (Inl s)"
      using False layers count
      by (auto simp: materialize_smollm2_def allocate_aligned_ok not_less mult.commute split: sum.splits)
    then show ?thesis using False by auto
  next
    case True
    have bytes: "checked_multiply params 4 = Inr (params * 4)" "unat (params * 4) = 4 * unat params"
      using True by (simp_all add: mult.commute unat_u64_times)
    then have "params * 4 \<noteq> 0" using size(2) by (auto simp flip: unat_inject)
    from allocate_aligned_ok [OF this, of block] True
    have alloc: "allocate_aligned block (params * 4) =
        Inr \<lparr>hb_data = block, hb_size = params * 4, hb_alignment = 64\<rparr>" by simp
    note unfold = materialize_smollm2_def count bytes(1) alloc layers
    define whole where "whole = ?f ?e @ concat (map ?f ?ts) @ ?f ?n"
    have "length whole = unat params" using room by (simp add: whole_def)
    then have len: "of_nat (length whole) = params" by simp
    have embed: "if all_finite (?f ?e)
      then append_tensor m block params ?e [] = Some (Inr (placed block 0 ?e), ?f ?e)
      else \<exists>s x. append_tensor m block params ?e [] = Some (Inl s, x)"
      using append_tensor_ok [OF m, of ?e "[]" params block] views room by (auto simp: all split: if_splits)
    have middle: "if all_finite (concat (map ?f ?ts))
      then \<exists>ls. materialize_layers m block params ?ls (?f ?e) = Some (Inr ls, ?f ?e @ concat (map ?f ?ts)) \<and>
        length ls = length ?ls \<and> concat (map layer_views ls) = placed_all block (numel ?e) ?ts
      else \<exists>s x. materialize_layers m block params ?ls (?f ?e) = Some (Inl s, x)"
      using materialize_layers_ok [OF m, of ?ls "?f ?e" params block] views room by (simp add: all split: if_splits)
    have last: "if all_finite (?f ?n)
      then append_tensor m block params ?n (?f ?e @ concat (map ?f ?ts)) =
        Some (Inr (placed block (numel ?e + total_numel ?ts) ?n), whole)
      else \<exists>s x. append_tensor m block params ?n (?f ?e @ concat (map ?f ?ts)) = Some (Inl s, x)"
      using append_tensor_ok [OF m, of ?n "?f ?e @ concat (map ?f ?ts)" params block] views room
      by (auto simp: all whole_def split: if_splits)
    have finite: "all_finite (concat (map ?f (all_views w))) \<longleftrightarrow>
        all_finite (?f ?e) \<and> all_finite (concat (map ?f ?ts)) \<and> all_finite (?f ?n)"
      by (simp add: all)
    have whole: "concat (map ?f (all_views w)) = whole" by (simp add: all whole_def)
    have places: "placed_all block 0 (all_views w) = placed block 0 ?e # placed_all block (numel ?e) ?ts @
        [placed block (numel ?e + total_numel ?ts) ?n]"
      by (simp add: all placed_all_append)
    note run = materialize_smollm2_def count bytes(1) alloc layers m_def [symmetric] Let_def
    consider "\<not> all_finite (?f ?e)" | "all_finite (?f ?e)" "\<not> all_finite (concat (map ?f ?ts))"
      | "all_finite (?f ?e)" "all_finite (concat (map ?f ?ts))" "\<not> all_finite (?f ?n)"
      | "all_finite (?f ?e)" "all_finite (concat (map ?f ?ts))" "all_finite (?f ?n)" by blast
    then show ?thesis
    proof cases
      case 1
      with embed finite True show ?thesis by (auto simp: run)
    next
      case 2
      with embed middle finite True show ?thesis by (auto simp: run)
    next
      case 3
      with embed middle last finite True show ?thesis by (auto simp: run)
    next
      case 4
      with middle obtain ls where ls: "materialize_layers m block params ?ls (?f ?e) =
          Some (Inr ls, ?f ?e @ concat (map ?f ?ts))" "length ls = length ?ls"
        "concat (map layer_views ls) = placed_all block (numel ?e) ?ts" by auto
      have "all_finite whole" using 4 finite whole by simp
      with ls 4 embed last show ?thesis
        using True bytes(2) layers unfolding whole places by (auto simp: run len)
    qed
  qed
qed

definition materializable :: "mapped_file \<Rightarrow> u64 \<Rightarrow> loaded_weights \<Rightarrow> model_spec \<Rightarrow> bool" where
  "materializable mapping block w spec \<longleftrightarrow>
     ld_output_head_aliases_embedding w \<and> 4 * model_parameters spec < 2 ^ 64 \<and> block \<noteq> 0 \<and>
     all_finite (concat (map (values_of mapping) (all_views w)))"

text \<open>
  (C35) Materialization is exact: for a checkpoint that was parsed and bound, the copy never
  reads outside the mapping nor writes outside its buffer; it succeeds exactly when the
  output head is the embedding, the buffer can be allocated and every value is finite; the
  buffer then holds the values of the tensors in their order, filled to the last byte, and
  every view of the result is the place of its tensor in it.
\<close>

theorem materialize_exact:
  assumes "safe_tensor_parse mapping limit = Inr file"
    "unat (map_address mapping) + length (map_bytes mapping) < 2 ^ 64"
    "weights_bind file spec = Some (Inr w)"
  shows "case materialize_smollm2 block w spec of
      None \<Rightarrow> False
    | Some (Inl e) \<Rightarrow> \<not> materializable mapping block w spec
    | Some (Inr r) \<Rightarrow> materializable mapping block w spec \<and>
       mt_values r = concat (map (values_of mapping) (all_views w)) \<and>
       length (mt_values r) = model_parameters spec \<and>
       mt_embedding r # concat (map layer_views (mt_layers r)) @ [mt_final_norm r] =
         placed_all block 0 (all_views w) \<and>
       mt_output_head r = mt_embedding r \<and>
       hb_data (mt_storage r) = block \<and> unat (hb_size (mt_storage r)) = 4 * model_parameters spec"
proof -
  have m: "mapping_ok mapping" using assms(2) by (simp add: mapping_ok_def)
  note cases = weights_bind_cases [OF parsed_file_ok [OF assms(1,2)]]
  have bound: "bound file spec w" and ok: "bindable file spec"
    using cases(2) [of spec] cases(3) [OF assms(3)] assms(3) by blast+
  have same: "sf_mapping (ld_file w) = mapping"
    using bound parsed_mapping [OF assms(1)] by (simp add: bound_def)
  have valid: "status_ok (validate_model spec)" "\<not> ms_qkv_bias spec" "ms_tied_embeddings spec"
    using ok by (simp_all add: bindable_def)
  then have shape: "model_shape_ok spec" by (simp add: model_shape_validated)
  note fits = parameter_count_fits [OF shape]
  obtain params where params: "estimate_parameter_count spec = Inr params"
    using valid(1) unfolding validate_model_def fits by (auto simp: fits_def split: if_splits)
  then have count: "unat params = model_parameters spec" by (simp add: fits fits_Inr)
  have nonzero: "unat params \<noteq> 0"
    using shape unfolding count by (simp add: model_parameters_def model_shape_ok_def Let_def unat_gt_0)
  have size: "total_numel (all_views w) = unat params"
    using bound_views_readable(2) [OF assms(1) m bound] plan_numel_model [OF shape valid(2,3)] count by simp
  have layers: "length (ld_layers w) = unat (ms_layers spec)" using bound by (simp add: bound_def)
  note cases = materialize_cases [OF same [symmetric] m bound_views_readable(1) [OF assms(1) m bound]
      size nonzero params layers, of block]
  show ?thesis
    using cases size unfolding count materializable_def
    by (auto split: if_splits option.splits sum.splits)
qed

end
