(* ===== verification/WeightsDemo.thy ===== *)
theory WeightsDemo
  imports CpuWeightsProps
begin

text \<open>
  A checkpoint of a model with one layer and all dimensions one, parsed and bound, to which
  the theorems on weights are applied.
\<close>

definition tiny_spec :: model_spec where
  "tiny_spec = \<lparr>ms_architecture = Smollm2_llama, ms_layers = 1, ms_hidden_size = 1,
     ms_intermediate_size = 1, ms_query_heads = 1, ms_kv_heads = 1, ms_head_dim = 1,
     ms_vocabulary_size = 1, ms_max_positions = 1, ms_rms_norm_epsilon = 0x3727C5AC,
     ms_rope_theta = 0x47C35000, ms_qkv_bias = False, ms_tied_embeddings = True\<rparr>"

definition tiny_header :: bytes where
  \<open>tiny_header = ascii_text (
     ''{"model.embed_tokens.weight":{"dtype":"BF16","shape":[1,1],"data_offsets":[0,2]},'' @
     ''"model.layers.0.input_layernorm.weight":{"dtype":"BF16","shape":[1],"data_offsets":[2,4]},'' @
     ''"model.layers.0.self_attn.q_proj.weight":{"dtype":"BF16","shape":[1,1],"data_offsets":[4,6]},'' @
     ''"model.layers.0.self_attn.k_proj.weight":{"dtype":"BF16","shape":[1,1],"data_offsets":[6,8]},'' @
     ''"model.layers.0.self_attn.v_proj.weight":{"dtype":"BF16","shape":[1,1],"data_offsets":[8,10]},'' @
     ''"model.layers.0.self_attn.o_proj.weight":{"dtype":"BF16","shape":[1,1],"data_offsets":[10,12]},'' @
     ''"model.layers.0.post_attention_layernorm.weight":{"dtype":"BF16","shape":[1],"data_offsets":[12,14]},'' @
     ''"model.layers.0.mlp.gate_proj.weight":{"dtype":"BF16","shape":[1,1],"data_offsets":[14,16]},'' @
     ''"model.layers.0.mlp.up_proj.weight":{"dtype":"BF16","shape":[1,1],"data_offsets":[16,18]},'' @
     ''"model.layers.0.mlp.down_proj.weight":{"dtype":"BF16","shape":[1,1],"data_offsets":[18,20]},'' @
     ''"model.norm.weight":{"dtype":"BF16","shape":[1],"data_offsets":[20,22]}}'')\<close>

definition tiny_data :: bytes where
  "tiny_data = concat (replicate 11 [0x80, 0x3F])"

definition tiny_file :: bytes where
  "tiny_file = [0xE1, 0x03, 0, 0, 0, 0, 0, 0] @ tiny_header @ tiny_data"

definition tiny_tensors :: "(string \<times> bool) list" where
  "tiny_tensors =
     [(''model.embed_tokens.weight'', False),
      (''model.layers.0.input_layernorm.weight'', True),
      (''model.layers.0.self_attn.q_proj.weight'', False),
      (''model.layers.0.self_attn.k_proj.weight'', False),
      (''model.layers.0.self_attn.v_proj.weight'', False),
      (''model.layers.0.self_attn.o_proj.weight'', False),
      (''model.layers.0.post_attention_layernorm.weight'', True),
      (''model.layers.0.mlp.gate_proj.weight'', False),
      (''model.layers.0.mlp.up_proj.weight'', False),
      (''model.layers.0.mlp.down_proj.weight'', False),
      (''model.norm.weight'', True)]"

definition tiny_number :: "nat \<Rightarrow> json" where
  "tiny_number n = Json_number (decimal_text n)"

definition tiny_member :: "nat \<Rightarrow> string \<times> bool \<Rightarrow> bytes \<times> json" where
  "tiny_member k = (\<lambda>(name, vector). (ascii_text name, Json_object
     [(text_dtype, Json_string text_bf16),
      (text_shape, Json_array (if vector then [tiny_number 1] else [tiny_number 1, tiny_number 1])),
      (text_data_offsets, Json_array [tiny_number (2 * k), tiny_number (2 * k + 2)])]))"

definition tiny_members :: "(bytes \<times> json) list" where
  "tiny_members = map (\<lambda>k. tiny_member k (tiny_tensors ! k)) [0..<11]"

lemma tiny_json: "parse_json tiny_header = Inr (Json_object tiny_members)"
  unfolding tiny_header_def tiny_members_def tiny_tensors_def by code_simp

lemma tiny_number_value:
  "n < 2 ^ 64 \<Longrightarrow> parse_unsigned (tiny_number n) = Inr (of_nat n)"
proof -
  assume n: "n < 2 ^ 64"
  have ne: "decimal_text n \<noteq> []" by (subst decimal_text.simps) simp
  have digits: "is_digit d" if "d \<in> set (decimal_text n)" for d
    using decimal_text_digits [of n] that by (simp add: list_all_iff)
  have "c_dot \<notin> set (decimal_text n)" "c_e \<notin> set (decimal_text n)" "c_upper_e \<notin> set (decimal_text n)"
    "hd (decimal_text n) \<noteq> c_minus"
    using digits [of c_dot] digits [of c_e] digits [of c_upper_e] digits [OF hd_in_set [OF ne]]
    by (auto simp: is_digit_def)
  then show ?thesis
    using ne n by (simp add: tiny_number_def parse_unsigned_def from_chars_u64_def decimal_text_round_trip)
qed

definition tiny_shape :: "bool \<Rightarrow> shape" where
  "tiny_shape vector = (if vector then \<lparr>sh_extents = [1, 0, 0, 0, 0, 0], sh_rank = 1\<rparr>
     else \<lparr>sh_extents = [1, 1, 0, 0, 0, 0], sh_rank = 2\<rparr>)"

definition tiny_record :: "nat \<Rightarrow> string \<times> bool \<Rightarrow> tensor_record" where
  "tiny_record k = (\<lambda>(name, vector). \<lparr>tr_name = ascii_text name, tr_dtype = Bf16,
     tr_shape = tiny_shape vector, tr_begin = of_nat (2 * k), tr_end = of_nat (2 * k + 2)\<rparr>)"

definition tiny_metadata :: safe_tensor_metadata where
  "tiny_metadata = \<lparr>st_data_start = 1001,
     st_records = map (\<lambda>k. tiny_record k (tiny_tensors ! k)) [0..<11]\<rparr>"

lemma tiny_shapes: "make_shape (if v then [1] else [1, 1]) = Inr (tiny_shape v)"
  "checked_nbytes (tiny_shape v) Bf16 = Inr 2" "checked_numel (tiny_shape v) = Inr 1"
proof -
  have "make_shape [1] = Inr (tiny_shape True)" "make_shape [1, 1] = Inr (tiny_shape False)"
    "checked_nbytes (tiny_shape True) Bf16 = Inr 2" "checked_nbytes (tiny_shape False) Bf16 = Inr 2"
    "checked_numel (tiny_shape True) = Inr 1" "checked_numel (tiny_shape False) = Inr 1"
    by code_simp+
  then show "make_shape (if v then [1] else [1, 1]) = Inr (tiny_shape v)"
    "checked_nbytes (tiny_shape v) Bf16 = Inr 2" "checked_numel (tiny_shape v) = Inr 1"
    by (cases v; simp)+
qed

lemma tiny_record_parsed:
  assumes "name \<noteq> []" "parse_unsigned jb = Inr b" "parse_unsigned je = Inr e"
    "b \<le> e" "e \<le> 22" "e - b = 2"
  shows "parse_tensor_record name (Json_object
      [(text_dtype, Json_string text_bf16),
       (text_shape, Json_array (if v then [tiny_number 1] else [tiny_number 1, tiny_number 1])),
       (text_data_offsets, Json_array [jb, je])]) 22 =
    Inr \<lparr>tr_name = name, tr_dtype = Bf16, tr_shape = tiny_shape v, tr_begin = b, tr_end = e\<rparr>"
proof -
  obtain c cs where c: "name = c # cs" using assms(1) by (cases name) auto
  have extents: "parse_extents (if v then [tiny_number 1] else [tiny_number 1, tiny_number 1]) =
      Inr (if v then [1] else [1, 1])"
    by (simp add: tiny_number_value)
  have finish: "finish_record name 22 Bf16 (tiny_shape v) b e =
      Inr \<lparr>tr_name = name, tr_dtype = Bf16, tr_shape = tiny_shape v, tr_begin = b, tr_end = e\<rparr>"
    using assms(4-6) by (simp add: finish_record_def tiny_shapes not_less)
  show ?thesis
    using finish by (simp add: c parse_tensor_record_def json_find_def parse_dtype_def max_rank_def extents
        assms(2,3) tiny_shapes)
qed

lemma tiny_member_parsed:
  assumes "name \<noteq> []" "k < 11"
  shows "parse_tensor_record (ascii_text name) (snd (tiny_member k (name, v))) 22 =
    Inr (tiny_record k (name, v))"
proof -
  have ends: "unat (of_nat (2 * k) :: u64) = 2 * k" "unat (of_nat (2 * k + 2) :: u64) = 2 * k + 2"
    using assms(2) by (intro unat_u64_of_nat; simp)+
  show ?thesis
    unfolding tiny_member_def tiny_record_def prod.case snd_conv
  proof (rule tiny_record_parsed)
    show "ascii_text name \<noteq> []" using assms(1) by (simp add: ascii_text_def)
    show "parse_unsigned (tiny_number (2 * k)) = Inr (of_nat (2 * k))"
      "parse_unsigned (tiny_number (2 * k + 2)) = Inr (of_nat (2 * k + 2))"
      using assms(2) by (intro tiny_number_value; simp)+
    show "of_nat (2 * k) \<le> (of_nat (2 * k + 2) :: u64)" "of_nat (2 * k + 2) \<le> (22 :: u64)"
      using assms(2) unfolding word_le_nat_alt ends by simp_all
    show "of_nat (2 * k + 2) - of_nat (2 * k) = (2 :: u64)" by simp
  qed
qed

lemma tiny_records: "parse_records 22 tiny_members = Inr (st_records tiny_metadata)"
proof -
  have names: "ascii_text (fst (tiny_tensors ! k)) \<noteq> text_metadata" "fst (tiny_tensors ! k) \<noteq> ''''"
    if "k < 11" for k
    using that unfolding tiny_tensors_def
    by (auto simp: less_Suc_eq eval_nat_numeral ascii_text_def)
  have "parse_records 22 (map (\<lambda>k. tiny_member k (tiny_tensors ! k)) ks) =
      Inr (map (\<lambda>k. tiny_record k (tiny_tensors ! k)) ks)" if "set ks \<subseteq> {..<11}" for ks
    using that
  proof (induction ks)
    case (Cons k ks)
    obtain name v where t: "tiny_tensors ! k = (name, v)" by (cases "tiny_tensors ! k")
    have m: "tiny_member k (name, v) = (ascii_text name, snd (tiny_member k (name, v)))"
      by (simp add: tiny_member_def)
    have "parse_tensor_record (ascii_text name) (snd (tiny_member k (name, v))) 22 =
        Inr (tiny_record k (name, v))"
      using names [of k] t Cons.prems by (intro tiny_member_parsed) auto
    then show ?case
      using names [of k] t Cons by (subst list.map(2), unfold t, subst m) simp
  qed simp
  then show ?thesis unfolding tiny_members_def tiny_metadata_def by (simp add: atLeast_upt subset_eq)
qed

lemma tiny_data_length: "length tiny_data = 22"
  by (simp add: tiny_data_def numeral_eq_Suc)

lemma tiny_length: "length tiny_header = 993" "length tiny_file = 1023"
proof -
  show h: "length tiny_header = 993" unfolding tiny_header_def ascii_text_def by simp
  show "length tiny_file = 1023" by (simp add: tiny_file_def h tiny_data_length)
qed

lemma tiny_parse: "parse_safetensors_metadata tiny_file default_max_header_bytes = Inr tiny_metadata"
proof -
  have h: "load_u64_little_endian (take 8 tiny_file) = 993" unfolding tiny_file_def by code_simp
  have header: "take 993 (drop 8 tiny_file) = tiny_header" by (simp add: tiny_file_def tiny_length)
  have head: "tiny_header \<noteq> [] \<and> hd tiny_header = c_lbrace"
    unfolding tiny_header_def ascii_text_def by simp
  have "status_ok (validate_exact_coverage (st_records tiny_metadata) 22)"
    unfolding tiny_metadata_def tiny_tensors_def by code_simp
  then show ?thesis
    using head tiny_records
    by (simp add: parse_safetensors_metadata_def h tiny_length header tiny_json Let_def
        default_max_header_bytes_def) (simp add: tiny_metadata_def)
qed

section \<open>Binding it\<close>

definition tiny_mapping :: mapped_file where
  "tiny_mapping = \<lparr>map_address = 4096, map_bytes = tiny_file\<rparr>"

definition tiny_checkpoint :: safe_tensor_file where
  "tiny_checkpoint = \<lparr>sf_mapping = tiny_mapping, sf_metadata = tiny_metadata\<rparr>"

lemma tiny_checkpoint_parsed:
  "safe_tensor_parse tiny_mapping default_max_header_bytes = Inr tiny_checkpoint"
  "unat (map_address tiny_mapping) + length (map_bytes tiny_mapping) < 2 ^ 64"
  by (simp_all add: safe_tensor_parse_def tiny_mapping_def tiny_parse tiny_checkpoint_def tiny_length)

lemma tiny_valid: "status_ok (validate_model tiny_spec)" "model_parameters tiny_spec = 11"
proof -
  have count: "estimate_parameter_count tiny_spec = Inr 11" unfolding tiny_spec_def by code_simp
  have "validate_model tiny_spec = status_success" unfolding validate_model_def count by code_simp
  then show "status_ok (validate_model tiny_spec)" by simp
  show "model_parameters tiny_spec = 11"
    by (simp add: model_parameters_def layer_parameters_def tiny_spec_def Let_def)
qed

lemma tiny_plan:
  "tensor_plan tiny_spec = map (\<lambda>k. (ascii_text (fst (tiny_tensors ! k)),
     if snd (tiny_tensors ! k) then [1] else [1, 1])) [0..<11]"
proof -
  have "decimal_text 0 = [c_0]" by (subst decimal_text.simps) simp
  then show ?thesis
    by (simp add: tensor_plan_def layer_plan_def layer_prefix_def tiny_spec_def tiny_tensors_def Let_def
        upt_rec ascii_text_def)
qed

lemma tiny_dims: "dims (tiny_shape v) = (if v then [1] else [1, 1])"
  by (cases v) (simp_all add: tiny_shape_def dims_def)

lemma tiny_record_fields:
  "tr_name (tiny_record k t) = ascii_text (fst t)" "tr_shape (tiny_record k t) = tiny_shape (snd t)"
  "tr_dtype (tiny_record k t) = Bf16" "tr_begin (tiny_record k t) = of_nat (2 * k)"
  by (cases t; simp add: tiny_record_def)+

lemma tiny_names: "tr_name ` set (st_records tiny_metadata) = fst ` set (tensor_plan tiny_spec)"
  by (simp add: tiny_plan tiny_metadata_def tiny_record_fields image_image)

lemma tiny_bindable: "bindable tiny_checkpoint tiny_spec"
proof -
  have "has_tensor tiny_checkpoint (ascii_text (fst (tiny_tensors ! k)),
      if snd (tiny_tensors ! k) then [1] else [1, 1])" if "k < 11" for k
    using that
    by (auto simp: has_tensor_def tiny_checkpoint_def tiny_metadata_def tiny_record_fields tiny_dims
        intro!: bexI [of _ k])
  then have "\<forall>p \<in> set (tensor_plan tiny_spec). has_tensor tiny_checkpoint p" by (auto simp: tiny_plan)
  moreover have "head_name \<notin> tr_name ` set (st_records tiny_metadata)"
    unfolding tiny_names by (rule distinct_plan(2))
  moreover have "tr_name ` set (st_records tiny_metadata) \<subseteq> insert head_name (fst ` set (tensor_plan tiny_spec))"
    unfolding tiny_names by blast
  ultimately show ?thesis
    unfolding bindable_def using tiny_valid(1)
    by (simp add: tiny_checkpoint_def tiny_spec_def)
qed

theorem weights_bound_exactly_witness:
  "\<exists>w. weights_bind tiny_checkpoint tiny_spec = Some (Inr w) \<and> bound tiny_checkpoint tiny_spec w"
  using weights_bound_exactly [OF tiny_checkpoint_parsed, of tiny_spec] tiny_bindable
  by (auto split: option.splits sum.splits)

lemma tiny_view:
  assumes "k < 11"
  shows "safe_tensor_view tiny_checkpoint (ascii_text (fst (tiny_tensors ! k))) =
    Inr \<lparr>tv_data = 5097 + of_nat (2 * k), tv_shape = tiny_shape (snd (tiny_tensors ! k)),
      tv_dtype = Bf16, tv_memory = Host\<rparr>"
proof -
  have ok: "file_ok tiny_checkpoint" by (rule parsed_file_ok [OF tiny_checkpoint_parsed])
  have found: "safe_tensor_record tiny_checkpoint (ascii_text (fst (tiny_tensors ! k))) =
      Some (tiny_record k (tiny_tensors ! k))"
    unfolding file_ok_record [OF ok] using assms
    by (auto simp: tiny_checkpoint_def tiny_metadata_def tiny_record_fields)
  have "unat (1001 + of_nat (2 * k) :: u64) = 1001 + 2 * k"
    using assms unat_u64_of_nat [of "1001 + 2 * k"] by simp
  then have "\<not> unat (1001 + of_nat (2 * k) :: u64) > 1023" using assms by simp
  then show ?thesis
    unfolding safe_tensor_view_def found option.case Let_def tiny_record_fields
    by (simp add: tiny_checkpoint_def tiny_metadata_def tiny_mapping_def tiny_length add.assoc
        flip: add.assoc [of 4096])
qed

lemma tiny_value:
  assumes "k < 11"
  shows "read_bf16 tiny_mapping (5097 + of_nat (2 * k)) = Some 0x3F800000"
proof -
  have pos: "unat (5097 + of_nat (2 * k) :: u64) = 5097 + 2 * k"
    "unat (5097 + of_nat (2 * k) + 1 :: u64) = 5098 + 2 * k"
    using assms unat_u64_of_nat [of "5097 + 2 * k"] unat_u64_of_nat [of "5098 + 2 * k"] by simp_all
  have drop: "tiny_file ! (1001 + j) = tiny_data ! j" for j
    by (simp add: tiny_file_def nth_append tiny_length)
  have "tiny_data ! (2 * k) = 0x80 \<and> tiny_data ! (2 * k + 1) = 0x3F"
    using assms unfolding tiny_data_def by (auto simp: less_Suc_eq eval_nat_numeral)
  moreover have "tiny_file ! (1001 + 2 * k) = tiny_data ! (2 * k)"
    "tiny_file ! (1002 + 2 * k) = tiny_data ! (2 * k + 1)"
    using drop [of "2 * k"] drop [of "2 * k + 1"] by simp_all
  ultimately have "read_byte tiny_mapping (5097 + of_nat (2 * k)) = Some 0x80"
    "read_byte tiny_mapping (5097 + of_nat (2 * k) + 1) = Some 0x3F"
    using assms by (simp_all only: read_byte_def Let_def pos tiny_mapping_def mapped_file.simps) 
      (simp_all add: tiny_length)
  then show ?thesis
    by (simp only: read_bf16_def option.case prod.case) (simp add: decode_bf16_def)
qed

theorem materialize_exact_witness:
  "\<exists>w r. weights_bind tiny_checkpoint tiny_spec = Some (Inr w) \<and>
     materialize_smollm2 65536 w tiny_spec = Some (Inr r) \<and> length (mt_values r) = 11"
proof -
  have cases: "weights_bind tiny_checkpoint tiny_spec \<noteq> None"
    "\<exists>w. weights_bind tiny_checkpoint tiny_spec = Some (Inr w)"
    using weights_bind_cases [OF parsed_file_ok [OF tiny_checkpoint_parsed], of tiny_spec] tiny_bindable
    by blast+
  then obtain w where w: "weights_bind tiny_checkpoint tiny_spec = Some (Inr w)" by blast
  then have bound: "bound tiny_checkpoint tiny_spec w"
    by (rule weights_bind_cases(3) [OF parsed_file_ok [OF tiny_checkpoint_parsed]])
  have aliases: "ld_output_head_aliases_embedding w"
    using bound distinct_plan(2) [of tiny_spec] tiny_names by (simp add: bound_def tiny_checkpoint_def)
  have "values_of tiny_mapping t = [0x3F800000]" if "t \<in> set (all_views w)" for t
  proof -
    from bound that obtain k where "k < 11" "safe_tensor_view tiny_checkpoint (ascii_text (fst (tiny_tensors ! k))) = Inr t"
      by (auto simp: bound_def tiny_plan list_all2_conv_all_nth in_set_conv_nth)
    then have "t = \<lparr>tv_data = 5097 + of_nat (2 * k), tv_shape = tiny_shape (snd (tiny_tensors ! k)),
        tv_dtype = Bf16, tv_memory = Host\<rparr>" by (simp only: tiny_view sum.inject)
    moreover have "numel t = 1" using calculation by (simp add: numel_def tiny_dims)
    ultimately show ?thesis using tiny_value [OF \<open>k < 11\<close>] by (simp add: values_of_def)
  qed
  then have "all_finite (concat (map (values_of tiny_mapping) (all_views w)))"
    by (auto simp: all_finite_def list_all_iff f32_is_finite_def)
  with aliases have "materializable tiny_mapping 65536 w tiny_spec"
    by (simp add: materializable_def tiny_valid(2))
  with materialize_exact [OF tiny_checkpoint_parsed w, of 65536] w tiny_valid(2) show ?thesis
    by (auto split: option.splits sum.splits)
qed

end
