(* ===== verification/Doubles.thy ===== *)
theory Doubles
  imports Core
begin

unbundle bit_operations_syntax

text \<open>
  A \<open>double\<close> as its bit pattern. Comparisons, sign changes and the test for finite values are
  exact on bit patterns and defined here; arithmetic, whose rounding the language leaves open, is
  an argument of the models that use it (\<open>double_ops\<close>, or \<open>number_reader\<close> for the conversion
  of text).
\<close>

type_synonym f64 = u64

definition f64_magnitude :: "f64 \<Rightarrow> u64" where
  "f64_magnitude x = x AND 0x7FFFFFFFFFFFFFFF"

definition f64_is_finite :: "f64 \<Rightarrow> bool" where
  "f64_is_finite x \<longleftrightarrow> x AND 0x7FF0000000000000 \<noteq> 0x7FF0000000000000"

definition f64_is_nan :: "f64 \<Rightarrow> bool" where
  "f64_is_nan x \<longleftrightarrow> f64_magnitude x > 0x7FF0000000000000"

definition f64_order :: "f64 \<Rightarrow> int" where
  "f64_order x = (if x AND 0x8000000000000000 \<noteq> 0 then - int (unat (f64_magnitude x))
                  else int (unat (f64_magnitude x)))"

definition f64_less :: "f64 \<Rightarrow> f64 \<Rightarrow> bool" where
  "f64_less x y \<longleftrightarrow> \<not> f64_is_nan x \<and> \<not> f64_is_nan y \<and> f64_order x < f64_order y"

definition f64_less_eq :: "f64 \<Rightarrow> f64 \<Rightarrow> bool" where
  "f64_less_eq x y \<longleftrightarrow> \<not> f64_is_nan x \<and> \<not> f64_is_nan y \<and> f64_order x \<le> f64_order y"

text \<open>\<open>==\<close>, unary minus, \<open>std::abs\<close> and \<open>std::max\<close>.\<close>

definition f64_equal :: "f64 \<Rightarrow> f64 \<Rightarrow> bool" where
  "f64_equal x y \<longleftrightarrow> f64_less_eq x y \<and> f64_less_eq y x"

definition f64_neg :: "f64 \<Rightarrow> f64" where
  "f64_neg x = x XOR 0x8000000000000000"

definition f64_abs :: "f64 \<Rightarrow> f64" where
  "f64_abs x = f64_magnitude x"

definition f64_max :: "f64 \<Rightarrow> f64 \<Rightarrow> f64" where
  "f64_max x y = (if f64_less x y then y else x)"

abbreviation (input) f64_float_max :: f64 where "f64_float_max \<equiv> 0x47EFFFFFE0000000"
abbreviation (input) f64_zero :: f64 where "f64_zero \<equiv> 0"
abbreviation (input) f64_one :: f64 where "f64_one \<equiv> 0x3FF0000000000000"
abbreviation (input) f64_two :: f64 where "f64_two \<equiv> 0x4000000000000000"
abbreviation (input) f64_pi :: f64 where "f64_pi \<equiv> 0x400921FB54442D18"
abbreviation (input) f64_epsilon :: f64 where "f64_epsilon \<equiv> 0x3CB0000000000000"

lemma f64_finite_number:
  assumes "f64_is_finite x" shows "\<not> f64_is_nan x"
proof
  let ?m = "x AND 0x7FFFFFFFFFFFFFFF :: u64"
  assume "f64_is_nan x"
  then have ge: "2047 * 2 ^ 52 \<le> unat ?m"
    by (simp add: f64_is_nan_def f64_magnitude_def word_less_nat_alt)
  have mask: "mask 63 = (0x7FFFFFFFFFFFFFFF :: u64)" "mask 11 = (2047 :: u64)"
    by (simp_all add: mask_eq_exp_minus_1)
  have "?m = take_bit 63 x" by (simp add: take_bit_eq_mask mask)
  then have "unat ?m < 2 ^ 63"
    using take_bit_nat_less_exp [of 63 "unat x"] by (simp only: unsigned_take_bit_eq)
  then have "unat ?m div 2 ^ 52 = 2047" using ge by (intro div_nat_eqI) simp_all
  then have "unat (drop_bit 52 ?m) = unat (2047 :: u64)"
    by (simp add: drop_bit_eq_div unat_div)
  then have "drop_bit 52 ?m = 2047" by (simp only: unat_inject)
  then have "drop_bit 52 x AND 2047 = 2047" by simp
  then have "take_bit 11 (drop_bit 52 x) = mask 11" by (simp only: take_bit_eq_mask mask)
  then have "push_bit 52 (mask 11) = push_bit 52 (take_bit 11 (drop_bit 52 x))" by simp
  also have "\<dots> = x AND push_bit 52 (mask 11)"
    by (rule bit_word_eqI) (auto simp: bit_push_bit_iff bit_take_bit_iff bit_drop_bit_eq bit_and_iff bit_mask_iff)
  also have "push_bit 52 (mask 11) = (0x7FF0000000000000 :: u64)" by (simp add: mask)
  finally show False using assms by (simp add: f64_is_finite_def)
qed

lemma float_max_simps:
  "\<not> f64_is_nan f64_float_max" "\<not> f64_is_nan (f64_neg f64_float_max)"
  by (simp_all add: f64_is_nan_def f64_magnitude_def f64_neg_def)

text \<open>The arithmetic and the functions of \<open>cmath\<close>.\<close>

record double_ops =
  db_add :: "f64 \<Rightarrow> f64 \<Rightarrow> f64"
  db_sub :: "f64 \<Rightarrow> f64 \<Rightarrow> f64"
  db_mul :: "f64 \<Rightarrow> f64 \<Rightarrow> f64"
  db_div :: "f64 \<Rightarrow> f64 \<Rightarrow> f64"
  db_hypot :: "f64 \<Rightarrow> f64 \<Rightarrow> f64"
  db_atan2 :: "f64 \<Rightarrow> f64 \<Rightarrow> f64"
  db_cos :: "f64 \<Rightarrow> f64"
  db_sin :: "f64 \<Rightarrow> f64"
  db_ceil :: "f64 \<Rightarrow> f64"
  db_of_u64 :: "u64 \<Rightarrow> f64"
  db_to_u64 :: "f64 \<Rightarrow> u64"

text \<open>
  Reading a number: extraction of a \<open>double\<close> from the front of a text in the classic locale,
  with what is left of the text, or nothing when the stream fails; and the narrowing to
  \<open>float\<close> of a value in its range.
\<close>

record number_reader =
  nr_extract :: "u8 list \<Rightarrow> (f64 \<times> u8 list) option"
  nr_narrow :: "f64 \<Rightarrow> u32"

end
