(* ===== verification/ModelConfig.thy ===== *)
theory ModelConfig
  imports JsonProps SafeTensors ModelSpec LoadedWeights Doubles
begin

text \<open>
  \<open>model/model_config.cpp\<close>: the configuration file of a model, read into a validated
  specification. The extraction of a \<open>double\<close> by an \<open>std::istringstream\<close> and the narrowing
  to \<open>float\<close> are the argument \<open>reader\<close>; the tests of what was extracted are the code's.
\<close>

section \<open>Fields\<close>

definition required_u32 :: "json \<Rightarrow> bytes \<Rightarrow> u32 result" where
  "required_u32 root key =
     (case json_find root key of
        Some (Json_number text) \<Rightarrow>
          if text = [] \<or> hd text = c_minus \<or> c_dot \<in> set text \<or> c_e \<in> set text \<or>
             c_upper_e \<in> set text
          then fail Invalid_model
          else
            (case from_chars_u64 text of
               None \<Rightarrow> fail Arithmetic_overflow
             | Some parsed \<Rightarrow>
                 if parsed > ucast u32_max then fail Arithmetic_overflow else Inr (ucast parsed))
      | _ \<Rightarrow> fail Invalid_model)"

definition required_float :: "number_reader \<Rightarrow> json \<Rightarrow> bytes \<Rightarrow> f32 result" where
  "required_float reader root key =
     (case json_find root key of
        Some (Json_number text) \<Rightarrow>
          (case nr_extract reader text of
             None \<Rightarrow> fail Invalid_model
           | Some (parsed, unread) \<Rightarrow>
               if unread \<noteq> [] \<or> \<not> f64_is_finite parsed \<or> f64_less f64_float_max parsed \<or>
                  f64_less parsed (f64_neg f64_float_max)
               then fail Invalid_model
               else Inr (nr_narrow reader parsed))
      | _ \<Rightarrow> fail Invalid_model)"

definition required_bool :: "json \<Rightarrow> bytes \<Rightarrow> bool result" where
  "required_bool root key =
     (case json_find root key of
        Some (Json_boolean b) \<Rightarrow> Inr b
      | _ \<Rightarrow> fail Invalid_model)"

definition required_string :: "json \<Rightarrow> bytes \<Rightarrow> bytes result" where
  "required_string root key =
     (case json_find root key of
        Some (Json_string text) \<Rightarrow> Inr text
      | _ \<Rightarrow> fail Invalid_model)"

definition validate_architecture_name :: "json \<Rightarrow> bytes \<Rightarrow> status" where
  "validate_architecture_name root expected =
     (case json_find root (ascii_text ''architectures'') of
        Some (Json_array [Json_string text]) \<Rightarrow>
          if text \<noteq> expected then status_failure Invalid_model else status_success
      | _ \<Rightarrow> status_failure Invalid_model)"

section \<open>The configuration\<close>

text \<open>The branches on \<open>model_type\<close>: the architecture and whether it has biases.\<close>

definition config_architecture :: "json \<Rightarrow> bytes \<Rightarrow> (architecture \<times> bool) result" where
  "config_architecture root model_type =
     (if model_type = ascii_text ''llama'' then
        (case required_bool root (ascii_text ''attention_bias'') of
           Inl _ \<Rightarrow> fail Invalid_model
         | Inr attention_bias \<Rightarrow>
             if \<not> status_ok (validate_architecture_name root (ascii_text ''LlamaForCausalLM''))
             then fail Invalid_model
             else Inr (Smollm2_llama, attention_bias))
      else if model_type = ascii_text ''qwen2'' then
        if \<not> status_ok (validate_architecture_name root (ascii_text ''Qwen2ForCausalLM''))
        then fail Invalid_model
        else Inr (Qwen2, True)
      else fail Invalid_model)"

definition parse_model_config :: "number_reader \<Rightarrow> bytes \<Rightarrow> model_spec result" where
  "parse_model_config reader json_text =
     (case parse_json json_text of
        Inl e \<Rightarrow> Inl e
      | Inr root \<Rightarrow>
     (if (case root of Json_object _ \<Rightarrow> False | _ \<Rightarrow> True) then fail Invalid_model
      else
     (case required_string root (ascii_text ''model_type'') of
        Inl _ \<Rightarrow> fail Invalid_model
      | Inr model_type \<Rightarrow>
     (case config_architecture root model_type of
        Inl e \<Rightarrow> Inl e
      | Inr (architecture, qkv_bias) \<Rightarrow>
     (case (required_u32 root (ascii_text ''num_hidden_layers''),
            required_u32 root (ascii_text ''hidden_size''),
            required_u32 root (ascii_text ''intermediate_size''),
            required_u32 root (ascii_text ''num_attention_heads''),
            required_u32 root (ascii_text ''num_key_value_heads''),
            required_u32 root (ascii_text ''vocab_size''),
            required_u32 root (ascii_text ''max_position_embeddings''),
            required_float reader root (ascii_text ''rms_norm_eps''),
            required_float reader root (ascii_text ''rope_theta''),
            required_bool root (ascii_text ''tie_word_embeddings'')) of
        (Inr layers, Inr hidden, Inr intermediate, Inr query_heads, Inr kv_heads, Inr vocabulary,
         Inr max_positions, Inr epsilon, Inr rope_theta, Inr tied) \<Rightarrow>
          if query_heads = 0 \<or> hidden mod query_heads \<noteq> 0 then fail Invalid_model
          else
            let spec = \<lparr>ms_architecture = architecture, ms_layers = layers, ms_hidden_size = hidden,
                  ms_intermediate_size = intermediate, ms_query_heads = query_heads,
                  ms_kv_heads = kv_heads, ms_head_dim = hidden div query_heads,
                  ms_vocabulary_size = vocabulary, ms_max_positions = max_positions,
                  ms_rms_norm_epsilon = epsilon, ms_rope_theta = rope_theta,
                  ms_qkv_bias = qkv_bias, ms_tied_embeddings = tied\<rparr>
            in if \<not> status_ok (validate_model spec) then Inl (validate_model spec) else Inr spec
      | _ \<Rightarrow> fail Invalid_model)))))"

text \<open>\<open>mapping\<close> is the outcome of opening the file.\<close>

definition load_model_config ::
  "number_reader \<Rightarrow> mapped_file result \<Rightarrow> model_spec result" where
  "load_model_config reader mapping =
     (case mapping of
        Inl e \<Rightarrow> Inl e
      | Inr mapped \<Rightarrow> parse_model_config reader (map_bytes mapped))"

end
