(* ===== verification/ModelConfigProps.thy ===== *)
theory ModelConfigProps
  imports ModelConfig LoadedWeightsProps
begin

text \<open>The configurations that are accepted and the specification they give.\<close>

section \<open>Fields\<close>

lemma decimal_digits: "decimal body acc = Some n \<Longrightarrow> list_all is_digit body"
  by (induction body acc rule: decimal.induct) (auto split: if_splits)

lemma digits_plain:
  assumes "list_all is_digit body" "body \<noteq> []"
  shows "\<not> (body = [] \<or> hd body = c_minus \<or> c_dot \<in> set body \<or> c_e \<in> set body \<or> c_upper_e \<in> set body)"
proof -
  have digit: "is_digit d" if "d \<in> set body" for d using assms(1) that by (simp add: list_all_iff)
  show ?thesis
    using digit [of c_dot] digit [of c_e] digit [of c_upper_e] digit [OF hd_in_set [OF assms(2)]] assms(2)
    by (auto simp: is_digit_def)
qed

lemma narrowed: "(parsed :: u64) \<le> ucast u32_max \<Longrightarrow> unat (ucast parsed :: u32) = unat parsed"
  by (simp add: word_le_nat_alt unsigned_ucast_eq take_bit_nat_eq_self unat_u32_max)

lemma from_chars_u32:
  "(\<exists>parsed. from_chars_u64 body = Some parsed \<and> \<not> parsed > ucast u32_max \<and> n = ucast parsed) \<longleftrightarrow>
     body \<noteq> [] \<and> decimal body 0 = Some (unat (n :: u32))"
proof
  assume "\<exists>parsed. from_chars_u64 body = Some parsed \<and> \<not> parsed > ucast u32_max \<and> n = ucast parsed"
  then obtain k where k: "body \<noteq> []" "decimal body 0 = Some k" "k < 2 ^ 64"
    "\<not> (of_nat k :: u64) > ucast u32_max" "n = ucast (of_nat k :: u64)"
    by (auto simp: from_chars_u64_def split: if_splits option.splits)
  then have "unat n = k" using narrowed [of "of_nat k"] by (simp add: not_less unat_u64_of_nat)
  with k show "body \<noteq> [] \<and> decimal body 0 = Some (unat n)" by simp
next
  assume body: "body \<noteq> [] \<and> decimal body 0 = Some (unat n)"
  have n: "unat n < 2 ^ 32" by (rule unat_u32_lt)
  then have k: "unat (of_nat (unat n) :: u64) = unat n" by (intro unat_u64_of_nat) simp
  have "\<not> (of_nat (unat n) :: u64) > ucast u32_max"
    using n by (simp only: word_less_nat_alt k unat_ucast_u32_u64 unat_u32_max)
  moreover from this have "n = ucast (of_nat (unat n) :: u64)"
    using narrowed [of "of_nat (unat n)"] k by (simp add: not_less flip: unat_inject)
  ultimately show "\<exists>parsed. from_chars_u64 body = Some parsed \<and> \<not> parsed > ucast u32_max \<and> n = ucast parsed"
    using body n by (intro exI [of _ "of_nat (unat n)"]) (simp add: from_chars_u64_def)
qed

definition number_field :: "json \<Rightarrow> string \<Rightarrow> u32 \<Rightarrow> bool" where
  "number_field root key n \<longleftrightarrow> (\<exists>body. json_find root (ascii_text key) = Some (Json_number body) \<and>
     body \<noteq> [] \<and> decimal body 0 = Some (unat n))"

lemma required_u32_Inr: "required_u32 root (ascii_text key) = Inr n \<longleftrightarrow> number_field root key n"
proof -
  have "(case from_chars_u64 body of None \<Rightarrow> fail Arithmetic_overflow
      | Some parsed \<Rightarrow> if parsed > ucast u32_max then fail Arithmetic_overflow else Inr (ucast parsed)) = Inr n \<longleftrightarrow>
      body \<noteq> [] \<and> decimal body 0 = Some (unat n)" for body
    unfolding from_chars_u32 [symmetric] by (auto split: option.splits if_splits)
  moreover have "\<not> (body = [] \<or> hd body = c_minus \<or> c_dot \<in> set body \<or> c_e \<in> set body \<or> c_upper_e \<in> set body)"
    if "body \<noteq> [] \<and> decimal body 0 = Some (unat n)" for body
    using that decimal_digits digits_plain by blast
  ultimately show ?thesis
    unfolding required_u32_def number_field_def
    by (cases "json_find root (ascii_text key)") (force split: json.splits if_splits)+
qed

text \<open>
  A number of the file as a \<open>float\<close>: all of its text is a \<open>double\<close>, which is finite and not
  beyond the largest \<open>float\<close> on either side.
\<close>

definition float_field :: "number_reader \<Rightarrow> json \<Rightarrow> string \<Rightarrow> f32 \<Rightarrow> bool" where
  "float_field reader root key v \<longleftrightarrow>
     (\<exists>body parsed. json_find root (ascii_text key) = Some (Json_number body) \<and>
        nr_extract reader body = Some (parsed, []) \<and> f64_is_finite parsed \<and>
        f64_less_eq parsed f64_float_max \<and> f64_less_eq (f64_neg f64_float_max) parsed \<and>
        v = nr_narrow reader parsed)"

lemma within_float:
  "f64_is_finite x \<Longrightarrow>
     \<not> (f64_less f64_float_max x \<or> f64_less x (f64_neg f64_float_max)) \<longleftrightarrow>
     f64_less_eq x f64_float_max \<and> f64_less_eq (f64_neg f64_float_max) x"
  using f64_finite_number [of x] float_max_simps by (auto simp: f64_less_def f64_less_eq_def)

lemma required_float_Inr:
  "required_float reader root (ascii_text key) = Inr v \<longleftrightarrow> float_field reader root key v"
proof -
  have "(unread \<noteq> [] \<or> \<not> f64_is_finite parsed \<or> f64_less f64_float_max parsed \<or>
      f64_less parsed (f64_neg f64_float_max)) \<longleftrightarrow>
    \<not> (unread = [] \<and> f64_is_finite parsed \<and> f64_less_eq parsed f64_float_max \<and>
      f64_less_eq (f64_neg f64_float_max) parsed)" for unread :: bytes and parsed
    using within_float [of parsed] by blast
  then show ?thesis
    by (auto simp: required_float_def float_field_def split: option.splits json.splits prod.splits)
qed

lemma required_bool_Inr:
  "required_bool root (ascii_text key) = Inr b \<longleftrightarrow> json_find root (ascii_text key) = Some (Json_boolean b)"
  by (auto simp: required_bool_def split: option.splits json.splits)

lemma required_string_Inr:
  "required_string root (ascii_text key) = Inr s \<longleftrightarrow> json_find root (ascii_text key) = Some (Json_string s)"
  by (auto simp: required_string_def split: option.splits json.splits)

lemma architecture_name_ok:
  "status_ok (validate_architecture_name root expected) \<longleftrightarrow>
     json_find root (ascii_text ''architectures'') = Some (Json_array [Json_string expected])"
  by (auto simp: validate_architecture_name_def split: option.splits json.splits list.splits)

section \<open>The configuration\<close>

text \<open>The object describes the specification.\<close>

definition config_describes :: "number_reader \<Rightarrow> json \<Rightarrow> model_spec \<Rightarrow> bool" where
  "config_describes reader root spec \<longleftrightarrow>
     (case ms_architecture spec of
        Smollm2_llama \<Rightarrow>
          json_find root (ascii_text ''model_type'') = Some (Json_string (ascii_text ''llama'')) \<and>
          json_find root (ascii_text ''architectures'') =
            Some (Json_array [Json_string (ascii_text ''LlamaForCausalLM'')]) \<and>
          json_find root (ascii_text ''attention_bias'') = Some (Json_boolean (ms_qkv_bias spec))
      | Qwen2 \<Rightarrow>
          json_find root (ascii_text ''model_type'') = Some (Json_string (ascii_text ''qwen2'')) \<and>
          json_find root (ascii_text ''architectures'') =
            Some (Json_array [Json_string (ascii_text ''Qwen2ForCausalLM'')]) \<and> ms_qkv_bias spec) \<and>
     number_field root ''num_hidden_layers'' (ms_layers spec) \<and>
     number_field root ''hidden_size'' (ms_hidden_size spec) \<and>
     number_field root ''intermediate_size'' (ms_intermediate_size spec) \<and>
     number_field root ''num_attention_heads'' (ms_query_heads spec) \<and>
     number_field root ''num_key_value_heads'' (ms_kv_heads spec) \<and>
     number_field root ''vocab_size'' (ms_vocabulary_size spec) \<and>
     number_field root ''max_position_embeddings'' (ms_max_positions spec) \<and>
     float_field reader root ''rms_norm_eps'' (ms_rms_norm_epsilon spec) \<and>
     float_field reader root ''rope_theta'' (ms_rope_theta spec) \<and>
     json_find root (ascii_text ''tie_word_embeddings'') = Some (Json_boolean (ms_tied_embeddings spec))"

lemma config_architecture_Inr:
  "(\<exists>model_type. required_string root (ascii_text ''model_type'') = Inr model_type \<and>
      config_architecture root model_type = Inr (a, b)) \<longleftrightarrow>
   (case a of
      Smollm2_llama \<Rightarrow>
        json_find root (ascii_text ''model_type'') = Some (Json_string (ascii_text ''llama'')) \<and>
        json_find root (ascii_text ''architectures'') =
          Some (Json_array [Json_string (ascii_text ''LlamaForCausalLM'')]) \<and>
        json_find root (ascii_text ''attention_bias'') = Some (Json_boolean b)
    | Qwen2 \<Rightarrow>
        json_find root (ascii_text ''model_type'') = Some (Json_string (ascii_text ''qwen2'')) \<and>
        json_find root (ascii_text ''architectures'') =
          Some (Json_array [Json_string (ascii_text ''Qwen2ForCausalLM'')]) \<and> b)"
proof -
  define llama qwen2 where names: "llama = ascii_text ''llama''" "qwen2 = ascii_text ''qwen2''"
  have differ: "llama \<noteq> qwen2" by (simp add: names ascii_text_def)
  have "config_architecture root model_type = Inr (a, b) \<longleftrightarrow>
      model_type = llama \<and> a = Smollm2_llama \<and> required_bool root (ascii_text ''attention_bias'') = Inr b \<and>
        status_ok (validate_architecture_name root (ascii_text ''LlamaForCausalLM'')) \<or>
      model_type = qwen2 \<and> a = Qwen2 \<and> b \<and>
        status_ok (validate_architecture_name root (ascii_text ''Qwen2ForCausalLM''))" for model_type
    unfolding config_architecture_def names [symmetric] using differ
    by (auto split: sum.splits if_splits)
  then show ?thesis
    unfolding required_string_Inr required_bool_Inr architecture_name_ok names [symmetric]
    by (cases a) auto
qed

text \<open>
  (C36) A configuration is accepted exactly when its text is a JSON object that describes the
  specification, field by field, and the specification is valid: no missing, mistyped,
  fractional, negative or too large count gets through, the two real numbers are read to
  the end of their text, are finite and lie in the range of \<open>float\<close>, and the head dimension
  is the hidden size divided by the number of heads. Nothing else in the file has a say: a
  member that names a numeric mode is not looked at.
\<close>

theorem model_config_exact:
  "parse_model_config reader config = Inr spec \<longleftrightarrow>
     (\<exists>members. parse_json config = Inr (Json_object members) \<and>
        config_describes reader (Json_object members) spec \<and> status_ok (validate_model spec))"
proof -
  have head: "ms_query_heads s \<noteq> 0 \<and> ms_hidden_size s mod ms_query_heads s = 0 \<and>
      ms_head_dim s = ms_hidden_size s div ms_query_heads s" if "status_ok (validate_model s)" for s
  proof -
    have "model_shape_ok s" by (rule model_shape_validated [OF that])
    then have shape: "ms_query_heads s \<noteq> 0"
      "unat (ms_query_heads s) * unat (ms_head_dim s) = unat (ms_hidden_size s)"
      by (simp_all add: model_shape_ok_def)
    have "unat (ms_hidden_size s div ms_query_heads s) = unat (ms_head_dim s)"
      using shape by (simp add: unat_div unat_gt_0 flip: shape(2))
    with shape show ?thesis by (simp add: word_mod_0 unat_inject flip: shape(2))
  qed
  let ?fields = "\<lambda>root s. (required_u32 root (ascii_text ''num_hidden_layers'') = Inr (ms_layers s) \<and>
      required_u32 root (ascii_text ''hidden_size'') = Inr (ms_hidden_size s) \<and>
      required_u32 root (ascii_text ''intermediate_size'') = Inr (ms_intermediate_size s) \<and>
      required_u32 root (ascii_text ''num_attention_heads'') = Inr (ms_query_heads s) \<and>
      required_u32 root (ascii_text ''num_key_value_heads'') = Inr (ms_kv_heads s) \<and>
      required_u32 root (ascii_text ''vocab_size'') = Inr (ms_vocabulary_size s) \<and>
      required_u32 root (ascii_text ''max_position_embeddings'') = Inr (ms_max_positions s) \<and>
      required_float reader root (ascii_text ''rms_norm_eps'') = Inr (ms_rms_norm_epsilon s) \<and>
      required_float reader root (ascii_text ''rope_theta'') = Inr (ms_rope_theta s) \<and>
      required_bool root (ascii_text ''tie_word_embeddings'') = Inr (ms_tied_embeddings s))"
  have describes: "config_describes reader root s \<longleftrightarrow>
      (\<exists>model_type. required_string root (ascii_text ''model_type'') = Inr model_type \<and>
        config_architecture root model_type = Inr (ms_architecture s, ms_qkv_bias s)) \<and> ?fields root s" for root s
    unfolding config_architecture_Inr config_describes_def required_u32_Inr required_float_Inr
      required_bool_Inr by (rule refl)
  show ?thesis
  proof
    assume "parse_model_config reader config = Inr spec"
    then show "\<exists>members. parse_json config = Inr (Json_object members) \<and>
        config_describes reader (Json_object members) spec \<and> status_ok (validate_model spec)"
      unfolding parse_model_config_def describes
      by (auto simp: Let_def split: sum.splits json.splits if_splits prod.splits)
  next
    assume "\<exists>members. parse_json config = Inr (Json_object members) \<and>
        config_describes reader (Json_object members) spec \<and> status_ok (validate_model spec)"
    then obtain members where "parse_json config = Inr (Json_object members)"
      "status_ok (validate_model spec)" "config_describes reader (Json_object members) spec" by blast
    moreover from this(2) have divides: "ms_query_heads spec \<noteq> 0"
      "ms_hidden_size spec mod ms_query_heads spec = 0"
      "ms_hidden_size spec div ms_query_heads spec = ms_head_dim spec"
      using head by simp_all
    moreover have same: "\<lparr>ms_architecture = ms_architecture spec, ms_layers = ms_layers spec,
      ms_hidden_size = ms_hidden_size spec, ms_intermediate_size = ms_intermediate_size spec,
      ms_query_heads = ms_query_heads spec, ms_kv_heads = ms_kv_heads spec,
      ms_head_dim = ms_head_dim spec, ms_vocabulary_size = ms_vocabulary_size spec,
      ms_max_positions = ms_max_positions spec, ms_rms_norm_epsilon = ms_rms_norm_epsilon spec,
      ms_rope_theta = ms_rope_theta spec, ms_qkv_bias = ms_qkv_bias spec,
      ms_tied_embeddings = ms_tied_embeddings spec\<rparr> = spec"
      by (cases spec) simp
    ultimately show "parse_model_config reader config = Inr spec"
      unfolding describes by (auto simp add: parse_model_config_def Let_def divides same)
  qed
qed

end
