(* ===== verification/CpuOperators.thy ===== *)
theory CpuOperators
  imports LoadedWeights HostBuffer
begin

unbundle bit_operations_syntax

text \<open>
  \<open>cpu/operators.cpp\<close>: the float kernels of the CPU engine and their checks, in the portable
  build without the Accelerate library. A \<open>float\<close> is its bit pattern; its arithmetic, whose
  rounding, contraction and library functions differ between platforms, is an argument, a
  record of functions about which nothing is assumed. Comparisons and the sign change are
  exact on bit patterns and are defined here.

  Memory maps the address of a float to its value. The index of an element is a natural
  number: every index is bounded by the number of elements of a tensor that was checked to
  fit 64 bits, so the 64-bit index arithmetic of the code does not wrap.
\<close>

section \<open>Floats and memory\<close>

record float_ops =
  fl_add :: "f32 \<Rightarrow> f32 \<Rightarrow> f32"
  fl_sub :: "f32 \<Rightarrow> f32 \<Rightarrow> f32"
  fl_mul :: "f32 \<Rightarrow> f32 \<Rightarrow> f32"
  fl_div :: "f32 \<Rightarrow> f32 \<Rightarrow> f32"
  fl_pow :: "f32 \<Rightarrow> f32 \<Rightarrow> f32"
  fl_sqrt :: "f32 \<Rightarrow> f32"
  fl_exp :: "f32 \<Rightarrow> f32"
  fl_cos :: "f32 \<Rightarrow> f32"
  fl_sin :: "f32 \<Rightarrow> f32"
  fl_of_u64 :: "u64 \<Rightarrow> f32"

abbreviation (input) f32_zero :: f32 where "f32_zero \<equiv> 0"
abbreviation (input) f32_one :: f32 where "f32_one \<equiv> 0x3F800000"
abbreviation (input) f32_minus_infinity :: f32 where "f32_minus_infinity \<equiv> 0xFF800000"

definition f32_neg :: "f32 \<Rightarrow> f32" where
  "f32_neg x = x XOR 0x80000000"

definition f32_magnitude :: "f32 \<Rightarrow> u32" where
  "f32_magnitude x = x AND 0x7FFFFFFF"

definition f32_is_nan :: "f32 \<Rightarrow> bool" where
  "f32_is_nan x \<longleftrightarrow> f32_magnitude x > 0x7F800000"

text \<open>The position of a float that is not a NaN on the line; the two zeros coincide.\<close>

definition f32_order :: "f32 \<Rightarrow> int" where
  "f32_order x = (if x AND 0x80000000 \<noteq> 0 then - int (unat (f32_magnitude x))
                  else int (unat (f32_magnitude x)))"

definition f32_less :: "f32 \<Rightarrow> f32 \<Rightarrow> bool" where
  "f32_less x y \<longleftrightarrow> \<not> f32_is_nan x \<and> \<not> f32_is_nan y \<and> f32_order x < f32_order y"

text \<open>\<open>std::max\<close>.\<close>

definition f32_max :: "f32 \<Rightarrow> f32 \<Rightarrow> f32" where
  "f32_max x y = (if f32_less x y then y else x)"

type_synonym memory = "nat \<Rightarrow> f32"

text \<open>Element \<open>i\<close> of the floats at address \<open>p\<close>.\<close>

definition slot :: "u64 \<Rightarrow> nat \<Rightarrow> nat" where
  "slot p i = unat p + 4 * i"

definition rd :: "memory \<Rightarrow> u64 \<Rightarrow> nat \<Rightarrow> f32" where
  "rd m p i = m (slot p i)"

definition wr :: "u64 \<Rightarrow> nat \<Rightarrow> f32 \<Rightarrow> memory \<Rightarrow> memory" where
  "wr p i x m = m(slot p i := x)"

text \<open>\<open>std::memcpy\<close> of \<open>n\<close> floats between ranges that do not overlap.\<close>

definition copy_floats :: "u64 \<Rightarrow> nat \<Rightarrow> u64 \<Rightarrow> nat \<Rightarrow> nat \<Rightarrow> memory \<Rightarrow> memory" where
  "copy_floats dst dst_offset src src_offset n m =
     fold (\<lambda>i m'. wr dst (dst_offset + i) (rd m src (src_offset + i)) m') [0..<n] m"

section \<open>Checks\<close>

record memory_range =
  mr_begin :: u64
  mr_end :: u64

definition view_range :: "tensor_view \<Rightarrow> memory_range result" where
  "view_range view =
     (case checked_nbytes (tv_shape view) (tv_dtype view) of
        Inl e \<Rightarrow> Inl e
      | Inr bytes \<Rightarrow>
          if bytes = 0 then Inr \<lparr>mr_begin = 0, mr_end = 0\<rparr>
          else if tv_data view = 0 \<or> bytes > u64_max then fail Invalid_argument
          else if tv_data view > u64_max - bytes then fail Arithmetic_overflow
          else Inr \<lparr>mr_begin = tv_data view, mr_end = tv_data view + bytes\<rparr>)"

definition overlaps :: "memory_range \<Rightarrow> memory_range \<Rightarrow> bool" where
  "overlaps left right \<longleftrightarrow>
     \<not> (mr_begin left = mr_end left \<or> mr_begin right = mr_end right) \<and>
     mr_begin left < mr_end right \<and> mr_begin right < mr_end left"

definition exactly_aliases :: "memory_range \<Rightarrow> memory_range \<Rightarrow> bool" where
  "exactly_aliases left right \<longleftrightarrow> mr_begin left = mr_begin right \<and> mr_end left = mr_end right"

definition validate_f32_host :: "tensor_view \<Rightarrow> status" where
  "validate_f32_host view =
     (if tv_dtype view \<noteq> F32 \<or> tv_memory view \<noteq> Host
      then status_failure (if tv_dtype view \<noteq> F32 then Unsupported_dtype else Invalid_argument)
      else validate_tensor_view view)"

text \<open>The loops that return the first status that is not ok.\<close>

definition first_failure :: "status list \<Rightarrow> status" where
  "first_failure statuses =
     (case List.find (\<lambda>s. \<not> status_ok s) statuses of
        None \<Rightarrow> status_success
      | Some s \<Rightarrow> s)"

definition require_shape :: "shape \<Rightarrow> u8 \<Rightarrow> u64 list \<Rightarrow> status" where
  "require_shape s rank extents =
     (if sh_rank s \<noteq> rank \<or> length extents \<noteq> unat rank then status_failure Invalid_shape
      else
        (case List.find (\<lambda>axis. sh_extents s ! axis \<noteq> extents ! axis) [0..<length extents] of
           None \<Rightarrow> status_success
         | Some axis \<Rightarrow> status_failure_at Invalid_shape (of_nat axis)))"

definition validate_output_alias :: "tensor_view \<Rightarrow> tensor_view \<Rightarrow> bool \<Rightarrow> status" where
  "validate_output_alias input output allow_exact_alias =
     (case (view_range input, view_range output) of
        (Inl e, _) \<Rightarrow> e
      | (Inr _, Inl e) \<Rightarrow> e
      | (Inr input_range, Inr output_range) \<Rightarrow>
          if overlaps input_range output_range \<and>
             \<not> (allow_exact_alias \<and> exactly_aliases input_range output_range)
          then status_failure Invalid_argument else status_success)"

definition validate_no_overlap :: "tensor_view \<Rightarrow> tensor_view \<Rightarrow> status" where
  "validate_no_overlap left right = validate_output_alias left right False"

text \<open>
  \<open>make_f32_view\<close> and \<open>make_const_f32_view\<close>; they are called with at most four extents, so the
  shape exists.
\<close>

definition make_f32_view :: "u64 \<Rightarrow> u64 list \<Rightarrow> tensor_view" where
  "make_f32_view data extents =
     \<lparr>tv_data = data, tv_shape = projr (make_shape extents), tv_dtype = F32, tv_memory = Host\<rparr>"

fun product_loop :: "u64 \<Rightarrow> u64 list \<Rightarrow> u64 result" where
  "product_loop acc [] = Inr acc"
| "product_loop acc (factor # factors) =
     (case checked_multiply acc factor of Inl e \<Rightarrow> Inl e | Inr v \<Rightarrow> product_loop v factors)"

definition product :: "u64 list \<Rightarrow> u64 result" where
  "product factors = product_loop 1 factors"

abbreviation extent :: "tensor_view \<Rightarrow> nat \<Rightarrow> u64" where
  "extent view axis \<equiv> sh_extents (tv_shape view) ! axis"

abbreviation rank :: "tensor_view \<Rightarrow> u8" where
  "rank view \<equiv> sh_rank (tv_shape view)"

end
