(* ===== verification/CpuKernels.thy ===== *)
theory CpuKernels
  imports CpuOperators
begin

text \<open>
  The kernels of \<open>cpu/operators.cpp\<close>: normalization, linear maps, softmax, rotary positions,
  the cache of keys and values, attention, and the workspace they share. A kernel returns
  its status and the memory; attention, which cuts its scratch span into pieces, is None
  where a piece would lie outside.
\<close>

section \<open>Workspace\<close>

record cpu_workspace =
  ws_storage :: host_buffer
  ws_capacity :: u64

text \<open>\<open>block\<close> is the address \<open>operator new\<close> returns.\<close>

definition workspace_allocate :: "u64 \<Rightarrow> u64 \<Rightarrow> cpu_workspace result" where
  "workspace_allocate block float_capacity =
     (if float_capacity > u64_max then fail Resource_limit
      else
        (case checked_multiply float_capacity 4 of
           Inl e \<Rightarrow> Inl e
         | Inr bytes \<Rightarrow>
             (case fst (host_allocate block bytes 64 (\<lambda>_. None)) of
                Inl e \<Rightarrow> Inl e
              | Inr storage \<Rightarrow> Inr \<lparr>ws_storage = storage, ws_capacity = float_capacity\<rparr>)))"

definition workspace_floats :: "cpu_workspace \<Rightarrow> u64 \<times> u64" where
  "workspace_floats w = (hb_data (ws_storage w), ws_capacity w)"

section \<open>Normalization\<close>

definition sum_squares :: "float_ops \<Rightarrow> u64 \<Rightarrow> nat \<Rightarrow> nat \<Rightarrow> memory \<Rightarrow> f32" where
  "sum_squares fo input row hidden m =
     fold (\<lambda>column acc. let v = rd m input (row * hidden + column)
                        in fl_add fo acc (fl_mul fo v v)) [0..<hidden] f32_zero"

definition rms_norm_row ::
  "float_ops \<Rightarrow> u64 \<Rightarrow> u64 \<Rightarrow> f32 \<Rightarrow> u64 \<Rightarrow> u64 \<Rightarrow> nat \<Rightarrow> memory \<Rightarrow> memory" where
  "rms_norm_row fo input weight epsilon output hidden row m =
     (let n = unat hidden;
          inverse_rms = fl_div fo f32_one (fl_sqrt fo (fl_add fo
            (fl_div fo (sum_squares fo input row n m) (fl_of_u64 fo hidden)) epsilon))
      in fold (\<lambda>column m'. wr output (row * n + column)
             (fl_mul fo (fl_mul fo (rd m' input (row * n + column)) inverse_rms)
               (rd m' weight column)) m') [0..<n] m)"

definition rms_norm_f32 ::
  "float_ops \<Rightarrow> tensor_view \<Rightarrow> tensor_view \<Rightarrow> f32 \<Rightarrow> tensor_view \<Rightarrow> memory \<Rightarrow> status \<times> memory" where
  "rms_norm_f32 fo input weight epsilon output m =
     (let failed = first_failure [validate_f32_host input, validate_f32_host weight,
            validate_f32_host output]
      in if \<not> status_ok failed then (failed, m)
         else if \<not> f32_is_finite epsilon \<or> f32_not_positive epsilon \<or> rank input = 0 \<or>
                 rank weight \<noteq> 1 \<or> tv_shape output \<noteq> tv_shape input \<or>
                 extent input (unat (rank input) - 1) \<noteq> extent weight 0
         then (status_failure Invalid_shape, m)
         else
           let alias_status = validate_output_alias input output True;
               weight_alias_status = validate_no_overlap weight output
           in if \<not> status_ok alias_status then (alias_status, m)
              else if \<not> status_ok weight_alias_status then (weight_alias_status, m)
              else
                (case checked_numel (tv_shape input) of
                   Inl e \<Rightarrow> (e, m)
                 | Inr element_count \<Rightarrow>
                     let hidden = extent weight 0
                     in if hidden = 0 \<or> element_count mod hidden \<noteq> 0
                        then (status_failure Invalid_shape, m)
                        else (status_success,
                          fold (rms_norm_row fo (tv_data input) (tv_data weight) epsilon
                              (tv_data output) hidden)
                            [0..<unat (element_count div hidden)] m)))"

section \<open>Linear maps\<close>

definition dot_row :: "float_ops \<Rightarrow> u64 \<Rightarrow> nat \<Rightarrow> u64 \<Rightarrow> nat \<Rightarrow> nat \<Rightarrow> memory \<Rightarrow> f32" where
  "dot_row fo input row weight output_column width m =
     fold (\<lambda>input_column acc. fl_add fo acc
         (fl_mul fo (rd m input (row * width + input_column))
           (rd m weight (output_column * width + input_column)))) [0..<width] f32_zero"

definition linear_row ::
  "float_ops \<Rightarrow> u64 \<Rightarrow> u64 \<Rightarrow> u64 \<Rightarrow> nat \<Rightarrow> nat \<Rightarrow> nat \<Rightarrow> memory \<Rightarrow> memory" where
  "linear_row fo input weight output input_width output_width row m =
     fold (\<lambda>output_column m'. wr output (row * output_width + output_column)
         (dot_row fo input row weight output_column input_width m') m') [0..<output_width] m"

definition linear_f32 ::
  "float_ops \<Rightarrow> tensor_view \<Rightarrow> tensor_view \<Rightarrow> tensor_view \<Rightarrow> memory \<Rightarrow> status \<times> memory" where
  "linear_f32 fo input weight output m =
     (let failed = first_failure [validate_f32_host input, validate_f32_host weight,
            validate_f32_host output]
      in if \<not> status_ok failed then (failed, m)
         else if rank input \<noteq> 2 \<or> rank weight \<noteq> 2 \<or> rank output \<noteq> 2 \<or> extent input 0 = 0 \<or>
                 extent input 1 = 0 \<or> extent weight 0 = 0 \<or> extent weight 1 \<noteq> extent input 1 \<or>
                 extent output 0 \<noteq> extent input 0 \<or> extent output 1 \<noteq> extent weight 0
         then (status_failure Invalid_shape, m)
         else
           let input_alias = validate_no_overlap input output;
               weight_alias = validate_no_overlap weight output
           in if \<not> status_ok input_alias then (input_alias, m)
              else if \<not> status_ok weight_alias then (weight_alias, m)
              else (status_success,
                fold (linear_row fo (tv_data input) (tv_data weight) (tv_data output)
                    (unat (extent input 1)) (unat (extent weight 0)))
                  [0..<unat (extent input 0)] m))"

section \<open>Softmax\<close>

text \<open>The check of a row's valid length and of its values.\<close>

definition softmax_row_ok :: "u64 \<Rightarrow> nat \<Rightarrow> u32 list \<Rightarrow> memory \<Rightarrow> nat \<Rightarrow> bool" where
  "softmax_row_ok input columns valid_lengths m row \<longleftrightarrow>
     (let valid = unat (valid_lengths ! row)
      in \<not> (valid = 0 \<or> valid > columns) \<and>
         list_all (\<lambda>column. f32_is_finite (rd m input (row * columns + column))) [0..<valid])"

definition softmax_row ::
  "float_ops \<Rightarrow> u64 \<Rightarrow> nat \<Rightarrow> u32 list \<Rightarrow> u64 \<Rightarrow> nat \<Rightarrow> memory \<Rightarrow> memory" where
  "softmax_row fo input columns valid_lengths output row m =
     (let valid = unat (valid_lengths ! row);
          maximum = fold (\<lambda>column acc. f32_max acc (rd m input (row * columns + column)))
            [0..<valid] f32_minus_infinity;
          (m1, denominator) = fold (\<lambda>column (m', acc).
              let v = fl_exp fo (fl_sub fo (rd m' input (row * columns + column)) maximum)
              in (wr output (row * columns + column) v m', fl_add fo acc v))
            [0..<valid] (m, f32_zero);
          inverse_denominator = fl_div fo f32_one denominator;
          m2 = fold (\<lambda>column m'. wr output (row * columns + column)
              (fl_mul fo (rd m' output (row * columns + column)) inverse_denominator) m')
            [0..<valid] m1
      in fold (\<lambda>column. wr output (row * columns + column) f32_zero) [valid..<columns] m2)"

definition softmax_f32 ::
  "float_ops \<Rightarrow> tensor_view \<Rightarrow> u32 list \<Rightarrow> tensor_view \<Rightarrow> memory \<Rightarrow> status \<times> memory" where
  "softmax_f32 fo input valid_lengths output m =
     (let failed = first_failure [validate_f32_host input, validate_f32_host output]
      in if \<not> status_ok failed then (failed, m)
         else if rank input \<noteq> 2 \<or> tv_shape output \<noteq> tv_shape input \<or> extent input 0 = 0 \<or>
                 extent input 1 = 0 \<or> length valid_lengths \<noteq> unat (extent input 0)
         then (status_failure Invalid_shape, m)
         else
           let alias_status = validate_output_alias input output True
           in if \<not> status_ok alias_status then (alias_status, m)
              else
                let rows = unat (extent input 0); columns = unat (extent input 1)
                in (case List.find
                          (\<lambda>row. \<not> softmax_row_ok (tv_data input) columns valid_lengths m row) [0..<rows] of
                      Some row \<Rightarrow> (status_failure_at Invalid_argument (of_nat row), m)
                    | None \<Rightarrow> (status_success,
                        fold (softmax_row fo (tv_data input) columns valid_lengths (tv_data output))
                          [0..<rows] m)))"

section \<open>Rotary positions\<close>

record rope_spec =
  rs_theta :: f32
  rs_max_positions :: u32

definition validate_rope_tensor :: "tensor_view \<Rightarrow> status" where
  "validate_rope_tensor view =
     (let s = validate_f32_host view
      in if \<not> status_ok s then s
         else if rank view \<noteq> 4 \<or> extent view 0 = 0 \<or> extent view 1 = 0 \<or> extent view 2 = 0 \<or>
                 extent view 3 = 0 \<or> extent view 3 mod 2 \<noteq> 0
         then status_failure Invalid_shape else status_success)"

definition rotate_pair ::
  "float_ops \<Rightarrow> f32 \<Rightarrow> u64 \<Rightarrow> u32 \<Rightarrow> u64 \<Rightarrow> nat \<Rightarrow> nat \<Rightarrow> memory \<Rightarrow> memory" where
  "rotate_pair fo theta head_dim position data vector_offset dimension m =
     (let half = unat head_dim div 2;
          exponent = fl_div fo (fl_of_u64 fo (2 * of_nat dimension)) (fl_of_u64 fo head_dim);
          angle = fl_div fo (fl_of_u64 fo (ucast position)) (fl_pow fo theta exponent);
          cosine = fl_cos fo angle;
          sine = fl_sin fo angle;
          first = rd m data (vector_offset + dimension);
          second = rd m data (vector_offset + half + dimension)
      in wr data (vector_offset + half + dimension)
           (fl_add fo (fl_mul fo second cosine) (fl_mul fo first sine))
           (wr data (vector_offset + dimension)
             (fl_sub fo (fl_mul fo first cosine) (fl_mul fo second sine)) m))"

text \<open>The lambda \<open>rotate\<close>: all heads of one token.\<close>

definition rotate ::
  "float_ops \<Rightarrow> f32 \<Rightarrow> u64 \<Rightarrow> nat \<Rightarrow> u64 \<Rightarrow> nat \<Rightarrow> nat \<Rightarrow> nat \<Rightarrow> u32 \<Rightarrow> memory \<Rightarrow> memory" where
  "rotate fo theta head_dim tokens data heads batch_index token position m =
     fold (\<lambda>head. fold (rotate_pair fo theta head_dim position data
           (((batch_index * tokens + token) * heads + head) * unat head_dim))
         [0..<unat head_dim div 2]) [0..<heads] m"

definition apply_rope_f32 ::
  "float_ops \<Rightarrow> tensor_view \<Rightarrow> tensor_view \<Rightarrow> u32 list \<Rightarrow> rope_spec \<Rightarrow> memory \<Rightarrow> status \<times> memory" where
  "apply_rope_f32 fo query key positions spec m =
     (if \<not> status_ok (validate_rope_tensor query) then (validate_rope_tensor query, m)
      else if \<not> status_ok (validate_rope_tensor key) then (validate_rope_tensor key, m)
      else if extent query 0 \<noteq> extent key 0 \<or> extent query 1 \<noteq> extent key 1 \<or>
              extent query 3 \<noteq> extent key 3 \<or>
              of_nat (length positions) \<noteq> extent query 0 * extent query 1 \<or>
              \<not> f32_is_finite (rs_theta spec) \<or> f32_not_positive (rs_theta spec) \<or>
              rs_max_positions spec = 0
      then (status_failure Invalid_shape, m)
      else
        (case (view_range query, view_range key) of
           (Inl e, _) \<Rightarrow> (e, m)
         | (Inr _, Inl e) \<Rightarrow> (e, m)
         | (Inr query_range, Inr key_range) \<Rightarrow>
             if overlaps query_range key_range then (status_failure Invalid_argument, m)
             else if \<not> list_all (\<lambda>position. position < rs_max_positions spec) positions
             then (status_failure Invalid_argument, m)
             else
               let batch = unat (extent query 0); tokens = unat (extent query 1);
                   head_dim = extent query 3
               in (status_success,
                   fold (\<lambda>batch_index. fold (\<lambda>token m'.
                       let position = positions ! (batch_index * tokens + token)
                       in rotate fo (rs_theta spec) head_dim tokens (tv_data key)
                            (unat (extent key 2)) batch_index token position
                            (rotate fo (rs_theta spec) head_dim tokens (tv_data query)
                              (unat (extent query 2)) batch_index token position m'))
                     [0..<tokens]) [0..<batch] m)))"

end
