(* ===== verification/CpuLayer.thy ===== *)
theory CpuLayer
  imports CpuKernels
begin

text \<open>
  The cache of keys and values, grouped-query attention and the decoder layer of
  \<open>cpu/operators.cpp\<close>. Where a span is cut beyond its end the result is None.
\<close>

section \<open>The cache of keys and values\<close>

record cpu_kv_view =
  kv_key :: tensor_view
  kv_value :: tensor_view

definition append_kv_f32 ::
  "tensor_view \<Rightarrow> tensor_view \<Rightarrow> u32 list \<Rightarrow> cpu_kv_view \<Rightarrow> memory \<Rightarrow> status \<times> memory" where
  "append_kv_f32 key value positions cache m =
     (let kc = kv_key cache; vc = kv_value cache;
          failed = first_failure [validate_f32_host key, validate_f32_host value,
            validate_f32_host kc, validate_f32_host vc]
      in if \<not> status_ok failed then (failed, m)
         else if rank key \<noteq> 4 \<or> tv_shape value \<noteq> tv_shape key \<or> rank kc \<noteq> 4 \<or>
                 tv_shape vc \<noteq> tv_shape kc \<or> extent key 0 \<noteq> extent kc 0 \<or>
                 extent key 2 \<noteq> extent kc 2 \<or> extent key 3 \<noteq> extent kc 3 \<or>
                 of_nat (length positions) \<noteq> extent key 0 * extent key 1
         then (status_failure Invalid_shape, m)
         else if \<not> list_all (\<lambda>position. \<not> ucast position \<ge> extent kc 1) positions
         then (status_failure Invalid_argument, m)
         else
           let aliased = first_failure [validate_no_overlap key kc, validate_no_overlap key vc,
                 validate_no_overlap value kc, validate_no_overlap value vc]
           in if \<not> status_ok aliased then (aliased, m)
              else
                let batch = unat (extent key 0); tokens = unat (extent key 1);
                    token_width = unat (extent key 2) * unat (extent key 3);
                    maximum_context = unat (extent kc 1)
                in (status_success,
                    fold (\<lambda>batch_index. fold (\<lambda>token m'.
                        let position = unat (positions ! (batch_index * tokens + token));
                            source_offset = (batch_index * tokens + token) * token_width;
                            destination_offset =
                              (batch_index * maximum_context + position) * token_width
                        in copy_floats (tv_data vc) destination_offset (tv_data value)
                             source_offset token_width
                             (copy_floats (tv_data kc) destination_offset (tv_data key)
                               source_offset token_width m'))
                      [0..<tokens]) [0..<batch] m))"

section \<open>Attention\<close>

text \<open>
  The body of the innermost of the three outer loops: one query head of one token. The span
  of logits is at address \<open>logits\<close>.
\<close>

definition attention_scores ::
  "float_ops \<Rightarrow> u64 \<Rightarrow> nat \<Rightarrow> u64 \<Rightarrow> (nat \<Rightarrow> nat) \<Rightarrow> nat \<Rightarrow> f32 \<Rightarrow> u64 \<Rightarrow> nat \<Rightarrow> memory \<Rightarrow> memory \<times> f32" where
  "attention_scores fo query_data query_offset key_data key_offset head_dim scale logits valid_keys m =
     fold (\<lambda>key_token (m', maximum).
         let dot = fold (\<lambda>dimension acc. fl_add fo acc
               (fl_mul fo (rd m' query_data (query_offset + dimension))
                 (rd m' key_data (key_offset key_token + dimension)))) [0..<head_dim] f32_zero;
             m'' = wr logits key_token (fl_mul fo dot scale) m'
         in (m'', f32_max maximum (rd m'' logits key_token)))
       [0..<valid_keys] (m, f32_minus_infinity)"

definition attention_weights_of ::
  "float_ops \<Rightarrow> u64 \<Rightarrow> nat \<Rightarrow> f32 \<Rightarrow> memory \<Rightarrow> memory" where
  "attention_weights_of fo logits valid_keys maximum m =
     (let (m1, denominator) = fold (\<lambda>key_token (m', acc).
            let probability = fl_exp fo (fl_sub fo (rd m' logits key_token) maximum)
            in (wr logits key_token probability m', fl_add fo acc probability))
          [0..<valid_keys] (m, f32_zero);
          inverse_denominator = fl_div fo f32_one denominator
      in fold (\<lambda>key_token m'. wr logits key_token
             (fl_mul fo (rd m' logits key_token) inverse_denominator) m') [0..<valid_keys] m1)"

definition attention_values ::
  "float_ops \<Rightarrow> u64 \<Rightarrow> nat \<Rightarrow> u64 \<Rightarrow> (nat \<Rightarrow> nat) \<Rightarrow> nat \<Rightarrow> u64 \<Rightarrow> nat \<Rightarrow> memory \<Rightarrow> memory" where
  "attention_values fo output_data output_offset value_data value_offset head_dim logits valid_keys m =
     fold (\<lambda>dimension m'. wr output_data (output_offset + dimension)
         (fold (\<lambda>key_token acc. fl_add fo acc
             (fl_mul fo (rd m' logits key_token)
               (rd m' value_data (value_offset key_token + dimension)))) [0..<valid_keys] f32_zero) m')
       [0..<head_dim] m"

fun fold_option :: "('a \<Rightarrow> 's \<Rightarrow> 's option) \<Rightarrow> 'a list \<Rightarrow> 's \<Rightarrow> 's option" where
  "fold_option f [] s = Some s"
| "fold_option f (x # xs) s = (case f x s of None \<Rightarrow> None | Some s' \<Rightarrow> fold_option f xs s')"

text \<open>\<open>scratch\<close> is a span: its address and its size.\<close>

definition attention_head ::
  "float_ops \<Rightarrow> tensor_view \<Rightarrow> tensor_view \<Rightarrow> tensor_view \<Rightarrow> u32 list \<Rightarrow> tensor_view \<Rightarrow>
     u64 \<times> nat \<Rightarrow> nat \<Rightarrow> nat \<Rightarrow> nat \<Rightarrow> memory \<Rightarrow> memory option" where
  "attention_head fo query key_cache value_cache context_lengths output scratch
       batch_index token query_head m =
     (let tokens = unat (extent query 1); query_heads = unat (extent query 2);
          head_dim = unat (extent query 3); maximum_context = unat (extent key_cache 1);
          kv_heads = unat (extent key_cache 2); groups = query_heads div kv_heads;
          scale = fl_div fo f32_one (fl_sqrt fo (fl_of_u64 fo (extent query 3)));
          query_start = unat (context_lengths ! batch_index) - tokens;
          valid_keys = query_start + token + 1;
          kv_head = query_head div groups;
          row = (batch_index * tokens + token) * query_heads + query_head;
          scratch_offset = row * maximum_context;
          cache_offset = (\<lambda>key_token.
            ((batch_index * maximum_context + key_token) * kv_heads + kv_head) * head_dim)
      in if scratch_offset + maximum_context > snd scratch then None
         else
           let logits = fst scratch + 4 * of_nat scratch_offset;
               (m1, maximum) = attention_scores fo (tv_data query) (row * head_dim)
                 (tv_data key_cache) cache_offset head_dim scale logits valid_keys m;
               m2 = attention_weights_of fo logits valid_keys maximum m1
           in Some (attention_values fo (tv_data output) (row * head_dim) (tv_data value_cache)
                cache_offset head_dim logits valid_keys m2))"

definition attention_impl ::
  "float_ops \<Rightarrow> tensor_view \<Rightarrow> tensor_view \<Rightarrow> tensor_view \<Rightarrow> u32 list \<Rightarrow> tensor_view \<Rightarrow>
     u64 \<times> nat \<Rightarrow> memory \<Rightarrow> (status \<times> memory) option" where
  "attention_impl fo query key_cache value_cache context_lengths output scratch m =
     map_option (Pair status_success)
       (fold_option (\<lambda>batch_index. fold_option (\<lambda>token. fold_option
             (attention_head fo query key_cache value_cache context_lengths output scratch
               batch_index token)
           [0..<unat (extent query 2)]) [0..<unat (extent query 1)])
         [0..<unat (extent query 0)] m)"

definition validate_attention_shapes ::
  "tensor_view \<Rightarrow> tensor_view \<Rightarrow> tensor_view \<Rightarrow> tensor_view \<Rightarrow> u32 list \<Rightarrow> status" where
  "validate_attention_shapes query key_cache value_cache output context_lengths =
     (let failed = first_failure [validate_f32_host query, validate_f32_host key_cache,
            validate_f32_host value_cache, validate_f32_host output]
      in if \<not> status_ok failed then failed
         else if rank query \<noteq> 4 \<or> rank key_cache \<noteq> 4 \<or>
                 tv_shape value_cache \<noteq> tv_shape key_cache \<or> tv_shape output \<noteq> tv_shape query
         then status_failure Invalid_shape
         else
           let batch = extent query 0; tokens = extent query 1; query_heads = extent query 2;
               head_dim = extent query 3; maximum_context = extent key_cache 1;
               kv_heads = extent key_cache 2
           in if batch = 0 \<or> tokens = 0 \<or> query_heads = 0 \<or> head_dim = 0 \<or>
                 maximum_context = 0 \<or> kv_heads = 0 \<or> extent key_cache 0 \<noteq> batch \<or>
                 extent key_cache 3 \<noteq> head_dim \<or> query_heads mod kv_heads \<noteq> 0 \<or>
                 of_nat (length context_lengths) \<noteq> batch
              then status_failure Invalid_shape
              else if \<not> list_all (\<lambda>context. \<not> (ucast context < tokens \<or> ucast context > maximum_context))
                     context_lengths
              then status_failure Invalid_argument
              else
                let output_vs_query = validate_no_overlap query output;
                    output_vs_key = validate_no_overlap key_cache output
                in if \<not> status_ok output_vs_query then output_vs_query
                   else if \<not> status_ok output_vs_key then output_vs_key
                   else validate_no_overlap value_cache output)"

definition required_attention_workspace_floats :: "tensor_view \<Rightarrow> tensor_view \<Rightarrow> u64 result" where
  "required_attention_workspace_floats query key_cache =
     (if rank query \<noteq> 4 \<or> rank key_cache \<noteq> 4 then fail Invalid_shape
      else product [extent query 0, extent query 1, extent query 2, extent key_cache 1])"

text \<open>The nested loops over the keys and values that attention reads.\<close>

definition cache_finite :: "tensor_view \<Rightarrow> tensor_view \<Rightarrow> u32 list \<Rightarrow> memory \<Rightarrow> bool" where
  "cache_finite key_cache value_cache context_lengths m \<longleftrightarrow>
     (let maximum_context = unat (extent key_cache 1); kv_heads = unat (extent key_cache 2);
          head_dim = unat (extent key_cache 3)
      in list_all (\<lambda>batch_index. list_all (\<lambda>token. list_all (\<lambda>head. list_all (\<lambda>dimension.
             let index = ((batch_index * maximum_context + token) * kv_heads + head) * head_dim + dimension
             in f32_is_finite (rd m (tv_data key_cache) index) \<and>
                f32_is_finite (rd m (tv_data value_cache) index))
           [0..<head_dim]) [0..<kv_heads]) [0..<unat (context_lengths ! batch_index)])
         [0..<unat (extent key_cache 0)])"

definition attention_f32 ::
  "float_ops \<Rightarrow> tensor_view \<Rightarrow> tensor_view \<Rightarrow> tensor_view \<Rightarrow> u32 list \<Rightarrow> tensor_view \<Rightarrow>
     cpu_workspace \<Rightarrow> memory \<Rightarrow> (status \<times> memory) option" where
  "attention_f32 fo query key_cache value_cache context_lengths output workspace m =
     (let validation = validate_attention_shapes query key_cache value_cache output context_lengths
      in if \<not> status_ok validation then Some (validation, m)
         else
           (case required_attention_workspace_floats query key_cache of
              Inl _ \<Rightarrow> Some (status_failure Insufficient_memory, m)
            | Inr required \<Rightarrow>
                if required > ws_capacity workspace
                then Some (status_failure Insufficient_memory, m)
                else
                  (case checked_numel (tv_shape query) of
                     Inl _ \<Rightarrow> Some (status_failure Invalid_shape, m)
                   | Inr query_count \<Rightarrow>
                       if \<not> list_all (\<lambda>index. f32_is_finite (rd m (tv_data query) index))
                              [0..<unat query_count]
                       then Some (status_failure Invalid_argument, m)
                       else if \<not> cache_finite key_cache value_cache context_lengths m
                       then Some (status_failure Invalid_argument, m)
                       else attention_impl fo query key_cache value_cache context_lengths output
                              (fst (workspace_floats workspace), unat required) m)))"

end
