(* ===== verification/CpuReference.thy ===== *)
theory CpuReference
  imports CpuLayer
begin

text \<open>
  The reference the kernels are compared with, over vectors of floats instead of memory, and
  the calculus of writes to consecutive floats that the comparison uses.
\<close>

section \<open>Reference definitions\<close>

text \<open>A vector is a function of the index; a matrix of rows of width \<open>n\<close> is one too.\<close>

type_synonym vec = "nat \<Rightarrow> f32"

definition row_of :: "vec \<Rightarrow> nat \<Rightarrow> nat \<Rightarrow> vec" where
  "row_of x width row = (\<lambda>i. x (row * width + i))"

definition dot :: "float_ops \<Rightarrow> nat \<Rightarrow> vec \<Rightarrow> vec \<Rightarrow> f32" where
  "dot fo n x y = fold (\<lambda>i acc. fl_add fo acc (fl_mul fo (x i) (y i))) [0..<n] f32_zero"

definition normalized_vec :: "float_ops \<Rightarrow> f32 \<Rightarrow> u64 \<Rightarrow> vec \<Rightarrow> vec \<Rightarrow> vec" where
  "normalized_vec fo epsilon hidden w x =
     (let inverse_rms = fl_div fo f32_one (fl_sqrt fo (fl_add fo
            (fl_div fo (dot fo (unat hidden) x x) (fl_of_u64 fo hidden)) epsilon))
      in (\<lambda>i. fl_mul fo (fl_mul fo (x i) inverse_rms) (w i)))"

definition linear_vec :: "float_ops \<Rightarrow> nat \<Rightarrow> vec \<Rightarrow> vec \<Rightarrow> vec" where
  "linear_vec fo width w x = (\<lambda>j. dot fo width x (row_of w width j))"

definition maximum_of :: "nat \<Rightarrow> vec \<Rightarrow> f32" where
  "maximum_of n x = fold (\<lambda>i acc. f32_max acc (x i)) [0..<n] f32_minus_infinity"

definition sum_of :: "float_ops \<Rightarrow> nat \<Rightarrow> vec \<Rightarrow> f32" where
  "sum_of fo n x = fold (\<lambda>i acc. fl_add fo acc (x i)) [0..<n] f32_zero"

definition softmax_vec :: "float_ops \<Rightarrow> nat \<Rightarrow> vec \<Rightarrow> vec" where
  "softmax_vec fo n x =
     (let e = (\<lambda>i. fl_exp fo (fl_sub fo (x i) (maximum_of n x)));
          inverse_denominator = fl_div fo f32_one (sum_of fo n e)
      in (\<lambda>i. fl_mul fo (e i) inverse_denominator))"

definition rope_angle :: "float_ops \<Rightarrow> f32 \<Rightarrow> u64 \<Rightarrow> u32 \<Rightarrow> nat \<Rightarrow> f32" where
  "rope_angle fo theta head_dim position dimension =
     fl_div fo (fl_of_u64 fo (ucast position)) (fl_pow fo theta
       (fl_div fo (fl_of_u64 fo (2 * of_nat dimension)) (fl_of_u64 fo head_dim)))"

text \<open>One vector of all heads: the halves of each head are rotated against each other.\<close>

definition rope_vec :: "float_ops \<Rightarrow> f32 \<Rightarrow> u64 \<Rightarrow> u32 \<Rightarrow> vec \<Rightarrow> vec" where
  "rope_vec fo theta head_dim position x =
     (\<lambda>i. let d = unat head_dim; half = d div 2; dimension = i mod d
          in if dimension < half
             then let angle = rope_angle fo theta head_dim position dimension
                  in fl_sub fo (fl_mul fo (x i) (fl_cos fo angle))
                       (fl_mul fo (x (i + half)) (fl_sin fo angle))
             else let angle = rope_angle fo theta head_dim position (dimension - half)
                  in fl_add fo (fl_mul fo (x i) (fl_cos fo angle))
                       (fl_mul fo (x (i - half)) (fl_sin fo angle)))"

text \<open>
  Grouped-query attention of one token: \<open>keys\<close> and \<open>values\<close> give the vector of all heads
  of a position, \<open>groups\<close> query heads share one of them.
\<close>

definition attention_vec ::
  "float_ops \<Rightarrow> u64 \<Rightarrow> nat \<Rightarrow> (nat \<Rightarrow> vec) \<Rightarrow> (nat \<Rightarrow> vec) \<Rightarrow> nat \<Rightarrow> vec \<Rightarrow> vec" where
  "attention_vec fo head_dim groups keys values valid_keys query =
     (\<lambda>i. let d = unat head_dim; query_head = i div d; kv_head = query_head div groups;
              scale = fl_div fo f32_one (fl_sqrt fo (fl_of_u64 fo head_dim));
              scores = (\<lambda>k. fl_mul fo (dot fo d (row_of query d query_head)
                (row_of (keys k) d kv_head)) scale)
          in dot fo valid_keys (softmax_vec fo valid_keys scores)
               (\<lambda>k. values k (kv_head * d + i mod d)))"

section \<open>Only the elements in range matter\<close>

lemma fold_upt_cong:
  assumes "\<And>i s. i < n \<Longrightarrow> f i s = g i s" shows "fold f [0..<n] s = fold g [0..<n] s"
  by (rule fold_cong) (use assms in auto)

lemma dot_cong:
  assumes "\<And>i. i < n \<Longrightarrow> x i = x' i" "\<And>i. i < n \<Longrightarrow> y i = y' i"
  shows "dot fo n x y = dot fo n x' y'"
  unfolding dot_def by (rule fold_upt_cong) (simp add: assms)

lemma normalized_vec_cong:
  assumes "\<And>i. i < unat hidden \<Longrightarrow> x i = x' i" "w j = w' j" "j < unat hidden"
  shows "normalized_vec fo epsilon hidden w x j = normalized_vec fo epsilon hidden w' x' j"
  using dot_cong [of "unat hidden" x x' x x' fo] assms by (simp add: normalized_vec_def Let_def)

lemma linear_vec_cong:
  assumes "\<And>i. i < width \<Longrightarrow> x i = x' i" "\<And>i. i < width \<Longrightarrow> w (j * width + i) = w' (j * width + i)"
  shows "linear_vec fo width w x j = linear_vec fo width w' x' j"
  unfolding linear_vec_def by (rule dot_cong) (simp_all add: assms row_of_def)

lemma maximum_of_cong: "(\<And>i. i < n \<Longrightarrow> x i = y i) \<Longrightarrow> maximum_of n x = maximum_of n y"
  unfolding maximum_of_def by (rule fold_upt_cong) simp

lemma sum_of_cong: "(\<And>i. i < n \<Longrightarrow> x i = y i) \<Longrightarrow> sum_of fo n x = sum_of fo n y"
  unfolding sum_of_def by (rule fold_upt_cong) simp

lemma softmax_vec_cong:
  assumes "\<And>i. i < n \<Longrightarrow> x i = y i" "j < n"
  shows "softmax_vec fo n x j = softmax_vec fo n y j"
proof -
  have m: "maximum_of n x = maximum_of n y" by (rule maximum_of_cong) (rule assms(1))
  have "sum_of fo n (\<lambda>i. fl_exp fo (fl_sub fo (x i) (maximum_of n y))) =
      sum_of fo n (\<lambda>i. fl_exp fo (fl_sub fo (y i) (maximum_of n y)))"
    by (rule sum_of_cong) (simp add: assms(1))
  then show ?thesis using assms m by (simp add: softmax_vec_def Let_def)
qed

lemma attention_vec_cong:
  assumes "\<And>i. i < n * unat head_dim \<Longrightarrow> q i = q' i" "j < n * unat head_dim"
    "\<And>k i. k < valid \<Longrightarrow> i < width \<Longrightarrow> keys k i = keys' k i"
    "\<And>k i. k < valid \<Longrightarrow> i < width \<Longrightarrow> values k i = values' k i"
    "\<And>h. h < n \<Longrightarrow> (h div groups) * unat head_dim + unat head_dim \<le> width"
  shows "attention_vec fo head_dim groups keys values valid q j =
    attention_vec fo head_dim groups keys' values' valid q' j"
proof -
  let ?d = "unat head_dim"
  have pos: "0 < ?d" using assms(2) by (cases ?d) auto
  have h: "j div ?d < n" using assms(2) pos by (simp add: div_less_iff_less_mult)
  then have "j div ?d * ?d + ?d \<le> n * ?d"
    by (metis Suc_leI add.commute mult_Suc mult_le_mono1)
  then have "dot fo ?d (row_of q ?d (j div ?d)) (row_of (keys k) ?d (j div ?d div groups)) =
      dot fo ?d (row_of q' ?d (j div ?d)) (row_of (keys' k) ?d (j div ?d div groups))" if "k < valid" for k
    using assms(1,3) assms(5) [OF h] that by (intro dot_cong) (simp_all add: row_of_def)
  moreover have "values k (j div ?d div groups * ?d + j mod ?d) = values' k (j div ?d div groups * ?d + j mod ?d)"
    if "k < valid" for k
    using assms(4) [OF that] assms(5) [OF h] mod_less_divisor [OF pos, of j] by (meson add_less_cancel_left less_le_trans)
  ultimately show ?thesis
    unfolding attention_vec_def Let_def by (intro dot_cong softmax_vec_cong) simp_all
qed

section \<open>Writes\<close>

definition cells :: "u64 \<Rightarrow> nat \<Rightarrow> nat \<Rightarrow> nat set" where
  "cells p offset n = slot p ` {offset..<offset + n}"

text \<open>The memory after the floats from \<open>offset\<close> on have been set to \<open>g 0\<close>, \<open>g 1\<close> and so on.\<close>

definition put :: "u64 \<Rightarrow> nat \<Rightarrow> nat \<Rightarrow> vec \<Rightarrow> memory \<Rightarrow> memory" where
  "put p offset n g m =
     (\<lambda>a. if a \<in> cells p offset n then g ((a - unat p) div 4 - offset) else m a)"

lemma slot_eq [simp]: "slot p i = slot p j \<longleftrightarrow> i = j"
  by (simp add: slot_def)

lemma slot_index [simp]: "(slot p i - unat p) div 4 = i"
  by (simp add: slot_def)

lemma slot_image [simp]: "slot p i \<in> slot p ` A \<longleftrightarrow> i \<in> A"
  by (auto simp: slot_def)

lemma slot_in_cells [simp]: "slot p i \<in> cells p offset n \<longleftrightarrow> offset \<le> i \<and> i < offset + n"
  by (auto simp: cells_def)

lemma cells_0 [simp]: "cells p offset 0 = {}"
  by (simp add: cells_def)

lemma cells_Suc: "cells p offset (Suc n) = insert (slot p (offset + n)) (cells p offset n)"
  by (simp add: cells_def atLeastLessThanSuc)

lemma cells_add: "cells p offset (n + k) = cells p offset n \<union> cells p (offset + n) k"
  unfolding cells_def image_Un [symmetric]
  by (intro arg_cong [where f = "image (slot p)"]) auto

lemma cells_mono: "offset' \<le> offset \<Longrightarrow> offset + n \<le> offset' + n' \<Longrightarrow> cells p offset n \<subseteq> cells p offset' n'"
  by (auto simp: cells_def)

lemma put_0 [simp]: "put p offset 0 g m = m"
  by (simp add: put_def)

lemma put_Suc: "put p offset (Suc n) g m = wr p (offset + n) (g n) (put p offset n g m)"
  by (rule ext) (auto simp: put_def wr_def cells_Suc)

lemma put_put:
  "put p (offset + n) k (\<lambda>i. g (n + i)) (put p offset n g m) = put p offset (n + k) g m"
  by (rule ext) (auto simp: put_def cells_add cells_def)

lemma put_outside: "a \<notin> cells p offset n \<Longrightarrow> put p offset n g m a = m a"
  by (simp add: put_def)

lemma rd_put_same [simp]:
  "rd (put p offset n g m) p i = (if offset \<le> i \<and> i < offset + n then g (i - offset) else rd m p i)"
  by (simp add: rd_def put_def)

lemma rd_put_other: "slot q j \<notin> cells p offset n \<Longrightarrow> rd (put p offset n g m) q j = rd m q j"
  by (simp add: rd_def put_outside)

lemma put_cong: "(\<And>i. i < n \<Longrightarrow> g i = h i) \<Longrightarrow> put p offset n g m = put p offset n h m"
  by (rule ext) (auto simp: put_def cells_def)

lemma put_commute:
  assumes "cells p offset n \<inter> cells q offset' k = {}"
  shows "put p offset n g (put q offset' k h m) = put q offset' k h (put p offset n g m)"
  by (rule ext) (use assms in \<open>auto simp: put_def\<close>)

text \<open>A loop that writes consecutive floats.\<close>

lemma fold_wr:
  assumes "\<And>i. i < n \<Longrightarrow> f i (put p offset i g m) = g i"
  shows "fold (\<lambda>i m'. wr p (offset + i) (f i m') m') [0..<n] m = put p offset n g m"
  using assms by (induction n) (simp_all add: put_Suc)

lemma fold_wr_acc:
  assumes "\<And>i. i < n \<Longrightarrow> f i (put p offset i g m) = g i"
  shows "fold (\<lambda>i (m', acc). (wr p (offset + i) (f i m') m', c acc (f i m'))) [0..<n] (m, s) =
    (put p offset n g m, fold (\<lambda>i acc. c acc (g i)) [0..<n] s)"
  using assms by (induction n) (simp_all add: put_Suc)

lemma fold_wr_const:
  "a \<le> b \<Longrightarrow> fold (\<lambda>i. wr p (offset + i) v) [a..<b] m = put p (offset + a) (b - a) (\<lambda>_. v) m"
proof (induction b)
  case (Suc b)
  then show ?case
    by (cases "a = Suc b") (simp_all add: Suc_diff_le put_Suc le_Suc_eq)
qed simp

lemma put_overwrite [simp]: "put p offset n h (put p offset n g m) = put p offset n h m"
  by (rule ext) (simp add: put_def)

lemma put_append:
  "put p (offset + n) k h (put p offset n g m) =
     put p offset (n + k) (\<lambda>i. if i < n then g i else h (i - n)) m"
  by (rule ext) (auto simp: put_def cells_add cells_def)

text \<open>A loop over rows of equal width, each of which writes its row.\<close>

lemma fold_rows:
  assumes "\<And>r. r < rows \<Longrightarrow> step r (put p offset (r * n) g m) =
      put p (offset + r * n) n (\<lambda>j. g (r * n + j)) (put p offset (r * n) g m)"
  shows "fold step [0..<rows] m = put p offset (rows * n) g m"
  using assms
proof (induction rows)
  case (Suc rows)
  then have "fold step [0..<rows] m = put p offset (rows * n) g m" by simp
  with Suc.prems [of rows] have "fold step [0..<Suc rows] m =
      put p (offset + rows * n) n (\<lambda>j. g (rows * n + j)) (put p offset (rows * n) g m)"
    by simp
  also have "\<dots> = put p offset (rows * n + n) g m" by (rule put_put)
  finally show ?case by (simp add: add.commute)
qed simp

text \<open>The same for a loop that writes a row of each of two places.\<close>

lemma fold_rows2:
  assumes "cells p 0 (rows * n) \<inter> cells q 0 (rows * k) = {}"
    "\<And>r. r < rows \<Longrightarrow> step r (put q 0 (r * k) h (put p 0 (r * n) g m)) =
      put q (r * k) k (\<lambda>j. h (r * k + j)) (put p (r * n) n (\<lambda>j. g (r * n + j))
        (put q 0 (r * k) h (put p 0 (r * n) g m)))"
  shows "fold step [0..<rows] m = put q 0 (rows * k) h (put p 0 (rows * n) g m)"
  using assms
proof (induction rows)
  case (Suc r)
  let ?m = "put q 0 (r * k) h (put p 0 (r * n) g m)"
  have sub: "cells p 0 (r * n) \<subseteq> cells p 0 (Suc r * n)" "cells p (r * n) n \<subseteq> cells p 0 (Suc r * n)"
    "cells q 0 (r * k) \<subseteq> cells q 0 (Suc r * k)"
    by (intro cells_mono; simp)+
  have "fold step [0..<r] m = ?m" by (rule Suc.IH) (use Suc.prems sub in auto)
  with Suc.prems(2) [of r] have "fold step [0..<Suc r] m = put q (r * k) k (\<lambda>j. h (r * k + j))
      (put p (r * n) n (\<lambda>j. g (r * n + j)) ?m)" by simp
  also have "cells p (r * n) n \<inter> cells q 0 (r * k) = {}" using Suc.prems(1) sub by blast
  note put_commute [OF this]
  also have "put q (r * k) k (\<lambda>j. h (r * k + j)) (put q 0 (r * k) h
        (put p (r * n) n (\<lambda>j. g (r * n + j)) (put p 0 (r * n) g m))) =
      put q (0 + r * k) k (\<lambda>j. h (r * k + j)) (put q 0 (r * k) h
        (put p (0 + r * n) n (\<lambda>j. g (r * n + j)) (put p 0 (r * n) g m)))" by simp
  also have "\<dots> = put q 0 (r * k + k) h (put p 0 (r * n + n) g m)"
    unfolding put_put ..
  finally show ?case by (simp add: add.commute)
qed simp

lemma copy_floats_put:
  "copy_floats dst dst_offset src src_offset n m =
     put dst dst_offset n (\<lambda>i. rd m src (src_offset + i)) m"
  unfolding copy_floats_def by (rule fold_wr) simp

lemma rd_wr [simp]: "rd (wr p i v m) p j = (if i = j then v else rd m p j)"
  by (simp add: rd_def wr_def)

lemma wr_put_swap:
  "\<not> (offset \<le> i \<and> i < offset + n) \<Longrightarrow> wr p i v (put p offset n g m) = put p offset n g (wr p i v m)"
  by (rule ext) (auto simp: put_def wr_def)

lemma wr_wr_swap: "i \<noteq> j \<Longrightarrow> wr p i v (wr p j w m) = wr p j w (wr p i v m)"
  by (simp add: wr_def fun_upd_twist)

text \<open>The floats of a span that begins \<open>k\<close> floats after \<open>p\<close>.\<close>

lemma slot_shift:
  assumes "unat p + 4 * k < 2 ^ 64" shows "slot (p + 4 * of_nat k) i = slot p (k + i)"
proof -
  have k: "unat (of_nat k :: u64) = k" using assms by (intro unat_u64_of_nat) simp
  have "unat (4 * of_nat k :: u64) = 4 * k"
    using unat_u64_times [of 4 "of_nat k"] assms k by simp
  then show ?thesis using unat_u64_plus [of p "4 * of_nat k"] assms by (simp add: slot_def)
qed

lemma cells_shift:
  assumes "unat p + 4 * k < 2 ^ 64" shows "cells (p + 4 * of_nat k) offset n = cells p (k + offset) n"
proof -
  have "slot (p + 4 * of_nat k) = slot p \<circ> (+) k" using slot_shift [OF assms] by auto
  moreover have "(+) k ` {offset..<offset + n} = {k + offset..<k + offset + n}"
    by (metis add.assoc add.commute image_add_atLeastLessThan)
  ultimately show ?thesis by (simp only: cells_def image_comp [symmetric])
qed

section \<open>Rows\<close>

text \<open>Nested loops are one loop over the rows.\<close>

lemma upt_row: "[0..<n + k] = [0..<k] @ map (\<lambda>t. k + t) [0..<n]"
proof -
  have "map (\<lambda>t. k + t) [0..<n] = [k..<k + n]"
    using map_add_upt [of k n] by (simp only: add.commute)
  then show ?thesis using upt_add_eq_append [of 0 k n] by (simp only: add.commute)
qed

lemma fold_nested:
  "fold (\<lambda>b. fold (\<lambda>t. f (b * T + t)) [0..<T]) [0..<B] s = fold f [0..<B * T] s"
proof (induction B)
  case (Suc B)
  have "fold (\<lambda>b. fold (\<lambda>t. f (b * T + t)) [0..<T]) [0..<Suc B] s =
      fold (\<lambda>t. f (B * T + t)) [0..<T] (fold f [0..<B * T] s)" using Suc.IH by simp
  then show ?case unfolding mult_Suc upt_row by (simp add: fold_map comp_def)
qed simp

lemma fold_option_append:
  "fold_option f (xs @ ys) s = (case fold_option f xs s of None \<Rightarrow> None | Some s' \<Rightarrow> fold_option f ys s')"
  by (induction xs arbitrary: s) (auto split: option.splits)

lemma fold_option_map: "fold_option f (map g xs) s = fold_option (\<lambda>x. f (g x)) xs s"
  by (induction xs arbitrary: s) (auto split: option.splits)

lemma fold_option_cong:
  "(\<And>x s. x \<in> set xs \<Longrightarrow> f x s = g x s) \<Longrightarrow> fold_option f xs s = fold_option g xs s"
  by (induction xs arbitrary: s) (auto split: option.splits)

lemma fold_option_nested:
  "fold_option (\<lambda>b. fold_option (\<lambda>t. f (b * T + t)) [0..<T]) [0..<B] s = fold_option f [0..<B * T] s"
proof (induction B)
  case (Suc B)
  show ?case using Suc.IH
    by (simp only: mult_Suc upt_row) (simp add: fold_option_append fold_option_map split: option.splits)
qed simp

lemma row_div_mod [simp]:
  "j < n \<Longrightarrow> (r * n + j) div n = r" "j < n \<Longrightarrow> (r * n + j) mod n = (j :: nat)"
  by simp_all

lemma row_bound: "r < rows \<Longrightarrow> j < n \<Longrightarrow> r * n + j < rows * (n :: nat)"
  by (metis add.commute add_less_cancel_right less_le_trans mult.commute mult_Suc mult_le_mono2 Suc_leI add_less_mono1)

text \<open>The matrix whose row \<open>r\<close> of width \<open>n\<close> is \<open>f r\<close>.\<close>

definition by_rows :: "nat \<Rightarrow> (nat \<Rightarrow> vec) \<Rightarrow> vec" where
  "by_rows n f = (\<lambda>x. f (x div n) (x mod n))"

lemma by_rows_at [simp]: "j < n \<Longrightarrow> by_rows n f (r * n + j) = f r j"
  by (simp add: by_rows_def)

end
