(* ===== verification/CpuKernelLoops.thy ===== *)
theory CpuKernelLoops
  imports CpuReference
begin

text \<open>
  The loops of the kernels: each of them is one write of consecutive floats, whose values
  are the reference applied to the memory the loop began with.
\<close>

lemma rd_put_apart:
  assumes "cells q 0 N \<inter> cells p 0 M = {}" "j < N" "offset + n \<le> M"
  shows "rd (put p offset n g m) q j = rd m q j"
proof (rule rd_put_other)
  have "slot q j \<in> cells q 0 N" using assms(2) by simp
  moreover have "cells p offset n \<subseteq> cells p 0 M" using assms(3) by (intro cells_mono) simp_all
  ultimately show "slot q j \<notin> cells p offset n" using assms(1) by blast
qed

lemma rows_le: "r < rows \<Longrightarrow> r * n + n \<le> rows * (n :: nat)"
  by (metis Suc_leI add.commute mult_Suc mult_le_mono1)

section \<open>Linear maps\<close>

lemma dot_row_dot:
  "dot_row fo input row weight column width m =
     dot fo width (row_of (rd m input) width row) (row_of (rd m weight) width column)"
  by (simp add: dot_row_def dot_def row_of_def)

lemma linear_row_put:
  assumes "cells input 0 (rows * k) \<inter> cells output 0 (rows * n) = {}"
    "cells weight 0 (n * k) \<inter> cells output 0 (rows * n) = {}" "r < rows"
  shows "linear_row fo input weight output k n r m =
    put output (r * n) n (linear_vec fo k (rd m weight) (row_of (rd m input) k r)) m"
  unfolding linear_row_def
proof (rule fold_wr)
  fix j assume j: "j < n"
  have "r * n + j \<le> rows * n" using row_bound [OF assms(3) j] by simp
  then show "dot_row fo input r weight j k
      (put output (r * n) j (linear_vec fo k (rd m weight) (row_of (rd m input) k r)) m) =
      linear_vec fo k (rd m weight) (row_of (rd m input) k r) j"
    unfolding dot_row_dot linear_vec_def
    using assms(1,2) row_bound [OF assms(3)] row_bound [OF j]
    by (intro dot_cong) (simp_all add: row_of_def rd_put_apart)
qed

lemma linear_rows_put:
  assumes "cells input 0 (rows * k) \<inter> cells output 0 (rows * n) = {}"
    "cells weight 0 (n * k) \<inter> cells output 0 (rows * n) = {}"
  shows "fold (linear_row fo input weight output k n) [0..<rows] m =
    put output 0 (rows * n)
      (by_rows n (\<lambda>r. linear_vec fo k (rd m weight) (row_of (rd m input) k r))) m"
proof (rule fold_rows)
  fix r assume r: "r < rows"
  let ?g = "by_rows n (\<lambda>r. linear_vec fo k (rd m weight) (row_of (rd m input) k r))"
  let ?m = "put output 0 (r * n) ?g m"
  have before: "0 + r * n \<le> rows * n" using r by simp
  have "linear_vec fo k (rd ?m weight) (row_of (rd ?m input) k r) j = ?g (r * n + j)" if j: "j < n" for j
    unfolding by_rows_at [OF j] row_of_def
    by (rule linear_vec_cong)
      (rule rd_put_apart [OF assms(1) _ before] rd_put_apart [OF assms(2) _ before];
        intro row_bound r j; assumption)+
  then show "linear_row fo input weight output k n r ?m =
      put output (0 + r * n) n (\<lambda>j. ?g (r * n + j)) ?m"
    unfolding linear_row_put [OF assms r] add_0 by (rule put_cong)
qed

section \<open>Normalization\<close>

lemma sum_squares_dot:
  "sum_squares fo input row n m = dot fo n (row_of (rd m input) n row) (row_of (rd m input) n row)"
  by (simp add: sum_squares_def dot_def row_of_def Let_def)

text \<open>The output is apart from the input, or it is the input.\<close>

lemma rms_norm_row_put:
  assumes io: "input = output \<or> cells input 0 (rows * n) \<inter> cells output 0 (rows * n) = {}"
    and "cells weight 0 n \<inter> cells output 0 (rows * n) = {}" "r < rows" "n = unat hidden"
  shows "rms_norm_row fo input weight epsilon output hidden r m =
    put output (r * n) n
      (normalized_vec fo epsilon hidden (rd m weight) (row_of (rd m input) n r)) m"
  unfolding rms_norm_row_def Let_def assms(4) [symmetric]
proof (rule fold_wr)
  fix j assume j: "j < n"
  let ?g = "normalized_vec fo epsilon hidden (rd m weight) (row_of (rd m input) n r)"
  let ?m = "put output (r * n) j ?g m"
  have le: "r * n + j \<le> rows * n" using row_bound [OF assms(3) j] by simp
  have "rd ?m input (r * n + j) = rd m input (r * n + j)"
    using io row_bound [OF assms(3) j] by (auto simp: rd_put_apart)
  moreover have "rd ?m weight j = rd m weight j" using assms(2) j le by (simp add: rd_put_apart)
  ultimately show "fl_mul fo (fl_mul fo (rd ?m input (r * n + j))
      (fl_div fo 1065353216 (fl_sqrt fo (fl_add fo (fl_div fo (sum_squares fo input r n m)
        (fl_of_u64 fo hidden)) epsilon)))) (rd ?m weight j) = ?g j"
    by (simp add: normalized_vec_def row_of_def sum_squares_dot Let_def flip: assms(4))
qed

lemma rms_norm_rows_put:
  assumes io: "input = output \<or> cells input 0 (rows * n) \<inter> cells output 0 (rows * n) = {}"
    and w: "cells weight 0 n \<inter> cells output 0 (rows * n) = {}" and n: "n = unat hidden"
  shows "fold (rms_norm_row fo input weight epsilon output hidden) [0..<rows] m =
    put output 0 (rows * n)
      (by_rows n (\<lambda>r. normalized_vec fo epsilon hidden (rd m weight) (row_of (rd m input) n r))) m"
proof (rule fold_rows)
  fix r assume r: "r < rows"
  let ?g = "by_rows n (\<lambda>r. normalized_vec fo epsilon hidden (rd m weight) (row_of (rd m input) n r))"
  let ?m = "put output 0 (r * n) ?g m"
  have before: "0 + r * n \<le> rows * n" using r by simp
  have input: "row_of (rd ?m input) n r i = row_of (rd m input) n r i" if i: "i < n" for i
    using io row_bound [OF r i] before by (auto simp: row_of_def rd_put_apart)
  have "normalized_vec fo epsilon hidden (rd ?m weight) (row_of (rd ?m input) n r) j = ?g (r * n + j)"
    if j: "j < n" for j
    unfolding by_rows_at [OF j]
    by (rule normalized_vec_cong)
      (simp_all add: input rd_put_apart [OF w _ before] j flip: n)
  then show "rms_norm_row fo input weight epsilon output hidden r ?m =
      put output (0 + r * n) n (\<lambda>j. ?g (r * n + j)) ?m"
    unfolding rms_norm_row_put [OF io w r n] add_0 by (rule put_cong)
qed

section \<open>Softmax\<close>

lemma softmax_row_put:
  assumes io: "input = output \<or> cells input 0 (rows * n) \<inter> cells output 0 (rows * n) = {}"
    and r: "r < rows" and valid: "valid = unat (valid_lengths ! r)" "valid \<le> n"
  shows "softmax_row fo input n valid_lengths output r m =
    put output (r * n) n (\<lambda>j. if j < valid
      then softmax_vec fo valid (row_of (rd m input) n r) j else f32_zero) m"
proof -
  let ?x = "row_of (rd m input) n r"
  let ?max = "maximum_of valid ?x"
  let ?e = "\<lambda>i. fl_exp fo (fl_sub fo (?x i) ?max)"
  let ?put = "put output (r * n) valid ?e m"
  let ?inv = "fl_div fo f32_one (sum_of fo valid ?e)"
  have max: "fold (\<lambda>column acc. f32_max acc (rd m input (r * n + column))) [0..<valid] f32_minus_infinity = ?max"
    by (simp add: maximum_of_def row_of_def)
  have e: "fl_exp fo (fl_sub fo (rd (put output (r * n) i ?e m) input (r * n + i)) ?max) = ?e i"
    if "i < valid" for i
  proof -
    have "i < n" using that valid by simp
    then have "rd (put output (r * n) i ?e m) input (r * n + i) = rd m input (r * n + i)"
      using io row_bound [OF r, of i n] by (auto simp: rd_put_apart)
    then show ?thesis by (simp add: row_of_def)
  qed
  have exps: "fold (\<lambda>column (m', acc).
        let v = fl_exp fo (fl_sub fo (rd m' input (r * n + column)) ?max)
        in (wr output (r * n + column) v m', fl_add fo acc v)) [0..<valid] (m, f32_zero) =
      (?put, sum_of fo valid ?e)"
    unfolding Let_def sum_of_def using e by (rule fold_wr_acc)
  have scaled: "fold (\<lambda>column m'. wr output (r * n + column)
        (fl_mul fo (rd m' output (r * n + column)) ?inv) m') [0..<valid] ?put =
      put output (r * n) valid (softmax_vec fo valid ?x) ?put"
    by (rule fold_wr) (simp add: softmax_vec_def Let_def)
  have n: "valid + (n - valid) = n" using valid by simp
  show ?thesis
    unfolding softmax_row_def Let_def valid(1) [symmetric] max exps [unfolded Let_def]
    by (simp add: scaled fold_wr_const valid(2) put_append n)
qed

lemma softmax_rows_put:
  assumes io: "input = output \<or> cells input 0 (rows * n) \<inter> cells output 0 (rows * n) = {}"
    and valid: "\<And>r. r < rows \<Longrightarrow> unat (valid_lengths ! r) \<le> n"
  shows "fold (softmax_row fo input n valid_lengths output) [0..<rows] m =
    put output 0 (rows * n) (by_rows n (\<lambda>r j. if j < unat (valid_lengths ! r)
      then softmax_vec fo (unat (valid_lengths ! r)) (row_of (rd m input) n r) j else f32_zero)) m"
proof (rule fold_rows)
  fix r assume r: "r < rows"
  let ?g = "by_rows n (\<lambda>r j. if j < unat (valid_lengths ! r)
      then softmax_vec fo (unat (valid_lengths ! r)) (row_of (rd m input) n r) j else f32_zero)"
  let ?m = "put output 0 (r * n) ?g m"
  have before: "0 + r * n \<le> rows * n" using r by simp
  have input: "row_of (rd ?m input) n r i = row_of (rd m input) n r i" if i: "i < n" for i
    using io row_bound [OF r i] before by (auto simp: row_of_def rd_put_apart)
  have row: "(if j < unat (valid_lengths ! r) then softmax_vec fo (unat (valid_lengths ! r))
      (row_of (rd ?m input) n r) j else f32_zero) = ?g (r * n + j)" if j: "j < n" for j
  proof -
    have "softmax_vec fo (unat (valid_lengths ! r)) (row_of (rd ?m input) n r) j =
        softmax_vec fo (unat (valid_lengths ! r)) (row_of (rd m input) n r) j"
      if "j < unat (valid_lengths ! r)"
      by (rule softmax_vec_cong) (use that input valid [OF r] in auto)
    then show ?thesis unfolding by_rows_at [OF j] by simp
  qed
  show "softmax_row fo input n valid_lengths output r ?m =
      put output (0 + r * n) n (\<lambda>j. ?g (r * n + j)) ?m"
    unfolding softmax_row_put [OF io r refl valid [OF r]] add_0 by (rule put_cong) (rule row)
qed

end
