(* ===== verification/CpuLayerLoops.thy ===== *)
theory CpuLayerLoops
  imports CpuKernelLoops
begin

text \<open>
  The loops of rotary positions, the cache and attention as writes of consecutive floats,
  like the other kernels.
\<close>

section \<open>Rotary positions\<close>

lemma rotate_pair_rope:
  assumes "half = unat head_dim div 2" "dimension < half" "even (unat head_dim)"
    "\<And>j. j < unat head_dim \<Longrightarrow> j mod half = dimension \<Longrightarrow>
       rd m data (offset + j) = x (head * unat head_dim + j)"
  shows "rotate_pair fo theta head_dim position data offset dimension m =
    wr data (offset + half + dimension)
        (rope_vec fo theta head_dim position x (head * unat head_dim + (half + dimension)))
      (wr data (offset + dimension)
        (rope_vec fo theta head_dim position x (head * unat head_dim + dimension)) m)"
proof -
  have d: "unat head_dim = half + half" using assms(1,3) by auto
  have first: "rd m data (offset + dimension) = x (head * unat head_dim + dimension)"
    using assms(2,4) d by simp
  have second: "rd m data (offset + half + dimension) = x (head * unat head_dim + (half + dimension))"
    using assms(2) assms(4) [of "half + dimension"] d by (simp add: add.assoc)
  have lt: "dimension < unat head_dim" "half + dimension < unat head_dim" using assms(2) d by simp_all
  have shift: "head * unat head_dim + dimension + half = head * unat head_dim + (half + dimension)"
    "head * unat head_dim + (half + dimension) - half = head * unat head_dim + dimension" by simp_all
  show ?thesis
    unfolding rotate_pair_def rope_vec_def rope_angle_def Let_def assms(1) [symmetric] first second
      row_div_mod(2) [OF lt(1)] row_div_mod(2) [OF lt(2)] shift
    using assms(2) by simp
qed

lemma rotate_head_put:
  assumes "even (unat head_dim)"
  shows "fold (rotate_pair fo theta head_dim position data (offset + head * unat head_dim))
      [0..<unat head_dim div 2] m =
    put data (offset + head * unat head_dim) (unat head_dim)
      (\<lambda>j. rope_vec fo theta head_dim position (\<lambda>i. rd m data (offset + i)) (head * unat head_dim + j)) m"
proof -
  define d half base where "d = unat head_dim" "half = unat head_dim div 2"
    "base = offset + head * unat head_dim"
  have d: "d = half + half" using assms by (auto simp: d_half_base_def)
  let ?g = "\<lambda>j. rope_vec fo theta head_dim position (\<lambda>i. rd m data (offset + i)) (head * d + j)"
  let ?m = "\<lambda>k. put data base k ?g (put data (base + half) k (\<lambda>j. ?g (half + j)) m)"
  have "fold (rotate_pair fo theta head_dim position data base) [0..<k] m = ?m k" if "k \<le> half" for k
    using that
  proof (induction k)
    case (Suc k)
    have kept: "rd (?m k) data (base + j) = rd m data (offset + (head * d + j))"
      if "j < d" "j mod half = k" for j
    proof -
      have "j = k \<or> j = half + k"
        using that d Suc.prems by (cases "j < half") (auto simp: mod_if split: if_splits)
      then show ?thesis using Suc.prems by (auto simp: d_half_base_def(1,3) add.assoc)
    qed
    have "rotate_pair fo theta head_dim position data base k (?m k) =
        wr data (base + half + k) (?g (half + k)) (wr data (base + k) (?g k) (?m k))"
      unfolding d_half_base_def(1)
      by (rule rotate_pair_rope)
        (use Suc.prems assms kept in \<open>auto simp: d_half_base_def\<close>)
    also have "\<dots> = wr data (base + k) (?g k) (wr data (base + half + k) (?g (half + k)) (?m k))"
      using Suc.prems by (intro wr_wr_swap) simp
    also have "\<dots> = ?m (Suc k)"
      unfolding put_Suc by (subst wr_put_swap) (use Suc.prems in simp_all)
    finally show ?case using Suc by simp
  qed simp
  from this [of half] have "fold (rotate_pair fo theta head_dim position data base) [0..<half] m = ?m half"
    by simp
  also have "\<dots> = put data (base + half) half (\<lambda>j. ?g (half + j)) (put data base half ?g m)"
    by (rule put_commute) (auto simp: cells_def)
  also have "\<dots> = put data base d ?g m" unfolding d by (rule put_put)
  finally show ?thesis by (simp add: d_half_base_def)
qed

lemma rotate_put:
  assumes "even (unat head_dim)"
  shows "rotate fo theta head_dim tokens data heads batch_index token position m =
    put data ((batch_index * tokens + token) * (heads * unat head_dim)) (heads * unat head_dim)
      (rope_vec fo theta head_dim position
        (row_of (rd m data) (heads * unat head_dim) (batch_index * tokens + token))) m"
proof -
  let ?d = "unat head_dim"
  let ?base = "(batch_index * tokens + token) * (heads * ?d)"
  let ?x = "\<lambda>i. rd m data (?base + i)"
  have offset: "((batch_index * tokens + token) * heads + head) * ?d = ?base + head * ?d" for head
    by (simp add: algebra_simps)
  show ?thesis
    unfolding rotate_def offset row_of_def
  proof (rule fold_rows)
    fix h assume "h < heads"
    let ?m = "put data ?base (h * ?d) (rope_vec fo theta head_dim position ?x) m"
    have same: "rope_vec fo theta head_dim position (\<lambda>i. rd ?m data (?base + i)) (h * ?d + j) =
        rope_vec fo theta head_dim position ?x (h * ?d + j)" if "j < ?d" for j
      using that assms by (auto simp: rope_vec_def Let_def)
    show "fold (rotate_pair fo theta head_dim position data (?base + h * ?d)) [0..<?d div 2] ?m =
        put data (?base + h * ?d) ?d (\<lambda>j. rope_vec fo theta head_dim position ?x (h * ?d + j)) ?m"
      unfolding rotate_head_put [OF assms] by (rule put_cong) (rule same)
  qed
qed

lemma rope_vec_cong:
  assumes "even (unat head_dim)" "\<And>i. i < n * unat head_dim \<Longrightarrow> x i = y i" "j < n * unat head_dim"
  shows "rope_vec fo theta head_dim position x j = rope_vec fo theta head_dim position y j"
proof -
  let ?d = "unat head_dim"
  have pos: "0 < ?d" using assms(3) by (cases ?d) auto
  have "j div ?d < n" using assms(3) pos by (simp add: div_less_iff_less_mult)
  then have "j div ?d * ?d + ?d \<le> n * ?d" by (rule rows_le)
  moreover have "j = j div ?d * ?d + j mod ?d" by simp
  moreover have "?d div 2 + ?d div 2 \<le> ?d" by simp
  ultimately have "j + ?d div 2 < n * ?d" if "j mod ?d < ?d div 2" using that by linarith
  moreover have "j - ?d div 2 < n * ?d" using assms(3) by simp
  ultimately show ?thesis using assms by (simp add: rope_vec_def Let_def)
qed

text \<open>The nested loops of \<open>apply_rope_f32\<close>, over both tensors.\<close>

lemma rope_rows_put:
  assumes "even (unat head_dim)"
    "cells query 0 (batch * tokens * (query_heads * unat head_dim)) \<inter>
     cells key 0 (batch * tokens * (kv_heads * unat head_dim)) = {}"
  shows "fold (\<lambda>batch_index. fold (\<lambda>token m'.
        let position = positions ! (batch_index * tokens + token)
        in rotate fo theta head_dim tokens key kv_heads batch_index token position
             (rotate fo theta head_dim tokens query query_heads batch_index token position m'))
      [0..<tokens]) [0..<batch] m =
    put key 0 (batch * tokens * (kv_heads * unat head_dim))
      (by_rows (kv_heads * unat head_dim) (\<lambda>r. rope_vec fo theta head_dim (positions ! r)
        (row_of (rd m key) (kv_heads * unat head_dim) r)))
    (put query 0 (batch * tokens * (query_heads * unat head_dim))
      (by_rows (query_heads * unat head_dim) (\<lambda>r. rope_vec fo theta head_dim (positions ! r)
        (row_of (rd m query) (query_heads * unat head_dim) r))) m)"
proof -
  let ?q = "query_heads * unat head_dim" and ?k = "kv_heads * unat head_dim"
  let ?g = "by_rows ?q (\<lambda>r. rope_vec fo theta head_dim (positions ! r) (row_of (rd m query) ?q r))"
  let ?h = "by_rows ?k (\<lambda>r. rope_vec fo theta head_dim (positions ! r) (row_of (rd m key) ?k r))"
  let ?rope = "\<lambda>data width r m'. rope_vec fo theta head_dim (positions ! r) (row_of (rd m' data) width r)"
  let ?step = "\<lambda>r m'. put key (r * ?k) ?k (?rope key ?k r (put query (r * ?q) ?q (?rope query ?q r m') m'))
      (put query (r * ?q) ?q (?rope query ?q r m') m')"
  have flat: "fold (\<lambda>batch_index. fold (\<lambda>token m'.
        let position = positions ! (batch_index * tokens + token)
        in rotate fo theta head_dim tokens key kv_heads batch_index token position
             (rotate fo theta head_dim tokens query query_heads batch_index token position m'))
      [0..<tokens]) [0..<batch] m = fold ?step [0..<batch * tokens] m"
    unfolding Let_def rotate_put [OF assms(1)] by (rule fold_nested)
  show ?thesis
    unfolding flat
  proof (rule fold_rows2 [OF assms(2)])
    fix r assume r: "r < batch * tokens"
    let ?m = "put key 0 (r * ?k) ?h (put query 0 (r * ?q) ?g m)"
    have kq: "cells key 0 (batch * tokens * ?k) \<inter> cells query 0 (batch * tokens * ?q) = {}"
      using assms(2) by blast
    have before: "0 + r * ?k \<le> batch * tokens * ?k" "0 + r * ?q \<le> batch * tokens * ?q"
      using r by simp_all
    have query: "row_of (rd ?m query) ?q r i = row_of (rd m query) ?q r i" if "i < ?q" for i
      unfolding row_of_def rd_put_apart [OF assms(2) row_bound [OF r that] before(1)] by simp
    have key: "row_of (rd (put query (r * ?q) ?q f ?m) key) ?k r i = row_of (rd m key) ?k r i"
      if "i < ?k" for i f
      unfolding row_of_def rd_put_apart [OF kq row_bound [OF r that] rows_le [OF r]]
      using rd_put_apart [OF kq row_bound [OF r that] before(2)] by simp
    show "?step r ?m = put key (r * ?k) ?k (\<lambda>j. ?h (r * ?k + j))
        (put query (r * ?q) ?q (\<lambda>j. ?g (r * ?q + j)) ?m)"
    proof -
      have g: "put query (r * ?q) ?q (?rope query ?q r ?m) ?m =
          put query (r * ?q) ?q (\<lambda>j. ?g (r * ?q + j)) ?m"
        by (rule put_cong) (simp add: rope_vec_cong [OF assms(1) query])
      show ?thesis unfolding g by (rule put_cong) (simp add: rope_vec_cong [OF assms(1) key])
    qed
  qed
qed

end
