(* ===== verification/CpuAttentionLoops.thy ===== *)
theory CpuAttentionLoops
  imports CpuLayerLoops
begin

text \<open>The loops of the cache of keys and values and of attention.\<close>

section \<open>The cache\<close>

text \<open>Rows of width \<open>n\<close>, row \<open>r\<close> written to place \<open>d r\<close>, one after the other.\<close>

definition scatter :: "u64 \<Rightarrow> nat \<Rightarrow> nat \<Rightarrow> (nat \<Rightarrow> nat) \<Rightarrow> (nat \<Rightarrow> vec) \<Rightarrow> memory \<Rightarrow> memory" where
  "scatter p n rows d g m = fold (\<lambda>r. put p (d r * n) n (g r)) [0..<rows] m"

text \<open>The last of the rows that were written to place \<open>x\<close>.\<close>

fun last_row :: "(nat \<Rightarrow> nat) \<Rightarrow> nat \<Rightarrow> nat \<Rightarrow> nat option" where
  "last_row d x 0 = None"
| "last_row d x (Suc rows) = (if d rows = x then Some rows else last_row d x rows)"

lemma last_row_Some: "last_row d x rows = Some r \<Longrightarrow> r < rows \<and> d r = x"
  by (induction rows) (auto split: if_splits)

lemma last_row_None: "last_row d x rows = None \<longleftrightarrow> (\<forall>r < rows. d r \<noteq> x)"
  by (induction rows) (auto simp: less_Suc_eq)

lemma last_row_unique:
  assumes "r < rows" "d r = x" "\<And>s. s < rows \<Longrightarrow> d s = x \<Longrightarrow> s = r"
  shows "last_row d x rows = Some r"
proof (cases "last_row d x rows")
  case None
  then show ?thesis using assms(1,2) by (auto simp: last_row_None)
next
  case (Some s)
  then show ?thesis using last_row_Some [OF Some] assms(3) by blast
qed

lemma same_block: "i < n \<Longrightarrow> d * n \<le> x * n + i \<and> x * n + i < d * n + n \<longleftrightarrow> d = (x :: nat)"
proof
  assume i: "i < n" and "d * n \<le> x * n + i \<and> x * n + i < d * n + n"
  then have "d * n < (x + 1) * n" "x * n < (d + 1) * n" by (simp_all add: algebra_simps)
  then show "d = x" by (simp only: mult_less_cancel2) simp
qed simp

lemma rd_scatter:
  assumes "i < n"
  shows "rd (scatter p n rows d g m) p (x * n + i) =
    (case last_row d x rows of None \<Rightarrow> rd m p (x * n + i) | Some r \<Rightarrow> g r i)"
  unfolding scatter_def
proof (induction rows)
  case (Suc rows)
  then show ?case using same_block [OF assms, of "d rows" x] by auto
qed simp

lemma scatter_outside:
  assumes "a \<notin> cells p 0 (places * n)" "\<And>r. r < rows \<Longrightarrow> d r < places"
  shows "scatter p n rows d g m a = m a"
  using assms(2) unfolding scatter_def
proof (induction rows)
  case (Suc rows)
  have "cells p (d rows * n) n \<subseteq> cells p 0 (places * n)"
    using rows_le [of "d rows" places n] Suc.prems [of rows] by (intro cells_mono) simp_all
  then have "a \<notin> cells p (d rows * n) n" using assms(1) by blast
  then show ?case using Suc by (simp add: put_outside)
qed simp

lemma rd_scatter_apart:
  assumes "cells q 0 N \<inter> cells p 0 (places * n) = {}" "j < N" "\<And>r. r < rows \<Longrightarrow> d r < places"
  shows "rd (scatter p n rows d g m) q j = rd m q j"
proof -
  have "slot q j \<in> cells q 0 N" using assms(2) by simp
  then have "slot q j \<notin> cells p 0 (places * n)" using assms(1) by blast
  then show ?thesis unfolding rd_def using assms(3) by (rule scatter_outside)
qed

lemma scatter_Suc:
  "scatter p n (Suc rows) d g m = put p (d rows * n) n (g rows) (scatter p n rows d g m)"
  by (simp add: scatter_def)

lemma put_scatter_commute:
  assumes "cells p 0 (places * n) \<inter> cells q 0 (places * n) = {}"
    "\<And>r. r < rows \<Longrightarrow> d r < places" "x < places"
  shows "put p (x * n) n f (scatter q n rows d g m) = scatter q n rows d g (put p (x * n) n f m)"
  using assms(2)
proof (induction rows)
  case (Suc rows)
  have sub: "cells p (x * n) n \<subseteq> cells p 0 (places * n)"
    "cells q (d rows * n) n \<subseteq> cells q 0 (places * n)"
    using rows_le [of "d rows" places n] rows_le [OF assms(3), of n] Suc.prems [of rows]
    by (intro cells_mono; simp)+
  then have "cells p (x * n) n \<inter> cells q (d rows * n) n = {}" using assms(1) by blast
  from put_commute [OF this] show ?case
    using Suc by (simp add: scatter_Suc)
qed (simp add: scatter_def)

lemma append_rows_scatter:
  assumes apart: "cells kc 0 (places * n) \<inter> cells vc 0 (places * n) = {}"
    "cells key 0 (rows * n) \<inter> cells kc 0 (places * n) = {}"
    "cells key 0 (rows * n) \<inter> cells vc 0 (places * n) = {}"
    "cells value 0 (rows * n) \<inter> cells kc 0 (places * n) = {}"
    "cells value 0 (rows * n) \<inter> cells vc 0 (places * n) = {}"
    and d: "\<And>r. r < rows \<Longrightarrow> d r < places"
  shows "fold (\<lambda>r m'. copy_floats vc (d r * n) value (r * n) n
        (copy_floats kc (d r * n) key (r * n) n m')) [0..<rows] m =
    scatter vc n rows d (row_of (rd m value) n) (scatter kc n rows d (row_of (rd m key) n) m)"
proof -
  let ?g = "row_of (rd m key) n" and ?h = "row_of (rd m value) n"
  let ?m = "\<lambda>r. scatter vc n r d ?h (scatter kc n r d ?g m)"
  let ?step = "\<lambda>r m'. copy_floats vc (d r * n) value (r * n) n
        (copy_floats kc (d r * n) key (r * n) n m')"
  have "fold ?step [0..<r] m = ?m r" if "r \<le> rows" for r
    using that
  proof (induction r)
    case (Suc r)
    then have r: "r < rows" by simp
    have dr: "d s < places" if "s < r" for s using d that r by simp
    have key: "rd (?m r) key (r * n + i) = ?g r i" if "i < n" for i
      using rd_scatter_apart [OF apart(3) row_bound [OF r that] dr]
        rd_scatter_apart [OF apart(2) row_bound [OF r that] dr] by (simp add: row_of_def)
    have one: "copy_floats kc (d r * n) key (r * n) n (?m r) = put kc (d r * n) n (?g r) (?m r)"
      unfolding copy_floats_put by (rule put_cong) (rule key)
    also have "\<dots> = scatter vc n r d ?h (scatter kc n (Suc r) d ?g m)"
      using put_scatter_commute [OF apart(1) dr d [OF r]] by (simp add: scatter_Suc)
    finally have keys: "copy_floats kc (d r * n) key (r * n) n (?m r) =
        scatter vc n r d ?h (scatter kc n (Suc r) d ?g m)" .
    have dr': "d s < places" if "s < Suc r" for s using d that r by simp
    have "rd (scatter vc n r d ?h (scatter kc n (Suc r) d ?g m)) value (r * n + i) = ?h r i"
      if "i < n" for i
      using rd_scatter_apart [OF apart(5) row_bound [OF r that] dr]
        rd_scatter_apart [OF apart(4) row_bound [OF r that] dr'] by (simp add: row_of_def)
    then have "copy_floats vc (d r * n) value (r * n) n
          (scatter vc n r d ?h (scatter kc n (Suc r) d ?g m)) = ?m (Suc r)"
      unfolding copy_floats_put scatter_Suc [of vc] by (intro put_cong)
    with Suc keys show ?case by simp
  qed (simp add: scatter_def)
  then show ?thesis by simp
qed

section \<open>Attention\<close>

lemma attention_scores_put:
  fixes fo :: float_ops and scale :: f32 and m :: memory
  assumes "\<And>i. i < d \<Longrightarrow> slot query (query_offset + i) \<notin> cells logits 0 valid"
    "\<And>k i. k < valid \<Longrightarrow> i < d \<Longrightarrow> slot key (key_offset k + i) \<notin> cells logits 0 valid"
  defines "scores \<equiv> \<lambda>k. fl_mul fo (dot fo d (\<lambda>i. rd m query (query_offset + i))
    (\<lambda>i. rd m key (key_offset k + i))) scale"
  shows "attention_scores fo query query_offset key key_offset d scale logits valid m =
    (put logits 0 valid scores m, maximum_of valid scores)"
proof -
  let ?f = "\<lambda>k m'. fl_mul fo (fold (\<lambda>dimension acc. fl_add fo acc
      (fl_mul fo (rd m' query (query_offset + dimension)) (rd m' key (key_offset k + dimension))))
    [0..<d] f32_zero) scale"
  have read: "?f k (put logits 0 k scores m) = scores k" if k: "k < valid" for k
  proof -
    have sub: "cells logits 0 k \<subseteq> cells logits 0 valid" using k by (intro cells_mono) simp_all
    have "rd (put logits 0 k scores m) query (query_offset + i) = rd m query (query_offset + i)"
      "rd (put logits 0 k scores m) key (key_offset k + i) = rd m key (key_offset k + i)" if "i < d" for i
      by (rule rd_put_other; use assms(1) [OF that] assms(2) [OF k that] sub in blast)+
    then show ?thesis
      unfolding scores_def dot_def by (intro arg_cong2 [where f = "fl_mul fo"] refl fold_upt_cong) simp
  qed
  show ?thesis
    using fold_wr_acc [where f = ?f and p = logits and offset = 0 and c = f32_max and m = m and
        s = f32_minus_infinity, OF read]
    unfolding attention_scores_def maximum_of_def Let_def rd_wr by simp
qed

lemma attention_weights_put:
  "attention_weights_of fo logits valid (maximum_of valid x) (put logits 0 valid x m) =
     put logits 0 valid (softmax_vec fo valid x) m"
proof -
  let ?e = "\<lambda>i. fl_exp fo (fl_sub fo (x i) (maximum_of valid x))"
  let ?inv = "fl_div fo f32_one (sum_of fo valid ?e)"
  let ?m = "put logits 0 valid x m"
  have "fold (\<lambda>i (m', acc). (wr logits (0 + i) (fl_exp fo (fl_sub fo (rd m' logits i) (maximum_of valid x))) m',
        fl_add fo acc (fl_exp fo (fl_sub fo (rd m' logits i) (maximum_of valid x))))) [0..<valid] (?m, f32_zero) =
      (put logits 0 valid ?e ?m, sum_of fo valid ?e)"
    unfolding sum_of_def by (rule fold_wr_acc) simp
  moreover have "fold (\<lambda>i m'. wr logits (0 + i) (fl_mul fo (rd m' logits i) ?inv) m') [0..<valid]
        (put logits 0 valid ?e ?m) = put logits 0 valid (softmax_vec fo valid x) (put logits 0 valid ?e ?m)"
    by (rule fold_wr) (simp add: softmax_vec_def Let_def)
  ultimately show ?thesis by (simp add: attention_weights_of_def Let_def)
qed

lemma attention_values_put:
  assumes "\<And>k. k < valid \<Longrightarrow> slot logits k \<notin> cells output output_offset d"
    "\<And>k i. k < valid \<Longrightarrow> i < d \<Longrightarrow> slot value (value_offset k + i) \<notin> cells output output_offset d"
  shows "attention_values fo output output_offset value value_offset d logits valid m =
    put output output_offset d (\<lambda>i. dot fo valid (rd m logits) (\<lambda>k. rd m value (value_offset k + i))) m"
  unfolding attention_values_def
proof (rule fold_wr)
  fix i assume i: "i < d"
  let ?g = "\<lambda>i. dot fo valid (rd m logits) (\<lambda>k. rd m value (value_offset k + i))"
  have sub: "cells output output_offset i \<subseteq> cells output output_offset d"
    using i by (intro cells_mono) simp_all
  have "rd (put output output_offset i ?g m) logits k = rd m logits k"
    "rd (put output output_offset i ?g m) value (value_offset k + i) = rd m value (value_offset k + i)"
    if "k < valid" for k
    by (rule rd_put_other; use assms(1) [OF that] assms(2) [OF that i] sub in blast)+
  then show "fold (\<lambda>key_token acc. fl_add fo acc
      (fl_mul fo (rd (put output output_offset i ?g m) logits key_token)
        (rd (put output output_offset i ?g m) value (value_offset key_token + i)))) [0..<valid] f32_zero = ?g i"
    unfolding dot_def by (intro fold_upt_cong) simp
qed

text \<open>Memories that agree but for the addresses of the scratch span.\<close>

definition same_outside :: "nat set \<Rightarrow> memory \<Rightarrow> memory \<Rightarrow> bool" where
  "same_outside S m m' \<longleftrightarrow> (\<forall>a. a \<notin> S \<longrightarrow> m' a = m a)"

lemma same_outside_refl [simp]: "same_outside S m m"
  by (simp add: same_outside_def)

lemma same_outside_rd: "same_outside S m m' \<Longrightarrow> slot p i \<notin> S \<Longrightarrow> rd m' p i = rd m p i"
  by (simp add: same_outside_def rd_def)

lemma same_outside_put_in:
  "same_outside S m m' \<Longrightarrow> cells p offset n \<subseteq> S \<Longrightarrow> same_outside S m (put p offset n g m')"
  by (auto simp: same_outside_def put_def)

lemma same_outside_put_both:
  "same_outside S m m' \<Longrightarrow> same_outside S (put p offset n g m) (put p offset n g m')"
  by (simp add: same_outside_def put_def)

lemma kv_head_bound:
  assumes "query_heads mod kv_heads = 0" "query_head < query_heads"
  shows "query_head div (query_heads div kv_heads) < (kv_heads :: nat)"
proof -
  have "query_heads = query_heads div kv_heads * kv_heads" using assms(1) by auto
  with assms(2) have "query_head < kv_heads * (query_heads div kv_heads)" by (simp add: mult.commute)
  moreover have "0 < query_heads div kv_heads" using calculation by (cases "query_heads div kv_heads") auto
  ultimately show ?thesis by (simp add: div_less_iff_less_mult)
qed

text \<open>What attention needs of the extents and of the places of its operands.\<close>

definition attention_ready ::
  "tensor_view \<Rightarrow> tensor_view \<Rightarrow> tensor_view \<Rightarrow> u32 list \<Rightarrow> tensor_view \<Rightarrow> u64 \<times> nat \<Rightarrow> bool" where
  "attention_ready query key_cache value_cache context_lengths output scratch \<longleftrightarrow>
     (let batch = unat (extent query 0); tokens = unat (extent query 1);
          query_heads = unat (extent query 2); head_dim = unat (extent query 3);
          maximum_context = unat (extent key_cache 1); kv_heads = unat (extent key_cache 2);
          S = cells (fst scratch) 0 (snd scratch);
          W = cells (tv_data output) 0 (batch * tokens * (query_heads * head_dim));
          Q = cells (tv_data query) 0 (batch * tokens * (query_heads * head_dim));
          K = cells (tv_data key_cache) 0 (batch * maximum_context * (kv_heads * head_dim));
          V = cells (tv_data value_cache) 0 (batch * maximum_context * (kv_heads * head_dim))
      in 0 < maximum_context \<and> query_heads mod kv_heads = 0 \<and>
         (\<forall>b < batch. tokens \<le> unat (context_lengths ! b) \<and>
            unat (context_lengths ! b) \<le> maximum_context) \<and>
         batch * tokens * query_heads * maximum_context \<le> snd scratch \<and>
         unat (fst scratch) + 4 * snd scratch \<le> 2 ^ 64 \<and>
         S \<inter> W = {} \<and> Q \<inter> S = {} \<and> Q \<inter> W = {} \<and> K \<inter> S = {} \<and> K \<inter> W = {} \<and>
         V \<inter> S = {} \<and> V \<inter> W = {})"

text \<open>The reference: attention of each token over the positions of its batch up to its own.\<close>

definition attention_reference ::
  "float_ops \<Rightarrow> tensor_view \<Rightarrow> tensor_view \<Rightarrow> tensor_view \<Rightarrow> u32 list \<Rightarrow> memory \<Rightarrow> vec" where
  "attention_reference fo query key_cache value_cache context_lengths m =
     (let tokens = unat (extent query 1); query_heads = unat (extent query 2);
          width = query_heads * unat (extent query 3);
          maximum_context = unat (extent key_cache 1); kv_heads = unat (extent key_cache 2);
          kv_width = kv_heads * unat (extent query 3)
      in by_rows width (\<lambda>r. attention_vec fo (extent query 3) (query_heads div kv_heads)
           (\<lambda>k. row_of (rd m (tv_data key_cache)) kv_width (r div tokens * maximum_context + k))
           (\<lambda>k. row_of (rd m (tv_data value_cache)) kv_width (r div tokens * maximum_context + k))
           (unat (context_lengths ! (r div tokens)) - tokens + r mod tokens + 1)
           (row_of (rd m (tv_data query)) width r)))"

lemma attention_head_step:
  fixes fo :: float_ops and query key_cache value_cache :: tensor_view and context_lengths :: "u32 list"
    and m :: memory
  assumes ready: "attention_ready query key_cache value_cache context_lengths output scratch"
  defines "T \<equiv> unat (extent query 1)" and "H \<equiv> unat (extent query 2)" and "D \<equiv> unat (extent query 3)"
    and "S \<equiv> cells (fst scratch) 0 (snd scratch)"
    and "G \<equiv> attention_reference fo query key_cache value_cache context_lengths m"
  assumes b: "b < unat (extent query 0)" and t: "t < T" and h: "h < H"
    and same: "same_outside S (put (tv_data output) 0 (((b * T + t) * H + h) * D) G m) m'"
  shows "\<exists>m''. attention_head fo query key_cache value_cache context_lengths output scratch b t h m' =
      Some m'' \<and> same_outside S (put (tv_data output) 0 (Suc ((b * T + t) * H + h) * D) G m) m''"
proof -
  define C KH B where "C = unat (extent key_cache 1)" "KH = unat (extent key_cache 2)"
    "B = unat (extent query 0)"
  define r x where "r = b * T + t" "x = r * H + h"
  define valid where "valid = unat (context_lengths ! b) - T + t + 1"
  define kvh where "kvh = h div (H div KH)"
  define scale where "scale = fl_div fo f32_one (fl_sqrt fo (fl_of_u64 fo (extent query 3)))"
  let ?q = "tv_data query" and ?k = "tv_data key_cache" and ?v = "tv_data value_cache"
    and ?o = "tv_data output"
  define W where "W = cells ?o 0 (B * T * (H * D))"
  note ready' = ready [unfolded attention_ready_def Let_def, folded T_def H_def D_def S_def C_KH_B_def,
      folded W_def]
  have C: "0 < C" and groups: "H mod KH = 0" and len: "T \<le> unat (context_lengths ! b)"
    "unat (context_lengths ! b) \<le> C" and room: "B * T * H * C \<le> snd scratch"
    and wrap: "unat (fst scratch) + 4 * snd scratch \<le> 2 ^ 64" and SW: "S \<inter> W = {}"
    and Q: "cells ?q 0 (B * T * (H * D)) \<inter> S = {}" "cells ?q 0 (B * T * (H * D)) \<inter> W = {}"
    and K: "cells ?k 0 (B * C * (KH * D)) \<inter> S = {}" "cells ?k 0 (B * C * (KH * D)) \<inter> W = {}"
    and V: "cells ?v 0 (B * C * (KH * D)) \<inter> S = {}" "cells ?v 0 (B * C * (KH * D)) \<inter> W = {}"
    using ready' b [folded C_KH_B_def] by blast+
  have r: "r < B * T" unfolding r_x_def by (rule row_bound) (use b t in \<open>simp_all add: C_KH_B_def\<close>)
  have x: "x < B * T * H" unfolding r_x_def(2) by (rule row_bound [OF r h])
  have valid: "valid \<le> C" using len t by (simp add: valid_def)
  have kvh: "kvh < KH" unfolding kvh_def by (rule kv_head_bound [OF groups h])
  have xC: "x * C + C \<le> snd scratch" using rows_le [OF x, of C] room by linarith
  have shift: "unat (fst scratch) + 4 * (x * C) < 2 ^ 64" using wrap xC C by linarith
  let ?logits = "fst scratch + 4 * of_nat (x * C)"
  have logits: "cells ?logits 0 valid \<subseteq> S"
    unfolding S_def cells_shift [OF shift] using xC valid by (intro cells_mono) simp_all
  have "x * D + D \<le> B * T * (H * D)" using rows_le [OF x, of D] by (simp only: mult.assoc)
  then have outputs: "cells ?o (x * D) D \<subseteq> W" "cells ?o 0 (x * D) \<subseteq> W"
    unfolding W_def by (intro cells_mono; linarith)+
  text \<open>What is read is as it was at the start.\<close>
  have width: "x * D + i = r * (H * D) + (h * D + i)" for i by (simp add: r_x_def(2) algebra_simps)
  have hD: "h * D + i < H * D" if "i < D" for i by (rule row_bound [OF h that])
  have kvD: "kvh * D + i < KH * D" if "i < D" for i by (rule row_bound [OF kvh that])
  have in_q: "slot ?q (x * D + i) \<in> cells ?q 0 (B * T * (H * D))" if "i < D" for i
    using row_bound [OF r hD [OF that]] by (simp add: width)
  define off where "off = (\<lambda>k. ((b * C + k) * KH + kvh) * D)"
  have off: "off k + i = (b * C + k) * (KH * D) + (kvh * D + i)" for k i
    by (simp add: off_def algebra_simps)
  have bC: "b * C + k < B * C" if "k < valid" for k
    using b valid that by (intro row_bound) (simp_all add: C_KH_B_def)
  have in_cache: "slot p (off k + i) \<in> cells p 0 (B * C * (KH * D))" if "k < valid" "i < D" for p k i
    using row_bound [OF bC [OF that(1)] kvD [OF that(2)]] by (simp add: off)
  have old: "rd m' p i = rd m p i" if "slot p i \<notin> S" "slot p i \<notin> W" for p i
    using same_outside_rd [OF same [folded r_x_def] that(1)] that(2) outputs(2)
    by (metis rd_put_other subsetD)
  have query: "rd m' ?q (x * D + i) = row_of (row_of (rd m ?q) (H * D) r) D h i" if "i < D" for i
  proof -
    have "slot ?q (x * D + i) \<notin> S" "slot ?q (x * D + i) \<notin> W" using in_q [OF that] Q by blast+
    from old [OF this] show ?thesis by (simp add: row_of_def width)
  qed
  have key: "rd m' ?k (off k + i) = row_of (row_of (rd m ?k) (KH * D) (b * C + k)) D kvh i"
    and val: "rd m' ?v (off k + i) = row_of (row_of (rd m ?v) (KH * D) (b * C + k)) D kvh i"
    if "k < valid" "i < D" for k i
  proof -
    have "slot ?k (off k + i) \<notin> S" "slot ?k (off k + i) \<notin> W"
      "slot ?v (off k + i) \<notin> S" "slot ?v (off k + i) \<notin> W"
      using in_cache [OF that] K V by blast+
    then show "rd m' ?k (off k + i) = row_of (row_of (rd m ?k) (KH * D) (b * C + k)) D kvh i"
      "rd m' ?v (off k + i) = row_of (row_of (rd m ?v) (KH * D) (b * C + k)) D kvh i"
      using old by (simp_all add: row_of_def off)
  qed
  define scores where "scores = (\<lambda>k. fl_mul fo (dot fo D (\<lambda>i. rd m' ?q (x * D + i))
      (\<lambda>i. rd m' ?k (off k + i))) scale)"
  define m1 where "m1 = put ?logits 0 valid (softmax_vec fo valid scores) m'"
  have s: "attention_scores fo ?q (x * D) ?k off D scale ?logits valid m' =
      (put ?logits 0 valid scores m', maximum_of valid scores)"
    unfolding scores_def
    by (rule attention_scores_put) (use in_q in_cache Q(1) K(1) logits in blast)+
  have w: "attention_weights_of fo ?logits valid (maximum_of valid scores)
      (put ?logits 0 valid scores m') = m1"
    unfolding m1_def by (rule attention_weights_put)
  have logits_apart: "slot ?logits k \<notin> cells ?o (x * D) D" if "k < valid" for k
  proof -
    have "slot ?logits k \<in> cells ?logits 0 valid" using that by simp
    then show ?thesis using logits outputs(1) SW by blast
  qed
  define out where "out = (\<lambda>i. dot fo valid (rd m1 ?logits) (\<lambda>k. rd m1 ?v (off k + i)))"
  have v: "attention_values fo ?o (x * D) ?v off D ?logits valid m1 = put ?o (x * D) D out m1"
    unfolding out_def
    by (rule attention_values_put) (use logits_apart in_cache V(2) outputs(1) in blast)+
  have run: "attention_head fo query key_cache value_cache context_lengths output scratch b t h m' =
      Some (put ?o (x * D) D out m1)"
    unfolding attention_head_def Let_def
      T_def [symmetric] H_def [symmetric] D_def [symmetric] C_KH_B_def [symmetric]
    unfolding r_x_def(1) [symmetric] r_x_def(2) [symmetric] valid_def [symmetric] kvh_def [symmetric]
      scale_def [symmetric] off_def [symmetric]
    using xC s w v by (simp add: not_less)
  text \<open>What is written is the reference.\<close>
  have scores: "scores k = fl_mul fo (dot fo D (row_of (row_of (rd m ?q) (H * D) r) D h)
      (row_of (row_of (rd m ?k) (KH * D) (b * C + k)) D kvh)) scale" if "k < valid" for k
    unfolding scores_def
    by (intro arg_cong2 [where f = "fl_mul fo"] refl dot_cong) (simp_all add: query key that)
  have tT: "r div T = b" "r mod T = t" using t by (simp_all add: r_x_def)
  have head: "(h * D + i) div D = h" "(h * D + i) mod D = i" if "i < D" for i using that by simp_all
  have out: "out i = G (x * D + i)" if i: "i < D" for i
  proof -
    have "G (x * D + i) = dot fo valid (softmax_vec fo valid (\<lambda>k. fl_mul fo
        (dot fo D (row_of (row_of (rd m ?q) (H * D) r) D h)
          (row_of (row_of (rd m ?k) (KH * D) (b * C + k)) D kvh)) scale))
        (\<lambda>k. row_of (row_of (rd m ?v) (KH * D) (b * C + k)) D kvh i)"
      unfolding G_def attention_reference_def Let_def T_def [symmetric] H_def [symmetric]
        D_def [symmetric] C_KH_B_def [symmetric] width by_rows_at [OF hD [OF i]] attention_vec_def
        head [OF i] kvh_def [symmetric] scale_def [symmetric] tT valid_def [symmetric]
      by (simp add: row_of_def)
    moreover have "rd m1 ?v (off k + i) = row_of (row_of (rd m ?v) (KH * D) (b * C + k)) D kvh i"
      if "k < valid" for k
    proof -
      have "slot ?v (off k + i) \<notin> cells ?logits 0 valid"
        using in_cache [OF that i, of ?v] V(1) logits by blast
      then show ?thesis using val [OF that i] by (simp add: m1_def rd_put_other)
    qed
    moreover have "rd m1 ?logits k = softmax_vec fo valid scores k" if "k < valid" for k
      using that by (simp add: m1_def)
    moreover have "softmax_vec fo valid scores k = softmax_vec fo valid (\<lambda>k. fl_mul fo
        (dot fo D (row_of (row_of (rd m ?q) (H * D) r) D h)
          (row_of (row_of (rd m ?k) (KH * D) (b * C + k)) D kvh)) scale) k" if "k < valid" for k
      by (rule softmax_vec_cong) (use scores that in auto)
    ultimately show ?thesis unfolding out_def by (auto intro!: dot_cong)
  qed
  have "put ?o (x * D) D out m1 = put ?o (x * D) D (\<lambda>i. G (x * D + i)) m1"
    by (rule put_cong) (rule out)
  moreover have "same_outside S (put ?o 0 (x * D) G m) m1"
    unfolding m1_def using same [folded r_x_def] logits by (rule same_outside_put_in)
  then have "same_outside S (put ?o (0 + x * D) D (\<lambda>i. G (x * D + i)) (put ?o 0 (x * D) G m))
      (put ?o (0 + x * D) D (\<lambda>i. G (x * D + i)) m1)" by (rule same_outside_put_both)
  ultimately show ?thesis
    unfolding run r_x_def(1) [symmetric] r_x_def(2) [symmetric] put_put by (simp add: add.commute)
qed

lemma attention_impl_reference:
  fixes query key_cache value_cache :: tensor_view
  assumes ready: "attention_ready query key_cache value_cache context_lengths output scratch"
  defines "B \<equiv> unat (extent query 0)" and "T \<equiv> unat (extent query 1)" and "H \<equiv> unat (extent query 2)"
    and "D \<equiv> unat (extent query 3)"
  shows "\<exists>m'. attention_impl fo query key_cache value_cache context_lengths output scratch m =
      Some (status_success, m') \<and>
    same_outside (cells (fst scratch) 0 (snd scratch))
      (put (tv_data output) 0 (B * T * (H * D))
        (attention_reference fo query key_cache value_cache context_lengths m) m) m'"
proof -
  let ?head = "attention_head fo query key_cache value_cache context_lengths output scratch"
  let ?F = "\<lambda>x. ?head (x div H div T) (x div H mod T) (x mod H)"
  let ?G = "attention_reference fo query key_cache value_cache context_lengths m"
  let ?S = "cells (fst scratch) 0 (snd scratch)"
  have steps: "\<exists>m'. fold_option ?F [0..<n] m = Some m' \<and>
      same_outside ?S (put (tv_data output) 0 (n * D) ?G m) m'" if "n \<le> B * T * H" for n
    using that
  proof (induction n)
    case (Suc n)
    then obtain m' where m': "fold_option ?F [0..<n] m = Some m'"
      "same_outside ?S (put (tv_data output) 0 (n * D) ?G m) m'" by auto
    have lt: "n < B * T * H" using Suc.prems by simp
    then have pos: "0 < H" "0 < T" by (auto intro: Nat.gr0I)
    have "n div H < B * T" using lt pos by (simp add: div_less_iff_less_mult)
    then have b: "n div H div T < unat (extent query 0)"
      using pos by (simp add: div_less_iff_less_mult B_def)
    have n: "(n div H div T * T + n div H mod T) * H + n mod H = n" by simp
    from attention_head_step [OF ready b, folded T_def H_def D_def, of "n div H mod T" "n mod H",
        OF mod_less_divisor [OF pos(2)] mod_less_divisor [OF pos(1)], unfolded n, OF m'(2)]
    show ?case by (auto simp: fold_option_append m'(1))
  qed simp
  have "fold_option (\<lambda>b. fold_option (\<lambda>t. fold_option (?head b t) [0..<H]) [0..<T]) [0..<B] m =
      fold_option (\<lambda>b. fold_option (\<lambda>t. fold_option (\<lambda>h. ?F ((b * T + t) * H + h)) [0..<H]) [0..<T]) [0..<B] m"
    by (intro fold_option_cong) simp
  also have "\<dots> = fold_option (\<lambda>r. fold_option (\<lambda>h. ?F (r * H + h)) [0..<H]) [0..<B * T] m"
    by (rule fold_option_nested)
  also have "\<dots> = fold_option ?F [0..<B * T * H] m" by (rule fold_option_nested)
  finally have "attention_impl fo query key_cache value_cache context_lengths output scratch m =
      map_option (Pair status_success) (fold_option ?F [0..<B * T * H] m)"
    by (simp add: attention_impl_def B_def T_def H_def)
  with steps [OF le_refl] show ?thesis by (auto simp: mult.assoc)
qed

end
