(* ===== verification/CpuChecks.thy ===== *)
theory CpuChecks
  imports CpuAttentionLoops
begin

text \<open>
  What the checks of the kernels mean: a view that passes is a range of floats of memory, and
  two views that pass the check for overlaps have no float in common.
\<close>

section \<open>Views\<close>

text \<open>The extents are an array of \<^const>\<open>max_rank\<close> numbers.\<close>

definition array_view :: "tensor_view \<Rightarrow> bool" where
  "array_view v \<longleftrightarrow> length (sh_extents (tv_shape v)) = max_rank"

abbreviation cells_of :: "tensor_view \<Rightarrow> nat set" where
  "cells_of v \<equiv> cells (tv_data v) 0 (numel v)"

text \<open>A tensor of floats of the host, and that its range ends within the address space.\<close>

definition f32_view :: "tensor_view \<Rightarrow> bool" where
  "f32_view v \<longleftrightarrow> array_view v \<and> status_ok (validate_f32_host v)"

definition in_memory :: "tensor_view \<Rightarrow> bool" where
  "in_memory v \<longleftrightarrow> numel v = 0 \<or> unat (tv_data v) + 4 * numel v < 2 ^ 64"

definition apart :: "tensor_view \<Rightarrow> tensor_view \<Rightarrow> bool" where
  "apart v w \<longleftrightarrow> numel v = 0 \<or> numel w = 0 \<or>
     unat (tv_data v) + 4 * numel v \<le> unat (tv_data w) \<or>
     unat (tv_data w) + 4 * numel w \<le> unat (tv_data v)"

lemma f32_view_iff:
  "f32_view v \<longleftrightarrow> array_view v \<and> tv_dtype v = F32 \<and> tv_memory v = Host \<and> well_shaped (tv_shape v) \<and>
     (\<forall>k \<le> length (dims (tv_shape v)). prod_list (take k (dims (tv_shape v))) < 2 ^ 64) \<and>
     4 * numel v < 2 ^ 64 \<and> (numel v \<noteq> 0 \<longrightarrow> tv_data v \<noteq> 0)"
proof (cases "array_view v \<and> tv_dtype v = F32 \<and> tv_memory v = Host \<and> well_shaped (tv_shape v)")
  case True
  note shaped = checked_numel_Inr [of "tv_shape v"]
  show ?thesis
  proof (cases "checked_numel (tv_shape v)")
    case (Inl e)
    then have "e = status_failure Arithmetic_overflow"
      using True by (intro checked_numel_Inl [of "tv_shape v"]) simp_all
    moreover have "\<not> ((\<forall>k \<le> length (dims (tv_shape v)). prod_list (take k (dims (tv_shape v))) < 2 ^ 64) \<and>
        4 * numel v < 2 ^ 64)"
    proof
      assume *: "(\<forall>k \<le> length (dims (tv_shape v)). prod_list (take k (dims (tv_shape v))) < 2 ^ 64) \<and>
        4 * numel v < 2 ^ 64"
      then have "unat (of_nat (numel v) :: u64) = prod_list (dims (tv_shape v))"
        by (simp add: numel_def unat_u64_of_nat)
      with * True shaped Inl show False by simp
    qed
    ultimately show ?thesis
      using True by (auto simp: f32_view_def validate_f32_host_def validate_tensor_view_def
          checked_nbytes_def Inl)
  next
    case (Inr n)
    then have n: "unat n = numel v"
      "\<forall>k \<le> length (dims (tv_shape v)). prod_list (take k (dims (tv_shape v))) < 2 ^ 64"
      using True shaped by (simp_all add: numel_def)
    have bytes: "checked_nbytes (tv_shape v) F32 = checked_multiply n 4"
      by (simp add: checked_nbytes_def Inr dtype_size_def)
    show ?thesis
    proof (cases "4 * numel v < 2 ^ 64")
      case small: True
      then have "unat (n * 4) = 4 * numel v" using n(1) unat_u64_times [of n 4] by simp
      then have "n * 4 = 0 \<longleftrightarrow> numel v = 0" by (simp flip: unat_inject)
      moreover have "checked_multiply n 4 = Inr (n * 4)" using small n by simp
      with bytes have "checked_nbytes (tv_shape v) F32 = Inr (n * 4)" by (rule trans)
      ultimately show ?thesis
        using True small n
        by (auto simp: f32_view_def validate_f32_host_def validate_tensor_view_def)
    next
      case False
      then have "checked_multiply n 4 = fail Arithmetic_overflow"
        using n by (simp add: checked_multiply_Inl)
      with bytes have "checked_nbytes (tv_shape v) F32 = fail Arithmetic_overflow" by (rule trans)
      then show ?thesis
        using True False n
        by (auto simp: f32_view_def validate_f32_host_def validate_tensor_view_def)
    qed
  qed
next
  case False
  then show ?thesis
    using validate_shape_ok [of "tv_shape v"]
    by (auto simp: f32_view_def validate_f32_host_def validate_tensor_view_def array_view_def
        checked_nbytes_def checked_numel_def)
qed

lemma f32_view_bytes:
  assumes "f32_view v"
  shows "\<exists>bytes. checked_nbytes (tv_shape v) (tv_dtype v) = Inr bytes \<and> unat bytes = 4 * numel v"
proof -
  have v: "well_shaped (tv_shape v)" "tv_dtype v = F32" "4 * numel v < 2 ^ 64"
    "\<forall>k \<le> length (dims (tv_shape v)). prod_list (take k (dims (tv_shape v))) < 2 ^ 64"
    using assms by (simp_all add: f32_view_iff)
  have n: "unat (of_nat (numel v) :: u64) = numel v" using v(3) by (intro unat_u64_of_nat) simp
  have "checked_numel (tv_shape v) = Inr (of_nat (numel v))"
    unfolding checked_numel_Inr [OF v(1)] n using v(4) by (simp add: numel_def)
  then have "checked_nbytes (tv_shape v) (tv_dtype v) = checked_multiply (of_nat (numel v)) 4"
    by (simp add: checked_nbytes_def v(2) dtype_size_def)
  also have "\<dots> = fits (4 * numel v)" by (simp add: fitting n mult.commute)
  finally have "checked_nbytes (tv_shape v) (tv_dtype v) = Inr (of_nat (4 * numel v))"
    using v(3) by (simp add: fits_def)
  then show ?thesis using unat_u64_of_nat [OF v(3)] by blast
qed

lemma view_range_f32:
  assumes "f32_view v"
  shows "view_range v =
    (if numel v = 0 then Inr \<lparr>mr_begin = 0, mr_end = 0\<rparr>
     else if in_memory v then Inr \<lparr>mr_begin = tv_data v, mr_end = tv_data v + of_nat (4 * numel v)\<rparr>
     else fail Arithmetic_overflow)"
proof -
  obtain bytes where b: "checked_nbytes (tv_shape v) (tv_dtype v) = Inr bytes" "unat bytes = 4 * numel v"
    using f32_view_bytes [OF assms] by blast
  have "bytes = of_nat (4 * numel v)" using b(2) by (simp flip: b(2))
  moreover have "numel v \<noteq> 0 \<Longrightarrow> tv_data v \<noteq> 0" using assms by (simp add: f32_view_iff)
  moreover have "tv_data v > u64_max - bytes \<longleftrightarrow> 2 ^ 64 \<le> unat (tv_data v) + 4 * numel v"
    using checked_add_guard [where lhs = bytes and rhs = "tv_data v"] b(2) by (simp add: add.commute)
  moreover have "\<not> bytes > u64_max" by (simp add: not_less)
  moreover have "bytes = 0 \<longleftrightarrow> numel v = 0" using b(2) by (simp flip: unat_inject)
  ultimately show ?thesis
    by (auto simp: view_range_def b(1) in_memory_def not_less)
qed

section \<open>Overlaps\<close>

lemma unat_range_end:
  assumes "in_memory v" "numel v \<noteq> 0"
  shows "unat (tv_data v + of_nat (4 * numel v)) = unat (tv_data v) + 4 * numel v"
proof -
  have lt: "unat (tv_data v) + 4 * numel v < 2 ^ 64" using assms by (simp add: in_memory_def)
  then have "unat (of_nat (4 * numel v) :: u64) = 4 * numel v" by (intro unat_u64_of_nat) simp
  with lt show ?thesis by (simp only: unat_u64_plus)
qed

lemma output_alias_iff:
  assumes "f32_view v" "f32_view w"
  shows "status_ok (validate_output_alias v w exact) \<longleftrightarrow>
    in_memory v \<and> in_memory w \<and>
    (apart v w \<or> exact \<and> tv_data v = tv_data w \<and> numel v = numel w)"
proof (cases "in_memory v \<and> in_memory w \<and> numel v \<noteq> 0 \<and> numel w \<noteq> 0")
  case True
  then have v: "view_range v = Inr \<lparr>mr_begin = tv_data v, mr_end = tv_data v + of_nat (4 * numel v)\<rparr>"
    and w: "view_range w = Inr \<lparr>mr_begin = tv_data w, mr_end = tv_data w + of_nat (4 * numel w)\<rparr>"
    using assms by (simp_all add: view_range_f32)
  have ends: "unat (tv_data v + of_nat (4 * numel v)) = unat (tv_data v) + 4 * numel v"
    "unat (tv_data w + of_nat (4 * numel w)) = unat (tv_data w) + 4 * numel w"
    using True unat_range_end [of v] unat_range_end [of w] by blast+
  show ?thesis
    unfolding validate_output_alias_def v w
    using True ends
    by (auto simp: overlaps_def exactly_aliases_def apart_def word_less_nat_alt
        simp flip: unat_inject)
next
  case False
  then show ?thesis
    using assms by (auto simp: validate_output_alias_def view_range_f32 overlaps_def apart_def
        in_memory_def)
qed

lemma no_overlap_iff:
  assumes "f32_view v" "f32_view w"
  shows "status_ok (validate_no_overlap v w) \<longleftrightarrow> in_memory v \<and> in_memory w \<and> apart v w"
  unfolding validate_no_overlap_def output_alias_iff [OF assms] by simp

lemma apart_cells: "apart v w \<Longrightarrow> cells_of v \<inter> cells_of w = {}"
  by (auto simp: apart_def cells_def slot_def)

lemma apart_sym: "apart v w \<longleftrightarrow> apart w v"
  by (auto simp: apart_def)

section \<open>Shapes\<close>

lemma first_failure_ok [simp]: "status_ok (first_failure ss) \<longleftrightarrow> list_all status_ok ss"
  by (auto simp: first_failure_def list_all_iff find_None_iff split: option.splits dest: find_SomeD)

lemma take_extents:
  assumes "length es = max_rank"
  shows "take 1 es = [es ! 0]" "take 2 es = [es ! 0, es ! 1]" "take 3 es = [es ! 0, es ! 1, es ! 2]"
    "take 4 es = [es ! 0, es ! 1, es ! 2, es ! 3]"
proof -
  obtain a b c d e f where "es = [a, b, c, d, e, f]"
    using assms by (auto simp: max_rank_def numeral_eq_Suc length_Suc_conv)
  then show "take 1 es = [es ! 0]" "take 2 es = [es ! 0, es ! 1]" "take 3 es = [es ! 0, es ! 1, es ! 2]"
    "take 4 es = [es ! 0, es ! 1, es ! 2, es ! 3]" by simp_all
qed

lemma numel_rank:
  assumes "array_view v"
  shows "rank v = 1 \<Longrightarrow> numel v = unat (extent v 0)"
    "rank v = 2 \<Longrightarrow> numel v = unat (extent v 0) * unat (extent v 1)"
    "rank v = 3 \<Longrightarrow> numel v = unat (extent v 0) * unat (extent v 1) * unat (extent v 2)"
    "rank v = 4 \<Longrightarrow> numel v =
      unat (extent v 0) * unat (extent v 1) * (unat (extent v 2) * unat (extent v 3))"
  using assms take_extents [of "sh_extents (tv_shape v)"]
  by (simp_all add: numel_def dims_def array_view_def mult.assoc)

lemma prod_list_take_le:
  "0 \<notin> set xs \<Longrightarrow> prod_list (take k xs) \<le> (prod_list xs :: nat)"
proof (induction xs arbitrary: k)
  case (Cons x xs)
  have "0 < prod_list xs" using Cons.prems by (induction xs) auto
  with Cons show ?case by (cases k) auto
qed simp

lemma make_f32_view_simps:
  assumes "length es \<le> max_rank"
  shows "tv_data (make_f32_view p es) = p" "array_view (make_f32_view p es)"
    "dims (tv_shape (make_f32_view p es)) = map unat es"
    "numel (make_f32_view p es) = prod_list (map unat es)"
    "rank (make_f32_view p es) = of_nat (length es)"
    "k < length es \<Longrightarrow> extent (make_f32_view p es) k = es ! k"
    "well_shaped (tv_shape (make_f32_view p es))"
proof -
  obtain s where s: "make_shape es = Inr s" using assms make_shape_total by blast
  note shaped = make_shape_Inr [OF s]
  have v: "make_f32_view p es = \<lparr>tv_data = p, tv_shape = s, tv_dtype = F32, tv_memory = Host\<rparr>"
    by (simp add: make_f32_view_def s)
  have e: "s = \<lparr>sh_extents = es @ replicate (max_rank - length es) 0, sh_rank = of_nat (length es)\<rparr>"
    using s assms by (simp add: make_shape_def)
  show "tv_data (make_f32_view p es) = p" "array_view (make_f32_view p es)"
    "dims (tv_shape (make_f32_view p es)) = map unat es"
    "numel (make_f32_view p es) = prod_list (map unat es)"
    "rank (make_f32_view p es) = of_nat (length es)"
    "k < length es \<Longrightarrow> extent (make_f32_view p es) k = es ! k"
    "well_shaped (tv_shape (make_f32_view p es))"
    using shaped by (simp_all add: v numel_def array_view_def well_shaped_def e nth_append)
qed

text \<open>A view without an empty extent is a tensor when its bytes fit and it has an address.\<close>

lemma make_f32_view_ok:
  assumes "length es \<le> max_rank" "0 \<notin> set es" "4 * prod_list (map unat es) < 2 ^ 64" "p \<noteq> 0"
  shows "f32_view (make_f32_view p es)"
proof -
  have "0 \<notin> set (map unat es)" using assms(2) by (auto simp: unat_eq_0)
  from prod_list_take_le [OF this] have "prod_list (take k (map unat es)) < 2 ^ 64" for k
    by (rule le_less_trans) (use assms(3) in simp)
  then show ?thesis
    using assms make_f32_view_simps [OF assms(1), where p = p]
    by (simp add: f32_view_iff) (simp add: make_f32_view_def)
qed

end
