(* ===== verification/CpuKernelProps.thy ===== *)
theory CpuKernelProps
  imports CpuChecks
begin

text \<open>
  The kernels accept exactly the operands that fit together and share no memory; then they
  compute the reference and write nothing but their output, else they write nothing.
\<close>

section \<open>Linear maps\<close>

definition linear_accepts :: "tensor_view \<Rightarrow> tensor_view \<Rightarrow> tensor_view \<Rightarrow> bool" where
  "linear_accepts input weight out \<longleftrightarrow>
     f32_view input \<and> f32_view weight \<and> f32_view out \<and>
     rank input = 2 \<and> rank weight = 2 \<and> rank out = 2 \<and>
     extent input 0 \<noteq> 0 \<and> extent input 1 \<noteq> 0 \<and> extent weight 0 \<noteq> 0 \<and>
     extent weight 1 = extent input 1 \<and> extent out 0 = extent input 0 \<and>
     extent out 1 = extent weight 0 \<and>
     in_memory input \<and> in_memory weight \<and> in_memory out \<and> apart input out \<and> apart weight out"

definition linear_result :: "float_ops \<Rightarrow> tensor_view \<Rightarrow> tensor_view \<Rightarrow> memory \<Rightarrow> vec" where
  "linear_result fo input weight m =
     by_rows (unat (extent weight 0)) (\<lambda>r. linear_vec fo (unat (extent input 1))
       (rd m (tv_data weight)) (row_of (rd m (tv_data input)) (unat (extent input 1)) r))"

lemma linear_f32_cases:
  assumes "array_view input" "array_view weight" "array_view out"
  shows "if linear_accepts input weight out
    then linear_f32 fo input weight out m =
      (status_success, put (tv_data out) 0 (numel out) (linear_result fo input weight m) m)
    else \<not> status_ok (fst (linear_f32 fo input weight out m)) \<and>
      snd (linear_f32 fo input weight out m) = m"
proof (cases "f32_view input \<and> f32_view weight \<and> f32_view out")
  case False
  then have "\<not> list_all status_ok [validate_f32_host input, validate_f32_host weight, validate_f32_host out]"
    using assms by (auto simp: f32_view_def)
  then show ?thesis using False by (auto simp: linear_f32_def linear_accepts_def Let_def)
next
  case True
  then have ok: "list_all status_ok [validate_f32_host input, validate_f32_host weight, validate_f32_host out]"
    by (simp add: f32_view_def)
  note overlap = no_overlap_iff [of input out] no_overlap_iff [of weight out]
  show ?thesis
  proof (cases "linear_accepts input weight out")
    case accepted: True
    let ?R = "unat (extent input 0)" and ?K = "unat (extent input 1)" and ?N = "unat (extent weight 0)"
    note sizes = numel_rank(2) [OF assms(1)] numel_rank(2) [OF assms(2)] numel_rank(2) [OF assms(3)]
    have n: "numel input = ?R * ?K" "numel weight = ?N * ?K" "numel out = ?R * ?N"
      using accepted sizes by (simp_all add: linear_accepts_def)
    have cells: "cells (tv_data input) 0 (?R * ?K) \<inter> cells (tv_data out) 0 (?R * ?N) = {}"
      "cells (tv_data weight) 0 (?N * ?K) \<inter> cells (tv_data out) 0 (?R * ?N) = {}"
      using accepted apart_cells [of input out] apart_cells [of weight out]
      by (simp_all add: linear_accepts_def n)
    have "linear_f32 fo input weight out m = (status_success,
        fold (linear_row fo (tv_data input) (tv_data weight) (tv_data out) ?K ?N) [0..<?R] m)"
      using accepted ok overlap True by (simp add: linear_f32_def linear_accepts_def Let_def)
    then show ?thesis
      unfolding linear_rows_put [OF cells] using accepted by (simp only: n linear_result_def if_True)
  next
    case False
    then show ?thesis
      using ok overlap True by (auto simp: linear_f32_def linear_accepts_def Let_def)
  qed
qed

section \<open>Normalization\<close>

definition rms_norm_accepts :: "tensor_view \<Rightarrow> tensor_view \<Rightarrow> f32 \<Rightarrow> tensor_view \<Rightarrow> bool" where
  "rms_norm_accepts input weight epsilon out \<longleftrightarrow>
     f32_view input \<and> f32_view weight \<and> f32_view out \<and> f32_is_finite epsilon \<and>
     \<not> f32_not_positive epsilon \<and> rank input \<noteq> 0 \<and> rank weight = 1 \<and> tv_shape out = tv_shape input \<and>
     extent input (unat (rank input) - 1) = extent weight 0 \<and> extent weight 0 \<noteq> 0 \<and>
     in_memory input \<and> in_memory weight \<and> in_memory out \<and>
     (apart input out \<or> tv_data input = tv_data out) \<and> apart weight out"

definition rms_norm_result :: "float_ops \<Rightarrow> tensor_view \<Rightarrow> tensor_view \<Rightarrow> f32 \<Rightarrow> memory \<Rightarrow> vec" where
  "rms_norm_result fo input weight epsilon m =
     by_rows (unat (extent weight 0)) (\<lambda>r. normalized_vec fo epsilon (extent weight 0)
       (rd m (tv_data weight)) (row_of (rd m (tv_data input)) (unat (extent weight 0)) r))"

lemma dvd_prod_list: "x \<in> set xs \<Longrightarrow> x dvd prod_list (xs :: nat list)"
  by (induction xs) auto

lemma last_extent_dvd:
  assumes "f32_view v" "rank v \<noteq> 0"
  shows "unat (extent v (unat (rank v) - 1)) dvd numel v"
proof -
  have v: "length (sh_extents (tv_shape v)) = max_rank" "unat (rank v) \<le> max_rank"
    using assms(1) by (simp_all add: f32_view_iff array_view_def well_shaped_def)
  have pos: "unat (rank v) - 1 < unat (rank v)" using assms(2) by (simp add: unat_gt_0)
  then have "extent v (unat (rank v) - 1) \<in> set (take (unat (rank v)) (sh_extents (tv_shape v)))"
    using v by (metis in_set_conv_nth length_take min.absorb2 nth_take)
  then have "unat (extent v (unat (rank v) - 1)) \<in> set (dims (tv_shape v))" by (simp add: dims_def)
  then show ?thesis unfolding numel_def by (rule dvd_prod_list)
qed

lemma f32_view_numel:
  assumes "f32_view v" shows "\<exists>n. checked_numel (tv_shape v) = Inr n \<and> unat n = numel v"
proof -
  have v: "well_shaped (tv_shape v)" "4 * numel v < 2 ^ 64"
    "\<forall>k \<le> length (dims (tv_shape v)). prod_list (take k (dims (tv_shape v))) < 2 ^ 64"
    using assms by (simp_all add: f32_view_iff)
  have n: "unat (of_nat (numel v) :: u64) = numel v" using v(2) by (intro unat_u64_of_nat) simp
  have "checked_numel (tv_shape v) = Inr (of_nat (numel v))"
    unfolding checked_numel_Inr [OF v(1)] n using v(3) by (simp add: numel_def)
  with n show ?thesis by blast
qed

lemma rms_norm_f32_cases:
  assumes "array_view input" "array_view weight" "array_view out"
  shows "if rms_norm_accepts input weight epsilon out
    then rms_norm_f32 fo input weight epsilon out m =
      (status_success, put (tv_data out) 0 (numel out) (rms_norm_result fo input weight epsilon m) m)
    else \<not> status_ok (fst (rms_norm_f32 fo input weight epsilon out m)) \<and>
      snd (rms_norm_f32 fo input weight epsilon out m) = m"
proof (cases "f32_view input \<and> f32_view weight \<and> f32_view out")
  case False
  then have "\<not> list_all status_ok [validate_f32_host input, validate_f32_host weight, validate_f32_host out]"
    using assms by (auto simp: f32_view_def)
  then show ?thesis using False by (auto simp: rms_norm_f32_def rms_norm_accepts_def Let_def)
next
  case True
  then have ok: "list_all status_ok [validate_f32_host input, validate_f32_host weight, validate_f32_host out]"
    by (simp add: f32_view_def)
  note overlap = output_alias_iff [of input out] no_overlap_iff [of weight out]
  obtain count where c: "checked_numel (tv_shape input) = Inr count" "unat count = numel input"
    using f32_view_numel True by blast
  have whole: "count mod extent weight 0 = 0"
    if "rank input \<noteq> 0" "extent input (unat (rank input) - 1) = extent weight 0"
    using last_extent_dvd [of input] that True c(2)
    by (simp add: word_eq_iff_unsigned unat_mod_distrib dvd_eq_mod_eq_0 flip: unat_inject)
  have same: "numel input = numel out" if "tv_shape out = tv_shape input" using that by (simp add: numel_def)
  show ?thesis
  proof (cases "rms_norm_accepts input weight epsilon out")
    case accepted: True
    let ?n = "unat (extent weight 0)" and ?R = "unat (count div extent weight 0)"
    have pos: "0 < ?n" using accepted by (simp add: rms_norm_accepts_def unat_gt_0)
    have "?n dvd numel input"
      using last_extent_dvd [of input] accepted by (simp add: rms_norm_accepts_def)
    then have n: "?R * ?n = numel input" by (simp add: unat_div c(2))
    have no: "numel out = numel input" "numel weight = ?n"
      using accepted same numel_rank(1) [OF assms(2)] by (simp_all add: rms_norm_accepts_def)
    have cells: "tv_data input = tv_data out \<or>
        cells (tv_data input) 0 (?R * ?n) \<inter> cells (tv_data out) 0 (?R * ?n) = {}"
      "cells (tv_data weight) 0 ?n \<inter> cells (tv_data out) 0 (?R * ?n) = {}"
      using accepted apart_cells [of input out] apart_cells [of weight out]
      by (auto simp: rms_norm_accepts_def n no)
    have "rms_norm_f32 fo input weight epsilon out m = (status_success,
        fold (rms_norm_row fo (tv_data input) (tv_data weight) epsilon (tv_data out) (extent weight 0))
          [0..<?R] m)"
      using accepted ok overlap True whole same c(1)
      by (auto simp: rms_norm_f32_def rms_norm_accepts_def Let_def)
    then show ?thesis
      unfolding rms_norm_rows_put [OF cells refl] n
      using accepted by (simp only: no rms_norm_result_def if_True)
  next
    case False
    then show ?thesis
      using ok overlap True whole same c(1)
      by (auto simp: rms_norm_f32_def rms_norm_accepts_def Let_def)
  qed
qed

section \<open>Softmax\<close>

definition softmax_accepts :: "tensor_view \<Rightarrow> u32 list \<Rightarrow> tensor_view \<Rightarrow> memory \<Rightarrow> bool" where
  "softmax_accepts input valid_lengths out m \<longleftrightarrow>
     f32_view input \<and> f32_view out \<and> rank input = 2 \<and> tv_shape out = tv_shape input \<and>
     extent input 0 \<noteq> 0 \<and> extent input 1 \<noteq> 0 \<and>
     length valid_lengths = unat (extent input 0) \<and>
     in_memory input \<and> in_memory out \<and> (apart input out \<or> tv_data input = tv_data out) \<and>
     (\<forall>row < unat (extent input 0).
        0 < valid_lengths ! row \<and> unat (valid_lengths ! row) \<le> unat (extent input 1) \<and>
        (\<forall>column < unat (valid_lengths ! row).
           f32_is_finite (rd m (tv_data input) (row * unat (extent input 1) + column))))"

definition softmax_result :: "float_ops \<Rightarrow> tensor_view \<Rightarrow> u32 list \<Rightarrow> memory \<Rightarrow> vec" where
  "softmax_result fo input valid_lengths m =
     by_rows (unat (extent input 1)) (\<lambda>r j. if j < unat (valid_lengths ! r)
       then softmax_vec fo (unat (valid_lengths ! r))
         (row_of (rd m (tv_data input)) (unat (extent input 1)) r) j
       else f32_zero)"

lemma softmax_row_ok_iff:
  "softmax_row_ok p columns valid_lengths m row \<longleftrightarrow>
     0 < valid_lengths ! row \<and> unat (valid_lengths ! row) \<le> columns \<and>
     (\<forall>column < unat (valid_lengths ! row). f32_is_finite (rd m p (row * columns + column)))"
  by (auto simp: softmax_row_ok_def Let_def list_all_iff not_less unat_eq_0 unat_gt_0 word_gt_0)

lemma find_upt_None: "List.find P [0..<n] = None \<longleftrightarrow> (\<forall>i < n. \<not> P i)"
  by (auto simp: find_None_iff)

lemma softmax_f32_cases:
  assumes "array_view input" "array_view out"
  shows "if softmax_accepts input valid_lengths out m
    then softmax_f32 fo input valid_lengths out m =
      (status_success, put (tv_data out) 0 (numel out) (softmax_result fo input valid_lengths m) m)
    else \<not> status_ok (fst (softmax_f32 fo input valid_lengths out m)) \<and>
      snd (softmax_f32 fo input valid_lengths out m) = m"
proof (cases "f32_view input \<and> f32_view out")
  case False
  then have "\<not> list_all status_ok [validate_f32_host input, validate_f32_host out]"
    using assms by (auto simp: f32_view_def)
  then show ?thesis using False by (auto simp: softmax_f32_def softmax_accepts_def Let_def)
next
  case True
  then have ok: "list_all status_ok [validate_f32_host input, validate_f32_host out]"
    by (simp add: f32_view_def)
  note overlap = output_alias_iff [of input out]
  have same: "numel input = numel out" if "tv_shape out = tv_shape input" using that by (simp add: numel_def)
  let ?C = "unat (extent input 1)" and ?R = "unat (extent input 0)"
  let ?find = "List.find (\<lambda>row. \<not> softmax_row_ok (tv_data input) ?C valid_lengths m row) [0..<?R]"
  show ?thesis
  proof (cases "softmax_accepts input valid_lengths out m")
    case accepted: True
    have rows: "?find = None" using accepted by (simp add: find_upt_None softmax_row_ok_iff softmax_accepts_def)
    have no: "numel out = ?R * ?C" "numel input = ?R * ?C"
      using accepted same numel_rank(2) [OF assms(1)] by (simp_all add: softmax_accepts_def)
    have cells: "tv_data input = tv_data out \<or>
        cells (tv_data input) 0 (?R * ?C) \<inter> cells (tv_data out) 0 (?R * ?C) = {}"
      using accepted apart_cells [of input out] by (auto simp: softmax_accepts_def no)
    have valid: "r < ?R \<Longrightarrow> unat (valid_lengths ! r) \<le> ?C" for r
      using accepted by (simp add: softmax_accepts_def)
    have "softmax_f32 fo input valid_lengths out m = (status_success,
        fold (softmax_row fo (tv_data input) ?C valid_lengths (tv_data out)) [0..<?R] m)"
      using accepted ok overlap True same rows
      by (auto simp: softmax_f32_def softmax_accepts_def Let_def)
    then show ?thesis
      using accepted softmax_rows_put [OF cells valid] by (simp only: no softmax_result_def if_True)
  next
    case False
    show ?thesis
    proof (cases ?find)
      case None
      then have "\<forall>row < ?R. softmax_row_ok (tv_data input) ?C valid_lengths m row"
        by (simp add: find_upt_None)
      then show ?thesis
        using False ok overlap True same
        by (auto simp: softmax_f32_def softmax_accepts_def Let_def softmax_row_ok_iff)
    next
      case (Some row)
      then show ?thesis using False ok by (simp add: softmax_f32_def Let_def)
    qed
  qed
qed

section \<open>Rotary positions\<close>

definition rope_tensor :: "tensor_view \<Rightarrow> bool" where
  "rope_tensor v \<longleftrightarrow> f32_view v \<and> rank v = 4 \<and> extent v 0 \<noteq> 0 \<and> extent v 1 \<noteq> 0 \<and> extent v 2 \<noteq> 0 \<and>
     extent v 3 \<noteq> 0 \<and> even (unat (extent v 3))"

definition rope_accepts :: "tensor_view \<Rightarrow> tensor_view \<Rightarrow> u32 list \<Rightarrow> rope_spec \<Rightarrow> bool" where
  "rope_accepts query key positions spec \<longleftrightarrow>
     rope_tensor query \<and> rope_tensor key \<and> extent query 0 = extent key 0 \<and>
     extent query 1 = extent key 1 \<and> extent query 3 = extent key 3 \<and>
     length positions = unat (extent query 0) * unat (extent query 1) \<and>
     f32_is_finite (rs_theta spec) \<and> \<not> f32_not_positive (rs_theta spec) \<and>
     rs_max_positions spec \<noteq> 0 \<and> in_memory query \<and> in_memory key \<and> apart query key \<and>
     (\<forall>position \<in> set positions. position < rs_max_positions spec)"

definition rope_result :: "float_ops \<Rightarrow> rope_spec \<Rightarrow> u32 list \<Rightarrow> tensor_view \<Rightarrow> memory \<Rightarrow> vec" where
  "rope_result fo spec positions v m =
     by_rows (unat (extent v 2) * unat (extent v 3)) (\<lambda>r. rope_vec fo (rs_theta spec) (extent v 3)
       (positions ! r) (row_of (rd m (tv_data v)) (unat (extent v 2) * unat (extent v 3)) r))"

lemma rope_tensor_iff: "array_view v \<Longrightarrow> status_ok (validate_rope_tensor v) \<longleftrightarrow> rope_tensor v"
  by (auto simp: validate_rope_tensor_def rope_tensor_def f32_view_def Let_def even_iff_mod_2_eq_zero
      unat_mod_distrib simp flip: unat_eq_0)

lemma leading_extents_fit:
  assumes "f32_view v" "rank v = 4"
  shows "unat (extent v 0 * extent v 1) = unat (extent v 0) * unat (extent v 1)"
proof (rule unat_u64_times)
  have es: "take 4 (sh_extents (tv_shape v)) = [extent v 0, extent v 1, extent v 2, extent v 3]"
    by (rule take_extents(4)) (use assms(1) in \<open>simp add: f32_view_def array_view_def\<close>)
  have d: "dims (tv_shape v) = [unat (extent v 0), unat (extent v 1), unat (extent v 2), unat (extent v 3)]"
    using assms(2) es by (simp add: dims_def)
  have "\<forall>k \<le> length (dims (tv_shape v)). prod_list (take k (dims (tv_shape v))) < 2 ^ 64"
    using assms(1) by (simp add: f32_view_iff)
  then have "prod_list (take 2 (dims (tv_shape v))) < 2 ^ 64" by (rule allE [of _ 2]) (simp add: d)
  then show "unat (extent v 0) * unat (extent v 1) < 2 ^ 64" by (simp add: d)
qed

lemma positions_length:
  assumes "f32_view v" "rank v = 4" "length positions < 2 ^ 64"
  shows "of_nat (length positions) = extent v 0 * extent v 1 \<longleftrightarrow>
    length positions = unat (extent v 0) * unat (extent v 1)"
  using leading_extents_fit [OF assms(1,2)] unat_u64_of_nat [OF assms(3)] by (metis unat_inject)

lemma rope_as_overlap:
  "(case view_range query of
      Inl e \<Rightarrow> (e, m)
    | Inr a \<Rightarrow>
        (case view_range key of
           Inl e \<Rightarrow> (e, m)
         | Inr b \<Rightarrow> if overlaps a b then (status_failure Invalid_argument, m) else r)) =
   (if status_ok (validate_no_overlap query key) then r else (validate_no_overlap query key, m))"
  if "f32_view query" "f32_view key"
  using that by (auto simp: validate_no_overlap_def validate_output_alias_def view_range_f32)

lemma apply_rope_cases:
  assumes "array_view query" "array_view key" "length positions < 2 ^ 64"
  shows "if rope_accepts query key positions spec
    then apply_rope_f32 fo query key positions spec m = (status_success,
      put (tv_data key) 0 (numel key) (rope_result fo spec positions key m)
        (put (tv_data query) 0 (numel query) (rope_result fo spec positions query m) m))
    else \<not> status_ok (fst (apply_rope_f32 fo query key positions spec m)) \<and>
      snd (apply_rope_f32 fo query key positions spec m) = m"
proof (cases "rope_tensor query \<and> rope_tensor key")
  case False
  then show ?thesis
    using assms by (auto simp: apply_rope_f32_def rope_accepts_def rope_tensor_iff)
next
  case True
  then have f32: "f32_view query" "f32_view key" "rank query = 4" "rank key = 4"
    by (simp_all add: rope_tensor_def)
  note overlap = no_overlap_iff [OF f32(1,2)]
  note run = apply_rope_f32_def rope_as_overlap [OF f32(1,2)] positions_length [OF f32(1,3) assms(3), unfolded One_nat_def]
    positions_length [OF f32(2,4) assms(3), unfolded One_nat_def]
    rope_tensor_iff [OF assms(1)] rope_tensor_iff [OF assms(2)]
  let ?B = "unat (extent query 0)" and ?T = "unat (extent query 1)" and ?D = "unat (extent query 3)"
  let ?Q = "unat (extent query 2)" and ?K = "unat (extent key 2)"
  show ?thesis
  proof (cases "rope_accepts query key positions spec")
    case accepted: True
    have n: "numel query = ?B * ?T * (?Q * ?D)" "numel key = ?B * ?T * (?K * ?D)"
      using accepted numel_rank(4) [OF assms(1)] numel_rank(4) [OF assms(2)]
      by (simp_all add: rope_accepts_def rope_tensor_def)
    have cells: "cells (tv_data query) 0 (?B * ?T * (?Q * ?D)) \<inter>
        cells (tv_data key) 0 (?B * ?T * (?K * ?D)) = {}"
      using accepted apart_cells [of query key] by (simp add: rope_accepts_def n)
    have d: "even ?D" "extent key 3 = extent query 3"
      using accepted by (simp_all add: rope_accepts_def rope_tensor_def)
    have "apply_rope_f32 fo query key positions spec m = (status_success,
        fold (\<lambda>batch_index. fold (\<lambda>token m'.
            let position = positions ! (batch_index * ?T + token)
            in rotate fo (rs_theta spec) (extent query 3) ?T (tv_data key) ?K batch_index token position
                 (rotate fo (rs_theta spec) (extent query 3) ?T (tv_data query) ?Q batch_index token
                   position m')) [0..<?T]) [0..<?B] m)"
      using accepted True overlap by (simp add: run rope_accepts_def list_all_iff Let_def)
    then show ?thesis
      unfolding rope_rows_put [OF d(1) cells]
      using accepted by (simp only: n rope_result_def d(2) if_True)
  next
    case False
    then show ?thesis
      using True overlap by (auto simp: run rope_accepts_def list_all_iff)
  qed
qed

end
