(* ===== verification/CpuAttentionProps.thy ===== *)
theory CpuAttentionProps
  imports CpuKernelProps
begin

text \<open>
  The cache of keys and values and attention accept exactly the operands that fit together,
  and then compute the reference.
\<close>

section \<open>The cache\<close>

definition append_kv_accepts ::
  "tensor_view \<Rightarrow> tensor_view \<Rightarrow> u32 list \<Rightarrow> cpu_kv_view \<Rightarrow> bool" where
  "append_kv_accepts key val positions cache \<longleftrightarrow>
     (let kc = kv_key cache; vc = kv_value cache
      in f32_view key \<and> f32_view val \<and> f32_view kc \<and> f32_view vc \<and>
         rank key = 4 \<and> tv_shape val = tv_shape key \<and> rank kc = 4 \<and> tv_shape vc = tv_shape kc \<and>
         extent key 0 = extent kc 0 \<and> extent key 2 = extent kc 2 \<and> extent key 3 = extent kc 3 \<and>
         length positions = unat (extent key 0) * unat (extent key 1) \<and>
         (\<forall>p \<in> set positions. unat p < unat (extent kc 1)) \<and>
         in_memory key \<and> in_memory val \<and> in_memory kc \<and> in_memory vc \<and>
         apart key kc \<and> apart key vc \<and> apart val kc \<and> apart val vc)"

text \<open>The place in the cache of row \<open>r\<close> of the new keys.\<close>

definition kv_place :: "tensor_view \<Rightarrow> u32 list \<Rightarrow> cpu_kv_view \<Rightarrow> nat \<Rightarrow> nat" where
  "kv_place key positions cache r =
     r div unat (extent key 1) * unat (extent (kv_key cache) 1) + unat (positions ! r)"

definition kv_row_width :: "tensor_view \<Rightarrow> nat" where
  "kv_row_width key = unat (extent key 2) * unat (extent key 3)"

definition append_kv_result ::
  "tensor_view \<Rightarrow> tensor_view \<Rightarrow> u32 list \<Rightarrow> cpu_kv_view \<Rightarrow> memory \<Rightarrow> memory" where
  "append_kv_result key val positions cache m =
     (let rows = unat (extent key 0) * unat (extent key 1); place = kv_place key positions cache;
          n = kv_row_width key
      in scatter (tv_data (kv_value cache)) n rows place (row_of (rd m (tv_data val)) n)
           (scatter (tv_data (kv_key cache)) n rows place (row_of (rd m (tv_data key)) n) m))"

lemma kv_place_bound:
  assumes "append_kv_accepts key val positions cache"
    "r < unat (extent key 0) * unat (extent key 1)"
  shows "kv_place key positions cache r < unat (extent key 0) * unat (extent (kv_key cache) 1)"
proof -
  have "0 < unat (extent key 1)" using assms(2) by (cases "unat (extent key 1)") auto
  then have "r div unat (extent key 1) < unat (extent key 0)"
    using assms(2) by (simp add: div_less_iff_less_mult)
  moreover have "unat (positions ! r) < unat (extent (kv_key cache) 1)"
    using assms by (simp add: append_kv_accepts_def Let_def)
  ultimately show ?thesis unfolding kv_place_def by (rule row_bound)
qed

lemma append_kv_cases:
  assumes "array_view key" "array_view val" "array_view (kv_key cache)" "array_view (kv_value cache)"
    "length positions < 2 ^ 64" "apart (kv_key cache) (kv_value cache)"
  shows "if append_kv_accepts key val positions cache
    then append_kv_f32 key val positions cache m =
      (status_success, append_kv_result key val positions cache m)
    else \<not> status_ok (fst (append_kv_f32 key val positions cache m)) \<and>
      snd (append_kv_f32 key val positions cache m) = m"
proof (cases "f32_view key \<and> f32_view val \<and> f32_view (kv_key cache) \<and> f32_view (kv_value cache)")
  case False
  then have "\<not> list_all status_ok [validate_f32_host key, validate_f32_host val,
      validate_f32_host (kv_key cache), validate_f32_host (kv_value cache)]"
    using assms by (auto simp: f32_view_def)
  then show ?thesis using False by (auto simp: append_kv_f32_def append_kv_accepts_def Let_def)
next
  case True
  then have ok: "list_all status_ok [validate_f32_host key, validate_f32_host val,
      validate_f32_host (kv_key cache), validate_f32_host (kv_value cache)]"
    by (simp add: f32_view_def)
  let ?kc = "kv_key cache" and ?vc = "kv_value cache"
  note overlap = no_overlap_iff [of key ?kc] no_overlap_iff [of key ?vc] no_overlap_iff [of val ?kc]
    no_overlap_iff [of val ?vc]
  have len: "of_nat (length positions) = extent key 0 * extent key (Suc 0) \<longleftrightarrow>
      length positions = unat (extent key 0) * unat (extent key (Suc 0))" if "rank key = 4"
    using positions_length [of key positions] True that assms(5) by simp
  have bound: "list_all (\<lambda>position. \<not> ucast position \<ge> extent ?kc (Suc 0)) positions \<longleftrightarrow>
      (\<forall>p \<in> set positions. unat p < unat (extent ?kc (Suc 0)))"
    by (simp add: list_all_iff not_le word_less_nat_alt)
  note run = append_kv_f32_def Let_def bound
  show ?thesis
  proof (cases "append_kv_accepts key val positions cache")
    case accepted: True
    let ?B = "unat (extent key 0)" and ?T = "unat (extent key 1)" and ?n = "kv_row_width key"
      and ?C = "unat (extent ?kc 1)"
    let ?place = "kv_place key positions cache"
    have n: "numel key = ?B * ?T * ?n" "numel ?kc = ?B * ?C * ?n"
      using accepted numel_rank(4) [OF assms(1)] numel_rank(4) [OF assms(3)]
      by (simp_all add: append_kv_accepts_def Let_def kv_row_width_def)
    then have n': "numel val = ?B * ?T * ?n" "numel ?vc = ?B * ?C * ?n"
      using accepted by (simp_all add: append_kv_accepts_def Let_def numel_def)
    have cells: "cells (tv_data ?kc) 0 (?B * ?C * ?n) \<inter> cells (tv_data ?vc) 0 (?B * ?C * ?n) = {}"
      "cells (tv_data key) 0 (?B * ?T * ?n) \<inter> cells (tv_data ?kc) 0 (?B * ?C * ?n) = {}"
      "cells (tv_data key) 0 (?B * ?T * ?n) \<inter> cells (tv_data ?vc) 0 (?B * ?C * ?n) = {}"
      "cells (tv_data val) 0 (?B * ?T * ?n) \<inter> cells (tv_data ?kc) 0 (?B * ?C * ?n) = {}"
      "cells (tv_data val) 0 (?B * ?T * ?n) \<inter> cells (tv_data ?vc) 0 (?B * ?C * ?n) = {}"
      using accepted assms(6) apart_cells [of ?kc ?vc] apart_cells [of key ?kc] apart_cells [of key ?vc]
        apart_cells [of val ?kc] apart_cells [of val ?vc]
      by (simp_all add: append_kv_accepts_def Let_def n n')
    let ?step = "\<lambda>r m'. copy_floats (tv_data ?vc) (?place r * ?n) (tv_data val) (r * ?n) ?n
        (copy_floats (tv_data ?kc) (?place r * ?n) (tv_data key) (r * ?n) ?n m')"
    have "append_kv_f32 key val positions cache m = (status_success,
        fold (\<lambda>b. fold (\<lambda>t m'.
          let position = unat (positions ! (b * ?T + t)); source_offset = (b * ?T + t) * ?n;
              destination_offset = (b * ?C + position) * ?n
          in copy_floats (tv_data ?vc) destination_offset (tv_data val) source_offset ?n
               (copy_floats (tv_data ?kc) destination_offset (tv_data key) source_offset ?n m'))
          [0..<?T]) [0..<?B] m)"
      using accepted True ok overlap len
      by (simp add: run append_kv_accepts_def kv_row_width_def)
    also have "fold (\<lambda>b. fold (\<lambda>t m'.
          let position = unat (positions ! (b * ?T + t)); source_offset = (b * ?T + t) * ?n;
              destination_offset = (b * ?C + position) * ?n
          in copy_floats (tv_data ?vc) destination_offset (tv_data val) source_offset ?n
               (copy_floats (tv_data ?kc) destination_offset (tv_data key) source_offset ?n m'))
          [0..<?T]) [0..<?B] m = fold (\<lambda>b. fold (\<lambda>t. ?step (b * ?T + t)) [0..<?T]) [0..<?B] m"
      by (intro fold_upt_cong) (simp add: kv_place_def Let_def)
    also have "\<dots> = fold ?step [0..<?B * ?T] m" by (rule fold_nested)
    also have "\<dots> = append_kv_result key val positions cache m"
      unfolding append_kv_result_def Let_def
      by (rule append_rows_scatter [OF cells]) (rule kv_place_bound [OF accepted])
    finally show ?thesis using accepted by simp
  next
    case False
    let ?mismatch = "rank key \<noteq> 4 \<or> tv_shape val \<noteq> tv_shape key \<or> rank ?kc \<noteq> 4 \<or>
        tv_shape ?vc \<noteq> tv_shape ?kc \<or> extent key 0 \<noteq> extent ?kc 0 \<or> extent key 2 \<noteq> extent ?kc 2 \<or>
        extent key 3 \<noteq> extent ?kc 3 \<or>
        of_nat (length positions) \<noteq> extent key 0 * extent key 1"
    let ?high = "\<not> list_all (\<lambda>position. \<not> ucast position \<ge> extent ?kc 1) positions"
    consider ?mismatch | "\<not> ?mismatch" ?high | "\<not> ?mismatch" "\<not> ?high" by blast
    then show ?thesis
    proof cases
      case 1
      then show ?thesis unfolding append_kv_f32_def Let_def if_P [OF 1] using False ok by simp
    next
      case 2
      then show ?thesis unfolding append_kv_f32_def Let_def if_not_P [OF 2(1)] if_P [OF 2(2)]
        using False ok by simp
    next
      case 3
      then have "\<not> list_all status_ok [validate_no_overlap key ?kc, validate_no_overlap key ?vc,
          validate_no_overlap val ?kc, validate_no_overlap val ?vc]"
        using False True overlap len bound by (auto simp: append_kv_accepts_def Let_def)
      then show ?thesis unfolding append_kv_f32_def Let_def if_not_P [OF 3(1)] if_not_P [OF 3(2)]
        using False ok by simp
    qed
  qed
qed

section \<open>Attention\<close>

definition attention_accepts ::
  "tensor_view \<Rightarrow> tensor_view \<Rightarrow> tensor_view \<Rightarrow> u32 list \<Rightarrow> tensor_view \<Rightarrow> bool" where
  "attention_accepts query key_cache value_cache context_lengths out \<longleftrightarrow>
     f32_view query \<and> f32_view key_cache \<and> f32_view value_cache \<and> f32_view out \<and>
     rank query = 4 \<and> rank key_cache = 4 \<and> tv_shape value_cache = tv_shape key_cache \<and>
     tv_shape out = tv_shape query \<and>
     extent query 0 \<noteq> 0 \<and> extent query 1 \<noteq> 0 \<and> extent query 2 \<noteq> 0 \<and> extent query 3 \<noteq> 0 \<and>
     extent key_cache 1 \<noteq> 0 \<and> extent key_cache 2 \<noteq> 0 \<and> extent key_cache 0 = extent query 0 \<and>
     extent key_cache 3 = extent query 3 \<and>
     unat (extent query 2) mod unat (extent key_cache 2) = 0 \<and>
     length context_lengths = unat (extent query 0) \<and>
     (\<forall>c \<in> set context_lengths. unat (extent query 1) \<le> unat c \<and> unat c \<le> unat (extent key_cache 1)) \<and>
     in_memory query \<and> in_memory key_cache \<and> in_memory value_cache \<and> in_memory out \<and>
     apart query out \<and> apart key_cache out \<and> apart value_cache out"

lemma validate_attention_shapes_iff:
  assumes "array_view query" "array_view key_cache" "array_view value_cache" "array_view out"
    "length context_lengths < 2 ^ 64"
  shows "status_ok (validate_attention_shapes query key_cache value_cache out context_lengths) \<longleftrightarrow>
    attention_accepts query key_cache value_cache context_lengths out"
proof (cases "f32_view query \<and> f32_view key_cache \<and> f32_view value_cache \<and> f32_view out")
  case False
  then have "\<not> list_all status_ok [validate_f32_host query, validate_f32_host key_cache,
      validate_f32_host value_cache, validate_f32_host out]"
    using assms by (auto simp: f32_view_def)
  then show ?thesis
    using False by (auto simp: validate_attention_shapes_def attention_accepts_def Let_def)
next
  case True
  then have ok: "list_all status_ok [validate_f32_host query, validate_f32_host key_cache,
      validate_f32_host value_cache, validate_f32_host out]"
    by (simp add: f32_view_def)
  note overlap = no_overlap_iff [of query out] no_overlap_iff [of key_cache out]
    no_overlap_iff [of value_cache out]
  have len: "of_nat (length context_lengths) = e \<longleftrightarrow> length context_lengths = unat e" for e :: u64
    using unat_u64_of_nat [OF assms(5)] by (metis unat_inject)
  have contexts: "list_all (\<lambda>context. \<not> (ucast context < tokens \<or> ucast context > maximum_context))
      context_lengths \<longleftrightarrow> (\<forall>c \<in> set context_lengths. unat tokens \<le> unat c \<and> unat c \<le> unat maximum_context)"
    for tokens maximum_context :: u64
    by (simp add: list_all_iff not_less word_le_nat_alt)
  have groups: "h mod k \<noteq> 0 \<longleftrightarrow> unat h mod unat k \<noteq> 0" for h k :: u64
    by (simp add: unat_mod_distrib flip: unat_inject)
  show ?thesis
    using True ok overlap
    by (simp only: validate_attention_shapes_def Let_def first_failure_ok not_True_eq_False if_False
        len contexts groups attention_accepts_def) auto
qed

definition query_finite :: "tensor_view \<Rightarrow> memory \<Rightarrow> bool" where
  "query_finite query m \<longleftrightarrow> (\<forall>i < numel query. f32_is_finite (rd m (tv_data query) i))"

lemma product_loop_fits:
  "0 \<notin> set xs \<Longrightarrow> product_loop a xs = fits (unat a * prod_list (map unat xs))"
proof (induction xs arbitrary: a)
  case (Cons x xs)
  have "0 < prod_list (map unat xs)" using Cons.prems by (induction xs) (auto simp: unat_gt_0)
  then have "unat a * unat x \<le> unat a * unat x * prod_list (map unat xs)" by simp
  then show ?case
    using Cons by (simp add: fitting) (rule fits_bind, simp_all add: mult.assoc)
qed simp

lemma product_fits: "0 \<notin> set xs \<Longrightarrow> product xs = fits (prod_list (map unat xs))"
  by (simp add: product_def product_loop_fits)

text \<open>The logits of all heads of all tokens.\<close>

definition attention_floats :: "tensor_view \<Rightarrow> tensor_view \<Rightarrow> nat" where
  "attention_floats query key_cache =
     unat (extent query 0) * unat (extent query 1) * unat (extent query 2) * unat (extent key_cache 1)"

text \<open>The workspace lies within the address space, apart from the operands.\<close>

definition workspace_apart :: "cpu_workspace \<Rightarrow> nat \<Rightarrow> tensor_view list \<Rightarrow> bool" where
  "workspace_apart w n vs \<longleftrightarrow>
     unat (hb_data (ws_storage w)) + 4 * n \<le> 2 ^ 64 \<and>
     (\<forall>v \<in> set vs. cells_of v \<inter> cells (hb_data (ws_storage w)) 0 n = {})"

lemma attention_is_ready:
  assumes "attention_accepts query key_cache value_cache context_lengths out"
    "attention_floats query key_cache \<le> n"
    "unat p + 4 * n \<le> 2 ^ 64"
    "\<forall>v \<in> {query, key_cache, value_cache, out}. cells_of v \<inter> cells p 0 n = {}"
  shows "attention_ready query key_cache value_cache context_lengths out (p, n)"
proof -
  note acc = assms(1) [unfolded attention_accepts_def]
  have arrays: "array_view query" "array_view key_cache"
    using acc by (simp_all add: f32_view_def)
  have n: "numel query = unat (extent query 0) * unat (extent query 1) * (unat (extent query 2) * unat (extent query 3))"
    "numel key_cache = unat (extent query 0) * unat (extent key_cache 1) *
       (unat (extent key_cache 2) * unat (extent query 3))"
    using acc numel_rank(4) [OF arrays(1)] numel_rank(4) [OF arrays(2)] by simp_all
  have n': "numel out = numel query" "numel value_cache = numel key_cache"
    using acc by (simp_all add: numel_def)
  have "cells_of query \<inter> cells_of out = {}" "cells_of key_cache \<inter> cells_of out = {}"
    "cells_of value_cache \<inter> cells_of out = {}"
    using acc apart_cells by blast+
  moreover have "0 < unat (extent key_cache 1)" using acc by (simp add: unat_gt_0)
  moreover have "\<forall>b < unat (extent query 0). unat (extent query 1) \<le> unat (context_lengths ! b) \<and>
      unat (context_lengths ! b) \<le> unat (extent key_cache 1)"
    using acc by simp
  moreover have "cells_of query \<inter> cells p 0 n = {}" "cells_of key_cache \<inter> cells p 0 n = {}"
    "cells_of value_cache \<inter> cells p 0 n = {}" "cells p 0 n \<inter> cells_of out = {}"
    using assms(4) by blast+
  ultimately show ?thesis
    using assms(2,3) acc
    unfolding attention_ready_def Let_def fst_conv snd_conv attention_floats_def n' n by simp
qed

lemma attention_f32_cases:
  assumes "array_view query" "array_view key_cache" "array_view value_cache" "array_view out"
    "length context_lengths < 2 ^ 64"
    "workspace_apart workspace (attention_floats query key_cache) [query, key_cache, value_cache, out]"
  shows "if attention_accepts query key_cache value_cache context_lengths out \<and>
        attention_floats query key_cache \<le> unat (ws_capacity workspace) \<and>
        query_finite query m \<and> cache_finite key_cache value_cache context_lengths m
    then \<exists>m'. attention_f32 fo query key_cache value_cache context_lengths out workspace m =
        Some (status_success, m') \<and>
      same_outside (cells (hb_data (ws_storage workspace)) 0 (attention_floats query key_cache))
        (put (tv_data out) 0 (numel out)
          (attention_reference fo query key_cache value_cache context_lengths m) m) m'
    else \<exists>s. attention_f32 fo query key_cache value_cache context_lengths out workspace m = Some (s, m) \<and>
      \<not> status_ok s"
proof (cases "attention_accepts query key_cache value_cache context_lengths out")
  case False
  then show ?thesis
    using validate_attention_shapes_iff [OF assms(1-5)] by (simp add: attention_f32_def Let_def)
next
  case True
  note acc = True [unfolded attention_accepts_def]
  let ?n = "attention_floats query key_cache"
  have valid: "status_ok (validate_attention_shapes query key_cache value_cache out context_lengths)"
    using True validate_attention_shapes_iff [OF assms(1-5)] by simp
  have "0 \<notin> set [extent query 0, extent query 1, extent query 2, extent key_cache 1]" using acc by auto
  from product_fits [OF this] have required: "required_attention_workspace_floats query key_cache = fits ?n"
    using acc by (simp add: required_attention_workspace_floats_def attention_floats_def mult.assoc)
  show ?thesis
  proof (cases "?n \<le> unat (ws_capacity workspace)")
    case False
    then show ?thesis
      using valid by (auto simp: attention_f32_def Let_def required word_less_nat_alt fits_Inr split: sum.splits)
  next
    case room: True
    then have "?n < 2 ^ 64" using unat_u64_lt [of "ws_capacity workspace"] by linarith
    then have n: "fits ?n = Inr (of_nat ?n)" "unat (of_nat ?n :: u64) = ?n"
      by (simp_all add: fits_def unat_u64_of_nat)
    have fine: "\<not> of_nat ?n > ws_capacity workspace" using room by (simp add: word_less_nat_alt n(2))
    obtain count where count: "checked_numel (tv_shape query) = Inr count" "unat count = numel query"
      using f32_view_numel acc by blast
    have finite: "list_all (\<lambda>index. f32_is_finite (rd m (tv_data query) index)) [0..<unat count] \<longleftrightarrow>
        query_finite query m"
      by (auto simp: list_all_iff query_finite_def count(2))
    have ready: "attention_ready query key_cache value_cache context_lengths out
        (hb_data (ws_storage workspace), ?n)"
      using assms(6) by (intro attention_is_ready [OF True]) (auto simp: workspace_apart_def)
    have out: "numel out = unat (extent query 0) * unat (extent query 1) *
        (unat (extent query 2) * unat (extent query 3))"
      using acc numel_rank(4) [OF assms(1)] by (simp add: numel_def)
    have run: "attention_f32 fo query key_cache value_cache context_lengths out workspace m =
        (if query_finite query m \<and> cache_finite key_cache value_cache context_lengths m
         then attention_impl fo query key_cache value_cache context_lengths out
           (hb_data (ws_storage workspace), ?n) m
         else Some (status_failure Invalid_argument, m))"
      using valid fine
      by (simp add: attention_f32_def Let_def required n count(1) finite workspace_floats_def)
    show ?thesis
      using attention_impl_reference [OF ready, of fo m] True room
      by (simp add: run out)
  qed
qed

end
