(* ===== verification/CpuDecoder.thy ===== *)
theory CpuDecoder
  imports CpuLayer
begin

text \<open>
  The decoder layer of \<open>cpu/operators.cpp\<close>: the workspace it needs, its checks, and its
  steps over the pieces of the workspace.
\<close>

section \<open>Data\<close>

record decoder_layer_spec =
  dl_hidden_size :: u32
  dl_intermediate_size :: u32
  dl_query_heads :: u32
  dl_kv_heads :: u32
  dl_head_dim :: u32
  dl_rms_norm_epsilon :: f32
  dl_rope :: rope_spec

record decoder_layer_trace =
  dt_after_attention :: tensor_view
  dt_after_mlp :: tensor_view

section \<open>Workspace\<close>

text \<open>The three chains of guarded operations, each reported as an overflow when it fails.\<close>

definition attention_phase_floats :: "u64 \<Rightarrow> u64 \<Rightarrow> u64 \<Rightarrow> u64 result" where
  "attention_phase_floats row_hidden row_kv logits =
     (case checked_multiply row_hidden 3 of
        Inl _ \<Rightarrow> fail Arithmetic_overflow
      | Inr three_hidden \<Rightarrow>
     (case checked_multiply row_kv 2 of
        Inl e \<Rightarrow> Inl e
      | Inr two_kv \<Rightarrow>
     (case checked_add three_hidden two_kv of
        Inl _ \<Rightarrow> fail Arithmetic_overflow
      | Inr attention_phase \<Rightarrow>
     (case checked_add attention_phase logits of
        Inl _ \<Rightarrow> fail Arithmetic_overflow
      | Inr total_floats \<Rightarrow> Inr total_floats))))"

definition mlp_phase_floats :: "u64 \<Rightarrow> u64 \<Rightarrow> u64 result" where
  "mlp_phase_floats row_intermediate row_hidden =
     (case checked_multiply row_intermediate 2 of
        Inl _ \<Rightarrow> fail Arithmetic_overflow
      | Inr two_intermediate \<Rightarrow>
     (case checked_add two_intermediate row_hidden of
        Inl _ \<Rightarrow> fail Arithmetic_overflow
      | Inr total_floats \<Rightarrow> Inr total_floats))"

definition required_decoder_layer_workspace_floats ::
  "decoder_layer_spec \<Rightarrow> u64 \<Rightarrow> u64 \<Rightarrow> u64 \<Rightarrow> u64 result" where
  "required_decoder_layer_workspace_floats spec batch_size query_tokens maximum_context =
     (case checked_multiply batch_size query_tokens of
        Inl e \<Rightarrow> Inl e
      | Inr rows \<Rightarrow>
     (case (checked_multiply rows (ucast (dl_hidden_size spec)),
            case checked_multiply (ucast (dl_kv_heads spec)) (ucast (dl_head_dim spec)) of
              Inl e \<Rightarrow> Inl e
            | Inr kv_width \<Rightarrow> checked_multiply rows kv_width,
            product [batch_size, query_tokens, ucast (dl_query_heads spec), maximum_context],
            checked_multiply rows (ucast (dl_intermediate_size spec))) of
        (Inr row_hidden, Inr row_kv, Inr logits, Inr row_intermediate) \<Rightarrow>
          (case attention_phase_floats row_hidden row_kv logits of
             Inl e \<Rightarrow> Inl e
           | Inr attention_phase \<Rightarrow>
          (case mlp_phase_floats row_intermediate row_hidden of
             Inl e \<Rightarrow> Inl e
           | Inr mlp_phase \<Rightarrow> Inr (max attention_phase mlp_phase)))
      | _ \<Rightarrow> fail Arithmetic_overflow))"

section \<open>Checks\<close>

definition validate_weight :: "tensor_view \<Rightarrow> u64 list \<Rightarrow> status" where
  "validate_weight weight extents =
     (let s = validate_f32_host weight
      in if \<not> status_ok s then s
         else require_shape (tv_shape weight) (of_nat (length extents)) extents)"

definition layer_spec_ok :: "decoder_layer_spec \<Rightarrow> bool" where
  "layer_spec_ok spec \<longleftrightarrow>
     \<not> (dl_hidden_size spec = 0 \<or> dl_intermediate_size spec = 0 \<or> dl_query_heads spec = 0 \<or>
        dl_kv_heads spec = 0 \<or> dl_head_dim spec = 0 \<or>
        dl_query_heads spec mod dl_kv_heads spec \<noteq> 0 \<or>
        ucast (dl_query_heads spec) * ucast (dl_head_dim spec) \<noteq> (ucast (dl_hidden_size spec) :: u64) \<or>
        \<not> f32_is_finite (dl_rms_norm_epsilon spec) \<or> f32_not_positive (dl_rms_norm_epsilon spec) \<or>
        \<not> f32_is_finite (rs_theta (dl_rope spec)) \<or> f32_not_positive (rs_theta (dl_rope spec)) \<or>
        rs_max_positions (dl_rope spec) = 0)"

text \<open>The loop over the batch that checks the context lengths and the positions.\<close>

definition positions_ok :: "decoder_layer_spec \<Rightarrow> u64 \<Rightarrow> u64 \<Rightarrow> u32 list \<Rightarrow> u32 list \<Rightarrow> nat \<Rightarrow> bool" where
  "positions_ok spec tokens maximum_context positions context_lengths batch_index \<longleftrightarrow>
     (let context = ucast (context_lengths ! batch_index) :: u64
      in \<not> (context < tokens \<or> context > maximum_context) \<and>
         list_all (\<lambda>token.
             let position = positions ! (batch_index * unat tokens + token)
             in \<not> (ucast position \<noteq> (context - tokens) + of_nat token \<or>
                    position \<ge> rs_max_positions (dl_rope spec)))
           [0..<unat tokens])"

definition weight_shapes :: "decoder_layer_spec \<Rightarrow> u64 list list" where
  "weight_shapes spec =
     (let hidden_size = ucast (dl_hidden_size spec);
          intermediate = ucast (dl_intermediate_size spec);
          kv_width = ucast (dl_kv_heads spec) * ucast (dl_head_dim spec)
      in [[hidden_size], [hidden_size, hidden_size], [kv_width, hidden_size],
          [kv_width, hidden_size], [hidden_size, hidden_size], [hidden_size],
          [intermediate, hidden_size], [intermediate, hidden_size], [hidden_size, intermediate]])"

definition validate_trace ::
  "tensor_view \<Rightarrow> cpu_kv_view \<Rightarrow> tensor_view \<Rightarrow> tensor_view list \<Rightarrow> decoder_layer_trace option \<Rightarrow> status" where
  "validate_trace hidden cache workspace_view all_weights trace =
     (case trace of
        None \<Rightarrow> status_success
      | Some tr \<Rightarrow>
          first_failure (concat (map (\<lambda>trace_view.
              [validate_f32_host trace_view,
               if tv_shape trace_view \<noteq> tv_shape hidden then status_failure Invalid_shape
               else status_success,
               validate_no_overlap hidden trace_view,
               validate_no_overlap (kv_key cache) trace_view,
               validate_no_overlap (kv_value cache) trace_view,
               validate_no_overlap workspace_view trace_view] @
              map (\<lambda>weight. validate_no_overlap weight trace_view) all_weights)
            [dt_after_attention tr, dt_after_mlp tr]) @
            [validate_no_overlap (dt_after_attention tr) (dt_after_mlp tr)]))"

text \<open>The batch size, the number of tokens and the context capacity, or the failure.\<close>

definition validate_layer ::
  "layer_weights \<Rightarrow> decoder_layer_spec \<Rightarrow> tensor_view \<Rightarrow> cpu_kv_view \<Rightarrow> u32 list \<Rightarrow> u32 list \<Rightarrow>
     cpu_workspace \<Rightarrow> decoder_layer_trace option \<Rightarrow> (u64 \<times> u64 \<times> u64) result" where
  "validate_layer weights spec hidden cache positions context_lengths workspace trace =
     (if \<not> layer_spec_ok spec then fail Invalid_model
      else if \<not> status_ok (validate_f32_host hidden) then Inl (validate_f32_host hidden)
      else if rank hidden \<noteq> 3 \<or> extent hidden 0 = 0 \<or> extent hidden 1 = 0 \<or>
              extent hidden 2 \<noteq> ucast (dl_hidden_size spec)
      then fail Invalid_shape
      else
        let batch = extent hidden 0; tokens = extent hidden 1;
            kc = kv_key cache; vc = kv_value cache;
            failed = first_failure [validate_f32_host kc, validate_f32_host vc]
        in if \<not> status_ok failed then Inl failed
           else if rank kc \<noteq> 4 \<or> tv_shape vc \<noteq> tv_shape kc \<or> extent kc 0 \<noteq> batch \<or>
                   extent kc 2 \<noteq> ucast (dl_kv_heads spec) \<or> extent kc 3 \<noteq> ucast (dl_head_dim spec)
           then fail Invalid_shape
           else
             let maximum_context = extent kc 1
             in if maximum_context = 0 \<or> of_nat (length positions) \<noteq> batch * tokens \<or>
                   of_nat (length context_lengths) \<noteq> batch
                then fail Invalid_shape
                else if \<not> list_all (positions_ok spec tokens maximum_context positions context_lengths)
                          [0..<unat batch]
                then fail Invalid_argument
                else
                  let all_weights = layer_views weights;
                      shaped = first_failure (map2 validate_weight all_weights (weight_shapes spec))
                  in if \<not> status_ok shaped then Inl shaped
                     else
                       (case required_decoder_layer_workspace_floats spec batch tokens maximum_context of
                          Inl _ \<Rightarrow> fail Insufficient_memory
                        | Inr required \<Rightarrow>
                            if required > ws_capacity workspace then fail Insufficient_memory
                            else
                              let workspace_view =
                                    make_f32_view (fst (workspace_floats workspace)) [ws_capacity workspace];
                                  disjoint = first_failure
                                    ([validate_no_overlap hidden kc, validate_no_overlap hidden vc,
                                      validate_no_overlap hidden workspace_view,
                                      validate_no_overlap kc vc, validate_no_overlap kc workspace_view,
                                      validate_no_overlap vc workspace_view] @
                                     concat (map (\<lambda>weight.
                                       [validate_no_overlap weight hidden, validate_no_overlap weight kc,
                                        validate_no_overlap weight vc,
                                        validate_no_overlap weight workspace_view]) all_weights));
                                  traced = validate_trace hidden cache workspace_view all_weights trace
                              in if \<not> status_ok disjoint then Inl disjoint
                                 else if \<not> status_ok traced then Inl traced
                                 else Inr (batch, tokens, maximum_context)))"

section \<open>Steps\<close>

text \<open>A span of the workspace: the lambda \<open>take\<close>, with the cursor before and after it.\<close>

definition take_span :: "cpu_workspace \<Rightarrow> nat \<Rightarrow> nat \<Rightarrow> ((u64 \<times> nat) \<times> nat) option" where
  "take_span workspace cursor n =
     (if cursor + n > unat (ws_capacity workspace) then None
      else Some ((hb_data (ws_storage workspace) + 4 * of_nat cursor, n), cursor + n))"

fun take_spans :: "cpu_workspace \<Rightarrow> nat \<Rightarrow> nat list \<Rightarrow> (u64 \<times> nat) list option" where
  "take_spans workspace cursor [] = Some []"
| "take_spans workspace cursor (n # ns) =
     (case take_span workspace cursor n of
        None \<Rightarrow> None
      | Some (span, cursor') \<Rightarrow> map_option ((#) span) (take_spans workspace cursor' ns))"

text \<open>The next step is taken only while the status is ok.\<close>

definition and_then ::
  "(status \<times> memory) option \<Rightarrow> (memory \<Rightarrow> (status \<times> memory) option) \<Rightarrow> (status \<times> memory) option" where
  "and_then r f =
     (case r of
        None \<Rightarrow> None
      | Some (s, m) \<Rightarrow> if status_ok s then f m else Some (s, m))"

definition add_in_place :: "float_ops \<Rightarrow> u64 \<Rightarrow> u64 \<Rightarrow> nat \<Rightarrow> memory \<Rightarrow> memory" where
  "add_in_place fo data addend n m =
     fold (\<lambda>index m'. wr data index (fl_add fo (rd m' data index) (rd m' addend index)) m') [0..<n] m"

definition gate_in_place :: "float_ops \<Rightarrow> u64 \<Rightarrow> u64 \<Rightarrow> nat \<Rightarrow> memory \<Rightarrow> memory" where
  "gate_in_place fo gate up n m =
     fold (\<lambda>index m'.
         let gate_value = rd m' gate index;
             silu = fl_div fo gate_value (fl_add fo f32_one (fl_exp fo (f32_neg gate_value)))
         in wr gate index (fl_mul fo silu (rd m' up index)) m') [0..<n] m"

definition trace_copy ::
  "(decoder_layer_trace \<Rightarrow> tensor_view) \<Rightarrow> decoder_layer_trace option \<Rightarrow> u64 \<Rightarrow> nat \<Rightarrow> memory \<Rightarrow> memory" where
  "trace_copy field trace data n m =
     (case trace of
        None \<Rightarrow> m
      | Some tr \<Rightarrow> copy_floats (tv_data (field tr)) 0 data 0 n m)"

text \<open>From the first normalization to the residual after attention.\<close>

definition attention_phase ::
  "float_ops \<Rightarrow> layer_weights \<Rightarrow> decoder_layer_spec \<Rightarrow> tensor_view \<Rightarrow> cpu_kv_view \<Rightarrow> u32 list \<Rightarrow>
     u32 list \<Rightarrow> cpu_workspace \<Rightarrow> decoder_layer_trace option \<Rightarrow> u64 \<Rightarrow> u64 \<Rightarrow> u64 \<Rightarrow> memory \<Rightarrow>
     (status \<times> memory) option" where
  "attention_phase fo weights spec hidden cache positions context_lengths workspace trace
       batch tokens maximum_context m =
     (let rows = batch * tokens; hidden_size = ucast (dl_hidden_size spec);
          query_heads = ucast (dl_query_heads spec); kv_heads = ucast (dl_kv_heads spec);
          head_dim = ucast (dl_head_dim spec); kv_width = kv_heads * head_dim;
          row_hidden = rows * hidden_size; row_kv = rows * kv_width;
          logits_count = batch * tokens * query_heads * maximum_context
      in case take_spans workspace 0 [unat row_hidden, unat row_hidden, unat row_kv, unat row_kv,
                unat row_hidden, unat logits_count] of
           Some [(normalized, _), (query, _), (key, _), (value, _), (attention, _), logits] \<Rightarrow>
             let normalized_hidden = make_f32_view normalized [batch, tokens, hidden_size];
                 normalized_flat = make_f32_view normalized [rows, hidden_size];
                 query_flat = make_f32_view query [rows, hidden_size];
                 key_flat = make_f32_view key [rows, kv_width];
                 value_flat = make_f32_view value [rows, kv_width];
                 query_view = make_f32_view query [batch, tokens, query_heads, head_dim];
                 key_view = make_f32_view key [batch, tokens, kv_heads, head_dim];
                 value_view = make_f32_view value [batch, tokens, kv_heads, head_dim];
                 attention_view = make_f32_view attention [batch, tokens, query_heads, head_dim]
             in and_then (and_then (and_then (and_then (and_then (and_then (and_then (and_then
                  (Some (rms_norm_f32 fo hidden (lw_input_norm weights) (dl_rms_norm_epsilon spec)
                    normalized_hidden m))
                  (\<lambda>m. Some (linear_f32 fo normalized_flat (aw_query (lw_attention weights)) query_flat m)))
                  (\<lambda>m. Some (linear_f32 fo normalized_flat (aw_key (lw_attention weights)) key_flat m)))
                  (\<lambda>m. Some (linear_f32 fo normalized_flat (aw_value (lw_attention weights)) value_flat m)))
                  (\<lambda>m. Some (apply_rope_f32 fo query_view key_view positions (dl_rope spec) m)))
                  (\<lambda>m. Some (append_kv_f32 key_view value_view positions cache m)))
                  (attention_impl fo query_view (kv_key cache) (kv_value cache) context_lengths
                    attention_view logits))
                  (\<lambda>m. Some (linear_f32 fo (make_f32_view attention [rows, hidden_size])
                    (aw_output (lw_attention weights)) normalized_flat m)))
                  (\<lambda>m. Some (status_success,
                    trace_copy dt_after_attention trace (tv_data hidden) (unat row_hidden)
                      (add_in_place fo (tv_data hidden) normalized (unat row_hidden) m)))
         | _ \<Rightarrow> None)"

text \<open>From the second normalization to the end.\<close>

definition mlp_phase ::
  "float_ops \<Rightarrow> layer_weights \<Rightarrow> decoder_layer_spec \<Rightarrow> tensor_view \<Rightarrow> cpu_workspace \<Rightarrow>
     decoder_layer_trace option \<Rightarrow> u64 \<Rightarrow> u64 \<Rightarrow> memory \<Rightarrow> (status \<times> memory) option" where
  "mlp_phase fo weights spec hidden workspace trace batch tokens m =
     (let rows = batch * tokens; hidden_size = ucast (dl_hidden_size spec);
          intermediate_size = ucast (dl_intermediate_size spec);
          row_hidden = rows * hidden_size; row_intermediate = rows * intermediate_size
      in case take_spans workspace 0 [unat row_hidden, unat row_intermediate, unat row_intermediate] of
           Some [(post_norm, _), (gate, _), (up, _)] \<Rightarrow>
             let post_norm_hidden = make_f32_view post_norm [batch, tokens, hidden_size];
                 post_norm_flat = make_f32_view post_norm [rows, hidden_size];
                 gate_view = make_f32_view gate [rows, intermediate_size];
                 up_view = make_f32_view up [rows, intermediate_size]
             in and_then (and_then (and_then (and_then
                  (Some (rms_norm_f32 fo hidden (lw_post_attention_norm weights)
                    (dl_rms_norm_epsilon spec) post_norm_hidden m))
                  (\<lambda>m. Some (linear_f32 fo post_norm_flat (mw_gate (lw_mlp weights)) gate_view m)))
                  (\<lambda>m. Some (linear_f32 fo post_norm_flat (mw_up (lw_mlp weights)) up_view m)))
                  (\<lambda>m. Some (linear_f32 fo gate_view (mw_down (lw_mlp weights)) post_norm_flat
                    (gate_in_place fo gate up (unat row_intermediate) m))))
                  (\<lambda>m. Some (status_success,
                    trace_copy dt_after_mlp trace (tv_data hidden) (unat row_hidden)
                      (add_in_place fo (tv_data hidden) post_norm (unat row_hidden) m)))
         | _ \<Rightarrow> None)"

definition smollm2_decoder_layer_f32 ::
  "float_ops \<Rightarrow> layer_weights \<Rightarrow> decoder_layer_spec \<Rightarrow> tensor_view \<Rightarrow> cpu_kv_view \<Rightarrow> u32 list \<Rightarrow>
     u32 list \<Rightarrow> cpu_workspace \<Rightarrow> decoder_layer_trace option \<Rightarrow> memory \<Rightarrow> (status \<times> memory) option" where
  "smollm2_decoder_layer_f32 fo weights spec hidden cache positions context_lengths workspace trace m =
     (case validate_layer weights spec hidden cache positions context_lengths workspace trace of
        Inl e \<Rightarrow> Some (e, m)
      | Inr (batch, tokens, maximum_context) \<Rightarrow>
          and_then (attention_phase fo weights spec hidden cache positions context_lengths workspace
              trace batch tokens maximum_context m)
            (mlp_phase fo weights spec hidden workspace trace batch tokens))"

end
