(* ===== verification/CpuWorkspace.thy ===== *)
theory CpuWorkspace
  imports CpuAttentionProps CpuDecoder
begin

text \<open>
  The workspace of the decoder layer: the floats it asks for are exactly what its two phases
  use, the pieces it is cut into never reach beyond its end, and a kernel that writes to a
  piece leaves everything else alone.
\<close>

section \<open>The required floats\<close>

lemma unat_numeral_u64: "unat (3 :: u64) = 3" "unat (2 :: u64) = 2"
  by simp_all

lemma fits_fail:
  "(case fits n of Inl _ \<Rightarrow> fail Arithmetic_overflow | Inr x \<Rightarrow> f x) =
     (case fits n of Inl e \<Rightarrow> Inl e | Inr x \<Rightarrow> f x)"
  "(case fits n of Inl _ \<Rightarrow> fail Arithmetic_overflow | Inr x \<Rightarrow> Inr x) = fits n"
  "(case fits n of Inl e \<Rightarrow> Inl e | Inr x \<Rightarrow> Inr x) = fits n"
  by (simp_all add: fits_def)

lemma attention_phase_fits: "attention_phase_floats a b c = fits (3 * unat a + 2 * unat b + unat c)"
proof -
  have "attention_phase_floats a b c =
      (case fits (3 * unat a) of Inl e \<Rightarrow> Inl e | Inr x \<Rightarrow>
        (case fits (2 * unat b) of Inl e \<Rightarrow> Inl e | Inr y \<Rightarrow>
          (case fits (unat x + unat y) of Inl e \<Rightarrow> Inl e | Inr z \<Rightarrow> fits (unat z + unat c))))"
    by (simp only: attention_phase_floats_def fitting fits_fail unat_numeral_u64 mult.commute)
  also have "\<dots> = fits (3 * unat a + 2 * unat b + unat c)"
  proof (rule fits_bind)
    fix x :: u64 assume x: "unat x = 3 * unat a"
    have "(case fits (2 * unat b) of Inl e \<Rightarrow> Inl e | Inr y \<Rightarrow>
        (case fits (unat x + unat y) of Inl e \<Rightarrow> Inl e | Inr z \<Rightarrow> fits (unat z + unat c))) =
      fits (unat x + 2 * unat b + unat c)"
    proof (rule fits_bind)
      fix y :: u64 assume "unat y = 2 * unat b"
      then show "(case fits (unat x + unat y) of Inl e \<Rightarrow> Inl e | Inr z \<Rightarrow> fits (unat z + unat c)) =
          fits (unat x + 2 * unat b + unat c)"
        by (intro fits_bind) simp_all
    qed simp
    then show "(case fits (2 * unat b) of Inl e \<Rightarrow> Inl e | Inr y \<Rightarrow>
        (case fits (unat x + unat y) of Inl e \<Rightarrow> Inl e | Inr z \<Rightarrow> fits (unat z + unat c))) =
      fits (3 * unat a + 2 * unat b + unat c)" by (simp add: x)
  qed simp
  finally show ?thesis .
qed

lemma mlp_phase_fits: "mlp_phase_floats a b = fits (2 * unat a + unat b)"
proof -
  have "mlp_phase_floats a b =
      (case fits (2 * unat a) of Inl e \<Rightarrow> Inl e | Inr x \<Rightarrow> fits (unat x + unat b))"
    by (simp only: mlp_phase_floats_def fitting fits_fail unat_numeral_u64 mult.commute)
  also have "\<dots> = fits (2 * unat a + unat b)" by (intro fits_bind) simp_all
  finally show ?thesis .
qed

text \<open>The sizes of the pieces, and of the two phases.\<close>

definition hidden_floats :: "decoder_layer_spec \<Rightarrow> nat \<Rightarrow> nat" where
  "hidden_floats spec rows = rows * unat (dl_hidden_size spec)"

definition kv_floats :: "decoder_layer_spec \<Rightarrow> nat \<Rightarrow> nat" where
  "kv_floats spec rows = rows * (unat (dl_kv_heads spec) * unat (dl_head_dim spec))"

definition logit_floats :: "decoder_layer_spec \<Rightarrow> nat \<Rightarrow> nat \<Rightarrow> nat" where
  "logit_floats spec rows maximum_context = rows * unat (dl_query_heads spec) * maximum_context"

definition intermediate_floats :: "decoder_layer_spec \<Rightarrow> nat \<Rightarrow> nat" where
  "intermediate_floats spec rows = rows * unat (dl_intermediate_size spec)"

definition layer_workspace :: "decoder_layer_spec \<Rightarrow> nat \<Rightarrow> nat \<Rightarrow> nat" where
  "layer_workspace spec rows maximum_context =
     max (3 * hidden_floats spec rows + 2 * kv_floats spec rows + logit_floats spec rows maximum_context)
         (2 * intermediate_floats spec rows + hidden_floats spec rows)"

lemma fits_max:
  "(case fits a of Inl e \<Rightarrow> Inl e | Inr x \<Rightarrow> (case fits b of Inl e \<Rightarrow> Inl e | Inr y \<Rightarrow> Inr (max x y))) =
     fits (max a b)"
  by (auto simp: fits_def max_def word_le_nat_alt unat_u64_of_nat)

lemma kv_width_fits: "unat (ucast (k :: u32) * ucast (d :: u32) :: u64) = unat k * unat d"
proof -
  have "unat k * unat d < 2 ^ 32 * 2 ^ 32" using unat_u32_lt by (intro mult_strict_mono) simp_all
  then show ?thesis using unat_u64_times [of "ucast k" "ucast d"] by simp
qed

lemma required_workspace_exact:
  assumes "batch \<noteq> 0" "tokens \<noteq> 0" "maximum_context \<noteq> 0" "dl_hidden_size spec \<noteq> 0"
    "dl_query_heads spec \<noteq> 0"
  shows "required_decoder_layer_workspace_floats spec batch tokens maximum_context =
    fits (layer_workspace spec (unat batch * unat tokens) (unat maximum_context))"
proof -
  let ?R = "unat batch * unat tokens"
  let ?a = "hidden_floats spec ?R" and ?b = "kv_floats spec ?R"
    and ?c = "logit_floats spec ?R (unat maximum_context)" and ?d = "intermediate_floats spec ?R"
  have pos: "0 < unat (dl_hidden_size spec)" using assms(4) by (simp add: unat_gt_0)
  have ge: "?R \<le> ?a" unfolding hidden_floats_def using pos by simp
  have large: "2 ^ 64 \<le> layer_workspace spec ?R (unat maximum_context)"
    if "2 ^ 64 \<le> ?R \<or> 2 ^ 64 \<le> ?a \<or> 2 ^ 64 \<le> ?b \<or> 2 ^ 64 \<le> ?c \<or> 2 ^ 64 \<le> ?d"
    using that ge by (auto simp: layer_workspace_def max_def)
  show ?thesis
  proof (cases "?R < 2 ^ 64")
    case False
    then show ?thesis
      using large by (simp add: required_decoder_layer_workspace_floats_def fitting fits_def)
  next
    case True
    define rows where "rows = batch * tokens"
    have rows: "fits ?R = Inr rows" "unat rows = ?R"
      using True by (simp_all add: fits_def rows_def unat_u64_times)
    have kv: "(case checked_multiply (ucast (dl_kv_heads spec)) (ucast (dl_head_dim spec)) of
          Inl e \<Rightarrow> Inl e | Inr kv_width \<Rightarrow> checked_multiply rows kv_width) = fits ?b"
      using kv_width_fits [of "dl_kv_heads spec" "dl_head_dim spec"] unat_u64_lt
        [of "ucast (dl_kv_heads spec) * ucast (dl_head_dim spec)"]
      by (simp add: fitting rows(2) kv_floats_def fits_def unat_u64_of_nat)
    have "product [batch, tokens, ucast (dl_query_heads spec), maximum_context] =
        fits (prod_list (map unat [batch, tokens, ucast (dl_query_heads spec), maximum_context]))"
      using assms by (intro product_fits) (auto simp flip: unat_eq_0)
    then have logits: "product [batch, tokens, ucast (dl_query_heads spec), maximum_context] = fits ?c"
      by (simp add: logit_floats_def mult.assoc)
    have run: "required_decoder_layer_workspace_floats spec batch tokens maximum_context =
        (case (fits ?a, fits ?b, fits ?c, fits ?d) of
           (Inr a, Inr b, Inr c, Inr d) \<Rightarrow>
             (case attention_phase_floats a b c of Inl e \<Rightarrow> Inl e | Inr p \<Rightarrow>
               (case mlp_phase_floats d a of Inl e \<Rightarrow> Inl e | Inr q \<Rightarrow> Inr (max p q)))
         | _ \<Rightarrow> fail Arithmetic_overflow)"
    proof -
      have product: "checked_multiply batch tokens = Inr rows" by (simp only: fitting rows(1))
      have sizes: "checked_multiply rows (ucast (dl_hidden_size spec)) = fits ?a"
        "checked_multiply rows (ucast (dl_intermediate_size spec)) = fits ?d"
        by (simp_all add: fitting rows(2) hidden_floats_def intermediate_floats_def)
      show ?thesis
        by (simp only: required_decoder_layer_workspace_floats_def product sum.case kv logits sizes)
    qed
    show ?thesis
    proof (cases "?a < 2 ^ 64 \<and> ?b < 2 ^ 64 \<and> ?c < 2 ^ 64 \<and> ?d < 2 ^ 64")
      case True
      then show ?thesis
        unfolding run attention_phase_fits mlp_phase_fits
        by (simp add: fits_def [of ?a] fits_def [of ?b] fits_def [of ?c] fits_def [of ?d] unat_u64_of_nat
            fits_max layer_workspace_def)
    next
      case False
      then show ?thesis
        unfolding run using large by (auto simp: fits_def not_less split: if_splits)
    qed
  qed
qed

section \<open>Pieces\<close>

text \<open>The address \<open>k\<close> floats behind \<open>p\<close>.\<close>

definition behind :: "u64 \<Rightarrow> nat \<Rightarrow> u64" where
  "behind p k = p + 4 * of_nat k"

lemma behind_0 [simp]: "behind p 0 = p"
  by (simp add: behind_def)

fun pieces :: "u64 \<Rightarrow> nat \<Rightarrow> nat list \<Rightarrow> (u64 \<times> nat) list" where
  "pieces p k [] = []"
| "pieces p k (n # ns) = (behind p k, n) # pieces p (k + n) ns"

lemma take_spans_pieces:
  "take_spans w cursor ns =
     (if ns = [] \<or> cursor + sum_list ns \<le> unat (ws_capacity w)
      then Some (pieces (hb_data (ws_storage w)) cursor ns) else None)"
proof (induction ns arbitrary: cursor)
  case (Cons n ns)
  then show ?case by (auto simp: take_span_def behind_def add.assoc)
qed simp

definition fits_behind :: "u64 \<Rightarrow> nat \<Rightarrow> bool" where
  "fits_behind p capacity \<longleftrightarrow> p \<noteq> 0 \<and> unat p + 4 * capacity < 2 ^ 64"

lemma unat_behind:
  assumes "fits_behind p capacity" "k \<le> capacity" shows "unat (behind p k) = unat p + 4 * k"
  using slot_shift [of p k 0] assms by (simp add: fits_behind_def behind_def slot_def)

lemma slot_behind:
  assumes "fits_behind p capacity" "k \<le> capacity" shows "slot (behind p k) i = slot p (k + i)"
  unfolding behind_def using assms by (intro slot_shift) (simp add: fits_behind_def)

lemma cells_behind:
  assumes "fits_behind p capacity" "k \<le> capacity" shows "cells (behind p k) i n = cells p (k + i) n"
  unfolding behind_def using assms by (intro cells_shift) (simp add: fits_behind_def)

lemma rd_behind:
  assumes "fits_behind p capacity" "k \<le> capacity" shows "rd m (behind p k) i = rd m p (k + i)"
  by (simp add: rd_def slot_behind [OF assms])

text \<open>A view of a piece.\<close>

lemma piece_view:
  assumes "fits_behind p capacity" "k + n \<le> capacity"
    "length es \<le> max_rank" "0 \<notin> set es" "prod_list (map unat es) = n"
  shows "f32_view (make_f32_view (behind p k) es)" "in_memory (make_f32_view (behind p k) es)"
    "numel (make_f32_view (behind p k) es) = n"
proof -
  have u: "unat (behind p k) = unat p + 4 * k"
    using assms(2) by (intro unat_behind [OF assms(1)]) simp
  have "behind p k \<noteq> 0"
    using u assms(1) by (auto simp: fits_behind_def simp flip: unat_eq_0)
  moreover have lt: "unat p + 4 * k + 4 * n < 2 ^ 64" using assms(1,2) by (simp add: fits_behind_def)
  ultimately show "f32_view (make_f32_view (behind p k) es)"
    using assms(3-5) by (intro make_f32_view_ok) simp_all
  show "numel (make_f32_view (behind p k) es) = n" using assms(3,5) by (simp add: make_f32_view_simps)
  then show "in_memory (make_f32_view (behind p k) es)"
    using lt u assms(3) by (simp add: in_memory_def make_f32_view_simps)
qed

lemma apart_piece:
  assumes "fits_behind p capacity" "k + n \<le> capacity" "apart v w"
    "tv_data w = p" "numel w = capacity" "tv_data u = behind p k" "numel u = n"
  shows "apart v u" "apart u v"
  using assms unat_behind [OF assms(1), of k] by (auto simp: apart_def)

lemma apart_pieces:
  assumes "fits_behind p capacity" "k + n \<le> capacity" "k' + n' \<le> capacity"
    "k + n \<le> k' \<or> k' + n' \<le> k"
    "tv_data u = behind p k" "numel u = n" "tv_data v = behind p k'" "numel v = n'"
  shows "apart u v"
  using assms unat_behind [OF assms(1), of k] unat_behind [OF assms(1), of k'] by (auto simp: apart_def)

section \<open>Rows held by a place of memory\<close>

definition holds :: "memory \<Rightarrow> u64 \<Rightarrow> nat \<Rightarrow> nat \<Rightarrow> nat \<Rightarrow> (nat \<Rightarrow> vec) \<Rightarrow> bool" where
  "holds m p k rows n f \<longleftrightarrow> (\<forall>r < rows. \<forall>i < n. rd m p (k + (r * n + i)) = f r i)"

lemma holdsD: "holds m p k rows n f \<Longrightarrow> r < rows \<Longrightarrow> i < n \<Longrightarrow> rd m p (k + (r * n + i)) = f r i"
  by (simp add: holds_def)

lemma holds_behind:
  "fits_behind p capacity \<Longrightarrow> k \<le> capacity \<Longrightarrow> holds m (behind p k) 0 rows n f \<longleftrightarrow> holds m p k rows n f"
  by (simp add: holds_def rd_behind)

lemma holds_cong:
  "holds m p k rows n f \<Longrightarrow> (\<And>r i. r < rows \<Longrightarrow> i < n \<Longrightarrow> f r i = g r i) \<Longrightarrow> holds m p k rows n g"
  by (simp add: holds_def)

lemma holds_row_of: "holds m p 0 rows n (row_of (rd m p) n)"
  by (simp add: holds_def row_of_def)

lemma holds_kept:
  assumes "holds m p k rows n f" "same_outside S m m'" "cells p k (rows * n) \<inter> S = {}"
  shows "holds m' p k rows n f"
  unfolding holds_def
proof (intro allI impI)
  fix r i assume ri: "r < rows" "i < n"
  have "slot p (k + (r * n + i)) \<in> cells p k (rows * n)" using row_bound [OF ri] by simp
  then have "slot p (k + (r * n + i)) \<notin> S" using assms(3) by blast
  from same_outside_rd [OF assms(2) this] show "rd m' p (k + (r * n + i)) = f r i"
    using holdsD [OF assms(1) ri] by simp
qed

lemma holds_kept_piece:
  assumes "holds m p k rows n f" "same_outside (cells p k' n') m m'"
    "k + rows * n \<le> k' \<or> k' + n' \<le> k"
  shows "holds m' p k rows n f"
  by (rule holds_kept [OF assms(1,2)]) (use assms(3) in \<open>auto simp: cells_def\<close>)

lemma holds_put: "holds (put p k (rows * n) (by_rows n f) m) p k rows n f"
  unfolding holds_def using row_bound by simp

lemma same_outside_put: "same_outside (cells p k n) m (put p k n g m)"
  by (simp add: same_outside_def put_def)

lemma same_outside_trans:
  "same_outside S m m' \<Longrightarrow> same_outside T m' m'' \<Longrightarrow> S \<subseteq> U \<Longrightarrow> T \<subseteq> U \<Longrightarrow> same_outside U m m''"
  unfolding same_outside_def by (metis subsetD)

lemma same_outside_mono: "same_outside S m m' \<Longrightarrow> S \<subseteq> U \<Longrightarrow> same_outside U m m'"
  by (auto simp: same_outside_def)

lemma same_outside_cells:
  assumes "same_outside S m m'" "cells p 0 n \<inter> S = {}" "i < n"
  shows "rd m' p i = rd m p i"
proof -
  have "slot p i \<in> cells p 0 n" using assms(3) by simp
  then have "slot p i \<notin> S" using assms(2) by blast
  then show ?thesis by (rule same_outside_rd [OF assms(1)])
qed

section \<open>Kernels on rows\<close>

text \<open>
  A kernel applied where its input is known and its weight is as in an earlier memory \<open>m0\<close>.
\<close>

lemma linear_step:
  assumes acc: "linear_accepts input weight out"
    and x: "holds m (tv_data input) 0 rows k x" "unat (extent input 0) = rows" "unat (extent input 1) = k"
    and w: "same_outside S m0 m" "cells_of weight \<inter> S = {}" "unat (extent weight 0) = n"
  shows "\<exists>m'. linear_f32 fo input weight out m = (status_success, m') \<and>
    same_outside (cells (tv_data out) 0 (rows * n)) m m' \<and>
    holds m' (tv_data out) 0 rows n (\<lambda>r. linear_vec fo k (rd m0 (tv_data weight)) (x r))"
proof -
  have arrays: "array_view input" "array_view weight" "array_view out"
    using acc by (simp_all add: linear_accepts_def f32_view_def)
  have no: "numel out = rows * n" "numel weight = n * k"
    using acc x(2,3) w(3) numel_rank(2) [OF arrays(3)] numel_rank(2) [OF arrays(2)]
    by (simp_all add: linear_accepts_def)
  let ?g = "\<lambda>r. linear_vec fo k (rd m (tv_data weight)) (row_of (rd m (tv_data input)) k r)"
  have run: "linear_f32 fo input weight out m =
      (status_success, put (tv_data out) 0 (rows * n) (by_rows n ?g) m)"
    using linear_f32_cases [OF arrays, of fo m] acc
    by (simp only: linear_result_def no x w(3) if_True)
  have "?g r j = linear_vec fo k (rd m0 (tv_data weight)) (x r) j" if "r < rows" "j < n" for r j
  proof (rule linear_vec_cong)
    fix i assume i: "i < k"
    show "row_of (rd m (tv_data input)) k r i = x r i"
      using holdsD [OF x(1) that(1) i] by (simp add: row_of_def)
    show "rd m (tv_data weight) (j * k + i) = rd m0 (tv_data weight) (j * k + i)"
      using row_bound [OF that(2) i] w(2) by (intro same_outside_cells [OF w(1)]) (simp_all only: no)
  qed
  with holds_put have "holds (put (tv_data out) 0 (rows * n) (by_rows n ?g) m) (tv_data out) 0 rows n
      (\<lambda>r. linear_vec fo k (rd m0 (tv_data weight)) (x r))" by (rule holds_cong)
  then show ?thesis using run same_outside_put by blast
qed

lemma rms_norm_step:
  assumes acc: "rms_norm_accepts input weight epsilon out"
    and n: "unat (extent weight 0) = n" "numel input = rows * n"
    and x: "holds m (tv_data input) 0 rows n x"
    and w: "same_outside S m0 m" "cells_of weight \<inter> S = {}"
  shows "\<exists>m'. rms_norm_f32 fo input weight epsilon out m = (status_success, m') \<and>
    same_outside (cells (tv_data out) 0 (rows * n)) m m' \<and>
    holds m' (tv_data out) 0 rows n
      (\<lambda>r. normalized_vec fo epsilon (extent weight 0) (rd m0 (tv_data weight)) (x r))"
proof -
  have arrays: "array_view input" "array_view weight" "array_view out"
    using acc by (simp_all add: rms_norm_accepts_def f32_view_def)
  have no: "numel out = rows * n" "numel weight = n"
    using acc n numel_rank(1) [OF arrays(2)] by (simp_all add: rms_norm_accepts_def numel_def)
  let ?g = "\<lambda>r. normalized_vec fo epsilon (extent weight 0) (rd m (tv_data weight))
      (row_of (rd m (tv_data input)) n r)"
  have run: "rms_norm_f32 fo input weight epsilon out m =
      (status_success, put (tv_data out) 0 (rows * n) (by_rows n ?g) m)"
    using rms_norm_f32_cases [OF arrays, of epsilon fo m] acc
    by (simp only: rms_norm_result_def no n if_True)
  have "?g r j = normalized_vec fo epsilon (extent weight 0) (rd m0 (tv_data weight)) (x r) j"
    if "r < rows" "j < n" for r j
  proof (rule normalized_vec_cong)
    show "row_of (rd m (tv_data input)) n r i = x r i" if "i < unat (extent weight 0)" for i
      using holdsD [OF x \<open>r < rows\<close>, of i] that by (simp add: row_of_def n)
    show "rd m (tv_data weight) j = rd m0 (tv_data weight) j"
      using that w(2) by (intro same_outside_cells [OF w(1)]) (simp_all only: no)
    show "j < unat (extent weight 0)" using that by (simp add: n)
  qed
  with holds_put have "holds (put (tv_data out) 0 (rows * n) (by_rows n ?g) m) (tv_data out) 0 rows n
      (\<lambda>r. normalized_vec fo epsilon (extent weight 0) (rd m0 (tv_data weight)) (x r))" by (rule holds_cong)
  then show ?thesis using run same_outside_put by blast
qed

end
