(* ===== verification/CpuLayerChecks.thy ===== *)
theory CpuLayerChecks
  imports CpuWorkspace
begin

text \<open>
  What the checks of the decoder layer establish: the operands have the extents of the
  specification, the positions follow the contexts, the workspace is large enough, and no
  two of the operands share memory.
\<close>

section \<open>Views that lie apart\<close>

lemma view_range_ok:
  assumes "array_view v" "tv_dtype v = F32" "tv_memory v = Host" "view_range v = Inr r"
  shows "f32_view v"
proof -
  obtain bytes where b: "checked_nbytes (tv_shape v) (tv_dtype v) = Inr bytes"
    "bytes = 0 \<or> tv_data v \<noteq> 0"
    using assms(4) by (auto simp: view_range_def split: sum.splits if_splits)
  then show ?thesis
    using assms by (auto simp: f32_view_def validate_f32_host_def validate_tensor_view_def)
qed

lemma no_overlap_ranges:
  "status_ok (validate_no_overlap v w) \<Longrightarrow> \<exists>a b. view_range v = Inr a \<and> view_range w = Inr b"
proof (rule ccontr)
  assume ok: "status_ok (validate_no_overlap v w)" and no: "\<nexists>a b. view_range v = Inr a \<and> view_range w = Inr b"
  have fails: "\<not> status_ok e" if "view_range u = Inl e" for u e
  proof -
    have numel: "\<not> status_ok e" if "numel_loop es a = Inl e" for es a e
      using that by (induction es arbitrary: a) (auto simp: checked_multiply_Inl split: sum.splits)
    have size: "\<not> status_ok e" if "checked_nbytes s t = Inl e" for s t e
      using that by (auto simp: checked_nbytes_def checked_numel_def checked_multiply_Inl dtype_size_def
          split: sum.splits if_splits dtype.splits dest: numel)
    show ?thesis using that by (auto simp: view_range_def split: sum.splits if_splits dest: size)
  qed
  show False
  proof (cases "view_range v")
    case (Inl e)
    then show ?thesis using ok fails by (auto simp: validate_no_overlap_def validate_output_alias_def)
  next
    case (Inr a)
    then obtain e where "view_range w = Inl e" using no by (cases "view_range w") auto
    then show ?thesis using ok fails Inr by (auto simp: validate_no_overlap_def validate_output_alias_def)
  qed
qed

text \<open>Both views lie in memory and share no float.\<close>

definition disjoint_views :: "tensor_view \<Rightarrow> tensor_view \<Rightarrow> bool" where
  "disjoint_views v w \<longleftrightarrow> in_memory v \<and> in_memory w \<and> apart v w"

lemma no_overlap_disjoint:
  "f32_view v \<Longrightarrow> f32_view w \<Longrightarrow> status_ok (validate_no_overlap v w) \<longleftrightarrow> disjoint_views v w"
  by (simp add: no_overlap_iff disjoint_views_def)

lemma disjoint_viewsD:
  assumes "disjoint_views v w"
  shows "in_memory v" "in_memory w" "apart v w" "apart w v" "cells_of v \<inter> cells_of w = {}"
    "cells_of w \<inter> cells_of v = {}"
  using assms apart_cells [of v w] by (auto simp: disjoint_views_def apart_sym)

section \<open>The operands of a layer\<close>

definition has_shape :: "tensor_view \<Rightarrow> u64 list \<Rightarrow> bool" where
  "has_shape v es \<longleftrightarrow> rank v = of_nat (length es) \<and> (\<forall>i < length es. extent v i = es ! i)"

definition weight_accepts :: "tensor_view \<Rightarrow> u64 list \<Rightarrow> bool" where
  "weight_accepts v es \<longleftrightarrow> f32_view v \<and> has_shape v es"

abbreviation workspace_view :: "cpu_workspace \<Rightarrow> tensor_view" where
  "workspace_view w \<equiv> make_f32_view (hb_data (ws_storage w)) [ws_capacity w]"

definition position_follows ::
  "decoder_layer_spec \<Rightarrow> nat \<Rightarrow> nat \<Rightarrow> u32 list \<Rightarrow> u32 list \<Rightarrow> nat \<Rightarrow> bool" where
  "position_follows spec tokens maximum_context positions context_lengths b \<longleftrightarrow>
     tokens \<le> unat (context_lengths ! b) \<and> unat (context_lengths ! b) \<le> maximum_context \<and>
     (\<forall>t < tokens. unat (positions ! (b * tokens + t)) = unat (context_lengths ! b) - tokens + t \<and>
        positions ! (b * tokens + t) < rs_max_positions (dl_rope spec))"

definition trace_accepts ::
  "tensor_view \<Rightarrow> tensor_view list \<Rightarrow> decoder_layer_trace option \<Rightarrow> bool" where
  "trace_accepts hidden others trace \<longleftrightarrow>
     (case trace of
        None \<Rightarrow> True
      | Some tr \<Rightarrow>
          (\<forall>v \<in> {dt_after_attention tr, dt_after_mlp tr}.
             f32_view v \<and> tv_shape v = tv_shape hidden \<and> disjoint_views hidden v \<and>
             (\<forall>w \<in> set others. disjoint_views w v)) \<and>
          disjoint_views (dt_after_attention tr) (dt_after_mlp tr))"

definition layer_accepts ::
  "layer_weights \<Rightarrow> decoder_layer_spec \<Rightarrow> tensor_view \<Rightarrow> cpu_kv_view \<Rightarrow> u32 list \<Rightarrow> u32 list \<Rightarrow>
     cpu_workspace \<Rightarrow> decoder_layer_trace option \<Rightarrow> bool" where
  "layer_accepts weights spec hidden cache positions context_lengths workspace trace \<longleftrightarrow>
     (let kc = kv_key cache; vc = kv_value cache; ws = workspace_view workspace;
          B = unat (extent hidden 0); T = unat (extent hidden 1); C = unat (extent kc 1)
      in layer_spec_ok spec \<and>
         f32_view hidden \<and> rank hidden = 3 \<and> extent hidden 0 \<noteq> 0 \<and> extent hidden 1 \<noteq> 0 \<and>
         extent hidden 2 = ucast (dl_hidden_size spec) \<and>
         f32_view kc \<and> f32_view vc \<and> rank kc = 4 \<and> tv_shape vc = tv_shape kc \<and>
         extent kc 0 = extent hidden 0 \<and> extent kc 2 = ucast (dl_kv_heads spec) \<and>
         extent kc 3 = ucast (dl_head_dim spec) \<and> extent kc 1 \<noteq> 0 \<and>
         length positions = B * T \<and> length context_lengths = B \<and>
         (\<forall>b < B. position_follows spec T C positions context_lengths b) \<and>
         list_all2 weight_accepts (layer_views weights) (weight_shapes spec) \<and>
         layer_workspace spec (B * T) C \<le> unat (ws_capacity workspace) \<and>
         f32_view ws \<and> disjoint_views hidden kc \<and> disjoint_views hidden vc \<and>
         disjoint_views hidden ws \<and> disjoint_views kc vc \<and> disjoint_views kc ws \<and>
         disjoint_views vc ws \<and>
         (\<forall>w \<in> set (layer_views weights). disjoint_views w hidden \<and> disjoint_views w kc \<and>
            disjoint_views w vc \<and> disjoint_views w ws) \<and>
         trace_accepts hidden ([kc, vc, ws] @ layer_views weights) trace)"

definition trace_views :: "decoder_layer_trace option \<Rightarrow> tensor_view list" where
  "trace_views trace =
     (case trace of None \<Rightarrow> [] | Some tr \<Rightarrow> [dt_after_attention tr, dt_after_mlp tr])"

text \<open>The extents of all the operands are arrays, and the spans are shorter than the address space.\<close>

definition layer_typed ::
  "layer_weights \<Rightarrow> tensor_view \<Rightarrow> cpu_kv_view \<Rightarrow> u32 list \<Rightarrow> u32 list \<Rightarrow> decoder_layer_trace option \<Rightarrow> bool" where
  "layer_typed weights hidden cache positions context_lengths trace \<longleftrightarrow>
     list_all array_view ([hidden, kv_key cache, kv_value cache] @ layer_views weights @ trace_views trace) \<and>
     length positions < 2 ^ 64 \<and> length context_lengths < 2 ^ 64"

lemma require_shape_ok:
  assumes "length es \<le> max_rank"
  shows "status_ok (require_shape s (of_nat (length es)) es) \<longleftrightarrow>
    sh_rank s = of_nat (length es) \<and> (\<forall>i < length es. sh_extents s ! i = es ! i)"
  using unat_u8_small [OF assms]
  by (auto simp: require_shape_def find_None_iff split: option.splits dest!: find_SomeD)

lemma validate_weight_ok:
  assumes "array_view v" "length es \<le> max_rank"
  shows "status_ok (validate_weight v es) \<longleftrightarrow> weight_accepts v es"
  using assms by (simp add: validate_weight_def Let_def require_shape_ok weight_accepts_def has_shape_def f32_view_def)

lemma weights_ok:
  assumes "list_all array_view (layer_views weights)"
  shows "list_all status_ok (map2 validate_weight (layer_views weights) (weight_shapes spec)) \<longleftrightarrow>
    list_all2 weight_accepts (layer_views weights) (weight_shapes spec)"
  using assms
  by (simp add: layer_views_def weight_shapes_def Let_def validate_weight_ok max_rank_def)

lemma positions_ok_iff:
  assumes "b < unat batch"
  shows "positions_ok spec tokens maximum_context positions context_lengths b \<longleftrightarrow>
    position_follows spec (unat tokens) (unat maximum_context) positions context_lengths b"
proof -
  let ?c = "context_lengths ! b"
  have eq: "ucast p = (ucast ?c - tokens) + of_nat t \<longleftrightarrow> unat p = unat ?c - unat tokens + t"
    if le: "unat tokens \<le> unat ?c" and t: "t < unat tokens" for p :: u32 and t
  proof -
    have c: "unat ?c < 2 ^ 32" using unat_u32_lt .
    have d: "unat (ucast ?c - tokens :: u64) = unat ?c - unat tokens"
      using le by (subst unat_word_minus) (simp_all add: word_le_nat_alt)
    have t': "unat (of_nat t :: u64) = t" using t le c by (intro unat_u64_of_nat) simp
    have "unat ((ucast ?c - tokens) + of_nat t :: u64) = unat ?c - unat tokens + t"
      using d t' t le c by (subst unat_u64_plus) simp_all
    then show ?thesis by (metis unat_inject unat_ucast_u32_u64)
  qed
  have bounds: "\<not> (ucast ?c < tokens \<or> ucast ?c > maximum_context) \<longleftrightarrow>
      unat tokens \<le> unat ?c \<and> unat ?c \<le> unat maximum_context"
    by (simp add: not_less word_le_nat_alt)
  have all: "list_all P [0..<n] \<longleftrightarrow> (\<forall>t < n. P t)" for P n by (auto simp: list_all_iff)
  show ?thesis
    unfolding positions_ok_def position_follows_def Let_def bounds all
    by (simp add: eq not_le cong: conj_cong)
qed

lemma validate_trace_ok:
  assumes "f32_view hidden" "f32_view (kv_key cache)" "f32_view (kv_value cache)" "f32_view ws"
    "list_all f32_view weights" "list_all array_view (trace_views trace)"
  shows "status_ok (validate_trace hidden cache ws weights trace) \<longleftrightarrow>
    trace_accepts hidden ([kv_key cache, kv_value cache, ws] @ weights) trace"
proof (cases trace)
  case None
  then show ?thesis by (simp add: validate_trace_def trace_accepts_def)
next
  case (Some tr)
  let ?a = "dt_after_attention tr" and ?b = "dt_after_mlp tr"
  have views: "status_ok (validate_f32_host ?a) \<longleftrightarrow> f32_view ?a" "status_ok (validate_f32_host ?b) \<longleftrightarrow> f32_view ?b"
    using assms(6) Some by (simp_all add: f32_view_def trace_views_def)
  have one: "list_all status_ok (map (\<lambda>w. validate_no_overlap w v) weights) \<longleftrightarrow>
      (\<forall>w \<in> set weights. disjoint_views w v)" if "f32_view v" for v
    using assms(5) that by (auto simp: list_all_iff no_overlap_disjoint)
  show ?thesis
  proof (cases "f32_view ?a \<and> f32_view ?b")
    case True
    then show ?thesis
      using assms(1-4) one
      by (simp add: validate_trace_def trace_accepts_def Some views no_overlap_disjoint if_distrib
          conj_ac cong: conj_cong)
  next
    case False
    then show ?thesis
      by (auto simp: validate_trace_def trace_accepts_def Some views)
  qed
qed

lemma validate_layer_cases:
  assumes typed: "layer_typed weights hidden cache positions context_lengths trace"
  shows "if layer_accepts weights spec hidden cache positions context_lengths workspace trace
    then validate_layer weights spec hidden cache positions context_lengths workspace trace =
      Inr (extent hidden 0, extent hidden 1, extent (kv_key cache) 1)
    else \<exists>e. validate_layer weights spec hidden cache positions context_lengths workspace trace = Inl e \<and>
      \<not> status_ok e"
proof -
  let ?kc = "kv_key cache" and ?vc = "kv_value cache" and ?ws = "workspace_view workspace"
  let ?B = "extent hidden 0" and ?T = "extent hidden 1" and ?C = "extent ?kc 1"
  let ?W = "layer_views weights"
  let ?v = "validate_layer weights spec hidden cache positions context_lengths workspace trace"
  let ?accepts = "layer_accepts weights spec hidden cache positions context_lengths workspace trace"
  have arrays: "array_view hidden" "array_view ?kc" "array_view ?vc" "list_all array_view ?W"
    "list_all array_view (trace_views trace)" "array_view ?ws"
    using typed by (simp_all add: layer_typed_def make_f32_view_simps max_rank_def)
  define c1 c2 c3 c4 c5 c6 c7 c8 c9 c10 c11 where
    "c1 = layer_spec_ok spec" "c2 = f32_view hidden"
    "c3 = (rank hidden = 3 \<and> ?B \<noteq> 0 \<and> ?T \<noteq> 0 \<and> extent hidden 2 = ucast (dl_hidden_size spec))"
    "c4 = (f32_view ?kc \<and> f32_view ?vc)"
    "c5 = (rank ?kc = 4 \<and> tv_shape ?vc = tv_shape ?kc \<and> extent ?kc 0 = ?B \<and>
      extent ?kc 2 = ucast (dl_kv_heads spec) \<and> extent ?kc 3 = ucast (dl_head_dim spec))"
    "c6 = (?C \<noteq> 0 \<and> length positions = unat ?B * unat ?T \<and> length context_lengths = unat ?B)"
    "c7 = (\<forall>b < unat ?B. position_follows spec (unat ?T) (unat ?C) positions context_lengths b)"
    "c8 = list_all2 weight_accepts ?W (weight_shapes spec)"
    "c9 = (layer_workspace spec (unat ?B * unat ?T) (unat ?C) \<le> unat (ws_capacity workspace))"
    "c10 = (f32_view ?ws \<and> disjoint_views hidden ?kc \<and> disjoint_views hidden ?vc \<and>
         disjoint_views hidden ?ws \<and> disjoint_views ?kc ?vc \<and> disjoint_views ?kc ?ws \<and>
         disjoint_views ?vc ?ws \<and>
         (\<forall>w \<in> set ?W. disjoint_views w hidden \<and> disjoint_views w ?kc \<and>
            disjoint_views w ?vc \<and> disjoint_views w ?ws))"
    "c11 = trace_accepts hidden ([?kc, ?vc, ?ws] @ ?W) trace"
  note c_defs = c1_c2_c3_c4_c5_c6_c7_c8_c9_c10_c11_def
  have accepts: "?accepts \<longleftrightarrow> c1 \<and> c2 \<and> c3 \<and> c4 \<and> c5 \<and> c6 \<and> c7 \<and> c8 \<and> c9 \<and> c10 \<and> c11"
    unfolding layer_accepts_def Let_def c_defs by (simp only: conj_assoc simp_thms)
  have f32: "status_ok (validate_f32_host hidden) \<longleftrightarrow> c2"
    "status_ok (first_failure [validate_f32_host ?kc, validate_f32_host ?vc]) \<longleftrightarrow> c4"
    using arrays by (simp_all add: c_defs f32_view_def)
  have s3: "(rank hidden \<noteq> 3 \<or> ?B = 0 \<or> ?T = 0 \<or> extent hidden 2 \<noteq> ucast (dl_hidden_size spec)) \<longleftrightarrow> \<not> c3"
    by (simp add: c_defs)
  have s5: "(rank ?kc \<noteq> 4 \<or> tv_shape ?vc \<noteq> tv_shape ?kc \<or> extent ?kc 0 \<noteq> ?B \<or>
      extent ?kc 2 \<noteq> ucast (dl_kv_heads spec) \<or> extent ?kc 3 \<noteq> ucast (dl_head_dim spec)) \<longleftrightarrow> \<not> c5"
    by (simp add: c_defs)
  have s6: "(?C = 0 \<or> of_nat (length positions) \<noteq> ?B * ?T \<or> of_nat (length context_lengths) \<noteq> ?B) \<longleftrightarrow> \<not> c6"
    if "c2" "c3"
  proof -
    have d: "dims (tv_shape hidden) = [unat ?B, unat ?T, unat (extent hidden 2)]"
      using that arrays(1) take_extents(3) [of "sh_extents (tv_shape hidden)"]
      by (simp add: c_defs dims_def array_view_def)
    have "\<forall>k \<le> length (dims (tv_shape hidden)). prod_list (take k (dims (tv_shape hidden))) < 2 ^ 64"
      using that(1) by (simp add: c_defs f32_view_iff)
    then have "prod_list (take 2 (dims (tv_shape hidden))) < 2 ^ 64" by (rule allE [of _ 2]) (simp add: d)
    then have "unat (?B * ?T) = unat ?B * unat ?T" by (intro unat_u64_times) (simp add: d)
    moreover have "of_nat n = e \<longleftrightarrow> n = unat e" if "n < 2 ^ 64" for n and e :: u64
      using unat_u64_of_nat [OF that] by (metis unat_inject)
    ultimately show ?thesis using typed by (simp add: c_defs layer_typed_def)
  qed
  have s7: "list_all (positions_ok spec ?T ?C positions context_lengths) [0..<unat ?B] \<longleftrightarrow> c7"
    by (auto simp: c_defs list_all_iff positions_ok_iff)
  have s8: "status_ok (first_failure (map2 validate_weight ?W (weight_shapes spec))) \<longleftrightarrow> c8"
    unfolding first_failure_ok weights_ok [OF arrays(4)] c_defs ..
  have s9: "required_decoder_layer_workspace_floats spec ?B ?T ?C =
      fits (layer_workspace spec (unat ?B * unat ?T) (unat ?C))" if "c1" "c3" "c6"
    using that by (intro required_workspace_exact) (simp_all add: c_defs layer_spec_ok_def)
  have room: "(case fits n of Inl _ \<Rightarrow> fail Insufficient_memory
      | Inr required \<Rightarrow> if required > capacity then fail Insufficient_memory else r) =
      (if n \<le> unat capacity then r else fail Insufficient_memory)" for n capacity and r :: "'r result"
    using unat_u64_lt [of capacity] by (auto simp: fits_def word_less_nat_alt unat_u64_of_nat)
  have W: "list_all f32_view ?W" if "c8"
    using that by (simp add: c_defs layer_views_def weight_shapes_def Let_def weight_accepts_def)
  let ?checks = "[validate_no_overlap hidden ?kc, validate_no_overlap hidden ?vc,
      validate_no_overlap hidden ?ws, validate_no_overlap ?kc ?vc, validate_no_overlap ?kc ?ws,
      validate_no_overlap ?vc ?ws] @
      concat (map (\<lambda>weight. [validate_no_overlap weight hidden, validate_no_overlap weight ?kc,
        validate_no_overlap weight ?vc, validate_no_overlap weight ?ws]) ?W)"
  have s10: "status_ok (first_failure ?checks) \<longleftrightarrow> c10" if "c2" "c4" "c8"
  proof (cases "f32_view ?ws")
    case True
    have "list_all status_ok (concat (map (\<lambda>weight. [validate_no_overlap weight hidden,
        validate_no_overlap weight ?kc, validate_no_overlap weight ?vc, validate_no_overlap weight ?ws]) ?W)) \<longleftrightarrow>
      (\<forall>w \<in> set ?W. disjoint_views w hidden \<and> disjoint_views w ?kc \<and> disjoint_views w ?vc \<and>
        disjoint_views w ?ws)"
      using W [OF that(3)] that True by (auto simp: list_all_iff no_overlap_disjoint c_defs)
    then show ?thesis
      using that True by (simp add: c_defs no_overlap_disjoint)
  next
    case False
    have "\<not> status_ok (validate_no_overlap hidden ?ws)"
      using False no_overlap_ranges [of hidden ?ws] view_range_ok [OF arrays(6)]
      by (auto simp: make_f32_view_def)
    then show ?thesis using False by (simp add: c_defs)
  qed
  have s11: "status_ok (validate_trace hidden cache ?ws ?W trace) \<longleftrightarrow> c11" if "c2" "c4" "c8" "c10"
    using that W by (simp add: c_defs validate_trace_ok arrays(5))
  have wf: "workspace_floats workspace = (hb_data (ws_storage workspace), ws_capacity workspace)"
    by (simp add: workspace_floats_def)
  consider "\<not> c1" | "c1" "\<not> c2" | "c1" "c2" "\<not> c3" | "c1" "c2" "c3" "\<not> c4"
    | "c1" "c2" "c3" "c4" "\<not> c5" | "c1" "c2" "c3" "c4" "c5" "\<not> c6"
    | "c1" "c2" "c3" "c4" "c5" "c6" "\<not> c7" | "c1" "c2" "c3" "c4" "c5" "c6" "c7" "\<not> c8"
    | "c1" "c2" "c3" "c4" "c5" "c6" "c7" "c8" "\<not> c9"
    | "c1" "c2" "c3" "c4" "c5" "c6" "c7" "c8" "c9" "\<not> c10"
    | "c1" "c2" "c3" "c4" "c5" "c6" "c7" "c8" "c9" "c10" "\<not> c11"
    | "c1" "c2" "c3" "c4" "c5" "c6" "c7" "c8" "c9" "c10" "c11" by blast
  then show ?thesis
    unfolding accepts validate_layer_def Let_def f32 s3 s5 s7 s8 wf fst_conv
      c1_c2_c3_c4_c5_c6_c7_c8_c9_c10_c11_def(1) [symmetric]
    by cases (simp_all only: simp_thms if_True if_False s6 s9 room s10 s11
        c1_c2_c3_c4_c5_c6_c7_c8_c9_c10_c11_def(9) [symmetric],
        simp_all add: f32 s8 s10 s11 del: first_failure_ok append.simps append_Cons append_Nil)
qed

end
