(* ===== verification/CpuLayerSteps.thy ===== *)
theory CpuLayerSteps
  imports CpuLayerChecks
begin

text \<open>
  The steps of the decoder layer on the pieces of its workspace: each of them succeeds, writes
  its own piece only, and leaves the reference there.
\<close>

section \<open>Places\<close>

text \<open>The workspace of an accepted layer: a tensor that covers \<open>capacity\<close> floats from \<open>p\<close> on.\<close>

definition covers :: "tensor_view \<Rightarrow> u64 \<Rightarrow> nat \<Rightarrow> bool" where
  "covers w p capacity \<longleftrightarrow> tv_data w = p \<and> numel w = capacity \<and> fits_behind p capacity"

lemma covers_workspace:
  assumes "f32_view (workspace_view w)" "in_memory (workspace_view w)" "0 < unat (ws_capacity w)"
  shows "covers (workspace_view w) (hb_data (ws_storage w)) (unat (ws_capacity w))"
  using assms by (simp add: covers_def fits_behind_def f32_view_iff in_memory_def make_f32_view_simps max_rank_def)

lemma shape_eq:
  assumes "array_view v" "well_shaped (tv_shape v)" "has_shape v es" "length es \<le> max_rank"
  shows "tv_shape v = tv_shape (make_f32_view p es)"
proof -
  obtain s where s: "make_shape es = Inr s" using assms(4) make_shape_total by blast
  have n: "unat (of_nat (length es) :: u8) = length es" by (rule unat_u8_small [OF assms(4)])
  have "sh_extents (tv_shape v) = es @ replicate (max_rank - length es) 0"
  proof (rule nth_equalityI)
    show "length (sh_extents (tv_shape v)) = length (es @ replicate (max_rank - length es) 0)"
      using assms(1,4) by (simp add: array_view_def)
    fix i assume "i < length (sh_extents (tv_shape v))"
    then have "i < max_rank" using assms(1) by (simp add: array_view_def)
    then show "sh_extents (tv_shape v) ! i = (es @ replicate (max_rank - length es) 0) ! i"
      using assms(2,3) n by (auto simp: nth_append has_shape_def well_shaped_def)
  qed
  moreover have "sh_rank (tv_shape v) = of_nat (length es)" using assms(3) by (simp add: has_shape_def)
  moreover have "s = \<lparr>sh_extents = es @ replicate (max_rank - length es) 0, sh_rank = of_nat (length es)\<rparr>"
    using s assms(4) by (simp add: make_shape_def)
  moreover have "tv_shape (make_f32_view p es) = s" by (simp add: make_f32_view_def s)
  ultimately show ?thesis by (intro shape.equality) simp_all
qed

text \<open>What is known of a piece of the workspace, and of a view beside it.\<close>

definition piece :: "u64 \<Rightarrow> nat \<Rightarrow> nat \<Rightarrow> nat \<Rightarrow> u64 list \<Rightarrow> bool" where
  "piece p capacity k n es \<longleftrightarrow>
     fits_behind p capacity \<and> k + n \<le> capacity \<and> length es \<le> max_rank \<and> 0 \<notin> set es \<and>
     prod_list (map unat es) = n"

lemma piece_simps:
  assumes "piece p capacity k n es"
  shows "f32_view (make_f32_view (behind p k) es)" "in_memory (make_f32_view (behind p k) es)"
    "numel (make_f32_view (behind p k) es) = n" "tv_data (make_f32_view (behind p k) es) = behind p k"
    "rank (make_f32_view (behind p k) es) = of_nat (length es)"
    "i < length es \<Longrightarrow> extent (make_f32_view (behind p k) es) i = es ! i"
    "holds m (behind p k) 0 rows width f \<longleftrightarrow> holds m p k rows width f"
    "cells (behind p k) 0 count' = cells p k count'"
    "array_view (make_f32_view (behind p k) es)"
proof -
  have le: "k \<le> capacity" and f: "fits_behind p capacity" and l: "length es \<le> max_rank"
    using assms by (simp_all add: piece_def)
  show "f32_view (make_f32_view (behind p k) es)" "in_memory (make_f32_view (behind p k) es)"
    "numel (make_f32_view (behind p k) es) = n"
    using assms piece_view [of p capacity k n es] by (simp_all add: piece_def)
  show "holds m (behind p k) 0 rows width f \<longleftrightarrow> holds m p k rows width f" by (rule holds_behind [OF f le])
  show "cells (behind p k) 0 count' = cells p k count'" using cells_behind [OF f le] by simp
  show "tv_data (make_f32_view (behind p k) es) = behind p k"
    "rank (make_f32_view (behind p k) es) = of_nat (length es)" "array_view (make_f32_view (behind p k) es)"
    using l by (simp_all add: make_f32_view_simps)
  show "i < length es \<Longrightarrow> extent (make_f32_view (behind p k) es) i = es ! i"
    using l by (simp add: make_f32_view_simps)
qed

lemma piece_disjoint:
  assumes "piece p capacity k n es" "disjoint_views v w" "covers w p capacity"
  shows "disjoint_views v (make_f32_view (behind p k) es)"
proof -
  have "apart v (make_f32_view (behind p k) es)"
  proof (rule apart_piece(1))
    show "fits_behind p capacity" "k + n \<le> capacity" using assms(1) by (simp_all add: piece_def)
    show "apart v w" using assms(2) by (simp add: disjoint_views_def)
    show "tv_data w = p" "numel w = capacity" using assms(3) by (simp_all add: covers_def)
    show "tv_data (make_f32_view (behind p k) es) = behind p k" "numel (make_f32_view (behind p k) es) = n"
      by (rule piece_simps(4) [OF assms(1)], rule piece_simps(3) [OF assms(1)])
  qed
  then show ?thesis using assms(2) piece_simps(2) [OF assms(1)] by (simp add: disjoint_views_def)
qed

lemma pieces_disjoint:
  assumes "piece p capacity k n es" "piece p capacity k' n' es'" "k + n \<le> k' \<or> k' + n' \<le> k"
  shows "disjoint_views (make_f32_view (behind p k) es) (make_f32_view (behind p k') es')"
proof -
  have "apart (make_f32_view (behind p k) es) (make_f32_view (behind p k') es')"
  proof (rule apart_pieces)
    show "fits_behind p capacity" "k + n \<le> capacity" "k' + n' \<le> capacity"
      using assms(1,2) by (simp_all add: piece_def)
    show "tv_data (make_f32_view (behind p k) es) = behind p k" "numel (make_f32_view (behind p k) es) = n"
      by (rule piece_simps(4) [OF assms(1)], rule piece_simps(3) [OF assms(1)])
    show "tv_data (make_f32_view (behind p k') es') = behind p k'"
      "numel (make_f32_view (behind p k') es') = n'"
      by (rule piece_simps(4) [OF assms(2)], rule piece_simps(3) [OF assms(2)])
  qed (rule assms(3))
  then show ?thesis
    using piece_simps(2) [OF assms(1)] piece_simps(2) [OF assms(2)] by (simp add: disjoint_views_def)
qed

lemma disjoint_views_sym: "disjoint_views v w \<longleftrightarrow> disjoint_views w v"
  by (auto simp: disjoint_views_def apart_sym)

section \<open>Normalization and linear maps\<close>

lemma norm_piece:
  assumes p: "piece p capacity b (rows * n) es" "covers ws p capacity"
    and out: "has_shape input es" "f32_view input" "in_memory input" "rank input \<noteq> 0"
      "extent input (unat (rank input) - 1) = hidden" "hidden \<noteq> 0" "unat hidden = n" "numel input = rows * n"
      "disjoint_views input ws"
    and eps: "f32_is_finite epsilon" "\<not> f32_not_positive epsilon"
    and w: "weight_accepts weight [hidden]" "disjoint_views weight ws"
      "same_outside S m0 m" "cells_of weight \<inter> S = {}"
    and x: "holds m (tv_data input) 0 rows n x"
  shows "\<exists>m'. rms_norm_f32 fo input weight epsilon (make_f32_view (behind p b) es) m = (status_success, m') \<and>
    same_outside (cells p b (rows * n)) m m' \<and>
    holds m' p b rows n (\<lambda>r. normalized_vec fo epsilon hidden (rd m0 (tv_data weight)) (x r))"
proof -
  let ?out = "make_f32_view (behind p b) es"
  have weight: "f32_view weight" "rank weight = 1" "extent weight 0 = hidden"
    using w(1) by (simp_all add: weight_accepts_def has_shape_def)
  have shape: "tv_shape ?out = tv_shape input"
    using shape_eq [of input es "behind p b"] out(1,2) p(1) by (simp add: f32_view_iff piece_def)
  note d = piece_disjoint [OF p(1) out(9) p(2)] piece_disjoint [OF p(1) w(2) p(2)]
  have "rms_norm_accepts input weight epsilon ?out"
    using d piece_simps(1) [OF p(1)] shape out(2-6) eps weight
    by (simp add: rms_norm_accepts_def disjoint_views_def)
  from rms_norm_step [OF this _ out(8) x w(3,4), of fo] show ?thesis
    by (simp add: weight(3) out(7) piece_simps(4,7,8) [OF p(1)])
qed

lemma linear_piece:
  assumes p: "piece p capacity a (rows * k) [rows', k']" "piece p capacity b (rows * n) [rows', n']"
      "covers ws p capacity" "a + rows * k \<le> b \<or> b + rows * n \<le> a"
    and e: "unat rows' = rows" "unat k' = k" "unat n' = n"
    and w: "weight_accepts weight [n', k']" "disjoint_views weight ws"
      "same_outside S m0 m" "cells_of weight \<inter> S = {}"
    and x: "holds m p a rows k x"
  shows "\<exists>m'. linear_f32 fo (make_f32_view (behind p a) [rows', k']) weight
        (make_f32_view (behind p b) [rows', n']) m = (status_success, m') \<and>
    same_outside (cells p b (rows * n)) m m' \<and>
    holds m' p b rows n (\<lambda>r. linear_vec fo k (rd m0 (tv_data weight)) (x r))"
proof -
  let ?in = "make_f32_view (behind p a) [rows', k']" and ?out = "make_f32_view (behind p b) [rows', n']"
  have weight: "f32_view weight" "rank weight = 2" "extent weight 0 = n'" "extent weight 1 = k'"
    using w(1) by (simp_all add: weight_accepts_def has_shape_def)
  have nz: "rows' \<noteq> 0" "k' \<noteq> 0" "n' \<noteq> 0" using p(1,2) by (auto simp: piece_def)
  note d = pieces_disjoint [OF p(1,2,4)] piece_disjoint [OF p(2) w(2) p(3)]
  have ext: "extent ?in 0 = rows'" "extent ?in 1 = k'" "extent ?out 0 = rows'" "extent ?out 1 = n'"
    using piece_simps(6) [OF p(1)] piece_simps(6) [OF p(2)] by simp_all
  have "linear_accepts ?in weight ?out"
    unfolding linear_accepts_def ext weight
    using d piece_simps(1,5) [OF p(1)] piece_simps(1,5) [OF p(2)] weight(1) nz
    by (simp add: disjoint_views_def)
  moreover have "holds m (tv_data ?in) 0 rows k x"
    using x by (simp only: piece_simps(4,7) [OF p(1)])
  ultimately show ?thesis
    using linear_step [of ?in weight ?out m rows k x S m0 n fo, OF _ _ _ _ w(3,4)]
    by (simp add: ext [unfolded One_nat_def] weight(3) e piece_simps(4,7,8) [OF p(2)])
qed

section \<open>Rotary positions\<close>

lemma rope_pieces:
  assumes p: "piece p capacity a (rows * (h * d)) [batch, tokens, h', d']"
      "piece p capacity b (rows * (k * d)) [batch, tokens, k', d']"
      "a + rows * (h * d) \<le> b \<or> b + rows * (k * d) \<le> a"
    and e: "unat batch * unat tokens = rows" "unat h' = h" "unat k' = k" "unat d' = d"
    and spec: "f32_is_finite (rs_theta spec)" "\<not> f32_not_positive (rs_theta spec)" "rs_max_positions spec \<noteq> 0"
    and positions: "length positions = rows" "rows < 2 ^ 64" "\<forall>q \<in> set positions. q < rs_max_positions spec"
    and x: "holds m p a rows (h * d) x" "holds m p b rows (k * d) y"
  shows "if even d then \<exists>m'. apply_rope_f32 fo (make_f32_view (behind p a) [batch, tokens, h', d'])
        (make_f32_view (behind p b) [batch, tokens, k', d']) positions spec m = (status_success, m') \<and>
      same_outside (cells p a (rows * (h * d)) \<union> cells p b (rows * (k * d))) m m' \<and>
      holds m' p a rows (h * d) (\<lambda>r. rope_vec fo (rs_theta spec) d' (positions ! r) (x r)) \<and>
      holds m' p b rows (k * d) (\<lambda>r. rope_vec fo (rs_theta spec) d' (positions ! r) (y r))
    else \<exists>s. apply_rope_f32 fo (make_f32_view (behind p a) [batch, tokens, h', d'])
        (make_f32_view (behind p b) [batch, tokens, k', d']) positions spec m = (s, m) \<and> \<not> status_ok s"
proof -
  let ?q = "make_f32_view (behind p a) [batch, tokens, h', d']"
    and ?k = "make_f32_view (behind p b) [batch, tokens, k', d']"
  have nz: "batch \<noteq> 0" "tokens \<noteq> 0" "h' \<noteq> 0" "k' \<noteq> 0" "d' \<noteq> 0" using p(1,2) by (auto simp: piece_def)
  have ext: "extent ?q 0 = batch" "extent ?q 1 = tokens" "extent ?q 2 = h'" "extent ?q 3 = d'"
    "extent ?k 0 = batch" "extent ?k 1 = tokens" "extent ?k 2 = k'" "extent ?k 3 = d'"
    using piece_simps(6) [OF p(1)] piece_simps(6) [OF p(2)] by simp_all
  have d: "disjoint_views ?q ?k" by (rule pieces_disjoint [OF p])
  have arrays: "array_view ?q" "array_view ?k" by (rule piece_simps(9) [OF p(1)], rule piece_simps(9) [OF p(2)])
  have accepts: "rope_accepts ?q ?k positions spec \<longleftrightarrow> even d"
    unfolding rope_accepts_def rope_tensor_def ext e(4)
    using piece_simps(1,5) [OF p(1)] piece_simps(1,5) [OF p(2)] nz d e positions spec
    by (simp add: disjoint_views_def)
  have "length positions < 2 ^ 64" using positions by simp
  note run = apply_rope_cases [OF arrays this, of spec fo m, unfolded accepts rope_result_def ext e
      piece_simps(3,4) [OF p(1)] piece_simps(3,4) [OF p(2)]]
  show ?thesis
  proof (cases "even d")
    case False
    then show ?thesis using run by (auto simp: prod_eq_iff)
  next
    case True
    let ?x = "row_of (rd m (behind p a)) (h * d)" and ?y = "row_of (rd m (behind p b)) (k * d)"
    let ?f = "\<lambda>r. rope_vec fo (rs_theta spec) d' (positions ! r) (?x r)"
      and ?g = "\<lambda>r. rope_vec fo (rs_theta spec) d' (positions ! r) (?y r)"
    let ?m1 = "put (behind p a) 0 (rows * (h * d)) (by_rows (h * d) ?f) m"
    let ?m2 = "put (behind p b) 0 (rows * (k * d)) (by_rows (k * d) ?g) ?m1"
    have run: "apply_rope_f32 fo ?q ?k positions spec m = (status_success, ?m2)" using run True by simp
    have xs: "?x r i = x r i" if "r < rows" "i < h * d" for r i
      using holdsD [OF x(1) [folded piece_simps(7) [OF p(1)]] that] by (simp add: row_of_def)
    have ys: "?y r i = y r i" if "r < rows" "i < k * d" for r i
      using holdsD [OF x(2) [folded piece_simps(7) [OF p(2)]] that] by (simp add: row_of_def)
    have f: "holds ?m1 (behind p a) 0 rows (h * d) (\<lambda>r. rope_vec fo (rs_theta spec) d' (positions ! r) (x r))"
      by (rule holds_cong [OF holds_put])
        (rule rope_vec_cong [where n = h], simp_all add: e(4) True xs)
    have g: "holds ?m2 (behind p b) 0 rows (k * d) (\<lambda>r. rope_vec fo (rs_theta spec) d' (positions ! r) (y r))"
      by (rule holds_cong [OF holds_put])
        (rule rope_vec_cong [where n = k], simp_all add: e(4) True ys)
    have cells: "cells (behind p b) 0 (rows * (k * d)) = cells p b (rows * (k * d))"
      "cells (behind p a) 0 (rows * (h * d)) = cells p a (rows * (h * d))"
      by (rule piece_simps(8) [OF p(2)], rule piece_simps(8) [OF p(1)])
    have s1: "same_outside (cells p a (rows * (h * d))) m ?m1"
      and s2: "same_outside (cells p b (rows * (k * d))) ?m1 ?m2"
      unfolding cells [symmetric] by (rule same_outside_put)+
    have "holds ?m2 p a rows (h * d) (\<lambda>r. rope_vec fo (rs_theta spec) d' (positions ! r) (x r))"
      using holds_kept_piece [OF f [unfolded piece_simps(7) [OF p(1)]] s2] p(3) by blast
    then show ?thesis
      using True run g [unfolded piece_simps(7) [OF p(2)]] same_outside_trans [OF s1 s2] by auto
  qed
qed

section \<open>The cache\<close>

text \<open>The row of the new keys that is written to position \<open>k\<close> of batch \<open>b\<close>.\<close>

definition new_row :: "u32 list \<Rightarrow> nat \<Rightarrow> nat \<Rightarrow> nat \<Rightarrow> nat option" where
  "new_row context_lengths tokens b k =
     (let len = unat (context_lengths ! b); start = len - tokens
      in if start \<le> k \<and> k < len then Some (b * tokens + (k - start)) else None)"

lemma last_row_new:
  assumes follows: "\<forall>b < batch. position_follows spec tokens maximum_context positions context_lengths b"
    and b: "b < batch" and k: "k < maximum_context"
  shows "last_row (\<lambda>r. r div tokens * maximum_context + unat (positions ! r))
      (b * maximum_context + k) (batch * tokens) = new_row context_lengths tokens b k"
proof -
  let ?d = "\<lambda>r. r div tokens * maximum_context + unat (positions ! r)"
  let ?len = "\<lambda>b. unat (context_lengths ! b)"
  have row: "r div tokens < batch \<and> unat (positions ! r) = ?len (r div tokens) - tokens + r mod tokens \<and>
      tokens \<le> ?len (r div tokens) \<and> ?len (r div tokens) \<le> maximum_context \<and> r mod tokens < tokens"
    if r: "r < batch * tokens" for r
  proof -
    have t: "0 < tokens" using r by (cases tokens) auto
    have rb: "r div tokens < batch" using r t by (simp add: div_less_iff_less_mult)
    have "r div tokens * tokens + r mod tokens = r" by simp
    with follows rb t show ?thesis unfolding position_follows_def by (metis mod_less_divisor)
  qed
  have place: "?d r = b * maximum_context + k \<longleftrightarrow> r div tokens = b \<and> ?len b - tokens + r mod tokens = k"
    if r: "r < batch * tokens" for r
  proof -
    have p: "unat (positions ! r) < maximum_context" using row [OF r] by linarith
    have "?d r = b * maximum_context + k \<longleftrightarrow> r div tokens = b \<and> unat (positions ! r) = k"
    proof
      assume eq: "?d r = b * maximum_context + k"
      have "?d r div maximum_context = r div tokens" "?d r mod maximum_context = unat (positions ! r)"
        using p by simp_all
      moreover have "(b * maximum_context + k) div maximum_context = b"
        "(b * maximum_context + k) mod maximum_context = k" using k by simp_all
      ultimately show "r div tokens = b \<and> unat (positions ! r) = k" using eq by simp
    qed simp
    then show ?thesis using row [OF r] by auto
  qed
  show ?thesis
  proof (cases "?len b - tokens \<le> k \<and> k < ?len b")
    case True
    let ?r = "b * tokens + (k - (?len b - tokens))"
    have "tokens \<le> ?len b" using follows b by (simp add: position_follows_def)
    then have t: "k - (?len b - tokens) < tokens" using True by linarith
    have r: "?r < batch * tokens" by (rule row_bound [OF b t])
    have "last_row ?d (b * maximum_context + k) (batch * tokens) = Some ?r"
    proof (rule last_row_unique [OF r])
      show "?d ?r = b * maximum_context + k" 
        by (rule iffD2 [OF place [OF r]]) (simp only: row_div_mod [OF t], use True in simp)
      fix s assume s: "s < batch * tokens" "?d s = b * maximum_context + k"
      then have "s div tokens = b" "?len b - tokens + s mod tokens = k" using place by simp_all
      moreover have "s div tokens * tokens + s mod tokens = s" by simp
      ultimately show "s = ?r" by auto
    qed
    then show ?thesis using True by (simp add: new_row_def Let_def)
  next
    case False
    have "last_row ?d (b * maximum_context + k) (batch * tokens) = None"
      unfolding last_row_None
    proof (intro allI impI notI)
      fix r assume r: "r < batch * tokens" "?d r = b * maximum_context + k"
      then have "r div tokens = b" "?len b - tokens + r mod tokens = k" using place by simp_all
      then show False using False row [OF r(1)] by auto
    qed
    then show ?thesis using False by (simp add: new_row_def Let_def)
  qed
qed

end
