(* ===== verification/CpuLayerCache.thy ===== *)
theory CpuLayerCache
  imports CpuLayerSteps
begin

text \<open>
  The steps of the decoder layer that use the cache of keys and values, and its loops over
  single floats.
\<close>

section \<open>Appending to the cache\<close>

text \<open>The vector of a position of a batch in the cache after new rows have been appended.\<close>

definition cache_row ::
  "memory \<Rightarrow> tensor_view \<Rightarrow> nat \<Rightarrow> u32 list \<Rightarrow> nat \<Rightarrow> (nat \<Rightarrow> vec) \<Rightarrow> nat \<Rightarrow> nat \<Rightarrow> vec" where
  "cache_row m c n context_lengths tokens new b k =
     (case new_row context_lengths tokens b k of
        None \<Rightarrow> row_of (rd m (tv_data c)) n (b * unat (extent c 1) + k)
      | Some r \<Rightarrow> new r)"

definition cache_holds ::
  "memory \<Rightarrow> tensor_view \<Rightarrow> nat \<Rightarrow> nat \<Rightarrow> nat \<Rightarrow> (nat \<Rightarrow> nat \<Rightarrow> vec) \<Rightarrow> bool" where
  "cache_holds m c batch maximum_context n f \<longleftrightarrow>
     (\<forall>b < batch. \<forall>k < maximum_context. \<forall>i < n.
        rd m (tv_data c) ((b * maximum_context + k) * n + i) = f b k i)"

lemma append_step:
  assumes acc: "append_kv_accepts key val positions cache" "apart (kv_key cache) (kv_value cache)"
    and e: "unat (extent key 0) = batch" "unat (extent key 1) = tokens" "kv_row_width key = n"
      "unat (extent (kv_key cache) 1) = maximum_context"
    and follows: "\<forall>b < batch. position_follows spec tokens maximum_context positions context_lengths b"
    and x: "holds m (tv_data key) 0 (batch * tokens) n y" "holds m (tv_data val) 0 (batch * tokens) n z"
    and len: "length positions < 2 ^ 64"
  shows "\<exists>m'. append_kv_f32 key val positions cache m = (status_success, m') \<and>
    same_outside (cells_of (kv_key cache) \<union> cells_of (kv_value cache)) m m' \<and>
    cache_holds m' (kv_key cache) batch maximum_context n
      (cache_row m (kv_key cache) n context_lengths tokens y) \<and>
    cache_holds m' (kv_value cache) batch maximum_context n
      (cache_row m (kv_value cache) n context_lengths tokens z)"
proof -
  let ?kc = "kv_key cache" and ?vc = "kv_value cache" and ?R = "batch * tokens"
  note a = acc(1) [unfolded append_kv_accepts_def Let_def]
  have arrays: "array_view key" "array_view val" "array_view ?kc" "array_view ?vc"
    using a by (simp_all add: f32_view_def)
  have numel: "numel ?kc = batch * maximum_context * n" "numel ?vc = batch * maximum_context * n"
    using a numel_rank(4) [OF arrays(3)] e by (simp_all add: kv_row_width_def numel_def)
  have apart: "cells (tv_data ?kc) 0 (batch * maximum_context * n) \<inter>
      cells (tv_data ?vc) 0 (batch * maximum_context * n) = {}"
    using apart_cells [OF acc(2)] by (simp add: numel)
  define d where "d = (\<lambda>r. r div tokens * maximum_context + unat (positions ! r))"
  have place: "kv_place key positions cache = d"
    by (rule ext) (simp only: kv_place_def d_def e)
  have bound: "d r < batch * maximum_context" if "r < ?R" for r
    using kv_place_bound [OF acc(1), of r] that by (simp add: place e [unfolded One_nat_def])
  let ?y = "row_of (rd m (tv_data key)) n" and ?z = "row_of (rd m (tv_data val)) n"
  let ?m1 = "scatter (tv_data ?kc) n ?R d ?y m"
  let ?m2 = "scatter (tv_data ?vc) n ?R d ?z ?m1"
  have run: "append_kv_f32 key val positions cache m = (status_success, ?m2)"
    using append_kv_cases [OF arrays len acc(2), of m] acc(1)
    by (simp add: append_kv_result_def Let_def place e [unfolded One_nat_def])
  have outside: "same_outside (cells_of ?kc \<union> cells_of ?vc) m ?m2"
    unfolding same_outside_def numel
    using scatter_outside [of _ _ "batch * maximum_context" n ?R d] bound by auto
  have row: "last_row d (b * maximum_context + k) ?R = new_row context_lengths tokens b k"
    if "b < batch" "k < maximum_context" for b k
    unfolding d_def by (rule last_row_new [OF follows that])
  have in_range: "(b * maximum_context + k) * n + i < batch * maximum_context * n"
    if "b < batch" "k < maximum_context" "i < n" for b k i
    by (rule row_bound [OF row_bound [OF that(1,2)] that(3)])
  have known: "r < ?R" if "b < batch" "k < maximum_context" "new_row context_lengths tokens b k = Some r" for b k r
    using last_row_Some [of d "b * maximum_context + k" ?R r] row [OF that(1,2)] that(3) by simp
  have "cache_holds ?m2 ?kc batch maximum_context n (cache_row m ?kc n context_lengths tokens y)"
    unfolding cache_holds_def cache_row_def e(4)
    using rd_scatter_apart [OF apart in_range bound] rd_scatter [of _ n "tv_data ?kc" ?R d ?y m]
      row known holdsD [OF x(1)]
    by (auto simp: row_of_def split: option.splits)
  moreover have "cache_holds ?m2 ?vc batch maximum_context n (cache_row m ?vc n context_lengths tokens z)"
  proof -
    have vk: "cells (tv_data ?vc) 0 (batch * maximum_context * n) \<inter>
        cells (tv_data ?kc) 0 (batch * maximum_context * n) = {}" using apart by blast
    have "extent ?vc 1 = extent ?kc 1" using a by simp
    then have e': "unat (extent ?vc 1) = maximum_context" using e(4) by simp
    show ?thesis
      unfolding cache_holds_def cache_row_def e'
      using rd_scatter_apart [OF vk in_range bound] rd_scatter [of _ n "tv_data ?vc" ?R d ?z ?m1]
        row known holdsD [OF x(2)]
      by (auto simp: row_of_def split: option.splits)
  qed
  ultimately show ?thesis using run outside by blast
qed

section \<open>Attention\<close>

lemma attention_step:
  assumes acc: "attention_accepts query key_cache value_cache context_lengths out"
    and room: "attention_floats query key_cache \<le> n" "unat p + 4 * n \<le> 2 ^ 64"
      "\<forall>v \<in> {query, key_cache, value_cache, out}. cells_of v \<inter> cells p 0 n = {}"
    and e: "unat (extent query 0) = batch" "unat (extent query 1) = tokens"
      "unat (extent query 2) = heads" "unat (extent query 3) = d" "unat (extent key_cache 1) = maximum_context"
      "unat (extent key_cache 2) = kv_heads"
    and x: "holds m (tv_data query) 0 (batch * tokens) (heads * d) x"
    and kv: "cache_holds m key_cache batch maximum_context (kv_heads * d) keys"
      "cache_holds m value_cache batch maximum_context (kv_heads * d) vals"
  shows "\<exists>m'. attention_impl fo query key_cache value_cache context_lengths out (p, n) m =
      Some (status_success, m') \<and>
    same_outside (cells_of out \<union> cells p 0 n) m m' \<and>
    holds m' (tv_data out) 0 (batch * tokens) (heads * d)
      (\<lambda>r. attention_vec fo (extent query 3) (heads div kv_heads) (keys (r div tokens)) (vals (r div tokens))
        (unat (context_lengths ! (r div tokens)) - tokens + r mod tokens + 1) (x r))"
proof -
  note a = acc [unfolded attention_accepts_def]
  have arrays: "array_view query" "array_view out" using a by (simp_all add: f32_view_def)
  have numel: "numel out = batch * tokens * (heads * d)"
    using a e numel_rank(4) [OF arrays(1)] by (simp add: numel_def)
  let ?G = "attention_reference fo query key_cache value_cache context_lengths m"
  let ?ref = "\<lambda>r. attention_vec fo (extent query 3) (heads div kv_heads) (keys (r div tokens))
      (vals (r div tokens)) (unat (context_lengths ! (r div tokens)) - tokens + r mod tokens + 1) (x r)"
  let ?put = "put (tv_data out) 0 (batch * tokens * (heads * d)) ?G m"
  obtain m' where m': "attention_impl fo query key_cache value_cache context_lengths out (p, n) m =
      Some (status_success, m')" "same_outside (cells p 0 n) ?put m'"
    using attention_impl_reference [OF attention_is_ready [OF acc room], of fo m]
    by (auto simp: e [unfolded One_nat_def])
  have "?G = by_rows (heads * d) (\<lambda>r. attention_vec fo (extent query 3) (heads div kv_heads)
      (\<lambda>k. row_of (rd m (tv_data key_cache)) (kv_heads * d) (r div tokens * maximum_context + k))
      (\<lambda>k. row_of (rd m (tv_data value_cache)) (kv_heads * d) (r div tokens * maximum_context + k))
      (unat (context_lengths ! (r div tokens)) - tokens + r mod tokens + 1)
      (row_of (rd m (tv_data query)) (heads * d) r))" (is "_ = by_rows _ ?F")
    by (simp add: attention_reference_def Let_def e [unfolded One_nat_def])
  then have put: "holds ?put (tv_data out) 0 (batch * tokens) (heads * d) ?F" by (simp only: holds_put)
  have "holds ?put (tv_data out) 0 (batch * tokens) (heads * d) ?ref"
  proof (rule holds_cong [OF put])
    fix r i assume r: "r < batch * tokens" and i: "i < heads * d"
    have t: "0 < tokens" using r by (cases tokens) auto
    have b: "r div tokens < batch" using r t by (simp add: div_less_iff_less_mult)
    let ?len = "unat (context_lengths ! (r div tokens))"
    have len: "tokens \<le> ?len" "?len \<le> maximum_context" using a b e by simp_all
    have valid: "?len - tokens + r mod tokens + 1 \<le> maximum_context"
      using mod_less_divisor [OF t, of r] len by linarith
    show "?F r i = ?ref r i"
    proof (rule attention_vec_cong [where n = heads and width = "kv_heads * d"])
      show "row_of (rd m (tv_data query)) (heads * d) r j = x r j" if "j < heads * unat (extent query 3)" for j
        using holdsD [OF x r, of j] that by (simp add: row_of_def e)
      show "i < heads * unat (extent query 3)" using i by (simp add: e)
      fix k j assume k: "k < ?len - tokens + r mod tokens + 1" and j: "j < kv_heads * d"
      then have k': "k < maximum_context" using valid by simp
      show "row_of (rd m (tv_data key_cache)) (kv_heads * d) (r div tokens * maximum_context + k) j =
          keys (r div tokens) k j"
        "row_of (rd m (tv_data value_cache)) (kv_heads * d) (r div tokens * maximum_context + k) j =
          vals (r div tokens) k j"
        using kv b k' j by (simp_all add: cache_holds_def row_of_def)
    next
      fix h assume h: "h < heads"
      have "h div (heads div kv_heads) < kv_heads"
        by (rule kv_head_bound) (use a h e in auto)
      then show "h div (heads div kv_heads) * unat (extent query 3) + unat (extent query 3) \<le> kv_heads * d"
        unfolding e by (rule rows_le)
    qed
  qed
  moreover have apart: "cells (tv_data out) 0 (batch * tokens * (heads * d)) \<inter> cells p 0 n = {}"
    using room(3) by (simp add: numel)
  ultimately have "holds m' (tv_data out) 0 (batch * tokens) (heads * d) ?ref"
    by (intro holds_kept [OF _ m'(2)])
  moreover have "same_outside (cells_of out \<union> cells p 0 n) m m'"
    unfolding numel by (rule same_outside_trans [OF same_outside_put m'(2)]) auto
  ultimately show ?thesis using m'(1) by blast
qed

section \<open>Single floats\<close>

lemma add_in_place_step:
  assumes x: "holds m p 0 rows n x" "holds m q k rows n y"
    and apart: "cells p 0 (rows * n) \<inter> cells q k (rows * n) = {}"
    and fits: "fits_behind q capacity" "k \<le> capacity"
  shows "same_outside (cells p 0 (rows * n)) m (add_in_place fo p (behind q k) (rows * n) m)"
    "holds (add_in_place fo p (behind q k) (rows * n) m) p 0 rows n (\<lambda>r i. fl_add fo (x r i) (y r i))"
proof -
  let ?g = "\<lambda>i. fl_add fo (rd m p i) (rd m q (k + i))"
  have "add_in_place fo p (behind q k) (rows * n) m = put p 0 (rows * n) ?g m"
    unfolding add_in_place_def rd_behind [OF fits]
  proof -
    have "fold (\<lambda>i m'. wr p (0 + i) (fl_add fo (rd m' p i) (rd m' q (k + i))) m') [0..<rows * n] m =
        put p 0 (rows * n) ?g m"
    proof (rule fold_wr)
      fix i assume i: "i < rows * n"
      have "slot q (k + i) \<in> cells q k (rows * n)" using i by simp
      moreover have "cells p 0 i \<subseteq> cells p 0 (rows * n)" using i by (intro cells_mono) simp_all
      ultimately have "slot q (k + i) \<notin> cells p 0 i" using apart by blast
      then show "fl_add fo (rd (put p 0 i ?g m) p i) (rd (put p 0 i ?g m) q (k + i)) = ?g i"
        by (simp add: rd_put_other)
    qed
    then show "fold (\<lambda>i m'. wr p i (fl_add fo (rd m' p i) (rd m' q (k + i))) m') [0..<rows * n] m =
        put p 0 (rows * n) ?g m" by simp
  qed
  moreover have "holds (put p 0 (rows * n) ?g m) p 0 rows n (\<lambda>r i. fl_add fo (x r i) (y r i))"
    using x row_bound by (auto simp: holds_def)
  ultimately show "same_outside (cells p 0 (rows * n)) m (add_in_place fo p (behind q k) (rows * n) m)"
    "holds (add_in_place fo p (behind q k) (rows * n) m) p 0 rows n (\<lambda>r i. fl_add fo (x r i) (y r i))"
    using same_outside_put by simp_all
qed

definition gated :: "float_ops \<Rightarrow> f32 \<Rightarrow> f32 \<Rightarrow> f32" where
  "gated fo gate up = fl_mul fo (fl_div fo gate (fl_add fo f32_one (fl_exp fo (f32_neg gate)))) up"

lemma gate_in_place_step:
  assumes x: "holds m q a rows n x" "holds m q b rows n y"
    and apart: "a + rows * n \<le> b \<or> b + rows * n \<le> a"
    and fits: "fits_behind q capacity" "a \<le> capacity" "b \<le> capacity"
  shows "same_outside (cells q a (rows * n)) m (gate_in_place fo (behind q a) (behind q b) (rows * n) m)"
    "holds (gate_in_place fo (behind q a) (behind q b) (rows * n) m) q a rows n (\<lambda>r i. gated fo (x r i) (y r i))"
proof -
  let ?g = "\<lambda>i. gated fo (rd m q (a + i)) (rd m q (b + i))"
  have wr: "wr (behind q a) i v m' = wr q (a + i) v m'" for i v m'
    by (simp add: wr_def slot_behind [OF fits(1,2)])
  have "gate_in_place fo (behind q a) (behind q b) (rows * n) m = put q a (rows * n) ?g m"
    unfolding gate_in_place_def rd_behind [OF fits(1,2)] rd_behind [OF fits(1,3)] wr Let_def
    by (rule fold_wr) (use apart in \<open>auto simp: gated_def\<close>)
  moreover have "holds (put q a (rows * n) ?g m) q a rows n (\<lambda>r i. gated fo (x r i) (y r i))"
    using x row_bound by (auto simp: holds_def)
  ultimately show
    "same_outside (cells q a (rows * n)) m (gate_in_place fo (behind q a) (behind q b) (rows * n) m)"
    "holds (gate_in_place fo (behind q a) (behind q b) (rows * n) m) q a rows n (\<lambda>r i. gated fo (x r i) (y r i))"
    using same_outside_put by simp_all
qed

end
