(* ===== verification/CpuLayerReference.thy ===== *)
theory CpuLayerReference
  imports CpuLayerCache
begin

text \<open>
  The decoder layer over vectors instead of memory, and the sizes of an accepted layer as
  natural numbers.
\<close>

section \<open>Reference\<close>

record layer_values =
  lv_input_norm :: vec
  lv_query :: vec
  lv_key :: vec
  lv_value :: vec
  lv_output :: vec
  lv_post_norm :: vec
  lv_gate :: vec
  lv_up :: vec
  lv_down :: vec

definition layer_values_of :: "memory \<Rightarrow> layer_weights \<Rightarrow> layer_values" where
  "layer_values_of m w =
     \<lparr>lv_input_norm = rd m (tv_data (lw_input_norm w)),
      lv_query = rd m (tv_data (aw_query (lw_attention w))),
      lv_key = rd m (tv_data (aw_key (lw_attention w))),
      lv_value = rd m (tv_data (aw_value (lw_attention w))),
      lv_output = rd m (tv_data (aw_output (lw_attention w))),
      lv_post_norm = rd m (tv_data (lw_post_attention_norm w)),
      lv_gate = rd m (tv_data (mw_gate (lw_mlp w))),
      lv_up = rd m (tv_data (mw_up (lw_mlp w))),
      lv_down = rd m (tv_data (mw_down (lw_mlp w)))\<rparr>"

definition pre_norm :: "float_ops \<Rightarrow> decoder_layer_spec \<Rightarrow> layer_values \<Rightarrow> vec \<Rightarrow> vec" where
  "pre_norm fo spec w =
     normalized_vec fo (dl_rms_norm_epsilon spec) (ucast (dl_hidden_size spec)) (lv_input_norm w)"

definition post_norm_vec :: "float_ops \<Rightarrow> decoder_layer_spec \<Rightarrow> layer_values \<Rightarrow> vec \<Rightarrow> vec" where
  "post_norm_vec fo spec w =
     normalized_vec fo (dl_rms_norm_epsilon spec) (ucast (dl_hidden_size spec)) (lv_post_norm w)"

text \<open>The query, key and value of a token at a position, from its hidden vector.\<close>

definition query_vec :: "float_ops \<Rightarrow> decoder_layer_spec \<Rightarrow> layer_values \<Rightarrow> u32 \<Rightarrow> vec \<Rightarrow> vec" where
  "query_vec fo spec w position x =
     rope_vec fo (rs_theta (dl_rope spec)) (ucast (dl_head_dim spec)) position
       (linear_vec fo (unat (dl_hidden_size spec)) (lv_query w) (pre_norm fo spec w x))"

definition key_vec :: "float_ops \<Rightarrow> decoder_layer_spec \<Rightarrow> layer_values \<Rightarrow> u32 \<Rightarrow> vec \<Rightarrow> vec" where
  "key_vec fo spec w position x =
     rope_vec fo (rs_theta (dl_rope spec)) (ucast (dl_head_dim spec)) position
       (linear_vec fo (unat (dl_hidden_size spec)) (lv_key w) (pre_norm fo spec w x))"

definition value_vec :: "float_ops \<Rightarrow> decoder_layer_spec \<Rightarrow> layer_values \<Rightarrow> vec \<Rightarrow> vec" where
  "value_vec fo spec w x =
     linear_vec fo (unat (dl_hidden_size spec)) (lv_value w) (pre_norm fo spec w x)"

text \<open>The hidden vector after attention over the keys and values up to the position.\<close>

definition attended_vec ::
  "float_ops \<Rightarrow> decoder_layer_spec \<Rightarrow> layer_values \<Rightarrow> (nat \<Rightarrow> vec) \<Rightarrow> (nat \<Rightarrow> vec) \<Rightarrow> u32 \<Rightarrow> vec \<Rightarrow> vec" where
  "attended_vec fo spec w keys vals position x =
     (\<lambda>i. fl_add fo (x i) (linear_vec fo (unat (dl_hidden_size spec)) (lv_output w)
       (attention_vec fo (ucast (dl_head_dim spec)) (unat (dl_query_heads spec) div unat (dl_kv_heads spec))
         keys vals (unat position + 1) (query_vec fo spec w position x)) i))"

definition mlp_vec :: "float_ops \<Rightarrow> decoder_layer_spec \<Rightarrow> layer_values \<Rightarrow> vec \<Rightarrow> vec" where
  "mlp_vec fo spec w x =
     (\<lambda>i. fl_add fo (x i) (linear_vec fo (unat (dl_intermediate_size spec)) (lv_down w)
       (\<lambda>j. gated fo
         (linear_vec fo (unat (dl_hidden_size spec)) (lv_gate w) (post_norm_vec fo spec w x) j)
         (linear_vec fo (unat (dl_hidden_size spec)) (lv_up w) (post_norm_vec fo spec w x) j)) i))"

definition layer_vec ::
  "float_ops \<Rightarrow> decoder_layer_spec \<Rightarrow> layer_values \<Rightarrow> (nat \<Rightarrow> vec) \<Rightarrow> (nat \<Rightarrow> vec) \<Rightarrow> u32 \<Rightarrow> vec \<Rightarrow> vec" where
  "layer_vec fo spec w keys vals position x =
     mlp_vec fo spec w (attended_vec fo spec w keys vals position x)"

section \<open>Sizes of an accepted layer\<close>

definition layer_rows :: "tensor_view \<Rightarrow> nat" where
  "layer_rows hidden = unat (extent hidden 0) * unat (extent hidden 1)"

lemma layer_accepts_parts:
  assumes "layer_accepts weights spec hidden cache positions context_lengths workspace trace"
  shows "layer_spec_ok spec" "f32_view hidden" "rank hidden = 3" "extent hidden 0 \<noteq> 0" "extent hidden 1 \<noteq> 0"
    "extent hidden 2 = ucast (dl_hidden_size spec)" "f32_view (kv_key cache)" "f32_view (kv_value cache)"
    "rank (kv_key cache) = 4" "tv_shape (kv_value cache) = tv_shape (kv_key cache)"
    "extent (kv_key cache) 0 = extent hidden 0" "extent (kv_key cache) 2 = ucast (dl_kv_heads spec)"
    "extent (kv_key cache) 3 = ucast (dl_head_dim spec)" "extent (kv_key cache) 1 \<noteq> 0"
    "length positions = layer_rows hidden" "length context_lengths = unat (extent hidden 0)"
    "\<forall>b < unat (extent hidden 0). position_follows spec (unat (extent hidden 1))
       (unat (extent (kv_key cache) 1)) positions context_lengths b"
    "list_all2 weight_accepts (layer_views weights) (weight_shapes spec)"
    "layer_workspace spec (layer_rows hidden) (unat (extent (kv_key cache) 1)) \<le> unat (ws_capacity workspace)"
    "f32_view (workspace_view workspace)"
    "disjoint_views hidden (kv_key cache)" "disjoint_views hidden (kv_value cache)"
    "disjoint_views hidden (workspace_view workspace)" "disjoint_views (kv_key cache) (kv_value cache)"
    "disjoint_views (kv_key cache) (workspace_view workspace)"
    "disjoint_views (kv_value cache) (workspace_view workspace)"
    "w \<in> set (layer_views weights) \<Longrightarrow> disjoint_views w hidden \<and> disjoint_views w (kv_key cache) \<and>
       disjoint_views w (kv_value cache) \<and> disjoint_views w (workspace_view workspace)"
    "trace_accepts hidden ([kv_key cache, kv_value cache, workspace_view workspace] @ layer_views weights) trace"
  using assms unfolding layer_accepts_def Let_def layer_rows_def by blast+

lemma spec_nonzero:
  assumes "layer_spec_ok spec"
  shows "0 < unat (dl_hidden_size spec)" "0 < unat (dl_intermediate_size spec)"
    "0 < unat (dl_query_heads spec)" "0 < unat (dl_kv_heads spec)" "0 < unat (dl_head_dim spec)"
    "unat (dl_query_heads spec) mod unat (dl_kv_heads spec) = 0"
    "unat (dl_query_heads spec) * unat (dl_head_dim spec) = unat (dl_hidden_size spec)"
proof -
  show "0 < unat (dl_hidden_size spec)" "0 < unat (dl_intermediate_size spec)"
    "0 < unat (dl_query_heads spec)" "0 < unat (dl_kv_heads spec)" "0 < unat (dl_head_dim spec)"
    using assms by (simp_all add: layer_spec_ok_def unat_gt_0)
  show "unat (dl_query_heads spec) mod unat (dl_kv_heads spec) = 0"
    using assms by (simp add: layer_spec_ok_def flip: unat_mod_distrib unat_eq_0)
  have "(ucast (dl_query_heads spec) * ucast (dl_head_dim spec) :: u64) = ucast (dl_hidden_size spec)"
    using assms by (simp add: layer_spec_ok_def)
  then show "unat (dl_query_heads spec) * unat (dl_head_dim spec) = unat (dl_hidden_size spec)"
    using kv_width_fits [of "dl_query_heads spec" "dl_head_dim spec"] by simp
qed

text \<open>The products the layer computes in 64 bits do not wrap.\<close>

lemma layer_products:
  assumes acc: "layer_accepts weights spec hidden cache positions context_lengths workspace trace"
  defines "B \<equiv> extent hidden 0" and "T \<equiv> extent hidden 1" and "C \<equiv> extent (kv_key cache) 1"
    and "R \<equiv> layer_rows hidden"
  shows "unat (B * T) = R" "unat (B * T * ucast (dl_hidden_size spec)) = hidden_floats spec R"
    "unat (B * T * (ucast (dl_kv_heads spec) * ucast (dl_head_dim spec))) = kv_floats spec R"
    "unat (B * T * ucast (dl_query_heads spec) * C) = logit_floats spec R (unat C)"
    "unat (B * T * ucast (dl_intermediate_size spec)) = intermediate_floats spec R"
    "0 < R"
proof -
  note parts = layer_accepts_parts [OF acc]
  note pos = spec_nonzero [OF parts(1)]
  have cap: "layer_workspace spec R (unat C) < 2 ^ 64"
    using parts(19) unat_u64_lt [of "ws_capacity workspace"] by (simp add: R_def C_def)
  then have small: "hidden_floats spec R < 2 ^ 64" "kv_floats spec R < 2 ^ 64"
    "logit_floats spec R (unat C) < 2 ^ 64" "intermediate_floats spec R < 2 ^ 64"
    by (auto simp: layer_workspace_def)
  have R: "unat B * unat T = R" by (simp add: R_def B_def T_def layer_rows_def)
  have "R \<le> hidden_floats spec R" using pos(1) by (simp add: hidden_floats_def)
  then have "unat B * unat T < 2 ^ 64" using small(1) R by linarith
  then show BT: "unat (B * T) = R" using R by (simp only: unat_u64_times)
  show "unat (B * T * ucast (dl_hidden_size spec)) = hidden_floats spec R"
    using small(1) BT by (subst unat_u64_times) (simp_all add: hidden_floats_def)
  show "unat (B * T * (ucast (dl_kv_heads spec) * ucast (dl_head_dim spec))) = kv_floats spec R"
    using small(2) BT kv_width_fits by (subst unat_u64_times) (simp_all add: kv_floats_def)
  show "unat (B * T * ucast (dl_intermediate_size spec)) = intermediate_floats spec R"
    using small(4) BT by (subst unat_u64_times) (simp_all add: intermediate_floats_def)
  have C: "0 < unat C" using parts(14) by (simp add: C_def unat_gt_0)
  then have "R * unat (dl_query_heads spec) \<le> logit_floats spec R (unat C)" by (simp add: logit_floats_def)
  then have "unat (B * T * ucast (dl_query_heads spec)) = R * unat (dl_query_heads spec)"
    using small(3) BT by (subst unat_u64_times) simp_all
  then show "unat (B * T * ucast (dl_query_heads spec) * C) = logit_floats spec R (unat C)"
    using small(3) by (subst unat_u64_times) (simp_all add: logit_floats_def)
  have "0 < unat B" "0 < unat T" using parts(4,5) by (simp_all add: B_def T_def unat_gt_0)
  then show "0 < R" unfolding R [symmetric] by simp
qed

lemma layer_covers:
  assumes acc: "layer_accepts weights spec hidden cache positions context_lengths workspace trace"
  shows "covers (workspace_view workspace) (hb_data (ws_storage workspace)) (unat (ws_capacity workspace))"
proof -
  note parts = layer_accepts_parts [OF acc]
  have "0 < hidden_floats spec (layer_rows hidden)"
    using spec_nonzero(1) [OF parts(1)] layer_products(6) [OF acc] by (simp add: hidden_floats_def)
  then have "0 < unat (ws_capacity workspace)" using parts(19) by (simp add: layer_workspace_def)
  then show ?thesis using parts(20,23) by (intro covers_workspace) (simp_all add: disjoint_views_def)
qed

lemma layer_weight_shapes:
  assumes acc: "layer_accepts weights spec hidden cache positions context_lengths workspace trace"
  defines "h \<equiv> ucast (dl_hidden_size spec)" and "n \<equiv> ucast (dl_intermediate_size spec)"
    and "k \<equiv> ucast (dl_kv_heads spec) * ucast (dl_head_dim spec)"
  shows "weight_accepts (lw_input_norm weights) [h]"
    "weight_accepts (aw_query (lw_attention weights)) [h, h]"
    "weight_accepts (aw_key (lw_attention weights)) [k, h]"
    "weight_accepts (aw_value (lw_attention weights)) [k, h]"
    "weight_accepts (aw_output (lw_attention weights)) [h, h]"
    "weight_accepts (lw_post_attention_norm weights) [h]"
    "weight_accepts (mw_gate (lw_mlp weights)) [n, h]"
    "weight_accepts (mw_up (lw_mlp weights)) [n, h]"
    "weight_accepts (mw_down (lw_mlp weights)) [h, n]"
  using layer_accepts_parts(18) [OF acc]
  by (simp_all add: layer_views_def weight_shapes_def Let_def h_def n_def k_def)

end
