(* ===== verification/CpuAttentionPhase.thy ===== *)
theory CpuAttentionPhase
  imports CpuLayerReference
begin

text \<open>
  The first phase of the decoder layer: for accepted operands it succeeds, extends the cache by
  the new keys and values, and leaves in the hidden rows the reference of attention over it.
\<close>

section \<open>Composition of steps\<close>

lemma and_then_simps [simp]:
  "and_then (Some (status_success, m)) f = f m"
  "\<not> status_ok s \<Longrightarrow> and_then (Some (s, m)) f = Some (s, m)"
  "and_then None f = None"
  by (simp_all add: and_then_def)

definition trace_cells ::
  "(decoder_layer_trace \<Rightarrow> tensor_view) \<Rightarrow> decoder_layer_trace option \<Rightarrow> nat set" where
  "trace_cells field trace = (case trace of None \<Rightarrow> {} | Some tr \<Rightarrow> cells_of (field tr))"

definition trace_holds ::
  "memory \<Rightarrow> (decoder_layer_trace \<Rightarrow> tensor_view) \<Rightarrow> decoder_layer_trace option \<Rightarrow> nat \<Rightarrow> nat \<Rightarrow>
     (nat \<Rightarrow> vec) \<Rightarrow> bool" where
  "trace_holds m field trace rows n f \<longleftrightarrow>
     (case trace of None \<Rightarrow> True | Some tr \<Rightarrow> holds m (tv_data (field tr)) 0 rows n f)"

lemma trace_copy_step:
  assumes "holds m (tv_data hidden) 0 rows n f" "numel hidden = rows * n"
    "trace_accepts hidden others trace" "field \<in> {dt_after_attention, dt_after_mlp}"
  shows "same_outside (trace_cells field trace) m (trace_copy field trace (tv_data hidden) (rows * n) m)"
    "trace_holds (trace_copy field trace (tv_data hidden) (rows * n) m) field trace rows n f"
proof -
  have numel: "numel (field tr) = rows * n" if "trace = Some tr" for tr
    using assms(2-4) that by (auto simp: trace_accepts_def numel_def)
  show "same_outside (trace_cells field trace) m (trace_copy field trace (tv_data hidden) (rows * n) m)"
    using same_outside_put by (auto simp: trace_cells_def trace_copy_def copy_floats_put numel split: option.splits)
  show "trace_holds (trace_copy field trace (tv_data hidden) (rows * n) m) field trace rows n f"
    using assms(1) row_bound
    by (auto simp: trace_holds_def trace_copy_def copy_floats_put holds_def split: option.splits)
qed

lemma trace_cells_disjoint:
  assumes "trace_accepts hidden others trace" "field \<in> {dt_after_attention, dt_after_mlp}"
  shows "trace_cells field trace \<inter> cells_of hidden = {}"
    "w \<in> set others \<Longrightarrow> trace_cells field trace \<inter> cells_of w = {}"
  using assms disjoint_viewsD(6)
  by (auto simp: trace_accepts_def trace_cells_def split: option.splits)+

section \<open>Pieces of the first phase\<close>

lemma attention_spans:
  assumes acc: "layer_accepts weights spec hidden cache positions context_lengths workspace trace"
  defines "P \<equiv> hb_data (ws_storage workspace)" and "C \<equiv> unat (extent (kv_key cache) 1)"
    and "a \<equiv> hidden_floats spec (layer_rows hidden)" and "b \<equiv> kv_floats spec (layer_rows hidden)"
    and "c \<equiv> logit_floats spec (layer_rows hidden) (unat (extent (kv_key cache) 1))"
  shows "take_spans workspace 0 [a, a, b, b, a, c] =
    Some [(behind P 0, a), (behind P a, a), (behind P (2 * a), b), (behind P (2 * a + b), b),
      (behind P (2 * a + 2 * b), a), (behind P (3 * a + 2 * b), c)]"
    "3 * a + 2 * b + c \<le> unat (ws_capacity workspace)"
proof -
  show room: "3 * a + 2 * b + c \<le> unat (ws_capacity workspace)"
    using layer_accepts_parts(19) [OF acc] by (simp add: layer_workspace_def a_def b_def c_def)
  have sum: "0 + sum_list [a, a, b, b, a, c] \<le> unat (ws_capacity workspace)" using room by simp
  have places: "0 + a = a" "a + a = 2 * a" "2 * a + b + b = 2 * a + 2 * b" "2 * a + 2 * b + a = 3 * a + 2 * b"
    by simp_all
  show "take_spans workspace 0 [a, a, b, b, a, c] =
    Some [(behind P 0, a), (behind P a, a), (behind P (2 * a), b), (behind P (2 * a + b), b),
      (behind P (2 * a + 2 * b), a), (behind P (3 * a + 2 * b), c)]"
    unfolding take_spans_pieces if_P [OF disjI2 [OF sum]] P_def [symmetric]
    by (simp only: pieces.simps places)
qed

lemma mlp_spans:
  assumes acc: "layer_accepts weights spec hidden cache positions context_lengths workspace trace"
  defines "P \<equiv> hb_data (ws_storage workspace)" and "a \<equiv> hidden_floats spec (layer_rows hidden)"
    and "d \<equiv> intermediate_floats spec (layer_rows hidden)"
  shows "take_spans workspace 0 [a, d, d] =
    Some [(behind P 0, a), (behind P a, d), (behind P (a + d), d)]"
    "a + 2 * d \<le> unat (ws_capacity workspace)"
proof -
  show room: "a + 2 * d \<le> unat (ws_capacity workspace)"
    using layer_accepts_parts(19) [OF acc] by (simp add: layer_workspace_def a_def d_def)
  have sum: "0 + sum_list [a, d, d] \<le> unat (ws_capacity workspace)" using room by simp
  show "take_spans workspace 0 [a, d, d] =
    Some [(behind P 0, a), (behind P a, d), (behind P (a + d), d)]"
    unfolding take_spans_pieces if_P [OF disjI2 [OF sum]] P_def [symmetric]
    by (simp only: pieces.simps add_0)
qed

text \<open>The pieces as tensors, with the extents that the layer gives them.\<close>

lemma layer_pieces:
  assumes acc: "layer_accepts weights spec hidden cache positions context_lengths workspace trace"
  defines "P \<equiv> hb_data (ws_storage workspace)" and "cap \<equiv> unat (ws_capacity workspace)"
    and "B \<equiv> extent hidden 0" and "T \<equiv> extent hidden 1" and "R \<equiv> layer_rows hidden"
    and "hs \<equiv> dl_hidden_size spec" and "qh \<equiv> dl_query_heads spec" and "kh \<equiv> dl_kv_heads spec"
    and "dh \<equiv> dl_head_dim spec" and "mid \<equiv> dl_intermediate_size spec"
  shows "k + hidden_floats spec R \<le> cap \<Longrightarrow> piece P cap k (R * unat hs) [B, T, ucast hs]"
    "k + hidden_floats spec R \<le> cap \<Longrightarrow> piece P cap k (R * unat hs) [B * T, ucast hs]"
    "k + hidden_floats spec R \<le> cap \<Longrightarrow>
      piece P cap k (R * (unat qh * unat dh)) [B, T, ucast qh, ucast dh]"
    "k + kv_floats spec R \<le> cap \<Longrightarrow>
      piece P cap k (R * (unat kh * unat dh)) [B * T, ucast kh * ucast dh]"
    "k + kv_floats spec R \<le> cap \<Longrightarrow>
      piece P cap k (R * (unat kh * unat dh)) [B, T, ucast kh, ucast dh]"
    "k + intermediate_floats spec R \<le> cap \<Longrightarrow> piece P cap k (R * unat mid) [B * T, ucast mid]"
proof -
  note parts = layer_accepts_parts [OF acc]
  note pos = spec_nonzero [OF parts(1)]
  have P: "fits_behind P cap" using layer_covers [OF acc] by (simp add: covers_def P_def cap_def)
  have BT: "unat B * unat T = R" by (simp add: R_def B_def T_def layer_rows_def)
  note prod = layer_products [OF acc, folded B_def T_def R_def]
  have nz: "B \<noteq> 0" "T \<noteq> 0" "(ucast hs :: u64) \<noteq> 0" "(ucast qh :: u64) \<noteq> 0" "(ucast kh :: u64) \<noteq> 0"
    "(ucast dh :: u64) \<noteq> 0" "(ucast mid :: u64) \<noteq> 0"
    using parts(4,5) pos(1-5)
    by (auto simp: B_def T_def hs_def qh_def kh_def dh_def mid_def simp flip: unat_eq_0)
  have kv: "unat (ucast kh * ucast dh :: u64) = unat kh * unat dh" by (rule kv_width_fits)
  have nz': "B * T \<noteq> 0" "(ucast kh * ucast dh :: u64) \<noteq> 0"
    using prod(1,6) kv pos(4,5) by (auto simp: kh_def dh_def simp flip: unat_eq_0)
  have qh: "unat qh * unat dh = unat hs" using pos(7) by (simp add: qh_def dh_def hs_def)
  show "k + hidden_floats spec R \<le> cap \<Longrightarrow> piece P cap k (R * unat hs) [B, T, ucast hs]"
    "k + hidden_floats spec R \<le> cap \<Longrightarrow> piece P cap k (R * unat hs) [B * T, ucast hs]"
    "k + hidden_floats spec R \<le> cap \<Longrightarrow>
      piece P cap k (R * (unat qh * unat dh)) [B, T, ucast qh, ucast dh]"
    "k + kv_floats spec R \<le> cap \<Longrightarrow>
      piece P cap k (R * (unat kh * unat dh)) [B * T, ucast kh * ucast dh]"
    "k + kv_floats spec R \<le> cap \<Longrightarrow>
      piece P cap k (R * (unat kh * unat dh)) [B, T, ucast kh, ucast dh]"
    "k + intermediate_floats spec R \<le> cap \<Longrightarrow> piece P cap k (R * unat mid) [B * T, ucast mid]"
    using P nz nz' prod(1) kv qh BT
    by (auto simp: piece_def max_rank_def hidden_floats_def kv_floats_def intermediate_floats_def
        hs_def mid_def kh_def dh_def mult.assoc [symmetric])
qed

section \<open>Projections\<close>

lemma hidden_view:
  assumes acc: "layer_accepts weights spec hidden cache positions context_lengths workspace trace"
  defines "R \<equiv> layer_rows hidden" and "n \<equiv> unat (dl_hidden_size spec)"
  shows "has_shape hidden [extent hidden 0, extent hidden 1, ucast (dl_hidden_size spec)]"
    "numel hidden = R * n" "extent hidden (unat (rank hidden) - 1) = ucast (dl_hidden_size spec)"
    "f32_is_finite (dl_rms_norm_epsilon spec)" "\<not> f32_not_positive (dl_rms_norm_epsilon spec)"
    "rank hidden \<noteq> 0" "(ucast (dl_hidden_size spec) :: u64) \<noteq> 0" "R * n = hidden_floats spec R"
proof -
  note parts = layer_accepts_parts [OF acc]
  show "has_shape hidden [extent hidden 0, extent hidden 1, ucast (dl_hidden_size spec)]"
    using parts(3,6) by (auto simp: has_shape_def less_Suc_eq numeral_eq_Suc)
  show "numel hidden = R * n"
    using parts(2,3,6) numel_rank(3) [of hidden] by (simp add: f32_view_def R_def layer_rows_def n_def)
  show "extent hidden (unat (rank hidden) - 1) = ucast (dl_hidden_size spec)"
    using parts(3,6) by simp
  show "f32_is_finite (dl_rms_norm_epsilon spec)" "\<not> f32_not_positive (dl_rms_norm_epsilon spec)"
    using parts(1) by (simp_all add: layer_spec_ok_def)
  show "rank hidden \<noteq> 0" using parts(3) by simp
  show "(ucast (dl_hidden_size spec) :: u64) \<noteq> 0"
    using spec_nonzero(1) [OF parts(1)] by (auto simp flip: unat_eq_0)
  show "R * n = hidden_floats spec R" by (simp add: hidden_floats_def n_def)
qed

lemma weight_apart:
  assumes "layer_accepts weights spec hidden cache positions context_lengths workspace trace"
    "w \<in> set (layer_views weights)"
  shows "disjoint_views w (workspace_view workspace)"
    "cells_of w \<inter> cells (hb_data (ws_storage workspace)) 0 (unat (ws_capacity workspace)) = {}"
    "cells_of w \<inter> cells_of hidden = {}" "cells_of w \<inter> cells_of (kv_key cache) = {}"
    "cells_of w \<inter> cells_of (kv_value cache) = {}"
proof -
  note d = layer_accepts_parts(27) [OF assms]
  have "cells_of (workspace_view workspace) =
      cells (hb_data (ws_storage workspace)) 0 (unat (ws_capacity workspace))"
    using layer_covers [OF assms(1)] by (simp only: covers_def)
  note ws = this
  show "disjoint_views w (workspace_view workspace)" "cells_of w \<inter> cells_of hidden = {}"
    "cells_of w \<inter> cells_of (kv_key cache) = {}" "cells_of w \<inter> cells_of (kv_value cache) = {}"
    using d disjoint_viewsD(5) [of w] by simp_all
  show "cells_of w \<inter> cells (hb_data (ws_storage workspace)) 0 (unat (ws_capacity workspace)) = {}"
    unfolding ws [symmetric] using d disjoint_viewsD(5) by blast
qed

lemma layer_views_members:
  "lw_input_norm w \<in> set (layer_views w)" "aw_query (lw_attention w) \<in> set (layer_views w)"
  "aw_key (lw_attention w) \<in> set (layer_views w)" "aw_value (lw_attention w) \<in> set (layer_views w)"
  "aw_output (lw_attention w) \<in> set (layer_views w)" "lw_post_attention_norm w \<in> set (layer_views w)"
  "mw_gate (lw_mlp w) \<in> set (layer_views w)" "mw_up (lw_mlp w) \<in> set (layer_views w)"
  "mw_down (lw_mlp w) \<in> set (layer_views w)"
  by (simp_all add: layer_views_def)

text \<open>Normalization of the hidden rows into the first piece, in either phase.\<close>

lemma hidden_norm:
  assumes acc: "layer_accepts weights spec hidden cache positions context_lengths workspace trace"
    and w: "weight \<in> set (layer_views weights)" "weight_accepts weight [ucast (dl_hidden_size spec)]"
      "same_outside S m0 m" "cells_of weight \<inter> S = {}"
    and x: "holds m (tv_data hidden) 0 (layer_rows hidden) (unat (dl_hidden_size spec)) x"
  defines "P \<equiv> hb_data (ws_storage workspace)" and "R \<equiv> layer_rows hidden"
    and "n \<equiv> unat (dl_hidden_size spec)"
  shows "\<exists>m'. rms_norm_f32 fo hidden weight (dl_rms_norm_epsilon spec)
        (make_f32_view (behind P 0) [extent hidden 0, extent hidden 1, ucast (dl_hidden_size spec)]) m =
      (status_success, m') \<and>
    same_outside (cells P 0 (R * n)) m m' \<and>
    holds m' P 0 R n (\<lambda>r. normalized_vec fo (dl_rms_norm_epsilon spec) (ucast (dl_hidden_size spec))
      (rd m0 (tv_data weight)) (x r))"
proof -
  note parts = layer_accepts_parts [OF acc] and hv = hidden_view [OF acc]
  have "0 + hidden_floats spec R \<le> unat (ws_capacity workspace)"
    using mlp_spans(2) [OF acc] by (simp add: R_def)
  from layer_pieces(1) [OF acc, folded R_def P_def n_def, OF this]
  have p: "piece P (unat (ws_capacity workspace)) 0 (R * n) [extent hidden 0, extent hidden 1, ucast (dl_hidden_size spec)]"
    by (simp only: R_def n_def)
  show ?thesis
    by (rule norm_piece [OF p layer_covers [OF acc, folded P_def] hv(1) parts(2) _ hv(6,3,7)])
      (use hv(2,4,5) parts(21,23) w x weight_apart(1) [OF acc w(1)] in
        \<open>simp_all add: R_def n_def P_def disjoint_views_def\<close>)
qed

lemma projections:
  fixes m :: memory
  assumes acc: "layer_accepts weights spec hidden cache positions context_lengths workspace trace"
  defines "P \<equiv> hb_data (ws_storage workspace)" and "R \<equiv> layer_rows hidden"
    and "n \<equiv> unat (dl_hidden_size spec)" and "w \<equiv> layer_values_of m weights"
    and "kw \<equiv> unat (dl_kv_heads spec) * unat (dl_head_dim spec)"
    and "a \<equiv> hidden_floats spec (layer_rows hidden)" and "b \<equiv> kv_floats spec (layer_rows hidden)"
    and "x \<equiv> row_of (rd m (tv_data hidden)) (unat (dl_hidden_size spec))"
    and "rows \<equiv> extent hidden 0 * extent hidden 1"
    and "hs \<equiv> ucast (dl_hidden_size spec)" and "ks \<equiv> ucast (dl_kv_heads spec) * ucast (dl_head_dim spec)"
  shows "\<exists>m1 m2 m3 m4.
    rms_norm_f32 fo hidden (lw_input_norm weights) (dl_rms_norm_epsilon spec)
      (make_f32_view (behind P 0) [extent hidden 0, extent hidden 1, hs]) m = (status_success, m1) \<and>
    linear_f32 fo (make_f32_view (behind P 0) [rows, hs]) (aw_query (lw_attention weights))
      (make_f32_view (behind P a) [rows, hs]) m1 = (status_success, m2) \<and>
    linear_f32 fo (make_f32_view (behind P 0) [rows, hs]) (aw_key (lw_attention weights))
      (make_f32_view (behind P (2 * a)) [rows, ks]) m2 = (status_success, m3) \<and>
    linear_f32 fo (make_f32_view (behind P 0) [rows, hs]) (aw_value (lw_attention weights))
      (make_f32_view (behind P (2 * a + b)) [rows, ks]) m3 = (status_success, m4) \<and>
    same_outside (cells P 0 (unat (ws_capacity workspace))) m m4 \<and>
    holds m4 P a R n (\<lambda>r. linear_vec fo n (lv_query w) (pre_norm fo spec w (x r))) \<and>
    holds m4 P (2 * a) R kw (\<lambda>r. linear_vec fo n (lv_key w) (pre_norm fo spec w (x r))) \<and>
    holds m4 P (2 * a + b) R kw (\<lambda>r. value_vec fo spec w (x r))"
proof -
  let ?cap = "unat (ws_capacity workspace)"
  let ?S = "cells P 0 ?cap"
  note parts = layer_accepts_parts [OF acc]
  note ws = layer_weight_shapes [OF acc, folded hs_def ks_def]
  note apart = weight_apart [OF acc layer_views_members(1), folded P_def]
    weight_apart [OF acc layer_views_members(2), folded P_def]
    weight_apart [OF acc layer_views_members(3), folded P_def]
    weight_apart [OF acc layer_views_members(4), folded P_def]
  note cov = layer_covers [OF acc, folded P_def]
  note pieces = layer_pieces [OF acc, folded P_def R_def n_def rows_def hs_def ks_def kw_def]
  have e: "unat rows = R" "unat hs = n" "unat ks = kw"
    using layer_products(1) [OF acc] kv_width_fits by (simp_all add: rows_def R_def hs_def n_def ks_def kw_def)
  have sizes: "R * n = a" "R * kw = b"
    by (simp_all add: a_def b_def hidden_floats_def kv_floats_def R_def n_def kw_def)
  have vals: "lv_input_norm w = rd m (tv_data (lw_input_norm weights))"
    "lv_query w = rd m (tv_data (aw_query (lw_attention weights)))"
    "lv_key w = rd m (tv_data (aw_key (lw_attention weights)))"
    "lv_value w = rd m (tv_data (aw_value (lw_attention weights)))"
    by (simp_all add: w_def layer_values_of_def)
  have order: "0 + R * n \<le> a \<or> a + R * n \<le> 0" "0 + R * n \<le> 2 * a \<or> 2 * a + R * kw \<le> 0"
    "0 + R * n \<le> 2 * a + b \<or> 2 * a + b + R * kw \<le> 0" by (simp_all add: sizes)
  have room: "3 * a + 2 * b \<le> ?cap" using attention_spans(2) [OF acc] by (simp add: a_def b_def)
  have p0: "piece P ?cap 0 (R * n) [rows, hs]" and pq: "piece P ?cap a (R * n) [rows, hs]"
    and pk: "piece P ?cap (2 * a) (R * kw) [rows, ks]" and pv: "piece P ?cap (2 * a + b) (R * kw) [rows, ks]"
    using room by (intro pieces; simp add: a_def b_def R_def)+
  have sub: "cells P k l \<subseteq> ?S" if "k + l \<le> ?cap" for k l using that by (intro cells_mono) simp_all
  have "holds m (tv_data hidden) 0 R n x" unfolding x_def n_def by (rule holds_row_of)
  from hidden_norm [OF acc layer_views_members(1) ws(1) [unfolded hs_def] same_outside_refl _
      this [unfolded R_def n_def], of "{}" fo, folded P_def R_def n_def hs_def]
  obtain m1 where m1: "rms_norm_f32 fo hidden (lw_input_norm weights) (dl_rms_norm_epsilon spec)
      (make_f32_view (behind P 0) [extent hidden 0, extent hidden 1, hs]) m = (status_success, m1)"
    "same_outside (cells P 0 (R * n)) m m1" "holds m1 P 0 R n (\<lambda>r. pre_norm fo spec w (x r))"
    unfolding pre_norm_def vals(1) hs_def by auto
  have s1: "same_outside ?S m m1" using m1(2) sub [of 0 "R * n"] room sizes by (auto intro: same_outside_mono)
  from linear_piece [OF p0 pq cov order(1) e(1,2,2) ws(2) apart(6) s1 apart(7) m1(3), of fo]
  obtain m2 where m2: "linear_f32 fo (make_f32_view (behind P 0) [rows, hs]) (aw_query (lw_attention weights))
      (make_f32_view (behind P a) [rows, hs]) m1 = (status_success, m2)"
    "same_outside (cells P a (R * n)) m1 m2"
    "holds m2 P a R n (\<lambda>r. linear_vec fo n (lv_query w) (pre_norm fo spec w (x r)))"
    unfolding vals by blast
  have n2: "holds m2 P 0 R n (\<lambda>r. pre_norm fo spec w (x r))"
    by (rule holds_kept_piece [OF m1(3) m2(2)]) (simp add: sizes)
  have s2: "same_outside ?S m m2"
    using sub [of a "R * n"] room sizes by (intro same_outside_trans [OF s1 m2(2)]) simp_all
  from linear_piece [OF p0 pk cov order(2) e(1,2,3) ws(3) apart(11) s2 apart(12) n2, of fo]
  obtain m3 where m3: "linear_f32 fo (make_f32_view (behind P 0) [rows, hs]) (aw_key (lw_attention weights))
      (make_f32_view (behind P (2 * a)) [rows, ks]) m2 = (status_success, m3)"
    "same_outside (cells P (2 * a) (R * kw)) m2 m3"
    "holds m3 P (2 * a) R kw (\<lambda>r. linear_vec fo n (lv_key w) (pre_norm fo spec w (x r)))"
    unfolding vals by blast
  have n3: "holds m3 P 0 R n (\<lambda>r. pre_norm fo spec w (x r))"
    and q3: "holds m3 P a R n (\<lambda>r. linear_vec fo n (lv_query w) (pre_norm fo spec w (x r)))"
    by (rule holds_kept_piece [OF _ m3(2)], rule n2 m2(3), simp add: sizes)+
  have s3: "same_outside ?S m m3"
    using sub [of "2 * a" "R * kw"] room sizes by (intro same_outside_trans [OF s2 m3(2)]) simp_all
  from linear_piece [OF p0 pv cov order(3) e(1,2,3) ws(4) apart(16) s3 apart(17) n3, of fo]
  obtain m4 where m4: "linear_f32 fo (make_f32_view (behind P 0) [rows, hs]) (aw_value (lw_attention weights))
      (make_f32_view (behind P (2 * a + b)) [rows, ks]) m3 = (status_success, m4)"
    "same_outside (cells P (2 * a + b) (R * kw)) m3 m4"
    "holds m4 P (2 * a + b) R kw (\<lambda>r. value_vec fo spec w (x r))"
    unfolding vals value_vec_def n_def [symmetric] by blast
  have q4: "holds m4 P a R n (\<lambda>r. linear_vec fo n (lv_query w) (pre_norm fo spec w (x r)))"
    and k4: "holds m4 P (2 * a) R kw (\<lambda>r. linear_vec fo n (lv_key w) (pre_norm fo spec w (x r)))"
    by (rule holds_kept_piece [OF _ m4(2)], rule q3 m3(3), simp add: sizes)+
  have s4: "same_outside ?S m m4"
    using sub [of "2 * a + b" "R * kw"] room sizes by (intro same_outside_trans [OF s3 m4(2)]) simp_all
  show ?thesis using m1(1) m2(1) m3(1) m4(1) s4 q4 k4 m4(3) by blast
qed

end
