(* ===== verification/CpuAttentionRun.thy ===== *)
theory CpuAttentionRun
  imports CpuAttentionPhase
begin

text \<open>
  The first phase of the decoder layer from the projections on: rotation, the cache, attention,
  the output projection and the residual.
\<close>

section \<open>Operands of the steps\<close>

lemma shape_of_view [simp]: "tv_shape (make_f32_view p es) = tv_shape (make_f32_view q es) \<longleftrightarrow> True"
  by (simp add: make_f32_view_def)

text \<open>The position of a row.\<close>

lemma row_position:
  assumes acc: "layer_accepts weights spec hidden cache positions context_lengths workspace trace"
    and r: "r < layer_rows hidden"
  defines "T \<equiv> unat (extent hidden 1)"
  shows "r div T < unat (extent hidden 0)"
    "unat (positions ! r) = unat (context_lengths ! (r div T)) - T + r mod T"
    "T \<le> unat (context_lengths ! (r div T))"
    "unat (context_lengths ! (r div T)) \<le> unat (extent (kv_key cache) 1)"
    "positions ! r < rs_max_positions (dl_rope spec)" "r mod T < T"
proof -
  have t: "0 < T" using r by (cases T) (simp_all add: T_def layer_rows_def)
  show b: "r div T < unat (extent hidden 0)"
    using r t by (simp add: T_def layer_rows_def div_less_iff_less_mult)
  show "r mod T < T" using t by simp
  moreover have "r div T * T + r mod T = r" by simp
  ultimately show "unat (positions ! r) = unat (context_lengths ! (r div T)) - T + r mod T"
    "T \<le> unat (context_lengths ! (r div T))"
    "unat (context_lengths ! (r div T)) \<le> unat (extent (kv_key cache) 1)"
    "positions ! r < rs_max_positions (dl_rope spec)"
    using layer_accepts_parts(17) [OF acc] b unfolding T_def position_follows_def by metis+
qed

lemma positions_below:
  assumes acc: "layer_accepts weights spec hidden cache positions context_lengths workspace trace"
    and p: "p \<in> set positions"
  shows "p < rs_max_positions (dl_rope spec)" "unat p < unat (extent (kv_key cache) 1)"
proof -
  obtain r where r: "r < layer_rows hidden" "p = positions ! r"
    using p layer_accepts_parts(15) [OF acc] by (auto simp: in_set_conv_nth)
  note row = row_position [OF acc r(1)]
  show "p < rs_max_positions (dl_rope spec)" using row(5) r(2) by simp
  show "unat p < unat (extent (kv_key cache) 1)" using row(2-4,6) unfolding r(2) by arith
qed

lemma cache_apart_piece:
  assumes acc: "layer_accepts weights spec hidden cache positions context_lengths workspace trace"
    and p: "piece (hb_data (ws_storage workspace)) (unat (ws_capacity workspace)) k n es"
  shows "disjoint_views (kv_key cache) (make_f32_view (behind (hb_data (ws_storage workspace)) k) es)"
    "disjoint_views (kv_value cache) (make_f32_view (behind (hb_data (ws_storage workspace)) k) es)"
    "disjoint_views hidden (make_f32_view (behind (hb_data (ws_storage workspace)) k) es)"
  using piece_disjoint [OF p _ layer_covers [OF acc]] layer_accepts_parts(23,25,26) [OF acc] by simp_all

text \<open>The new keys and values, cut from the workspace, can be appended.\<close>

lemma append_accepts_pieces:
  assumes acc: "layer_accepts weights spec hidden cache positions context_lengths workspace trace"
  defines "P \<equiv> hb_data (ws_storage workspace)" and "cap \<equiv> unat (ws_capacity workspace)"
    and "es \<equiv> [extent hidden 0, extent hidden 1, ucast (dl_kv_heads spec), ucast (dl_head_dim spec)]"
    and "n \<equiv> layer_rows hidden * (unat (dl_kv_heads spec) * unat (dl_head_dim spec))"
  assumes pk: "piece P cap k n es" and pv: "piece P cap k' n es"
  shows "append_kv_accepts (make_f32_view (behind P k) es) (make_f32_view (behind P k') es) positions cache"
    "apart (kv_key cache) (kv_value cache)"
    "kv_row_width (make_f32_view (behind P k) es) = unat (dl_kv_heads spec) * unat (dl_head_dim spec)"
proof -
  note parts = layer_accepts_parts [OF acc]
  have l: "length es = 4" by (simp add: es_def)
  have ext: "extent (make_f32_view (behind P k) es) 0 = extent hidden 0"
    "extent (make_f32_view (behind P k) es) 1 = extent hidden 1"
    "extent (make_f32_view (behind P k) es) 2 = ucast (dl_kv_heads spec)"
    "extent (make_f32_view (behind P k) es) 3 = ucast (dl_head_dim spec)"
    using piece_simps(6) [OF pk] by (simp_all add: l) (simp_all add: es_def)
  note dk = cache_apart_piece [OF acc pk [unfolded P_def cap_def], folded P_def]
  note dv = cache_apart_piece [OF acc pv [unfolded P_def cap_def], folded P_def]
  show "append_kv_accepts (make_f32_view (behind P k) es) (make_f32_view (behind P k') es) positions cache"
    unfolding append_kv_accepts_def Let_def ext
    using piece_simps(1,5) [OF pk] piece_simps(1) [OF pv] parts(7-13,15) dk dv positions_below(2) [OF acc]
    by (simp add: l layer_rows_def disjoint_views_def apart_sym)
  show "apart (kv_key cache) (kv_value cache)" using parts(24) by (simp add: disjoint_views_def)
  show "kv_row_width (make_f32_view (behind P k) es) = unat (dl_kv_heads spec) * unat (dl_head_dim spec)"
    by (simp add: kv_row_width_def ext)
qed

lemma attention_accepts_pieces:
  assumes acc: "layer_accepts weights spec hidden cache positions context_lengths workspace trace"
  defines "P \<equiv> hb_data (ws_storage workspace)" and "cap \<equiv> unat (ws_capacity workspace)"
    and "es \<equiv> [extent hidden 0, extent hidden 1, ucast (dl_query_heads spec), ucast (dl_head_dim spec)]"
    and "n \<equiv> layer_rows hidden * (unat (dl_query_heads spec) * unat (dl_head_dim spec))"
  assumes pq: "piece P cap k n es" and po: "piece P cap k' n es" and order: "k + n \<le> k' \<or> k' + n \<le> k"
  shows "attention_accepts (make_f32_view (behind P k) es) (kv_key cache) (kv_value cache) context_lengths
      (make_f32_view (behind P k') es)"
proof -
  note parts = layer_accepts_parts [OF acc]
  note pos = spec_nonzero [OF parts(1)]
  have l: "length es = 4" by (simp add: es_def)
  have ext: "extent (make_f32_view (behind P k) es) 0 = extent hidden 0"
    "extent (make_f32_view (behind P k) es) 1 = extent hidden 1"
    "extent (make_f32_view (behind P k) es) 2 = ucast (dl_query_heads spec)"
    "extent (make_f32_view (behind P k) es) 3 = ucast (dl_head_dim spec)"
    using piece_simps(6) [OF pq] by (simp_all add: l) (simp_all add: es_def)
  note dq = cache_apart_piece [OF acc pq [unfolded P_def cap_def], folded P_def]
  note do' = cache_apart_piece [OF acc po [unfolded P_def cap_def], folded P_def]
  have contexts: "unat (extent hidden 1) \<le> unat c \<and> unat c \<le> unat (extent (kv_key cache) 1)"
    if "c \<in> set context_lengths" for c
    using that parts(16,17) by (auto simp: in_set_conv_nth position_follows_def)
  have nz: "0 \<notin> set es" using pq by (simp add: piece_def)
  have kh: "(ucast (dl_kv_heads spec) :: u64) \<noteq> 0" using pos(4) by (auto simp flip: unat_eq_0)
  show ?thesis
    unfolding attention_accepts_def ext
    using piece_simps(1,5) [OF pq] piece_simps(1) [OF po] parts(4,5,7-14,16) dq do' pos(6) kh
      pieces_disjoint [OF pq po order] contexts nz
    by (simp add: l) (auto simp: disjoint_views_def es_def)
qed

section \<open>Rotation and the cache\<close>

lemma rotated:
  fixes fo :: float_ops and m :: memory
  assumes acc: "layer_accepts weights spec hidden cache positions context_lengths workspace trace"
  defines "P \<equiv> hb_data (ws_storage workspace)" and "R \<equiv> layer_rows hidden"
    and "qd \<equiv> unat (dl_query_heads spec) * unat (dl_head_dim spec)"
    and "kd \<equiv> unat (dl_kv_heads spec) * unat (dl_head_dim spec)"
    and "a \<equiv> hidden_floats spec (layer_rows hidden)" and "b \<equiv> kv_floats spec (layer_rows hidden)"
  assumes x: "holds m P a R qd q" "holds m P (2 * a) R kd k" "holds m P (2 * a + b) R kd v"
  defines "run \<equiv> apply_rope_f32 fo
      (make_f32_view (behind P a) [extent hidden 0, extent hidden 1, ucast (dl_query_heads spec),
        ucast (dl_head_dim spec)])
      (make_f32_view (behind P (2 * a)) [extent hidden 0, extent hidden 1, ucast (dl_kv_heads spec),
        ucast (dl_head_dim spec)]) positions (dl_rope spec) m"
    and "rope \<equiv> \<lambda>y r. rope_vec fo (rs_theta (dl_rope spec)) (ucast (dl_head_dim spec)) (positions ! r) (y r)"
  shows "if even (unat (dl_head_dim spec)) then \<exists>m'. run = (status_success, m') \<and>
      same_outside (cells P 0 (unat (ws_capacity workspace))) m m' \<and>
      holds m' P a R qd (rope q) \<and> holds m' P (2 * a) R kd (rope k) \<and> holds m' P (2 * a + b) R kd v
    else \<exists>s. run = (s, m) \<and> \<not> status_ok s"
proof -
  let ?cap = "unat (ws_capacity workspace)"
  note parts = layer_accepts_parts [OF acc]
  have room: "3 * a + 2 * b \<le> ?cap" using attention_spans(2) [OF acc] by (simp add: a_def b_def)
  have sizes: "R * qd = a" "R * kd = b"
    using spec_nonzero(7) [OF parts(1)]
    by (simp_all add: a_def b_def hidden_floats_def kv_floats_def R_def qd_def kd_def)
  have pq: "piece P ?cap a (R * qd) [extent hidden 0, extent hidden 1, ucast (dl_query_heads spec),
      ucast (dl_head_dim spec)]"
    unfolding P_def R_def qd_def
    using room by (intro layer_pieces(3) [OF acc]) (simp add: a_def)
  have pk: "piece P ?cap (2 * a) (R * kd) [extent hidden 0, extent hidden 1, ucast (dl_kv_heads spec),
      ucast (dl_head_dim spec)]"
    unfolding P_def R_def kd_def
    using room by (intro layer_pieces(5) [OF acc]) (simp add: a_def b_def)
  have rope: "f32_is_finite (rs_theta (dl_rope spec))" "\<not> f32_not_positive (rs_theta (dl_rope spec))"
    "rs_max_positions (dl_rope spec) \<noteq> 0"
    using parts(1) by (simp_all add: layer_spec_ok_def)
  have R: "unat (extent hidden 0) * unat (extent hidden 1) = R" "R < 2 ^ 64"
    using layer_products(1) [OF acc] unat_u64_lt [of "extent hidden 0 * extent hidden 1"]
    by (simp_all add: R_def layer_rows_def)
  note step = rope_pieces [OF pq [unfolded qd_def] pk [unfolded kd_def] _ R(1) _ _ _ rope
      parts(15) [folded R_def] R(2) _ x(1) [unfolded qd_def] x(2) [unfolded kd_def], of fo]
  have run: "if even (unat (dl_head_dim spec)) then \<exists>m'. run = (status_success, m') \<and>
      same_outside (cells P a (R * qd) \<union> cells P (2 * a) (R * kd)) m m' \<and>
      holds m' P a R qd (rope q) \<and> holds m' P (2 * a) R kd (rope k)
    else \<exists>s. run = (s, m) \<and> \<not> status_ok s"
    unfolding run_def rope_def qd_def kd_def
    by (rule step)
      (use sizes positions_below(1) [OF acc] in \<open>simp_all add: qd_def kd_def\<close>)
  show ?thesis
  proof (cases "even (unat (dl_head_dim spec))")
    case False
    then show ?thesis using run by simp
  next
    case True
    then obtain m' where m': "run = (status_success, m')"
      "same_outside (cells P a (R * qd) \<union> cells P (2 * a) (R * kd)) m m'"
      "holds m' P a R qd (rope q)" "holds m' P (2 * a) R kd (rope k)" using run by auto
    have "holds m' P (2 * a + b) R kd v"
      by (rule holds_kept [OF x(3) m'(2)]) (auto simp: cells_def sizes)
    moreover have "cells P a (R * qd) \<union> cells P (2 * a) (R * kd) \<subseteq> cells P 0 ?cap"
      using room unfolding sizes by (intro Un_least cells_mono) simp_all
    ultimately show ?thesis using True m' same_outside_mono [OF m'(2)] by auto
  qed
qed

text \<open>The keys and values of all positions after the call.\<close>

definition call_keys ::
  "float_ops \<Rightarrow> decoder_layer_spec \<Rightarrow> layer_weights \<Rightarrow> tensor_view \<Rightarrow> cpu_kv_view \<Rightarrow> u32 list \<Rightarrow> u32 list \<Rightarrow>
     memory \<Rightarrow> nat \<Rightarrow> nat \<Rightarrow> vec" where
  "call_keys fo spec weights hidden cache positions context_lengths m =
     cache_row m (kv_key cache) (unat (dl_kv_heads spec) * unat (dl_head_dim spec)) context_lengths
       (unat (extent hidden 1)) (\<lambda>r. key_vec fo spec (layer_values_of m weights) (positions ! r)
         (row_of (rd m (tv_data hidden)) (unat (dl_hidden_size spec)) r))"

definition call_values ::
  "float_ops \<Rightarrow> decoder_layer_spec \<Rightarrow> layer_weights \<Rightarrow> tensor_view \<Rightarrow> cpu_kv_view \<Rightarrow> u32 list \<Rightarrow>
     memory \<Rightarrow> nat \<Rightarrow> nat \<Rightarrow> vec" where
  "call_values fo spec weights hidden cache context_lengths m =
     cache_row m (kv_value cache) (unat (dl_kv_heads spec) * unat (dl_head_dim spec)) context_lengths
       (unat (extent hidden 1)) (\<lambda>r. value_vec fo spec (layer_values_of m weights)
         (row_of (rd m (tv_data hidden)) (unat (dl_hidden_size spec)) r))"

lemma cache_row_cong:
  assumes "\<And>b k i. b < batch \<Longrightarrow> k < unat (extent c 1) \<Longrightarrow> i < n \<Longrightarrow>
       rd m (tv_data c) ((b * unat (extent c 1) + k) * n + i) =
       rd m' (tv_data c) ((b * unat (extent c 1) + k) * n + i)"
    "cache_holds m'' c batch (unat (extent c 1)) n (cache_row m c n context_lengths tokens f)"
  shows "cache_holds m'' c batch (unat (extent c 1)) n (cache_row m' c n context_lengths tokens f)"
  using assms by (auto simp: cache_holds_def cache_row_def row_of_def split: option.splits)

text \<open>The places a layer writes: hidden rows, cache and workspace.\<close>

definition layer_cells :: "tensor_view \<Rightarrow> cpu_kv_view \<Rightarrow> cpu_workspace \<Rightarrow> nat set" where
  "layer_cells hidden cache workspace =
     cells_of hidden \<union> cells_of (kv_key cache) \<union> cells_of (kv_value cache) \<union>
     cells (hb_data (ws_storage workspace)) 0 (unat (ws_capacity workspace))"

lemma workspace_cells_apart:
  assumes acc: "layer_accepts weights spec hidden cache positions context_lengths workspace trace"
  defines "S \<equiv> cells (hb_data (ws_storage workspace)) 0 (unat (ws_capacity workspace))"
  shows "cells_of hidden \<inter> S = {}" "cells_of (kv_key cache) \<inter> S = {}" "cells_of (kv_value cache) \<inter> S = {}"
    "cells_of hidden \<inter> cells_of (kv_key cache) = {}" "cells_of hidden \<inter> cells_of (kv_value cache) = {}"
    "field \<in> {dt_after_attention, dt_after_mlp} \<Longrightarrow> trace_cells field trace \<inter> S = {}"
proof -
  note parts = layer_accepts_parts [OF acc]
  have ws: "cells_of (workspace_view workspace) = S"
    using layer_covers [OF acc] by (simp only: covers_def S_def)
  show "cells_of hidden \<inter> S = {}" "cells_of (kv_key cache) \<inter> S = {}" "cells_of (kv_value cache) \<inter> S = {}"
    unfolding ws [symmetric] using parts(23,25,26) disjoint_viewsD(5) by blast+
  show "cells_of hidden \<inter> cells_of (kv_key cache) = {}" "cells_of hidden \<inter> cells_of (kv_value cache) = {}"
    using parts(21,22) disjoint_viewsD(5) by blast+
  show "trace_cells field trace \<inter> S = {}" if "field \<in> {dt_after_attention, dt_after_mlp}"
    unfolding ws [symmetric] by (rule trace_cells_disjoint(2) [OF parts(28) that]) simp
qed

lemma appended:
  fixes fo :: float_ops and m :: memory
  assumes acc: "layer_accepts weights spec hidden cache positions context_lengths workspace trace"
  defines "P \<equiv> hb_data (ws_storage workspace)" and "R \<equiv> layer_rows hidden"
    and "qd \<equiv> unat (dl_query_heads spec) * unat (dl_head_dim spec)"
    and "kd \<equiv> unat (dl_kv_heads spec) * unat (dl_head_dim spec)"
    and "a \<equiv> hidden_floats spec (layer_rows hidden)" and "b \<equiv> kv_floats spec (layer_rows hidden)"
    and "B \<equiv> unat (extent hidden 0)" and "C \<equiv> unat (extent (kv_key cache) 1)"
    and "ks \<equiv> [extent hidden 0, extent hidden 1, ucast (dl_kv_heads spec), ucast (dl_head_dim spec)]"
  assumes x: "holds m P a R qd q" "holds m P (2 * a) R kd k" "holds m P (2 * a + b) R kd v"
    and typed: "length positions < 2 ^ 64"
  shows "\<exists>m'. append_kv_f32 (make_f32_view (behind P (2 * a)) ks) (make_f32_view (behind P (2 * a + b)) ks)
        positions cache m = (status_success, m') \<and>
      same_outside (cells_of (kv_key cache) \<union> cells_of (kv_value cache)) m m' \<and>
      holds m' P a R qd q \<and>
      cache_holds m' (kv_key cache) B C kd (cache_row m (kv_key cache) kd context_lengths (unat (extent hidden 1)) k) \<and>
      cache_holds m' (kv_value cache) B C kd (cache_row m (kv_value cache) kd context_lengths (unat (extent hidden 1)) v)"
proof -
  let ?cap = "unat (ws_capacity workspace)"
  note parts = layer_accepts_parts [OF acc]
  have room: "3 * a + 2 * b \<le> ?cap" using attention_spans(2) [OF acc] by (simp add: a_def b_def)
  have sizes: "R * qd = a" "R * kd = b"
    using spec_nonzero(7) [OF parts(1)]
    by (simp_all add: a_def b_def hidden_floats_def kv_floats_def R_def qd_def kd_def)
  have pk: "piece P ?cap (2 * a) (R * kd) ks" and pv: "piece P ?cap (2 * a + b) (R * kd) ks"
    unfolding P_def R_def kd_def ks_def
    using room by (intro layer_pieces(5) [OF acc]; simp add: a_def b_def)+
  note app = append_accepts_pieces [OF acc pk [unfolded P_def R_def kd_def ks_def]
      pv [unfolded P_def R_def kd_def ks_def], folded P_def R_def kd_def ks_def]
  have l: "length ks = 4" by (simp add: ks_def)
  have ext: "unat (extent (make_f32_view (behind P (2 * a)) ks) 0) = B"
    "unat (extent (make_f32_view (behind P (2 * a)) ks) 1) = unat (extent hidden 1)"
    using piece_simps(6) [OF pk] by (simp_all add: l) (simp_all add: ks_def B_def)
  have R: "B * unat (extent hidden 1) = R" by (simp add: R_def B_def layer_rows_def)
  have C: "unat (extent (kv_key cache) 1) = C" by (simp only: C_def)
  have "holds m (tv_data (make_f32_view (behind P (2 * a)) ks)) 0 (B * unat (extent hidden 1)) kd k"
    "holds m (tv_data (make_f32_view (behind P (2 * a + b)) ks)) 0 (B * unat (extent hidden 1)) kd v"
    unfolding R piece_simps(4,7) [OF pk] piece_simps(4,7) [OF pv] by (rule x)+
  from append_step [OF app(1,2) ext app(3) C parts(17) [folded B_def C_def] this typed]
  obtain m' where m': "append_kv_f32 (make_f32_view (behind P (2 * a)) ks)
      (make_f32_view (behind P (2 * a + b)) ks) positions cache m = (status_success, m')"
    "same_outside (cells_of (kv_key cache) \<union> cells_of (kv_value cache)) m m'"
    "cache_holds m' (kv_key cache) B C kd (cache_row m (kv_key cache) kd context_lengths (unat (extent hidden 1)) k)"
    "cache_holds m' (kv_value cache) B C kd (cache_row m (kv_value cache) kd context_lengths (unat (extent hidden 1)) v)"
    by blast
  have "cells P a (R * qd) \<subseteq> cells P 0 ?cap" using room sizes by (intro cells_mono) simp_all
  then have "holds m' P a R qd q"
    using workspace_cells_apart(2,3) [OF acc, folded P_def] by (intro holds_kept [OF x(1) m'(2)]) blast
  with m' show ?thesis by blast
qed

lemma attended:
  fixes fo :: float_ops and m :: memory
  assumes acc: "layer_accepts weights spec hidden cache positions context_lengths workspace trace"
  defines "P \<equiv> hb_data (ws_storage workspace)" and "R \<equiv> layer_rows hidden"
    and "qd \<equiv> unat (dl_query_heads spec) * unat (dl_head_dim spec)"
    and "kd \<equiv> unat (dl_kv_heads spec) * unat (dl_head_dim spec)"
    and "a \<equiv> hidden_floats spec (layer_rows hidden)" and "b \<equiv> kv_floats spec (layer_rows hidden)"
    and "c \<equiv> logit_floats spec (layer_rows hidden) (unat (extent (kv_key cache) 1))"
    and "B \<equiv> unat (extent hidden 0)" and "C \<equiv> unat (extent (kv_key cache) 1)" and "T \<equiv> unat (extent hidden 1)"
    and "qs \<equiv> [extent hidden 0, extent hidden 1, ucast (dl_query_heads spec), ucast (dl_head_dim spec)]"
  assumes x: "holds m P a R qd q" "cache_holds m (kv_key cache) B C kd keys"
      "cache_holds m (kv_value cache) B C kd vals"
  shows "\<exists>m'. attention_impl fo (make_f32_view (behind P a) qs) (kv_key cache) (kv_value cache) context_lengths
        (make_f32_view (behind P (2 * a + 2 * b)) qs) (behind P (3 * a + 2 * b), c) m =
        Some (status_success, m') \<and>
      same_outside (cells P 0 (unat (ws_capacity workspace))) m m' \<and>
      holds m' P (2 * a + 2 * b) R qd (\<lambda>r. attention_vec fo (ucast (dl_head_dim spec))
        (unat (dl_query_heads spec) div unat (dl_kv_heads spec)) (keys (r div T)) (vals (r div T))
        (unat (positions ! r) + 1) (q r))"
proof -
  let ?cap = "unat (ws_capacity workspace)" and ?kc = "kv_key cache" and ?vc = "kv_value cache"
  let ?q = "make_f32_view (behind P a) qs" and ?o = "make_f32_view (behind P (2 * a + 2 * b)) qs"
  note parts = layer_accepts_parts [OF acc]
  have room: "3 * a + 2 * b + c \<le> ?cap" using attention_spans(2) [OF acc] by (simp add: a_def b_def c_def)
  have sizes: "R * qd = a"
    using spec_nonzero(7) [OF parts(1)] by (simp add: a_def hidden_floats_def R_def qd_def)
  have pq: "piece P ?cap a (R * qd) qs" and po: "piece P ?cap (2 * a + 2 * b) (R * qd) qs"
    unfolding P_def R_def qd_def qs_def
    using room by (intro layer_pieces(3) [OF acc]; simp add: a_def b_def)+
  have fits: "fits_behind P ?cap" using layer_covers [OF acc] by (simp add: covers_def P_def)
  have ready: "attention_accepts ?q ?kc ?vc context_lengths ?o"
    using attention_accepts_pieces [OF acc pq [unfolded P_def R_def qd_def qs_def]
        po [unfolded P_def R_def qd_def qs_def], folded P_def R_def qd_def qs_def]
    by (simp add: sizes)
  have l: "length qs = 4" by (simp add: qs_def)
  have ext: "extent ?q 0 = extent hidden 0" "extent ?q 1 = extent hidden 1"
    "extent ?q 2 = ucast (dl_query_heads spec)" "extent ?q 3 = ucast (dl_head_dim spec)"
    using piece_simps(6) [OF pq] by (simp_all add: l) (simp_all add: qs_def)
  have e: "unat (extent ?q 0) = B" "unat (extent ?q 1) = T" "unat (extent ?q 2) = unat (dl_query_heads spec)"
    "unat (extent ?q 3) = unat (dl_head_dim spec)" "unat (extent ?kc 1) = C"
    "unat (extent ?kc 2) = unat (dl_kv_heads spec)"
    using parts(12) by (simp_all only: ext B_def T_def C_def unat_ucast_u32_u64)
  have BT: "B * T = R" by (simp add: R_def B_def T_def layer_rows_def)
  have floats: "attention_floats ?q ?kc \<le> c"
    unfolding attention_floats_def e by (simp add: BT c_def logit_floats_def R_def C_def)
  have l0: "3 * a + 2 * b \<le> ?cap" using room by simp
  have span: "unat (behind P (3 * a + 2 * b)) + 4 * c \<le> 2 ^ 64"
    using unat_behind [OF fits l0] fits room by (simp add: fits_behind_def)
  have logits: "cells (behind P (3 * a + 2 * b)) 0 c = cells P (3 * a + 2 * b) c"
    using cells_behind [OF fits l0] by simp
  have numel: "cells_of ?q = cells P a a" "cells_of ?o = cells P (2 * a + 2 * b) a"
    using piece_simps(3,4,8) [OF pq] piece_simps(3,4,8) [OF po] by (simp_all add: sizes)
  have sub: "cells P (3 * a + 2 * b) c \<subseteq> cells P 0 ?cap" "cells P (2 * a + 2 * b) a \<subseteq> cells P 0 ?cap"
    using room by (intro cells_mono; simp)+
  have apart: "\<forall>v \<in> {?q, ?kc, ?vc, ?o}. cells_of v \<inter> cells (behind P (3 * a + 2 * b)) 0 c = {}"
  proof -
    have "cells P a a \<inter> cells P (3 * a + 2 * b) c = {}"
      "cells P (2 * a + 2 * b) a \<inter> cells P (3 * a + 2 * b) c = {}" by (auto simp: cells_def)
    moreover have "cells_of ?kc \<inter> cells P (3 * a + 2 * b) c = {}" "cells_of ?vc \<inter> cells P (3 * a + 2 * b) c = {}"
      using workspace_cells_apart(2,3) [OF acc, folded P_def] sub(1) by blast+
    ultimately show ?thesis unfolding logits by (simp only: ball_simps numel simp_thms)
  qed
  have q: "holds m (tv_data ?q) 0 (B * T) (unat (dl_query_heads spec) * unat (dl_head_dim spec)) q"
    unfolding BT piece_simps(4,7) [OF pq] using x(1) by (simp only: qd_def)
  from attention_step [OF ready floats span apart e q x(2,3) [unfolded kd_def], of fo]
  obtain m' where m': "attention_impl fo ?q ?kc ?vc context_lengths ?o (behind P (3 * a + 2 * b), c) m =
      Some (status_success, m')"
    "same_outside (cells_of ?o \<union> cells (behind P (3 * a + 2 * b)) 0 c) m m'"
    and h: "holds m' (tv_data ?o) 0 (B * T) (unat (dl_query_heads spec) * unat (dl_head_dim spec))
      (\<lambda>r. attention_vec fo (extent ?q 3) (unat (dl_query_heads spec) div unat (dl_kv_heads spec))
        (keys (r div T)) (vals (r div T)) (unat (context_lengths ! (r div T)) - T + r mod T + 1) (q r))"
    by blast
  have "holds m' P (2 * a + 2 * b) R qd
      (\<lambda>r. attention_vec fo (extent ?q 3) (unat (dl_query_heads spec) div unat (dl_kv_heads spec))
        (keys (r div T)) (vals (r div T)) (unat (context_lengths ! (r div T)) - T + r mod T + 1) (q r))"
    using h unfolding BT piece_simps(4,7) [OF po] by (simp only: qd_def)
  then have "holds m' P (2 * a + 2 * b) R qd (\<lambda>r. attention_vec fo (ucast (dl_head_dim spec))
        (unat (dl_query_heads spec) div unat (dl_kv_heads spec)) (keys (r div T)) (vals (r div T))
        (unat (positions ! r) + 1) (q r))"
    by (rule holds_cong) (use row_position(2) [OF acc] in \<open>simp add: R_def T_def ext\<close>)
  moreover have "same_outside (cells P 0 ?cap) m m'"
    using same_outside_mono [OF m'(2)] sub unfolding logits numel by blast
  ultimately show ?thesis using m'(1) by blast
qed

end
