(* ===== verification/CpuLayerRun.thy ===== *)
theory CpuLayerRun
  imports CpuAttentionRun
begin

text \<open>
  The decoder layer as a whole: whenever its checks pass and the head dimension is even, it
  succeeds and computes the reference.
\<close>

section \<open>The first phase\<close>

lemma cache_unchanged:
  assumes acc: "layer_accepts weights spec hidden cache positions context_lengths workspace trace"
    and same: "same_outside (cells (hb_data (ws_storage workspace)) 0 (unat (ws_capacity workspace))) m m1"
  defines "B \<equiv> unat (extent hidden 0)" and "C \<equiv> unat (extent (kv_key cache) 1)"
    and "kd \<equiv> unat (dl_kv_heads spec) * unat (dl_head_dim spec)"
  shows "cache_holds m' (kv_key cache) B C kd (cache_row m1 (kv_key cache) kd context_lengths tokens f) \<Longrightarrow>
      cache_holds m' (kv_key cache) B C kd (cache_row m (kv_key cache) kd context_lengths tokens f)"
    "cache_holds m' (kv_value cache) B C kd (cache_row m1 (kv_value cache) kd context_lengths tokens f) \<Longrightarrow>
      cache_holds m' (kv_value cache) B C kd (cache_row m (kv_value cache) kd context_lengths tokens f)"
proof -
  note parts = layer_accepts_parts [OF acc]
  have numel: "numel (kv_key cache) = B * C * kd" "numel (kv_value cache) = B * C * kd"
    using numel_rank(4) [of "kv_key cache"] parts(7,9-13)
    by (simp_all add: f32_view_def B_def C_def kd_def numel_def)
  have C: "unat (extent (kv_key cache) 1) = C" "unat (extent (kv_value cache) 1) = C"
    using parts(10) by (simp_all add: C_def)
  have same_kv: "rd m1 (tv_data c) ((b * C + k) * kd + i) = rd m (tv_data c) ((b * C + k) * kd + i)"
    if "c = kv_key cache \<or> c = kv_value cache" "b < B" "k < C" "i < kd" for c b k i
    using that workspace_cells_apart(2,3) [OF acc] row_bound [OF row_bound [OF that(2,3)] that(4)]
    by (intro same_outside_cells [OF same, of _ "B * C * kd"]) (auto simp: numel)
  show "cache_holds m' (kv_key cache) B C kd (cache_row m1 (kv_key cache) kd context_lengths tokens f) \<Longrightarrow>
      cache_holds m' (kv_key cache) B C kd (cache_row m (kv_key cache) kd context_lengths tokens f)"
    by (rule cache_row_cong [where m = m1 and batch = B and c = "kv_key cache", unfolded C, OF same_kv]) simp_all
  show "cache_holds m' (kv_value cache) B C kd (cache_row m1 (kv_value cache) kd context_lengths tokens f) \<Longrightarrow>
      cache_holds m' (kv_value cache) B C kd (cache_row m (kv_value cache) kd context_lengths tokens f)"
    by (rule cache_row_cong [where m = m1 and batch = B and c = "kv_value cache", unfolded C, OF same_kv]) simp_all
qed

definition all_cells ::
  "tensor_view \<Rightarrow> cpu_kv_view \<Rightarrow> cpu_workspace \<Rightarrow> decoder_layer_trace option \<Rightarrow> nat set" where
  "all_cells hidden cache workspace trace =
     layer_cells hidden cache workspace \<union> trace_cells dt_after_attention trace \<union>
     trace_cells dt_after_mlp trace"

definition attended_rows ::
  "float_ops \<Rightarrow> decoder_layer_spec \<Rightarrow> layer_weights \<Rightarrow> tensor_view \<Rightarrow> cpu_kv_view \<Rightarrow> u32 list \<Rightarrow> u32 list \<Rightarrow>
     memory \<Rightarrow> nat \<Rightarrow> vec" where
  "attended_rows fo spec weights hidden cache positions context_lengths m r =
     attended_vec fo spec (layer_values_of m weights)
       (call_keys fo spec weights hidden cache positions context_lengths m (r div unat (extent hidden 1)))
       (call_values fo spec weights hidden cache context_lengths m (r div unat (extent hidden 1)))
       (positions ! r) (row_of (rd m (tv_data hidden)) (unat (dl_hidden_size spec)) r)"

lemma cache_holds_kept:
  assumes acc: "layer_accepts weights spec hidden cache positions context_lengths workspace trace"
    and "cache_holds m c (unat (extent hidden 0)) (unat (extent (kv_key cache) 1))
      (unat (dl_kv_heads spec) * unat (dl_head_dim spec)) f"
    "same_outside U m m'" "cells_of c \<inter> U = {}" "c = kv_key cache \<or> c = kv_value cache"
  shows "cache_holds m' c (unat (extent hidden 0)) (unat (extent (kv_key cache) 1))
      (unat (dl_kv_heads spec) * unat (dl_head_dim spec)) f"
proof -
  note parts = layer_accepts_parts [OF acc]
  let ?n = "unat (dl_kv_heads spec) * unat (dl_head_dim spec)" and ?B = "unat (extent hidden 0)"
    and ?C = "unat (extent (kv_key cache) 1)"
  have "numel (kv_key cache) = ?B * ?C * ?n" "numel (kv_value cache) = ?B * ?C * ?n"
    using numel_rank(4) [of "kv_key cache"] parts(7,9-13) by (simp_all add: f32_view_def numel_def)
  then have numel: "numel c = ?B * ?C * ?n" using assms(5) by auto
  have "rd m' (tv_data c) ((b * ?C + k) * ?n + i) = rd m (tv_data c) ((b * ?C + k) * ?n + i)"
    if "b < ?B" "k < ?C" "i < ?n" for b k i
    using row_bound [OF row_bound [OF that(1,2)] that(3)] assms(4)
    by (intro same_outside_cells [OF assms(3), of _ "numel c"]) (simp_all add: numel)
  then show ?thesis using assms(2) by (simp add: cache_holds_def)
qed

lemma attention_phase_reference:
  fixes fo :: float_ops and m :: memory
  assumes acc: "layer_accepts weights spec hidden cache positions context_lengths workspace trace"
    and typed: "length positions < 2 ^ 64"
  defines "run \<equiv> attention_phase fo weights spec hidden cache positions context_lengths workspace trace
      (extent hidden 0) (extent hidden 1) (extent (kv_key cache) 1) m"
    and "B \<equiv> unat (extent hidden 0)" and "C \<equiv> unat (extent (kv_key cache) 1)"
    and "kd \<equiv> unat (dl_kv_heads spec) * unat (dl_head_dim spec)"
    and "R \<equiv> layer_rows hidden" and "n \<equiv> unat (dl_hidden_size spec)"
    and "rows \<equiv> attended_rows fo spec weights hidden cache positions context_lengths m"
  shows "if even (unat (dl_head_dim spec)) then \<exists>m'. run = Some (status_success, m') \<and>
      same_outside (layer_cells hidden cache workspace \<union> trace_cells dt_after_attention trace) m m' \<and>
      holds m' (tv_data hidden) 0 R n rows \<and>
      cache_holds m' (kv_key cache) B C kd
        (call_keys fo spec weights hidden cache positions context_lengths m) \<and>
      cache_holds m' (kv_value cache) B C kd
        (call_values fo spec weights hidden cache context_lengths m) \<and>
      trace_holds m' dt_after_attention trace R n rows
    else \<exists>s m'. run = Some (s, m') \<and> \<not> status_ok s \<and>
      same_outside (cells (hb_data (ws_storage workspace)) 0 (unat (ws_capacity workspace))) m m'"
proof -
  define P cap where "P = hb_data (ws_storage workspace)" "cap = unat (ws_capacity workspace)"
  define a b c where "a = hidden_floats spec R" "b = kv_floats spec R" "c = logit_floats spec R C"
  define w where "w = layer_values_of m weights"
  define x where "x = row_of (rd m (tv_data hidden)) n"
  define qd T where "qd = unat (dl_query_heads spec) * unat (dl_head_dim spec)" "T = unat (extent hidden 1)"
  define S where "S = cells P 0 cap"
  note ws = P_cap_def and sz = a_b_c_def and pos = qd_T_def
  note parts = layer_accepts_parts [OF acc]
  have n: "qd = n" using spec_nonzero(7) [OF parts(1)] by (simp only: pos n_def)
  note cells = workspace_cells_apart [OF acc, folded ws, folded S_def]
  define hs ks where "hs = (ucast (dl_hidden_size spec) :: u64)"
    "ks = (ucast (dl_kv_heads spec) * ucast (dl_head_dim spec) :: u64)"
  define rs where "rs = extent hidden 0 * extent hidden 1"
  define qv kv where
    "qv = [extent hidden 0, extent hidden 1, ucast (dl_query_heads spec), ucast (dl_head_dim spec)]"
    "kv = [extent hidden 0, extent hidden 1, ucast (dl_kv_heads spec), ucast (dl_head_dim spec)]"
  obtain m1 m2 m3 m4 where p:
    "rms_norm_f32 fo hidden (lw_input_norm weights) (dl_rms_norm_epsilon spec)
      (make_f32_view (behind P 0) [extent hidden 0, extent hidden 1, hs]) m = (status_success, m1)"
    "linear_f32 fo (make_f32_view (behind P 0) [rs, hs]) (aw_query (lw_attention weights))
      (make_f32_view (behind P a) [rs, hs]) m1 = (status_success, m2)"
    "linear_f32 fo (make_f32_view (behind P 0) [rs, hs]) (aw_key (lw_attention weights))
      (make_f32_view (behind P (2 * a)) [rs, ks]) m2 = (status_success, m3)"
    "linear_f32 fo (make_f32_view (behind P 0) [rs, hs]) (aw_value (lw_attention weights))
      (make_f32_view (behind P (2 * a + b)) [rs, ks]) m3 = (status_success, m4)"
    and s4: "same_outside S m m4"
    and q4: "holds m4 P a R n (\<lambda>r. linear_vec fo n (lv_query w) (pre_norm fo spec w (x r)))"
    and k4: "holds m4 P (2 * a) R kd (\<lambda>r. linear_vec fo n (lv_key w) (pre_norm fo spec w (x r)))"
    and v4: "holds m4 P (2 * a + b) R kd (\<lambda>r. value_vec fo spec w (x r))"
    using projections [OF acc, of fo m, folded ws, folded S_def] unfolding R_def sz n_def w_def x_def kd_def
      hs_ks_def rs_def by blast
  have spans: "take_spans workspace 0
      [unat (rs * hs), unat (rs * hs), unat (rs * ks), unat (rs * ks), unat (rs * hs),
       unat (rs * ucast (dl_query_heads spec) * extent (kv_key cache) 1)] =
    Some [(behind P 0, a), (behind P a, a), (behind P (2 * a), b), (behind P (2 * a + b), b),
      (behind P (2 * a + 2 * b), a), (behind P (3 * a + 2 * b), c)]"
    using attention_spans(1) [OF acc] layer_products [OF acc]
    by (simp only: rs_def hs_ks_def ws sz R_def C_def)
  note unfold = run_def attention_phase_def Let_def rs_def [symmetric] hs_ks_def [symmetric]
    qv_kv_def [symmetric] spans option.case list.case prod.case p and_then_simps(1)
  note rot = rotated [OF acc, folded ws R_def, folded sz pos kd_def qv_kv_def,
      OF q4 [folded n] k4 v4, of fo, unfolded n]
  show ?thesis
  proof (cases "even (unat (dl_head_dim spec))")
    case False
    then obtain s where s: "apply_rope_f32 fo (make_f32_view (behind P a) qv)
        (make_f32_view (behind P (2 * a)) kv) positions (dl_rope spec) m4 = (s, m4)" "\<not> status_ok s"
      using rot by auto
    have "run = Some (s, m4)" unfolding unfold using s by simp
    then show ?thesis using False s(2) s4 by (simp add: S_def ws)
  next
    case True
    let ?rope = "\<lambda>y r. rope_vec fo (rs_theta (dl_rope spec)) (ucast (dl_head_dim spec)) (positions ! r) (y r)"
    from True rot obtain m5 where m5: "apply_rope_f32 fo (make_f32_view (behind P a) qv)
        (make_f32_view (behind P (2 * a)) kv) positions (dl_rope spec) m4 = (status_success, m5)"
      "same_outside S m4 m5"
      and q5: "holds m5 P a R n (\<lambda>r. query_vec fo spec w (positions ! r) (x r))"
      and k5: "holds m5 P (2 * a) R kd (\<lambda>r. key_vec fo spec w (positions ! r) (x r))"
      and v5: "holds m5 P (2 * a + b) R kd (\<lambda>r. value_vec fo spec w (x r))"
      by (auto simp: S_def query_vec_def key_vec_def n_def)
    have s5: "same_outside S m m5" by (rule same_outside_trans [OF s4 m5(2)]) simp_all
    note app = appended [OF acc, folded ws R_def, folded sz pos kd_def qv_kv_def, folded C_def B_def,
        OF q5 [folded n] k5 v5 typed, unfolded n]
    from app obtain m6 where m6: "append_kv_f32 (make_f32_view (behind P (2 * a)) kv)
        (make_f32_view (behind P (2 * a + b)) kv) positions cache m5 = (status_success, m6)"
      "same_outside (cells_of (kv_key cache) \<union> cells_of (kv_value cache)) m5 m6"
      and q6: "holds m6 P a R n (\<lambda>r. query_vec fo spec w (positions ! r) (x r))"
      and c6: "cache_holds m6 (kv_key cache) B C kd (cache_row m5 (kv_key cache) kd context_lengths
          T (\<lambda>r. key_vec fo spec w (positions ! r) (x r)))"
        "cache_holds m6 (kv_value cache) B C kd (cache_row m5 (kv_value cache) kd context_lengths
          T (\<lambda>r. value_vec fo spec w (x r)))" by blast
    note old = cache_unchanged [OF acc s5 [unfolded S_def ws], folded B_def C_def kd_def]
    have keys: "cache_holds m6 (kv_key cache) B C kd
        (call_keys fo spec weights hidden cache positions context_lengths m)"
      and vals: "cache_holds m6 (kv_value cache) B C kd
        (call_values fo spec weights hidden cache context_lengths m)"
      unfolding call_keys_def call_values_def kd_def [symmetric] w_def [symmetric] n_def [symmetric]
        x_def [symmetric] pos(2) [symmetric]
      using old(1) [OF c6(1)] old(2) [OF c6(2)] .
    define S' where "S' = S \<union> cells_of (kv_key cache) \<union> cells_of (kv_value cache)"
    have s6: "same_outside S' m m6" by (rule same_outside_trans [OF s5 m6(2)]) (auto simp: S'_def)
    from attended [OF acc, folded ws R_def, folded sz pos kd_def qv_kv_def, folded C_def B_def,
        folded pos sz, OF q6 [folded n] keys vals, of fo, unfolded n]
    obtain m7 where m7: "attention_impl fo (make_f32_view (behind P a) qv) (kv_key cache) (kv_value cache)
        context_lengths (make_f32_view (behind P (2 * a + 2 * b)) qv) (behind P (3 * a + 2 * b), c) m6 =
        Some (status_success, m7)" "same_outside S m6 m7"
      and a7: "holds m7 P (2 * a + 2 * b) R n (\<lambda>r. attention_vec fo (ucast (dl_head_dim spec))
        (unat (dl_query_heads spec) div unat (dl_kv_heads spec))
        (call_keys fo spec weights hidden cache positions context_lengths m (r div T))
        (call_values fo spec weights hidden cache context_lengths m (r div T))
        (unat (positions ! r) + 1) (query_vec fo spec w (positions ! r) (x r)))"
      unfolding S_def by blast
    have s7: "same_outside S' m m7" by (rule same_outside_trans [OF s6 m7(2)]) (auto simp: S'_def)
    define att where "att = (\<lambda>r. attention_vec fo (ucast (dl_head_dim spec))
        (unat (dl_query_heads spec) div unat (dl_kv_heads spec))
        (call_keys fo spec weights hidden cache positions context_lengths m (r div T))
        (call_values fo spec weights hidden cache context_lengths m (r div T))
        (unat (positions ! r) + 1) (query_vec fo spec w (positions ! r) (x r)))"
    note hv = hidden_view [OF acc, folded R_def n_def sz]
    have Rn: "R * n = a" using hv(8) by (simp only: sz)
    have room: "3 * a + 2 * b \<le> cap" using attention_spans(2) [OF acc] by (simp add: sz ws R_def)
    have p0: "piece P cap 0 (R * n) [rs, hs]" and po: "piece P cap (2 * a + 2 * b) (R * n) [rs, hs]"
      unfolding ws R_def n_def rs_def hs_ks_def
      using room by (intro layer_pieces(2) [OF acc]; simp add: sz ws R_def)+
    have order: "2 * a + 2 * b + R * n \<le> 0 \<or> 0 + R * n \<le> 2 * a + 2 * b" using Rn by simp
    have e: "unat rs = R" "unat hs = n"
      using layer_products(1) [OF acc] by (simp_all add: rs_def R_def hs_ks_def n_def)
    note wo = weight_apart [OF acc layer_views_members(5), folded ws, folded S_def]
    have wS: "cells_of (aw_output (lw_attention weights)) \<inter> S' = {}" using wo unfolding S'_def by blast
    have lo: "lv_output w = rd m (tv_data (aw_output (lw_attention weights)))"
      by (simp add: w_def layer_values_of_def)
    from linear_piece [OF po p0 layer_covers [OF acc, folded ws] order e(1,2,2)
        layer_weight_shapes(5) [OF acc, folded hs_ks_def] wo(1) s7 wS a7 [folded att_def], of fo, folded lo]
    obtain m8 where m8: "linear_f32 fo (make_f32_view (behind P (2 * a + 2 * b)) [rs, hs])
        (aw_output (lw_attention weights)) (make_f32_view (behind P 0) [rs, hs]) m7 = (status_success, m8)"
      "same_outside (cells P 0 (R * n)) m7 m8"
      and o8: "holds m8 P 0 R n (\<lambda>r. linear_vec fo n (lv_output w) (att r))" by blast
    have sub: "cells P 0 (R * n) \<subseteq> S" unfolding S_def using room Rn by (intro cells_mono) simp_all
    have s8: "same_outside S' m m8"
      by (rule same_outside_trans [OF s7 m8(2)]) (use sub in \<open>auto simp: S'_def\<close>)
    have hidden: "cells (tv_data hidden) 0 (R * n) = cells_of hidden" by (simp only: hv(2))
    have hS: "cells_of hidden \<inter> S' = {}" using cells(1,4,5) unfolding S'_def by blast
    have "holds m (tv_data hidden) 0 R n x" unfolding x_def by (rule holds_row_of)
    then have x8: "holds m8 (tv_data hidden) 0 R n x"
      by (rule holds_kept [OF _ s8]) (simp only: hidden hS)
    define m9 where "m9 = add_in_place fo (tv_data hidden) (behind P 0) (R * n) m8"
    have fits: "fits_behind P cap" using layer_covers [OF acc] by (simp add: covers_def ws)
    have hP: "cells (tv_data hidden) 0 (R * n) \<inter> cells P 0 (R * n) = {}"
      using cells(1) sub unfolding hidden by blast
    have le0: "0 \<le> cap" by simp
    note add = add_in_place_step [OF x8 o8 hP fits le0, of fo, folded m9_def]
    have h9: "holds m9 (tv_data hidden) 0 R n rows"
      using add(2) unfolding rows_def attended_rows_def attended_vec_def att_def w_def x_def n_def pos(2) .
    define m10 where "m10 = trace_copy dt_after_attention trace (tv_data hidden) (R * n) m9"
    note tr = trace_copy_step [OF h9 hv(2) parts(28), of dt_after_attention, simplified, folded m10_def]
    have tcells: "trace_cells dt_after_attention trace \<inter> cells_of hidden = {}"
      "trace_cells dt_after_attention trace \<inter> cells_of (kv_key cache) = {}"
      "trace_cells dt_after_attention trace \<inter> cells_of (kv_value cache) = {}"
      using trace_cells_disjoint [OF parts(28)] by simp_all
    have h10: "holds m10 (tv_data hidden) 0 R n rows"
      by (rule holds_kept [OF h9 tr(1)]) (use tcells in \<open>auto simp: hidden\<close>)
    define U where "U = S \<union> cells_of hidden \<union> trace_cells dt_after_attention trace"
    have s68: "same_outside S m6 m8" by (rule same_outside_trans [OF m7(2) m8(2)]) (use sub in auto)
    have s69: "same_outside (S \<union> cells_of hidden) m6 m9"
      by (rule same_outside_trans [OF s68 add(1)]) (auto simp: hidden)
    have s610: "same_outside U m6 m10" by (rule same_outside_trans [OF s69 tr(1)]) (auto simp: U_def)
    have U: "cells_of (kv_key cache) \<inter> U = {}" "cells_of (kv_value cache) \<inter> U = {}"
      using cells(2-5) tcells unfolding U_def by blast+
    have final: "same_outside (layer_cells hidden cache workspace \<union> trace_cells dt_after_attention trace) m m10"
      by (rule same_outside_trans [OF s6 s610])
        (auto simp: S'_def U_def S_def layer_cells_def ws)
    have size: "unat (rs * hs) = R * n"
      using layer_products(2) [OF acc] Rn by (simp add: rs_def hs_ks_def R_def sz)
    have "run = Some (status_success, m10)"
      unfolding unfold m5(1) m6(1) m7(1) m8(1)
      unfolding size m9_def [symmetric] m10_def [symmetric] ..
    then show ?thesis
      using True final h10 tr(2) cache_holds_kept [OF acc keys [unfolded B_def C_def kd_def] s610 U(1) disjI1 [OF refl]]
        cache_holds_kept [OF acc vals [unfolded B_def C_def kd_def] s610 U(2) disjI2 [OF refl]]
      by (auto simp: B_def C_def kd_def)
  qed
qed

end
