(* ===== verification/CpuLayerProps.thy ===== *)
theory CpuLayerProps
  imports CpuLayerRun
begin

text \<open>
  The second phase of the decoder layer and the layer as a whole: whenever the checks pass and
  the head dimension is even the layer succeeds and computes the reference, else it fails and
  changes at most its workspace.
\<close>

section \<open>The second phase\<close>

lemma mlp_phase_reference:
  fixes fo :: float_ops and m :: memory
  assumes acc: "layer_accepts weights spec hidden cache positions context_lengths workspace trace"
    and same: "same_outside S0 m0 m" "\<forall>v \<in> set (layer_views weights). cells_of v \<inter> S0 = {}"
  defines "run \<equiv> mlp_phase fo weights spec hidden workspace trace (extent hidden 0) (extent hidden 1) m"
    and "R \<equiv> layer_rows hidden" and "n \<equiv> unat (dl_hidden_size spec)"
    and "w \<equiv> layer_values_of m0 weights"
    and "S \<equiv> cells (hb_data (ws_storage workspace)) 0 (unat (ws_capacity workspace))"
  assumes x: "holds m (tv_data hidden) 0 R n x"
  shows "\<exists>m'. run = Some (status_success, m') \<and>
      same_outside (cells_of hidden \<union> S \<union> trace_cells dt_after_mlp trace) m m' \<and>
      holds m' (tv_data hidden) 0 R n (\<lambda>r. mlp_vec fo spec w (x r)) \<and>
      trace_holds m' dt_after_mlp trace R n (\<lambda>r. mlp_vec fo spec w (x r))"
proof -
  define P cap where "P = hb_data (ws_storage workspace)" "cap = unat (ws_capacity workspace)"
  define k where "k = unat (dl_intermediate_size spec)"
  define a d where "a = hidden_floats spec R" "d = intermediate_floats spec R"
  define hs iz where "hs = (ucast (dl_hidden_size spec) :: u64)" "iz = (ucast (dl_intermediate_size spec) :: u64)"
  define rs where "rs = extent hidden 0 * extent hidden 1"
  note ws = P_cap_def and sz = a_d_def
  note parts = layer_accepts_parts [OF acc] and hv = hidden_view [OF acc, folded R_def n_def]
  note cells = workspace_cells_apart [OF acc, folded S_def]
  have cov: "covers (workspace_view workspace) P cap" using layer_covers [OF acc] by (simp only: ws)
  note shapes = layer_weight_shapes [OF acc, folded hs_iz_def]
  have S: "S = cells P 0 cap" by (simp only: S_def ws)
  have sizes: "R * n = a" "R * k = d"
    by (simp_all add: sz hidden_floats_def intermediate_floats_def n_def k_def)
  have room: "a + 2 * d \<le> cap" using mlp_spans(2) [OF acc] by (simp add: sz ws R_def)
  have p0: "piece P cap 0 (R * n) [rs, hs]"
    and pg: "piece P cap a (R * k) [rs, iz]" and pu: "piece P cap (a + d) (R * k) [rs, iz]"
    unfolding ws R_def n_def k_def rs_def hs_iz_def
    using room by (intro layer_pieces(2,6) [OF acc]; simp add: sz ws R_def)+
  have e: "unat rs = R" "unat hs = n" "unat iz = k"
    using layer_products(1) [OF acc] by (simp_all add: rs_def R_def hs_iz_def n_def k_def)
  have order: "0 + R * n \<le> a \<or> a + R * k \<le> 0" "0 + R * n \<le> a + d \<or> a + d + R * k \<le> 0"
    "a + R * k \<le> 0 \<or> 0 + R * n \<le> a" by (simp_all add: sizes)
  have sub: "cells P 0 (R * n) \<subseteq> S" "cells P a (R * k) \<subseteq> S" "cells P (a + d) (R * k) \<subseteq> S"
    unfolding S using room sizes by (intro cells_mono; simp)+
  define S1 where "S1 = S0 \<union> S"
  have wS: "cells_of v \<inter> S1 = {}" "disjoint_views v (workspace_view workspace)" "cells_of v \<inter> S0 = {}"
    if "v \<in> set (layer_views weights)" for v
    using same(2) that weight_apart(1,2) [OF acc that, folded S_def] by (auto simp: S1_def)
  have vals: "lv_post_norm w = rd m0 (tv_data (lw_post_attention_norm weights))"
    "lv_gate w = rd m0 (tv_data (mw_gate (lw_mlp weights)))"
    "lv_up w = rd m0 (tv_data (mw_up (lw_mlp weights)))"
    "lv_down w = rd m0 (tv_data (mw_down (lw_mlp weights)))"
    by (simp_all add: w_def layer_values_of_def)
  note mem = layer_views_members [of weights]
  text \<open>Normalization, gate and up.\<close>
  from hidden_norm [OF acc mem(6) shapes(6) [unfolded hs_iz_def] same(1) wS(3) [OF mem(6)]
      x [unfolded R_def n_def], of fo, folded R_def n_def ws hs_iz_def vals]
  obtain m1 where m1: "rms_norm_f32 fo hidden (lw_post_attention_norm weights) (dl_rms_norm_epsilon spec)
      (make_f32_view (behind P 0) [extent hidden 0, extent hidden 1, hs]) m = (status_success, m1)"
    "same_outside (cells P 0 (R * n)) m m1"
    and n1: "holds m1 P 0 R n (\<lambda>r. post_norm_vec fo spec w (x r))"
    unfolding post_norm_vec_def hs_iz_def by blast
  have s1: "same_outside S m m1" "same_outside S1 m0 m1"
    using same_outside_mono [OF m1(2) sub(1)] same_outside_trans [OF same(1) m1(2), of S1] sub
    by (auto simp: S1_def)
  from linear_piece [OF p0 pg cov order(1) e(1,2,3) shapes(7) wS(2) [OF mem(7)] s1(2) wS(1) [OF mem(7)] n1, of fo]
  obtain m2 where m2: "linear_f32 fo (make_f32_view (behind P 0) [rs, hs]) (mw_gate (lw_mlp weights))
      (make_f32_view (behind P a) [rs, iz]) m1 = (status_success, m2)"
    "same_outside (cells P a (R * k)) m1 m2"
    and g2: "holds m2 P a R k (\<lambda>r. linear_vec fo n (lv_gate w) (post_norm_vec fo spec w (x r)))"
    unfolding vals by blast
  have n2: "holds m2 P 0 R n (\<lambda>r. post_norm_vec fo spec w (x r))"
    by (rule holds_kept_piece [OF n1 m2(2)]) (simp add: sizes)
  have s2: "same_outside S m m2" "same_outside S1 m0 m2"
    using same_outside_trans [OF s1(1) m2(2), of S] same_outside_trans [OF s1(2) m2(2), of S1] sub
    by (auto simp: S1_def)
  from linear_piece [OF p0 pu cov order(2) e(1,2,3) shapes(8) wS(2) [OF mem(8)] s2(2) wS(1) [OF mem(8)] n2, of fo]
  obtain m3 where m3: "linear_f32 fo (make_f32_view (behind P 0) [rs, hs]) (mw_up (lw_mlp weights))
      (make_f32_view (behind P (a + d)) [rs, iz]) m2 = (status_success, m3)"
    "same_outside (cells P (a + d) (R * k)) m2 m3"
    and u3: "holds m3 P (a + d) R k (\<lambda>r. linear_vec fo n (lv_up w) (post_norm_vec fo spec w (x r)))"
    unfolding vals by blast
  have g3: "holds m3 P a R k (\<lambda>r. linear_vec fo n (lv_gate w) (post_norm_vec fo spec w (x r)))"
    by (rule holds_kept_piece [OF g2 m3(2)]) (simp add: sizes)
  have s3: "same_outside S m m3" "same_outside S1 m0 m3"
    using same_outside_trans [OF s2(1) m3(2), of S] same_outside_trans [OF s2(2) m3(2), of S1] sub
    by (auto simp: S1_def)
  text \<open>The gated product and the way down.\<close>
  have fits: "fits_behind P cap" using cov by (simp add: covers_def)
  have le: "a \<le> cap" "a + d \<le> cap" "0 \<le> cap" using room by simp_all
  have apart: "a + R * k \<le> a + d \<or> a + d + R * k \<le> a" by (simp add: sizes)
  define m4 where "m4 = gate_in_place fo (behind P a) (behind P (a + d)) (R * k) m3"
  note gate = gate_in_place_step [OF g3 u3 apart fits le(1,2), of fo, folded m4_def]
  have s4: "same_outside S m m4" "same_outside S1 m0 m4"
    using same_outside_trans [OF s3(1) gate(1), of S] same_outside_trans [OF s3(2) gate(1), of S1] sub
    by (auto simp: S1_def)
  from linear_piece [OF pg p0 cov order(3) e(1,3,2) shapes(9) wS(2) [OF mem(9)] s4(2) wS(1) [OF mem(9)] gate(2), of fo]
  obtain m5 where m5: "linear_f32 fo (make_f32_view (behind P a) [rs, iz]) (mw_down (lw_mlp weights))
      (make_f32_view (behind P 0) [rs, hs]) m4 = (status_success, m5)"
    "same_outside (cells P 0 (R * n)) m4 m5"
    and o5: "holds m5 P 0 R n (\<lambda>r. linear_vec fo k (lv_down w)
      (\<lambda>i. gated fo (linear_vec fo n (lv_gate w) (post_norm_vec fo spec w (x r)) i)
        (linear_vec fo n (lv_up w) (post_norm_vec fo spec w (x r)) i)))"
    unfolding vals by blast
  have s5: "same_outside S m m5" using same_outside_trans [OF s4(1) m5(2)] sub by blast
  text \<open>The residual.\<close>
  have hidden: "cells (tv_data hidden) 0 (R * n) = cells_of hidden" by (simp only: hv(2))
  have x5: "holds m5 (tv_data hidden) 0 R n x"
    by (rule holds_kept [OF x s5]) (simp only: hidden cells(1))
  have hP: "cells (tv_data hidden) 0 (R * n) \<inter> cells P 0 (R * n) = {}"
    using cells(1) sub(1) unfolding hidden by blast
  define m6 where "m6 = add_in_place fo (tv_data hidden) (behind P 0) (R * n) m5"
  note add = add_in_place_step [OF x5 o5 hP fits le(3), of fo, folded m6_def]
  have h6: "holds m6 (tv_data hidden) 0 R n (\<lambda>r. mlp_vec fo spec w (x r))"
    using add(2) unfolding mlp_vec_def n_def k_def .
  define m7 where "m7 = trace_copy dt_after_mlp trace (tv_data hidden) (R * n) m6"
  note tr = trace_copy_step [OF h6 hv(2) parts(28), of dt_after_mlp, simplified, folded m7_def]
  have h7: "holds m7 (tv_data hidden) 0 R n (\<lambda>r. mlp_vec fo spec w (x r))"
    by (rule holds_kept [OF h6 tr(1)])
      (use trace_cells_disjoint(1) [OF parts(28), of dt_after_mlp] in \<open>auto simp: hidden\<close>)
  have s6: "same_outside (cells_of hidden \<union> S) m m6"
    by (rule same_outside_trans [OF s5 add(1)]) (auto simp: hidden)
  have s7: "same_outside (cells_of hidden \<union> S \<union> trace_cells dt_after_mlp trace) m m7"
    by (rule same_outside_trans [OF s6 tr(1)]) auto
  have size: "unat (rs * hs) = R * n" "unat (rs * iz) = R * k"
    using layer_products(2,5) [OF acc] sizes by (simp_all add: rs_def hs_iz_def R_def sz)
  have spans: "take_spans workspace 0 [R * n, R * k, R * k] =
      Some [(behind P 0, R * n), (behind P a, R * k), (behind P (a + d), R * k)]"
    unfolding sizes using mlp_spans(1) [OF acc] by (simp only: ws sz R_def)
  have "run = Some (status_success, m7)"
    unfolding run_def mlp_phase_def Let_def rs_def [symmetric] hs_iz_def [symmetric]
    unfolding size spans option.case list.case prod.case m1(1) m2(1) m3(1) and_then_simps(1)
      m4_def [symmetric] m5(1) m6_def [symmetric] m7_def [symmetric] ..
  then show ?thesis using s7 h7 tr(2) by blast
qed

section \<open>The layer\<close>

definition layer_output ::
  "float_ops \<Rightarrow> decoder_layer_spec \<Rightarrow> layer_weights \<Rightarrow> tensor_view \<Rightarrow> cpu_kv_view \<Rightarrow> u32 list \<Rightarrow> u32 list \<Rightarrow>
     memory \<Rightarrow> nat \<Rightarrow> vec" where
  "layer_output fo spec weights hidden cache positions context_lengths m r =
     mlp_vec fo spec (layer_values_of m weights)
       (attended_rows fo spec weights hidden cache positions context_lengths m r)"

text \<open>What a successful call leaves behind.\<close>

definition layer_done ::
  "float_ops \<Rightarrow> decoder_layer_spec \<Rightarrow> layer_weights \<Rightarrow> tensor_view \<Rightarrow> cpu_kv_view \<Rightarrow> u32 list \<Rightarrow> u32 list \<Rightarrow>
     decoder_layer_trace option \<Rightarrow> memory \<Rightarrow> memory \<Rightarrow> bool" where
  "layer_done fo spec weights hidden cache positions context_lengths trace m m' \<longleftrightarrow>
     (let R = layer_rows hidden; n = unat (dl_hidden_size spec); B = unat (extent hidden 0);
          C = unat (extent (kv_key cache) 1); kd = unat (dl_kv_heads spec) * unat (dl_head_dim spec)
      in holds m' (tv_data hidden) 0 R n
           (layer_output fo spec weights hidden cache positions context_lengths m) \<and>
         cache_holds m' (kv_key cache) B C kd
           (call_keys fo spec weights hidden cache positions context_lengths m) \<and>
         cache_holds m' (kv_value cache) B C kd
           (call_values fo spec weights hidden cache context_lengths m) \<and>
         trace_holds m' dt_after_attention trace R n
           (attended_rows fo spec weights hidden cache positions context_lengths m) \<and>
         trace_holds m' dt_after_mlp trace R n
           (layer_output fo spec weights hidden cache positions context_lengths m))"

lemma weights_unwritten:
  assumes acc: "layer_accepts weights spec hidden cache positions context_lengths workspace trace"
    and v: "v \<in> set (layer_views weights)"
  shows "cells_of v \<inter> (layer_cells hidden cache workspace \<union> trace_cells dt_after_attention trace) = {}"
proof -
  have "trace_cells dt_after_attention trace \<inter> cells_of v = {}"
    by (rule trace_cells_disjoint(2) [OF layer_accepts_parts(28) [OF acc]]) (use v in simp_all)
  then show ?thesis using weight_apart [OF acc v] unfolding layer_cells_def by blast
qed

lemma layer_run:
  fixes fo :: float_ops and m :: memory
  assumes acc: "layer_accepts weights spec hidden cache positions context_lengths workspace trace"
    and typed: "layer_typed weights hidden cache positions context_lengths trace"
    and even: "even (unat (dl_head_dim spec))"
  shows "\<exists>m'. smollm2_decoder_layer_f32 fo weights spec hidden cache positions context_lengths workspace trace m =
      Some (status_success, m') \<and> same_outside (all_cells hidden cache workspace trace) m m' \<and>
    layer_done fo spec weights hidden cache positions context_lengths trace m m'"
proof -
  note parts = layer_accepts_parts [OF acc]
  let ?S = "cells (hb_data (ws_storage workspace)) 0 (unat (ws_capacity workspace))"
  have p: "length positions < 2 ^ 64" using typed by (simp add: layer_typed_def)
  have valid: "validate_layer weights spec hidden cache positions context_lengths workspace trace =
      Inr (extent hidden 0, extent hidden 1, extent (kv_key cache) 1)"
    using validate_layer_cases [OF typed, of spec workspace] acc by simp
  from attention_phase_reference [OF acc p, of fo m] even
  obtain m1 where m1: "attention_phase fo weights spec hidden cache positions context_lengths workspace trace
      (extent hidden 0) (extent hidden 1) (extent (kv_key cache) 1) m = Some (status_success, m1)"
    "same_outside (layer_cells hidden cache workspace \<union> trace_cells dt_after_attention trace) m m1"
    and h1: "holds m1 (tv_data hidden) 0 (layer_rows hidden) (unat (dl_hidden_size spec))
      (attended_rows fo spec weights hidden cache positions context_lengths m)"
    and c1: "cache_holds m1 (kv_key cache) (unat (extent hidden 0)) (unat (extent (kv_key cache) 1))
        (unat (dl_kv_heads spec) * unat (dl_head_dim spec))
        (call_keys fo spec weights hidden cache positions context_lengths m)"
      "cache_holds m1 (kv_value cache) (unat (extent hidden 0)) (unat (extent (kv_key cache) 1))
        (unat (dl_kv_heads spec) * unat (dl_head_dim spec))
        (call_values fo spec weights hidden cache context_lengths m)"
    and t1: "trace_holds m1 dt_after_attention trace (layer_rows hidden) (unat (dl_hidden_size spec))
      (attended_rows fo spec weights hidden cache positions context_lengths m)"
    by auto
  obtain m2 where m2: "mlp_phase fo weights spec hidden workspace trace (extent hidden 0) (extent hidden 1) m1 =
      Some (status_success, m2)"
    "same_outside (cells_of hidden \<union> ?S \<union> trace_cells dt_after_mlp trace) m1 m2"
    and h2: "holds m2 (tv_data hidden) 0 (layer_rows hidden) (unat (dl_hidden_size spec))
      (layer_output fo spec weights hidden cache positions context_lengths m)"
    and t2: "trace_holds m2 dt_after_mlp trace (layer_rows hidden) (unat (dl_hidden_size spec))
      (layer_output fo spec weights hidden cache positions context_lengths m)"
    using mlp_phase_reference [OF acc m1(2) _ h1, of fo] weights_unwritten [OF acc]
    unfolding layer_output_def by blast
  let ?U = "cells_of hidden \<union> ?S \<union> trace_cells dt_after_mlp trace"
  note cells = workspace_cells_apart [OF acc]
  have tc: "trace_cells dt_after_mlp trace \<inter> cells_of (kv_key cache) = {}"
    "trace_cells dt_after_mlp trace \<inter> cells_of (kv_value cache) = {}"
    by (rule trace_cells_disjoint(2) [OF parts(28)], simp, simp)+
  have U: "cells_of (kv_key cache) \<inter> ?U = {}" "cells_of (kv_value cache) \<inter> ?U = {}"
    using cells(2-5) tc by blast+
  have "trace_holds m2 dt_after_attention trace (layer_rows hidden) (unat (dl_hidden_size spec))
      (attended_rows fo spec weights hidden cache positions context_lengths m)"
  proof (cases trace)
    case None
    then show ?thesis by (simp add: trace_holds_def)
  next
    case (Some tr)
    have "tv_shape (dt_after_attention tr) = tv_shape hidden"
      "disjoint_views (dt_after_attention tr) (dt_after_mlp tr)"
      using parts(28) Some by (simp_all add: trace_accepts_def)
    then have numel: "numel (dt_after_attention tr) = layer_rows hidden * unat (dl_hidden_size spec)"
      and apart: "cells_of (dt_after_attention tr) \<inter> cells_of (dt_after_mlp tr) = {}"
      using hidden_view(2) [OF acc] by (simp add: numel_def, intro disjoint_viewsD(5))
    have "cells_of (dt_after_attention tr) \<inter> ?U = {}"
      using apart trace_cells_disjoint(1) [OF parts(28), of dt_after_attention]
        cells(6) [of dt_after_attention] by (simp add: trace_cells_def Some) blast
    then have "holds m2 (tv_data (dt_after_attention tr)) 0 (layer_rows hidden) (unat (dl_hidden_size spec))
        (attended_rows fo spec weights hidden cache positions context_lengths m)"
      using t1 Some by (intro holds_kept [OF _ m2(2)]) (simp_all add: trace_holds_def numel)
    then show ?thesis by (simp add: trace_holds_def Some)
  qed
  moreover note cache_holds_kept [OF acc c1(1) m2(2) U(1) disjI1 [OF refl]]
    cache_holds_kept [OF acc c1(2) m2(2) U(2) disjI2 [OF refl]]
  ultimately have "layer_done fo spec weights hidden cache positions context_lengths trace m m2"
    using h2 t2 by (simp add: layer_done_def)
  moreover have "same_outside (all_cells hidden cache workspace trace) m m2"
    by (rule same_outside_trans [OF m1(2) m2(2)]) (auto simp: all_cells_def layer_cells_def)
  moreover have "smollm2_decoder_layer_f32 fo weights spec hidden cache positions context_lengths workspace
      trace m = Some (status_success, m2)"
    unfolding smollm2_decoder_layer_f32_def valid sum.case prod.case m1(1) and_then_simps(1) m2(1) ..
  ultimately show ?thesis by blast
qed

text \<open>
  (C4) The decoder layer is exact: for operands of any extents it never reaches beyond the
  workspace. When its checks fail it returns the failure and writes nothing. When they pass
  and the head dimension is even it succeeds: every hidden row becomes attention over the keys
  and values of its batch up to its position followed by the gated map, the cache gains the
  keys and values of the new rows, the traces hold the two intermediate results, and nothing
  but hidden rows, cache, workspace and traces is written. For an odd head dimension, which
  the checks do not look at, it fails after it has used its workspace, and nothing else.
\<close>

theorem decoder_layer_exact:
  assumes "layer_typed weights hidden cache positions context_lengths trace"
  shows "case smollm2_decoder_layer_f32 fo weights spec hidden cache positions context_lengths workspace
      trace m of
      None \<Rightarrow> False
    | Some (s, m') \<Rightarrow>
        if layer_accepts weights spec hidden cache positions context_lengths workspace trace
        then if even (unat (dl_head_dim spec))
             then s = status_success \<and> same_outside (all_cells hidden cache workspace trace) m m' \<and>
               layer_done fo spec weights hidden cache positions context_lengths trace m m'
             else \<not> status_ok s \<and>
               same_outside (cells (hb_data (ws_storage workspace)) 0 (unat (ws_capacity workspace))) m m'
        else \<not> status_ok s \<and> m' = m"
proof (cases "layer_accepts weights spec hidden cache positions context_lengths workspace trace")
  case False
  then show ?thesis
    using validate_layer_cases [OF assms, of spec workspace]
    by (auto simp: smollm2_decoder_layer_f32_def)
next
  case acc: True
  show ?thesis
  proof (cases "even (unat (dl_head_dim spec))")
    case True
    then show ?thesis using layer_run [OF acc assms, of fo m] acc by auto
  next
    case False
    have valid: "validate_layer weights spec hidden cache positions context_lengths workspace trace =
        Inr (extent hidden 0, extent hidden 1, extent (kv_key cache) 1)"
      using validate_layer_cases [OF assms, of spec workspace] acc by simp
    have "length positions < 2 ^ 64" using assms by (simp add: layer_typed_def)
    from attention_phase_reference [OF acc this, of fo m] False
    show ?thesis by (auto simp: smollm2_decoder_layer_f32_def valid acc)
  qed
qed

end
