(* ===== verification/CpuModel.thy ===== *)
theory CpuModel
  imports CpuLayerProps
begin

text \<open>
  The model over a whole history of tokens, without a cache: every layer maps the hidden
  vectors of all positions to new ones. The vector of a position depends only on the positions
  up to it, and only on the elements of vectors and weights within their extents.
\<close>

section \<open>Definition\<close>

definition layer_step ::
  "float_ops \<Rightarrow> decoder_layer_spec \<Rightarrow> layer_values \<Rightarrow> (nat \<Rightarrow> vec) \<Rightarrow> nat \<Rightarrow> vec" where
  "layer_step fo spec w x p =
     layer_vec fo spec w (\<lambda>k. key_vec fo spec w (of_nat k) (x k)) (\<lambda>k. value_vec fo spec w (x k))
       (of_nat p) (x p)"

text \<open>The hidden vectors after some layers.\<close>

definition hidden_after ::
  "float_ops \<Rightarrow> decoder_layer_spec \<Rightarrow> layer_values list \<Rightarrow> (nat \<Rightarrow> vec) \<Rightarrow> nat \<Rightarrow> vec" where
  "hidden_after fo spec ws x = fold (layer_step fo spec) ws x"

section \<open>Agreement\<close>

definition agree :: "nat \<Rightarrow> vec \<Rightarrow> vec \<Rightarrow> bool" where
  "agree n x y \<longleftrightarrow> (\<forall>i < n. x i = y i)"

lemma agreeD: "agree n x y \<Longrightarrow> i < n \<Longrightarrow> x i = y i"
  by (simp add: agree_def)

lemma agree_refl [simp]: "agree n x x"
  by (simp add: agree_def)

lemma agree_sym: "agree n x y \<Longrightarrow> agree n y x"
  by (simp add: agree_def)

lemma agree_trans: "agree n x y \<Longrightarrow> agree n y z \<Longrightarrow> agree n x z"
  by (simp add: agree_def)

definition values_agree :: "decoder_layer_spec \<Rightarrow> layer_values \<Rightarrow> layer_values \<Rightarrow> bool" where
  "values_agree spec w w' \<longleftrightarrow>
     (let n = unat (dl_hidden_size spec); kd = unat (dl_kv_heads spec) * unat (dl_head_dim spec);
          k = unat (dl_intermediate_size spec)
      in agree n (lv_input_norm w) (lv_input_norm w') \<and> agree (n * n) (lv_query w) (lv_query w') \<and>
         agree (kd * n) (lv_key w) (lv_key w') \<and> agree (kd * n) (lv_value w) (lv_value w') \<and>
         agree (n * n) (lv_output w) (lv_output w') \<and> agree n (lv_post_norm w) (lv_post_norm w') \<and>
         agree (k * n) (lv_gate w) (lv_gate w') \<and> agree (k * n) (lv_up w) (lv_up w') \<and>
         agree (n * k) (lv_down w) (lv_down w'))"

lemma linear_agree:
  assumes "agree width x x'" "agree (n * width) w w'"
  shows "agree n (linear_vec fo width w x) (linear_vec fo width w' x')"
proof -
  have "linear_vec fo width w x j = linear_vec fo width w' x' j" if "j < n" for j
    using assms row_bound [OF that] by (intro linear_vec_cong) (simp_all add: agree_def)
  then show ?thesis by (simp add: agree_def)
qed

lemma normalized_agree:
  assumes "agree (unat hidden) x x'" "agree (unat hidden) w w'"
  shows "agree (unat hidden) (normalized_vec fo epsilon hidden w x) (normalized_vec fo epsilon hidden w' x')"
  using assms normalized_vec_cong [of hidden x x' w _ w'] by (simp add: agree_def)

section \<open>One layer\<close>

lemma layer_vectors_agree:
  assumes w: "values_agree spec w w'" and x: "agree (unat (dl_hidden_size spec)) x x'"
    and ok: "layer_spec_ok spec" "even (unat (dl_head_dim spec))"
  shows "agree (unat (dl_hidden_size spec)) (query_vec fo spec w position x) (query_vec fo spec w' position x')"
    "agree (unat (dl_kv_heads spec) * unat (dl_head_dim spec))
       (key_vec fo spec w position x) (key_vec fo spec w' position x')"
    "agree (unat (dl_kv_heads spec) * unat (dl_head_dim spec)) (value_vec fo spec w x) (value_vec fo spec w' x')"
    "agree (unat (dl_hidden_size spec)) (mlp_vec fo spec w x) (mlp_vec fo spec w' x')"
proof -
  let ?n = "unat (dl_hidden_size spec)" and ?d = "unat (dl_head_dim spec)"
  let ?kd = "unat (dl_kv_heads spec) * ?d"
  note w' = w [unfolded values_agree_def Let_def]
  note width = spec_nonzero(7) [OF ok(1)]
  have rope: "agree (h * ?d) (rope_vec fo theta (ucast (dl_head_dim spec)) position y)
      (rope_vec fo theta (ucast (dl_head_dim spec)) position y')" if "agree (h * ?d) y y'" for h theta y y'
    using that ok(2) rope_vec_cong [of "ucast (dl_head_dim spec)" h y y'] by (simp add: agree_def)
  have pre: "agree ?n (pre_norm fo spec w x) (pre_norm fo spec w' x')"
    using normalized_agree [of "ucast (dl_hidden_size spec)" x x'] x w' by (simp add: pre_norm_def)
  have post: "agree ?n (post_norm_vec fo spec w x) (post_norm_vec fo spec w' x')"
    using normalized_agree [of "ucast (dl_hidden_size spec)" x x'] x w' by (simp add: post_norm_vec_def)
  have "agree (unat (dl_query_heads spec) * ?d) (linear_vec fo ?n (lv_query w) (pre_norm fo spec w x))
      (linear_vec fo ?n (lv_query w') (pre_norm fo spec w' x'))"
    unfolding width using linear_agree [OF pre] w' by blast
  from rope [OF this] show "agree ?n (query_vec fo spec w position x) (query_vec fo spec w' position x')"
    unfolding width by (simp add: query_vec_def)
  show "agree ?kd (key_vec fo spec w position x) (key_vec fo spec w' position x')"
    unfolding key_vec_def using linear_agree [OF pre] w' by (intro rope) blast
  show "agree ?kd (value_vec fo spec w x) (value_vec fo spec w' x')"
    unfolding value_vec_def using linear_agree [OF pre] w' by blast
  have gate: "agree (unat (dl_intermediate_size spec))
      (\<lambda>j. gated fo (linear_vec fo ?n (lv_gate w) (post_norm_vec fo spec w x) j)
        (linear_vec fo ?n (lv_up w) (post_norm_vec fo spec w x) j))
      (\<lambda>j. gated fo (linear_vec fo ?n (lv_gate w') (post_norm_vec fo spec w' x') j)
        (linear_vec fo ?n (lv_up w') (post_norm_vec fo spec w' x') j))"
    using linear_agree [OF post, of "unat (dl_intermediate_size spec)" "lv_gate w" "lv_gate w'" fo]
      linear_agree [OF post, of "unat (dl_intermediate_size spec)" "lv_up w" "lv_up w'" fo] w'
    by (simp add: agree_def)
  show "agree ?n (mlp_vec fo spec w x) (mlp_vec fo spec w' x')"
    using linear_agree [OF gate, of ?n "lv_down w" "lv_down w'" fo] w' x by (simp add: mlp_vec_def agree_def)
qed

lemma attended_agree:
  assumes w: "values_agree spec w w'" and x: "agree (unat (dl_hidden_size spec)) x x'"
    and ok: "layer_spec_ok spec" "even (unat (dl_head_dim spec))"
    and past: "\<And>k. k \<le> unat position \<Longrightarrow>
        agree (unat (dl_kv_heads spec) * unat (dl_head_dim spec)) (keys k) (keys' k)"
      "\<And>k. k \<le> unat position \<Longrightarrow>
        agree (unat (dl_kv_heads spec) * unat (dl_head_dim spec)) (vals k) (vals' k)"
  shows "agree (unat (dl_hidden_size spec)) (attended_vec fo spec w keys vals position x)
    (attended_vec fo spec w' keys' vals' position x')"
proof -
  let ?n = "unat (dl_hidden_size spec)" and ?d = "unat (dl_head_dim spec)"
  let ?groups = "unat (dl_query_heads spec) div unat (dl_kv_heads spec)"
  note width = spec_nonzero(7) [OF ok(1)]
  have "agree (unat (dl_query_heads spec) * ?d)
      (attention_vec fo (ucast (dl_head_dim spec)) ?groups keys vals (unat position + 1) (query_vec fo spec w position x))
      (attention_vec fo (ucast (dl_head_dim spec)) ?groups keys' vals' (unat position + 1) (query_vec fo spec w' position x'))"
    unfolding agree_def
  proof (intro allI impI attention_vec_cong)
    fix i assume "i < unat (dl_query_heads spec) * unat (ucast (dl_head_dim spec) :: u64)"
    then show "query_vec fo spec w position x i = query_vec fo spec w' position x' i"
      using layer_vectors_agree(1) [OF w x ok] by (simp add: agree_def width)
  next
    fix h assume "h < unat (dl_query_heads spec)"
    from kv_head_bound [OF spec_nonzero(6) [OF ok(1)] this]
    show "h div ?groups * unat (ucast (dl_head_dim spec) :: u64) + unat (ucast (dl_head_dim spec) :: u64) \<le>
        unat (dl_kv_heads spec) * ?d" by (simp add: rows_le)
  qed (use past in \<open>simp_all add: agree_def\<close>)
  then have "agree ?n (linear_vec fo ?n (lv_output w)
        (attention_vec fo (ucast (dl_head_dim spec)) ?groups keys vals (unat position + 1) (query_vec fo spec w position x)))
      (linear_vec fo ?n (lv_output w')
        (attention_vec fo (ucast (dl_head_dim spec)) ?groups keys' vals' (unat position + 1) (query_vec fo spec w' position x')))"
    using w unfolding width by (intro linear_agree) (simp_all add: values_agree_def Let_def)
  then show ?thesis using x by (simp add: attended_vec_def agree_def)
qed

text \<open>A position sees the positions up to it only.\<close>

lemma layer_step_agree:
  assumes w: "values_agree spec w w'" and ok: "layer_spec_ok spec" "even (unat (dl_head_dim spec))"
    and x: "\<And>k. k \<le> p \<Longrightarrow> agree (unat (dl_hidden_size spec)) (x k) (x' k)" and p: "p < 2 ^ 32"
  shows "agree (unat (dl_hidden_size spec)) (layer_step fo spec w x p) (layer_step fo spec w' x' p)"
proof -
  have n: "unat (of_nat p :: u32) = p" using p by (simp add: unat_of_nat)
  have "agree (unat (dl_hidden_size spec))
      (attended_vec fo spec w (\<lambda>k. key_vec fo spec w (of_nat k) (x k)) (\<lambda>k. value_vec fo spec w (x k)) (of_nat p) (x p))
      (attended_vec fo spec w' (\<lambda>k. key_vec fo spec w' (of_nat k) (x' k)) (\<lambda>k. value_vec fo spec w' (x' k)) (of_nat p) (x' p))"
    by (rule attended_agree [OF w x ok]) (simp_all add: n x layer_vectors_agree(2,3) [OF w _ ok])
  then show ?thesis
    unfolding layer_step_def layer_vec_def by (rule layer_vectors_agree(4) [OF w _ ok])
qed

lemma hidden_after_agree:
  assumes "list_all2 (values_agree spec) ws ws'" "layer_spec_ok spec" "even (unat (dl_head_dim spec))"
    "\<And>k. k \<le> p \<Longrightarrow> agree (unat (dl_hidden_size spec)) (x k) (x' k)" "p < 2 ^ 32"
  shows "agree (unat (dl_hidden_size spec)) (hidden_after fo spec ws x p) (hidden_after fo spec ws' x' p)"
  using assms(1,4)
proof (induction ws ws' arbitrary: x x' rule: list_all2_induct)
  case Nil
  then show ?case by (simp add: hidden_after_def)
next
  case (Cons w ws w' ws')
  have "agree (unat (dl_hidden_size spec)) (layer_step fo spec w x k) (layer_step fo spec w' x' k)" if "k \<le> p" for k
    using that Cons.prems assms(5) by (intro layer_step_agree [OF Cons.hyps(1) assms(2,3)]) simp_all
  from Cons.IH [OF this] show ?case by (simp add: hidden_after_def)
qed

lemma hidden_after_snoc:
  "hidden_after fo spec (ws @ [w]) x = layer_step fo spec w (hidden_after fo spec ws x)"
  by (simp add: hidden_after_def)

end
