(* ===== verification/CpuSmolLm2.thy ===== *)
theory CpuSmolLm2
  imports CpuDecoder CpuWeights
begin

text \<open>
  The engine of \<open>cpu/smollm2.cpp\<close>: what it owns, its loading, and the operations that run
  tokens through the layers and choose the next token greedily. The bytes of its buffers
  are in the memory. None is a span cut beyond its end.
\<close>

section \<open>Data\<close>

record greedy_token =
  gt_token_id :: u32
  gt_logit :: f32
  gt_runner_up_logit :: f32

record cpu_smollm2_memory =
  cm_fp32_weight_bytes :: u64
  cm_kv_bytes :: u64
  cm_execution_bytes :: u64
  cm_workspace_bytes :: u64
  cm_position_bytes :: u64
  cm_layer_view_bytes :: u64
  cm_total_owned_bytes :: u64

record cpu_smollm2 =
  cs_spec :: model_spec
  cs_fp32_weights :: host_buffer
  cs_embedding :: tensor_view
  cs_final_norm :: tensor_view
  cs_output_head :: tensor_view
  cs_layers :: "layer_weights list"
  cs_kv :: host_buffer
  cs_execution :: host_buffer
  cs_workspace :: cpu_workspace
  cs_positions :: "u32 list"
  cs_maximum_context :: u32
  cs_maximum_prefill_tokens :: u32
  cs_context_length :: u32
  cs_memory :: cpu_smollm2_memory

section \<open>Loading\<close>

fun sum_loop :: "u64 \<Rightarrow> u64 list \<Rightarrow> u64 result" where
  "sum_loop total_value [] = Inr total_value"
| "sum_loop total_value (value # values) =
     (case checked_add total_value value of Inl e \<Rightarrow> Inl e | Inr next_value \<Rightarrow> sum_loop next_value values)"

definition checked_sum :: "u64 list \<Rightarrow> u64 result" where
  "checked_sum values = sum_loop 0 values"

fun multiply_loop :: "u64 \<Rightarrow> u64 list \<Rightarrow> u64 result" where
  "multiply_loop value [] = Inr value"
| "multiply_loop value (factor # factors) =
     (case checked_multiply value factor of Inl e \<Rightarrow> Inl e | Inr v \<Rightarrow> multiply_loop v factors)"

definition multiply :: "u64 list \<Rightarrow> u64 result" where
  "multiply factors = multiply_loop 1 factors"

definition layer_spec_of :: "model_spec \<Rightarrow> decoder_layer_spec" where
  "layer_spec_of spec =
     \<lparr>dl_hidden_size = ms_hidden_size spec, dl_intermediate_size = ms_intermediate_size spec,
      dl_query_heads = ms_query_heads spec, dl_kv_heads = ms_kv_heads spec,
      dl_head_dim = ms_head_dim spec, dl_rms_norm_epsilon = ms_rms_norm_epsilon spec,
      dl_rope = \<lparr>rs_theta = ms_rope_theta spec, rs_max_positions = ms_max_positions spec\<rparr>\<rparr>"

text \<open>The sizes of the buffers: cache, execution and workspace in bytes, workspace in floats.\<close>

record buffer_plan =
  bp_kv_bytes :: u64
  bp_execution_bytes :: u64
  bp_workspace_bytes :: u64
  bp_workspace_floats :: u64

definition plan_buffers :: "model_spec \<Rightarrow> u32 \<Rightarrow> u32 \<Rightarrow> buffer_plan result" where
  "plan_buffers spec maximum_context maximum_prefill_tokens =
     (let kv_bytes =
            (case multiply [2, ucast (ms_layers spec), ucast maximum_context,
                    ucast (ms_kv_heads spec), ucast (ms_head_dim spec)] of
               Inl e \<Rightarrow> Inl e
             | Inr kv_floats \<Rightarrow> checked_multiply kv_floats 4);
          execution_bytes =
            (case checked_multiply (ucast maximum_prefill_tokens) (ucast (ms_hidden_size spec)) of
               Inl e \<Rightarrow> Inl e
             | Inr hidden_floats \<Rightarrow>
            (case checked_sum [hidden_floats, ucast (ms_hidden_size spec),
                    ucast (ms_vocabulary_size spec)] of
               Inl e \<Rightarrow> Inl e
             | Inr execution_floats \<Rightarrow> checked_multiply execution_floats 4));
          required_workspace =
            required_decoder_layer_workspace_floats (layer_spec_of spec) 1
              (ucast maximum_prefill_tokens) (ucast maximum_context);
          workspace_bytes =
            (case required_workspace of
               Inl e \<Rightarrow> Inl e
             | Inr required \<Rightarrow> checked_multiply required 4)
      in (case (kv_bytes, execution_bytes, required_workspace, workspace_bytes) of
            (Inr kv, Inr execution, Inr floats, Inr workspace) \<Rightarrow>
              Inr \<lparr>bp_kv_bytes = kv, bp_execution_bytes = execution,
                   bp_workspace_bytes = workspace, bp_workspace_floats = floats\<rparr>
          | _ \<Rightarrow> fail Arithmetic_overflow))"

text \<open>The arguments of the load that the source does not determine: the outcome of opening the
  checkpoint, the addresses \<open>operator new\<close> returns, the capacities of the two vectors, and
  \<open>sizeof (LayerWeights)\<close>.\<close>

record load_environment =
  le_checkpoint :: "mapped_file result"
  le_weights_block :: u64
  le_kv_block :: u64
  le_execution_block :: u64
  le_workspace_block :: u64
  le_positions_capacity :: u64
  le_layers_capacity :: u64
  le_layer_bytes :: u64

definition owned_memory ::
  "load_environment \<Rightarrow> u64 \<Rightarrow> buffer_plan \<Rightarrow> cpu_smollm2_memory result" where
  "owned_memory env weight_bytes plan =
     (case (checked_multiply (le_positions_capacity env) 4,
            checked_multiply (le_layers_capacity env) (le_layer_bytes env)) of
        (Inr position_bytes, Inr layer_view_bytes) \<Rightarrow>
          (case checked_sum [weight_bytes, bp_kv_bytes plan, bp_execution_bytes plan,
                  bp_workspace_bytes plan, position_bytes, layer_view_bytes] of
             Inl e \<Rightarrow> Inl e
           | Inr total_owned \<Rightarrow>
               Inr \<lparr>cm_fp32_weight_bytes = weight_bytes, cm_kv_bytes = bp_kv_bytes plan,
                 cm_execution_bytes = bp_execution_bytes plan,
                 cm_workspace_bytes = bp_workspace_bytes plan, cm_position_bytes = position_bytes,
                 cm_layer_view_bytes = layer_view_bytes, cm_total_owned_bytes = total_owned\<rparr>)
      | _ \<Rightarrow> fail Arithmetic_overflow)"

definition store_floats :: "u64 \<Rightarrow> f32 list \<Rightarrow> memory \<Rightarrow> memory" where
  "store_floats p values m = fold (\<lambda>i. wr p i (values ! i)) [0..<length values] m"

text \<open>\<open>std::memset\<close> of a buffer to zero.\<close>

definition zero_buffer :: "host_buffer \<Rightarrow> memory \<Rightarrow> memory" where
  "zero_buffer b m = fold (\<lambda>i. wr (hb_data b) i f32_zero) [0..<unat (hb_size b) div 4] m"

text \<open>
  Where the load fails the buffers it filled are given back, so their content is not kept.
\<close>

definition cpu_smollm2_load ::
  "load_environment \<Rightarrow> u32 \<Rightarrow> u32 \<Rightarrow> memory \<Rightarrow> (cpu_smollm2 result \<times> memory) option" where
  "cpu_smollm2_load env maximum_context maximum_prefill_tokens m =
     (let spec = mp_spec smollm2_135m_profile
      in if maximum_context = 0 \<or> maximum_context > ms_max_positions spec \<or>
            maximum_prefill_tokens = 0 \<or> maximum_prefill_tokens > maximum_context
         then Some (fail Invalid_argument, m)
         else
        (case open_and_bind (le_checkpoint env) spec of
           None \<Rightarrow> None
         | Some (Inl e) \<Rightarrow> Some (Inl e, m)
         | Some (Inr mapped) \<Rightarrow>
        (case materialize_smollm2 (le_weights_block env) mapped spec of
           None \<Rightarrow> None
         | Some (Inl e) \<Rightarrow> Some (Inl e, m)
         | Some (Inr weights) \<Rightarrow>
        (case plan_buffers spec maximum_context maximum_prefill_tokens of
           Inl e \<Rightarrow> Some (Inl e, m)
         | Inr plan \<Rightarrow>
        (case (allocate_aligned (le_kv_block env) (bp_kv_bytes plan),
               allocate_aligned (le_execution_block env) (bp_execution_bytes plan),
               workspace_allocate (le_workspace_block env) (bp_workspace_floats plan)) of
           (Inl e, _, _) \<Rightarrow> Some (Inl e, m)
         | (Inr _, Inl e, _) \<Rightarrow> Some (Inl e, m)
         | (Inr _, Inr _, Inl e) \<Rightarrow> Some (Inl e, m)
         | (Inr kv, Inr execution, Inr workspace) \<Rightarrow>
        (case owned_memory env (hb_size (mt_storage weights)) plan of
           Inl e \<Rightarrow> Some (Inl e, m)
         | Inr owned_bytes \<Rightarrow>
             Some (Inr \<lparr>cs_spec = spec, cs_fp32_weights = mt_storage weights,
               cs_embedding = mt_embedding weights, cs_final_norm = mt_final_norm weights,
               cs_output_head = mt_output_head weights, cs_layers = mt_layers weights,
               cs_kv = kv, cs_execution = execution, cs_workspace = workspace,
               cs_positions = replicate (unat maximum_prefill_tokens) 0,
               cs_maximum_context = maximum_context,
               cs_maximum_prefill_tokens = maximum_prefill_tokens,
               cs_context_length = 0, cs_memory = owned_bytes\<rparr>,
              zero_buffer execution (zero_buffer kv
                (store_floats (hb_data (mt_storage weights)) (mt_values weights) m)))))))))"

section \<open>Running tokens\<close>

definition cpu_smollm2_reset :: "cpu_smollm2 \<Rightarrow> memory \<Rightarrow> status \<times> cpu_smollm2 \<times> memory" where
  "cpu_smollm2_reset e m = (status_success, e\<lparr>cs_context_length := 0\<rparr>, zero_buffer (cs_kv e) m)"

text \<open>Address of the float at \<open>offset\<close> of a buffer.\<close>

definition float_at :: "u64 \<Rightarrow> u64 \<Rightarrow> u64" where
  "float_at p offset = p + 4 * offset"

definition hidden_capacity :: "cpu_smollm2 \<Rightarrow> u64" where
  "hidden_capacity e = ucast (cs_maximum_prefill_tokens e) * ucast (ms_hidden_size (cs_spec e))"

definition cpu_smollm2_logits :: "cpu_smollm2 \<Rightarrow> u64 \<times> u64" where
  "cpu_smollm2_logits e =
     (float_at (hb_data (cs_execution e)) (hidden_capacity e + ucast (ms_hidden_size (cs_spec e))),
      ucast (ms_vocabulary_size (cs_spec e)))"

text \<open>The loop that copies the embeddings of the tokens and sets their positions.\<close>

definition embed_tokens :: "cpu_smollm2 \<Rightarrow> u32 list \<Rightarrow> memory \<Rightarrow> u32 list \<times> memory" where
  "embed_tokens e token_ids m =
     (let hidden_size = unat (ms_hidden_size (cs_spec e))
      in fold (\<lambda>token (positions, m').
           (positions[token := cs_context_length e + of_nat token],
            copy_floats (hb_data (cs_execution e)) (token * hidden_size) (tv_data (cs_embedding e))
              (unat (token_ids ! token) * hidden_size) hidden_size m'))
         [0..<length token_ids] (cs_positions e, m))"

definition layer_cache :: "cpu_smollm2 \<Rightarrow> u64 \<Rightarrow> cpu_kv_view" where
  "layer_cache e layer =
     (let cache_shape = [1, ucast (cs_maximum_context e), ucast (ms_kv_heads (cs_spec e)),
            ucast (ms_head_dim (cs_spec e))];
          cache_floats = ucast (cs_maximum_context e) * ucast (ms_kv_heads (cs_spec e)) *
            ucast (ms_head_dim (cs_spec e));
          layer_offset = layer * 2 * cache_floats;
          kv = hb_data (cs_kv e)
      in \<lparr>kv_key = make_f32_view (float_at kv layer_offset) cache_shape,
          kv_value = make_f32_view (float_at kv (layer_offset + cache_floats)) cache_shape\<rparr>)"

text \<open>The loop over the layers, from the layer with number \<open>layer\<close> on.\<close>

fun run_layers ::
  "float_ops \<Rightarrow> cpu_smollm2 \<Rightarrow> tensor_view \<Rightarrow> u32 list \<Rightarrow> u32 list \<Rightarrow> nat \<Rightarrow> layer_weights list \<Rightarrow>
     memory \<Rightarrow> (status \<times> memory) option" where
  "run_layers fo e hidden_view positions context_lengths layer [] m = Some (status_success, m)"
| "run_layers fo e hidden_view positions context_lengths layer (weights # rest) m =
     (case smollm2_decoder_layer_f32 fo weights (layer_spec_of (cs_spec e)) hidden_view
             (layer_cache e (of_nat layer)) positions context_lengths (cs_workspace e) None m of
        None \<Rightarrow> None
      | Some (s, m') \<Rightarrow>
          if \<not> status_ok s then Some (s, m')
          else run_layers fo e hidden_view positions context_lengths (layer + 1) rest m')"

text \<open>The loop over the logits; \<open>token\<close> is the number of the first of them.\<close>

fun greedy_loop :: "u32 \<Rightarrow> f32 list \<Rightarrow> greedy_token \<Rightarrow> greedy_token result" where
  "greedy_loop token [] g = Inr g"
| "greedy_loop token (value # values) g =
     (if \<not> f32_is_finite value then Inl (status_failure_at Invalid_argument token)
      else if f32_less (gt_logit g) value
      then greedy_loop (token + 1) values
             \<lparr>gt_token_id = token, gt_logit = value, gt_runner_up_logit = gt_logit g\<rparr>
      else if f32_less (gt_runner_up_logit g) value
      then greedy_loop (token + 1) values (g\<lparr>gt_runner_up_logit := value\<rparr>)
      else greedy_loop (token + 1) values g)"

definition greedy_choice :: "f32 list \<Rightarrow> greedy_token result" where
  "greedy_choice values = greedy_loop 0 values
     \<lparr>gt_token_id = 0, gt_logit = f32_minus_infinity, gt_runner_up_logit = f32_minus_infinity\<rparr>"

text \<open>The normalization of the last hidden row and the output head.\<close>

definition output_logits ::
  "float_ops \<Rightarrow> cpu_smollm2 \<Rightarrow> u64 \<Rightarrow> memory \<Rightarrow> status \<times> memory" where
  "output_logits fo e token_count m =
     (let hidden_size = ucast (ms_hidden_size (cs_spec e));
          hidden = hb_data (cs_execution e);
          normalized_last = float_at hidden (hidden_capacity e);
          logits_data = float_at normalized_last hidden_size;
          one_hidden = [1, hidden_size];
          one_vocabulary = [1, ucast (ms_vocabulary_size (cs_spec e))];
          last_hidden = float_at hidden ((token_count - 1) * hidden_size);
          (s, m') = rms_norm_f32 fo (make_f32_view last_hidden one_hidden) (cs_final_norm e)
            (ms_rms_norm_epsilon (cs_spec e)) (make_f32_view normalized_last one_hidden) m
      in if \<not> status_ok s then (s, m')
         else linear_f32 fo (make_f32_view normalized_last one_hidden) (cs_output_head e)
                (make_f32_view logits_data one_vocabulary) m')"

definition cpu_smollm2_forward ::
  "float_ops \<Rightarrow> cpu_smollm2 \<Rightarrow> u32 list \<Rightarrow> memory \<Rightarrow>
     (greedy_token result \<times> cpu_smollm2 \<times> memory) option" where
  "cpu_smollm2_forward fo e token_ids m =
     (if token_ids = [] \<or> length token_ids > unat (cs_maximum_prefill_tokens e) \<or>
         length token_ids > unat (cs_maximum_context e - cs_context_length e)
      then Some (fail Invalid_argument, e, m)
      else
        (case List.find (\<lambda>token. token \<ge> ms_vocabulary_size (cs_spec e)) token_ids of
           Some token \<Rightarrow> Some (Inl (status_failure_at Invalid_argument token), e, m)
         | None \<Rightarrow>
             let token_count = of_nat (length token_ids) :: u64;
                 (positions, m1) = embed_tokens e token_ids m;
                 e1 = e\<lparr>cs_positions := positions\<rparr>;
                 context_lengths = [cs_context_length e + ucast token_count];
                 hidden_view = make_f32_view (hb_data (cs_execution e))
                   [1, token_count, ucast (ms_hidden_size (cs_spec e))]
             in (case run_layers fo e hidden_view (take (length token_ids) positions) context_lengths
                       0 (cs_layers e) m1 of
                   None \<Rightarrow> None
                 | Some (s, m2) \<Rightarrow>
                     if \<not> status_ok s then Some (Inl s, e1, m2)
                     else
                       let (s', m3) = output_logits fo e token_count m2
                       in if \<not> status_ok s' then Some (Inl s', e1, m3)
                          else
                            let (logits_data, vocabulary) = cpu_smollm2_logits e
                            in (case greedy_choice (map (rd m3 logits_data) [0..<unat vocabulary]) of
                                  Inl failed \<Rightarrow> Some (Inl failed, e1, m3)
                                | Inr g \<Rightarrow> Some (Inr g,
                                    e1\<lparr>cs_context_length := cs_context_length e + ucast token_count\<rparr>,
                                    m3)))))"

definition cpu_smollm2_prefill ::
  "float_ops \<Rightarrow> cpu_smollm2 \<Rightarrow> u32 list \<Rightarrow> memory \<Rightarrow>
     (greedy_token result \<times> cpu_smollm2 \<times> memory) option" where
  "cpu_smollm2_prefill fo e token_ids m =
     (if cs_context_length e \<noteq> 0 \<or> token_ids = [] \<or>
         length token_ids > unat (cs_maximum_prefill_tokens e)
      then Some (fail Invalid_argument, e, m)
      else cpu_smollm2_forward fo e token_ids m)"

definition cpu_smollm2_decode ::
  "float_ops \<Rightarrow> cpu_smollm2 \<Rightarrow> u32 \<Rightarrow> memory \<Rightarrow>
     (greedy_token result \<times> cpu_smollm2 \<times> memory) option" where
  "cpu_smollm2_decode fo e token_id m =
     (if cs_context_length e = 0 then Some (fail Invalid_argument, e, m)
      else cpu_smollm2_forward fo e [token_id] m)"

end
