(* ===== verification/CpuEngineLayout.thy ===== *)
theory CpuEngineLayout
  imports CpuModel CpuSmolLm2
begin

text \<open>
  The memory of an engine: its weights, its cache, its execution buffer and its workspace lie
  apart, and all the tensors of a call are pieces of them on which every layer accepts.
\<close>

section \<open>Layout\<close>

abbreviation engine_spec :: "cpu_smollm2 \<Rightarrow> decoder_layer_spec" where
  "engine_spec e \<equiv> layer_spec_of (cs_spec e)"

abbreviation hidden_width :: "cpu_smollm2 \<Rightarrow> nat" where
  "hidden_width e \<equiv> unat (ms_hidden_size (cs_spec e))"

abbreviation kv_width :: "cpu_smollm2 \<Rightarrow> nat" where
  "kv_width e \<equiv> unat (ms_kv_heads (cs_spec e)) * unat (ms_head_dim (cs_spec e))"

abbreviation vocabulary :: "cpu_smollm2 \<Rightarrow> nat" where
  "vocabulary e \<equiv> unat (ms_vocabulary_size (cs_spec e))"

text \<open>The floats of one key or value cache, of all caches, and of the execution buffer.\<close>

definition cache_size :: "cpu_smollm2 \<Rightarrow> nat" where
  "cache_size e = unat (cs_maximum_context e) * kv_width e"

definition caches_size :: "cpu_smollm2 \<Rightarrow> nat" where
  "caches_size e = length (cs_layers e) * 2 * cache_size e"

definition hidden_size :: "cpu_smollm2 \<Rightarrow> nat" where
  "hidden_size e = unat (cs_maximum_prefill_tokens e) * hidden_width e"

definition execution_size :: "cpu_smollm2 \<Rightarrow> nat" where
  "execution_size e = hidden_size e + hidden_width e + vocabulary e"

definition region :: "u64 \<Rightarrow> nat \<Rightarrow> tensor_view" where
  "region p n = make_f32_view p [of_nat n]"

lemma covers_region: "fits_behind p n \<Longrightarrow> covers (region p n) p n"
  by (simp add: covers_def region_def make_f32_view_simps max_rank_def fits_behind_def unat_u64_of_nat)

definition engine_weights :: "cpu_smollm2 \<Rightarrow> tensor_view list" where
  "engine_weights e =
     [cs_embedding e, cs_final_norm e, cs_output_head e] @ concat (map layer_views (cs_layers e))"

definition kv_region :: "cpu_smollm2 \<Rightarrow> tensor_view" where
  "kv_region e = region (hb_data (cs_kv e)) (caches_size e)"

definition execution_region :: "cpu_smollm2 \<Rightarrow> tensor_view" where
  "execution_region e = region (hb_data (cs_execution e)) (execution_size e)"

definition engine_layout :: "cpu_smollm2 \<Rightarrow> bool" where
  "engine_layout e \<longleftrightarrow>
     (let s = cs_spec e; spec = engine_spec e; kv = kv_region e; ex = execution_region e;
          ws = workspace_view (cs_workspace e); n = ucast (ms_hidden_size s); v = ucast (ms_vocabulary_size s)
      in layer_spec_ok spec \<and> even (unat (ms_head_dim s)) \<and> ms_vocabulary_size s \<noteq> 0 \<and>
         cs_maximum_context e \<le> ms_max_positions s \<and> cs_maximum_prefill_tokens e \<noteq> 0 \<and>
         cs_maximum_prefill_tokens e \<le> cs_maximum_context e \<and>
         length (cs_positions e) = unat (cs_maximum_prefill_tokens e) \<and>
         fits_behind (hb_data (cs_kv e)) (caches_size e) \<and>
         fits_behind (hb_data (cs_execution e)) (execution_size e) \<and>
         fits_behind (hb_data (ws_storage (cs_workspace e))) (unat (ws_capacity (cs_workspace e))) \<and>
         layer_workspace spec (unat (cs_maximum_prefill_tokens e)) (unat (cs_maximum_context e)) \<le>
           unat (ws_capacity (cs_workspace e)) \<and>
         disjoint_views kv ex \<and> disjoint_views kv ws \<and> disjoint_views ex ws \<and>
         weight_accepts (cs_embedding e) [v, n] \<and> weight_accepts (cs_final_norm e) [n] \<and>
         weight_accepts (cs_output_head e) [v, n] \<and>
         (\<forall>w \<in> set (cs_layers e). list_all2 weight_accepts (layer_views w) (weight_shapes spec)) \<and>
         (\<forall>w \<in> set (engine_weights e). disjoint_views w kv \<and> disjoint_views w ex \<and> disjoint_views w ws))"

lemma engine_layoutD:
  assumes "engine_layout e"
  shows "layer_spec_ok (engine_spec e)" "even (unat (ms_head_dim (cs_spec e)))"
    "ms_vocabulary_size (cs_spec e) \<noteq> 0" "cs_maximum_context e \<le> ms_max_positions (cs_spec e)"
    "cs_maximum_prefill_tokens e \<noteq> 0" "cs_maximum_prefill_tokens e \<le> cs_maximum_context e"
    "length (cs_positions e) = unat (cs_maximum_prefill_tokens e)"
    "fits_behind (hb_data (cs_kv e)) (caches_size e)"
    "fits_behind (hb_data (cs_execution e)) (execution_size e)"
    "fits_behind (hb_data (ws_storage (cs_workspace e))) (unat (ws_capacity (cs_workspace e)))"
    "layer_workspace (engine_spec e) (unat (cs_maximum_prefill_tokens e)) (unat (cs_maximum_context e)) \<le>
       unat (ws_capacity (cs_workspace e))"
    "disjoint_views (kv_region e) (execution_region e)"
    "disjoint_views (kv_region e) (workspace_view (cs_workspace e))"
    "disjoint_views (execution_region e) (workspace_view (cs_workspace e))"
    "weight_accepts (cs_embedding e) [ucast (ms_vocabulary_size (cs_spec e)), ucast (ms_hidden_size (cs_spec e))]"
    "weight_accepts (cs_final_norm e) [ucast (ms_hidden_size (cs_spec e))]"
    "weight_accepts (cs_output_head e) [ucast (ms_vocabulary_size (cs_spec e)), ucast (ms_hidden_size (cs_spec e))]"
    "w \<in> set (cs_layers e) \<Longrightarrow> list_all2 weight_accepts (layer_views w) (weight_shapes (engine_spec e))"
    "v \<in> set (engine_weights e) \<Longrightarrow> disjoint_views v (kv_region e) \<and> disjoint_views v (execution_region e) \<and>
       disjoint_views v (workspace_view (cs_workspace e))"
  using assms unfolding engine_layout_def Let_def by blast+

section \<open>Pieces of the buffers\<close>

lemma layer_spec_of_simps [simp]:
  "dl_hidden_size (layer_spec_of s) = ms_hidden_size s"
  "dl_intermediate_size (layer_spec_of s) = ms_intermediate_size s"
  "dl_query_heads (layer_spec_of s) = ms_query_heads s"
  "dl_kv_heads (layer_spec_of s) = ms_kv_heads s"
  "dl_head_dim (layer_spec_of s) = ms_head_dim s"
  "dl_rms_norm_epsilon (layer_spec_of s) = ms_rms_norm_epsilon s"
  "rs_theta (dl_rope (layer_spec_of s)) = ms_rope_theta s"
  "rs_max_positions (dl_rope (layer_spec_of s)) = ms_max_positions s"
  by (simp_all add: layer_spec_of_def)

lemma ucast_nonzero: "x \<noteq> 0 \<Longrightarrow> (ucast (x :: u32) :: u64) \<noteq> 0"
  by (metis unat_0 unat_ucast_u32_u64 unat_eq_0)

text \<open>Where the key and the value cache of a layer begin.\<close>

definition key_offset :: "cpu_smollm2 \<Rightarrow> nat \<Rightarrow> nat" where
  "key_offset e l = l * 2 * cache_size e"

definition value_offset :: "cpu_smollm2 \<Rightarrow> nat \<Rightarrow> nat" where
  "value_offset e l = l * 2 * cache_size e + cache_size e"

definition cache_shape :: "cpu_smollm2 \<Rightarrow> u64 list" where
  "cache_shape e = [1, ucast (cs_maximum_context e), ucast (ms_kv_heads (cs_spec e)), ucast (ms_head_dim (cs_spec e))]"

lemma layer_cache_views:
  "kv_key (layer_cache e (of_nat l)) = make_f32_view (behind (hb_data (cs_kv e)) (key_offset e l)) (cache_shape e)"
  "kv_value (layer_cache e (of_nat l)) = make_f32_view (behind (hb_data (cs_kv e)) (value_offset e l)) (cache_shape e)"
proof -
  have floats: "ucast (cs_maximum_context e) * ucast (ms_kv_heads (cs_spec e)) * ucast (ms_head_dim (cs_spec e)) =
      (of_nat (cache_size e) :: u64)" by (simp add: cache_size_def mult.assoc)
  show "kv_key (layer_cache e (of_nat l)) = make_f32_view (behind (hb_data (cs_kv e)) (key_offset e l)) (cache_shape e)"
    "kv_value (layer_cache e (of_nat l)) = make_f32_view (behind (hb_data (cs_kv e)) (value_offset e l)) (cache_shape e)"
    unfolding layer_cache_def Let_def float_at_def behind_def key_offset_def value_offset_def cache_shape_def floats
    by simp_all
qed

lemma cache_offsets:
  assumes "l < length (cs_layers e)"
  shows "key_offset e l + cache_size e \<le> caches_size e" "value_offset e l + cache_size e \<le> caches_size e"
proof -
  have "l * (2 * cache_size e) + 2 * cache_size e \<le> length (cs_layers e) * (2 * cache_size e)"
    using assms by (rule rows_le)
  then show "key_offset e l + cache_size e \<le> caches_size e" "value_offset e l + cache_size e \<le> caches_size e"
    by (simp_all add: key_offset_def value_offset_def caches_size_def mult.assoc)
qed

text \<open>Two caches are the same or lie apart.\<close>

lemma cache_offsets_apart:
  "key_offset e l + cache_size e \<le> value_offset e l"
  "l < l' \<Longrightarrow> key_offset e l + cache_size e \<le> key_offset e l' \<and> key_offset e l + cache_size e \<le> value_offset e l' \<and>
     value_offset e l + cache_size e \<le> key_offset e l' \<and> value_offset e l + cache_size e \<le> value_offset e l'"
proof -
  show "key_offset e l + cache_size e \<le> value_offset e l" by (simp add: key_offset_def value_offset_def)
  assume "l < l'"
  then have "l * (2 * cache_size e) + 2 * cache_size e \<le> l' * (2 * cache_size e)" by (rule rows_le)
  then show "key_offset e l + cache_size e \<le> key_offset e l' \<and> key_offset e l + cache_size e \<le> value_offset e l' \<and>
     value_offset e l + cache_size e \<le> key_offset e l' \<and> value_offset e l + cache_size e \<le> value_offset e l'"
    using \<open>l < l'\<close> by (simp add: key_offset_def value_offset_def mult.assoc)
qed

lemma engine_nonzero:
  assumes "engine_layout e"
  shows "ms_hidden_size (cs_spec e) \<noteq> 0" "ms_kv_heads (cs_spec e) \<noteq> 0" "ms_head_dim (cs_spec e) \<noteq> 0"
    "cs_maximum_context e \<noteq> 0" "0 < cache_size e" "0 < hidden_width e" "0 < vocabulary e"
proof -
  note ok = engine_layoutD [OF assms]
  show nz: "ms_hidden_size (cs_spec e) \<noteq> 0" "ms_kv_heads (cs_spec e) \<noteq> 0" "ms_head_dim (cs_spec e) \<noteq> 0"
    using ok(1) by (simp_all add: layer_spec_ok_def)
  show c: "cs_maximum_context e \<noteq> 0" using ok(5,6) by (auto simp: word_le_nat_alt unat_eq_0)
  show "0 < cache_size e" "0 < hidden_width e" "0 < vocabulary e"
    using nz c ok(3) by (simp_all add: cache_size_def unat_gt_0)
qed

lemma cache_pieces:
  assumes lay: "engine_layout e" and l: "l < length (cs_layers e)"
  shows "piece (hb_data (cs_kv e)) (caches_size e) (key_offset e l) (cache_size e) (cache_shape e)"
    "piece (hb_data (cs_kv e)) (caches_size e) (value_offset e l) (cache_size e) (cache_shape e)"
  using cache_offsets [OF l] engine_layoutD(8) [OF lay] engine_nonzero(2-4) [OF lay, THEN ucast_nonzero]
  by (simp_all add: piece_def cache_shape_def max_rank_def cache_size_def)

lemma execution_pieces:
  assumes lay: "engine_layout e" and n: "0 < N" "N \<le> unat (cs_maximum_prefill_tokens e)"
  shows "piece (hb_data (cs_execution e)) (execution_size e) 0 (N * hidden_width e)
       [1, of_nat N, ucast (ms_hidden_size (cs_spec e))]"
    "piece (hb_data (cs_execution e)) (execution_size e) ((N - 1) * hidden_width e) (1 * hidden_width e)
       [1, ucast (ms_hidden_size (cs_spec e))]"
    "piece (hb_data (cs_execution e)) (execution_size e) (hidden_size e) (1 * hidden_width e)
       [1, ucast (ms_hidden_size (cs_spec e))]"
    "piece (hb_data (cs_execution e)) (execution_size e) (hidden_size e + hidden_width e) (1 * vocabulary e)
       [1, ucast (ms_vocabulary_size (cs_spec e))]"
proof -
  have le: "N * hidden_width e \<le> hidden_size e" using n(2) by (simp add: hidden_size_def)
  have last: "(N - 1) * hidden_width e + hidden_width e = N * hidden_width e"
    using n(1) by (simp add: mult_eq_if)
  have N: "unat (of_nat N :: u64) = N"
    using n(2) unat_u32_lt [of "cs_maximum_prefill_tokens e"] by (intro unat_u64_of_nat) simp
  then have "(of_nat N :: u64) \<noteq> 0" using n(1) by auto
  then show "piece (hb_data (cs_execution e)) (execution_size e) 0 (N * hidden_width e)
       [1, of_nat N, ucast (ms_hidden_size (cs_spec e))]"
    "piece (hb_data (cs_execution e)) (execution_size e) ((N - 1) * hidden_width e) (1 * hidden_width e)
       [1, ucast (ms_hidden_size (cs_spec e))]"
    "piece (hb_data (cs_execution e)) (execution_size e) (hidden_size e) (1 * hidden_width e)
       [1, ucast (ms_hidden_size (cs_spec e))]"
    "piece (hb_data (cs_execution e)) (execution_size e) (hidden_size e + hidden_width e) (1 * vocabulary e)
       [1, ucast (ms_vocabulary_size (cs_spec e))]"
    using le last N engine_layoutD(9) [OF lay] engine_layoutD(3) [OF lay, THEN ucast_nonzero]
      engine_nonzero(1) [OF lay, THEN ucast_nonzero]
    by (simp_all add: piece_def max_rank_def execution_size_def)
qed

end
