(* ===== verification/CpuEngineAccepts.thy ===== *)
theory CpuEngineAccepts
  imports CpuEngineLayout
begin

text \<open>Every layer accepts the operands of a call.\<close>

lemma region_pieces:
  assumes "piece p capacity k n es" "piece p' capacity' k' n' es'" "disjoint_views v w"
    "covers v p capacity" "covers w p' capacity'"
  shows "disjoint_views (make_f32_view (behind p k) es) (make_f32_view (behind p' k') es')"
proof -
  have "disjoint_views w (make_f32_view (behind p k) es)"
    using assms(3) by (intro piece_disjoint [OF assms(1) _ assms(4)]) (simp add: disjoint_views_sym)
  then show ?thesis
    by (intro piece_disjoint [OF assms(2) _ assms(5)]) (simp add: disjoint_views_sym)
qed

lemma engine_covers:
  assumes "engine_layout e"
  shows "covers (kv_region e) (hb_data (cs_kv e)) (caches_size e)"
    "covers (execution_region e) (hb_data (cs_execution e)) (execution_size e)"
    "covers (workspace_view (cs_workspace e)) (hb_data (ws_storage (cs_workspace e)))
       (unat (ws_capacity (cs_workspace e)))"
  using engine_layoutD(8-10) [OF assms]
  by (simp_all add: kv_region_def execution_region_def covers_region)
    (simp add: covers_def make_f32_view_simps max_rank_def)

lemma workspace_positive:
  assumes lay: "engine_layout e"
  shows "ws_capacity (cs_workspace e) \<noteq> 0" "f32_view (workspace_view (cs_workspace e))"
    "in_memory (workspace_view (cs_workspace e))"
proof -
  let ?w = "cs_workspace e"
  have "0 < unat (cs_maximum_prefill_tokens e)" using engine_layoutD(5) [OF lay] by (simp add: unat_gt_0)
  then have "0 < layer_workspace (engine_spec e) (unat (cs_maximum_prefill_tokens e)) (unat (cs_maximum_context e))"
    using engine_nonzero(6) [OF lay] by (simp add: layer_workspace_def hidden_floats_def max_def)
  then show nz: "ws_capacity ?w \<noteq> 0" using engine_layoutD(11) [OF lay] by auto
  have "piece (hb_data (ws_storage ?w)) (unat (ws_capacity ?w)) 0 (unat (ws_capacity ?w)) [ws_capacity ?w]"
    using nz engine_layoutD(10) [OF lay] by (simp add: piece_def max_rank_def)
  from piece_simps(1,2) [OF this]
  show "f32_view (workspace_view ?w)" "in_memory (workspace_view ?w)" by simp_all
qed

lemma layer_workspace_mono:
  "rows \<le> rows' \<Longrightarrow> layer_workspace spec rows c \<le> layer_workspace spec rows' c"
  unfolding layer_workspace_def hidden_floats_def kv_floats_def logit_floats_def intermediate_floats_def
  by (intro max.mono add_mono mult_le_mono le_refl) simp_all

text \<open>The tensor of the hidden rows of a call with \<open>n\<close> tokens.\<close>

definition hidden_rows :: "cpu_smollm2 \<Rightarrow> nat \<Rightarrow> tensor_view" where
  "hidden_rows e n = make_f32_view (hb_data (cs_execution e)) [1, of_nat n, ucast (ms_hidden_size (cs_spec e))]"

text \<open>A call with \<open>n\<close> tokens after \<open>c\<close> tokens.\<close>

definition call_fits :: "cpu_smollm2 \<Rightarrow> nat \<Rightarrow> nat \<Rightarrow> bool" where
  "call_fits e c n \<longleftrightarrow> 0 < n \<and> n \<le> unat (cs_maximum_prefill_tokens e) \<and> c + n \<le> unat (cs_maximum_context e)"

definition call_positions :: "nat \<Rightarrow> nat \<Rightarrow> u32 list" where
  "call_positions c n = map (\<lambda>t. of_nat (c + t)) [0..<n]"

lemma hidden_rows_simps:
  assumes lay: "engine_layout e" and fits: "call_fits e c n"
  shows "f32_view (hidden_rows e n)" "in_memory (hidden_rows e n)" "rank (hidden_rows e n) = 3"
    "extent (hidden_rows e n) 0 = 1" "extent (hidden_rows e n) 1 = of_nat n"
    "extent (hidden_rows e n) 2 = ucast (ms_hidden_size (cs_spec e))"
    "tv_data (hidden_rows e n) = hb_data (cs_execution e)" "unat (of_nat n :: u64) = n"
    "numel (hidden_rows e n) = n * hidden_width e" "array_view (hidden_rows e n)"
    "layer_rows (hidden_rows e n) = n"
proof -
  have n: "0 < n" "n \<le> unat (cs_maximum_prefill_tokens e)" using fits by (simp_all add: call_fits_def)
  note p = execution_pieces(1) [OF lay n]
  show "f32_view (hidden_rows e n)" "in_memory (hidden_rows e n)" "rank (hidden_rows e n) = 3"
    "numel (hidden_rows e n) = n * hidden_width e" "array_view (hidden_rows e n)"
    "tv_data (hidden_rows e n) = hb_data (cs_execution e)"
    using piece_simps(1-5,9) [OF p] by (simp_all add: hidden_rows_def)
  show ext: "extent (hidden_rows e n) 0 = 1" "extent (hidden_rows e n) 1 = of_nat n"
    "extent (hidden_rows e n) 2 = ucast (ms_hidden_size (cs_spec e))"
    using piece_simps(6) [OF p, of 0] piece_simps(6) [OF p, of 1] piece_simps(6) [OF p, of 2]
    by (simp_all add: hidden_rows_def)
  show size: "unat (of_nat n :: u64) = n"
    using n(2) unat_u32_lt [of "cs_maximum_prefill_tokens e"] by (intro unat_u64_of_nat) simp
  show "layer_rows (hidden_rows e n) = n" unfolding layer_rows_def ext size by simp
qed

lemma cache_views:
  assumes lay: "engine_layout e" and l: "l < length (cs_layers e)"
  defines "kc \<equiv> kv_key (layer_cache e (of_nat l))" and "vc \<equiv> kv_value (layer_cache e (of_nat l))"
  shows "f32_view kc" "f32_view vc" "rank kc = 4" "tv_shape vc = tv_shape kc" "array_view kc" "array_view vc"
    "extent kc 0 = 1" "extent kc 1 = ucast (cs_maximum_context e)"
    "extent kc 2 = ucast (ms_kv_heads (cs_spec e))" "extent kc 3 = ucast (ms_head_dim (cs_spec e))"
    "disjoint_views kc vc"
    "tv_data kc = behind (hb_data (cs_kv e)) (key_offset e l)"
    "tv_data vc = behind (hb_data (cs_kv e)) (value_offset e l)"
    "cells_of kc = cells (hb_data (cs_kv e)) (key_offset e l) (cache_size e)"
    "cells_of vc = cells (hb_data (cs_kv e)) (value_offset e l) (cache_size e)"
proof -
  note pk = cache_pieces(1) [OF lay l] and pv = cache_pieces(2) [OF lay l]
  have k: "kc = make_f32_view (behind (hb_data (cs_kv e)) (key_offset e l)) (cache_shape e)"
    and v: "vc = make_f32_view (behind (hb_data (cs_kv e)) (value_offset e l)) (cache_shape e)"
    by (simp_all add: kc_def vc_def layer_cache_views)
  have es: "length (cache_shape e) = 4" by (simp add: cache_shape_def)
  show "f32_view kc" "f32_view vc" "rank kc = 4" "array_view kc" "array_view vc"
    "tv_data kc = behind (hb_data (cs_kv e)) (key_offset e l)"
    "tv_data vc = behind (hb_data (cs_kv e)) (value_offset e l)"
    "cells_of kc = cells (hb_data (cs_kv e)) (key_offset e l) (cache_size e)"
    "cells_of vc = cells (hb_data (cs_kv e)) (value_offset e l) (cache_size e)"
    using piece_simps(1,3,4,5,8,9) [OF pk] piece_simps(1,3,4,5,8,9) [OF pv] es by (simp_all add: k v)
  show "extent kc 0 = 1" "extent kc 1 = ucast (cs_maximum_context e)"
    "extent kc 2 = ucast (ms_kv_heads (cs_spec e))" "extent kc 3 = ucast (ms_head_dim (cs_spec e))"
    using piece_simps(6) [OF pk, of 0] piece_simps(6) [OF pk, of 1] piece_simps(6) [OF pk, of 2]
      piece_simps(6) [OF pk, of 3] es by (simp_all add: k cache_shape_def)
  show "tv_shape vc = tv_shape kc" by (simp add: k v)
  show "disjoint_views kc vc"
    unfolding k v using cache_offsets_apart(1) by (intro pieces_disjoint [OF pk pv] disjI1)
qed

lemma cache_disjoint:
  assumes lay: "engine_layout e" and l: "l < length (cs_layers e)"
    and c: "c \<in> {kv_key (layer_cache e (of_nat l)), kv_value (layer_cache e (of_nat l))}"
  shows "disjoint_views c (workspace_view (cs_workspace e))"
    "call_fits e len n \<Longrightarrow> disjoint_views (hidden_rows e n) c"
    "v \<in> set (engine_weights e) \<Longrightarrow> disjoint_views v c"
proof -
  note ok = engine_layoutD [OF lay] and cov = engine_covers [OF lay]
  obtain k where c': "c = make_f32_view (behind (hb_data (cs_kv e)) k) (cache_shape e)"
    and p: "piece (hb_data (cs_kv e)) (caches_size e) k (cache_size e) (cache_shape e)"
    using c cache_pieces [OF lay l] by (auto simp: layer_cache_views)
  have "disjoint_views (workspace_view (cs_workspace e)) c"
    unfolding c' using ok(13) by (intro piece_disjoint [OF p _ cov(1)]) (simp add: disjoint_views_sym)
  then show "disjoint_views c (workspace_view (cs_workspace e))" by (simp add: disjoint_views_sym)
  show "v \<in> set (engine_weights e) \<Longrightarrow> disjoint_views v c"
    unfolding c' using ok(19) by (intro piece_disjoint [OF p _ cov(1)]) blast
  assume "call_fits e len n"
  then have n: "0 < n" "n \<le> unat (cs_maximum_prefill_tokens e)" by (simp_all add: call_fits_def)
  have "disjoint_views (execution_region e) (kv_region e)" using ok(12) by (simp add: disjoint_views_sym)
  from region_pieces [OF execution_pieces(1) [OF lay n] p this cov(2,1)]
  show "disjoint_views (hidden_rows e n) c" by (simp add: hidden_rows_def c')
qed

lemma layer_weights_members: "w \<in> set (cs_layers e) \<Longrightarrow> v \<in> set (layer_views w) \<Longrightarrow> v \<in> set (engine_weights e)"
  by (auto simp: engine_weights_def)

lemma call_position:
  assumes "call_fits e c n" "t < n"
  shows "unat (call_positions c n ! t) = c + t" "call_positions c n ! t < cs_maximum_context e"
proof -
  have "c + t < 2 ^ 32" using assms unat_u32_lt [of "cs_maximum_context e"] by (simp add: call_fits_def)
  moreover have "call_positions c n ! t = of_nat (c + t)" using assms(2) by (simp add: call_positions_def)
  ultimately show u: "unat (call_positions c n ! t) = c + t" by (simp only: unat_u32_of_nat)
  then show "call_positions c n ! t < cs_maximum_context e"
    using assms by (simp add: word_less_nat_alt call_fits_def)
qed

lemma call_accepts:
  assumes lay: "engine_layout e" and l: "l < length (cs_layers e)" and fits: "call_fits e c n"
  shows "layer_accepts (cs_layers e ! l) (engine_spec e) (hidden_rows e n) (layer_cache e (of_nat l))
      (call_positions c n) [of_nat (c + n)] (cs_workspace e) None"
    "layer_typed (cs_layers e ! l) (hidden_rows e n) (layer_cache e (of_nat l)) (call_positions c n)
      [of_nat (c + n)] None"
proof -
  note ok = engine_layoutD [OF lay] and h = hidden_rows_simps [OF lay fits] and cv = cache_views [OF lay l]
  note w = nth_mem [OF l]
  have len: "unat (of_nat (c + n) :: u32) = c + n"
    using fits unat_u32_lt [of "cs_maximum_context e"] by (intro unat_u32_of_nat) (simp add: call_fits_def)
  have follows: "position_follows (engine_spec e) n (unat (cs_maximum_context e)) (call_positions c n) [of_nat (c + n)] 0"
    using fits call_position [OF fits] ok(4) len
    by (auto simp: position_follows_def call_fits_def intro: less_le_trans)
  have n0: "(of_nat n :: u64) \<noteq> 0" using h(8) fits by (auto simp: call_fits_def)
  have room: "layer_workspace (engine_spec e) n (unat (cs_maximum_context e)) \<le> unat (ws_capacity (cs_workspace e))"
    using layer_workspace_mono [of n "unat (cs_maximum_prefill_tokens e)"] fits ok(11)
    by (simp add: call_fits_def) (rule le_trans)
  have n: "0 < n" "n \<le> unat (cs_maximum_prefill_tokens e)" using fits by (simp_all add: call_fits_def)
  have weights: "\<forall>v \<in> set (layer_views (cs_layers e ! l)). disjoint_views v (hidden_rows e n) \<and>
      disjoint_views v (kv_key (layer_cache e (of_nat l))) \<and> disjoint_views v (kv_value (layer_cache e (of_nat l))) \<and>
      disjoint_views v (workspace_view (cs_workspace e))"
  proof
    fix v assume "v \<in> set (layer_views (cs_layers e ! l))"
    then have v: "v \<in> set (engine_weights e)" by (rule layer_weights_members [OF w])
    have "disjoint_views v (make_f32_view (behind (hb_data (cs_execution e)) 0) [1, of_nat n, ucast (ms_hidden_size (cs_spec e))])"
      using ok(19) [OF v] by (intro piece_disjoint [OF execution_pieces(1) [OF lay n] _ engine_covers(2) [OF lay]]) blast
    then show "disjoint_views v (hidden_rows e n) \<and>
      disjoint_views v (kv_key (layer_cache e (of_nat l))) \<and> disjoint_views v (kv_value (layer_cache e (of_nat l))) \<and>
      disjoint_views v (workspace_view (cs_workspace e))"
      using ok(19) [OF v] cache_disjoint(3) [OF lay l _ v] by (simp add: hidden_rows_def)
  qed
  have "disjoint_views (workspace_view (cs_workspace e)) (hidden_rows e n)"
    using ok(14) piece_disjoint [OF execution_pieces(1) [OF lay n] _ engine_covers(2) [OF lay]]
    by (simp add: hidden_rows_def disjoint_views_sym)
  then have hw: "disjoint_views (hidden_rows e n) (workspace_view (cs_workspace e))"
    by (simp add: disjoint_views_sym)
  show "layer_accepts (cs_layers e ! l) (engine_spec e) (hidden_rows e n) (layer_cache e (of_nat l))
      (call_positions c n) [of_nat (c + n)] (cs_workspace e) None"
    unfolding layer_accepts_def Let_def h(4,5,8) cv(7,8)
    using ok(1) ok(18) [OF w] h(1-3,6) cv(1-4,9-11) follows n0 room weights hw
      cache_disjoint(1,2) [OF lay l] fits workspace_positive(2) [OF lay] engine_nonzero(4) [OF lay, THEN ucast_nonzero]
    by (simp add: trace_accepts_def call_positions_def)
  have "list_all array_view (layer_views (cs_layers e ! l))"
    using ok(18) [OF w] by (auto simp: list_all2_conv_all_nth list_all_length weight_accepts_def f32_view_def)
  moreover have "n < 2 ^ 64" using h(8) unat_u64_lt [of "of_nat n"] by simp
  ultimately show "layer_typed (cs_layers e ! l) (hidden_rows e n) (layer_cache e (of_nat l)) (call_positions c n)
      [of_nat (c + n)] None"
    using h(10) cv(5,6) by (simp add: layer_typed_def trace_views_def call_positions_def)
qed

end
