(* ===== verification/CpuEngineCache.thy ===== *)
theory CpuEngineCache
  imports CpuEngineAccepts
begin

text \<open>
  What the caches hold after some tokens, that a layer adds the keys and values of the new ones
  and leaves the other layers alone, and that the weights keep their values.
\<close>

section \<open>What a call writes\<close>

definition engine_cells :: "cpu_smollm2 \<Rightarrow> nat set" where
  "engine_cells e =
     cells (hb_data (cs_kv e)) 0 (caches_size e) \<union> cells (hb_data (cs_execution e)) 0 (execution_size e) \<union>
     cells (hb_data (ws_storage (cs_workspace e))) 0 (unat (ws_capacity (cs_workspace e)))"

lemma covers_cells: "covers v p n \<Longrightarrow> cells_of v = cells p 0 n"
  by (simp add: covers_def)

lemma buffer_cells_apart:
  assumes lay: "engine_layout e"
  defines "K \<equiv> cells (hb_data (cs_kv e)) 0 (caches_size e)"
    and "X \<equiv> cells (hb_data (cs_execution e)) 0 (execution_size e)"
    and "W \<equiv> cells (hb_data (ws_storage (cs_workspace e))) 0 (unat (ws_capacity (cs_workspace e)))"
  shows "K \<inter> X = {}" "K \<inter> W = {}" "X \<inter> W = {}"
  unfolding K_def X_def W_def engine_covers [OF lay, THEN covers_cells, symmetric]
  by (rule disjoint_viewsD(5) [OF engine_layoutD(12) [OF lay]], rule disjoint_viewsD(5) [OF engine_layoutD(13) [OF lay]],
      rule disjoint_viewsD(5) [OF engine_layoutD(14) [OF lay]])

lemma weight_cells_apart:
  assumes lay: "engine_layout e" and v: "v \<in> set (engine_weights e)"
  shows "cells_of v \<inter> engine_cells e = {}"
proof -
  note d = engine_layoutD(19) [OF lay v]
  have "cells_of v \<inter> cells_of (kv_region e) = {}" "cells_of v \<inter> cells_of (execution_region e) = {}"
    "cells_of v \<inter> cells_of (workspace_view (cs_workspace e)) = {}"
    using d disjoint_viewsD(5) by blast+
  then show ?thesis
    unfolding engine_cells_def engine_covers [OF lay, THEN covers_cells] by blast
qed

lemma weight_numel:
  assumes "weight_accepts v es" "length es \<le> max_rank" shows "numel v = prod_list (map unat es)"
proof -
  have "tv_shape v = tv_shape (make_f32_view 0 es)"
    using assms by (intro shape_eq) (simp_all add: weight_accepts_def f32_view_iff)
  then show ?thesis using make_f32_view_simps(4) [OF assms(2), of 0] by (simp add: numel_def)
qed

lemma weight_kept:
  assumes lay: "engine_layout e" and v: "v \<in> set (engine_weights e)" and same: "same_outside (engine_cells e) m0 m"
    and n: "n \<le> numel v"
  shows "agree n (rd m (tv_data v)) (rd m0 (tv_data v))"
  unfolding agree_def
proof (intro allI impI)
  fix i assume "i < n"
  then have "slot (tv_data v) i \<in> cells_of v" using n by simp
  then have "slot (tv_data v) i \<notin> engine_cells e" using weight_cells_apart [OF lay v] by blast
  from same_outside_rd [OF same this] show "rd m (tv_data v) i = rd m0 (tv_data v) i" .
qed

lemma layer_weights_kept:
  assumes lay: "engine_layout e" and w: "w \<in> set (cs_layers e)" and same: "same_outside (engine_cells e) m0 m"
  shows "values_agree (engine_spec e) (layer_values_of m w) (layer_values_of m0 w)"
proof -
  have kept: "agree n (rd m (tv_data v)) (rd m0 (tv_data v))" if "v \<in> set (layer_views w)" "n \<le> numel v" for v n
    using weight_kept [OF lay layer_weights_members [OF w that(1)] same that(2)] .
  have "\<forall>es \<in> set (weight_shapes (engine_spec e)). length es \<le> max_rank"
    by (simp add: weight_shapes_def Let_def max_rank_def)
  then have "list_all2 (\<lambda>v es. numel v = prod_list (map unat es)) (layer_views w) (weight_shapes (engine_spec e))"
    using engine_layoutD(18) [OF lay w] weight_numel by (auto simp: list_all2_conv_all_nth)
  then show ?thesis
    using layer_views_members [of w] kv_width_fits [of "ms_kv_heads (cs_spec e)" "ms_head_dim (cs_spec e)"]
    unfolding values_agree_def layer_values_of_def Let_def layer_values.simps
    by (intro conjI kept) (simp_all add: layer_views_def weight_shapes_def Let_def)
qed

section \<open>The caches\<close>

text \<open>The keys and values of a layer, from the hidden vectors before it.\<close>

definition keys_of :: "float_ops \<Rightarrow> decoder_layer_spec \<Rightarrow> layer_values \<Rightarrow> (nat \<Rightarrow> vec) \<Rightarrow> nat \<Rightarrow> vec" where
  "keys_of fo spec w x k = key_vec fo spec w (of_nat k) (x k)"

definition values_of :: "float_ops \<Rightarrow> decoder_layer_spec \<Rightarrow> layer_values \<Rightarrow> (nat \<Rightarrow> vec) \<Rightarrow> nat \<Rightarrow> vec" where
  "values_of fo spec w x k = value_vec fo spec w (x k)"

text \<open>The caches of layer \<open>l\<close> hold the first \<open>c\<close> of them.\<close>

definition layer_cached ::
  "cpu_smollm2 \<Rightarrow> nat \<Rightarrow> nat \<Rightarrow> (nat \<Rightarrow> vec) \<Rightarrow> (nat \<Rightarrow> vec) \<Rightarrow> memory \<Rightarrow> bool" where
  "layer_cached e l c keys vals m \<longleftrightarrow>
     holds m (hb_data (cs_kv e)) (key_offset e l) c (kv_width e) keys \<and>
     holds m (hb_data (cs_kv e)) (value_offset e l) c (kv_width e) vals"

lemma layer_cached_kept:
  assumes cached: "layer_cached e l c keys vals m" and same: "same_outside S m m'"
    and c: "c \<le> unat (cs_maximum_context e)"
    and S: "cells (hb_data (cs_kv e)) (key_offset e l) (cache_size e) \<inter> S = {}"
      "cells (hb_data (cs_kv e)) (value_offset e l) (cache_size e) \<inter> S = {}"
  shows "layer_cached e l c keys vals m'"
proof -
  have "cells (hb_data (cs_kv e)) (key_offset e l) (c * kv_width e) \<subseteq>
      cells (hb_data (cs_kv e)) (key_offset e l) (cache_size e)"
    "cells (hb_data (cs_kv e)) (value_offset e l) (c * kv_width e) \<subseteq>
      cells (hb_data (cs_kv e)) (value_offset e l) (cache_size e)"
    using c by (simp_all add: cells_mono cache_size_def)
  then show ?thesis
    using cached S unfolding layer_cached_def
    by (intro conjI holds_kept [OF _ same]) blast+
qed

lemma layer_cached_agree:
  assumes "layer_cached e l c keys vals m"
    "\<And>k. k < c \<Longrightarrow> agree (kv_width e) (keys k) (keys' k)" "\<And>k. k < c \<Longrightarrow> agree (kv_width e) (vals k) (vals' k)"
  shows "layer_cached e l c keys' vals' m"
  using assms unfolding layer_cached_def agree_def by (auto intro: holds_cong)

lemma layer_cached_less: "layer_cached e l c keys vals m \<Longrightarrow> c' \<le> c \<Longrightarrow> layer_cached e l c' keys vals m"
  by (auto simp: layer_cached_def holds_def)

text \<open>The caches of different layers lie apart.\<close>

lemma cells_range_apart: "a + n \<le> b \<or> b + k \<le> a \<Longrightarrow> cells p a n \<inter> cells p b k = {}"
  by (auto simp: cells_def)

lemma other_cache_apart:
  assumes "l \<noteq> l'" "off \<in> {key_offset e l, value_offset e l}" "off' \<in> {key_offset e l', value_offset e l'}"
  shows "cells p off (cache_size e) \<inter> cells p off' (cache_size e) = {}"
proof (cases "l < l'")
  case True
  then show ?thesis using assms cache_offsets_apart(2) [OF True, of e] by (intro cells_range_apart) auto
next
  case False
  then have "l' < l" using assms(1) by simp
  then show ?thesis using assms cache_offsets_apart(2) [of l' l e] by (intro cells_range_apart) auto
qed

text \<open>The places a layer writes, within those of the engine and apart from the other caches.\<close>

lemma layer_writes:
  assumes lay: "engine_layout e" and l: "l < length (cs_layers e)" and fits: "call_fits e c n"
  defines "S \<equiv> all_cells (hidden_rows e n) (layer_cache e (of_nat l)) (cs_workspace e) None"
  shows "S \<subseteq> engine_cells e"
    "l' < length (cs_layers e) \<Longrightarrow> l' \<noteq> l \<Longrightarrow>
       cells (hb_data (cs_kv e)) (key_offset e l') (cache_size e) \<inter> S = {} \<and>
       cells (hb_data (cs_kv e)) (value_offset e l') (cache_size e) \<inter> S = {}"
proof -
  let ?p = "hb_data (cs_kv e)" and ?q = "hb_data (cs_execution e)"
  let ?W = "cells (hb_data (ws_storage (cs_workspace e))) 0 (unat (ws_capacity (cs_workspace e)))"
  note h = hidden_rows_simps [OF lay fits] and cv = cache_views [OF lay l] and b = buffer_cells_apart [OF lay]
  have "n \<le> unat (cs_maximum_prefill_tokens e)" using fits by (simp add: call_fits_def)
  then have "n * hidden_width e \<le> execution_size e"
    by (simp add: execution_size_def hidden_size_def trans_le_add1)
  then have hc: "cells_of (hidden_rows e n) \<subseteq> cells ?q 0 (execution_size e)"
    unfolding h(7,9) by (intro cells_mono) simp_all
  have S: "S = cells_of (hidden_rows e n) \<union> cells ?p (key_offset e l) (cache_size e) \<union>
      cells ?p (value_offset e l) (cache_size e) \<union> ?W"
    unfolding S_def all_cells_def layer_cells_def cv(14,15) by (simp add: trace_cells_def)
  have kc: "cells ?p (key_offset e i) (cache_size e) \<subseteq> cells ?p 0 (caches_size e)"
    "cells ?p (value_offset e i) (cache_size e) \<subseteq> cells ?p 0 (caches_size e)" if "i < length (cs_layers e)" for i
    using cache_offsets [OF that] by (intro cells_mono; simp)+
  show "S \<subseteq> engine_cells e" unfolding S engine_cells_def using hc kc [OF l] by blast
  assume l': "l' < length (cs_layers e)" "l' \<noteq> l"
  have other: "cells ?p (key_offset e l') (cache_size e) \<inter> cells ?p off (cache_size e) = {}"
    "cells ?p (value_offset e l') (cache_size e) \<inter> cells ?p off (cache_size e) = {}"
    if "off \<in> {key_offset e l, value_offset e l}" for off
    using that by (intro other_cache_apart [OF l'(2)]; simp)+
  have "cells ?p (key_offset e l') (cache_size e) \<inter> (cells_of (hidden_rows e n) \<union> ?W) = {}"
    "cells ?p (value_offset e l') (cache_size e) \<inter> (cells_of (hidden_rows e n) \<union> ?W) = {}"
    using kc [OF l'(1)] hc b by blast+
  then show "cells ?p (key_offset e l') (cache_size e) \<inter> S = {} \<and> cells ?p (value_offset e l') (cache_size e) \<inter> S = {}"
    unfolding S using other(1) [of "key_offset e l"] other(1) [of "value_offset e l"]
      other(2) [of "key_offset e l"] other(2) [of "value_offset e l"] by blast
qed

end
