(* ===== verification/CpuEngineRun.thy ===== *)
theory CpuEngineRun
  imports CpuEngineCache
begin

text \<open>
  One layer of a call, and all of them: whatever the layers read from the caches, each of the
  new hidden rows becomes the one the model without a cache has at its position.
\<close>

section \<open>One layer\<close>

lemma cache_row_call:
  assumes "call_fits e c n" "k < c + n"
  shows "cache_row m v width [of_nat (c + n)] n new 0 k =
    (if c \<le> k then new (k - c) else row_of (rd m (tv_data v)) width k)"
proof -
  have "unat (of_nat (c + n) :: u32) = c + n"
    using assms unat_u32_lt [of "cs_maximum_context e"] by (intro unat_u32_of_nat) (simp add: call_fits_def)
  then show ?thesis using assms(2) by (simp add: cache_row_def new_row_def Let_def del: of_nat_add)
qed

text \<open>The keys and values a layer sees are those of the model.\<close>

lemma call_rows_agree:
  fixes fo :: float_ops
  assumes lay: "engine_layout e" and l: "l < length (cs_layers e)" and fits: "call_fits e c n"
    and same: "same_outside (engine_cells e) m0 m"
    and x: "holds m (hb_data (cs_execution e)) 0 n (hidden_width e) (\<lambda>r. x (c + r))"
  defines "w \<equiv> layer_values_of m0 (cs_layers e ! l)"
  assumes cached: "layer_cached e l c (keys_of fo (engine_spec e) w x) (values_of fo (engine_spec e) w x) m"
    and k: "k < c + n"
  shows "agree (kv_width e)
      (call_keys fo (engine_spec e) (cs_layers e ! l) (hidden_rows e n) (layer_cache e (of_nat l))
        (call_positions c n) [of_nat (c + n)] m 0 k) (keys_of fo (engine_spec e) w x k)"
    "agree (kv_width e)
      (call_values fo (engine_spec e) (cs_layers e ! l) (hidden_rows e n) (layer_cache e (of_nat l))
        [of_nat (c + n)] m 0 k) (values_of fo (engine_spec e) w x k)"
proof -
  note ok = engine_layoutD [OF lay] and h = hidden_rows_simps [OF lay fits] and cv = cache_views [OF lay l]
  note w = layer_weights_kept [OF lay nth_mem [OF l] same, folded w_def]
  have off: "key_offset e l \<le> caches_size e" "value_offset e l \<le> caches_size e"
    using cache_offsets [OF l] by simp_all
  have row: "agree (hidden_width e) (row_of (rd m (tv_data (hidden_rows e n))) (hidden_width e) r) (x (c + r))"
    if "r < n" for r
    using holdsD [OF x that] by (simp add: agree_def row_of_def h(7))
  show "agree (kv_width e)
      (call_keys fo (engine_spec e) (cs_layers e ! l) (hidden_rows e n) (layer_cache e (of_nat l))
        (call_positions c n) [of_nat (c + n)] m 0 k) (keys_of fo (engine_spec e) w x k)"
  proof (cases "c \<le> k")
    case True
    then have r: "k - c < n" "c + (k - c) = k" using k by auto
    have pos: "call_positions c n ! (k - c) = of_nat k" using r by (simp add: call_positions_def del: of_nat_add)
    have "agree (kv_width e)
        (key_vec fo (engine_spec e) (layer_values_of m (cs_layers e ! l)) (of_nat k)
          (row_of (rd m (tv_data (hidden_rows e n))) (hidden_width e) (k - c)))
        (key_vec fo (engine_spec e) w (of_nat k) (x k))"
      using layer_vectors_agree(2) [OF w _ ok(1)] row [OF r(1)] ok(2) r(2) by simp
    then show ?thesis
      unfolding call_keys_def layer_spec_of_simps h(5,8) cache_row_call [OF fits k] keys_of_def
      using True by (simp add: pos)
  next
    case False
    have "rd m (behind (hb_data (cs_kv e)) (key_offset e l)) (k * kv_width e + i) = keys_of fo (engine_spec e) w x k i"
      if "i < kv_width e" for i
      using cached that False holdsD unfolding layer_cached_def rd_behind [OF ok(8) off(1)] by (metis not_le)
    then show ?thesis
      unfolding call_keys_def layer_spec_of_simps h(5,8) cache_row_call [OF fits k]
      using False by (simp add: agree_def row_of_def cv(12))
  qed
  show "agree (kv_width e)
      (call_values fo (engine_spec e) (cs_layers e ! l) (hidden_rows e n) (layer_cache e (of_nat l))
        [of_nat (c + n)] m 0 k) (values_of fo (engine_spec e) w x k)"
  proof (cases "c \<le> k")
    case True
    then have r: "k - c < n" "c + (k - c) = k" using k by auto
    have "agree (kv_width e)
        (value_vec fo (engine_spec e) (layer_values_of m (cs_layers e ! l))
          (row_of (rd m (tv_data (hidden_rows e n))) (hidden_width e) (k - c)))
        (value_vec fo (engine_spec e) w (x k))"
      using layer_vectors_agree(3) [OF w _ ok(1)] row [OF r(1)] ok(2) r(2) by simp
    then show ?thesis
      unfolding call_values_def layer_spec_of_simps h(5,8) cache_row_call [OF fits k] values_of_def
      using True by simp
  next
    case False
    have "rd m (behind (hb_data (cs_kv e)) (value_offset e l)) (k * kv_width e + i) = values_of fo (engine_spec e) w x k i"
      if "i < kv_width e" for i
      using cached that False holdsD unfolding layer_cached_def rd_behind [OF ok(8) off(2)] by (metis not_le)
    then show ?thesis
      unfolding call_values_def layer_spec_of_simps h(5,8) cache_row_call [OF fits k]
      using False by (simp add: agree_def row_of_def cv(13))
  qed
qed

lemma layer_call:
  fixes fo :: float_ops
  assumes lay: "engine_layout e" and l: "l < length (cs_layers e)" and fits: "call_fits e c n"
    and same: "same_outside (engine_cells e) m0 m"
    and x: "holds m (hb_data (cs_execution e)) 0 n (hidden_width e) (\<lambda>r. x (c + r))"
  defines "w \<equiv> layer_values_of m0 (cs_layers e ! l)"
  assumes cached: "layer_cached e l c (keys_of fo (engine_spec e) w x) (values_of fo (engine_spec e) w x) m"
  shows "\<exists>m'. smollm2_decoder_layer_f32 fo (cs_layers e ! l) (engine_spec e) (hidden_rows e n)
      (layer_cache e (of_nat l)) (call_positions c n) [of_nat (c + n)] (cs_workspace e) None m =
        Some (status_success, m') \<and>
    same_outside (engine_cells e) m m' \<and>
    holds m' (hb_data (cs_execution e)) 0 n (hidden_width e) (\<lambda>r. layer_step fo (engine_spec e) w x (c + r)) \<and>
    layer_cached e l (c + n) (keys_of fo (engine_spec e) w x) (values_of fo (engine_spec e) w x) m' \<and>
    (\<forall>l' c' keys vals. l' < length (cs_layers e) \<longrightarrow> l' \<noteq> l \<longrightarrow> c' \<le> unat (cs_maximum_context e) \<longrightarrow>
       layer_cached e l' c' keys vals m \<longrightarrow> layer_cached e l' c' keys vals m')"
proof -
  note ok = engine_layoutD [OF lay] and h = hidden_rows_simps [OF lay fits] and cv = cache_views [OF lay l]
  note writes = layer_writes [OF lay l fits]
  note rows = call_rows_agree [OF lay l fits same x cached [unfolded w_def], folded w_def]
  note w = layer_weights_kept [OF lay nth_mem [OF l] same, folded w_def]
  have off: "key_offset e l \<le> caches_size e" "value_offset e l \<le> caches_size e"
    using cache_offsets [OF l] by simp_all
  have C: "c + n \<le> unat (cs_maximum_context e)" using fits by (simp add: call_fits_def)
  from layer_run [OF call_accepts [OF lay l fits], of fo m] ok(2)
  obtain m' where m': "smollm2_decoder_layer_f32 fo (cs_layers e ! l) (engine_spec e) (hidden_rows e n)
      (layer_cache e (of_nat l)) (call_positions c n) [of_nat (c + n)] (cs_workspace e) None m =
        Some (status_success, m')"
    and outside: "same_outside (all_cells (hidden_rows e n) (layer_cache e (of_nat l)) (cs_workspace e) None) m m'"
    and result: "layer_done fo (engine_spec e) (cs_layers e ! l) (hidden_rows e n) (layer_cache e (of_nat l))
      (call_positions c n) [of_nat (c + n)] None m m'"
    by auto
  note d = result [unfolded layer_done_def Let_def h(4,7,11) cv(7,8,12,13), simplified]
  have "layer_cached e l (c + n) (keys_of fo (engine_spec e) w x) (values_of fo (engine_spec e) w x) m'"
    unfolding layer_cached_def holds_def
  proof (intro conjI allI impI)
    fix k i assume k: "k < c + n" and i: "i < kv_width e"
    show "rd m' (hb_data (cs_kv e)) (key_offset e l + (k * kv_width e + i)) = keys_of fo (engine_spec e) w x k i"
      using d k C i agreeD [OF rows(1) [OF k] i] by (simp add: cache_holds_def cv(12) rd_behind [OF ok(8) off(1)])
    show "rd m' (hb_data (cs_kv e)) (value_offset e l + (k * kv_width e + i)) = values_of fo (engine_spec e) w x k i"
      using d k C i agreeD [OF rows(2) [OF k] i] by (simp add: cache_holds_def cv(13) rd_behind [OF ok(8) off(2)])
  qed
  moreover have "holds m' (hb_data (cs_execution e)) 0 n (hidden_width e) (\<lambda>r. layer_step fo (engine_spec e) w x (c + r))"
  proof (rule holds_cong)
    show "holds m' (hb_data (cs_execution e)) 0 n (hidden_width e)
        (layer_output fo (engine_spec e) (cs_layers e ! l) (hidden_rows e n) (layer_cache e (of_nat l))
          (call_positions c n) [of_nat (c + n)] m)" using d by simp
    fix r i assume r: "r < n" and i: "i < hidden_width e"
    have pos: "call_positions c n ! r = of_nat (c + r)" using r by (simp add: call_positions_def)
    have u: "unat (of_nat (c + r) :: u32) = c + r" using call_position(1) [OF fits r] pos by simp
    have row: "agree (hidden_width e) (row_of (rd m (tv_data (hidden_rows e n))) (hidden_width e) r) (x (c + r))"
      using holdsD [OF x r] by (simp add: agree_def row_of_def h(7))
    have attended: "agree (hidden_width e)
        (attended_rows fo (engine_spec e) (cs_layers e ! l) (hidden_rows e n) (layer_cache e (of_nat l))
          (call_positions c n) [of_nat (c + n)] m r)
        (attended_vec fo (engine_spec e) w (keys_of fo (engine_spec e) w x) (values_of fo (engine_spec e) w x)
          (of_nat (c + r)) (x (c + r)))"
      unfolding attended_rows_def h(5,8) pos div_less [OF r] layer_spec_of_simps
      by (rule attended_agree [OF w _ ok(1), simplified, OF row ok(2)]) (use u r rows in simp_all)
    show "layer_output fo (engine_spec e) (cs_layers e ! l) (hidden_rows e n) (layer_cache e (of_nat l))
          (call_positions c n) [of_nat (c + n)] m r i = layer_step fo (engine_spec e) w x (c + r) i"
      using agreeD [OF layer_vectors_agree(4) [OF w _ ok(1), simplified, OF attended ok(2)] i]
      by (simp add: layer_output_def layer_step_def layer_vec_def keys_of_def [abs_def] values_of_def [abs_def])
  qed
  moreover have "layer_cached e l' c' keys vals m'"
    if "l' < length (cs_layers e)" "l' \<noteq> l" "c' \<le> unat (cs_maximum_context e)" "layer_cached e l' c' keys vals m"
    for l' c' keys vals
    using writes(2) [OF that(1,2)] by (intro layer_cached_kept [OF that(4) outside that(3)]) blast+
  ultimately show ?thesis
    using m' same_outside_mono [OF outside writes(1)] by blast
qed

end
