(* ===== verification/CpuEngineForward.thy ===== *)
theory CpuEngineForward
  imports CpuEngineRun
begin

text \<open>
  All layers of a call, the embedding before and the output after them, and a whole forward
  pass: it answers with the greedy choice among the logits that the model without a cache has
  for the whole history.
\<close>

section \<open>All layers\<close>

definition engine_values :: "memory \<Rightarrow> cpu_smollm2 \<Rightarrow> layer_values list" where
  "engine_values m e = map (layer_values_of m) (cs_layers e)"

text \<open>The hidden vectors of a history \<open>x\<close> before layer \<open>l\<close>.\<close>

definition rows_before :: "float_ops \<Rightarrow> cpu_smollm2 \<Rightarrow> memory \<Rightarrow> (nat \<Rightarrow> vec) \<Rightarrow> nat \<Rightarrow> nat \<Rightarrow> vec" where
  "rows_before fo e m0 x l = hidden_after fo (engine_spec e) (take l (engine_values m0 e)) x"

definition cached_upto ::
  "float_ops \<Rightarrow> cpu_smollm2 \<Rightarrow> memory \<Rightarrow> (nat \<Rightarrow> vec) \<Rightarrow> nat \<Rightarrow> nat \<Rightarrow> memory \<Rightarrow> bool" where
  "cached_upto fo e m0 x c l m \<longleftrightarrow>
     layer_cached e l c (keys_of fo (engine_spec e) (layer_values_of m0 (cs_layers e ! l)) (rows_before fo e m0 x l))
       (values_of fo (engine_spec e) (layer_values_of m0 (cs_layers e ! l)) (rows_before fo e m0 x l)) m"

lemma rows_before_Suc:
  "l < length (cs_layers e) \<Longrightarrow> rows_before fo e m0 x (Suc l) =
     layer_step fo (engine_spec e) (layer_values_of m0 (cs_layers e ! l)) (rows_before fo e m0 x l)"
  by (simp add: rows_before_def engine_values_def take_Suc_conv_app_nth hidden_after_snoc)

lemma cached_upto_history:
  assumes lay: "engine_layout e" and c: "c \<le> unat (cs_maximum_context e)"
    and x: "\<And>k. k < c \<Longrightarrow> agree (hidden_width e) (x k) (x' k)" and cached: "cached_upto fo e m0 x c l m"
  shows "cached_upto fo e m0 x' c l m"
proof -
  note ok = engine_layoutD [OF lay]
  have refl: "values_agree (engine_spec e) w w" for w by (simp add: values_agree_def Let_def)
  have rows: "agree (hidden_width e) (rows_before fo e m0 x l k) (rows_before fo e m0 x' l k)" if k: "k < c" for k
  proof -
    have "k < 2 ^ 32" using k c unat_u32_lt [of "cs_maximum_context e"] by simp
    moreover have "list_all2 (values_agree (engine_spec e)) ws ws" for ws by (simp add: list_all2_same refl)
    ultimately show ?thesis
      unfolding rows_before_def using x k ok(1,2) hidden_after_agree [of "engine_spec e"] by simp
  qed
  show ?thesis
    using cached unfolding cached_upto_def
    by (rule layer_cached_agree)
      (use layer_vectors_agree(2,3) [OF refl _ ok(1), simplified] rows ok(2) in \<open>simp_all add: keys_of_def values_of_def\<close>)
qed

lemma run_layers_reference:
  fixes fo :: float_ops
  assumes lay: "engine_layout e" and fits: "call_fits e c n"
    and layers: "drop l (cs_layers e) = rest"
    and same: "same_outside (engine_cells e) m0 m"
    and x: "holds m (hb_data (cs_execution e)) 0 n (hidden_width e) (\<lambda>r. rows_before fo e m0 x l (c + r))"
    and cached: "\<forall>j < length (cs_layers e). cached_upto fo e m0 x (if j < l then c + n else c) j m"
  shows "\<exists>m'. run_layers fo e (hidden_rows e n) (call_positions c n) [of_nat (c + n)] l rest m =
      Some (status_success, m') \<and> same_outside (engine_cells e) m0 m' \<and>
    holds m' (hb_data (cs_execution e)) 0 n (hidden_width e)
      (\<lambda>r. rows_before fo e m0 x (length (cs_layers e)) (c + r)) \<and>
    (\<forall>j < length (cs_layers e). cached_upto fo e m0 x (c + n) j m')"
  using layers same x cached
proof (induction rest arbitrary: l m)
  case Nil
  then have l: "length (cs_layers e) \<le> l" by simp
  then have "rows_before fo e m0 x l = rows_before fo e m0 x (length (cs_layers e))"
    by (simp add: rows_before_def engine_values_def)
  then show ?case using Nil.prems l by (auto intro!: exI [of _ m])
next
  case (Cons w rest)
  have l: "l < length (cs_layers e)" using Cons.prems(1) by (cases "l < length (cs_layers e)") simp_all
  have w: "w = cs_layers e ! l" "drop (Suc l) (cs_layers e) = rest"
    using Cons.prems(1) Cons_nth_drop_Suc [OF l] by simp_all
  have C: "c + n \<le> unat (cs_maximum_context e)" "c \<le> unat (cs_maximum_context e)"
    using fits by (simp_all add: call_fits_def)
  have here: "cached_upto fo e m0 x c l m" using Cons.prems(4) l by auto
  from layer_call [OF lay l fits Cons.prems(2,3) here [unfolded cached_upto_def]]
  obtain m1 where run: "smollm2_decoder_layer_f32 fo w (engine_spec e) (hidden_rows e n) (layer_cache e (of_nat l))
      (call_positions c n) [of_nat (c + n)] (cs_workspace e) None m = Some (status_success, m1)"
    and outside: "same_outside (engine_cells e) m m1"
    and x1: "holds m1 (hb_data (cs_execution e)) 0 n (hidden_width e) (\<lambda>r. rows_before fo e m0 x (Suc l) (c + r))"
    and c1: "cached_upto fo e m0 x (c + n) l m1"
    and others: "\<forall>l' c' keys vals. l' < length (cs_layers e) \<longrightarrow> l' \<noteq> l \<longrightarrow> c' \<le> unat (cs_maximum_context e) \<longrightarrow>
       layer_cached e l' c' keys vals m \<longrightarrow> layer_cached e l' c' keys vals m1"
    unfolding w(1) rows_before_Suc [OF l] cached_upto_def by blast
  have same1: "same_outside (engine_cells e) m0 m1" by (rule same_outside_trans [OF Cons.prems(2) outside]) simp_all
  have "\<forall>j < length (cs_layers e). cached_upto fo e m0 x (if j < Suc l then c + n else c) j m1"
  proof (intro allI impI)
    fix j assume j: "j < length (cs_layers e)"
    show "cached_upto fo e m0 x (if j < Suc l then c + n else c) j m1"
    proof (cases "j = l")
      case True
      then show ?thesis using c1 by simp
    next
      case False
      then have eq: "(if j < Suc l then c + n else c) = (if j < l then c + n else c)" by simp
      have "(if j < l then c + n else c) \<le> unat (cs_maximum_context e)" using C by simp
      moreover have "cached_upto fo e m0 x (if j < l then c + n else c) j m" using Cons.prems(4) j by blast
      ultimately show ?thesis using others j False unfolding eq cached_upto_def by blast
    qed
  qed
  from Cons.IH [OF w(2) same1 x1 this] show ?case unfolding run_layers.simps run by simp
qed

section \<open>Embedding\<close>

definition token_vec :: "cpu_smollm2 \<Rightarrow> memory \<Rightarrow> u32 \<Rightarrow> vec" where
  "token_vec e m t = row_of (rd m (tv_data (cs_embedding e))) (hidden_width e) (unat t)"

lemma embedding_kept:
  assumes lay: "engine_layout e" and same: "same_outside (engine_cells e) m0 m"
    and t: "t < ms_vocabulary_size (cs_spec e)" and i: "i < hidden_width e"
  shows "rd m (tv_data (cs_embedding e)) (unat t * hidden_width e + i) = token_vec e m0 t i"
proof -
  have n: "numel (cs_embedding e) = vocabulary e * hidden_width e"
    using weight_numel [OF engine_layoutD(15) [OF lay]] by (simp add: max_rank_def)
  have "unat t * hidden_width e + i < numel (cs_embedding e)"
    unfolding n using t i by (intro row_bound) (simp_all add: word_less_nat_alt)
  moreover have "cs_embedding e \<in> set (engine_weights e)" by (simp add: engine_weights_def)
  ultimately show ?thesis
    using weight_kept [OF lay _ same le_refl, of "cs_embedding e"] by (simp add: agree_def token_vec_def row_of_def)
qed

lemma embed_tokens_reference:
  assumes lay: "engine_layout e" and fits: "call_fits e c (length ts)" and c: "cs_context_length e = of_nat c"
    and ts: "\<forall>t \<in> set ts. t < ms_vocabulary_size (cs_spec e)" and same: "same_outside (engine_cells e) m0 m"
  shows "\<exists>positions m'. embed_tokens e ts m = (positions, m') \<and>
    take (length ts) positions = call_positions c (length ts) \<and> length positions = length (cs_positions e) \<and>
    same_outside (cells (hb_data (cs_execution e)) 0 (execution_size e)) m m' \<and>
    holds m' (hb_data (cs_execution e)) 0 (length ts) (hidden_width e) (\<lambda>r. token_vec e m0 (ts ! r))"
proof -
  let ?X = "cells (hb_data (cs_execution e)) 0 (execution_size e)"
  let ?step = "\<lambda>token (positions, m'). (positions[token := cs_context_length e + of_nat token],
      copy_floats (hb_data (cs_execution e)) (token * hidden_width e) (tv_data (cs_embedding e))
        (unat (ts ! token) * hidden_width e) (hidden_width e) m')"
  have room: "length ts \<le> length (cs_positions e)"
    using fits engine_layoutD(7) [OF lay] by (simp add: call_fits_def)
  have "length ts * hidden_width e \<le> execution_size e"
    using fits by (simp add: call_fits_def execution_size_def hidden_size_def trans_le_add1)
  have "k \<le> length ts \<Longrightarrow> \<exists>positions m'. fold ?step [0..<k] (cs_positions e, m) = (positions, m') \<and>
      length positions = length (cs_positions e) \<and> (\<forall>t < k. positions ! t = of_nat (c + t)) \<and>
      same_outside ?X m m' \<and>
      holds m' (hb_data (cs_execution e)) 0 k (hidden_width e) (\<lambda>r. token_vec e m0 (ts ! r))" for k
  proof (induction k)
    case 0
    then show ?case by (simp add: holds_def)
  next
    case (Suc k)
    then obtain positions m1 where run: "fold ?step [0..<k] (cs_positions e, m) = (positions, m1)"
      and len: "length positions = length (cs_positions e)" "\<forall>t < k. positions ! t = of_nat (c + t)"
      and m1: "same_outside ?X m m1"
        "holds m1 (hb_data (cs_execution e)) 0 k (hidden_width e) (\<lambda>r. token_vec e m0 (ts ! r))"
      by auto
    define m2 where "m2 = put (hb_data (cs_execution e)) (k * hidden_width e) (hidden_width e)
      (\<lambda>i. rd m1 (tv_data (cs_embedding e)) (unat (ts ! k) * hidden_width e + i)) m1"
    have le: "k * hidden_width e + hidden_width e \<le> execution_size e"
      using Suc.prems rows_le [of k "length ts" "hidden_width e"] \<open>length ts * hidden_width e \<le> execution_size e\<close> by simp
    have same1: "same_outside (engine_cells e) m0 m1"
      by (rule same_outside_trans [OF same m1(1)]) (auto simp: engine_cells_def)
    have token: "rd m1 (tv_data (cs_embedding e)) (unat (ts ! k) * hidden_width e + i) = token_vec e m0 (ts ! k) i"
      if "i < hidden_width e" for i
      using Suc.prems ts by (intro embedding_kept [OF lay same1 _ that]) simp
    have out: "same_outside (cells (hb_data (cs_execution e)) (k * hidden_width e) (hidden_width e)) m1 m2"
      unfolding m2_def by (rule same_outside_put)
    have "same_outside ?X m m2"
      using same_outside_trans [OF m1(1) out, of ?X] le cells_mono [of 0 "k * hidden_width e" "hidden_width e" "execution_size e"]
      by simp
    moreover have "holds m2 (hb_data (cs_execution e)) 0 (Suc k) (hidden_width e) (\<lambda>r. token_vec e m0 (ts ! r))"
      using holds_kept_piece [OF m1(2) out] token
      by (auto simp: holds_def less_Suc_eq m2_def)
    moreover have "fold ?step [0..<Suc k] (cs_positions e, m) = (positions[k := cs_context_length e + of_nat k], m2)"
      using run by (simp add: m2_def copy_floats_put)
    moreover have "\<forall>t < Suc k. positions[k := cs_context_length e + of_nat k] ! t = of_nat (c + t)"
      using len Suc.prems room by (simp add: less_Suc_eq c nth_list_update)
    ultimately show ?case using len(1) by simp
  qed
  from this [of "length ts"] obtain positions m' where run: "embed_tokens e ts m = (positions, m')"
    and r: "length positions = length (cs_positions e)" "\<forall>t < length ts. positions ! t = of_nat (c + t)"
      "same_outside ?X m m'"
      "holds m' (hb_data (cs_execution e)) 0 (length ts) (hidden_width e) (\<lambda>r. token_vec e m0 (ts ! r))"
    by (auto simp: embed_tokens_def Let_def)
  have "take (length ts) positions = call_positions c (length ts)"
    using r(1,2) room by (intro nth_equalityI) (simp_all add: call_positions_def)
  then show ?thesis using run r by blast
qed

section \<open>Output\<close>

text \<open>The logits of a history: the output head on the normalized last hidden row.\<close>

definition logits_of :: "float_ops \<Rightarrow> cpu_smollm2 \<Rightarrow> memory \<Rightarrow> vec \<Rightarrow> vec" where
  "logits_of fo e m x =
     linear_vec fo (hidden_width e) (rd m (tv_data (cs_output_head e)))
       (normalized_vec fo (ms_rms_norm_epsilon (cs_spec e)) (ucast (ms_hidden_size (cs_spec e)))
         (rd m (tv_data (cs_final_norm e))) x)"

lemma output_logits_reference:
  fixes fo :: float_ops
  assumes lay: "engine_layout e" and n: "0 < n" "n \<le> unat (cs_maximum_prefill_tokens e)"
    and same: "same_outside (engine_cells e) m0 m"
    and x: "holds m (hb_data (cs_execution e)) 0 n (hidden_width e) x"
  shows "\<exists>m'. output_logits fo e (of_nat n) m = (status_success, m') \<and>
    same_outside (cells (hb_data (cs_execution e)) 0 (execution_size e)) m m' \<and>
    (\<forall>j < vocabulary e. rd m' (fst (cpu_smollm2_logits e)) j = logits_of fo e m0 (x (n - 1)) j)"
proof -
  let ?p = "hb_data (cs_execution e)" and ?n = "hidden_width e"
  let ?h = "ucast (ms_hidden_size (cs_spec e)) :: u64" and ?v = "ucast (ms_vocabulary_size (cs_spec e)) :: u64"
  let ?in = "make_f32_view (behind ?p ((n - 1) * ?n)) [1, ?h]"
    and ?mid = "make_f32_view (behind ?p (hidden_size e)) [1, ?h]"
    and ?out = "make_f32_view (behind ?p (hidden_size e + ?n)) [1, ?v]"
  note ok = engine_layoutD [OF lay] and pieces = execution_pieces [OF lay n] and cov = engine_covers(2) [OF lay]
  have members: "cs_final_norm e \<in> set (engine_weights e)" "cs_output_head e \<in> set (engine_weights e)"
    by (simp_all add: engine_weights_def)
  have "(n - 1) * ?n + 1 * ?n \<le> n * ?n" using rows_le [of "n - 1" n ?n] n(1) by simp
  also have "\<dots> \<le> hidden_size e" unfolding hidden_size_def by (rule mult_le_mono1 [OF n(2)])
  finally have le: "(n - 1) * ?n + 1 * ?n \<le> hidden_size e" .
  have first: "float_at ?p (hidden_capacity e) = behind ?p (hidden_size e)"
    by (simp add: float_at_def behind_def hidden_capacity_def hidden_size_def)
  have second: "float_at (behind ?p (hidden_size e)) ?h = behind ?p (hidden_size e + ?n)"
    by (simp add: float_at_def behind_def distrib_left add.assoc)
  have "float_at ?p (hidden_capacity e + ?h) = float_at (float_at ?p (hidden_capacity e)) ?h"
    by (simp add: float_at_def distrib_left add.assoc)
  then have last: "fst (cpu_smollm2_logits e) = behind ?p (hidden_size e + ?n)"
    by (simp add: cpu_smollm2_logits_def first second)
  have "(of_nat n - 1 :: u64) = of_nat (n - 1)" using n(1) by (simp add: of_nat_diff)
  then have "float_at ?p ((of_nat n - 1) * ?h) = behind ?p ((n - 1) * ?n)"
    by (simp add: float_at_def behind_def)
  note addresses = first second last this
  have weight: "f32_view (cs_final_norm e)" "rank (cs_final_norm e) = 1" "extent (cs_final_norm e) 0 = ?h"
    using ok(16) by (simp_all add: weight_accepts_def has_shape_def)
  have apart: "disjoint_views (cs_final_norm e) ?mid"
    using ok(19) [OF members(1)] by (intro piece_disjoint [OF pieces(3) _ cov]) blast
  have inmid: "disjoint_views ?in ?mid" by (rule pieces_disjoint [OF pieces(2,3)]) (rule disjI1 [OF le])
  have acc: "rms_norm_accepts ?in (cs_final_norm e) (ms_rms_norm_epsilon (cs_spec e)) ?mid"
    unfolding rms_norm_accepts_def weight
    using piece_simps(1,2,5) [OF pieces(2)] piece_simps(6) [OF pieces(2), of 1] piece_simps(1,2) [OF pieces(3)]
      weight ok(1) apart inmid engine_nonzero(1) [OF lay, THEN ucast_nonzero]
    by (simp add: layer_spec_ok_def disjoint_views_def)
  have x': "holds m (tv_data ?in) 0 1 ?n (\<lambda>_. x (n - 1))"
    unfolding piece_simps(4,7) [OF pieces(2)] using holdsD [OF x, of "n - 1"] n by (simp add: holds_def)
  have width: "unat (extent (cs_final_norm e) 0) = ?n" by (simp add: weight(3))
  from rms_norm_step [OF acc width piece_simps(3) [OF pieces(2)] x' same weight_cells_apart [OF lay members(1)], of fo]
  obtain m1 where m1: "rms_norm_f32 fo ?in (cs_final_norm e) (ms_rms_norm_epsilon (cs_spec e)) ?mid m =
      (status_success, m1)" "same_outside (cells ?p (hidden_size e) (1 * ?n)) m m1"
    and y: "holds m1 ?p (hidden_size e) 1 ?n (\<lambda>_. normalized_vec fo (ms_rms_norm_epsilon (cs_spec e)) ?h
      (rd m0 (tv_data (cs_final_norm e))) (x (n - 1)))"
    unfolding piece_simps(4,7,8) [OF pieces(3)] weight(3) by blast
  have sub: "cells ?p (hidden_size e) (1 * ?n) \<subseteq> cells ?p 0 (execution_size e)"
    "cells ?p (hidden_size e + ?n) (1 * vocabulary e) \<subseteq> cells ?p 0 (execution_size e)"
    by (intro cells_mono; simp add: execution_size_def)+
  have same1: "same_outside (engine_cells e) m0 m1"
    by (rule same_outside_trans [OF same m1(2)]) (use sub in \<open>auto simp: engine_cells_def\<close>)
  have head: "disjoint_views (cs_output_head e) (execution_region e)" using ok(19) [OF members(2)] by blast
  from linear_piece [OF pieces(3,4) cov _ _ _ _ ok(17) head same1 weight_cells_apart [OF lay members(2)] y, of fo]
  obtain m2 where m2: "linear_f32 fo ?mid (cs_output_head e) ?out m1 = (status_success, m2)"
    "same_outside (cells ?p (hidden_size e + ?n) (1 * vocabulary e)) m1 m2"
    and z: "holds m2 ?p (hidden_size e + ?n) 1 (vocabulary e) (\<lambda>_. logits_of fo e m0 (x (n - 1)))"
    by (auto simp: logits_of_def)
  have "output_logits fo e (of_nat n) m = (status_success, m2)"
    unfolding output_logits_def Let_def addresses m1(1) prod.case m2(1) by simp
  moreover have "same_outside (cells ?p 0 (execution_size e)) m m2"
    using same_outside_trans [OF m1(2) m2(2)] sub by blast
  moreover have "rd m2 (fst (cpu_smollm2_logits e)) j = logits_of fo e m0 (x (n - 1)) j" if "j < vocabulary e" for j
    using holdsD [OF z [folded piece_simps(7) [OF pieces(4)]], of 0 j] that by (simp add: addresses)
  ultimately show ?thesis by blast
qed

end
