(* ===== verification/CpuEngineProps.thy ===== *)
theory CpuEngineProps
  imports CpuEngineForward
begin

text \<open>
  The engine against the model without a cache: after any calls it answers as if it computed
  every logit anew from the whole history of tokens.
\<close>

section \<open>Reference\<close>

definition history :: "cpu_smollm2 \<Rightarrow> memory \<Rightarrow> u32 list \<Rightarrow> nat \<Rightarrow> vec" where
  "history e m ts k = token_vec e m (ts ! k)"

text \<open>The answer after a history of tokens.\<close>

definition next_token :: "float_ops \<Rightarrow> cpu_smollm2 \<Rightarrow> memory \<Rightarrow> u32 list \<Rightarrow> greedy_token result" where
  "next_token fo e m ts =
     greedy_choice (map (logits_of fo e m
       (hidden_after fo (engine_spec e) (engine_values m e) (history e m ts) (length ts - 1)))
       [0..<vocabulary e])"

definition extend_history ::
  "float_ops \<Rightarrow> cpu_smollm2 \<Rightarrow> memory \<Rightarrow> u32 list \<Rightarrow> u32 list \<Rightarrow> greedy_token result \<times> u32 list" where
  "extend_history fo e m ts h =
     (if ts = [] \<or> length ts > unat (cs_maximum_prefill_tokens e) \<or>
         length h + length ts > unat (cs_maximum_context e) then (fail Invalid_argument, h)
      else
        (case List.find (\<lambda>token. token \<ge> ms_vocabulary_size (cs_spec e)) ts of
           Some token \<Rightarrow> (Inl (status_failure_at Invalid_argument token), h)
         | None \<Rightarrow>
             (case next_token fo e m (h @ ts) of
                Inl s \<Rightarrow> (Inl s, h)
              | Inr g \<Rightarrow> (Inr g, h @ ts))))"

section \<open>State\<close>

definition engine_state :: "float_ops \<Rightarrow> cpu_smollm2 \<Rightarrow> memory \<Rightarrow> u32 list \<Rightarrow> memory \<Rightarrow> bool" where
  "engine_state fo e m0 h m \<longleftrightarrow>
     engine_layout e \<and> cs_context_length e = of_nat (length h) \<and>
     length h \<le> unat (cs_maximum_context e) \<and> same_outside (engine_cells e) m0 m \<and>
     (\<forall>l < length (cs_layers e). cached_upto fo e m0 (history e m0 h) (length h) l m)"

text \<open>Nothing here depends on the positions and the length of the context.\<close>

lemma engine_update [simp]:
  fixes e :: cpu_smollm2 and ps c
  defines "e' \<equiv> e\<lparr>cs_positions := ps, cs_context_length := c\<rparr>"
  shows "engine_cells e' = engine_cells e" "cached_upto fo e' = cached_upto fo e" "history e' = history e"
    "length ps = length (cs_positions e) \<Longrightarrow> engine_layout e' = engine_layout e"
    "next_token fo e' = next_token fo e" "extend_history fo e' = extend_history fo e"
proof -
  have sizes: "cache_size e' = cache_size e" "execution_size e' = execution_size e" "key_offset e' = key_offset e"
    "value_offset e' = value_offset e" "caches_size e' = caches_size e"
    by (simp_all add: e'_def cache_size_def execution_size_def hidden_size_def key_offset_def value_offset_def
        caches_size_def fun_eq_iff)
  have e': "cs_spec e' = cs_spec e" "cs_kv e' = cs_kv e" "cs_execution e' = cs_execution e"
    "cs_workspace e' = cs_workspace e" "cs_layers e' = cs_layers e" "cs_embedding e' = cs_embedding e"
    "cs_final_norm e' = cs_final_norm e" "cs_output_head e' = cs_output_head e"
    "cs_maximum_context e' = cs_maximum_context e"
    "cs_maximum_prefill_tokens e' = cs_maximum_prefill_tokens e" "cs_positions e' = ps"
    by (simp_all add: e'_def)
  show "engine_cells e' = engine_cells e" by (simp add: engine_cells_def sizes e')
  have vals: "engine_values m e' = engine_values m e" for m by (simp add: engine_values_def e')
  then have rows: "rows_before fo e' = rows_before fo e" by (simp add: rows_before_def e' fun_eq_iff)
  show "cached_upto fo e' = cached_upto fo e"
    by (simp add: cached_upto_def layer_cached_def sizes e' rows fun_eq_iff)
  show h: "history e' = history e" by (simp add: history_def token_vec_def e' fun_eq_iff)
  show n: "next_token fo e' = next_token fo e"
    by (simp add: next_token_def logits_of_def e' vals h fun_eq_iff cong: map_cong)
  show "extend_history fo e' = extend_history fo e" by (intro ext) (simp only: extend_history_def e' n)
  show "length ps = length (cs_positions e) \<Longrightarrow> engine_layout e' = engine_layout e"
    by (simp add: engine_layout_def Let_def kv_region_def execution_region_def engine_weights_def sizes e')
qed

lemma engine_state_update:
  assumes "length ps = length (cs_positions e)"
  shows "engine_state fo (e\<lparr>cs_positions := ps, cs_context_length := of_nat (length h)\<rparr>) m0 h m \<longleftrightarrow>
    engine_layout e \<and> length h \<le> unat (cs_maximum_context e) \<and> same_outside (engine_cells e) m0 m \<and>
    (\<forall>l < length (cs_layers e). cached_upto fo e m0 (history e m0 h) (length h) l m)"
  using assms by (simp add: engine_state_def)

section \<open>Forward\<close>

text \<open>What lies outside the execution buffer survives a change of it.\<close>

lemma cached_upto_kept:
  assumes lay: "engine_layout e" and l: "l < length (cs_layers e)" and c: "c \<le> unat (cs_maximum_context e)"
    and same: "same_outside (cells (hb_data (cs_execution e)) 0 (execution_size e)) m m'"
    and cached: "cached_upto fo e m0 x c l m"
  shows "cached_upto fo e m0 x c l m'"
proof -
  let ?p = "hb_data (cs_kv e)"
  have "cells ?p (key_offset e l) (cache_size e) \<subseteq> cells ?p 0 (caches_size e)"
    "cells ?p (value_offset e l) (cache_size e) \<subseteq> cells ?p 0 (caches_size e)"
    using cache_offsets [OF l] by (intro cells_mono; simp)+
  then show ?thesis
    using buffer_cells_apart(1) [OF lay] cached unfolding cached_upto_def
    by (intro layer_cached_kept [OF _ same c]) blast+
qed

text \<open>The run of accepted tokens up to their logits.\<close>

lemma forward_logits:
  fixes fo :: float_ops
  assumes state: "engine_state fo e m0 h m" and fits: "call_fits e (length h) (length ts)"
    and ts: "\<forall>t \<in> set ts. t < ms_vocabulary_size (cs_spec e)"
  defines "L \<equiv> length (cs_layers e)" and "x \<equiv> history e m0 (h @ ts)"
  shows "\<exists>ps m1 m2 m3. embed_tokens e ts m = (ps, m1) \<and> length ps = length (cs_positions e) \<and>
    run_layers fo e (hidden_rows e (length ts)) (take (length ts) ps) [of_nat (length h + length ts)] 0 (cs_layers e) m1 =
      Some (status_success, m2) \<and>
    output_logits fo e (of_nat (length ts)) m2 = (status_success, m3) \<and>
    same_outside (engine_cells e) m0 m3 \<and>
    (\<forall>l < L. cached_upto fo e m0 x (length h + length ts) l m3) \<and>
    greedy_choice (map (rd m3 (fst (cpu_smollm2_logits e))) [0..<vocabulary e]) = next_token fo e m0 (h @ ts)"
proof -
  let ?c = "length h" and ?n = "length ts"
  let ?X = "cells (hb_data (cs_execution e)) 0 (execution_size e)"
  have lay: "engine_layout e" and len: "cs_context_length e = of_nat ?c" and h: "?c \<le> unat (cs_maximum_context e)"
    and same: "same_outside (engine_cells e) m0 m"
    and cached: "\<forall>l < L. cached_upto fo e m0 (history e m0 h) ?c l m"
    using state by (simp_all add: engine_state_def L_def)
  have n: "0 < ?n" "?n \<le> unat (cs_maximum_prefill_tokens e)" "?c + ?n \<le> unat (cs_maximum_context e)"
    using fits by (simp_all add: call_fits_def)
  have grow: "same_outside (engine_cells e) m0 m''" if "same_outside (engine_cells e) m0 m'" "same_outside ?X m' m''" for m' m''
    by (rule same_outside_trans [OF that]) (auto simp: engine_cells_def)
  from embed_tokens_reference [OF lay fits len ts same]
  obtain ps m1 where embed: "embed_tokens e ts m = (ps, m1)"
    and ps: "take ?n ps = call_positions ?c ?n" "length ps = length (cs_positions e)"
    and m1: "same_outside ?X m m1"
      "holds m1 (hb_data (cs_execution e)) 0 ?n (hidden_width e) (\<lambda>r. token_vec e m0 (ts ! r))"
    by blast
  have x0: "rows_before fo e m0 x 0 = x" by (simp add: rows_before_def hidden_after_def)
  have rows: "holds m1 (hb_data (cs_execution e)) 0 ?n (hidden_width e) (\<lambda>r. rows_before fo e m0 x 0 (?c + r))"
    unfolding x0 by (rule holds_cong [OF m1(2)]) (simp add: x_def history_def nth_append)
  have "cached_upto fo e m0 x ?c l m1" if l: "l < L" for l
  proof -
    have "cached_upto fo e m0 x ?c l m"
      by (rule cached_upto_history [OF lay h _ cached [rule_format, OF l]]) (simp add: x_def history_def nth_append)
    then show ?thesis using l by (intro cached_upto_kept [OF lay _ h m1(1)]) (simp_all add: L_def)
  qed
  then have "\<forall>j < length (cs_layers e). cached_upto fo e m0 x (if j < 0 then ?c + ?n else ?c) j m1" by (simp add: L_def)
  from run_layers_reference [OF lay fits drop_0 grow [OF same m1(1)] rows this]
  obtain m2 where m2: "run_layers fo e (hidden_rows e ?n) (call_positions ?c ?n) [of_nat (?c + ?n)] 0 (cs_layers e) m1 =
      Some (status_success, m2)" "same_outside (engine_cells e) m0 m2"
    and rows2: "holds m2 (hb_data (cs_execution e)) 0 ?n (hidden_width e) (\<lambda>r. rows_before fo e m0 x L (?c + r))"
    and cached2: "\<forall>j < L. cached_upto fo e m0 x (?c + ?n) j m2"
    unfolding L_def by blast
  from output_logits_reference [OF lay n(1,2) m2(2) rows2]
  obtain m3 where m3: "output_logits fo e (of_nat ?n) m2 = (status_success, m3)" "same_outside ?X m2 m3"
    and logits: "\<forall>j < vocabulary e. rd m3 (fst (cpu_smollm2_logits e)) j =
      logits_of fo e m0 (rows_before fo e m0 x L (?c + (?n - 1))) j" by blast
  have "\<forall>l < L. cached_upto fo e m0 x (?c + ?n) l m3"
    using cached2 cached_upto_kept [OF lay _ n(3) m3(2)] unfolding L_def by blast
  moreover have "rows_before fo e m0 x L = hidden_after fo (engine_spec e) (engine_values m0 e) x"
    by (simp add: rows_before_def L_def engine_values_def)
  then have "map (rd m3 (fst (cpu_smollm2_logits e))) [0..<vocabulary e] =
      map (logits_of fo e m0 (hidden_after fo (engine_spec e) (engine_values m0 e) x (length (h @ ts) - 1))) [0..<vocabulary e]"
    using logits n(1) by simp
  then have "greedy_choice (map (rd m3 (fst (cpu_smollm2_logits e))) [0..<vocabulary e]) = next_token fo e m0 (h @ ts)"
    by (simp only: next_token_def x_def)
  ultimately show ?thesis
    using embed ps(2) m2(1) [folded ps(1)] m3(1) grow [OF m2(2) m3(2)] by blast
qed

lemma forward_reference:
  fixes fo :: float_ops
  assumes state: "engine_state fo e m0 h m"
  shows "\<exists>ps h' m'. cpu_smollm2_forward fo e ts m =
      Some (fst (extend_history fo e m0 ts h), e\<lparr>cs_positions := ps, cs_context_length := of_nat (length h')\<rparr>, m') \<and>
    h' = snd (extend_history fo e m0 ts h) \<and> length ps = length (cs_positions e) \<and>
    engine_state fo (e\<lparr>cs_positions := ps, cs_context_length := of_nat (length h')\<rparr>) m0 h' m'"
proof -
  have lay: "engine_layout e" and len: "cs_context_length e = of_nat (length h)"
    and h: "length h \<le> unat (cs_maximum_context e)" and same: "same_outside (engine_cells e) m0 m"
    and cached: "\<forall>l < length (cs_layers e). cached_upto fo e m0 (history e m0 h) (length h) l m"
    using state by (simp_all add: engine_state_def)
  let ?n = "length ts"
  have unchanged: "e\<lparr>cs_positions := cs_positions e, cs_context_length := of_nat (length h)\<rparr> = e"
    using len by simp
  have u: "unat (of_nat (length h) :: u32) = length h"
    using h unat_u32_lt [of "cs_maximum_context e"] by (intro unat_u32_of_nat) simp
  have room: "unat (cs_maximum_context e - cs_context_length e) = unat (cs_maximum_context e) - length h"
    using h u by (simp add: len unat_word_minus word_le_nat_alt)
  have guard: "ts = [] \<or> ?n > unat (cs_maximum_prefill_tokens e) \<or> ?n > unat (cs_maximum_context e - cs_context_length e) \<longleftrightarrow>
      ts = [] \<or> ?n > unat (cs_maximum_prefill_tokens e) \<or> length h + ?n > unat (cs_maximum_context e)"
    unfolding room using h by auto
  show ?thesis
  proof (cases "ts = [] \<or> ?n > unat (cs_maximum_prefill_tokens e) \<or> length h + ?n > unat (cs_maximum_context e)")
    case True
    then have "cpu_smollm2_forward fo e ts m = Some (fail Invalid_argument, e, m)"
      unfolding cpu_smollm2_forward_def guard by simp
    moreover have "extend_history fo e m0 ts h = (fail Invalid_argument, h)"
      using True by (simp add: extend_history_def)
    ultimately show ?thesis using state unchanged by (metis fst_conv snd_conv)
  next
    case fits': False
    then have fits: "call_fits e (length h) ?n" by (simp add: call_fits_def)
    show ?thesis
    proof (cases "List.find (\<lambda>token. token \<ge> ms_vocabulary_size (cs_spec e)) ts")
      case (Some token)
      then have "cpu_smollm2_forward fo e ts m = Some (Inl (status_failure_at Invalid_argument token), e, m)"
        unfolding cpu_smollm2_forward_def guard using fits' by simp
      moreover have "extend_history fo e m0 ts h = (Inl (status_failure_at Invalid_argument token), h)"
        using Some fits' by (simp add: extend_history_def)
      ultimately show ?thesis using state unchanged by (metis fst_conv snd_conv)
    next
      case None
      then have ts: "\<forall>t \<in> set ts. t < ms_vocabulary_size (cs_spec e)" by (auto simp: find_None_iff not_le)
      from forward_logits [OF state fits ts]
      obtain ps m1 m2 m3 where embed: "embed_tokens e ts m = (ps, m1)" and ps: "length ps = length (cs_positions e)"
        and run: "run_layers fo e (hidden_rows e ?n) (take ?n ps) [of_nat (length h + ?n)] 0 (cs_layers e) m1 =
          Some (status_success, m2)" "output_logits fo e (of_nat ?n) m2 = (status_success, m3)"
        and same3: "same_outside (engine_cells e) m0 m3"
        and cached3: "\<forall>l < length (cs_layers e). cached_upto fo e m0 (history e m0 (h @ ts)) (length h + ?n) l m3"
        and choice: "greedy_choice (map (rd m3 (fst (cpu_smollm2_logits e))) [0..<vocabulary e]) = next_token fo e m0 (h @ ts)"
        by blast
      have count: "(ucast (of_nat ?n :: u64) :: u32) = of_nat ?n" 
        using hidden_rows_simps(8) [OF lay fits] by (metis of_nat_unat)
      have view: "make_f32_view (hb_data (cs_execution e)) [1, of_nat ?n, ucast (ms_hidden_size (cs_spec e))] = hidden_rows e ?n"
        by (simp add: hidden_rows_def)
      have logits: "cpu_smollm2_logits e = (fst (cpu_smollm2_logits e), ucast (ms_vocabulary_size (cs_spec e)))"
        by (simp add: cpu_smollm2_logits_def)
      have forward: "cpu_smollm2_forward fo e ts m =
          (case next_token fo e m0 (h @ ts) of
             Inl failed \<Rightarrow> Some (Inl failed, e\<lparr>cs_positions := ps\<rparr>, m3)
           | Inr g \<Rightarrow> Some (Inr g, e\<lparr>cs_positions := ps, cs_context_length := of_nat (length h + ?n)\<rparr>, m3))"
        unfolding cpu_smollm2_forward_def guard if_not_P [OF fits']
        unfolding None option.case Let_def embed prod.case count len
          of_nat_add [symmetric] view run(1)
        by (subst logits) (simp add: run(2) choice)
      have extend: "extend_history fo e m0 ts h =
          (case next_token fo e m0 (h @ ts) of Inl s \<Rightarrow> (Inl s, h) | Inr g \<Rightarrow> (Inr g, h @ ts))"
        unfolding extend_history_def if_not_P [OF fits'] None by simp
      have "\<forall>l < length (cs_layers e). cached_upto fo e m0 (history e m0 h) (length h) l m3"
      proof (intro allI impI)
        fix l assume "l < length (cs_layers e)"
        then have "cached_upto fo e m0 (history e m0 (h @ ts)) (length h) l m3"
          using cached3 layer_cached_less unfolding cached_upto_def by (meson le_add1)
        then show "cached_upto fo e m0 (history e m0 h) (length h) l m3"
          by (rule cached_upto_history [OF lay h, rotated]) (simp add: history_def nth_append)
      qed
      then have keep: "engine_state fo (e\<lparr>cs_positions := ps, cs_context_length := of_nat (length h)\<rparr>) m0 h m3"
        using lay h same3 by (simp only: engine_state_update [OF ps])
      have more: "engine_state fo (e\<lparr>cs_positions := ps, cs_context_length := of_nat (length (h @ ts))\<rparr>) m0 (h @ ts) m3"
        unfolding engine_state_update [OF ps] using lay same3 cached3 fits by (simp add: call_fits_def)
      show ?thesis
      proof (cases "next_token fo e m0 (h @ ts)")
        case (Inl s)
        have "e\<lparr>cs_positions := ps\<rparr> = e\<lparr>cs_positions := ps, cs_context_length := of_nat (length h)\<rparr>" using len by simp
        then show ?thesis
          unfolding extend forward Inl sum.case
          by (intro exI [of _ ps] exI [of _ h] exI [of _ m3] conjI) (use keep ps in simp_all)
      next
        case (Inr g)
        then show ?thesis using more ps by (simp only: forward [folded length_append] extend Inr sum.case fst_conv snd_conv) blast
      qed
    qed
  qed
qed


section \<open>Calls\<close>

datatype engine_call = Reset_call | Prefill_call "u32 list" | Decode_call u32

text \<open>One call: its answer, none for a reset, and the engine and memory after it.\<close>

fun engine_step ::
  "float_ops \<Rightarrow> engine_call \<Rightarrow> cpu_smollm2 \<Rightarrow> memory \<Rightarrow> (greedy_token result option \<times> cpu_smollm2 \<times> memory) option" where
  "engine_step fo Reset_call e m = (let (s, e', m') = cpu_smollm2_reset e m in Some (None, e', m'))"
| "engine_step fo (Prefill_call ts) e m = map_option (\<lambda>(r, s). (Some r, s)) (cpu_smollm2_prefill fo e ts m)"
| "engine_step fo (Decode_call t) e m = map_option (\<lambda>(r, s). (Some r, s)) (cpu_smollm2_decode fo e t m)"

fun engine_run ::
  "float_ops \<Rightarrow> engine_call list \<Rightarrow> cpu_smollm2 \<Rightarrow> memory \<Rightarrow>
     (greedy_token result option list \<times> cpu_smollm2 \<times> memory) option" where
  "engine_run fo [] e m = Some ([], e, m)"
| "engine_run fo (call # calls) e m =
     (case engine_step fo call e m of
        None \<Rightarrow> None
      | Some (r, e', m') \<Rightarrow> map_option (\<lambda>(rs, s). (r # rs, s)) (engine_run fo calls e' m'))"

text \<open>The same calls on the history of tokens alone.\<close>

fun history_step ::
  "float_ops \<Rightarrow> cpu_smollm2 \<Rightarrow> memory \<Rightarrow> engine_call \<Rightarrow> u32 list \<Rightarrow> greedy_token result option \<times> u32 list" where
  "history_step fo e m Reset_call h = (None, [])"
| "history_step fo e m (Prefill_call ts) h =
     (if h \<noteq> [] then (Some (fail Invalid_argument), h) else apfst Some (extend_history fo e m ts h))"
| "history_step fo e m (Decode_call t) h =
     (if h = [] then (Some (fail Invalid_argument), h) else apfst Some (extend_history fo e m [t] h))"

fun history_run ::
  "float_ops \<Rightarrow> cpu_smollm2 \<Rightarrow> memory \<Rightarrow> engine_call list \<Rightarrow> u32 list \<Rightarrow>
     greedy_token result option list \<times> u32 list" where
  "history_run fo e m [] h = ([], h)"
| "history_run fo e m (call # calls) h =
     (let (r, h') = history_step fo e m call h; (rs, h'') = history_run fo e m calls h' in (r # rs, h''))"

lemma zero_buffer_put:
  "zero_buffer b m = put (hb_data b) 0 (unat (hb_size b) div 4) (\<lambda>_. f32_zero) m"
  using fold_wr_const [of 0 "unat (hb_size b) div 4" "hb_data b" 0 f32_zero m] by (simp add: zero_buffer_def)

text \<open>The cache buffer holds exactly the caches.\<close>

definition engine_sized :: "cpu_smollm2 \<Rightarrow> bool" where
  "engine_sized e \<longleftrightarrow> unat (hb_size (cs_kv e)) div 4 \<le> caches_size e"

lemma reset_reference:
  assumes state: "engine_state fo e m0 h m" and sized: "engine_sized e"
  shows "\<exists>m'. cpu_smollm2_reset e m = (status_success, e\<lparr>cs_context_length := 0\<rparr>, m') \<and>
    engine_state fo (e\<lparr>cs_context_length := 0\<rparr>) m0 [] m'"
proof -
  let ?m = "zero_buffer (cs_kv e) m"
  have "cells (hb_data (cs_kv e)) 0 (unat (hb_size (cs_kv e)) div 4) \<subseteq> engine_cells e"
    using sized cells_mono [of 0 0 "unat (hb_size (cs_kv e)) div 4" "caches_size e"]
    by (auto simp: engine_sized_def engine_cells_def)
  then have "same_outside (engine_cells e) m0 ?m"
    using state unfolding zero_buffer_put by (intro same_outside_put_in) (simp_all add: engine_state_def)
  moreover have "cached_upto fo e m0 x 0 l ?m" for x l
    by (simp add: cached_upto_def layer_cached_def holds_def)
  ultimately have "engine_state fo (e\<lparr>cs_positions := cs_positions e, cs_context_length := of_nat (length ([] :: u32 list))\<rparr>) m0 [] ?m"
    using state by (intro iffD2 [OF engine_state_update [OF refl]]) (simp add: engine_state_def)
  then show ?thesis by (simp add: cpu_smollm2_reset_def)
qed


text \<open>The engine after a call differs in its positions and context only.\<close>

definition engine_after :: "cpu_smollm2 \<Rightarrow> cpu_smollm2 \<Rightarrow> bool" where
  "engine_after e e' \<longleftrightarrow>
     (\<exists>ps c. e' = e\<lparr>cs_positions := ps, cs_context_length := c\<rparr> \<and> length ps = length (cs_positions e))"

lemma engine_afterI:
  "length ps = length (cs_positions e) \<Longrightarrow> engine_after e (e\<lparr>cs_positions := ps, cs_context_length := c\<rparr>)"
  "engine_after e (e\<lparr>cs_context_length := c\<rparr>)" "engine_after e e"
proof -
  show "length ps = length (cs_positions e) \<Longrightarrow> engine_after e (e\<lparr>cs_positions := ps, cs_context_length := c\<rparr>)"
    by (auto simp: engine_after_def)
  show "engine_after e (e\<lparr>cs_context_length := c\<rparr>)"
    unfolding engine_after_def by (intro exI [of _ "cs_positions e"] exI [of _ c]) simp
  show "engine_after e e"
    unfolding engine_after_def by (intro exI [of _ "cs_positions e"] exI [of _ "cs_context_length e"]) simp
qed

lemma engine_afterD:
  assumes "engine_after e e'"
  shows "engine_cells e' = engine_cells e" "engine_sized e' = engine_sized e"
    "history_step fo e' m call h = history_step fo e m call h"
    "history_run fo e' m calls h = history_run fo e m calls h" "cs_maximum_context e' = cs_maximum_context e"
proof -
  obtain ps c where e': "e' = e\<lparr>cs_positions := ps, cs_context_length := c\<rparr>"
    using assms by (auto simp: engine_after_def)
  show "engine_cells e' = engine_cells e" by (simp add: e')
  show "engine_sized e' = engine_sized e" "cs_maximum_context e' = cs_maximum_context e"
    by (simp_all add: e' engine_sized_def caches_size_def cache_size_def)
  have step: "history_step fo e' m call h = history_step fo e m call h" for call h
    by (cases call) (simp_all add: e')
  then show "history_step fo e' m call h = history_step fo e m call h" .
  show "history_run fo e' m calls h = history_run fo e m calls h"
    by (induction calls arbitrary: h) (simp_all add: step split: prod.splits)
qed

lemma engine_step_reference:
  assumes state: "engine_state fo e m0 h m" and sized: "engine_sized e"
  shows "\<exists>e' m'. engine_step fo call e m = Some (fst (history_step fo e m0 call h), e', m') \<and>
    engine_state fo e' m0 (snd (history_step fo e m0 call h)) m' \<and> engine_after e e'"
proof -
  have "length h < 2 ^ 32" using state unat_u32_lt [of "cs_maximum_context e"] by (simp add: engine_state_def)
  then have "unat (of_nat (length h) :: u32) = length h" by (rule unat_u32_of_nat)
  then have empty: "cs_context_length e = 0 \<longleftrightarrow> h = []"
    using state by (auto simp: engine_state_def simp flip: unat_eq_0)
  have forward: "\<exists>e' m'. cpu_smollm2_forward fo e ts m = Some (fst (extend_history fo e m0 ts h), e', m') \<and>
      engine_state fo e' m0 (snd (extend_history fo e m0 ts h)) m' \<and> engine_after e e'" for ts
    using forward_reference [OF state, of ts] engine_afterI(1) by blast
  have refused: "Some (fail Invalid_argument, e, m) = Some (r, e', m') \<Longrightarrow> engine_after e e'" for r e' m'
    using engine_afterI(3) by simp
  show ?thesis
  proof (cases call)
    case Reset_call
    then show ?thesis using reset_reference [OF state sized] engine_afterI(2) [of e 0] by (auto simp: Let_def)
  next
    case (Prefill_call ts)
    show ?thesis
    proof (cases "h \<noteq> [] \<or> ts = [] \<or> length ts > unat (cs_maximum_prefill_tokens e)")
      case True
      then have "cpu_smollm2_prefill fo e ts m = Some (fail Invalid_argument, e, m)"
        unfolding cpu_smollm2_prefill_def empty by simp
      moreover have "history_step fo e m0 (Prefill_call ts) h = (Some (fail Invalid_argument), h)"
        using True by (auto simp: extend_history_def)
      ultimately show ?thesis using Prefill_call state engine_afterI(3) [of e] by simp
    next
      case False
      then have "cpu_smollm2_prefill fo e ts m = cpu_smollm2_forward fo e ts m"
        unfolding cpu_smollm2_prefill_def empty by simp
      then show ?thesis using forward [of ts] False Prefill_call by auto
    qed
  next
    case (Decode_call t)
    show ?thesis
    proof (cases "h = []")
      case True
      then have "cpu_smollm2_decode fo e t m = Some (fail Invalid_argument, e, m)"
        unfolding cpu_smollm2_decode_def empty by simp
      then show ?thesis using True Decode_call state engine_afterI(3) [of e] by simp
    next
      case False
      then have "cpu_smollm2_decode fo e t m = cpu_smollm2_forward fo e [t] m"
        unfolding cpu_smollm2_decode_def empty by simp
      then show ?thesis using forward [of "[t]"] False Decode_call by auto
    qed
  qed
qed

lemma engine_run_reference:
  assumes "engine_state fo e m0 h m" "engine_sized e"
  shows "\<exists>e' m'. engine_run fo calls e m = Some (fst (history_run fo e m0 calls h), e', m') \<and>
    engine_state fo e' m0 (snd (history_run fo e m0 calls h)) m' \<and> engine_after e e'"
  using assms
proof (induction calls arbitrary: e h m)
  case Nil
  then show ?case using engine_afterI(3) [of e] by simp
next
  case (Cons call calls)
  from engine_step_reference [OF Cons.prems, of call] obtain e1 m1
    where step: "engine_step fo call e m = Some (fst (history_step fo e m0 call h), e1, m1)"
      "engine_state fo e1 m0 (snd (history_step fo e m0 call h)) m1" "engine_after e e1" by blast
  note after = engine_afterD [OF step(3)]
  have "engine_sized e1" using after(2) Cons.prems(2) by simp
  from Cons.IH [OF step(2) this, unfolded after(4)] obtain e2 m2
    where run: "engine_run fo calls e1 m1 =
        Some (fst (history_run fo e m0 calls (snd (history_step fo e m0 call h))), e2, m2)"
      "engine_state fo e2 m0 (snd (history_run fo e m0 calls (snd (history_step fo e m0 call h)))) m2"
      "engine_after e1 e2" by blast
  have "engine_after e e2"
    using step(3) run(3) unfolding engine_after_def by fastforce
  then show ?case using step(1) run(1,2) by (simp add: split_beta Let_def)
qed

end
