(* ===== verification/CpuDemo.thy ===== *)
theory CpuDemo
  imports CpuEngineProps
begin

text \<open>
  A small engine, of one layer, two hidden elements and one token, whose memory has the layout
  the theorems ask for, and the decoder layer run on it.
\<close>

definition demo_spec :: model_spec where
  "demo_spec = \<lparr>ms_architecture = Smollm2_llama, ms_layers = 1, ms_hidden_size = 2,
     ms_intermediate_size = 1, ms_query_heads = 1, ms_kv_heads = 1, ms_head_dim = 2,
     ms_vocabulary_size = 1, ms_max_positions = 8, ms_rms_norm_epsilon = 0x3727C5AC,
     ms_rope_theta = 0x47C35000, ms_qkv_bias = False, ms_tied_embeddings = True\<rparr>"

definition demo_layer :: layer_weights where
  "demo_layer = \<lparr>lw_input_norm = make_f32_view 4128 [2],
     lw_attention = \<lparr>aw_query = make_f32_view 4160 [2, 2], aw_key = make_f32_view 4192 [2, 2],
       aw_value = make_f32_view 4224 [2, 2], aw_output = make_f32_view 4256 [2, 2]\<rparr>,
     lw_post_attention_norm = make_f32_view 4288 [2],
     lw_mlp = \<lparr>mw_gate = make_f32_view 4320 [1, 2], mw_up = make_f32_view 4352 [1, 2],
       mw_down = make_f32_view 4384 [2, 1]\<rparr>\<rparr>"

definition demo_buffer :: "u64 \<Rightarrow> u64 \<Rightarrow> host_buffer" where
  "demo_buffer p n = \<lparr>hb_data = p, hb_size = n, hb_alignment = 64\<rparr>"

definition demo_engine :: cpu_smollm2 where
  "demo_engine = \<lparr>cs_spec = demo_spec, cs_fp32_weights = demo_buffer 4096 320,
     cs_embedding = make_f32_view 4096 [1, 2], cs_final_norm = make_f32_view 4112 [2],
     cs_output_head = make_f32_view 4096 [1, 2], cs_layers = [demo_layer],
     cs_kv = demo_buffer 8192 64, cs_execution = demo_buffer 12288 28,
     cs_workspace = \<lparr>ws_storage = demo_buffer 16384 112, ws_capacity = 28\<rparr>,
     cs_positions = [0, 0], cs_maximum_context = 4, cs_maximum_prefill_tokens = 2,
     cs_context_length = 0,
     cs_memory = \<lparr>cm_fp32_weight_bytes = 320, cm_kv_bytes = 64, cm_execution_bytes = 28,
       cm_workspace_bytes = 112, cm_position_bytes = 8, cm_layer_view_bytes = 0,
       cm_total_owned_bytes = 532\<rparr>\<rparr>"

lemma demo_engine_fields [simp]:
  "cs_spec demo_engine = demo_spec" "cs_layers demo_engine = [demo_layer]"
  "cs_maximum_context demo_engine = 4" "cs_maximum_prefill_tokens demo_engine = 2"
  "cs_context_length demo_engine = 0" "cs_positions demo_engine = [0, 0]"
  "cs_kv demo_engine = demo_buffer 8192 64" "cs_execution demo_engine = demo_buffer 12288 28"
  "cs_workspace demo_engine = \<lparr>ws_storage = demo_buffer 16384 112, ws_capacity = 28\<rparr>"
  "hb_data (demo_buffer p n) = p" "hb_size (demo_buffer p n) = n"
  "ms_hidden_size demo_spec = 2" "ms_kv_heads demo_spec = 1" "ms_head_dim demo_spec = 2"
  "ms_vocabulary_size demo_spec = 1" "ms_max_positions demo_spec = 8" "ms_query_heads demo_spec = 1"
  "ms_intermediate_size demo_spec = 1" "ms_rms_norm_epsilon demo_spec = 0x3727C5AC"
  "ms_rope_theta demo_spec = 0x47C35000"
  by (simp_all add: demo_engine_def demo_buffer_def demo_spec_def)

lemma demo_sizes [simp]:
  "cache_size demo_engine = 8" "caches_size demo_engine = 16" "execution_size demo_engine = 7"
  by (simp_all add: cache_size_def caches_size_def execution_size_def hidden_size_def)

lemma demo_disjoint:
  assumes "p \<noteq> 0" "length es \<le> max_rank" "length es' \<le> max_rank"
    "unat p + 4 * prod_list (map unat es) \<le> unat q" "unat q + 4 * prod_list (map unat es') < 2 ^ 64"
  shows "disjoint_views (make_f32_view p es) (make_f32_view q es')"
  using assms by (simp add: disjoint_views_def in_memory_def apart_def make_f32_view_simps)

lemma demo_weight:
  assumes "p \<noteq> 0" "length es \<le> max_rank" "0 \<notin> set es" "4 * prod_list (map unat es) < 2 ^ 64"
  shows "weight_accepts (make_f32_view p es) es"
  using assms by (simp add: weight_accepts_def has_shape_def make_f32_view_ok make_f32_view_simps)

lemma demo_engine_layout: "engine_layout demo_engine"
proof -
  have spec: "layer_spec_ok (layer_spec_of demo_spec)"
    by (simp add: layer_spec_ok_def f32_is_finite_def f32_not_positive_def)
  have ws: "layer_workspace (layer_spec_of demo_spec) 2 4 \<le> 28"
    by (simp add: layer_workspace_def hidden_floats_def kv_floats_def logit_floats_def intermediate_floats_def)
  have regions: "kv_region demo_engine = make_f32_view 8192 [16]"
    "execution_region demo_engine = make_f32_view 12288 [7]"
    by (simp_all add: kv_region_def execution_region_def region_def)
  let ?w = "[(4096, [1, 2]), (4112, [2]), (4096, [1, 2]), (4128, [2]), (4160, [2, 2]), (4192, [2, 2]), (4224, [2, 2]),
      (4256, [2, 2]), (4288, [2]), (4320, [1, 2]), (4352, [1, 2]), (4384, [2, 1])] :: (u64 \<times> u64 list) list"
  have weights: "engine_weights demo_engine = map (\<lambda>(p, es). make_f32_view p es) ?w"
    by (simp add: engine_weights_def demo_engine_def layer_views_def demo_layer_def)
  have places: "\<forall>(p, es) \<in> set ?w. p \<noteq> 0 \<and> length es \<le> max_rank \<and> unat p + 4 * prod_list (map unat es) \<le> 8192"
    by (simp add: max_rank_def)
  have apart: "\<forall>w \<in> set (engine_weights demo_engine). disjoint_views w (make_f32_view 8192 [16]) \<and>
      disjoint_views w (make_f32_view 12288 [7]) \<and> disjoint_views w (make_f32_view 16384 [28])"
  proof
    fix w assume "w \<in> set (engine_weights demo_engine)"
    then obtain p es where "w = make_f32_view p es" "p \<noteq> 0" "length es \<le> max_rank"
      "unat p + 4 * prod_list (map unat es) \<le> 8192" using places unfolding weights by auto
    then show "disjoint_views w (make_f32_view 8192 [16]) \<and>
      disjoint_views w (make_f32_view 12288 [7]) \<and> disjoint_views w (make_f32_view 16384 [28])"
      by (auto simp: max_rank_def intro!: demo_disjoint)
  qed
  have buffers: "disjoint_views (make_f32_view 8192 [16]) (make_f32_view 12288 [7])"
    "disjoint_views (make_f32_view 8192 [16]) (make_f32_view 16384 [28])"
    "disjoint_views (make_f32_view 12288 [7]) (make_f32_view 16384 [28])"
    by (rule demo_disjoint; simp add: max_rank_def)+
  have layer: "list_all2 weight_accepts (layer_views demo_layer) (weight_shapes (layer_spec_of demo_spec))"
    by (simp add: layer_views_def demo_layer_def weight_shapes_def Let_def demo_weight max_rank_def)
  have rest: "weight_accepts (cs_embedding demo_engine) [1, 2]" "weight_accepts (cs_final_norm demo_engine) [2]"
    "weight_accepts (cs_output_head demo_engine) [1, 2]"
    by (simp_all add: demo_engine_def demo_weight max_rank_def)
  show ?thesis
    unfolding engine_layout_def Let_def regions
    using spec ws apart buffers layer rest by (simp add: fits_behind_def)
qed

lemma demo_engine_sized: "engine_sized demo_engine"
  by (simp add: engine_sized_def)

lemma demo_call: "call_fits demo_engine 0 1"
  by (simp add: call_fits_def)

theorem decoder_layer_exact_witness:
  "\<forall>fo m. \<exists>m'. smollm2_decoder_layer_f32 fo demo_layer (layer_spec_of demo_spec) (hidden_rows demo_engine 1)
     (layer_cache demo_engine 0) [0] [1] (cs_workspace demo_engine) None m = Some (status_success, m')"
proof (intro allI)
  fix fo :: float_ops and m :: memory
  note accepts = call_accepts [OF demo_engine_layout _ demo_call, of 0, simplified]
  have "call_positions 0 (Suc 0) = [0]" by (simp add: call_positions_def)
  then show "\<exists>m'. smollm2_decoder_layer_f32 fo demo_layer (layer_spec_of demo_spec) (hidden_rows demo_engine 1)
     (layer_cache demo_engine 0) [0] [1] (cs_workspace demo_engine) None m = Some (status_success, m')"
    using decoder_layer_exact [OF accepts(2), where fo = fo and spec = "layer_spec_of demo_spec" and
        workspace = "cs_workspace demo_engine" and m = m] accepts(1)
    by (auto split: option.splits)
qed

end
