(* ===== verification/CpuClaims.thy ===== *)
theory CpuClaims
  imports CpuKernelProps CpuWorkspace CpuSmolLm2
begin

text \<open>
  The kernels element by element: on which operands each succeeds, which value every element
  of its output then has, that it writes nothing else, and that it writes nothing at all on
  any other operands.
\<close>

section \<open>Matrices\<close>

lemma put_same_outside: "same_outside (cells p 0 n) m (put p 0 n g m)"
  by (simp add: same_outside_def put_def)

text \<open>
  (C38) \<open>linear_f32\<close> multiplies matrices: on operands whose extents agree and whose output lies
  apart, element \<open>(r, j)\<close> of the output becomes the inner product of row \<open>r\<close> of the input and
  row \<open>j\<close> of the weight, and nothing else is written. On any other operands it fails and
  writes nothing.
\<close>

theorem linear_exact:
  assumes "array_view input" "array_view weight" "array_view out"
  shows "case linear_f32 fo input weight out m of (s, m') \<Rightarrow>
    let width = unat (extent input 1); columns = unat (extent weight 0)
    in if linear_accepts input weight out
       then s = status_success \<and> same_outside (cells_of out) m m' \<and>
         (\<forall>r < unat (extent input 0). \<forall>j < columns.
            rd m' (tv_data out) (r * columns + j) =
              dot fo width (row_of (rd m (tv_data input)) width r) (row_of (rd m (tv_data weight)) width j))
       else \<not> status_ok s \<and> m' = m"
proof (cases "linear_accepts input weight out")
  case True
  then have "numel out = unat (extent input 0) * unat (extent weight 0)"
    using numel_rank(2) [OF assms(3)] by (simp add: linear_accepts_def)
  then show ?thesis
    using linear_f32_cases [OF assms, of fo m] True put_same_outside
    by (simp add: linear_result_def row_bound linear_vec_def Let_def)
next
  case False
  then show ?thesis using linear_f32_cases [OF assms, of fo m] by (auto simp: Let_def)
qed

abbreviation demo_view :: "u64 \<Rightarrow> u64 list \<Rightarrow> tensor_view" where
  "demo_view p es \<equiv> make_f32_view p es"

lemma demo_views:
  "f32_view (demo_view 4096 [2, 1])" "f32_view (demo_view 8192 [2, 1])" "f32_view (demo_view 12288 [2, 2])"
  by (rule make_f32_view_ok; simp add: max_rank_def)+

theorem linear_exact_witness:
  "\<forall>fo m. \<exists>m'. linear_f32 fo (demo_view 4096 [2, 1]) (demo_view 8192 [2, 1]) (demo_view 12288 [2, 2]) m =
     (status_success, m') \<and>
     rd m' 12288 3 = fl_add fo f32_zero (fl_mul fo (rd m 4096 1) (rd m 8192 1))"
proof (intro allI)
  fix fo :: float_ops and m :: memory
  let ?a = "demo_view 4096 [2, 1]" and ?b = "demo_view 8192 [2, 1]" and ?c = "demo_view 12288 [2, 2]"
  have accepts: "linear_accepts ?a ?b ?c"
    using demo_views by (simp add: linear_accepts_def make_f32_view_simps max_rank_def in_memory_def apart_def)
  have arrays: "array_view ?a" "array_view ?b" "array_view ?c"
    by (simp_all add: make_f32_view_simps max_rank_def)
  obtain s m' where run: "linear_f32 fo ?a ?b ?c m = (s, m')" by fastforce
  have dims: "extent ?a 0 = 2" "extent ?a 1 = 1" "extent ?b 0 = 2" "tv_data ?a = 4096" "tv_data ?b = 8192"
    "tv_data ?c = 12288" by (simp_all add: make_f32_view_simps max_rank_def)
  have "s = status_success \<and> (\<forall>r < 2. \<forall>j < 2. rd m' 12288 (r * 2 + j) =
      dot fo 1 (row_of (rd m 4096) 1 r) (row_of (rd m 8192) 1 j))"
    using linear_exact [OF arrays, where fo = fo and m = m] accepts
    unfolding run prod.case Let_def dims by simp
  then show "\<exists>m'. linear_f32 fo ?a ?b ?c m = (status_success, m') \<and>
      rd m' 12288 3 = fl_add fo f32_zero (fl_mul fo (rd m 4096 1) (rd m 8192 1))"
    using run by (auto simp: dot_def row_of_def dest!: spec [of _ 1])
qed

section \<open>Softmax\<close>

text \<open>
  (C39) \<open>softmax_f32\<close> maps the first elements of each row, as many as its length says, to their
  exponentials relative to the largest of them, divided by their sum, and clears the rest of
  the row, also when input and output are the same tensor. If an extent or a length is wrong,
  if the tensors overlap otherwise or if one of the elements that count is not finite, it
  fails and writes nothing.
\<close>

theorem softmax_exact:
  assumes "array_view input" "array_view out"
  shows "case softmax_f32 fo input valid_lengths out m of (s, m') \<Rightarrow>
    let n = unat (extent input 1); x = row_of (rd m (tv_data input)) n
    in if softmax_accepts input valid_lengths out m
       then s = status_success \<and> same_outside (cells_of out) m m' \<and>
         (\<forall>r < unat (extent input 0). \<forall>j < n. rd m' (tv_data out) (r * n + j) =
            (if j < unat (valid_lengths ! r) then softmax_vec fo (unat (valid_lengths ! r)) (x r) j
             else f32_zero))
       else \<not> status_ok s \<and> m' = m"
proof (cases "softmax_accepts input valid_lengths out m")
  case True
  then have "numel out = unat (extent input 0) * unat (extent input 1)"
    using numel_rank(2) [OF assms(1)] by (simp add: softmax_accepts_def numel_def)
  then show ?thesis
    using softmax_f32_cases [OF assms, of valid_lengths m fo] True put_same_outside
    by (simp add: softmax_result_def row_bound Let_def)
next
  case False
  then show ?thesis using softmax_f32_cases [OF assms, of valid_lengths m fo] by (auto simp: Let_def)
qed

text \<open>In place on one row of two elements, of which the first counts.\<close>

definition zero_memory :: memory where
  "zero_memory = (\<lambda>_. f32_zero)"

theorem softmax_exact_witness:
  "\<forall>fo. \<exists>m'. softmax_f32 fo (demo_view 4096 [1, 2]) [1] (demo_view 4096 [1, 2]) zero_memory =
     (status_success, m') \<and> rd m' 4096 1 = f32_zero"
proof
  fix fo :: float_ops
  let ?a = "demo_view 4096 [1, 2]"
  have f32: "f32_view ?a" by (rule make_f32_view_ok; simp add: max_rank_def)
  have dims: "extent ?a 0 = 1" "extent ?a 1 = 2" "tv_data ?a = 4096" "array_view ?a" "rank ?a = 2" "numel ?a = 2"
    by (simp_all add: make_f32_view_simps max_rank_def)
  have accepts: "softmax_accepts ?a [1] ?a zero_memory"
    unfolding softmax_accepts_def dims in_memory_def apart_def
    using f32 by (simp add: rd_def zero_memory_def f32_is_finite_def)
  obtain s m' where run: "softmax_f32 fo ?a [1] ?a zero_memory = (s, m')" by fastforce
  have "s = status_success \<and> (\<forall>r < 1. \<forall>j < 2. rd m' 4096 (r * 2 + j) =
      (if j < unat ([1 :: u32] ! r)
       then softmax_vec fo (unat ([1 :: u32] ! r)) (row_of (rd zero_memory 4096) 2 r) j else f32_zero))"
    using softmax_exact [OF dims(4) dims(4), where fo = fo and m = zero_memory and valid_lengths = "[1]"] accepts
    unfolding run prod.case Let_def dims by simp
  then show "\<exists>m'. softmax_f32 fo ?a [1] ?a zero_memory = (status_success, m') \<and> rd m' 4096 1 = f32_zero"
    using run by auto
qed

section \<open>Rotary embedding\<close>

text \<open>
  \<open>apply_rope_f32\<close> rotates in place, in every head of every query and key row, the element
  of each dimension of the first half against that of the second half by the angle of its
  dimension at the position of the row. It writes nothing else, and nothing at all if an
  extent, a position or the parameters are out of range, the head dimension is odd or the
  tensors overlap.
\<close>

theorem rope_exact:
  assumes "array_view query" "array_view key" "length positions < 2 ^ 64"
  shows "case apply_rope_f32 fo query key positions spec m of (s, m') \<Rightarrow>
    let width = (\<lambda>v. unat (extent v 2) * unat (extent v 3))
    in if rope_accepts query key positions spec
       then s = status_success \<and> same_outside (cells_of query \<union> cells_of key) m m' \<and>
         (\<forall>v \<in> {query, key}. \<forall>r < length positions. \<forall>i < width v.
            rd m' (tv_data v) (r * width v + i) =
              rope_vec fo (rs_theta spec) (extent v 3) (positions ! r)
                (row_of (rd m (tv_data v)) (width v) r) i)
       else \<not> status_ok s \<and> m' = m"
proof (cases "rope_accepts query key positions spec")
  case True
  note acc = True [unfolded rope_accepts_def rope_tensor_def]
  have n: "numel query = length positions * (unat (extent query 2) * unat (extent query 3))"
    "numel key = length positions * (unat (extent key 2) * unat (extent key 3))"
    using acc numel_rank(4) [OF assms(1)] numel_rank(4) [OF assms(2)] by simp_all
  have disjoint: "cells_of query \<inter> cells_of key = {}" using acc by (intro apart_cells) simp_all
  define m1 where "m1 = put (tv_data query) 0 (numel query) (rope_result fo spec positions query m) m"
  define m2 where "m2 = put (tv_data key) 0 (numel key) (rope_result fo spec positions key m) m1"
  have run: "apply_rope_f32 fo query key positions spec m = (status_success, m2)"
    using apply_rope_cases [OF assms, of spec fo m] True by (simp add: m1_def m2_def)
  have outside: "same_outside (cells_of query \<union> cells_of key) m m2"
    by (simp add: m1_def m2_def same_outside_def put_def)
  have "rd m2 (tv_data key) x = rope_result fo spec positions key m x" if "x < numel key" for x
    using that by (simp add: m2_def)
  moreover have "rd m2 (tv_data query) x = rope_result fo spec positions query m x" if "x < numel query" for x
  proof -
    have "slot (tv_data query) x \<in> cells_of query" using that by simp
    then have "slot (tv_data query) x \<notin> cells_of key" using disjoint by blast
    then show ?thesis using that by (simp add: m2_def rd_put_other) (simp add: m1_def)
  qed
  ultimately show ?thesis
    using True outside by (simp add: run rope_result_def n row_bound Let_def)
next
  case False
  then show ?thesis using apply_rope_cases [OF assms, of spec fo m] by (auto simp: Let_def)
qed

theorem rope_exact_witness:
  "\<forall>fo m. \<exists>m'. apply_rope_f32 fo (demo_view 4096 [1, 1, 1, 2]) (demo_view 8192 [1, 1, 1, 2]) [0]
     \<lparr>rs_theta = f32_one, rs_max_positions = 1\<rparr> m = (status_success, m')"
proof (intro allI)
  fix fo :: float_ops and m :: memory
  let ?a = "demo_view 4096 [1, 1, 1, 2]" and ?b = "demo_view 8192 [1, 1, 1, 2]"
    and ?s = "\<lparr>rs_theta = f32_one, rs_max_positions = 1\<rparr>"
  have f32: "f32_view ?a" "f32_view ?b" by (rule make_f32_view_ok; simp add: max_rank_def)+
  have arrays: "array_view ?a" "array_view ?b" by (simp_all add: make_f32_view_simps max_rank_def)
  have accepts: "rope_accepts ?a ?b [0] ?s"
    using f32 by (simp add: rope_accepts_def rope_tensor_def make_f32_view_simps max_rank_def in_memory_def
        apart_def f32_is_finite_def f32_not_positive_def)
  show "\<exists>m'. apply_rope_f32 fo ?a ?b [0] ?s m = (status_success, m')"
    using rope_exact [OF arrays, where fo = fo and m = m and positions = "[0]" and spec = ?s] accepts
    by (cases "apply_rope_f32 fo ?a ?b [0] ?s m") (simp add: Let_def)
qed

section \<open>Attention\<close>

text \<open>
  (C37) \<open>attention_f32\<close> is grouped-query attention: the row of a query token becomes, head by
  head, the average of the value vectors of its batch at the positions up to its own, weighted
  by the softmax of the scaled inner products with the keys. Besides the output it writes only
  the first floats of its workspace, never beyond its end. If the operands do not agree, the
  workspace is too small or a query, key or value is not finite, it fails and writes nothing.
\<close>

theorem attention_exact:
  assumes "array_view query" "array_view key_cache" "array_view value_cache" "array_view out"
    "length context_lengths < 2 ^ 64"
    "workspace_apart workspace (attention_floats query key_cache) [query, key_cache, value_cache, out]"
  shows "case attention_f32 fo query key_cache value_cache context_lengths out workspace m of
      None \<Rightarrow> False
    | Some (s, m') \<Rightarrow>
        let tokens = unat (extent query 1); heads = unat (extent query 2); kv_heads = unat (extent key_cache 2);
            d = unat (extent query 3); used = attention_floats query key_cache;
            cached = (\<lambda>c b k. row_of (rd m (tv_data c)) (kv_heads * d) (b * unat (extent key_cache 1) + k))
        in if attention_accepts query key_cache value_cache context_lengths out \<and>
              used \<le> unat (ws_capacity workspace) \<and> query_finite query m \<and>
              cache_finite key_cache value_cache context_lengths m
           then s = status_success \<and>
             same_outside (cells_of out \<union> cells (hb_data (ws_storage workspace)) 0 used) m m' \<and>
             (\<forall>r < unat (extent query 0) * tokens. \<forall>i < heads * d.
                rd m' (tv_data out) (r * (heads * d) + i) =
                  attention_vec fo (extent query 3) (heads div kv_heads)
                    (cached key_cache (r div tokens)) (cached value_cache (r div tokens))
                    (unat (context_lengths ! (r div tokens)) - tokens + r mod tokens + 1)
                    (row_of (rd m (tv_data query)) (heads * d) r) i)
           else \<not> status_ok s \<and> m' = m"
proof (cases "attention_accepts query key_cache value_cache context_lengths out \<and>
    attention_floats query key_cache \<le> unat (ws_capacity workspace) \<and>
    query_finite query m \<and> cache_finite key_cache value_cache context_lengths m")
  case True
  let ?n = "attention_floats query key_cache"
  let ?S = "cells (hb_data (ws_storage workspace)) 0 ?n"
  let ?g = "attention_reference fo query key_cache value_cache context_lengths m"
  obtain m' where run: "attention_f32 fo query key_cache value_cache context_lengths out workspace m =
      Some (status_success, m')" and same: "same_outside ?S (put (tv_data out) 0 (numel out) ?g m) m'"
    using attention_f32_cases [OF assms, of m fo] True by auto
  have n: "numel out = unat (extent query 0) * unat (extent query 1) * (unat (extent query 2) * unat (extent query 3))"
    using True numel_rank(4) [OF assms(1)] by (simp add: attention_accepts_def numel_def)
  have apart: "cells_of out \<inter> ?S = {}" using assms(6) by (simp add: workspace_apart_def)
  have "rd m' (tv_data out) x = ?g x" if "x < numel out" for x
  proof -
    have "slot (tv_data out) x \<in> cells_of out" using that by simp
    then have "slot (tv_data out) x \<notin> ?S" using apart by blast
    then show ?thesis using same_outside_rd [OF same] that by simp
  qed
  moreover have "same_outside (cells_of out \<union> ?S) m m'"
    using same by (simp add: same_outside_def put_def)
  ultimately show ?thesis
    using True by (simp add: run n row_bound attention_reference_def Let_def)
next
  case False
  then show ?thesis using attention_f32_cases [OF assms, of m fo] by (auto simp: Let_def)
qed

definition demo_workspace :: cpu_workspace where
  "demo_workspace = \<lparr>ws_storage = \<lparr>hb_data = 20480, hb_size = 4, hb_alignment = 64\<rparr>, ws_capacity = 1\<rparr>"

theorem attention_exact_witness:
  "\<forall>fo. \<exists>m'. attention_f32 fo (demo_view 4096 [1, 1, 1, 1]) (demo_view 8192 [1, 1, 1, 1])
     (demo_view 12288 [1, 1, 1, 1]) [1] (demo_view 16384 [1, 1, 1, 1]) demo_workspace zero_memory =
       Some (status_success, m')"
proof
  fix fo :: float_ops
  let ?q = "demo_view 4096 [1, 1, 1, 1]" and ?k = "demo_view 8192 [1, 1, 1, 1]"
    and ?v = "demo_view 12288 [1, 1, 1, 1]" and ?o = "demo_view 16384 [1, 1, 1, 1]"
  have f32: "f32_view ?q" "f32_view ?k" "f32_view ?v" "f32_view ?o"
    by (rule make_f32_view_ok; simp add: max_rank_def)+
  note simps = make_f32_view_simps max_rank_def
  have arrays: "array_view ?q" "array_view ?k" "array_view ?v" "array_view ?o" by (simp_all add: simps)
  have shape: "tv_shape ?v = tv_shape ?k" "tv_shape ?o = tv_shape ?q" by (simp_all add: make_f32_view_def)
  have accepts: "attention_accepts ?q ?k ?v [1] ?o"
    using f32 shape by (simp add: attention_accepts_def simps in_memory_def apart_def)
  have floats: "attention_floats ?q ?k = 1" by (simp add: attention_floats_def simps)
  have apart: "workspace_apart demo_workspace (attention_floats ?q ?k) [?q, ?k, ?v, ?o]"
    unfolding floats by (simp add: workspace_apart_def demo_workspace_def simps cells_def slot_def)
  have finite: "query_finite ?q zero_memory" "cache_finite ?k ?v [1] zero_memory"
    by (simp_all add: query_finite_def cache_finite_def rd_def zero_memory_def f32_is_finite_def list_all_iff)
  show "\<exists>m'. attention_f32 fo ?q ?k ?v [1] ?o demo_workspace zero_memory = Some (status_success, m')"
    using attention_exact [OF arrays _ apart, where fo = fo and m = zero_memory and context_lengths = "[1]"]
      accepts finite
    by (auto simp: floats demo_workspace_def Let_def split: option.splits)
qed

section \<open>Workspace\<close>

text \<open>
  The workspace a decoder layer asks for is exactly what its two phases use: three hidden
  matrices, two of keys and values and the logits, or two intermediate matrices and one hidden
  one, whichever is more; an overflow is reported exactly when that number of floats is not a
  64-bit number.
\<close>

theorem layer_workspace_exact:
  assumes "batch \<noteq> 0" "tokens \<noteq> 0" "maximum_context \<noteq> 0" "dl_hidden_size spec \<noteq> 0"
    "dl_query_heads spec \<noteq> 0"
  shows "let rows = unat batch * unat tokens; hidden = rows * unat (dl_hidden_size spec);
      keys = rows * (unat (dl_kv_heads spec) * unat (dl_head_dim spec));
      logits = rows * unat (dl_query_heads spec) * unat maximum_context;
      intermediate = rows * unat (dl_intermediate_size spec);
      n = max (3 * hidden + 2 * keys + logits) (2 * intermediate + hidden)
    in required_decoder_layer_workspace_floats spec batch tokens maximum_context =
      (if n < 2 ^ 64 then Inr (of_nat n) else fail Arithmetic_overflow)"
  using required_workspace_exact [OF assms]
  by (simp add: layer_workspace_def hidden_floats_def kv_floats_def logit_floats_def intermediate_floats_def
      fits_def Let_def)

theorem layer_workspace_exact_witness:
  "required_decoder_layer_workspace_floats (layer_spec_of (mp_spec smollm2_135m_profile)) 1 2 4 = Inr 7296"
  using layer_workspace_exact [of 1 2 4 "layer_spec_of (mp_spec smollm2_135m_profile)"]
  by (simp add: layer_spec_of_def smollm2_135m_profile_def Let_def)

end
