(* ===== verification/CpuGreedy.thy ===== *)
theory CpuGreedy
  imports CpuSmolLm2
begin

text \<open>
  The greedy choice of the next token: the order of finite floats, and that one pass over the
  logits finds the first of the largest logits and the largest of the others.
\<close>

section \<open>Finite floats\<close>

lemma f32_magnitude_finite:
  assumes "f32_is_finite x" shows "f32_magnitude x < 0x7F800000"
proof (rule ccontr)
  let ?m = "x AND 0x7FFFFFFF :: u32"
  assume "\<not> f32_magnitude x < 0x7F800000"
  then have ge: "255 * 2 ^ 23 \<le> unat ?m" by (simp add: f32_magnitude_def word_le_nat_alt not_less)
  have mask: "mask 31 = (0x7FFFFFFF :: u32)" "mask 8 = (255 :: u32)" by (simp_all add: mask_eq_exp_minus_1)
  have "?m = take_bit 31 x" by (simp add: take_bit_eq_mask mask)
  then have "unat ?m < 2 ^ 31"
    using take_bit_nat_less_exp [of 31 "unat x"] by (simp only: unsigned_take_bit_eq)
  then have "unat ?m div 2 ^ 23 = 255" using ge by (intro div_nat_eqI) simp_all
  then have "unat (drop_bit 23 ?m) = unat (255 :: u32)"
    by (simp add: drop_bit_eq_div unat_div)
  then have "drop_bit 23 ?m = 255" by (simp only: unat_inject)
  then have "drop_bit 23 x AND 255 = 255" by simp
  then have "take_bit 8 (drop_bit 23 x) = mask 8" by (simp only: take_bit_eq_mask mask)
  then have "push_bit 23 (mask 8) = push_bit 23 (take_bit 8 (drop_bit 23 x))" by simp
  also have "\<dots> = x AND push_bit 23 (mask 8)"
    by (rule bit_word_eqI) (auto simp: bit_push_bit_iff bit_take_bit_iff bit_drop_bit_eq bit_and_iff bit_mask_iff)
  also have "push_bit 23 (mask 8) = (0x7F800000 :: u32)" by (simp add: mask)
  finally show False using assms by (simp add: f32_is_finite_def)
qed


lemma f32_less_iff:
  "f32_is_finite x \<Longrightarrow> f32_is_finite y \<Longrightarrow> f32_less x y \<longleftrightarrow> f32_order x < f32_order y"
  using f32_magnitude_finite [of x] f32_magnitude_finite [of y] by (auto simp: f32_less_def f32_is_nan_def)

lemma f32_minus_infinity_less: "f32_is_finite x \<Longrightarrow> f32_less f32_minus_infinity x"
proof -
  assume "f32_is_finite x"
  then have lt: "f32_magnitude x < 0x7F800000" by (rule f32_magnitude_finite)
  then have "int (unat (f32_magnitude x)) < 0x7F800000" by (simp add: word_less_def)
  then have "- 0x7F800000 < - int (unat (f32_magnitude x))" "- 0x7F800000 < int (unat (f32_magnitude x))" by linarith+
  moreover have "f32_magnitude 0xFF800000 = 0x7F800000" "(0xFF800000 :: u32) AND 0x80000000 \<noteq> 0"
    by (simp_all add: f32_magnitude_def)
  ultimately show ?thesis using lt by (auto simp: f32_less_def f32_is_nan_def f32_order_def)
qed

section \<open>The pass over the logits\<close>

text \<open>What the loop knows after some logits.\<close>

definition best_of :: "f32 list \<Rightarrow> greedy_token \<Rightarrow> bool" where
  "best_of logits g \<longleftrightarrow>
     (let n = length logits; best = unat (gt_token_id g)
      in best < n \<and> gt_logit g = logits ! best \<and>
         (\<forall>i < n. \<not> f32_less (gt_logit g) (logits ! i)) \<and>
         (\<forall>i < best. f32_less (logits ! i) (gt_logit g)) \<and>
         (if n = 1 then gt_runner_up_logit g = f32_minus_infinity
          else \<exists>k < n. k \<noteq> best \<and> gt_runner_up_logit g = logits ! k \<and>
            (\<forall>i < n. i \<noteq> best \<longrightarrow> \<not> f32_less (gt_runner_up_logit g) (logits ! i))))"


text \<open>One more logit.\<close>

definition greedy_step :: "u32 \<Rightarrow> f32 \<Rightarrow> greedy_token \<Rightarrow> greedy_token" where
  "greedy_step token x g =
     (if f32_less (gt_logit g) x
      then \<lparr>gt_token_id = token, gt_logit = x, gt_runner_up_logit = gt_logit g\<rparr>
      else if f32_less (gt_runner_up_logit g) x then g\<lparr>gt_runner_up_logit := x\<rparr> else g)"

lemma greedy_loop_step:
  "greedy_loop token (x # xs) g =
     (if f32_is_finite x then greedy_loop (token + 1) xs (greedy_step token x g)
      else Inl (status_failure_at Invalid_argument token))"
  by (simp add: greedy_step_def)

lemma best_of_single:
  assumes "f32_is_finite x" "gt_logit g = f32_minus_infinity"
  shows "best_of [x] (greedy_step 0 x g)"
  using f32_minus_infinity_less [OF assms(1)] assms f32_less_iff [OF assms(1) assms(1)]
  by (simp add: best_of_def greedy_step_def)

lemma best_of_order:
  assumes "\<forall>x \<in> set logits. f32_is_finite x"
  shows "best_of logits g \<longleftrightarrow>
    (let n = length logits; best = unat (gt_token_id g); v = (\<lambda>i. f32_order (logits ! i))
     in best < n \<and> gt_logit g = logits ! best \<and> (\<forall>i < n. v i \<le> v best) \<and> (\<forall>i < best. v i < v best) \<and>
        (if n = 1 then gt_runner_up_logit g = f32_minus_infinity
         else \<exists>k < n. k \<noteq> best \<and> gt_runner_up_logit g = logits ! k \<and>
           (\<forall>i < n. i \<noteq> best \<longrightarrow> v i \<le> v k)))"
proof -
  have less: "f32_less (logits ! i) (logits ! j) \<longleftrightarrow> f32_order (logits ! i) < f32_order (logits ! j)"
    if "i < length logits" "j < length logits" for i j
    using assms that by (simp add: f32_less_iff)
  show ?thesis
    unfolding best_of_def Let_def
    by (intro conj_cong refl if_cong ex_cong all_cong imp_cong) (auto simp: less not_less)
qed

lemma best_of_step:
  assumes best: "best_of logits g" and finite: "\<forall>x \<in> set logits. f32_is_finite x" "f32_is_finite x"
    and len: "length logits < 2 ^ 32"
  shows "best_of (logits @ [x]) (greedy_step (of_nat (length logits)) x g)"
proof -
  define n b where "n = length logits" "b = unat (gt_token_id g)"
  define w where "w = logits @ [x]"
  let ?v = "\<lambda>i. f32_order (w ! i)"
  have w: "\<forall>i < n. logits ! i = w ! i" "x = w ! n" "length w = Suc n" by (auto simp: w_def n_b_def nth_append)
  have finite': "\<forall>y \<in> set w. f32_is_finite y" using finite by (simp add: w_def)
  have token: "unat (of_nat n :: u32) = n" using len by (simp add: n_b_def unat_of_nat)
  note known = best [unfolded best_of_order [OF finite(1)] Let_def, folded n_b_def]
  have b: "b < n" "gt_logit g = w ! b" "\<forall>i < n. ?v i \<le> ?v b" "\<forall>i < b. ?v i < ?v b"
    using known w(1) by (auto dest: less_trans)
  have less: "f32_less (w ! i) x \<longleftrightarrow> ?v i < ?v n" if "i < n" for i
    using finite' that w by (simp add: f32_less_iff)
  note goal = best_of_order [OF finite'] Let_def w(3) less_Suc_eq_le
  have step: "greedy_step (of_nat n) x g =
     (if ?v b < ?v n then \<lparr>gt_token_id = of_nat n, gt_logit = w ! n, gt_runner_up_logit = w ! b\<rparr>
      else if f32_less (gt_runner_up_logit g) x then g\<lparr>gt_runner_up_logit := w ! n\<rparr> else g)"
    using less [OF b(1)] b(2) w(2) by (simp add: greedy_step_def)
  have split: "(\<forall>i \<le> n. P i) \<longleftrightarrow> (\<forall>i < n. P i) \<and> P n" for P by (auto simp: le_less)
  have "best_of w (greedy_step (of_nat n) x g)"
  proof (cases "?v b < ?v n")
    case True
    then have lt: "\<forall>i < n. ?v i < ?v n" using b(3) by (meson le_less_trans)
    then have "\<exists>k \<le> n. k \<noteq> n \<and> w ! b = w ! k \<and> (\<forall>i \<le> n. i \<noteq> n \<longrightarrow> ?v i \<le> ?v k)"
      using b by (intro exI [of _ b]) (simp add: split)
    then show ?thesis using True b(1) lt unfolding step goal by (simp add: token split less_imp_le)
  next
    case low: False
    show ?thesis
    proof (cases "n = 1")
      case True
      then have "f32_less (gt_runner_up_logit g) x"
        using known f32_minus_infinity_less [OF finite(2)] by simp
      moreover have "\<exists>k \<le> n. k \<noteq> b \<and> w ! n = w ! k \<and> (\<forall>i \<le> n. i \<noteq> b \<longrightarrow> ?v i \<le> ?v k)"
        using True b(1) by (intro exI [of _ n]) (auto simp: le_Suc_eq)
      moreover have "\<forall>i \<le> n. ?v i \<le> ?v b" "n \<noteq> 0" using b low by (simp_all add: split)
      ultimately show ?thesis
        using low b unfolding step goal by (simp flip: n_b_def)
    next
      case many: False
      then obtain k where k: "k < n" "k \<noteq> b" "gt_runner_up_logit g = w ! k"
        "\<forall>i < n. i \<noteq> b \<longrightarrow> ?v i \<le> ?v k" using known w(1) by auto
      define k' where "k' = (if ?v k < ?v n then n else k)"
      have k': "k' \<le> n" "k' \<noteq> b" "\<forall>i \<le> n. i \<noteq> b \<longrightarrow> ?v i \<le> ?v k'"
        using k b(1) by (auto simp: k'_def split)
      have "greedy_step (of_nat n) x g = g\<lparr>gt_runner_up_logit := w ! k'\<rparr>"
        using low less [OF k(1)] k(3) by (simp add: step k'_def)
      then show ?thesis
        using low b k' many unfolding goal by (auto simp: split simp flip: n_b_def)
    qed
  qed
  then show ?thesis by (simp add: w_def n_b_def)
qed


lemma first_nonfinite:
  assumes "i < length xs" "\<not> f32_is_finite (xs ! i)" "\<forall>y \<in> set (take i xs). f32_is_finite y" "f32_is_finite x"
  shows "\<exists>k < Suc (length xs). (1 + of_nat n + of_nat i :: u32) = of_nat n + of_nat k \<and>
    \<not> f32_is_finite ((x # xs) ! k) \<and> (\<forall>y \<in> set (take k (x # xs)). f32_is_finite y)"
  using assms by (intro exI [of _ "Suc i"]) simp

lemma greedy_loop_best:
  assumes "best_of logits g" "\<forall>x \<in> set logits. f32_is_finite x" "length logits + length rest \<le> 2 ^ 32"
  shows "case greedy_loop (of_nat (length logits)) rest g of
      Inl s \<Rightarrow> \<exists>i < length rest. s = status_failure_at Invalid_argument (of_nat (length logits + i)) \<and>
        \<not> f32_is_finite (rest ! i) \<and> (\<forall>x \<in> set (take i rest). f32_is_finite x)
    | Inr g' \<Rightarrow> best_of (logits @ rest) g' \<and> (\<forall>x \<in> set rest. f32_is_finite x)"
  using assms
proof (induction rest arbitrary: logits g)
  case (Cons x xs)
  show ?case
  proof (cases "f32_is_finite x")
    case True
    have next_token: "of_nat (length logits) + 1 = (of_nat (length (logits @ [x])) :: u32)" by simp
    define r where "r = greedy_loop (of_nat (length logits)) (x # xs) g"
    have step: "greedy_loop (of_nat (length (logits @ [x]))) xs (greedy_step (of_nat (length logits)) x g) = r"
      unfolding r_def greedy_loop_step next_token using True by simp
    have "best_of (logits @ [x]) (greedy_step (of_nat (length logits)) x g)"
      using Cons.prems True by (intro best_of_step) simp_all
    moreover have "\<forall>y \<in> set (logits @ [x]). f32_is_finite y"
      "length (logits @ [x]) + length xs \<le> 2 ^ 32" using Cons.prems True by simp_all
    ultimately have "case r of
        Inl s \<Rightarrow> \<exists>i < length xs. s = status_failure_at Invalid_argument (of_nat (length (logits @ [x]) + i)) \<and>
          \<not> f32_is_finite (xs ! i) \<and> (\<forall>x \<in> set (take i xs). f32_is_finite x)
      | Inr g' \<Rightarrow> best_of ((logits @ [x]) @ xs) g' \<and> (\<forall>x \<in> set xs. f32_is_finite x)"
      by (rule Cons.IH [of "logits @ [x]" "greedy_step (of_nat (length logits)) x g", unfolded step])
    then show ?thesis
      unfolding r_def [symmetric] using True first_nonfinite [where x = x and xs = xs and n = "length logits"]
      by (cases r) auto
  next
    case False
    then show ?thesis by (auto simp: greedy_loop_step intro!: exI [of _ 0])
  qed
qed simp

text \<open>
  (C40) The next token is chosen greedily: if every logit is finite the choice is the first of
  the largest ones, with the largest of the others as the runner-up, minus infinity if there
  is no other. Otherwise the status names the first logit that is not finite.
\<close>

theorem greedy_choice_exact:
  assumes "logits \<noteq> []" "length logits \<le> 2 ^ 32"
  shows "case greedy_choice logits of
      Inl s \<Rightarrow> \<exists>i < length logits. s = status_failure_at Invalid_argument (of_nat i) \<and>
        \<not> f32_is_finite (logits ! i) \<and> (\<forall>x \<in> set (take i logits). f32_is_finite x)
    | Inr g \<Rightarrow> (\<forall>x \<in> set logits. f32_is_finite x) \<and>
        (let n = length logits; best = unat (gt_token_id g)
         in best < n \<and> gt_logit g = logits ! best \<and>
            (\<forall>i < n. \<not> f32_less (gt_logit g) (logits ! i)) \<and>
            (\<forall>i < best. f32_less (logits ! i) (gt_logit g)) \<and>
            (if n = 1 then gt_runner_up_logit g = f32_minus_infinity
             else \<exists>k < n. k \<noteq> best \<and> gt_runner_up_logit g = logits ! k \<and>
               (\<forall>i < n. i \<noteq> best \<longrightarrow> \<not> f32_less (gt_runner_up_logit g) (logits ! i))))"
proof -
  let ?g = "\<lparr>gt_token_id = 0, gt_logit = f32_minus_infinity, gt_runner_up_logit = f32_minus_infinity\<rparr>"
  obtain x xs where logits: "logits = x # xs" using assms(1) by (cases logits) auto
  show ?thesis
  proof (cases "f32_is_finite x")
    case True
    have "best_of [x] (greedy_step 0 x ?g)" using True by (rule best_of_single) simp
    moreover have "\<forall>y \<in> set [x]. f32_is_finite y" "length [x] + length xs \<le> 2 ^ 32"
      using True assms(2) logits by simp_all
    ultimately have "case greedy_loop (of_nat (length [x])) xs (greedy_step 0 x ?g) of
        Inl s \<Rightarrow> \<exists>i < length xs. s = status_failure_at Invalid_argument (of_nat (length [x] + i)) \<and>
          \<not> f32_is_finite (xs ! i) \<and> (\<forall>x \<in> set (take i xs). f32_is_finite x)
      | Inr g' \<Rightarrow> best_of ([x] @ xs) g' \<and> (\<forall>x \<in> set xs. f32_is_finite x)"
      by (rule greedy_loop_best)
    moreover have "greedy_loop (of_nat (length [x])) xs (greedy_step 0 x ?g) = greedy_choice logits"
      by (simp only: greedy_choice_def logits greedy_loop_step True if_True add_0 list.size of_nat_simps add_0_right)
    ultimately show ?thesis
      unfolding best_of_def [symmetric] using True first_nonfinite [where x = x and xs = xs and n = 0]
      by (cases "greedy_choice logits") (auto simp: logits)
  next
    case False
    then show ?thesis by (auto simp: greedy_choice_def greedy_loop_step logits intro!: exI [of _ 0])
  qed
qed

theorem greedy_choice_exact_witness:
  "case greedy_choice [0xBF800000, f32_one, f32_one, f32_zero] of
     Inl s \<Rightarrow> False
   | Inr g \<Rightarrow> \<not> f32_less (gt_logit g) f32_one \<and> gt_token_id g = 1"
proof -
  let ?l = "[0xBF800000, f32_one, f32_one, f32_zero]"
  have choice: "greedy_choice ?l = Inr \<lparr>gt_token_id = 1, gt_logit = f32_one, gt_runner_up_logit = f32_one\<rparr>"
    by (simp add: greedy_choice_def f32_less_def f32_is_nan_def f32_magnitude_def f32_order_def f32_is_finite_def)
  then obtain g where g: "greedy_choice ?l = Inr g" "gt_token_id g = 1" by simp
  have "\<not> f32_less (gt_logit g) (?l ! 1)"
    using greedy_choice_exact [of ?l] unfolding g sum.case Let_def by (auto dest: spec [of _ 1])
  then show ?thesis using g by simp
qed

end
