(* ===== verification/CpuEngineClaims.thy ===== *)
theory CpuEngineClaims
  imports CpuDemo CpuClaims CpuGreedy
begin

text \<open>What the engine guarantees over any sequence of calls.\<close>

text \<open>
  (C2) The engine refines the model without a cache. From an engine whose memory has the
  layout of its tensors and whose context is empty, any sequence of resets, prefills and
  decodes runs to its end, writes nothing outside the buffers of the engine, and answers
  every call as the model does that keeps nothing but the history of tokens and computes the
  logits of each answer anew from all of it. Refused and failed calls leave the history as it
  is; the context is its length and never longer than the cache.
\<close>

theorem engine_refines_model:
  assumes "engine_layout e" "engine_sized e" "cs_context_length e = 0"
  shows "case engine_run fo calls e m of
      None \<Rightarrow> False
    | Some (answers, e', m') \<Rightarrow>
        answers = fst (history_run fo e m calls []) \<and>
        unat (cs_context_length e') = length (snd (history_run fo e m calls [])) \<and>
        cs_context_length e' \<le> cs_maximum_context e \<and> same_outside (engine_cells e) m m'"
proof -
  have "engine_state fo e m [] m"
    using assms by (simp add: engine_state_def cached_upto_def layer_cached_def holds_def)
  from engine_run_reference [OF this assms(2), of calls] obtain e' m'
    where run: "engine_run fo calls e m = Some (fst (history_run fo e m calls []), e', m')"
      "engine_state fo e' m (snd (history_run fo e m calls [])) m'" "engine_after e e'" by blast
  note after = engine_afterD [OF run(3)]
  have len: "length (snd (history_run fo e m calls [])) \<le> unat (cs_maximum_context e)"
    using run(2) after(5) by (simp add: engine_state_def)
  then have "unat (cs_context_length e') = length (snd (history_run fo e m calls []))"
    using run(2) unat_u32_lt [of "cs_maximum_context e"] unat_u32_of_nat by (simp add: engine_state_def)
  then show ?thesis
    using run(1,2) after(1) len by (simp add: engine_state_def word_le_nat_alt)
qed

theorem engine_refines_model_witness:
  "\<forall>fo m. \<exists>e' m'. engine_run fo [Prefill_call [0], Decode_call 0, Reset_call, Decode_call 0] demo_engine m =
     Some (fst (history_run fo demo_engine m [Prefill_call [0], Decode_call 0, Reset_call, Decode_call 0] []), e', m')"
proof (intro allI)
  fix fo :: float_ops and m :: memory
  let ?calls = "[Prefill_call [0], Decode_call 0, Reset_call, Decode_call 0]"
  show "\<exists>e' m'. engine_run fo ?calls demo_engine m = Some (fst (history_run fo demo_engine m ?calls []), e', m')"
    using engine_refines_model [OF demo_engine_layout demo_engine_sized demo_engine_fields(5), where fo = fo and calls = ?calls and m = m]
    by (cases "engine_run fo ?calls demo_engine m") (auto simp del: engine_run.simps history_run.simps)
qed

text \<open>An accepted extension, and one more token after it.\<close>

lemma extend_history_Inr:
  assumes "extend_history fo e m ts h = (Inr g, h')"
  shows "h' = h @ ts" "ts \<noteq> []" "length h + length ts \<le> unat (cs_maximum_context e)"
    "List.find (\<lambda>token. token \<ge> ms_vocabulary_size (cs_spec e)) ts = None"
  using assms by (auto simp: extend_history_def split: if_splits option.splits sum.splits)

lemma find_append_None: "List.find P xs = None \<Longrightarrow> List.find P (xs @ ys) = List.find P ys"
  by (induction xs) (auto split: if_splits)

lemma extend_history_twice:
  assumes "extend_history fo e m ts [] = (Inr g, h')" "length ts < unat (cs_maximum_prefill_tokens e)"
    "unat (cs_maximum_prefill_tokens e) \<le> unat (cs_maximum_context e)"
  shows "fst (extend_history fo e m [t] ts) = fst (extend_history fo e m (ts @ [t]) [])"
  using assms(2,3) extend_history_Inr(4) [OF assms(1)]
  by (simp add: extend_history_def find_append_None split: option.splits sum.splits)

text \<open>
  (C3) Decoding continues a prefill: when a prompt has been prefilled, decoding one more token
  gives the same answer, to the last bit and including the failures, as prefilling the longer
  prompt at once, as long as it is not longer than a prefill may be.
\<close>

theorem decode_continues_prefill:
  assumes "engine_layout e" "engine_sized e" "cs_context_length e = 0"
    and "cpu_smollm2_prefill fo e ts m = Some (Inr g, e1, m1)"
    and "length ts < unat (cs_maximum_prefill_tokens e)"
  shows "map_option fst (cpu_smollm2_decode fo e1 t m1) = map_option fst (cpu_smollm2_prefill fo e (ts @ [t]) m)"
proof -
  have state: "engine_state fo e m [] m"
    using assms by (simp add: engine_state_def cached_upto_def layer_cached_def holds_def)
  have step: "engine_step fo (Prefill_call ts) e m = Some (Some (Inr g), e1, m1)" using assms(4) by simp
  from engine_step_reference [OF state assms(2), of "Prefill_call ts"] obtain h
    where extend: "extend_history fo e m ts [] = (Inr g, h)" and state1: "engine_state fo e1 m h m1"
      and after: "engine_after e e1"
    unfolding step by (cases "extend_history fo e m ts []") auto
  have h: "h = ts" "h \<noteq> []" using extend_history_Inr [OF extend] by simp_all
  have "engine_sized e1" using engine_afterD(2) [OF after] assms(2) by simp
  from engine_step_reference [OF state1 this, of "Decode_call t", unfolded engine_afterD(3) [OF after]] h
  have "map_option fst (cpu_smollm2_decode fo e1 t m1) = Some (fst (extend_history fo e m [t] ts))"
    by (cases "cpu_smollm2_decode fo e1 t m1") auto
  moreover from engine_step_reference [OF state assms(2), of "Prefill_call (ts @ [t])"]
  have "map_option fst (cpu_smollm2_prefill fo e (ts @ [t]) m) = Some (fst (extend_history fo e m (ts @ [t]) []))"
    by (cases "cpu_smollm2_prefill fo e (ts @ [t]) m") auto
  moreover have "unat (cs_maximum_prefill_tokens e) \<le> unat (cs_maximum_context e)"
    using engine_layoutD(6) [OF assms(1)] by (simp add: word_le_nat_alt)
  ultimately show ?thesis using extend_history_twice [OF extend assms(5)] by auto
qed

text \<open>Float operations that all return zero, for which every logit is zero.\<close>

definition zero_ops :: float_ops where
  "zero_ops = \<lparr>fl_add = \<lambda>_ _. 0, fl_sub = \<lambda>_ _. 0, fl_mul = \<lambda>_ _. 0, fl_div = \<lambda>_ _. 0, fl_pow = \<lambda>_ _. 0,
     fl_sqrt = \<lambda>_. 0, fl_exp = \<lambda>_. 0, fl_cos = \<lambda>_. 0, fl_sin = \<lambda>_. 0, fl_of_u64 = \<lambda>_. 0\<rparr>"

lemma zero_ops_prefill:
  "\<exists>g e1 m1. cpu_smollm2_prefill zero_ops demo_engine [0] m = Some (Inr g, e1, m1)"
proof -
  have dot: "dot zero_ops n x y = 0" for n x y
    by (induction n) (simp_all add: dot_def zero_ops_def)
  have "next_token zero_ops demo_engine m ts =
      Inr \<lparr>gt_token_id = 0, gt_logit = f32_zero, gt_runner_up_logit = f32_minus_infinity\<rparr>" for ts
    using f32_minus_infinity_less [of 0]
    by (simp add: next_token_def logits_of_def linear_vec_def dot greedy_choice_def f32_is_finite_def)
  then have "fst (history_step zero_ops demo_engine m (Prefill_call [0]) []) =
      Some (Inr \<lparr>gt_token_id = 0, gt_logit = f32_zero, gt_runner_up_logit = f32_minus_infinity\<rparr>)"
    by (simp add: extend_history_def)
  moreover have "engine_state zero_ops demo_engine m [] m"
    using demo_engine_layout by (simp add: engine_state_def cached_upto_def layer_cached_def holds_def)
  ultimately show ?thesis
    using engine_step_reference [OF _ demo_engine_sized, of zero_ops m "[]" m "Prefill_call [0]"] by auto
qed

theorem decode_continues_prefill_witness:
  "\<exists>g e1 m1. cpu_smollm2_prefill zero_ops demo_engine [0] zero_memory = Some (Inr g, e1, m1) \<and>
     map_option fst (cpu_smollm2_decode zero_ops e1 0 m1) =
       map_option fst (cpu_smollm2_prefill zero_ops demo_engine [0, 0] zero_memory)"
proof -
  obtain g e1 m1 where run: "cpu_smollm2_prefill zero_ops demo_engine [0] zero_memory = Some (Inr g, e1, m1)"
    using zero_ops_prefill by blast
  show ?thesis
    using decode_continues_prefill [OF demo_engine_layout demo_engine_sized demo_engine_fields(5) run, of 0] run
    by auto
qed

end
