(* ===== verification/Radar.thy ===== *)
theory Radar
  imports Grammar PagedKv Doubles
begin

unbundle bit_operations_syntax

text \<open>
  \<open>workloads/radar_simulation.cpp\<close>, first part: the world. Vehicles move, watch the closest
  target with a noisy radar and choose an action; every action is a word of two tokens that
  an automaton decodes. A \<open>double\<close> is its bit pattern; as with \<open>float\<close>, its arithmetic is an
  argument about which nothing is assumed, while comparisons and sign changes are exact on
  bit patterns and defined here.
\<close>

section \<open>Data\<close>

record vec2 =
  v_x :: f64
  v_y :: f64

datatype mission_action = Hold_position | Investigate | Intercept | Evade | Return_to_base

record vehicle_state =
  vh_id :: u32
  vh_position :: vec2
  vh_velocity :: vec2
  vh_fuel_fraction :: f64
  vh_action :: mission_action

record target_state =
  tg_id :: u32
  tg_position :: vec2
  tg_velocity :: vec2

record radar_return =
  rr_observer_id :: u32
  rr_target_id :: u32
  rr_true_range :: f64
  rr_measured_range :: f64
  rr_measured_bearing_radians :: f64
  rr_estimated_position :: vec2

record decision_trace =
  dn_sequence_id :: u64
  dn_vehicle_id :: u32
  dn_action :: mission_action
  dn_arrival :: u64
  dn_completion :: u64
  dn_deadline :: u64
  dn_latency :: u64
  dn_final_batch_generation :: u64
  dn_deadline_met :: bool
  dn_grammar_valid :: bool

record trace_frame =
  fr_step :: u32
  fr_simulation_seconds :: f64
  fr_vehicles :: "vehicle_state list"
  fr_targets :: "target_state list"
  fr_radar_returns :: "radar_return list"
  fr_decisions :: "decision_trace list"

record workload_metrics =
  wm_decisions :: u64
  wm_radar_returns :: u64
  wm_scheduler_batches :: u64
  wm_prefill_batches :: u64
  wm_decode_batches :: u64
  wm_deadline_misses :: u64
  wm_grammar_valid_decisions :: u64
  wm_shared_prefix_tokens_reused :: u64
  wm_peak_physical_kv_pages :: u64
  wm_peak_unshared_kv_pages :: u64
  wm_maximum_batch_size :: u32
  wm_p50_latency :: f64
  wm_p95_latency :: f64
  wm_p99_latency :: f64
  wm_deadline_met_fraction :: f64
  wm_grammar_valid_fraction :: f64
  wm_jain_completion_fairness :: f64
  wm_kv_page_reduction_fraction :: f64
  wm_decisions_per_service_second :: f64
  wm_service_busy_seconds :: f64
  wm_simulated_seconds :: f64
  wm_faster_than_realtime_factor :: f64

record scenario_config =
  cf_steps :: u32
  cf_vehicle_count :: u32
  cf_target_count :: u32
  cf_maximum_batch_size :: u32
  cf_prompt_tokens :: u32
  cf_output_tokens :: u32
  cf_shared_prefix_tokens :: u32
  cf_kv_tokens_per_page :: u32
  cf_kv_page_count :: u32
  cf_frame_period :: u64
  cf_decision_deadline :: u64
  cf_seed :: u64
  cf_simulation_step_seconds :: f64
  cf_world_half_extent :: f64
  cf_radar_range :: f64
  cf_radar_range_noise :: f64
  cf_radar_bearing_noise :: f64

record scenario_result =
  sr_config :: scenario_config
  sr_metrics :: workload_metrics
  sr_frames :: "trace_frame list"

section \<open>Helpers\<close>

text \<open>\<open>DeterministicNoise\<close>: a generator is its state.\<close>

definition noise_seeded :: "u64 \<Rightarrow> u64" where
  "noise_seeded seed = (if seed = 0 then 0x9e3779b97f4a7c15 else seed)"

definition noise_symmetric :: "double_ops \<Rightarrow> u64 \<Rightarrow> f64 \<times> u64" where
  "noise_symmetric ops state0 =
     (let state1 = state0 XOR drop_bit 12 state0;
          state2 = state1 XOR push_bit 25 state1;
          state = state2 XOR drop_bit 27 state2;
          bits = state * 0x2545f4914f6cdd1d;
          unit_value = db_mul ops (db_of_u64 ops (drop_bit 11 bits)) 0x3CA0000000000000
      in (db_sub ops (db_mul ops unit_value f64_two) f64_one, state))"

definition vec_magnitude :: "double_ops \<Rightarrow> vec2 \<Rightarrow> f64" where
  "vec_magnitude ops v = db_hypot ops (v_x v) (v_y v)"

definition vec_subtract :: "double_ops \<Rightarrow> vec2 \<Rightarrow> vec2 \<Rightarrow> vec2" where
  "vec_subtract ops l r =
     \<lparr>v_x = db_sub ops (v_x l) (v_x r), v_y = db_sub ops (v_y l) (v_y r)\<rparr>"

definition vec_direction :: "double_ops \<Rightarrow> vec2 \<Rightarrow> vec2" where
  "vec_direction ops v =
     (let len = vec_magnitude ops v
      in if f64_less_eq len f64_epsilon then \<lparr>v_x = f64_zero, v_y = f64_zero\<rparr>
         else \<lparr>v_x = db_div ops (v_x v) len, v_y = db_div ops (v_y v) len\<rparr>)"

definition vec_scaled :: "double_ops \<Rightarrow> vec2 \<Rightarrow> f64 \<Rightarrow> vec2" where
  "vec_scaled ops v scale =
     \<lparr>v_x = db_mul ops (v_x v) scale, v_y = db_mul ops (v_y v) scale\<rparr>"

text \<open>The file has its own copy of \<open>pages_for\<close>.\<close>

definition scenario_pages_for :: "u32 \<Rightarrow> u32 \<Rightarrow> u64" where
  "scenario_pages_for tokens page_size =
     (ucast tokens + ucast page_size - 1) div ucast page_size"

definition valid_config :: "scenario_config \<Rightarrow> bool" where
  "valid_config config \<longleftrightarrow>
     \<not> (cf_steps config = 0 \<or> cf_vehicle_count config = 0 \<or>
        cf_target_count config = 0 \<or> cf_maximum_batch_size config = 0 \<or>
        cf_output_tokens config \<noteq> 2 \<or> cf_shared_prefix_tokens config = 0 \<or>
        cf_prompt_tokens config < cf_shared_prefix_tokens config \<or>
        cf_prompt_tokens config > u32_max - cf_output_tokens config \<or>
        cf_kv_tokens_per_page config = 0 \<or> cf_kv_page_count config = 0 \<or>
        cf_frame_period config = 0 \<or> cf_decision_deadline config = 0 \<or>
        f64_less_eq (cf_simulation_step_seconds config) f64_zero \<or>
        f64_less_eq (cf_world_half_extent config) f64_zero \<or>
        f64_less_eq (cf_radar_range config) f64_zero \<or>
        f64_less (cf_radar_range_noise config) f64_zero \<or>
        f64_less (cf_radar_bearing_noise config) f64_zero \<or>
        \<not> f64_is_finite (cf_simulation_step_seconds config) \<or>
        \<not> f64_is_finite (cf_world_half_extent config) \<or>
        \<not> f64_is_finite (cf_radar_range config) \<or>
        \<not> f64_is_finite (cf_radar_range_noise config) \<or>
        \<not> f64_is_finite (cf_radar_bearing_noise config)) \<and>
     (let per_sequence_pages = scenario_pages_for
            (cf_prompt_tokens config + cf_output_tokens config - cf_shared_prefix_tokens config)
            (cf_kv_tokens_per_page config);
          prefix_pages = scenario_pages_for (cf_shared_prefix_tokens config)
            (cf_kv_tokens_per_page config)
      in prefix_pages + per_sequence_pages * ucast (cf_vehicle_count config) \<le>
           ucast (cf_kv_page_count config))"

section \<open>The grammar of actions\<close>

definition action_tokens :: "token_id list list" where
  "action_tokens = [[80, 11], [80, 23], [80, 37], [80, 41], [80, 59]]"

definition action_choices :: "encoded_choice list" where
  "action_choices =
     map (\<lambda>index. \<lparr>ec_id = of_nat index, ec_tokens = action_tokens ! index\<rparr>)
       [0..<length action_tokens]"

definition action_dfa_config :: dfa_config where
  "action_dfa_config =
     \<lparr>dc_vocabulary_size = 256, dc_maximum_sequence_tokens = 2, dc_maximum_labels = 5,
      dc_maximum_states = 8, dc_maximum_arcs = 8\<rparr>"

text \<open>
  A call of a \<open>noexcept\<close> function returns, or an exception would leave it and
  \<open>std::terminate\<close> ends the program. \<open>build_action_dfa\<close> builds a vector of tokens for every
  choice outside any handler; the exceptions of \<open>TokenDfa::build\<close> are handled inside it.
\<close>

datatype 'a call = Terminated | Returned 'a

fun encode_choices :: "encoded_choice list \<Rightarrow> nat \<Rightarrow> nat option" where
  "encode_choices [] mem = Some mem"
| "encode_choices (choice # choices) mem =
     (case use_alloc mem of None \<Rightarrow> None | Some mem' \<Rightarrow> encode_choices choices mem')"

definition build_action_dfa :: "nat \<Rightarrow> choice_id dfa result call" where
  "build_action_dfa mem =
     (case encode_choices action_choices mem of
        None \<Rightarrow> Terminated
      | Some mem' \<Rightarrow> Returned (token_build mem' action_choices action_dfa_config))"

fun action_index :: "mission_action \<Rightarrow> nat" where
  "action_index Hold_position = 0"
| "action_index Investigate = 1"
| "action_index Intercept = 2"
| "action_index Evade = 3"
| "action_index Return_to_base = 4"

text \<open>The loop that advances over the tokens of an action.\<close>

fun advance_tokens :: "choice_id dfa \<Rightarrow> token_id list \<Rightarrow> grammar_state \<Rightarrow> grammar_state option" where
  "advance_tokens dfa [] state = Some state"
| "advance_tokens dfa (token # tokens) state =
     (case token_advance dfa state token of
        Inl _ \<Rightarrow> None
      | Inr next_state \<Rightarrow> advance_tokens dfa tokens next_state)"

definition grammar_round_trip :: "choice_id dfa \<Rightarrow> mission_action \<Rightarrow> bool" where
  "grammar_round_trip dfa act =
     (let index = action_index act
      in if index \<ge> length action_tokens then False
         else
           (case advance_tokens dfa (action_tokens ! index) 0 of
              None \<Rightarrow> False
            | Some state \<Rightarrow> token_decode_terminal dfa state = Inr (of_nat index)))"

section \<open>Vehicles and targets\<close>

definition turn_angle :: "double_ops \<Rightarrow> f64 \<Rightarrow> u32 \<Rightarrow> f64" where
  "turn_angle ops position bodies =
     db_div ops (db_mul ops (db_mul ops f64_two f64_pi) position) (db_of_u64 ops (ucast bodies))"

definition initial_vehicle :: "double_ops \<Rightarrow> scenario_config \<Rightarrow> u32 \<Rightarrow> vehicle_state" where
  "initial_vehicle ops config index =
     (let angle = turn_angle ops (db_of_u64 ops (ucast index)) (cf_vehicle_count config);
          ring = db_add ops 0x4041000000000000
            (db_mul ops (db_of_u64 ops (ucast (index mod 4))) 0x4014000000000000)
      in \<lparr>vh_id = index + 1,
          vh_position = \<lparr>v_x = db_mul ops ring (db_cos ops angle),
            v_y = db_mul ops ring (db_sin ops angle)\<rparr>,
          vh_velocity = \<lparr>v_x = db_mul ops 0xC000000000000000 (db_sin ops angle),
            v_y = db_mul ops f64_two (db_cos ops angle)\<rparr>,
          vh_fuel_fraction = db_add ops 0x3FC999999999999A
            (db_div ops (db_mul ops 0x3FE8F5C28F5C28F6
              (db_of_u64 ops (ucast ((index * 17) mod 31)))) 0x403E000000000000),
          vh_action = Hold_position\<rparr>)"

definition initial_vehicles :: "double_ops \<Rightarrow> scenario_config \<Rightarrow> vehicle_state list" where
  "initial_vehicles ops config =
     map (\<lambda>index. initial_vehicle ops config (of_nat index)) [0..<unat (cf_vehicle_count config)]"

definition initial_target :: "double_ops \<Rightarrow> scenario_config \<Rightarrow> u32 \<Rightarrow> target_state" where
  "initial_target ops config index =
     (let angle = turn_angle ops
            (db_add ops (db_of_u64 ops (ucast index)) 0x3FD6666666666666) (cf_target_count config);
          radius = db_add ops 0x4057000000000000
            (db_mul ops (db_of_u64 ops (ucast (index mod 3))) 0x403F000000000000);
          heading = db_add ops angle 0x3FF199999999999A
      in \<lparr>tg_id = index + 1,
          tg_position = \<lparr>v_x = db_mul ops radius (db_cos ops angle),
            v_y = db_mul ops radius (db_sin ops angle)\<rparr>,
          tg_velocity = \<lparr>v_x = db_mul ops 0x4014000000000000 (db_cos ops heading),
            v_y = db_mul ops 0x4014000000000000 (db_sin ops heading)\<rparr>\<rparr>)"

definition initial_targets :: "double_ops \<Rightarrow> scenario_config \<Rightarrow> target_state list" where
  "initial_targets ops config =
     map (\<lambda>index. initial_target ops config (of_nat index)) [0..<unat (cf_target_count config)]"

definition observe ::
  "double_ops \<Rightarrow> vehicle_state \<Rightarrow> target_state \<Rightarrow> scenario_config \<Rightarrow> u64 \<Rightarrow> radar_return \<times> u64" where
  "observe ops vehicle target config noise =
     (let relative = vec_subtract ops (tg_position target) (vh_position vehicle);
          true_range = vec_magnitude ops relative;
          (range_sample, noise1) = noise_symmetric ops noise;
          measured_range = f64_max f64_zero
            (db_add ops true_range (db_mul ops range_sample (cf_radar_range_noise config)));
          (bearing_sample, noise2) = noise_symmetric ops noise1;
          bearing = db_add ops (db_atan2 ops (v_y relative) (v_x relative))
            (db_mul ops bearing_sample (cf_radar_bearing_noise config))
      in (\<lparr>rr_observer_id = vh_id vehicle, rr_target_id = tg_id target,
           rr_true_range = true_range, rr_measured_range = measured_range,
           rr_measured_bearing_radians = bearing,
           rr_estimated_position =
             \<lparr>v_x = db_add ops (v_x (vh_position vehicle))
                (db_mul ops measured_range (db_cos ops bearing)),
              v_y = db_add ops (v_y (vh_position vehicle))
                (db_mul ops measured_range (db_sin ops bearing))\<rparr>\<rparr>, noise2))"

definition choose_action :: "vehicle_state \<Rightarrow> radar_return option \<Rightarrow> mission_action" where
  "choose_action vehicle observation =
     (if f64_less (vh_fuel_fraction vehicle) 0x3FD0A3D70A3D70A4 then Return_to_base
      else
        (case observation of
           None \<Rightarrow> Hold_position
         | Some r \<Rightarrow>
             if f64_less (rr_measured_range r) 0x4038000000000000 then Evade
             else if f64_less (rr_measured_range r) 0x4057000000000000 then Intercept
             else Investigate))"

definition quantile :: "double_ops \<Rightarrow> u64 list \<Rightarrow> f64 \<Rightarrow> f64" where
  "quantile ops samples probability =
     (if samples = [] then f64_zero
      else
        let sorted_samples = sort samples;
            rank_value = db_to_u64 ops (db_ceil ops
              (db_mul ops probability (db_of_u64 ops (of_nat (length sorted_samples)))));
            index = min (of_nat (length sorted_samples) - 1)
              (if rank_value = 0 then 0 else rank_value - 1)
        in db_of_u64 ops (sorted_samples ! unat index))"

definition reflect_axis :: "double_ops \<Rightarrow> f64 \<Rightarrow> f64 \<times> f64 \<Rightarrow> f64 \<times> f64" where
  "reflect_axis ops limit = (\<lambda>(position, velocity).
     if f64_less limit position
     then (db_sub ops limit (db_sub ops position limit), f64_neg (f64_abs velocity))
     else if f64_less position (f64_neg limit)
     then (db_add ops (f64_neg limit) (db_sub ops (f64_neg limit) position), f64_abs velocity)
     else (position, velocity))"

text \<open>One step of a body: the two axes move and are reflected.\<close>

definition move_body :: "double_ops \<Rightarrow> scenario_config \<Rightarrow> vec2 \<times> vec2 \<Rightarrow> vec2 \<times> vec2" where
  "move_body ops config = (\<lambda>(position, velocity).
     let dt = cf_simulation_step_seconds config;
         (x, vx) = reflect_axis ops (cf_world_half_extent config)
           (db_add ops (v_x position) (db_mul ops (v_x velocity) dt), v_x velocity);
         (y, vy) = reflect_axis ops (cf_world_half_extent config)
           (db_add ops (v_y position) (db_mul ops (v_y velocity) dt), v_y velocity)
     in (\<lparr>v_x = x, v_y = y\<rparr>, \<lparr>v_x = vx, v_y = vy\<rparr>))"

definition update_targets :: "double_ops \<Rightarrow> scenario_config \<Rightarrow> target_state list \<Rightarrow> target_state list" where
  "update_targets ops config targets =
     map (\<lambda>target. let (position, velocity) = move_body ops config (tg_position target, tg_velocity target)
                   in target\<lparr>tg_position := position, tg_velocity := velocity\<rparr>) targets"

definition desired_motion :: "double_ops \<Rightarrow> vehicle_state \<Rightarrow> radar_return option \<Rightarrow> vec2 \<times> f64" where
  "desired_motion ops vehicle observation =
     (let towards = (case observation of
              None \<Rightarrow> \<lparr>v_x = f64_zero, v_y = f64_zero\<rparr>
            | Some r \<Rightarrow> vec_direction ops
                (vec_subtract ops (rr_estimated_position r) (vh_position vehicle)));
          away = (case observation of
              None \<Rightarrow> \<lparr>v_x = f64_zero, v_y = f64_zero\<rparr>
            | Some r \<Rightarrow> vec_direction ops
                (vec_subtract ops (vh_position vehicle) (rr_estimated_position r)))
      in (case vh_action vehicle of
            Hold_position \<Rightarrow> (vec_direction ops (vh_velocity vehicle), f64_one)
          | Investigate \<Rightarrow> (towards, 0x401C000000000000)
          | Intercept \<Rightarrow> (towards, 0x402E000000000000)
          | Evade \<Rightarrow> (away, 0x402A000000000000)
          | Return_to_base \<Rightarrow>
              (vec_direction ops (vec_scaled ops (vh_position vehicle) 0xBFF0000000000000),
               0x4024000000000000)))"

definition update_vehicle ::
  "double_ops \<Rightarrow> scenario_config \<Rightarrow> vehicle_state \<Rightarrow> radar_return option \<Rightarrow> vehicle_state" where
  "update_vehicle ops config vehicle observation =
     (let (desired, speed) = desired_motion ops vehicle observation;
          (position, velocity) =
            move_body ops config (vh_position vehicle, vec_scaled ops desired speed);
          burn = db_add ops 0x3F589374BC6A7EFA (db_mul ops speed 0x3F14F8B588E368F1)
      in vehicle\<lparr>vh_velocity := velocity, vh_position := position,
           vh_fuel_fraction := f64_max f64_zero (db_sub ops (vh_fuel_fraction vehicle) burn)\<rparr>)"

definition batch_duration :: "work_kind \<Rightarrow> u32 \<Rightarrow> nat \<Rightarrow> u64 \<Rightarrow> u64" where
  "batch_duration kind maximum_context_tokens batch_size generation =
     (let jitter = (generation * 37) mod 101
      in (case kind of
            Prefill \<Rightarrow> 800 + ucast maximum_context_tokens * 7 + of_nat batch_size * 35 + jitter
          | Decode \<Rightarrow> 360 + of_nat batch_size * 28 + jitter))"

end
