(* ===== verification/RadarRun.thy ===== *)
theory RadarRun
  imports Radar
begin

text \<open>
  \<open>workloads/radar_simulation.cpp\<close>, second part: \<open>run_scenario\<close>. In every step each vehicle
  chooses an action, which becomes a sequence of the scheduler and of the paged cache that
  shares one prefix; then batches are scheduled until all decisions of the step are complete.
\<close>

section \<open>State\<close>

text \<open>The places where the run or a component it calls may throw; a failed allocation inside
  a component comes back as its status.\<close>

datatype radar_site =
    Cache_site
  | Prefix_sequence_site
  | Prefix_selected_site
  | Prefix_reservation_site
  | Prefix_commit_site
  | Publish_site
  | Start_site
  | Frame_site u32
  | Enqueue_site sequence_id
  | Sequence_site sequence_id
  | Selected_site sequence_id
  | Reservation_site sequence_id
  | Commit_site sequence_id
  | Schedule_site u64
  | Batch_site u64
  | Quantile_site

record radar_env =
  re_doubles :: double_ops
  re_dfa_memory :: nat
  re_alloc :: "radar_site \<Rightarrow> alloc"

record radar_run =
  rn_vehicles :: "vehicle_state list"
  rn_targets :: "target_state list"
  rn_noise :: u64
  rn_cache :: paged_kv_cache
  rn_scheduler :: scheduler
  rn_metrics :: workload_metrics
  rn_frames :: "trace_frame list"
  rn_latencies :: "u64 list"
  rn_completions :: "u64 list"
  rn_cursor :: u64
  rn_busy :: u64
  rn_next_sequence :: u64

text \<open>A loop whose body may leave the function with a failure.\<close>

fun for_each :: "('i \<Rightarrow> 's \<Rightarrow> 's result) \<Rightarrow> 'i list \<Rightarrow> 's \<Rightarrow> 's result" where
  "for_each body [] s = Inr s"
| "for_each body (i # is) s =
     (case body i s of Inl e \<Rightarrow> Inl e | Inr s' \<Rightarrow> for_each body is s')"

abbreviation (input) scenario_prefix_id :: u64 where "scenario_prefix_id \<equiv> 1"
abbreviation (input) prefix_sequence_id :: u64 where "prefix_sequence_id \<equiv> 1"
abbreviation (input) first_decision_sequence_id :: u64 where "first_decision_sequence_id \<equiv> 1000"

definition zero_workload_metrics :: workload_metrics where
  "zero_workload_metrics =
     \<lparr>wm_decisions = 0, wm_radar_returns = 0, wm_scheduler_batches = 0, wm_prefill_batches = 0,
      wm_decode_batches = 0, wm_deadline_misses = 0, wm_grammar_valid_decisions = 0,
      wm_shared_prefix_tokens_reused = 0, wm_peak_physical_kv_pages = 0,
      wm_peak_unshared_kv_pages = 0, wm_maximum_batch_size = 0, wm_p50_latency = 0,
      wm_p95_latency = 0, wm_p99_latency = 0, wm_deadline_met_fraction = 0,
      wm_grammar_valid_fraction = 0, wm_jain_completion_fairness = 0,
      wm_kv_page_reduction_fraction = 0, wm_decisions_per_service_second = 0,
      wm_service_busy_seconds = 0, wm_simulated_seconds = 0,
      wm_faster_than_realtime_factor = 0\<rparr>"

section \<open>Start\<close>

text \<open>The cache with the shared prefix.\<close>

definition start_cache :: "radar_env \<Rightarrow> scenario_config \<Rightarrow> paged_kv_cache \<Rightarrow> paged_kv_cache result" where
  "start_cache env config c0 =
     (let (s1, c1) =
            kv_create_sequence (re_alloc env Prefix_sequence_site) prefix_sequence_id 0 c0
      in if \<not> status_ok s1 then fail Invalid_format
         else
           (case kv_reserve (re_alloc env Prefix_selected_site) (re_alloc env Prefix_reservation_site)
                   prefix_sequence_id (cf_shared_prefix_tokens config) c1 of
              (Inl _, _) \<Rightarrow> fail Invalid_format
            | (Inr reservation, c2) \<Rightarrow>
                let (s3, c3) = kv_commit (re_alloc env Prefix_commit_site) (res_id reservation) c2
                in if \<not> status_ok s3 then fail Invalid_format
                   else
                     let (s4, c4) = kv_publish_prefix (re_alloc env Publish_site)
                           scenario_prefix_id prefix_sequence_id c3
                     in if \<not> status_ok s4 then fail Invalid_format else Inr c4))"

definition start_run :: "radar_env \<Rightarrow> scenario_config \<Rightarrow> paged_kv_cache \<Rightarrow> radar_run" where
  "start_run env config c =
     \<lparr>rn_vehicles = initial_vehicles (re_doubles env) config,
      rn_targets = initial_targets (re_doubles env) config,
      rn_noise = noise_seeded (cf_seed config), rn_cache = c, rn_scheduler = new_scheduler,
      rn_metrics = zero_workload_metrics, rn_frames = [], rn_latencies = [],
      rn_completions = replicate (unat (cf_vehicle_count config)) 0,
      rn_cursor = 0, rn_busy = 0, rn_next_sequence = first_decision_sequence_id\<rparr>"

section \<open>Admission\<close>

definition closest_target ::
  "double_ops \<Rightarrow> scenario_config \<Rightarrow> target_state list \<Rightarrow> vehicle_state \<Rightarrow> target_state option" where
  "closest_target ops config targets vehicle =
     fst (fold (\<lambda>target (closest, closest_range).
         let target_range = vec_magnitude ops
               (vec_subtract ops (tg_position target) (vh_position vehicle))
         in if f64_less_eq target_range closest_range then (Some target, target_range)
            else (closest, closest_range))
       targets (None, cf_radar_range config))"

text \<open>What a vehicle sees and decides: the frame with its return and its decision, the noise.\<close>

definition decide ::
  "radar_env \<Rightarrow> scenario_config \<Rightarrow> choice_id dfa \<Rightarrow> u64 \<Rightarrow> nat \<Rightarrow> trace_frame \<Rightarrow> radar_run \<Rightarrow>
     trace_frame \<times> bool \<times> radar_run" where
  "decide env config dfa arrival index frame r =
     (let ops = re_doubles env;
          vehicle = rn_vehicles r ! index;
          (returns, observation, noise) =
            (case closest_target ops config (rn_targets r) vehicle of
               None \<Rightarrow> (fr_radar_returns frame, None, rn_noise r)
             | Some target \<Rightarrow>
                 let (seen, noise) = observe ops vehicle target config (rn_noise r)
                 in (fr_radar_returns frame @ [seen], Some seen, noise));
          act = choose_action vehicle observation;
          valid = grammar_round_trip dfa act;
          sequence_id = rn_next_sequence r;
          decision = \<lparr>dn_sequence_id = sequence_id, dn_vehicle_id = vh_id vehicle,
            dn_action = act, dn_arrival = arrival, dn_completion = 0,
            dn_deadline = arrival + cf_decision_deadline config, dn_latency = 0,
            dn_final_batch_generation = 0, dn_deadline_met = False, dn_grammar_valid = valid\<rparr>
      in (frame\<lparr>fr_radar_returns := returns, fr_decisions := fr_decisions frame @ [decision]\<rparr>,
          valid, r\<lparr>rn_noise := noise, rn_next_sequence := sequence_id + 1\<rparr>))"

definition admit ::
  "radar_env \<Rightarrow> scenario_config \<Rightarrow> choice_id dfa \<Rightarrow> u64 \<Rightarrow> nat \<Rightarrow> trace_frame \<times> radar_run \<Rightarrow>
     (trace_frame \<times> radar_run) result" where
  "admit env config dfa arrival index = (\<lambda>(frame0, r0).
     let sequence_id = rn_next_sequence r0;
         (frame, valid, r) = decide env config dfa arrival index frame0 r0
     in if \<not> valid then fail Invalid_format
        else
          let (s1, scheduler) = enqueue (re_alloc env (Enqueue_site sequence_id))
                \<lparr>rq_id = sequence_id, rq_prompt_tokens = cf_prompt_tokens config,
                 rq_max_output_tokens = cf_output_tokens config\<rparr> (rn_scheduler r)
          in if \<not> status_ok s1 then fail Invalid_format
             else
               let (s2, c2) = kv_create_sequence (re_alloc env (Sequence_site sequence_id))
                     sequence_id scenario_prefix_id (rn_cache r)
               in if \<not> status_ok s2 then fail Invalid_format
                  else
                    (case kv_reserve (re_alloc env (Selected_site sequence_id))
                            (re_alloc env (Reservation_site sequence_id)) sequence_id
                            (cf_prompt_tokens config + cf_output_tokens config) c2 of
                       (Inl _, _) \<Rightarrow> fail Insufficient_memory
                     | (Inr reservation, c3) \<Rightarrow>
                         let (s4, c4) = kv_commit (re_alloc env (Commit_site sequence_id))
                               (res_id reservation) c3
                         in if \<not> status_ok s4 then fail Insufficient_memory
                            else Inr (frame, r\<lparr>rn_scheduler := scheduler, rn_cache := c4\<rparr>)))"

text \<open>The peaks after admission.\<close>

definition measure_pages :: "scenario_config \<Rightarrow> radar_run \<Rightarrow> radar_run result" where
  "measure_pages config r =
     (case kv_metrics (rn_cache r) of
        Inl e \<Rightarrow> Inl (status_failure (status_code e))
      | Inr cm \<Rightarrow>
          let m = rn_metrics r;
              physical_pages = mt_mutable_pages cm + mt_shared_prefix_pages cm;
              unshared_pages = scenario_pages_for
                  (cf_prompt_tokens config + cf_output_tokens config)
                  (cf_kv_tokens_per_page config) * ucast (cf_vehicle_count config)
          in Inr (r\<lparr>rn_metrics := m\<lparr>
               wm_peak_physical_kv_pages := max (wm_peak_physical_kv_pages m) physical_pages,
               wm_peak_unshared_kv_pages := max (wm_peak_unshared_kv_pages m) unshared_pages\<rparr>\<rparr>))"

section \<open>Service\<close>

text \<open>The counters and the clock after a batch has been scheduled.\<close>

definition account_batch :: "inference_batch \<Rightarrow> radar_run \<Rightarrow> radar_run" where
  "account_batch batch r =
     (let m = rn_metrics r;
          prefill_count = length (filter (\<lambda>item. bi_work item = Prefill) (ib_items batch));
          decode_count = length (ib_items batch) - prefill_count;
          maximum_context = fold (\<lambda>item c. max c (bi_context_tokens item)) (ib_items batch) 0;
          duration =
            (if prefill_count \<noteq> 0
             then batch_duration Prefill maximum_context prefill_count (ib_generation batch) else 0) +
            (if decode_count \<noteq> 0
             then batch_duration Decode maximum_context decode_count (ib_generation batch) else 0)
      in r\<lparr>rn_metrics := m\<lparr>
             wm_scheduler_batches := wm_scheduler_batches m + 1,
             wm_maximum_batch_size :=
               max (wm_maximum_batch_size m) (of_nat (length (ib_items batch))),
             wm_prefill_batches :=
               wm_prefill_batches m + (if prefill_count \<noteq> 0 then 1 else 0),
             wm_decode_batches := wm_decode_batches m + (if decode_count \<noteq> 0 then 1 else 0)\<rparr>,
           rn_cursor := rn_cursor r + duration, rn_busy := rn_busy r + duration\<rparr>)"

text \<open>A decision is complete: its times, the metrics and the count of its vehicle.\<close>

definition finish_decision ::
  "u64 \<Rightarrow> u64 \<Rightarrow> nat \<Rightarrow> trace_frame \<times> radar_run \<Rightarrow> trace_frame \<times> radar_run" where
  "finish_decision generation arrival k = (\<lambda>(frame, r).
     let decision = (fr_decisions frame ! k)\<lparr>
             dn_completion := rn_cursor r, dn_latency := rn_cursor r - arrival,
             dn_final_batch_generation := generation,
             dn_deadline_met := rn_cursor r \<le> dn_deadline (fr_decisions frame ! k)\<rparr>;
         m = rn_metrics r;
         vehicle = unat (dn_vehicle_id decision - 1)
     in (frame\<lparr>fr_decisions := (fr_decisions frame)[k := decision]\<rparr>,
         r\<lparr>rn_latencies := rn_latencies r @ [dn_latency decision],
           rn_completions :=
             (rn_completions r)[vehicle := rn_completions r ! vehicle + 1],
           rn_metrics := m\<lparr>
             wm_deadline_misses :=
               wm_deadline_misses m + (if dn_deadline_met decision then 0 else 1),
             wm_grammar_valid_decisions :=
               wm_grammar_valid_decisions m + (if dn_grammar_valid decision then 1 else 0)\<rparr>\<rparr>))"

text \<open>One item of a batch; the number counts the complete decisions of the step.\<close>

definition complete_item ::
  "u64 \<Rightarrow> u64 \<Rightarrow> batch_item \<Rightarrow> (trace_frame \<times> radar_run) \<times> u32 \<Rightarrow>
     ((trace_frame \<times> radar_run) \<times> u32) result" where
  "complete_item generation arrival item = (\<lambda>((frame, r), completed).
     let terminal = (bi_work item = Decode);
         (s1, scheduler) = complete (bi_id item) 1 terminal (rn_scheduler r);
         r1 = r\<lparr>rn_scheduler := scheduler\<rparr>
     in if \<not> status_ok s1 then fail Invalid_format
        else if \<not> terminal then Inr ((frame, r1), completed)
        else
          let first_sequence = dn_sequence_id (hd (fr_decisions frame))
          in if bi_id item < first_sequence \<or>
                bi_id item \<ge> first_sequence + of_nat (length (fr_decisions frame))
             then fail Invalid_format
             else
               let (frame2, r2) = finish_decision generation arrival
                     (unat (bi_id item - first_sequence)) (frame, r1);
                   (s3, c3) = kv_destroy_sequence (bi_id item) (rn_cache r2)
               in if \<not> status_ok s3 then fail Invalid_format
                  else Inr ((frame2, r2\<lparr>rn_cache := c3\<rparr>), completed + 1))"

text \<open>The body of the loop that schedules batches, and the loop; None is a loop that does not
  end.\<close>

definition serve_batch ::
  "radar_env \<Rightarrow> scenario_config \<Rightarrow> u64 \<Rightarrow> (trace_frame \<times> radar_run) \<times> u32 \<Rightarrow>
     ((trace_frame \<times> radar_run) \<times> u32) result" where
  "serve_batch env config arrival = (\<lambda>((frame, r), completed).
     let turn = wm_scheduler_batches (rn_metrics r)
     in (case schedule (re_alloc env (Schedule_site turn)) (re_alloc env (Batch_site turn))
               (ucast (cf_maximum_batch_size config)) (rn_scheduler r) of
           (Inl _, _) \<Rightarrow> fail Invalid_format
         | (Inr batch, scheduler) \<Rightarrow>
             if ib_items batch = [] then fail Invalid_format
             else for_each (complete_item (ib_generation batch) arrival) (ib_items batch)
                    ((frame, account_batch batch (r\<lparr>rn_scheduler := scheduler\<rparr>)), completed)))"

lemma case_sum_mono [partial_function_mono]:
  assumes "\<And>x. mono_option (\<lambda>f. g f x)" "\<And>y. mono_option (\<lambda>f. h f y)"
  shows "mono_option (\<lambda>f. case s of Inl x \<Rightarrow> g f x | Inr y \<Rightarrow> h f y)"
  using assms by (cases s) simp_all

partial_function (option) serve ::
  "radar_env \<Rightarrow> scenario_config \<Rightarrow> u64 \<Rightarrow> (trace_frame \<times> radar_run) \<times> u32 \<Rightarrow>
     (trace_frame \<times> radar_run) result option" where
  "serve env config arrival s =
     (if snd s < cf_vehicle_count config
      then
        (case serve_batch env config arrival s of
           Inl e \<Rightarrow> Some (Inl e)
         | Inr s' \<Rightarrow> serve env config arrival s')
      else Some (Inr (fst s)))"

section \<open>A step\<close>

text \<open>The vehicles take the actions of the frame and move; \<open>frame.vehicles\<close> shows the actions.\<close>

definition move_vehicles ::
  "double_ops \<Rightarrow> scenario_config \<Rightarrow> trace_frame \<times> radar_run \<Rightarrow> trace_frame \<times> radar_run" where
  "move_vehicles ops config = (\<lambda>(frame, r).
     fold (\<lambda>index (frame, r).
         let act = dn_action (fr_decisions frame ! index);
             vehicle = (rn_vehicles r ! index)\<lparr>vh_action := act\<rparr>;
             observation = List.find (\<lambda>seen. rr_observer_id seen = vh_id vehicle)
               (fr_radar_returns frame)
         in (frame\<lparr>fr_vehicles :=
               (fr_vehicles frame)[index := (fr_vehicles frame ! index)\<lparr>vh_action := act\<rparr>]\<rparr>,
             r\<lparr>rn_vehicles :=
               (rn_vehicles r)[index := update_vehicle ops config vehicle observation]\<rparr>))
       [0..<length (rn_vehicles r)] (frame, r))"

definition close_step ::
  "radar_env \<Rightarrow> scenario_config \<Rightarrow> trace_frame \<times> radar_run \<Rightarrow> radar_run" where
  "close_step env config = (\<lambda>(frame0, r0).
     let m = rn_metrics r0;
         decided = of_nat (length (fr_decisions frame0)) :: u64;
         r1 = r0\<lparr>rn_metrics := m\<lparr>
           wm_radar_returns := wm_radar_returns m + of_nat (length (fr_radar_returns frame0)),
           wm_decisions := wm_decisions m + decided,
           wm_shared_prefix_tokens_reused :=
             wm_shared_prefix_tokens_reused m + ucast (cf_shared_prefix_tokens config) * decided\<rparr>\<rparr>;
         (frame, r) = move_vehicles (re_doubles env) config (frame0, r1)
     in r\<lparr>rn_targets := update_targets (re_doubles env) config (rn_targets r),
          rn_frames := rn_frames r @ [frame]\<rparr>)"

definition run_step ::
  "radar_env \<Rightarrow> scenario_config \<Rightarrow> choice_id dfa \<Rightarrow> u32 \<Rightarrow> radar_run \<Rightarrow> radar_run result option" where
  "run_step env config dfa step r =
     (if re_alloc env (Frame_site step) \<noteq> Alloc_ok
      then Some (fail (alloc_error (re_alloc env (Frame_site step))))
      else
        let frame = \<lparr>fr_step = step,
              fr_simulation_seconds = db_mul (re_doubles env)
                (db_of_u64 (re_doubles env) (ucast step)) (cf_simulation_step_seconds config),
              fr_vehicles = rn_vehicles r, fr_targets = rn_targets r,
              fr_radar_returns = [], fr_decisions = []\<rparr>;
            arrival = ucast step * cf_frame_period config;
            r1 = r\<lparr>rn_cursor := max (rn_cursor r) arrival\<rparr>
        in (case for_each (admit env config dfa arrival) [0..<unat (cf_vehicle_count config)]
                  (frame, r1) of
              Inl e \<Rightarrow> Some (Inl e)
            | Inr (frame2, r2) \<Rightarrow>
                (case measure_pages config r2 of
                   Inl e \<Rightarrow> Some (Inl e)
                 | Inr r3 \<Rightarrow>
                     (case serve env config arrival ((frame2, r3), 0) of
                        None \<Rightarrow> None
                      | Some (Inl e) \<Rightarrow> Some (Inl e)
                      | Some (Inr fr) \<Rightarrow> Some (Inr (close_step env config fr))))))"

text \<open>The loop over the steps.\<close>

fun run_steps ::
  "radar_env \<Rightarrow> scenario_config \<Rightarrow> choice_id dfa \<Rightarrow> u32 list \<Rightarrow> radar_run \<Rightarrow> radar_run result option" where
  "run_steps env config dfa [] r = Some (Inr r)"
| "run_steps env config dfa (step # steps) r =
     (case run_step env config dfa step r of
        None \<Rightarrow> None
      | Some (Inl e) \<Rightarrow> Some (Inl e)
      | Some (Inr r') \<Rightarrow> run_steps env config dfa steps r')"

section \<open>End\<close>

text \<open>The summary of the latencies and counts.\<close>

definition f64_ratio :: "double_ops \<Rightarrow> bool \<Rightarrow> f64 \<Rightarrow> f64 \<Rightarrow> f64" where
  "f64_ratio ops undefined_ratio x y = (if undefined_ratio then f64_zero else db_div ops x y)"

definition summarize :: "double_ops \<Rightarrow> scenario_config \<Rightarrow> radar_run \<Rightarrow> workload_metrics" where
  "summarize ops config r =
     (let m = rn_metrics r;
          decisions = db_of_u64 ops (wm_decisions m);
          no_decisions = f64_equal decisions f64_zero;
          (completion_sum, completion_square_sum) =
            fold (\<lambda>completions (sum_so_far, squares).
                let v = db_of_u64 ops completions
                in (db_add ops sum_so_far v, db_add ops squares (db_mul ops v v)))
              (rn_completions r) (f64_zero, f64_zero);
          busy = db_div ops (db_of_u64 ops (rn_busy r)) 0x412E848000000000;
          simulated = db_mul ops (db_of_u64 ops (ucast (cf_steps config)))
            (cf_simulation_step_seconds config)
      in m\<lparr>wm_p50_latency := quantile ops (rn_latencies r) 0x3FE0000000000000,
           wm_p95_latency := quantile ops (rn_latencies r) 0x3FEE666666666666,
           wm_p99_latency := quantile ops (rn_latencies r) 0x3FEFAE147AE147AE,
           wm_deadline_met_fraction :=
             (if no_decisions then f64_zero
              else db_sub ops f64_one
                (db_div ops (db_of_u64 ops (wm_deadline_misses m)) decisions)),
           wm_grammar_valid_fraction := f64_ratio ops no_decisions
             (db_of_u64 ops (wm_grammar_valid_decisions m)) decisions,
           wm_jain_completion_fairness :=
             f64_ratio ops (f64_equal completion_square_sum f64_zero)
               (db_mul ops completion_sum completion_sum)
               (db_mul ops (db_of_u64 ops (of_nat (length (rn_completions r))))
                 completion_square_sum),
           wm_kv_page_reduction_fraction :=
             (if wm_peak_unshared_kv_pages m = 0 then f64_zero
              else db_sub ops f64_one
                (db_div ops (db_of_u64 ops (wm_peak_physical_kv_pages m))
                  (db_of_u64 ops (wm_peak_unshared_kv_pages m)))),
           wm_service_busy_seconds := busy,
           wm_simulated_seconds := simulated,
           wm_decisions_per_service_second :=
             f64_ratio ops (f64_equal busy f64_zero) decisions busy,
           wm_faster_than_realtime_factor :=
             f64_ratio ops (f64_equal busy f64_zero) simulated busy\<rparr>)"

definition finish_run :: "radar_env \<Rightarrow> scenario_config \<Rightarrow> radar_run \<Rightarrow> scenario_result result" where
  "finish_run env config r =
     (let (s1, c1) = kv_destroy_sequence prefix_sequence_id (rn_cache r)
      in if \<not> status_ok s1 then fail Invalid_format
         else
           let (s2, c2) = kv_destroy_prefix scenario_prefix_id c1
           in if \<not> status_ok s2 then fail Invalid_format
              else
                (case kv_metrics c2 of
                   Inl _ \<Rightarrow> fail Invalid_format
                 | Inr cm \<Rightarrow>
                     if mt_free_pages cm \<noteq> ucast (cf_kv_page_count config) then fail Invalid_format
                     else if re_alloc env Quantile_site \<noteq> Alloc_ok
                     then fail (alloc_error (re_alloc env Quantile_site))
                     else Inr \<lparr>sr_config = config,
                            sr_metrics = summarize (re_doubles env) config r,
                            sr_frames = rn_frames r\<rparr>))"

text \<open>None is a run that does not end.\<close>

definition run_scenario :: "radar_env \<Rightarrow> scenario_config \<Rightarrow> scenario_result result call option" where
  "run_scenario env config =
     (if \<not> valid_config config then Some (Returned (fail Invalid_argument))
      else
        (case build_action_dfa (re_dfa_memory env) of
           Terminated \<Rightarrow> Some Terminated
         | Returned dfa_result \<Rightarrow> map_option Returned
        (case dfa_result of
           Inl e \<Rightarrow> Some (Inl (status_failure (status_code e)))
         | Inr dfa \<Rightarrow>
        (case kv_create (re_alloc env Cache_site) (cf_kv_page_count config)
                (cf_kv_tokens_per_page config) of
           Inl e \<Rightarrow> Some (Inl (status_failure (status_code e)))
         | Inr c0 \<Rightarrow>
        (case start_cache env config c0 of
           Inl e \<Rightarrow> Some (Inl e)
         | Inr c \<Rightarrow>
             if re_alloc env Start_site \<noteq> Alloc_ok
             then Some (fail (alloc_error (re_alloc env Start_site)))
             else
               (case run_steps env config dfa (map of_nat [0..<unat (cf_steps config)])
                       (start_run env config c) of
                  None \<Rightarrow> None
                | Some (Inl e) \<Rightarrow> Some (Inl e)
                | Some (Inr r) \<Rightarrow> Some (finish_run env config r)))))))"

end
