(* ===== verification/RadarCache.thy ===== *)
theory RadarCache
  imports RadarRun PagedKvProps
begin

text \<open>
  The paged cache during a run of the radar scenario: one prefix, the sequence that published
  it, and the sequences of the decisions under way. With a valid configuration there are pages
  for one sequence per vehicle, so no call on the cache fails, and the cache drains.
\<close>

section \<open>Pages and claims\<close>

lemma update_append_new:
  "k \<notin> key ` set xs \<Longrightarrow> key x = k \<Longrightarrow> update_first (\<lambda>x. key x = k) f (xs @ [x]) = xs @ [f x]"
  by (induction xs) auto

lemma free_count_claims:
  assumes "store_ok ps cl"
  shows "free_count ps + length cl = length ps"
proof -
  note ok = assms [unfolded store_ok_def]
  let ?used = "{i. i < length ps \<and> pg_state (ps ! i) \<noteq> Free}"
  have inj: "inj_on unat (fst ` set cl)" by (auto intro: inj_onI simp: unat_inject)
  have "?used = unat ` fst ` set cl"
  proof (intro equalityI subsetI)
    fix k assume k: "k \<in> ?used"
    then have un: "unat (of_nat k :: u32) = k" using ok by (intro unat_u32_of_nat) simp
    have "of_nat k \<in> fst ` set cl"
      using k un ok by (metis (mono_tags, lifting) mem_Collect_eq empty_page_def page.select_convs(1))
    then show "k \<in> unat ` fst ` set cl" using un by (metis imageI)
  qed (use ok in auto)
  then have "card ?used = length cl"
    using ok card_image [OF inj] distinct_card [of "map fst cl"] by simp
  moreover have "card ?used = length (filter (\<lambda>p. pg_state p \<noteq> Free) ps)"
    by (simp add: length_filter_conv_card)
  ultimately show ?thesis
    using sum_length_filter_compl [of "\<lambda>p. pg_state p = Free" ps] by (simp add: free_count_def)
qed

section \<open>The state of the cache\<close>

abbreviation tokens_per_page :: "scenario_config \<Rightarrow> nat" where
  "tokens_per_page config \<equiv> unat (cf_kv_tokens_per_page config)"

abbreviation vehicles_of :: "scenario_config \<Rightarrow> nat" where
  "vehicles_of config \<equiv> unat (cf_vehicle_count config)"

definition prefix_pages :: "scenario_config \<Rightarrow> nat" where
  "prefix_pages config = npages (unat (cf_shared_prefix_tokens config)) (tokens_per_page config)"

definition sequence_pages :: "scenario_config \<Rightarrow> nat" where
  "sequence_pages config =
     npages (unat (cf_prompt_tokens config) + 2 - unat (cf_shared_prefix_tokens config))
       (tokens_per_page config)"

definition prefix_sequence :: "scenario_config \<Rightarrow> kv_sequence" where
  "prefix_sequence config =
     \<lparr>sq_id = 1, sq_prefix_id = 1, sq_prefix_tokens = cf_shared_prefix_tokens config,
      sq_total_tokens = cf_shared_prefix_tokens config, sq_suffix_pages = []\<rparr>"

definition decision_sequence :: "scenario_config \<Rightarrow> kv_sequence \<Rightarrow> bool" where
  "decision_sequence config s \<longleftrightarrow>
     sq_prefix_id s = 1 \<and> sq_prefix_tokens s = cf_shared_prefix_tokens config \<and>
     sq_total_tokens s = cf_prompt_tokens config + cf_output_tokens config"

text \<open>\<open>n\<close> is the next reservation id, \<open>ids\<close> are the sequences of the decisions under way.\<close>

definition radar_cache :: "scenario_config \<Rightarrow> nat \<Rightarrow> u64 set \<Rightarrow> paged_kv_cache \<Rightarrow> bool" where
  "radar_cache config n ids c \<longleftrightarrow>
     kv_inv c \<and> kv_tokens_per_page c = cf_kv_tokens_per_page config \<and>
     length (kv_pages c) = unat (cf_kv_page_count config) \<and> kv_reservations c = [] \<and>
     unat (kv_next_reservation_id c) = n \<and>
     (\<exists>rest. kv_sequences c = prefix_sequence config # rest \<and> sq_id ` set rest = ids \<and>
        (\<forall>s \<in> set rest. decision_sequence config s)) \<and>
     (\<exists>p. kv_prefixes c = [p] \<and> pf_id p = 1 \<and> pf_token_count p = cf_shared_prefix_tokens config)"

lemma valid_config_facts:
  assumes "valid_config config"
  shows "0 < tokens_per_page config" "0 < unat (cf_shared_prefix_tokens config)"
    "cf_shared_prefix_tokens config \<le> cf_prompt_tokens config"
    "unat (cf_prompt_tokens config + cf_output_tokens config) = unat (cf_prompt_tokens config) + 2"
    "prefix_pages config + sequence_pages config * vehicles_of config \<le> unat (cf_kv_page_count config)"
    "0 < vehicles_of config" "cf_output_tokens config = 2" "cf_prompt_tokens config \<le> u32_max - 2"
    "cf_prompt_tokens config \<noteq> 0" "cf_maximum_batch_size config \<noteq> 0"
proof -
  note v = assms [unfolded valid_config_def Let_def]
  show a: "0 < tokens_per_page config" "0 < unat (cf_shared_prefix_tokens config)"
    "0 < vehicles_of config" "cf_output_tokens config = 2"
    "cf_shared_prefix_tokens config \<le> cf_prompt_tokens config" "cf_prompt_tokens config \<le> u32_max - 2"
    "cf_maximum_batch_size config \<noteq> 0"
    using v by (auto simp: unat_gt_0 not_less)
  have le: "unat (cf_prompt_tokens config) \<le> 2 ^ 32 - 1 - 2"
    using a(6) by (simp add: word_le_nat_alt)
  then show b: "unat (cf_prompt_tokens config + cf_output_tokens config) =
      unat (cf_prompt_tokens config) + 2"
    using a(4) by (simp add: unat_u32_plus)
  show "cf_prompt_tokens config \<noteq> 0" using a(2,5) by (auto simp: word_le_nat_alt)
  have tok: "unat (cf_prompt_tokens config + cf_output_tokens config - cf_shared_prefix_tokens config) =
      unat (cf_prompt_tokens config) + 2 - unat (cf_shared_prefix_tokens config)"
    using a(5) b by (subst unat_word_minus) (auto simp: word_le_nat_alt)
  have same: "scenario_pages_for t k = pages_for t k" for t k
    by (simp add: scenario_pages_for_def pages_for_def)
  let ?per = "scenario_pages_for (cf_prompt_tokens config + cf_output_tokens config -
      cf_shared_prefix_tokens config) (cf_kv_tokens_per_page config)"
  let ?pre = "scenario_pages_for (cf_shared_prefix_tokens config) (cf_kv_tokens_per_page config)"
  have k: "cf_kv_tokens_per_page config \<noteq> 0" using a(1) by auto
  have per: "unat ?per = sequence_pages config" and pre: "unat ?pre = prefix_pages config"
    using unat_pages_for [OF k] tok by (simp_all add: same sequence_pages_def prefix_pages_def)
  have le_tokens: "npages t k \<le> t" if "0 < k" for t k
  proof -
    have "t \<le> t * k" using that by simp
    then have "t + k - 1 < Suc t * k" using that unfolding mult_Suc by linarith
    then have "(t + k - 1) div k < Suc t" using that by (simp only: div_less_iff_less_mult)
    then show ?thesis by (simp add: npages_def)
  qed
  have "sequence_pages config \<le> 2 ^ 32 - 1" "prefix_pages config \<le> 2 ^ 32 - 1"
    using le_tokens [OF a(1), of "unat (cf_prompt_tokens config) + 2 - unat (cf_shared_prefix_tokens config)"]
      le_tokens [OF a(1), of "unat (cf_shared_prefix_tokens config)"] le
      unat_u32_lt [of "cf_shared_prefix_tokens config"]
    by (auto simp: sequence_pages_def prefix_pages_def)
  moreover from this have "sequence_pages config * vehicles_of config \<le> (2 ^ 32 - 1) * (2 ^ 32 - 1)"
    using unat_u32_lt [of "cf_vehicle_count config"] by (intro mult_mono) auto
  ultimately have "unat (?pre + ?per * ucast (cf_vehicle_count config)) =
      prefix_pages config + sequence_pages config * vehicles_of config"
    using per pre by (simp add: unat_u64_plus unat_u64_times)
  moreover have "?pre + ?per * ucast (cf_vehicle_count config) \<le> ucast (cf_kv_page_count config)"
    by (rule conjunct2 [OF v])
  ultimately show "prefix_pages config + sequence_pages config * vehicles_of config \<le>
      unat (cf_kv_page_count config)"
    by (simp add: word_le_nat_alt)
qed


lemma count_list_all: "\<forall>x \<in> set xs. f x = k \<Longrightarrow> count_list (map f xs) k = length xs"
  by (induction xs) auto

lemma radar_cache_facts:
  assumes rc: "radar_cache config n ids c" and v: "valid_config config"
  shows "kv_inv c" "kv_reservations c = []" "1 \<notin> ids" "finite ids" "0 \<notin> ids"
    "length (kv_sequences c) = Suc (card ids)"
    "length (claims c) = prefix_pages config + sequence_pages config * card ids"
    "\<exists>p. kv_prefixes c = [p] \<and> pf_id p = 1 \<and> pf_token_count p = cf_shared_prefix_tokens config \<and>
       unat (pf_attachments p) = Suc (card ids)"
    "(\<Sum>s\<leftarrow>kv_sequences c. logical_pages c s) =
       prefix_pages config + (prefix_pages config + sequence_pages config) * card ids"
    "sq_id ` set (kv_sequences c) = insert 1 ids"
proof -
  note d = rc [unfolded radar_cache_def]
  show inv: "kv_inv c" and none: "kv_reservations c = []" using d by simp_all
  note i = inv [unfolded kv_inv_def]
  from d obtain rest p where rest: "kv_sequences c = prefix_sequence config # rest"
    "sq_id ` set rest = ids" "\<forall>s \<in> set rest. decision_sequence config s"
    and p: "kv_prefixes c = [p]" "pf_id p = 1" "pf_token_count p = cf_shared_prefix_tokens config"
    by blast
  have dist: "distinct (map sq_id rest)" "1 \<notin> ids"
    using i rest by (auto simp: prefix_sequence_def)
  then have len: "length rest = card ids" using rest(2) by (metis distinct_card length_map list.set_map)
  show "1 \<notin> ids" by (rule dist)
  show "finite ids" using rest(2) by auto
  show "0 \<notin> ids" using i rest by (auto simp: seq_ok_def)
  show "length (kv_sequences c) = Suc (card ids)" using rest len by simp
  show "sq_id ` set (kv_sequences c) = insert 1 ids" using rest by (simp add: prefix_sequence_def)
  have pages: "length (pf_pages p) = prefix_pages config"
    using i p d by (simp add: prefix_ok_def prefix_pages_def)
  have suffix: "length (sq_suffix_pages s) = sequence_pages config" if "s \<in> set rest" for s
    using i rest that d valid_config_facts(4) [OF v]
    by (auto simp: seq_ok_def seq_tokens_def sequence_pages_def decision_sequence_def)
  have m: "map (\<lambda>s. length (sq_suffix_pages s)) rest = map (\<lambda>_. sequence_pages config) rest"
    using suffix by (intro map_cong) auto
  have lens: "(\<Sum>s\<leftarrow>rest. length (sq_suffix_pages s)) = sequence_pages config * card ids"
    unfolding m using len by (simp add: sum_list_triv)
  show "length (claims c) = prefix_pages config + sequence_pages config * card ids"
    using none rest(1) p(1) pages lens
    by (simp add: claims_def res_claims_def seq_claims_def pf_claims_def prefix_sequence_def
        claim_pages_def length_concat comp_def)
  have "unat (pf_attachments p) = count_list (map sq_prefix_id (kv_sequences c)) 1"
    using i p by (simp add: prefix_ok_def)
  also have "\<dots> = Suc (count_list (map sq_prefix_id rest) 1)"
    using rest(1) by (simp add: prefix_sequence_def)
  also have "count_list (map sq_prefix_id rest) 1 = length rest"
    using rest(3) by (intro count_list_all) (simp add: decision_sequence_def)
  finally have att: "unat (pf_attachments p) = Suc (card ids)" using len by simp
  then show "\<exists>p. kv_prefixes c = [p] \<and> pf_id p = 1 \<and> pf_token_count p = cf_shared_prefix_tokens config \<and>
       unat (pf_attachments p) = Suc (card ids)"
    using p by blast
  have shared: "shared_pages c s = pf_pages p" if "sq_prefix_id s = 1" for s
    using that p by (simp add: shared_pages_def find_prefix_def)
  have l: "map (logical_pages c) rest = map (\<lambda>s. prefix_pages config + sequence_pages config) rest"
    using shared suffix pages rest(3) by (intro map_cong) (auto simp: logical_pages_def decision_sequence_def)
  have "logical_pages c (prefix_sequence config) = prefix_pages config"
    using shared pages by (simp add: logical_pages_def prefix_sequence_def)
  then show "(\<Sum>s\<leftarrow>kv_sequences c. logical_pages c s) =
       prefix_pages config + (prefix_pages config + sequence_pages config) * card ids"
    unfolding rest(1) list.map l using len by (simp add: sum_list_triv)
qed

lemma radar_cache_free:
  assumes "radar_cache config n ids c" and "valid_config config"
  shows "free_count (kv_pages c) + prefix_pages config + sequence_pages config * card ids =
    unat (cf_kv_page_count config)"
  using free_count_claims [OF kv_inv_store [OF radar_cache_facts(1) [OF assms]]]
    radar_cache_facts(7) [OF assms] assms(1)
  by (simp add: radar_cache_def)

section \<open>The calls\<close>

text \<open>\<open>create_sequence\<close> of a decision attaches it to the prefix.\<close>

definition attached_sequence :: "scenario_config \<Rightarrow> u64 \<Rightarrow> kv_sequence" where
  "attached_sequence config i =
     \<lparr>sq_id = i, sq_prefix_id = 1, sq_prefix_tokens = cf_shared_prefix_tokens config,
      sq_total_tokens = cf_shared_prefix_tokens config, sq_suffix_pages = []\<rparr>"

lemma attach_decision:
  assumes rc: "radar_cache config n ids c" and v: "valid_config config"
    and i: "i \<notin> ids" "i \<noteq> 0" "i \<noteq> 1" and few: "card ids < vehicles_of config"
  obtains p c2 where "kv_create_sequence Alloc_ok i 1 c = (status_success, c2)" "kv_inv c2"
    "c2 = c\<lparr>kv_sequences := kv_sequences c @ [attached_sequence config i], kv_prefixes := [p]\<rparr>"
    "pf_id p = 1" "pf_token_count p = cf_shared_prefix_tokens config"
proof -
  note f = radar_cache_facts [OF rc v]
  obtain p where p: "kv_prefixes c = [p]" "pf_id p = 1"
    "pf_token_count p = cf_shared_prefix_tokens config" "unat (pf_attachments p) = Suc (card ids)"
    using f(8) by blast
  have "find_sequence c i = None"
    using f(10) i by (simp add: find_sequence_def find_None_iff_key)
  moreover have "find_prefix c 1 = Some p" using p by (simp add: find_prefix_def)
  moreover have "pf_attachments p \<noteq> u64_max"
    using p(4) few unat_u32_lt [of "cf_vehicle_count config"] by (auto simp: unat_u64_max)
  ultimately have created: "kv_create_sequence Alloc_ok i 1 c =
      (status_success, c\<lparr>kv_sequences := kv_sequences c @ [attached_sequence config i],
         kv_prefixes := [add_attachment 1 p]\<rparr>)"
    using i p
    by (simp add: kv_create_sequence_def attached_sequence_def add_attachment_def Let_def)
  show thesis
    by (rule that [OF created, where p = "add_attachment 1 p"])
      (use kv_create_sequence_inv [OF f(1), of Alloc_ok i 1] created p in simp_all)
qed

text \<open>Reserving and committing pages for a new sequence.\<close>

lemma grow_sequence:
  assumes inv: "kv_inv c" and seqs: "kv_sequences c = ss @ [s]"
    and s: "sq_suffix_pages s = []" "sq_total_tokens s \<le> t"
    and none: "kv_reservations c = []" and n: "kv_next_reservation_id c \<noteq> 0"
    and free: "npages (unat t - unat (sq_prefix_tokens s)) (unat (kv_tokens_per_page c)) \<le>
      free_count (kv_pages c)"
  obtains reservation c3 c4 where
    "kv_reserve Alloc_ok Alloc_ok (sq_id s) t c = (Inr reservation, c3)"
    "kv_commit Alloc_ok (res_id reservation) c3 = (status_success, c4)" "kv_inv c4"
    "kv_sequences c4 = ss @ [grow (res_new_pages reservation) t s]"
    "kv_tokens_per_page c4 = kv_tokens_per_page c" "length (kv_pages c4) = length (kv_pages c)"
    "kv_reservations c4 = []" "kv_next_reservation_id c4 = kv_next_reservation_id c + 1"
    "kv_prefixes c4 = kv_prefixes c"
    "length (res_new_pages reservation) =
       npages (unat t - unat (sq_prefix_tokens s)) (unat (kv_tokens_per_page c))"
proof -
  let ?id = "kv_next_reservation_id c"
  let ?n = "npages (unat t - unat (sq_prefix_tokens s)) (unat (kv_tokens_per_page c))"
  have new: "sq_id s \<notin> sq_id ` set ss"
    using inv seqs by (simp add: kv_inv_def)
  then have found: "find_sequence c (sq_id s) = Some s"
    using seqs by (simp add: find_sequence_def find_append_new)
  have pages: "unat (reserve_page_count c s t) = ?n"
    using unat_reserve_page_count [OF inv found s(2)] s(1) by simp
  let ?sel = "select_free (kv_pages c) 0 ?n"
  have len: "length ?sel = ?n" using free by (simp add: length_select_free)
  then have reserved: "kv_reserve Alloc_ok Alloc_ok (sq_id s) t c =
      (Inr \<lparr>res_id = ?id, res_sequence_id = sq_id s, res_target_token_count = t,
         res_new_pages = ?sel\<rparr>,
       c\<lparr>kv_reservations := [\<lparr>rv_id = ?id, rv_sequence_id = sq_id s,
           rv_target_token_count = t, rv_pages = ?sel\<rparr>],
         kv_pages := assign_pages (kv_pages c) ?sel \<lparr>pg_state = Reserved, pg_owner = ?id\<rparr>,
         kv_next_reservation_id := ?id + 1\<rparr>)"
    (is "_ = (Inr ?r, ?c3)")
    using found none n s(2) pages
    by (simp add: kv_reserve_def find_sequence_reservation_def not_less Let_def)
  have inv3: "kv_inv ?c3"
    using kv_reserve_inv [OF inv, of Alloc_ok Alloc_ok "sq_id s" t] reserved by simp
  have res: "find_reservation ?c3 ?id = Some (hd (kv_reservations ?c3))"
    by (simp add: find_reservation_def)
  have found3: "find_sequence ?c3 (sq_id s) = Some s" using found by (simp add: find_sequence_def)
  have upd: "(\<lambda>s. s\<lparr>sq_suffix_pages := sq_suffix_pages s @ ?sel, sq_total_tokens := t\<rparr>) = grow ?sel t"
    by (simp add: grow_def fun_eq_iff)
  obtain pages4 where committed: "kv_commit Alloc_ok (res_id ?r) ?c3 =
      (status_success, ?c3\<lparr>kv_sequences := ss @ [grow ?sel t s],
         kv_pages := pages4, kv_reservations := []\<rparr>)" "length pages4 = length (kv_pages c)"
    using res found3 reservation_owned [OF inv3 res] update_append_new [of "sq_id s" sq_id ss s] new seqs
    by (simp add: kv_commit_def upd)
  show thesis
    by (rule that [OF reserved committed(1)])
      (use committed none len kv_commit_inv [OF inv3, of Alloc_ok ?id] in simp_all)
qed

lemma admit_decision:
  assumes rc: "radar_cache config n ids c" and v: "valid_config config"
    and i: "i \<notin> ids" "i \<noteq> 0" "i \<noteq> 1" and few: "card ids < vehicles_of config"
    and n: "0 < n" "Suc n < 2 ^ 64"
  obtains c2 reservation c3 c4 where "kv_create_sequence Alloc_ok i 1 c = (status_success, c2)"
    "kv_reserve Alloc_ok Alloc_ok i (cf_prompt_tokens config + cf_output_tokens config) c2 =
       (Inr reservation, c3)"
    "kv_commit Alloc_ok (res_id reservation) c3 = (status_success, c4)"
    "radar_cache config (Suc n) (insert i ids) c4"
proof -
  note d = rc [unfolded radar_cache_def]
  from attach_decision [OF rc v i few] obtain p c2 where
    c2: "kv_create_sequence Alloc_ok i 1 c = (status_success, c2)" "kv_inv c2"
    "c2 = c\<lparr>kv_sequences := kv_sequences c @ [attached_sequence config i], kv_prefixes := [p]\<rparr>"
    "pf_id p = 1" "pf_token_count p = cf_shared_prefix_tokens config"
    by blast
  have parts: "kv_sequences c2 = kv_sequences c @ [attached_sequence config i]"
    "kv_tokens_per_page c2 = kv_tokens_per_page c" "kv_pages c2 = kv_pages c"
    "kv_reservations c2 = kv_reservations c" "kv_next_reservation_id c2 = kv_next_reservation_id c"
    "kv_prefixes c2 = [p]"
    by (simp_all add: c2(3))
  have "sequence_pages config * Suc (card ids) \<le> sequence_pages config * vehicles_of config"
    using few by (intro mult_le_mono2) simp
  then have free: "sequence_pages config \<le> free_count (kv_pages c2)"
    using radar_cache_free [OF rc v] valid_config_facts(5) [OF v] parts by simp
  have nz: "kv_next_reservation_id c2 \<noteq> 0" using d n parts by auto
  let ?t = "cf_prompt_tokens config + cf_output_tokens config"
  have new: "sq_suffix_pages (attached_sequence config i) = []" "sq_id (attached_sequence config i) = i"
    "sq_total_tokens (attached_sequence config i) \<le> ?t"
    "npages (unat ?t - unat (sq_prefix_tokens (attached_sequence config i)))
       (unat (kv_tokens_per_page c2)) = sequence_pages config"
    using valid_config_facts(3,4) [OF v] d parts
    by (simp_all add: attached_sequence_def sequence_pages_def word_le_nat_alt)
  from grow_sequence [OF c2(2) parts(1) new(1,3) _ nz, unfolded new(2,4)] free d parts
  obtain reservation c3 c4 where
    c4: "kv_reserve Alloc_ok Alloc_ok i ?t c2 = (Inr reservation, c3)"
    "kv_commit Alloc_ok (res_id reservation) c3 = (status_success, c4)" "kv_inv c4"
    "kv_sequences c4 = kv_sequences c @ [grow (res_new_pages reservation) ?t (attached_sequence config i)]"
    "kv_tokens_per_page c4 = kv_tokens_per_page c" "length (kv_pages c4) = length (kv_pages c)"
    "kv_reservations c4 = []" "kv_next_reservation_id c4 = kv_next_reservation_id c + 1"
    "kv_prefixes c4 = kv_prefixes c2" by metis
  have "unat (kv_next_reservation_id c + 1) = Suc n"
    using d n by (simp add: unat_u64_plus)
  then have "radar_cache config (Suc n) (insert i ids) c4"
    using d c2(4,5) c4 parts(6)
    by (auto simp: radar_cache_def decision_sequence_def attached_sequence_def)
  with c2(1) c4(1,2) show thesis by (rule that)
qed

text \<open>A finished decision gives its pages back.\<close>

lemma release_decision:
  assumes rc: "radar_cache config n ids c" and v: "valid_config config" and i: "i \<in> ids"
  obtains c' where "kv_destroy_sequence i c = (status_success, c')"
    "radar_cache config n (ids - {i}) c'"
proof -
  note f = radar_cache_facts [OF rc v]
  note d = rc [unfolded radar_cache_def]
  note inv = f(1) [unfolded kv_inv_def]
  obtain p where p: "kv_prefixes c = [p]" "pf_id p = 1"
    "pf_token_count p = cf_shared_prefix_tokens config" "unat (pf_attachments p) = Suc (card ids)"
    using f(8) by blast
  from d obtain rest where rest: "kv_sequences c = prefix_sequence config # rest"
    "sq_id ` set rest = ids" "\<forall>s \<in> set rest. decision_sequence config s"
    by blast
  have dist: "distinct (map sq_id rest)" using inv rest by simp
  have i1: "i \<noteq> 1" using i f(3) by blast
  from i rest(2) obtain s where s: "s \<in> set rest" "sq_id s = i" by blast
  have found: "List.find (\<lambda>s. sq_id s = i) rest = Some s"
    using s dist by (simp add: find_distinct_key)
  then have found': "find_sequence c i = Some s"
    using rest(1) i1 by (simp add: find_sequence_def prefix_sequence_def)
  have "pf_attachments p \<noteq> 0" using p(4) by auto
  then have destroyed: "kv_destroy_sequence i c = (status_success,
      c\<lparr>kv_pages := assign_pages (kv_pages c) (sq_suffix_pages s) empty_page,
        kv_prefixes := [p\<lparr>pf_attachments := pf_attachments p - 1\<rparr>],
        kv_sequences := prefix_sequence config # erase_first (\<lambda>s. sq_id s = i) rest\<rparr>)"
    (is "_ = (_, ?c)")
    using found' f(2) p s(1) rest i1 sequence_owned [OF f(1) found']
    by (simp add: kv_destroy_sequence_def find_sequence_reservation_def find_prefix_def
        decision_sequence_def prefix_sequence_def Let_def)
  have kept: "set (erase_first (\<lambda>s. sq_id s = i) rest) = set rest - {s}"
    by (rule set_erase_first [OF dist found])
  have ids: "sq_id ` (set rest - {s}) = ids - {i}"
    using rest(2) s dist distinct_key_unique [OF dist] by blast
  have "radar_cache config n (ids - {i}) ?c"
    using d p kept ids rest(3) kv_destroy_sequence_inv [OF f(1), of i] destroyed
    by (simp add: radar_cache_def)
  with destroyed show thesis by (rule that)
qed

section \<open>Metrics, start and end\<close>

text \<open>The logical pages of all page tables at full load fit 64 bits, and so do the batches.\<close>

definition radar_fits :: "scenario_config \<Rightarrow> bool" where
  "radar_fits config \<longleftrightarrow>
     (prefix_pages config + (prefix_pages config + sequence_pages config) * vehicles_of config) *
       tokens_per_page config < 2 ^ 64 \<and>
     2 * unat (cf_steps config) * vehicles_of config < 2 ^ 64"

lemma no_reserved_pages:
  assumes inv: "kv_inv c" and none: "kv_reservations c = []"
  shows "state_count Reserved (kv_pages c) = 0"
proof -
  have "pg_state pg \<noteq> Reserved" if "pg \<in> set (kv_pages c)" for pg
  proof
    assume r: "pg_state pg = Reserved"
    from that obtain k where k: "k < length (kv_pages c)" "kv_pages c ! k = pg"
      by (metis in_set_conv_nth)
    then show False
      using page_valid [OF inv k(1)] r none by (simp add: owner_is_valid_def find_reservation_def)
  qed
  then show ?thesis by (simp add: state_count_def filter_empty_conv)
qed

lemma free_count_state: "free_count ps = state_count Free ps"
  by (simp add: free_count_def state_count_def)

lemma radar_metrics:
  assumes rc: "radar_cache config n ids c" and v: "valid_config config"
    and fits: "radar_fits config" and few: "card ids \<le> vehicles_of config"
  obtains m where "kv_metrics c = Inr m"
    "unat (mt_mutable_pages m + mt_shared_prefix_pages m) =
       prefix_pages config + sequence_pages config * card ids"
proof -
  note f = radar_cache_facts [OF rc v]
  note d = rc [unfolded radar_cache_def]
  have "(prefix_pages config + (prefix_pages config + sequence_pages config) * card ids) *
      tokens_per_page config \<le>
    (prefix_pages config + (prefix_pages config + sequence_pages config) * vehicles_of config) *
      tokens_per_page config"
    using few by (intro mult_le_mono1 add_left_mono mult_le_mono2)
  also have "\<dots> < 2 ^ 64" using fits unfolding radar_fits_def by (rule conjunct1)
  finally have "table_capacity c < 2 ^ 64"
    using d f(9) by (simp add: table_capacity_def)
  then obtain m where m: "kv_metrics c = Inr m" "exact_metrics c m"
    using kv_metrics_fit [OF f(1)] by blast
  have "unat (mt_mutable_pages m) + unat (mt_shared_prefix_pages m) =
      prefix_pages config + sequence_pages config * card ids"
    using m(2) no_reserved_pages [OF f(1,2)] radar_cache_free [OF rc v] d
    by (simp add: exact_metrics_def free_count_state)
  moreover from this have "unat (mt_mutable_pages m) + unat (mt_shared_prefix_pages m) < 2 ^ 64"
    using radar_cache_free [OF rc v] unat_u32_lt [of "cf_kv_page_count config"] by simp
  ultimately have "unat (mt_mutable_pages m + mt_shared_prefix_pages m) =
      prefix_pages config + sequence_pages config * card ids"
    by (simp only: unat_u64_plus)
  with m(1) show thesis by (rule that)
qed

definition allocs_ok :: "radar_env \<Rightarrow> bool" where
  "allocs_ok env \<longleftrightarrow> (\<forall>site. re_alloc env site = Alloc_ok)"

lemma start_cache_ok:
  assumes v: "valid_config config" and a: "allocs_ok env"
    and c0: "kv_create Alloc_ok (cf_kv_page_count config) (cf_kv_tokens_per_page config) = Inr c0"
  obtains c where "start_cache env config c0 = Inr c" "radar_cache config 2 {} c"
proof -
  note vf = valid_config_facts [OF v]
  let ?s = "\<lparr>sq_id = 1, sq_prefix_id = 0, sq_prefix_tokens = 0, sq_total_tokens = 0,
      sq_suffix_pages = []\<rparr>"
  let ?t = "cf_shared_prefix_tokens config"
  have c0': "kv_sequences c0 = []" "kv_prefixes c0 = []" "kv_reservations c0 = []"
    "kv_next_reservation_id c0 = 1" "kv_tokens_per_page c0 = cf_kv_tokens_per_page config"
    "length (kv_pages c0) = unat (cf_kv_page_count config)"
    using c0 by (auto simp: kv_create_def split: if_splits)
  have c1: "kv_create_sequence Alloc_ok 1 0 c0 = (status_success, c0\<lparr>kv_sequences := [?s]\<rparr>)"
    (is "_ = (_, ?c1)")
    using c0' by (simp add: kv_create_sequence_def find_sequence_def Let_def)
  have inv1: "kv_inv ?c1"
    using kv_create_sequence_inv [OF kv_create_inv [OF c0], of Alloc_ok 1 0] c1 by simp
  have "claims ?c1 = []"
    using c0' by (simp add: claims_def res_claims_def seq_claims_def pf_claims_def)
  then have free: "free_count (kv_pages c0) = unat (cf_kv_page_count config)"
    using free_count_claims [OF kv_inv_store [OF inv1]] c0' by simp
  have room: "npages (unat ?t - unat (sq_prefix_tokens ?s)) (unat (kv_tokens_per_page ?c1)) \<le>
      free_count (kv_pages ?c1)"
    using free vf(5) c0' by (simp add: prefix_pages_def)
  from grow_sequence [OF inv1, of "[]" ?s ?t] room c0' obtain reservation c2 c3 where
    c3: "kv_reserve Alloc_ok Alloc_ok 1 ?t ?c1 = (Inr reservation, c2)"
    "kv_commit Alloc_ok (res_id reservation) c2 = (status_success, c3)" "kv_inv c3"
    "kv_sequences c3 = [grow (res_new_pages reservation) ?t ?s]"
    "kv_tokens_per_page c3 = cf_kv_tokens_per_page config"
    "length (kv_pages c3) = unat (cf_kv_page_count config)"
    "kv_reservations c3 = []" "kv_next_reservation_id c3 = 2" "kv_prefixes c3 = []"
    "length (res_new_pages reservation) = prefix_pages config"
    by (auto simp: prefix_pages_def)
  have found: "find_sequence c3 1 = Some (grow (res_new_pages reservation) ?t ?s)"
    using c3(4) by (simp add: find_sequence_def)
  have "0 < prefix_pages config" using npages_pos [OF vf(1,2)] by (simp add: prefix_pages_def)
  then have "res_new_pages reservation \<noteq> []" "?t \<noteq> 0" using c3(10) vf(2) by auto
  then have c4: "kv_publish_prefix Alloc_ok 1 1 c3 = (status_success,
      c3\<lparr>kv_prefixes := [\<lparr>pf_id = 1, pf_token_count = ?t, pf_attachments = 1,
           pf_pages = res_new_pages reservation\<rparr>],
         kv_pages := assign_pages (kv_pages c3) (res_new_pages reservation)
           \<lparr>pg_state = Immutable_prefix, pg_owner = 1\<rparr>,
         kv_sequences := [prefix_sequence config]\<rparr>)" (is "_ = (_, ?c4)")
    using found c3 sequence_owned [OF c3(3) found]
    by (simp add: kv_publish_prefix_def find_prefix_def find_sequence_reservation_def
        prefix_sequence_def grow_def)
  have "start_cache env config c0 = Inr ?c4"
    using c1 c3(1,2) c4 a by (simp add: start_cache_def allocs_ok_def)
  moreover have "radar_cache config 2 {} ?c4"
    using kv_publish_prefix_inv [OF c3(3), of Alloc_ok 1 1] c4 c3 by (simp add: radar_cache_def)
  ultimately show thesis by (rule that)
qed

lemma finish_run_ok:
  assumes rc: "radar_cache config n {} (rn_cache r)" and v: "valid_config config" and a: "allocs_ok env"
  shows "finish_run env config r =
    Inr \<lparr>sr_config = config, sr_metrics = summarize (re_doubles env) config r, sr_frames = rn_frames r\<rparr>"
proof -
  let ?c = "rn_cache r"
  note f = radar_cache_facts [OF rc v]
  note d = rc [unfolded radar_cache_def]
  obtain p where p: "kv_prefixes ?c = [p]" "pf_id p = 1" "unat (pf_attachments p) = 1"
    using f(8) by auto
  then have att: "pf_attachments p = 1" by (simp flip: unat_inject)
  have seqs: "kv_sequences ?c = [prefix_sequence config]" using d by auto
  have c1: "kv_destroy_sequence 1 ?c = (status_success,
      ?c\<lparr>kv_prefixes := [p\<lparr>pf_attachments := 0\<rparr>], kv_sequences := []\<rparr>)" (is "_ = (_, ?c1)")
    using seqs p att f(2)
    by (simp add: kv_destroy_sequence_def find_sequence_def find_sequence_reservation_def
        find_prefix_def prefix_sequence_def pages_owned_def Let_def)
  have inv1: "kv_inv ?c1" using kv_destroy_sequence_inv [OF f(1), of 1] c1 by simp
  have found: "find_prefix ?c1 1 = Some (p\<lparr>pf_attachments := 0\<rparr>)"
    using p by (simp add: find_prefix_def)
  have c2: "kv_destroy_prefix 1 ?c1 = (status_success,
      ?c1\<lparr>kv_pages := assign_pages (kv_pages ?c) (pf_pages p) empty_page, kv_prefixes := []\<rparr>)"
    (is "_ = (_, ?c2)")
    using found prefix_owned [OF inv1 found] p(2) by (simp add: kv_destroy_prefix_def)
  have inv2: "kv_inv ?c2" using kv_destroy_prefix_inv [OF inv1, of 1] c2 by simp
  have "claims ?c2 = []" using f(2) by (simp add: claims_def res_claims_def seq_claims_def pf_claims_def)
  then have free: "state_count Free (kv_pages ?c2) = unat (cf_kv_page_count config)"
    using free_count_claims [OF kv_inv_store [OF inv2]] d by (simp add: free_count_state)
  obtain m where m: "kv_metrics ?c2 = Inr m" "exact_metrics ?c2 m"
    using kv_metrics_fit [OF inv2] f(2) by (auto simp: table_capacity_def)
  have "mt_free_pages m = ucast (cf_kv_page_count config)"
    using m(2) free by (simp add: exact_metrics_def flip: unat_inject)
  with m(1) show ?thesis using c1 c2 a by (simp add: finish_run_def allocs_ok_def)
qed

end
