(* ===== verification/RadarSched.thy ===== *)
theory RadarSched
  imports RadarCache SchedulerProps
begin

text \<open>
  The scheduler during a run of the radar scenario: the sequences of earlier steps are
  finished, those of the current step are numbered from \<open>first\<close> on and have emitted none, one
  or both of their two tokens. No call of the run fails, every batch holds work, and what
  completing an item does is the progress of one sequence.
\<close>

section \<open>The state of the scheduler\<close>

definition phase_of :: "nat \<Rightarrow> sequence_phase" where
  "phase_of k = (if k = 0 then Queued else if k = 1 then Decoding else Finished)"

definition decision_request :: "scenario_config \<Rightarrow> u64 \<Rightarrow> sequence_request" where
  "decision_request config i =
     \<lparr>rq_id = i, rq_prompt_tokens = cf_prompt_tokens config,
      rq_max_output_tokens = cf_output_tokens config\<rparr>"

definition decision_entry :: "scenario_config \<Rightarrow> u64 \<Rightarrow> nat \<Rightarrow> bool \<Rightarrow> entry \<Rightarrow> bool" where
  "decision_entry config i k flying e \<longleftrightarrow>
     en_request e = decision_request config i \<and> en_phase e = phase_of k \<and>
     en_generated_tokens e = of_nat k \<and> en_in_flight e = flying \<and> \<not> en_cancel_pending e"

text \<open>\<open>progress\<close> counts the tokens of each sequence of the step, \<open>flying\<close> tells which are in the
  outstanding batch.\<close>

definition radar_sched ::
  "scenario_config \<Rightarrow> nat \<Rightarrow> nat \<Rightarrow> (nat \<Rightarrow> nat) \<Rightarrow> (nat \<Rightarrow> bool) \<Rightarrow> scheduler \<Rightarrow> bool" where
  "radar_sched config first n progress flying s \<longleftrightarrow>
     0 < first \<and> first + n < 2 ^ 64 \<and>
     (\<exists>old fresh. sch_entries s = old @ fresh \<and> length fresh = n \<and>
        (\<forall>e \<in> set old. en_phase e = Finished \<and> unat (entry_id e) < first) \<and>
        (\<forall>j < n. decision_entry config (of_nat (first + j)) (progress j) (flying j) (fresh ! j)))"

lemma decision_entry_simps:
  "decision_entry config i k fl e \<Longrightarrow> entry_id e = i"
  "decision_entry config i k fl e \<Longrightarrow> is_runnable e \<longleftrightarrow> \<not> fl \<and> k < 2"
  by (auto simp: decision_entry_def decision_request_def is_runnable_def phase_of_def)

lemma unat_decision_id:
  "radar_sched config first n progress flying s \<Longrightarrow> j \<le> n \<Longrightarrow>
     unat (of_nat (first + j) :: u64) = first + j"
  by (intro unat_u64_of_nat) (simp add: radar_sched_def)

lemma decision_id_eq:
  "radar_sched config first n progress flying s \<Longrightarrow> j \<le> n \<Longrightarrow> k \<le> n \<Longrightarrow>
     (of_nat (first + j) :: u64) = of_nat (first + k) \<longleftrightarrow> j = k"
  using unat_decision_id by (metis add_left_cancel)

lemma radar_sched_new: "0 < first \<Longrightarrow> first < 2 ^ 64 \<Longrightarrow> radar_sched config first 0 progress flying new_scheduler"
  by (simp add: radar_sched_def new_scheduler_def)

lemma radar_sched_entry:
  assumes "radar_sched config first n progress flying s" and "e \<in> set (sch_entries s)"
  obtains (old) "en_phase e = Finished" "unat (entry_id e) < first"
  | (fresh) j where "j < n" "decision_entry config (of_nat (first + j)) (progress j) (flying j) e"
proof -
  from assms(1) obtain olds news where s: "sch_entries s = olds @ news" "length news = n"
    "\<forall>e \<in> set olds. en_phase e = Finished \<and> unat (entry_id e) < first"
    "\<forall>j < n. decision_entry config (of_nat (first + j)) (progress j) (flying j) (news ! j)"
    unfolding radar_sched_def by blast
  consider "e \<in> set olds" | j where "j < n" "e = news ! j"
    using assms(2) s(1,2) by (metis Un_iff in_set_conv_nth set_append)
  then show thesis
  proof cases
    case 1
    with s(3) show ?thesis by (intro old) simp_all
  next
    case (2 j)
    with s(4) show ?thesis by (intro fresh [of j]) simp_all
  qed
qed

lemma radar_sched_next:
  assumes rs: "radar_sched config first n progress flying s" and "\<forall>j < n. progress j = 2"
  shows "radar_sched config (first + n) 0 progress' flying' s"
proof -
  have "en_phase e = Finished \<and> unat (entry_id e) < first + n" if "e \<in> set (sch_entries s)" for e
    using rs that
  proof (cases rule: radar_sched_entry)
    case (fresh j)
    then have "en_phase e = Finished"
      using assms(2) by (simp add: decision_entry_def phase_of_def)
    then show ?thesis
      using unat_decision_id [OF rs, of j] fresh(1) decision_entry_simps(1) [OF fresh(2)]
      by (simp del: of_nat_add)
  qed simp
  then have "\<exists>old fresh. sch_entries s = old @ fresh \<and> length fresh = 0 \<and>
      (\<forall>e \<in> set old. en_phase e = Finished \<and> unat (entry_id e) < first + n)"
    by (intro exI [of _ "sch_entries s"] exI [of _ "[]"]) simp
  then show ?thesis using rs unfolding radar_sched_def by simp
qed

section \<open>Enqueue\<close>

lemma enqueue_decision:
  assumes rs: "radar_sched config first n progress flying s" and v: "valid_config config"
    and room: "first + Suc n < 2 ^ 64"
  obtains s' where
    "enqueue Alloc_ok (decision_request config (of_nat (first + n))) s = (status_success, s')"
    "radar_sched config first (Suc n) (progress(n := 0)) (flying(n := False)) s'"
    "sch_generation s' = sch_generation s"
proof -
  let ?i = "of_nat (first + n) :: u64"
  from rs obtain old fresh where s: "0 < first" "sch_entries s = old @ fresh" "length fresh = n"
    "\<forall>e \<in> set old. en_phase e = Finished \<and> unat (entry_id e) < first"
    "\<forall>j < n. decision_entry config (of_nat (first + j)) (progress j) (flying j) (fresh ! j)"
    by (auto simp: radar_sched_def)
  note un = unat_decision_id [OF rs]
  have "entry_id e \<noteq> ?i" if "e \<in> set (sch_entries s)" for e
    using rs that
  proof (cases rule: radar_sched_entry)
    case old
    then show ?thesis using un [of n] by (auto simp del: of_nat_add)
  next
    case (fresh j)
    then show ?thesis
      using decision_entry_simps(1) [OF fresh(2)] decision_id_eq [OF rs, of j n]
      by (simp del: of_nat_add)
  qed
  then have none: "find_entry s ?i = None" by (auto simp: find_entry_def find_None_iff)
  have "?i \<noteq> 0" using un [of n] s(1) by auto
  then have ok: "enqueue Alloc_ok (decision_request config ?i) s =
      (status_success, s\<lparr>sch_entries := sch_entries s @ [new_entry (decision_request config ?i)]\<rparr>)"
    using none valid_config_facts(7,8,9) [OF v]
    by (simp add: enqueue_def decision_request_def not_less)
  have fresh: "decision_entry config ?i 0 False (new_entry (decision_request config ?i))"
    by (simp add: decision_entry_def new_entry_def phase_of_def)
  have "radar_sched config first (Suc n) (progress(n := 0)) (flying(n := False))
      (s\<lparr>sch_entries := sch_entries s @ [new_entry (decision_request config ?i)]\<rparr>)"
    unfolding radar_sched_def using s room fresh
    by (intro conjI exI [of _ old] exI [of _ "fresh @ [new_entry (decision_request config ?i)]"])
      (auto simp: nth_append less_Suc_eq)
  with ok show thesis by (rule that) simp
qed

section \<open>Schedule\<close>

lemma nth_batch_items:
  "k < length js \<Longrightarrow> batch_items es js m ! k = batch_item_for (m + k) (es ! (js ! k))"
  "length (batch_items es js m) = length js"
  by (simp_all add: batch_items_eq nth_enumerate_eq)

text \<open>\<open>item\<close> asks for the next token of the sequence with number \<open>j\<close> of the step.\<close>

definition decision_item :: "nat \<Rightarrow> (nat \<Rightarrow> nat) \<Rightarrow> nat \<Rightarrow> batch_item \<Rightarrow> bool" where
  "decision_item first progress j item \<longleftrightarrow>
     bi_id item = of_nat (first + j) \<and> bi_work item = (if progress j = 0 then Prefill else Decode)"

lemma marked_decision:
  "decision_entry config i k False e \<Longrightarrow> decision_entry config i k True (marked e)"
  by (simp add: decision_entry_def)

lemma schedule_decisions:
  assumes rs: "radar_sched config first n progress (\<lambda>_. False) s" and v: "valid_config config"
    and work: "j < n" "progress j < 2" and g: "Suc (unat (sch_generation s)) < 2 ^ 64"
  obtains sel items s' where
    "schedule Alloc_ok Alloc_ok (ucast (cf_maximum_batch_size config)) s =
       (Inr \<lparr>ib_generation = sch_generation s + 1, ib_items = items\<rparr>, s')"
    "radar_sched config first n progress (\<lambda>j. j \<in> set sel) s'"
    "sch_generation s' = sch_generation s + 1" "sel \<noteq> []" "distinct sel"
    "\<forall>j \<in> set sel. j < n \<and> progress j < 2" "list_all2 (decision_item first progress) sel items"
    "length sel \<le> unat (cf_maximum_batch_size config)"
proof -
  from rs obtain old fresh where s: "sch_entries s = old @ fresh" "length fresh = n"
    "\<forall>e \<in> set old. en_phase e = Finished \<and> unat (entry_id e) < first"
    "\<forall>j < n. decision_entry config (of_nat (first + j)) (progress j) False (fresh ! j)"
    by (auto simp: radar_sched_def)
  let ?m = "ucast (cf_maximum_batch_size config) :: u64"
  let ?es = "sch_entries s"
  let ?js = "sched_selected s (unat ?m)"
  have run: "is_runnable (?es ! i) \<longleftrightarrow> length old \<le> i \<and> progress (i - length old) < 2"
    if "i < length ?es" for i
  proof (cases "i < length old")
    case True
    then show ?thesis using s(1,3) by (auto simp: nth_append is_runnable_def)
  next
    case False
    then have e: "?es ! i = fresh ! (i - length old)" "i - length old < n"
      using s(1,2) that by (auto simp: nth_append)
    show ?thesis using decision_entry_simps(2) [OF s(4) [rule_format, OF e(2)]] e(1) False by simp
  qed
  define sel where "sel = map (\<lambda>i. i - length old) ?js"
  have js: "length old \<le> i \<and> i - length old < n \<and> progress (i - length old) < 2"
    if "i \<in> set ?js" for i
  proof -
    have i: "i < length ?es" using sched_selected_facts(2) that by blast
    then show ?thesis
      using run [OF i] sched_selected_facts(3) [OF that] s(1,2) by (simp add: less_diff_conv2)
  qed
  have shift: "i = length old + (i - length old)" if "i \<in> set ?js" for i using js [OF that] by simp
  have m: "?m \<noteq> 0" using valid_config_facts(10) [OF v] by (metis unat_ucast_u32_u64 unat_eq_0 unsigned_0)
  have "length old + j < length ?es" using work s by simp
  then have "is_runnable (?es ! (length old + j))" "length old + j < length ?es"
    using run [of "length old + j"] work by simp_all
  then have "filter (\<lambda>i. is_runnable (?es ! i))
      (scan_order (sch_next_scan_index s mod length ?es) (length ?es)) \<noteq> []"
    by (auto simp: filter_empty_conv)
  then have nonempty: "?js \<noteq> []" using m valid_config_facts(10) [OF v]
    by (simp add: sched_selected_def unat_eq_0)
  have "sch_generation s \<noteq> u64_max" using g by (auto simp: unat_u64_max)
  moreover have "select_runnable ?es (scan_order (sch_next_scan_index s mod length ?es) (length ?es))
      (min (unat ?m) (length ?es)) = ?js"
    using sched_selected_min [of s "unat ?m"] by (simp add: select_runnable_eq sched_selected_def)
  moreover have "?es \<noteq> []" using s(1,2) work(1) by auto
  ultimately have scheduled: "schedule Alloc_ok Alloc_ok ?m s =
      (Inr \<lparr>ib_generation = sch_generation s + 1, ib_items = batch_items ?es ?js 0\<rparr>,
       s\<lparr>sch_generation := sch_generation s + 1,
         sch_entries := mark_in_flight ?es ?js (batch_items ?es ?js 0),
         sch_next_scan_index := (last ?js + 1) mod length ?es\<rparr>)" (is "_ = (_, ?s')")
    using nonempty m unfolding schedule_def Let_def by simp
  have marks: "length (sch_entries ?s') = length ?es"
    "i < length ?es \<Longrightarrow> sch_entries ?s' ! i = (if i \<in> set ?js then marked (?es ! i) else ?es ! i)" for i
    using mark_in_flight_nth [of ?js ?es ?es 0] sched_selected_facts(1,2) [of s "unat ?m"]
    by auto
  have inset: "j \<in> set sel \<longleftrightarrow> length old + j \<in> set ?js" for j
  proof
    assume "j \<in> set sel"
    then obtain i where "i \<in> set ?js" "j = i - length old" by (auto simp: sel_def)
    with shift [of i] show "length old + j \<in> set ?js" by simp
  qed (force simp: sel_def image_iff)
  have rs': "radar_sched config first n progress (\<lambda>j. j \<in> set sel) ?s'"
  proof -
    have "i \<notin> set ?js" if "i < length old" for i using js [of i] that by auto
    then have "take (length old) (sch_entries ?s') = old"
      using marks s(1) by (intro nth_equalityI) (auto simp: nth_append)
    then have split: "sch_entries ?s' = old @ drop (length old) (sch_entries ?s')"
      by (metis append_take_drop_id)
    have "decision_entry config (of_nat (first + j)) (progress j) (j \<in> set sel)
        (drop (length old) (sch_entries ?s') ! j)" if j: "j < n" for j
    proof -
      have e: "?es ! (length old + j) = fresh ! j" "length old + j < length ?es"
        using j s(1,2) by (simp_all add: nth_append)
      then have "drop (length old) (sch_entries ?s') ! j =
          (if j \<in> set sel then marked (fresh ! j) else fresh ! j)"
        using marks inset by (simp del: scheduler.select_convs scheduler.simps)
      then show ?thesis using s(4) j marked_decision by (simp del: of_nat_add)
    qed
    moreover have "length (drop (length old) (sch_entries ?s')) = n"
      using marks(1) s(1,2) by (simp del: scheduler.simps)
    ultimately show ?thesis
      using rs s(3) split unfolding radar_sched_def by blast
  qed
  have items: "list_all2 (decision_item first progress) sel (batch_items ?es ?js 0)"
  proof (rule list_all2_all_nthI)
    show "length sel = length (batch_items ?es ?js 0)" by (simp add: sel_def nth_batch_items)
    fix k assume "k < length sel"
    then have k: "k < length ?js" by (simp add: sel_def)
    then have "?es ! (?js ! k) = fresh ! (sel ! k)" "sel ! k < n"
      using js [of "?js ! k"] s(1) by (auto simp: sel_def nth_append)
    then show "decision_item first progress (sel ! k) (batch_items ?es ?js 0 ! k)"
      using s(4) k
      by (auto simp: nth_batch_items decision_item_def batch_item_for_def decision_entry_def
          decision_request_def phase_of_def simp del: of_nat_add)
  qed
  show thesis
  proof (rule that [OF scheduled rs' _ _ _ _ items])
    show "sch_generation ?s' = sch_generation s + 1" by simp
    show "sel \<noteq> []" using nonempty by (simp add: sel_def)
    show "distinct sel"
      using sched_selected_facts(1) [of s "unat ?m"] shift
      by (auto simp: sel_def distinct_map intro!: inj_onI) metis
    show "\<forall>j \<in> set sel. j < n \<and> progress j < 2" using js by (auto simp: sel_def)
    show "length sel \<le> unat (cf_maximum_batch_size config)"
      by (simp add: sel_def sched_selected_def)
  qed
qed

section \<open>Complete\<close>

lemma update_first_nth:
  "i < length xs \<Longrightarrow> P (xs ! i) \<Longrightarrow> \<forall>j < i. \<not> P (xs ! j) \<Longrightarrow>
     update_first P f xs = xs[i := f (xs ! i)] \<and> List.find P xs = Some (xs ! i)"
proof (induction xs arbitrary: i)
  case (Cons x xs)
  show ?case
  proof (cases i)
    case 0
    then show ?thesis using Cons.prems by simp
  next
    case (Suc m)
    have "\<not> P x" "\<forall>j < m. \<not> P (xs ! j)"
      using Cons.prems(3) Suc by (metis nth_Cons_0 zero_less_Suc, metis nth_Cons_Suc Suc_less_eq)
    then show ?thesis using Cons.IH [of m] Cons.prems Suc by simp
  qed
qed simp

lemma complete_decision_entry:
  assumes e: "decision_entry config i k True e" and v: "valid_config config" and k: "k < 2"
  obtains e' where "complete_entry 1 (k = 1) e = (status_success, e')"
    "decision_entry config i (Suc k) False e'"
proof -
  have "cf_output_tokens config = 2" by (rule valid_config_facts(7) [OF v])
  moreover have "k = 0 \<or> k = 1" using k by linarith
  ultimately show thesis
    using e that
    by (auto simp: complete_entry_def decision_entry_def decision_request_def phase_of_def Let_def)
qed

lemma complete_decision:
  assumes rs: "radar_sched config first n progress flying s" and v: "valid_config config"
    and j: "j < n" "flying j" "progress j < 2"
  obtains s' where
    "complete (of_nat (first + j)) 1 (progress j = 1) s = (status_success, s')"
    "radar_sched config first n (progress(j := Suc (progress j))) (flying(j := False)) s'"
    "sch_generation s' = sch_generation s"
proof -
  let ?i = "of_nat (first + j) :: u64"
  let ?P = "\<lambda>e. entry_id e = ?i"
  from rs obtain old fresh where s: "0 < first" "sch_entries s = old @ fresh" "length fresh = n"
    "\<forall>e \<in> set old. en_phase e = Finished \<and> unat (entry_id e) < first"
    "\<forall>j < n. decision_entry config (of_nat (first + j)) (progress j) (flying j) (fresh ! j)"
    by (auto simp: radar_sched_def)
  note un = unat_decision_id [OF rs]
  have e: "decision_entry config ?i (progress j) True (fresh ! j)" using s(5) j by metis
  have other: "\<not> ?P (fresh ! k)" if "k < n" "k \<noteq> j" for k
    using s(5) that j decision_id_eq [OF rs, of k j] decision_entry_simps(1) by (metis less_imp_le)
  have "\<not> ?P e" if "e \<in> set old" for e
    using s(4) that un [of j] j(1) by fastforce
  then have "\<forall>k < length old + j. \<not> ?P ((old @ fresh) ! k)"
    using other j(1) by (auto simp: nth_append)
  then have found: "update_first ?P f (sch_entries s) = (old @ fresh)[length old + j := f (fresh ! j)]"
    "find_entry s ?i = Some (fresh ! j)" for f
    using update_first_nth [of "length old + j" "old @ fresh" ?P f] decision_entry_simps(1) [OF e] j(1) s(2,3)
    by (simp_all add: find_entry_def nth_append)
  obtain e' where e': "complete_entry 1 (progress j = 1) (fresh ! j) = (status_success, e')"
    "decision_entry config ?i (Suc (progress j)) False e'"
    by (rule complete_decision_entry [OF e v j(3)])
  have completed: "complete ?i 1 (progress j = 1) s =
      (status_success, s\<lparr>sch_entries := old @ fresh[j := e']\<rparr>)"
    using found e e'(1) by (simp add: complete_def set_entry_def decision_entry_def list_update_append)
  have "radar_sched config first n (progress(j := Suc (progress j))) (flying(j := False))
      (s\<lparr>sch_entries := old @ fresh[j := e']\<rparr>)"
    unfolding radar_sched_def using rs s e'(2) j(1)
    by (intro conjI exI [of _ old] exI [of _ "fresh[j := e']"])
      (auto simp: radar_sched_def nth_list_update simp del: of_nat_add)
  with completed show thesis by (rule that) simp
qed

end
