(* ===== verification/RadarSteps.thy ===== *)
theory RadarSteps
  imports RadarSched GrammarClaims
begin

text \<open>
  The admission of a step and the service of its decisions. The invariant ties the three
  components of the run together: what the scheduler still has to do, the sequences the cache
  holds and the decisions of the frame are the same numbers.
\<close>

section \<open>Loops\<close>

lemma for_each_append:
  "for_each body (xs @ ys) s =
     (case for_each body xs s of Inl e \<Rightarrow> Inl e | Inr s' \<Rightarrow> for_each body ys s')"
  by (induction xs arbitrary: s) (auto split: sum.splits)

lemma for_each_upt:
  assumes "\<And>i s. i < n \<Longrightarrow> P i s \<Longrightarrow> \<exists>s'. body i s = Inr s' \<and> P (Suc i) s'" and "P 0 s"
  shows "\<exists>s'. for_each body [0..<n] s = Inr s' \<and> P n s'"
  using assms(1)
proof (induction n)
  case 0
  then show ?case using assms(2) by simp
next
  case (Suc n)
  then obtain s' where "for_each body [0..<n] s = Inr s'" "P n s'" by force
  moreover from this(2) Suc.prems obtain s'' where "body n s' = Inr s''" "P (Suc n) s''" by blast
  ultimately show ?case by (simp add: for_each_append)
qed

lemma fold_upt_inv:
  assumes "\<And>i s. i < n \<Longrightarrow> P i s \<Longrightarrow> P (Suc i) (f i s)" and "P 0 s"
  shows "P n (fold f [0..<n] s)"
  using assms(1) by (induction n) (simp_all add: assms(2))

section \<open>Every action is a word\<close>

lemma advance_tokens_run:
  "advance_tokens d ts s = Some s' \<longleftrightarrow> run_word (token_advance d) s ts = Inr s'"
  by (induction ts arbitrary: s) (auto split: sum.splits)

lemma action_choices_eq:
  "choice_words action_choices = [(0, [80, 11]), (1, [80, 23]), (2, [80, 37]), (3, [80, 41]), (4, [80, 59])]"
  by (simp add: action_choices_def action_tokens_def upt_rec)

lemma build_action_dfa_eq:
  "build_action_dfa mem =
     (if mem < 5 then Terminated
      else Returned (token_build (mem - 5) action_choices action_dfa_config))"
proof -
  have "encode_choices language mem =
      (if mem < length language then None else Some (mem - length language))" for language mem
    by (induction language arbitrary: mem) (auto simp: use_alloc_def)
  moreover have "length action_choices = 5" by (simp add: action_choices_def action_tokens_def)
  ultimately show ?thesis by (simp add: build_action_dfa_def)
qed

lemma grammar_round_trip_ok:
  assumes "build_action_dfa mem = Returned (Inr d)"
  shows "grammar_round_trip d act"
proof -
  have "token_build (mem - 5) action_choices action_dfa_config = Inr d"
    using assms by (simp add: build_action_dfa_eq split: if_splits)
  then have b: "token_built d (choice_words action_choices)" by (rule token_builtI)
  have member: "(of_nat (action_index act), action_tokens ! action_index act) \<in>
      set (choice_words action_choices)"
    unfolding action_choices_eq by (cases act) (simp_all add: action_tokens_def)
  obtain s where "run_word (token_advance d) 0 (action_tokens ! action_index act) = Inr s"
    "token_decode_terminal d s = Inr (of_nat (action_index act))"
    using choices.word_decodes [OF b member] by blast
  moreover have "action_index act < length action_tokens"
    by (cases act) (simp_all add: action_tokens_def)
  ultimately show ?thesis by (simp add: grammar_round_trip_def advance_tokens_run [symmetric])
qed

lemma action_dfa_failure:
  assumes "token_build mem action_choices action_dfa_config = Inl e"
  shows "e = status_failure Allocation_failed \<and> mem < 21"
proof -
  let ?L = "choice_words action_choices"
  have "has_value (token_build 21 action_choices action_dfa_config)" by code_simp
  then obtain d where d: "build_dfa (\<lambda>i. i \<noteq> no_terminal) 21 ?L action_dfa_config = Inr d"
    by (cases "token_build 21 action_choices action_dfa_config") (auto simp: token_build_def)
  have wf: "well_formed (\<lambda>i. i \<noteq> no_terminal) action_dfa_config ?L"
    using build_dfa_Inr [OF d] automaton_queries(6) by blast
  have "prefixes_of (snd ` set ?L) =
      {[], [80], [80, 11], [80, 23], [80, 37], [80, 41], [80, 59]}"
    unfolding action_choices_eq by (auto simp: prefixes_of_def prefix_Cons)
  then have "card (prefixes_of (snd ` set ?L)) = 7" by simp
  moreover have "length ?L = 5" unfolding action_choices_eq by simp
  moreover have "?L \<noteq> []" unfolding action_choices_eq by simp
  moreover have "build_failure (\<lambda>i. i \<noteq> no_terminal) mem ?L action_dfa_config e"
    using assms unfolding token_build_def by (rule build_dfa_Inl)
  ultimately show ?thesis
    using wf by (auto simp: build_failure_def Let_def action_dfa_config_def config_positive_def)
qed

text \<open>Five allocations for the choices, or the program ends; twenty-one more for the automaton.\<close>

lemma build_action_dfa_cases:
  obtains "mem < 5" "build_action_dfa mem = Terminated"
  | "5 \<le> mem" "mem < 26" "build_action_dfa mem = Returned (fail Allocation_failed)"
  | d where "5 \<le> mem" "build_action_dfa mem = Returned (Inr d)"
proof (cases "mem < 5")
  case True
  then show thesis using that(1) by (simp add: build_action_dfa_eq)
next
  case False
  show thesis
  proof (cases "token_build (mem - 5) action_choices action_dfa_config")
    case (Inl e)
    then show thesis
      using that(2) action_dfa_failure [OF Inl] False by (auto simp: build_action_dfa_eq)
  next
    case (Inr d)
    then show thesis using that(3) False by (simp add: build_action_dfa_eq)
  qed
qed

lemma build_action_dfa_ok: "26 \<le> mem \<Longrightarrow> \<exists>d. build_action_dfa mem = Returned (Inr d)"
  by (rule build_action_dfa_cases [of mem]) auto

section \<open>What a run has done\<close>

definition first_of :: "scenario_config \<Rightarrow> nat \<Rightarrow> nat" where
  "first_of config k = 1000 + k * vehicles_of config"

definition arrival_of :: "scenario_config \<Rightarrow> nat \<Rightarrow> u64" where
  "arrival_of config k = of_nat k * cf_frame_period config"

text \<open>\<open>d\<close> is the decision of vehicle \<open>j\<close> in step \<open>k\<close>; it has been served.\<close>

definition decided :: "scenario_config \<Rightarrow> nat \<Rightarrow> nat \<Rightarrow> decision_trace \<Rightarrow> bool" where
  "decided config k j d \<longleftrightarrow>
     dn_sequence_id d = of_nat (first_of config k + j) \<and> dn_vehicle_id d = of_nat (Suc j) \<and>
     dn_arrival d = arrival_of config k \<and>
     dn_deadline d = arrival_of config k + cf_decision_deadline config \<and> dn_grammar_valid d"

definition served :: "decision_trace \<Rightarrow> bool" where
  "served d \<longleftrightarrow>
     dn_latency d = dn_completion d - dn_arrival d \<and> dn_final_batch_generation d \<noteq> 0 \<and>
     (dn_deadline_met d \<longleftrightarrow> dn_completion d \<le> dn_deadline d)"

definition frame_ok :: "scenario_config \<Rightarrow> nat \<Rightarrow> trace_frame \<Rightarrow> bool" where
  "frame_ok config k f \<longleftrightarrow>
     fr_step f = of_nat k \<and> length (fr_decisions f) = vehicles_of config \<and>
     length (fr_vehicles f) = vehicles_of config \<and>
     (\<forall>j < vehicles_of config. decided config k j (fr_decisions f ! j) \<and>
        served (fr_decisions f ! j) \<and>
        vh_action (fr_vehicles f ! j) = dn_action (fr_decisions f ! j))"

definition frames_ok :: "scenario_config \<Rightarrow> nat \<Rightarrow> trace_frame list \<Rightarrow> bool" where
  "frames_ok config k fs \<longleftrightarrow> length fs = k \<and> (\<forall>i < k. frame_ok config i (fs ! i))"

definition world_ok :: "scenario_config \<Rightarrow> radar_run \<Rightarrow> bool" where
  "world_ok config r \<longleftrightarrow> length (rn_vehicles r) = vehicles_of config \<and>
     (\<forall>j < vehicles_of config. vh_id (rn_vehicles r ! j) = of_nat (Suc j))"

text \<open>The latencies and counters describe the decisions \<open>D\<close>.\<close>

definition counted :: "radar_run \<Rightarrow> decision_trace multiset \<Rightarrow> bool" where
  "counted r D \<longleftrightarrow>
     mset (rn_latencies r) = image_mset dn_latency D \<and>
     wm_deadline_misses (rn_metrics r) = of_nat (size (filter_mset (\<lambda>d. \<not> dn_deadline_met d) D)) \<and>
     wm_grammar_valid_decisions (rn_metrics r) = of_nat (size D)"

definition past_decisions :: "radar_run \<Rightarrow> decision_trace multiset" where
  "past_decisions r = mset (concat (map fr_decisions (rn_frames r)))"

section \<open>A step under way\<close>

definition finished :: "nat \<Rightarrow> (nat \<Rightarrow> nat) \<Rightarrow> nat set" where
  "finished n progress = {j. j < n \<and> progress j = 2}"

definition live :: "scenario_config \<Rightarrow> nat \<Rightarrow> nat \<Rightarrow> (nat \<Rightarrow> nat) \<Rightarrow> u64 set" where
  "live config k n progress =
     (\<lambda>j. of_nat (first_of config k + j)) ` {j. j < n \<and> progress j < 2}"

definition frame_under_way ::
  "scenario_config \<Rightarrow> nat \<Rightarrow> nat \<Rightarrow> (nat \<Rightarrow> nat) \<Rightarrow> trace_frame \<Rightarrow> bool" where
  "frame_under_way config k n progress f \<longleftrightarrow>
     fr_step f = of_nat k \<and> length (fr_vehicles f) = vehicles_of config \<and>
     length (fr_decisions f) = n \<and>
     (\<forall>j < n. decided config k j (fr_decisions f ! j) \<and> progress j \<le> 2 \<and>
        (progress j = 2 \<longrightarrow> served (fr_decisions f ! j)))"

text \<open>Step \<open>k\<close> with \<open>n\<close> decisions; \<open>flying\<close> are those of the outstanding batch.\<close>

definition under_way ::
  "scenario_config \<Rightarrow> nat \<Rightarrow> nat \<Rightarrow> (nat \<Rightarrow> nat) \<Rightarrow> (nat \<Rightarrow> bool) \<Rightarrow> trace_frame \<times> radar_run \<Rightarrow> bool" where
  "under_way config k n progress flying = (\<lambda>(f, r).
     k < unat (cf_steps config) \<and> n \<le> vehicles_of config \<and>
     radar_sched config (first_of config k) n progress flying (rn_scheduler r) \<and>
     radar_cache config (first_of config k + n - 998) (live config k n progress) (rn_cache r) \<and>
     rn_next_sequence r = of_nat (first_of config k + n) \<and>
     world_ok config r \<and> frame_under_way config k n progress f \<and>
     frames_ok config k (rn_frames r) \<and>
     length (rn_completions r) = vehicles_of config \<and>
     (\<forall>j < vehicles_of config. rn_completions r ! j =
        of_nat (if j \<in> finished n progress then Suc k else k)) \<and>
     counted r (past_decisions r +
       image_mset (\<lambda>j. fr_decisions f ! j) (mset_set (finished n progress))))"

text \<open>The metrics that only batches and ends of steps change.\<close>

definition tallied :: "scenario_config \<Rightarrow> nat \<Rightarrow> radar_run \<Rightarrow> bool" where
  "tallied config k r \<longleftrightarrow>
     wm_decisions (rn_metrics r) = of_nat (k * vehicles_of config) \<and>
     wm_shared_prefix_tokens_reused (rn_metrics r) =
       of_nat (unat (cf_shared_prefix_tokens config) * (k * vehicles_of config)) \<and>
     wm_scheduler_batches (rn_metrics r) = sch_generation (rn_scheduler r) \<and>
     unat (wm_maximum_batch_size (rn_metrics r)) \<le>
       min (unat (cf_maximum_batch_size config)) (vehicles_of config)"

lemma first_of_small:
  assumes "k \<le> unat (cf_steps config)" "n \<le> vehicles_of config" "k < unat (cf_steps config) \<or> n = 0"
  shows "first_of config k + n < 2 ^ 64"
proof -
  have "k * vehicles_of config + n \<le> unat (cf_steps config) * vehicles_of config"
  proof (cases "k < unat (cf_steps config)")
    case True
    then have "Suc k * vehicles_of config \<le> unat (cf_steps config) * vehicles_of config"
      by (intro mult_le_mono1) simp
    then show ?thesis using assms(2) by simp
  next
    case False
    then show ?thesis using assms by simp
  qed
  moreover have "unat (cf_steps config) * vehicles_of config \<le> (2 ^ 32 - 1) * (2 ^ 32 - 1)"
    using unat_u32_lt [of "cf_steps config"] unat_u32_lt [of "cf_vehicle_count config"]
    by (intro mult_mono) auto
  ultimately show ?thesis unfolding first_of_def by simp
qed

section \<open>Admission\<close>

lemma decide_ok:
  assumes "\<And>act. grammar_round_trip dfa act" "vh_id (rn_vehicles r ! n) = of_nat (Suc n)"
    and "rn_next_sequence r = of_nat (first_of config k + n)"
  obtains d returns noise where
    "decide env config dfa (arrival_of config k) n f r =
       (f\<lparr>fr_radar_returns := returns, fr_decisions := fr_decisions f @ [d]\<rparr>, True,
        r\<lparr>rn_noise := noise, rn_next_sequence := of_nat (first_of config k + Suc n)\<rparr>)"
    "decided config k n d"
proof -
  obtain returns observation noise where seen:
    "(case closest_target (re_doubles env) config (rn_targets r) (rn_vehicles r ! n) of
        None \<Rightarrow> (fr_radar_returns f, None, rn_noise r)
      | Some target \<Rightarrow>
          let (seen, noise) = observe (re_doubles env) (rn_vehicles r ! n) target config (rn_noise r)
          in (fr_radar_returns f @ [seen], Some seen, noise)) = (returns, observation, noise)"
    by (rule prod_cases3)
  let ?d = "\<lparr>dn_sequence_id = of_nat (first_of config k + n), dn_vehicle_id = of_nat (Suc n),
      dn_action = choose_action (rn_vehicles r ! n) observation,
      dn_arrival = arrival_of config k, dn_completion = 0,
      dn_deadline = arrival_of config k + cf_decision_deadline config, dn_latency = 0,
      dn_final_batch_generation = 0, dn_deadline_met = False, dn_grammar_valid = True\<rparr>"
  have "decide env config dfa (arrival_of config k) n f r =
       (f\<lparr>fr_radar_returns := returns, fr_decisions := fr_decisions f @ [?d]\<rparr>, True,
        r\<lparr>rn_noise := noise, rn_next_sequence := of_nat (first_of config k + Suc n)\<rparr>)"
    unfolding decide_def Let_def seen [unfolded Let_def] using assms by (simp add: add_ac)
  moreover have "decided config k n ?d" by (simp add: decided_def)
  ultimately show thesis by (rule that)
qed

lemma live_Suc: "live config k (Suc n) (progress(n := 0)) = insert (of_nat (first_of config k + n)) (live config k n progress)"
proof -
  have "{j. j < Suc n \<and> (progress(n := 0)) j < 2} = insert n {j. j < n \<and> progress j < 2}"
    by (auto simp: less_Suc_eq)
  then show ?thesis by (simp add: live_def)
qed

lemma finished_Suc: "finished (Suc n) (progress(n := 0)) = finished n progress"
  by (auto simp: finished_def less_Suc_eq)

lemma finished_subset: "finished n progress \<subseteq> {..<n}" "finite (finished n progress)"
  by (auto simp: finished_def)

lemma card_live:
  assumes "radar_sched config (first_of config k) n progress flying s"
  shows "card (live config k n progress) = card {j. j < n \<and> progress j < 2}"
  unfolding live_def
  by (rule card_image) (use decision_id_eq [OF assms] in \<open>auto intro!: inj_onI simp del: of_nat_add\<close>)

lemma live_bounds:
  assumes "radar_sched config (first_of config k) n progress flying s"
  shows "of_nat (first_of config k + n) \<notin> live config k n progress"
    "(of_nat (first_of config k + n) :: u64) \<noteq> 0" "(of_nat (first_of config k + n) :: u64) \<noteq> 1"
    "card (live config k n progress) \<le> n"
proof -
  have un: "unat (of_nat (first_of config k + n) :: u64) = first_of config k + n"
    by (rule unat_decision_id [OF assms]) simp
  then show "(of_nat (first_of config k + n) :: u64) \<noteq> 0" "(of_nat (first_of config k + n) :: u64) \<noteq> 1"
    by (auto simp: first_of_def simp del: of_nat_add)
  show "of_nat (first_of config k + n) \<notin> live config k n progress"
    using decision_id_eq [OF assms] by (auto simp: live_def simp del: of_nat_add)
  have "card {j. j < n \<and> progress j < 2} \<le> card {..<n}" by (rule card_mono) auto
  then show "card (live config k n progress) \<le> n" unfolding card_live [OF assms] by simp
qed

lemma nth_decisions_append:
  "set_mset J \<subseteq> {..<length xs} \<Longrightarrow> image_mset (\<lambda>j. (xs @ ys) ! j) J = image_mset (\<lambda>j. xs ! j) J"
  by (rule image_mset_cong) (auto simp: nth_append)

lemma admit_ok:
  assumes uw: "under_way config k n progress (\<lambda>_. False) (f, r)" and v: "valid_config config"
    and a: "allocs_ok env" and g: "\<And>act. grammar_round_trip dfa act" and n: "n < vehicles_of config"
  obtains f' r' where "admit env config dfa (arrival_of config k) n (f, r) = Inr (f', r')"
    "under_way config k (Suc n) (progress(n := 0)) (\<lambda>_. False) (f', r')"
    "rn_metrics r' = rn_metrics r" "sch_generation (rn_scheduler r') = sch_generation (rn_scheduler r)"
proof -
  note u = uw [unfolded under_way_def, simplified]
  let ?i = "of_nat (first_of config k + n) :: u64"
  have rs: "radar_sched config (first_of config k) n progress (\<lambda>_. False) (rn_scheduler r)"
    and rc: "radar_cache config (first_of config k + n - 998) (live config k n progress) (rn_cache r)"
    using u by blast+
  note lb = live_bounds [OF rs]
  have following: "rn_next_sequence r = ?i" using u by (simp add: add_ac)
  have vid: "vh_id (rn_vehicles r ! n) = of_nat (Suc n)" using u n by (simp add: world_ok_def)
  have room: "first_of config k + Suc n < 2 ^ 64"
    using u n by (intro first_of_small) simp_all
  obtain d returns noise where d:
    "decide env config dfa (arrival_of config k) n f r =
       (f\<lparr>fr_radar_returns := returns, fr_decisions := fr_decisions f @ [d]\<rparr>, True,
        r\<lparr>rn_noise := noise, rn_next_sequence := of_nat (first_of config k + Suc n)\<rparr>)"
    "decided config k n d"
    using decide_ok [OF g vid following] by metis
  obtain s' where s': "enqueue Alloc_ok (decision_request config ?i) (rn_scheduler r) = (status_success, s')"
    "radar_sched config (first_of config k) (Suc n) (progress(n := 0)) (\<lambda>_. False) s'"
    "sch_generation s' = sch_generation (rn_scheduler r)"
    using enqueue_decision [OF rs v room] by (metis fun_upd_idem)
  obtain c2 reservation c3 c4 where c: "kv_create_sequence Alloc_ok ?i 1 (rn_cache r) = (status_success, c2)"
    "kv_reserve Alloc_ok Alloc_ok ?i (cf_prompt_tokens config + cf_output_tokens config) c2 =
       (Inr reservation, c3)"
    "kv_commit Alloc_ok (res_id reservation) c3 = (status_success, c4)"
    "radar_cache config (Suc (first_of config k + n - 998)) (insert ?i (live config k n progress)) c4"
  proof (rule admit_decision [OF rc v lb(1,2,3)])
    show "card (live config k n progress) < vehicles_of config" using lb(4) n by simp
    show "0 < first_of config k + n - 998" by (simp add: first_of_def)
    show "Suc (first_of config k + n - 998) < 2 ^ 64" using room by simp
  qed
  let ?f = "f\<lparr>fr_radar_returns := returns, fr_decisions := fr_decisions f @ [d]\<rparr>"
  let ?r = "r\<lparr>rn_noise := noise, rn_next_sequence := of_nat (first_of config k + Suc n),
      rn_scheduler := s', rn_cache := c4\<rparr>"
  have admitted: "admit env config dfa (arrival_of config k) n (f, r) = Inr (?f, ?r)"
    using d(1) s'(1) c(1,2,3) a following
    by (simp add: admit_def Let_def allocs_ok_def decision_request_def del: of_nat_add)
  have frame: "frame_under_way config k (Suc n) (progress(n := 0)) ?f"
    using u d(2) by (auto simp: frame_under_way_def nth_append less_Suc_eq)
  have "set_mset (mset_set (finished n progress)) \<subseteq> {..<length (fr_decisions f)}"
    using u finished_subset by (simp add: frame_under_way_def)
  then have counts: "image_mset (\<lambda>j. fr_decisions ?f ! j) (mset_set (finished n progress)) =
      image_mset (\<lambda>j. fr_decisions f ! j) (mset_set (finished n progress))"
    using nth_decisions_append by simp
  have "first_of config k + Suc n - 998 = Suc (first_of config k + n - 998)"
    by (simp add: first_of_def)
  then have "under_way config k (Suc n) (progress(n := 0)) (\<lambda>_. False) (?f, ?r)"
    using u n s'(2) c(4) frame counts unfolding under_way_def prod.case finished_Suc live_Suc
    by (simp add: world_ok_def counted_def past_decisions_def del: of_nat_add)
  with admitted show thesis by (rule that) (simp_all add: s'(3))
qed

lemma admissions_ok:
  assumes uw: "under_way config k 0 (\<lambda>_. 0) (\<lambda>_. False) (f, r)" and v: "valid_config config"
    and a: "allocs_ok env" and g: "\<And>act. grammar_round_trip dfa act"
  obtains f' r' where
    "for_each (admit env config dfa (arrival_of config k)) [0..<vehicles_of config] (f, r) = Inr (f', r')"
    "under_way config k (vehicles_of config) (\<lambda>_. 0) (\<lambda>_. False) (f', r')"
    "rn_metrics r' = rn_metrics r" "sch_generation (rn_scheduler r') = sch_generation (rn_scheduler r)"
proof -
  let ?P = "\<lambda>n s. under_way config k n (\<lambda>_. 0) (\<lambda>_. False) s \<and> rn_metrics (snd s) = rn_metrics r \<and>
    sch_generation (rn_scheduler (snd s)) = sch_generation (rn_scheduler r)"
  have "\<exists>s'. for_each (admit env config dfa (arrival_of config k)) [0..<vehicles_of config] (f, r) = Inr s' \<and>
      ?P (vehicles_of config) s'"
  proof (rule for_each_upt)
    fix n s assume n: "n < vehicles_of config" and s: "?P n s"
    obtain f1 r1 where fr: "s = (f1, r1)" by (cases s)
    have "under_way config k n (\<lambda>_. 0) (\<lambda>_. False) (f1, r1)" using s fr by simp
    then obtain f' r' where "admit env config dfa (arrival_of config k) n (f1, r1) = Inr (f', r')"
      "under_way config k (Suc n) ((\<lambda>_. 0)(n := 0)) (\<lambda>_. False) (f', r')"
      "rn_metrics r' = rn_metrics r1"
      "sch_generation (rn_scheduler r') = sch_generation (rn_scheduler r1)"
      by (rule admit_ok [OF _ v a g n])
    then show "\<exists>s'. admit env config dfa (arrival_of config k) n s = Inr s' \<and> ?P (Suc n) s'"
      using s fr by (simp add: fun_upd_idem)
  qed (use uw in simp)
  then show thesis using that by auto
qed

section \<open>The peaks\<close>

definition unshared_pages :: "scenario_config \<Rightarrow> nat" where
  "unshared_pages config =
     npages (unat (cf_prompt_tokens config) + 2) (tokens_per_page config) * vehicles_of config"

definition peaks :: "scenario_config \<Rightarrow> nat \<Rightarrow> radar_run \<Rightarrow> bool" where
  "peaks config k r \<longleftrightarrow>
     unat (wm_peak_physical_kv_pages (rn_metrics r)) =
       (if k = 0 then 0 else prefix_pages config + sequence_pages config * vehicles_of config) \<and>
     wm_peak_unshared_kv_pages (rn_metrics r) =
       (if k = 0 then 0 else of_nat (unshared_pages config))"

lemma measure_pages_ok:
  assumes uw: "under_way config k (vehicles_of config) (\<lambda>_. 0) (\<lambda>_. False) (f, r)"
    and v: "valid_config config" and fits: "radar_fits config" and p: "peaks config k r"
  obtains r' where "measure_pages config r = Inr r'"
    "under_way config k (vehicles_of config) (\<lambda>_. 0) (\<lambda>_. False) (f, r')" "peaks config (Suc k) r'"
    "tallied config k r \<longrightarrow> tallied config k r'" "rn_scheduler r' = rn_scheduler r"
proof -
  note u = uw [unfolded under_way_def, simplified]
  have rs: "radar_sched config (first_of config k) (vehicles_of config) (\<lambda>_. 0) (\<lambda>_. False) (rn_scheduler r)"
    and rc: "radar_cache config (first_of config k + vehicles_of config - 998)
      (live config k (vehicles_of config) (\<lambda>_. 0)) (rn_cache r)"
    using u by blast+
  have card: "card (live config k (vehicles_of config) (\<lambda>_. 0)) = vehicles_of config"
    unfolding card_live [OF rs] by simp
  obtain m where m: "kv_metrics (rn_cache r) = Inr m"
    "unat (mt_mutable_pages m + mt_shared_prefix_pages m) =
       prefix_pages config + sequence_pages config * vehicles_of config"
    using radar_metrics [OF rc v fits] card by auto
  note vf = valid_config_facts [OF v]
  let ?u = "scenario_pages_for (cf_prompt_tokens config + cf_output_tokens config)
      (cf_kv_tokens_per_page config)"
  have "cf_kv_tokens_per_page config \<noteq> 0" using vf(1) by auto
  then have pages: "unat ?u = npages (unat (cf_prompt_tokens config) + 2) (tokens_per_page config)"
    using unat_pages_for vf(4) by (simp add: scenario_pages_for_def pages_for_def)
  then have un: "?u * ucast (cf_vehicle_count config) = of_nat (unshared_pages config)"
    unfolding unshared_pages_def pages [symmetric] by simp
  let ?r = "r\<lparr>rn_metrics := (rn_metrics r)\<lparr>
      wm_peak_physical_kv_pages := max (wm_peak_physical_kv_pages (rn_metrics r))
        (mt_mutable_pages m + mt_shared_prefix_pages m),
      wm_peak_unshared_kv_pages := max (wm_peak_unshared_kv_pages (rn_metrics r))
        (?u * ucast (cf_vehicle_count config))\<rparr>\<rparr>"
  have "measure_pages config r = Inr ?r" using m(1) by (simp add: measure_pages_def Let_def)
  moreover have "under_way config k (vehicles_of config) (\<lambda>_. 0) (\<lambda>_. False) (f, ?r)"
    using u by (simp add: under_way_def world_ok_def counted_def past_decisions_def)
  moreover have "peaks config (Suc k) ?r"
    using p m(2) un by (auto simp: peaks_def max_def word_le_nat_alt unat_gt_0)
  ultimately show thesis by (rule that) (simp_all add: tallied_def)
qed

end
