(* ===== verification/RadarService.thy ===== *)
theory RadarService
  imports RadarSteps
begin

text \<open>
  The service of a step: completing an item advances one sequence, a batch advances all it
  holds, and batches are scheduled until every decision of the step is served.
\<close>

section \<open>Completing an item\<close>

lemma finished_first: "progress j = 0 \<Longrightarrow> finished n (progress(j := 1)) = finished n progress"
  by (auto simp: finished_def)

lemma live_first: "progress j = 0 \<Longrightarrow> live config k n (progress(j := 1)) = live config k n progress"
proof -
  assume "progress j = 0"
  then have "{i. i < n \<and> (progress(j := 1)) i < 2} = {i. i < n \<and> progress i < 2}" by auto
  then show ?thesis unfolding live_def by (rule arg_cong)
qed

lemma finished_second: "j < n \<Longrightarrow> finished n (progress(j := 2)) = insert j (finished n progress)"
  by (auto simp: finished_def)

lemma live_second:
  assumes rs: "radar_sched config (first_of config k) n progress flying s" and j: "j < n" "progress j < 2"
  shows "live config k n (progress(j := 2)) =
      live config k n progress - {of_nat (first_of config k + j)}"
    "of_nat (first_of config k + j) \<in> live config k n progress"
proof -
  let ?A = "{i. i < n \<and> progress i < 2}"
  let ?f = "\<lambda>j. of_nat (first_of config k + j) :: u64"
  have inj: "inj_on ?f {..<n}"
    using decision_id_eq [OF rs] by (auto intro!: inj_onI simp del: of_nat_add)
  have "{i. i < n \<and> (progress(j := 2)) i < 2} = ?A - {j}" by auto
  moreover have "?f ` (?A - {j}) = ?f ` ?A - ?f ` {j}"
    using inj j by (intro inj_on_image_set_diff [of _ "{..<n}"]) auto
  ultimately show "live config k n (progress(j := 2)) = live config k n progress - {?f j}"
    by (simp add: live_def)
  show "?f j \<in> live config k n progress" using j unfolding live_def by blast
qed

lemma decisions_update:
  assumes "finite F" "j \<notin> F"
  shows "image_mset (\<lambda>i. (xs[j := x]) ! i) (mset_set F) = image_mset (\<lambda>i. xs ! i) (mset_set F)"
proof (rule image_mset_cong)
  fix i assume "i \<in># mset_set F"
  then have "i \<noteq> j" using assms by auto
  then show "xs[j := x] ! i = xs ! i" by simp
qed

lemma complete_prefill:
  assumes uw: "under_way config k (vehicles_of config) progress flying (f, r)" and v: "valid_config config"
    and j: "j < vehicles_of config" "flying j" "progress j = 0"
    and item: "decision_item (first_of config k) progress j item"
  obtains s' where "complete_item generation arrival item ((f, r), completed) =
      Inr ((f, r\<lparr>rn_scheduler := s'\<rparr>), completed)"
    "under_way config k (vehicles_of config) (progress(j := 1)) (flying(j := False))
      (f, r\<lparr>rn_scheduler := s'\<rparr>)"
    "sch_generation s' = sch_generation (rn_scheduler r)"
proof -
  note u = uw [unfolded under_way_def, simplified]
  have rs: "radar_sched config (first_of config k) (vehicles_of config) progress flying (rn_scheduler r)"
    using u by blast
  have "progress j < 2" using j(3) by simp
  from complete_decision [OF rs v j(1,2) this] obtain s' where
    s': "complete (of_nat (first_of config k + j)) 1 (progress j = 1) (rn_scheduler r) = (status_success, s')"
    "radar_sched config (first_of config k) (vehicles_of config) (progress(j := Suc (progress j)))
       (flying(j := False)) s'"
    "sch_generation s' = sch_generation (rn_scheduler r)" by blast
  have "complete_item generation arrival item ((f, r), completed) =
      Inr ((f, r\<lparr>rn_scheduler := s'\<rparr>), completed)"
    using s'(1) item j(3) by (simp add: complete_item_def decision_item_def del: of_nat_add)
  moreover have "frame_under_way config k (vehicles_of config) (progress(j := 1)) f"
    using u j(3) by (simp add: frame_under_way_def)
  then have "under_way config k (vehicles_of config) (progress(j := 1)) (flying(j := False))
      (f, r\<lparr>rn_scheduler := s'\<rparr>)"
    using u s'(2) j(3) unfolding under_way_def prod.case
      finished_first [of progress j, OF j(3)] live_first [of progress j, OF j(3)]
    by (simp add: world_ok_def counted_def past_decisions_def)
  ultimately show thesis using s'(3) by (rule that)
qed

text \<open>Completing an item does not touch these metrics.\<close>

definition same_tallies :: "radar_run \<Rightarrow> radar_run \<Rightarrow> bool" where
  "same_tallies r r' \<longleftrightarrow>
     (let m = rn_metrics r; m' = rn_metrics r'
      in wm_decisions m' = wm_decisions m \<and>
         wm_shared_prefix_tokens_reused m' = wm_shared_prefix_tokens_reused m \<and>
         wm_scheduler_batches m' = wm_scheduler_batches m \<and>
         wm_maximum_batch_size m' = wm_maximum_batch_size m \<and>
         wm_peak_physical_kv_pages m' = wm_peak_physical_kv_pages m \<and>
         wm_peak_unshared_kv_pages m' = wm_peak_unshared_kv_pages m)"

text \<open>The decision of vehicle \<open>j\<close> once its last token is out.\<close>

definition served_decision :: "u64 \<Rightarrow> u64 \<Rightarrow> u64 \<Rightarrow> decision_trace \<Rightarrow> decision_trace" where
  "served_decision generation arrival now d =
     d\<lparr>dn_completion := now, dn_latency := now - arrival,
       dn_final_batch_generation := generation, dn_deadline_met := (now \<le> dn_deadline d)\<rparr>"

lemma served_decision_ok:
  assumes "decided config k j d" "generation \<noteq> 0"
  shows "decided config k j (served_decision generation (arrival_of config k) now d)"
    "served (served_decision generation (arrival_of config k) now d)"
  using assms by (simp_all add: decided_def served_def served_decision_def)

lemma counted_finish:
  assumes c: "counted r (past_decisions r + image_mset (\<lambda>i. xs ! i) (mset_set F))"
    and F: "finite F" "j \<notin> F" "j < length xs" and d: "dn_grammar_valid d"
    and r': "rn_latencies r' = rn_latencies r @ [dn_latency d]" "rn_frames r' = rn_frames r"
      "wm_deadline_misses (rn_metrics r') =
         wm_deadline_misses (rn_metrics r) + (if dn_deadline_met d then 0 else 1)"
      "wm_grammar_valid_decisions (rn_metrics r') = wm_grammar_valid_decisions (rn_metrics r) + 1"
  shows "counted r' (past_decisions r' + image_mset (\<lambda>i. (xs[j := d]) ! i) (mset_set (insert j F)))"
  using assms by (simp add: counted_def past_decisions_def decisions_update)

lemma complete_decode:
  assumes uw: "under_way config k (vehicles_of config) progress flying (f, r)" and v: "valid_config config"
    and j: "j < vehicles_of config" "flying j" "progress j = 1" and g: "generation \<noteq> 0"
    and item: "decision_item (first_of config k) progress j item"
  obtains f' r' where
    "complete_item generation (arrival_of config k) item ((f, r), completed) =
       Inr ((f', r'), completed + 1)"
    "under_way config k (vehicles_of config) (progress(j := 2)) (flying(j := False)) (f', r')"
    "sch_generation (rn_scheduler r') = sch_generation (rn_scheduler r)"
    "same_tallies r r'"
proof -
  let ?N = "vehicles_of config" and ?i = "of_nat (first_of config k + j) :: u64"
  note u = uw [unfolded under_way_def prod.case]
  have rs: "radar_sched config (first_of config k) ?N progress flying (rn_scheduler r)"
    and rc: "radar_cache config (first_of config k + ?N - 998) (live config k ?N progress) (rn_cache r)"
    and fw: "frame_under_way config k ?N progress f"
    and cnt: "counted r (past_decisions r +
      image_mset (\<lambda>j. fr_decisions f ! j) (mset_set (finished ?N progress)))"
    using u by blast+
  have p2: "progress j < 2" using j(3) by simp
  have len: "length (fr_decisions f) = ?N" using fw by (simp add: frame_under_way_def)
  have dj: "decided config k j (fr_decisions f ! j)" "decided config k 0 (fr_decisions f ! 0)"
    using fw j(1) by (auto simp: frame_under_way_def)
  from complete_decision [OF rs v j(1,2) p2] obtain s' where
    s': "complete ?i 1 (progress j = 1) (rn_scheduler r) = (status_success, s')"
    "radar_sched config (first_of config k) ?N (progress(j := Suc (progress j))) (flying(j := False)) s'"
    "sch_generation s' = sch_generation (rn_scheduler r)" by blast
  note l2 = live_second [OF rs j(1) p2]
  obtain c' where c': "kv_destroy_sequence ?i (rn_cache r) = (status_success, c')"
    "radar_cache config (first_of config k + ?N - 998) (live config k ?N progress - {?i}) c'"
    by (rule release_decision [OF rc v l2(2)])
  have ne: "fr_decisions f \<noteq> []" using len j(1) by auto
  have head: "dn_sequence_id (hd (fr_decisions f)) = of_nat (first_of config k)"
    using dj(2) ne by (simp add: hd_conv_nth decided_def)
  have small: "first_of config k + ?N < 2 ^ 64" using rs by (simp add: radar_sched_def)
  have un: "unat ?i = first_of config k + j" "unat (of_nat (first_of config k) :: u64) = first_of config k"
    "unat (of_nat (first_of config k + ?N) :: u64) = first_of config k + ?N"
    using small j(1) by (simp_all add: unat_u64_of_nat del: of_nat_add)
  have above: "of_nat (first_of config k) + of_nat (length (fr_decisions f)) =
      (of_nat (first_of config k + ?N) :: u64)"
    unfolding len by simp
  have inside: "\<not> ?i < of_nat (first_of config k)"
    "\<not> of_nat (first_of config k) + of_nat (length (fr_decisions f)) \<le> ?i"
    unfolding above word_less_nat_alt word_le_nat_alt un using j(1) by simp_all
  have "unat (?i - of_nat (first_of config k)) = unat ?i - unat (of_nat (first_of config k) :: u64)"
    using inside(1) by (intro unat_word_minus) simp
  then have number: "unat (?i - of_nat (first_of config k)) = j" unfolding un by simp
  let ?d = "served_decision generation (arrival_of config k) (rn_cursor r) (fr_decisions f ! j)"
  let ?m = "(rn_metrics r)\<lparr>
      wm_deadline_misses := wm_deadline_misses (rn_metrics r) + (if dn_deadline_met ?d then 0 else 1),
      wm_grammar_valid_decisions := wm_grammar_valid_decisions (rn_metrics r) + 1\<rparr>"
  let ?f = "f\<lparr>fr_decisions := (fr_decisions f)[j := ?d]\<rparr>"
  let ?r = "r\<lparr>rn_scheduler := s', rn_latencies := rn_latencies r @ [dn_latency ?d],
      rn_completions := (rn_completions r)[j := rn_completions r ! j + 1],
      rn_metrics := ?m, rn_cache := c'\<rparr>"
  note sd = served_decision_ok [OF dj(1) g, of "rn_cursor r"]
  have vid: "unat (dn_vehicle_id (fr_decisions f ! j) - 1) = j"
    using dj(1) j(1) unat_u32_lt [of "cf_vehicle_count config"]
    by (simp add: decided_def unat_u32_of_nat)
  have completed: "complete_item generation (arrival_of config k) item ((f, r), completed) =
      Inr ((?f, ?r), completed + 1)"
    using s'(1) item j(3) head inside number c'(1) vid dj(1)
    by (simp add: complete_item_def decision_item_def finish_decision_def served_decision_def
        decided_def Let_def del: of_nat_add)
  have fresh: "j \<notin> finished ?N progress" using j(3) by (simp add: finished_def)
  have "frame_under_way config k ?N (progress(j := 2)) ?f"
    using fw sd by (auto simp: frame_under_way_def nth_list_update)
  moreover have "counted ?r (past_decisions ?r + image_mset (\<lambda>i. fr_decisions ?f ! i)
      (mset_set (insert j (finished ?N progress))))"
    using counted_finish [OF cnt finished_subset(2) fresh, of ?d ?r] len j(1) sd(1)
    by (simp add: decided_def)
  ultimately have "under_way config k ?N (progress(j := 2)) (flying(j := False)) (?f, ?r)"
    using u s'(2) c'(2) j fresh unfolding under_way_def prod.case finished_second [OF j(1)] l2(1)
    by (simp add: world_ok_def nth_list_update Suc_1 [symmetric] del: Suc_1 of_nat_add)
  with completed show thesis by (rule that) (simp_all add: s'(3) same_tallies_def)
qed

section \<open>Completing a batch\<close>

definition advance :: "nat list \<Rightarrow> (nat \<Rightarrow> nat) \<Rightarrow> nat \<Rightarrow> nat" where
  "advance sel progress j = (if j \<in> set sel then Suc (progress j) else progress j)"

definition completed_count :: "nat \<Rightarrow> (nat \<Rightarrow> nat) \<Rightarrow> u32" where
  "completed_count n progress = of_nat (card (finished n progress))"

lemma completed_count_second:
  assumes "j < n" "progress j = 1"
  shows "completed_count n (progress(j := 2)) = completed_count n progress + 1"
proof -
  have "j \<notin> finished n progress" using assms(2) by (simp add: finished_def)
  then show ?thesis
    using finished_subset(2) [of n progress] assms(1)
    by (simp add: completed_count_def finished_second)
qed

lemma same_tallies_trans: "same_tallies r r' \<Longrightarrow> same_tallies r' r'' \<Longrightarrow> same_tallies r r''"
  by (simp add: same_tallies_def Let_def)

lemma complete_item_ok:
  assumes uw: "under_way config k (vehicles_of config) progress flying (f, r)" and v: "valid_config config"
    and j: "j < vehicles_of config" "flying j" "progress j < 2" and g: "generation \<noteq> 0"
    and item: "decision_item (first_of config k) progress j item"
  obtains f' r' where
    "complete_item generation (arrival_of config k) item
       ((f, r), completed_count (vehicles_of config) progress) =
     Inr ((f', r'), completed_count (vehicles_of config) (progress(j := Suc (progress j))))"
    "under_way config k (vehicles_of config) (progress(j := Suc (progress j))) (flying(j := False)) (f', r')"
    "sch_generation (rn_scheduler r') = sch_generation (rn_scheduler r)" "same_tallies r r'"
proof -
  consider "progress j = 0" | "progress j = 1" using j(3) by linarith
  then show thesis
  proof cases
    case 1
    from complete_prefill [OF uw v j(1,2) 1 item] obtain s' where s':
      "complete_item generation (arrival_of config k) item
         ((f, r), completed_count (vehicles_of config) progress) =
       Inr ((f, r\<lparr>rn_scheduler := s'\<rparr>), completed_count (vehicles_of config) progress)"
      "under_way config k (vehicles_of config) (progress(j := 1)) (flying(j := False))
        (f, r\<lparr>rn_scheduler := s'\<rparr>)"
      "sch_generation s' = sch_generation (rn_scheduler r)" by blast
    show ?thesis
      by (rule that [of f "r\<lparr>rn_scheduler := s'\<rparr>"])
        (use s' 1 finished_first [of progress j "vehicles_of config", OF 1] in
          \<open>simp_all add: completed_count_def same_tallies_def\<close>)
  next
    case 2
    from complete_decode [OF uw v j(1,2) 2 g item] obtain f' r' where
      "complete_item generation (arrival_of config k) item
         ((f, r), completed_count (vehicles_of config) progress) =
       Inr ((f', r'), completed_count (vehicles_of config) progress + 1)"
      "under_way config k (vehicles_of config) (progress(j := 2)) (flying(j := False)) (f', r')"
      "sch_generation (rn_scheduler r') = sch_generation (rn_scheduler r)" "same_tallies r r'" by blast
    then show ?thesis
      using 2 completed_count_second [of j "vehicles_of config" progress, OF j(1) 2]
      by (intro that [of f' r']) (simp_all add: numeral_2_eq_2)
  qed
qed

lemma complete_items_ok:
  assumes "under_way config k (vehicles_of config) progress flying (f, r)" and v: "valid_config config"
    and g: "generation \<noteq> 0" and "distinct sel"
    and "\<forall>j \<in> set sel. j < vehicles_of config \<and> progress j < 2"
    and "list_all2 (decision_item (first_of config k) progress) sel items"
    and "flying = (\<lambda>j. j \<in> set sel)"
  shows "\<exists>f' r'. for_each (complete_item generation (arrival_of config k)) items
       ((f, r), completed_count (vehicles_of config) progress) =
     Inr ((f', r'), completed_count (vehicles_of config) (advance sel progress)) \<and>
    under_way config k (vehicles_of config) (advance sel progress) (\<lambda>_. False) (f', r') \<and>
    sch_generation (rn_scheduler r') = sch_generation (rn_scheduler r) \<and> same_tallies r r'"
  using assms(1,4-)
proof (induction sel arbitrary: items progress flying f r)
  case Nil
  then show ?case
    by (intro exI [of _ f] exI [of _ r]) (simp add: advance_def [abs_def] same_tallies_def)
next
  case (Cons j sel)
  let ?p = "progress(j := Suc (progress j))"
  obtain item rest where items: "items = item # rest" "decision_item (first_of config k) progress j item"
    "list_all2 (decision_item (first_of config k) progress) sel rest"
    using Cons.prems(4) by (auto simp: list_all2_Cons1)
  have j: "j < vehicles_of config" "flying j" "progress j < 2" using Cons.prems(3,5) by auto
  obtain f1 r1 where one:
    "complete_item generation (arrival_of config k) item
       ((f, r), completed_count (vehicles_of config) progress) =
     Inr ((f1, r1), completed_count (vehicles_of config) ?p)"
    "under_way config k (vehicles_of config) ?p (flying(j := False)) (f1, r1)"
    "sch_generation (rn_scheduler r1) = sch_generation (rn_scheduler r)" "same_tallies r r1"
    by (rule complete_item_ok [OF Cons.prems(1) v j g items(2)])
  have notin: "j \<notin> set sel" using Cons.prems(2) by simp
  have adv: "advance sel ?p = advance (j # sel) progress"
    using notin by (auto simp: advance_def fun_eq_iff)
  have "\<exists>f' r'. for_each (complete_item generation (arrival_of config k)) rest
       ((f1, r1), completed_count (vehicles_of config) ?p) =
     Inr ((f', r'), completed_count (vehicles_of config) (advance sel ?p)) \<and>
    under_way config k (vehicles_of config) (advance sel ?p) (\<lambda>_. False) (f', r') \<and>
    sch_generation (rn_scheduler r') = sch_generation (rn_scheduler r1) \<and> same_tallies r1 r'"
  proof (rule Cons.IH [OF one(2)])
    show "distinct sel" using Cons.prems(2) by simp
    show "\<forall>i \<in> set sel. i < vehicles_of config \<and> ?p i < 2" using Cons.prems(3) notin by auto
    show "flying(j := False) = (\<lambda>i. i \<in> set sel)" using Cons.prems(5) notin by (auto simp: fun_eq_iff)
    show "list_all2 (decision_item (first_of config k) ?p) sel rest"
      using items(3) notin by (auto simp: decision_item_def elim: list.rel_mono_strong)
  qed
  then show ?case using one items(1) adv same_tallies_trans by force
qed

section \<open>Scheduling batches\<close>

definition remaining :: "nat \<Rightarrow> (nat \<Rightarrow> nat) \<Rightarrow> nat" where
  "remaining n progress = (\<Sum>j<n. 2 - progress j)"

lemma remaining_advance:
  assumes "sel \<noteq> []" "\<forall>j \<in> set sel. j < n \<and> progress j < 2"
  shows "remaining n (advance sel progress) < remaining n progress"
  unfolding remaining_def
proof (rule sum_strict_mono_ex1)
  have "hd sel \<in> set sel" using assms(1) by simp
  then show "\<exists>j \<in> {..<n}. 2 - advance sel progress j < 2 - progress j"
    using assms(2) by (intro bexI [of _ "hd sel"]) (auto simp: advance_def)
qed (auto simp: advance_def)

lemma completed_all:
  assumes "\<forall>j < n. progress j \<le> 2" "n < 2 ^ 32"
  shows "unat (completed_count n progress) = card (finished n progress)"
    "unat (completed_count n progress) < n \<longleftrightarrow> (\<exists>j < n. progress j < 2)"
proof -
  have le: "card (finished n progress) \<le> n"
    using card_mono [OF _ finished_subset(1), of n progress] by simp
  then show un: "unat (completed_count n progress) = card (finished n progress)"
    using assms(2) by (simp add: completed_count_def unat_u32_of_nat)
  have "card (finished n progress) = n \<longleftrightarrow> finished n progress = {..<n}"
  proof
    assume "card (finished n progress) = n"
    then show "finished n progress = {..<n}"
      by (intro card_subset_eq) (simp_all add: finished_subset)
  qed simp
  also have "\<dots> \<longleftrightarrow> (\<forall>j < n. progress j = 2)" by (auto simp: finished_def)
  also have "\<dots> \<longleftrightarrow> \<not> (\<exists>j < n. progress j < 2)"
    using assms(1) by (metis le_neq_implies_less less_irrefl)
  finally show "unat (completed_count n progress) < n \<longleftrightarrow> (\<exists>j < n. progress j < 2)"
    unfolding un using le by (auto simp: le_less)
qed

lemma account_under_way:
  assumes "under_way config k n progress flying (f, r\<lparr>rn_scheduler := s'\<rparr>)"
  shows "under_way config k n progress flying (f, account_batch batch (r\<lparr>rn_scheduler := s'\<rparr>))"
  using assms by (simp add: under_way_def account_batch_def world_ok_def counted_def
      past_decisions_def Let_def)

lemma account_tallied:
  assumes t: "tallied config k r" and "sch_generation s' = sch_generation (rn_scheduler r) + 1"
    and "length (ib_items batch) \<le> min (unat (cf_maximum_batch_size config)) (vehicles_of config)"
  shows "tallied config k (account_batch batch (r\<lparr>rn_scheduler := s'\<rparr>))"
proof -
  have "unat (of_nat (length (ib_items batch)) :: u32) = length (ib_items batch)"
    using assms(3) unat_u32_lt [of "cf_vehicle_count config"] by (intro unat_u32_of_nat) simp
  then show ?thesis
    using assms by (simp add: tallied_def account_batch_def Let_def max_def)
qed

lemma account_peaks:
  "peaks config k r \<Longrightarrow> peaks config k (account_batch batch (r\<lparr>rn_scheduler := s'\<rparr>))"
  by (simp add: peaks_def account_batch_def Let_def)

lemma same_tallies_keep:
  assumes "same_tallies r r'" "sch_generation (rn_scheduler r') = sch_generation (rn_scheduler r)"
  shows "tallied config k r \<Longrightarrow> tallied config k r'" "peaks config k r \<Longrightarrow> peaks config k r'"
  using assms by (simp_all add: same_tallies_def tallied_def peaks_def Let_def)

text \<open>What holds when a batch is scheduled in step \<open>k\<close>.\<close>

definition service_state ::
  "scenario_config \<Rightarrow> nat \<Rightarrow> (nat \<Rightarrow> nat) \<Rightarrow> trace_frame \<Rightarrow> radar_run \<Rightarrow> bool" where
  "service_state config k progress f r \<longleftrightarrow>
     under_way config k (vehicles_of config) progress (\<lambda>_. False) (f, r) \<and> tallied config k r \<and>
     peaks config (Suc k) r \<and>
     unat (sch_generation (rn_scheduler r)) + remaining (vehicles_of config) progress \<le>
       2 * Suc k * vehicles_of config"

lemma serve_batch_ok:
  assumes st: "service_state config k progress f r" and v: "valid_config config"
    and a: "allocs_ok env" and fits: "radar_fits config"
    and work: "j < vehicles_of config" "progress j < 2"
  obtains progress' f' r' where
    "serve_batch env config (arrival_of config k)
       ((f, r), completed_count (vehicles_of config) progress) =
     Inr ((f', r'), completed_count (vehicles_of config) progress')"
    "service_state config k progress' f' r'"
    "remaining (vehicles_of config) progress' < remaining (vehicles_of config) progress"
proof -
  let ?N = "vehicles_of config"
  have uw: "under_way config k ?N progress (\<lambda>_. False) (f, r)" and t: "tallied config k r"
    and pk: "peaks config (Suc k) r"
    and g: "unat (sch_generation (rn_scheduler r)) + remaining ?N progress \<le> 2 * Suc k * ?N"
    using st by (simp_all add: service_state_def)
  have rs: "radar_sched config (first_of config k) ?N progress (\<lambda>_. False) (rn_scheduler r)"
    and k: "k < unat (cf_steps config)"
    using uw by (simp_all add: under_way_def)
  have "2 * Suc k * ?N \<le> 2 * unat (cf_steps config) * ?N" using k by (intro mult_le_mono1) simp
  then have bound: "2 * Suc k * ?N < 2 ^ 64"
    using fits unfolding radar_fits_def by linarith
  have "0 < remaining ?N progress"
    using work unfolding remaining_def by (intro sum_pos2 [of _ j]) auto
  then have room: "Suc (unat (sch_generation (rn_scheduler r))) < 2 ^ 64"
    using g bound by linarith
  obtain sel items s' where sel:
    "schedule Alloc_ok Alloc_ok (ucast (cf_maximum_batch_size config)) (rn_scheduler r) =
       (Inr \<lparr>ib_generation = sch_generation (rn_scheduler r) + 1, ib_items = items\<rparr>, s')"
    "radar_sched config (first_of config k) ?N progress (\<lambda>j. j \<in> set sel) s'"
    "sch_generation s' = sch_generation (rn_scheduler r) + 1" "sel \<noteq> []" "distinct sel"
    "\<forall>j \<in> set sel. j < ?N \<and> progress j < 2"
    "list_all2 (decision_item (first_of config k) progress) sel items"
    "length sel \<le> unat (cf_maximum_batch_size config)"
    by (rule schedule_decisions [OF rs v work room])
  let ?g = "sch_generation (rn_scheduler r) + 1"
  let ?b = "\<lparr>ib_generation = ?g, ib_items = items\<rparr>"
  let ?r = "account_batch ?b (r\<lparr>rn_scheduler := s'\<rparr>)"
  have un: "unat ?g = Suc (unat (sch_generation (rn_scheduler r)))"
    using room by (simp add: unat_u64_plus)
  then have nz: "?g \<noteq> 0" by auto
  have "length sel = card (set sel)" using sel(5) by (simp add: distinct_card)
  also have "\<dots> \<le> card {..<?N}" using sel(6) by (intro card_mono) auto
  finally have "length items \<le> min (unat (cf_maximum_batch_size config)) ?N"
    using sel(8) list_all2_lengthD [OF sel(7)] by simp
  then have acc: "tallied config k ?r" "peaks config (Suc k) ?r"
    using account_tallied [OF t sel(3), of ?b] account_peaks [OF pk] by simp_all
  have "under_way config k ?N progress (\<lambda>j. j \<in> set sel) (f, r\<lparr>rn_scheduler := s'\<rparr>)"
    using uw sel(2) by (simp add: under_way_def world_ok_def counted_def past_decisions_def)
  note fly = account_under_way [OF this, of ?b]
  obtain f' r' where served: "for_each (complete_item ?g (arrival_of config k)) items
       ((f, ?r), completed_count ?N progress) =
     Inr ((f', r'), completed_count ?N (advance sel progress))"
    "under_way config k ?N (advance sel progress) (\<lambda>_. False) (f', r')"
    "sch_generation (rn_scheduler r') = sch_generation (rn_scheduler ?r)" "same_tallies ?r r'"
    using complete_items_ok [OF fly v nz sel(5,6,7) refl] by blast
  have g': "sch_generation (rn_scheduler r') = ?g"
    using served(3) sel(3) by (simp add: account_batch_def Let_def)
  note less = remaining_advance [OF sel(4,6)]
  have "items \<noteq> []" using sel(4,7) by auto
  then have "serve_batch env config (arrival_of config k) ((f, r), completed_count ?N progress) =
     Inr ((f', r'), completed_count ?N (advance sel progress))"
    using sel(1) served(1) a by (simp add: serve_batch_def allocs_ok_def)
  moreover have "service_state config k (advance sel progress) f' r'"
    using served(2) same_tallies_keep [OF served(4,3)] acc g' un g less
    by (simp add: service_state_def)
  ultimately show thesis using less by (rule that)
qed

lemma serve_ok:
  assumes "service_state config k progress f r" and v: "valid_config config"
    and a: "allocs_ok env" and fits: "radar_fits config"
  obtains progress' f' r' where
    "serve env config (arrival_of config k) ((f, r), completed_count (vehicles_of config) progress) =
       Some (Inr (f', r'))"
    "service_state config k progress' f' r'" "\<forall>j < vehicles_of config. progress' j = 2"
  using assms(1)
proof (induction "remaining (vehicles_of config) progress" arbitrary: progress f r thesis rule: less_induct)
  case less
  let ?N = "vehicles_of config"
  have le2: "\<forall>j < ?N. progress j \<le> 2"
    using less.prems(2) by (simp add: service_state_def under_way_def frame_under_way_def)
  have more: "completed_count ?N progress < cf_vehicle_count config \<longleftrightarrow> (\<exists>j < ?N. progress j < 2)"
    using completed_all(2) [OF le2] unat_u32_lt [of "cf_vehicle_count config"]
    by (simp add: word_less_nat_alt)
  show ?case
  proof (cases "\<exists>j < ?N. progress j < 2")
    case True
    then obtain j where j: "j < ?N" "progress j < 2" by blast
    obtain progress' f' r' where b:
      "serve_batch env config (arrival_of config k) ((f, r), completed_count ?N progress) =
       Inr ((f', r'), completed_count ?N progress')"
      "service_state config k progress' f' r'" "remaining ?N progress' < remaining ?N progress"
      by (rule serve_batch_ok [OF less.prems(2) v a fits j])
    obtain progress'' f'' r'' where
      "serve env config (arrival_of config k) ((f', r'), completed_count ?N progress') =
         Some (Inr (f'', r''))"
      "service_state config k progress'' f'' r''" "\<forall>j < ?N. progress'' j = 2"
      by (rule less.hyps [OF b(3) _ b(2)])
    then show ?thesis
      using b(1) more True by (intro less.prems(1)) (simp_all add: serve.simps)
  next
    case False
    then have "\<forall>j < ?N. progress j = 2" using le2 by (metis le_neq_implies_less)
    then show ?thesis
      using more False less.prems(2) by (intro less.prems(1)) (simp_all add: serve.simps)
  qed
qed

end
