(* ===== verification/RadarProps.thy ===== *)
theory RadarProps
  imports RadarService
begin

text \<open>
  A whole run of the radar scenario: every step ends with all its decisions served, and a valid
  configuration whose sizes fit runs to its end with an exact report.
\<close>

section \<open>The end of a step\<close>

lemma update_vehicle_id [simp]: "vh_id (update_vehicle ops config vehicle observation) = vh_id vehicle"
  by (simp add: update_vehicle_def Let_def split: prod.splits)

lemma image_mset_nth: "length xs = n \<Longrightarrow> image_mset (\<lambda>j. xs ! j) (mset_set {..<n}) = mset xs"
  by (metis map_nth mset_map mset_upt atLeast0LessThan)

lemma move_vehicles_ok:
  assumes w: "world_ok config r" and f: "length (fr_decisions f) = vehicles_of config"
    "length (fr_vehicles f) = vehicles_of config"
  obtains f' vs where "move_vehicles ops config (f, r) = (f', r\<lparr>rn_vehicles := vs\<rparr>)"
    "fr_decisions f' = fr_decisions f" "fr_step f' = fr_step f"
    "length (fr_vehicles f') = vehicles_of config"
    "\<forall>j < vehicles_of config. vh_action (fr_vehicles f' ! j) = dn_action (fr_decisions f ! j)"
    "world_ok config (r\<lparr>rn_vehicles := vs\<rparr>)"
proof -
  define P where "P = (\<lambda>(i :: nat) (f' :: trace_frame, r' :: radar_run). fr_decisions f' = fr_decisions f \<and> fr_step f' = fr_step f \<and>
    length (fr_vehicles f') = vehicles_of config \<and>
    (\<forall>j < i. vh_action (fr_vehicles f' ! j) = dn_action (fr_decisions f ! j)) \<and>
    world_ok config r' \<and> (\<exists>vs. r' = r\<lparr>rn_vehicles := vs\<rparr>))"
  have n: "length (rn_vehicles r) = vehicles_of config" using w by (simp add: world_ok_def)
  have "P (vehicles_of config) (move_vehicles ops config (f, r))"
    unfolding move_vehicles_def prod.case n
  proof (rule fold_upt_inv)
    show "P 0 (f, r)" using w f by (auto simp: P_def intro: exI [of _ "rn_vehicles r"])
  next
    fix i s assume i: "i < vehicles_of config" and s: "P i s"
    obtain f1 r1 where fr: "s = (f1, r1)" by (cases s)
    have p: "fr_decisions f1 = fr_decisions f" "fr_step f1 = fr_step f"
      "length (fr_vehicles f1) = vehicles_of config"
      "\<forall>j < i. vh_action (fr_vehicles f1 ! j) = dn_action (fr_decisions f ! j)"
      "world_ok config r1" "\<exists>vs. r1 = r\<lparr>rn_vehicles := vs\<rparr>"
      using s fr by (simp_all add: P_def)
    show "P (Suc i) ((\<lambda>(frame, r).
        let act = dn_action (fr_decisions frame ! i);
            vehicle = (rn_vehicles r ! i)\<lparr>vh_action := act\<rparr>;
            observation = List.find (\<lambda>seen. rr_observer_id seen = vh_id vehicle)
              (fr_radar_returns frame)
        in (frame\<lparr>fr_vehicles :=
              (fr_vehicles frame)[i := (fr_vehicles frame ! i)\<lparr>vh_action := act\<rparr>]\<rparr>,
            r\<lparr>rn_vehicles :=
              (rn_vehicles r)[i := update_vehicle ops config vehicle observation]\<rparr>)) s)"
      using p i unfolding fr prod.case Let_def P_def
      by (auto simp: nth_list_update less_Suc_eq world_ok_def)
  qed
  then show thesis using that by (auto simp: P_def split: prod.splits)
qed

section \<open>Between steps\<close>

definition between :: "scenario_config \<Rightarrow> nat \<Rightarrow> radar_run \<Rightarrow> bool" where
  "between config k r \<longleftrightarrow>
     radar_sched config (first_of config k) 0 (\<lambda>_. 0) (\<lambda>_. False) (rn_scheduler r) \<and>
     radar_cache config (first_of config k - 998) {} (rn_cache r) \<and>
     rn_next_sequence r = of_nat (first_of config k) \<and> world_ok config r \<and>
     frames_ok config k (rn_frames r) \<and>
     rn_completions r = replicate (vehicles_of config) (of_nat k) \<and>
     counted r (past_decisions r) \<and> tallied config k r \<and> peaks config k r \<and>
     unat (sch_generation (rn_scheduler r)) \<le> 2 * k * vehicles_of config"

lemma first_of_Suc: "first_of config (Suc k) = first_of config k + vehicles_of config"
  by (simp add: first_of_def)

lemma close_step_ok:
  assumes st: "service_state config k progress f r" and all: "\<forall>j < vehicles_of config. progress j = 2"
  shows "between config (Suc k) (close_step env config (f, r))"
proof -
  let ?N = "vehicles_of config"
  have uw: "under_way config k ?N progress (\<lambda>_. False) (f, r)" and t: "tallied config k r"
    and pk: "peaks config (Suc k) r"
    and g: "unat (sch_generation (rn_scheduler r)) + remaining ?N progress \<le> 2 * Suc k * ?N"
    using st by (simp_all add: service_state_def)
  note u = uw [unfolded under_way_def prod.case]
  have fin: "finished ?N progress = {..<?N}" using all by (auto simp: finished_def)
  have none: "live config k ?N progress = {}" using all by (auto simp: live_def)
  let ?m = "rn_metrics r"
  let ?d = "of_nat (length (fr_decisions f)) :: u64"
  let ?r = "r\<lparr>rn_metrics := ?m\<lparr>
      wm_radar_returns := wm_radar_returns ?m + of_nat (length (fr_radar_returns f)),
      wm_decisions := wm_decisions ?m + ?d,
      wm_shared_prefix_tokens_reused :=
        wm_shared_prefix_tokens_reused ?m + ucast (cf_shared_prefix_tokens config) * ?d\<rparr>\<rparr>"
  have fw: "frame_under_way config k ?N progress f" and w: "world_ok config ?r"
    using u by (simp_all add: world_ok_def)
  have len: "length (fr_decisions f) = ?N" "length (fr_vehicles f) = ?N"
    using fw by (simp_all add: frame_under_way_def)
  obtain f' vs where mv: "move_vehicles (re_doubles env) config (f, ?r) = (f', ?r\<lparr>rn_vehicles := vs\<rparr>)"
    "fr_decisions f' = fr_decisions f" "fr_step f' = fr_step f" "length (fr_vehicles f') = ?N"
    "\<forall>j < ?N. vh_action (fr_vehicles f' ! j) = dn_action (fr_decisions f ! j)"
    "world_ok config (?r\<lparr>rn_vehicles := vs\<rparr>)"
    by (rule move_vehicles_ok [OF w len])
  let ?after = "?r\<lparr>rn_vehicles := vs,
      rn_targets := update_targets (re_doubles env) config (rn_targets r),
      rn_frames := rn_frames r @ [f']\<rparr>"
  have closed: "close_step env config (f, r) = ?after"
    unfolding close_step_def prod.case Let_def mv(1) by simp
  have "frame_ok config k f'"
    using fw mv(2-5) all by (simp add: frame_ok_def frame_under_way_def)
  then have frames: "frames_ok config (Suc k) (rn_frames r @ [f'])"
    using u by (auto simp: frames_ok_def nth_append less_Suc_eq)
  have completions: "rn_completions r = replicate ?N (of_nat (Suc k))"
    using u fin by (intro nth_equalityI) auto
  have counts: "counted ?after (past_decisions ?after)"
    using u mv(2) image_mset_nth [OF len(1)] unfolding fin
    by (simp add: counted_def past_decisions_def)
  have tally: "tallied config (Suc k) ?after"
    using t len by (simp add: tallied_def algebra_simps)
  have sched: "radar_sched config (first_of config (Suc k)) 0 (\<lambda>_. 0) (\<lambda>_. False) (rn_scheduler r)"
    unfolding first_of_Suc using u all by (intro radar_sched_next) auto
  have "radar_cache config (first_of config (Suc k) - 998) {} (rn_cache r)"
    unfolding first_of_Suc using u none by simp
  then show ?thesis
    unfolding closed between_def
    using u mv(6) sched frames completions counts tally pk g
    by (simp add: first_of_Suc peaks_def world_ok_def del: of_nat_add)
qed

lemma between_under_way:
  assumes b: "between config k r" and k: "k < unat (cf_steps config)"
    and f: "fr_step f = of_nat k" "fr_vehicles f = rn_vehicles r" "fr_decisions f = []"
  shows "under_way config k 0 (\<lambda>_. 0) (\<lambda>_. False) (f, r\<lparr>rn_cursor := c\<rparr>)"
  using b k f
  by (simp add: between_def under_way_def frame_under_way_def live_def finished_def world_ok_def
      counted_def past_decisions_def)

lemma run_step_ok:
  assumes b: "between config k r" and k: "k < unat (cf_steps config)" and v: "valid_config config"
    and a: "allocs_ok env" and fits: "radar_fits config" and g: "\<And>act. grammar_round_trip dfa act"
  obtains r' where "run_step env config dfa (of_nat k) r = Some (Inr r')" "between config (Suc k) r'"
proof -
  let ?N = "vehicles_of config" and ?D = "re_doubles env"
  have k32: "k < 2 ^ 32" using k unat_u32_lt [of "cf_steps config"] by simp
  have "unat (ucast (of_nat k :: u32) :: u64) = unat (of_nat k :: u64)"
    using k32 by (simp add: unat_u32_of_nat unat_u64_of_nat)
  then have "ucast (of_nat k :: u32) = (of_nat k :: u64)" by (rule unat_inject [THEN iffD1])
  then have arrival: "ucast (of_nat k :: u32) * cf_frame_period config = arrival_of config k"
    by (simp only: arrival_of_def)
  let ?f = "\<lparr>fr_step = of_nat k,
      fr_simulation_seconds = db_mul ?D (db_of_u64 ?D (ucast (of_nat k :: u32)))
        (cf_simulation_step_seconds config),
      fr_vehicles = rn_vehicles r, fr_targets = rn_targets r, fr_radar_returns = [], fr_decisions = []\<rparr>"
  let ?r = "r\<lparr>rn_cursor := max (rn_cursor r) (arrival_of config k)\<rparr>"
  have "under_way config k 0 (\<lambda>_. 0) (\<lambda>_. False) (?f, ?r)"
    by (rule between_under_way [OF b k]) simp_all
  then obtain f2 r2 where r2:
    "for_each (admit env config dfa (arrival_of config k)) [0..<?N] (?f, ?r) = Inr (f2, r2)"
    "under_way config k ?N (\<lambda>_. 0) (\<lambda>_. False) (f2, r2)"
    "rn_metrics r2 = rn_metrics ?r" "sch_generation (rn_scheduler r2) = sch_generation (rn_scheduler ?r)"
    by (rule admissions_ok [OF _ v a g])
  have p2: "peaks config k r2" "tallied config k r2"
    using b r2(3,4) by (simp_all add: between_def peaks_def tallied_def)
  obtain r3 where r3: "measure_pages config r2 = Inr r3"
    "under_way config k ?N (\<lambda>_. 0) (\<lambda>_. False) (f2, r3)" "peaks config (Suc k) r3"
    "tallied config k r2 \<longrightarrow> tallied config k r3" "rn_scheduler r3 = rn_scheduler r2"
    by (rule measure_pages_ok [OF r2(2) v fits p2(1)])
  have zero: "completed_count ?N (\<lambda>_. 0) = 0"
    by (simp add: completed_count_def finished_def)
  have st: "service_state config k (\<lambda>_. 0) f2 r3"
    using r3 p2 r2(4) b by (simp add: service_state_def remaining_def between_def)
  obtain progress f4 r4 where served:
    "serve env config (arrival_of config k) ((f2, r3), completed_count ?N (\<lambda>_. 0)) =
       Some (Inr (f4, r4))"
    "service_state config k progress f4 r4" "\<forall>j < ?N. progress j = 2"
    by (rule serve_ok [OF st v a fits])
  have "run_step env config dfa (of_nat k) r = Some (Inr (close_step env config (f4, r4)))"
    using a r2(1) r3(1) served(1) zero
    by (simp add: run_step_def Let_def arrival allocs_ok_def)
  moreover have "between config (Suc k) (close_step env config (f4, r4))"
    by (rule close_step_ok [OF served(2,3)])
  ultimately show thesis by (rule that)
qed

lemma run_steps_ok:
  assumes v: "valid_config config" and a: "allocs_ok env" and fits: "radar_fits config"
    and g: "\<And>act. grammar_round_trip dfa act"
  shows "between config k r \<Longrightarrow> k + n \<le> unat (cf_steps config) \<Longrightarrow>
    \<exists>r'. run_steps env config dfa (map of_nat [k..<k + n]) r = Some (Inr r') \<and>
      between config (k + n) r'"
proof (induction n arbitrary: k r)
  case (Suc n)
  then have k: "k < unat (cf_steps config)" by simp
  obtain r1 where r1: "run_step env config dfa (of_nat k) r = Some (Inr r1)" "between config (Suc k) r1"
    by (rule run_step_ok [OF Suc.prems(1) k v a fits g])
  have "[k..<k + Suc n] = k # [Suc k..<Suc k + n]" by (simp add: upt_conv_Cons)
  moreover obtain r' where
    "run_steps env config dfa (map of_nat [Suc k..<Suc k + n]) r1 = Some (Inr r')"
    "between config (Suc k + n) r'"
    using Suc.IH [OF r1(2)] Suc.prems(2) by auto
  ultimately show ?case using r1(1) by simp
qed simp

lemma start_run_between:
  assumes rc: "radar_cache config 2 {} c"
  shows "between config 0 (start_run env config c)"
proof -
  have "radar_sched config (first_of config 0) 0 (\<lambda>_. 0) (\<lambda>_. False) new_scheduler"
    by (rule radar_sched_new) (simp_all add: first_of_def)
  then show ?thesis
    using rc by (simp add: between_def start_run_def first_of_def world_ok_def frames_ok_def
        counted_def past_decisions_def tallied_def peaks_def zero_workload_metrics_def
        initial_vehicles_def initial_vehicle_def new_scheduler_def Let_def)
qed

section \<open>The run\<close>

text \<open>What the report of a run of \<open>config\<close> says.\<close>

definition scenario_report :: "double_ops \<Rightarrow> scenario_config \<Rightarrow> scenario_result \<Rightarrow> bool" where
  "scenario_report ops config result \<longleftrightarrow>
     (let m = sr_metrics result;
          decisions = concat (map fr_decisions (sr_frames result));
          latencies = map dn_latency decisions;
          n = unat (cf_steps config) * vehicles_of config
      in sr_config result = config \<and>
         frames_ok config (unat (cf_steps config)) (sr_frames result) \<and>
         wm_decisions m = of_nat n \<and> wm_grammar_valid_decisions m = of_nat n \<and>
         wm_shared_prefix_tokens_reused m = of_nat (unat (cf_shared_prefix_tokens config) * n) \<and>
         wm_deadline_misses m = of_nat (length (filter (\<lambda>d. \<not> dn_deadline_met d) decisions)) \<and>
         unat (wm_peak_physical_kv_pages m) =
           prefix_pages config + sequence_pages config * vehicles_of config \<and>
         wm_peak_unshared_kv_pages m = of_nat (unshared_pages config) \<and>
         unat (wm_maximum_batch_size m) \<le>
           min (unat (cf_maximum_batch_size config)) (vehicles_of config) \<and>
         unat (wm_scheduler_batches m) \<le> 2 * n \<and>
         wm_p50_latency m = quantile ops latencies 0x3FE0000000000000 \<and>
         wm_p95_latency m = quantile ops latencies 0x3FEE666666666666 \<and>
         wm_p99_latency m = quantile ops latencies 0x3FEFAE147AE147AE)"

lemma quantile_mset: "mset xs = mset ys \<Longrightarrow> quantile ops xs p = quantile ops ys p"
proof -
  assume eq: "mset xs = mset ys"
  then have "sort xs = sort ys" by (intro properties_for_sort) simp_all
  moreover have "xs = [] \<longleftrightarrow> ys = []" using eq by auto
  ultimately show ?thesis by (simp add: quantile_def)
qed

lemma summarize_counters:
  "wm_decisions (summarize ops config r) = wm_decisions (rn_metrics r)"
  "wm_grammar_valid_decisions (summarize ops config r) = wm_grammar_valid_decisions (rn_metrics r)"
  "wm_shared_prefix_tokens_reused (summarize ops config r) = wm_shared_prefix_tokens_reused (rn_metrics r)"
  "wm_deadline_misses (summarize ops config r) = wm_deadline_misses (rn_metrics r)"
  "wm_peak_physical_kv_pages (summarize ops config r) = wm_peak_physical_kv_pages (rn_metrics r)"
  "wm_peak_unshared_kv_pages (summarize ops config r) = wm_peak_unshared_kv_pages (rn_metrics r)"
  "wm_maximum_batch_size (summarize ops config r) = wm_maximum_batch_size (rn_metrics r)"
  "wm_scheduler_batches (summarize ops config r) = wm_scheduler_batches (rn_metrics r)"
  "wm_p50_latency (summarize ops config r) = quantile ops (rn_latencies r) 0x3FE0000000000000"
  "wm_p95_latency (summarize ops config r) = quantile ops (rn_latencies r) 0x3FEE666666666666"
  "wm_p99_latency (summarize ops config r) = quantile ops (rn_latencies r) 0x3FEFAE147AE147AE"
  by (simp_all add: summarize_def Let_def split: prod.splits)

lemma report_ok:
  assumes b: "between config (unat (cf_steps config)) r" and v: "valid_config config"
  shows "scenario_report ops config
    \<lparr>sr_config = config, sr_metrics = summarize ops config r, sr_frames = rn_frames r\<rparr>"
proof -
  let ?k = "unat (cf_steps config)" and ?D = "concat (map fr_decisions (rn_frames r))"
  note d = b [unfolded between_def]
  have steps: "?k \<noteq> 0" using v by (auto simp: valid_config_def unat_eq_0)
  have frames: "frames_ok config ?k (rn_frames r)" using d by blast
  have "map (\<lambda>f. length (fr_decisions f)) (rn_frames r) = map (\<lambda>_. vehicles_of config) (rn_frames r)"
    using frames unfolding frames_ok_def frame_ok_def by (intro map_cong) (auto simp: in_set_conv_nth)
  then have len: "length ?D = ?k * vehicles_of config"
    using frames by (simp add: length_concat comp_def sum_list_triv frames_ok_def del: map_eq_conv)
  have lat: "mset (rn_latencies r) = mset (map dn_latency ?D)"
    and miss: "wm_deadline_misses (rn_metrics r) =
      of_nat (length (filter (\<lambda>d. \<not> dn_deadline_met d) ?D))"
    and valid: "wm_grammar_valid_decisions (rn_metrics r) = of_nat (length ?D)"
    using d by (simp_all add: counted_def past_decisions_def flip: mset_filter)
  have tally: "wm_decisions (rn_metrics r) = of_nat (?k * vehicles_of config)"
    "wm_shared_prefix_tokens_reused (rn_metrics r) =
       of_nat (unat (cf_shared_prefix_tokens config) * (?k * vehicles_of config))"
    "unat (wm_maximum_batch_size (rn_metrics r)) \<le>
       min (unat (cf_maximum_batch_size config)) (vehicles_of config)"
    "unat (wm_scheduler_batches (rn_metrics r)) \<le> 2 * (?k * vehicles_of config)"
    using d by (simp_all add: tallied_def)
  have peak: "unat (wm_peak_physical_kv_pages (rn_metrics r)) =
      prefix_pages config + sequence_pages config * vehicles_of config"
    "wm_peak_unshared_kv_pages (rn_metrics r) = of_nat (unshared_pages config)"
    using d steps by (simp_all add: peaks_def)
  show ?thesis
    unfolding scenario_report_def Let_def scenario_result.select_convs summarize_counters
    using frames tally peak miss valid [unfolded len] quantile_mset [OF lat] by blast
qed

text \<open>
  (C5) A run of a valid configuration whose sizes fit 64 bits, with enough memory, always ends
  and never fails: the shared prefix and every sequence find their pages, every batch holds
  work, and at the end all pages are free. Its report is exact: each step has one decision per
  vehicle, numbered in order, with its action in the grammar, served by some batch, with its
  latency and deadline counted right; the counters are those of all decisions, the percentiles
  are over exactly their latencies, and the peak of physical pages is the prefix once and the
  rest of one sequence per vehicle.
\<close>

theorem radar_run_completes:
  assumes "valid_config config" and "radar_fits config"
    and "allocs_ok env" and "26 \<le> re_dfa_memory env"
  shows "\<exists>result. run_scenario env config = Some (Returned (Inr result)) \<and>
    scenario_report (re_doubles env) config result"
proof -
  let ?k = "unat (cf_steps config)"
  note v = assms(1) and fits = assms(2) and a = assms(3)
  obtain dfa where dfa: "build_action_dfa (re_dfa_memory env) = Returned (Inr dfa)"
    using build_action_dfa_ok [OF assms(4)] by blast
  note g = grammar_round_trip_ok [OF dfa]
  have "cf_kv_page_count config \<noteq> 0" "cf_kv_tokens_per_page config \<noteq> 0"
    using v by (auto simp: valid_config_def)
  then obtain c0 where c0: "kv_create Alloc_ok (cf_kv_page_count config)
      (cf_kv_tokens_per_page config) = Inr c0"
    by (simp add: kv_create_def)
  obtain c where c: "start_cache env config c0 = Inr c" "radar_cache config 2 {} c"
    by (rule start_cache_ok [OF v a c0])
  obtain r where r: "run_steps env config dfa (map of_nat [0..<0 + ?k]) (start_run env config c) =
      Some (Inr r)" "between config (0 + ?k) r"
    using run_steps_ok [OF v a fits g start_run_between [OF c(2)], of ?k] by auto
  have "radar_cache config (first_of config ?k - 998) {} (rn_cache r)"
    using r(2) by (simp add: between_def)
  note finish = finish_run_ok [OF this v a]
  have "run_scenario env config = Some (Returned (Inr \<lparr>sr_config = config,
      sr_metrics = summarize (re_doubles env) config r, sr_frames = rn_frames r\<rparr>))"
    using v a dfa c0 c(1) r(1) finish by (simp add: run_scenario_def allocs_ok_def)
  moreover have "scenario_report (re_doubles env) config \<lparr>sr_config = config,
      sr_metrics = summarize (re_doubles env) config r, sr_frames = rn_frames r\<rparr>"
    using report_ok [OF _ v] r(2) by simp
  ultimately show ?thesis by blast
qed

definition demo_doubles :: double_ops where
  "demo_doubles = \<lparr>db_add = (+), db_sub = (-), db_mul = (\<lambda>x y. x), db_div = (\<lambda>x y. x),
     db_hypot = (\<lambda>x y. x), db_atan2 = (\<lambda>x y. x), db_cos = id, db_sin = id, db_ceil = id,
     db_of_u64 = id, db_to_u64 = id\<rparr>"

definition demo_radar_env :: radar_env where
  "demo_radar_env = \<lparr>re_doubles = demo_doubles, re_dfa_memory = 26, re_alloc = (\<lambda>_. Alloc_ok)\<rparr>"

text \<open>The default configuration of the header.\<close>

definition default_scenario :: scenario_config where
  "default_scenario =
     \<lparr>cf_steps = 48, cf_vehicle_count = 32, cf_target_count = 6, cf_maximum_batch_size = 8,
      cf_prompt_tokens = 68, cf_output_tokens = 2, cf_shared_prefix_tokens = 64,
      cf_kv_tokens_per_page = 16, cf_kv_page_count = 256, cf_frame_period = 20000,
      cf_decision_deadline = 8000, cf_seed = 0x56454c4f52554d,
      cf_simulation_step_seconds = 0x3FD0000000000000, cf_world_half_extent = 0x406B800000000000,
      cf_radar_range = 0x4066800000000000, cf_radar_range_noise = 0x3FE8000000000000,
      cf_radar_bearing_noise = 0x3F789374BC6A7EFA\<rparr>"

lemma default_scenario_ok: "valid_config default_scenario" "radar_fits default_scenario"
  "unat (cf_steps default_scenario) = 48" "vehicles_of default_scenario = 32"
  "prefix_pages default_scenario = 4" "sequence_pages default_scenario = 1"
proof -
  show "valid_config default_scenario"
    by (simp add: valid_config_def default_scenario_def f64_less_eq_def f64_less_def f64_is_nan_def
        f64_magnitude_def f64_order_def f64_is_finite_def scenario_pages_for_def)
  show "unat (cf_steps default_scenario) = 48" "vehicles_of default_scenario = 32"
    "prefix_pages default_scenario = 4" "sequence_pages default_scenario = 1"
    by (simp_all add: default_scenario_def prefix_pages_def sequence_pages_def npages_def)
  then show "radar_fits default_scenario" by (simp add: radar_fits_def default_scenario_def)
qed

theorem radar_run_completes_witness:
  "\<exists>result. run_scenario demo_radar_env default_scenario = Some (Returned (Inr result)) \<and>
     wm_decisions (sr_metrics result) = 1536 \<and>
     unat (wm_peak_physical_kv_pages (sr_metrics result)) = 36"
proof -
  have a: "allocs_ok demo_radar_env" "26 \<le> re_dfa_memory demo_radar_env"
    by (simp_all add: allocs_ok_def demo_radar_env_def)
  obtain result where r: "run_scenario demo_radar_env default_scenario = Some (Returned (Inr result))"
    "scenario_report (re_doubles demo_radar_env) default_scenario result"
    using radar_run_completes [OF default_scenario_ok(1,2) a] by blast
  have "wm_decisions (sr_metrics result) =
      of_nat (unat (cf_steps default_scenario) * vehicles_of default_scenario)"
    "unat (wm_peak_physical_kv_pages (sr_metrics result)) =
      prefix_pages default_scenario + sequence_pages default_scenario * vehicles_of default_scenario"
    using r(2) unfolding scenario_report_def Let_def by blast+
  with r(1) show ?thesis by (intro exI [of _ result]) (simp add: default_scenario_ok(3-6))
qed

end
