(* ===== verification/RadarFailures.thy ===== *)
theory RadarFailures
  imports RadarProps
begin

text \<open>
  The radar scenario when allocations fail: a component whose allocation fails reports it and
  changes nothing, the run stops there, and until then it is the run in which no allocation
  fails.
\<close>

section \<open>One call\<close>

text \<open>The code a run returns when the allocation at a site fails.\<close>

fun site_code :: "radar_site \<Rightarrow> alloc \<Rightarrow> error_code" where
  "site_code Cache_site a = alloc_error a"
| "site_code Start_site a = alloc_error a"
| "site_code (Frame_site _) a = alloc_error a"
| "site_code Quantile_site a = alloc_error a"
| "site_code (Selected_site _) a = Insufficient_memory"
| "site_code (Reservation_site _) a = Insufficient_memory"
| "site_code (Commit_site _) a = Insufficient_memory"
| "site_code _ a = Invalid_format"

definition site_failure :: "radar_env \<Rightarrow> status \<Rightarrow> bool" where
  "site_failure env e \<longleftrightarrow>
     (\<exists>site. re_alloc env site \<noteq> Alloc_ok \<and> e = status_failure (site_code site (re_alloc env site)))"

lemma site_failureI:
  "re_alloc env site \<noteq> Alloc_ok \<Longrightarrow> site_code site (re_alloc env site) = e \<Longrightarrow>
     site_failure env (status_failure e)"
  unfolding site_failure_def by blast

lemma site_failure_own [simp]:
  "re_alloc env Cache_site \<noteq> Alloc_ok \<Longrightarrow>
     site_failure env (status_failure (alloc_error (re_alloc env Cache_site)))"
  "re_alloc env Start_site \<noteq> Alloc_ok \<Longrightarrow>
     site_failure env (status_failure (alloc_error (re_alloc env Start_site)))"
  "re_alloc env (Frame_site step) \<noteq> Alloc_ok \<Longrightarrow>
     site_failure env (status_failure (alloc_error (re_alloc env (Frame_site step))))"
  "re_alloc env Quantile_site \<noteq> Alloc_ok \<Longrightarrow>
     site_failure env (status_failure (alloc_error (re_alloc env Quantile_site)))"
  by (auto intro: site_failureI)

text \<open>\<open>x\<close> is \<open>y\<close>, or it stopped because of a site.\<close>

definition falls_short :: "radar_env \<Rightarrow> 'a result \<Rightarrow> 'a result \<Rightarrow> bool" where
  "falls_short env x y \<longleftrightarrow> x = y \<or> (\<exists>e. x = Inl e \<and> site_failure env e)"

lemma falls_short_refl [simp]: "falls_short env x x"
  by (simp add: falls_short_def)

lemma falls_short_Inl [simp]: "site_failure env e \<Longrightarrow> falls_short env (Inl e) y"
  by (simp add: falls_short_def)

lemma falls_short_bind:
  assumes "falls_short env x y" "\<And>v. falls_short env (f v) (g v)"
  shows "falls_short env (case x of Inl e \<Rightarrow> Inl e | Inr v \<Rightarrow> f v)
    (case y of Inl e \<Rightarrow> Inl e | Inr v \<Rightarrow> g v)"
proof (cases "x = y")
  case True
  then show ?thesis using assms(2) by (cases y) simp_all
next
  case False
  then show ?thesis using assms(1) by (auto simp: falls_short_def)
qed

text \<open>The code's checks of a call: of its status, of its result.\<close>

lemma short_status:
  assumes "p = q \<or> \<not> status_ok (fst p) \<and> site_failure env (status_failure e)"
    and "\<And>s c. falls_short env (f s c) (g s c)"
  shows "falls_short env (case p of (s, c) \<Rightarrow> if \<not> status_ok s then fail e else f s c)
    (case q of (s, c) \<Rightarrow> if \<not> status_ok s then fail e else g s c)"
  using assms by (cases p; cases q) auto

lemma short_result:
  assumes "p = q \<or> (\<exists>e' c. p = (Inl e', c)) \<and> site_failure env (status_failure e)"
    and "\<And>v c. falls_short env (f v c) (g v c)"
  shows "falls_short env (case p of (Inl _, _) \<Rightarrow> fail e | (Inr v, c) \<Rightarrow> f v c)
    (case q of (Inl _, _) \<Rightarrow> fail e | (Inr v, c) \<Rightarrow> g v c)"
  using assms by (cases p; cases q) (auto split: sum.splits)

definition calm :: "radar_env \<Rightarrow> radar_env" where
  "calm env = env\<lparr>re_alloc := (\<lambda>_. Alloc_ok)\<rparr>"

lemma calm_simps [simp]:
  "re_doubles (calm env) = re_doubles env" "re_dfa_memory (calm env) = re_dfa_memory env"
  "re_alloc (calm env) site = Alloc_ok" "allocs_ok (calm env)"
  by (simp_all add: calm_def allocs_ok_def)

lemma enqueue_short:
  "enqueue (re_alloc env (Enqueue_site i)) q s = enqueue Alloc_ok q s \<or>
     \<not> status_ok (fst (enqueue (re_alloc env (Enqueue_site i)) q s)) \<and>
     site_failure env (status_failure Invalid_format)"
  using site_failureI [of env "Enqueue_site i"] by (auto simp: enqueue_def)

lemma kv_create_sequence_short:
  assumes "site_code site (re_alloc env site) = Invalid_format"
  shows "kv_create_sequence (re_alloc env site) i p c = kv_create_sequence Alloc_ok i p c \<or>
     \<not> status_ok (fst (kv_create_sequence (re_alloc env site) i p c)) \<and>
     site_failure env (status_failure Invalid_format)"
  using site_failureI [OF _ assms] by (auto simp: kv_create_sequence_def Let_def)

lemma kv_reserve_short:
  assumes "site_code site1 (re_alloc env site1) = e" "site_code site2 (re_alloc env site2) = e"
  shows "kv_reserve (re_alloc env site1) (re_alloc env site2) i t c =
      kv_reserve Alloc_ok Alloc_ok i t c \<or>
     (\<exists>e c'. kv_reserve (re_alloc env site1) (re_alloc env site2) i t c = (Inl e, c')) \<and>
     site_failure env (status_failure e)"
  using site_failureI [OF _ assms(1)] site_failureI [OF _ assms(2)]
  by (auto simp: kv_reserve_def Let_def split: option.splits)

lemma kv_commit_short:
  assumes "site_code site (re_alloc env site) = e"
  shows "kv_commit (re_alloc env site) i c = kv_commit Alloc_ok i c \<or>
     \<not> status_ok (fst (kv_commit (re_alloc env site) i c)) \<and> site_failure env (status_failure e)"
  using site_failureI [OF _ assms] by (auto simp: kv_commit_def split: option.splits)

lemma kv_publish_prefix_short:
  "kv_publish_prefix (re_alloc env Publish_site) p i c = kv_publish_prefix Alloc_ok p i c \<or>
     \<not> status_ok (fst (kv_publish_prefix (re_alloc env Publish_site) p i c)) \<and>
     site_failure env (status_failure Invalid_format)"
  using site_failureI [of env Publish_site] by (auto simp: kv_publish_prefix_def split: option.splits)

lemma schedule_short:
  "schedule (re_alloc env (Schedule_site n)) (re_alloc env (Batch_site n)) m s =
      schedule Alloc_ok Alloc_ok m s \<or>
     (\<exists>e s'. schedule (re_alloc env (Schedule_site n)) (re_alloc env (Batch_site n)) m s = (Inl e, s')) \<and>
     site_failure env (status_failure Invalid_format)"
  using site_failureI [of env "Schedule_site n"] site_failureI [of env "Batch_site n"]
  by (auto simp: schedule_def Let_def)

section \<open>The run\<close>

lemma start_cache_short: "falls_short env (start_cache env config c) (start_cache (calm env) config c)"
  unfolding start_cache_def calm_simps Let_def
  by (intro short_status short_result falls_short_refl kv_create_sequence_short
      kv_reserve_short kv_commit_short kv_publish_prefix_short site_code.simps)

lemma admit_short:
  "falls_short env (admit env config dfa arrival i s) (admit (calm env) config dfa arrival i s)"
proof -
  obtain f r where s: "s = (f, r)" by (cases s)
  have decide: "decide (calm env) config dfa arrival i f r = decide env config dfa arrival i f r"
    by (simp add: decide_def)
  obtain f' valid r' where d: "decide env config dfa arrival i f r = (f', valid, r')"
    by (rule prod_cases3)
  show ?thesis
  proof (cases valid)
    case True
    then show ?thesis
      unfolding s admit_def calm_simps Let_def prod.case decide d if_cancel
      by (simp only: not_True_eq_False if_False)
        (intro short_status short_result falls_short_refl enqueue_short
          kv_create_sequence_short kv_reserve_short kv_commit_short site_code.simps)
  next
    case False
    then show ?thesis unfolding s admit_def calm_simps Let_def prod.case decide d by simp
  qed
qed

lemma for_each_short:
  assumes "\<And>i s. falls_short env (f i s) (g i s)"
  shows "falls_short env (for_each f xs s) (for_each g xs s)"
proof (induction xs arbitrary: s)
  case (Cons x xs)
  show ?case
    unfolding for_each.simps by (rule falls_short_bind [OF assms Cons.IH])
qed simp

lemma serve_batch_short:
  "falls_short env (serve_batch env config arrival s) (serve_batch (calm env) config arrival s)"
proof -
  obtain f r completed where s: "s = ((f, r), completed)" by (metis prod.collapse)
  let ?t = "wm_scheduler_batches (rn_metrics r)"
  show ?thesis
    using schedule_short [of env ?t "ucast (cf_maximum_batch_size config)" "rn_scheduler r"]
    unfolding s serve_batch_def prod.case Let_def calm_simps by auto
qed

lemma serve_short:
  assumes "serve (calm env) config arrival s = Some y"
  shows "\<exists>x. serve env config arrival s = Some x \<and> falls_short env x y"
proof -
  have "\<forall>env. env' = calm env \<longrightarrow> (\<exists>x. serve env config arrival s = Some x \<and> falls_short env x y)"
    if "serve env' config arrival s = Some y" for env'
  proof (rule serve.raw_induct [OF _ that])
    fix serve' env' config arrival s and y :: "(trace_frame \<times> radar_run) result"
    assume IH: "\<And>env' config arrival s y. serve' env' config arrival s = Some y \<Longrightarrow>
        \<forall>env. env' = calm env \<longrightarrow> (\<exists>x. serve env config arrival s = Some x \<and> falls_short env x y)"
      and body: "(if snd s < cf_vehicle_count config
        then (case serve_batch env' config arrival s of
            Inl e \<Rightarrow> Some (Inl e) | Inr s' \<Rightarrow> serve' env' config arrival s')
        else Some (Inr (fst s))) = Some y"
    show "\<forall>env. env' = calm env \<longrightarrow> (\<exists>x. serve env config arrival s = Some x \<and> falls_short env x y)"
    proof (intro allI impI)
      fix env assume env': "env' = calm env"
      note short = serve_batch_short [of env config arrival s, unfolded falls_short_def]
      show "\<exists>x. serve env config arrival s = Some x \<and> falls_short env x y"
      proof (cases "snd s < cf_vehicle_count config")
        case False
        then show ?thesis using body by (simp add: serve.simps)
      next
        case True
        show ?thesis
        proof (cases "serve_batch env config arrival s")
          case (Inl e)
          then have "serve_batch (calm env) config arrival s = Inl e \<or> site_failure env e"
            using short by auto
          then show ?thesis using Inl body True env' by (auto simp: serve.simps)
        next
          case (Inr s')
          then have "serve_batch (calm env) config arrival s = Inr s'" using short by auto
          then have "serve' env' config arrival s' = Some y" using body True env' by simp
          from IH [OF this] env' show ?thesis using Inr True by (simp add: serve.simps [of env config arrival s])
        qed
      qed
    qed
  qed
  with assms show ?thesis by blast
qed

lemma run_step_short:
  assumes "run_step (calm env) config dfa step r = Some y"
  shows "\<exists>x. run_step env config dfa step r = Some x \<and> falls_short env x y"
proof (cases "re_alloc env (Frame_site step) = Alloc_ok")
  case False
  then show ?thesis by (simp add: run_step_def)
next
  case True
  let ?ar = "ucast step * cf_frame_period config"
  let ?s = "(\<lparr>fr_step = step, fr_simulation_seconds = db_mul (re_doubles env)
        (db_of_u64 (re_doubles env) (ucast step)) (cf_simulation_step_seconds config),
      fr_vehicles = rn_vehicles r, fr_targets = rn_targets r, fr_radar_returns = [],
      fr_decisions = []\<rparr>, r\<lparr>rn_cursor := max (rn_cursor r) ?ar\<rparr>)"
  let ?each = "\<lambda>env. for_each (admit env config dfa ?ar) [0..<unat (cf_vehicle_count config)] ?s"
  have step: "run_step e config dfa step r = (case ?each e of Inl e \<Rightarrow> Some (Inl e)
      | Inr (frame2, r2) \<Rightarrow> (case measure_pages config r2 of Inl e \<Rightarrow> Some (Inl e)
        | Inr r3 \<Rightarrow> (case serve e config ?ar ((frame2, r3), 0) of None \<Rightarrow> None
          | Some (Inl e) \<Rightarrow> Some (Inl e) | Some (Inr fr) \<Rightarrow> Some (Inr (close_step e config fr)))))"
    if "re_doubles e = re_doubles env" "re_alloc e (Frame_site step) = Alloc_ok" for e
    using that by (simp add: run_step_def Let_def)
  have "falls_short env (?each env) (?each (calm env))" by (rule for_each_short) (rule admit_short)
  then consider e where "?each env = Inl e" "site_failure env e" | "?each env = ?each (calm env)"
    by (auto simp: falls_short_def)
  then show ?thesis
  proof cases
    case 1
    then show ?thesis using True by (simp add: step)
  next
    case same: 2
    show ?thesis
    proof (cases "\<exists>f2 r2 r3. ?each env = Inr (f2, r2) \<and> measure_pages config r2 = Inr r3")
      case False
      then show ?thesis
        using assms True same by (auto simp: step split: sum.splits)
    next
      case True2: True
      then obtain f2 r2 r3 where ok: "?each env = Inr (f2, r2)" "measure_pages config r2 = Inr r3"
        by blast
      obtain y' where "serve (calm env) config ?ar ((f2, r3), 0) = Some y'"
        using assms ok same by (auto simp: step split: option.splits)
      moreover from serve_short [OF this] obtain x' where
        "serve env config ?ar ((f2, r3), 0) = Some x'" "falls_short env x' y'" by blast
      moreover have "close_step (calm env) config fr = close_step env config fr" for fr
        by (simp add: close_step_def)
      ultimately show ?thesis
        using assms True ok same
        by (cases x'; cases y') (auto simp: step falls_short_def)
    qed
  qed
qed

lemma run_steps_short:
  "run_steps (calm env) config dfa steps r = Some y \<Longrightarrow>
     \<exists>x. run_steps env config dfa steps r = Some x \<and> falls_short env x y"
proof (induction steps arbitrary: r)
  case (Cons step steps)
  then obtain y1 where y1: "run_step (calm env) config dfa step r = Some y1"
    by (auto split: option.splits)
  then obtain x1 where x1: "run_step env config dfa step r = Some x1" "falls_short env x1 y1"
    using run_step_short by blast
  show ?case
    using Cons y1 x1 by (cases x1; cases y1) (auto simp: falls_short_def)
qed simp

lemma finish_run_short: "falls_short env (finish_run env config r) (finish_run (calm env) config r)"
  by (auto simp: finish_run_def Let_def split: prod.splits sum.splits)

text \<open>
  (C6) Whatever allocations fail, a run of a valid configuration whose sizes fit 64 bits ends.
  When one of the first five allocations fails, those of the choices in \<open>build_action_dfa\<close>, the
  program is terminated, and only then. Otherwise the run returns a report that is as exact
  as that of a run with enough memory, or \<open>allocation_failed\<close> because the automaton could not be
  built, or a code that an allocation at a site has failed with: the site's own error where
  the run allocates itself or creates the cache, \<open>insufficient_memory\<close> where pages of a
  decision were being reserved and committed, \<open>invalid_format\<close> where the prefix was being set
  up, a sequence admitted or a batch scheduled.
\<close>

theorem radar_run_ends:
  assumes v: "valid_config config" and fits: "radar_fits config"
  shows "case run_scenario env config of
      None \<Rightarrow> False
    | Some Terminated \<Rightarrow> re_dfa_memory env < 5
    | Some (Returned (Inl e)) \<Rightarrow> 5 \<le> re_dfa_memory env \<and>
        (e = status_failure Allocation_failed \<and> re_dfa_memory env < 26 \<or> site_failure env e)
    | Some (Returned (Inr result)) \<Rightarrow> 5 \<le> re_dfa_memory env \<and>
        scenario_report (re_doubles env) config result"
proof (cases rule: build_action_dfa_cases [of "re_dfa_memory env"])
  case 1
  then show ?thesis using v by (simp add: run_scenario_def)
next
  case 2
  then show ?thesis using v by (simp add: run_scenario_def)
next
  case (3 dfa)
  note built = 3
  note g = grammar_round_trip_ok [OF built(2)]
  have nz: "cf_kv_page_count config \<noteq> 0" "cf_kv_tokens_per_page config \<noteq> 0"
    using v by (auto simp: valid_config_def)
  then obtain c0 where c0: "kv_create Alloc_ok (cf_kv_page_count config)
      (cf_kv_tokens_per_page config) = Inr c0"
    by (simp add: kv_create_def)
  obtain c where c: "start_cache (calm env) config c0 = Inr c" "radar_cache config 2 {} c"
    by (rule start_cache_ok [OF v calm_simps(4) c0])
  let ?steps = "map of_nat [0..<unat (cf_steps config)]"
  obtain r where r: "run_steps (calm env) config dfa ?steps (start_run (calm env) config c) =
      Some (Inr r)" "between config (unat (cf_steps config)) r"
    using run_steps_ok [OF v calm_simps(4) fits g start_run_between [OF c(2), of "calm env"],
      of "unat (cf_steps config)"] by auto
  have start: "start_run (calm env) config c = start_run env config c" by (simp add: start_run_def)
  obtain x where x: "run_steps env config dfa ?steps (start_run env config c) = Some x"
    "falls_short env x (Inr r)"
    using run_steps_short [OF r(1)] unfolding start by blast
  have "radar_cache config (first_of config (unat (cf_steps config)) - 998) {} (rn_cache r)"
    using r(2) by (simp add: between_def)
  note finish = finish_run_ok [OF this v calm_simps(4)]
  note report = report_ok [OF r(2) v, of "re_doubles env"]
  have sc: "falls_short env (start_cache env config c0) (Inr c)"
    using start_cache_short [of env config c0] c(1) by simp
  show ?thesis
  proof (cases "re_alloc env Cache_site = Alloc_ok \<and> start_cache env config c0 = Inr c \<and>
      re_alloc env Start_site = Alloc_ok \<and> x = Inr r")
    case True
    then show ?thesis
      using v built c0 x(1) finish finish_run_short [of env config r] report
      by (auto simp: run_scenario_def falls_short_def)
  next
    case False
    then show ?thesis
      using v built c0 nz x sc
      by (cases x) (auto simp: run_scenario_def falls_short_def kv_create_def)
  qed
qed

theorem radar_run_ends_witness:
  "\<exists>e. run_scenario (demo_radar_env\<lparr>re_alloc := (\<lambda>_. Bad_alloc)\<rparr>) default_scenario =
       Some (Returned (Inl e)) \<and>
     (e = status_failure Allocation_failed \<or> site_failure (demo_radar_env\<lparr>re_alloc := (\<lambda>_. Bad_alloc)\<rparr>) e)"
proof -
  let ?env = "demo_radar_env\<lparr>re_alloc := (\<lambda>_. Bad_alloc)\<rparr>"
  obtain dfa where "build_action_dfa (re_dfa_memory ?env) = Returned (Inr dfa)"
    using build_action_dfa_ok [of 26] by (auto simp: demo_radar_env_def)
  moreover have "kv_create Bad_alloc (cf_kv_page_count default_scenario)
      (cf_kv_tokens_per_page default_scenario) = fail Allocation_failed"
    by (simp add: kv_create_def default_scenario_def)
  ultimately have "run_scenario ?env default_scenario = Some (Returned (fail Allocation_failed))"
    using default_scenario_ok(1) by (simp add: run_scenario_def)
  with radar_run_ends [OF default_scenario_ok(1,2), of ?env] show ?thesis by auto
qed

end
