(* ===== verification/Spec2Isabelle.thy ===== *)
theory Spec2Isabelle
  imports PagedKvProps SchedulerProps MarketProps GrammarClaims HostBuffer ModelSpec WeightsDemo ModelConfigProps
    CpuEngineClaims RadarFailures
begin

text \<open>
  A model of market_sim (namespace \<open>marketforge\<close>): a C++20 runtime for constrained decoding
  with small language models, and a batch-auction market whose actions the models emit. The
  parts and how they interact: a checkpoint is mapped, its header parsed as JSON and its
  tensors bound to the layers of a specification read from a configuration file; the CPU
  engine copies them into one float buffer. A token automaton built from the encodings of
  market actions restricts what is generated, and what it decodes is an action for the
  market. The engine runs the tokens of a prompt, and one token at a time after it, through the
  decoder layers, whose kernels work on float tensors in memory, and keeps the keys and
  values of every token in a cache. The serving layer keeps a page table of keys and values per sequence and picks
  the sequences of the next batch; a simulated radar mission is a workload that drives the
  serving layer and an automaton together. The library is written in layers: a theory with the
  definitions of a component follows its source file, and a theory with the suffix \<open>Props\<close>
  (or the section after the definitions) holds what is proved of it.

  \<^item> Prelude: words as naturals, lists searched and updated by key, the locale
    \<open>guarded_machine\<close> of state machines whose failed operations change nothing.
  \<^item> Core (\<open>core/status.hpp\<close>, \<open>result.hpp\<close>, \<open>checked_math.hpp\<close>): a status is a record, a result
    a sum whose left side is the status; the guarded 64-bit operations fail exactly when
    the mathematical result does not fit.
  \<^item> HostBuffer (\<open>core/host_buffer.cpp\<close>): buffers over a heap of live blocks; no client program
    frees twice, and the buffers own exactly the live blocks.
  \<^item> Tensor (\<open>core/dtype.hpp\<close>, \<open>shape.cpp\<close>, \<open>tensor_view.hpp\<close>): shapes of at most six extents;
    row-major offsets number the index tuples one to one.
  \<^item> ModelSpec (\<open>model/model_spec.cpp\<close>): parameter counts and memory footprints, exact or
    refused, through the calculus of \<open>fits\<close>, a natural number as a 64-bit result.
  \<^item> Json, Utf8, JsonProps (\<open>model/json_parser.cpp\<close>): the parser over the unread rest of the
    bytes; UTF-8 validation accepts exactly the encodings of scalar values, the parser is
    total, and accepted values are well formed.
  \<^item> SafeTensors, SafeTensorsProps (\<open>model/safetensors.cpp\<close>): the header of a checkpoint; the
    tensors cover the data exactly and their views lie inside the mapping.
  \<^item> LoadedWeights, LoadedWeightsProps (\<open>model/loaded_weights.cpp\<close>): binding of tensors to
    layers, accepted exactly for the files that have the tensors of the architecture.
  \<^item> Doubles: comparisons of doubles on their bit patterns, and the arguments that stand for
    arithmetic and for the conversion of text. ModelConfig, ModelConfigProps
    (\<open>model/model_config.cpp\<close>): the configurations that are accepted, with the tests of the
    real numbers in them.
  \<^item> CpuWeights, CpuWeightsProps (\<open>materialize_smollm2\<close> of \<open>cpu/smollm2.cpp\<close>): the copy of the
    weights; WeightsDemo parses a small checkpoint and applies the theorems on weights to it.
  \<^item> CpuOperators, CpuKernels, CpuLayer, CpuDecoder (\<open>cpu/operators.cpp\<close>): the float kernels, their
    checks and the decoder layer. CpuReference says what they compute over vectors;
    CpuKernelLoops, CpuLayerLoops and CpuAttentionLoops show it of the loops, CpuChecks of the
    checks, CpuKernelProps, CpuAttentionProps and CpuClaims of the kernels as a whole.
  \<^item> CpuWorkspace, CpuLayerChecks, CpuLayerSteps, CpuLayerCache, CpuLayerReference,
    CpuAttentionPhase, CpuAttentionRun, CpuLayerRun, CpuLayerProps: the decoder layer, from the
    pieces of its workspace over its steps and its two phases to the theorem on the layer.
  \<^item> CpuSmolLm2 (\<open>cpu/smollm2.cpp\<close>): the engine; CpuGreedy the choice of the next token.
    CpuModel is the model without a cache, over the whole history of tokens. CpuEngineLayout,
    CpuEngineAccepts, CpuEngineCache, CpuEngineRun and CpuEngineForward carry the layer theorem
    to a forward pass, CpuEngineProps to any sequence of calls, and CpuEngineClaims states that
    the engine answers as the model without a cache; CpuDemo has a small engine as witness.
  \<^item> Action (\<open>grammar/action.cpp\<close>), Grammar (\<open>grammar/token_dfa.cpp\<close>), ActionDfa
    (\<open>grammar/action_dfa.cpp\<close>), GrammarProps, GrammarBuild, GrammarClaims: the construction of
    the trie and its tables, and the queries, of each of the two classes. They are shown to
    agree; the locale \<open>token_automaton\<close> states what an automaton promises and is interpreted
    for both; construction succeeds exactly for prefix-free languages within the limits.
  \<^item> Catalog (\<open>grammar/smollm2_market_actions.cpp\<close>, \<open>tools/market_trace.cpp\<close>): the generated
    encodings are an argument; encoding and decoding are inverse.
  \<^item> Market, MarketProps (\<open>market/batch_market.cpp\<close>): account creation and clearing, with every
    early return; conservation, the choice of the tick, priority, settlement, errors.
  \<^item> PagedKv, PagedKvInv, PagedKvProps (\<open>serving/paged_kv_cache.cpp\<close>): the page allocator; an
    invariant of ownership kept by all operations, isolation of page tables, exact metrics.
  \<^item> Scheduler, SchedulerProps (\<open>serving/sequence_scheduler.cpp\<close>): round robin, no starvation,
    exclusive batches, the phase diagram.
  \<^item> Radar, RadarRun (\<open>workloads/radar_simulation.cpp\<close>): vehicles, targets and their noisy
    returns; \<open>run_scenario\<close>, which in every step turns a choice of each vehicle into a
    sequence of the scheduler and of the paged cache and serves batches until all are complete.
    RadarCache and RadarSched say what the run keeps of the cache and of the scheduler,
    RadarSteps what admission and RadarService what a batch adds to it. RadarProps proves that
    a run with enough memory ends with an exact report, RadarFailures that any run ends, with
    a report or the code of a failed allocation. The service loop is a partial function that
    may not end; that it ends is proved with the tokens still to come as a measure. The bounds
    (\<open>radar_fits\<close>) are that the pages of a step and the batches of a run can be counted in 64
    bits, and 26 allocations are enough for the automaton of the five actions. The first five of
    them are made in a \<open>noexcept\<close> function without a handler: when one fails the program is
    terminated, which is an outcome of its own (\<open>Terminated\<close>).

  Modelling choices. Unsigned integers are words of their width, and wrap as in C++;
  \<open>std::size_t\<close> has 64 bits. Signed cash amounts are integers with the guards of the code
  written out. Hash maps are association lists or searches by key. An operation that can
  throw takes the outcomes of its allocations as arguments and returns the state unchanged
  as the code does. Calls that would be undefined behaviour are the value None, and theorems
  show that they do not occur. Loops are structural recursion, or folds over index ranges;
  the loops of the JSON parser take fuel, the length of the input, which is enough as
  each round consumes a byte (\<open>json_parser_total\<close>).

  Floats and doubles are bit patterns. Their arithmetic and the library functions, whose rounding and
  contraction the language leaves open, are an argument (\<open>float_ops\<close>) of which nothing is
  assumed, as is that of doubles (\<open>double_ops\<close>): the theorems say which operations are applied to which values in which order, so
  they hold to the last bit. Comparisons, sign changes and tests for finite values are exact.
  Memory maps addresses to floats; tensors are views into it as in the code, so that overlap
  is a matter of addresses and what a kernel may write is part of every theorem.

  Not modelled. The CUDA sources (\<open>src/cuda\<close>, the benches and probes under \<open>src/tools\<close>) are
  device code and calls to the CUDA runtime and cuBLAS; mapped files are calls to the
  operating system, and their outcome is an argument where a file is opened; the command
  line tools only print. The allocations of the parsers of JSON, checkpoints and
  configurations are not modelled: these functions handle no \<open>std::bad_alloc\<close>, which leaves
  them as an exception, or ends the program where \<open>load_model_config\<close> is \<open>noexcept\<close>. The
  build of \<open>linear_f32\<close> with the Accelerate library is not modelled, nor is the printing of a
  workload's report (\<open>write_trace_json\<close>).
\<close>

end
